(* ===== verification/Prelude.thy ===== *)
theory Prelude
  imports Main "HOL-Library.Word"
begin

text \<open>
  Shared vocabulary of the development: the machine integers of the Rust code, the casts and the
  checked, saturating and wrapping operations it uses on them, the list operations of the Rust
  standard library that the components share (\<open>retain_mut\<close>, the bounded window kept by
  \<open>push_back\<close> and \<open>pop_front\<close>, \<open>trim\<close>), and the locale that turns a one-step invariant into an
  invariant of every run. Signed and unsigned integers of one width are the same words: \<open>unat\<close> and
  \<open>uint\<close> read a word as unsigned, \<open>sint\<close> as signed, so \<open>x as i64\<close> of a \<open>u64\<close> is \<open>x\<close> itself.
  Arithmetic without an explicit check wraps around, as it does in the release build of the
  workspace (\<open>profile.release\<close> of \<open>api/Cargo.toml\<close> does not enable overflow checks).
\<close>

named_theorems rust_int "unfolding of the machine-integer operations"

section \<open>Machine integers\<close>

type_synonym u8 = "8 word"
type_synonym u16 = "16 word"
type_synonym u32 = "32 word"
type_synonym u64 = "64 word"
type_synonym i16 = "16 word"
type_synonym i32 = "32 word"
type_synonym i64 = "64 word"
type_synonym uuid = "128 word"

definition i64_ok :: "int \<Rightarrow> bool" where
  "i64_ok x \<longleftrightarrow> - (2 ^ 63) \<le> x \<and> x < 2 ^ 63"

definition i64_of :: "int \<Rightarrow> i64" where
  "i64_of x = word_of_int x"

lemma sint_i64_of [simp]: "i64_ok x \<Longrightarrow> sint (i64_of x) = x"
  by (simp add: i64_ok_def i64_of_def sint_sbintrunc' signed_take_bit_int_eq_self)

lemma i64_ok_sint [simp]: "i64_ok (sint (w :: i64))"
  using sint_ge [of w] sint_lt [of w] by (simp add: i64_ok_def)

lemma i64_ok_0 [simp]: "i64_ok 0"
  by (simp add: i64_ok_def)

text \<open>\<open>i64::checked_mul\<close>, \<open>i64::checked_div\<close> (truncating towards zero) and the saturating operations.\<close>

definition i64_checked_mul :: "i64 \<Rightarrow> i64 \<Rightarrow> i64 option" where
  "i64_checked_mul a b = (if i64_ok (sint a * sint b) then Some (a * b) else None)"

definition trunc_div :: "int \<Rightarrow> int \<Rightarrow> int" where
  "trunc_div a b = sgn a * sgn b * (\<bar>a\<bar> div \<bar>b\<bar>)"

definition i64_checked_div :: "i64 \<Rightarrow> i64 \<Rightarrow> i64 option" where
  "i64_checked_div a b =
     (if sint b = 0 \<or> \<not> i64_ok (trunc_div (sint a) (sint b)) then None
      else Some (i64_of (trunc_div (sint a) (sint b))))"

definition i64_saturating_add :: "i64 \<Rightarrow> i64 \<Rightarrow> i64" where
  "i64_saturating_add a b = i64_of (max (- (2 ^ 63)) (min (2 ^ 63 - 1) (sint a + sint b)))"

text \<open>\<open>i64::abs\<close> in the release build: the absolute value of \<open>i64::MIN\<close> wraps to itself.\<close>

definition i64_abs :: "i64 \<Rightarrow> i64" where
  "i64_abs a = (if sint a < 0 then - a else a)"

definition u64_saturating_add :: "u64 \<Rightarrow> u64 \<Rightarrow> u64" where
  "u64_saturating_add a b = (if uint a + uint b < 2 ^ 64 then a + b else 18446744073709551615)"

definition word_saturating_sub :: "'a::len word \<Rightarrow> 'a word \<Rightarrow> 'a word" where
  "word_saturating_sub a b = (if a < b then 0 else a - b)"

declare i64_checked_mul_def [rust_int] i64_checked_div_def [rust_int]
  i64_saturating_add_def [rust_int] i64_abs_def [rust_int]
  u64_saturating_add_def [rust_int] word_saturating_sub_def [rust_int]

lemma sint_mult_i64:
  "i64_ok (sint a * sint b) \<Longrightarrow> sint (a * b) = sint a * sint (b :: i64)"
proof -
  assume ok: "i64_ok (sint a * sint b)"
  have "a * b = i64_of (sint a * sint b)"
    by (simp add: i64_of_def wi_hom_syms)
  with ok show ?thesis
    by simp
qed

lemma i64_checked_mul_Some:
  "i64_checked_mul a b = Some c \<Longrightarrow> sint c = sint a * sint b"
  by (auto simp: i64_checked_mul_def sint_mult_i64 split: if_splits)

lemma trunc_div_nonneg: "0 \<le> a \<Longrightarrow> 0 < b \<Longrightarrow> trunc_div a b = a div b"
  by (cases "a = 0") (auto simp: trunc_div_def)

lemma i64_checked_div_Some:
  "i64_checked_div a b = Some c \<Longrightarrow> sint c = trunc_div (sint a) (sint b)"
  by (auto simp: i64_checked_div_def split: if_splits)

lemma sint_i64_saturating_add:
  "sint (i64_saturating_add a b) = max (- (2 ^ 63)) (min (2 ^ 63 - 1) (sint a + sint b))"
  unfolding i64_saturating_add_def by (rule sint_i64_of) (simp add: i64_ok_def)

lemma sint_uminus_i64: "sint (a :: i64) \<noteq> - (2 ^ 63) \<Longrightarrow> sint (- a) = - sint a"
proof -
  assume "sint a \<noteq> - (2 ^ 63)"
  then have ok: "i64_ok (- sint a)"
    using i64_ok_sint [of a] unfolding i64_ok_def by linarith
  have "- a = i64_of (- sint a)"
    by (simp add: i64_of_def wi_hom_syms)
  with ok show ?thesis
    by simp
qed

lemma unat_bound: "unat (w :: 'a::len word) < 2 ^ LENGTH('a)"
  by (rule unsigned_less)

lemma unat_plus_one:
  fixes x :: "'a::len word"
  assumes "unat x + 1 < 2 ^ LENGTH('a)"
  shows "unat (x + 1) = unat x + 1"
  using assms by (simp add: unat_word_ariths)

lemma unat_next:
  fixes x y :: "'a::len word"
  assumes "x < y"
  shows "unat (x + 1) = unat x + 1"
proof (rule unat_plus_one)
  have "unat x < unat y" using assms by (simp add: word_less_nat_alt)
  with unat_bound [of y] show "unat x + 1 < 2 ^ LENGTH('a)" by linarith
qed

lemma unat_saturating_sub: "unat (word_saturating_sub a b) = unat a - unat b"
  by (auto simp: word_saturating_sub_def unat_sub word_less_nat_alt word_le_nat_alt)

lemma unat_saturating_add:
  "unat (u64_saturating_add a b) = min (2 ^ 64 - 1) (unat a + unat b)"
proof -
  have "uint a + uint b < 2 ^ 64 \<longleftrightarrow> int (unat a + unat b) < int (2 ^ 64)" by simp
  then have iff: "uint a + uint b < 2 ^ 64 \<longleftrightarrow> unat a + unat b < 2 ^ 64" by (simp only: of_nat_less_iff)
  show ?thesis
  proof (cases "unat a + unat b < 2 ^ 64")
    case True
    then show ?thesis unfolding u64_saturating_add_def iff by (simp add: unat_word_ariths)
  next
    case False
    then show ?thesis unfolding u64_saturating_add_def iff by simp
  qed
qed

lemma i64_ok_int: "n < 2 ^ 63 \<Longrightarrow> i64_ok (int n)"
  by (simp add: i64_ok_def)

lemma sint_eq_unat:
  fixes w :: u64
  assumes "unat w < 2 ^ 63"
  shows "sint w = int (unat w)"
proof -
  have "w = word_of_int (int (unat w))"
    by (simp only: uint_nat [symmetric] word_of_int_uint)
  then have "w = i64_of (int (unat w))"
    by (simp only: i64_of_def)
  moreover have "i64_ok (int (unat w))"
    using assms by (rule i64_ok_int)
  ultimately show ?thesis
    by (metis sint_i64_of)
qed

section \<open>List operations of the standard library\<close>

text \<open>
  \<open>Vec::retain_mut\<close> with a closure that mutates captured variables \<open>'s\<close> and the visited element;
  \<open>Vec::retain\<close> is the case where the element is not changed.
\<close>

fun retain_mut :: "('s \<Rightarrow> 'a \<Rightarrow> 's \<times> 'a \<times> bool) \<Rightarrow> 's \<Rightarrow> 'a list \<Rightarrow> 's \<times> 'a list" where
  "retain_mut f s [] = (s, [])"
| "retain_mut f s (x # xs) =
     (case f s x of (s', x', keep) \<Rightarrow>
        (case retain_mut f s' xs of (s'', ys) \<Rightarrow> (s'', if keep then x' # ys else ys)))"

text \<open>\<open>push_back\<close> followed by \<open>if len > n { pop_front() }\<close>: a window of the last \<open>n\<close> elements.\<close>

definition push_window :: "nat \<Rightarrow> 'a \<Rightarrow> 'a list \<Rightarrow> 'a list" where
  "push_window n x xs =
     (let ys = xs @ [x] in if n < length ys then tl ys else ys)"

lemma length_push_window:
  "length xs \<le> n \<Longrightarrow> 0 < n \<Longrightarrow> length (push_window n x xs) \<le> n"
  by (simp add: push_window_def Let_def)

lemma push_window_nonempty [simp]: "0 < n \<Longrightarrow> push_window n x xs \<noteq> []"
  by (cases xs) (auto simp: push_window_def Let_def)

lemma last_push_window: "0 < n \<Longrightarrow> last (push_window n x xs) = x"
  by (cases xs) (auto simp: push_window_def Let_def)

lemma set_push_window: "set (push_window n x xs) \<subseteq> insert x (set xs)"
  by (cases xs) (auto simp: push_window_def Let_def)

section \<open>Strings\<close>

text \<open>
  A Rust string is its UTF-8 bytes, here a \<open>string\<close>; \<open>len()\<close> is \<open>length\<close>. \<open>str::trim\<close> removes leading
  and trailing characters of Unicode's \<open>White_Space\<close> property, listed by their UTF-8 encodings:
  U+0009 to U+000D, U+0020, U+0085, U+00A0, U+1680, U+2000 to U+200A, U+2028, U+2029, U+202F,
  U+205F and U+3000.
\<close>

definition white_spaces :: "string list" where
  "white_spaces =
     map (map char_of)
       ([[9], [10], [11], [12], [13], [32], [0xC2, 0x85], [0xC2, 0xA0], [0xE1, 0x9A, 0x80]]
        @ map (\<lambda>b. [0xE2, 0x80, b])
            [0x80, 0x81, 0x82, 0x83, 0x84, 0x85, 0x86, 0x87, 0x88, 0x89, 0x8A, 0xA8, 0xA9, 0xAF]
        @ [[0xE2, 0x81, 0x9F], [0xE3, 0x80, 0x80 :: nat]])"

fun is_prefix_of :: "'a list \<Rightarrow> 'a list \<Rightarrow> bool" where
  "is_prefix_of [] ys = True"
| "is_prefix_of (x # xs) [] = False"
| "is_prefix_of (x # xs) (y # ys) = (x = y \<and> is_prefix_of xs ys)"

lemma is_prefix_of_append: "is_prefix_of w (w @ s)"
  by (induction w) auto

lemma is_prefix_of_D: "is_prefix_of w s \<Longrightarrow> \<exists>r. s = w @ r"
  by (induction w s rule: is_prefix_of.induct) auto

text \<open>Strip one of the given (non-empty) words from the front as long as one is there.\<close>

function strip_front :: "string list \<Rightarrow> string \<Rightarrow> string" where
  "strip_front ws s =
     (case find (\<lambda>w. w \<noteq> [] \<and> is_prefix_of w s) ws of
        None \<Rightarrow> s
      | Some w \<Rightarrow> strip_front ws (drop (length w) s))"
  by pat_completeness auto
termination
proof (relation "measure (\<lambda>(ws, s). length s)")
  fix ws :: "string list" and s w
  assume "find (\<lambda>w. w \<noteq> [] \<and> is_prefix_of w s) ws = Some w"
  then have "w \<noteq> []" and "is_prefix_of w s"
    by (auto simp: find_Some_iff)
  then show "((ws, drop (length w) s), ws, s) \<in> measure (\<lambda>(ws, s). length s)"
    by (cases s; cases w) auto
qed simp

declare strip_front.simps [simp del]

definition trim :: "string \<Rightarrow> string" where
  "trim s =
     rev (strip_front (map rev white_spaces) (rev (strip_front white_spaces s)))"

lemma length_strip_front: "length (strip_front ws s) \<le> length s"
proof (induction ws s rule: strip_front.induct)
  case (1 ws s)
  show ?case
  proof (cases "find (\<lambda>w. w \<noteq> [] \<and> is_prefix_of w s) ws")
    case None
    then show ?thesis by (simp add: strip_front.simps)
  next
    case (Some w)
    with "1.IH" [OF Some] show ?thesis
      by (simp add: strip_front.simps [of ws s])
  qed
qed

lemma length_trim: "length (trim s) \<le> length s"
  unfolding trim_def length_rev
  by (rule order_trans [OF length_strip_front]) (simp add: length_strip_front)

text \<open>
  \<open>to_lowercase\<close>, up to comparison with an ASCII literal: ASCII capitals, and the Kelvin sign
  U+212A (bytes E2 84 AA), the only other character whose lower case is ASCII.
\<close>

definition ascii_lower :: "char \<Rightarrow> char" where
  "ascii_lower c = (let n = of_char c :: nat in if 65 \<le> n \<and> n \<le> 90 then char_of (n + 32) else c)"

fun to_lowercase :: "string \<Rightarrow> string" where
  "to_lowercase [] = []"
| "to_lowercase (c # s) =
     (if is_prefix_of (map char_of [0xE2, 0x84, 0xAA :: nat]) (c # s)
      then CHR ''k'' # to_lowercase (drop 2 s)
      else ascii_lower c # to_lowercase s)"

section \<open>Invariants of runs\<close>

text \<open>
  A component whose state changes in steps, with a predicate every step keeps. Interpreted below for
  the step relations of the model; the client facts lift the one-step law to whole runs.
\<close>

locale kept_by_steps =
  fixes step :: "'s \<Rightarrow> 's \<Rightarrow> bool"
    and inv :: "'s \<Rightarrow> bool"
  assumes step_keeps: "inv s \<Longrightarrow> step s t \<Longrightarrow> inv t"
begin

lemma run_keeps: "step\<^sup>*\<^sup>* s t \<Longrightarrow> inv s \<Longrightarrow> inv t"
  by (induction rule: rtranclp_induct) (auto intro: step_keeps)

end

text \<open>
  A concrete step relation that implements an abstract one through \<open>abs\<close>, in the states of an invariant: each
  concrete step is matched by some abstract steps, and so is each run.
\<close>

locale step_simulation = kept_by_steps step inv
  for step :: "'s \<Rightarrow> 's \<Rightarrow> bool" and inv :: "'s \<Rightarrow> bool" +
  fixes spec :: "'a \<Rightarrow> 'a \<Rightarrow> bool"
    and abs :: "'s \<Rightarrow> 'a"
  assumes step_simulates: "inv s \<Longrightarrow> step s t \<Longrightarrow> spec\<^sup>*\<^sup>* (abs s) (abs t)"
begin

lemma run_simulates: "step\<^sup>*\<^sup>* s t \<Longrightarrow> inv s \<Longrightarrow> spec\<^sup>*\<^sup>* (abs s) (abs t)"
proof (induction rule: rtranclp_induct)
  case (step t u)
  from run_keeps [OF step.hyps(1) step.prems] have "spec\<^sup>*\<^sup>* (abs t) (abs u)"
    using step.hyps(2) by (rule step_simulates)
  with step.IH step.prems show ?case by (meson rtranclp_trans)
qed simp

end

locale keeps_measure =
  fixes step :: "'s \<Rightarrow> 's \<Rightarrow> bool"
    and amount :: "'s \<Rightarrow> int"
  assumes step_mono: "step s t \<Longrightarrow> amount s \<le> amount t"
begin

lemma run_mono: "step\<^sup>*\<^sup>* s t \<Longrightarrow> amount s \<le> amount t"
  by (induction rule: rtranclp_induct) (auto dest: step_mono)

end

section \<open>Claiming a key once\<close>

text \<open>
  The contract of the two deduplicating inserts of the database (fills by market and sequence number,
  idempotency keys by user and key): a claim that succeeds says whether the key is new, and the key is
  known from then on. The client repeats claims in any order, as a redelivering queue or a retrying
  client does; a failed claim changes nothing.
\<close>

fun claim_all :: "('v \<Rightarrow> 's \<Rightarrow> (bool \<times> 's) option) \<Rightarrow> 'v list \<Rightarrow> 's \<Rightarrow> (('v \<times> bool) list \<times> 's)" where
  "claim_all claim [] s = ([], s)"
| "claim_all claim (v # vs) s =
     (case claim v s of
        None \<Rightarrow> claim_all claim vs s
      | Some (fresh, s') \<Rightarrow> (case claim_all claim vs s' of (rs, t) \<Rightarrow> ((v, fresh) # rs, t)))"

locale dedup_store =
  fixes claim :: "'v \<Rightarrow> 's \<Rightarrow> (bool \<times> 's) option"
    and key :: "'v \<Rightarrow> 'k"
    and known :: "'s \<Rightarrow> 'k \<Rightarrow> bool"
  assumes claim_fresh: "claim v s = Some (fresh, s') \<Longrightarrow> fresh \<longleftrightarrow> \<not> known s (key v)"
    and claim_known: "claim v s = Some (fresh, s') \<Longrightarrow> known s' k \<longleftrightarrow> known s k \<or> k = key v"
begin

lemma claims_fresh_once:
  "claim_all claim vs s = (rs, s') \<Longrightarrow>
     length (filter (\<lambda>(v, fresh). key v = k \<and> fresh) rs) \<le> (if known s k then 0 else 1)"
proof (induction vs arbitrary: s rs s')
  case (Cons v vs)
  show ?case
  proof (cases "claim v s")
    case None
    with Cons show ?thesis by simp
  next
    case (Some r)
    obtain fresh s1 where r: "r = (fresh, s1)" by (cases r)
    obtain rs1 s2 where rest: "claim_all claim vs s1 = (rs1, s2)" by (cases "claim_all claim vs s1")
    with Some r Cons.prems have rs: "rs = (v, fresh) # rs1" by simp
    from Cons.IH [OF rest]
    have "length (filter (\<lambda>(v, fresh). key v = k \<and> fresh) rs1) \<le> (if known s1 k then 0 else 1)" .
    then show ?thesis
      using rs claim_fresh [of v s fresh s1] claim_known [of v s fresh s1 k] Some r
      by (auto split: if_splits)
  qed
qed simp

lemma claims_known: "claim_all claim vs s = (rs, s') \<Longrightarrow> known s k \<Longrightarrow> known s' k"
proof (induction vs arbitrary: s rs s')
  case (Cons v vs)
  then show ?case
    by (cases "claim v s") (auto simp: claim_known split: prod.splits)
qed simp

end

end
