(* ===== verification/App_Error.thy ===== *)
theory App_Error
  imports Prelude
begin

text \<open>
  The error type of the whole workspace, \<open>AppError\<close> of \<open>common/src/error.rs\<close>, with its display texts and
  its mapping to HTTP responses. A formatted message is the list of its fragments: literal text, and
  values whose rendering belongs to other crates (a UUID, an integer, the text of a foreign error).
\<close>

datatype frag =
    Lit string
  | UuidText uuid
  | IntText int
  | Foreign string

type_synonym msg = "frag list"

datatype app_error =
    Internal msg
  | External msg
  | Validation msg
  | RiskLimitExceeded msg
  | SlippageExceeded
  | CircuitBreakerOpen
  | Database msg
  | Blockchain msg
  | Messaging msg
  | InsufficientBalance u64 u64
  | MarketNotFound msg
  | OrderNotFound msg
  | MarketNotOpen
  | NotFound msg
  | Unauthorized
  | Forbidden
  | Conflict msg
  | BadRequest msg

type_synonym 'a app_result = "app_error + 'a"

text \<open>The \<open>Display\<close> texts derived from the \<open>#[error(...)]\<close> attributes.\<close>

fun error_display :: "app_error \<Rightarrow> msg" where
  "error_display (Internal m) = Lit ''Internal error: '' # m"
| "error_display (External m) = Lit ''External exchange error: '' # m"
| "error_display (Validation m) = Lit ''Validation failed: '' # m"
| "error_display (RiskLimitExceeded m) = Lit ''Risk limit exceeded: '' # m"
| "error_display SlippageExceeded = [Lit ''Slippage limit exceeded'']"
| "error_display CircuitBreakerOpen = [Lit ''Circuit breaker is open'']"
| "error_display (Database m) = Lit ''DB error: '' # m"
| "error_display (Blockchain m) = Lit ''Chain error: '' # m"
| "error_display (Messaging m) = Lit ''NATS error: '' # m"
| "error_display (InsufficientBalance n a) =
     [Lit ''Insufficient balance: needed '', IntText (uint n), Lit '', available '', IntText (uint a)]"
| "error_display (MarketNotFound m) = Lit ''Market not found: '' # m"
| "error_display (OrderNotFound m) = Lit ''Order not found: '' # m"
| "error_display MarketNotOpen = [Lit ''Market closed'']"
| "error_display (NotFound m) = Lit ''Resource missing: '' # m"
| "error_display Unauthorized = [Lit ''Unauthorized'']"
| "error_display Forbidden = [Lit ''Access forbidden'']"
| "error_display (Conflict m) = Lit ''Conflict: '' # m"
| "error_display (BadRequest m) = Lit ''Invalid request: '' # m"

text \<open>\<open>From<sqlx::Error>\<close> and \<open>From<uuid::Error>\<close>; the argument is the foreign error's own text.\<close>

definition from_sqlx_error :: "string \<Rightarrow> app_error" where
  "from_sqlx_error e = Database [Foreign e]"

definition from_uuid_error :: "string \<Rightarrow> app_error" where
  "from_uuid_error e = BadRequest [Lit ''Invalid UUID: '', Foreign e]"

datatype http_status =
    OK | CREATED | NO_CONTENT | BAD_REQUEST | UNAUTHORIZED | FORBIDDEN | NOT_FOUND | CONFLICT
  | TOO_MANY_REQUESTS | INTERNAL_SERVER_ERROR | BAD_GATEWAY | SERVICE_UNAVAILABLE

text \<open>\<open>IntoResponse\<close>: the status and the text that goes under the key \<open>error\<close> of the JSON body.\<close>

fun into_response :: "app_error \<Rightarrow> http_status \<times> msg" where
  "into_response (Internal m) = (INTERNAL_SERVER_ERROR, m)"
| "into_response (External m) = (BAD_GATEWAY, m)"
| "into_response (Validation m) = (BAD_REQUEST, m)"
| "into_response (RiskLimitExceeded m) = (FORBIDDEN, m)"
| "into_response SlippageExceeded = (BAD_REQUEST, [Lit ''Slippage limit exceeded''])"
| "into_response CircuitBreakerOpen = (SERVICE_UNAVAILABLE, [Lit ''Circuit breaker is open''])"
| "into_response (Database m) = (INTERNAL_SERVER_ERROR, m)"
| "into_response (Blockchain m) = (BAD_GATEWAY, m)"
| "into_response (Messaging m) = (SERVICE_UNAVAILABLE, m)"
| "into_response (InsufficientBalance n a) =
     (BAD_REQUEST,
      [Lit ''Insufficient balance: needed='', IntText (uint n), Lit '', available='', IntText (uint a)])"
| "into_response (MarketNotFound m) = (NOT_FOUND, m)"
| "into_response (OrderNotFound m) = (NOT_FOUND, m)"
| "into_response MarketNotOpen = (BAD_REQUEST, [Lit ''Market is not open''])"
| "into_response (NotFound m) = (NOT_FOUND, m)"
| "into_response Unauthorized = (UNAUTHORIZED, [Lit ''Unauthorized''])"
| "into_response Forbidden = (FORBIDDEN, [Lit ''Forbidden''])"
| "into_response (Conflict m) = (CONFLICT, m)"
| "into_response (BadRequest m) = (BAD_REQUEST, m)"

lemma into_response_is_error: "fst (into_response e) \<notin> {OK, CREATED, NO_CONTENT}"
  by (cases e) auto

end
