(* ===== verification/Common_Types.thy ===== *)
theory Common_Types
  imports App_Error
begin

text \<open>
  The domain types of \<open>common/src/types.rs\<close>: identifiers, prices and quantities at their machine width,
  the enumerations, and the records \<open>Market\<close>, \<open>Order\<close>, \<open>Fill\<close>, \<open>OrderRequest\<close> and \<open>OrderBook\<close>. A
  \<open>DateTime<Utc>\<close> is the number of nanoseconds since the epoch. \<open>rust_decimal::Decimal\<close> is a foreign type:
  the conversions take the operations they use of it as a parameter (theory \<open>Decimal_Ops\<close>).
\<close>

type_synonym datetime = int

datatype user_id = UserId (user_uuid: uuid)
datatype market_id = MarketId (market_uuid: uuid)
datatype order_id = OrderId (order_uuid: uuid)
datatype fill_id = FillId (fill_uuid: uuid)

datatype price = Price (price_raw: u32)
datatype quantity = Quantity (quantity_raw: u64)

text \<open>The derived order compares the raw values.\<close>

instantiation price :: linorder
begin

definition less_eq_price :: "price \<Rightarrow> price \<Rightarrow> bool" where
  "less_eq_price p q \<longleftrightarrow> price_raw p \<le> price_raw q"

definition less_price :: "price \<Rightarrow> price \<Rightarrow> bool" where
  "less_price p q \<longleftrightarrow> price_raw p < price_raw q"

instance
  by standard (auto simp: less_eq_price_def less_price_def intro: price.expand)

end

instantiation quantity :: linorder
begin

definition less_eq_quantity :: "quantity \<Rightarrow> quantity \<Rightarrow> bool" where
  "less_eq_quantity p q \<longleftrightarrow> quantity_raw p \<le> quantity_raw q"

definition less_quantity :: "quantity \<Rightarrow> quantity \<Rightarrow> bool" where
  "less_quantity p q \<longleftrightarrow> quantity_raw p < quantity_raw q"

instance
  by standard (auto simp: less_eq_quantity_def less_quantity_def intro: quantity.expand)

end

definition Price_MIN :: price where "Price_MIN = Price 1000"
definition Price_MAX :: price where "Price_MAX = Price 9999999"
definition Quantity_MIN :: quantity where "Quantity_MIN = Quantity 1000"

text \<open>\<open>complement\<close> subtracts on \<open>u32\<close>, wrapping around above 10000000.\<close>

definition price_complement :: "price \<Rightarrow> price" where
  "price_complement p = Price (10000000 - price_raw p)"

definition price_saturating_sub :: "price \<Rightarrow> price \<Rightarrow> price" where
  "price_saturating_sub p r = Price (word_saturating_sub (price_raw p) (price_raw r))"

definition quantity_is_zero :: "quantity \<Rightarrow> bool" where
  "quantity_is_zero q \<longleftrightarrow> quantity_raw q = 0"

definition quantity_saturating_sub :: "quantity \<Rightarrow> quantity \<Rightarrow> quantity" where
  "quantity_saturating_sub q r = Quantity (word_saturating_sub (quantity_raw q) (quantity_raw r))"

datatype side = Buy | Sell

fun opposite :: "side \<Rightarrow> side" where
  "opposite Buy = Sell"
| "opposite Sell = Buy"

fun side_display :: "side \<Rightarrow> string" where
  "side_display Buy = ''buy''"
| "side_display Sell = ''sell''"

datatype order_kind = LimitOrder | MarketOrder

datatype order_status = OrdOpen | OrdPartial | OrdFilled | OrdCancelled | OrdRejected

datatype market_status = MktOpen | MktPaused | MktSettled | MktCancelled

datatype outcome = Yes | No

text \<open>The label of a market status in the database and in JSON (\<open>rename_all = "lowercase"\<close>).\<close>

fun market_status_text :: "market_status \<Rightarrow> string" where
  "market_status_text MktOpen = ''open''"
| "market_status_text MktPaused = ''paused''"
| "market_status_text MktSettled = ''settled''"
| "market_status_text MktCancelled = ''cancelled''"

record market =
  mkt_id :: market_id
  mkt_title :: string
  mkt_description :: string
  mkt_status :: market_status
  mkt_created_at :: datetime
  mkt_resolves_at :: "datetime option"
  mkt_settled_at :: "datetime option"
  mkt_outcome :: "outcome option"

record order =
  ord_id :: order_id
  ord_market_id :: market_id
  ord_user_id :: user_id
  ord_side :: side
  ord_kind :: order_kind
  ord_price :: "price option"
  ord_quantity :: quantity
  ord_filled :: quantity
  ord_status :: order_status
  ord_sequence :: u64
  ord_created_at :: datetime
  ord_updated_at :: datetime

definition order_remaining :: "order \<Rightarrow> quantity" where
  "order_remaining o' = quantity_saturating_sub (ord_quantity o') (ord_filled o')"

record fill =
  fill_id :: fill_id
  fill_market_id :: market_id
  fill_maker_order_id :: order_id
  fill_taker_order_id :: order_id
  fill_maker_user_id :: user_id
  fill_taker_user_id :: user_id
  fill_price :: price
  fill_quantity :: quantity
  fill_aggressor :: side
  fill_sequence :: u64
  fill_filled_at :: datetime
  fill_transaction_id :: "string option"

record order_request =
  req_market_id :: market_id
  req_side :: side
  req_kind :: order_kind
  req_price :: "price option"
  req_quantity :: quantity

record price_level =
  lvl_price :: price
  lvl_quantity :: quantity
  lvl_count :: u32

record order_book =
  book_market_id :: market_id
  book_bids :: "price_level list"
  book_asks :: "price_level list"
  book_sequence :: u64

lemma market_uuid_inject [simp]: "market_uuid a = market_uuid b \<longleftrightarrow> a = b"
  by (cases a; cases b) simp

lemma user_uuid_inject [simp]: "user_uuid a = user_uuid b \<longleftrightarrow> a = b"
  by (cases a; cases b) simp

lemma order_uuid_inject [simp]: "order_uuid a = order_uuid b \<longleftrightarrow> a = b"
  by (cases a; cases b) simp

lemma fill_uuid_inject [simp]: "fill_uuid a = fill_uuid b \<longleftrightarrow> a = b"
  by (cases a; cases b) simp

lemma opposite_involution [simp]: "opposite (opposite s) = s"
  by (cases s) auto

lemma side_display_inj [simp]: "side_display s = side_display t \<longleftrightarrow> s = t"
  by (cases s; cases t) auto

lemma market_status_text_inj [simp]: "market_status_text s = market_status_text t \<longleftrightarrow> s = t"
  by (cases s; cases t) auto

lemma market_status_text_open [simp]: "market_status_text s = ''open'' \<longleftrightarrow> s = MktOpen"
  by (cases s) auto

lemma price_complement_involution [simp]: "price_complement (price_complement p) = p"
  by (cases p) (simp add: price_complement_def)

lemma price_order_raw [simp]:
  "Price a \<le> Price b \<longleftrightarrow> a \<le> b" "Price a < Price b \<longleftrightarrow> a < b"
  by (simp_all add: less_eq_price_def less_price_def)

lemma quantity_order_raw [simp]:
  "Quantity a \<le> Quantity b \<longleftrightarrow> a \<le> b" "Quantity a < Quantity b \<longleftrightarrow> a < b"
  by (simp_all add: less_eq_quantity_def less_quantity_def)

text \<open>The saturating difference never exceeds what it is taken from, in the order of the type.\<close>

lemma saturating_sub_le:
  "price_saturating_sub p r \<le> p" "quantity_saturating_sub q s \<le> q"
  by (simp_all add: price_saturating_sub_def quantity_saturating_sub_def less_eq_price_def
      less_eq_quantity_def word_le_nat_alt unat_saturating_sub)

lemma remaining_value:
  "unat (quantity_raw (order_remaining o')) =
     unat (quantity_raw (ord_quantity o')) - unat (quantity_raw (ord_filled o'))"
  by (simp add: order_remaining_def quantity_saturating_sub_def unat_saturating_sub)

end
