(* ===== verification/Sql_Tables.thy ===== *)
theory Sql_Tables
  imports App_Error
begin

text \<open>
  The SQL the \<open>db\<close> crate writes in its query strings, on tables that are lists of rows in insertion order.
  \<open>sql_update p f t\<close> is \<open>UPDATE t SET f WHERE p\<close>: the row function is \<open>None\<close> when a computed column is
  out of range or violates a \<open>CHECK\<close> of the migrations, which fails the whole statement. Rows that
  \<open>ORDER BY ... DESC\<close> leaves unordered (equal keys) keep their insertion order, one of the orders
  PostgreSQL may return.
\<close>

fun sql_update :: "('r \<Rightarrow> bool) \<Rightarrow> ('r \<Rightarrow> 'r option) \<Rightarrow> 'r list \<Rightarrow> 'r list option" where
  "sql_update p f [] = Some []"
| "sql_update p f (r # t) =
     (case (if p r then f r else Some r) of
        None \<Rightarrow> None
      | Some r' \<Rightarrow> map_option ((#) r') (sql_update p f t))"

definition sql_affected :: "('r \<Rightarrow> bool) \<Rightarrow> 'r list \<Rightarrow> nat" where
  "sql_affected p t = length (filter p t)"

definition sql_order_desc :: "('r \<Rightarrow> int) \<Rightarrow> 'r list \<Rightarrow> 'r list" where
  "sql_order_desc k t = sort_key (\<lambda>r. - k r) t"

text \<open>\<open>LIMIT n\<close>: PostgreSQL rejects a negative limit.\<close>

definition sql_limit :: "int \<Rightarrow> 'r list \<Rightarrow> 'r list option" where
  "sql_limit n t = (if n < 0 then None else Some (take (nat n) t))"

lemma sql_affected_0: "sql_affected p t = 0 \<longleftrightarrow> (\<forall>r \<in> set t. \<not> p r)"
  by (auto simp: sql_affected_def filter_empty_conv)

lemma sql_update_no_match: "\<forall>r \<in> set t. \<not> p r \<Longrightarrow> sql_update p f t = Some t"
  by (induction t) auto

lemma sql_update_total:
  "(\<And>r. f r = Some (h r)) \<Longrightarrow> sql_update p f t = Some (map (\<lambda>r. if p r then h r else r) t)"
  by (induction t) auto

lemma sql_update_append:
  "sql_update p f (xs @ ys) =
     (case sql_update p f xs of None \<Rightarrow> None | Some xs' \<Rightarrow> map_option ((@) xs') (sql_update p f ys))"
  by (induction xs) (auto simp: option.map_comp comp_def map_option_case split: option.splits)

lemma sql_update_set:
  "sql_update p f t = Some t' \<Longrightarrow> r' \<in> set t' \<Longrightarrow>
     \<exists>r \<in> set t. (p r \<and> f r = Some r') \<or> (\<not> p r \<and> r' = r)"
  by (induction t arbitrary: t') (fastforce split: option.splits if_splits)+

lemma sql_update_mem:
  "sql_update p f t = Some t' \<Longrightarrow> r \<in> set t \<Longrightarrow>
     (p r \<longrightarrow> (\<exists>r' \<in> set t'. f r = Some r')) \<and> (\<not> p r \<longrightarrow> r \<in> set t')"
  by (induction t arbitrary: t') (fastforce split: option.splits if_splits)+

lemma sql_update_all:
  "sql_update p f t = Some t' \<Longrightarrow> \<forall>r \<in> set t. P r \<Longrightarrow>
     (\<And>r r'. P r \<Longrightarrow> p r \<Longrightarrow> f r = Some r' \<Longrightarrow> P r') \<Longrightarrow> \<forall>r \<in> set t'. P r"
  by (induction t arbitrary: t') (auto split: option.splits if_splits)

text \<open>Sums over a table: an update changes a sum by the changes of the rows it matches.\<close>

lemma sql_update_sum:
  fixes w :: "'r \<Rightarrow> int"
  shows "sql_update p f t = Some t' \<Longrightarrow>
    (\<Sum>r\<leftarrow>t'. w r) = (\<Sum>r\<leftarrow>t. w r) + (\<Sum>r\<leftarrow>filter p t. w (the (f r)) - w r)"
  by (induction t arbitrary: t') (auto split: option.splits if_splits)

lemma sql_update_sum_same:
  fixes w :: "'r \<Rightarrow> int"
  assumes "sql_update p f t = Some t'" and "\<And>r r'. f r = Some r' \<Longrightarrow> w r' = w r"
  shows "(\<Sum>r\<leftarrow>t'. w r) = (\<Sum>r\<leftarrow>t. w r)"
  using assms(1) by (induction t arbitrary: t') (auto simp: assms(2) split: option.splits if_splits)

text \<open>
  Tables with a key: an update function that leaves the key of a row alone keeps the table's keys, in
  order, so primary keys stay distinct and a lookup by key finds the updated row.
\<close>

locale keyed_rows =
  fixes key :: "'r \<Rightarrow> 'k"
    and change :: "'r \<Rightarrow> 'r option"
  assumes change_key: "change r = Some r' \<Longrightarrow> key r' = key r"
begin

lemma update_keys: "sql_update p change t = Some t' \<Longrightarrow> map key t' = map key t"
  by (induction t arbitrary: t') (auto dest: change_key split: option.splits if_splits)

lemma update_distinct:
  "sql_update p change t = Some t' \<Longrightarrow> distinct (map key t) \<Longrightarrow> distinct (map key t')"
  by (simp add: update_keys)

lemma update_find_other:
  "sql_update (\<lambda>r. key r = k \<and> g r) change t = Some t' \<Longrightarrow> k' \<noteq> k \<Longrightarrow>
     find (\<lambda>r. key r = k') t' = find (\<lambda>r. key r = k') t"
  by (induction t arbitrary: t') (auto dest: change_key split: option.splits if_splits)

end

lemma find_SomeD: "find P t = Some r \<Longrightarrow> r \<in> set t \<and> P r"
  by (induction t) (auto split: if_splits)

lemma find_append_new:
  "find P xs = None \<Longrightarrow> find P (xs @ [x]) = (if P x then Some x else None)"
  by (induction xs) (auto split: if_splits)

lemma find_append_other: "\<not> P x \<Longrightarrow> find P (xs @ [x]) = find P xs"
  by (induction xs) auto

lemma find_key_unique:
  "distinct (map key t) \<Longrightarrow> r \<in> set t \<Longrightarrow> find (\<lambda>x. key x = key r) t = Some r"
  by (induction t) (auto simp: rev_image_eqI)

lemma filter_key_unique:
  "distinct (map key t) \<Longrightarrow> r \<in> set t \<Longrightarrow> p r \<Longrightarrow>
     (\<forall>x. p x \<longrightarrow> key x = key r) \<Longrightarrow> filter p t = [r]"
proof (induction t)
  case Nil
  then show ?case by simp
next
  case (Cons x t)
  show ?case
  proof (cases "x = r")
    case True
    with Cons.prems(1) have "key r \<notin> key ` set t" by simp
    with Cons.prems(4) have "filter p t = []"
      by (auto simp: filter_empty_conv image_iff dest: sym)
    with True Cons.prems(3) show ?thesis by simp
  next
    case False
    with Cons.prems(2) have r: "r \<in> set t" by simp
    with Cons.prems(1) have "key x \<noteq> key r" by (auto simp: image_iff)
    with Cons.prems(4) have "\<not> p x" by blast
    moreover from Cons.prems(1) have "distinct (map key t)" by simp
    then have "filter p t = [r]"
      using r Cons.prems(3,4) by (rule Cons.IH)
    ultimately show ?thesis by simp
  qed
qed

lemma sql_affected_le_1:
  assumes "distinct (map key t)" and "\<And>x. p x \<Longrightarrow> key x = k"
  shows "sql_affected p t \<le> 1"
proof (cases "\<exists>r \<in> set t. p r")
  case True
  then obtain r where r: "r \<in> set t" "p r" by blast
  have "filter p t = [r]"
    by (rule filter_key_unique [where key = key and p = p and r = r, OF assms(1) r]) (simp add: assms(2) r(2))
  then show ?thesis by (simp add: sql_affected_def)
next
  case False
  then show ?thesis by (simp add: sql_affected_def filter_empty_conv)
qed

text \<open>The one row a keyed update changes, and what it does to a sum.\<close>

lemma sql_update_sum_key:
  fixes w :: "'r \<Rightarrow> int"
  assumes "sql_update p f t = Some t'" and "distinct (map key t)" and "r \<in> set t" and "p r"
    and "\<And>x. p x \<Longrightarrow> key x = key r"
  shows "(\<Sum>x\<leftarrow>t'. w x) = (\<Sum>x\<leftarrow>t. w x) + (w (the (f r)) - w r)"
proof -
  have "filter p t = [r]"
    by (rule filter_key_unique [where key = key and p = p and r = r, OF assms(2,3,4)]) (simp add: assms(5))
  with sql_update_sum [OF assms(1), of w] show ?thesis by simp
qed

lemma sql_update_find_key:
  assumes "sql_update p f t = Some t'" and "distinct (map key t)" and "r \<in> set t" and "p r"
    and "\<And>x. p x \<Longrightarrow> key x = key r" and "\<And>x x'. f x = Some x' \<Longrightarrow> key x' = key x"
  shows "find (\<lambda>x. key x = key r) t' = f r \<and> f r \<noteq> None"
proof -
  from sql_update_mem [OF assms(1,3)] assms(4) obtain r' where r': "r' \<in> set t'" "f r = Some r'"
    by blast
  have "keyed_rows key f"
    by (rule keyed_rows.intro) (rule assms(6))
  then have "distinct (map key t')"
    by (rule keyed_rows.update_distinct [OF _ assms(1,2)])
  then have "find (\<lambda>x. key x = key r') t' = Some r'"
    using r'(1) by (rule find_key_unique)
  with r'(2) assms(6) show ?thesis by simp
qed

text \<open>
  A keyed update as a whole: it matches no row and changes nothing, or it matches the one row of the
  key, replaces it, and changes every sum over the table by the change of that row.
\<close>

lemma sql_update_keyed:
  assumes upd: "sql_update (\<lambda>r. key r = k \<and> g r) f t = Some t'"
    and dist: "distinct (map key t)" and keeps: "\<forall>x x'. f x = Some x' \<longrightarrow> key x' = key x"
  obtains (none) "sql_affected (\<lambda>r. key r = k \<and> g r) t = 0" "t' = t"
      "\<And>r. find (\<lambda>x. key x = k) t = Some r \<Longrightarrow> \<not> g r"
  | (one) r r' where "find (\<lambda>x. key x = k) t = Some r" "r \<in> set t" "key r = k" "g r" "f r = Some r'"
      "find (\<lambda>x. key x = k) t' = Some r'" "sql_affected (\<lambda>r. key r = k \<and> g r) t = 1"
      "\<And>w :: 'r \<Rightarrow> int. (\<Sum>x\<leftarrow>t'. w x) = (\<Sum>x\<leftarrow>t. w x) + (w r' - w r)"
proof (cases "\<exists>r \<in> set t. key r = k \<and> g r")
  case False
  then have "\<forall>r \<in> set t. \<not> (key r = k \<and> g r)" by blast
  with upd have same: "t' = t" and aff: "sql_affected (\<lambda>r. key r = k \<and> g r) t = 0"
    by (simp_all add: sql_update_no_match sql_affected_0)
  show ?thesis
    by (rule none [OF aff same]) (use False in \<open>auto simp: find_Some_iff\<close>)
next
  case True
  then obtain r where r: "r \<in> set t" "key r = k" "g r" by blast
  have uniq: "filter (\<lambda>r. key r = k \<and> g r) t = [r]"
    by (rule filter_key_unique [where key = key and p = "\<lambda>r. key r = k \<and> g r" and r = r, OF dist r(1)])
      (use r in auto)
  have fr: "find (\<lambda>x. key x = k) t = Some r"
    using find_key_unique [OF dist r(1)] r(2) by simp
  have f': "find (\<lambda>x. key x = key r) t' = f r \<and> f r \<noteq> None"
    by (rule sql_update_find_key [OF upd dist r(1)]) (use r keeps in auto)
  then obtain r' where r': "f r = Some r'" by auto
  have sums: "(\<Sum>x\<leftarrow>t'. w x) = (\<Sum>x\<leftarrow>t. w x) + (w r' - w r)" for w :: "'r \<Rightarrow> int"
    using sql_update_sum [OF upd, of w] by (simp only: uniq) (simp add: r')
  have aff: "sql_affected (\<lambda>r. key r = k \<and> g r) t = 1"
    by (simp only: sql_affected_def uniq) simp
  show ?thesis
    by (rule one [OF fr r r' _ aff sums]) (use f' r r' in simp)
qed

lemma sql_update_keyed_succeeds:
  assumes "distinct (map key t)" and "find (\<lambda>x. key x = k) t = Some r" and "f r \<noteq> None"
  shows "\<exists>t'. sql_update (\<lambda>r. key r = k \<and> g r) f t = Some t'"
  using assms
proof (induction t)
  case Nil
  then show ?case by simp
next
  case (Cons x t)
  show ?case
  proof (cases "key x = k")
    case True
    with Cons.prems have "\<forall>y \<in> set t. \<not> (key y = k \<and> g y)"
      by (auto simp: image_iff dest: sym)
    then have "sql_update (\<lambda>r. key r = k \<and> g r) f t = Some t" by (rule sql_update_no_match)
    with True Cons.prems(2,3) show ?thesis by (auto split: option.splits)
  next
    case False
    moreover from Cons.prems False obtain t' where
      "sql_update (\<lambda>r. key r = k \<and> g r) f t = Some t'"
      using Cons.IH by auto
    ultimately show ?thesis by simp
  qed
qed

end
