(* ===== verification/Db_State.thy ===== *)
theory Db_State
  imports Common_Types Sql_Tables
begin

text \<open>
  The database of the \<open>db\<close> crate: one list of rows for each table of \<open>api/migrations\<close>, with the row types
  the crate decodes, and two layers of effects. A \<open>stmt\<close> is a statement or a transaction body: it fails,
  or it returns a value and the next database. An \<open>io\<close> computation is what a method of \<open>Db\<close> does to the
  world: \<open>db_run\<close> sends one statement or one whole transaction, which the link to the server may lose
  before it runs or leave unacknowledged after it has committed; a failing statement changes nothing.
  \<open>BIGINT\<close> columns are integers with their range checked where they are written.
\<close>

section \<open>Rows\<close>

record user_row =
  usr_id :: uuid
  usr_email :: string
  usr_password_hash :: string
  usr_is_admin :: bool

record bal_row =
  bal_user :: uuid
  bal_available :: int
  bal_reserved :: int
  bal_version :: int

record market_row =
  mrow_id :: uuid
  mrow_title :: string
  mrow_description :: string
  mrow_status :: market_status
  mrow_created_at :: datetime
  mrow_resolves_at :: "datetime option"
  mrow_settled_at :: "datetime option"
  mrow_outcome :: "outcome option"

record order_row =
  orow_id :: uuid
  orow_market_id :: uuid
  orow_user_id :: uuid
  orow_side :: side
  orow_kind :: order_kind
  orow_price :: "int option"
  orow_quantity :: int
  orow_filled_quantity :: int
  orow_status :: order_status
  orow_sequence :: int
  orow_created_at :: datetime
  orow_updated_at :: datetime

record fill_row =
  frow_id :: uuid
  frow_market_id :: uuid
  frow_maker_order_id :: uuid
  frow_taker_order_id :: uuid
  frow_maker_user_id :: uuid
  frow_taker_user_id :: uuid
  frow_price :: int
  frow_quantity :: int
  frow_aggressor :: side
  frow_sequence :: int
  frow_filled_at :: datetime

record pos_row =
  pos_fill :: uuid
  pos_user :: uuid
  pos_market :: uuid
  pos_delta :: int

record deposit_row =
  dep_user :: uuid
  dep_amount :: int
  dep_reference :: string

datatype withdrawal_status = WdPending | WdApproved | WdRejected

record withdrawal_row =
  wd_id :: uuid
  wd_user_id :: uuid
  wd_amount :: int
  wd_status :: withdrawal_status
  wd_reference :: "string option"
  wd_reviewed_by :: "uuid option"
  wd_reviewed_at :: "datetime option"
  wd_created_at :: datetime

record hold_row =
  hold_withdrawal :: uuid
  hold_user :: uuid
  hold_amount :: int

record idem_row =
  idem_user :: uuid
  idem_key :: string
  idem_status :: int
  idem_response :: "string option"
  idem_expires_at :: datetime

record audit_row =
  aud_user :: "uuid option"
  aud_action :: string
  aud_entity :: string
  aud_entity_id :: "string option"
  aud_meta :: "string option"

record db =
  db_users :: "user_row list"
  db_balances :: "bal_row list"
  db_markets :: "market_row list"
  db_orders :: "order_row list"
  db_fills :: "fill_row list"
  db_positions :: "pos_row list"
  db_sequences :: "(uuid \<times> int) list"
  db_deposits :: "deposit_row list"
  db_withdrawals :: "withdrawal_row list"
  db_holds :: "hold_row list"
  db_idem :: "idem_row list"
  db_audit :: "audit_row list"

definition empty_db :: db where
  "empty_db =
     \<lparr>db_users = [], db_balances = [], db_markets = [], db_orders = [], db_fills = [],
      db_positions = [], db_sequences = [], db_deposits = [], db_withdrawals = [], db_holds = [],
      db_idem = [], db_audit = []\<rparr>"

text \<open>References: the key columns other tables point to.\<close>

definition user_exists :: "db \<Rightarrow> uuid \<Rightarrow> bool" where
  "user_exists d u \<longleftrightarrow> u \<in> set (map usr_id (db_users d))"

definition market_exists :: "db \<Rightarrow> uuid \<Rightarrow> bool" where
  "market_exists d m \<longleftrightarrow> m \<in> set (map mrow_id (db_markets d))"

definition order_exists :: "db \<Rightarrow> uuid \<Rightarrow> bool" where
  "order_exists d m \<longleftrightarrow> m \<in> set (map orow_id (db_orders d))"

definition fill_exists :: "db \<Rightarrow> uuid \<Rightarrow> bool" where
  "fill_exists d m \<longleftrightarrow> m \<in> set (map frow_id (db_fills d))"

section \<open>Statements and transactions\<close>

type_synonym 'a stmt = "db \<Rightarrow> app_error + ('a \<times> db)"

definition sql_error :: app_error where
  "sql_error = from_sqlx_error ''error returned from database''"

definition stmt_return :: "'a \<Rightarrow> 'a stmt" where
  "stmt_return a = (\<lambda>d. Inr (a, d))"

definition stmt_fail :: "app_error \<Rightarrow> 'a stmt" where
  "stmt_fail e = (\<lambda>d. Inl e)"

definition stmt_bind :: "'a stmt \<Rightarrow> ('a \<Rightarrow> 'b stmt) \<Rightarrow> 'b stmt" where
  "stmt_bind m f = (\<lambda>d. case m d of Inl e \<Rightarrow> Inl e | Inr (a, d') \<Rightarrow> f a d')"

definition stmt_query :: "(db \<Rightarrow> 'a) \<Rightarrow> 'a stmt" where
  "stmt_query q = (\<lambda>d. Inr (q d, d))"

text \<open>A write that the constraints of the tables accept (\<open>Some\<close>) or reject.\<close>

definition stmt_write :: "(db \<Rightarrow> ('a \<times> db) option) \<Rightarrow> 'a stmt" where
  "stmt_write w = (\<lambda>d. case w d of None \<Rightarrow> Inl sql_error | Some r \<Rightarrow> Inr r)"

fun stmt_iterate :: "('x \<Rightarrow> unit stmt) \<Rightarrow> 'x list \<Rightarrow> unit stmt" where
  "stmt_iterate f [] = stmt_return ()"
| "stmt_iterate f (x # xs) = stmt_bind (f x) (\<lambda>_. stmt_iterate f xs)"

section \<open>The world\<close>

text \<open>What happens to one request to the server, and the world: the database and the requests to come.\<close>

datatype link = Reached | Lost | Unacknowledged

record world =
  w_db :: db
  w_links :: "link list"

type_synonym 'a io = "world \<Rightarrow> (app_error + 'a) \<times> world"

definition link_error :: app_error where
  "link_error = from_sqlx_error ''connection to the server failed''"

definition io_return :: "'a \<Rightarrow> 'a io" where
  "io_return a = (\<lambda>w. (Inr a, w))"

definition io_fail :: "app_error \<Rightarrow> 'a io" where
  "io_fail e = (\<lambda>w. (Inl e, w))"

definition io_bind :: "'a io \<Rightarrow> ('a \<Rightarrow> 'b io) \<Rightarrow> 'b io" where
  "io_bind m f = (\<lambda>w. case m w of (Inl e, w') \<Rightarrow> (Inl e, w') | (Inr a, w') \<Rightarrow> f a w')"

definition next_link :: "world \<Rightarrow> link" where
  "next_link w = (case w_links w of [] \<Rightarrow> Reached | l # ls \<Rightarrow> l)"

definition db_run :: "'a stmt \<Rightarrow> 'a io" where
  "db_run s = (\<lambda>w.
     let w' = w\<lparr>w_links := tl (w_links w)\<rparr> in
     case next_link w of
       Lost \<Rightarrow> (Inl link_error, w')
     | l \<Rightarrow>
         (case s (w_db w) of
            Inl e \<Rightarrow> (Inl (if l = Reached then e else link_error), w')
          | Inr (a, d) \<Rightarrow>
              (if l = Reached then Inr a else Inl link_error, w'\<lparr>w_db := d\<rparr>)))"

definition online :: "db \<Rightarrow> world" where
  "online d = \<lparr>w_db = d, w_links = []\<rparr>"

fun io_iterate :: "('x \<Rightarrow> unit io) \<Rightarrow> 'x list \<Rightarrow> unit io" where
  "io_iterate f [] = io_return ()"
| "io_iterate f (x # xs) = io_bind (f x) (\<lambda>_. io_iterate f xs)"

text \<open>The result of a computation without its error: \<open>.ok()\<close>, \<open>unwrap_or\<close> and the like.\<close>

definition io_catch :: "'a io \<Rightarrow> (app_error + 'a \<Rightarrow> 'b io) \<Rightarrow> 'b io" where
  "io_catch m f = (\<lambda>w. case m w of (r, w') \<Rightarrow> f r w')"

definition succeeds :: "'a io \<Rightarrow> world \<Rightarrow> bool" where
  "succeeds m w = (case fst (m w) of Inl e \<Rightarrow> False | Inr a \<Rightarrow> True)"

lemma succeedsE: "succeeds m w \<Longrightarrow> (\<And>a w'. m w = (Inr a, w') \<Longrightarrow> P) \<Longrightarrow> P"
  by (cases "m w") (auto simp: succeeds_def split: sum.splits)

lemmas stmt_defs = stmt_return_def stmt_fail_def stmt_bind_def stmt_query_def stmt_write_def
lemmas io_defs = io_return_def io_fail_def io_bind_def io_catch_def

lemma online_db [simp]: "w_db (online d) = d"
  by (simp add: online_def)

lemma db_run_online:
  "db_run s (online d) =
     (case s d of Inl e \<Rightarrow> (Inl e, online d) | Inr (a, d') \<Rightarrow> (Inr a, online d'))"
  by (auto simp: db_run_def online_def next_link_def split: sum.splits)

lemma db_run_cases:
  assumes "db_run s w = (r, w')"
  obtains (reached) a where "s (w_db w) = Inr (a, w_db w')" "r = Inr a"
  | (unseen) a e where "s (w_db w) = Inr (a, w_db w')" "r = Inl e"
  | (failed) e where "w_db w' = w_db w" "r = Inl e"
  using assms by (auto simp: db_run_def Let_def split: link.splits sum.splits if_splits prod.splits)

text \<open>A statement that was answered has run, and \<open>io_bind\<close> answers only when both parts do.\<close>

lemma db_run_Inr: "db_run s w = (Inr a, w') \<Longrightarrow> s (w_db w) = Inr (a, w_db w')"
  by (auto elim: db_run_cases)

lemma bind_answered:
  assumes "io_bind m f w = (Inr b, w')"
  obtains a w1 where "m w = (Inr a, w1)" "f a w1 = (Inr b, w')"
  using assms by (auto simp: io_bind_def split: sum.splits prod.splits)

section \<open>Relations every statement respects\<close>

text \<open>
  The interface between the tables and the services: a reflexive and transitive relation between the
  database before and after a statement. What respects it may be composed freely, whatever the link
  does; a relation is interpreted below for each promise the database layer makes.
\<close>

locale store_relation =
  fixes R :: "db \<Rightarrow> db \<Rightarrow> bool"
  assumes refl: "R d d"
    and trans: "R d d' \<Longrightarrow> R d' d'' \<Longrightarrow> R d d''"
begin

definition conforms :: "'a stmt \<Rightarrow> bool" where
  "conforms s \<longleftrightarrow> (\<forall>d a d'. s d = Inr (a, d') \<longrightarrow> R d d')"

definition io_conforms :: "'a io \<Rightarrow> bool" where
  "io_conforms m \<longleftrightarrow> (\<forall>w. R (w_db w) (w_db (snd (m w))))"

lemma conformsI [intro?]: "(\<And>d a d'. s d = Inr (a, d') \<Longrightarrow> R d d') \<Longrightarrow> conforms s"
  by (simp add: conforms_def)

lemma conformsD: "conforms s \<Longrightarrow> s d = Inr (a, d') \<Longrightarrow> R d d'"
  by (simp add: conforms_def)

lemma conforms_return: "conforms (stmt_return a)"
  by (simp add: conforms_def stmt_return_def refl)

lemma conforms_fail: "conforms (stmt_fail e)"
  by (simp add: conforms_def stmt_fail_def)

lemma conforms_query: "conforms (stmt_query q)"
  by (simp add: conforms_def stmt_query_def refl)

lemma conforms_write:
  "(\<And>d a d'. f d = Some (a, d') \<Longrightarrow> R d d') \<Longrightarrow> conforms (stmt_write f)"
  by (auto simp: conforms_def stmt_write_def split: option.splits)

lemma conforms_bind: "conforms m \<Longrightarrow> (\<And>a. conforms (f a)) \<Longrightarrow> conforms (stmt_bind m f)"
  unfolding conforms_def stmt_bind_def by (fastforce split: sum.splits intro: trans)

lemma conforms_iterate: "(\<And>x. conforms (f x)) \<Longrightarrow> conforms (stmt_iterate f xs)"
  by (induction xs) (auto intro: conforms_return conforms_bind)

lemma io_conforms_run: "conforms s \<Longrightarrow> io_conforms (db_run s)"
  unfolding io_conforms_def
proof
  fix w assume s: "conforms s"
  obtain r w' where w': "db_run s w = (r, w')" by fastforce
  then show "R (w_db w) (w_db (snd (db_run s w)))"
    by (cases rule: db_run_cases) (use s w' in \<open>auto simp: refl conformsD\<close>)
qed

lemma io_conforms_return: "io_conforms (io_return a)"
  by (simp add: io_conforms_def io_return_def refl)

lemma io_conforms_fail: "io_conforms (io_fail e)"
  by (simp add: io_conforms_def io_fail_def refl)

lemma io_conforms_bind:
  assumes "io_conforms m" and "\<And>a. io_conforms (f a)"
  shows "io_conforms (io_bind m f)"
  unfolding io_conforms_def
proof
  fix w
  from assms(1) have "R (w_db w) (w_db (snd (m w)))" by (simp add: io_conforms_def)
  then show "R (w_db w) (w_db (snd (io_bind m f w)))"
    using assms(2) by (fastforce simp: io_bind_def io_conforms_def split: prod.splits sum.splits
        intro: trans)
qed

lemma io_conforms_catch:
  assumes "io_conforms m" and "\<And>a. io_conforms (f a)"
  shows "io_conforms (io_catch m f)"
  unfolding io_conforms_def
proof
  fix w
  from assms(1) have "R (w_db w) (w_db (snd (m w)))" by (simp add: io_conforms_def)
  then show "R (w_db w) (w_db (snd (io_catch m f w)))"
    using assms(2) by (fastforce simp: io_catch_def io_conforms_def split: prod.splits intro: trans)
qed

lemma io_conforms_iterate: "(\<And>x. io_conforms (f x)) \<Longrightarrow> io_conforms (io_iterate f xs)"
  by (induction xs) (auto intro: io_conforms_return io_conforms_bind)

lemma io_conformsD: "io_conforms m \<Longrightarrow> m w = (r, w') \<Longrightarrow> R (w_db w) (w_db w')"
  unfolding io_conforms_def by (metis snd_conv)

lemmas conforms_rules = conforms_return conforms_fail conforms_query
lemmas io_rules = io_conforms_return io_conforms_fail io_conforms_run io_conforms_bind
  io_conforms_catch io_conforms_iterate

end

end
