(* ===== verification/Db_Markets.thy ===== *)
theory Db_Markets
  imports Db_State "HOL-Library.AList"
begin

text \<open>
  \<open>db/src/markets.rs\<close>: the tables \<open>markets\<close> and \<open>engine_sequences\<close>. New identifiers and the time of the
  server (\<open>gen_random_uuid()\<close>, \<open>now()\<close>) are arguments. The lemmas give each statement's effect and show
  that \<open>next_sequence\<close> hands out 1, 2, 3, ... for each market.
\<close>

section \<open>Text columns\<close>

text \<open>
  A text column does not take the byte 0. \<open>VARCHAR(n)\<close> counts characters (the bytes that are not UTF-8
  continuation bytes), drops excess characters that are all spaces and rejects any other excess.
\<close>

definition char_count :: "string \<Rightarrow> nat" where
  "char_count s = length (filter (\<lambda>c. \<not> (128 \<le> (of_char c :: nat) \<and> (of_char c :: nat) < 192)) s)"

definition text_ok :: "string \<Rightarrow> bool" where
  "text_ok s \<longleftrightarrow> CHR 0x00 \<notin> set s"

definition varchar :: "nat \<Rightarrow> string \<Rightarrow> string option" where
  "varchar n s =
     (let k = length s - (char_count s - n) in
      if text_ok s \<and> list_all (\<lambda>c. c = CHR '' '') (drop k s) then Some (take k s) else None)"

lemma varchar_fits: "text_ok s \<Longrightarrow> char_count s \<le> n \<Longrightarrow> varchar n s = Some s"
  by (simp add: varchar_def)

section \<open>Markets\<close>

definition market_of_row :: "market_row \<Rightarrow> market" where
  "market_of_row r =
     \<lparr>mkt_id = MarketId (mrow_id r), mkt_title = mrow_title r, mkt_description = mrow_description r,
      mkt_status = mrow_status r, mkt_created_at = mrow_created_at r,
      mkt_resolves_at = mrow_resolves_at r, mkt_settled_at = mrow_settled_at r,
      mkt_outcome = mrow_outcome r\<rparr>"

definition find_market :: "db \<Rightarrow> uuid \<Rightarrow> market_row option" where
  "find_market d k = find (\<lambda>r. mrow_id r = k) (db_markets d)"

definition update_markets ::
  "uuid \<Rightarrow> (market_row \<Rightarrow> bool) \<Rightarrow> (market_row \<Rightarrow> market_row option) \<Rightarrow> nat stmt" where
  "update_markets k g f = stmt_write (\<lambda>d.
     map_option (\<lambda>t. (sql_affected (\<lambda>r. mrow_id r = k \<and> g r) (db_markets d), d\<lparr>db_markets := t\<rparr>))
       (sql_update (\<lambda>r. mrow_id r = k \<and> g r) f (db_markets d)))"

definition insert_market_stmt ::
  "uuid \<Rightarrow> datetime \<Rightarrow> string \<Rightarrow> string \<Rightarrow> datetime option \<Rightarrow> market stmt" where
  "insert_market_stmt new_id now title description resolves_at = stmt_write (\<lambda>d.
     case varchar 200 title of
       None \<Rightarrow> None
     | Some t \<Rightarrow>
         if \<not> text_ok description \<or> market_exists d new_id then None
         else
           (let r = \<lparr>mrow_id = new_id, mrow_title = t, mrow_description = description,
                     mrow_status = MktOpen, mrow_created_at = now, mrow_resolves_at = resolves_at,
                     mrow_settled_at = None, mrow_outcome = None\<rparr>
            in Some (market_of_row r, d\<lparr>db_markets := db_markets d @ [r]\<rparr>)))"

definition insert_market ::
  "uuid \<Rightarrow> datetime \<Rightarrow> string \<Rightarrow> string \<Rightarrow> datetime option \<Rightarrow> market io" where
  "insert_market new_id now title description resolves_at =
     db_run (insert_market_stmt new_id now title description resolves_at)"

definition get_market :: "market_id \<Rightarrow> market io" where
  "get_market m =
     io_bind (db_run (stmt_query (\<lambda>d. find_market d (market_uuid m)))) (\<lambda>r.
       case r of
         None \<Rightarrow> io_fail (MarketNotFound [UuidText (market_uuid m)])
       | Some row \<Rightarrow> io_return (market_of_row row))"

definition list_markets :: "market_status option \<Rightarrow> market list io" where
  "list_markets status =
     db_run (stmt_query (\<lambda>d.
       map market_of_row
         (take 200
           (sql_order_desc mrow_created_at
             (case status of
                Some s \<Rightarrow> filter (\<lambda>r. mrow_status r = s) (db_markets d)
              | None \<Rightarrow> db_markets d)))))"

definition row_status :: "market_status \<Rightarrow> market_row \<Rightarrow> market_row option" where
  "row_status s r = Some (r\<lparr>mrow_status := s\<rparr>)"

definition row_settle :: "datetime \<Rightarrow> outcome \<Rightarrow> market_row \<Rightarrow> market_row option" where
  "row_settle now oc r =
     Some (r\<lparr>mrow_status := MktSettled, mrow_outcome := Some oc, mrow_settled_at := Some now\<rparr>)"

definition set_market_status :: "market_id \<Rightarrow> market_status \<Rightarrow> unit io" where
  "set_market_status m s =
     io_bind (db_run (update_markets (market_uuid m) (\<lambda>_. True) (row_status s))) (\<lambda>n.
       if n = 0 then io_fail (MarketNotFound [UuidText (market_uuid m)]) else io_return ())"

text \<open>The upsert on \<open>engine_sequences\<close>; the foreign key is checked when a row is inserted.\<close>

definition next_sequence_stmt :: "uuid \<Rightarrow> int stmt" where
  "next_sequence_stmt m = stmt_write (\<lambda>d.
     case map_of (db_sequences d) m of
       None \<Rightarrow>
         if market_exists d m then Some (1, d\<lparr>db_sequences := db_sequences d @ [(m, 1)]\<rparr>) else None
     | Some n \<Rightarrow>
         if i64_ok (n + 1)
         then Some (n + 1, d\<lparr>db_sequences := AList.update m (n + 1) (db_sequences d)\<rparr>)
         else None)"

definition next_sequence :: "market_id \<Rightarrow> u64 io" where
  "next_sequence m =
     io_bind (db_run (next_sequence_stmt (market_uuid m))) (\<lambda>n. io_return (i64_of n))"

definition last_sequence :: "db \<Rightarrow> uuid \<Rightarrow> int" where
  "last_sequence d m = (case map_of (db_sequences d) m of None \<Rightarrow> 0 | Some n \<Rightarrow> n)"

section \<open>Well-formedness and effects\<close>

definition markets_ok :: "db \<Rightarrow> bool" where
  "markets_ok d \<longleftrightarrow>
     distinct (map mrow_id (db_markets d)) \<and> distinct (map fst (db_sequences d))
     \<and> (\<forall>(m, n) \<in> set (db_sequences d). 0 \<le> n \<and> i64_ok n \<and> market_exists d m)"

text \<open>The columns \<open>id\<close>, \<open>title\<close> and \<open>description\<close> never change.\<close>

definition market_fixed :: "market_row \<Rightarrow> uuid \<times> string \<times> string \<times> datetime" where
  "market_fixed r = (mrow_id r, mrow_title r, mrow_description r, mrow_created_at r)"

lemma row_status_key: "row_status s r = Some r' \<Longrightarrow> mrow_id r' = mrow_id r"
  by (auto simp: row_status_def)

lemma row_settle_key: "row_settle n oc r = Some r' \<Longrightarrow> mrow_id r' = mrow_id r"
  by (auto simp: row_settle_def)

interpretation mstatus: keyed_rows mrow_id "row_status s" for s
  by unfold_locales (rule row_status_key)

interpretation msettle: keyed_rows mrow_id "row_settle n oc" for n oc
  by unfold_locales (rule row_settle_key)

lemma update_markets_cases:
  assumes run: "update_markets k g f d = Inr (n, d')"
    and dist: "distinct (map mrow_id (db_markets d))"
    and keeps: "\<forall>x x'. f x = Some x' \<longrightarrow> mrow_id x' = mrow_id x"
  obtains (none) "n = 0" "d' = d" "\<And>r. find_market d k = Some r \<Longrightarrow> \<not> g r"
  | (one) r r' t where "find_market d k = Some r" "g r" "f r = Some r'" "find_market d' k = Some r'"
      "n = 1" "d' = d\<lparr>db_markets := t\<rparr>" "map mrow_id t = map mrow_id (db_markets d)"
      "\<And>k'. k' \<noteq> k \<Longrightarrow> find_market d' k' = find_market d k'"
proof -
  from run obtain t where t: "sql_update (\<lambda>r. mrow_id r = k \<and> g r) f (db_markets d) = Some t"
    and d': "d' = d\<lparr>db_markets := t\<rparr>" and n: "n = sql_affected (\<lambda>r. mrow_id r = k \<and> g r) (db_markets d)"
    by (auto simp: update_markets_def stmt_write_def split: option.splits)
  have kr: "keyed_rows mrow_id f" by (rule keyed_rows.intro) (simp add: keeps)
  show ?thesis
  proof (cases rule: sql_update_keyed [OF t dist keeps, case_names none one])
    case none
    then show ?thesis using that(1) n d' by (simp add: find_market_def)
  next
    case (one r r')
    show ?thesis
      by (rule that(2) [of r r' t])
        (use one n d' keyed_rows.update_keys [OF kr t] keyed_rows.update_find_other [OF kr t]
          in \<open>simp_all add: find_market_def\<close>)
  qed
qed

lemma map_of_append_fresh:
  "m \<notin> fst ` set t \<Longrightarrow> map_of (t @ [(m, n)]) = (map_of t)(m \<mapsto> n)"
  by (induction t) auto

lemma next_sequence_effect:
  assumes "next_sequence_stmt m d = Inr (n, d')"
  shows "n = last_sequence d m + 1 \<and> i64_ok n \<and>
    last_sequence d' m = n \<and> (\<forall>m'. m' \<noteq> m \<longrightarrow> last_sequence d' m' = last_sequence d m')"
proof (cases "map_of (db_sequences d) m")
  case None
  then have "m \<notin> fst ` set (db_sequences d)" by (simp add: map_of_eq_None_iff)
  with None assms show ?thesis
    by (auto simp: next_sequence_stmt_def stmt_write_def last_sequence_def map_of_append_fresh i64_ok_def
        split: if_splits option.splits)
next
  case (Some k)
  with assms show ?thesis
    by (auto simp: next_sequence_stmt_def stmt_write_def last_sequence_def update_conv' split: if_splits)
qed

lemma next_sequence_ok:
  assumes "next_sequence_stmt m d = Inr (n, d')" and "markets_ok d"
  shows "markets_ok d'"
proof (cases "map_of (db_sequences d) m")
  case None
  then have "m \<notin> fst ` set (db_sequences d)" by (simp add: map_of_eq_None_iff)
  with None assms show ?thesis
    by (auto simp: next_sequence_stmt_def stmt_write_def markets_ok_def market_exists_def i64_ok_def
        split: if_splits)
next
  case (Some k)
  have upd: "set (AList.update m v t) \<subseteq> insert (m, v) (set t)" for v and t :: "(uuid \<times> int) list"
    by (induction t) auto
  from Some have "(m, k) \<in> set (db_sequences d)" by (rule map_of_SomeD)
  with Some assms show ?thesis
    using upd [of "k + 1" "db_sequences d"]
    by (fastforce simp: next_sequence_stmt_def stmt_write_def markets_ok_def market_exists_def
        distinct_update split: if_splits)
qed

lemma insert_market_ok:
  "insert_market_stmt i now t de ra d = Inr (m, d') \<Longrightarrow> markets_ok d \<Longrightarrow> markets_ok d'"
  by (auto simp: insert_market_stmt_def stmt_write_def markets_ok_def market_exists_def Let_def
      split: option.splits if_splits)

lemma insert_market_effect:
  assumes "insert_market_stmt i now t de ra d = Inr (m, d')"
  shows "mkt_id m = MarketId i \<and> mkt_status m = MktOpen \<and> mkt_outcome m = None \<and>
    map_option market_of_row (find_market d' i) = Some m \<and>
    (\<forall>k. k \<noteq> i \<longrightarrow> find_market d' k = find_market d k)"
proof -
  have none: "i \<notin> mrow_id ` set xs \<Longrightarrow> find (\<lambda>r. mrow_id r = i) (xs @ ys) = find (\<lambda>r. mrow_id r = i) ys"
    for xs ys by (induction xs) auto
  from assms show ?thesis
    by (auto simp: insert_market_stmt_def stmt_write_def market_exists_def Let_def find_market_def
        market_of_row_def none find_append_other split: option.splits if_splits)
qed

lemma update_markets_ok:
  assumes "update_markets k g f d = Inr (n, d')" and "markets_ok d"
    and "\<forall>x x'. f x = Some x' \<longrightarrow> mrow_id x' = mrow_id x"
  shows "markets_ok d' \<and> (\<forall>m. market_exists d' m = market_exists d m)"
proof -
  from assms(2) have "distinct (map mrow_id (db_markets d))" by (simp add: markets_ok_def)
  from assms(1) this assms(3) show ?thesis
  proof (cases rule: update_markets_cases)
    case (one r r' t)
    then have "set (map mrow_id t) = set (map mrow_id (db_markets d))" by simp
    then have "\<forall>m. market_exists d' m = market_exists d m"
      unfolding market_exists_def using one(6) by simp
    with one assms(2) show ?thesis
      by (simp add: markets_ok_def)
  qed (use assms(2) in simp)
qed

end
