(* ===== verification/Db_Balances.thy ===== *)
theory Db_Balances
  imports Db_Markets
begin

text \<open>
  \<open>db/src/balances.rs\<close>: the ledger. A row function computes the new columns of a balance and is \<open>None\<close>
  when a \<open>BIGINT\<close> overflows or a \<open>CHECK\<close> of the table fails. The lemmas give, for each statement, the
  exact change of the two columns of the one user it names, that other users keep theirs, and the
  change of the total of the ledger.
\<close>

section \<open>Row functions and statements\<close>

definition bal_write :: "int \<Rightarrow> int \<Rightarrow> bal_row \<Rightarrow> bal_row option" where
  "bal_write a s r =
     (if 0 \<le> a \<and> i64_ok a \<and> 0 \<le> s \<and> i64_ok s \<and> i64_ok (bal_version r + 1)
      then Some (r\<lparr>bal_available := a, bal_reserved := s, bal_version := bal_version r + 1\<rparr>)
      else None)"

definition row_reserve :: "int \<Rightarrow> bal_row \<Rightarrow> bal_row option" where
  "row_reserve amt r = bal_write (bal_available r - amt) (bal_reserved r + amt) r"

text \<open>\<open>GREATEST(0, reserved - $2)\<close> is computed from a difference that must itself be in range.\<close>

definition row_release :: "int \<Rightarrow> bal_row \<Rightarrow> bal_row option" where
  "row_release amt r =
     (if i64_ok (bal_reserved r - amt)
      then bal_write (bal_available r + amt) (max 0 (bal_reserved r - amt)) r else None)"

definition row_spend :: "int \<Rightarrow> bal_row \<Rightarrow> bal_row option" where
  "row_spend amt r =
     (if i64_ok (bal_reserved r - amt)
      then bal_write (bal_available r) (max 0 (bal_reserved r - amt)) r else None)"

definition row_credit :: "int \<Rightarrow> bal_row \<Rightarrow> bal_row option" where
  "row_credit amt r = bal_write (bal_available r + amt) (bal_reserved r) r"

definition find_balance :: "db \<Rightarrow> uuid \<Rightarrow> bal_row option" where
  "find_balance d u = find (\<lambda>r. bal_user r = u) (db_balances d)"

definition update_balances ::
  "uuid \<Rightarrow> (bal_row \<Rightarrow> bool) \<Rightarrow> (bal_row \<Rightarrow> bal_row option) \<Rightarrow> nat stmt" where
  "update_balances u g f = stmt_write (\<lambda>d.
     map_option (\<lambda>t. (sql_affected (\<lambda>r. bal_user r = u \<and> g r) (db_balances d), d\<lparr>db_balances := t\<rparr>))
       (sql_update (\<lambda>r. bal_user r = u \<and> g r) f (db_balances d)))"

definition reserve_stmt :: "uuid \<Rightarrow> int \<Rightarrow> nat stmt" where
  "reserve_stmt u amt = update_balances u (\<lambda>r. amt \<le> bal_available r) (row_reserve amt)"

definition release_stmt :: "uuid \<Rightarrow> int \<Rightarrow> nat stmt" where
  "release_stmt u amt = update_balances u (\<lambda>_. True) (row_release amt)"

definition spend_stmt :: "uuid \<Rightarrow> int \<Rightarrow> nat stmt" where
  "spend_stmt u amt = update_balances u (\<lambda>_. True) (row_spend amt)"

text \<open>
  \<open>INSERT ... ON CONFLICT (user_id) DO UPDATE\<close>: the \<open>CHECK\<close> holds of the proposed row even when the row
  exists already; the reference to \<open>users\<close> is checked when a row is inserted.
\<close>

definition credit_stmt :: "uuid \<Rightarrow> int \<Rightarrow> unit stmt" where
  "credit_stmt u amt =
     (if amt < 0 \<or> \<not> i64_ok amt then stmt_fail sql_error
      else stmt_bind (stmt_query (\<lambda>d. find_balance d u)) (\<lambda>b.
        case b of
          Some _ \<Rightarrow> stmt_bind (update_balances u (\<lambda>_. True) (row_credit amt)) (\<lambda>_. stmt_return ())
        | None \<Rightarrow> stmt_write (\<lambda>d.
            if user_exists d u
            then Some ((), d\<lparr>db_balances := db_balances d @
                   [\<lparr>bal_user = u, bal_available = amt, bal_reserved = 0, bal_version = 0\<rparr>]\<rparr>)
            else None)))"

section \<open>The methods\<close>

record balance =
  available :: i64
  reserved :: i64

definition balance_of_row :: "bal_row \<Rightarrow> balance" where
  "balance_of_row r = \<lparr>available = i64_of (bal_available r), reserved = i64_of (bal_reserved r)\<rparr>"

definition get_balance :: "user_id \<Rightarrow> balance io" where
  "get_balance u =
     io_bind (db_run (stmt_query (\<lambda>d. find_balance d (user_uuid u)))) (\<lambda>r.
       io_return (case r of None \<Rightarrow> \<lparr>available = 0, reserved = 0\<rparr> | Some b \<Rightarrow> balance_of_row b))"

definition credit_balance :: "user_id \<Rightarrow> i64 \<Rightarrow> unit io" where
  "credit_balance u amt = db_run (credit_stmt (user_uuid u) (sint amt))"

text \<open>The answer when no row had enough money: the balance is read again for the message.\<close>

definition insufficient :: "user_id \<Rightarrow> i64 \<Rightarrow> 'a io" where
  "insufficient u amt =
     io_bind (get_balance u) (\<lambda>b. io_fail (InsufficientBalance amt (available b)))"

definition reserve_balance :: "user_id \<Rightarrow> i64 \<Rightarrow> unit io" where
  "reserve_balance u amt =
     io_bind (db_run (reserve_stmt (user_uuid u) (sint amt))) (\<lambda>n.
       if n = 0 then insufficient u amt else io_return ())"

definition release_reservation :: "user_id \<Rightarrow> i64 \<Rightarrow> unit io" where
  "release_reservation u amt =
     io_bind (db_run (release_stmt (user_uuid u) (sint amt))) (\<lambda>_. io_return ())"

definition apply_fill_stmt :: "uuid \<Rightarrow> uuid \<Rightarrow> int \<Rightarrow> unit stmt" where
  "apply_fill_stmt buyer seller cost =
     stmt_bind (spend_stmt buyer cost) (\<lambda>_.
     stmt_bind (release_stmt seller cost) (\<lambda>_. stmt_return ()))"

definition apply_fill_balances :: "user_id \<Rightarrow> user_id \<Rightarrow> i64 \<Rightarrow> unit io" where
  "apply_fill_balances buyer seller cost =
     db_run (apply_fill_stmt (user_uuid buyer) (user_uuid seller) (sint cost))"

definition settle_stmt ::
  "datetime \<Rightarrow> uuid \<Rightarrow> outcome \<Rightarrow> (user_id \<times> i64) list \<Rightarrow> unit stmt" where
  "settle_stmt now m oc payouts =
     stmt_bind (update_markets m (\<lambda>_. True) (row_settle now oc)) (\<lambda>_.
       stmt_iterate (\<lambda>(u, amt). credit_stmt (user_uuid u) (sint amt)) payouts)"

definition apply_settlement_payouts ::
  "datetime \<Rightarrow> market_id \<Rightarrow> outcome \<Rightarrow> (user_id \<times> i64) list \<Rightarrow> unit io" where
  "apply_settlement_payouts now m oc payouts = db_run (settle_stmt now (market_uuid m) oc payouts)"

definition deposit_stmt :: "uuid \<Rightarrow> int \<Rightarrow> string \<Rightarrow> unit stmt" where
  "deposit_stmt u amt reference =
     stmt_bind
       (stmt_write (\<lambda>d.
          if 0 < amt \<and> i64_ok amt \<and> user_exists d u \<and> text_ok reference
          then Some ((), d\<lparr>db_deposits := db_deposits d @
                 [\<lparr>dep_user = u, dep_amount = amt, dep_reference = reference\<rparr>]\<rparr>)
          else None))
       (\<lambda>_. credit_stmt u amt)"

definition record_deposit :: "user_id \<Rightarrow> i64 \<Rightarrow> string \<Rightarrow> unit io" where
  "record_deposit u amt reference = db_run (deposit_stmt (user_uuid u) (sint amt) reference)"

section \<open>Effects\<close>

definition avail :: "db \<Rightarrow> uuid \<Rightarrow> int" where
  "avail d u = (case find_balance d u of None \<Rightarrow> 0 | Some r \<Rightarrow> bal_available r)"

definition resv :: "db \<Rightarrow> uuid \<Rightarrow> int" where
  "resv d u = (case find_balance d u of None \<Rightarrow> 0 | Some r \<Rightarrow> bal_reserved r)"

text \<open>All the money of the ledger, and the vocabulary of the effects: user \<open>u\<close> gains \<open>a\<close> and \<open>s\<close>.\<close>

definition funds :: "db \<Rightarrow> int" where
  "funds d = (\<Sum>r\<leftarrow>db_balances d. bal_available r + bal_reserved r)"

definition moves :: "uuid \<Rightarrow> int \<Rightarrow> int \<Rightarrow> db \<Rightarrow> db \<Rightarrow> bool" where
  "moves u a s d d' \<longleftrightarrow>
     (\<forall>v. avail d' v = avail d v + (if v = u then a else 0)) \<and>
     (\<forall>v. resv d' v = resv d v + (if v = u then s else 0)) \<and>
     funds d' = funds d + a + s"

definition balance_ok :: "bal_row \<Rightarrow> bool" where
  "balance_ok r \<longleftrightarrow> 0 \<le> bal_available r \<and> i64_ok (bal_available r)
     \<and> 0 \<le> bal_reserved r \<and> i64_ok (bal_reserved r)"

definition balances_ok :: "db \<Rightarrow> bool" where
  "balances_ok d \<longleftrightarrow> distinct (map bal_user (db_balances d))
     \<and> (\<forall>r \<in> set (db_balances d). balance_ok r \<and> user_exists d (bal_user r))"

lemma bal_write_Some:
  "bal_write a s r = Some r' \<Longrightarrow>
     bal_available r' = a \<and> bal_reserved r' = s \<and> bal_user r' = bal_user r \<and> balance_ok r'"
  by (auto simp: bal_write_def balance_ok_def split: if_splits)

lemma row_reserve_Some:
  "row_reserve amt r = Some r' \<Longrightarrow> bal_available r' = bal_available r - amt \<and>
     bal_reserved r' = bal_reserved r + amt \<and> bal_user r' = bal_user r \<and> balance_ok r'"
  by (auto simp: row_reserve_def dest: bal_write_Some)

lemma row_release_Some:
  "row_release amt r = Some r' \<Longrightarrow> bal_available r' = bal_available r + amt \<and>
     bal_reserved r' = max 0 (bal_reserved r - amt) \<and> bal_user r' = bal_user r \<and> balance_ok r'"
  by (auto simp: row_release_def dest: bal_write_Some split: if_splits)

lemma row_spend_Some:
  "row_spend amt r = Some r' \<Longrightarrow> bal_available r' = bal_available r \<and>
     bal_reserved r' = max 0 (bal_reserved r - amt) \<and> bal_user r' = bal_user r \<and> balance_ok r'"
  by (auto simp: row_spend_def dest: bal_write_Some split: if_splits)

lemma row_credit_Some:
  "row_credit amt r = Some r' \<Longrightarrow> bal_available r' = bal_available r + amt \<and>
     bal_reserved r' = bal_reserved r \<and> bal_user r' = bal_user r \<and> balance_ok r'"
  by (auto simp: row_credit_def dest: bal_write_Some)

interpretation bwrite: keyed_rows bal_user "bal_write a s" for a s
  by unfold_locales (simp add: bal_write_Some)

lemma update_balances_cases:
  assumes run: "update_balances u g f d = Inr (n, d')"
    and dist: "distinct (map bal_user (db_balances d))"
    and keeps: "\<forall>x x'. f x = Some x' \<longrightarrow> bal_user x' = bal_user x"
  obtains (none) "n = 0" "d' = d" "\<And>r. find_balance d u = Some r \<Longrightarrow> \<not> g r"
  | (one) r r' t where "find_balance d u = Some r" "r \<in> set (db_balances d)" "g r" "f r = Some r'"
      "n = 1" "d' = d\<lparr>db_balances := t\<rparr>" "find_balance d' u = Some r'"
      "moves u (bal_available r' - bal_available r) (bal_reserved r' - bal_reserved r) d d'"
proof -
  from run obtain t where t: "sql_update (\<lambda>r. bal_user r = u \<and> g r) f (db_balances d) = Some t"
    and d': "d' = d\<lparr>db_balances := t\<rparr>" and n: "n = sql_affected (\<lambda>r. bal_user r = u \<and> g r) (db_balances d)"
    by (auto simp: update_balances_def stmt_write_def split: option.splits)
  have kr: "keyed_rows bal_user f" by (rule keyed_rows.intro) (simp add: keeps)
  show ?thesis
  proof (cases rule: sql_update_keyed [OF t dist keeps, case_names none one])
    case none
    then show ?thesis using that(1) n d' by (simp add: find_balance_def)
  next
    case (one r r')
    from one(8) [of "\<lambda>r. bal_available r + bal_reserved r"]
    have "moves u (bal_available r' - bal_available r) (bal_reserved r' - bal_reserved r) d d'"
      using one(1,6) d' keyed_rows.update_find_other [OF kr t]
      by (auto simp: moves_def avail_def resv_def find_balance_def funds_def)
    then show ?thesis
      by (intro that(2) [of r r' t]) (use one n d' in \<open>simp_all add: find_balance_def\<close>)
  qed
qed

lemma update_balances_ok:
  assumes run: "update_balances u g f d = Inr (n, d')" and ok: "balances_ok d"
    and f: "\<forall>x x'. f x = Some x' \<longrightarrow> bal_user x' = bal_user x \<and> balance_ok x'"
  shows "balances_ok d'"
proof -
  from run obtain t where t: "sql_update (\<lambda>r. bal_user r = u \<and> g r) f (db_balances d) = Some t"
    and d': "d' = d\<lparr>db_balances := t\<rparr>"
    by (auto simp: update_balances_def stmt_write_def split: option.splits)
  have kr: "keyed_rows bal_user f" by (rule keyed_rows.intro) (simp add: f)
  have "\<forall>r \<in> set t. balance_ok r \<and> user_exists d (bal_user r)"
    by (rule sql_update_all [OF t]) (use ok f in \<open>auto simp: balances_ok_def\<close>)
  then show ?thesis
    using keyed_rows.update_distinct [OF kr t] ok d' by (auto simp: balances_ok_def user_exists_def)
qed

text \<open>Each statement: what it changes when it succeeds.\<close>

lemma moves_refl: "moves u 0 0 d d"
  by (simp add: moves_def)

lemma balances_ok_dist: "balances_ok d \<Longrightarrow> distinct (map bal_user (db_balances d))"
  by (simp add: balances_ok_def)

lemma avail_row: "find_balance d u = Some r \<Longrightarrow> avail d u = bal_available r"
  by (simp add: avail_def)

lemma resv_row: "find_balance d u = Some r \<Longrightarrow> resv d u = bal_reserved r"
  by (simp add: resv_def)

lemma find_balance_ok:
  "balances_ok d \<Longrightarrow> find_balance d u = Some r \<Longrightarrow> balance_ok r \<and> user_exists d u \<and> bal_user r = u"
  unfolding balances_ok_def find_balance_def by (auto dest: find_SomeD)

lemma resv_nonneg: "balances_ok d \<Longrightarrow> 0 \<le> resv d u"
  by (auto simp: resv_def balance_ok_def dest: find_balance_ok split: option.splits)

lemma avail_nonneg: "balances_ok d \<Longrightarrow> 0 \<le> avail d u"
  by (auto simp: avail_def balance_ok_def dest: find_balance_ok split: option.splits)

lemma row_keys:
  "\<forall>x x'. row_reserve amt x = Some x' \<longrightarrow> bal_user x' = bal_user x"
  "\<forall>x x'. row_release amt x = Some x' \<longrightarrow> bal_user x' = bal_user x"
  "\<forall>x x'. row_spend amt x = Some x' \<longrightarrow> bal_user x' = bal_user x"
  "\<forall>x x'. row_credit amt x = Some x' \<longrightarrow> bal_user x' = bal_user x"
  by (simp_all add: row_reserve_Some row_release_Some row_spend_Some row_credit_Some)

lemma reserve_effect:
  assumes "reserve_stmt u amt d = Inr (n, d')" and "balances_ok d"
  shows "(n = 0 \<and> d' = d \<and> (amt \<le> avail d u \<longrightarrow> find_balance d u = None)) \<or>
    (n = 1 \<and> amt \<le> avail d u \<and> find_balance d u \<noteq> None \<and> moves u (- amt) amt d d')"
  using assms(1) [unfolded reserve_stmt_def] balances_ok_dist [OF assms(2)] row_keys(1)
  by (cases rule: update_balances_cases)
    (auto dest: row_reserve_Some simp: avail_def split: option.splits)

lemma release_effect:
  assumes "release_stmt u amt d = Inr (n, d')" and "balances_ok d"
  shows "(n = 0 \<and> d' = d \<and> find_balance d u = None) \<or>
    (n = 1 \<and> find_balance d u \<noteq> None \<and> moves u amt (- min (resv d u) amt) d d')"
  using assms(1) [unfolded release_stmt_def] balances_ok_dist [OF assms(2)] row_keys(2)
proof (cases rule: update_balances_cases)
  case (one r r' t)
  then have "bal_reserved r' - bal_reserved r = - min (resv d u) amt"
    using row_release_Some [OF one(4)] by (simp add: resv_row)
  with one row_release_Some [OF one(4)] show ?thesis by simp
qed (cases "find_balance d u"; simp)

lemma spend_effect:
  assumes "spend_stmt u amt d = Inr (n, d')" and "balances_ok d"
  shows "(n = 0 \<and> d' = d \<and> find_balance d u = None) \<or>
    (n = 1 \<and> find_balance d u \<noteq> None \<and> moves u 0 (- min (resv d u) amt) d d')"
  using assms(1) [unfolded spend_stmt_def] balances_ok_dist [OF assms(2)] row_keys(3)
proof (cases rule: update_balances_cases)
  case (one r r' t)
  then have "bal_reserved r' - bal_reserved r = - min (resv d u) amt"
    using row_spend_Some [OF one(4)] by (simp add: resv_row)
  with one row_spend_Some [OF one(4)] show ?thesis by simp
qed (cases "find_balance d u"; simp)

lemma credit_effect:
  assumes run: "credit_stmt u amt d = Inr ((), d')" and ok: "balances_ok d"
  shows "0 \<le> amt \<and> user_exists d u \<and> find_balance d' u \<noteq> None \<and> moves u amt 0 d d' \<and>
    (\<exists>t. d' = d\<lparr>db_balances := t\<rparr>)"
proof (cases "find_balance d u")
  case None
  have "find_balance d' v = (if v = u then Some \<lparr>bal_user = u, bal_available = amt, bal_reserved = 0,
      bal_version = 0\<rparr> else find_balance d v)" for v
    using None run by (auto simp: credit_stmt_def stmt_defs find_balance_def find_append_new
        find_append_other split: if_splits)
  with None run show ?thesis
    by (auto simp: credit_stmt_def stmt_defs moves_def avail_def resv_def funds_def
        split: if_splits)
next
  case (Some b)
  with run obtain n where upd: "update_balances u (\<lambda>_. True) (row_credit amt) d = Inr (n, d')"
    and nn: "0 \<le> amt"
    by (auto simp: credit_stmt_def stmt_defs split: sum.splits if_splits)
  from upd balances_ok_dist [OF ok] row_keys(4) show ?thesis
  proof (cases rule: update_balances_cases)
    case none
    with Some show ?thesis by blast
  next
    case (one r r' t)
    with row_credit_Some [OF one(4)] nn find_balance_ok [OF ok one(1)] show ?thesis by auto
  qed
qed

lemma credit_ok: "credit_stmt u amt d = Inr ((), d') \<Longrightarrow> balances_ok d \<Longrightarrow> balances_ok d'"
proof (cases "find_balance d u")
  case None
  assume run: "credit_stmt u amt d = Inr ((), d')" and ok: "balances_ok d"
  from None have "u \<notin> bal_user ` set (db_balances d)"
    by (auto simp: find_balance_def find_None_iff)
  with None run ok show ?thesis
    by (auto simp: credit_stmt_def stmt_defs balances_ok_def balance_ok_def user_exists_def
        split: if_splits)
next
  case (Some b)
  assume run: "credit_stmt u amt d = Inr ((), d')" and ok: "balances_ok d"
  with Some obtain n where "update_balances u (\<lambda>_. True) (row_credit amt) d = Inr (n, d')"
    by (auto simp: credit_stmt_def stmt_defs split: sum.splits if_splits)
  then show ?thesis
    using ok by (rule update_balances_ok) (simp add: row_credit_Some)
qed

lemma update_balances_oks:
  "reserve_stmt u amt d = Inr (n, d') \<Longrightarrow> balances_ok d \<Longrightarrow> balances_ok d'"
  "release_stmt u amt d = Inr (n, d') \<Longrightarrow> balances_ok d \<Longrightarrow> balances_ok d'"
  "spend_stmt u amt d = Inr (n, d') \<Longrightarrow> balances_ok d \<Longrightarrow> balances_ok d'"
  unfolding reserve_stmt_def release_stmt_def spend_stmt_def
  by (auto elim!: update_balances_ok simp: row_reserve_Some row_release_Some row_spend_Some)

text \<open>The balance statements leave the other tables alone.\<close>

lemma balance_frame:
  "update_balances u g f d = Inr (n, d') \<Longrightarrow> \<exists>t. d' = d\<lparr>db_balances := t\<rparr>"
  by (auto simp: update_balances_def stmt_write_def split: option.splits)

lemma credit_frame:
  "credit_stmt u amt d = Inr (x, d') \<Longrightarrow> \<exists>t. d' = d\<lparr>db_balances := t\<rparr>"
  by (auto simp: credit_stmt_def stmt_defs dest!: balance_frame
      split: if_splits sum.splits option.splits)

end
