(* ===== verification/Db_Orders.thy ===== *)
theory Db_Orders
  imports Db_Balances
begin

text \<open>
  \<open>db/src/orders.rs\<close>: the table \<open>orders\<close> with its \<open>CHECK\<close>s, the conversions between rows and the domain
  type, and \<open>place_order_atomic\<close>, which checks the market, reserves the money and inserts the order in one
  transaction. The lemmas give the round trip of the conversions, the invariant of the table and the
  effect of each method on the order it names.
\<close>

section \<open>Conversions\<close>

definition order_of_row :: "order_row \<Rightarrow> order" where
  "order_of_row r =
     \<lparr>ord_id = OrderId (orow_id r), ord_market_id = MarketId (orow_market_id r),
      ord_user_id = UserId (orow_user_id r), ord_side = orow_side r, ord_kind = orow_kind r,
      ord_price = map_option (\<lambda>p. Price (word_of_int p)) (orow_price r),
      ord_quantity = Quantity (word_of_int (orow_quantity r)),
      ord_filled = Quantity (word_of_int (orow_filled_quantity r)),
      ord_status = orow_status r, ord_sequence = word_of_int (orow_sequence r),
      ord_created_at = orow_created_at r, ord_updated_at = orow_updated_at r\<rparr>"

text \<open>What \<open>insert_order\<close> binds: \<open>as i32\<close> and \<open>as i64\<close> reinterpret the unsigned values as signed.\<close>

definition row_of_order :: "order \<Rightarrow> order_row" where
  "row_of_order o' =
     \<lparr>orow_id = order_uuid (ord_id o'), orow_market_id = market_uuid (ord_market_id o'),
      orow_user_id = user_uuid (ord_user_id o'), orow_side = ord_side o', orow_kind = ord_kind o',
      orow_price = map_option (\<lambda>p. sint (price_raw p)) (ord_price o'),
      orow_quantity = sint (quantity_raw (ord_quantity o')),
      orow_filled_quantity = sint (quantity_raw (ord_filled o')),
      orow_status = ord_status o', orow_sequence = sint (ord_sequence o'),
      orow_created_at = ord_created_at o', orow_updated_at = ord_updated_at o'\<rparr>"

text \<open>The \<open>CHECK\<close>s of the table.\<close>

definition order_check :: "order_row \<Rightarrow> bool" where
  "order_check r \<longleftrightarrow>
     (case orow_price r of None \<Rightarrow> True | Some p \<Rightarrow> 0 < p \<and> p < 10000)
     \<and> 0 < orow_quantity r \<and> i64_ok (orow_quantity r)
     \<and> 0 \<le> orow_filled_quantity r \<and> orow_filled_quantity r \<le> orow_quantity r
     \<and> (orow_kind r = LimitOrder \<longrightarrow> orow_price r \<noteq> None)"

definition find_order :: "db \<Rightarrow> uuid \<Rightarrow> order_row option" where
  "find_order d k = find (\<lambda>r. orow_id r = k) (db_orders d)"

section \<open>Statements\<close>

definition insert_order_stmt :: "order \<Rightarrow> unit stmt" where
  "insert_order_stmt o' = stmt_write (\<lambda>d.
     let r = row_of_order o' in
     if order_check r \<and> \<not> order_exists d (orow_id r)
        \<and> market_exists d (orow_market_id r) \<and> user_exists d (orow_user_id r)
     then Some ((), d\<lparr>db_orders := db_orders d @ [r]\<rparr>) else None)"

definition update_orders ::
  "uuid \<Rightarrow> (order_row \<Rightarrow> bool) \<Rightarrow> (order_row \<Rightarrow> order_row option) \<Rightarrow> order_row option stmt" where
  "update_orders k g f = stmt_write (\<lambda>d.
     map_option
       (\<lambda>t. (if sql_affected (\<lambda>r. orow_id r = k \<and> g r) (db_orders d) = 0 then None
             else find (\<lambda>r. orow_id r = k) t,
             d\<lparr>db_orders := t\<rparr>))
       (sql_update (\<lambda>r. orow_id r = k \<and> g r) f (db_orders d)))"

definition row_fill :: "datetime \<Rightarrow> order_status \<Rightarrow> int \<Rightarrow> order_row \<Rightarrow> order_row option" where
  "row_fill now s n r =
     (let r' = r\<lparr>orow_status := s, orow_filled_quantity := n, orow_updated_at := now\<rparr>
      in if order_check r' then Some r' else None)"

definition row_cancel :: "datetime \<Rightarrow> order_row \<Rightarrow> order_row option" where
  "row_cancel now r = Some (r\<lparr>orow_status := OrdCancelled, orow_updated_at := now\<rparr>)"

definition cancellable :: "uuid \<Rightarrow> order_row \<Rightarrow> bool" where
  "cancellable u r \<longleftrightarrow> orow_user_id r = u \<and> orow_status r \<in> {OrdOpen, OrdPartial}"

section \<open>The methods\<close>

definition insert_order :: "order \<Rightarrow> unit io" where
  "insert_order o' = db_run (insert_order_stmt o')"

definition order_or_missing :: "order_id \<Rightarrow> order_row option \<Rightarrow> order io" where
  "order_or_missing i r =
     (case r of
        None \<Rightarrow> io_fail (OrderNotFound [UuidText (order_uuid i)])
      | Some row \<Rightarrow> io_return (order_of_row row))"

definition get_order :: "order_id \<Rightarrow> order io" where
  "get_order i =
     io_bind (db_run (stmt_query (\<lambda>d. find_order d (order_uuid i)))) (order_or_missing i)"

definition update_order_fill :: "datetime \<Rightarrow> order_id \<Rightarrow> order_status \<Rightarrow> quantity \<Rightarrow> unit io" where
  "update_order_fill now i s filled =
     io_bind
       (db_run (update_orders (order_uuid i) (\<lambda>_. True) (row_fill now s (sint (quantity_raw filled)))))
       (\<lambda>_. io_return ())"

definition cancel_order :: "datetime \<Rightarrow> order_id \<Rightarrow> user_id \<Rightarrow> order io" where
  "cancel_order now i u =
     io_bind (db_run (update_orders (order_uuid i) (cancellable (user_uuid u)) (row_cancel now)))
       (order_or_missing i)"

text \<open>The transaction of \<open>place_order_atomic\<close>; its early returns roll back before anything is written.\<close>

datatype place_result = Placed | PlaceMarketClosed | PlaceNoMarket | PlaceNoFunds

definition place_order_stmt :: "order \<Rightarrow> int \<Rightarrow> place_result stmt" where
  "place_order_stmt o' cost =
     stmt_bind
       (stmt_query (\<lambda>d. map_option (\<lambda>r. market_status_text (mrow_status r))
          (find_market d (market_uuid (ord_market_id o')))))
       (\<lambda>st.
         case st of
           None \<Rightarrow> stmt_return PlaceNoMarket
         | Some t \<Rightarrow>
             if t \<noteq> ''open'' then stmt_return PlaceMarketClosed
             else
               stmt_bind (reserve_stmt (user_uuid (ord_user_id o')) cost) (\<lambda>n.
                 if n = 0 then stmt_return PlaceNoFunds
                 else stmt_bind (insert_order_stmt o') (\<lambda>_. stmt_return Placed)))"

definition place_order_atomic :: "order \<Rightarrow> i64 \<Rightarrow> unit io" where
  "place_order_atomic o' cost =
     io_bind (db_run (place_order_stmt o' (sint cost))) (\<lambda>r.
       case r of
         Placed \<Rightarrow> io_return ()
       | PlaceMarketClosed \<Rightarrow> io_fail MarketNotOpen
       | PlaceNoMarket \<Rightarrow> io_fail (MarketNotFound [UuidText (market_uuid (ord_market_id o'))])
       | PlaceNoFunds \<Rightarrow> insufficient (ord_user_id o') cost)"

definition list_user_orders :: "user_id \<Rightarrow> market_id option \<Rightarrow> i64 \<Rightarrow> order list io" where
  "list_user_orders u m lim =
     db_run (\<lambda>d.
       let rows = filter (\<lambda>r. orow_user_id r = user_uuid u
                    \<and> (case m of None \<Rightarrow> True | Some mid \<Rightarrow> orow_market_id r = market_uuid mid))
                    (db_orders d)
       in case sql_limit (sint lim) (sql_order_desc orow_created_at rows) of
            None \<Rightarrow> Inl sql_error
          | Some rs \<Rightarrow> Inr (map order_of_row rs, d))"

section \<open>Properties of the table\<close>

definition orders_ok :: "db \<Rightarrow> bool" where
  "orders_ok d \<longleftrightarrow> distinct (map orow_id (db_orders d))
     \<and> (\<forall>r \<in> set (db_orders d). order_check r \<and> market_exists d (orow_market_id r)
          \<and> user_exists d (orow_user_id r))"

lemma order_row_inverse: "order_of_row (row_of_order o') = o'"
  by (cases o') (simp add: order_of_row_def row_of_order_def option.map_comp comp_def option.map_ident)

interpretation ofill: keyed_rows orow_id "row_fill now s n" for now s n
  by unfold_locales (auto simp: row_fill_def Let_def split: if_splits)

interpretation ocancel: keyed_rows orow_id "row_cancel now" for now
  by unfold_locales (auto simp: row_cancel_def)

lemma row_fill_key: "\<forall>x x'. row_fill now s n x = Some x' \<longrightarrow> orow_id x' = orow_id x"
  by (simp add: ofill.change_key)

lemma row_cancel_key: "\<forall>x x'. row_cancel now x = Some x' \<longrightarrow> orow_id x' = orow_id x"
  by (simp add: ocancel.change_key)

lemma update_orders_cases:
  assumes run: "update_orders k g f d = Inr (res, d')"
    and dist: "distinct (map orow_id (db_orders d))"
    and keeps: "\<forall>x x'. f x = Some x' \<longrightarrow> orow_id x' = orow_id x"
  obtains (none) "res = None" "d' = d" "\<And>r. find_order d k = Some r \<Longrightarrow> \<not> g r"
  | (one) r r' t where "find_order d k = Some r" "r \<in> set (db_orders d)" "g r" "f r = Some r'"
      "res = Some r'" "d' = d\<lparr>db_orders := t\<rparr>" "find_order d' k = Some r'"
      "\<And>k'. k' \<noteq> k \<Longrightarrow> find_order d' k' = find_order d k'"
      "map orow_id t = map orow_id (db_orders d)" "\<And>x. x \<in> set t \<Longrightarrow> x = r' \<or> x \<in> set (db_orders d)"
proof -
  from run obtain t where t: "sql_update (\<lambda>r. orow_id r = k \<and> g r) f (db_orders d) = Some t"
    and d': "d' = d\<lparr>db_orders := t\<rparr>"
    and res: "res = (if sql_affected (\<lambda>r. orow_id r = k \<and> g r) (db_orders d) = 0 then None
             else find (\<lambda>r. orow_id r = k) t)"
    by (auto simp: update_orders_def stmt_write_def split: option.splits)
  have kr: "keyed_rows orow_id f" by (rule keyed_rows.intro) (simp add: keeps)
  show ?thesis
  proof (cases rule: sql_update_keyed [OF t dist keeps, case_names none one])
    case none
    then show ?thesis using that(1) res d' by (simp add: find_order_def)
  next
    case (one r r')
    have rows: "x = r' \<or> x \<in> set (db_orders d)" if "x \<in> set t" for x
    proof -
      from sql_update_set [OF t that] obtain y where y: "y \<in> set (db_orders d)"
        "(orow_id y = k \<and> g y) \<and> f y = Some x \<or> \<not> (orow_id y = k \<and> g y) \<and> x = y" by blast
      moreover have "orow_id y = k \<Longrightarrow> y = r"
        using find_key_unique [OF dist y(1)] one(1) by auto
      ultimately show ?thesis using one(5) by auto
    qed
    show ?thesis
      by (rule that(2) [of r r' t])
        (use one res d' rows keyed_rows.update_keys [OF kr t] keyed_rows.update_find_other [OF kr t]
          in \<open>simp_all add: find_order_def\<close>)
  qed
qed

lemma update_orders_ok:
  assumes run: "update_orders k g f d = Inr (res, d')" and ok: "orders_ok d"
    and f: "\<forall>x x'. order_check x \<longrightarrow> f x = Some x' \<longrightarrow> order_check x' \<and>
      orow_market_id x' = orow_market_id x \<and> orow_user_id x' = orow_user_id x"
    and keeps: "\<forall>x x'. f x = Some x' \<longrightarrow> orow_id x' = orow_id x"
  shows "orders_ok d'"
proof -
  from ok have dist: "distinct (map orow_id (db_orders d))" by (simp add: orders_ok_def)
  from run this keeps show ?thesis
  proof (cases rule: update_orders_cases)
    case (one r r' t)
    from ok one(2) have r: "order_check r" "market_exists d (orow_market_id r)"
      "user_exists d (orow_user_id r)" by (simp_all add: orders_ok_def)
    from f r(1) one(4) have "order_check r' \<and> orow_market_id r' = orow_market_id r \<and>
      orow_user_id r' = orow_user_id r" by blast
    with r(2,3) have "order_check r' \<and> market_exists d (orow_market_id r') \<and>
      user_exists d (orow_user_id r')" by simp
    with one(10) ok have "\<forall>x \<in> set t. order_check x \<and> market_exists d (orow_market_id x) \<and>
        user_exists d (orow_user_id x)"
      unfolding orders_ok_def by blast
    with one(9) dist show ?thesis
      by (simp add: orders_ok_def market_exists_def user_exists_def one(6))
  qed (use ok in simp)
qed

lemma insert_order_effect:
  assumes "insert_order_stmt o' d = Inr ((), d')"
  shows "d' = d\<lparr>db_orders := db_orders d @ [row_of_order o']\<rparr> \<and> order_check (row_of_order o') \<and>
    \<not> order_exists d (order_uuid (ord_id o')) \<and> find_order d' (order_uuid (ord_id o')) = Some (row_of_order o')"
proof -
  have id: "orow_id (row_of_order o') = order_uuid (ord_id o')" by (simp add: row_of_order_def)
  have "\<not> order_exists d (order_uuid (ord_id o')) \<Longrightarrow>
      find (\<lambda>r. orow_id r = order_uuid (ord_id o')) (db_orders d) = None"
    by (fastforce simp: find_None_iff order_exists_def image_iff)
  with assms show ?thesis
    by (auto simp: insert_order_stmt_def stmt_write_def Let_def find_order_def find_append_new id
        split: if_splits)
qed

lemma insert_order_ok: "insert_order_stmt o' d = Inr ((), d') \<Longrightarrow> orders_ok d \<Longrightarrow> orders_ok d'"
  by (auto simp: insert_order_stmt_def stmt_write_def Let_def orders_ok_def order_exists_def
      market_exists_def user_exists_def split: if_splits)

lemma reserve_frame:
  "reserve_stmt u amt d = Inr (n, d') \<Longrightarrow> \<exists>t. d' = d\<lparr>db_balances := t\<rparr>"
  unfolding reserve_stmt_def by (rule balance_frame)

text \<open>The transaction: all of it, or nothing and the reason.\<close>

lemma place_order_effect:
  assumes run: "place_order_stmt o' cost d = Inr (res, d')" and ok: "balances_ok d"
  shows "(res = Placed \<and>
      (\<exists>m. find_market d (market_uuid (ord_market_id o')) = Some m \<and> mrow_status m = MktOpen) \<and>
      cost \<le> avail d (user_uuid (ord_user_id o')) \<and>
      moves (user_uuid (ord_user_id o')) (- cost) cost d d' \<and>
      find_order d' (order_uuid (ord_id o')) = Some (row_of_order o') \<and>
      db_orders d' = db_orders d @ [row_of_order o'])
    \<or> (res \<noteq> Placed \<and> d' = d)"
proof (cases "find_market d (market_uuid (ord_market_id o'))")
  case None
  with run show ?thesis by (simp add: place_order_stmt_def stmt_defs)
next
  case (Some m)
  show ?thesis
  proof (cases "mrow_status m = MktOpen")
    case False
    with run Some show ?thesis by (simp add: place_order_stmt_def stmt_defs)
  next
    case True
    from run Some True obtain n d1 where
      res: "reserve_stmt (user_uuid (ord_user_id o')) cost d = Inr (n, d1)"
      and rest: "(if n = 0 then stmt_return PlaceNoFunds
        else stmt_bind (insert_order_stmt o') (\<lambda>_. stmt_return Placed)) d1 = Inr (res, d')"
      by (auto simp: place_order_stmt_def stmt_bind_def stmt_query_def split: sum.splits prod.splits)
    from reserve_effect [OF res ok] show ?thesis
    proof
      assume "n = 0 \<and> d1 = d \<and> (cost \<le> avail d (user_uuid (ord_user_id o')) \<longrightarrow>
        find_balance d (user_uuid (ord_user_id o')) = None)"
      with rest show ?thesis by (simp add: stmt_return_def)
    next
      assume one: "n = 1 \<and> cost \<le> avail d (user_uuid (ord_user_id o')) \<and>
        find_balance d (user_uuid (ord_user_id o')) \<noteq> None \<and>
        moves (user_uuid (ord_user_id o')) (- cost) cost d d1"
      with rest have ins: "insert_order_stmt o' d1 = Inr ((), d')" and "res = Placed"
        by (auto simp: stmt_defs split: sum.splits)
      moreover from reserve_frame [OF res] have "db_orders d1 = db_orders d" by auto
      ultimately show ?thesis
        using one insert_order_effect [OF ins] Some True
        by (auto simp: moves_def avail_def resv_def funds_def find_balance_def)
    qed
  qed
qed

end
