(* ===== verification/Db_Fills.thy ===== *)
theory Db_Fills
  imports Db_Orders
begin

text \<open>
  \<open>db/src/fills.rs\<close> and \<open>db/src/positions.rs\<close>: fills, deduplicated by market and sequence number, and the
  position changes they cause. How \<open>sqlx\<close> decodes a result set is a parameter: whether a struct with the
  given fields can be read from a row with the given columns, and whether a \<open>NUMERIC\<close> (the type of
  \<open>SUM\<close> over \<open>BIGINT\<close>) can be read as \<open>i64\<close>. \<open>documented_sqlx\<close> states what its documentation says.
\<close>

record sqlx =
  sqlx_fields :: "string list \<Rightarrow> string list \<Rightarrow> bool"
  sqlx_numeric_as_i64 :: bool

definition documented_sqlx :: "sqlx \<Rightarrow> bool" where
  "documented_sqlx q \<longleftrightarrow>
     (\<forall>fs cs. sqlx_fields q fs cs \<longrightarrow> set fs \<subseteq> set cs) \<and> \<not> sqlx_numeric_as_i64 q"

definition strict_sqlx :: sqlx where
  "strict_sqlx =
     \<lparr>sqlx_fields = (\<lambda>fs cs. set fs \<subseteq> set cs), sqlx_numeric_as_i64 = False\<rparr>"

definition lenient_sqlx :: sqlx where
  "lenient_sqlx = \<lparr>sqlx_fields = (\<lambda>fs cs. True), sqlx_numeric_as_i64 = True\<rparr>"

section \<open>Fills\<close>

definition fill_of_row :: "fill_row \<Rightarrow> fill" where
  "fill_of_row r =
     \<lparr>fill_id = FillId (frow_id r), fill_market_id = MarketId (frow_market_id r),
      fill_maker_order_id = OrderId (frow_maker_order_id r),
      fill_taker_order_id = OrderId (frow_taker_order_id r),
      fill_maker_user_id = UserId (frow_maker_user_id r),
      fill_taker_user_id = UserId (frow_taker_user_id r),
      fill_price = Price (word_of_int (frow_price r)),
      fill_quantity = Quantity (word_of_int (frow_quantity r)), fill_aggressor = frow_aggressor r,
      fill_sequence = word_of_int (frow_sequence r), fill_filled_at = frow_filled_at r,
      fill_transaction_id = None\<rparr>"

definition row_of_fill :: "fill \<Rightarrow> fill_row" where
  "row_of_fill f =
     \<lparr>frow_id = fill_uuid (fill_id f), frow_market_id = market_uuid (fill_market_id f),
      frow_maker_order_id = order_uuid (fill_maker_order_id f),
      frow_taker_order_id = order_uuid (fill_taker_order_id f),
      frow_maker_user_id = user_uuid (fill_maker_user_id f),
      frow_taker_user_id = user_uuid (fill_taker_user_id f),
      frow_price = sint (price_raw (fill_price f)),
      frow_quantity = sint (quantity_raw (fill_quantity f)), frow_aggressor = fill_aggressor f,
      frow_sequence = sint (fill_sequence f), frow_filled_at = fill_filled_at f\<rparr>"

definition fill_check :: "fill_row \<Rightarrow> bool" where
  "fill_check r \<longleftrightarrow> 0 < frow_price r \<and> frow_price r < 10000 \<and> 0 < frow_quantity r
     \<and> i64_ok (frow_quantity r)"

definition fill_refs :: "db \<Rightarrow> fill_row \<Rightarrow> bool" where
  "fill_refs d r \<longleftrightarrow> market_exists d (frow_market_id r)
     \<and> order_exists d (frow_maker_order_id r) \<and> order_exists d (frow_taker_order_id r)
     \<and> user_exists d (frow_maker_user_id r) \<and> user_exists d (frow_taker_user_id r)"

definition fill_key :: "fill_row \<Rightarrow> uuid \<times> int" where
  "fill_key r = (frow_market_id r, frow_sequence r)"

definition fill_known :: "db \<Rightarrow> uuid \<times> int \<Rightarrow> bool" where
  "fill_known d k \<longleftrightarrow> k \<in> set (map fill_key (db_fills d))"

text \<open>
  \<open>ON CONFLICT (market_id, sequence) DO NOTHING\<close>: the \<open>CHECK\<close>s come first, a conflict on the other
  unique index (the primary key) is an error, the references are checked when the row is inserted.
\<close>

datatype insert_fill_outcome = Inserted | Duplicate

definition insert_fill_stmt :: "fill \<Rightarrow> insert_fill_outcome stmt" where
  "insert_fill_stmt f = stmt_write (\<lambda>d.
     let r = row_of_fill f in
     if \<not> fill_check r then None
     else if fill_known d (fill_key r) then Some (Duplicate, d)
     else if fill_exists d (frow_id r) \<or> \<not> fill_refs d r then None
     else Some (Inserted, d\<lparr>db_fills := db_fills d @ [r]\<rparr>))"

definition insert_fill_dedup :: "fill \<Rightarrow> insert_fill_outcome io" where
  "insert_fill_dedup f = db_run (insert_fill_stmt f)"

text \<open>The columns the migrations give \<open>fills\<close>, and the fields of \<open>FillRow\<close>.\<close>

definition fills_columns :: "string list" where
  "fills_columns =
     [''id'', ''market_id'', ''maker_order_id'', ''taker_order_id'', ''maker_user_id'',
      ''taker_user_id'', ''price'', ''quantity'', ''aggressor'', ''sequence'', ''filled_at'']"

definition fill_row_fields :: "string list" where
  "fill_row_fields =
     [''id'', ''market_id'', ''maker_order_id'', ''taker_order_id'', ''maker_user_id'',
      ''taker_user_id'', ''price'', ''quantity'', ''aggressor'', ''sequence'', ''filled_at'',
      ''transaction_id'']"

definition decode_rows :: "bool \<Rightarrow> ('r \<Rightarrow> 'a) \<Rightarrow> 'r list \<Rightarrow> app_error + 'a list" where
  "decode_rows able f rs = (if rs = [] \<or> able then Inr (map f rs) else Inl sql_error)"

definition list_fills :: "sqlx \<Rightarrow> market_id \<Rightarrow> i64 \<Rightarrow> fill list io" where
  "list_fills q m lim =
     db_run (\<lambda>d.
       case sql_limit (sint lim)
              (sql_order_desc frow_sequence
                (filter (\<lambda>r. frow_market_id r = market_uuid m) (db_fills d))) of
         None \<Rightarrow> Inl sql_error
       | Some rs \<Rightarrow>
           (case decode_rows (sqlx_fields q fill_row_fields fills_columns) fill_of_row rs of
              Inl e \<Rightarrow> Inl e
            | Inr fs \<Rightarrow> Inr (fs, d)))"

section \<open>Positions\<close>

record position_row =
  prow_user_id :: uuid
  prow_market_id :: uuid
  prow_net_quantity :: i64

definition record_position_stmt :: "uuid \<Rightarrow> uuid \<Rightarrow> uuid \<Rightarrow> int \<Rightarrow> unit stmt" where
  "record_position_stmt f u m delta = stmt_write (\<lambda>d.
     if i64_ok delta \<and> fill_exists d f \<and> user_exists d u \<and> market_exists d m
     then Some ((), d\<lparr>db_positions := db_positions d @
            [\<lparr>pos_fill = f, pos_user = u, pos_market = m, pos_delta = delta\<rparr>]\<rparr>)
     else None)"

definition record_position_change :: "fill_id \<Rightarrow> user_id \<Rightarrow> market_id \<Rightarrow> i64 \<Rightarrow> unit io" where
  "record_position_change f u m delta =
     db_run (record_position_stmt (fill_uuid f) (user_uuid u) (market_uuid m) (sint delta))"

definition net_position :: "db \<Rightarrow> uuid \<Rightarrow> uuid \<Rightarrow> int" where
  "net_position d u m =
     (\<Sum>r\<leftarrow>filter (\<lambda>r. pos_user r = u \<and> pos_market r = m) (db_positions d). pos_delta r)"

definition position_columns :: "string list" where
  "position_columns = [''user_id'', ''market_id'', ''net_quantity'']"

definition position_row_fields :: "string list" where
  "position_row_fields =
     [''user_id'', ''market_id'', ''net_quantity'', ''average_entry_price'', ''realized_pnl'',
      ''unrealized_pnl'', ''total_traded_volume'', ''last_update'']"

text \<open>\<open>GROUP BY user_id, market_id HAVING SUM(delta) != 0\<close>, in the order of first appearance.\<close>

definition holders :: "db \<Rightarrow> uuid \<Rightarrow> (uuid \<times> int) list" where
  "holders d m =
     filter (\<lambda>(u, n). n \<noteq> 0)
       (map (\<lambda>u. (u, net_position d u m))
         (rev (remdups (rev (map pos_user (filter (\<lambda>r. pos_market r = m) (db_positions d)))))))"

definition get_user_positions :: "sqlx \<Rightarrow> market_id \<Rightarrow> position_row list io" where
  "get_user_positions q m =
     db_run (\<lambda>d.
       let hs = holders d (market_uuid m);
           able = sqlx_fields q position_row_fields position_columns \<and> sqlx_numeric_as_i64 q
                  \<and> (\<forall>(u, n) \<in> set hs. i64_ok n)
       in case decode_rows able
                 (\<lambda>(u, n). \<lparr>prow_user_id = u, prow_market_id = market_uuid m,
                            prow_net_quantity = i64_of n\<rparr>) hs of
            Inl e \<Rightarrow> Inl e
          | Inr rs \<Rightarrow> Inr (rs, d))"

text \<open>\<open>SELECT SUM(delta)\<close> is \<open>NULL\<close>, which decodes as \<open>None\<close>, when no row matches.\<close>

definition get_position_for_user :: "sqlx \<Rightarrow> user_id \<Rightarrow> market_id \<Rightarrow> i64 io" where
  "get_position_for_user q u m =
     db_run (\<lambda>d.
       if filter (\<lambda>r. pos_user r = user_uuid u \<and> pos_market r = market_uuid m) (db_positions d) = []
       then Inr (0, d)
       else
         (let n = net_position d (user_uuid u) (market_uuid m) in
          if sqlx_numeric_as_i64 q \<and> i64_ok n then Inr (i64_of n, d) else Inl sql_error))"

section \<open>Properties\<close>

definition fills_ok :: "db \<Rightarrow> bool" where
  "fills_ok d \<longleftrightarrow> distinct (map frow_id (db_fills d)) \<and> distinct (map fill_key (db_fills d))
     \<and> (\<forall>r \<in> set (db_fills d). fill_check r \<and> fill_refs d r)"

definition positions_ok :: "db \<Rightarrow> bool" where
  "positions_ok d \<longleftrightarrow> (\<forall>r \<in> set (db_positions d). i64_ok (pos_delta r)
     \<and> fill_exists d (pos_fill r) \<and> user_exists d (pos_user r) \<and> market_exists d (pos_market r))"

lemma fill_row_inverse:
  "fill_transaction_id f = None \<Longrightarrow> fill_of_row (row_of_fill f) = f"
  by (cases f) (simp add: fill_of_row_def row_of_fill_def)

lemma insert_fill_cases:
  assumes "insert_fill_stmt f d = Inr (res, d')"
  shows "(res = Duplicate \<and> d' = d \<and> fill_known d (fill_key (row_of_fill f))) \<or>
    (res = Inserted \<and> \<not> fill_known d (fill_key (row_of_fill f)) \<and>
     d' = d\<lparr>db_fills := db_fills d @ [row_of_fill f]\<rparr> \<and> \<not> fill_exists d (frow_id (row_of_fill f)) \<and>
     fill_check (row_of_fill f) \<and> fill_refs d (row_of_fill f))"
  using assms by (auto simp: insert_fill_stmt_def stmt_write_def Let_def split: if_splits)

lemma insert_fill_ok:
  assumes "insert_fill_stmt f d = Inr (res, d')" and "fills_ok d"
  shows "fills_ok d'"
  using insert_fill_cases [OF assms(1)] assms(2)
  by (auto simp: fills_ok_def fill_known_def fill_exists_def fill_refs_def market_exists_def
      order_exists_def user_exists_def)

text \<open>The contract of a deduplicating store, on the fills table.\<close>

definition claim_fill :: "fill \<Rightarrow> db \<Rightarrow> (bool \<times> db) option" where
  "claim_fill f d =
     (case insert_fill_stmt f d of Inl e \<Rightarrow> None | Inr (res, d') \<Rightarrow> Some (res = Inserted, d'))"

interpretation fill_store: dedup_store claim_fill "\<lambda>f. fill_key (row_of_fill f)" fill_known
proof
  fix v s fresh s' k
  assume "claim_fill v s = Some (fresh, s')"
  then obtain res where run: "insert_fill_stmt v s = Inr (res, s')" and fresh: "fresh = (res = Inserted)"
    by (auto simp: claim_fill_def split: sum.splits)
  from insert_fill_cases [OF run] fresh
  show "fresh \<longleftrightarrow> \<not> fill_known s (fill_key (row_of_fill v))" by auto
  from insert_fill_cases [OF run]
  show "fill_known s' k \<longleftrightarrow> fill_known s k \<or> k = fill_key (row_of_fill v)"
    by (auto simp: fill_known_def)
qed

text \<open>A position change adds its delta to one position and to no other.\<close>

lemma record_position_effect:
  assumes "record_position_stmt f u m delta d = Inr ((), d')"
  shows "d' = d\<lparr>db_positions := db_positions d @
       [\<lparr>pos_fill = f, pos_user = u, pos_market = m, pos_delta = delta\<rparr>]\<rparr> \<and> fill_exists d f \<and> i64_ok delta"
  using assms by (auto simp: record_position_stmt_def stmt_write_def split: if_splits)

lemma record_position_net:
  assumes "record_position_stmt f u m delta d = Inr ((), d')"
  shows "net_position d' v n = net_position d v n + (if v = u \<and> n = m then delta else 0)"
  using record_position_effect [OF assms] by (auto simp: net_position_def)

lemma record_position_ok:
  "record_position_stmt f u m delta d = Inr ((), d') \<Longrightarrow> positions_ok d \<Longrightarrow> positions_ok d'"
  by (auto simp: record_position_stmt_def stmt_write_def positions_ok_def user_exists_def
      market_exists_def fill_exists_def split: if_splits)

lemma holders_set:
  "set (holders d m) = {(u, n). n = net_position d u m \<and> n \<noteq> 0}"
proof -
  have "net_position d u m = 0" if "u \<notin> pos_user ` {r \<in> set (db_positions d). pos_market r = m}" for u
  proof -
    from that have "filter (\<lambda>r. pos_user r = u \<and> pos_market r = m) (db_positions d) = []"
      by (auto simp: filter_empty_conv image_iff)
    then show ?thesis by (simp add: net_position_def)
  qed
  then show ?thesis by (force simp: holders_def)
qed

lemma holders_distinct: "distinct (map fst (holders d m))"
  unfolding holders_def
  by (rule distinct_map_filter) (simp add: comp_def)

text \<open>All positions of a market sum to the sum of its deltas.\<close>

lemma sum_list_distinct_group:
  fixes w :: "'r \<Rightarrow> int"
  assumes "distinct us" and "\<forall>r \<in> set rs. k r \<in> set us"
  shows "(\<Sum>u\<leftarrow>us. \<Sum>r\<leftarrow>filter (\<lambda>r. k r = u) rs. w r) = (\<Sum>r\<leftarrow>rs. w r)"
  using assms(2)
proof (induction rs)
  case (Cons r rs)
  have "(\<Sum>u\<leftarrow>us. \<Sum>r\<leftarrow>filter (\<lambda>r. k r = u) (r # rs). w r) =
      (\<Sum>u\<leftarrow>us. (if k r = u then w r else 0) + (\<Sum>r\<leftarrow>filter (\<lambda>r. k r = u) rs. w r))"
    by (rule arg_cong [where f = sum_list]) simp
  also have "\<dots> = (\<Sum>u\<leftarrow>us. if k r = u then w r else 0) + (\<Sum>r\<leftarrow>rs. w r)"
    using Cons by (simp add: sum_list_addf)
  also have "(\<Sum>u\<leftarrow>us. if k r = u then w r else 0) = w r"
    using assms(1) Cons.prems by (simp add: sum_list_distinct_conv_sum_set)
  finally show ?case by simp
qed simp

lemma holders_total:
  "(\<Sum>(u, n)\<leftarrow>holders d m. n) =
     (\<Sum>r\<leftarrow>filter (\<lambda>r. pos_market r = m) (db_positions d). pos_delta r)"
proof -
  let ?rs = "filter (\<lambda>r. pos_market r = m) (db_positions d)"
  let ?us = "rev (remdups (rev (map pos_user ?rs)))"
  have drop0: "(\<Sum>(u, n)\<leftarrow>filter (\<lambda>(u, n). n \<noteq> 0) xs. n) = (\<Sum>(u, n)\<leftarrow>xs. n)" for xs :: "(uuid \<times> int) list"
    by (induction xs) auto
  have net: "net_position d u m = (\<Sum>r\<leftarrow>filter (\<lambda>r. pos_user r = u) ?rs. pos_delta r)" for u
    by (simp add: net_position_def conj_commute)
  have "(\<Sum>(u, n)\<leftarrow>holders d m. n) = (\<Sum>u\<leftarrow>?us. net_position d u m)"
    unfolding holders_def drop0 by (simp add: comp_def)
  also have "\<dots> = (\<Sum>r\<leftarrow>?rs. pos_delta r)"
    unfolding net by (rule sum_list_distinct_group) auto
  finally show ?thesis .
qed

end
