(* ===== verification/Db_Users.thy ===== *)
theory Db_Users
  imports Db_Fills
begin

text \<open>
  \<open>db/src/users.rs\<close> (users and the audit log) and \<open>db/src/idempotency.rs\<close>: keys a client claims before an
  operation and completes with its response. JSON values are their texts. The lemmas show that email
  addresses stay unique, and that the key table is a deduplicating store whose completed responses
  are what later lookups return.
\<close>

section \<open>Users and the audit log\<close>

definition insert_user_stmt :: "uuid \<Rightarrow> string \<Rightarrow> string \<Rightarrow> uuid stmt" where
  "insert_user_stmt new_id email pw = stmt_write (\<lambda>d.
     if \<not> user_exists d new_id \<and> email \<notin> set (map usr_email (db_users d))
        \<and> text_ok email \<and> text_ok pw
     then Some (new_id, d\<lparr>db_users := db_users d @
            [\<lparr>usr_id = new_id, usr_email = email, usr_password_hash = pw, usr_is_admin = False\<rparr>]\<rparr>)
     else None)"

definition insert_user :: "uuid \<Rightarrow> string \<Rightarrow> string \<Rightarrow> user_id io" where
  "insert_user new_id email pw =
     io_bind (db_run (insert_user_stmt new_id email pw)) (\<lambda>i. io_return (UserId i))"

definition user_or_missing :: "frag \<Rightarrow> user_row option \<Rightarrow> user_row io" where
  "user_or_missing who r =
     (case r of None \<Rightarrow> io_fail (NotFound [Lit ''user '', who]) | Some u \<Rightarrow> io_return u)"

definition get_user_by_email :: "string \<Rightarrow> user_row io" where
  "get_user_by_email email =
     io_bind (db_run (stmt_query (\<lambda>d. find (\<lambda>r. usr_email r = email) (db_users d))))
       (user_or_missing (Lit email))"

definition get_user_by_id :: "user_id \<Rightarrow> user_row io" where
  "get_user_by_id i =
     io_bind (db_run (stmt_query (\<lambda>d. find (\<lambda>r. usr_id r = user_uuid i) (db_users d))))
       (user_or_missing (UuidText (user_uuid i)))"

definition audit_stmt ::
  "user_id option \<Rightarrow> string \<Rightarrow> string \<Rightarrow> string option \<Rightarrow> string option \<Rightarrow> unit stmt" where
  "audit_stmt u action entity entity_id meta = stmt_write (\<lambda>d.
     if (case u of None \<Rightarrow> True | Some i \<Rightarrow> user_exists d (user_uuid i))
        \<and> text_ok action \<and> text_ok entity \<and> (case entity_id of None \<Rightarrow> True | Some t \<Rightarrow> text_ok t)
     then Some ((), d\<lparr>db_audit := db_audit d @
            [\<lparr>aud_user = map_option user_uuid u, aud_action = action, aud_entity = entity,
              aud_entity_id = entity_id, aud_meta = meta\<rparr>]\<rparr>)
     else None)"

definition audit ::
  "user_id option \<Rightarrow> string \<Rightarrow> string \<Rightarrow> string option \<Rightarrow> string option \<Rightarrow> unit io" where
  "audit u action entity entity_id meta = db_run (audit_stmt u action entity entity_id meta)"

section \<open>Idempotency keys\<close>

datatype idempotency_status = Fresh | Processing | Complete

definition idem_of :: "idem_row \<Rightarrow> uuid \<times> string" where
  "idem_of r = (idem_user r, idem_key r)"

definition find_idem :: "db \<Rightarrow> uuid \<times> string \<Rightarrow> idem_row option" where
  "find_idem d k = find (\<lambda>r. idem_of r = k) (db_idem d)"

definition hours_24 :: int where "hours_24 = 86400 * 10 ^ 9"

text \<open>\<open>INSERT ... ON CONFLICT DO NOTHING\<close>; the result is the number of rows inserted.\<close>

definition claim_key_stmt :: "datetime \<Rightarrow> uuid \<times> string \<Rightarrow> nat stmt" where
  "claim_key_stmt now k = stmt_write (\<lambda>d.
     if \<not> text_ok (snd k) then None
     else if find_idem d k \<noteq> None then Some (0, d)
     else if \<not> user_exists d (fst k) then None
     else Some (1, d\<lparr>db_idem := db_idem d @
            [\<lparr>idem_user = fst k, idem_key = snd k, idem_status = 1, idem_response = None,
              idem_expires_at = now + hours_24\<rparr>]\<rparr>))"

definition claim_idempotency_key :: "datetime \<Rightarrow> user_id \<Rightarrow> string \<Rightarrow> idempotency_status io" where
  "claim_idempotency_key now u key =
     io_bind (db_run (claim_key_stmt now (user_uuid u, key))) (\<lambda>n.
       if n = 0 then
         io_bind
           (db_run (\<lambda>d. case find_idem d (user_uuid u, key) of
                None \<Rightarrow> Inl sql_error | Some r \<Rightarrow> Inr (idem_status r, d)))
           (\<lambda>status. io_return (if status = 2 then Complete else Processing))
       else io_return Fresh)"

definition row_complete :: "string \<Rightarrow> idem_row \<Rightarrow> idem_row option" where
  "row_complete response r = Some (r\<lparr>idem_status := 2, idem_response := Some response\<rparr>)"

definition complete_key_stmt :: "uuid \<times> string \<Rightarrow> string \<Rightarrow> unit stmt" where
  "complete_key_stmt k response = stmt_write (\<lambda>d.
     map_option (\<lambda>t. ((), d\<lparr>db_idem := t\<rparr>))
       (sql_update (\<lambda>r. idem_of r = k \<and> True) (row_complete response) (db_idem d)))"

definition complete_idempotency_key :: "user_id \<Rightarrow> string \<Rightarrow> string \<Rightarrow> unit io" where
  "complete_idempotency_key u key response = db_run (complete_key_stmt (user_uuid u, key) response)"

definition get_idempotency_response :: "user_id \<Rightarrow> string \<Rightarrow> string option io" where
  "get_idempotency_response u key =
     db_run (stmt_query (\<lambda>d.
       case find (\<lambda>r. idem_of r = (user_uuid u, key) \<and> idem_status r = 2) (db_idem d) of
         None \<Rightarrow> None
       | Some r \<Rightarrow> idem_response r))"

text \<open>\<open>expire_idempotency_keys\<close> (declared in \<open>withdrawals.rs\<close>).\<close>

definition expire_stmt :: "datetime \<Rightarrow> nat stmt" where
  "expire_stmt now = stmt_write (\<lambda>d.
     Some (length (filter (\<lambda>r. idem_expires_at r < now) (db_idem d)),
           d\<lparr>db_idem := filter (\<lambda>r. \<not> idem_expires_at r < now) (db_idem d)\<rparr>))"

definition expire_idempotency_keys :: "datetime \<Rightarrow> u64 io" where
  "expire_idempotency_keys now = io_bind (db_run (expire_stmt now)) (\<lambda>n. io_return (of_nat n))"

section \<open>Properties\<close>

definition users_ok :: "db \<Rightarrow> bool" where
  "users_ok d \<longleftrightarrow> distinct (map usr_id (db_users d)) \<and> distinct (map usr_email (db_users d))"

definition idem_ok :: "db \<Rightarrow> bool" where
  "idem_ok d \<longleftrightarrow> distinct (map idem_of (db_idem d))
     \<and> (\<forall>r \<in> set (db_idem d). idem_status r \<in> {1, 2} \<and> (idem_status r = 2 \<longleftrightarrow> idem_response r \<noteq> None))"

definition key_known :: "db \<Rightarrow> uuid \<times> string \<Rightarrow> bool" where
  "key_known d k \<longleftrightarrow> find_idem d k \<noteq> None"

lemma insert_user_ok:
  "insert_user_stmt i e p d = Inr (x, d') \<Longrightarrow> users_ok d \<Longrightarrow>
     users_ok d' \<and> (\<forall>u. user_exists d u \<longrightarrow> user_exists d' u) \<and> x = i \<and> user_exists d' i"
  by (auto simp: insert_user_stmt_def stmt_write_def users_ok_def user_exists_def split: if_splits)

lemma key_known_iff: "key_known d k \<longleftrightarrow> k \<in> idem_of ` set (db_idem d)"
  by (auto simp: key_known_def find_idem_def find_None_iff not_None_eq [symmetric] simp del: not_None_eq)

lemma claim_key_cases:
  assumes "claim_key_stmt now k d = Inr (n, d')"
  shows "(n = 0 \<and> d' = d \<and> key_known d k) \<or>
    (n = 1 \<and> \<not> key_known d k \<and> (\<forall>k'. key_known d' k' \<longleftrightarrow> key_known d k' \<or> k' = k) \<and>
     (\<exists>r. d' = d\<lparr>db_idem := db_idem d @ [r]\<rparr> \<and> idem_of r = k \<and> idem_status r = 1 \<and> idem_response r = None))"
proof (cases "key_known d k")
  case True
  with assms show ?thesis
    by (simp add: claim_key_stmt_def stmt_write_def key_known_def split: if_splits)
next
  case False
  then have none: "find_idem d k = None" by (simp add: key_known_def)
  let ?r = "\<lparr>idem_user = fst k, idem_key = snd k, idem_status = 1, idem_response = None,
    idem_expires_at = now + hours_24\<rparr>"
  from none assms have "n = 1" and d': "d' = d\<lparr>db_idem := db_idem d @ [?r]\<rparr>"
    by (auto simp: claim_key_stmt_def stmt_write_def split: if_splits)
  moreover have "idem_of ?r = k" by (simp add: idem_of_def)
  ultimately show ?thesis
    using False by (intro disjI2) (auto simp: key_known_iff)
qed

definition claim_key :: "datetime \<Rightarrow> uuid \<times> string \<Rightarrow> db \<Rightarrow> (bool \<times> db) option" where
  "claim_key now k d =
     (case claim_key_stmt now k d of Inl e \<Rightarrow> None | Inr (n, d') \<Rightarrow> Some (n = 1, d'))"

interpretation key_store: dedup_store "claim_key now" id key_known for now
proof
  fix v :: "uuid \<times> string" and s fresh s' k
  assume "claim_key now v s = Some (fresh, s')"
  then obtain n where run: "claim_key_stmt now v s = Inr (n, s')" and fresh: "fresh = (n = 1)"
    by (auto simp: claim_key_def split: sum.splits)
  from claim_key_cases [OF run] fresh show "fresh \<longleftrightarrow> \<not> key_known s (id v)" by auto
  from claim_key_cases [OF run] show "key_known s' k \<longleftrightarrow> key_known s k \<or> k = id v"
    by (metis id_apply)
qed

interpretation icomplete: keyed_rows idem_of "row_complete resp" for resp
  by unfold_locales (auto simp: row_complete_def idem_of_def)

end
