(* ===== verification/Db_Withdrawals.thy ===== *)
theory Db_Withdrawals
  imports Db_Users
begin

text \<open>
  \<open>db/src/withdrawals.rs\<close>: a withdrawal reserves its amount and leaves a hold; an administrator approves it
  (the reserved money leaves the ledger) or rejects it (the money goes back). Each method is one
  transaction. The lemmas show the exact money moved and that a withdrawal is decided at most once.
\<close>

section \<open>Statements\<close>

definition find_withdrawal :: "db \<Rightarrow> uuid \<Rightarrow> withdrawal_row option" where
  "find_withdrawal d k = find (\<lambda>r. wd_id r = k) (db_withdrawals d)"

definition insert_withdrawal_stmt :: "uuid \<Rightarrow> datetime \<Rightarrow> uuid \<Rightarrow> int \<Rightarrow> withdrawal_row stmt" where
  "insert_withdrawal_stmt new_id now u amt = stmt_write (\<lambda>d.
     if 0 < amt \<and> i64_ok amt \<and> find_withdrawal d new_id = None \<and> user_exists d u
     then
       (let r = \<lparr>wd_id = new_id, wd_user_id = u, wd_amount = amt, wd_status = WdPending,
                 wd_reference = None, wd_reviewed_by = None, wd_reviewed_at = None,
                 wd_created_at = now\<rparr>
        in Some (r, d\<lparr>db_withdrawals := db_withdrawals d @ [r]\<rparr>))
     else None)"

definition insert_hold_stmt :: "uuid \<Rightarrow> uuid \<Rightarrow> int \<Rightarrow> unit stmt" where
  "insert_hold_stmt w u amt = stmt_write (\<lambda>d.
     if w \<notin> set (map hold_withdrawal (db_holds d)) \<and> find_withdrawal d w \<noteq> None \<and> user_exists d u
     then Some ((), d\<lparr>db_holds := db_holds d @
            [\<lparr>hold_withdrawal = w, hold_user = u, hold_amount = amt\<rparr>]\<rparr>)
     else None)"

definition delete_hold_stmt :: "uuid \<Rightarrow> unit stmt" where
  "delete_hold_stmt w = stmt_write (\<lambda>d.
     Some ((), d\<lparr>db_holds := filter (\<lambda>h. hold_withdrawal h \<noteq> w) (db_holds d)\<rparr>))"

definition row_review ::
  "withdrawal_status \<Rightarrow> uuid \<Rightarrow> datetime \<Rightarrow> withdrawal_row \<Rightarrow> withdrawal_row option" where
  "row_review s admin now r =
     Some (r\<lparr>wd_status := s, wd_reviewed_by := Some admin, wd_reviewed_at := Some now\<rparr>)"

text \<open>\<open>UPDATE ... WHERE id = $1 AND status = 'pending' RETURNING *\<close>, which must find its row.\<close>

definition review_stmt ::
  "withdrawal_status \<Rightarrow> datetime \<Rightarrow> uuid \<Rightarrow> uuid \<Rightarrow> withdrawal_row stmt" where
  "review_stmt s now i admin =
     stmt_bind
       (stmt_write (\<lambda>d.
          let p = (\<lambda>r. wd_id r = i \<and> wd_status r = WdPending) in
          if sql_affected p (db_withdrawals d) = 0 then Some (None, d)
          else if \<not> user_exists d admin then None
          else map_option
                 (\<lambda>t. (find (\<lambda>r. wd_id r = i) t, d\<lparr>db_withdrawals := t\<rparr>))
                 (sql_update p (row_review s admin now) (db_withdrawals d))))
       (\<lambda>row. case row of
          None \<Rightarrow> stmt_fail (NotFound [Lit ''pending withdrawal '', UuidText i])
        | Some r \<Rightarrow> stmt_return r)"

definition create_withdrawal_stmt :: "uuid \<Rightarrow> datetime \<Rightarrow> uuid \<Rightarrow> int \<Rightarrow> withdrawal_row option stmt" where
  "create_withdrawal_stmt new_id now u amt =
     stmt_bind (reserve_stmt u amt) (\<lambda>n.
       if n = 0 then stmt_return None
       else
         stmt_bind (insert_withdrawal_stmt new_id now u amt) (\<lambda>row.
         stmt_bind (insert_hold_stmt (wd_id row) u amt) (\<lambda>_. stmt_return (Some row))))"

definition approve_stmt :: "datetime \<Rightarrow> uuid \<Rightarrow> uuid \<Rightarrow> withdrawal_row stmt" where
  "approve_stmt now i admin =
     stmt_bind (review_stmt WdApproved now i admin) (\<lambda>row.
     stmt_bind (spend_stmt (wd_user_id row) (wd_amount row)) (\<lambda>_.
     stmt_bind (delete_hold_stmt i) (\<lambda>_. stmt_return row)))"

definition reject_stmt :: "datetime \<Rightarrow> uuid \<Rightarrow> uuid \<Rightarrow> withdrawal_row stmt" where
  "reject_stmt now i admin =
     stmt_bind (review_stmt WdRejected now i admin) (\<lambda>row.
     stmt_bind (release_stmt (wd_user_id row) (wd_amount row)) (\<lambda>_.
     stmt_bind (delete_hold_stmt i) (\<lambda>_. stmt_return row)))"

section \<open>The methods\<close>

definition create_withdrawal :: "uuid \<Rightarrow> datetime \<Rightarrow> user_id \<Rightarrow> i64 \<Rightarrow> withdrawal_row io" where
  "create_withdrawal new_id now u amt =
     io_bind (db_run (create_withdrawal_stmt new_id now (user_uuid u) (sint amt))) (\<lambda>r.
       case r of None \<Rightarrow> insufficient u amt | Some row \<Rightarrow> io_return row)"

definition approve_withdrawal :: "datetime \<Rightarrow> uuid \<Rightarrow> user_id \<Rightarrow> withdrawal_row io" where
  "approve_withdrawal now i admin = db_run (approve_stmt now i (user_uuid admin))"

definition reject_withdrawal :: "datetime \<Rightarrow> uuid \<Rightarrow> user_id \<Rightarrow> withdrawal_row io" where
  "reject_withdrawal now i admin = db_run (reject_stmt now i (user_uuid admin))"

definition list_withdrawals ::
  "user_id option \<Rightarrow> withdrawal_status option \<Rightarrow> i64 \<Rightarrow> withdrawal_row list io" where
  "list_withdrawals u s lim =
     db_run (\<lambda>d.
       let rows = filter (\<lambda>r.
              (case u of None \<Rightarrow> True | Some i \<Rightarrow> wd_user_id r = user_uuid i)
            \<and> (case s of None \<Rightarrow> True | Some st \<Rightarrow> wd_status r = st)) (db_withdrawals d)
       in case sql_limit (sint lim) (sql_order_desc wd_created_at rows) of
            None \<Rightarrow> Inl sql_error
          | Some rs \<Rightarrow> Inr (rs, d))"

section \<open>Properties\<close>

text \<open>
  Every withdrawal has its own identifier and a positive amount; the holds are exactly those of the
  pending withdrawals, with the same user and amount.
\<close>

definition hold_of :: "withdrawal_row \<Rightarrow> hold_row" where
  "hold_of r = \<lparr>hold_withdrawal = wd_id r, hold_user = wd_user_id r, hold_amount = wd_amount r\<rparr>"

definition withdrawals_ok :: "db \<Rightarrow> bool" where
  "withdrawals_ok d \<longleftrightarrow> distinct (map wd_id (db_withdrawals d))
     \<and> (\<forall>r \<in> set (db_withdrawals d). 0 < wd_amount r \<and> user_exists d (wd_user_id r))
     \<and> db_holds d = map hold_of (filter (\<lambda>r. wd_status r = WdPending) (db_withdrawals d))"

interpretation wreview: keyed_rows wd_id "row_review s a n" for s a n
  by unfold_locales (auto simp: row_review_def)

lemma row_review_key: "\<forall>x x'. row_review s a n x = Some x' \<longrightarrow> wd_id x' = wd_id x"
  by (simp add: wreview.change_key)

definition reviewed :: "withdrawal_status \<Rightarrow> uuid \<Rightarrow> datetime \<Rightarrow> withdrawal_row \<Rightarrow> withdrawal_row" where
  "reviewed s admin now r =
     r\<lparr>wd_status := s, wd_reviewed_by := Some admin, wd_reviewed_at := Some now\<rparr>"

lemma review_update:
  "sql_update p (row_review s admin now) t = Some (map (\<lambda>r. if p r then reviewed s admin now r else r) t)"
  by (rule sql_update_total) (simp add: row_review_def reviewed_def)

lemma find_map_same:
  "(\<And>x. P (h x) = P x) \<Longrightarrow> find P (map h t) = map_option h (find P t)"
  by (induction t) auto

lemma find_withdrawal_id: "find_withdrawal d i = Some r \<Longrightarrow> wd_id r = i \<and> r \<in> set (db_withdrawals d)"
  unfolding find_withdrawal_def by (auto dest: find_SomeD)

lemma review_cases:
  assumes run: "review_stmt s now i admin d = Inr (row, d')"
    and dist: "distinct (map wd_id (db_withdrawals d))"
  obtains r where "find_withdrawal d i = Some r" "wd_status r = WdPending"
    "row = reviewed s admin now r" "user_exists d admin"
    "d' = d\<lparr>db_withdrawals := map (\<lambda>x. if wd_id x = i \<and> wd_status x = WdPending
       then reviewed s admin now x else x) (db_withdrawals d)\<rparr>"
proof -
  let ?p = "\<lambda>r. wd_id r = i \<and> wd_status r = WdPending"
  let ?h = "\<lambda>x. if ?p x then reviewed s admin now x else x"
  from run have some: "sql_affected ?p (db_withdrawals d) \<noteq> 0" and adm: "user_exists d admin"
    and row: "find (\<lambda>r. wd_id r = i) (map ?h (db_withdrawals d)) = Some row"
    and d': "d' = d\<lparr>db_withdrawals := map ?h (db_withdrawals d)\<rparr>"
    by (auto simp: review_stmt_def stmt_defs Let_def review_update split: if_splits option.splits)
  from some obtain r where r: "r \<in> set (db_withdrawals d)" "wd_id r = i" "wd_status r = WdPending"
    by (auto simp: sql_affected_0)
  then have f: "find (\<lambda>r. wd_id r = i) (db_withdrawals d) = Some r"
    using find_key_unique [OF dist r(1)] by simp
  have "wd_id (?h x) = wd_id x" for x by (simp add: reviewed_def)
  then have "find (\<lambda>r. wd_id r = i) (map ?h (db_withdrawals d)) = Some (?h r)"
    using find_map_same [where P = "\<lambda>r. wd_id r = i" and h = ?h and t = "db_withdrawals d"] f by simp
  with row r have "row = reviewed s admin now r" by simp
  with f r adm d' show ?thesis by (intro that) (auto simp: find_withdrawal_def)
qed

text \<open>The three transactions: the withdrawal, the hold and the money.\<close>

lemma create_withdrawal_effect:
  assumes run: "create_withdrawal_stmt i now u amt d = Inr (res, d')" and ok: "balances_ok d"
  shows "(res = None \<and> d' = d \<and> (amt \<le> avail d u \<longrightarrow> find_balance d u = None)) \<or>
    (\<exists>row. res = Some row \<and> wd_id row = i \<and> wd_user_id row = u \<and> wd_amount row = amt \<and>
      wd_status row = WdPending \<and> 0 < amt \<and> amt \<le> avail d u \<and> user_exists d u \<and>
      find_withdrawal d i = None \<and> i \<notin> set (map hold_withdrawal (db_holds d)) \<and>
      moves u (- amt) amt d d' \<and>
      db_withdrawals d' = db_withdrawals d @ [row] \<and> db_holds d' = db_holds d @ [hold_of row] \<and>
      db_users d' = db_users d)"
proof -
  from run obtain n d1 where r: "reserve_stmt u amt d = Inr (n, d1)"
    and rest: "(if n = 0 then stmt_return None else
         stmt_bind (insert_withdrawal_stmt i now u amt) (\<lambda>row.
         stmt_bind (insert_hold_stmt (wd_id row) u amt) (\<lambda>_. stmt_return (Some row)))) d1 = Inr (res, d')"
    by (auto simp: create_withdrawal_stmt_def stmt_bind_def split: sum.splits prod.splits)
  from reserve_frame [OF r] obtain t where d1: "d1 = d\<lparr>db_balances := t\<rparr>" by blast
  from reserve_effect [OF r ok] show ?thesis
  proof
    assume "n = 1 \<and> amt \<le> avail d u \<and> find_balance d u \<noteq> None \<and> moves u (- amt) amt d d1"
    with rest d1 show ?thesis
      by (intro disjI2) (auto simp: insert_withdrawal_stmt_def insert_hold_stmt_def stmt_defs Let_def
          moves_def avail_def resv_def funds_def find_balance_def user_exists_def hold_of_def
          find_withdrawal_def split: if_splits)
  qed (use rest in \<open>simp add: stmt_return_def\<close>)
qed

lemma create_withdrawal_ok:
  assumes run: "create_withdrawal_stmt i now u amt d = Inr (res, d')" and ok: "balances_ok d"
    and wok: "withdrawals_ok d"
  shows "withdrawals_ok d'"
  using create_withdrawal_effect [OF run ok]
proof
  assume "\<exists>row. res = Some row \<and> wd_id row = i \<and> wd_user_id row = u \<and> wd_amount row = amt \<and>
      wd_status row = WdPending \<and> 0 < amt \<and> amt \<le> avail d u \<and> user_exists d u \<and>
      find_withdrawal d i = None \<and> i \<notin> set (map hold_withdrawal (db_holds d)) \<and>
      moves u (- amt) amt d d' \<and>
      db_withdrawals d' = db_withdrawals d @ [row] \<and> db_holds d' = db_holds d @ [hold_of row] \<and>
      db_users d' = db_users d"
  moreover have "find_withdrawal d i = None \<Longrightarrow> i \<notin> wd_id ` set (db_withdrawals d)"
    by (auto simp: find_withdrawal_def find_None_iff)
  ultimately show ?thesis
    using wok by (auto simp: withdrawals_ok_def user_exists_def)
qed (use wok in simp)

lemma find_balance_cong: "db_balances d' = db_balances d \<Longrightarrow> find_balance d' u = find_balance d u"
  by (simp add: find_balance_def)

lemma balances_only:
  "db_balances d' = db_balances d \<Longrightarrow> avail d' = avail d \<and> resv d' = resv d \<and> funds d' = funds d"
  by (simp add: fun_eq_iff avail_def resv_def funds_def find_balance_def)

lemma moves_cong:
  "db_balances d1 = db_balances d \<Longrightarrow> db_balances d2' = db_balances d2 \<Longrightarrow>
     moves u a s d1 d2 = moves u a s d d2'"
  by (simp add: moves_def avail_def resv_def funds_def find_balance_def)

lemma balances_ok_cong:
  "db_balances d' = db_balances d \<Longrightarrow> db_users d' = db_users d \<Longrightarrow> balances_ok d' = balances_ok d"
  by (simp add: balances_ok_def user_exists_def)

text \<open>What is common to the two decisions: the review, the money step \<open>m\<close>, the hold.\<close>

lemma decide_cases:
  assumes run: "stmt_bind (review_stmt s now i admin) (\<lambda>row.
       stmt_bind (m row) (\<lambda>_ :: nat. stmt_bind (delete_hold_stmt i) (\<lambda>_. stmt_return row))) d = Inr (row, d')"
    and wok: "withdrawals_ok d" and s: "s \<noteq> WdPending"
    and frame: "\<And>d n d'. m row d = Inr (n, d') \<Longrightarrow> \<exists>t. d' = d\<lparr>db_balances := t\<rparr>"
  obtains r n d1 d2 where "find_withdrawal d i = Some r" "wd_status r = WdPending"
    "row = reviewed s admin now r" "m row d1 = Inr (n, d2)"
    "db_balances d1 = db_balances d" "db_users d1 = db_users d"
    "db_balances d' = db_balances d2" "db_users d' = db_users d"
    "find_withdrawal d' i = Some row" "withdrawals_ok d'"
    "db_withdrawals d' = map (\<lambda>x. if wd_id x = i \<and> wd_status x = WdPending
       then reviewed s admin now x else x) (db_withdrawals d)"
proof -
  let ?h = "\<lambda>x. if wd_id x = i \<and> wd_status x = WdPending then reviewed s admin now x else x"
  from wok have dist: "distinct (map wd_id (db_withdrawals d))" by (simp add: withdrawals_ok_def)
  from run obtain row' d1 n d2 where rev: "review_stmt s now i admin d = Inr (row', d1)"
    and m: "m row' d1 = Inr (n, d2)" and row': "row' = row"
    and d': "d' = d2\<lparr>db_holds := filter (\<lambda>h. hold_withdrawal h \<noteq> i) (db_holds d2)\<rparr>"
    by (auto simp: stmt_defs delete_hold_stmt_def split: sum.splits)
  note m = m [unfolded row'] and rev = rev [unfolded row']
  from rev dist obtain r where r: "find_withdrawal d i = Some r" "wd_status r = WdPending"
    "row = reviewed s admin now r" and d1: "d1 = d\<lparr>db_withdrawals := map ?h (db_withdrawals d)\<rparr>"
    by (rule review_cases)
  from frame [OF m] obtain t where d2: "d2 = d1\<lparr>db_balances := t\<rparr>" by blast
  have ids: "wd_id \<circ> ?h = wd_id"
    by (auto simp: fun_eq_iff reviewed_def)
  have pend: "filter (\<lambda>r. wd_status r = WdPending) (map ?h ws) =
      filter (\<lambda>r. wd_status r = WdPending \<and> wd_id r \<noteq> i) ws" for ws
    using s by (induction ws) (auto simp: reviewed_def)
  have holds: "filter (\<lambda>h. hold_withdrawal h \<noteq> i) (map hold_of (filter (\<lambda>r. wd_status r = WdPending) ws)) =
      map hold_of (filter (\<lambda>r. wd_status r = WdPending \<and> wd_id r \<noteq> i) ws)" for ws
    by (induction ws) (auto simp: hold_of_def)
  have "withdrawals_ok d'"
    using wok d1 d2 d' dist unfolding withdrawals_ok_def
    by (auto simp: ids pend holds user_exists_def reviewed_def)
  moreover have "find_withdrawal d' i = Some row"
  proof -
    have "wd_id (?h x) = wd_id x" for x by (simp add: reviewed_def)
    then have "find (\<lambda>r. wd_id r = i) (map ?h (db_withdrawals d)) = Some (?h r)"
      using find_map_same [where P = "\<lambda>r. wd_id r = i" and h = ?h and t = "db_withdrawals d"] r(1)
      by (simp add: find_withdrawal_def)
    moreover from find_withdrawal_id [OF r(1)] have "wd_id r = i" by simp
    ultimately show ?thesis using r(2,3) d1 d2 d' by (simp add: find_withdrawal_def)
  qed
  ultimately show ?thesis
    using that [of r d1 n d2] r m d1 d2 d' by simp
qed

lemma spend_frame: "spend_stmt u amt d = Inr (n, d') \<Longrightarrow> \<exists>t. d' = d\<lparr>db_balances := t\<rparr>"
  unfolding spend_stmt_def by (rule balance_frame)

lemma release_frame: "release_stmt u amt d = Inr (n, d') \<Longrightarrow> \<exists>t. d' = d\<lparr>db_balances := t\<rparr>"
  unfolding release_stmt_def by (rule balance_frame)

lemma approve_effect:
  assumes run: "approve_stmt now i admin d = Inr (row, d')" and ok: "balances_ok d"
    and wok: "withdrawals_ok d"
  obtains r where "find_withdrawal d i = Some r" "wd_status r = WdPending"
    "row = reviewed WdApproved admin now r" "find_withdrawal d' i = Some row"
    "moves (wd_user_id r) 0 (- min (resv d (wd_user_id r)) (wd_amount r)) d d'"
    "withdrawals_ok d'" "balances_ok d'"
proof -
  note run' = run [unfolded approve_stmt_def]
  from run' wok obtain r n d1 d2 where r: "find_withdrawal d i = Some r" "wd_status r = WdPending"
      "row = reviewed WdApproved admin now r"
    and sp: "spend_stmt (wd_user_id row) (wd_amount row) d1 = Inr (n, d2)"
    and eqs: "db_balances d1 = db_balances d" "db_users d1 = db_users d"
      "db_balances d' = db_balances d2" "db_users d' = db_users d"
    and fin: "find_withdrawal d' i = Some row" "withdrawals_ok d'"
    by (rule decide_cases) (use spend_frame in auto)
  from ok eqs have ok1: "balances_ok d1" using balances_ok_cong by blast
  have amt: "0 < wd_amount r"
    using wok find_withdrawal_id [OF r(1)] by (auto simp: withdrawals_ok_def)
  have same: "wd_user_id row = wd_user_id r" "wd_amount row = wd_amount r"
    using r(3) by (simp_all add: reviewed_def)
  have "moves (wd_user_id r) 0 (- min (resv d1 (wd_user_id r)) (wd_amount r)) d1 d2"
    using spend_effect [OF sp ok1] amt moves_refl by (auto simp: same resv_def)
  then have mv: "moves (wd_user_id r) 0 (- min (resv d (wd_user_id r)) (wd_amount r)) d d'"
    using eqs moves_cong by (metis balances_only)
  from spend_frame [OF sp] have "db_users d2 = db_users d1" by auto
  with update_balances_oks(3) [OF sp ok1] eqs have "balances_ok d'"
    using balances_ok_cong by metis
  with r fin mv show ?thesis by (intro that)
qed

lemma reject_effect:
  assumes run: "reject_stmt now i admin d = Inr (row, d')" and ok: "balances_ok d"
    and wok: "withdrawals_ok d"
  obtains r where "find_withdrawal d i = Some r" "wd_status r = WdPending"
    "row = reviewed WdRejected admin now r" "find_withdrawal d' i = Some row"
    "find_balance d (wd_user_id r) \<noteq> None \<Longrightarrow>
       moves (wd_user_id r) (wd_amount r) (- min (resv d (wd_user_id r)) (wd_amount r)) d d'"
    "withdrawals_ok d'" "balances_ok d'"
proof -
  note run' = run [unfolded reject_stmt_def]
  from run' wok obtain r n d1 d2 where r: "find_withdrawal d i = Some r" "wd_status r = WdPending"
      "row = reviewed WdRejected admin now r"
    and rl: "release_stmt (wd_user_id row) (wd_amount row) d1 = Inr (n, d2)"
    and eqs: "db_balances d1 = db_balances d" "db_users d1 = db_users d"
      "db_balances d' = db_balances d2" "db_users d' = db_users d"
    and fin: "find_withdrawal d' i = Some row" "withdrawals_ok d'"
    by (rule decide_cases) (use release_frame in auto)
  from ok eqs have ok1: "balances_ok d1" using balances_ok_cong by blast
  have same: "wd_user_id row = wd_user_id r" "wd_amount row = wd_amount r"
    using r(3) by (simp_all add: reviewed_def)
  have mv: "moves (wd_user_id r) (wd_amount r) (- min (resv d (wd_user_id r)) (wd_amount r)) d d'"
    if "find_balance d (wd_user_id r) \<noteq> None"
  proof -
    from that eqs have "find_balance d1 (wd_user_id r) \<noteq> None" by (simp add: find_balance_def)
    then have "moves (wd_user_id r) (wd_amount r) (- min (resv d1 (wd_user_id r)) (wd_amount r)) d1 d2"
      using release_effect [OF rl ok1] by (auto simp: same)
    then show ?thesis using eqs moves_cong by (metis balances_only)
  qed
  from release_frame [OF rl] have "db_users d2 = db_users d1" by auto
  with update_balances_oks(2) [OF rl ok1] eqs have "balances_ok d'"
    using balances_ok_cong by metis
  with r fin mv show ?thesis by (intro that)
qed

end
