(* ===== verification/Db_Ledger.thy ===== *)
theory Db_Ledger
  imports Db_Withdrawals
begin

text \<open>
  The database as a state machine: \<open>db_step\<close> has one rule for each statement or transaction that a method
  of \<open>Db\<close> commits, so a run of \<open>db_step\<close> is any interleaving of committed transactions of any clients.
  \<open>db_ok\<close> is the invariant of all the tables, and \<open>history\<close> what is never lost or rewritten. The services
  are shown to do nothing but such steps (\<open>runs.io_conforms\<close>), and inherit both.
\<close>

definition db_ok :: "db \<Rightarrow> bool" where
  "db_ok d \<longleftrightarrow> users_ok d \<and> markets_ok d \<and> balances_ok d \<and> orders_ok d \<and> fills_ok d
     \<and> positions_ok d \<and> withdrawals_ok d \<and> idem_ok d"

inductive db_step :: "db \<Rightarrow> db \<Rightarrow> bool" where
  insert_user: "insert_user_stmt i e p d = Inr (i', d') \<Longrightarrow> db_step d d'"
| audit: "audit_stmt u ac en ei me d = Inr (x, d') \<Longrightarrow> db_step d d'"
| claim_key: "claim_key_stmt now k d = Inr (n, d') \<Longrightarrow> db_step d d'"
| complete_key: "complete_key_stmt k resp d = Inr (x, d') \<Longrightarrow> db_step d d'"
| expire_keys: "expire_stmt now d = Inr (n, d') \<Longrightarrow> db_step d d'"
| insert_market: "insert_market_stmt i now t de ra d = Inr (m, d') \<Longrightarrow> db_step d d'"
| market_status: "update_markets k g (row_status s) d = Inr (n, d') \<Longrightarrow> db_step d d'"
| sequence: "next_sequence_stmt m d = Inr (n, d') \<Longrightarrow> db_step d d'"
| credit: "credit_stmt u amt d = Inr (x, d') \<Longrightarrow> db_step d d'"
| reserve: "reserve_stmt u amt d = Inr (n, d') \<Longrightarrow> db_step d d'"
| release: "release_stmt u amt d = Inr (n, d') \<Longrightarrow> db_step d d'"
| apply_fill: "apply_fill_stmt b s amt d = Inr (x, d') \<Longrightarrow> db_step d d'"
| settle: "settle_stmt now m oc ps d = Inr (x, d') \<Longrightarrow> db_step d d'"
| deposit: "deposit_stmt u amt ref d = Inr (x, d') \<Longrightarrow> db_step d d'"
| insert_order: "insert_order_stmt o' d = Inr (x, d') \<Longrightarrow> db_step d d'"
| order_fill: "update_orders k g (row_fill now st n) d = Inr (r, d') \<Longrightarrow> db_step d d'"
| order_cancel: "update_orders k g (row_cancel now) d = Inr (r, d') \<Longrightarrow> db_step d d'"
| place_order: "place_order_stmt o' cost d = Inr (res, d') \<Longrightarrow> db_step d d'"
| insert_fill: "insert_fill_stmt f d = Inr (out, d') \<Longrightarrow> db_step d d'"
| position: "record_position_stmt fi u m delta d = Inr (x, d') \<Longrightarrow> db_step d d'"
| create_withdrawal: "create_withdrawal_stmt i now u amt d = Inr (r, d') \<Longrightarrow> db_step d d'"
| approve: "approve_stmt now i admin d = Inr (w, d') \<Longrightarrow> db_step d d'"
| reject: "reject_stmt now i admin d = Inr (w, d') \<Longrightarrow> db_step d d'"

section \<open>Frames\<close>

text \<open>
  \<open>only_grows d d'\<close>: the identifiers other tables point to are still there. A table that did not change
  keeps its invariant when the identifiers it points to are kept.
\<close>

definition only_grows :: "db \<Rightarrow> db \<Rightarrow> bool" where
  "only_grows d d' \<longleftrightarrow>
     (\<forall>u. user_exists d u \<longrightarrow> user_exists d' u) \<and> (\<forall>m. market_exists d m \<longrightarrow> market_exists d' m)
     \<and> (\<forall>k. order_exists d k \<longrightarrow> order_exists d' k) \<and> (\<forall>f. fill_exists d f \<longrightarrow> fill_exists d' f)"

lemma only_growsI:
  "set (map usr_id (db_users d)) \<subseteq> set (map usr_id (db_users d')) \<Longrightarrow>
   set (map mrow_id (db_markets d)) \<subseteq> set (map mrow_id (db_markets d')) \<Longrightarrow>
   set (map orow_id (db_orders d)) \<subseteq> set (map orow_id (db_orders d')) \<Longrightarrow>
   set (map frow_id (db_fills d)) \<subseteq> set (map frow_id (db_fills d')) \<Longrightarrow> only_grows d d'"
  unfolding only_grows_def user_exists_def market_exists_def order_exists_def fill_exists_def by blast

lemma users_ok_frame: "users_ok d \<Longrightarrow> db_users d' = db_users d \<Longrightarrow> users_ok d'"
  by (simp add: users_ok_def)

lemma idem_ok_frame: "idem_ok d \<Longrightarrow> db_idem d' = db_idem d \<Longrightarrow> idem_ok d'"
  by (auto simp add: idem_ok_def)

lemma markets_ok_frame:
  "markets_ok d \<Longrightarrow> db_markets d' = db_markets d \<Longrightarrow> db_sequences d' = db_sequences d \<Longrightarrow> markets_ok d'"
  by (simp add: markets_ok_def market_exists_def)

lemma balances_ok_frame:
  "balances_ok d \<Longrightarrow> only_grows d d' \<Longrightarrow> db_balances d' = db_balances d \<Longrightarrow> balances_ok d'"
  by (simp add: balances_ok_def only_grows_def)

lemma orders_ok_frame:
  "orders_ok d \<Longrightarrow> only_grows d d' \<Longrightarrow> db_orders d' = db_orders d \<Longrightarrow> orders_ok d'"
  by (simp add: orders_ok_def only_grows_def)

lemma fills_ok_frame:
  "fills_ok d \<Longrightarrow> only_grows d d' \<Longrightarrow> db_fills d' = db_fills d \<Longrightarrow> fills_ok d'"
  by (simp add: fills_ok_def fill_refs_def only_grows_def)

lemma positions_ok_frame:
  "positions_ok d \<Longrightarrow> only_grows d d' \<Longrightarrow> db_positions d' = db_positions d \<Longrightarrow> positions_ok d'"
  by (simp add: positions_ok_def only_grows_def)

lemma withdrawals_ok_frame:
  "withdrawals_ok d \<Longrightarrow> only_grows d d' \<Longrightarrow> db_withdrawals d' = db_withdrawals d \<Longrightarrow>
   db_holds d' = db_holds d \<Longrightarrow> withdrawals_ok d'"
  by (simp add: withdrawals_ok_def only_grows_def)

lemmas ok_frames = users_ok_frame idem_ok_frame markets_ok_frame balances_ok_frame orders_ok_frame
  fills_ok_frame positions_ok_frame withdrawals_ok_frame

text \<open>A statement that changes balances only.\<close>

lemma db_ok_balances:
  assumes "db_ok d" and "d' = d\<lparr>db_balances := t\<rparr>" and "balances_ok d'"
  shows "db_ok d'"
proof -
  have g: "only_grows d d'" by (rule only_growsI) (simp_all add: assms(2))
  from assms(1,3) g ok_frames [of d d'] show ?thesis
    unfolding db_ok_def by (simp add: assms(2))
qed

lemma spend_release_ok:
  assumes "apply_fill_stmt b s amt d = Inr (x, d')"
  obtains n1 n2 d1 where "spend_stmt b amt d = Inr (n1, d1)" "release_stmt s amt d1 = Inr (n2, d')"
  using assms by (auto simp: apply_fill_stmt_def stmt_defs split: sum.splits)

lemma apply_fill_frame: "apply_fill_stmt b s amt d = Inr (x, d') \<Longrightarrow> \<exists>t. d' = d\<lparr>db_balances := t\<rparr>"
  by (elim spend_release_ok) (auto dest!: spend_frame release_frame)

lemma apply_fill_ok: "apply_fill_stmt b s amt d = Inr (x, d') \<Longrightarrow> balances_ok d \<Longrightarrow> balances_ok d'"
  by (elim spend_release_ok) (auto dest: update_balances_oks)

lemma credits_frame:
  "stmt_iterate (\<lambda>(u, amt). credit_stmt (user_uuid u) (sint amt)) ps d = Inr (x, d') \<Longrightarrow>
     \<exists>t. d' = d\<lparr>db_balances := t\<rparr>"
proof (induction ps arbitrary: d)
  case Nil
  then show ?case by (auto simp: stmt_return_def intro: exI [of _ "db_balances d"])
next
  case (Cons p ps)
  then obtain d1 where c: "(case p of (u, amt) \<Rightarrow> credit_stmt (user_uuid u) (sint amt)) d = Inr ((), d1)"
    and rest: "stmt_iterate (\<lambda>(u, amt). credit_stmt (user_uuid u) (sint amt)) ps d1 = Inr (x, d')"
    by (auto simp: stmt_bind_def split: sum.splits)
  from Cons.IH [OF rest] c show ?case by (auto dest!: credit_frame split: prod.splits)
qed

lemma credits_ok:
  "stmt_iterate (\<lambda>(u, amt). credit_stmt (user_uuid u) (sint amt)) ps d = Inr (x, d') \<Longrightarrow>
     balances_ok d \<Longrightarrow> balances_ok d'"
proof (induction ps arbitrary: d)
  case Nil
  then show ?case by (simp add: stmt_return_def)
next
  case (Cons p ps)
  then obtain d1 where c: "(case p of (u, amt) \<Rightarrow> credit_stmt (user_uuid u) (sint amt)) d = Inr ((), d1)"
    and rest: "stmt_iterate (\<lambda>(u, amt). credit_stmt (user_uuid u) (sint amt)) ps d1 = Inr (x, d')"
    by (auto simp: stmt_bind_def split: sum.splits)
  from c Cons.prems(2) have "balances_ok d1" by (auto intro: credit_ok split: prod.splits)
  with Cons.IH [OF rest] show ?case by simp
qed

text \<open>A statement that changes markets only, without adding or removing one.\<close>

lemma update_markets_frame: "update_markets k g f d = Inr (n, d') \<Longrightarrow> \<exists>t. d' = d\<lparr>db_markets := t\<rparr>"
  by (auto simp: update_markets_def stmt_write_def split: option.splits)

lemma update_markets_db_ok:
  assumes run: "update_markets k g f d = Inr (n, d')" and ok: "db_ok d"
    and f: "\<forall>x x'. f x = Some x' \<longrightarrow> mrow_id x' = mrow_id x"
  shows "db_ok d'"
proof -
  from ok have mok: "markets_ok d" by (simp add: db_ok_def)
  from update_markets_ok [OF run mok f]
  have m: "markets_ok d'" "\<forall>m. market_exists d' m = market_exists d m" by auto
  from update_markets_frame [OF run] obtain t where d': "d' = d\<lparr>db_markets := t\<rparr>" by blast
  then have g: "only_grows d d'"
    using m(2) by (simp add: only_grows_def user_exists_def order_exists_def fill_exists_def)
  from ok m(1) g ok_frames [of d d'] show ?thesis
    unfolding db_ok_def by (simp add: d')
qed

lemma row_status_keys: "\<forall>x x'. row_status s x = Some x' \<longrightarrow> mrow_id x' = mrow_id x"
  by (simp add: row_status_key)

lemma row_settle_keys: "\<forall>x x'. row_settle now oc x = Some x' \<longrightarrow> mrow_id x' = mrow_id x"
  by (simp add: row_settle_key)

lemma settle_cases:
  assumes "settle_stmt now m oc ps d = Inr (x, d')"
  obtains n d1 where "update_markets m (\<lambda>_. True) (row_settle now oc) d = Inr (n, d1)"
    "stmt_iterate (\<lambda>(u, amt). credit_stmt (user_uuid u) (sint amt)) ps d1 = Inr (x, d')"
  using assms by (auto simp: settle_stmt_def stmt_bind_def split: sum.splits)

lemma settle_db_ok:
  assumes "settle_stmt now m oc ps d = Inr (x, d')" and "db_ok d"
  shows "db_ok d'"
  using assms(1)
proof (cases rule: settle_cases)
  case (1 n d1)
  from update_markets_db_ok [OF 1(1) assms(2) row_settle_keys] have ok1: "db_ok d1" .
  from credits_frame [OF 1(2)] obtain t where t: "d' = d1\<lparr>db_balances := t\<rparr>" by blast
  from ok1 t show ?thesis
    by (rule db_ok_balances) (use credits_ok [OF 1(2)] ok1 in \<open>simp add: db_ok_def\<close>)
qed

section \<open>Every step keeps the invariant\<close>

lemma insert_user_db_ok:
  assumes run: "insert_user_stmt i e p d = Inr (x, d')" and ok: "db_ok d"
  shows "db_ok d'"
proof -
  from run obtain us where d': "d' = d\<lparr>db_users := db_users d @ us\<rparr>"
    by (auto simp: insert_user_stmt_def stmt_write_def split: if_splits)
  have g: "only_grows d d'" by (rule only_growsI) (simp_all add: d')
  from ok insert_user_ok [OF run] g ok_frames [of d d'] show ?thesis
    unfolding db_ok_def by (simp add: d')
qed

lemma audit_db_ok:
  assumes run: "audit_stmt u ac en ei me d = Inr (x, d')" and ok: "db_ok d"
  shows "db_ok d'"
proof -
  from run obtain t where d': "d' = d\<lparr>db_audit := t\<rparr>"
    by (auto simp: audit_stmt_def stmt_write_def split: if_splits option.splits)
  have g: "only_grows d d'" by (rule only_growsI) (simp_all add: d')
  from ok g ok_frames [of d d'] show ?thesis
    unfolding db_ok_def by (simp add: d')
qed

lemma idem_db_ok:
  assumes ok: "db_ok d" and d': "d' = d\<lparr>db_idem := t\<rparr>" and i: "idem_ok d'"
  shows "db_ok d'"
proof -
  have g: "only_grows d d'" by (rule only_growsI) (simp_all add: d')
  from ok i g ok_frames [of d d'] show ?thesis
    unfolding db_ok_def by (simp add: d')
qed

lemma claim_key_db_ok:
  assumes run: "claim_key_stmt now k d = Inr (n, d')" and ok: "db_ok d"
  shows "db_ok d'"
  using claim_key_cases [OF run]
proof
  assume n: "n = 1 \<and> \<not> key_known d k \<and> (\<forall>k'. key_known d' k' \<longleftrightarrow> key_known d k' \<or> k' = k) \<and>
     (\<exists>r. d' = d\<lparr>db_idem := db_idem d @ [r]\<rparr> \<and> idem_of r = k \<and> idem_status r = 1 \<and> idem_response r = None)"
  then obtain r where r: "d' = d\<lparr>db_idem := db_idem d @ [r]\<rparr>" "idem_of r = k" "idem_status r = 1"
    "idem_response r = None" by blast
  from n ok r have "idem_ok d'"
    by (auto simp: idem_ok_def key_known_iff db_ok_def)
  with ok r(1) show ?thesis by (rule idem_db_ok)
qed (use ok in simp)

lemma complete_key_db_ok:
  assumes run: "complete_key_stmt k resp d = Inr (x, d')" and ok: "db_ok d"
  shows "db_ok d'"
proof -
  from run obtain t where t: "sql_update (\<lambda>r. idem_of r = k \<and> True) (row_complete resp) (db_idem d) = Some t"
    and d': "d' = d\<lparr>db_idem := t\<rparr>"
    by (auto simp: complete_key_stmt_def stmt_write_def split: option.splits)
  have "\<forall>r \<in> set t. idem_status r \<in> {1, 2} \<and> (idem_status r = 2 \<longleftrightarrow> idem_response r \<noteq> None)"
    by (rule sql_update_all [OF t]) (use ok in \<open>auto simp: db_ok_def idem_ok_def row_complete_def\<close>)
  then have "idem_ok d'"
    using icomplete.update_distinct [OF t] ok d' by (auto simp: db_ok_def idem_ok_def)
  with ok d' show ?thesis by (rule idem_db_ok)
qed

lemma expire_db_ok:
  assumes run: "expire_stmt now d = Inr (n, d')" and ok: "db_ok d"
  shows "db_ok d'"
proof -
  from run have d': "d' = d\<lparr>db_idem := filter (\<lambda>r. \<not> idem_expires_at r < now) (db_idem d)\<rparr>"
    by (simp add: expire_stmt_def stmt_write_def)
  then have "idem_ok d'"
    using ok by (auto simp: db_ok_def idem_ok_def distinct_map_filter)
  with ok d' show ?thesis by (rule idem_db_ok)
qed

lemma insert_market_db_ok:
  assumes run: "insert_market_stmt i now t de ra d = Inr (m, d')" and ok: "db_ok d"
  shows "db_ok d'"
proof -
  from run obtain r where d': "d' = d\<lparr>db_markets := db_markets d @ [r]\<rparr>"
    by (auto simp: insert_market_stmt_def stmt_write_def Let_def split: option.splits if_splits)
  have g: "only_grows d d'" by (rule only_growsI) (auto simp: d')
  have "markets_ok d'" using insert_market_ok [OF run] ok by (simp add: db_ok_def)
  with ok g ok_frames [of d d'] show ?thesis
    unfolding db_ok_def by (simp add: d')
qed

lemma sequence_db_ok:
  assumes run: "next_sequence_stmt m d = Inr (n, d')" and ok: "db_ok d"
  shows "db_ok d'"
proof -
  from run obtain t where d': "d' = d\<lparr>db_sequences := t\<rparr>"
    by (auto simp: next_sequence_stmt_def stmt_write_def split: option.splits if_splits)
  have g: "only_grows d d'" by (rule only_growsI) (simp_all add: d')
  have "markets_ok d'" using next_sequence_ok [OF run] ok by (simp add: db_ok_def)
  with ok g ok_frames [of d d'] show ?thesis
    unfolding db_ok_def by (simp add: d')
qed

lemma deposit_db_ok:
  assumes run: "deposit_stmt u amt ref d = Inr (x, d')" and ok: "db_ok d"
  shows "db_ok d'"
proof -
  from run obtain t d1 where d1: "d1 = d\<lparr>db_deposits := t\<rparr>" and c: "credit_stmt u amt d1 = Inr ((), d')"
    by (auto simp: deposit_stmt_def stmt_bind_def stmt_write_def split: if_splits)
  have g: "only_grows d d1" by (rule only_growsI) (simp_all add: d1)
  from ok g ok_frames [of d d1] have ok1: "db_ok d1"
    unfolding db_ok_def by (simp add: d1)
  from credit_frame [OF c] obtain b where "d' = d1\<lparr>db_balances := b\<rparr>" by blast
  with ok1 show ?thesis
    by (rule db_ok_balances) (use credit_ok [OF c] ok1 in \<open>simp add: db_ok_def\<close>)
qed

lemma reserve_db_ok:
  assumes run: "reserve_stmt u amt d = Inr (n, d')" and ok: "db_ok d"
  shows "db_ok d'"
proof -
  from reserve_frame [OF run] obtain t where "d' = d\<lparr>db_balances := t\<rparr>" by blast
  with ok show ?thesis
    by (rule db_ok_balances) (use update_balances_oks(1) [OF run] ok in \<open>simp add: db_ok_def\<close>)
qed

lemma release_db_ok:
  assumes run: "release_stmt u amt d = Inr (n, d')" and ok: "db_ok d"
  shows "db_ok d'"
proof -
  from release_frame [OF run] obtain t where "d' = d\<lparr>db_balances := t\<rparr>" by blast
  with ok show ?thesis
    by (rule db_ok_balances) (use update_balances_oks(2) [OF run] ok in \<open>simp add: db_ok_def\<close>)
qed

lemma credit_db_ok:
  assumes run: "credit_stmt u amt d = Inr (x, d')" and ok: "db_ok d"
  shows "db_ok d'"
proof -
  from run have run': "credit_stmt u amt d = Inr ((), d')" by simp
  from credit_frame [OF run] obtain t where "d' = d\<lparr>db_balances := t\<rparr>" by blast
  with ok show ?thesis
    by (rule db_ok_balances) (use credit_ok [OF run'] ok in \<open>simp add: db_ok_def\<close>)
qed

lemma apply_fill_db_ok:
  assumes run: "apply_fill_stmt b s amt d = Inr (x, d')" and ok: "db_ok d"
  shows "db_ok d'"
proof -
  from apply_fill_frame [OF run] obtain t where "d' = d\<lparr>db_balances := t\<rparr>" by blast
  with ok show ?thesis
    by (rule db_ok_balances) (use apply_fill_ok [OF run] ok in \<open>simp add: db_ok_def\<close>)
qed

lemma insert_order_db_ok:
  assumes run: "insert_order_stmt o' d = Inr (x, d')" and ok: "db_ok d"
  shows "db_ok d'"
proof -
  from run have run': "insert_order_stmt o' d = Inr ((), d')" by simp
  from insert_order_effect [OF run'] have d': "d' = d\<lparr>db_orders := db_orders d @ [row_of_order o']\<rparr>" by simp
  have g: "only_grows d d'" by (rule only_growsI) (auto simp: d')
  have "orders_ok d'" using insert_order_ok [OF run'] ok by (simp add: db_ok_def)
  with ok g ok_frames [of d d'] show ?thesis
    unfolding db_ok_def by (simp add: d')
qed

lemma update_orders_db_ok:
  assumes run: "update_orders k g f d = Inr (res, d')" and ok: "db_ok d"
    and f: "\<forall>x x'. order_check x \<longrightarrow> f x = Some x' \<longrightarrow> order_check x' \<and>
      orow_market_id x' = orow_market_id x \<and> orow_user_id x' = orow_user_id x"
    and keeps: "\<forall>x x'. f x = Some x' \<longrightarrow> orow_id x' = orow_id x"
  shows "db_ok d'"
proof -
  from ok have ook: "orders_ok d" by (simp add: db_ok_def)
  then have dist: "distinct (map orow_id (db_orders d))" by (simp add: orders_ok_def)
  have ok': "orders_ok d'" by (rule update_orders_ok [OF run ook f keeps])
  from run dist keeps show ?thesis
  proof (cases rule: update_orders_cases)
    case (one r r' t)
    note d' = one(6)
    from one(9) have "set (map orow_id t) = set (map orow_id (db_orders d))" by simp
    then have g: "only_grows d d'" by (intro only_growsI) (simp_all add: d')
    from ok ok' g ok_frames [of d d'] show ?thesis
      unfolding db_ok_def by (simp add: d')
  qed (use ok in simp)
qed

lemma row_fill_fixed:
  "\<forall>x x'. order_check x \<longrightarrow> row_fill now st n x = Some x' \<longrightarrow> order_check x' \<and>
     orow_market_id x' = orow_market_id x \<and> orow_user_id x' = orow_user_id x"
  by (auto simp: row_fill_def Let_def split: if_splits)

lemma row_cancel_fixed:
  "\<forall>x x'. order_check x \<longrightarrow> row_cancel now x = Some x' \<longrightarrow> order_check x' \<and>
     orow_market_id x' = orow_market_id x \<and> orow_user_id x' = orow_user_id x"
  by (auto simp: row_cancel_def order_check_def)

lemma place_order_cases:
  assumes "place_order_stmt o' cost d = Inr (res, d')"
  obtains (rejected) "res \<noteq> Placed" "d' = d"
  | (no_funds) "res = PlaceNoFunds" "reserve_stmt (user_uuid (ord_user_id o')) cost d = Inr (0, d')"
  | (placed) n d1 where "res = Placed" "reserve_stmt (user_uuid (ord_user_id o')) cost d = Inr (n, d1)"
      "insert_order_stmt o' d1 = Inr ((), d')"
  using assms
  by (auto simp: place_order_stmt_def stmt_defs split: option.splits if_splits sum.splits)

lemma place_order_db_ok:
  assumes run: "place_order_stmt o' cost d = Inr (res, d')" and ok: "db_ok d"
  shows "db_ok d'"
  using run by (cases rule: place_order_cases) (use ok in \<open>auto dest: reserve_db_ok insert_order_db_ok\<close>)

lemma insert_fill_db_ok:
  assumes run: "insert_fill_stmt f d = Inr (out, d')" and ok: "db_ok d"
  shows "db_ok d'"
proof -
  have fok: "fills_ok d'" using insert_fill_ok [OF run] ok by (simp add: db_ok_def)
  from insert_fill_cases [OF run] obtain t where d': "d' = d\<lparr>db_fills := db_fills d @ t\<rparr>"
    by (metis append_Nil2 db.surjective db.update_convs(5))
  have g: "only_grows d d'" by (rule only_growsI) (auto simp: d')
  from ok fok g ok_frames [of d d'] show ?thesis
    unfolding db_ok_def by (simp add: d')
qed

lemma position_db_ok:
  assumes run: "record_position_stmt fi u m delta d = Inr (x, d')" and ok: "db_ok d"
  shows "db_ok d'"
proof -
  from run have run': "record_position_stmt fi u m delta d = Inr ((), d')" by simp
  have pok: "positions_ok d'" using record_position_ok [OF run'] ok by (simp add: db_ok_def)
  from record_position_effect [OF run'] obtain t where d': "d' = d\<lparr>db_positions := t\<rparr>" by blast
  have g: "only_grows d d'" by (rule only_growsI) (auto simp: d')
  from ok pok g ok_frames [of d d'] show ?thesis
    unfolding db_ok_def by (simp add: d')
qed

lemma withdrawal_db_ok:
  assumes ok: "db_ok d" and d': "d' = d\<lparr>db_balances := b, db_withdrawals := w, db_holds := h\<rparr>"
    and "balances_ok d'" and "withdrawals_ok d'"
  shows "db_ok d'"
proof -
  have g: "only_grows d d'" by (rule only_growsI) (simp_all add: d')
  from ok assms(3,4) g ok_frames [of d d'] show ?thesis
    unfolding db_ok_def by (simp add: d')
qed

lemma create_withdrawal_frame:
  assumes "create_withdrawal_stmt i now u amt d = Inr (res, d')"
  shows "(\<exists>n. reserve_stmt u amt d = Inr (n, d')) \<or>
    (\<exists>n d1 w h. reserve_stmt u amt d = Inr (n, d1) \<and> d' = d1\<lparr>db_withdrawals := w, db_holds := h\<rparr>)"
  using assms by (auto simp: create_withdrawal_stmt_def insert_withdrawal_stmt_def insert_hold_stmt_def
      stmt_defs Let_def split: sum.splits if_splits option.splits) blast+

lemma create_withdrawal_db_ok:
  assumes run: "create_withdrawal_stmt i now u amt d = Inr (r, d')" and ok: "db_ok d"
  shows "db_ok d'"
  using create_withdrawal_frame [OF run]
proof
  assume "\<exists>n. reserve_stmt u amt d = Inr (n, d')"
  with ok show ?thesis by (auto intro: reserve_db_ok)
next
  assume "\<exists>n d1 w h. reserve_stmt u amt d = Inr (n, d1) \<and> d' = d1\<lparr>db_withdrawals := w, db_holds := h\<rparr>"
  then obtain n d1 w h where r: "reserve_stmt u amt d = Inr (n, d1)"
    and d': "d' = d1\<lparr>db_withdrawals := w, db_holds := h\<rparr>" by blast
  from reserve_frame [OF r] obtain b where d1: "d1 = d\<lparr>db_balances := b\<rparr>" by blast
  from ok have wok: "balances_ok d" "withdrawals_ok d" by (simp_all add: db_ok_def)
  have "balances_ok d'"
    using update_balances_oks(1) [OF r wok(1)] balances_ok_cong [of d' d1] d' by simp
  moreover have "withdrawals_ok d'" by (rule create_withdrawal_ok [OF run wok])
  ultimately show ?thesis
    by (rule withdrawal_db_ok [where b = b and w = w and h = h, OF ok, rotated]) (simp add: d' d1)
qed

lemma decision_frame:
  assumes "stmt_bind (review_stmt s now i admin) (\<lambda>row.
       stmt_bind (m row) (\<lambda>_ :: nat. stmt_bind (delete_hold_stmt i) (\<lambda>_. stmt_return row))) d = Inr (row, d')"
    and "\<And>d n d'. m row d = Inr (n, d') \<Longrightarrow> \<exists>t. d' = d\<lparr>db_balances := t\<rparr>"
  shows "\<exists>b h. d' = d\<lparr>db_balances := b, db_withdrawals := map (\<lambda>x. if wd_id x = i \<and>
       wd_status x = WdPending then reviewed s admin now x else x) (db_withdrawals d), db_holds := h\<rparr>"
proof -
  let ?w = "map (\<lambda>x. if wd_id x = i \<and>
       wd_status x = WdPending then reviewed s admin now x else x) (db_withdrawals d)"
  from assms(1) obtain d1 n d2 where d1: "d1 = d\<lparr>db_withdrawals := ?w\<rparr>" and m: "m row d1 = Inr (n, d2)"
    and d': "d' = d2\<lparr>db_holds := filter (\<lambda>h. hold_withdrawal h \<noteq> i) (db_holds d2)\<rparr>"
    by (auto simp: stmt_defs delete_hold_stmt_def review_stmt_def Let_def review_update
        split: sum.splits if_splits option.splits)
  from assms(2) [OF m] obtain t where d2: "d2 = d1\<lparr>db_balances := t\<rparr>" by blast
  have "d' = d\<lparr>db_balances := t, db_withdrawals := ?w,
      db_holds := filter (\<lambda>h. hold_withdrawal h \<noteq> i) (db_holds d2)\<rparr>"
    by (rule db.equality) (simp_all add: d' d2 d1)
  then show ?thesis by blast
qed

lemma approve_db_ok:
  assumes run: "approve_stmt now i admin d = Inr (w, d')" and ok: "db_ok d"
  shows "db_ok d'"
proof -
  obtain b ws h where d': "d' = d\<lparr>db_balances := b, db_withdrawals := ws, db_holds := h\<rparr>"
    using decision_frame [OF run [unfolded approve_stmt_def]] spend_frame by blast
  from ok have "balances_ok d" "withdrawals_ok d" by (simp_all add: db_ok_def)
  with run have "balances_ok d'" "withdrawals_ok d'" by (auto elim: approve_effect)
  then show ?thesis by (rule withdrawal_db_ok [OF ok d'])
qed

lemma reject_db_ok:
  assumes run: "reject_stmt now i admin d = Inr (w, d')" and ok: "db_ok d"
  shows "db_ok d'"
proof -
  obtain b ws h where d': "d' = d\<lparr>db_balances := b, db_withdrawals := ws, db_holds := h\<rparr>"
    using decision_frame [OF run [unfolded reject_stmt_def]] release_frame by blast
  from ok have "balances_ok d" "withdrawals_ok d" by (simp_all add: db_ok_def)
  with run have "balances_ok d'" "withdrawals_ok d'" by (auto elim: reject_effect)
  then show ?thesis by (rule withdrawal_db_ok [OF ok d'])
qed

lemmas steps_db_ok = insert_user_db_ok audit_db_ok claim_key_db_ok complete_key_db_ok expire_db_ok
  insert_market_db_ok sequence_db_ok credit_db_ok reserve_db_ok release_db_ok apply_fill_db_ok
  settle_db_ok deposit_db_ok insert_order_db_ok place_order_db_ok insert_fill_db_ok position_db_ok
  create_withdrawal_db_ok approve_db_ok reject_db_ok

lemma db_step_ok: "db_step d d' \<Longrightarrow> db_ok d \<Longrightarrow> db_ok d'"
  by (induction rule: db_step.induct)
    (blast intro: steps_db_ok update_markets_db_ok [OF _ _ row_status_keys]
      update_orders_db_ok [OF _ _ row_fill_fixed row_fill_key]
      update_orders_db_ok [OF _ _ row_cancel_fixed row_cancel_key])+

interpretation ledger: kept_by_steps db_step db_ok
  by unfold_locales (rule db_step_ok)

interpretation runs: store_relation "db_step\<^sup>*\<^sup>*"
  by unfold_locales auto

section \<open>What no step loses\<close>

text \<open>
  Fills, position changes and deposits are only appended, a decided withdrawal keeps its decision, and
  the sequence counters never go back.
\<close>

definition extends :: "'a list \<Rightarrow> 'a list \<Rightarrow> bool" where
  "extends xs ys \<longleftrightarrow> (\<exists>zs. ys = xs @ zs)"

definition history :: "db \<Rightarrow> db \<Rightarrow> bool" where
  "history d d' \<longleftrightarrow>
     extends (db_fills d) (db_fills d') \<and> extends (db_positions d) (db_positions d')
     \<and> extends (db_deposits d) (db_deposits d')
     \<and> (\<forall>i r. find_withdrawal d i = Some r \<longrightarrow> wd_status r \<noteq> WdPending \<longrightarrow> find_withdrawal d' i = Some r)
     \<and> (\<forall>m. last_sequence d m \<le> last_sequence d' m)"

lemma extends_refl [simp]: "extends xs xs"
  by (simp add: extends_def)

lemma extends_append [simp]: "extends xs (xs @ ys)"
  by (simp add: extends_def)

lemma extends_trans: "extends xs ys \<Longrightarrow> extends ys zs \<Longrightarrow> extends xs zs"
  by (auto simp: extends_def)

lemma extends_set: "extends xs ys \<Longrightarrow> set xs \<subseteq> set ys"
  by (auto simp: extends_def)

lemma history_refl: "history d d"
  by (simp add: history_def)

lemma history_trans: "history d d' \<Longrightarrow> history d' d'' \<Longrightarrow> history d d''"
  unfolding history_def by (blast intro: extends_trans order_trans)

interpretation hist: store_relation history
  by unfold_locales (fact history_refl, fact history_trans)

lemma history_frame:
  "extends (db_fills d) (db_fills d') \<Longrightarrow> extends (db_positions d) (db_positions d') \<Longrightarrow>
   extends (db_deposits d) (db_deposits d') \<Longrightarrow> db_withdrawals d' = db_withdrawals d \<Longrightarrow>
   db_sequences d' = db_sequences d \<Longrightarrow> history d d'"
  by (simp add: history_def find_withdrawal_def last_sequence_def)

lemma history_balances: "\<exists>t. d' = d\<lparr>db_balances := t\<rparr> \<Longrightarrow> history d d'"
  by (elim exE) (rule history_frame, simp_all)

lemma history_markets: "\<exists>t. d' = d\<lparr>db_markets := t\<rparr> \<Longrightarrow> history d d'"
  by (elim exE) (rule history_frame, simp_all)

lemma history_orders: "\<exists>t. d' = d\<lparr>db_orders := t\<rparr> \<Longrightarrow> history d d'"
  by (elim exE) (rule history_frame, simp_all)

lemma update_orders_frame: "update_orders k g f d = Inr (r, d') \<Longrightarrow> \<exists>t. d' = d\<lparr>db_orders := t\<rparr>"
  by (auto simp: update_orders_def stmt_write_def split: option.splits)

lemma insert_order_frame: "insert_order_stmt o' d = Inr (x, d') \<Longrightarrow> \<exists>t. d' = d\<lparr>db_orders := t\<rparr>"
  by (auto simp: insert_order_stmt_def stmt_write_def Let_def split: if_splits)

lemma settle_history: "settle_stmt now m oc ps d = Inr (x, d') \<Longrightarrow> history d d'"
  by (elim settle_cases)
    (blast intro: history_trans history_balances history_markets credits_frame update_markets_frame)

lemma place_order_history: "place_order_stmt o' cost d = Inr (res, d') \<Longrightarrow> history d d'"
  by (elim place_order_cases)
    (auto intro: history_refl history_trans history_balances history_orders reserve_frame insert_order_frame)

lemma sequence_history: "next_sequence_stmt m d = Inr (n, d') \<Longrightarrow> history d d'"
proof -
  assume run: "next_sequence_stmt m d = Inr (n, d')"
  then obtain t where "d' = d\<lparr>db_sequences := t\<rparr>"
    by (auto simp: next_sequence_stmt_def stmt_write_def split: option.splits if_splits)
  moreover have "last_sequence d k \<le> last_sequence d' k" for k
    using next_sequence_effect [OF run] by (cases "k = m") auto
  ultimately show ?thesis by (simp add: history_def find_withdrawal_def)
qed

lemma deposit_history: "deposit_stmt u amt ref d = Inr (x, d') \<Longrightarrow> history d d'"
proof -
  assume "deposit_stmt u amt ref d = Inr (x, d')"
  then obtain r d1 where "d1 = d\<lparr>db_deposits := db_deposits d @ r\<rparr>" and "credit_stmt u amt d1 = Inr ((), d')"
    by (auto simp: deposit_stmt_def stmt_bind_def stmt_write_def split: if_splits)
  then have "history d d1" "history d1 d'"
    by (auto intro: history_frame history_balances credit_frame)
  then show ?thesis by (rule history_trans)
qed

lemma create_withdrawal_history:
  assumes run: "create_withdrawal_stmt i now u amt d = Inr (r, d')"
  shows "history d d'"
proof -
  from run obtain n d1 where res: "reserve_stmt u amt d = Inr (n, d1)"
    and rest: "d' = d1 \<or> (\<exists>w h. d' = d1\<lparr>db_withdrawals := db_withdrawals d1 @ [w], db_holds := h\<rparr>)"
    by (auto simp: create_withdrawal_stmt_def insert_withdrawal_stmt_def insert_hold_stmt_def
        stmt_defs Let_def split: sum.splits if_splits option.splits) blast+
  have app: "find P ws = Some r \<Longrightarrow> find P (ws @ [w]) = Some r" for P r and ws :: "withdrawal_row list" and w
    by (induction ws) (auto split: if_splits)
  from rest have "history d1 d'"
    by (auto simp: history_def find_withdrawal_def last_sequence_def app)
  with history_balances [OF reserve_frame [OF res]] show ?thesis by (rule history_trans)
qed

lemma review_history:
  assumes "\<exists>b h. d' = d\<lparr>db_balances := b, db_withdrawals := map (\<lambda>x. if wd_id x = i \<and>
    wd_status x = WdPending then reviewed s a n x else x) (db_withdrawals d), db_holds := h\<rparr>"
  shows "history d d'"
proof -
  let ?h = "\<lambda>x. if wd_id x = i \<and> wd_status x = WdPending then reviewed s a n x else x"
  have key: "wd_id (?h x) = wd_id x" for x by (simp add: reviewed_def)
  have "find (\<lambda>r. wd_id r = k) (map ?h (db_withdrawals d)) =
      map_option ?h (find (\<lambda>r. wd_id r = k) (db_withdrawals d))" for k
    by (rule find_map_same) (simp only: key)
  with assms show ?thesis
    by (auto simp: history_def find_withdrawal_def last_sequence_def)
qed

lemma approve_history: "approve_stmt now i admin d = Inr (w, d') \<Longrightarrow> history d d'"
  unfolding approve_stmt_def
  by (rule review_history, erule decision_frame) (rule spend_frame)

lemma reject_history: "reject_stmt now i admin d = Inr (w, d') \<Longrightarrow> history d d'"
  unfolding reject_stmt_def
  by (rule review_history, erule decision_frame) (rule release_frame)

lemma user_side_history:
  "insert_user_stmt i e p d = Inr (i', d') \<Longrightarrow> history d d'"
  "audit_stmt u ac en ei me d = Inr (x, d') \<Longrightarrow> history d d'"
  "claim_key_stmt now k d = Inr (n, d') \<Longrightarrow> history d d'"
  "complete_key_stmt k resp d = Inr (x, d') \<Longrightarrow> history d d'"
  "expire_stmt now d = Inr (n, d') \<Longrightarrow> history d d'"
  "insert_market_stmt i now t de ra d = Inr (m, d') \<Longrightarrow> history d d'"
  by (auto intro!: history_frame simp: insert_user_stmt_def audit_stmt_def claim_key_stmt_def
      complete_key_stmt_def expire_stmt_def insert_market_stmt_def stmt_write_def Let_def
      split: if_splits option.splits)

lemma fill_side_history:
  "insert_fill_stmt f d = Inr (out, d') \<Longrightarrow> history d d'"
  "record_position_stmt fi u m delta d = Inr (x, d') \<Longrightarrow> history d d'"
  by (auto intro!: history_frame simp: insert_fill_stmt_def record_position_stmt_def stmt_write_def
      Let_def split: if_splits)

lemma db_step_history: "db_step d d' \<Longrightarrow> history d d'"
  by (induction rule: db_step.induct)
    (blast intro: user_side_history fill_side_history approve_history reject_history
      create_withdrawal_history deposit_history sequence_history place_order_history settle_history
      history_orders [OF insert_order_frame] history_orders [OF update_orders_frame]
      history_markets [OF update_markets_frame] history_balances [OF credit_frame]
      history_balances [OF reserve_frame] history_balances [OF release_frame]
      history_balances [OF apply_fill_frame])+

lemma run_history: "db_step\<^sup>*\<^sup>* d d' \<Longrightarrow> history d d'"
  by (induction rule: rtranclp_induct) (auto intro: history_refl history_trans db_step_history)

interpretation counters: keeps_measure db_step "\<lambda>d. last_sequence d m" for m
  by unfold_locales (use db_step_history in \<open>auto simp: history_def\<close>)

interpretation fill_count: keeps_measure db_step "\<lambda>d. int (length (db_fills d))"
  by unfold_locales (use db_step_history in \<open>fastforce simp: history_def extends_def\<close>)

section \<open>The methods of the crate\<close>

lemma one_step: "(\<And>d a d'. s d = Inr (a, d') \<Longrightarrow> db_step d d') \<Longrightarrow> runs.conforms s"
  by (rule runs.conformsI) blast

lemma steps_conform:
  "runs.conforms (insert_user_stmt i e p)" "runs.conforms (audit_stmt u ac en ei me)"
  "runs.conforms (claim_key_stmt now k)" "runs.conforms (complete_key_stmt k resp)"
  "runs.conforms (expire_stmt now)" "runs.conforms (insert_market_stmt i now t de ra)"
  "runs.conforms (update_markets m g (row_status s))" "runs.conforms (next_sequence_stmt m)"
  "runs.conforms (credit_stmt v amt)" "runs.conforms (reserve_stmt v amt)"
  "runs.conforms (release_stmt v amt)" "runs.conforms (apply_fill_stmt b v amt)"
  "runs.conforms (settle_stmt now m oc ps)" "runs.conforms (deposit_stmt v amt ref)"
  "runs.conforms (insert_order_stmt o')" "runs.conforms (update_orders m h (row_fill now st n))"
  "runs.conforms (update_orders m h (row_cancel now))" "runs.conforms (place_order_stmt o' cost)"
  "runs.conforms (insert_fill_stmt f)" "runs.conforms (record_position_stmt fi v m delta)"
  "runs.conforms (create_withdrawal_stmt i now v amt)" "runs.conforms (approve_stmt now i admin)"
  "runs.conforms (reject_stmt now i admin)"
  by (rule one_step, erule db_step.intros)+

text \<open>Reading statements, written out because they may also fail.\<close>

lemma read_conforms: "(\<And>d a d'. s d = Inr (a, d') \<Longrightarrow> d' = d) \<Longrightarrow> runs.conforms s"
  by (rule runs.conformsI) (metis rtranclp.rtrancl_refl)

lemma fetch_conforms:
  "runs.conforms (\<lambda>d. case q d of None \<Rightarrow> Inl e | Some r \<Rightarrow> Inr (f r, d))"
  by (rule read_conforms) (auto split: option.splits)

lemmas conform = fetch_conforms runs.io_rules runs.conforms_rules steps_conform

lemma insufficient_conforms: "runs.io_conforms (insufficient u amt)"
  unfolding insufficient_def get_balance_def by (intro conform)

lemma balance_methods_conform:
  "runs.io_conforms (get_balance u)" "runs.io_conforms (credit_balance u amt)"
  "runs.io_conforms (reserve_balance u amt)" "runs.io_conforms (release_reservation u amt)"
  "runs.io_conforms (apply_fill_balances u v amt)" "runs.io_conforms (record_deposit u amt ref)"
  "runs.io_conforms (apply_settlement_payouts now m oc ps)"
  unfolding get_balance_def credit_balance_def reserve_balance_def release_reservation_def
    apply_fill_balances_def record_deposit_def apply_settlement_payouts_def
  by (auto intro!: conform insufficient_conforms)

lemma market_methods_conform:
  "runs.io_conforms (insert_market i now t de ra)" "runs.io_conforms (get_market m)"
  "runs.io_conforms (list_markets st)" "runs.io_conforms (set_market_status m s)"
  "runs.io_conforms (next_sequence m)"
  unfolding insert_market_def get_market_def list_markets_def set_market_status_def next_sequence_def
  by (auto intro!: conform split: option.splits)

lemma order_methods_conform:
  "runs.io_conforms (insert_order o')" "runs.io_conforms (get_order oi)"
  "runs.io_conforms (update_order_fill now oi st q)" "runs.io_conforms (cancel_order now oi u)"
  "runs.io_conforms (place_order_atomic o' amt)" "runs.io_conforms (list_user_orders u m lim)"
  unfolding insert_order_def get_order_def update_order_fill_def cancel_order_def
    place_order_atomic_def list_user_orders_def order_or_missing_def Let_def
  by (auto intro!: conform insufficient_conforms intro: read_conforms
      split: option.splits place_result.splits)

lemma fill_methods_conform:
  "runs.io_conforms (insert_fill_dedup f)" "runs.io_conforms (list_fills q m lim)"
  "runs.io_conforms (record_position_change fi u m delta)" "runs.io_conforms (get_user_positions q m)"
  "runs.io_conforms (get_position_for_user q u m)"
  unfolding insert_fill_dedup_def list_fills_def record_position_change_def get_user_positions_def
    get_position_for_user_def Let_def
  by (auto intro!: conform intro: read_conforms split: option.splits sum.splits if_splits)

lemma user_methods_conform:
  "runs.io_conforms (insert_user i e p)" "runs.io_conforms (get_user_by_email e)"
  "runs.io_conforms (get_user_by_id u)" "runs.io_conforms (audit ou ac en ei me)"
  "runs.io_conforms (claim_idempotency_key now u key)"
  "runs.io_conforms (complete_idempotency_key u key resp)"
  "runs.io_conforms (get_idempotency_response u key)" "runs.io_conforms (expire_idempotency_keys now)"
  unfolding insert_user_def get_user_by_email_def get_user_by_id_def audit_def
    claim_idempotency_key_def complete_idempotency_key_def get_idempotency_response_def
    expire_idempotency_keys_def user_or_missing_def
  by (auto intro!: conform intro: read_conforms split: option.splits)

lemma withdrawal_methods_conform:
  "runs.io_conforms (create_withdrawal i now u amt)" "runs.io_conforms (approve_withdrawal now i u)"
  "runs.io_conforms (reject_withdrawal now i u)" "runs.io_conforms (list_withdrawals ou st lim)"
  unfolding create_withdrawal_def approve_withdrawal_def reject_withdrawal_def list_withdrawals_def
    Let_def
  by (auto intro!: conform insufficient_conforms intro: read_conforms split: option.splits)

lemmas methods_conform = balance_methods_conform market_methods_conform order_methods_conform
  fill_methods_conform user_methods_conform withdrawal_methods_conform

text \<open>What a computation made of these methods inherits.\<close>

lemma io_keeps_ok: "runs.io_conforms m \<Longrightarrow> m w = (r, w') \<Longrightarrow> db_ok (w_db w) \<Longrightarrow> db_ok (w_db w')"
  by (blast dest: runs.io_conformsD ledger.run_keeps)

lemma io_keeps_history: "runs.io_conforms m \<Longrightarrow> m w = (r, w') \<Longrightarrow> history (w_db w) (w_db w')"
  by (blast dest: runs.io_conformsD run_history)

section \<open>A concrete database\<close>

text \<open>Two users with money, an administrator, one open market and one resting order, for the witnesses.\<close>

definition sample_order :: order where
  "sample_order =
     \<lparr>ord_id = OrderId 21, ord_market_id = MarketId 7, ord_user_id = UserId 1, ord_side = Buy,
      ord_kind = LimitOrder, ord_price = Some (Price 6500), ord_quantity = Quantity 100,
      ord_filled = Quantity 0, ord_status = OrdOpen, ord_sequence = 1, ord_created_at = 0,
      ord_updated_at = 0\<rparr>"

definition sample_market :: market_row where
  "sample_market =
     \<lparr>mrow_id = 7, mrow_title = ''rain'', mrow_description = '''', mrow_status = MktOpen,
      mrow_created_at = 0, mrow_resolves_at = None, mrow_settled_at = None, mrow_outcome = None\<rparr>"

definition sample_fill :: fill where
  "sample_fill =
     \<lparr>fill_id = FillId 31, fill_market_id = MarketId 7, fill_maker_order_id = OrderId 21,
      fill_taker_order_id = OrderId 21, fill_maker_user_id = UserId 1, fill_taker_user_id = UserId 2,
      fill_price = Price 6500, fill_quantity = Quantity 100, fill_aggressor = Buy, fill_sequence = 1,
      fill_filled_at = 0, fill_transaction_id = None\<rparr>"

definition sample_users :: "user_row list" where
  "sample_users =
     map (\<lambda>(i, e). \<lparr>usr_id = i, usr_email = e, usr_password_hash = '''', usr_is_admin = False\<rparr>)
       [(1, ''a''), (2, ''b''), (9, ''root'')]"

definition sample_db :: db where
  "sample_db = empty_db
     \<lparr>db_users := sample_users,
      db_balances :=
        [\<lparr>bal_user = 1, bal_available = 1000, bal_reserved = 65, bal_version = 0\<rparr>,
         \<lparr>bal_user = 2, bal_available = 500, bal_reserved = 0, bal_version = 0\<rparr>],
      db_markets := [sample_market],
      db_orders := [row_of_order sample_order]\<rparr>"

text \<open>The same after one fill whose position changes are recorded.\<close>

definition traded_db :: db where
  "traded_db = sample_db
     \<lparr>db_fills := [row_of_fill sample_fill],
      db_positions :=
        [\<lparr>pos_fill = 31, pos_user = 2, pos_market = 7, pos_delta = 100\<rparr>,
         \<lparr>pos_fill = 31, pos_user = 1, pos_market = 7, pos_delta = - 100\<rparr>]\<rparr>"

lemmas sample_defs = sample_order_def sample_market_def sample_fill_def sample_users_def sample_db_def
  traded_db_def empty_db_def row_of_order_def row_of_fill_def

lemma sample_db_ok: "db_ok sample_db"
  by (simp add: db_ok_def users_ok_def markets_ok_def balances_ok_def orders_ok_def fills_ok_def
      positions_ok_def withdrawals_ok_def idem_ok_def sample_defs balance_ok_def i64_ok_def
      order_check_def market_exists_def user_exists_def)

lemma traded_db_ok: "db_ok traded_db"
  by (simp add: db_ok_def users_ok_def markets_ok_def balances_ok_def orders_ok_def fills_ok_def
      positions_ok_def withdrawals_ok_def idem_ok_def sample_defs balance_ok_def i64_ok_def
      order_check_def market_exists_def user_exists_def fill_check_def fill_refs_def order_exists_def
      fill_exists_def)

end
