(* ===== verification/Messaging.thy ===== *)
theory Messaging
  imports Common_Types
begin

text \<open>
  \<open>messaging/src/lib.rs\<close>: the binary messages for orders and cancellations, and the fill events the engine
  sends back. \<open>engine_decode\<close> is how the C++ engine reads a message (\<open>Engine::dispatch\<close> of
  \<open>engine/src/main.cpp\<close>). The bytes of a UUID belong to the \<open>uuid\<close> crate and to \<open>uuid.hpp\<close>: they are
  parameters, with the law that a UUID is 16 bytes that can be read back. JSON parsing is a parameter.
  The theorems show that the two sides agree: every field arrives, whatever its value.
\<close>

section \<open>Little-endian integers\<close>

fun le_bytes :: "nat \<Rightarrow> nat \<Rightarrow> u8 list" where
  "le_bytes 0 x = []"
| "le_bytes (Suc n) x = word_of_nat (x mod 256) # le_bytes n (x div 256)"

fun le_value :: "u8 list \<Rightarrow> nat" where
  "le_value [] = 0"
| "le_value (b # bs) = unat b + 256 * le_value bs"

definition u32_to_le_bytes :: "u32 \<Rightarrow> u8 list" where
  "u32_to_le_bytes x = le_bytes 4 (unat x)"

definition u64_to_le_bytes :: "u64 \<Rightarrow> u8 list" where
  "u64_to_le_bytes x = le_bytes 8 (unat x)"

text \<open>\<open>read_u32_le\<close> and \<open>read_u64_le\<close> of \<open>engine/include/wire.hpp\<close>, at an offset of the message.\<close>

definition read_u32_le :: "nat \<Rightarrow> u8 list \<Rightarrow> u32" where
  "read_u32_le at data = word_of_nat (le_value (take 4 (drop at data)))"

definition read_u64_le :: "nat \<Rightarrow> u8 list \<Rightarrow> u64" where
  "read_u64_le at data = word_of_nat (le_value (take 8 (drop at data)))"

lemma length_le_bytes [simp]: "length (le_bytes n x) = n"
  by (induction n arbitrary: x) auto

lemma le_value_le_bytes: "le_value (le_bytes n x) = x mod 256 ^ n"
proof (induction n arbitrary: x)
  case (Suc n)
  have "unat (word_of_nat (x mod 256) :: u8) = x mod 256"
    by (simp add: unat_of_nat)
  with Suc show ?case by (simp add: mod_mult2_eq)
qed simp

lemma read_u32: "read_u32_le (length pre) (pre @ u32_to_le_bytes x @ rest) = x"
  using unat_bound [of x] by (simp add: read_u32_le_def u32_to_le_bytes_def le_value_le_bytes)

lemma read_u64: "read_u64_le (length pre) (pre @ u64_to_le_bytes x @ rest) = x"
  using unat_bound [of x] by (simp add: read_u64_le_def u64_to_le_bytes_def le_value_le_bytes)

section \<open>Messages to the engine\<close>

record engine_order_msg =
  eom_order_id :: order_id
  eom_market_id :: market_id
  eom_user_id :: user_id
  eom_side :: side
  eom_price :: u32
  eom_quantity :: u64
  eom_sequence :: u64
  eom_is_market :: bool

record engine_cancel_msg =
  ecm_order_id :: order_id
  ecm_market_id :: market_id
  ecm_sequence :: u64

definition encode_order_msg :: "(uuid \<Rightarrow> u8 list) \<Rightarrow> engine_order_msg \<Rightarrow> u8 list" where
  "encode_order_msg as_bytes msg =
     [1] @ as_bytes (order_uuid (eom_order_id msg)) @ as_bytes (market_uuid (eom_market_id msg))
     @ as_bytes (user_uuid (eom_user_id msg))
     @ [if eom_side msg = Buy then 0 else 1] @ [if eom_is_market msg then 1 else 0]
     @ u32_to_le_bytes (eom_price msg) @ u64_to_le_bytes (eom_quantity msg)
     @ u64_to_le_bytes (eom_sequence msg)"

definition encode_cancel_msg :: "(uuid \<Rightarrow> u8 list) \<Rightarrow> engine_cancel_msg \<Rightarrow> u8 list" where
  "encode_cancel_msg as_bytes msg =
     [2] @ as_bytes (order_uuid (ecm_order_id msg)) @ as_bytes (market_uuid (ecm_market_id msg))
     @ u64_to_le_bytes (ecm_sequence msg)"

text \<open>What the engine makes of a message: an order, a cancellation, or nothing.\<close>

datatype engine_command =
    AddOrder engine_order_msg
  | CancelOrder engine_cancel_msg

definition engine_decode :: "(u8 list \<Rightarrow> uuid) \<Rightarrow> u8 list \<Rightarrow> engine_command option" where
  "engine_decode from_bytes data =
     (if length data < 1 then None
      else if data ! 0 = 1 \<and> 71 \<le> length data then
        Some (AddOrder
          \<lparr>eom_order_id = OrderId (from_bytes (take 16 (drop 1 data))),
           eom_market_id = MarketId (from_bytes (take 16 (drop 17 data))),
           eom_user_id = UserId (from_bytes (take 16 (drop 33 data))),
           eom_side = (if data ! 49 = 0 then Buy else Sell),
           eom_price = read_u32_le 51 data,
           eom_quantity = read_u64_le 55 data,
           eom_sequence = read_u64_le 63 data,
           eom_is_market = (data ! 50 \<noteq> 0)\<rparr>)
      else if data ! 0 = 2 \<and> 41 \<le> length data then
        Some (CancelOrder
          \<lparr>ecm_order_id = OrderId (from_bytes (take 16 (drop 1 data))),
           ecm_market_id = MarketId (from_bytes (take 16 (drop 17 data))),
           ecm_sequence = read_u64_le 33 data\<rparr>)
      else None)"

text \<open>The law of the byte form of a UUID, and the byte form both libraries document: big endian.\<close>

definition uuid_octets :: "(uuid \<Rightarrow> u8 list) \<Rightarrow> (u8 list \<Rightarrow> uuid) \<Rightarrow> bool" where
  "uuid_octets as_bytes from_bytes \<longleftrightarrow>
     (\<forall>u. length (as_bytes u) = 16 \<and> from_bytes (as_bytes u) = u)"

definition be_octets :: "uuid \<Rightarrow> u8 list" where
  "be_octets u = rev (le_bytes 16 (unat u))"

definition of_be_octets :: "u8 list \<Rightarrow> uuid" where
  "of_be_octets bs = word_of_nat (le_value (rev bs))"

lemma be_octets_law: "uuid_octets be_octets of_be_octets"
  using unat_bound [where 'a = 128]
  by (simp add: uuid_octets_def be_octets_def of_be_octets_def le_value_le_bytes)

section \<open>Fill events\<close>

record engine_fill_event =
  ev_fill_id :: uuid
  ev_market_id :: uuid
  ev_maker_order_id :: uuid
  ev_taker_order_id :: uuid
  ev_maker_user_id :: uuid
  ev_taker_user_id :: uuid
  ev_price :: u32
  ev_quantity :: u64
  ev_aggressor_side :: string
  ev_sequence :: u64
  ev_timestamp_ns :: u64

definition ev_aggressor :: "engine_fill_event \<Rightarrow> side" where
  "ev_aggressor e = (if ev_aggressor_side e = ''buy'' then Buy else Sell)"

definition decode_fill_event ::
  "(u8 list \<Rightarrow> (string, engine_fill_event) sum) \<Rightarrow> u8 list \<Rightarrow> engine_fill_event option" where
  "decode_fill_event from_json data =
     (case from_json data of Inl _ \<Rightarrow> None | Inr e \<Rightarrow> Some e)"

text \<open>\<open>publish_order\<close>: the subject and the payload handed to the NATS client, which may refuse them.\<close>

type_synonym publish = "string \<Rightarrow> u8 list \<Rightarrow> string + unit"

definition publish_order ::
  "(uuid \<Rightarrow> u8 list) \<Rightarrow> publish \<Rightarrow> string \<Rightarrow> engine_order_msg \<Rightarrow> unit app_result" where
  "publish_order as_bytes client order_subject msg =
     (case client order_subject (encode_order_msg as_bytes msg) of
        Inl e \<Rightarrow> Inl (Messaging [Foreign e]) | Inr () \<Rightarrow> Inr ())"

definition publish_cancel ::
  "(uuid \<Rightarrow> u8 list) \<Rightarrow> publish \<Rightarrow> string \<Rightarrow> engine_cancel_msg \<Rightarrow> unit app_result" where
  "publish_cancel as_bytes client order_subject msg =
     (case client order_subject (encode_cancel_msg as_bytes msg) of
        Inl e \<Rightarrow> Inl (Messaging [Foreign e]) | Inr () \<Rightarrow> Inr ())"

section \<open>The two sides agree\<close>

lemma length_encode_order:
  "uuid_octets as_bytes from_bytes \<Longrightarrow> length (encode_order_msg as_bytes msg) = 71"
  by (simp add: encode_order_msg_def uuid_octets_def u32_to_le_bytes_def u64_to_le_bytes_def)

lemma length_encode_cancel:
  "uuid_octets as_bytes from_bytes \<Longrightarrow> length (encode_cancel_msg as_bytes msg) = 41"
  by (simp add: encode_cancel_msg_def uuid_octets_def u64_to_le_bytes_def)

lemma decode_encode:
  assumes "uuid_octets as_bytes from_bytes"
  shows "engine_decode from_bytes (encode_order_msg as_bytes o') = Some (AddOrder o')"
    and "engine_decode from_bytes (encode_cancel_msg as_bytes c) = Some (CancelOrder c)"
    and "length (encode_order_msg as_bytes o') = 71" and "length (encode_cancel_msg as_bytes c) = 41"
proof -
  from assms have len [simp]: "length (as_bytes u) = 16" and inv [simp]: "from_bytes (as_bytes u) = u" for u
    by (simp_all add: uuid_octets_def)
  let ?o = "encode_order_msg as_bytes o'"
  define a where "a = as_bytes (order_uuid (eom_order_id o'))"
  define b where "b = as_bytes (market_uuid (eom_market_id o'))"
  define u where "u = as_bytes (user_uuid (eom_user_id o'))"
  define fl where "fl = [if eom_side o' = Buy then 0 else 1 :: u8, if eom_is_market o' then 1 else 0]"
  have parts: "length a = 16" "length b = 16" "length u = 16" "length fl = 2"
    by (simp_all add: a_def b_def u_def fl_def)
  have o: "?o = (1 # a @ b @ u @ fl) @ u32_to_le_bytes (eom_price o') @
      u64_to_le_bytes (eom_quantity o') @ u64_to_le_bytes (eom_sequence o')"
    by (simp add: encode_order_msg_def a_def b_def u_def fl_def)
  have p: "read_u32_le 51 ?o = eom_price o'"
    using read_u32 [of "1 # a @ b @ u @ fl"] unfolding o by (simp add: parts)
  have q: "read_u64_le 55 ?o = eom_quantity o'"
    using read_u64 [of "(1 # a @ b @ u @ fl) @ u32_to_le_bytes (eom_price o')"] unfolding o
    by (simp add: parts u32_to_le_bytes_def)
  have s: "read_u64_le 63 ?o = eom_sequence o'"
    using read_u64 [of "(1 # a @ b @ u @ fl) @ u32_to_le_bytes (eom_price o') @ u64_to_le_bytes (eom_quantity o')"
        "eom_sequence o'" "[]"]
    unfolding o by (simp add: parts u32_to_le_bytes_def u64_to_le_bytes_def)
  have flags: "?o ! 49 = fl ! 0" "?o ! 50 = fl ! 1" "?o ! 0 = 1"
    unfolding o by (simp_all add: nth_append parts nth_Cons')
  have ids: "take 16 (drop 1 ?o) = a" "take 16 (drop 17 ?o) = b" "take 16 (drop 33 ?o) = u"
    unfolding o by (simp_all add: parts drop_Cons')
  show len_o: "length ?o = 71" using length_encode_order [OF assms] .
  show "engine_decode from_bytes ?o = Some (AddOrder o')"
    using len_o unfolding engine_decode_def flags ids p q s
    by (cases o'; cases "eom_side o'") (auto simp: a_def b_def u_def fl_def)
  let ?c = "encode_cancel_msg as_bytes c"
  show len_c: "length ?c = 41" using length_encode_cancel [OF assms] .
  have c: "?c = (2 # as_bytes (order_uuid (ecm_order_id c)) @ as_bytes (market_uuid (ecm_market_id c)))
      @ u64_to_le_bytes (ecm_sequence c) @ []"
    by (simp add: encode_cancel_msg_def)
  have cs: "read_u64_le 33 ?c = ecm_sequence c"
    using read_u64 [of "2 # as_bytes (order_uuid (ecm_order_id c)) @ as_bytes (market_uuid (ecm_market_id c))"
        "ecm_sequence c" "[]"] unfolding c by simp
  have cids: "take 16 (drop 1 ?c) = as_bytes (order_uuid (ecm_order_id c))"
    "take 16 (drop 17 ?c) = as_bytes (market_uuid (ecm_market_id c))" "?c ! 0 = 2"
    unfolding c by (simp_all add: drop_Cons')
  show "engine_decode from_bytes ?c = Some (CancelOrder c)"
    using len_c unfolding engine_decode_def cs cids
    by (cases c) auto
qed

text \<open>
  C32: The engine reads back exactly the order the API encoded, every identifier, both flags and all three
  integers at their full range, and exactly the cancellation; the messages have the 71 and 41 bytes it asks for.
\<close>
theorem engine_decodes_messages:
  assumes "uuid_octets as_bytes from_bytes"
  shows "engine_decode from_bytes (encode_order_msg as_bytes o') = Some (AddOrder o') \<and>
    engine_decode from_bytes (encode_cancel_msg as_bytes c) = Some (CancelOrder c) \<and>
    length (encode_order_msg as_bytes o') = 71 \<and> length (encode_cancel_msg as_bytes c) = 41"
  by (intro conjI decode_encode [OF assms])

lemma engine_decodes_messages_witness:
  "engine_decode of_be_octets (encode_cancel_msg be_octets
     \<lparr>ecm_order_id = OrderId 5, ecm_market_id = MarketId 7, ecm_sequence = 18446744073709551615\<rparr>) =
   Some (CancelOrder \<lparr>ecm_order_id = OrderId 5, ecm_market_id = MarketId 7,
     ecm_sequence = 18446744073709551615\<rparr>)"
  using engine_decodes_messages [OF be_octets_law] by simp

end
