(* ===== verification/Fill_Processor.thy ===== *)
theory Fill_Processor
  imports Db_Ledger Messaging
begin

text \<open>
  \<open>positions/src/lib.rs\<close> and \<open>positions/src/processor.rs\<close>: a fill event becomes a fill row, moves money,
  changes two positions and updates two orders, each in a statement or transaction of its own. The second
  file adds a queue of failed events that are processed again up to \<open>DLQ_RETRY_COUNT\<close> times; its workers
  and its queue are a step relation. The theorems give what one undisturbed event does, that an event
  counts at most once however often it is delivered, what a lost request after the insert does to the money, and
  the bounds and the blocking of the retry queue.
\<close>

section \<open>Processing one event\<close>

definition event_fill :: "datetime \<Rightarrow> engine_fill_event \<Rightarrow> fill" where
  "event_fill now e =
     \<lparr>fill_id = FillId (ev_fill_id e), fill_market_id = MarketId (ev_market_id e),
      fill_maker_order_id = OrderId (ev_maker_order_id e),
      fill_taker_order_id = OrderId (ev_taker_order_id e),
      fill_maker_user_id = UserId (ev_maker_user_id e),
      fill_taker_user_id = UserId (ev_taker_user_id e),
      fill_price = Price (ev_price e), fill_quantity = Quantity (ev_quantity e),
      fill_aggressor = ev_aggressor e, fill_sequence = ev_sequence e, fill_filled_at = now,
      fill_transaction_id = None\<rparr>"

text \<open>\<open>(price as i64).checked_mul(quantity as i64).and_then(|v| v.checked_div(10_000)).unwrap_or(0)\<close>\<close>

definition fill_cost :: "price \<Rightarrow> quantity \<Rightarrow> i64" where
  "fill_cost p q =
     (case i64_checked_mul (ucast (price_raw p)) (quantity_raw q) of
        None \<Rightarrow> 0
      | Some v \<Rightarrow> (case i64_checked_div v 10000 of None \<Rightarrow> 0 | Some c \<Rightarrow> c))"

text \<open>The loop of \<open>update_orders\<close>: whatever fails is logged, and the next order is tried.\<close>

definition new_filled :: "order \<Rightarrow> fill \<Rightarrow> quantity" where
  "new_filled o' f =
     Quantity (u64_saturating_add (quantity_raw (ord_filled o')) (quantity_raw (fill_quantity f)))"

definition status_after :: "order \<Rightarrow> quantity \<Rightarrow> order_status" where
  "status_after o' filled =
     (if quantity_raw (ord_quantity o') \<le> quantity_raw filled then OrdFilled else OrdPartial)"

definition update_order :: "datetime \<Rightarrow> fill \<Rightarrow> order_id \<Rightarrow> unit io" where
  "update_order now f i =
     io_catch (get_order i) (\<lambda>r.
       case r of
         Inl e \<Rightarrow> io_return ()
       | Inr o' \<Rightarrow>
           io_catch (update_order_fill now i (status_after o' (new_filled o' f)) (new_filled o' f))
             (\<lambda>_. io_return ()))"

definition update_fill_orders :: "datetime \<Rightarrow> fill \<Rightarrow> unit io" where
  "update_fill_orders now f =
     io_iterate (update_order now f) [fill_maker_order_id f, fill_taker_order_id f]"

text \<open>What \<open>process\<close> does once the fill row is inserted.\<close>

definition apply_fill :: "datetime \<Rightarrow> fill \<Rightarrow> unit io" where
  "apply_fill now f =
     io_bind (apply_fill_balances (fill_taker_user_id f) (fill_maker_user_id f)
               (fill_cost (fill_price f) (fill_quantity f))) (\<lambda>_.
     io_bind (record_position_change (fill_id f) (fill_taker_user_id f) (fill_market_id f)
               (quantity_raw (fill_quantity f))) (\<lambda>_.
     io_bind (record_position_change (fill_id f) (fill_maker_user_id f) (fill_market_id f)
               (- quantity_raw (fill_quantity f))) (\<lambda>_.
     update_fill_orders now f)))"

definition process_fill :: "datetime \<Rightarrow> engine_fill_event \<Rightarrow> unit io" where
  "process_fill now e =
     (let f = event_fill now e in
      io_bind (insert_fill_dedup f) (\<lambda>out.
        case out of
          Duplicate \<Rightarrow> io_return ()
        | Inserted \<Rightarrow> apply_fill now f))"

text \<open>The loop of \<open>run_loop\<close> over the payloads of the subscription; a failed event is only logged.\<close>

definition handle_payload ::
  "(u8 list \<Rightarrow> (string, engine_fill_event) sum) \<Rightarrow> datetime \<Rightarrow> u8 list \<Rightarrow> unit io" where
  "handle_payload from_json now payload =
     (case decode_fill_event from_json payload of
        None \<Rightarrow> io_return ()
      | Some e \<Rightarrow> io_catch (process_fill now e) (\<lambda>_. io_return ()))"

definition run_loop ::
  "(u8 list \<Rightarrow> (string, engine_fill_event) sum) \<Rightarrow> (datetime \<times> u8 list) list \<Rightarrow> unit io" where
  "run_loop from_json msgs = io_iterate (\<lambda>(now, p). handle_payload from_json now p) msgs"

lemma apply_fill_conform: "runs.io_conforms (apply_fill now f)"
  unfolding apply_fill_def update_fill_orders_def update_order_def
  by (auto intro!: conform methods_conform split: sum.splits)

lemma process_fill_conform: "runs.io_conforms (process_fill now e)"
  unfolding process_fill_def Let_def
  by (auto intro!: conform methods_conform apply_fill_conform split: insert_fill_outcome.splits)

lemma run_loop_conform: "runs.io_conforms (run_loop from_json msgs)"
  unfolding run_loop_def handle_payload_def
  by (auto intro!: conform process_fill_conform split: option.splits)

section \<open>The cost of a fill\<close>

lemma ucast_price: "sint (ucast (p :: u32) :: i64) = int (unat p)"
proof -
  have lt: "unat p < 2 ^ 32" using unat_bound [of p] by simp
  have u: "unat (ucast p :: u64) = unat p"
    using lt by (simp add: unsigned_ucast_eq take_bit_eq_mod)
  then show ?thesis using sint_eq_unat [of "ucast p"] lt by simp
qed

lemma i64_ok_div:
  assumes "0 \<le> x" and "x < 2 ^ 63"
  shows "i64_ok (x div 10000)"
proof -
  have "10000 * (x div 10000) + x mod 10000 = x" by simp
  moreover have "0 \<le> x mod 10000" by simp
  moreover have "0 \<le> x div 10000" using assms(1) by (simp add: pos_imp_zdiv_nonneg_iff)
  ultimately have "0 \<le> x div 10000" and "x div 10000 \<le> x" by linarith+
  with assms(2) show ?thesis unfolding i64_ok_def by linarith
qed

text \<open>Price times quantity over ten thousand; zero when the product does not fit \<open>i64\<close>.\<close>

lemma fill_cost_value:
  assumes "0 \<le> sint (quantity_raw q)"
  shows "sint (fill_cost p q) =
    (if int (unat (price_raw p)) * sint (quantity_raw q) < 2 ^ 63
     then int (unat (price_raw p)) * sint (quantity_raw q) div 10000 else 0)"
proof (cases "int (unat (price_raw p)) * sint (quantity_raw q) < 2 ^ 63")
  case False
  then show ?thesis
    by (simp add: fill_cost_def i64_checked_mul_def ucast_price i64_ok_def)
next
  case True
  let ?x = "int (unat (price_raw p)) * sint (quantity_raw q)"
  have nn: "0 \<le> ?x" using assms by simp
  with True have ok: "i64_ok ?x" by (simp add: i64_ok_def)
  then obtain v where v: "i64_checked_mul (ucast (price_raw p)) (quantity_raw q) = Some v"
    by (simp add: i64_checked_mul_def ucast_price)
  from i64_checked_mul_Some [OF v] have sv: "sint v = ?x" by (simp add: ucast_price)
  have ten: "sint (10000 :: i64) = 10000" by simp
  have td: "trunc_div ?x 10000 = ?x div 10000" using nn by (simp add: trunc_div_nonneg)
  have "i64_ok (?x div 10000)" using nn True by (rule i64_ok_div)
  then show ?thesis
    using True v sv td ten by (simp add: fill_cost_def i64_checked_div_def)
qed

text \<open>A \<open>u64\<close> from \<open>2 ^ 63\<close> on is a negative \<open>i64\<close>.\<close>

lemma i64_ok_wrap: "\<not> n < 2 ^ 63 \<Longrightarrow> n < 2 ^ 64 \<Longrightarrow> i64_ok (int n - 2 ^ 64) \<and> int n - 2 ^ 64 < 0"
  by (simp add: i64_ok_def)

lemma sint_wrapped:
  fixes w :: u64
  assumes "\<not> unat w < 2 ^ 63"
  shows "sint w = int (unat w) - 2 ^ 64"
proof -
  have "w = i64_of (int (unat w) - 2 ^ 64)"
    by (simp add: i64_of_def wi_hom_syms [symmetric])
  moreover have "i64_ok (int (unat w) - 2 ^ 64) \<and> int (unat w) - 2 ^ 64 < 0"
    by (rule i64_ok_wrap [OF assms]) (use unat_bound [of w] in simp)
  ultimately show ?thesis by (metis sint_i64_of)
qed

lemma wrapped_distance: "0 \<le> 2 ^ 64 - int (unat (w :: u64))"
  using uint_lt2p [of w] by simp

lemma trunc_div_neg: "0 \<le> a \<Longrightarrow> 0 < b \<Longrightarrow> trunc_div (- a) b = - (a div b)"
  by (cases "a = 0") (auto simp: trunc_div_def)

lemma negative_fits: "0 \<le> x \<Longrightarrow> i64_ok (- x) \<longleftrightarrow> x \<le> 2 ^ 63"
  by (auto simp: i64_ok_def)

lemma negative_div_fits:
  assumes "0 \<le> x" and "x \<le> 2 ^ 63"
  shows "i64_ok (- (x div 10000))"
proof -
  have "x div 10000 \<le> 2 ^ 63 div 10000" using assms(2) by (rule zdiv_mono1) simp
  moreover have "0 \<le> x div 10000" using assms(1) by (simp add: pos_imp_zdiv_nonneg_iff)
  ultimately show ?thesis by (simp add: i64_ok_def)
qed

text \<open>The cost of such a quantity is that of its distance to \<open>2 ^ 64\<close>, with a negative sign.\<close>

lemma fill_cost_wrapped:
  assumes "\<not> unat (quantity_raw q) < 2 ^ 63"
  shows "sint (fill_cost p q) =
    (if int (unat (price_raw p)) * (2 ^ 64 - int (unat (quantity_raw q))) \<le> 2 ^ 63
     then - (int (unat (price_raw p)) * (2 ^ 64 - int (unat (quantity_raw q))) div 10000) else 0)"
proof -
  let ?x = "int (unat (price_raw p)) * (2 ^ 64 - int (unat (quantity_raw q)))"
  have "0 \<le> 2 ^ 64 - int (unat (quantity_raw q))" by (rule wrapped_distance)
  then have nn: "0 \<le> ?x" by (rule mult_nonneg_nonneg [rotated]) simp
  have prod: "sint (ucast (price_raw p) :: i64) * sint (quantity_raw q) = - ?x"
    by (simp add: ucast_price sint_wrapped [OF assms] algebra_simps)
  note fits = negative_fits [OF nn]
  show ?thesis
  proof (cases "?x \<le> 2 ^ 63")
    case False
    then have "i64_checked_mul (ucast (price_raw p)) (quantity_raw q) = None"
      using fits unfolding i64_checked_mul_def prod by simp
    with False show ?thesis by (simp add: fill_cost_def)
  next
    case True
    then obtain v where v: "i64_checked_mul (ucast (price_raw p)) (quantity_raw q) = Some v"
      using fits unfolding i64_checked_mul_def prod by simp
    from i64_checked_mul_Some [OF v] have sv: "sint v = - ?x" unfolding prod .
    have ten: "sint (10000 :: i64) = 10000" by simp
    have td: "trunc_div (- ?x) 10000 = - (?x div 10000)" by (rule trunc_div_neg [OF nn]) simp
    have "i64_ok (- (?x div 10000))" using nn True by (rule negative_div_fits)
    then have "sint (fill_cost p q) = - (?x div 10000)"
      unfolding fill_cost_def v option.case i64_checked_div_def sv ten td by simp
    with True show ?thesis by simp
  qed
qed

text \<open>The table of fills refuses them.\<close>

lemma wrapped_refused:
  assumes "\<not> unat (ev_quantity e) < 2 ^ 63"
  shows "\<nexists>r. insert_fill_stmt (event_fill now e) d = Inr r"
proof -
  have "sint (ev_quantity e) < 0"
    using sint_wrapped [OF assms] i64_ok_wrap [OF assms] unat_bound [of "ev_quantity e"] by simp
  then have "\<not> fill_check (row_of_fill (event_fill now e))"
    by (simp add: fill_check_def row_of_fill_def event_fill_def)
  then show ?thesis by (simp add: insert_fill_stmt_def stmt_write_def Let_def)
qed

section \<open>What one undisturbed event does\<close>

lemma update_balances_rows:
  assumes run: "update_balances u g f d = Inr (n, d')"
    and keeps: "\<forall>x x'. f x = Some x' \<longrightarrow> bal_user x' = bal_user x"
  shows "(find_balance d' v = None) = (find_balance d v = None)"
proof -
  from run obtain t where t: "sql_update (\<lambda>r. bal_user r = u \<and> g r) f (db_balances d) = Some t"
    and d': "d' = d\<lparr>db_balances := t\<rparr>"
    by (auto simp: update_balances_def stmt_write_def split: option.splits)
  have "keyed_rows bal_user f" by (rule keyed_rows.intro) (simp add: keeps)
  from keyed_rows.update_keys [OF this t] have eq: "set (map bal_user t) = set (map bal_user (db_balances d))"
    by simp
  have fn: "find (\<lambda>r. bal_user r = v) xs = None \<longleftrightarrow> v \<notin> set (map bal_user xs)" for xs
    by (induction xs) auto
  from eq show ?thesis unfolding find_balance_def d' by (simp add: fn del: set_map)
qed

lemma apply_fill_effect:
  assumes run: "apply_fill_stmt b s c d = Inr (x, d')" and ok: "balances_ok d" and c: "0 \<le> c"
  shows "avail d' v = avail d v + (if v = s \<and> find_balance d s \<noteq> None then c else 0) \<and>
    resv d' v = (let r = resv d v - (if v = b then min (resv d v) c else 0)
                 in r - (if v = s then min r c else 0))"
proof -
  from run obtain n1 n2 d1 where sp: "spend_stmt b c d = Inr (n1, d1)" and rl: "release_stmt s c d1 = Inr (n2, d')"
    by (rule spend_release_ok)
  have ok1: "balances_ok d1" by (rule update_balances_oks(3) [OF sp ok])
  have m1: "moves b 0 (- min (resv d b) c) d d1"
    using spend_effect [OF sp ok] c moves_refl [of b d] by (auto simp: resv_def)
  have rows: "(find_balance d1 s = None) = (find_balance d s = None)"
    by (rule update_balances_rows [OF sp [unfolded spend_stmt_def] row_keys(3)])
  show ?thesis
  proof (cases "find_balance d s = None")
    case True
    with rows release_effect [OF rl ok1] have "d' = d1" by auto
    moreover from True rows have "resv d1 s = 0" "resv d s = 0" by (simp_all add: resv_def)
    ultimately show ?thesis using m1 c True by (auto simp: moves_def Let_def)
  next
    case False
    with rows release_effect [OF rl ok1] have "moves s c (- min (resv d1 s) c) d1 d'" by auto
    with m1 False show ?thesis by (auto simp: moves_def Let_def)
  qed
qed

text \<open>One order after a fill: the new amount and status, or nothing when it would be overfilled.\<close>

lemma get_order_online:
  "get_order i (online d) =
     (case find_order d (order_uuid i) of
        None \<Rightarrow> (Inl (OrderNotFound [UuidText (order_uuid i)]), online d)
      | Some r \<Rightarrow> (Inr (order_of_row r), online d))"
  by (auto simp: get_order_def order_or_missing_def io_defs db_run_online stmt_query_def split: option.splits)

lemma update_order_online:
  "\<exists>d'. update_order now f i (online d) = (Inr (), online d') \<and> (\<exists>t. d' = d\<lparr>db_orders := t\<rparr>)"
proof -
  have same: "\<exists>t. d = d\<lparr>db_orders := t\<rparr>" by (rule exI [of _ "db_orders d"]) simp
  show ?thesis
    using same by (auto simp: update_order_def io_defs get_order_online update_order_fill_def db_run_online
        split: option.splits sum.splits dest: update_orders_frame)
qed

lemma update_fill_orders_online:
  "\<exists>d'. update_fill_orders now f (online d) = (Inr (), online d') \<and> (\<exists>t. d' = d\<lparr>db_orders := t\<rparr>)"
proof -
  obtain d1 t1 where 1: "update_order now f (fill_maker_order_id f) (online d) = (Inr (), online d1)"
    "d1 = d\<lparr>db_orders := t1\<rparr>"
    using update_order_online [of now f "fill_maker_order_id f" d] by blast
  obtain d2 t2 where "update_order now f (fill_taker_order_id f) (online d1) = (Inr (), online d2)"
    "d2 = d1\<lparr>db_orders := t2\<rparr>"
    using update_order_online [of now f "fill_taker_order_id f" d1] by blast
  with 1 show ?thesis by (auto simp: update_fill_orders_def io_defs)
qed

lemma process_fill_success:
  assumes run: "process_fill now e (online d) = (Inr (), w')"
    and new: "\<not> fill_known d (fill_key (row_of_fill (event_fill now e)))"
  obtains d1 d2 d3 d4 t where
    "insert_fill_stmt (event_fill now e) d = Inr (Inserted, d1)"
    "apply_fill_stmt (ev_taker_user_id e) (ev_maker_user_id e)
       (sint (fill_cost (Price (ev_price e)) (Quantity (ev_quantity e)))) d1 = Inr ((), d2)"
    "record_position_stmt (ev_fill_id e) (ev_taker_user_id e) (ev_market_id e) (sint (ev_quantity e)) d2 = Inr ((), d3)"
    "record_position_stmt (ev_fill_id e) (ev_maker_user_id e) (ev_market_id e) (sint (- ev_quantity e)) d3 = Inr ((), d4)"
    "w' = online (d4\<lparr>db_orders := t\<rparr>)"
proof -
  from run new obtain d1 where ins: "insert_fill_stmt (event_fill now e) d = Inr (Inserted, d1)"
    and rest: "apply_fill now (event_fill now e) (online d1) = (Inr (), w')"
    by (auto simp: process_fill_def Let_def insert_fill_dedup_def io_defs db_run_online
        dest!: insert_fill_cases split: sum.splits insert_fill_outcome.splits)
  from rest obtain d2 d3 d4 where b:
    "apply_fill_stmt (ev_taker_user_id e) (ev_maker_user_id e)
       (sint (fill_cost (Price (ev_price e)) (Quantity (ev_quantity e)))) d1 = Inr ((), d2)"
    "record_position_stmt (ev_fill_id e) (ev_taker_user_id e) (ev_market_id e) (sint (ev_quantity e)) d2 = Inr ((), d3)"
    "record_position_stmt (ev_fill_id e) (ev_maker_user_id e) (ev_market_id e) (sint (- ev_quantity e)) d3 = Inr ((), d4)"
    and u: "update_fill_orders now (event_fill now e) (online d4) = (Inr (), w')"
    by (auto simp: apply_fill_def apply_fill_balances_def record_position_change_def io_defs db_run_online
        event_fill_def split: sum.splits prod.splits)
  from update_fill_orders_online [of now "event_fill now e" d4] u obtain t where
    "w' = online (d4\<lparr>db_orders := t\<rparr>)" by auto
  with ins b show ?thesis by (rule that)
qed

lemma fill_cost_nonneg:
  assumes "0 \<le> sint (quantity_raw q)"
  shows "0 \<le> sint (fill_cost p q)"
proof -
  have "0 \<le> int (unat (price_raw p)) * sint (quantity_raw q)" using assms by simp
  then show ?thesis by (simp add: fill_cost_value [OF assms] pos_imp_zdiv_nonneg_iff)
qed

lemma sint_negate: "0 < sint (q :: i64) \<Longrightarrow> sint (- q) = - sint q"
  by (rule sint_uminus_i64) simp

lemma event_row:
  "frow_quantity (row_of_fill (event_fill now e)) = sint (ev_quantity e)"
  "frow_id (row_of_fill (event_fill now e)) = ev_fill_id e"
  "fill_key (row_of_fill (event_fill now e)) = (ev_market_id e, sint (ev_sequence e))"
  by (simp_all add: row_of_fill_def event_fill_def fill_key_def)

text \<open>
  C1: An event that is not yet known and is processed without disturbance makes the fill known; the taker's
  position in the market grows by the quantity and the maker's shrinks by it, no other position changes;
  the taker's reserved money pays the cost (what is there, at most the cost), and the maker is credited
  the cost and loses it from the reserved money, whatever side the aggressor was on.
\<close>
theorem process_fill_moves_money_and_positions:
  assumes "process_fill now e (online d) = (Inr (), w')" and "db_ok d"
    and "\<not> fill_known d (ev_market_id e, sint (ev_sequence e))"
    and "c = sint (fill_cost (Price (ev_price e)) (Quantity (ev_quantity e)))"
  shows "\<exists>d'. w' = online d' \<and> fill_known d' (ev_market_id e, sint (ev_sequence e)) \<and>
    (\<forall>v m. net_position d' v m = net_position d v m +
       (if m = ev_market_id e then (if v = ev_taker_user_id e then sint (ev_quantity e) else 0)
          - (if v = ev_maker_user_id e then sint (ev_quantity e) else 0) else 0)) \<and>
    (\<forall>v. avail d' v = avail d v +
       (if v = ev_maker_user_id e \<and> find_balance d v \<noteq> None then c else 0)) \<and>
    (\<forall>v. resv d' v = (let r = resv d v - (if v = ev_taker_user_id e then min (resv d v) c else 0)
                      in r - (if v = ev_maker_user_id e then min r c else 0)))"
proof -
  from assms(3) have new: "\<not> fill_known d (fill_key (row_of_fill (event_fill now e)))"
    by (simp add: event_row)
  from assms(1) new show ?thesis
  proof (rule process_fill_success)
    fix d1 d2 d3 d4 t
    assume ins: "insert_fill_stmt (event_fill now e) d = Inr (Inserted, d1)"
      and money: "apply_fill_stmt (ev_taker_user_id e) (ev_maker_user_id e)
         (sint (fill_cost (Price (ev_price e)) (Quantity (ev_quantity e)))) d1 = Inr ((), d2)"
      and p1: "record_position_stmt (ev_fill_id e) (ev_taker_user_id e) (ev_market_id e) (sint (ev_quantity e)) d2 = Inr ((), d3)"
      and p2: "record_position_stmt (ev_fill_id e) (ev_maker_user_id e) (ev_market_id e) (sint (- ev_quantity e)) d3 = Inr ((), d4)"
      and w': "w' = online (d4\<lparr>db_orders := t\<rparr>)"
    from insert_fill_cases [OF ins] have d1: "d1 = d\<lparr>db_fills := db_fills d @ [row_of_fill (event_fill now e)]\<rparr>"
      and chk: "fill_check (row_of_fill (event_fill now e))" by auto
    from chk have q: "0 < sint (ev_quantity e)" by (simp add: fill_check_def event_row)
    have c: "0 \<le> c" unfolding assms(4) by (rule fill_cost_nonneg) (use q in simp)
    have ok1: "balances_ok d1" using assms(2) by (simp add: d1 db_ok_def balances_ok_def user_exists_def)
    note eff = apply_fill_effect [OF money [folded assms(4)] ok1 c]
    from apply_fill_frame [OF money] obtain b where d2: "d2 = d1\<lparr>db_balances := b\<rparr>" by blast
    from record_position_effect [OF p1] record_position_effect [OF p2] obtain ps where
      d4: "d4 = d2\<lparr>db_positions := ps\<rparr>" by auto
    let ?d' = "d4\<lparr>db_orders := t\<rparr>"
    have net: "net_position ?d' v m = net_position d4 v m" "net_position d2 v m = net_position d v m" for v m
      by (simp_all add: net_position_def d2 d1)
    have bal: "avail ?d' = avail d2" "resv ?d' = resv d2" "avail d1 = avail d" "resv d1 = resv d"
      "find_balance d1 = find_balance d"
      by (simp_all add: fun_eq_iff avail_def resv_def find_balance_def d4 d1)
    have "fill_known ?d' (ev_market_id e, sint (ev_sequence e))"
      by (simp add: fill_known_def d4 d2 d1 event_row)
    moreover have "net_position ?d' v m = net_position d v m +
       (if m = ev_market_id e then (if v = ev_taker_user_id e then sint (ev_quantity e) else 0)
          - (if v = ev_maker_user_id e then sint (ev_quantity e) else 0) else 0)" for v m
      using record_position_net [OF p1, of v m] record_position_net [OF p2, of v m]
      by (auto simp: net sint_negate [OF q])
    ultimately show ?thesis
      using w' eff bal by (intro exI [of _ ?d']) auto
  qed
qed

definition sample_event :: engine_fill_event where
  "sample_event =
     \<lparr>ev_fill_id = 31, ev_market_id = 7, ev_maker_order_id = 21, ev_taker_order_id = 21,
      ev_maker_user_id = 1, ev_taker_user_id = 2, ev_price = 6500, ev_quantity = 100,
      ev_aggressor_side = ''buy'', ev_sequence = 1, ev_timestamp_ns = 0\<rparr>"

lemma sample_event_processed: "succeeds (process_fill 3 sample_event) (online sample_db)"
  by code_simp

lemma process_fill_moves_money_and_positions_witness:
  "\<exists>d'. process_fill 3 sample_event (online sample_db) = (Inr (), online d') \<and>
     net_position d' 2 7 = 100 \<and> net_position d' 1 7 = - 100 \<and> avail d' 1 = 1065 \<and> resv d' 1 = 0"
proof -
  obtain w' where run: "process_fill 3 sample_event (online sample_db) = (Inr (), w')"
    using sample_event_processed by (rule succeedsE) auto
  have new: "\<not> fill_known sample_db (ev_market_id sample_event, sint (ev_sequence sample_event))"
    by (simp add: fill_known_def sample_defs)
  have "0 \<le> sint (quantity_raw (Quantity (ev_quantity sample_event)))"
    by (simp add: sample_event_def)
  from fill_cost_value [OF this, of "Price (ev_price sample_event)"]
  have cost: "65 = sint (fill_cost (Price (ev_price sample_event)) (Quantity (ev_quantity sample_event)))"
    by (simp add: sample_event_def)
  from process_fill_moves_money_and_positions [OF run sample_db_ok new cost] obtain d' where
    w': "w' = online d'"
    and n: "\<forall>v m. net_position d' v m = net_position sample_db v m +
       (if m = ev_market_id sample_event then (if v = ev_taker_user_id sample_event then sint (ev_quantity sample_event) else 0)
          - (if v = ev_maker_user_id sample_event then sint (ev_quantity sample_event) else 0) else 0)"
    and a: "\<forall>v. avail d' v = avail sample_db v +
       (if v = ev_maker_user_id sample_event \<and> find_balance sample_db v \<noteq> None then 65 else 0)"
    and r: "\<forall>v. resv d' v = (let r = resv sample_db v - (if v = ev_taker_user_id sample_event then min (resv sample_db v) 65 else 0)
                      in r - (if v = ev_maker_user_id sample_event then min r 65 else 0))" by blast
  have base: "net_position sample_db 2 7 = 0" "net_position sample_db 1 7 = 0" "avail sample_db 1 = 1000"
    "resv sample_db 1 = 65" "find_balance sample_db 1 \<noteq> None"
    by (simp_all add: net_position_def avail_def resv_def find_balance_def sample_defs)
  have "net_position d' 2 7 = 100" "net_position d' 1 7 = - 100"
    using n [rule_format, of 2 7] n [rule_format, of 1 7] base by (simp_all add: sample_event_def)
  moreover have "avail d' 1 = 1065"
    using a [rule_format, of 1] base(3,5) by (simp add: sample_event_def)
  moreover have "resv d' 1 = 0"
    using r [rule_format, of 1] base(4) by (simp add: sample_event_def)
  ultimately show ?thesis using run w' by blast
qed

section \<open>Deliveries\<close>

text \<open>
  The position changes of a fill are a beginning of its own pair: plus the quantity for the taker, then
  minus the quantity for the maker. Redelivered events and lost requests keep this.
\<close>

definition changes_of :: "db \<Rightarrow> uuid \<Rightarrow> pos_row list" where
  "changes_of d f = filter (\<lambda>r. pos_fill r = f) (db_positions d)"

definition fill_changes :: "fill_row \<Rightarrow> pos_row list" where
  "fill_changes r =
     [\<lparr>pos_fill = frow_id r, pos_user = frow_taker_user_id r, pos_market = frow_market_id r,
       pos_delta = frow_quantity r\<rparr>,
      \<lparr>pos_fill = frow_id r, pos_user = frow_maker_user_id r, pos_market = frow_market_id r,
       pos_delta = - frow_quantity r\<rparr>]"

definition positions_follow_fills :: "db \<Rightarrow> bool" where
  "positions_follow_fills d \<longleftrightarrow>
     (\<forall>r \<in> set (db_fills d). \<exists>n. changes_of d (frow_id r) = take n (fill_changes r))
     \<and> (\<forall>f. \<not> fill_exists d f \<longrightarrow> changes_of d f = [])"

lemma follow_cong:
  "db_fills d' = db_fills d \<Longrightarrow> db_positions d' = db_positions d \<Longrightarrow>
     positions_follow_fills d' = positions_follow_fills d"
  by (simp add: positions_follow_fills_def changes_of_def fill_exists_def)

text \<open>What can have happened to the database when \<open>process_fill\<close> ends, one way or the other.\<close>

lemma update_order_keeps:
  assumes "update_order now f i w = (r, w')"
  shows "\<exists>t. w_db w' = (w_db w)\<lparr>db_orders := t\<rparr>"
proof -
  have same: "\<exists>t. d = d\<lparr>db_orders := t\<rparr>" for d :: db by (rule exI [of _ "db_orders d"]) simp
  obtain r1 w1 where g: "get_order i w = (r1, w1)" by fastforce
  then have w1: "w_db w1 = w_db w"
    by (auto simp: get_order_def order_or_missing_def io_defs stmt_query_def db_run_def Let_def
        split: prod.splits sum.splits link.splits option.splits if_splits)
  show ?thesis
  proof (cases r1)
    case (Inl e)
    with assms g w1 same show ?thesis by (auto simp: update_order_def io_defs)
  next
    case (Inr o')
    with assms g obtain r2 s q where "update_order_fill now i s q w1 = (r2, w')"
      by (auto simp: update_order_def io_defs split: prod.splits)
    then obtain r3 where "db_run (update_orders (order_uuid i) (\<lambda>_. True) (row_fill now s (sint (quantity_raw q)))) w1 = (r3, w')"
      by (auto simp: update_order_fill_def io_defs split: prod.splits sum.splits)
    then show ?thesis
      by (cases rule: db_run_cases) (use w1 same in \<open>auto dest!: update_orders_frame\<close>)
  qed
qed

lemma update_fill_orders_keeps:
  assumes "update_fill_orders now f w = (r, w')"
  shows "\<exists>t. w_db w' = (w_db w)\<lparr>db_orders := t\<rparr>"
proof -
  obtain r1 w1 where 1: "update_order now f (fill_maker_order_id f) w = (r1, w1)" by fastforce
  obtain r2 w2 where 2: "update_order now f (fill_taker_order_id f) w1 = (r2, w2)" by fastforce
  have "w' = w1 \<or> w' = w2"
    using assms 1 2 by (auto simp: update_fill_orders_def io_defs split: sum.splits)
  with update_order_keeps [OF 1] update_order_keeps [OF 2] show ?thesis by fastforce
qed

lemma follow_insert:
  assumes "insert_fill_stmt f d = Inr (Inserted, d1)" and "positions_follow_fills d"
  shows "positions_follow_fills d1 \<and> changes_of d1 (frow_id (row_of_fill f)) = [] \<and>
    row_of_fill f \<in> set (db_fills d1) \<and> \<not> fill_exists d (frow_id (row_of_fill f))"
proof -
  let ?r = "row_of_fill f"
  from insert_fill_cases [OF assms(1)] have d1: "d1 = d\<lparr>db_fills := db_fills d @ [?r]\<rparr>"
    and new: "\<not> fill_exists d (frow_id ?r)" by auto
  have same: "changes_of (d\<lparr>db_fills := x\<rparr>) k = changes_of d k" for k x by (simp add: changes_of_def)
  from new assms(2) have none: "changes_of d (frow_id ?r) = []" by (simp add: positions_follow_fills_def)
  then have "\<exists>n. changes_of d (frow_id ?r) = take n (fill_changes ?r)" by (intro exI [of _ 0]) simp
  then show ?thesis
    using assms(2) new none by (auto simp: positions_follow_fills_def same d1 fill_exists_def)
qed

lemma follow_change:
  assumes run: "record_position_stmt (frow_id r) u m delta d = Inr ((), d')"
    and fo: "positions_follow_fills d" and r: "r \<in> set (db_fills d)"
    and dist: "distinct (map frow_id (db_fills d))"
    and now: "changes_of d (frow_id r) = take n (fill_changes r)" "n < 2"
    and nxt: "fill_changes r ! n = \<lparr>pos_fill = frow_id r, pos_user = u, pos_market = m, pos_delta = delta\<rparr>"
  shows "positions_follow_fills d' \<and> changes_of d' (frow_id r) = take (Suc n) (fill_changes r)"
proof -
  from record_position_effect [OF run] have d': "d' = d\<lparr>db_positions := db_positions d @ [fill_changes r ! n]\<rparr>"
    by (simp add: nxt)
  have len: "length (fill_changes r) = 2" by (simp add: fill_changes_def)
  have mine: "changes_of d' (frow_id r) = take (Suc n) (fill_changes r)"
    using now len nxt by (simp add: changes_of_def d' take_Suc_conv_app_nth)
  have others: "changes_of d' k = changes_of d k" if "k \<noteq> frow_id r" for k
    using that nxt by (simp add: changes_of_def d')
  have "\<exists>n. changes_of d' (frow_id x) = take n (fill_changes x)" if x: "x \<in> set (db_fills d)" for x
  proof (cases "x = r")
    case True
    with mine show ?thesis by blast
  next
    case False
    with x r dist have "frow_id x \<noteq> frow_id r" by (auto dest: distinct_map [THEN iffD1] inj_onD)
    with others fo x show ?thesis by (simp add: positions_follow_fills_def)
  qed
  moreover have "changes_of d' k = []" if "\<not> fill_exists d k" for k
  proof -
    from that r have "k \<noteq> frow_id r" by (auto simp: fill_exists_def)
    with others that fo show ?thesis by (simp add: positions_follow_fills_def)
  qed
  ultimately have "positions_follow_fills d'"
    by (simp add: positions_follow_fills_def fill_exists_def d')
  with mine show ?thesis by simp
qed

text \<open>The invariant and the tables' own invariant, through one event under any link behaviour.\<close>

lemma db_run_position:
  assumes run: "db_run (record_position_stmt (frow_id r) u m delta) w = (res, w')"
    and fo: "positions_follow_fills (w_db w)" and r: "r \<in> set (db_fills (w_db w))" and ok: "fills_ok (w_db w)"
    and now: "changes_of (w_db w) (frow_id r) = take n (fill_changes r)" "n < 2"
    and nxt: "fill_changes r ! n = \<lparr>pos_fill = frow_id r, pos_user = u, pos_market = m, pos_delta = delta\<rparr>"
  shows "positions_follow_fills (w_db w') \<and> db_fills (w_db w') = db_fills (w_db w) \<and>
    (res = Inr () \<longrightarrow> changes_of (w_db w') (frow_id r) = take (Suc n) (fill_changes r))"
proof -
  from ok have dist: "distinct (map frow_id (db_fills (w_db w)))" by (simp add: fills_ok_def)
  have step: "positions_follow_fills (w_db w') \<and> db_fills (w_db w') = db_fills (w_db w) \<and>
     changes_of (w_db w') (frow_id r) = take (Suc n) (fill_changes r)"
    if "record_position_stmt (frow_id r) u m delta (w_db w) = Inr ((), w_db w')"
    using follow_change [OF that fo r dist now nxt] record_position_effect [OF that] by auto
  from run show ?thesis
    by (cases rule: db_run_cases) (use step fo in auto)
qed

lemma apply_fill_follows:
  assumes run: "apply_fill now f w = (res, w')" and fo: "positions_follow_fills (w_db w)"
    and ok: "fills_ok (w_db w)" and r: "row_of_fill f \<in> set (db_fills (w_db w))"
    and none: "changes_of (w_db w) (frow_id (row_of_fill f)) = []"
  shows "positions_follow_fills (w_db w')"
proof -
  let ?r = "row_of_fill f"
  have q: "0 < sint (quantity_raw (fill_quantity f))"
    using ok r by (auto simp: fills_ok_def fill_check_def row_of_fill_def)
  have c0: "fill_changes ?r ! 0 = \<lparr>pos_fill = frow_id ?r, pos_user = user_uuid (fill_taker_user_id f),
      pos_market = market_uuid (fill_market_id f), pos_delta = sint (quantity_raw (fill_quantity f))\<rparr>"
    by (simp add: fill_changes_def row_of_fill_def)
  have c1: "fill_changes ?r ! 1 = \<lparr>pos_fill = frow_id ?r, pos_user = user_uuid (fill_maker_user_id f),
      pos_market = market_uuid (fill_market_id f), pos_delta = sint (- quantity_raw (fill_quantity f))\<rparr>"
    using sint_negate [OF q] by (simp add: fill_changes_def row_of_fill_def)
  have id: "fill_uuid (fill_id f) = frow_id ?r" by (simp add: row_of_fill_def)
  obtain r1 w1 where 1: "apply_fill_balances (fill_taker_user_id f) (fill_maker_user_id f)
               (fill_cost (fill_price f) (fill_quantity f)) w = (r1, w1)" by fastforce
  have "\<exists>t. w_db w1 = (w_db w)\<lparr>db_balances := t\<rparr>"
    using 1 unfolding apply_fill_balances_def
    by (cases rule: db_run_cases) (auto dest!: apply_fill_frame intro: exI [of _ "db_balances (w_db w)"])
  then have w1: "db_fills (w_db w1) = db_fills (w_db w)" "db_positions (w_db w1) = db_positions (w_db w)"
    "db_orders (w_db w1) = db_orders (w_db w)" "db_markets (w_db w1) = db_markets (w_db w)"
    "db_users (w_db w1) = db_users (w_db w)" by auto
  have fo1: "positions_follow_fills (w_db w1)" using follow_cong [OF w1(1,2)] fo by simp
  have ok1: "fills_ok (w_db w1)"
    using ok w1 by (simp add: fills_ok_def fill_refs_def market_exists_def order_exists_def user_exists_def)
  have none1: "changes_of (w_db w1) (frow_id ?r) = take 0 (fill_changes ?r)"
    using none w1(2) by (simp add: changes_of_def)
  obtain r2 w2 where 2: "record_position_change (fill_id f) (fill_taker_user_id f) (fill_market_id f)
               (quantity_raw (fill_quantity f)) w1 = (r2, w2)" by fastforce
  from db_run_position [OF 2 [unfolded record_position_change_def id] fo1 _ ok1 none1 _ c0] r w1(1)
  have s2: "positions_follow_fills (w_db w2)" "db_fills (w_db w2) = db_fills (w_db w1)"
    "r2 = Inr () \<Longrightarrow> changes_of (w_db w2) (frow_id ?r) = take 1 (fill_changes ?r)" by auto
  obtain r3 w3 where 3: "record_position_change (fill_id f) (fill_maker_user_id f) (fill_market_id f)
               (- quantity_raw (fill_quantity f)) w2 = (r3, w3)" by fastforce
  have dist2: "distinct (map frow_id (db_fills (w_db w2)))" using ok1 s2(2) by (simp add: fills_ok_def)
  have s3: "positions_follow_fills (w_db w3)" if "r2 = Inr ()"
    using 3 unfolding record_position_change_def id
  proof (cases rule: db_run_cases)
    case (reached a)
    then show ?thesis
      using follow_change [OF _ s2(1) _ dist2 s2(3) [OF that] _ c1, of "w_db w3"] r w1(1) s2(2) by auto
  next
    case (unseen a e)
    then show ?thesis
      using follow_change [OF _ s2(1) _ dist2 s2(3) [OF that] _ c1, of "w_db w3"] r w1(1) s2(2) by auto
  qed (use s2(1) in auto)
  obtain r4 w4 where 4: "update_fill_orders now f w3 = (r4, w4)" by fastforce
  have s4: "positions_follow_fills (w_db w4) = positions_follow_fills (w_db w3)"
    by (rule follow_cong) (use update_fill_orders_keeps [OF 4] in auto)
  from run 1 2 3 4 have "w' = w1 \<or> w' = w2 \<or> r2 = Inr () \<and> (w' = w3 \<or> w' = w4)"
    by (auto simp: apply_fill_def io_bind_def split: sum.splits)
  with fo1 s2(1) s3 s4 show ?thesis by auto
qed

lemma process_fill_follows:
  assumes run: "process_fill now e w = (res, w')" and fo: "positions_follow_fills (w_db w)"
    and ok: "db_ok (w_db w)"
  shows "positions_follow_fills (w_db w')"
proof -
  let ?f = "event_fill now e"
  obtain r1 w1 where 1: "db_run (insert_fill_stmt ?f) w = (r1, w1)" by fastforce
  have dup: "positions_follow_fills d'" if "insert_fill_stmt ?f (w_db w) = Inr (out, d')" for out d'
    using insert_fill_cases [OF that] follow_insert [of ?f "w_db w" d'] fo that by (cases out) auto
  have fo1: "positions_follow_fills (w_db w1)"
    using 1 by (cases rule: db_run_cases) (use dup fo in auto)
  show ?thesis
  proof (cases "r1 = Inr Inserted")
    case False
    with run 1 have "w' = w1"
      by (auto simp: process_fill_def Let_def insert_fill_dedup_def io_bind_def io_return_def
          split: sum.splits insert_fill_outcome.splits)
    with fo1 show ?thesis by simp
  next
    case True
    from 1 True have ins: "insert_fill_stmt ?f (w_db w) = Inr (Inserted, w_db w1)"
      by (auto elim: db_run_cases)
    from run 1 True have rest: "apply_fill now ?f w1 = (res, w')"
      by (auto simp: process_fill_def Let_def insert_fill_dedup_def io_bind_def)
    have "fills_ok (w_db w1)" using insert_fill_ok [OF ins] ok by (simp add: db_ok_def)
    with rest fo1 show ?thesis
      using follow_insert [OF ins fo] by (intro apply_fill_follows [OF rest fo1]) auto
  qed
qed

text \<open>
  The money the same way: what one fill row takes from its taker and its maker is the statement of
  \<open>apply_fill_balances\<close> for its price times its quantity, on whatever balances stand in the table then; each
  of the rows recorded by a run is charged so, in their order, or not at all.
\<close>

definition row_cost :: "fill_row \<Rightarrow> int" where
  "row_cost r =
     (if frow_price r * frow_quantity r < 2 ^ 63 then frow_price r * frow_quantity r div 10000 else 0)"

definition charged :: "fill_row \<Rightarrow> bal_row list \<Rightarrow> bal_row list \<Rightarrow> bool" where
  "charged r b b' \<longleftrightarrow>
     (\<exists>d d'. apply_fill_stmt (frow_taker_user_id r) (frow_maker_user_id r) (row_cost r) d = Inr ((), d') \<and>
        db_balances d = b \<and> db_balances d' = b')"

inductive charged_once :: "bal_row list \<Rightarrow> fill_row list \<Rightarrow> bal_row list \<Rightarrow> bool" where
  no_row: "charged_once b [] b"
| not_charged: "charged_once b rs b' \<Longrightarrow> charged_once b (r # rs) b'"
| was_charged: "charged r b b1 \<Longrightarrow> charged_once b1 rs b' \<Longrightarrow> charged_once b (r # rs) b'"

lemma charged_once_append: "charged_once b rs b1 \<Longrightarrow> charged_once b1 rs' b' \<Longrightarrow> charged_once b (rs @ rs') b'"
  by (induction rule: charged_once.induct) (auto intro: charged_once.intros)

lemma row_cost_of_fill:
  assumes "fill_check (row_of_fill f)"
  shows "row_cost (row_of_fill f) = sint (fill_cost (fill_price f) (fill_quantity f))"
proof -
  from assms have q: "0 \<le> sint (quantity_raw (fill_quantity f))" and p: "0 \<le> sint (price_raw (fill_price f))"
    "sint (price_raw (fill_price f)) < 10000"
    by (simp_all add: row_of_fill_def fill_check_def)
  have "int (unat (price_raw (fill_price f))) = take_bit 32 (sint (price_raw (fill_price f)))"
    using uint_sint [of "price_raw (fill_price f)"] by simp
  with p have "sint (price_raw (fill_price f)) = int (unat (price_raw (fill_price f)))"
    by (simp add: take_bit_int_eq_self)
  with fill_cost_value [OF q, of "fill_price f"] show ?thesis
    by (simp add: row_cost_def row_of_fill_def)
qed

lemma apply_fill_charges:
  assumes run: "apply_fill now f w = (res, w')" and chk: "fill_check (row_of_fill f)"
  shows "db_fills (w_db w') = db_fills (w_db w) \<and>
    (db_balances (w_db w') = db_balances (w_db w) \<or>
     charged (row_of_fill f) (db_balances (w_db w)) (db_balances (w_db w')))"
proof -
  let ?keeps = "\<lambda>w1 w2. db_fills (w_db w2) = db_fills (w_db w1) \<and> db_balances (w_db w2) = db_balances (w_db w1)"
  let ?r = "row_of_fill f"
  obtain r1 w1 where 1: "apply_fill_balances (fill_taker_user_id f) (fill_maker_user_id f)
               (fill_cost (fill_price f) (fill_quantity f)) w = (r1, w1)" by fastforce
  have stmt: "db_fills d' = db_fills d \<and> charged ?r (db_balances d) (db_balances d')"
    if "apply_fill_stmt (user_uuid (fill_taker_user_id f)) (user_uuid (fill_maker_user_id f))
          (sint (fill_cost (fill_price f) (fill_quantity f))) d = Inr (x, d')" for x :: unit and d d'
    using that apply_fill_frame [OF that] row_cost_of_fill [OF chk]
    by (auto simp: charged_def row_of_fill_def simp del: One_nat_def)
  have s1: "db_fills (w_db w1) = db_fills (w_db w) \<and>
      (db_balances (w_db w1) = db_balances (w_db w) \<or> charged ?r (db_balances (w_db w)) (db_balances (w_db w1)))"
    using 1 unfolding apply_fill_balances_def by (cases rule: db_run_cases) (use stmt in auto)
  have pos: "?keeps v v'" if "record_position_change i u m q v = (r', v')" for i u m q r' v v'
    using that unfolding record_position_change_def
    by (cases rule: db_run_cases) (auto dest!: record_position_effect)
  obtain r2 w2 where 2: "record_position_change (fill_id f) (fill_taker_user_id f) (fill_market_id f)
               (quantity_raw (fill_quantity f)) w1 = (r2, w2)" by fastforce
  obtain r3 w3 where 3: "record_position_change (fill_id f) (fill_maker_user_id f) (fill_market_id f)
               (- quantity_raw (fill_quantity f)) w2 = (r3, w3)" by fastforce
  obtain r4 w4 where 4: "update_fill_orders now f w3 = (r4, w4)" by fastforce
  have s4: "?keeps w3 w4" using update_fill_orders_keeps [OF 4] by auto
  have "w' = w1 \<or> w' = w2 \<or> w' = w3 \<or> w' = w4"
    using run 1 2 3 4 by (auto simp: apply_fill_def io_bind_def split: sum.splits)
  then have "?keeps w1 w'" using pos [OF 2] pos [OF 3] s4 by auto
  with s1 show ?thesis by simp
qed

text \<open>One event records at most one row and charges nothing but that row.\<close>

lemma process_fill_charges:
  assumes run: "process_fill now e w = (res, w')"
  shows "\<exists>rs. db_fills (w_db w') = db_fills (w_db w) @ rs \<and>
    charged_once (db_balances (w_db w)) rs (db_balances (w_db w'))"
proof -
  let ?f = "event_fill now e"
  obtain r1 w1 where 1: "db_run (insert_fill_stmt ?f) w = (r1, w1)" by fastforce
  have same: "\<exists>rs. db_fills (w_db w) = db_fills (w_db w) @ rs \<and> charged_once (db_balances (w_db w)) rs (db_balances (w_db w))"
    using no_row by auto
  have ins: "db_balances d1 = db_balances d \<and> (out = Duplicate \<and> db_fills d1 = db_fills d \<or>
      out = Inserted \<and> db_fills d1 = db_fills d @ [row_of_fill ?f] \<and> fill_check (row_of_fill ?f))"
    if "insert_fill_stmt ?f d = Inr (out, d1)" for d out d1
    using insert_fill_cases [OF that] by auto
  show ?thesis
  proof (cases "r1 = Inr Inserted")
    case False
    with run 1 have "w' = w1"
      by (auto simp: process_fill_def Let_def insert_fill_dedup_def io_bind_def io_return_def
          split: sum.splits insert_fill_outcome.splits)
    with 1 same show ?thesis
      by (cases rule: db_run_cases) (use ins no_row not_charged in fastforce)+
  next
    case True
    from 1 True have "insert_fill_stmt ?f (w_db w) = Inr (Inserted, w_db w1)"
      by (auto elim: db_run_cases)
    from ins [OF this] have i: "db_balances (w_db w1) = db_balances (w_db w)"
      "db_fills (w_db w1) = db_fills (w_db w) @ [row_of_fill ?f]" "fill_check (row_of_fill ?f)" by auto
    from run 1 True have "apply_fill now ?f w1 = (res, w')"
      by (auto simp: process_fill_def Let_def insert_fill_dedup_def io_bind_def)
    from apply_fill_charges [OF this i(3)] i(1,2) have "db_fills (w_db w') = db_fills (w_db w) @ [row_of_fill ?f]"
      "charged_once (db_balances (w_db w)) [row_of_fill ?f] (db_balances (w_db w'))"
      using not_charged [OF no_row] was_charged [OF _ no_row] by fastforce+
    then show ?thesis by blast
  qed
qed

text \<open>
  C2: However often and in whatever order the subscription delivers payloads, parseable or not, and whatever
  the link does to the requests in between, no fill counts more than once. The tables keep their invariant, in
  which no two fills share an id or a market and sequence number. The position changes of each fill are at most
  one change of plus its quantity for its taker and one of minus its quantity for its maker, in this order. And
  the balances are those of the start after the charges of some of the rows recorded since, each charged at most
  once: a redelivered event moves no money. (A fill can count zero times; see \<open>lost_money_is_never_retried\<close>.)
\<close>
theorem deliveries_count_at_most_once:
  assumes "run_loop from_json msgs w = (r, w')" and "db_ok (w_db w)"
    and "positions_follow_fills (w_db w)"
  shows "db_ok (w_db w') \<and> positions_follow_fills (w_db w') \<and> distinct (map fill_key (db_fills (w_db w'))) \<and>
    (\<exists>rs. db_fills (w_db w') = db_fills (w_db w) @ rs \<and>
       charged_once (db_balances (w_db w)) rs (db_balances (w_db w')))"
proof -
  have "db_ok (w_db w') \<and> positions_follow_fills (w_db w') \<and>
    (\<exists>rs. db_fills (w_db w') = db_fills (w_db w) @ rs \<and>
       charged_once (db_balances (w_db w)) rs (db_balances (w_db w')))"
    using assms
  proof (induction msgs arbitrary: w)
    case Nil
    then show ?case by (auto simp: run_loop_def io_return_def intro: no_row)
  next
    case (Cons m msgs)
    obtain now p where m: "m = (now, p)" by (cases m)
    obtain w1 rs where h: "handle_payload from_json now p w = (Inr (), w1)"
      and keep: "db_ok (w_db w1)" "positions_follow_fills (w_db w1)"
      and new: "db_fills (w_db w1) = db_fills (w_db w) @ rs" "charged_once (db_balances (w_db w)) rs (db_balances (w_db w1))"
    proof (cases "decode_fill_event from_json p")
      case None
      with Cons.prems that [of w "[]"] no_row show ?thesis by (simp add: handle_payload_def io_return_def)
    next
      case (Some e)
      obtain r1 w1 where pr: "process_fill now e w = (r1, w1)" by fastforce
      have "db_ok (w_db w1)" by (rule io_keeps_ok [OF process_fill_conform pr Cons.prems(2)])
      moreover have "positions_follow_fills (w_db w1)"
        by (rule process_fill_follows [OF pr Cons.prems(3,2)])
      moreover have "handle_payload from_json now p w = (Inr (), w1)"
        using Some pr by (auto simp: handle_payload_def io_catch_def io_return_def)
      ultimately show ?thesis using that process_fill_charges [OF pr] by blast
    qed
    from Cons.prems(1) m h have "run_loop from_json msgs w1 = (r, w')"
      by (simp add: run_loop_def io_bind_def)
    from Cons.IH [OF this keep] new show ?case by (auto intro: charged_once_append)
  qed
  then show ?thesis by (auto simp: db_ok_def fills_ok_def)
qed

lemma sample_follows: "positions_follow_fills sample_db"
  by (simp add: positions_follow_fills_def changes_of_def sample_defs)

lemma deliveries_count_at_most_once_witness:
  "let w' = snd (run_loop (\<lambda>_. Inr sample_event) [(3, []), (4, []), (5, [])]
       \<lparr>w_db = sample_db, w_links = [Reached, Unacknowledged, Reached, Lost]\<rparr>)
   in db_ok (w_db w') \<and> positions_follow_fills (w_db w') \<and>
     charged_once (db_balances sample_db) (db_fills (w_db w')) (db_balances (w_db w'))"
proof -
  obtain r w' where run: "run_loop (\<lambda>_. Inr sample_event) [(3, []), (4, []), (5, [])]
       \<lparr>w_db = sample_db, w_links = [Reached, Unacknowledged, Reached, Lost]\<rparr> = (r, w')" by fastforce
  have "db_fills sample_db = []" by (simp add: sample_defs)
  with deliveries_count_at_most_once [OF run] sample_db_ok sample_follows run show ?thesis by auto
qed

text \<open>
  C28: The fill row and the money are separate transactions. When the request that moves the money is lost
  after the row was inserted, the event fails, and every later delivery of the same event is taken for a
  duplicate and succeeds without moving money or positions: the fill is never applied.
\<close>
theorem lost_money_is_never_retried:
  assumes "insert_fill_stmt (event_fill now e) d = Inr (Inserted, d1)"
  shows "process_fill now e \<lparr>w_db = d, w_links = [Reached, Lost]\<rparr> = (Inl link_error, online d1) \<and>
    process_fill later e (online d1) = (Inr (), online d1) \<and>
    avail d1 = avail d \<and> resv d1 = resv d \<and> db_positions d1 = db_positions d"
proof -
  from insert_fill_cases [OF assms] have d1: "d1 = d\<lparr>db_fills := db_fills d @ [row_of_fill (event_fill now e)]\<rparr>"
    and chk: "fill_check (row_of_fill (event_fill now e))" by auto
  have "process_fill now e \<lparr>w_db = d, w_links = [Reached, Lost]\<rparr> = (Inl link_error, online d1)"
    by (simp add: process_fill_def Let_def insert_fill_dedup_def io_bind_def db_run_def next_link_def assms
        apply_fill_def apply_fill_balances_def online_def)
  moreover have "insert_fill_stmt (event_fill later e) d1 = Inr (Duplicate, d1)"
  proof -
    have "fill_known d1 (fill_key (row_of_fill (event_fill later e)))"
      by (simp add: fill_known_def d1 event_row)
    moreover from chk have "fill_check (row_of_fill (event_fill later e))"
      by (simp add: fill_check_def row_of_fill_def event_fill_def)
    ultimately show ?thesis by (simp add: insert_fill_stmt_def stmt_write_def Let_def)
  qed
  then have "process_fill later e (online d1) = (Inr (), online d1)"
    by (simp add: process_fill_def Let_def insert_fill_dedup_def io_defs db_run_online)
  ultimately show ?thesis
    by (simp add: fun_eq_iff avail_def resv_def find_balance_def d1)
qed

lemma lost_money_is_never_retried_witness:
  "\<exists>d1. process_fill 3 sample_event \<lparr>w_db = sample_db, w_links = [Reached, Lost]\<rparr> = (Inl link_error, online d1) \<and>
     process_fill 9 sample_event (online d1) = (Inr (), online d1)"
proof -
  have "insert_fill_stmt (event_fill 3 sample_event) sample_db =
      Inr (Inserted, sample_db\<lparr>db_fills := [row_of_fill (event_fill 3 sample_event)]\<rparr>)"
    by (simp add: insert_fill_stmt_def stmt_write_def Let_def sample_event_def event_fill_def fill_check_def
        fill_known_def fill_exists_def fill_refs_def market_exists_def order_exists_def user_exists_def
        sample_defs i64_ok_def)
  from lost_money_is_never_retried [OF this, of 9] show ?thesis by blast
qed

section \<open>Orders after a fill\<close>

lemma sint_eq_unat_nonneg:
  fixes w :: u64
  assumes "0 \<le> sint w"
  shows "unat w = nat (sint w)"
proof (cases "unat w < 2 ^ 63")
  case True
  then show ?thesis by (simp add: sint_eq_unat)
next
  case False
  then have "sint w = int (unat w) - 2 ^ 64" by (simp add: sint_wrapped)
  with i64_ok_wrap [OF False] unat_bound [of w] have "sint w < 0" by simp
  with assms show ?thesis by simp
qed

lemma unat_of_row: "0 \<le> n \<Longrightarrow> i64_ok n \<Longrightarrow> unat (word_of_int n :: u64) = nat n"
  by (simp add: i64_ok_def unsigned_of_int take_bit_int_eq_self)

text \<open>
  An undisturbed order update after a fill of quantity \<open>q\<close> adds \<open>q\<close> to the filled quantity when the sum
  fits the order, with status Filled exactly when the order is now full, and changes nothing at all when
  it does not fit: the database refuses an overfilled order and the error is only logged.
\<close>
theorem order_after_fill:
  assumes "db_ok d" and "find_order d (order_uuid i) = Some r"
    and "q = sint (quantity_raw (fill_quantity f))" and "0 < q"
  shows "(\<not> orow_filled_quantity r + q \<le> orow_quantity r \<longrightarrow>
      update_order now f i (online d) = (Inr (), online d)) \<and>
    (orow_filled_quantity r + q \<le> orow_quantity r \<longrightarrow>
      fst (update_order now f i (online d)) = Inr () \<and>
      find_order (w_db (snd (update_order now f i (online d)))) (order_uuid i) =
        Some (r\<lparr>orow_status := (if orow_filled_quantity r + q = orow_quantity r then OrdFilled else OrdPartial),
                orow_filled_quantity := orow_filled_quantity r + q, orow_updated_at := now\<rparr>))"
proof -
  from assms(1) have ook: "orders_ok d" by (simp add: db_ok_def)
  then have dist: "distinct (map orow_id (db_orders d))" by (simp add: orders_ok_def)
  have chk: "order_check r"
    using ook find_SomeD [OF assms(2) [unfolded find_order_def]] by (auto simp: orders_ok_def)
  then have fl: "0 \<le> orow_filled_quantity r" "orow_filled_quantity r \<le> orow_quantity r"
    "i64_ok (orow_quantity r)" by (simp_all add: order_check_def)
  then have fok: "i64_ok (orow_filled_quantity r)" by (simp add: i64_ok_def)
  let ?o = "order_of_row r"
  let ?n = "orow_filled_quantity r + q"
  have uq: "unat (quantity_raw (fill_quantity f)) = nat q"
    using assms(3,4) sint_eq_unat_nonneg [of "quantity_raw (fill_quantity f)"] by simp
  have un: "unat (quantity_raw (new_filled ?o f)) = nat ?n"
  proof -
    have "unat (quantity_raw (ord_filled ?o)) = nat (orow_filled_quantity r)"
      using fl(1) fok by (simp add: order_of_row_def unat_of_row)
    moreover have "q < 2 ^ 63" unfolding assms(3) using sint_lt [of "quantity_raw (fill_quantity f)"] by simp
    moreover have "orow_filled_quantity r < 2 ^ 63" using fok by (simp add: i64_ok_def)
    ultimately show ?thesis
      using fl(1) assms(4) uq by (simp add: new_filled_def unat_saturating_add nat_add_distrib)
  qed
  have uo: "unat (quantity_raw (ord_quantity ?o)) = nat (orow_quantity r)"
    using fl by (simp add: order_of_row_def unat_of_row)
  have st: "status_after ?o (new_filled ?o f) = (if orow_quantity r \<le> ?n then OrdFilled else OrdPartial)"
    using fl assms(4) by (auto simp: status_after_def word_le_nat_alt un uo)
  let ?v = "sint (quantity_raw (new_filled ?o f))"
  show ?thesis
  proof (cases "?n \<le> orow_quantity r")
    case True
    with fl have lt: "?n < 2 ^ 63" by (simp add: i64_ok_def)
    with un fl(1) assms(4) have v: "?v = ?n"
      using sint_eq_unat [of "quantity_raw (new_filled ?o f)"] by simp
    let ?r' = "r\<lparr>orow_status := (if ?n = orow_quantity r then OrdFilled else OrdPartial),
                orow_filled_quantity := ?n, orow_updated_at := now\<rparr>"
    have st': "status_after ?o (new_filled ?o f) = (if ?n = orow_quantity r then OrdFilled else OrdPartial)"
      using True st by auto
    have rf: "row_fill now (status_after ?o (new_filled ?o f)) ?v r = Some ?r'"
      using chk True fl assms(4) unfolding v st' by (simp add: row_fill_def Let_def order_check_def)
    from sql_update_keyed_succeeds [OF dist assms(2) [unfolded find_order_def],
        of "row_fill now (status_after ?o (new_filled ?o f)) ?v" "\<lambda>_. True"] rf
    obtain t where t: "sql_update (\<lambda>r. orow_id r = order_uuid i \<and> True)
        (row_fill now (status_after ?o (new_filled ?o f)) ?v) (db_orders d) = Some t" by auto
    then obtain res where upd: "update_orders (order_uuid i) (\<lambda>_. True)
        (row_fill now (status_after ?o (new_filled ?o f)) ?v) d = Inr (res, d\<lparr>db_orders := t\<rparr>)"
      by (simp add: update_orders_def stmt_write_def)
    have fin: "find_order (d\<lparr>db_orders := t\<rparr>) (order_uuid i) = Some ?r'"
      using upd dist row_fill_key
      by (cases rule: update_orders_cases) (use assms(2) rf in auto)
    have "update_order now f i (online d) = (Inr (), online (d\<lparr>db_orders := t\<rparr>))"
      by (simp add: update_order_def io_defs get_order_online assms(2) update_order_fill_def db_run_online upd)
    with True fin show ?thesis by simp
  next
    case False
    have bad: "?v < 0 \<or> orow_quantity r < ?v"
    proof (cases "?n < 2 ^ 63")
      case True
      with un fl(1) assms(4) have "?v = ?n"
        using sint_eq_unat [of "quantity_raw (new_filled ?o f)"] by simp
      with False show ?thesis by simp
    next
      case big: False
      have "?v < 0"
      proof (rule ccontr)
        assume "\<not> ?v < 0"
        then have "unat (quantity_raw (new_filled ?o f)) = nat ?v" by (simp add: sint_eq_unat_nonneg)
        with un big fl(1) assms(4) sint_lt [of "quantity_raw (new_filled ?o f)"] show False by simp
      qed
      then show ?thesis by simp
    qed
    have rf: "row_fill now (status_after ?o (new_filled ?o f)) ?v r = None"
      using bad by (auto simp: row_fill_def Let_def order_check_def)
    have "sql_update (\<lambda>x. orow_id x = order_uuid i \<and> True)
        (row_fill now (status_after ?o (new_filled ?o f)) ?v) (db_orders d) = None"
    proof (cases "sql_update (\<lambda>x. orow_id x = order_uuid i \<and> True)
        (row_fill now (status_after ?o (new_filled ?o f)) ?v) (db_orders d)")
      case (Some t)
      from find_SomeD [OF assms(2) [unfolded find_order_def]] sql_update_mem [OF Some, of r] rf
      show ?thesis by auto
    qed
    then have "update_order now f i (online d) = (Inr (), online d)"
      by (simp add: update_order_def io_defs get_order_online assms(2) update_order_fill_def db_run_online
          update_orders_def stmt_write_def)
    with False show ?thesis by simp
  qed
qed

lemma order_after_fill_witness:
  "find_order (w_db (snd (update_order 5 sample_fill (OrderId 21) (online sample_db)))) 21 =
     Some ((row_of_order sample_order)\<lparr>orow_status := OrdFilled, orow_filled_quantity := 100,
       orow_updated_at := 5\<rparr>)"
proof -
  have a: "find_order sample_db (order_uuid (OrderId 21)) = Some (row_of_order sample_order)"
    by (simp add: find_order_def sample_db_def empty_db_def sample_order_def row_of_order_def)
  have b: "100 = sint (quantity_raw (fill_quantity sample_fill))" by (simp add: sample_fill_def)
  have c: "orow_filled_quantity (row_of_order sample_order) = 0"
    "orow_quantity (row_of_order sample_order) = 100"
    by (simp_all add: sample_order_def row_of_order_def)
  from order_after_fill [OF sample_db_ok a b, of 5] c show ?thesis by simp
qed

end
