(* ===== verification/Fill_Queue.thy ===== *)
theory Fill_Queue
  imports Fill_Processor
begin

text \<open>
  The workers and the retry queue of \<open>positions/src/processor.rs\<close>, as a step relation. The queue is a
  bounded channel of 1000: a sender waits while it is full. The task that retries is its only receiver,
  and it also sends to it. The theorems bound the queue and the retries of every entry, and show that
  the retry task can block for ever.
\<close>

section \<open>Processing an event\<close>

text \<open>
  \<open>process\<close> and \<open>update_orders\<close> of \<open>processor.rs\<close>. They do what their namesakes of \<open>positions/src/lib.rs\<close> do, so
  that every fact of \<open>Fill_Processor\<close> holds of them.
\<close>

definition queue_update_order :: "datetime \<Rightarrow> fill \<Rightarrow> order_id \<Rightarrow> unit io" where
  "queue_update_order now f i =
     io_catch (get_order i) (\<lambda>r.
       case r of
         Inl e \<Rightarrow> io_return ()
       | Inr o' \<Rightarrow>
           (let filled = Quantity (u64_saturating_add (quantity_raw (ord_filled o')) (quantity_raw (fill_quantity f)));
                status = if quantity_raw (ord_quantity o') \<le> quantity_raw filled then OrdFilled else OrdPartial in
            io_catch (update_order_fill now i status filled) (\<lambda>_. io_return ())))"

definition queue_process :: "datetime \<Rightarrow> engine_fill_event \<Rightarrow> unit io" where
  "queue_process now e =
     (let f = event_fill now e in
      io_bind (insert_fill_dedup f) (\<lambda>out.
        case out of
          Duplicate \<Rightarrow> io_return ()
        | Inserted \<Rightarrow>
            (let cost = fill_cost (fill_price f) (fill_quantity f) in
             io_bind (apply_fill_balances (fill_taker_user_id f) (fill_maker_user_id f) cost) (\<lambda>_.
             io_bind (record_position_change (fill_id f) (fill_taker_user_id f) (fill_market_id f)
                        (quantity_raw (fill_quantity f))) (\<lambda>_.
             io_bind (record_position_change (fill_id f) (fill_maker_user_id f) (fill_market_id f)
                        (- quantity_raw (fill_quantity f))) (\<lambda>_.
             io_iterate (queue_update_order now f) [fill_maker_order_id f, fill_taker_order_id f]))))))"

lemma queue_process_same: "queue_process now e = process_fill now e"
proof -
  have "queue_update_order now f i = update_order now f i" for f i
    unfolding queue_update_order_def update_order_def new_filled_def status_after_def Let_def ..
  then show ?thesis
    by (simp add: queue_process_def process_fill_def apply_fill_def update_fill_orders_def Let_def)
qed

text \<open>The subject of a worker, and the milliseconds the retry task waits before it tries an entry again.\<close>

definition worker_subject :: "(nat \<Rightarrow> string) \<Rightarrow> string \<Rightarrow> nat \<Rightarrow> string" where
  "worker_subject show_nat fill_subject_base worker_id = fill_subject_base @ ''.'' @ show_nat worker_id"

definition retry_pause :: "nat \<Rightarrow> nat" where
  "retry_pause retries = 100 * (retries + 1)"

section \<open>State and steps\<close>

definition DLQ_RETRY_COUNT :: nat where "DLQ_RETRY_COUNT = 3"

definition dlq_capacity :: nat where "dlq_capacity = 1000"

record failed_fill =
  ff_event :: engine_fill_event
  ff_retries :: nat

text \<open>The retry task waits for the next entry, or for room to send a failed entry back.\<close>

datatype dlq_phase = Receiving | Sending failed_fill

record dlq =
  dlq_world :: world
  dlq_queue :: "failed_fill list"
  dlq_blocked :: "failed_fill list"
  dlq_phase :: dlq_phase

text \<open>
  A worker processes an event; when it fails, its entry goes to the queue, or the worker waits with it
  (\<open>dlq_blocked\<close>). The retry task takes the first entry, drops it when it has been retried often enough,
  and otherwise processes it again. The clock readings \<open>now\<close> are arbitrary.
\<close>

inductive dlq_step :: "dlq \<Rightarrow> dlq \<Rightarrow> bool" where
  worker_ok: "queue_process now e (dlq_world s) = (Inr (), w) \<Longrightarrow> dlq_step s (s\<lparr>dlq_world := w\<rparr>)"
| worker_fails: "queue_process now e (dlq_world s) = (Inl err, w) \<Longrightarrow>
    length (dlq_queue s) < dlq_capacity \<Longrightarrow>
    dlq_step s (s\<lparr>dlq_world := w, dlq_queue := dlq_queue s @ [\<lparr>ff_event = e, ff_retries = 0\<rparr>]\<rparr>)"
| worker_blocks: "queue_process now e (dlq_world s) = (Inl err, w) \<Longrightarrow>
    \<not> length (dlq_queue s) < dlq_capacity \<Longrightarrow>
    dlq_step s (s\<lparr>dlq_world := w, dlq_blocked := dlq_blocked s @ [\<lparr>ff_event = e, ff_retries = 0\<rparr>]\<rparr>)"
| worker_resumes: "dlq_blocked s = bs @ f # cs \<Longrightarrow> length (dlq_queue s) < dlq_capacity \<Longrightarrow>
    dlq_step s (s\<lparr>dlq_blocked := bs @ cs, dlq_queue := dlq_queue s @ [f]\<rparr>)"
| retry_drops: "dlq_phase s = Receiving \<Longrightarrow> dlq_queue s = f # fs \<Longrightarrow> DLQ_RETRY_COUNT \<le> ff_retries f \<Longrightarrow>
    dlq_step s (s\<lparr>dlq_queue := fs\<rparr>)"
| retry_ok: "dlq_phase s = Receiving \<Longrightarrow> dlq_queue s = f # fs \<Longrightarrow> ff_retries f < DLQ_RETRY_COUNT \<Longrightarrow>
    queue_process now (ff_event f) (dlq_world s) = (Inr (), w) \<Longrightarrow>
    dlq_step s (s\<lparr>dlq_world := w, dlq_queue := fs\<rparr>)"
| retry_fails: "dlq_phase s = Receiving \<Longrightarrow> dlq_queue s = f # fs \<Longrightarrow> ff_retries f < DLQ_RETRY_COUNT \<Longrightarrow>
    queue_process now (ff_event f) (dlq_world s) = (Inl err, w) \<Longrightarrow>
    dlq_step s (s\<lparr>dlq_world := w, dlq_queue := fs,
                  dlq_phase := Sending (f\<lparr>ff_retries := ff_retries f + 1\<rparr>)\<rparr>)"
| retry_sends: "dlq_phase s = Sending f \<Longrightarrow> length (dlq_queue s) < dlq_capacity \<Longrightarrow>
    dlq_step s (s\<lparr>dlq_queue := dlq_queue s @ [f], dlq_phase := Receiving\<rparr>)"

inductive_cases dlq_stepE: "dlq_step s t"

section \<open>Invariant\<close>

definition entry_ok :: "failed_fill \<Rightarrow> bool" where
  "entry_ok f \<longleftrightarrow> ff_retries f \<le> DLQ_RETRY_COUNT"

definition dlq_inv :: "dlq \<Rightarrow> bool" where
  "dlq_inv s \<longleftrightarrow> length (dlq_queue s) \<le> dlq_capacity
     \<and> (\<forall>f \<in> set (dlq_queue s) \<union> set (dlq_blocked s). entry_ok f)
     \<and> (case dlq_phase s of Receiving \<Rightarrow> True | Sending f \<Rightarrow> entry_ok f)
     \<and> db_ok (w_db (dlq_world s)) \<and> positions_follow_fills (w_db (dlq_world s))"

lemma process_keeps:
  assumes "queue_process now e w = (r, w')" and "db_ok (w_db w)" and "positions_follow_fills (w_db w)"
  shows "db_ok (w_db w') \<and> positions_follow_fills (w_db w')"
  using io_keeps_ok [OF process_fill_conform assms(1)[unfolded queue_process_same] assms(2)]
    process_fill_follows [OF assms(1)[unfolded queue_process_same] assms(3,2)] by simp

lemma dlq_step_inv: "dlq_step s t \<Longrightarrow> dlq_inv s \<Longrightarrow> dlq_inv t"
  by (induction rule: dlq_step.induct)
    (auto simp: dlq_inv_def entry_ok_def DLQ_RETRY_COUNT_def dest: process_keeps split: dlq_phase.splits)

interpretation dlq_runs: kept_by_steps dlq_step dlq_inv
  by unfold_locales (rule dlq_step_inv)

text \<open>
  In every run of the workers and the retry task, with any link behaviour: the queue holds at most 1000
  entries, no entry is processed again after its third retry, the tables keep their invariant and every
  fill still counts at most once for its two users.
\<close>
theorem retry_queue_bounded:
  assumes "dlq_step\<^sup>*\<^sup>* s t" and "dlq_inv s"
  shows "length (dlq_queue t) \<le> 1000 \<and> (\<forall>f \<in> set (dlq_queue t). ff_retries f \<le> 3) \<and>
    db_ok (w_db (dlq_world t)) \<and> positions_follow_fills (w_db (dlq_world t))"
  using dlq_runs.run_keeps [OF assms]
  by (auto simp: dlq_inv_def entry_ok_def dlq_capacity_def DLQ_RETRY_COUNT_def)

definition sample_dlq :: dlq where
  "sample_dlq = \<lparr>dlq_world = online sample_db, dlq_queue = [], dlq_blocked = [], dlq_phase = Receiving\<rparr>"

lemma sample_dlq_inv: "dlq_inv sample_dlq"
  by (simp add: dlq_inv_def sample_dlq_def sample_db_ok sample_follows)

lemma retry_queue_bounded_witness:
  "\<exists>t. dlq_step sample_dlq t \<and> length (dlq_queue t) \<le> 1000 \<and> db_ok (w_db (dlq_world t))"
proof -
  obtain w where "queue_process 3 sample_event (dlq_world sample_dlq) = (Inr (), w)"
    using sample_event_processed unfolding sample_dlq_def queue_process_same by (auto elim: succeedsE)
  then have step: "dlq_step sample_dlq (sample_dlq\<lparr>dlq_world := w\<rparr>)" by (rule worker_ok)
  then have "dlq_step\<^sup>*\<^sup>* sample_dlq (sample_dlq\<lparr>dlq_world := w\<rparr>)" by blast
  from retry_queue_bounded [OF this sample_dlq_inv] step show ?thesis by blast
qed

section \<open>Blocking\<close>

definition wedged :: "failed_fill \<Rightarrow> failed_fill list \<Rightarrow> dlq \<Rightarrow> bool" where
  "wedged f q s \<longleftrightarrow> dlq_phase s = Sending f \<and> dlq_queue s = q"

lemma wedged_step: "dlq_step s t \<Longrightarrow> length q = dlq_capacity \<Longrightarrow> wedged f q s \<Longrightarrow> wedged f q t"
  by (induction rule: dlq_step.induct) (auto simp: wedged_def)

lemma wedged_for_ever:
  "dlq_step\<^sup>*\<^sup>* s t \<Longrightarrow> length q = dlq_capacity \<Longrightarrow> wedged f q s \<Longrightarrow> wedged f q t"
  by (induction rule: rtranclp_induct) (auto intro: wedged_step)

text \<open>Failing events fill the queue while the retry task holds an entry.\<close>

lemma fill_up:
  assumes "queue_process now e (dlq_world s) = (Inl err, dlq_world s)"
    and "dlq_phase s = Sending f" and "length (dlq_queue s) \<le> dlq_capacity"
  shows "\<exists>t. dlq_step\<^sup>*\<^sup>* s t \<and> dlq_phase t = Sending f \<and> length (dlq_queue t) = dlq_capacity"
  using assms
proof (induction "dlq_capacity - length (dlq_queue s)" arbitrary: s)
  case 0
  then show ?case by (intro exI [of _ s]) simp
next
  case (Suc n)
  let ?s = "s\<lparr>dlq_world := dlq_world s, dlq_queue := dlq_queue s @ [\<lparr>ff_event = e, ff_retries = 0\<rparr>]\<rparr>"
  have "dlq_step s ?s" by (rule worker_fails [OF Suc.prems(1)]) (use Suc.hyps(2) in simp)
  moreover have "\<exists>t. dlq_step\<^sup>*\<^sup>* ?s t \<and> dlq_phase t = Sending f \<and> length (dlq_queue t) = dlq_capacity"
    by (rule Suc.hyps(1)) (use Suc in auto)
  ultimately show ?case by (meson converse_rtranclp_into_rtranclp)
qed

text \<open>
  The retry task can deadlock. While it holds an entry that failed again, workers whose events fail can
  fill the queue, and from then on, in every run, the task holds the same entry and the queue is the same:
  nothing is retried any more, because its only receiver waits to send to it.
\<close>
theorem retry_task_deadlocks:
  assumes "queue_process now e (dlq_world s) = (Inl err, dlq_world s)"
    and "dlq_phase s = Sending f" and "dlq_inv s"
  shows "\<exists>t. dlq_step\<^sup>*\<^sup>* s t \<and>
    (\<forall>u. dlq_step\<^sup>*\<^sup>* t u \<longrightarrow> dlq_phase u = Sending f \<and> dlq_queue u = dlq_queue t)"
proof -
  from assms(3) have "length (dlq_queue s) \<le> dlq_capacity" by (simp add: dlq_inv_def)
  from fill_up [OF assms(1,2) this] obtain t where
    t: "dlq_step\<^sup>*\<^sup>* s t" "dlq_phase t = Sending f" "length (dlq_queue t) = dlq_capacity" by blast
  have "dlq_phase u = Sending f \<and> dlq_queue u = dlq_queue t" if "dlq_step\<^sup>*\<^sup>* t u" for u
    using wedged_for_ever [OF that t(3), of f] t(2) by (simp add: wedged_def)
  with t(1) show ?thesis by blast
qed

lemma bad_event_fails:
  "queue_process 3 (sample_event\<lparr>ev_price := 0\<rparr>) (online sample_db) = (Inl sql_error, online sample_db)"
  by (simp add: queue_process_def Let_def insert_fill_dedup_def io_defs db_run_online insert_fill_stmt_def
      stmt_write_def fill_check_def row_of_fill_def event_fill_def)

lemma retry_task_deadlocks_witness:
  "\<exists>t. \<forall>u. dlq_step\<^sup>*\<^sup>* t u \<longrightarrow> dlq_queue u = dlq_queue t"
proof -
  let ?e = "sample_event\<lparr>ev_price := 0\<rparr>"
  let ?s = "sample_dlq\<lparr>dlq_phase := Sending \<lparr>ff_event = ?e, ff_retries = 1\<rparr>\<rparr>"
  have "queue_process 3 ?e (dlq_world ?s) = (Inl sql_error, dlq_world ?s)"
    using bad_event_fails by (simp add: sample_dlq_def)
  moreover have "dlq_inv ?s"
    using sample_dlq_inv by (simp add: dlq_inv_def entry_ok_def DLQ_RETRY_COUNT_def)
  ultimately show ?thesis
    using retry_task_deadlocks [of 3 ?e ?s sql_error "\<lparr>ff_event = ?e, ff_retries = 1\<rparr>"] by auto
qed

end
