(* ===== verification/Auth_Jwt.thy ===== *)
theory Auth_Jwt
  imports Common_Types
begin

text \<open>
  \<open>auth/src/lib.rs\<close>: JSON web tokens signed with HMAC. The cryptography, base64, JSON, the text of a UUID and
  the range of \<open>chrono\<close> are the record \<open>jwt_deps\<close>; \<open>jwt_laws\<close> collects what their documentation promises.
  Bytes are characters. The theorems show that the constant-time comparison is equality, that an issued
  token verifies until it expires, and that nothing but the signature of its own first two parts passes.
\<close>

record claims =
  sub :: string
  iat :: int
  exp :: int
  is_admin :: bool

record jwt_deps =
  b64_encode :: "string \<Rightarrow> string"
  b64_decode :: "string \<Rightarrow> string option"
  hmac :: "string \<Rightarrow> string \<Rightarrow> string option"
  claims_to_json :: "claims \<Rightarrow> string + string"
  claims_from_json :: "string \<Rightarrow> claims option"
  uuid_show :: "uuid \<Rightarrow> string"
  uuid_parse :: "string \<Rightarrow> uuid option"
  seconds_ok :: "int \<Rightarrow> bool"

definition jwt_laws :: "jwt_deps \<Rightarrow> bool" where
  "jwt_laws j \<longleftrightarrow>
     (\<forall>x. b64_decode j (b64_encode j x) = Some x \<and> CHR ''.'' \<notin> set (b64_encode j x))
     \<and> (\<forall>c t. claims_to_json j c = Inr t \<longrightarrow> claims_from_json j t = Some c)
     \<and> (\<forall>u. uuid_parse j (uuid_show j u) = Some u)"

definition JWT_HEADER :: string where
  "JWT_HEADER = ''{\"alg\":\"HS256\",\"typ\":\"JWT\"}''"

definition claims_user_id :: "jwt_deps \<Rightarrow> claims \<Rightarrow> user_id app_result" where
  "claims_user_id j c =
     (case uuid_parse j (sub c) of None \<Rightarrow> Inl Unauthorized | Some u \<Rightarrow> Inr (UserId u))"

text \<open>\<open>timestamp()\<close>: whole seconds, rounded down.\<close>

definition timestamp :: "datetime \<Rightarrow> int" where
  "timestamp now = now div 10 ^ 9"

definition is_expired :: "datetime \<Rightarrow> claims \<Rightarrow> bool" where
  "is_expired now c \<longleftrightarrow> exp c < timestamp now"

record jwt_service =
  jwt_secret :: string
  jwt_ttl_secs :: int

definition jwt_sign :: "jwt_deps \<Rightarrow> jwt_service \<Rightarrow> string \<Rightarrow> string app_result" where
  "jwt_sign j s input =
     (case hmac j (jwt_secret s) input of
        None \<Rightarrow> Inl (Internal [Lit ''hmac init failed''])
      | Some mac \<Rightarrow> Inr (b64_encode j mac))"

text \<open>\<open>issue\<close>; \<open>None\<close> is the panic of \<open>chrono\<close> when the expiry is out of its range.\<close>

definition jwt_issue ::
  "jwt_deps \<Rightarrow> jwt_service \<Rightarrow> datetime \<Rightarrow> user_id \<Rightarrow> bool \<Rightarrow> string app_result option" where
  "jwt_issue j s now u admin =
     (if \<not> seconds_ok j (timestamp now + jwt_ttl_secs s) then None
      else
        (let c = \<lparr>sub = uuid_show j (user_uuid u), iat = timestamp now,
                  exp = timestamp now + jwt_ttl_secs s, is_admin = admin\<rparr>
         in case claims_to_json j c of
              Inl e \<Rightarrow> Some (Inl (Internal [Foreign e]))
            | Inr json \<Rightarrow>
                (let signing_input = b64_encode j JWT_HEADER @ ''.'' @ b64_encode j json in
                 case jwt_sign j s signing_input of
                   Inl e \<Rightarrow> Some (Inl e)
                 | Inr sig \<Rightarrow> Some (Inr (signing_input @ ''.'' @ sig)))))"

text \<open>\<open>splitn(n, '.')\<close>: at most \<open>n\<close> parts, the last one unsplit.\<close>

fun splitn_dot :: "nat \<Rightarrow> string \<Rightarrow> string list" where
  "splitn_dot 0 s = []"
| "splitn_dot (Suc 0) s = [s]"
| "splitn_dot (Suc (Suc n)) s =
     (case dropWhile (\<lambda>c. c \<noteq> CHR ''.'') s of
        [] \<Rightarrow> [s]
      | _ # rest \<Rightarrow> takeWhile (\<lambda>c. c \<noteq> CHR ''.'') s # splitn_dot (Suc n) rest)"

definition byte_of :: "char \<Rightarrow> u8" where
  "byte_of c = word_of_nat (of_char c)"

definition constant_eq :: "string \<Rightarrow> string \<Rightarrow> bool" where
  "constant_eq a b =
     (if length a \<noteq> length b then False
      else fold (\<lambda>(x, y) acc. or acc (xor (byte_of x) (byte_of y))) (zip a b) 0 = 0)"

definition jwt_verify :: "jwt_deps \<Rightarrow> jwt_service \<Rightarrow> datetime \<Rightarrow> string \<Rightarrow> claims app_result" where
  "jwt_verify j s now token =
     (case splitn_dot 3 token of
        [p0, p1, p2] \<Rightarrow>
          (case jwt_sign j s (p0 @ ''.'' @ p1) of
             Inl e \<Rightarrow> Inl e
           | Inr expected \<Rightarrow>
               if \<not> constant_eq p2 expected then Inl Unauthorized
               else
                 (case b64_decode j p1 of
                    None \<Rightarrow> Inl Unauthorized
                  | Some payload \<Rightarrow>
                      (case claims_from_json j payload of
                         None \<Rightarrow> Inl Unauthorized
                       | Some c \<Rightarrow> if is_expired now c then Inl Unauthorized else Inr c)))
      | _ \<Rightarrow> Inl Unauthorized)"

section \<open>The comparison\<close>

lemma or_eq_0: "or a b = 0 \<longleftrightarrow> a = 0 \<and> b = (0 :: 'a::len word)"
  by (auto simp: bit_eq_iff bit_simps)

lemma xor_eq_0: "xor a b = 0 \<longleftrightarrow> a = (b :: 'a::len word)"
  by (auto simp: bit_eq_iff bit_simps)

lemma byte_of_inject: "byte_of x = byte_of y \<longleftrightarrow> x = y"
proof -
  have "unat (byte_of c) = of_char c" for c
    by (simp add: byte_of_def unat_of_nat)
  then show ?thesis by (metis of_char_eq_iff)
qed

lemma fold_or_zero:
  "fold (\<lambda>(x, y) acc. or acc (xor (byte_of x) (byte_of y))) ps a = 0 \<longleftrightarrow>
     a = 0 \<and> (\<forall>(x, y) \<in> set ps. x = y)"
  by (induction ps arbitrary: a) (auto simp: or_eq_0 xor_eq_0 byte_of_inject)

lemma constant_eq_iff: "constant_eq a b \<longleftrightarrow> a = b"
proof (cases "length a = length b")
  case True
  then have "(\<forall>(x, y) \<in> set (zip a b). x = y) \<longleftrightarrow> a = b"
    by (induction a b rule: list_induct2) auto
  with True show ?thesis by (simp add: constant_eq_def fold_or_zero)
next
  case False
  then show ?thesis by (auto simp: constant_eq_def)
qed

text \<open>
  The constant-time comparison of two byte strings is their equality.
\<close>
theorem constant_eq_is_equality: "constant_eq a b = (a = b)"
  by (rule constant_eq_iff)

section \<open>Tokens\<close>

lemma split_once:
  "CHR ''.'' \<notin> set a \<Longrightarrow> splitn_dot (Suc (Suc n)) (a @ ''.'' @ r) = a # splitn_dot (Suc n) r"
proof -
  assume a: "CHR ''.'' \<notin> set a"
  then have "\<And>x. x \<in> set a \<Longrightarrow> x \<noteq> CHR ''.''" by auto
  then have "dropWhile (\<lambda>c. c \<noteq> CHR ''.'') (a @ ''.'' @ r) = ''.'' @ r"
    "takeWhile (\<lambda>c. c \<noteq> CHR ''.'') (a @ ''.'' @ r) = a"
    by (simp_all add: dropWhile_append2 takeWhile_append2)
  then show ?thesis by simp
qed

lemma splitn_3:
  "splitn_dot 3 t = [a, b, c] \<Longrightarrow> t = a @ ''.'' @ b @ ''.'' @ c"
proof -
  have two: "splitn_dot (Suc (Suc n)) s = x # y # zs \<Longrightarrow>
      \<exists>r. s = x @ ''.'' @ r \<and> splitn_dot (Suc n) r = y # zs" for n s x y zs
    using takeWhile_dropWhile_id [of "\<lambda>c. c \<noteq> CHR ''.''" s]
    by (auto split: list.splits dest: dropWhile_eq_Cons_conv [THEN iffD1])
  assume "splitn_dot 3 t = [a, b, c]"
  then have "splitn_dot (Suc (Suc 1)) t = [a, b, c]" by (simp add: numeral_3_eq_3)
  from two [OF this] obtain r where r: "t = a @ ''.'' @ r" "splitn_dot (Suc (Suc 0)) r = [b, c]"
    by auto
  from two [OF r(2)] obtain q where "r = b @ ''.'' @ q" "splitn_dot (Suc 0) q = [c]" by auto
  with r(1) show ?thesis by simp
qed

text \<open>
  C33: A token issued for a user verifies, with the same user and the same administrator flag, at every moment
  up to its expiry, and is unauthorized at every later moment.
\<close>
theorem issued_token_verifies:
  assumes "jwt_laws j" and "jwt_issue j s now u admin = Some (Inr token)"
  shows "(timestamp later \<le> timestamp now + jwt_ttl_secs s \<longrightarrow>
      (\<exists>c. jwt_verify j s later token = Inr c \<and> claims_user_id j c = Inr u \<and> is_admin c = admin)) \<and>
    (timestamp now + jwt_ttl_secs s < timestamp later \<longrightarrow> jwt_verify j s later token = Inl Unauthorized)"
proof -
  let ?c = "\<lparr>sub = uuid_show j (user_uuid u), iat = timestamp now,
    exp = timestamp now + jwt_ttl_secs s, is_admin = admin\<rparr>"
  from assms(2) obtain json sig where json: "claims_to_json j ?c = Inr json"
    and sig: "jwt_sign j s (b64_encode j JWT_HEADER @ ''.'' @ b64_encode j json) = Inr sig"
    and token: "token = b64_encode j JWT_HEADER @ ''.'' @ b64_encode j json @ ''.'' @ sig"
    by (auto simp: jwt_issue_def Let_def split: if_splits sum.splits)
  have nodot: "CHR ''.'' \<notin> set (b64_encode j x)" and dec: "b64_decode j (b64_encode j x) = Some x"
    and parse: "uuid_parse j (uuid_show j v) = Some v" for x v
    using assms(1) by (simp_all add: jwt_laws_def)
  have decoded: "claims_from_json j json = Some ?c" using assms(1) json by (simp add: jwt_laws_def)
  have "splitn_dot 3 token = [b64_encode j JWT_HEADER, b64_encode j json, sig]"
    unfolding token numeral_3_eq_3
    by (subst split_once [OF nodot], subst split_once [OF nodot]) simp
  then have "jwt_verify j s later token = (if is_expired later ?c then Inl Unauthorized else Inr ?c)"
    by (simp add: jwt_verify_def sig [simplified] constant_eq_iff dec decoded)
  then show ?thesis
    by (auto simp: is_expired_def claims_user_id_def parse)
qed

text \<open>
  C34: Whatever token is accepted, it is two parts and a third that is exactly the encoded HMAC, under the
  service's secret, of the first two with the dot between; its second part decodes to the returned claims,
  which have not expired. The header part is never looked at.
\<close>
theorem accepted_token_is_signed:
  assumes "jwt_verify j s now token = Inr c"
  shows "\<exists>h p mac payload. token = h @ ''.'' @ p @ ''.'' @ b64_encode j mac \<and>
    hmac j (jwt_secret s) (h @ ''.'' @ p) = Some mac \<and> b64_decode j p = Some payload \<and>
    claims_from_json j payload = Some c \<and> timestamp now \<le> exp c"
proof -
  from assms obtain h p g e payload where
    parts: "splitn_dot 3 token = [h, p, g]" and sg: "jwt_sign j s (h @ ''.'' @ p) = Inr e" and
    eq: "g = e" and "b64_decode j p = Some payload" "claims_from_json j payload = Some c"
      "\<not> is_expired now c"
    by (auto simp: jwt_verify_def constant_eq_iff split: list.splits sum.splits option.splits if_splits)
  moreover from sg obtain mac where "hmac j (jwt_secret s) (h @ ''.'' @ p) = Some mac" "e = b64_encode j mac"
    by (auto simp: jwt_sign_def split: option.splits)
  ultimately show ?thesis
    using splitn_3 [OF parts] by (auto simp: is_expired_def)
qed

section \<open>Passwords\<close>

text \<open>
  \<open>PasswordService\<close> over the argon2 crate: \<open>hash_with salt\<close> and the parser and verifier of encoded hashes
  are parameters.
\<close>

definition password_hash :: "(string \<Rightarrow> string \<Rightarrow> string + string) \<Rightarrow> string \<Rightarrow> string \<Rightarrow> string app_result" where
  "password_hash hash_with salt password =
     (case hash_with password salt of
        Inl e \<Rightarrow> Inl (Internal [Lit ''password hash failed: '', Foreign e])
      | Inr h \<Rightarrow> Inr h)"

definition password_verify ::
  "(string \<Rightarrow> 'h option) \<Rightarrow> (string \<Rightarrow> 'h \<Rightarrow> bool) \<Rightarrow> string \<Rightarrow> string \<Rightarrow> unit app_result" where
  "password_verify parse_hash check password hash =
     (case parse_hash hash of
        None \<Rightarrow> Inl (Internal [Lit ''invalid hash''])
      | Some h \<Rightarrow> if check password h then Inr () else Inl Unauthorized)"

section \<open>An instance of the laws\<close>

text \<open>
  For the witnesses: the text of a UUID as 32 hexadecimal digits in the usual groups, and toy encodings
  that satisfy the laws.
\<close>

definition hex_digit :: "nat \<Rightarrow> char" where
  "hex_digit n = char_of (if n < 10 then 48 + n else 87 + n)"

definition hex_value :: "char \<Rightarrow> nat option" where
  "hex_value c = (let n = of_char c :: nat in
     if 48 \<le> n \<and> n \<le> 57 then Some (n - 48) else if 97 \<le> n \<and> n \<le> 102 then Some (n - 87) else None)"

fun hex_text :: "nat \<Rightarrow> nat \<Rightarrow> string" where
  "hex_text 0 x = []"
| "hex_text (Suc n) x = hex_digit (x mod 16) # hex_text n (x div 16)"

fun hex_read :: "string \<Rightarrow> nat option" where
  "hex_read [] = Some 0"
| "hex_read (c # s) =
     (case hex_value c of None \<Rightarrow> None | Some d \<Rightarrow> map_option (\<lambda>v. d + 16 * v) (hex_read s))"

definition hyphenate :: "string \<Rightarrow> string" where
  "hyphenate s = take 8 s @ ''-'' @ take 4 (drop 8 s) @ ''-'' @ take 4 (drop 12 s) @ ''-''
     @ take 4 (drop 16 s) @ ''-'' @ drop 20 s"

definition sample_uuid_show :: "uuid \<Rightarrow> string" where
  "sample_uuid_show u = hyphenate (rev (hex_text 32 (unat u)))"

definition sample_uuid_parse :: "string \<Rightarrow> uuid option" where
  "sample_uuid_parse s =
     (let t = filter (\<lambda>c. c \<noteq> CHR ''-'') s in
      if length t = 32 then map_option word_of_nat (hex_read (rev t)) else None)"

lemma hex_value_digit: "n < 16 \<Longrightarrow> hex_value (hex_digit n) = Some n \<and> hex_digit n \<noteq> CHR ''-''"
proof -
  assume n: "n < 16"
  have code: "of_char (hex_digit n) = (if n < 10 then 48 + n else 87 + n)"
    using n by (simp add: hex_digit_def)
  moreover have "hex_digit n \<noteq> CHR ''-''"
  proof
    assume "hex_digit n = CHR ''-''"
    then have "of_char (hex_digit n) = (45 :: nat)" by simp
    with code show False by (simp split: if_splits)
  qed
  ultimately show ?thesis using n by (simp add: hex_value_def Let_def)
qed

lemma hex_read_text: "hex_read (hex_text n x) = Some (x mod 16 ^ n)"
  by (induction n arbitrary: x) (simp_all add: hex_value_digit mod_mult2_eq)

lemma length_hex_text: "length (hex_text n x) = n"
  by (induction n arbitrary: x) auto

lemma hex_text_no_hyphen: "filter (\<lambda>c. c \<noteq> CHR ''-'') (hex_text n x) = hex_text n x"
  by (induction n arbitrary: x) (simp_all add: hex_value_digit)

lemma unhyphenate: "filter (\<lambda>c. c \<noteq> CHR ''-'') (hyphenate s) = filter (\<lambda>c. c \<noteq> CHR ''-'') s"
proof -
  have "s = take 8 s @ take 4 (drop 8 s) @ take 4 (drop 12 s) @ take 4 (drop 16 s) @ drop 20 s"
    using append_take_drop_id [of 8 s] append_take_drop_id [of 4 "drop 8 s"]
      append_take_drop_id [of 4 "drop 12 s"] append_take_drop_id [of 4 "drop 16 s"] by simp
  then have "filter (\<lambda>c. c \<noteq> CHR ''-'') s = filter (\<lambda>c. c \<noteq> CHR ''-'') (take 8 s @ take 4 (drop 8 s) @
      take 4 (drop 12 s) @ take 4 (drop 16 s) @ drop 20 s)" by simp
  then show ?thesis by (simp only: hyphenate_def filter_append) simp
qed

lemma sample_uuid_law: "sample_uuid_parse (sample_uuid_show u) = Some u"
proof -
  have "filter (\<lambda>c. c \<noteq> CHR ''-'') (sample_uuid_show u) = rev (hex_text 32 (unat u))"
    using hex_text_no_hyphen [of 32 "unat u"] by (simp add: sample_uuid_show_def unhyphenate rev_filter [symmetric])
  then show ?thesis
    using unat_bound [of u] by (simp add: sample_uuid_parse_def length_hex_text hex_read_text)
qed

fun sample_encode :: "string \<Rightarrow> string" where
  "sample_encode [] = []"
| "sample_encode (c # s) = hex_text 2 (of_char c) @ sample_encode s"

fun sample_decode :: "string \<Rightarrow> string option" where
  "sample_decode [] = Some []"
| "sample_decode [c] = None"
| "sample_decode (a # b # s) =
     (case hex_read [a, b] of None \<Rightarrow> None | Some n \<Rightarrow> map_option ((#) (char_of n)) (sample_decode s))"

lemma sample_decode_encode: "sample_decode (sample_encode s) = Some s"
proof (induction s)
  case (Cons c s)
  have two: "hex_text 2 n = [hex_digit (n mod 16), hex_digit (n div 16 mod 16)]" for n
    by (simp add: numeral_2_eq_2)
  have lt: "of_char c < (256 :: nat)" using mod_less_divisor [of 256 "of_char c"] by simp
  have "of_char c div 16 < (16 :: nat)" by (rule less_mult_imp_div_less) (use lt in simp)
  then have "hex_read [hex_digit (of_char c mod 16), hex_digit (of_char c div 16 mod 16)] = Some (of_char c)"
    by (simp add: hex_value_digit)
  with Cons show ?case by (simp add: two del: hex_read.simps)
qed simp

lemma hex_digit_no_dot: "n < 16 \<Longrightarrow> hex_digit n \<noteq> CHR ''.''"
proof
  assume n: "n < 16" and "hex_digit n = CHR ''.''"
  then have "of_char (hex_digit n) = (46 :: nat)" by simp
  with n show False by (simp add: hex_digit_def split: if_splits)
qed

lemma sample_encode_no_dot: "CHR ''.'' \<notin> set (sample_encode s)"
proof (induction s)
  case (Cons c s)
  have "CHR ''.'' \<notin> set (hex_text n x)" for n x
    by (induction n arbitrary: x) (simp_all add: hex_digit_no_dot [THEN not_sym])
  with Cons show ?case by simp
qed simp

definition sample_claims :: claims where
  "sample_claims = \<lparr>sub = sample_uuid_show 7, iat = 5, exp = 3605, is_admin = True\<rparr>"

definition sample_deps :: jwt_deps where
  "sample_deps =
     \<lparr>b64_encode = sample_encode, b64_decode = sample_decode, hmac = (\<lambda>k t. Some (k @ take 4 t)),
      claims_to_json = (\<lambda>c. if c = sample_claims then Inr ''claims'' else Inl ''unknown''),
      claims_from_json = (\<lambda>t. Some sample_claims), uuid_show = sample_uuid_show,
      uuid_parse = sample_uuid_parse, seconds_ok = (\<lambda>s. \<bar>s\<bar> < 8 * 10 ^ 12)\<rparr>"

lemma sample_deps_laws: "jwt_laws sample_deps"
  by (simp add: jwt_laws_def sample_deps_def sample_decode_encode sample_encode_no_dot sample_uuid_law)

lemma issued_token_verifies_witness:
  "\<exists>token c. jwt_issue sample_deps \<lparr>jwt_secret = ''k'', jwt_ttl_secs = 3600\<rparr> 5000000000 (UserId 7) True =
      Some (Inr token) \<and>
    jwt_verify sample_deps \<lparr>jwt_secret = ''k'', jwt_ttl_secs = 3600\<rparr> 9000000000 token = Inr c \<and> is_admin c"
proof -
  let ?s = "\<lparr>jwt_secret = ''k'', jwt_ttl_secs = 3600\<rparr>"
  have c: "\<lparr>sub = sample_uuid_show 7, iat = 5, exp = 3605, is_admin = True\<rparr> = sample_claims"
    by (simp add: sample_claims_def)
  obtain token where issue: "jwt_issue sample_deps ?s 5000000000 (UserId 7) True = Some (Inr token)"
    by (simp add: jwt_issue_def jwt_sign_def timestamp_def sample_deps_def Let_def c)
  from issued_token_verifies [OF sample_deps_laws issue, of 9000000000] issue show ?thesis
    by (auto simp: timestamp_def)
qed

lemma accepted_token_is_signed_witness:
  "\<exists>token h p mac. token = h @ ''.'' @ p @ ''.'' @ b64_encode sample_deps mac \<and>
     hmac sample_deps ''k'' (h @ ''.'' @ p) = Some mac"
proof -
  let ?s = "\<lparr>jwt_secret = ''k'', jwt_ttl_secs = 3600\<rparr>"
  define p where "p = sample_encode ''claims''"
  define g where "g = sample_encode (''k'' @ take 4 (''h.'' @ p))"
  have p: "CHR ''.'' \<notin> set p" "sample_decode p = Some ''claims''"
    unfolding p_def by (rule sample_encode_no_dot, rule sample_decode_encode)
  have "splitn_dot 3 (''h'' @ ''.'' @ p @ ''.'' @ g) = [''h'', p, g]"
    unfolding numeral_3_eq_3 by (subst split_once, simp) (subst split_once [OF p(1)], simp)
  then have "jwt_verify sample_deps ?s 9000000000 (''h'' @ ''.'' @ p @ ''.'' @ g) = Inr sample_claims"
    by (simp add: jwt_verify_def jwt_sign_def constant_eq_iff is_expired_def timestamp_def
        sample_deps_def p(2) sample_claims_def g_def)
  from accepted_token_is_signed [OF this] show ?thesis by auto
qed

end
