(* ===== verification/Rate_Limiter.thy ===== *)
theory Rate_Limiter
  imports App_Error
begin

text \<open>
  \<open>api-http/src/middleware/rate_limit.rs\<close>: a fixed window per key. Instants and durations are integers
  (nanoseconds). The background task that drops expired windows is an event of its own. The theorems
  bound the admissions of a key in any period-long interval, and show that keys do not interfere.
\<close>

record window =
  win_count :: u32
  win_end :: int

type_synonym windows = "string \<Rightarrow> window option"

definition limiter_check :: "u32 \<Rightarrow> int \<Rightarrow> int \<Rightarrow> string \<Rightarrow> windows \<Rightarrow> bool \<times> windows" where
  "limiter_check limit period now key ws =
     (let entry = (case ws key of
                     None \<Rightarrow> \<lparr>win_count = 0, win_end = now + period\<rparr> | Some w \<Rightarrow> w)
      in if win_end entry < now
         then (True, ws(key \<mapsto> entry\<lparr>win_count := 1, win_end := now + period\<rparr>))
         else if limit \<le> win_count entry
         then (False, ws(key \<mapsto> entry))
         else (True, ws(key \<mapsto> entry\<lparr>win_count := win_count entry + 1\<rparr>)))"

definition limiter_sweep :: "int \<Rightarrow> windows \<Rightarrow> windows" where
  "limiter_sweep now ws = (\<lambda>k. case ws k of
     None \<Rightarrow> None | Some w \<Rightarrow> if now < win_end w then Some w else None)"

datatype limiter_event =
    Check int string
  | Sweep int

fun event_time :: "limiter_event \<Rightarrow> int" where
  "event_time (Check t k) = t"
| "event_time (Sweep t) = t"

text \<open>A run of events; the result lists the key and verdict of each check.\<close>

fun limiter_run :: "u32 \<Rightarrow> int \<Rightarrow> limiter_event list \<Rightarrow> windows \<Rightarrow> (string \<times> bool) list \<times> windows" where
  "limiter_run limit period [] ws = ([], ws)"
| "limiter_run limit period (Sweep t # es) ws = limiter_run limit period es (limiter_sweep t ws)"
| "limiter_run limit period (Check t k # es) ws =
     (case limiter_check limit period t k ws of (v, ws') \<Rightarrow>
        case limiter_run limit period es ws' of (vs, ws'') \<Rightarrow> ((k, v) # vs, ws''))"

definition admitted :: "string \<Rightarrow> (string \<times> bool) list \<Rightarrow> nat" where
  "admitted k vs = length (filter (\<lambda>v. v = (k, True)) vs)"

text \<open>The two middlewares: who is limited, how often, and the answer.\<close>

record limit_rule =
  rule_limit :: u32
  rule_period :: int
  rule_error :: string
  rule_retry_after :: string

definition auth_rate_limit :: limit_rule where
  "auth_rate_limit =
     \<lparr>rule_limit = 10, rule_period = 60 * 10 ^ 9, rule_error = ''too many requests'',
      rule_retry_after = ''60''\<rparr>"

definition order_rate_limit :: limit_rule where
  "order_rate_limit =
     \<lparr>rule_limit = 60, rule_period = 10 ^ 9, rule_error = ''order rate limit exceeded'',
      rule_retry_after = ''1''\<rparr>"

datatype 'resp limited = Next 'resp | TooMany http_status "(string \<times> string) list" "(string \<times> string) list"

definition rate_limited ::
  "limit_rule \<Rightarrow> int \<Rightarrow> string \<Rightarrow> windows \<Rightarrow> 'resp \<Rightarrow> 'resp limited \<times> windows" where
  "rate_limited rule now ip ws next =
     (case limiter_check (rule_limit rule) (rule_period rule) now ip ws of
        (False, ws') \<Rightarrow>
          (TooMany TOO_MANY_REQUESTS
             [(''Content-Type'', ''application/json''), (''Retry-After'', rule_retry_after rule)]
             [(''error'', rule_error rule), (''code'', ''rate_limited'')], ws')
      | (True, ws') \<Rightarrow> (Next next, ws'))"

section \<open>Bounds\<close>

text \<open>
  What a key may still be admitted in an interval that ends at \<open>e\<close> and is one period long: the rest of its
  window, and a whole new window when the current one ends before \<open>e\<close>.
\<close>

definition allowance :: "u32 \<Rightarrow> int \<Rightarrow> string \<Rightarrow> windows \<Rightarrow> nat" where
  "allowance limit e k ws =
     (case ws k of
        None \<Rightarrow> unat limit
      | Some w \<Rightarrow> (unat limit - unat (win_count w)) + (if e \<le> win_end w then 0 else unat limit))"

lemma check_other_key:
  "limiter_check limit period t k ws = (v, ws') \<Longrightarrow> k' \<noteq> k \<Longrightarrow> ws' k' = ws k'"
  by (auto simp: limiter_check_def Let_def split: if_splits)

lemma check_allowance:
  assumes run: "limiter_check limit period t k ws = (v, ws')" and lim: "0 < limit"
    and t: "a \<le> t" "t < a + period" and w: "\<forall>w. ws k = Some w \<longrightarrow> win_count w \<le> limit"
  shows "(if v then 1 else 0) + allowance limit (a + period) k ws' \<le> allowance limit (a + period) k ws
    \<and> (\<forall>w. ws' k = Some w \<longrightarrow> win_count w \<le> limit)"
proof -
  from lim have pos: "0 < unat limit" by (simp add: word_less_nat_alt)
  have one: "(1 :: u32) \<le> limit" using pos by (simp add: word_le_nat_alt)
  have nz: "limit \<noteq> 0" using lim by auto
  show ?thesis
  proof (cases "ws k")
    case None
    have pp: "0 < period" using t by simp
    from None run nz pp have "v" "ws' = ws(k \<mapsto> \<lparr>win_count = 1, win_end = t + period\<rparr>)"
      by (auto simp: limiter_check_def Let_def split: if_splits)
    with None t pos one show ?thesis by (simp add: allowance_def)
  next
    case (Some x)
    show ?thesis
    proof (cases "win_end x < t")
      case True
      with Some run t one pos show ?thesis
        by (auto simp: limiter_check_def Let_def allowance_def)
    next
      case notexp: False
      show ?thesis
      proof (cases "limit \<le> win_count x")
        case True
        with notexp Some run w show ?thesis
          by (auto simp: limiter_check_def Let_def allowance_def)
      next
        case False
        then have lt: "win_count x < limit" by simp
        from unat_next [OF lt] have inc: "unat (win_count x + 1) = unat (win_count x) + 1" .
        from lt inc have "unat (win_count x) < unat limit" "win_count x + 1 \<le> limit"
          by (simp_all add: word_less_nat_alt word_le_nat_alt)
        with notexp False Some run inc show ?thesis
          by (auto simp: limiter_check_def Let_def allowance_def)
      qed
    qed
  qed
qed

lemma sweep_allowance:
  assumes "t < e" and "\<forall>w. ws k = Some w \<longrightarrow> win_count w \<le> limit"
  shows "allowance limit e k (limiter_sweep t ws) \<le> allowance limit e k ws
    \<and> (\<forall>w. limiter_sweep t ws k = Some w \<longrightarrow> win_count w \<le> limit)"
  using assms by (cases "ws k") (auto simp: allowance_def limiter_sweep_def)

lemma run_allowance:
  "limiter_run limit period es ws = (vs, ws') \<Longrightarrow> 0 < limit \<Longrightarrow>
     \<forall>ev \<in> set es. a \<le> event_time ev \<and> event_time ev < a + period \<Longrightarrow>
     \<forall>w. ws k = Some w \<longrightarrow> win_count w \<le> limit \<Longrightarrow>
     admitted k vs + allowance limit (a + period) k ws' \<le> allowance limit (a + period) k ws"
proof (induction limit period es ws arbitrary: vs ws' rule: limiter_run.induct)
  case (1 limit period ws)
  then show ?case by (simp add: admitted_def)
next
  case (2 limit period t es ws)
  from 2(4) have "t < a + period" by simp
  from sweep_allowance [where k = k and ws = ws and limit = limit, OF this 2(5)]
  have sw: "allowance limit (a + period) k (limiter_sweep t ws) \<le> allowance limit (a + period) k ws"
    "\<forall>w. limiter_sweep t ws k = Some w \<longrightarrow> win_count w \<le> limit" by auto
  have "admitted k vs + allowance limit (a + period) k ws' \<le> allowance limit (a + period) k (limiter_sweep t ws)"
    by (rule 2(1)) (use 2(2-4) sw(2) in auto)
  with sw(1) show ?case by linarith
next
  case (3 limit period t k' es ws)
  obtain v ws1 where c: "limiter_check limit period t k' ws = (v, ws1)" by fastforce
  obtain vs2 where r: "limiter_run limit period es ws1 = (vs2, ws')" and vs: "vs = (k', v) # vs2"
    using 3(2) c by (auto split: prod.splits)
  have t: "a \<le> t" "t < a + period" using 3(4) by simp_all
  have rest: "\<forall>ev \<in> set es. a \<le> event_time ev \<and> event_time ev < a + period" using 3(4) by simp
  show ?case
  proof (cases "k' = k")
    case True
    from check_allowance [OF c 3(3) t] 3(5) True
    have step: "(if v then 1 else 0) + allowance limit (a + period) k ws1 \<le> allowance limit (a + period) k ws"
      "\<forall>w. ws1 k = Some w \<longrightarrow> win_count w \<le> limit" by auto
    from 3(1) [OF c [symmetric] r 3(3) rest step(2)] step(1) True vs show ?thesis
      by (auto simp: admitted_def split: if_splits)
  next
    case False
    with check_other_key [OF c] have same: "ws1 k = ws k" by auto
    then have "allowance limit (a + period) k ws1 = allowance limit (a + period) k ws"
      by (simp add: allowance_def)
    with 3(1) [OF c [symmetric] r 3(3) rest] same 3(5) False vs show ?thesis
      by (auto simp: admitted_def)
  qed
qed

lemma limiter_init: "\<forall>w. (\<lambda>_. None) k = Some w \<longrightarrow> win_count w \<le> limit"
  by simp

text \<open>
  C37: In any interval one period long a key is admitted at most twice the limit, and at most the limit when
  it had no window at the start, whatever the other keys do and whenever the sweeper runs.
\<close>
theorem admissions_bounded:
  assumes "limiter_run limit period es ws = (vs, ws')" and "0 < limit"
    and "\<forall>ev \<in> set es. a \<le> event_time ev \<and> event_time ev < a + period"
    and "\<forall>w. ws k = Some w \<longrightarrow> win_count w \<le> limit"
  shows "admitted k vs \<le> 2 * unat limit \<and> (ws k = None \<longrightarrow> admitted k vs \<le> unat limit)"
proof -
  have "allowance limit (a + period) k ws \<le> 2 * unat limit"
    by (auto simp: allowance_def split: option.splits)
  moreover have "ws k = None \<Longrightarrow> allowance limit (a + period) k ws = unat limit"
    by (simp add: allowance_def)
  ultimately show ?thesis using run_allowance [OF assms] by linarith
qed

lemma admissions_bounded_witness:
  "admitted ''ip'' (fst (limiter_run 2 10 [Check 0 ''ip'', Check 1 ''ip'', Sweep 2, Check 3 ''ip'']
     (\<lambda>_. None))) \<le> 2"
proof -
  obtain vs ws' where run: "limiter_run 2 10 [Check 0 ''ip'', Check 1 ''ip'', Sweep 2, Check 3 ''ip'']
     (\<lambda>_. None) = (vs, ws')" by fastforce
  from admissions_bounded [OF run, of 0 "''ip''"] run show ?thesis by simp
qed

end
