(* ===== verification/Breakers.thy ===== *)
theory Breakers
  imports App_Error
begin

text \<open>
  The two circuit breakers of the workspace: \<open>common/src/circuit_breaker.rs\<close> and
  \<open>orders/src/circuit_breaker.rs\<close>. Both admit calls while closed and open after a number of failures; the
  locale \<open>failure_counter\<close> states this shared contract and both are instances of it. They differ in how
  they recover. The first compares clock readings taken as \<open>Instant::now().elapsed()\<close>, the time since the
  instant just created: the reading is the argument \<open>lag\<close>, a few nanoseconds and so zero seconds in any
  normal execution. The second measures the time since its last failure.
\<close>

section \<open>The shared contract\<close>

datatype verdict = Rejected | Done bool

text \<open>
  \<open>counted s\<close> is the number of failures of a closed breaker and \<open>None\<close> for one that is not closed; \<open>call\<close>
  takes a clock reading and whether the protected operation succeeds.
\<close>

locale failure_counter =
  fixes call :: "'t \<Rightarrow> bool \<Rightarrow> 's \<Rightarrow> verdict \<times> 's"
    and counted :: "'s \<Rightarrow> nat option"
    and threshold :: "'s \<Rightarrow> nat"
  assumes closed_success: "counted s = Some n \<Longrightarrow>
      \<exists>s'. call t True s = (Done True, s') \<and> counted s' = Some n \<and> threshold s' = threshold s"
    and closed_failure: "counted s = Some n \<Longrightarrow> n + 1 < threshold s \<Longrightarrow>
      \<exists>s'. call t False s = (Done False, s') \<and> counted s' = Some (n + 1) \<and> threshold s' = threshold s"
    and closed_trips: "counted s = Some n \<Longrightarrow> threshold s \<le> n + 1 \<Longrightarrow>
      \<exists>s'. call t False s = (Done False, s') \<and> counted s' = None"

fun calls :: "('t \<Rightarrow> bool \<Rightarrow> 's \<Rightarrow> verdict \<times> 's) \<Rightarrow> ('t \<times> bool) list \<Rightarrow> 's \<Rightarrow> verdict list \<times> 's" where
  "calls call [] s = ([], s)"
| "calls call ((t, ok) # xs) s =
     (case call t ok s of (v, s') \<Rightarrow> case calls call xs s' of (vs, s'') \<Rightarrow> (v # vs, s''))"

lemma calls_append:
  "calls call (xs @ ys) s = (case calls call xs s of (vs, s') \<Rightarrow>
     case calls call ys s' of (us, s'') \<Rightarrow> (vs @ us, s''))"
  by (induction xs arbitrary: s) (auto split: prod.splits)

definition failures_in :: "('t \<times> bool) list \<Rightarrow> nat" where
  "failures_in xs = length (filter (\<lambda>x. \<not> snd x) xs)"

context failure_counter
begin

text \<open>Below the threshold every call runs and every failure counts, whatever successes come between.\<close>

lemma runs_below_threshold:
  "counted s = Some n \<Longrightarrow> n + failures_in xs < threshold s \<Longrightarrow>
     \<exists>s'. calls call xs s = (map (\<lambda>x. Done (snd x)) xs, s') \<and>
       counted s' = Some (n + failures_in xs) \<and> threshold s' = threshold s"
proof (induction xs arbitrary: s n)
  case Nil
  then show ?case by (simp add: failures_in_def)
next
  case (Cons x xs)
  obtain t ok where x: "x = (t, ok)" by (cases x)
  show ?case
  proof (cases ok)
    case True
    from closed_success [OF Cons.prems(1), of t] obtain s1 where
      s1: "call t True s = (Done True, s1)" "counted s1 = Some n" "threshold s1 = threshold s" by blast
    from Cons.IH [OF s1(2)] Cons.prems(2) s1 show ?thesis
      by (auto simp: x True failures_in_def split: prod.splits)
  next
    case False
    with x Cons.prems(2) have lt: "n + 1 < threshold s" "n + 1 + failures_in xs < threshold s"
      by (simp_all add: failures_in_def)
    from closed_failure [OF Cons.prems(1) lt(1), of t] obtain s1 where
      s1: "call t False s = (Done False, s1)" "counted s1 = Some (n + 1)" "threshold s1 = threshold s" by blast
    from Cons.IH [OF s1(2)] lt(2) s1 show ?thesis
      by (auto simp: x False failures_in_def split: prod.splits)
  qed
qed

text \<open>The failure that reaches the threshold is the last one that is counted.\<close>

lemma trips_at_threshold:
  "counted s = Some n \<Longrightarrow> n + failures_in xs + 1 = threshold s \<Longrightarrow>
     \<exists>s'. calls call (xs @ [(t, False)]) s = (map (\<lambda>x. Done (snd x)) (xs @ [(t, False)]), s') \<and> counted s' = None"
proof -
  assume a: "counted s = Some n" "n + failures_in xs + 1 = threshold s"
  then obtain s1 where s1: "calls call xs s = (map (\<lambda>x. Done (snd x)) xs, s1)"
    "counted s1 = Some (n + failures_in xs)" "threshold s1 = threshold s"
    using runs_below_threshold [of s n xs] by auto
  from closed_trips [OF s1(2), of t] s1(3) a(2) obtain s2 where
    s2: "call t False s1 = (Done False, s2)" "counted s2 = None" by auto
  with s1(1) show ?thesis by (simp add: calls_append)
qed

end

section \<open>The breaker of \<open>common\<close>\<close>

datatype circuit_state = Closed | Open | HalfOpen

record breaker_config =
  cfg_failure_threshold :: u64
  cfg_reset_timeout :: u64
  cfg_failure_window :: u64

definition default_breaker_config :: breaker_config where
  "default_breaker_config =
     \<lparr>cfg_failure_threshold = 5, cfg_reset_timeout = 30, cfg_failure_window = 60\<rparr>"

record breaker =
  br_state :: circuit_state
  br_config :: breaker_config
  br_failures :: u64
  br_last_failure_time :: u64
  br_last_state_change :: u64

definition breaker_new :: "breaker_config \<Rightarrow> breaker" where
  "breaker_new cfg =
     \<lparr>br_state = Closed, br_config = cfg, br_failures = 0, br_last_failure_time = 0,
      br_last_state_change = 0\<rparr>"

definition allow_call :: "u64 \<Rightarrow> breaker \<Rightarrow> bool \<times> breaker" where
  "allow_call now b =
     (case br_state b of
        Closed \<Rightarrow> (True, b)
      | Open \<Rightarrow>
          if cfg_reset_timeout (br_config b) \<le> word_saturating_sub now (br_last_state_change b)
          then (True, b\<lparr>br_state := HalfOpen, br_last_state_change := now\<rparr>)
          else (False, b)
      | HalfOpen \<Rightarrow> (True, b))"

definition record_success :: "u64 \<Rightarrow> breaker \<Rightarrow> breaker" where
  "record_success now b =
     (if br_state b = HalfOpen
      then b\<lparr>br_state := Closed, br_failures := 0, br_last_state_change := now\<rparr> else b)"

definition record_failure :: "u64 \<Rightarrow> breaker \<Rightarrow> breaker" where
  "record_failure now b =
     (let n = br_failures b + 1;
          b' = b\<lparr>br_last_failure_time := now, br_failures := n\<rparr>
      in if br_state b = HalfOpen
         then b'\<lparr>br_state := Open, br_last_state_change := now\<rparr>
         else if br_state b = Closed \<and> cfg_failure_threshold (br_config b) \<le> n
         then b'\<lparr>br_state := Open, br_last_state_change := now\<rparr>
         else b')"

definition breaker_reset :: "u64 \<Rightarrow> breaker \<Rightarrow> breaker" where
  "breaker_reset now b = b\<lparr>br_state := Closed, br_failures := 0, br_last_state_change := now\<rparr>"

text \<open>A protected call as the clients make it: ask, run, record.\<close>

definition guarded_call :: "u64 \<Rightarrow> bool \<Rightarrow> breaker \<Rightarrow> verdict \<times> breaker" where
  "guarded_call now ok b =
     (case allow_call now b of (allowed, b') \<Rightarrow>
        if \<not> allowed then (Rejected, b')
        else (Done ok, if ok then record_success now b' else record_failure now b'))"

text \<open>The registry; the map is read and then written under two separate locks.\<close>

type_synonym 'h registry = "(string \<times> 'h) list"

definition get_or_create :: "string \<Rightarrow> breaker_config \<Rightarrow> breaker registry \<Rightarrow> breaker \<times> breaker registry" where
  "get_or_create name cfg r =
     (case map_of r name of
        Some b \<Rightarrow> (b, r)
      | None \<Rightarrow> (breaker_new cfg, (name, breaker_new cfg) # r))"

definition registry_get :: "string \<Rightarrow> breaker registry \<Rightarrow> breaker option" where
  "registry_get name r = map_of r name"

definition breaker_counted :: "breaker \<Rightarrow> nat option" where
  "breaker_counted b =
     (if br_state b = Closed \<and> br_failures b < cfg_failure_threshold (br_config b)
      then Some (unat (br_failures b)) else None)"

interpretation common_breaker: failure_counter guarded_call breaker_counted
  "\<lambda>b. unat (cfg_failure_threshold (br_config b))"
proof
  have inc: "unat (x + 1 :: u64) = unat x + 1" if "x < y" for x y :: u64
    using that by (rule unat_next)
  show "\<exists>s'. guarded_call t True s = (Done True, s') \<and> breaker_counted s' = Some n \<and>
      unat (cfg_failure_threshold (br_config s')) = unat (cfg_failure_threshold (br_config s))"
    if "breaker_counted s = Some n" for s n t
    using that by (auto simp: guarded_call_def allow_call_def record_success_def breaker_counted_def
        split: if_splits)
  show "\<exists>s'. guarded_call t False s = (Done False, s') \<and> breaker_counted s' = Some (n + 1) \<and>
      unat (cfg_failure_threshold (br_config s')) = unat (cfg_failure_threshold (br_config s))"
    if "breaker_counted s = Some n" "n + 1 < unat (cfg_failure_threshold (br_config s))" for s n t
    using that inc [of "br_failures s" "cfg_failure_threshold (br_config s)"]
    by (auto simp: guarded_call_def allow_call_def record_failure_def breaker_counted_def Let_def
        word_le_nat_alt word_less_nat_alt split: if_splits)
  show "\<exists>s'. guarded_call t False s = (Done False, s') \<and> breaker_counted s' = None"
    if "breaker_counted s = Some n" "unat (cfg_failure_threshold (br_config s)) \<le> n + 1" for s n t
    using that inc [of "br_failures s" "cfg_failure_threshold (br_config s)"]
    by (intro exI [of _ "record_failure t s"]) (auto simp: guarded_call_def allow_call_def record_failure_def breaker_counted_def Let_def
        word_le_nat_alt word_less_nat_alt split: if_splits)
qed

lemma guarded_call_config: "guarded_call t ok b = (v, b') \<Longrightarrow> br_config b' = br_config b"
  by (auto simp: guarded_call_def allow_call_def record_success_def record_failure_def Let_def
      split: circuit_state.splits if_splits)

lemma calls_config: "calls guarded_call xs b = (vs, b') \<Longrightarrow> br_config b' = br_config b"
  by (induction xs arbitrary: b vs) (auto split: prod.splits dest: guarded_call_config)

lemma opens_at_threshold:
  assumes "failures_in xs + 1 = unat (cfg_failure_threshold cfg)"
  shows "\<exists>b. calls guarded_call (xs @ [(t, False)]) (breaker_new cfg) =
      (map (\<lambda>x. Done (snd x)) (xs @ [(t, False)]), b) \<and> br_state b = Open \<and> br_config b = cfg"
proof -
  from assms have pos: "0 < cfg_failure_threshold cfg"
    by (simp add: word_less_nat_alt)
  then have c: "breaker_counted (breaker_new cfg) = Some 0"
    by (simp add: breaker_counted_def breaker_new_def)
  from common_breaker.runs_below_threshold [OF c, of xs] assms obtain b where
    b: "calls guarded_call xs (breaker_new cfg) = (map (\<lambda>x. Done (snd x)) xs, b)"
      "breaker_counted b = Some (failures_in xs)"
      "unat (cfg_failure_threshold (br_config b)) = unat (cfg_failure_threshold cfg)"
    by (auto simp: breaker_new_def)
  from calls_config [OF b(1)] have cfg: "br_config b = cfg" by (simp add: breaker_new_def)
  note b
  then have cl: "br_state b = Closed" "unat (br_failures b) = failures_in xs"
    "br_failures b < cfg_failure_threshold (br_config b)"
    by (auto simp: breaker_counted_def split: if_splits)
  have "cfg_failure_threshold (br_config b) \<le> br_failures b + 1"
    using unat_next [OF cl(3)] cl(2) b(3) assms by (simp add: word_le_nat_alt)
  then have "guarded_call t False b = (Done False, record_failure t b) \<and> br_state (record_failure t b) = Open"
    using cl(1) by (simp add: guarded_call_def allow_call_def record_failure_def Let_def)
  moreover have "br_config (record_failure t b) = cfg"
    using cfg by (simp add: record_failure_def Let_def)
  ultimately show ?thesis using b(1) by (simp add: calls_append)
qed

text \<open>
  From a new breaker with a positive threshold: while fewer than the threshold of calls have failed, in
  whatever order successes and failures come and whatever the clock says, every call runs; the call that
  fails as the threshold-th still runs and leaves the breaker open. Successes in between do not reset
  the count.
\<close>
theorem breaker_opens_at_threshold:
  assumes "failures_in xs + 1 = unat (cfg_failure_threshold cfg)"
  shows "\<exists>b. calls guarded_call (xs @ [(t, False)]) (breaker_new cfg) =
      (map (\<lambda>x. Done (snd x)) (xs @ [(t, False)]), b) \<and> br_state b = Open"
  using opens_at_threshold [OF assms] by blast

lemma breaker_opens_at_threshold_witness:
  "\<exists>b. calls guarded_call ([(0, False), (0, True), (0, False), (0, False), (7, False)] @ [(0, False)])
       (breaker_new default_breaker_config) =
     ([Done False, Done True, Done False, Done False, Done False, Done False], b) \<and> br_state b = Open"
  using breaker_opens_at_threshold [of "[(0, False), (0, True), (0, False), (0, False), (7, False)]"
      default_breaker_config 0]
  by (simp add: failures_in_def default_breaker_config_def)

lemma open_rejects:
  assumes "br_state b = Open" and "\<forall>(lag, ok) \<in> set xs. lag < cfg_reset_timeout (br_config b)"
  shows "calls guarded_call xs b = (replicate (length xs) Rejected, b)"
  using assms(2)
proof (induction xs)
  case (Cons x xs)
  obtain lag ok where x: "x = (lag, ok)" by (cases x)
  have "word_saturating_sub lag (br_last_state_change b) \<le> lag"
    using unat_saturating_sub [of lag "br_last_state_change b"] by (simp add: word_le_nat_alt)
  with Cons.prems x have "\<not> cfg_reset_timeout (br_config b) \<le> word_saturating_sub lag (br_last_state_change b)"
    by auto
  with assms(1) have "guarded_call lag ok b = (Rejected, b)"
    by (simp add: guarded_call_def allow_call_def)
  with Cons x show ?case by simp
qed simp

text \<open>
  An open breaker never lets a call through again, however much time passes between the calls: it
  compares the time since an instant created a moment before, which stays below the reset timeout.
\<close>
theorem open_breaker_never_recovers:
  assumes "br_state b = Open" and "\<forall>(lag, ok) \<in> set xs. lag < cfg_reset_timeout (br_config b)"
  shows "calls guarded_call xs b = (replicate (length xs) Rejected, b)"
  by (rule open_rejects [OF assms])

lemma open_breaker_never_recovers_witness:
  "calls guarded_call [(0, True), (0, True), (1, True)]
     ((breaker_new default_breaker_config)\<lparr>br_state := Open\<rparr>) =
   ([Rejected, Rejected, Rejected], (breaker_new default_breaker_config)\<lparr>br_state := Open\<rparr>)"
  using open_breaker_never_recovers [of "(breaker_new default_breaker_config)\<lparr>br_state := Open\<rparr>"
      "[(0, True), (0, True), (1, True)]"]
  by (simp add: breaker_new_def default_breaker_config_def numeral_3_eq_3)

section \<open>The breaker of \<open>orders\<close>\<close>

text \<open>
  Times are nanoseconds of the monotonic clock. A call has two steps, admission and the recording of its
  result; between them other calls may be admitted.
\<close>

record order_breaker =
  ob_failure_threshold :: u32
  ob_recovery_duration :: int
  ob_failure_count :: u32
  ob_last_failure :: "int option"
  ob_state :: circuit_state
  ob_half_open_attempts :: u32

definition order_breaker_new :: "u32 \<Rightarrow> u64 \<Rightarrow> order_breaker" where
  "order_breaker_new failure_threshold recovery_secs =
     \<lparr>ob_failure_threshold = failure_threshold, ob_recovery_duration = uint recovery_secs * 10 ^ 9,
      ob_failure_count = 0, ob_last_failure = None, ob_state = Closed, ob_half_open_attempts = 0\<rparr>"

definition ob_admit :: "int \<Rightarrow> order_breaker \<Rightarrow> bool \<times> order_breaker" where
  "ob_admit now b =
     (case ob_state b of
        Open \<Rightarrow>
          if (case ob_last_failure b of None \<Rightarrow> True | Some t \<Rightarrow> ob_recovery_duration b \<le> max 0 (now - t))
          then (True, b\<lparr>ob_state := HalfOpen, ob_half_open_attempts := 0\<rparr>)
          else (False, b)
      | HalfOpen \<Rightarrow>
          (\<not> 1 \<le> ob_half_open_attempts b,
           b\<lparr>ob_half_open_attempts := ob_half_open_attempts b + 1\<rparr>)
      | Closed \<Rightarrow> (True, b))"

definition ob_record_failure :: "int \<Rightarrow> order_breaker \<Rightarrow> order_breaker" where
  "ob_record_failure now b =
     (let count = ob_failure_count b + 1;
          b' = b\<lparr>ob_failure_count := count, ob_last_failure := Some now\<rparr>
      in if ob_failure_threshold b \<le> count then b'\<lparr>ob_state := Open\<rparr> else b')"

definition ob_finish :: "int \<Rightarrow> bool \<Rightarrow> order_breaker \<Rightarrow> order_breaker" where
  "ob_finish now ok b =
     (if ok then
        (if ob_state b = HalfOpen then b\<lparr>ob_state := Closed, ob_failure_count := 0\<rparr> else b)
      else ob_record_failure now b)"

definition ob_call :: "int \<times> int \<Rightarrow> bool \<Rightarrow> order_breaker \<Rightarrow> verdict \<times> order_breaker" where
  "ob_call t ok b =
     (case ob_admit (fst t) b of (admitted, b') \<Rightarrow>
        if admitted then (Done ok, ob_finish (snd t) ok b') else (Rejected, b'))"

definition ob_counted :: "order_breaker \<Rightarrow> nat option" where
  "ob_counted b =
     (if ob_state b = Closed \<and> ob_failure_count b < ob_failure_threshold b
      then Some (unat (ob_failure_count b)) else None)"

interpretation orders_breaker: failure_counter ob_call ob_counted "\<lambda>b. unat (ob_failure_threshold b)"
proof
  show "\<exists>s'. ob_call t True s = (Done True, s') \<and> ob_counted s' = Some n \<and>
      unat (ob_failure_threshold s') = unat (ob_failure_threshold s)"
    if "ob_counted s = Some n" for s n t
    using that by (auto simp: ob_call_def ob_admit_def ob_finish_def ob_counted_def split: if_splits)
  show "\<exists>s'. ob_call t False s = (Done False, s') \<and> ob_counted s' = Some (n + 1) \<and>
      unat (ob_failure_threshold s') = unat (ob_failure_threshold s)"
    if "ob_counted s = Some n" "n + 1 < unat (ob_failure_threshold s)" for s n t
    using that unat_next [of "ob_failure_count s" "ob_failure_threshold s"]
    by (auto simp: ob_call_def ob_admit_def ob_finish_def ob_record_failure_def ob_counted_def Let_def
        word_le_nat_alt word_less_nat_alt split: if_splits)
  show "\<exists>s'. ob_call t False s = (Done False, s') \<and> ob_counted s' = None"
    if "ob_counted s = Some n" "unat (ob_failure_threshold s) \<le> n + 1" for s n t
    using that unat_next [of "ob_failure_count s" "ob_failure_threshold s"]
    by (intro exI [of _ "ob_record_failure (snd t) s"])
      (auto simp: ob_call_def ob_admit_def ob_finish_def ob_record_failure_def ob_counted_def Let_def
        word_le_nat_alt word_less_nat_alt split: if_splits)
qed

text \<open>
  An open breaker of \<open>orders\<close> whose last failure is known rejects every call before the recovery time
  has passed, unchanged; from then on a call runs as a trial: success closes the breaker and clears its
  count, and failure (the count is already at the threshold) opens it again from the time it was recorded.
\<close>
theorem orders_breaker_recovers:
  assumes "ob_state b = Open" and "ob_last_failure b = Some failed_at" and "0 \<le> ob_recovery_duration b"
    and "ob_failure_threshold b \<le> ob_failure_count b" and "ob_failure_count b < 4294967295"
  shows "(t < failed_at + ob_recovery_duration b \<longrightarrow> failed_at \<le> t \<longrightarrow> ob_call (t, t') ok b = (Rejected, b)) \<and>
    (failed_at + ob_recovery_duration b \<le> t \<longrightarrow>
       (\<exists>b'. ob_call (t, t') True b = (Done True, b') \<and> ob_state b' = Closed \<and> ob_failure_count b' = 0) \<and>
       (\<exists>b'. ob_call (t, t') False b = (Done False, b') \<and> ob_state b' = Open \<and> ob_last_failure b' = Some t'))"
proof -
  have "ob_failure_threshold b \<le> ob_failure_count b + 1"
    using assms(4) unat_next [OF assms(5)] by (simp add: word_le_nat_alt)
  with assms show ?thesis
    by (auto simp: ob_call_def ob_admit_def ob_finish_def ob_record_failure_def Let_def)
qed

text \<open>
  While a trial call of a half-open breaker is in flight, a second call is admitted as well, because the
  move to half-open does not count as an attempt; the third is rejected.
\<close>
theorem half_open_admits_two:
  assumes "ob_state b = Open" and "ob_last_failure b = None \<or>
      (\<exists>t0. ob_last_failure b = Some t0 \<and> ob_recovery_duration b \<le> t - t0 \<and> t0 \<le> t)"
  shows "\<exists>b1 b2 b3. ob_admit t b = (True, b1) \<and> ob_admit t1 b1 = (True, b2) \<and> ob_admit t2 b2 = (False, b3) \<and>
    ob_state b1 = HalfOpen"
  using assms by (auto simp: ob_admit_def)

text \<open>
  When the trial calls are dropped before they finish, the breaker stays half-open and rejects every
  later call at any time, as long as its 32-bit attempt counter does not wrap: nothing but the end of an
  admitted call leaves the half-open state.
\<close>
theorem abandoned_trial_locks_breaker:
  assumes "ob_state b = HalfOpen" and "1 \<le> ob_half_open_attempts b"
    and "unat (ob_half_open_attempts b) + length xs < 2 ^ 32"
  shows "fst (calls ob_call xs b) = replicate (length xs) Rejected \<and>
    ob_state (snd (calls ob_call xs b)) = HalfOpen"
  using assms
proof (induction xs arbitrary: b)
  case (Cons x xs)
  obtain t ok where x: "x = (t, ok)" by (cases x)
  let ?b = "b\<lparr>ob_half_open_attempts := ob_half_open_attempts b + 1\<rparr>"
  have c: "ob_call t ok b = (Rejected, ?b)"
    using Cons.prems(1,2) by (simp add: ob_call_def ob_admit_def)
  have "unat (ob_half_open_attempts b + 1) = unat (ob_half_open_attempts b) + 1"
    using Cons.prems(3) by (intro unat_plus_one) simp
  then have "fst (calls ob_call xs ?b) = replicate (length xs) Rejected \<and>
      ob_state (snd (calls ob_call xs ?b)) = HalfOpen"
    using Cons.prems by (intro Cons.IH) (auto simp: word_le_nat_alt)
  with c x show ?case by (auto split: prod.splits)
qed simp

lemma orders_breaker_recovers_witness:
  "\<exists>b'. ob_call (31, 32) False ((order_breaker_new 2 0)\<lparr>ob_state := Open, ob_failure_count := 2,
      ob_last_failure := Some 10\<rparr>) = (Done False, b') \<and> ob_last_failure b' = Some 32"
  using orders_breaker_recovers [where b = "(order_breaker_new 2 0)\<lparr>ob_state := Open, ob_failure_count := 2,
      ob_last_failure := Some 10\<rparr>" and failed_at = 10 and t = 31 and t' = 32]
  by (auto simp: order_breaker_new_def)

lemma half_open_admits_two_witness:
  "\<exists>b1 b2 b3. ob_admit 5 ((order_breaker_new 2 0)\<lparr>ob_state := Open\<rparr>) = (True, b1) \<and>
     ob_admit 5 b1 = (True, b2) \<and> ob_admit 5 b2 = (False, b3)"
  using half_open_admits_two [of "(order_breaker_new 2 0)\<lparr>ob_state := Open\<rparr>" 5 5 5]
  by (auto simp: order_breaker_new_def)

lemma abandoned_trial_locks_breaker_witness:
  "fst (calls ob_call [((10 ^ 18, 10 ^ 18), True)]
      ((order_breaker_new 2 0)\<lparr>ob_state := HalfOpen, ob_half_open_attempts := 1\<rparr>)) = [Rejected]"
  using abandoned_trial_locks_breaker [of "(order_breaker_new 2 0)\<lparr>ob_state := HalfOpen, ob_half_open_attempts := 1\<rparr>"
      "[((10 ^ 18, 10 ^ 18), True)]"]
  by simp

end
