(* ===== verification/Floats.thy ===== *)
theory Floats
  imports Complex_Main Prelude "HOL-Library.Log_Nat"
begin

text \<open>
  The language's \<open>f64\<close>: binary64 values as NaN, signed infinities and signed exact rationals, with the
  operations rounded to nearest, ties to even. Only what the modelled code uses is here: rounding,
  multiplication, comparison with zero, \<open>round\<close> and the saturating cast to \<open>i64\<close>.
\<close>

text \<open>\<open>Fin neg r\<close> has the magnitude \<open>r\<close> (not negative) and the sign bit \<open>neg\<close>.\<close>

datatype f64 = NaN | Inf bool | Fin bool rat

definition pow2 :: "int \<Rightarrow> rat" where
  "pow2 e = (if 0 \<le> e then of_int (2 ^ nat e) else Fract 1 (2 ^ nat (- e)))"

definition round_half_even :: "rat \<Rightarrow> int" where
  "round_half_even r =
     (let n = \<lfloor>r\<rfloor>; d = r - of_int n in
      if d < 1 / 2 then n else if 1 / 2 < d then n + 1 else if even n then n else n + 1)"

text \<open>The exponent of a positive rational: \<open>2 ^ e \<le> r < 2 ^ (e + 1)\<close>.\<close>

definition exponent_of :: "rat \<Rightarrow> int" where
  "exponent_of r =
     (case quotient_of r of (a, b) \<Rightarrow>
        (let e = bitlen a - bitlen b in
         if pow2 e \<le> r then e else e - 1))"

definition round_magnitude :: "bool \<Rightarrow> rat \<Rightarrow> f64" where
  "round_magnitude neg r =
     (if r = 0 then Fin neg 0
      else
        (let q = pow2 (max (exponent_of r - 52) (- 1074));
             v = of_int (round_half_even (r / q)) * q
         in if v \<noteq> 0 \<and> 1024 \<le> exponent_of v then Inf neg else Fin neg v))"

definition f64_mul :: "f64 \<Rightarrow> f64 \<Rightarrow> f64" where
  "f64_mul x y =
     (case (x, y) of
        (NaN, _) \<Rightarrow> NaN
      | (_, NaN) \<Rightarrow> NaN
      | (Inf a, Inf b) \<Rightarrow> Inf (a \<noteq> b)
      | (Inf a, Fin b r) \<Rightarrow> if r = 0 then NaN else Inf (a \<noteq> b)
      | (Fin a r, Inf b) \<Rightarrow> if r = 0 then NaN else Inf (a \<noteq> b)
      | (Fin a r, Fin b s) \<Rightarrow> round_magnitude (a \<noteq> b) (r * s))"

text \<open>\<open>x <= 0.0\<close>, false for NaN.\<close>

fun f64_le_zero :: "f64 \<Rightarrow> bool" where
  "f64_le_zero NaN = False"
| "f64_le_zero (Inf neg) = neg"
| "f64_le_zero (Fin neg r) = (neg \<or> r = 0)"

text \<open>\<open>f64::round\<close>: to the nearest integer, halves away from zero.\<close>

fun f64_round :: "f64 \<Rightarrow> f64" where
  "f64_round NaN = NaN"
| "f64_round (Inf neg) = Inf neg"
| "f64_round (Fin neg r) = Fin neg (of_int \<lfloor>r + 1 / 2\<rfloor>)"

text \<open>\<open>as i64\<close>: truncating, saturating, NaN to zero.\<close>

fun f64_as_i64 :: "f64 \<Rightarrow> i64" where
  "f64_as_i64 NaN = 0"
| "f64_as_i64 (Inf neg) = i64_of (if neg then - (2 ^ 63) else 2 ^ 63 - 1)"
| "f64_as_i64 (Fin neg r) = i64_of (max (- (2 ^ 63)) (min (2 ^ 63 - 1) (if neg then - \<lfloor>r\<rfloor> else \<lfloor>r\<rfloor>)))"

lemma f64_as_i64_Fin:
  "sint (f64_as_i64 (Fin neg r)) = max (- (2 ^ 63)) (min (2 ^ 63 - 1) (if neg then - \<lfloor>r\<rfloor> else \<lfloor>r\<rfloor>))"
  unfolding f64_as_i64.simps by (rule sint_i64_of) (auto simp: i64_ok_def)

text \<open>Rounding keeps what is representable: an integer multiple of the quantum below the overflow bound.\<close>

lemma round_half_even_int: "round_half_even (of_int n) = n"
  by (simp add: round_half_even_def Let_def)

lemma round_magnitude_exact:
  assumes "r = of_int k * pow2 (max (exponent_of r - 52) (- 1074))" and "r \<noteq> 0" and "exponent_of r < 1024"
  shows "round_magnitude neg r = Fin neg r"
proof -
  let ?q = "pow2 (max (exponent_of r - 52) (- 1074))"
  have q: "?q \<noteq> 0" by (simp add: pow2_def Fract_of_int_quotient)
  then have "r / ?q = of_int k" using assms(1) by (simp add: field_simps)
  then have "of_int (round_half_even (r / ?q)) * ?q = r"
    using assms(1) by (simp add: round_half_even_int)
  with assms(2,3) show ?thesis by (simp add: round_magnitude_def Let_def)
qed

text \<open>Amounts of money: \<open>(amount * 10_000.0).round() as i64\<close>.\<close>

definition amount_units :: "f64 \<Rightarrow> i64" where
  "amount_units amount = f64_as_i64 (f64_round (f64_mul amount (Fin False 10000)))"

end
