(* ===== verification/Polymarket_Client.thy ===== *)
theory Polymarket_Client
  imports Breakers Floats Common_Types
begin

text \<open>
  \<open>polymarket/src/client.rs\<close>: the REST client of the exchange. A request is a record of what is handed to the
  HTTP library; the library's answer to it is an argument \<open>send\<close>: an error, or a status and a body that may
  fail to arrive. Parsing a body, Keccak and the text of a timestamp are parameters. Every call returns,
  beside its result, the requests it has sent. The theorem about orders says that five failures in the
  life of a client silence it for good.
\<close>

section \<open>Requests and responses\<close>

text \<open>\<open>serde_json::Value\<close>, with integers and floats as numbers of their own; it has no NaN and no infinities.\<close>

datatype json_value =
    JNull
  | JText string
  | JFloat f64
  | JInt int
  | JBool bool
  | JArr "json_value list"
  | JObj "(string \<times> json_value) list"

definition json_number :: "f64 \<Rightarrow> json_value" where
  "json_number x = (case x of Fin _ _ \<Rightarrow> JFloat x | _ \<Rightarrow> JNull)"

datatype http_method = GET | POST | DELETE

record http_request =
  hr_method :: http_method
  hr_url :: string
  hr_query :: "(string \<times> string) list"
  hr_headers :: "(string \<times> string) list"
  hr_body :: "(string \<times> json_value) list option"

record http_response =
  rsp_status :: nat
  rsp_text :: "string option"

type_synonym http_send = "http_request \<Rightarrow> string + http_response"

record client_deps =
  cd_keccak_hex :: "string \<Rightarrow> string"
  cd_show_int :: "int \<Rightarrow> string"

record client =
  pc_base_url :: string
  pc_api_key :: string
  pc_api_secret :: string
  pc_api_passphrase :: string
  pc_breaker :: "breaker option"

definition POLYMARKET_HOST :: string where
  "POLYMARKET_HOST = ''clob.polymarket.com''"

text \<open>\<open>new\<close>; the constant \<open>POLYMARKET_API_URL\<close> it uses is not defined in the repository.\<close>

definition client_new :: "string \<Rightarrow> string \<Rightarrow> string \<Rightarrow> string \<Rightarrow> client" where
  "client_new api_url key secret passphrase =
     \<lparr>pc_base_url = api_url, pc_api_key = key, pc_api_secret = secret, pc_api_passphrase = passphrase,
      pc_breaker = None\<rparr>"

definition with_circuit_breaker :: "breaker_config \<Rightarrow> client \<Rightarrow> client" where
  "with_circuit_breaker cfg c = c\<lparr>pc_breaker := Some (breaker_new cfg)\<rparr>"

definition sign_message :: "client_deps \<Rightarrow> string \<Rightarrow> string" where
  "sign_message d message = cd_keccak_hex d message"

definition auth_headers :: "client_deps \<Rightarrow> int \<Rightarrow> client \<Rightarrow> http_request \<Rightarrow> http_request" where
  "auth_headers d timestamp c r =
     (let message = cd_show_int d timestamp @ ''GET/clob/config'';
          signature = sign_message d message
      in r\<lparr>hr_headers := hr_headers r @
           [(''POLYMARKET-API-KEY'', pc_api_key c), (''POLYMARKET-SIGNATURE'', signature),
            (''POLYMARKET-TIMESTAMP'', cd_show_int d timestamp),
            (''POLYMARKET-PASSPHRASE'', pc_api_passphrase c), (''Host'', POLYMARKET_HOST)]\<rparr>)"

definition plain_request :: "http_method \<Rightarrow> string \<Rightarrow> (string \<times> string) list \<Rightarrow> http_request" where
  "plain_request m url query =
     \<lparr>hr_method = m, hr_url = url, hr_query = query, hr_headers = [], hr_body = None\<rparr>"

definition is_success :: "nat \<Rightarrow> bool" where
  "is_success s \<longleftrightarrow> 200 \<le> s \<and> s < 300"

definition text_or_default :: "http_response \<Rightarrow> string" where
  "text_or_default r = (case rsp_text r of None \<Rightarrow> [] | Some t \<Rightarrow> t)"

definition handle_response :: "(string \<Rightarrow> string + 'a) \<Rightarrow> http_response \<Rightarrow> 'a app_result" where
  "handle_response parse r =
     (if is_success (rsp_status r) then
        (case rsp_text r of
           None \<Rightarrow> Inl (Internal [Lit ''JSON parse error: '', Foreign ''body''])
         | Some t \<Rightarrow> (case parse t of
               Inl e \<Rightarrow> Inl (Internal [Lit ''JSON parse error: '', Foreign e])
             | Inr a \<Rightarrow> Inr a))
      else Inl (Internal [Lit ''Polymarket API returned '', IntText (int (rsp_status r)), Lit '': '',
             Lit (text_or_default r)]))"

definition send_and_parse :: "http_send \<Rightarrow> (string \<Rightarrow> string + 'a) \<Rightarrow> http_request \<Rightarrow> 'a app_result" where
  "send_and_parse send parse r =
     (case send r of
        Inl e \<Rightarrow> Inl (Internal [Lit ''Polymarket API error: '', Foreign e])
      | Inr rsp \<Rightarrow> handle_response parse rsp)"

section \<open>Reading operations\<close>

text \<open>The request each of the readers sends; all of them then \<open>send_and_parse\<close>.\<close>

definition get_markets_request :: "client_deps \<Rightarrow> int \<Rightarrow> client \<Rightarrow> http_request" where
  "get_markets_request d t c =
     auth_headers d t c (plain_request GET (pc_base_url c @ ''/markets'')
       [(''active'', ''true''), (''archived'', ''false'')])"

definition get_market_request :: "client_deps \<Rightarrow> int \<Rightarrow> string \<Rightarrow> client \<Rightarrow> http_request" where
  "get_market_request d t market_id c =
     auth_headers d t c (plain_request GET (pc_base_url c @ ''/markets/'' @ market_id) [])"

definition get_orderbook_request :: "client_deps \<Rightarrow> int \<Rightarrow> string \<Rightarrow> string \<Rightarrow> client \<Rightarrow> http_request" where
  "get_orderbook_request d t market_id asset_id c =
     auth_headers d t c (plain_request GET (pc_base_url c @ ''/markets/'' @ market_id @ ''/orderbook'')
       [(''asset_id'', asset_id)])"

definition get_trades_request :: "client_deps \<Rightarrow> int \<Rightarrow> string \<Rightarrow> string \<Rightarrow> nat \<Rightarrow> client \<Rightarrow> http_request" where
  "get_trades_request d t market_id asset_id n c =
     auth_headers d t c (plain_request GET (pc_base_url c @ ''/markets/'' @ market_id @ ''/trades'')
       [(''asset_id'', asset_id), (''limit'', cd_show_int d (int n))])"

datatype exchange_status = XOpen | XFilled | XCancelled | XLive | XPartiallyFilled

fun exchange_status_text :: "exchange_status \<Rightarrow> string" where
  "exchange_status_text XOpen = ''open''"
| "exchange_status_text XFilled = ''filled''"
| "exchange_status_text XCancelled = ''cancelled''"
| "exchange_status_text XLive = ''live''"
| "exchange_status_text XPartiallyFilled = ''partially_filled''"

definition get_orders_request ::
  "client_deps \<Rightarrow> int \<Rightarrow> string option \<Rightarrow> exchange_status option \<Rightarrow> client \<Rightarrow> http_request" where
  "get_orders_request d t market_id status c =
     auth_headers d t c (plain_request GET (pc_base_url c @ ''/orders'')
       ((case market_id of None \<Rightarrow> [] | Some m \<Rightarrow> [(''marketId'', m)])
        @ (case status of None \<Rightarrow> [] | Some s \<Rightarrow> [(''status'', exchange_status_text s)])))"

definition get_balance_request :: "client_deps \<Rightarrow> int \<Rightarrow> client \<Rightarrow> http_request" where
  "get_balance_request d t c = auth_headers d t c (plain_request GET (pc_base_url c @ ''/balance'') [])"

definition get_user_profile_request :: "client_deps \<Rightarrow> int \<Rightarrow> client \<Rightarrow> http_request" where
  "get_user_profile_request d t c = auth_headers d t c (plain_request GET (pc_base_url c @ ''/profile'') [])"

definition get_api_key_credentials_request :: "client_deps \<Rightarrow> int \<Rightarrow> client \<Rightarrow> http_request" where
  "get_api_key_credentials_request d t c =
     auth_headers d t c (plain_request GET (pc_base_url c @ ''/auth/api-key-nonce'') [])"

section \<open>Orders\<close>

datatype exchange_side = XBuy | XSell

fun exchange_side_text :: "exchange_side \<Rightarrow> string" where
  "exchange_side_text XBuy = ''buy''"
| "exchange_side_text XSell = ''sell''"

record create_order_request =
  cor_market_id :: string
  cor_asset_id :: string
  cor_price :: f64
  cor_size :: f64
  cor_side :: exchange_side
  cor_taker_fee :: "f64 option"
  cor_maker_fee :: "f64 option"
  cor_nonce :: u64
  cor_self_trade_behavior :: "string option"
  cor_time_in_force :: string
  cor_expiration :: "u64 option"
  cor_neg_risk :: "bool option"

record create_order_response =
  cos_order_id :: string
  cos_status :: exchange_status
  cos_taking_fee :: f64
  cos_making_fee :: f64

definition json_option :: "('a \<Rightarrow> json_value) \<Rightarrow> 'a option \<Rightarrow> json_value" where
  "json_option f x = (case x of None \<Rightarrow> JNull | Some a \<Rightarrow> f a)"

definition create_order_body :: "create_order_request \<Rightarrow> (string \<times> json_value) list" where
  "create_order_body o' =
     [(''marketId'', JText (cor_market_id o')), (''assetId'', JText (cor_asset_id o')),
      (''price'', json_number (cor_price o')), (''size'', json_number (cor_size o')),
      (''side'', JText (exchange_side_text (cor_side o'))), (''nonce'', JInt (uint (cor_nonce o'))),
      (''takerFee'', json_option json_number (cor_taker_fee o')), (''makerFee'', json_option json_number (cor_maker_fee o')),
      (''selfTradeBehavior'', json_option JText (cor_self_trade_behavior o')),
      (''timeInForce'', JText (cor_time_in_force o')),
      (''expiration'', json_option (\<lambda>e. JInt (uint e)) (cor_expiration o')),
      (''negRisk'', json_option JBool (cor_neg_risk o'))]"

definition create_order_http :: "client_deps \<Rightarrow> int \<Rightarrow> client \<Rightarrow> create_order_request \<Rightarrow> http_request" where
  "create_order_http d t c o' =
     auth_headers d t c
       \<lparr>hr_method = POST, hr_url = pc_base_url c @ ''/orders'', hr_query = [], hr_headers = [],
        hr_body = Some (create_order_body o')\<rparr>"

text \<open>Asking the breaker, and recording the result; \<open>lag\<close> is the breaker's clock reading.\<close>

definition check_circuit_breaker :: "u64 \<Rightarrow> client \<Rightarrow> bool \<times> client" where
  "check_circuit_breaker lag c =
     (case pc_breaker c of
        None \<Rightarrow> (True, c)
      | Some b \<Rightarrow> (case allow_call lag b of (ok, b') \<Rightarrow> (ok, c\<lparr>pc_breaker := Some b'\<rparr>)))"

definition record_result :: "u64 \<Rightarrow> bool \<Rightarrow> client \<Rightarrow> client" where
  "record_result lag ok c =
     c\<lparr>pc_breaker := map_option (if ok then record_success lag else record_failure lag) (pc_breaker c)\<rparr>"

definition is_ok :: "'a app_result \<Rightarrow> bool" where
  "is_ok r = (case r of Inl e \<Rightarrow> False | Inr a \<Rightarrow> True)"

definition create_order ::
  "client_deps \<Rightarrow> (string \<Rightarrow> string + create_order_response) \<Rightarrow> u64 \<Rightarrow> int \<Rightarrow> http_send \<Rightarrow>
     create_order_request \<Rightarrow> client \<Rightarrow> (create_order_response app_result \<times> http_request list) \<times> client" where
  "create_order d parse lag t send o' c =
     (case check_circuit_breaker lag c of
        (False, c') \<Rightarrow> ((Inl (External [Lit ''Circuit breaker open'']), []), c')
      | (True, c') \<Rightarrow>
          (let r = create_order_http d t c' o';
               result = send_and_parse send parse r
           in ((result, [r]), record_result lag (is_ok result) c')))"

definition cancel_exchange_order ::
  "client_deps \<Rightarrow> int \<Rightarrow> http_send \<Rightarrow> string \<Rightarrow> client \<Rightarrow> unit app_result \<times> http_request list" where
  "cancel_exchange_order d t send order_id c =
     (let r = auth_headers d t c (plain_request DELETE (pc_base_url c @ ''/orders/'' @ order_id) []) in
      (case send r of
         Inl e \<Rightarrow> Inl (External [Lit ''Polymarket API error: '', Foreign e])
       | Inr rsp \<Rightarrow>
           if is_success (rsp_status rsp) then Inr ()
           else Inl (Internal [Lit ''Failed to cancel order: '', IntText (int (rsp_status rsp)), Lit '' - '',
                  Lit (text_or_default rsp)]),
       [r]))"

section \<open>Properties\<close>

text \<open>A call of \<open>create_order\<close> is a guarded call of the breaker of \<open>common\<close>.\<close>

record order_event =
  ev_lag :: u64
  ev_time :: int
  ev_send :: http_send
  ev_order :: create_order_request

fun create_orders ::
  "client_deps \<Rightarrow> (string \<Rightarrow> string + create_order_response) \<Rightarrow> order_event list \<Rightarrow> client \<Rightarrow>
     (create_order_response app_result \<times> http_request list) list \<times> client" where
  "create_orders d parse [] c = ([], c)"
| "create_orders d parse (e # es) c =
     (case create_order d parse (ev_lag e) (ev_time e) (ev_send e) (ev_order e) c of (r, c') \<Rightarrow>
        (case create_orders d parse es c' of (rs, c'') \<Rightarrow> (r # rs, c'')))"

text \<open>Whether the exchange would accept the order of an event.\<close>

definition answers ::
  "client_deps \<Rightarrow> (string \<Rightarrow> string + create_order_response) \<Rightarrow> client \<Rightarrow> order_event \<Rightarrow> bool" where
  "answers d parse c e =
     is_ok (send_and_parse (ev_send e) parse (create_order_http d (ev_time e) c (ev_order e)))"

definition same_account :: "client \<Rightarrow> client \<Rightarrow> bool" where
  "same_account c c' \<longleftrightarrow> pc_base_url c' = pc_base_url c \<and> pc_api_key c' = pc_api_key c
     \<and> pc_api_secret c' = pc_api_secret c \<and> pc_api_passphrase c' = pc_api_passphrase c"

lemma same_account_request: "same_account c c' \<Longrightarrow> create_order_http d t c' o' = create_order_http d t c o'"
  by (simp add: same_account_def create_order_http_def auth_headers_def)

lemma same_account_answers: "same_account c c' \<Longrightarrow> answers d parse c' e = answers d parse c e"
  by (simp add: answers_def same_account_request)

lemma create_order_guarded:
  assumes "pc_breaker c = Some b"
    and "create_order d parse (ev_lag e) (ev_time e) (ev_send e) (ev_order e) c = ((r, sent), c')"
  obtains v b' where "guarded_call (ev_lag e) (answers d parse c e) b = (v, b')" "pc_breaker c' = Some b'"
    "same_account c c'"
    "if v = Rejected then r = Inl (External [Lit ''Circuit breaker open'']) \<and> sent = []
     else sent = [create_order_http d (ev_time e) c (ev_order e)] \<and> v = Done (is_ok r)"
proof -
  obtain ok b1 where a: "allow_call (ev_lag e) b = (ok, b1)" by (cases "allow_call (ev_lag e) b")
  have sa: "same_account c (c\<lparr>pc_breaker := x\<rparr>)" for x by (simp add: same_account_def)
  show ?thesis
  proof (cases ok)
    case False
    with assms a show ?thesis
      by (intro that [of Rejected b1]) (auto simp: create_order_def check_circuit_breaker_def
          guarded_call_def same_account_def)
  next
    case True
    with assms a show ?thesis
      using same_account_request [OF sa [of "Some b1"]]
      by (intro that [of "Done (is_ok r)" "if is_ok r then record_success (ev_lag e) b1 else record_failure (ev_lag e) b1"])
        (auto simp: create_order_def check_circuit_breaker_def record_result_def guarded_call_def
          same_account_def answers_def Let_def)
  qed
qed

lemma create_orders_guarded:
  assumes "pc_breaker c = Some b" and "create_orders d parse es c = (rs, c')"
  obtains vs b' where "calls guarded_call (map (\<lambda>e. (ev_lag e, answers d parse c e)) es) b = (vs, b')"
    "pc_breaker c' = Some b'" "same_account c c'" "length vs = length es"
    "map (\<lambda>v. v \<noteq> Rejected) vs = map (\<lambda>r. snd r \<noteq> []) rs"
  using assms
proof (induction es arbitrary: c b rs thesis)
  case Nil
  then show ?case by (simp add: same_account_def)
next
  case (Cons e es)
  obtain r sent c1 where one: "create_order d parse (ev_lag e) (ev_time e) (ev_send e) (ev_order e) c = ((r, sent), c1)"
    by (metis surj_pair)
  obtain rs1 where rest: "create_orders d parse es c1 = (rs1, c')" and rs: "rs = (r, sent) # rs1"
    using Cons.prems(3) one by (auto split: prod.splits)
  from one obtain v b1 where g: "guarded_call (ev_lag e) (answers d parse c e) b = (v, b1)"
    "pc_breaker c1 = Some b1" "same_account c c1"
    "if v = Rejected then r = Inl (External [Lit ''Circuit breaker open'']) \<and> sent = []
     else sent = [create_order_http d (ev_time e) c (ev_order e)] \<and> v = Done (is_ok r)"
    by (rule create_order_guarded [OF Cons.prems(2)])
  obtain vs b' where t: "calls guarded_call (map (\<lambda>e. (ev_lag e, answers d parse c1 e)) es) b1 = (vs, b')"
    "pc_breaker c' = Some b'" "same_account c1 c'" "length vs = length es"
    "map (\<lambda>v. v \<noteq> Rejected) vs = map (\<lambda>r. snd r \<noteq> []) rs1"
    by (rule Cons.IH [OF _ g(2) rest])
  from t(1) have "calls guarded_call (map (\<lambda>e. (ev_lag e, answers d parse c e)) (e # es)) b = (v # vs, b')"
    using g(1) by (simp add: same_account_answers [OF g(3)])
  then show ?case
    using t(2-) g(3,4) rs by (intro Cons.prems(1) [of "v # vs" b']) (auto simp: same_account_def split: if_splits)
qed

text \<open>
  Take a client with a breaker of positive threshold. As long as fewer than the threshold of its orders
  have failed every order is sent to the exchange; from the failure that reaches the threshold on, however
  many orders succeeded in between and however long one waits, no later order is ever sent. Each reading
  of the breaker's clock is below the reset timeout, as the time since an instant just created is.
\<close>
theorem exchange_silenced_for_good:
  assumes "create_orders d parse (es @ e # fs) (with_circuit_breaker cfg c) = (rs, c')"
    and "failures_in (map (\<lambda>e. (ev_lag e, answers d parse c e)) es) + 1 = unat (cfg_failure_threshold cfg)"
    and "\<not> answers d parse c e" and "\<forall>f \<in> set fs. ev_lag f < cfg_reset_timeout cfg"
  shows "map (\<lambda>r. snd r \<noteq> []) rs = replicate (length es + 1) True @ replicate (length fs) False"
proof -
  let ?c = "with_circuit_breaker cfg c"
  let ?xs = "map (\<lambda>e. (ev_lag e, answers d parse c e))"
  have acc: "same_account c ?c" by (simp add: same_account_def with_circuit_breaker_def)
  have "pc_breaker ?c = Some (breaker_new cfg)" by (simp add: with_circuit_breaker_def)
  then obtain vs b' where
    vs': "calls guarded_call (map (\<lambda>e. (ev_lag e, answers d parse ?c e)) (es @ e # fs)) (breaker_new cfg) = (vs, b')"
      "map (\<lambda>v. v \<noteq> Rejected) vs = map (\<lambda>r. snd r \<noteq> []) rs"
    using assms(1) by (rule create_orders_guarded)
  then have vs: "calls guarded_call (?xs (es @ e # fs)) (breaker_new cfg) = (vs, b')"
    by (simp only: same_account_answers [OF acc])
  from opens_at_threshold [OF assms(2), of "ev_lag e"] obtain b where
    b: "calls guarded_call (?xs es @ [(ev_lag e, False)]) (breaker_new cfg) =
        (map (\<lambda>x. Done (snd x)) (?xs es @ [(ev_lag e, False)]), b)" "br_state b = Open" "br_config b = cfg"
    by blast
  have "calls guarded_call (?xs fs) b = (replicate (length fs) Rejected, b)"
    using open_rejects [OF b(2), of "?xs fs"] assms(4) b(3) by simp
  with b(1) vs assms(3) have "vs = map (\<lambda>x. Done (snd x)) (?xs es @ [(ev_lag e, False)]) @ replicate (length fs) Rejected"
    using calls_append [of guarded_call "?xs es @ [(ev_lag e, False)]" "?xs fs" "breaker_new cfg"] by simp
  then show ?thesis
    unfolding vs'(2) [symmetric] by (simp add: map_replicate_const comp_def replicate_append_same)
qed

definition sample_client :: client where
  "sample_client = client_new ''https://clob'' ''key'' ''secret'' ''pass''"

definition sample_client_deps :: client_deps where
  "sample_client_deps = \<lparr>cd_keccak_hex = id, cd_show_int = (\<lambda>i. ''0'')\<rparr>"

definition sample_exchange_order :: create_order_request where
  "sample_exchange_order =
     \<lparr>cor_market_id = ''m'', cor_asset_id = [], cor_price = Fin False (1 / 2), cor_size = Fin False 1,
      cor_side = XBuy, cor_taker_fee = None, cor_maker_fee = None, cor_nonce = 1,
      cor_self_trade_behavior = None, cor_time_in_force = ''GTC'', cor_expiration = None, cor_neg_risk = None\<rparr>"

definition sample_event :: "bool \<Rightarrow> order_event" where
  "sample_event ok =
     \<lparr>ev_lag = 0, ev_time = 0,
      ev_send = (\<lambda>_. if ok then Inr \<lparr>rsp_status = 201, rsp_text = Some ''{}''\<rparr> else Inl ''timeout''),
      ev_order = sample_exchange_order\<rparr>"

definition sample_parse :: "string \<Rightarrow> string + create_order_response" where
  "sample_parse t = Inr \<lparr>cos_order_id = t, cos_status = XOpen, cos_taking_fee = Fin False 0, cos_making_fee = Fin False 0\<rparr>"

lemma sample_answers: "answers d sample_parse c (sample_event ok) = ok"
  by (simp add: answers_def sample_event_def send_and_parse_def is_ok_def handle_response_def is_success_def
      sample_parse_def)

lemma exchange_silenced_for_good_witness:
  "\<exists>rs c'. create_orders sample_client_deps sample_parse
      (map sample_event [False, True, False, True, False, False] @ sample_event False # [sample_event True])
      (with_circuit_breaker default_breaker_config sample_client) = (rs, c') \<and>
    map (\<lambda>r. snd r \<noteq> []) rs = [True, True, True, True, True, True, True, False]"
proof -
  let ?es = "map sample_event [False, True, False, True, False, False]"
  obtain rs c' where run: "create_orders sample_client_deps sample_parse (?es @ sample_event False # [sample_event True])
      (with_circuit_breaker default_breaker_config sample_client) = (rs, c')"
    by (metis surj_pair)
  from exchange_silenced_for_good [OF run] run show ?thesis
    by (simp add: failures_in_def sample_answers default_breaker_config_def, simp add: sample_event_def)
qed

text \<open>
  The headers that authenticate a request do not depend on the API secret, and the signature depends on
  nothing but the timestamp: not on the method, the path or the body it should protect.
\<close>

lemma signature_ignores_secret:
  "auth_headers d t (c\<lparr>pc_api_secret := s\<rparr>) r = auth_headers d t c r"
  "map_of (hr_headers (create_order_http d t c o')) ''POLYMARKET-SIGNATURE'' =
     Some (cd_keccak_hex d (cd_show_int d t @ ''GET/clob/config''))"
  by (simp_all add: auth_headers_def create_order_http_def sign_message_def Let_def)

end
