(* ===== verification/Http_Auth.thy ===== *)
theory Http_Auth
  imports Auth_Jwt Rate_Limiter Polymarket_Client
begin

text \<open>
  \<open>api-http/src/middleware/auth.rs\<close> and the routing table of \<open>api-http/src/router.rs\<close>: who a request is taken
  to come from, and which middlewares stand before which handler. An Authorization header is the text the
  HTTP library gives for it (\<open>None\<close> when it is absent or not visible ASCII, so that its characters are its
  bytes). The theorems show that the middleware checks no signature, that it refuses the tokens the API
  itself issues, and that no request passes the guard of the administrator's routes.
\<close>

record auth_context =
  ctx_user_id :: string
  ctx_is_admin :: bool

definition strip_prefix :: "string \<Rightarrow> string \<Rightarrow> string option" where
  "strip_prefix p s = (if is_prefix_of p s then Some (drop (length p) s) else None)"

definition auth_middleware :: "string option \<Rightarrow> http_status + auth_context" where
  "auth_middleware authorization =
     (case Option.bind authorization (strip_prefix ''Bearer '') of
        Some token \<Rightarrow>
          if is_prefix_of ''admin_'' token
          then Inr \<lparr>ctx_user_id = take 36 (drop 6 token), ctx_is_admin = True\<rparr>
          else if 10 < length token
          then Inr \<lparr>ctx_user_id = take 36 token, ctx_is_admin = False\<rparr>
          else Inl UNAUTHORIZED
      | None \<Rightarrow> Inl UNAUTHORIZED)"

text \<open>The guard of the administrator's routes looks at the context an earlier middleware has left.\<close>

definition admin_middleware :: "auth_context option \<Rightarrow> http_status + unit" where
  "admin_middleware ctx =
     (case ctx of
        None \<Rightarrow> Inl UNAUTHORIZED
      | Some c \<Rightarrow> if \<not> ctx_is_admin c then Inl FORBIDDEN else Inr ())"

definition get_auth_context :: "auth_context option \<Rightarrow> auth_context app_result" where
  "get_auth_context ctx = (case ctx of None \<Rightarrow> Inl Unauthorized | Some c \<Rightarrow> Inr c)"

text \<open>The first line of almost every handler: the user id of the context as a UUID.\<close>

definition context_user :: "jwt_deps \<Rightarrow> auth_context \<Rightarrow> user_id app_result" where
  "context_user j c =
     (case uuid_parse j (ctx_user_id c) of None \<Rightarrow> Inl Unauthorized | Some u \<Rightarrow> Inr (UserId u))"

section \<open>Routes\<close>

datatype route_group = AuthRoutes | UserRoutes | AdminRoutes | PublicRoutes | WsRoutes

datatype endpoint =
    Register | Login | Balance
  | ListOrders | GetOrder | CancelOrder | PlaceOrder
  | RequestWithdrawal | ListMine | GetSignals | GetPnl | GetRisk | GetPositions
  | Deposit | ListAllWithdrawals | Approve | Reject
  | HealthCheck | ReadinessCheck | ListMarkets | CreateMarket | GetMarket | GatherMetrics
  | MarketDepth

datatype segment = Seg string | Param

definition routes :: "(route_group \<times> http_method \<times> segment list \<times> endpoint) list" where
  "routes =
     [(AuthRoutes, POST, [Seg ''auth'', Seg ''register''], Register),
      (AuthRoutes, POST, [Seg ''auth'', Seg ''login''], Login),
      (UserRoutes, GET, [Seg ''auth'', Seg ''balance''], Balance),
      (UserRoutes, GET, [Seg ''orders''], ListOrders),
      (UserRoutes, GET, [Seg ''orders'', Param], GetOrder),
      (UserRoutes, DELETE, [Seg ''orders'', Param], CancelOrder),
      (UserRoutes, POST, [Seg ''markets'', Param, Seg ''orders''], PlaceOrder),
      (UserRoutes, POST, [Seg ''withdrawals''], RequestWithdrawal),
      (UserRoutes, GET, [Seg ''withdrawals''], ListMine),
      (UserRoutes, GET, [Seg ''analytics'', Seg ''signals''], GetSignals),
      (UserRoutes, GET, [Seg ''analytics'', Seg ''pnl''], GetPnl),
      (UserRoutes, GET, [Seg ''analytics'', Seg ''risk''], GetRisk),
      (UserRoutes, GET, [Seg ''analytics'', Seg ''positions''], GetPositions),
      (AdminRoutes, POST, [Seg ''admin'', Seg ''deposits''], Deposit),
      (AdminRoutes, GET, [Seg ''admin'', Seg ''withdrawals''], ListAllWithdrawals),
      (AdminRoutes, POST, [Seg ''admin'', Seg ''withdrawals'', Param, Seg ''approve''], Approve),
      (AdminRoutes, POST, [Seg ''admin'', Seg ''withdrawals'', Param, Seg ''reject''], Reject),
      (PublicRoutes, GET, [Seg ''health''], HealthCheck),
      (PublicRoutes, GET, [Seg ''ready''], ReadinessCheck),
      (PublicRoutes, GET, [Seg ''markets''], ListMarkets),
      (PublicRoutes, POST, [Seg ''markets''], CreateMarket),
      (PublicRoutes, GET, [Seg ''markets'', Param], GetMarket),
      (PublicRoutes, GET, [Seg ''metrics''], GatherMetrics),
      (WsRoutes, GET, [Seg ''markets'', Param, Seg ''ws''], MarketDepth)]"

fun match_path :: "segment list \<Rightarrow> string list \<Rightarrow> string list option" where
  "match_path [] [] = Some []"
| "match_path (Seg t # ps) (s # ss) = (if s = t then match_path ps ss else None)"
| "match_path (Param # ps) (s # ss) = map_option ((#) s) (match_path ps ss)"
| "match_path _ _ = None"

text \<open>The group, the endpoint and the path parameters of a request below \<open>/v1\<close>.\<close>

definition route :: "http_method \<Rightarrow> string list \<Rightarrow> (route_group \<times> endpoint \<times> string list) option" where
  "route m path =
     (case find (\<lambda>(g, m', ps, e). m' = m \<and> match_path ps path \<noteq> None) routes of
        None \<Rightarrow> None
      | Some (g, _, ps, e) \<Rightarrow> map_option (\<lambda>xs. (g, e, xs)) (match_path ps path))"

record limits =
  lim_auth :: windows
  lim_order :: windows

text \<open>
  The address the client connects from reaches a handler as an extension of the request, and only when the
  router is served through \<open>into_make_service_with_connect_info\<close>. \<open>main\<close> hands the router itself to
  \<open>axum::serve\<close>, and nothing else sets the extension. Without it the extractor \<open>ConnectInfo<SocketAddr>\<close> of the two rate
  limiters rejects the request with an internal error, before anything else of them runs.
\<close>

definition plain_service :: "string \<Rightarrow> string option" where
  "plain_service peer = None"

definition connect_info_service :: "string \<Rightarrow> string option" where
  "connect_info_service peer = Some peer"

definition extract_connect_info :: "string option \<Rightarrow> http_status + string" where
  "extract_connect_info info = (case info of None \<Rightarrow> Inl INTERNAL_SERVER_ERROR | Some ip \<Rightarrow> Inr ip)"

text \<open>
  The layers of each group, outermost first: the last \<open>.layer\<close> of a router runs first. The result is the
  status that ends the request, or the context the handler will find among the request's extensions.
\<close>

definition admit ::
  "int \<Rightarrow> string option \<Rightarrow> string option \<Rightarrow> route_group \<Rightarrow> limits \<Rightarrow>
     (http_status + auth_context option) \<times> limits" where
  "admit now info authorization g ls =
     (case g of
        AuthRoutes \<Rightarrow>
          (case extract_connect_info info of
             Inl s \<Rightarrow> (Inl s, ls)
           | Inr ip \<Rightarrow>
               (case rate_limited auth_rate_limit now ip (lim_auth ls) () of
                  (TooMany s _ _, ws) \<Rightarrow> (Inl s, ls\<lparr>lim_auth := ws\<rparr>)
                | (Next _, ws) \<Rightarrow> (Inr None, ls\<lparr>lim_auth := ws\<rparr>)))
      | UserRoutes \<Rightarrow>
          (case extract_connect_info info of
             Inl s \<Rightarrow> (Inl s, ls)
           | Inr ip \<Rightarrow>
               (case rate_limited order_rate_limit now ip (lim_order ls) () of
                  (TooMany s _ _, ws) \<Rightarrow> (Inl s, ls\<lparr>lim_order := ws\<rparr>)
                | (Next _, ws) \<Rightarrow>
                    (case auth_middleware authorization of
                       Inl s \<Rightarrow> (Inl s, ls\<lparr>lim_order := ws\<rparr>)
                     | Inr c \<Rightarrow> (Inr (Some c), ls\<lparr>lim_order := ws\<rparr>))))
      | AdminRoutes \<Rightarrow>
          (case admin_middleware None of Inl s \<Rightarrow> (Inl s, ls) | Inr _ \<Rightarrow> (Inr None, ls))
      | PublicRoutes \<Rightarrow> (Inr None, ls)
      | WsRoutes \<Rightarrow> (Inr None, ls))"

text \<open>Served as \<open>main\<close> does it, no request reaches a handler behind a limiter or the administrator's guard.\<close>

lemma admit_plain:
  "g \<in> {AuthRoutes, UserRoutes} \<Longrightarrow> admit now (plain_service peer) authorization g ls = (Inl INTERNAL_SERVER_ERROR, ls)"
  by (auto simp: admit_def plain_service_def extract_connect_info_def)

lemma admit_groups:
  "admit now info authorization AdminRoutes ls = (Inl UNAUTHORIZED, ls)"
  "admit now info authorization PublicRoutes ls = (Inr None, ls)"
  "admit now info authorization WsRoutes ls = (Inr None, ls)"
  by (simp_all add: admit_def admin_middleware_def)

section \<open>Properties\<close>

lemma strip_bearer [simp]: "strip_prefix ''Bearer '' (''Bearer '' @ t) = Some t"
  by (simp add: strip_prefix_def)

text \<open>What the middleware makes of the text of a user's id, with and without the prefix.\<close>

lemma header_of_id:
  assumes "jwt_laws j" and "length (uuid_show j u) = 36" and "\<not> is_prefix_of ''admin_'' (uuid_show j u)"
  shows "auth_middleware (Some (''Bearer admin_'' @ uuid_show j u @ rest)) =
      Inr \<lparr>ctx_user_id = uuid_show j u, ctx_is_admin = True\<rparr>"
    and "auth_middleware (Some (''Bearer '' @ uuid_show j u @ rest)) =
      Inr \<lparr>ctx_user_id = uuid_show j u, ctx_is_admin = False\<rparr>"
    and "context_user j \<lparr>ctx_user_id = uuid_show j u, ctx_is_admin = b\<rparr> = Inr (UserId u)"
proof -
  have "uuid_parse j (uuid_show j u) = Some u" using assms(1) by (simp add: jwt_laws_def)
  then show "context_user j \<lparr>ctx_user_id = uuid_show j u, ctx_is_admin = b\<rparr> = Inr (UserId u)"
    by (simp add: context_user_def)
  have t: "take 36 (uuid_show j u @ rest) = uuid_show j u" using assms(2) by simp
  have "is_prefix_of p (s @ r) \<longleftrightarrow> is_prefix_of p s" if "length p \<le> length s" for p s r :: string
    using that by (induction p s rule: is_prefix_of.induct) auto
  with assms(2,3) have np: "\<not> is_prefix_of ''admin_'' (uuid_show j u @ rest)" by simp
  show "auth_middleware (Some (''Bearer admin_'' @ uuid_show j u @ rest)) =
      Inr \<lparr>ctx_user_id = uuid_show j u, ctx_is_admin = True\<rparr>"
    using t strip_bearer [of "''admin_'' @ uuid_show j u @ rest"] by (simp add: auth_middleware_def del: strip_bearer)
  show "auth_middleware (Some (''Bearer '' @ uuid_show j u @ rest)) =
      Inr \<lparr>ctx_user_id = uuid_show j u, ctx_is_admin = False\<rparr>"
    using t np assms(2) strip_bearer [of "uuid_show j u @ rest"] by (simp add: auth_middleware_def del: strip_bearer)
qed

text \<open>
  Whoever knows the id of a user passes the middleware as that user and as an administrator: the header
  \<open>Bearer admin_\<close> followed by the id's text (and by anything else) is accepted without any secret. Without the
  prefix the same header passes as the plain user.
\<close>
theorem anyone_passes_as_anyone:
  assumes "jwt_laws j" and "length (uuid_show j u) = 36" and "\<not> is_prefix_of ''admin_'' (uuid_show j u)"
  shows "(\<exists>c. auth_middleware (Some (''Bearer admin_'' @ uuid_show j u @ rest)) = Inr c \<and>
      ctx_is_admin c \<and> context_user j c = Inr (UserId u)) \<and>
    (\<exists>c. auth_middleware (Some (''Bearer '' @ uuid_show j u @ rest)) = Inr c \<and>
      \<not> ctx_is_admin c \<and> context_user j c = Inr (UserId u))"
  using header_of_id [OF assms] by simp

lemma sample_uuid_text: "sample_uuid_show 7 = ''00000000-0000-0000-0000-000000000007''"
  by code_simp

lemma anyone_passes_as_anyone_witness:
  "\<exists>c. auth_middleware (Some ''Bearer admin_00000000-0000-0000-0000-000000000007'') = Inr c \<and>
     ctx_is_admin c \<and> context_user sample_deps c = Inr (UserId 7)"
proof -
  have sh: "uuid_show sample_deps 7 = ''00000000-0000-0000-0000-000000000007''"
    by (simp add: sample_deps_def sample_uuid_text)
  from anyone_passes_as_anyone [OF sample_deps_laws, of 7 "[]"] show ?thesis
    unfolding sh by simp
qed

text \<open>
  The tokens the API issues do not work on it. The middleware takes the first 36 characters of the token for
  the user id; they are exactly the base64 text of the fixed token header, which is not a UUID, so every
  handler that needs the user's id answers a request that carries an issued token with Unauthorized. The
  hypotheses are the base64 text of that constant, and that a UUID is written without the letter y.
\<close>
theorem issued_tokens_do_not_work:
  assumes "jwt_issue j s now u admin = Some (Inr token)"
    and "b64_encode j JWT_HEADER = ''eyJhbGciOiJIUzI1NiIsInR5cCI6IkpXVCJ9''"
    and "\<forall>t v. uuid_parse j t = Some v \<longrightarrow> CHR ''y'' \<notin> set t"
  shows "\<exists>c. auth_middleware (Some (''Bearer '' @ token)) = Inr c \<and> \<not> ctx_is_admin c \<and>
    context_user j c = Inl Unauthorized"
proof -
  let ?h = "''eyJhbGciOiJIUzI1NiIsInR5cCI6IkpXVCJ9''"
  from assms(1) obtain r where token: "token = ?h @ r"
    by (auto simp: jwt_issue_def Let_def assms(2) split: if_splits sum.splits)
  have "uuid_parse j ?h = None"
    using assms(3) by (cases "uuid_parse j ?h") fastforce+
  then show ?thesis
    using strip_bearer [of token]
    by (simp add: auth_middleware_def context_user_def token del: strip_bearer)
qed

definition header_deps :: jwt_deps where
  "header_deps = sample_deps
     \<lparr>b64_encode := (\<lambda>t. if t = JWT_HEADER then ''eyJhbGciOiJIUzI1NiIsInR5cCI6IkpXVCJ9'' else sample_encode t)\<rparr>"

lemma hex_read_digits: "hex_read r = Some n \<Longrightarrow> c \<in> set r \<Longrightarrow> hex_value c \<noteq> None"
  by (induction r arbitrary: n) (auto split: option.splits)

lemma sample_parse_letters: "sample_uuid_parse t = Some v \<Longrightarrow> CHR ''y'' \<notin> set t"
proof
  assume p: "sample_uuid_parse t = Some v" and y: "CHR ''y'' \<in> set t"
  from p obtain n where "hex_read (rev (filter (\<lambda>c. c \<noteq> CHR ''-'') t)) = Some n"
    by (auto simp: sample_uuid_parse_def Let_def split: if_splits)
  moreover have "CHR ''y'' \<in> set (rev (filter (\<lambda>c. c \<noteq> CHR ''-'') t))" using y by simp
  ultimately have "hex_value (CHR ''y'') \<noteq> None" by (rule hex_read_digits)
  then show False by (simp add: hex_value_def)
qed

lemma issued_tokens_do_not_work_witness:
  "\<exists>token c. jwt_issue header_deps \<lparr>jwt_secret = ''k'', jwt_ttl_secs = 3600\<rparr> 5000000000 (UserId 7) True =
      Some (Inr token) \<and>
    auth_middleware (Some (''Bearer '' @ token)) = Inr c \<and> context_user header_deps c = Inl Unauthorized"
proof -
  have c: "\<lparr>sub = sample_uuid_show 7, iat = 5, exp = 3605, is_admin = True\<rparr> = sample_claims"
    by (simp add: sample_claims_def)
  obtain token where issue: "jwt_issue header_deps \<lparr>jwt_secret = ''k'', jwt_ttl_secs = 3600\<rparr> 5000000000 (UserId 7) True =
      Some (Inr token)"
    by (simp add: jwt_issue_def jwt_sign_def timestamp_def header_deps_def sample_deps_def Let_def c)
  have h: "b64_encode header_deps JWT_HEADER = ''eyJhbGciOiJIUzI1NiIsInR5cCI6IkpXVCJ9''"
    by (simp add: header_deps_def)
  have "\<forall>t v. uuid_parse header_deps t = Some v \<longrightarrow> CHR ''y'' \<notin> set t"
    using sample_parse_letters by (auto simp: header_deps_def sample_deps_def)
  from issued_tokens_do_not_work [OF issue h this] issue show ?thesis by blast
qed

end
