(* ===== verification/Decimal_Ops.thy ===== *)
theory Decimal_Ops
  imports Common_Types Floats "HOL-Library.Monad_Syntax"
begin

text \<open>
  \<open>rust_decimal::Decimal\<close> as the workspace uses it. The crate is foreign: its operations are the record
  \<open>decimal\<close> over an unknown type \<open>'d\<close>, and \<open>decimal_laws\<close> collects what its documentation promises: values
  of 96 bits with up to 28 decimals, exact results where they are representable, a panic (here \<open>None\<close>) on
  overflow and on division by zero, \<open>round\<close> to the nearest integer with halves to the even one. On top of
  it: the conversions of prices and quantities of \<open>common/src/types.rs\<close>.
\<close>

record 'd decimal =
  d_of :: "rat \<Rightarrow> 'd"
  d_add :: "'d \<Rightarrow> 'd \<Rightarrow> 'd option"
  d_sub :: "'d \<Rightarrow> 'd \<Rightarrow> 'd option"
  d_mul :: "'d \<Rightarrow> 'd \<Rightarrow> 'd option"
  d_div :: "'d \<Rightarrow> 'd \<Rightarrow> 'd option"
  d_neg :: "'d \<Rightarrow> 'd"
  d_less :: "'d \<Rightarrow> 'd \<Rightarrow> bool"
  d_round :: "'d \<Rightarrow> 'd"
  d_ceil :: "'d \<Rightarrow> 'd"
  d_to_u32 :: "'d \<Rightarrow> u32 option"
  d_to_u64 :: "'d \<Rightarrow> u64 option"
  d_sqrt :: "'d \<Rightarrow> 'd option"
  d_text :: "'d \<Rightarrow> string"

text \<open>\<open>a <= b\<close> and \<open>max\<close>, \<open>min\<close>, \<open>abs\<close> in terms of the comparison.\<close>

definition d_le :: "'d decimal \<Rightarrow> 'd \<Rightarrow> 'd \<Rightarrow> bool" where
  "d_le D a b \<longleftrightarrow> \<not> d_less D b a"

definition d_max :: "'d decimal \<Rightarrow> 'd \<Rightarrow> 'd \<Rightarrow> 'd" where
  "d_max D a b = (if d_less D a b then b else a)"

definition d_min :: "'d decimal \<Rightarrow> 'd \<Rightarrow> 'd \<Rightarrow> 'd" where
  "d_min D a b = (if d_less D b a then b else a)"

definition d_abs :: "'d decimal \<Rightarrow> 'd \<Rightarrow> 'd" where
  "d_abs D a = (if d_less D a (d_of D 0) then d_neg D a else a)"

text \<open>\<open>Decimal::from\<close> of an unsigned word, and \<open>iter().sum()\<close>.\<close>

definition d_from :: "'d decimal \<Rightarrow> 'w::len word \<Rightarrow> 'd" where
  "d_from D w = d_of D (of_int (uint w))"

fun d_sum_from :: "'d decimal \<Rightarrow> 'd \<Rightarrow> 'd list \<Rightarrow> 'd option" where
  "d_sum_from D acc [] = Some acc"
| "d_sum_from D acc (x # xs) = do { a \<leftarrow> d_add D acc x; d_sum_from D a xs }"

definition d_sum :: "'d decimal \<Rightarrow> 'd list \<Rightarrow> 'd option" where
  "d_sum D xs = d_sum_from D (d_of D 0) xs"

definition representable :: "rat \<Rightarrow> bool" where
  "representable r \<longleftrightarrow> (\<exists>k s. s \<le> 28 \<and> \<bar>k\<bar> < 2 ^ 96 \<and> r = of_int k / 10 ^ s)"

text \<open>The documented behaviour, for the rational value of a \<open>'d\<close>.\<close>

definition exact_op :: "('d \<Rightarrow> rat) \<Rightarrow> ('d \<Rightarrow> 'd \<Rightarrow> 'd option) \<Rightarrow> (rat \<Rightarrow> rat \<Rightarrow> rat) \<Rightarrow> bool" where
  "exact_op val f g \<longleftrightarrow>
     (\<forall>a b. representable (g (val a) (val b)) \<longrightarrow> (\<exists>c. f a b = Some c \<and> val c = g (val a) (val b)))"

definition decimal_laws :: "'d decimal \<Rightarrow> ('d \<Rightarrow> rat) \<Rightarrow> bool" where
  "decimal_laws D val \<longleftrightarrow>
     (\<forall>r. representable r \<longrightarrow> val (d_of D r) = r)
     \<and> (\<forall>a b. d_less D a b \<longleftrightarrow> val a < val b)
     \<and> exact_op val (d_add D) (+) \<and> exact_op val (d_sub D) (-) \<and> exact_op val (d_mul D) (*)
     \<and> (\<forall>a b. val b \<noteq> 0 \<and> representable (val a / val b) \<longrightarrow>
          (\<exists>c. d_div D a b = Some c \<and> val c = val a / val b))
     \<and> (\<forall>a b. val b = 0 \<longrightarrow> d_div D a b = None)
     \<and> (\<forall>a. val (d_neg D a) = - val a)
     \<and> (\<forall>a. val (d_round D a) = of_int (round_half_even (val a)))
     \<and> (\<forall>a. val (d_ceil D a) = of_int \<lceil>val a\<rceil>)
     \<and> (\<forall>a k. val a = of_int k \<longrightarrow>
          d_to_u32 D a = (if 0 \<le> k \<and> k < 2 ^ 32 then Some (word_of_int k) else None) \<and>
          d_to_u64 D a = (if 0 \<le> k \<and> k < 2 ^ 64 then Some (word_of_int k) else None))"

section \<open>Prices and quantities\<close>

text \<open>\<open>from_decimal\<close>: the outer \<open>None\<close> is the panic of the multiplication.\<close>

definition price_from_decimal :: "'d decimal \<Rightarrow> 'd \<Rightarrow> price option option" where
  "price_from_decimal D d =
     (if d_le D d (d_of D 0) then Some None
      else do {
        m \<leftarrow> d_mul D d (d_of D 1000000);
        Some (case d_to_u32 D (d_round D m) of
                None \<Rightarrow> None
              | Some raw \<Rightarrow> if raw < 1000 \<or> 9999999 < raw then None else Some (Price raw))
      })"

definition price_to_decimal :: "'d decimal \<Rightarrow> price \<Rightarrow> 'd option" where
  "price_to_decimal D p = d_div D (d_from D (price_raw p)) (d_of D 1000000)"

definition quantity_from_decimal :: "'d decimal \<Rightarrow> 'd \<Rightarrow> quantity option" where
  "quantity_from_decimal D d = do {
     m \<leftarrow> d_mul D d (d_of D 1000000);
     Some (Quantity (case d_to_u64 D (d_round D m) of None \<Rightarrow> 0 | Some n \<Rightarrow> n)) }"

definition quantity_to_decimal :: "'d decimal \<Rightarrow> quantity \<Rightarrow> 'd option" where
  "quantity_to_decimal D q = d_div D (d_from D (quantity_raw q)) (d_of D 1000000)"

section \<open>Properties\<close>

lemma representable_int: "\<bar>k\<bar> < 2 ^ 96 \<Longrightarrow> representable (of_int k)"
  unfolding representable_def by (rule exI [of _ k], rule exI [of _ 0]) simp

lemma representable_millionths: "\<bar>k\<bar> < 2 ^ 96 \<Longrightarrow> representable (of_int k / 1000000)"
  unfolding representable_def by (rule exI [of _ k], rule exI [of _ 6]) simp

lemma uint_bound: "uint (w :: 'w::len word) < 2 ^ LENGTH('w)" "0 \<le> uint (w :: 'w::len word)"
  by (rule uint_lt2p) simp

lemma law_of: "decimal_laws D val \<Longrightarrow> representable r \<Longrightarrow> val (d_of D r) = r"
  by (simp add: decimal_laws_def)

lemma law_of_numeral:
  "decimal_laws D val \<Longrightarrow> val (d_of D 0) = 0" "decimal_laws D val \<Longrightarrow> val (d_of D 1000000) = 1000000"
  using representable_int [of 0] representable_int [of 1000000] by (simp_all add: law_of)

lemma law_less: "decimal_laws D val \<Longrightarrow> d_less D a b \<longleftrightarrow> val a < val b"
  by (simp add: decimal_laws_def)

lemma law_mul:
  "decimal_laws D val \<Longrightarrow> representable (val a * val b) \<Longrightarrow> \<exists>c. d_mul D a b = Some c \<and> val c = val a * val b"
  by (simp add: decimal_laws_def exact_op_def)

lemma law_add:
  "decimal_laws D val \<Longrightarrow> representable (val a + val b) \<Longrightarrow> \<exists>c. d_add D a b = Some c \<and> val c = val a + val b"
  by (simp add: decimal_laws_def exact_op_def)

lemma law_sub:
  "decimal_laws D val \<Longrightarrow> representable (val a - val b) \<Longrightarrow> \<exists>c. d_sub D a b = Some c \<and> val c = val a - val b"
  by (simp add: decimal_laws_def exact_op_def)

lemma law_div:
  "decimal_laws D val \<Longrightarrow> val b \<noteq> 0 \<Longrightarrow> representable (val a / val b) \<Longrightarrow>
     \<exists>c. d_div D a b = Some c \<and> val c = val a / val b"
  by (simp add: decimal_laws_def)

lemma law_div_zero: "decimal_laws D val \<Longrightarrow> val b = 0 \<Longrightarrow> d_div D a b = None"
  by (simp add: decimal_laws_def)

lemma law_round: "decimal_laws D val \<Longrightarrow> val (d_round D a) = of_int (round_half_even (val a))"
  by (simp add: decimal_laws_def)

lemma law_to_u32:
  "decimal_laws D val \<Longrightarrow> val a = of_int k \<Longrightarrow>
     d_to_u32 D a = (if 0 \<le> k \<and> k < 2 ^ 32 then Some (word_of_int k) else None)"
  by (simp add: decimal_laws_def)

lemma law_to_u64:
  "decimal_laws D val \<Longrightarrow> val a = of_int k \<Longrightarrow>
     d_to_u64 D a = (if 0 \<le> k \<and> k < 2 ^ 64 then Some (word_of_int k) else None)"
  by (simp add: decimal_laws_def)

lemma d_from_value:
  assumes "decimal_laws D val" and "LENGTH('w) \<le> 96"
  shows "val (d_from D (w :: 'w::len word)) = of_int (uint w)"
proof -
  have "(2 :: int) ^ LENGTH('w) \<le> 2 ^ 96" using assms(2) by (rule power_increasing) simp
  then have "\<bar>uint w\<bar> < 2 ^ 96" using uint_bound [of w] by linarith
  then show ?thesis
    unfolding d_from_def by (intro law_of [OF assms(1)] representable_int)
qed

lemma round_half_even_near: "\<bar>of_int (round_half_even r) - r\<bar> \<le> 1 / 2"
  using floor_correct [of r] by (simp add: round_half_even_def Let_def abs_le_iff)

text \<open>The raw price a decimal becomes is the nearest millionth.\<close>

lemma price_from_decimal_value:
  assumes laws: "decimal_laws D val" and rep: "representable (val d * 1000000)"
  shows "price_from_decimal D d =
    Some (let n = round_half_even (val d * 1000000) in
          if 0 < val d \<and> 1000 \<le> n \<and> n \<le> 9999999 then Some (Price (word_of_int n)) else None)"
proof -
  obtain m where m: "d_mul D d (d_of D 1000000) = Some m" "val m = val d * 1000000"
    using law_mul [OF laws, of d "d_of D 1000000"] rep by (auto simp: law_of_numeral [OF laws])
  let ?n = "round_half_even (val d * 1000000)"
  have u: "d_to_u32 D (d_round D m) = (if 0 \<le> ?n \<and> ?n < 2 ^ 32 then Some (word_of_int ?n) else None)"
    by (rule law_to_u32 [OF laws]) (simp add: law_round [OF laws] m(2))
  have w: "word_of_int ?n < (1000 :: u32) \<longleftrightarrow> ?n < 1000" "(9999999 :: u32) < word_of_int ?n \<longleftrightarrow> 9999999 < ?n"
    if "0 \<le> ?n" "?n < 2 ^ 32"
    using that by (simp_all add: word_less_def uint_word_of_int)
  show ?thesis
    using w by (auto simp: price_from_decimal_def d_le_def law_less [OF laws] law_of_numeral [OF laws]
        m(1) u Let_def)
qed

text \<open>
  Every price from \<open>MIN\<close> to \<open>MAX\<close> survives \<open>to_decimal\<close> and \<open>from_decimal\<close>; every other raw value is refused
  on the way back.
\<close>
theorem price_round_trip:
  assumes "decimal_laws D val"
  shows "\<exists>d. price_to_decimal D p = Some d \<and> val d = of_int (uint (price_raw p)) / 1000000 \<and>
    price_from_decimal D d =
      Some (if Price_MIN \<le> p \<and> p \<le> Price_MAX then Some p else None)"
proof -
  obtain k where k: "uint (price_raw p) = k" by blast
  then have n: "k < 2 ^ 96" "0 \<le> k" using uint_bound [of "price_raw p"] by simp_all
  have v: "val (d_from D (price_raw p)) = of_int k" using d_from_value [OF assms, of "price_raw p"] k by simp
  obtain d where d: "price_to_decimal D p = Some d" "val d = of_int k / 1000000"
    using law_div [OF assms, of "d_of D 1000000" "d_from D (price_raw p)"] representable_millionths [of k] n
    by (auto simp: price_to_decimal_def v law_of_numeral [OF assms])
  then have m: "val d * 1000000 = of_int k" by simp
  have "representable (of_int k)" using n by (intro representable_int) simp
  from price_from_decimal_value [OF assms, of d, unfolded m, OF this]
  have "price_from_decimal D d = Some (if 0 < k \<and> 1000 \<le> k \<and> k \<le> 9999999 then Some (Price (word_of_int k)) else None)"
    by (simp add: round_half_even_int d(2))
  moreover have "Price (word_of_int k) = p" using k by (cases p) auto
  moreover have "1000 \<le> k \<longleftrightarrow> Price_MIN \<le> p" "k \<le> 9999999 \<longleftrightarrow> p \<le> Price_MAX"
    using k by (simp_all add: Price_MIN_def Price_MAX_def less_eq_price_def word_le_def)
  ultimately show ?thesis using d k by auto
qed

text \<open>
  The price a decimal is turned into is the decimal's value in millionths, rounded to the nearest, between
  1000 and 9999999: values up to 9.9999994 are accepted, far above the (0, 1) of the error message.
\<close>
theorem decimal_price_bounds:
  assumes "decimal_laws D val" and "representable (val d * 1000000)"
    and "price_from_decimal D d = Some (Some p)"
  shows "\<bar>of_int (uint (price_raw p)) - val d * 1000000\<bar> \<le> 1 / 2 \<and>
    Price_MIN \<le> p \<and> p \<le> Price_MAX"
proof -
  let ?n = "round_half_even (val d * 1000000)"
  from assms(3) price_from_decimal_value [OF assms(1,2)]
  have p: "p = Price (word_of_int ?n)" and n: "1000 \<le> ?n" "?n \<le> 9999999"
    by (auto simp: Let_def split: if_splits)
  then have raw: "uint (price_raw p) = ?n" by (simp add: uint_word_of_int)
  show ?thesis
    using n round_half_even_near [of "val d * 1000000"]
    by (simp add: raw less_eq_price_def word_le_def Price_MIN_def Price_MAX_def)
qed

section \<open>An instance of the laws\<close>

text \<open>Unlimited rationals, for the witnesses.\<close>

definition rat_decimal :: "rat decimal" where
  "rat_decimal =
     \<lparr>d_of = id, d_add = (\<lambda>a b. Some (a + b)), d_sub = (\<lambda>a b. Some (a - b)), d_mul = (\<lambda>a b. Some (a * b)),
      d_div = (\<lambda>a b. if b = 0 then None else Some (a / b)), d_neg = uminus, d_less = (<),
      d_round = (\<lambda>a. of_int (round_half_even a)), d_ceil = (\<lambda>a. of_int \<lceil>a\<rceil>),
      d_to_u32 = (\<lambda>a. if 0 \<le> \<lfloor>a\<rfloor> \<and> \<lfloor>a\<rfloor> < 2 ^ 32 then Some (word_of_int \<lfloor>a\<rfloor>) else None),
      d_to_u64 = (\<lambda>a. if 0 \<le> \<lfloor>a\<rfloor> \<and> \<lfloor>a\<rfloor> < 2 ^ 64 then Some (word_of_int \<lfloor>a\<rfloor>) else None),
      d_sqrt = (\<lambda>a. None), d_text = (\<lambda>a. [])\<rparr>"

lemma rat_decimal_laws: "decimal_laws rat_decimal (\<lambda>r. r)"
  by (auto simp: decimal_laws_def rat_decimal_def exact_op_def)

lemma price_round_trip_witness:
  "\<exists>d. price_to_decimal rat_decimal (Price 6500) = Some d \<and>
     price_from_decimal rat_decimal d = Some (Some (Price 6500))"
  using price_round_trip [OF rat_decimal_laws, of "Price 6500"] by (auto simp: Price_MIN_def Price_MAX_def)

lemma decimal_price_bounds_witness:
  "price_from_decimal rat_decimal (19 / 2) = Some (Some (Price 9500000)) \<and>
   Price 9500000 \<le> Price_MAX"
proof -
  have p: "price_from_decimal rat_decimal (19 / 2) = Some (Some (Price 9500000))" by code_simp
  have "representable (19 / 2 * 1000000)" using representable_int [of 9500000] by simp
  from decimal_price_bounds [OF rat_decimal_laws this p] p show ?thesis by simp
qed

end
