(* ===== verification/Risk_Manager.thy ===== *)
theory Risk_Manager
  imports Decimal_Ops
begin

text \<open>
  \<open>analytics/src/risk.rs\<close>: limits, the risk state of each user, the check of an order and the update after
  a fill. Decimals are a parameter, and every computation that may panic in the decimal crate is in the
  option monad. Raw integers used as decimals (\<open>fill.price.0\<close>) are converted by \<open>Decimal::from\<close>. The order in
  which a \<open>HashMap\<close> is iterated is the argument \<open>hash_order\<close>. The theorems say what an admitted order is
  known to satisfy, and that one user's daily loss blocks every user until the daily reset.
\<close>

record position =
  posn_id :: uuid
  posn_user_id :: user_id
  posn_market_id :: market_id
  posn_side :: side
  posn_entry_price :: price
  posn_current_price :: price
  posn_quantity :: quantity
  posn_unrealized_pnl :: i64
  posn_realized_pnl :: i64
  posn_opened_at :: datetime
  posn_updated_at :: datetime

record 'd risk_limits =
  max_position_size_usd :: 'd
  max_daily_loss_usd :: 'd
  max_total_exposure_usd :: 'd
  limit_drawdown_pct :: 'd
  max_positions_per_market :: nat
  max_correlated_exposure :: 'd

definition default_risk_limits :: "'d decimal \<Rightarrow> 'd risk_limits" where
  "default_risk_limits D =
     \<lparr>max_position_size_usd = d_of D 100000, max_daily_loss_usd = d_of D 50000,
      max_total_exposure_usd = d_of D 500000, limit_drawdown_pct = d_of D (20 / 100),
      max_positions_per_market = 5, max_correlated_exposure = d_of D 200000\<rparr>"

record 'd risk_result =
  res_allowed :: bool
  res_reason :: "msg option"
  res_score :: 'd

record 'd user_risk =
  ur_daily_pnl :: 'd
  ur_exposure :: 'd
  ur_max_drawdown :: 'd
  ur_positions :: "market_id \<Rightarrow> position list option"
  ur_fills_today :: "fill list"
  ur_peak_balance :: 'd
  ur_current_balance :: 'd

record 'd risk_manager =
  rm_limits :: "'d risk_limits"
  rm_users :: "user_id \<Rightarrow> 'd user_risk option"
  rm_breaker :: bool

definition risk_manager_new :: "'d risk_limits \<Rightarrow> 'd risk_manager" where
  "risk_manager_new l = \<lparr>rm_limits = l, rm_users = (\<lambda>_. None), rm_breaker = False\<rparr>"

definition refused :: "'d decimal \<Rightarrow> msg \<Rightarrow> 'd risk_result" where
  "refused D why = \<lparr>res_allowed = False, res_reason = Some why, res_score = d_of D 1\<rparr>"

definition dec_text :: "'d decimal \<Rightarrow> 'd \<Rightarrow> frag" where
  "dec_text D x = Foreign (d_text D x)"

section \<open>Checking an order\<close>

definition calculate_risk_score :: "'d decimal \<Rightarrow> 'd risk_limits \<Rightarrow> 'd user_risk \<Rightarrow> 'd \<Rightarrow> 'd option" where
  "calculate_risk_score D l s order_value = do {
     total \<leftarrow> d_add D (ur_exposure s) order_value;
     exposure_ratio \<leftarrow> d_div D total (max_total_exposure_usd l);
     drawdown_ratio \<leftarrow> d_div D (ur_max_drawdown s) (limit_drawdown_pct l);
     total1 \<leftarrow> d_add D total (d_of D 1);
     concentration_ratio \<leftarrow> d_div D order_value total1;
     pnl_ratio \<leftarrow> (if d_less D (ur_daily_pnl s) (d_of D 0)
                    then d_div D (d_neg D (ur_daily_pnl s)) (max_daily_loss_usd l)
                    else Some (d_of D 0));
     a \<leftarrow> d_mul D exposure_ratio (d_of D (3 / 10));
     b \<leftarrow> d_mul D drawdown_ratio (d_of D (3 / 10));
     ab \<leftarrow> d_add D a b;
     c \<leftarrow> d_mul D concentration_ratio (d_of D (2 / 10));
     abc \<leftarrow> d_add D ab c;
     e \<leftarrow> d_mul D pnl_ratio (d_of D (2 / 10));
     score \<leftarrow> d_add D abc e;
     Some (d_min D score (d_of D 1)) }"

definition positions_in :: "'d user_risk \<Rightarrow> market_id \<Rightarrow> nat" where
  "positions_in s m = (case ur_positions s m of None \<Rightarrow> 0 | Some ps \<Rightarrow> length ps)"

definition drawdown :: "'d decimal \<Rightarrow> 'd user_risk \<Rightarrow> 'd option" where
  "drawdown D s =
     (if d_less D (d_of D 0) (ur_peak_balance s)
      then do { x \<leftarrow> d_sub D (ur_peak_balance s) (ur_current_balance s); d_div D x (ur_peak_balance s) }
      else Some (d_of D 0))"

text \<open>The checks that need the user's state.\<close>

definition check_user_risk ::
  "'d decimal \<Rightarrow> 'd risk_limits \<Rightarrow> 'd user_risk \<Rightarrow> market_id \<Rightarrow> 'd \<Rightarrow> 'd risk_result option" where
  "check_user_risk D l s m order_value = do {
     new_exposure \<leftarrow> d_add D (ur_exposure s) order_value;
     if d_less D (max_total_exposure_usd l) new_exposure
     then Some (refused D [Lit ''Total exposure $'', dec_text D new_exposure, Lit '' would exceed limit $'',
                  dec_text D (max_total_exposure_usd l)])
     else if max_positions_per_market l \<le> positions_in s m
     then Some (refused D [Lit ''Max positions ('', IntText (int (max_positions_per_market l)),
                  Lit '') reached for this market''])
     else if d_less D (ur_daily_pnl s) (d_neg D (max_daily_loss_usd l))
     then Some (refused D [Lit ''Daily loss limit exceeded: $'', dec_text D (ur_daily_pnl s)])
     else do {
       dd \<leftarrow> drawdown D s;
       if d_less D (limit_drawdown_pct l) dd
       then do {
         pct \<leftarrow> d_mul D dd (d_of D 100);
         Some (refused D [Lit ''Max drawdown exceeded: '', dec_text D pct, Lit ''%'']) }
       else do {
         score \<leftarrow> calculate_risk_score D l s order_value;
         Some (if d_less D (d_of D (8 / 10)) score
               then \<lparr>res_allowed = False, res_reason = Some [Lit ''Risk score too high''], res_score = score\<rparr>
               else \<lparr>res_allowed = True, res_reason = None, res_score = score\<rparr>) } } }"

definition check_order_risk ::
  "'d decimal \<Rightarrow> 'd risk_manager \<Rightarrow> user_id \<Rightarrow> order \<Rightarrow> 'd \<Rightarrow> 'd risk_result option" where
  "check_order_risk D rm u o' current_price =
     (if rm_breaker rm then Some (refused D [Lit ''Global circuit breaker is active''])
      else do {
        order_value \<leftarrow> d_mul D (d_from D (quantity_raw (ord_quantity o'))) current_price;
        if d_less D (max_position_size_usd (rm_limits rm)) order_value
        then Some (refused D [Lit ''Order value $'', dec_text D order_value, Lit '' exceeds max position size $'',
                     dec_text D (max_position_size_usd (rm_limits rm))])
        else (case rm_users rm u of
                None \<Rightarrow> Some \<lparr>res_allowed = True, res_reason = None, res_score = d_of D 0\<rparr>
              | Some s \<Rightarrow> check_user_risk D (rm_limits rm) s (ord_market_id o') order_value) })"

section \<open>Fills\<close>

text \<open>The fills of the day grouped by market and side: the keys in order of first appearance, and a group.\<close>

definition fill_group_key :: "fill \<Rightarrow> market_id \<times> side" where
  "fill_group_key f = (fill_market_id f, fill_aggressor f)"

definition group_keys :: "fill list \<Rightarrow> (market_id \<times> side) list" where
  "group_keys fs = rev (remdups (rev (map fill_group_key fs)))"

definition group_pnl :: "'d decimal \<Rightarrow> 'd \<Rightarrow> fill list \<Rightarrow> market_id \<times> side \<Rightarrow> 'd option" where
  "group_pnl D cur fs k = (let group = filter (\<lambda>f. fill_group_key f = k) fs in do {
     s \<leftarrow> d_sum D (map (\<lambda>f. d_from D (price_raw (fill_price f))) group);
     avg_entry \<leftarrow> d_div D s (d_of D (of_nat (max (length group) 1)));
     diff \<leftarrow> (if snd k = Buy then d_sub D cur avg_entry else d_sub D avg_entry cur);
     d_mul D diff (d_from D (sum_list (map (\<lambda>f. quantity_raw (fill_quantity f)) group))) })"

fun sum_groups :: "'d decimal \<Rightarrow> 'd \<Rightarrow> fill list \<Rightarrow> 'd \<Rightarrow> (market_id \<times> side) list \<Rightarrow> 'd option" where
  "sum_groups D cur fs acc [] = Some acc"
| "sum_groups D cur fs acc (k # ks) = do {
     p \<leftarrow> group_pnl D cur fs k;
     a \<leftarrow> d_add D acc p;
     sum_groups D cur fs a ks }"

type_synonym hash_order = "(market_id \<times> side) list \<Rightarrow> (market_id \<times> side) list"

text \<open>\<open>update_pnl\<close>: the new state of the user, and whether the breaker is set.\<close>

definition update_pnl ::
  "'d decimal \<Rightarrow> hash_order \<Rightarrow> 'd risk_limits \<Rightarrow> 'd \<Rightarrow> 'd user_risk \<Rightarrow> ('d user_risk \<times> bool) option" where
  "update_pnl D hash l cur s = do {
     realized \<leftarrow> sum_groups D cur (ur_fills_today s) (d_of D 0) (hash (group_keys (ur_fills_today s)));
     bal \<leftarrow> d_add D (ur_current_balance s) realized;
     let peak = (if d_less D (ur_peak_balance s) bal then bal else ur_peak_balance s);
     dd \<leftarrow> (if d_less D (d_of D 0) peak then do { x \<leftarrow> d_sub D peak bal; d_div D x peak }
             else Some (ur_max_drawdown s));
     Some (s\<lparr>ur_daily_pnl := realized, ur_current_balance := bal, ur_peak_balance := peak,
             ur_max_drawdown := dd\<rparr>,
           d_le D realized (d_neg D (max_daily_loss_usd l))) }"

definition new_user_risk :: "'d decimal \<Rightarrow> 'd user_risk" where
  "new_user_risk D =
     \<lparr>ur_daily_pnl = d_of D 0, ur_exposure = d_of D 0, ur_max_drawdown = d_of D 0,
      ur_positions = (\<lambda>_. None), ur_fills_today = [], ur_peak_balance = d_of D 0,
      ur_current_balance = d_of D 0\<rparr>"

definition update_on_fill ::
  "'d decimal \<Rightarrow> hash_order \<Rightarrow> 'd risk_manager \<Rightarrow> user_id \<Rightarrow> fill \<Rightarrow> 'd \<Rightarrow> 'd risk_manager option" where
  "update_on_fill D hash rm u f current_price = do {
     let s = (case rm_users rm u of None \<Rightarrow> new_user_risk D | Some s \<Rightarrow> s);
     v \<leftarrow> d_mul D (d_from D (quantity_raw (fill_quantity f))) current_price;
     ex \<leftarrow> (if fill_aggressor f = Buy then d_add D (ur_exposure s) v else d_sub D (ur_exposure s) v);
     (s', trip) \<leftarrow> update_pnl D hash (rm_limits rm) current_price
                     (s\<lparr>ur_exposure := ex, ur_fills_today := ur_fills_today s @ [f]\<rparr>);
     Some (rm\<lparr>rm_users := (rm_users rm)(u \<mapsto> s'), rm_breaker := rm_breaker rm \<or> trip\<rparr>) }"

definition get_user_exposure :: "'d decimal \<Rightarrow> 'd risk_manager \<Rightarrow> user_id \<Rightarrow> 'd" where
  "get_user_exposure D rm u = (case rm_users rm u of None \<Rightarrow> d_of D 0 | Some s \<Rightarrow> ur_exposure s)"

definition get_user_pnl :: "'d decimal \<Rightarrow> 'd risk_manager \<Rightarrow> user_id \<Rightarrow> 'd" where
  "get_user_pnl D rm u = (case rm_users rm u of None \<Rightarrow> d_of D 0 | Some s \<Rightarrow> ur_daily_pnl s)"

definition reset_daily_stats :: "'d decimal \<Rightarrow> 'd risk_manager \<Rightarrow> 'd risk_manager" where
  "reset_daily_stats D rm =
     rm\<lparr>rm_users := (\<lambda>u. map_option (\<lambda>s. s\<lparr>ur_daily_pnl := d_of D 0, ur_fills_today := [],
                          ur_peak_balance := ur_current_balance s\<rparr>) (rm_users rm u)),
        rm_breaker := False\<rparr>"

section \<open>Properties\<close>

lemma bind_Some_iff: "Option.bind x f = Some y \<longleftrightarrow> (\<exists>a. x = Some a \<and> f a = Some y)"
  by (cases x) auto

lemma refused_not_allowed [simp]: "\<not> res_allowed (refused D m)"
  by (simp add: refused_def)

lemma refused_neq [simp]: "refused D m \<noteq> \<lparr>res_allowed = True, res_reason = a, res_score = b\<rparr>"
  by (simp add: refused_def)

lemma check_user_risk_allowed:
  assumes "check_user_risk D l s m v = Some r" and "res_allowed r"
  shows "\<exists>e dd score. d_add D (ur_exposure s) v = Some e \<and> d_le D e (max_total_exposure_usd l) \<and>
    positions_in s m < max_positions_per_market l \<and>
    d_le D (d_neg D (max_daily_loss_usd l)) (ur_daily_pnl s) \<and>
    drawdown D s = Some dd \<and> d_le D dd (limit_drawdown_pct l) \<and>
    calculate_risk_score D l s v = Some score \<and> d_le D score (d_of D (8 / 10)) \<and> res_score r = score"
  using assms by (auto simp: check_user_risk_def bind_Some_iff d_le_def not_le split: if_splits)

text \<open>
  An order the risk manager admits is known to satisfy all its limits: the breaker is off, the value is at
  most the maximal position size, and, for a user with a state, the exposure including the order, the number
  of positions in the market, the daily loss, the drawdown and the risk score are within their limits. Each
  value is the one the decimal crate computed, and nothing is assumed of the crate.
\<close>
theorem admitted_order_within_limits:
  assumes "check_order_risk D rm u o' cur = Some r" and "res_allowed r"
  shows "\<not> rm_breaker rm \<and>
    (\<exists>v. d_mul D (d_from D (quantity_raw (ord_quantity o'))) cur = Some v \<and>
      d_le D v (max_position_size_usd (rm_limits rm)) \<and>
      (\<forall>s. rm_users rm u = Some s \<longrightarrow>
        (\<exists>e dd score. d_add D (ur_exposure s) v = Some e \<and> d_le D e (max_total_exposure_usd (rm_limits rm)) \<and>
          positions_in s (ord_market_id o') < max_positions_per_market (rm_limits rm) \<and>
          d_le D (d_neg D (max_daily_loss_usd (rm_limits rm))) (ur_daily_pnl s) \<and>
          drawdown D s = Some dd \<and> d_le D dd (limit_drawdown_pct (rm_limits rm)) \<and>
          calculate_risk_score D (rm_limits rm) s v = Some score \<and> d_le D score (d_of D (8 / 10)) \<and>
          res_score r = score)))"
  using assms check_user_risk_allowed [of D "rm_limits rm" _ "ord_market_id o'" _ r]
  by (auto simp: check_order_risk_def bind_Some_iff d_le_def split: if_splits option.splits)

definition fill_seen :: "'d decimal \<Rightarrow> hash_order \<Rightarrow> 'd risk_manager \<Rightarrow> 'd risk_manager \<Rightarrow> bool" where
  "fill_seen D hash rm rm' \<longleftrightarrow> (\<exists>u f cur. update_on_fill D hash rm u f cur = Some rm')"

lemma update_on_fill_cases:
  assumes "update_on_fill D hash rm u f cur = Some rm'"
  obtains s s' trip where "rm' = rm\<lparr>rm_users := (rm_users rm)(u \<mapsto> s'), rm_breaker := rm_breaker rm \<or> trip\<rparr>"
    "update_pnl D hash (rm_limits rm) cur s = Some (s', trip)"
  using assms by (auto simp: update_on_fill_def bind_Some_iff Let_def)

lemma update_pnl_cases:
  assumes "update_pnl D hash l cur s = Some (s', trip)"
  shows "(trip \<longleftrightarrow> d_le D (ur_daily_pnl s') (d_neg D (max_daily_loss_usd l))) \<and>
    (ur_peak_balance s' = ur_current_balance s' \<or> \<not> d_less D (ur_peak_balance s') (ur_current_balance s'))"
  using assms by (auto simp: update_pnl_def bind_Some_iff Let_def split: if_splits)

interpretation tripped: kept_by_steps "fill_seen D hash" rm_breaker for D hash
  by unfold_locales (auto simp: fill_seen_def elim!: update_on_fill_cases)

text \<open>
  When a fill takes a user's daily profit to the daily loss limit or below, every later order of every
  user is refused, whatever fills are processed in between, until the daily reset clears the breaker.
\<close>
theorem daily_loss_blocks_everyone:
  assumes "update_on_fill D hash rm u f cur = Some rm1"
    and "d_le D (get_user_pnl D rm1 u) (d_neg D (max_daily_loss_usd (rm_limits rm)))"
    and "(fill_seen D hash)\<^sup>*\<^sup>* rm1 rm2"
  shows "check_order_risk D rm2 v o' price = Some (refused D [Lit ''Global circuit breaker is active'']) \<and>
    \<not> rm_breaker (reset_daily_stats D rm2)"
proof -
  from assms(1) obtain s s' trip where
    rm1: "rm1 = rm\<lparr>rm_users := (rm_users rm)(u \<mapsto> s'), rm_breaker := rm_breaker rm \<or> trip\<rparr>"
    and up: "update_pnl D hash (rm_limits rm) cur s = Some (s', trip)"
    by (rule update_on_fill_cases)
  from update_pnl_cases [OF up] assms(2) have "rm_breaker rm1" by (simp add: rm1 get_user_pnl_def)
  with assms(3) have "rm_breaker rm2" by (rule tripped.run_keeps)
  then show ?thesis by (simp add: check_order_risk_def reset_daily_stats_def)
qed

text \<open>The recorded peak of a balance is one.\<close>

definition peaks_ok :: "'d decimal \<Rightarrow> 'd risk_manager \<Rightarrow> bool" where
  "peaks_ok D rm \<longleftrightarrow> (\<forall>u s. rm_users rm u = Some s \<longrightarrow> d_le D (ur_current_balance s) (ur_peak_balance s))"

interpretation peaks: kept_by_steps "\<lambda>rm rm'. fill_seen D hash rm rm' \<or> rm' = reset_daily_stats D rm"
  "\<lambda>rm. (\<forall>a. \<not> d_less D a a) \<and> peaks_ok D rm" for D hash
proof
  fix rm rm' assume ok: "(\<forall>a. \<not> d_less D a a) \<and> peaks_ok D rm"
    and "fill_seen D hash rm rm' \<or> rm' = reset_daily_stats D rm"
  then consider "fill_seen D hash rm rm'" | "rm' = reset_daily_stats D rm" by blast
  then show "(\<forall>a. \<not> d_less D a a) \<and> peaks_ok D rm'"
  proof cases
    case 1
    then obtain u f cur where "update_on_fill D hash rm u f cur = Some rm'" by (auto simp: fill_seen_def)
    then show ?thesis
    proof (cases rule: update_on_fill_cases)
      case (1 s s' trip)
      with update_pnl_cases [OF 1(2)] ok show ?thesis by (auto simp: peaks_ok_def d_le_def)
    qed
  next
    case 2
    with ok show ?thesis by (auto simp: peaks_ok_def reset_daily_stats_def d_le_def)
  qed
qed

text \<open>
  In every run of fills and daily resets, no user's recorded peak balance is below the current balance, so
  the drawdown that orders are checked against is never negative.
\<close>
theorem peak_balance_invariant:
  assumes "decimal_laws D val"
    and "(\<lambda>rm rm'. fill_seen D hash rm rm' \<or> rm' = reset_daily_stats D rm)\<^sup>*\<^sup>* (risk_manager_new l) rm"
    and "rm_users rm u = Some s"
  shows "val (ur_current_balance s) \<le> val (ur_peak_balance s)"
proof -
  have "(\<forall>a. \<not> d_less D a a) \<and> peaks_ok D (risk_manager_new l)"
    by (simp add: law_less [OF assms(1)] peaks_ok_def risk_manager_new_def)
  from peaks.run_keeps [OF assms(2) this] assms(3)
  show ?thesis by (auto simp: peaks_ok_def d_le_def law_less [OF assms(1)] not_less)
qed

section \<open>Witnesses\<close>

definition risk_order :: order where
  "risk_order =
     \<lparr>ord_id = OrderId 21, ord_market_id = MarketId 7, ord_user_id = UserId 1, ord_side = Buy,
      ord_kind = LimitOrder, ord_price = Some (Price 6500), ord_quantity = Quantity 100,
      ord_filled = Quantity 0, ord_status = OrdOpen, ord_sequence = 0, ord_created_at = 0,
      ord_updated_at = 0\<rparr>"

definition risk_fill :: fill where
  "risk_fill =
     \<lparr>fill_id = FillId 31, fill_market_id = MarketId 7, fill_maker_order_id = OrderId 21,
      fill_taker_order_id = OrderId 22, fill_maker_user_id = UserId 1, fill_taker_user_id = UserId 2,
      fill_price = Price 6500, fill_quantity = Quantity 100, fill_aggressor = Buy, fill_sequence = 1,
      fill_filled_at = 0, fill_transaction_id = None\<rparr>"

definition risk_now :: "rat risk_manager" where
  "risk_now = risk_manager_new (default_risk_limits rat_decimal)"

text \<open>One fill of 100 bought at 6500, valued at 10 and at 6600.\<close>

lemma single_map_eq: "[k \<mapsto> a] = [k \<mapsto> b] \<longleftrightarrow> a = b"
  by (metis fun_upd_same option.inject)

lemma risk_after:
  "\<exists>s. update_on_fill rat_decimal id risk_now (UserId 1) risk_fill 10 =
     Some (risk_now\<lparr>rm_users := [UserId 1 \<mapsto> s], rm_breaker := True\<rparr>) \<and> ur_daily_pnl s = - 649000"
  "\<exists>s. update_on_fill rat_decimal id risk_now (UserId 1) risk_fill 6600 =
     Some (risk_now\<lparr>rm_users := [UserId 1 \<mapsto> s], rm_breaker := False\<rparr>) \<and> ur_current_balance s = 10000"
  by (simp_all add: update_on_fill_def update_pnl_def risk_now_def risk_manager_new_def rat_decimal_def
      risk_fill_def new_user_risk_def group_keys_def fill_group_key_def group_pnl_def d_sum_def d_from_def
      d_le_def default_risk_limits_def Let_def single_map_eq)

lemma admitted_order_within_limits_witness:
  "\<exists>r. check_order_risk rat_decimal risk_now (UserId 1) risk_order 5 = Some r \<and> res_allowed r \<and> \<not> rm_breaker risk_now"
proof -
  have "\<exists>r. check_order_risk rat_decimal risk_now (UserId 1) risk_order 5 = Some r \<and> res_allowed r"
    by (simp add: check_order_risk_def risk_now_def risk_manager_new_def rat_decimal_def risk_order_def
        d_from_def default_risk_limits_def)
  then show ?thesis using admitted_order_within_limits [of rat_decimal risk_now "UserId 1" risk_order 5] by blast
qed

lemma daily_loss_blocks_everyone_witness:
  "\<exists>rm. update_on_fill rat_decimal id risk_now (UserId 1) risk_fill 10 = Some rm \<and>
     check_order_risk rat_decimal rm (UserId 2) risk_order 5 =
       Some (refused rat_decimal [Lit ''Global circuit breaker is active''])"
proof -
  from risk_after(1) obtain s where
    up: "update_on_fill rat_decimal id risk_now (UserId 1) risk_fill 10 =
       Some (risk_now\<lparr>rm_users := [UserId 1 \<mapsto> s], rm_breaker := True\<rparr>)" and p: "ur_daily_pnl s = - 649000"
    by blast
  have "d_le rat_decimal (get_user_pnl rat_decimal (risk_now\<lparr>rm_users := [UserId 1 \<mapsto> s], rm_breaker := True\<rparr>) (UserId 1))
      (d_neg rat_decimal (max_daily_loss_usd (rm_limits risk_now)))"
    by (simp add: get_user_pnl_def p d_le_def rat_decimal_def risk_now_def risk_manager_new_def default_risk_limits_def)
  from daily_loss_blocks_everyone [OF up this rtranclp.rtrancl_refl] up show ?thesis by blast
qed

lemma peak_balance_invariant_witness:
  "\<exists>rm s. update_on_fill rat_decimal id risk_now (UserId 1) risk_fill 6600 = Some rm \<and>
     rm_users rm (UserId 1) = Some s \<and> ur_current_balance s = 10000 \<and> ur_current_balance s \<le> ur_peak_balance s"
proof -
  from risk_after(2) obtain s where
    up: "update_on_fill rat_decimal id risk_now (UserId 1) risk_fill 6600 =
       Some (risk_now\<lparr>rm_users := [UserId 1 \<mapsto> s], rm_breaker := False\<rparr>)" and b: "ur_current_balance s = 10000"
    by blast
  let ?rm = "risk_now\<lparr>rm_users := [UserId 1 \<mapsto> s], rm_breaker := False\<rparr>"
  from up have "(\<lambda>rm rm'. fill_seen rat_decimal id rm rm' \<or> rm' = reset_daily_stats rat_decimal rm)\<^sup>*\<^sup>*
      (risk_manager_new (default_risk_limits rat_decimal)) ?rm"
    unfolding risk_now_def by (intro r_into_rtranclp) (auto simp: fill_seen_def)
  from peak_balance_invariant [OF rat_decimal_laws this, of "UserId 1" s] up b show ?thesis by auto
qed

end
