(* ===== verification/Risk_Controls.thy ===== *)
theory Risk_Controls
  imports Db_Ledger
begin

text \<open>
  \<open>risk/src/lib.rs\<close>: the checks of an order before it enters the book: a price band, a maximal quantity and
  a maximal net position. The theorems say exactly which orders pass when the position can be read, and
  that with the documented behaviour of \<open>sqlx\<close> it never can, so that the position limit ignores the
  position.
\<close>

record risk_controls =
  rc_max_position :: i64
  rc_min_price :: u32
  rc_max_price :: u32
  rc_max_quantity :: u64

definition risk_controls_new :: risk_controls where
  "risk_controls_new =
     \<lparr>rc_max_position = 100000000, rc_min_price = 1, rc_max_price = 9999, rc_max_quantity = 100000000\<rparr>"

definition check_price_bands :: "risk_controls \<Rightarrow> order_request \<Rightarrow> unit io" where
  "check_price_bands c req =
     (case req_price req of
        None \<Rightarrow> io_return ()
      | Some (Price p) \<Rightarrow>
          if p < rc_min_price c \<or> rc_max_price c < p
          then io_fail (Validation [Lit ''price '', IntText (uint p), Lit '' outside allowed range ['',
                 IntText (uint (rc_min_price c)), Lit '', '', IntText (uint (rc_max_price c)), Lit '']''])
          else io_return ())"

definition check_quantity_limit :: "risk_controls \<Rightarrow> order_request \<Rightarrow> unit io" where
  "check_quantity_limit c req =
     (if rc_max_quantity c < quantity_raw (req_quantity req)
      then io_fail (Validation [Lit ''quantity '', IntText (uint (quantity_raw (req_quantity req))),
             Lit '' exceeds maximum allowed '', IntText (uint (rc_max_quantity c))])
      else io_return ())"

definition order_delta :: "order_request \<Rightarrow> i64" where
  "order_delta req =
     (case req_side req of
        Buy \<Rightarrow> quantity_raw (req_quantity req)
      | Sell \<Rightarrow> - quantity_raw (req_quantity req))"

definition check_position_limit :: "sqlx \<Rightarrow> risk_controls \<Rightarrow> user_id \<Rightarrow> order_request \<Rightarrow> unit io" where
  "check_position_limit q c u req =
     io_catch (get_position_for_user q u (req_market_id req)) (\<lambda>r.
       let net = (case r of Inl e \<Rightarrow> 0 | Inr n \<Rightarrow> n);
           projected = i64_saturating_add net (order_delta req)
       in if sint (rc_max_position c) < sint (i64_abs projected)
          then io_fail (Validation [Lit ''projected position '', IntText (sint projected),
                 Lit '' would exceed limit '', IntText (sint (rc_max_position c))])
          else io_return ())"

definition check_order :: "sqlx \<Rightarrow> risk_controls \<Rightarrow> user_id \<Rightarrow> order_request \<Rightarrow> unit io" where
  "check_order q c u req =
     io_bind (check_price_bands c req) (\<lambda>_.
     io_bind (check_quantity_limit c req) (\<lambda>_.
     check_position_limit q c u req))"

section \<open>Properties\<close>

definition within_band :: "risk_controls \<Rightarrow> order_request \<Rightarrow> bool" where
  "within_band c req \<longleftrightarrow>
     (case req_price req of None \<Rightarrow> True
      | Some p \<Rightarrow> rc_min_price c \<le> price_raw p \<and> price_raw p \<le> rc_max_price c)"

text \<open>The direction of an order as a signed integer.\<close>

definition signed_quantity :: "order_request \<Rightarrow> int" where
  "signed_quantity req =
     (case req_side req of Buy \<Rightarrow> 1 | Sell \<Rightarrow> - 1) * uint (quantity_raw (req_quantity req))"

lemma check_order_stages:
  "check_order q c u req w =
     (if \<not> within_band c req then check_price_bands c req w
      else if rc_max_quantity c < quantity_raw (req_quantity req) then check_quantity_limit c req w
      else check_position_limit q c u req w)"
  by (auto simp: check_order_def within_band_def check_price_bands_def check_quantity_limit_def io_defs
      split: option.splits price.splits)

lemma stage_errors:
  "\<not> within_band c req \<Longrightarrow> \<exists>m. check_price_bands c req w = (Inl (Validation m), w)"
  "rc_max_quantity c < quantity_raw (req_quantity req) \<Longrightarrow>
     \<exists>m. check_quantity_limit c req w = (Inl (Validation m), w)"
  by (auto simp: check_price_bands_def within_band_def check_quantity_limit_def io_defs
      split: option.splits price.splits)

lemma uint_of_small: "unat (x :: u64) < 2 ^ 63 \<Longrightarrow> sint x = uint x"
  by (simp add: sint_eq_unat)

lemma sint_uminus_small:
  fixes x :: u64
  assumes "unat x < 2 ^ 63"
  shows "sint (- x) = - int (unat x)"
proof -
  from assms have q: "sint x = int (unat x)" by (rule sint_eq_unat)
  have "sint x \<noteq> - (2 ^ 63)"
  proof
    assume "sint x = - (2 ^ 63)"
    with q have eq: "int (unat x) = - (2 ^ 63)" by simp
    have "(0 :: int) \<le> - (2 ^ 63)" unfolding eq [symmetric] by (rule of_nat_0_le_iff)
    then show False by simp
  qed
  from sint_uminus_i64 [OF this] q show ?thesis by simp
qed

lemma order_delta_value:
  "unat (quantity_raw (req_quantity req)) < 2 ^ 63 \<Longrightarrow> sint (order_delta req) = signed_quantity req"
  using sint_uminus_small [of "quantity_raw (req_quantity req)"]
  by (cases "req_side req") (simp_all add: order_delta_def signed_quantity_def uint_of_small)

lemma sint_i64_abs: "sint a \<noteq> - (2 ^ 63) \<Longrightarrow> sint (i64_abs a) = \<bar>sint a\<bar>"
  by (simp add: i64_abs_def sint_uminus_i64)

text \<open>The limit on the projected position, for a net position and an order that do not overflow.\<close>

lemma position_limit:
  assumes "unat (quantity_raw (req_quantity req)) < 2 ^ 62" and "\<bar>sint net\<bar> < 2 ^ 62"
  shows "sint (i64_abs (i64_saturating_add net (order_delta req))) = \<bar>sint net + signed_quantity req\<bar>"
proof -
  have n: "uint (quantity_raw (req_quantity req)) < 2 ^ 62"
  proof -
    have "int (unat (quantity_raw (req_quantity req))) < int (2 ^ 62)"
      using assms(1) by (simp only: of_nat_less_iff)
    then show ?thesis by simp
  qed
  have sg: "\<bar>signed_quantity req\<bar> < 2 ^ 62"
    using n by (auto simp: signed_quantity_def abs_mult split: side.splits)
  have d: "sint (order_delta req) = signed_quantity req"
    using assms(1) by (intro order_delta_value) simp
  have s: "sint (i64_saturating_add net (order_delta req)) = sint net + signed_quantity req"
    unfolding sint_i64_saturating_add d using sg assms(2) by (simp add: abs_if split: if_splits)
  moreover have "sint net + signed_quantity req \<noteq> - (2 ^ 63)"
    using sg assms(2) by (simp add: abs_if split: if_splits)
  ultimately show ?thesis by (simp add: sint_i64_abs)
qed

text \<open>What the check does on a database that answers: the position is zero when it cannot be read.\<close>

definition read_net :: "sqlx \<Rightarrow> db \<Rightarrow> user_id \<Rightarrow> market_id \<Rightarrow> int" where
  "read_net q d u m =
     (let n = net_position d (user_uuid u) (market_uuid m) in
      if sqlx_numeric_as_i64 q \<and> i64_ok n then n else 0)"

lemma position_read:
  obtains r where "get_position_for_user q u m (online d) = (r, online d)"
    "sint (case r of Inl e \<Rightarrow> 0 | Inr n \<Rightarrow> n) = read_net q d u m"
proof (cases "filter (\<lambda>r. pos_user r = user_uuid u \<and> pos_market r = market_uuid m) (db_positions d) = []")
  case True
  then have "get_position_for_user q u m (online d) = (Inr 0, online d)" and "read_net q d u m = 0"
    by (simp_all add: get_position_for_user_def db_run_online net_position_def read_net_def)
  then show ?thesis by (intro that) auto
next
  case False
  then have "get_position_for_user q u m (online d) =
    (if sqlx_numeric_as_i64 q \<and> i64_ok (net_position d (user_uuid u) (market_uuid m))
     then Inr (i64_of (net_position d (user_uuid u) (market_uuid m))) else Inl sql_error, online d)"
    by (simp add: get_position_for_user_def db_run_online Let_def)
  then show ?thesis by (rule that) (simp add: read_net_def Let_def)
qed

lemma check_position_online:
  assumes "unat (quantity_raw (req_quantity req)) < 2 ^ 62"
    and "\<bar>read_net q d u (req_market_id req)\<bar> < 2 ^ 62"
  shows "fst (check_position_limit q c u req (online d)) = Inr () \<longleftrightarrow>
      \<bar>read_net q d u (req_market_id req) + signed_quantity req\<bar> \<le> sint (rc_max_position c)"
    and "snd (check_position_limit q c u req (online d)) = online d"
proof -
  obtain r where r: "get_position_for_user q u (req_market_id req) (online d) = (r, online d)"
    "sint (case r of Inl e \<Rightarrow> 0 | Inr n \<Rightarrow> n) = read_net q d u (req_market_id req)"
    by (rule position_read)
  with assms position_limit [of req "case r of Inl e \<Rightarrow> 0 | Inr n \<Rightarrow> n"]
  show "fst (check_position_limit q c u req (online d)) = Inr () \<longleftrightarrow>
      \<bar>read_net q d u (req_market_id req) + signed_quantity req\<bar> \<le> sint (rc_max_position c)"
    "snd (check_position_limit q c u req (online d)) = online d"
    by (simp_all add: check_position_limit_def io_defs Let_def not_less)
qed

text \<open>
  Against a database that answers, an order passes the controls exactly when its price (if it has one)
  is in the band, its quantity is at most the maximum, and the absolute value of the net position the
  controls read plus the signed quantity is at most the limit; the check changes nothing. Positions and
  quantities are below 2^62, where no saturation interferes.
\<close>
theorem controls_admit_exactly:
  assumes "unat (rc_max_quantity c) < 2 ^ 62" and "\<bar>read_net q d u (req_market_id req)\<bar> < 2 ^ 62"
  shows "(fst (check_order q c u req (online d)) = Inr () \<longleftrightarrow>
      within_band c req \<and> quantity_raw (req_quantity req) \<le> rc_max_quantity c \<and>
      \<bar>read_net q d u (req_market_id req) + signed_quantity req\<bar> \<le> sint (rc_max_position c)) \<and>
    snd (check_order q c u req (online d)) = online d"
proof (cases "within_band c req \<and> quantity_raw (req_quantity req) \<le> rc_max_quantity c")
  case True
  then have "unat (quantity_raw (req_quantity req)) < 2 ^ 62"
    using assms(1) by (meson le_less_trans word_le_nat_alt)
  moreover have "\<not> rc_max_quantity c < quantity_raw (req_quantity req)" using True by (simp add: not_less)
  ultimately show ?thesis
    using check_position_online [OF _ assms(2)] True by (simp add: check_order_stages)
next
  case False
  then consider "\<not> within_band c req" | "within_band c req" "rc_max_quantity c < quantity_raw (req_quantity req)"
    by (auto simp: not_le)
  then show ?thesis
  proof cases
    case 1
    with stage_errors(1) [OF 1, of "online d"] show ?thesis by (auto simp: check_order_stages)
  next
    case 2
    with stage_errors(2) [OF 2(2), of "online d"] show ?thesis by (auto simp: check_order_stages)
  qed
qed

definition sample_request :: order_request where
  "sample_request =
     \<lparr>req_market_id = MarketId 7, req_side = Buy, req_kind = LimitOrder, req_price = Some (Price 6500),
      req_quantity = Quantity 100\<rparr>"

lemma controls_admit_exactly_witness:
  "fst (check_order lenient_sqlx risk_controls_new (UserId 2) sample_request (online traded_db)) = Inr () \<and>
   fst (check_order lenient_sqlx (risk_controls_new\<lparr>rc_max_position := 199\<rparr>) (UserId 2) sample_request
     (online traded_db)) \<noteq> Inr ()"
proof -
  have n: "read_net lenient_sqlx traded_db (UserId 2) (MarketId 7) = 100"
    by (simp add: read_net_def net_position_def lenient_sqlx_def sample_request_def sample_defs i64_ok_def)
  from controls_admit_exactly [of risk_controls_new lenient_sqlx traded_db "UserId 2" sample_request]
    controls_admit_exactly [of "risk_controls_new\<lparr>rc_max_position := 199\<rparr>" lenient_sqlx traded_db "UserId 2"
      sample_request]
  show ?thesis
    by (auto simp: n risk_controls_new_def within_band_def signed_quantity_def sample_request_def)
qed

text \<open>
  With what \<open>sqlx\<close> documents (a NUMERIC sum is not decoded as an \<open>i64\<close>) the position is never read and
  counts as zero: whatever a user already holds, every order inside the price band whose quantity is at
  most the quantity and the position limit passes, so the position limit limits single orders only.
\<close>
theorem position_limit_ignores_position:
  assumes "documented_sqlx q" and "within_band c req" and "quantity_raw (req_quantity req) \<le> rc_max_quantity c"
    and "unat (rc_max_quantity c) < 2 ^ 62" and "\<bar>signed_quantity req\<bar> \<le> sint (rc_max_position c)"
  shows "check_order q c u req (online d) = (Inr (), online d)"
proof -
  have "read_net q d u (req_market_id req) = 0"
    using assms(1) by (simp add: read_net_def documented_sqlx_def)
  with controls_admit_exactly [of c q d u req] assms(2-5) show ?thesis
    by (metis (no_types, lifting) add_0 abs_zero prod.collapse zero_less_numeral zero_less_power)
qed

lemma position_limit_ignores_position_witness:
  "net_position (traded_db\<lparr>db_positions := [\<lparr>pos_fill = 31, pos_user = 2, pos_market = 7, pos_delta = 100000000\<rparr>]\<rparr>)
      2 7 = 100000000 \<and>
   fst (check_order strict_sqlx risk_controls_new (UserId 2) sample_request
      (online (traded_db\<lparr>db_positions := [\<lparr>pos_fill = 31, pos_user = 2, pos_market = 7, pos_delta = 100000000\<rparr>]\<rparr>)))
    = Inr ()"
  using position_limit_ignores_position [of strict_sqlx risk_controls_new sample_request "UserId 2"
      "traded_db\<lparr>db_positions := [\<lparr>pos_fill = 31, pos_user = 2, pos_market = 7, pos_delta = 100000000\<rparr>]\<rparr>"]
  by (simp add: documented_sqlx_def strict_sqlx_def within_band_def risk_controls_new_def sample_request_def
      signed_quantity_def net_position_def)

end
