(* ===== verification/Order_Service.thy ===== *)
theory Order_Service
  imports Polymarket_Client Risk_Manager Risk_Controls Messaging
begin

text \<open>
  \<open>orders/src/lib.rs\<close> and \<open>orders/src/reconciliation.rs\<close>: an order is checked by the risk manager, sent to the
  exchange and remembered as pending until a fill arrives. The conversions \<open>to_float\<close> of prices and
  quantities are called but not defined in the repository and are parameters. Fresh identifiers and the
  clock are arguments; \<open>None\<close> is a panic of the decimal crate. The theorems show that the risk manager the
  API builds admits every order, and what a fill does to the pending orders and the ledger.
\<close>

record pending_order =
  pend_order_id :: string
  pend_market_id :: string
  pend_quantity :: f64
  pend_timestamp :: int

type_synonym reconciler = "string \<Rightarrow> pending_order option"

definition reconciler_new :: reconciler where
  "reconciler_new = (\<lambda>_. None)"

definition register :: "pending_order \<Rightarrow> reconciler \<Rightarrow> reconciler" where
  "register p r = r(pend_order_id p \<mapsto> p)"

definition finalize :: "string \<Rightarrow> reconciler \<Rightarrow> reconciler" where
  "finalize k r = r(k := None)"

definition reconcile_delta :: "engine_fill_event \<Rightarrow> i64" where
  "reconcile_delta e = (if ev_aggressor_side e = ''buy'' then ev_quantity e else - ev_quantity e)"

text \<open>\<open>process_fill\<close>: the position first, then the pending order; an error of the database comes before.\<close>

definition reconcile_fill ::
  "(uuid \<Rightarrow> string) \<Rightarrow> engine_fill_event \<Rightarrow> reconciler \<times> world \<Rightarrow> unit app_result \<times> reconciler \<times> world" where
  "reconcile_fill show_uuid e s =
     (case record_position_change (FillId (ev_fill_id e)) (UserId (ev_taker_user_id e))
             (MarketId (ev_market_id e)) (reconcile_delta e) (snd s) of
        (Inl err, w) \<Rightarrow> (Inl err, fst s, w)
      | (Inr _, w) \<Rightarrow> (Inr (), finalize (show_uuid (ev_taker_order_id e)) (fst s), w))"

section \<open>The service\<close>

record 'd order_service =
  os_risk :: "'d risk_manager"
  os_pending :: reconciler
  os_client :: client

record 'd order_env =
  oe_decimal :: "'d decimal"
  oe_show_uuid :: "uuid \<Rightarrow> string"
  oe_price_float :: "price \<Rightarrow> f64"
  oe_quantity_float :: "quantity \<Rightarrow> f64"
  oe_client :: client_deps
  oe_parse :: "string \<Rightarrow> string + create_order_response"

text \<open>What one request meets: identifiers, the clock, the breaker's reading and the network.\<close>

record order_call =
  oc_user :: uuid
  oc_order :: uuid
  oc_reply :: uuid
  oc_now :: datetime
  oc_lag :: u64
  oc_send :: http_send

definition open_order :: "order_id \<Rightarrow> user_id \<Rightarrow> datetime \<Rightarrow> order_request \<Rightarrow> order" where
  "open_order i u now req =
     \<lparr>ord_id = i, ord_market_id = req_market_id req, ord_user_id = u, ord_side = req_side req,
      ord_kind = req_kind req, ord_price = req_price req, ord_quantity = req_quantity req,
      ord_filled = Quantity 0, ord_status = OrdOpen, ord_sequence = 0, ord_created_at = now,
      ord_updated_at = now\<rparr>"

definition exchange_order :: "'d order_env \<Rightarrow> datetime \<Rightarrow> order_request \<Rightarrow> price \<Rightarrow> create_order_request" where
  "exchange_order env now req p =
     \<lparr>cor_market_id = oe_show_uuid env (market_uuid (req_market_id req)), cor_asset_id = [],
      cor_price = oe_price_float env p, cor_size = oe_quantity_float env (req_quantity req),
      cor_side = (if req_side req = Buy then XBuy else XSell), cor_taker_fee = None, cor_maker_fee = None,
      cor_nonce = word_of_int (now div 1000), cor_self_trade_behavior = None,
      cor_time_in_force = ''GTC'', cor_expiration = None, cor_neg_risk = None\<rparr>"

definition send_and_register ::
  "'d order_env \<Rightarrow> order_call \<Rightarrow> order_request \<Rightarrow> 'd order_service \<Rightarrow> unit app_result \<times> 'd order_service" where
  "send_and_register env call req s =
     (case req_price req of
        None \<Rightarrow> (Inl (BadRequest [Lit ''Price required for limit order'']), s)
      | Some p \<Rightarrow>
          (case create_order (oe_client env) (oe_parse env) (oc_lag call) (oc_now call div 10 ^ 9)
                  (oc_send call) (exchange_order env (oc_now call) req p) (os_client s) of
             ((Inl e, _), c) \<Rightarrow> (Inl e, s\<lparr>os_client := c\<rparr>)
           | ((Inr res, _), c) \<Rightarrow>
               (Inr (), s\<lparr>os_client := c, os_pending := register
                  \<lparr>pend_order_id = cos_order_id res,
                   pend_market_id = oe_show_uuid env (market_uuid (req_market_id req)),
                   pend_quantity = oe_quantity_float env (req_quantity req),
                   pend_timestamp = oc_now call div 10 ^ 9\<rparr> (os_pending s)\<rparr>)))"

definition service_place_order ::
  "'d order_env \<Rightarrow> order_call \<Rightarrow> user_id \<Rightarrow> order_request \<Rightarrow> 'd order_service \<Rightarrow>
     (unit app_result \<times> 'd order_service) option" where
  "service_place_order env call u req s = (let D = oe_decimal env in do {
     risk \<leftarrow> check_order_risk D (os_risk s) u (open_order (OrderId (oc_order call)) u (oc_now call) req)
               (get_user_exposure D (os_risk s) u);
     Some (if \<not> res_allowed risk
           then (Inl (RiskLimitExceeded (case res_reason risk of None \<Rightarrow> [] | Some m \<Rightarrow> m)), s)
           else send_and_register env call req s) })"

text \<open>\<open>submit\<close> places the order for a user it has just invented, and answers with yet another order id.\<close>

definition submit ::
  "'d order_env \<Rightarrow> order_call \<Rightarrow> order_request \<Rightarrow> 'd order_service \<Rightarrow> (order app_result \<times> 'd order_service) option" where
  "submit env call req s = do {
     (r, s') \<leftarrow> service_place_order env call (UserId (oc_user call)) req s;
     Some (case r of
             Inl e \<Rightarrow> Inl e
           | Inr _ \<Rightarrow> Inr (open_order (OrderId (oc_reply call)) (UserId (oc_user call)) (oc_now call) req), s') }"

definition service_cancel :: "user_id \<Rightarrow> order_id \<Rightarrow> order app_result" where
  "service_cancel u i = Inl (BadRequest [Lit ''Order cancellation not implemented''])"

definition service_get :: "order_id \<Rightarrow> order app_result" where
  "service_get i = Inl (NotFound [Lit ''Order not found''])"

definition list_for_user :: "user_id \<Rightarrow> market_id option \<Rightarrow> u32 option \<Rightarrow> order list app_result" where
  "list_for_user u m n = Inr []"

section \<open>The risk check of the API\<close>

fun submits ::
  "'d order_env \<Rightarrow> (order_call \<times> order_request) list \<Rightarrow> 'd order_service \<Rightarrow>
     (order app_result list \<times> 'd order_service) option" where
  "submits env [] s = Some ([], s)"
| "submits env ((call, req) # xs) s = do {
     (r, s') \<leftarrow> submit env call req s;
     (rs, s'') \<leftarrow> submits env xs s';
     Some (r # rs, s'') }"

definition untouched_risk :: "'d order_service \<Rightarrow> bool" where
  "untouched_risk s \<longleftrightarrow> rm_users (os_risk s) = (\<lambda>_. None) \<and> \<not> rm_breaker (os_risk s)"

lemma send_and_register_cases:
  "send_and_register env call req s = (r, s') \<Longrightarrow> os_risk s' = os_risk s \<and> (\<forall>m. r \<noteq> Inl (RiskLimitExceeded m))"
  by (auto simp: send_and_register_def create_order_def send_and_parse_def handle_response_def Let_def
      split: option.splits prod.splits sum.splits bool.splits if_splits)

text \<open>A user without fills has no exposure, and zero times any quantity is within every limit.\<close>

lemma untouched_admits:
  assumes laws: "decimal_laws D val" and "untouched_risk s"
    and "0 \<le> val (max_position_size_usd (rm_limits (os_risk s)))"
  shows "\<exists>score. check_order_risk D (os_risk s) u o' (get_user_exposure D (os_risk s) u) =
    Some \<lparr>res_allowed = True, res_reason = None, res_score = score\<rparr>"
proof -
  from assms(2) have users: "rm_users (os_risk s) = (\<lambda>_. None)" "\<not> rm_breaker (os_risk s)"
    by (simp_all add: untouched_risk_def)
  have "representable 0" using representable_int [of 0] by simp
  then obtain v where "d_mul D (d_from D (quantity_raw (ord_quantity o'))) (d_of D 0) = Some v" "val v = 0"
    using law_mul [OF laws, of _ "d_of D 0"] by (auto simp: law_of_numeral [OF laws])
  with users assms(3) show ?thesis
    by (simp add: check_order_risk_def get_user_exposure_def law_less [OF laws])
qed

lemma submit_admitted:
  assumes "decimal_laws (oe_decimal env) val" and "untouched_risk s"
    and "0 \<le> val (max_position_size_usd (rm_limits (os_risk s)))"
  obtains r s' where "submit env call req s = Some (r, s')" "os_risk s' = os_risk s"
    "\<forall>m. r \<noteq> Inl (RiskLimitExceeded m)"
proof -
  let ?u = "UserId (oc_user call)"
  from untouched_admits [OF assms] obtain score where
    ok: "check_order_risk (oe_decimal env) (os_risk s) ?u (open_order (OrderId (oc_order call)) ?u (oc_now call) req)
      (get_user_exposure (oe_decimal env) (os_risk s) ?u) = Some \<lparr>res_allowed = True, res_reason = None, res_score = score\<rparr>"
    by blast
  obtain r s' where sr: "send_and_register env call req s = (r, s')" by fastforce
  with ok have "service_place_order env call ?u req s = Some (r, s')"
    by (simp add: service_place_order_def Let_def)
  then show ?thesis
    using send_and_register_cases [OF sr]
    by (intro that [of "case r of Inl e \<Rightarrow> Inl e | Inr _ \<Rightarrow> Inr (open_order (OrderId (oc_reply call)) ?u (oc_now call) req)" s'])
      (auto simp: submit_def split: sum.splits)
qed

text \<open>
  C36: The risk manager behind the order API is built empty and nothing in the order path ever updates it: in
  every sequence of submitted orders, of whatever sizes, none is refused by a risk limit and none panics,
  because the amount checked is the quantity times the user's exposure, which is zero.
\<close>
theorem api_orders_never_risk_limited:
  assumes "decimal_laws (oe_decimal env) val" and "os_risk s = risk_manager_new limits"
    and "0 \<le> val (max_position_size_usd limits)"
  shows "\<exists>rs s'. submits env xs s = Some (rs, s') \<and> length rs = length xs \<and>
    (\<forall>r \<in> set rs. \<forall>m. r \<noteq> Inl (RiskLimitExceeded m))"
  using assms(2)
proof (induction xs arbitrary: s)
  case (Cons x xs)
  obtain call req where x: "x = (call, req)" by (cases x)
  have "untouched_risk s" "0 \<le> val (max_position_size_usd (rm_limits (os_risk s)))"
    using Cons.prems assms(3) by (simp_all add: untouched_risk_def risk_manager_new_def)
  then obtain r s1 where r: "submit env call req s = Some (r, s1)" "os_risk s1 = os_risk s"
    "\<forall>m. r \<noteq> Inl (RiskLimitExceeded m)"
    using submit_admitted [OF assms(1)] by metis
  from Cons.IH [of s1] r(2) Cons.prems obtain rs s' where
    "submits env xs s1 = Some (rs, s')" "length rs = length xs" "\<forall>r \<in> set rs. \<forall>m. r \<noteq> Inl (RiskLimitExceeded m)"
    by auto
  with r x show ?case by auto
qed simp

definition sample_order_env :: "rat order_env" where
  "sample_order_env =
     \<lparr>oe_decimal = rat_decimal, oe_show_uuid = (\<lambda>u. ''id''), oe_price_float = (\<lambda>p. Fin False 0),
      oe_quantity_float = (\<lambda>q. Fin False 0), oe_client = sample_client_deps, oe_parse = sample_parse\<rparr>"

definition sample_service :: "rat order_service" where
  "sample_service =
     \<lparr>os_risk = risk_manager_new (default_risk_limits rat_decimal), os_pending = reconciler_new,
      os_client = sample_client\<rparr>"

definition sample_call :: order_call where
  "sample_call =
     \<lparr>oc_user = 1, oc_order = 2, oc_reply = 3, oc_now = 0, oc_lag = 0,
      oc_send = (\<lambda>_. Inr \<lparr>rsp_status = 201, rsp_text = Some ''x1''\<rparr>)\<rparr>"

lemma api_orders_never_risk_limited_witness:
  "\<exists>rs s'. submits sample_order_env
      [(sample_call, sample_request\<lparr>req_quantity := Quantity (- 1)\<rparr>)] sample_service = Some (rs, s') \<and>
    length rs = 1 \<and> (\<forall>r \<in> set rs. \<forall>m. r \<noteq> Inl (RiskLimitExceeded m))"
  using api_orders_never_risk_limited [of sample_order_env "\<lambda>r. r" sample_service
      "default_risk_limits rat_decimal" "[(sample_call, sample_request\<lparr>req_quantity := Quantity (- 1)\<rparr>)]"]
    rat_decimal_laws
  by (simp add: sample_order_env_def sample_service_def default_risk_limits_def rat_decimal_def)

section \<open>Prices that fit nowhere\<close>

text \<open>
  Prices have two scales. A price that \<open>from_decimal\<close> made from a value of one cent or more (in
  millionths, 10000 or more) is outside the default band of the risk controls, and the orders table
  rejects an order that carries it.
\<close>
theorem decimal_prices_do_not_fit_the_book:
  assumes "decimal_laws D val" and "representable (val x * 1000000)"
    and "price_from_decimal D x = Some (Some p)" and "1 / 100 \<le> val x" and "ord_price o' = Some p"
  shows "\<not> within_band risk_controls_new \<lparr>req_market_id = m, req_side = sd, req_kind = k, req_price = Some p,
      req_quantity = q\<rparr> \<and>
    insert_order_stmt o' d = Inl sql_error"
proof -
  from price_from_decimal_value [OF assms(1,2)] assms(3)
  have p: "p = Price (word_of_int (round_half_even (val x * 1000000)))"
    "round_half_even (val x * 1000000) \<le> 9999999" "1000 \<le> round_half_even (val x * 1000000)"
    by (auto simp: Let_def split: if_splits)
  have "10000 - 1 / 2 \<le> (of_int (round_half_even (val x * 1000000)) :: rat)"
    using round_half_even_near [of "val x * 1000000"] assms(4) by linarith
  then have "(of_int 9999 :: rat) < of_int (round_half_even (val x * 1000000))" by simp
  then have big: "9999 < round_half_even (val x * 1000000)" by (simp only: of_int_less_iff)
  with p have raw: "uint (price_raw p) = round_half_even (val x * 1000000)" by (simp add: uint_word_of_int)
  have sraw: "sint (price_raw p) = round_half_even (val x * 1000000)"
    using p big by (simp add: sint_sbintrunc' signed_take_bit_int_eq_self)
  from raw have "9999 < price_raw p" using big by (simp add: word_less_def)
  then have "\<not> within_band risk_controls_new \<lparr>req_market_id = m, req_side = sd, req_kind = k, req_price = Some p,
      req_quantity = q\<rparr>"
    by (simp add: within_band_def risk_controls_new_def not_le)
  moreover have "\<not> order_check (row_of_order o')"
    using assms(5) big sraw by (simp add: order_check_def row_of_order_def)
  ultimately show ?thesis by (simp add: insert_order_stmt_def stmt_write_def Let_def)
qed

lemma decimal_prices_do_not_fit_the_book_witness:
  "price_from_decimal rat_decimal (65 / 100) = Some (Some (Price 650000)) \<and>
   insert_order_stmt (sample_order\<lparr>ord_price := Some (Price 650000)\<rparr>) sample_db = Inl sql_error"
proof -
  have p: "price_from_decimal rat_decimal (65 / 100) = Some (Some (Price 650000))" by code_simp
  have "representable (65 / 100 * 1000000)" using representable_int [of 650000] by simp
  from decimal_prices_do_not_fit_the_book [OF rat_decimal_laws this p,
      of "sample_order\<lparr>ord_price := Some (Price 650000)\<rparr>"] p
  show ?thesis by simp
qed

section \<open>Reconciliation\<close>

text \<open>
  A fill the reconciler processes against a database that answers moves the taker's net position by its
  signed quantity and nothing else in the positions, and removes from the pending orders exactly the key
  that is the text of the taker's order id; when the database refuses, nothing changes at all.
\<close>
theorem reconciled_fill_effect:
  assumes "reconcile_fill show_uuid e (r, online d) = (res, r', w')" and "unat (ev_quantity e) < 2 ^ 63"
  shows "(\<exists>d'. res = Inr () \<and> w' = online d' \<and>
      (\<forall>v n. net_position d' v n = net_position d v n +
        (if v = ev_taker_user_id e \<and> n = ev_market_id e
         then (if ev_aggressor_side e = ''buy'' then 1 else - 1) * int (unat (ev_quantity e)) else 0)) \<and>
      r' = r(show_uuid (ev_taker_order_id e) := None)) \<or>
    (\<exists>err. res = Inl err \<and> w' = online d \<and> r' = r)"
proof -
  let ?s = "record_position_stmt (ev_fill_id e) (ev_taker_user_id e) (ev_market_id e) (sint (reconcile_delta e))"
  from sint_eq_unat [OF assms(2)] sint_uminus_small [OF assms(2)]
  have delta: "sint (reconcile_delta e) =
      (if ev_aggressor_side e = ''buy'' then 1 else - 1) * int (unat (ev_quantity e))"
    by (simp add: reconcile_delta_def)
  show ?thesis
  proof (cases "?s d")
    case (Inl err)
    with assms(1) have "res = Inl err \<and> w' = online d \<and> r' = r"
      by (simp add: reconcile_fill_def record_position_change_def db_run_online)
    then show ?thesis by blast
  next
    case (Inr x)
    then obtain d' where run: "?s d = Inr ((), d')" by (cases x) auto
    with assms(1) have "res = Inr ()" "w' = online d'" "r' = r(show_uuid (ev_taker_order_id e) := None)"
      by (auto simp: reconcile_fill_def record_position_change_def db_run_online finalize_def)
    with record_position_net [OF run] delta show ?thesis by auto
  qed
qed

definition sample_event_fill :: engine_fill_event where
  "sample_event_fill =
     \<lparr>ev_fill_id = 31, ev_market_id = 7, ev_maker_order_id = 21, ev_taker_order_id = 22,
      ev_maker_user_id = 1, ev_taker_user_id = 2, ev_price = 6500, ev_quantity = 40,
      ev_aggressor_side = ''sell'', ev_sequence = 1, ev_timestamp_ns = 0\<rparr>"

lemma reconciled_fill_effect_witness:
  "\<exists>r' d'. reconcile_fill (\<lambda>u. ''id'') sample_event_fill (reconciler_new, online traded_db) = (Inr (), r', online d') \<and>
     net_position d' 2 7 = 60"
proof -
  have ok: "succeeds (\<lambda>w. case reconcile_fill (\<lambda>u. ''id'') sample_event_fill (reconciler_new, w) of (res, r, w') \<Rightarrow> (res, w'))
      (online traded_db)"
    by code_simp
  obtain res r' w' where run: "reconcile_fill (\<lambda>u. ''id'') sample_event_fill (reconciler_new, online traded_db) = (res, r', w')"
    by (metis surj_pair)
  have n: "net_position traded_db 2 7 = 100"
    by (simp add: net_position_def sample_defs)
  from reconciled_fill_effect [OF run] run ok n show ?thesis
    by (auto simp: succeeds_def sample_event_fill_def split: sum.splits)
qed

end
