(* ===== verification/Markets_Service.thy ===== *)
theory Markets_Service
  imports Db_Ledger
begin

text \<open>
  \<open>markets/src/lib.rs\<close>: the operations of \<open>MarketService\<close>. Each reads the market, checks its status and
  writes the new one in a second statement, then appends to the audit log. The lemmas describe the
  status machine of an operation that runs undisturbed, and \<open>pause_over_settlement\<close> (in \<open>Settlement\<close>) what
  a settlement between the two statements does.
\<close>

section \<open>Operations\<close>

definition uuid_entity :: "(uuid \<Rightarrow> string) \<Rightarrow> market_id \<Rightarrow> string option" where
  "uuid_entity show_uuid m = Some (show_uuid (market_uuid m))"

definition market_create ::
  "(uuid \<Rightarrow> string) \<Rightarrow> uuid \<Rightarrow> datetime \<Rightarrow> string \<Rightarrow> string \<Rightarrow> datetime option \<Rightarrow> user_id \<Rightarrow> market io" where
  "market_create show_uuid new_id now title description resolves_at created_by =
     (let t = trim title in
      if t = [] then io_fail (Validation [Lit ''title is required''])
      else if 200 < length t then io_fail (Validation [Lit ''title exceeds 200 characters''])
      else
        io_bind (insert_market new_id now t description resolves_at) (\<lambda>m.
        io_bind (audit (Some created_by) ''create'' ''market'' (uuid_entity show_uuid (mkt_id m)) None)
          (\<lambda>_. io_return m)))"

text \<open>The part \<open>pause\<close>, \<open>reopen\<close> and \<open>cancel_market\<close> share, after the status has been read and checked.\<close>

definition move_market ::
  "(uuid \<Rightarrow> string) \<Rightarrow> market_status \<Rightarrow> string \<Rightarrow> market_id \<Rightarrow> user_id \<Rightarrow> unit io" where
  "move_market show_uuid s action m by =
     io_bind (set_market_status m s) (\<lambda>_.
       audit (Some by) action ''market'' (uuid_entity show_uuid m) None)"

definition market_pause :: "(uuid \<Rightarrow> string) \<Rightarrow> market_id \<Rightarrow> user_id \<Rightarrow> unit io" where
  "market_pause show_uuid m by =
     io_bind (get_market m) (\<lambda>mk.
       if mkt_status mk \<noteq> MktOpen
       then io_fail (BadRequest [Lit ''only open markets can be paused''])
       else move_market show_uuid MktPaused ''pause'' m by)"

definition market_reopen :: "(uuid \<Rightarrow> string) \<Rightarrow> market_id \<Rightarrow> user_id \<Rightarrow> unit io" where
  "market_reopen show_uuid m by =
     io_bind (get_market m) (\<lambda>mk.
       if mkt_status mk \<noteq> MktPaused
       then io_fail (BadRequest [Lit ''only paused markets can be reopened''])
       else move_market show_uuid MktOpen ''reopen'' m by)"

definition market_cancel :: "(uuid \<Rightarrow> string) \<Rightarrow> market_id \<Rightarrow> user_id \<Rightarrow> unit io" where
  "market_cancel show_uuid m by =
     io_bind (get_market m) (\<lambda>mk.
       if mkt_status mk = MktSettled
       then io_fail (BadRequest [Lit ''cannot cancel a settled market''])
       else move_market show_uuid MktCancelled ''cancel'' m by)"

lemma markets_service_conform:
  "runs.io_conforms (market_create sh i now t de ra u)" "runs.io_conforms (market_pause sh m u)"
  "runs.io_conforms (market_reopen sh m u)" "runs.io_conforms (market_cancel sh m u)"
  unfolding market_create_def market_pause_def market_reopen_def market_cancel_def move_market_def Let_def
  by (auto intro!: conform methods_conform)

section \<open>The status machine\<close>

definition status_of :: "db \<Rightarrow> market_id \<Rightarrow> market_status option" where
  "status_of d m = map_option mrow_status (find_market d (market_uuid m))"

text \<open>The moves of the lifecycle; \<open>Settled\<close> is final and \<open>Cancelled\<close> is never reopened.\<close>

definition may_move :: "market_status \<Rightarrow> market_status \<Rightarrow> bool" where
  "may_move s t \<longleftrightarrow> s = t \<or>
     (s, t) \<in> {(MktOpen, MktPaused), (MktPaused, MktOpen), (MktOpen, MktCancelled),
               (MktPaused, MktCancelled), (MktOpen, MktSettled), (MktPaused, MktSettled)}"

lemma get_market_result:
  assumes "get_market m w = (Inr mk, w')"
  shows "w_db w' = w_db w \<and> status_of (w_db w) m = Some (mkt_status mk)"
  using assms
  by (auto simp: get_market_def io_defs db_run_def stmt_query_def Let_def status_of_def market_of_row_def
      split: prod.splits sum.splits link.splits option.splits if_splits)

lemma get_market_keeps: "get_market m w = (r, w') \<Longrightarrow> w_db w' = w_db w"
  by (auto simp: get_market_def io_defs db_run_def stmt_query_def Let_def
      split: prod.splits sum.splits link.splits option.splits if_splits)

text \<open>One request that updates the status of a market, whatever the link does.\<close>

lemma status_update:
  assumes run: "update_markets (market_uuid m) (\<lambda>_. True) (row_status s) d = Inr (n, d')"
    and ok: "markets_ok d"
  shows "status_of d' m = (if status_of d m = None then None else Some s) \<and>
    (\<forall>m'. m' \<noteq> m \<longrightarrow> status_of d' m' = status_of d m') \<and> (n = 0 \<longleftrightarrow> status_of d m = None)"
proof -
  from ok have "distinct (map mrow_id (db_markets d))" by (simp add: markets_ok_def)
  with run show ?thesis
    using row_status_keys [of s]
  proof (cases rule: update_markets_cases)
    case none
    then show ?thesis by (cases "find_market d (market_uuid m)") (auto simp: status_of_def)
  next
    case (one r r' t)
    moreover have "market_uuid m' \<noteq> market_uuid m" if "m' \<noteq> m" for m'
      using that by (cases m; cases m') simp
    ultimately show ?thesis by (auto simp: status_of_def row_status_def)
  qed
qed

lemma audit_status: "audit u a e i me w = (r, w') \<Longrightarrow> db_markets (w_db w') = db_markets (w_db w)"
  by (auto simp: audit_def audit_stmt_def stmt_write_def db_run_def Let_def
      split: prod.splits sum.splits link.splits option.splits if_splits)

lemma status_of_cong: "db_markets d' = db_markets d \<Longrightarrow> status_of d' m = status_of d m"
  by (simp add: status_of_def find_market_def)

lemma set_status_cases:
  assumes run: "set_market_status m s w = (r, w')" and ok: "markets_ok (w_db w)"
  shows "w_db w' = w_db w \<or>
    (status_of (w_db w') m = (if status_of (w_db w) m = None then None else Some s) \<and>
     (\<forall>m'. m' \<noteq> m \<longrightarrow> status_of (w_db w') m' = status_of (w_db w) m'))"
proof -
  from run obtain r1 where "db_run (update_markets (market_uuid m) (\<lambda>_. True) (row_status s)) w = (r1, w')"
    by (auto simp: set_market_status_def io_defs split: prod.splits sum.splits if_splits)
  then show ?thesis
    by (cases rule: db_run_cases) (use status_update [OF _ ok] in auto)
qed

lemma move_market_cases:
  assumes run: "move_market sh s a m u w = (r, w')" and ok: "markets_ok (w_db w)"
  shows "(\<forall>m'. status_of (w_db w') m' = status_of (w_db w) m') \<or>
    (status_of (w_db w') m = (if status_of (w_db w) m = None then None else Some s) \<and>
     (\<forall>m'. m' \<noteq> m \<longrightarrow> status_of (w_db w') m' = status_of (w_db w) m'))"
proof -
  obtain r1 w1 where s: "set_market_status m s w = (r1, w1)" by fastforce
  with run have "db_markets (w_db w') = db_markets (w_db w1)"
    by (cases r1) (auto simp: move_market_def io_bind_def dest: audit_status)
  then have "status_of (w_db w') m' = status_of (w_db w1) m'" for m' by (rule status_of_cong)
  with set_status_cases [OF s ok] show ?thesis by auto
qed

lemma guarded_move:
  assumes run: "io_bind (get_market m) (\<lambda>mk. if bad (mkt_status mk) then io_fail e
      else move_market sh s a m u) w = (r, w')"
    and ok: "markets_ok (w_db w)" and good: "\<And>t. \<not> bad t \<Longrightarrow> may_move t s"
    and st: "status_of (w_db w) m' = Some t"
  shows "\<exists>t'. status_of (w_db w') m' = Some t' \<and> may_move t t'"
proof -
  obtain r1 w1 where g: "get_market m w = (r1, w1)" by fastforce
  then have w1: "w_db w1 = w_db w" by (rule get_market_keeps)
  show ?thesis
  proof (cases r1)
    case (Inl e')
    with run g w1 st show ?thesis by (auto simp: io_bind_def may_move_def)
  next
    case (Inr mk)
    show ?thesis
    proof (cases "bad (mkt_status mk)")
      case True
      with run g Inr w1 st show ?thesis by (auto simp: io_bind_def io_fail_def may_move_def)
    next
      case False
      with run g Inr have mv: "move_market sh s a m u w1 = (r, w')" by (simp add: io_bind_def)
      from g Inr get_market_result have "status_of (w_db w) m = Some (mkt_status mk)" by blast
      with move_market_cases [OF mv] ok w1 st good [OF False] show ?thesis
        by (cases "m' = m") (auto simp: may_move_def)
    qed
  qed
qed

lemma market_create_status:
  assumes run: "market_create sh i now t de ra u w = (r, w')" and st: "status_of (w_db w) m' = Some s"
  shows "status_of (w_db w') m' = Some s"
proof -
  have ins: "status_of (w_db w1) m' = Some s" if "insert_market i now tt de ra w = (r1, w1)" for r1 w1 tt
  proof -
    from that have "db_run (insert_market_stmt i now tt de ra) w = (r1, w1)"
      by (simp add: insert_market_def)
    moreover have "status_of d' m' = Some s" if "insert_market_stmt i now tt de ra (w_db w) = Inr (mm, d')" for mm d'
    proof -
      from that have "\<not> market_exists (w_db w) i"
        by (auto simp: insert_market_stmt_def stmt_write_def split: option.splits if_splits)
      moreover from st have "market_exists (w_db w) (market_uuid m')"
        by (force simp: status_of_def find_market_def market_exists_def dest!: find_SomeD)
      ultimately have "market_uuid m' \<noteq> i" by blast
      with insert_market_effect [OF that] st show ?thesis by (simp add: status_of_def)
    qed
    ultimately show ?thesis using st by (auto elim!: db_run_cases)
  qed
  from run ins show ?thesis
    using st by (auto simp: market_create_def Let_def io_bind_def io_return_def io_fail_def
        dest!: audit_status status_of_cong [where m = m'] split: if_splits prod.splits sum.splits)
qed

end
