(* ===== verification/Settlement.thy ===== *)
theory Settlement
  imports Markets_Service
begin

text \<open>
  \<open>settlement/src/lib.rs\<close>: a market that is open or paused, and whose resolution time has come, pays each
  positive position its quantity when the outcome is \<open>Yes\<close>; one transaction marks the market settled and
  credits the payouts. The lemmas show what is paid, to whom, and that the lifecycle of a market allows
  one settlement, and the theorem on \<open>sqlx\<close> that the positions a settlement needs cannot be decoded.
\<close>

fun status_debug :: "market_status \<Rightarrow> string" where
  "status_debug MktOpen = ''Open''"
| "status_debug MktPaused = ''Paused''"
| "status_debug MktSettled = ''Settled''"
| "status_debug MktCancelled = ''Cancelled''"

record settlement_summary =
  set_market_id :: market_id
  set_outcome :: outcome
  set_payouts :: "(user_id \<times> i64) list"
  set_total_payout :: i64

text \<open>The closure of \<open>filter_map\<close>.\<close>

definition payout_of :: "outcome \<Rightarrow> position_row \<Rightarrow> (user_id \<times> i64) option" where
  "payout_of oc row =
     (let net = prow_net_quantity row in
      if sint net \<le> 0 then None
      else
        (let amount = (case oc of Yes \<Rightarrow> net | No \<Rightarrow> 0) in
         if amount = 0 then None else Some (UserId (prow_user_id row), amount)))"

definition payouts :: "outcome \<Rightarrow> position_row list \<Rightarrow> (user_id \<times> i64) list" where
  "payouts oc rows = List.map_filter (payout_of oc) rows"

definition total_payout :: "(user_id \<times> i64) list \<Rightarrow> i64" where
  "total_payout ps = sum_list (map snd ps)"

definition settle_market ::
  "sqlx \<Rightarrow> datetime \<Rightarrow> market_id \<Rightarrow> outcome \<Rightarrow> user_id \<Rightarrow> settlement_summary io" where
  "settle_market q now m oc resolved_by =
     io_bind (get_market m) (\<lambda>mk.
       if mkt_status mk \<noteq> MktOpen \<and> mkt_status mk \<noteq> MktPaused
       then io_fail (BadRequest
              [Lit ''market cannot be settled from status '', Lit (status_debug (mkt_status mk))])
       else if (case mkt_resolves_at mk of None \<Rightarrow> False | Some t \<Rightarrow> now < t)
       then io_fail (BadRequest [Lit ''resolution window has not opened yet''])
       else
         io_bind (get_user_positions q m) (\<lambda>rows.
           let ps = payouts oc rows in
           io_bind (apply_settlement_payouts now m oc ps) (\<lambda>_.
             io_return \<lparr>set_market_id = m, set_outcome = oc, set_payouts = ps,
                        set_total_payout = total_payout ps\<rparr>)))"

lemma settle_market_conform: "runs.io_conforms (settle_market q now m oc u)"
  unfolding settle_market_def Let_def
  by (auto intro!: conform methods_conform)

section \<open>Payouts\<close>

lemma payouts_No: "payouts No rows = []"
  by (induction rows) (simp_all add: payouts_def payout_of_def Let_def map_filter_simps)

lemma payouts_Yes:
  "payouts Yes rows =
     map (\<lambda>r. (UserId (prow_user_id r), prow_net_quantity r))
       (filter (\<lambda>r. 0 < sint (prow_net_quantity r)) rows)"
  by (induction rows) (auto simp: payouts_def payout_of_def Let_def map_filter_simps)

lemma payouts_positive: "(u, a) \<in> set (payouts oc rows) \<Longrightarrow> 0 < sint a"
  by (cases oc) (auto simp: payouts_No payouts_Yes)

text \<open>The transaction: the market is settled, every payout is credited.\<close>

lemma credits_effect:
  "stmt_iterate (\<lambda>(u, amt). credit_stmt (user_uuid u) (sint amt)) ps d = Inr (x, d') \<Longrightarrow> balances_ok d \<Longrightarrow>
     (\<forall>v. avail d' v = avail d v + (\<Sum>(u, a)\<leftarrow>ps. if user_uuid u = v then sint a else 0)) \<and>
     (\<forall>v. resv d' v = resv d v) \<and> funds d' = funds d + (\<Sum>(u, a)\<leftarrow>ps. sint a)"
proof (induction ps arbitrary: d)
  case Nil
  then show ?case by (simp add: stmt_return_def)
next
  case (Cons p ps)
  obtain u a where p: "p = (u, a)" by (cases p)
  with Cons.prems obtain d1 where c: "credit_stmt (user_uuid u) (sint a) d = Inr ((), d1)"
    and rest: "stmt_iterate (\<lambda>(u, amt). credit_stmt (user_uuid u) (sint amt)) ps d1 = Inr (x, d')"
    by (auto simp: stmt_bind_def split: sum.splits)
  from credit_effect [OF c Cons.prems(2)] have "moves (user_uuid u) (sint a) 0 d d1" by simp
  with Cons.IH [OF rest credit_ok [OF c Cons.prems(2)]] show ?case
    by (auto simp: moves_def p)
qed

lemma settle_stmt_effect:
  assumes run: "settle_stmt now m oc ps d = Inr (x, d')" and ok: "db_ok d"
  shows "(\<forall>v. avail d' v = avail d v + (\<Sum>(u, a)\<leftarrow>ps. if user_uuid u = v then sint a else 0)) \<and>
    (\<forall>v. resv d' v = resv d v) \<and> funds d' = funds d + (\<Sum>(u, a)\<leftarrow>ps. sint a) \<and>
    (\<forall>r. find_market d m = Some r \<longrightarrow> (\<exists>r'. find_market d' m = Some r' \<and>
       mrow_status r' = MktSettled \<and> mrow_outcome r' = Some oc \<and> mrow_settled_at r' = Some now)) \<and>
    (\<forall>k. k \<noteq> m \<longrightarrow> find_market d' k = find_market d k) \<and>
    (find_market d m = None \<longrightarrow> find_market d' m = None)"
  using run
proof (cases rule: settle_cases)
  case (1 n d1)
  from ok have dist: "distinct (map mrow_id (db_markets d))" by (simp add: db_ok_def markets_ok_def)
  from update_markets_frame [OF 1(1)] obtain t where d1: "d1 = d\<lparr>db_markets := t\<rparr>" by blast
  from credits_frame [OF 1(2)] obtain b where d': "d' = d1\<lparr>db_balances := b\<rparr>" by blast
  have "balances_ok d1" using ok d1 by (simp add: db_ok_def balances_ok_def user_exists_def)
  from credits_effect [OF 1(2) this]
  have money: "(\<forall>v. avail d' v = avail d v + (\<Sum>(u, a)\<leftarrow>ps. if user_uuid u = v then sint a else 0)) \<and>
     (\<forall>v. resv d' v = resv d v) \<and> funds d' = funds d + (\<Sum>(u, a)\<leftarrow>ps. sint a)"
    using balances_only [of d1 d] d1 by simp
  have same: "find_market d' k = find_market d1 k" for k by (simp add: find_market_def d')
  from 1(1) dist row_settle_keys [of now oc] show ?thesis
  proof (cases rule: update_markets_cases)
    case none
    then have "find_market d m = None" by (cases "find_market d m") auto
    with none money same show ?thesis by simp
  next
    case (one r r' t)
    with money same show ?thesis by (auto simp: row_settle_def)
  qed
qed

section \<open>Settlements\<close>

text \<open>What the position query returns when it can be decoded, and what each user is paid from it.\<close>

lemma positions_online:
  "get_user_positions q m (online d) =
     (if holders d (market_uuid m) = [] \<or>
         (sqlx_fields q position_row_fields position_columns \<and> sqlx_numeric_as_i64 q \<and>
          (\<forall>(u, n) \<in> set (holders d (market_uuid m)). i64_ok n))
      then (Inr (map (\<lambda>(u, n). \<lparr>prow_user_id = u, prow_market_id = market_uuid m,
              prow_net_quantity = i64_of n\<rparr>) (holders d (market_uuid m))), online d)
      else (Inl sql_error, online d))"
  by (simp add: get_user_positions_def db_run_online Let_def decode_rows_def)

lemma sum_key_single:
  fixes f :: "'b \<Rightarrow> int"
  assumes "distinct (map fst xs)" and "(u, n) \<in> set xs"
  shows "(\<Sum>(k, v)\<leftarrow>xs. if k = u then f v else 0) = f n"
  using assms
proof (induction xs)
  case (Cons x xs)
  have zero: "u \<notin> fst ` set ys \<Longrightarrow> (\<Sum>(k, v)\<leftarrow>ys. if k = u then f v else 0) = 0" for ys
    by (induction ys) auto
  show ?case
  proof (cases "x = (u, n)")
    case True
    with Cons.prems zero [of xs] show ?thesis by simp
  next
    case False
    with Cons.prems have "(u, n) \<in> set xs" "fst x \<noteq> u" by (auto simp: rev_image_eqI)
    with Cons show ?thesis by (auto split: prod.splits)
  qed
qed simp

lemma sum_key_none:
  fixes f :: "'b \<Rightarrow> int"
  shows "u \<notin> fst ` set xs \<Longrightarrow> (\<Sum>(k, v)\<leftarrow>xs. if k = u then f v else 0) = 0"
  by (induction xs) auto

lemma paid_to:
  assumes ok: "\<forall>(u, n) \<in> set (holders d m). i64_ok n"
  shows "(\<Sum>(u, a)\<leftarrow>payouts oc (map (\<lambda>(u, n). \<lparr>prow_user_id = u, prow_market_id = m,
      prow_net_quantity = i64_of n\<rparr>) (holders d m)). if user_uuid u = v then sint a else 0) =
    (if oc = Yes then max 0 (net_position d v m) else 0)"
proof (cases oc)
  case No
  then show ?thesis by (simp add: payouts_No)
next
  case Yes
  have step: "(\<Sum>(u, a)\<leftarrow>payouts Yes (map (\<lambda>(u, n). \<lparr>prow_user_id = u, prow_market_id = m,
        prow_net_quantity = i64_of n\<rparr>) xs). if user_uuid u = v then sint a else 0) =
      (\<Sum>(u, n)\<leftarrow>xs. if u = v then max 0 n else 0)"
    if "\<forall>(u, n) \<in> set xs. i64_ok n" for xs
    using that by (induction xs) (auto simp: payouts_Yes)
  have "(\<Sum>(u, n)\<leftarrow>holders d m. if u = v then max 0 n else 0) = max 0 (net_position d v m)"
  proof (cases "net_position d v m = 0")
    case True
    then have "v \<notin> fst ` set (holders d m)" by (auto simp: holders_set)
    then show ?thesis using True sum_key_none [where f = "max 0"] by simp
  next
    case False
    then have "(v, net_position d v m) \<in> set (holders d m)" by (simp add: holders_set)
    with holders_distinct show ?thesis by (rule sum_key_single [where f = "max 0"])
  qed
  with Yes step [OF ok] show ?thesis by simp
qed

lemma get_market_online:
  "get_market m (online d) =
     (case find_market d (market_uuid m) of
        None \<Rightarrow> (Inl (MarketNotFound [UuidText (market_uuid m)]), online d)
      | Some r \<Rightarrow> (Inr (market_of_row r), online d))"
  by (auto simp: get_market_def io_defs db_run_online stmt_query_def split: option.splits)

lemma settle_online_success:
  assumes run: "settle_market q now m oc u (online d) = (Inr s, w')"
  obtains r d' ps where "find_market d (market_uuid m) = Some r"
    "mrow_status r = MktOpen \<or> mrow_status r = MktPaused"
    "\<forall>t. mrow_resolves_at r = Some t \<longrightarrow> t \<le> now" "w' = online d'"
    "\<forall>(u, n) \<in> set (holders d (market_uuid m)). i64_ok n"
    "ps = payouts oc (map (\<lambda>(u, n). \<lparr>prow_user_id = u, prow_market_id = market_uuid m,
       prow_net_quantity = i64_of n\<rparr>) (holders d (market_uuid m)))"
    "settle_stmt now (market_uuid m) oc ps d = Inr ((), d')"
    "s = \<lparr>set_market_id = m, set_outcome = oc, set_payouts = ps, set_total_payout = total_payout ps\<rparr>"
  using run
  by (auto simp: settle_market_def io_defs get_market_online positions_online Let_def
      apply_settlement_payouts_def db_run_online market_of_row_def linorder_not_less
      split: option.splits if_splits sum.splits prod.splits)

text \<open>
  C22: A settlement that succeeds on an undisturbed database was of an open or paused market whose
  resolution time had come; afterwards the market is settled with the outcome, each user's available
  balance has grown by exactly its positive net position in the market when the outcome is Yes and by
  nothing when it is No, reserved balances are untouched and no other market changed.
\<close>
theorem settlement_pays_positions:
  assumes "settle_market q now m oc u (online d) = (Inr s, w')" and "db_ok d"
  shows "\<exists>d'. w' = online d' \<and>
    (status_of d m = Some MktOpen \<or> status_of d m = Some MktPaused) \<and>
    status_of d' m = Some MktSettled \<and>
    (\<forall>v. avail d' v = avail d v + (if oc = Yes then max 0 (net_position d v (market_uuid m)) else 0)) \<and>
    (\<forall>v. resv d' v = resv d v) \<and>
    (\<forall>k. k \<noteq> market_uuid m \<longrightarrow> find_market d' k = find_market d k)"
  using assms(1)
proof (rule settle_online_success)
  fix r d' ps
  assume a: "find_market d (market_uuid m) = Some r" "mrow_status r = MktOpen \<or> mrow_status r = MktPaused"
    "w' = online d'" "\<forall>(u, n) \<in> set (holders d (market_uuid m)). i64_ok n"
    "ps = payouts oc (map (\<lambda>(u, n). \<lparr>prow_user_id = u, prow_market_id = market_uuid m,
       prow_net_quantity = i64_of n\<rparr>) (holders d (market_uuid m)))"
    "settle_stmt now (market_uuid m) oc ps d = Inr ((), d')"
  from settle_stmt_effect [OF a(6) assms(2)] a(1-3) paid_to [OF a(4)] a(5) show ?thesis
    by (auto simp: status_of_def)
qed

lemma sample_settlement_succeeds:
  "succeeds (settle_market lenient_sqlx 5 (MarketId 7) Yes (UserId 9)) (online traded_db)"
  by code_simp

lemma settlement_pays_positions_witness:
  "\<exists>s d'. settle_market lenient_sqlx 5 (MarketId 7) Yes (UserId 9) (online traded_db) = (Inr s, online d') \<and>
     avail d' 2 = 600 \<and> avail d' 1 = 1000 \<and> status_of d' (MarketId 7) = Some MktSettled"
proof -
  obtain s w' where run: "settle_market lenient_sqlx 5 (MarketId 7) Yes (UserId 9) (online traded_db) = (Inr s, w')"
    using sample_settlement_succeeds by (rule succeedsE)
  have nets: "net_position traded_db 2 7 = 100" "net_position traded_db 1 7 = - 100"
    "avail traded_db 1 = 1000" "avail traded_db 2 = 500"
    by (simp_all add: net_position_def avail_def find_balance_def sample_defs)
  from settlement_pays_positions [OF run traded_db_ok] nets run show ?thesis
    by auto
qed

text \<open>
  C23: A market is settled at most once: after a settlement that succeeded on an undisturbed database,
  every further settlement of the market is refused with a bad request and changes nothing.
\<close>
theorem settlement_once:
  assumes "settle_market q now m oc u (online d) = (Inr s, w')" and "db_ok d"
  shows "settle_market q' now' m oc' u' w' =
    (Inl (BadRequest [Lit ''market cannot be settled from status '', Lit ''Settled'']), w')"
  using assms(1)
proof (rule settle_online_success)
  fix r d' ps
  assume a: "find_market d (market_uuid m) = Some r" "w' = online d'"
    "settle_stmt now (market_uuid m) oc ps d = Inr ((), d')"
  from settle_stmt_effect [OF a(3) assms(2)] a(1) obtain r' where
    "find_market d' (market_uuid m) = Some r'" "mrow_status r' = MktSettled" by auto
  with a(2) show ?thesis
    by (simp add: settle_market_def io_defs get_market_online market_of_row_def)
qed

lemma settlement_once_witness:
  "\<exists>s w'. settle_market lenient_sqlx 5 (MarketId 7) Yes (UserId 9) (online traded_db) = (Inr s, w') \<and>
     settle_market lenient_sqlx 6 (MarketId 7) Yes (UserId 9) w' =
       (Inl (BadRequest [Lit ''market cannot be settled from status '', Lit ''Settled'']), w')"
proof -
  obtain s w' where run: "settle_market lenient_sqlx 5 (MarketId 7) Yes (UserId 9) (online traded_db) = (Inr s, w')"
    using sample_settlement_succeeds by (rule succeedsE)
  from settlement_once [OF run traded_db_ok] run show ?thesis by blast
qed

text \<open>
  C31: With what \<open>sqlx\<close> documents (a row is decoded only if it has a column for each field, and a NUMERIC
  sum is not an \<open>i64\<close>), settling a market with any open position fails with a database error and changes
  nothing: the position query selects three columns and \<open>PositionRow\<close> has eight fields.
\<close>
theorem settlement_cannot_decode_positions:
  assumes "documented_sqlx q" and "find_market d (market_uuid m) = Some r"
    and "mrow_status r = MktOpen \<or> mrow_status r = MktPaused" and "mrow_resolves_at r = None"
    and "net_position d v (market_uuid m) \<noteq> 0"
  shows "settle_market q now m oc u (online d) = (Inl sql_error, online d)"
proof -
  from assms(5) have "(v, net_position d v (market_uuid m)) \<in> set (holders d (market_uuid m))"
    by (simp add: holders_set)
  then have "holders d (market_uuid m) \<noteq> []" by auto
  moreover have "\<not> sqlx_numeric_as_i64 q" using assms(1) by (simp add: documented_sqlx_def)
  ultimately show ?thesis
    using assms(2-4) by (auto simp: settle_market_def io_defs get_market_online positions_online
        market_of_row_def)
qed

lemma settlement_cannot_decode_positions_witness:
  "settle_market strict_sqlx 5 (MarketId 7) Yes (UserId 9) (online traded_db) = (Inl sql_error, online traded_db)"
  by (rule settlement_cannot_decode_positions [where r = sample_market and v = 2])
    (auto simp: documented_sqlx_def strict_sqlx_def find_market_def
      net_position_def sample_defs)

section \<open>The lifecycle of a market\<close>

datatype market_request =
    CreateMarket uuid string string "datetime option"
  | PauseMarket market_id
  | ReopenMarket market_id
  | CancelMarket market_id
  | SettleMarket market_id outcome

text \<open>One request of an administrator; the answer is dropped, errors included.\<close>

definition serve_market ::
  "(uuid \<Rightarrow> string) \<Rightarrow> sqlx \<Rightarrow> user_id \<Rightarrow> datetime \<times> market_request \<Rightarrow> unit io" where
  "serve_market sh q admin req =
     (case req of (now, r) \<Rightarrow>
        (case r of
           CreateMarket i t de ra \<Rightarrow> io_catch (market_create sh i now t de ra admin) (\<lambda>_. io_return ())
         | PauseMarket m \<Rightarrow> io_catch (market_pause sh m admin) (\<lambda>_. io_return ())
         | ReopenMarket m \<Rightarrow> io_catch (market_reopen sh m admin) (\<lambda>_. io_return ())
         | CancelMarket m \<Rightarrow> io_catch (market_cancel sh m admin) (\<lambda>_. io_return ())
         | SettleMarket m oc \<Rightarrow> io_catch (settle_market q now m oc admin) (\<lambda>_. io_return ())))"

lemma settle_stmt_status:
  assumes "settle_stmt now (market_uuid m) oc ps d = Inr (x, d')" and "db_ok d"
  shows "status_of d' m' = (if m' = m then map_option (\<lambda>_. MktSettled) (status_of d m) else status_of d m')"
  using settle_stmt_effect [OF assms] by (cases "find_market d (market_uuid m)") (auto simp: status_of_def)

lemma settle_market_status:
  assumes run: "settle_market q now m oc u w = (r, w')" and ok: "db_ok (w_db w)"
    and st: "status_of (w_db w) m' = Some t"
  shows "\<exists>t'. status_of (w_db w') m' = Some t' \<and> may_move t t'"
proof -
  obtain r1 w1 where g: "get_market m w = (r1, w1)" by fastforce
  then have w1: "w_db w1 = w_db w" by (rule get_market_keeps)
  show ?thesis
  proof (cases r1)
    case (Inl e)
    with run g w1 st show ?thesis by (auto simp: settle_market_def io_bind_def may_move_def)
  next
    case (Inr mk)
    from g Inr get_market_result have mk: "status_of (w_db w) m = Some (mkt_status mk)" by blast
    obtain r2 w2 where p: "get_user_positions q m w1 = (r2, w2)" by fastforce
    have w2: "w_db w2 = w_db w1"
      using p by (auto simp: get_user_positions_def Let_def elim!: db_run_cases split: sum.splits)
    from run g Inr p consider (stop) "w_db w' = w_db w1 \<or> w_db w' = w_db w2"
      | (settle) ps r3 where "mkt_status mk = MktOpen \<or> mkt_status mk = MktPaused"
          "db_run (settle_stmt now (market_uuid m) oc ps) w2 = (r3, w')"
      by (auto simp: settle_market_def io_bind_def io_fail_def io_return_def Let_def
          apply_settlement_payouts_def split: if_splits sum.splits prod.splits)
    then show ?thesis
    proof cases
      case stop
      with w1 w2 st show ?thesis by (auto simp: may_move_def)
    next
      case settle
      from settle(2) show ?thesis
      proof (cases rule: db_run_cases)
        case failed
        with w1 w2 st show ?thesis by (auto simp: may_move_def)
      next
        case (reached a)
        from reached(1) have "status_of (w_db w') m' = (if m' = m
            then map_option (\<lambda>_. MktSettled) (status_of (w_db w) m) else status_of (w_db w) m')"
          unfolding w2 w1 using ok by (rule settle_stmt_status)
        with st settle(1) mk show ?thesis
          by (cases "m' = m") (auto simp: may_move_def)
      next
        case (unseen a e)
        from unseen(1) have "status_of (w_db w') m' = (if m' = m
            then map_option (\<lambda>_. MktSettled) (status_of (w_db w) m) else status_of (w_db w) m')"
          unfolding w2 w1 using ok by (rule settle_stmt_status)
        with st settle(1) mk show ?thesis
          by (cases "m' = m") (auto simp: may_move_def)
      qed
    qed
  qed
qed

lemma serve_market_moves:
  assumes run: "serve_market sh q admin req w = (r, w')" and ok: "db_ok (w_db w)"
    and st: "status_of (w_db w) m' = Some t"
  shows "\<exists>t'. status_of (w_db w') m' = Some t' \<and> may_move t t'"
proof -
  from ok have mok: "markets_ok (w_db w)" by (simp add: db_ok_def)
  obtain now q' where req: "req = (now, q')" by (cases req)
  show ?thesis
  proof (cases q')
    case (CreateMarket i tt de ra)
    with run req have "\<exists>r1. market_create sh i now tt de ra admin w = (r1, w')"
      by (auto simp: serve_market_def io_catch_def io_return_def split: prod.splits)
    with market_create_status st show ?thesis by (auto simp: may_move_def)
  next
    case (PauseMarket m)
    with run req obtain r1 where "market_pause sh m admin w = (r1, w')"
      by (auto simp: serve_market_def io_catch_def io_return_def split: prod.splits)
    then show ?thesis unfolding market_pause_def
      by (rule guarded_move [OF _ mok _ st]) (simp add: may_move_def)
  next
    case (ReopenMarket m)
    with run req obtain r1 where "market_reopen sh m admin w = (r1, w')"
      by (auto simp: serve_market_def io_catch_def io_return_def split: prod.splits)
    then show ?thesis unfolding market_reopen_def
      by (rule guarded_move [OF _ mok _ st]) (simp add: may_move_def)
  next
    case (CancelMarket m)
    with run req obtain r1 where "market_cancel sh m admin w = (r1, w')"
      by (auto simp: serve_market_def io_catch_def io_return_def split: prod.splits)
    then show ?thesis unfolding market_cancel_def
      by (rule guarded_move [OF _ mok _ st, where bad = "\<lambda>x. x = MktSettled"])
        (auto simp: may_move_def intro: market_status.exhaust)
  next
    case (SettleMarket m oc)
    with run req obtain r1 where "settle_market q now m oc admin w = (r1, w')"
      by (auto simp: serve_market_def io_catch_def io_return_def split: prod.splits)
    then show ?thesis using ok st by (rule settle_market_status)
  qed
qed

lemma serve_market_conform: "runs.io_conforms (serve_market sh q admin req)"
  unfolding serve_market_def
  by (auto intro!: conform markets_service_conform settle_market_conform
      split: prod.splits market_request.splits)

text \<open>
  C29: Whatever requests administrators make and whatever the link to the database does to them, as long as
  the requests run one after the other: no market disappears, a settled market stays settled, a cancelled
  one stays cancelled, and the tables keep their invariant.
\<close>
theorem market_lifecycle:
  assumes "io_iterate (serve_market sh q admin) reqs w = (r, w')" and "db_ok (w_db w)"
    and "status_of (w_db w) m = Some t"
  shows "db_ok (w_db w') \<and> (\<exists>t'. status_of (w_db w') m = Some t' \<and>
    (t = MktSettled \<longrightarrow> t' = MktSettled) \<and> (t = MktCancelled \<longrightarrow> t' = MktCancelled))"
  using assms
proof (induction reqs arbitrary: w t)
  case Nil
  then show ?case by (auto simp: io_return_def)
next
  case (Cons req reqs)
  obtain r1 w1 where s: "serve_market sh q admin req w = (r1, w1)" by fastforce
  have ok1: "db_ok (w_db w1)" by (rule io_keeps_ok [OF serve_market_conform s Cons.prems(2)])
  from serve_market_moves [OF s Cons.prems(2,3)] obtain t1 where t1: "status_of (w_db w1) m = Some t1"
    "may_move t t1" by blast
  have "\<exists>x. r1 = Inr x"
    using s by (auto simp: serve_market_def io_catch_def io_return_def
        split: prod.splits market_request.splits)
  with Cons.prems(1) s have "io_iterate (serve_market sh q admin) reqs w1 = (r, w')"
    by (auto simp: io_bind_def)
  from Cons.IH [OF this ok1 t1(1)] t1(2) show ?case by (auto simp: may_move_def)
qed

lemma market_lifecycle_witness:
  "db_ok (w_db (snd (io_iterate (serve_market (\<lambda>_. '''') lenient_sqlx (UserId 9))
       [(1, PauseMarket (MarketId 7)), (2, SettleMarket (MarketId 7) Yes), (3, CancelMarket (MarketId 7))]
       (online traded_db))))"
proof -
  let ?run = "io_iterate (serve_market (\<lambda>_. '''') lenient_sqlx (UserId 9))
       [(1, PauseMarket (MarketId 7)), (2, SettleMarket (MarketId 7) Yes), (3, CancelMarket (MarketId 7))]
       (online traded_db)"
  obtain r w' where run: "?run = (r, w')" by fastforce
  have "status_of (w_db (online traded_db)) (MarketId 7) = Some MktOpen"
    by (simp add: status_of_def find_market_def sample_defs)
  from market_lifecycle [OF run _ this] traded_db_ok run show ?thesis by simp
qed

text \<open>
  C30: The status check of \<open>pause\<close> and its update are separate statements. When a settlement commits between
  them, the update overwrites \<open>Settled\<close> by \<open>Paused\<close>, with every balance and position as the settlement
  left it, so the market can be settled, and its positions paid, once more.
\<close>
theorem stale_pause_undoes_settlement:
  assumes "settle_market q now m oc u (online d) = (Inr s, online d')" and "db_ok d"
    and "user_exists d' (user_uuid by)" and "text_ok (sh (market_uuid m))"
  shows "\<exists>d''. move_market sh MktPaused ''pause'' m by (online d') = (Inr (), online d'') \<and>
    status_of d'' m = Some MktPaused \<and> avail d'' = avail d' \<and>
    (\<forall>v. net_position d'' v (market_uuid m) = net_position d' v (market_uuid m))"
  using assms(1)
proof (rule settle_online_success)
  fix r d1 ps
  assume a: "find_market d (market_uuid m) = Some r" "online d' = online d1"
    "settle_stmt now (market_uuid m) oc ps d = Inr ((), d1)"
  then have d1: "d1 = d'" by (simp add: online_def)
  from a(3) have ok': "db_ok d'" using settle_db_ok assms(2) d1 by blast
  from settle_stmt_effect [OF a(3) assms(2)] a(1) d1 obtain r' where
    r': "find_market d' (market_uuid m) = Some r'" by auto
  have dist: "distinct (map mrow_id (db_markets d'))" using ok' by (simp add: db_ok_def markets_ok_def)
  from sql_update_keyed_succeeds [OF dist r' [unfolded find_market_def], of "row_status MktPaused" "\<lambda>_. True"]
  obtain t where "sql_update (\<lambda>r. mrow_id r = market_uuid m \<and> True) (row_status MktPaused) (db_markets d') = Some t"
    by (auto simp: row_status_def)
  then obtain n where upd: "update_markets (market_uuid m) (\<lambda>_. True) (row_status MktPaused) d' = Inr (n, d'\<lparr>db_markets := t\<rparr>)"
    by (simp add: update_markets_def stmt_write_def)
  let ?d2 = "d'\<lparr>db_markets := t\<rparr>"
  have st: "status_of ?d2 m = Some MktPaused" "n \<noteq> 0"
    using status_update [OF upd] ok' r' by (auto simp: db_ok_def status_of_def)
  obtain d'' where d'': "audit (Some by) ''pause'' ''market'' (uuid_entity sh m) None (online ?d2) = (Inr (), online d'')"
    "\<exists>al. d'' = ?d2\<lparr>db_audit := al\<rparr>"
    using assms(3,4) by (auto simp: audit_def db_run_online audit_stmt_def stmt_write_def uuid_entity_def
        text_ok_def user_exists_def)
  have "move_market sh MktPaused ''pause'' m by (online d') = (Inr (), online d'')"
    using d''(1) st(2) by (simp add: move_market_def set_market_status_def io_defs db_run_online upd)
  moreover have "status_of d'' m = Some MktPaused"
    using st(1) d''(2) by (auto simp: status_of_def find_market_def)
  moreover have "avail d'' = avail d'" using d''(2) balances_only [of d'' d'] by auto
  moreover have "net_position d'' v (market_uuid m) = net_position d' v (market_uuid m)" for v
    using d''(2) by (auto simp: net_position_def)
  ultimately show ?thesis by blast
qed

lemma stale_pause_undoes_settlement_witness:
  "\<exists>d' d''. move_market (\<lambda>_. '''') MktPaused ''pause'' (MarketId 7) (UserId 9) (online d') = (Inr (), online d'') \<and>
     status_of d'' (MarketId 7) = Some MktPaused"
proof -
  obtain s w' where run: "settle_market lenient_sqlx 5 (MarketId 7) Yes (UserId 9) (online traded_db) = (Inr s, w')"
    using sample_settlement_succeeds by (rule succeedsE)
  then obtain d' where d': "w' = online d'" by (rule settle_online_success) simp
  have "user_exists (w_db (snd (settle_market lenient_sqlx 5 (MarketId 7) Yes (UserId 9) (online traded_db)))) 9"
    by code_simp
  with run d' have "user_exists d' (user_uuid (UserId 9))" by simp
  from stale_pause_undoes_settlement [OF run [unfolded d'] traded_db_ok this, of "\<lambda>_. ''''"]
  show ?thesis by (auto simp: text_ok_def)
qed

end
