(* ===== verification/Handlers.thy ===== *)
theory Handlers
  imports Http_Auth Order_Service Settlement
begin

text \<open>
  The handlers of \<open>api-http/src/handlers\<close>: deposits, withdrawals, markets, accounts and orders, each from its
  decoded inputs (the authenticated context, headers, path and body) to the status and value it answers,
  on the database behind its link. JSON texts, password hashing and UUID texts are the record
  \<open>handler_env\<close>; fresh identifiers and the clock are arguments. The theorems are about deposits
  (exactly once for each idempotency key, replay of the response) and withdrawals.
\<close>

record deposit_request =
  dr_user_id :: uuid
  dr_amount :: f64
  dr_reference :: string

record deposit_response =
  ds_user_id :: uuid
  ds_amount :: i64
  ds_reference :: string

record handler_env =
  he_jwt :: jwt_deps
  he_deposit_to_json :: "deposit_response \<Rightarrow> string option"
  he_deposit_from_json :: "string \<Rightarrow> string + deposit_response"
  he_order_to_json :: "order \<Rightarrow> string option"
  he_order_from_json :: "string \<Rightarrow> string + order"
  he_deposit_meta :: "i64 \<Rightarrow> string \<Rightarrow> string"
  he_amount_meta :: "int \<Rightarrow> string"

definition io_lift :: "'a app_result \<Rightarrow> 'a io" where
  "io_lift r = (case r of Inl e \<Rightarrow> io_fail e | Inr a \<Rightarrow> io_return a)"

text \<open>\<open>Uuid::parse_str(&auth_context.user_id)\<close>, then the rest of the handler.\<close>

definition as_user :: "handler_env \<Rightarrow> auth_context \<Rightarrow> (user_id \<Rightarrow> 'a io) \<Rightarrow> 'a io" where
  "as_user env c f = io_bind (io_lift (context_user (he_jwt env) c)) f"

definition uuid_text :: "handler_env \<Rightarrow> uuid \<Rightarrow> string option" where
  "uuid_text env u = Some (uuid_show (he_jwt env) u)"

definition json_or_null :: "string option \<Rightarrow> string" where
  "json_or_null t = (case t of None \<Rightarrow> ''null'' | Some x \<Rightarrow> x)"

text \<open>The idempotency key: the header if it is there, otherwise the text of a fresh UUID.\<close>

definition idem_key_of :: "string option \<Rightarrow> string \<Rightarrow> string" where
  "idem_key_of header fresh = (case header of None \<Rightarrow> fresh | Some k \<Rightarrow> k)"

text \<open>
  Claim the key: a completed key answers with the stored response, a key in flight is a conflict, and a
  fresh one runs the operation.
\<close>

definition after_claim ::
  "(string \<Rightarrow> string + 'a) \<Rightarrow> string \<Rightarrow> user_id \<Rightarrow> string \<Rightarrow> (http_status \<times> 'a) io \<Rightarrow> idempotency_status \<Rightarrow>
     (http_status \<times> 'a) io" where
  "after_claim from_json in_flight u key operation st =
     (case st of
        Complete \<Rightarrow>
          io_bind (get_idempotency_response u key) (\<lambda>cached.
            case cached of
              Some t \<Rightarrow>
                (case from_json t of
                   Inl e \<Rightarrow> io_fail (Internal [Foreign e])
                 | Inr a \<Rightarrow> io_return (OK, a))
            | None \<Rightarrow> operation)
      | Processing \<Rightarrow> io_fail (Conflict [Lit in_flight])
      | Fresh \<Rightarrow> operation)"

definition claimed ::
  "datetime \<Rightarrow> (string \<Rightarrow> string + 'a) \<Rightarrow> string \<Rightarrow> user_id \<Rightarrow> string \<Rightarrow> (http_status \<times> 'a) io \<Rightarrow>
     (http_status \<times> 'a) io" where
  "claimed now from_json in_flight u key operation =
     io_bind (claim_idempotency_key now u key) (after_claim from_json in_flight u key operation)"

section \<open>Deposits\<close>

definition deposit_operation ::
  "handler_env \<Rightarrow> user_id \<Rightarrow> string \<Rightarrow> deposit_request \<Rightarrow> (http_status \<times> deposit_response) io" where
  "deposit_operation env admin_id key req =
     (let units = amount_units (dr_amount req);
          resp = \<lparr>ds_user_id = dr_user_id req, ds_amount = units, ds_reference = dr_reference req\<rparr>
      in io_bind (record_deposit (UserId (dr_user_id req)) units (dr_reference req)) (\<lambda>_.
         io_bind (audit (Some admin_id) ''deposit'' ''user'' (uuid_text env (dr_user_id req))
                    (Some (he_deposit_meta env units (dr_reference req)))) (\<lambda>_.
         io_bind (complete_idempotency_key admin_id key (json_or_null (he_deposit_to_json env resp))) (\<lambda>_.
         io_return (CREATED, resp)))))"

definition deposit ::
  "handler_env \<Rightarrow> datetime \<Rightarrow> string \<Rightarrow> auth_context \<Rightarrow> string option \<Rightarrow> deposit_request \<Rightarrow>
     (http_status \<times> deposit_response) io" where
  "deposit env now fresh_key c header req =
     (if \<not> ctx_is_admin c then io_fail Forbidden
      else if f64_le_zero (dr_amount req) then io_fail (Validation [Lit ''amount must be positive''])
      else if trim (dr_reference req) = [] then io_fail (Validation [Lit ''reference is required''])
      else as_user env c (\<lambda>admin_id.
        if sint (amount_units (dr_amount req)) \<le> 0 then io_fail (Validation [Lit ''amount too small''])
        else (let key = idem_key_of header fresh_key in
          claimed now (he_deposit_from_json env) ''request already in progress'' admin_id key
            (deposit_operation env admin_id key req))))"

section \<open>Withdrawals\<close>

fun parse_status :: "string \<Rightarrow> withdrawal_status option" where
  "parse_status s =
     (if s = ''pending'' then Some WdPending
      else if s = ''approved'' then Some WdApproved
      else if s = ''rejected'' then Some WdRejected
      else None)"

definition request_withdrawal ::
  "handler_env \<Rightarrow> uuid \<Rightarrow> datetime \<Rightarrow> auth_context \<Rightarrow> f64 \<Rightarrow> (http_status \<times> withdrawal_row) io" where
  "request_withdrawal env new_id now c amount =
     (if f64_le_zero amount then io_fail (Validation [Lit ''amount must be positive''])
      else as_user env c (\<lambda>u.
        let units = amount_units amount in
        if sint units \<le> 0 then io_fail (Validation [Lit ''amount too small''])
        else
          io_bind (create_withdrawal new_id now u units) (\<lambda>row.
          io_bind (audit (Some u) ''request_withdrawal'' ''withdrawal'' (uuid_text env (wd_id row))
                     (Some (he_amount_meta env (sint units)))) (\<lambda>_.
          io_return (CREATED, row)))))"

definition approve :: "handler_env \<Rightarrow> datetime \<Rightarrow> auth_context \<Rightarrow> uuid \<Rightarrow> withdrawal_row io" where
  "approve env now c i =
     (if \<not> ctx_is_admin c then io_fail Forbidden
      else as_user env c (\<lambda>admin_id.
        io_bind (approve_withdrawal now i admin_id) (\<lambda>row.
        io_bind (audit (Some admin_id) ''approve_withdrawal'' ''withdrawal'' (uuid_text env i)
                   (Some (he_amount_meta env (wd_amount row)))) (\<lambda>_.
        io_return row))))"

definition reject :: "handler_env \<Rightarrow> datetime \<Rightarrow> auth_context \<Rightarrow> uuid \<Rightarrow> withdrawal_row io" where
  "reject env now c i =
     (if \<not> ctx_is_admin c then io_fail Forbidden
      else as_user env c (\<lambda>admin_id.
        io_bind (reject_withdrawal now i admin_id) (\<lambda>row.
        io_bind (audit (Some admin_id) ''reject_withdrawal'' ''withdrawal'' (uuid_text env i) None) (\<lambda>_.
        io_return row))))"

text \<open>\<open>query.limit.unwrap_or(n).min(m)\<close>.\<close>

definition query_limit :: "i64 \<Rightarrow> i64 \<Rightarrow> i64 option \<Rightarrow> i64" where
  "query_limit n m q = (let x = (case q of None \<Rightarrow> n | Some y \<Rightarrow> y) in if sint x \<le> sint m then x else m)"

definition list_mine ::
  "handler_env \<Rightarrow> auth_context \<Rightarrow> string option \<Rightarrow> i64 option \<Rightarrow> withdrawal_row list io" where
  "list_mine env c status n =
     as_user env c (\<lambda>u. list_withdrawals (Some u) (Option.bind status parse_status) (query_limit 50 200 n))"

definition list_all ::
  "auth_context \<Rightarrow> string option \<Rightarrow> i64 option \<Rightarrow> withdrawal_row list io" where
  "list_all c status n =
     (if \<not> ctx_is_admin c then io_fail Forbidden
      else list_withdrawals None (Option.bind status parse_status) (query_limit 100 500 n))"

section \<open>Markets\<close>

fun parse_market_status :: "string \<Rightarrow> market_status option" where
  "parse_market_status s =
     (if s = ''open'' then Some MktOpen
      else if s = ''paused'' then Some MktPaused
      else if s = ''settled'' then Some MktSettled
      else if s = ''cancelled'' then Some MktCancelled
      else None)"

definition handle_list_markets :: "string option \<Rightarrow> market list io" where
  "handle_list_markets status = list_markets (Option.bind status parse_market_status)"

definition handle_get_market :: "uuid \<Rightarrow> market io" where
  "handle_get_market i = get_market (MarketId i)"

definition handle_create_market ::
  "handler_env \<Rightarrow> uuid \<Rightarrow> datetime \<Rightarrow> auth_context \<Rightarrow> string \<Rightarrow> string \<Rightarrow> datetime option \<Rightarrow>
     (http_status \<times> market) io" where
  "handle_create_market env new_id now c title description resolves_at =
     (if \<not> ctx_is_admin c then io_fail Forbidden
      else as_user env c (\<lambda>u.
        io_bind (market_create (uuid_show (he_jwt env)) new_id now title description resolves_at u) (\<lambda>m.
        io_return (CREATED, m))))"

definition handle_pause_market :: "handler_env \<Rightarrow> auth_context \<Rightarrow> uuid \<Rightarrow> http_status io" where
  "handle_pause_market env c i =
     (if \<not> ctx_is_admin c then io_fail Forbidden
      else as_user env c (\<lambda>u.
        io_bind (market_pause (uuid_show (he_jwt env)) (MarketId i) u) (\<lambda>_. io_return NO_CONTENT)))"

definition handle_reopen_market :: "handler_env \<Rightarrow> auth_context \<Rightarrow> uuid \<Rightarrow> http_status io" where
  "handle_reopen_market env c i =
     (if \<not> ctx_is_admin c then io_fail Forbidden
      else as_user env c (\<lambda>u.
        io_bind (market_reopen (uuid_show (he_jwt env)) (MarketId i) u) (\<lambda>_. io_return NO_CONTENT)))"

record settle_reply =
  sr_market_id :: string
  sr_outcome :: string
  sr_payout_count :: nat
  sr_total_payout :: i64

fun outcome_debug :: "outcome \<Rightarrow> string" where
  "outcome_debug Yes = ''Yes''"
| "outcome_debug No = ''No''"

definition parse_outcome :: "string \<Rightarrow> outcome option" where
  "parse_outcome s =
     (if to_lowercase s = ''yes'' then Some Yes else if to_lowercase s = ''no'' then Some No else None)"

definition handle_settle_market ::
  "sqlx \<Rightarrow> handler_env \<Rightarrow> datetime \<Rightarrow> auth_context \<Rightarrow> uuid \<Rightarrow> string \<Rightarrow> settle_reply io" where
  "handle_settle_market q env now c i out =
     (if \<not> ctx_is_admin c then io_fail Forbidden
      else (case parse_outcome out of
          None \<Rightarrow> io_fail (Validation [Lit (''outcome must be 'yes' or 'no'' @ [CHR 0x27])])
        | Some oc \<Rightarrow> as_user env c (\<lambda>u.
            io_bind (settle_market q now (MarketId i) oc u) (\<lambda>s.
            io_return \<lparr>sr_market_id = uuid_show (he_jwt env) (market_uuid (set_market_id s)),
                       sr_outcome = outcome_debug (set_outcome s),
                       sr_payout_count = length (set_payouts s),
                       sr_total_payout = set_total_payout s\<rparr>))))"

section \<open>Accounts\<close>

record password_env =
  pw_hash_with :: "string \<Rightarrow> string \<Rightarrow> string + string"
  pw_check :: "string \<Rightarrow> string \<Rightarrow> bool option"

text \<open>
  \<open>PasswordService\<close> of theory \<open>Auth_Jwt\<close> with a checker of encoded hashes: \<open>None\<close> when the hash does not parse.
\<close>

definition verify_password :: "password_env \<Rightarrow> string \<Rightarrow> string \<Rightarrow> unit app_result" where
  "verify_password pw password hash =
     password_verify (\<lambda>h. map_option (\<lambda>_. h) (pw_check pw password h)) (\<lambda>p h. pw_check pw p h = Some True)
       password hash"

record token_response =
  tr_token :: string
  tr_user_id :: string
  tr_is_admin :: bool

definition token_reply :: "handler_env \<Rightarrow> user_id \<Rightarrow> bool \<Rightarrow> string \<Rightarrow> token_response" where
  "token_reply env u admin token =
     \<lparr>tr_token = token, tr_user_id = uuid_show (he_jwt env) (user_uuid u), tr_is_admin = admin\<rparr>"

text \<open>The panic of \<open>issue\<close> on an expiry out of range is \<open>None\<close>.\<close>

definition issue_io ::
  "handler_env \<Rightarrow> jwt_service \<Rightarrow> datetime \<Rightarrow> user_id \<Rightarrow> bool \<Rightarrow> token_response option io" where
  "issue_io env jwt now u admin =
     (case jwt_issue (he_jwt env) jwt now u admin of
        None \<Rightarrow> io_return None
      | Some r \<Rightarrow> io_bind (io_lift r) (\<lambda>token. io_return (Some (token_reply env u admin token))))"

definition register_user ::
  "handler_env \<Rightarrow> password_env \<Rightarrow> jwt_service \<Rightarrow> string \<Rightarrow> uuid \<Rightarrow> datetime \<Rightarrow> string \<Rightarrow> string \<Rightarrow>
     (http_status \<times> token_response option) io" where
  "register_user env pw jwt salt new_id now email password =
     (if email = [] \<or> CHR 0x40 \<notin> set email then io_fail (Validation [Lit ''invalid email''])
      else if length password < 8
      then io_fail (Validation [Lit ''password must be at least 8 characters''])
      else
        io_bind (io_lift (password_hash (pw_hash_with pw) salt password)) (\<lambda>hash.
        io_bind (insert_user new_id email hash) (\<lambda>u.
        io_bind (credit_balance u 0) (\<lambda>_.
        io_bind (issue_io env jwt now u False) (\<lambda>t. io_return (CREATED, t))))))"

definition login ::
  "handler_env \<Rightarrow> password_env \<Rightarrow> jwt_service \<Rightarrow> datetime \<Rightarrow> string \<Rightarrow> string \<Rightarrow> token_response option io" where
  "login env pw jwt now email password =
     io_catch (get_user_by_email email) (\<lambda>r.
       case r of
         Inl e \<Rightarrow> io_fail Unauthorized
       | Inr user \<Rightarrow>
           io_bind (io_lift (verify_password pw password (usr_password_hash user))) (\<lambda>_.
           issue_io env jwt now (UserId (usr_id user)) (usr_is_admin user)))"

definition handle_balance :: "handler_env \<Rightarrow> auth_context \<Rightarrow> (i64 \<times> i64) io" where
  "handle_balance env c =
     as_user env c (\<lambda>u. io_bind (get_balance u) (\<lambda>b. io_return (available b, reserved b)))"

section \<open>Orders\<close>

record 'd place_order_request =
  por_market_id :: uuid
  por_side :: string
  por_kind :: string
  por_price :: "'d option"
  por_quantity :: 'd

definition parse_side :: "string \<Rightarrow> side app_result" where
  "parse_side s =
     (if to_lowercase s = ''buy'' then Inr Buy
      else if to_lowercase s = ''sell'' then Inr Sell
      else Inl (Validation [Lit ''side must be buy or sell'']))"

definition parse_kind :: "string \<Rightarrow> order_kind app_result" where
  "parse_kind s =
     (if to_lowercase s = ''limit'' then Inr LimitOrder
      else if to_lowercase s = ''market'' then Inr MarketOrder
      else Inl (Validation [Lit ''kind must be limit or market'']))"

definition parse_price :: "'d decimal \<Rightarrow> 'd option \<Rightarrow> price option app_result option" where
  "parse_price D p =
     (case p of
        None \<Rightarrow> Some (Inr None)
      | Some x \<Rightarrow> do {
          r \<leftarrow> price_from_decimal D x;
          Some (case r of
                  None \<Rightarrow> Inl (Validation [Lit ''price must be in (0, 1)''])
                | Some q \<Rightarrow> Inr (Some q)) })"

text \<open>The validation of an order; the quantity is converted when the request is built, after the checks.\<close>

definition parse_order :: "'d decimal \<Rightarrow> 'd place_order_request \<Rightarrow> order_request app_result option" where
  "parse_order D req =
     (case parse_side (por_side req) of
        Inl e \<Rightarrow> Some (Inl e)
      | Inr side \<Rightarrow>
          (case parse_kind (por_kind req) of
             Inl e \<Rightarrow> Some (Inl e)
           | Inr kind \<Rightarrow> do {
               p \<leftarrow> parse_price D (por_price req);
               case p of
                 Inl e \<Rightarrow> Some (Inl e)
               | Inr price \<Rightarrow>
                   if d_le D (por_quantity req) (d_of D 0)
                   then Some (Inl (Validation [Lit ''quantity must be positive'']))
                   else do {
                     q \<leftarrow> quantity_from_decimal D (por_quantity req);
                     Some (Inr \<lparr>req_market_id = MarketId (por_market_id req), req_side = side, req_kind = kind,
                                req_price = price, req_quantity = q\<rparr>) } }))"

type_synonym 'd app = "world \<times> 'd order_service"

text \<open>After the key is claimed: validate, submit, complete the key. \<open>None\<close> is a panic.\<close>

definition order_operation ::
  "'d order_env \<Rightarrow> handler_env \<Rightarrow> order_call \<Rightarrow> user_id \<Rightarrow> string \<Rightarrow> 'd place_order_request \<Rightarrow> 'd app \<Rightarrow>
     ((http_status \<times> order) app_result \<times> 'd app) option" where
  "order_operation oenv env call u key req s = do {
     r \<leftarrow> parse_order (oe_decimal oenv) req;
     case r of
       Inl e \<Rightarrow> Some (Inl e, s)
     | Inr o' \<Rightarrow> do {
         (res, svc) \<leftarrow> submit oenv call o' (snd s);
         Some (case res of
                 Inl e \<Rightarrow> (Inl e, fst s, svc)
               | Inr placed \<Rightarrow>
                   (case complete_idempotency_key u key (json_or_null (he_order_to_json env placed)) (fst s) of
                      (Inl e, w) \<Rightarrow> (Inl e, w, svc)
                    | (Inr _, w) \<Rightarrow> (Inr (CREATED, placed), w, svc))) } }"

definition place_order ::
  "'d order_env \<Rightarrow> handler_env \<Rightarrow> datetime \<Rightarrow> string \<Rightarrow> order_call \<Rightarrow> auth_context \<Rightarrow> string option \<Rightarrow>
     'd place_order_request \<Rightarrow> 'd app \<Rightarrow> ((http_status \<times> order) app_result \<times> 'd app) option" where
  "place_order oenv env now fresh_key call c header req s =
     (case context_user (he_jwt env) c of
        Inl e \<Rightarrow> Some (Inl e, s)
      | Inr u \<Rightarrow>
          (let key = idem_key_of header fresh_key in
           case claim_idempotency_key now u key (fst s) of
             (Inl e, w) \<Rightarrow> Some (Inl e, w, snd s)
           | (Inr Processing, w) \<Rightarrow> Some (Inl (Conflict [Lit ''duplicate request in flight'']), w, snd s)
           | (Inr Fresh, w) \<Rightarrow> order_operation oenv env call u key req (w, snd s)
           | (Inr Complete, w) \<Rightarrow>
               (case get_idempotency_response u key w of
                  (Inl e, w') \<Rightarrow> Some (Inl e, w', snd s)
                | (Inr None, w') \<Rightarrow> order_operation oenv env call u key req (w', snd s)
                | (Inr (Some t), w') \<Rightarrow>
                    Some (case he_order_from_json env t of
                            Inl e \<Rightarrow> (Inl (Internal [Foreign e]), w', snd s)
                          | Inr o' \<Rightarrow> (Inr (OK, o'), w', snd s)))))"

definition handle_cancel_order :: "handler_env \<Rightarrow> auth_context \<Rightarrow> uuid \<Rightarrow> order app_result" where
  "handle_cancel_order env c i =
     (case context_user (he_jwt env) c of Inl e \<Rightarrow> Inl e | Inr u \<Rightarrow> service_cancel u (OrderId i))"

definition handle_get_order :: "handler_env \<Rightarrow> auth_context \<Rightarrow> uuid \<Rightarrow> order app_result" where
  "handle_get_order env c i =
     (case context_user (he_jwt env) c of
        Inl e \<Rightarrow> Inl e
      | Inr u \<Rightarrow>
          (case service_get (OrderId i) of
             Inl e \<Rightarrow> Inl e
           | Inr o' \<Rightarrow> if ord_user_id o' \<noteq> u then Inl Forbidden else Inr o'))"

definition handle_list_orders ::
  "handler_env \<Rightarrow> auth_context \<Rightarrow> uuid option \<Rightarrow> i64 option \<Rightarrow> order list app_result" where
  "handle_list_orders env c m n =
     (case context_user (he_jwt env) c of
        Inl e \<Rightarrow> Inl e
      | Inr u \<Rightarrow> list_for_user u (map_option MarketId m) (Some (word_of_int (sint (query_limit 50 200 n)))))"

section \<open>Health\<close>

record health_response =
  hs_status :: string
  hs_database :: string
  hs_nats :: string
  hs_analytics :: string

text \<open>\<open>SELECT 1\<close>.\<close>

definition ping :: "unit io" where
  "ping = db_run (stmt_return ())"

definition health_word :: "bool \<Rightarrow> string" where
  "health_word ok = (if ok then ''healthy'' else ''unhealthy'')"

definition check_database :: "string io" where
  "check_database =
     io_catch ping (\<lambda>r. io_return (health_word (case r of Inl e \<Rightarrow> False | Inr _ \<Rightarrow> True)))"

definition health_check :: "bool \<Rightarrow> health_response io" where
  "health_check nats_connected =
     io_bind check_database (\<lambda>d.
       let n = health_word nats_connected in
       io_return \<lparr>hs_status = (if d = ''healthy'' \<and> n = ''healthy'' then ''healthy'' else ''degraded''),
                  hs_database = d, hs_nats = n, hs_analytics = ''healthy''\<rparr>)"

definition readiness_check :: "bool \<Rightarrow> (bool \<times> string list) io" where
  "readiness_check nats_connected =
     io_bind check_database (\<lambda>d.
       io_return
         (d = ''healthy'' \<and> nats_connected,
          [if d = ''healthy'' then ''database: connected'' else ''database: disconnected'',
           if nats_connected then ''nats: connected'' else ''nats: disconnected'',
           ''analytics: ready'']))"

section \<open>Idempotency keys in the handlers\<close>

lemma claim_known_keeps:
  assumes "claim_idempotency_key now u key w = (r, w')" and "key_known (w_db w) (user_uuid u, key)"
  shows "w_db w' = w_db w \<and> r \<noteq> Inr Fresh"
proof -
  have same: "claim_key_stmt now (user_uuid u, key) d = Inr (n, d') \<Longrightarrow> key_known d (user_uuid u, key) \<Longrightarrow>
      n = 0 \<and> d' = d" for n d d'
    by (auto dest: claim_key_cases)
  have read: "db_run (\<lambda>d. case find_idem d k of None \<Rightarrow> Inl e | Some x \<Rightarrow> Inr (f x, d)) w1 = (r1, w2) \<Longrightarrow>
      w_db w2 = w_db w1" for k e f w1 r1 w2
    by (erule db_run_cases) (auto split: option.splits)
  show ?thesis
    using assms same
    by (auto simp: claim_idempotency_key_def io_bind_def io_return_def split: prod.splits sum.splits if_splits
        dest!: read elim!: db_run_cases)
qed

lemma find_and: "find P xs = Some x \<Longrightarrow> Q x \<Longrightarrow> find (\<lambda>y. P y \<and> Q y) xs = Some x"
  by (induction xs) (auto split: if_splits)

lemma claim_complete:
  assumes "claim_idempotency_key now u key w = (Inr Complete, w')"
  shows "w_db w' = w_db w \<and> (\<exists>r. find_idem (w_db w) (user_uuid u, key) = Some r \<and> idem_status r = 2)"
proof -
  from assms obtain w1 w2 st where one: "db_run (claim_key_stmt now (user_uuid u, key)) w = (Inr 0, w1)"
    and two: "db_run (\<lambda>d. case find_idem d (user_uuid u, key) of None \<Rightarrow> Inl sql_error
        | Some r \<Rightarrow> Inr (idem_status r, d)) w1 = (Inr st, w2)" and st: "st = 2" "w' = w2"
    by (auto simp: claim_idempotency_key_def io_bind_def io_return_def split: prod.splits sum.splits if_splits)
  from one have "w_db w1 = w_db w" by (cases rule: db_run_cases) (auto dest: claim_key_cases)
  moreover from two st have "w_db w' = w_db w1"
    "\<exists>r. find_idem (w_db w1) (user_uuid u, key) = Some r \<and> idem_status r = 2"
    by (cases rule: db_run_cases; auto split: option.splits)+
  ultimately show ?thesis by simp
qed

lemma cached_response:
  assumes "get_idempotency_response u key w = (Inr x, w')"
    and "find_idem (w_db w) (user_uuid u, key) = Some r" and "idem_status r = 2"
  shows "x = idem_response r \<and> w_db w' = w_db w"
  using assms find_and [of "\<lambda>r. idem_of r = (user_uuid u, key)" "db_idem (w_db w)" r "\<lambda>r. idem_status r = 2"]
  by (auto simp: get_idempotency_response_def find_idem_def stmt_query_def elim!: db_run_cases)

lemma idem_ok_response:
  "idem_ok d \<Longrightarrow> find_idem d k = Some r \<Longrightarrow> idem_status r = 2 \<Longrightarrow> idem_response r \<noteq> None"
  by (auto simp: idem_ok_def find_idem_def find_Some_iff)

text \<open>A key that is known protects its operation from running again.\<close>

lemma claimed_known:
  assumes run: "claimed now fj msg u key op w = (r, w')" and known: "key_known (w_db w) (user_uuid u, key)"
    and ok: "idem_ok (w_db w)"
  shows "w_db w' = w_db w"
proof -
  obtain st w1 where cl: "claim_idempotency_key now u key w = (st, w1)" by fastforce
  from claim_known_keeps [OF cl known] have same: "w_db w1 = w_db w" and nf: "st \<noteq> Inr Fresh" by auto
  show ?thesis
  proof (cases "st = Inr Complete")
    case True
    with claim_complete [of now u key w w1] cl obtain r0 where
      r0: "find_idem (w_db w) (user_uuid u, key) = Some r0" "idem_status r0 = 2" by auto
    obtain x w2 where g: "get_idempotency_response u key w1 = (x, w2)" by fastforce
    have keep: "w_db w2 = w_db w1"
      using g by (auto simp: get_idempotency_response_def stmt_query_def elim!: db_run_cases)
    have "x \<noteq> Inr None"
    proof
      assume "x = Inr None"
      with cached_response [of u key w1 None w2 r0] g r0 same idem_ok_response [OF ok r0] show False by simp
    qed
    with True run cl g keep same show ?thesis
      by (auto simp: claimed_def after_claim_def io_defs split: sum.splits option.splits)
  next
    case False
    with nf run cl same show ?thesis
      by (auto simp: claimed_def after_claim_def io_defs split: sum.splits idempotency_status.splits)
  qed
qed

lemma claim_makes_known:
  assumes "claim_idempotency_key now u key w = (r, w')"
  shows "key_known (w_db w') (user_uuid u, key) \<or> (w_db w' = w_db w \<and> (\<exists>e. r = Inl e))"
proof -
  obtain n w1 where one: "db_run (claim_key_stmt now (user_uuid u, key)) w = (n, w1)" by fastforce
  have read: "db_run (\<lambda>d. case find_idem d k of None \<Rightarrow> Inl e | Some x \<Rightarrow> Inr (f x, d)) w1 = (r1, w2) \<Longrightarrow>
      w_db w2 = w_db w1" for k e f r1 w2
    by (erule db_run_cases) (auto split: option.splits)
  have "w_db w' = w_db w1 \<and> ((\<exists>e. n = Inl e) \<longrightarrow> (\<exists>e. r = Inl e))"
    using assms one by (auto simp: claim_idempotency_key_def io_bind_def io_return_def
        split: prod.splits sum.splits if_splits dest!: read)
  moreover from one have "key_known (w_db w1) (user_uuid u, key) \<or> (w_db w1 = w_db w \<and> (\<exists>e. n = Inl e))"
    by (cases rule: db_run_cases) (auto dest!: claim_key_cases)
  ultimately show ?thesis by auto
qed

text \<open>What the statements of an operation keep: keys that are known stay known.\<close>

definition keeps_keys :: "db \<Rightarrow> db \<Rightarrow> bool" where
  "keeps_keys d d' \<longleftrightarrow> (\<forall>k. key_known d k \<longrightarrow> key_known d' k)"

interpretation keys: store_relation keeps_keys
  by unfold_locales (auto simp: keeps_keys_def)

lemma same_keys: "db_idem d' = db_idem d \<Longrightarrow> keeps_keys d d'"
  by (simp add: keeps_keys_def key_known_def find_idem_def)

lemma deposit_frame:
  assumes "deposit_stmt u amt ref d = Inr (x, d')"
  shows "\<exists>t b. d' = d\<lparr>db_deposits := t, db_balances := b\<rparr>"
proof -
  from assms obtain t where "credit_stmt u amt (d\<lparr>db_deposits := t\<rparr>) = Inr (x, d')"
    by (auto simp: deposit_stmt_def stmt_bind_def stmt_write_def split: if_splits)
  from credit_frame [OF this] show ?thesis by auto
qed

lemma complete_key_keeps: "complete_key_stmt k resp d = Inr (a, d') \<Longrightarrow> keeps_keys d d'"
proof -
  assume "complete_key_stmt k resp d = Inr (a, d')"
  then obtain t where t: "sql_update (\<lambda>r. idem_of r = k \<and> True) (row_complete resp) (db_idem d) = Some t"
    "db_idem d' = t"
    by (auto simp: complete_key_stmt_def stmt_write_def split: option.splits)
  from icomplete.update_keys [OF t(1)] have "idem_of ` set t = idem_of ` set (db_idem d)"
    by (metis set_map)
  with t(2) show ?thesis by (simp add: keeps_keys_def key_known_iff)
qed

lemma keys_kept:
  "keys.conforms (deposit_stmt u amt ref)" "keys.conforms (audit_stmt ou ac en ei me)"
  "keys.conforms (complete_key_stmt k resp)" "keys.io_conforms (get_idempotency_response v key)"
proof -
  show "keys.conforms (deposit_stmt u amt ref)"
    by (rule keys.conformsI) (auto dest!: deposit_frame intro: same_keys)
  show "keys.conforms (audit_stmt ou ac en ei me)"
    by (rule keys.conformsI) (auto simp: audit_stmt_def stmt_write_def split: if_splits intro: same_keys)
  show "keys.conforms (complete_key_stmt k resp)"
    by (rule keys.conformsI) (rule complete_key_keeps)
  show "keys.io_conforms (get_idempotency_response v key)"
    unfolding get_idempotency_response_def by (intro keys.io_conforms_run keys.conforms_query)
qed

lemma after_claim_keeps:
  "keys.io_conforms op \<Longrightarrow> keys.io_conforms (after_claim fj msg u key op st)"
  by (auto simp: after_claim_def intro!: keys.io_rules keys_kept
      split: idempotency_status.splits option.splits sum.splits)

lemma claimed_cases:
  assumes run: "claimed now fj msg u key op w = (r, w')" and op: "keys.io_conforms op"
  shows "key_known (w_db w') (user_uuid u, key) \<or> w_db w' = w_db w"
proof -
  obtain st w1 where cl: "claim_idempotency_key now u key w = (st, w1)" by fastforce
  show ?thesis
  proof (cases st)
    case (Inl e)
    with run cl have "w' = w1" by (simp add: claimed_def io_bind_def)
    with claim_makes_known [OF cl] show ?thesis by auto
  next
    case (Inr s)
    with claim_makes_known [OF cl] have "key_known (w_db w1) (user_uuid u, key)" by auto
    moreover have "after_claim fj msg u key op s w1 = (r, w')"
      using run cl Inr by (simp add: claimed_def io_bind_def)
    then have "keeps_keys (w_db w1) (w_db w')"
      by (rule keys.io_conformsD [OF after_claim_keeps [OF op]])
    ultimately show ?thesis by (simp add: keeps_keys_def)
  qed
qed

lemma deposit_operation_keeps: "keys.io_conforms (deposit_operation env u key req)"
  unfolding deposit_operation_def Let_def record_deposit_def audit_def complete_idempotency_key_def
  by (intro keys.io_rules keys_kept)

text \<open>The validation of a deposit happens before the key is claimed.\<close>

lemma deposit_cases:
  assumes "deposit env now fk c header req w = (r, w')"
  obtains (refused) e where "r = Inl e" "w' = w"
  | (run) u where "context_user (he_jwt env) c = Inr u" "ctx_is_admin c" "0 < sint (amount_units (dr_amount req))"
      "claimed now (he_deposit_from_json env) ''request already in progress'' u (idem_key_of header fk)
         (deposit_operation env u (idem_key_of header fk) req) w = (r, w')"
  using assms
  by (auto simp: deposit_def as_user_def io_lift_def io_defs Let_def not_le split: if_splits sum.splits)

text \<open>
  C24: Two deposit requests of one administrator with the same idempotency key: unless keys have expired in
  between, at most one of them changes anything in the database, whatever each of them asks for, whatever
  happens to the links of either, and whatever happens to the database in between.
\<close>
theorem deposit_once_per_key:
  assumes "deposit env now1 fk1 c (Some key) req1 w0 = (r1, w1)"
    and "deposit env now2 fk2 c (Some key) req2 w2 = (r2, w3)"
    and "keeps_keys (w_db w1) (w_db w2)" and "idem_ok (w_db w2)"
  shows "w_db w1 = w_db w0 \<or> w_db w3 = w_db w2"
  using assms(1)
proof (cases rule: deposit_cases)
  case (run u)
  from claimed_cases [OF run(4) deposit_operation_keeps]
  have k1: "key_known (w_db w1) (user_uuid u, key) \<or> w_db w1 = w_db w0" by (simp add: idem_key_of_def)
  from assms(2) show ?thesis
  proof (cases rule: deposit_cases)
    case (run v)
    with \<open>context_user (he_jwt env) c = Inr u\<close> have "v = u" by simp
    with run(4) k1 assms(3,4) claimed_known show ?thesis
      unfolding keeps_keys_def by (metis idem_key_of_def option.simps(5))
  qed simp
qed simp

section \<open>What a deposit does\<close>

lemma io_bind_Inr: "io_bind m f w = (Inr b, w') \<longleftrightarrow> (\<exists>a w1. m w = (Inr a, w1) \<and> f a w1 = (Inr b, w'))"
  by (auto simp: io_bind_def split: prod.splits sum.splits)

lemma audit_frame: "audit u a e i me w = (r, w') \<Longrightarrow> \<exists>t. w_db w' = (w_db w)\<lparr>db_audit := t\<rparr>"
  unfolding audit_def
  by (erule db_run_cases) (auto simp: audit_stmt_def stmt_write_def split: if_splits
      dest!: sym [of _ "w_db w'"] intro: exI [of _ "db_audit (w_db w)"])

lemma complete_frame:
  "complete_idempotency_key u key resp w = (r, w') \<Longrightarrow> \<exists>t. w_db w' = (w_db w)\<lparr>db_idem := t\<rparr>"
  unfolding complete_idempotency_key_def
  by (erule db_run_cases) (auto simp: complete_key_stmt_def stmt_write_def split: option.splits
      dest!: sym [of _ "w_db w'"] intro: exI [of _ "db_idem (w_db w)"])

lemma deposit_stmt_effect:
  assumes "deposit_stmt u amt ref d = Inr ((), d')" and "balances_ok d"
  shows "0 < amt \<and> moves u amt 0 d d' \<and> db_idem d' = db_idem d \<and>
    db_deposits d' = db_deposits d @ [\<lparr>dep_user = u, dep_amount = amt, dep_reference = ref\<rparr>]"
proof -
  let ?d = "d\<lparr>db_deposits := db_deposits d @ [\<lparr>dep_user = u, dep_amount = amt, dep_reference = ref\<rparr>]\<rparr>"
  from assms(1) have run: "credit_stmt u amt ?d = Inr ((), d')" and pos: "0 < amt"
    by (auto simp: deposit_stmt_def stmt_bind_def stmt_write_def split: if_splits)
  have "balances_ok ?d" using assms(2) by (simp add: balances_ok_def user_exists_def)
  from credit_effect [OF run this] obtain t where m: "moves u amt 0 ?d d'" and t: "d' = ?d\<lparr>db_balances := t\<rparr>"
    by blast
  have "moves u amt 0 d d'" using m by (simp add: moves_def avail_def resv_def funds_def find_balance_def)
  with pos t show ?thesis by simp
qed

text \<open>Completing a key that is known makes its response readable.\<close>

lemma update_find:
  assumes "sql_update (\<lambda>r. k r = v \<and> True) f t = Some t'" and "find (\<lambda>r. k r = v) t = Some x"
    and "\<And>x x'. f x = Some x' \<Longrightarrow> k x' = k x"
  shows "\<exists>x'. f x = Some x' \<and> find (\<lambda>r. k r = v) t' = Some x'"
  using assms(1,2)
  by (induction t arbitrary: t') (auto simp: assms(3) split: option.splits if_splits)

lemma complete_effect:
  assumes "complete_key_stmt k resp d = Inr ((), d')" and "key_known d k"
  shows "\<exists>r. find_idem d' k = Some r \<and> idem_status r = 2 \<and> idem_response r = Some resp"
proof -
  from assms(1) obtain t where t: "sql_update (\<lambda>r. idem_of r = k \<and> True) (row_complete resp) (db_idem d) = Some t"
    and d': "db_idem d' = t"
    by (auto simp: complete_key_stmt_def stmt_write_def split: option.splits)
  from assms(2) obtain x where "find (\<lambda>r. idem_of r = k) (db_idem d) = Some x"
    by (auto simp: key_known_def find_idem_def)
  from update_find [OF t this icomplete.change_key] d' show ?thesis
    by (auto simp: find_idem_def row_complete_def)
qed

lemma deposit_operation_effect:
  assumes run: "deposit_operation env a key req w = (Inr res, w')" and ok: "balances_ok (w_db w)"
    and known: "key_known (w_db w) (user_uuid a, key)"
  shows "let n = amount_units (dr_amount req);
      resp = \<lparr>ds_user_id = dr_user_id req, ds_amount = n, ds_reference = dr_reference req\<rparr> in
    res = (CREATED, resp) \<and> moves (dr_user_id req) (sint n) 0 (w_db w) (w_db w') \<and>
    db_deposits (w_db w') = db_deposits (w_db w) @
      [\<lparr>dep_user = dr_user_id req, dep_amount = sint n, dep_reference = dr_reference req\<rparr>] \<and>
    (\<exists>r. find_idem (w_db w') (user_uuid a, key) = Some r \<and> idem_status r = 2 \<and>
      idem_response r = Some (json_or_null (he_deposit_to_json env resp)))"
proof -
  let ?n = "amount_units (dr_amount req)"
  let ?resp = "\<lparr>ds_user_id = dr_user_id req, ds_amount = ?n, ds_reference = dr_reference req\<rparr>"
  from run obtain w1 w2 where
    dep: "record_deposit (UserId (dr_user_id req)) ?n (dr_reference req) w = (Inr (), w1)" and
    aud: "audit (Some a) ''deposit'' ''user'' (uuid_text env (dr_user_id req))
      (Some (he_deposit_meta env ?n (dr_reference req))) w1 = (Inr (), w2)" and
    com: "complete_idempotency_key a key (json_or_null (he_deposit_to_json env ?resp)) w2 = (Inr (), w')"
    and res: "res = (CREATED, ?resp)"
    by (auto simp: deposit_operation_def Let_def io_bind_Inr io_return_def)
  from dep have d: "deposit_stmt (dr_user_id req) (sint ?n) (dr_reference req) (w_db w) = Inr ((), w_db w1)"
    by (auto simp: record_deposit_def dest: db_run_Inr)
  from deposit_stmt_effect [OF d ok] have
    m: "moves (dr_user_id req) (sint ?n) 0 (w_db w) (w_db w1)" and i: "db_idem (w_db w1) = db_idem (w_db w)" and
    l: "db_deposits (w_db w1) = db_deposits (w_db w) @
      [\<lparr>dep_user = dr_user_id req, dep_amount = sint ?n, dep_reference = dr_reference req\<rparr>]" by auto
  from audit_frame [OF aud] obtain ta where w2: "w_db w2 = (w_db w1)\<lparr>db_audit := ta\<rparr>" by blast
  from complete_frame [OF com] obtain ti where w': "w_db w' = (w_db w2)\<lparr>db_idem := ti\<rparr>" by blast
  have m': "moves (dr_user_id req) (sint ?n) 0 (w_db w) (w_db w')"
    using m by (simp add: moves_def avail_def resv_def funds_def find_balance_def w' w2)
  have "key_known (w_db w2) (user_uuid a, key)"
    using known i by (simp add: key_known_def find_idem_def w2)
  moreover have "complete_key_stmt (user_uuid a, key) (json_or_null (he_deposit_to_json env ?resp)) (w_db w2) = Inr ((), w_db w')"
    using com by (auto simp: complete_idempotency_key_def dest: db_run_Inr)
  ultimately have "\<exists>r. find_idem (w_db w') (user_uuid a, key) = Some r \<and> idem_status r = 2 \<and>
      idem_response r = Some (json_or_null (he_deposit_to_json env ?resp))"
    by (intro complete_effect)
  with res m' l w' w2 show ?thesis by (simp add: Let_def)
qed

lemma claim_frame:
  assumes "claim_idempotency_key now u key w = (r, w')"
  shows "(\<exists>t. w_db w' = (w_db w)\<lparr>db_idem := t\<rparr>) \<and> ((\<exists>s. r = Inr s) \<longrightarrow> text_ok key)"
proof -
  obtain n w1 where one: "db_run (claim_key_stmt now (user_uuid u, key)) w = (n, w1)" by fastforce
  have read: "db_run (\<lambda>d. case find_idem d k of None \<Rightarrow> Inl e | Some x \<Rightarrow> Inr (f x, d)) w1 = (r1, w2) \<Longrightarrow>
      w_db w2 = w_db w1" for k e f r1 w2
    by (erule db_run_cases) (auto split: option.splits)
  have "w_db w' = w_db w1 \<and> ((\<exists>e. n = Inl e) \<longrightarrow> (\<exists>e. r = Inl e))"
    using assms one by (auto simp: claim_idempotency_key_def io_bind_def io_return_def
        split: prod.splits sum.splits if_splits dest!: read)
  moreover have "(\<exists>t. w_db w1 = (w_db w)\<lparr>db_idem := t\<rparr>) \<and> ((\<exists>s. n = Inr s) \<longrightarrow> text_ok key)"
    using one by (cases rule: db_run_cases) (auto simp: claim_key_stmt_def stmt_write_def split: if_splits
        dest!: sym [of _ "w_db w1"] intro: exI [of _ "db_idem (w_db w)"])
  ultimately show ?thesis by (cases n) auto
qed

text \<open>A deposit that answers CREATED has claimed its key and then run its operation.\<close>

lemma created_cases:
  assumes "claimed now fj msg u key op w = (Inr (CREATED, x), w')" and ok: "idem_ok (w_db w)"
  obtains w1 t where "op w1 = (Inr (CREATED, x), w')" "w_db w1 = (w_db w)\<lparr>db_idem := t\<rparr>"
    "key_known (w_db w1) (user_uuid u, key)" "text_ok key"
proof -
  from assms(1) obtain st w1 where cl: "claim_idempotency_key now u key w = (Inr st, w1)"
    and ac: "after_claim fj msg u key op st w1 = (Inr (CREATED, x), w')"
    by (auto simp: claimed_def io_bind_Inr)
  have "st = Fresh"
  proof (cases st)
    case Complete
    from claim_complete [OF cl [unfolded Complete]] obtain r0 where
      r0: "find_idem (w_db w) (user_uuid u, key) = Some r0" "idem_status r0 = 2" and w1: "w_db w1 = w_db w" by blast
    from ac obtain y w2 where g: "get_idempotency_response u key w1 = (Inr y, w2)"
      and rest: "(case y of Some t \<Rightarrow> (case fj t of Inl e \<Rightarrow> io_fail (Internal [Foreign e]) | Inr a \<Rightarrow> io_return (OK, a))
        | None \<Rightarrow> op) w2 = (Inr (CREATED, x), w')"
      by (auto simp: after_claim_def Complete io_bind_Inr)
    have "y = None"
    proof (cases y)
      case (Some t)
      with rest show ?thesis by (cases "fj t") (simp_all add: io_fail_def io_return_def)
    qed
    with cached_response [OF g] r0 w1 idem_ok_response [OF ok r0] show ?thesis by auto
  qed (use ac in \<open>simp_all add: after_claim_def io_fail_def\<close>)
  with ac have "op w1 = (Inr (CREATED, x), w')" by (simp add: after_claim_def)
  moreover from claim_frame [OF cl] obtain t where "w_db w1 = (w_db w)\<lparr>db_idem := t\<rparr>" "text_ok key" by auto
  moreover have "key_known (w_db w1) (user_uuid u, key)" using claim_makes_known [OF cl] by auto
  ultimately show ?thesis by (intro that)
qed

lemma deposit_created:
  assumes run: "deposit env now fk c header req w = (Inr (CREATED, resp), w')" and ok: "db_ok (w_db w)"
  obtains a where "context_user (he_jwt env) c = Inr a" "ctx_is_admin c" "0 < sint (amount_units (dr_amount req))"
    "resp = \<lparr>ds_user_id = dr_user_id req, ds_amount = amount_units (dr_amount req), ds_reference = dr_reference req\<rparr>"
    "moves (dr_user_id req) (sint (amount_units (dr_amount req))) 0 (w_db w) (w_db w')"
    "db_deposits (w_db w') = db_deposits (w_db w) @ [\<lparr>dep_user = dr_user_id req,
       dep_amount = sint (amount_units (dr_amount req)), dep_reference = dr_reference req\<rparr>]"
    "\<exists>r. find_idem (w_db w') (user_uuid a, idem_key_of header fk) = Some r \<and> idem_status r = 2 \<and>
       idem_response r = Some (json_or_null (he_deposit_to_json env resp))"
    "text_ok (idem_key_of header fk)"
  using run
proof (cases rule: deposit_cases)
  case (run a)
  from ok have idem: "idem_ok (w_db w)" and bal: "balances_ok (w_db w)" by (simp_all add: db_ok_def)
  from run(4) idem obtain w1 t where
    op: "deposit_operation env a (idem_key_of header fk) req w1 = (Inr (CREATED, resp), w')"
    and w1: "w_db w1 = (w_db w)\<lparr>db_idem := t\<rparr>" and k: "key_known (w_db w1) (user_uuid a, idem_key_of header fk)"
    and tx: "text_ok (idem_key_of header fk)"
    by (rule created_cases)
  have "balances_ok (w_db w1)" using bal by (simp add: w1 balances_ok_def user_exists_def)
  from deposit_operation_effect [OF op this k] show ?thesis
    using run(1-3) tx by (intro that [of a])
      (auto simp: Let_def w1 moves_def avail_def resv_def funds_def find_balance_def)
qed simp

text \<open>
  C25: A deposit answered with CREATED came from an administrator's context and has credited the named user, and
  nobody else, with the amount in units of 1/10000 (rounded to the nearest, positive), recorded exactly one
  deposit row, and answers with what it did, whatever the link did on the way.
\<close>
theorem deposit_credits_once:
  assumes "deposit env now fk c header req w = (Inr (CREATED, resp), w')" and "db_ok (w_db w)"
  shows "ctx_is_admin c \<and> 0 < sint (ds_amount resp) \<and> ds_amount resp = amount_units (dr_amount req) \<and>
    moves (dr_user_id req) (sint (ds_amount resp)) 0 (w_db w) (w_db w') \<and>
    db_deposits (w_db w') = db_deposits (w_db w) @
      [\<lparr>dep_user = dr_user_id req, dep_amount = sint (ds_amount resp), dep_reference = dr_reference req\<rparr>]"
  using assms by (rule deposit_created) simp

text \<open>
  Repeating a deposit that was answered with CREATED, with the same key, while the keys are as the first
  call left them, answers OK with the same response and changes nothing.
\<close>
theorem deposit_replayed:
  assumes "deposit env now fk c (Some key) req w = (Inr (CREATED, resp), w')" and "db_ok (w_db w)"
    and "he_deposit_to_json env resp = Some t" and "he_deposit_from_json env t = Inr resp"
    and "db_idem d = db_idem (w_db w')"
  shows "deposit env now' fk' c (Some key) req (online d) = (Inr (OK, resp), online d)"
  using assms(1,2)
proof (rule deposit_created)
  fix a assume a: "context_user (he_jwt env) c = Inr a" and adm: "ctx_is_admin c"
    and n: "0 < sint (amount_units (dr_amount req))" and tx: "text_ok (idem_key_of (Some key) fk)"
    and r: "\<exists>r. find_idem (w_db w') (user_uuid a, idem_key_of (Some key) fk) = Some r \<and> idem_status r = 2 \<and>
       idem_response r = Some (json_or_null (he_deposit_to_json env resp))"
  have k: "idem_key_of (Some key) f = key" for f by (simp add: idem_key_of_def)
  from r assms(3) obtain row where row: "find_idem d (user_uuid a, key) = Some row" "idem_status row = 2"
    "idem_response row = Some t"
    by (auto simp: k json_or_null_def find_idem_def assms(5))
  have cl: "claim_idempotency_key now' a key (online d) = (Inr Complete, online d)"
    using row tx by (simp add: claim_idempotency_key_def io_defs db_run_online claim_key_stmt_def stmt_write_def k)
  have "find (\<lambda>r. idem_of r = (user_uuid a, key) \<and> idem_status r = 2) (db_idem d) = Some row"
    using row by (intro find_and) (simp_all add: find_idem_def)
  then have "get_idempotency_response a key (online d) = (Inr (Some t), online d)"
    using row by (simp add: get_idempotency_response_def db_run_online stmt_query_def)
  with cl assms(4) have "claimed now' (he_deposit_from_json env) ''request already in progress'' a key
      (deposit_operation env a key req) (online d) = (Inr (OK, resp), online d)"
    by (simp add: claimed_def after_claim_def io_defs)
  moreover have "\<not> f64_le_zero (dr_amount req)" "trim (dr_reference req) \<noteq> []"
    using assms(1) by (auto simp: deposit_def io_fail_def split: if_splits)
  ultimately show ?thesis
    using a adm n by (simp add: deposit_def as_user_def io_lift_def io_defs k Let_def)
qed

text \<open>Concrete requests.\<close>

definition sample_handler_env :: handler_env where
  "sample_handler_env =
     \<lparr>he_jwt = sample_deps\<lparr>uuid_show := (\<lambda>u. ''id'')\<rparr>, he_deposit_to_json = (\<lambda>r. Some ''deposit''),
      he_deposit_from_json = (\<lambda>t. Inr \<lparr>ds_user_id = 1, ds_amount = 12500, ds_reference = ''wire''\<rparr>),
      he_order_to_json = (\<lambda>o'. Some ''order''), he_order_from_json = (\<lambda>t. Inl ''order''),
      he_deposit_meta = (\<lambda>n r. ''meta''), he_amount_meta = (\<lambda>n. ''meta'')\<rparr>"

definition root_context :: auth_context where
  "root_context = \<lparr>ctx_user_id = ''00000000-0000-0000-0000-000000000009'', ctx_is_admin = True\<rparr>"

definition sample_deposit :: deposit_request where
  "sample_deposit = \<lparr>dr_user_id = 1, dr_amount = Fin False (5 / 4), dr_reference = ''wire''\<rparr>"

lemma sample_deposit_created:
  obtains w' where "deposit sample_handler_env 0 ''f'' root_context (Some ''k'') sample_deposit (online sample_db) =
    (Inr (CREATED, \<lparr>ds_user_id = 1, ds_amount = 12500, ds_reference = ''wire''\<rparr>), w')"
proof -
  have "fst (deposit sample_handler_env 0 ''f'' root_context (Some ''k'') sample_deposit (online sample_db)) =
    Inr (CREATED, \<lparr>ds_user_id = 1, ds_amount = 12500, ds_reference = ''wire''\<rparr>)"
    by code_simp
  then show ?thesis by (intro that) (rule prod_eqI, simp_all)
qed

lemma deposit_credits_once_witness:
  "\<exists>resp w'. deposit sample_handler_env 0 ''f'' root_context (Some ''k'') sample_deposit (online sample_db) =
      (Inr (CREATED, resp), w') \<and> avail (w_db w') 1 = 13500 \<and> length (db_deposits (w_db w')) = 1"
proof -
  obtain w' where run: "deposit sample_handler_env 0 ''f'' root_context (Some ''k'') sample_deposit (online sample_db) =
    (Inr (CREATED, \<lparr>ds_user_id = 1, ds_amount = 12500, ds_reference = ''wire''\<rparr>), w')"
    by (rule sample_deposit_created)
  have "avail sample_db 1 = 1000" "db_deposits sample_db = []"
    by (simp_all add: avail_def find_balance_def sample_defs)
  with deposit_credits_once [OF run] sample_db_ok run show ?thesis
    by (auto simp: moves_def sample_deposit_def)
qed

lemma deposit_replayed_witness:
  "\<exists>resp w'. deposit sample_handler_env 0 ''f'' root_context (Some ''k'') sample_deposit (online sample_db) =
      (Inr (CREATED, resp), w') \<and>
    deposit sample_handler_env 5 ''g'' root_context (Some ''k'') sample_deposit (online (w_db w')) =
      (Inr (OK, resp), online (w_db w'))"
proof -
  obtain w' where run: "deposit sample_handler_env 0 ''f'' root_context (Some ''k'') sample_deposit (online sample_db) =
    (Inr (CREATED, \<lparr>ds_user_id = 1, ds_amount = 12500, ds_reference = ''wire''\<rparr>), w')"
    by (rule sample_deposit_created)
  have "db_ok (w_db (online sample_db))" by (simp add: sample_db_ok)
  from deposit_replayed [OF run this, of "''deposit''" "w_db w'"] run show ?thesis
    by (auto simp: sample_handler_env_def)
qed

text \<open>The first attempt stops when the link is lost after the key is claimed.\<close>

lemma deposit_once_per_key_witness:
  "\<exists>r1 w1 r2 w3.
     deposit sample_handler_env 0 ''f'' root_context (Some ''k'') sample_deposit
       \<lparr>w_db = sample_db, w_links = [Reached, Lost]\<rparr> = (r1, w1) \<and>
     deposit sample_handler_env 5 ''g'' root_context (Some ''k'') sample_deposit (online (w_db w1)) = (r2, w3) \<and>
     w_db w3 = w_db w1"
proof -
  let ?w0 = "\<lparr>w_db = sample_db, w_links = [Reached, Lost]\<rparr>"
  obtain r1 w1 where one: "deposit sample_handler_env 0 ''f'' root_context (Some ''k'') sample_deposit ?w0 = (r1, w1)"
    by fastforce
  obtain r2 w3 where two: "deposit sample_handler_env 5 ''g'' root_context (Some ''k'') sample_deposit
      (online (w_db w1)) = (r2, w3)"
    by fastforce
  have "db_idem (w_db (snd (deposit sample_handler_env 0 ''f'' root_context (Some ''k'') sample_deposit ?w0))) =
    [\<lparr>idem_user = 9, idem_key = ''k'', idem_status = 1, idem_response = None, idem_expires_at = hours_24\<rparr>]"
    by code_simp
  with one have i: "db_idem (w_db w1) =
    [\<lparr>idem_user = 9, idem_key = ''k'', idem_status = 1, idem_response = None, idem_expires_at = hours_24\<rparr>]" by simp
  then have "idem_ok (w_db (online (w_db w1)))" by (simp add: idem_ok_def idem_of_def)
  moreover have "w_db w1 \<noteq> w_db ?w0" using i by (auto simp: sample_defs)
  ultimately show ?thesis
    using deposit_once_per_key [OF one two] one two by (auto simp: keeps_keys_def)
qed

end
