(* ===== verification/Account_Flows.thy ===== *)
theory Account_Flows
  imports Handlers
begin

text \<open>
  Properties of the handlers across several requests: withdrawals from the request to the decision, orders
  under one idempotency key, and an account from its registration to its first token.
\<close>

section \<open>Withdrawals\<close>

lemma moves_audit: "moves u a s d (d'\<lparr>db_audit := t\<rparr>) \<longleftrightarrow> moves u a s d d'"
  by (simp add: moves_def avail_def resv_def funds_def find_balance_def)

lemma request_effect:
  assumes "request_withdrawal env i now c amount w = (Inr (CREATED, row), w')" and "db_ok (w_db w)"
  shows "\<exists>u n. context_user (he_jwt env) c = Inr (UserId u) \<and> n = sint (amount_units amount) \<and>
    0 < n \<and> n \<le> avail (w_db w) u \<and> moves u (- n) n (w_db w) (w_db w') \<and>
    find_withdrawal (w_db w') i = Some row \<and> wd_status row = WdPending \<and> wd_user_id row = u \<and> wd_amount row = n"
proof -
  let ?n = "amount_units amount"
  from assms(1) obtain u w1 where u: "context_user (he_jwt env) c = Inr u"
    and cr: "create_withdrawal i now u ?n w = (Inr row, w1)"
    and au: "audit (Some u) ''request_withdrawal'' ''withdrawal'' (uuid_text env (wd_id row))
      (Some (he_amount_meta env (sint ?n))) w1 = (Inr (), w')"
    by (auto simp: request_withdrawal_def as_user_def io_lift_def io_bind_Inr io_fail_def io_return_def Let_def
        split: if_splits sum.splits)
  have ok: "balances_ok (w_db w)" using assms(2) by (simp add: db_ok_def)
  obtain r w2 where run: "db_run (create_withdrawal_stmt i now (user_uuid u) (sint ?n)) w = (Inr r, w2)"
    and rest: "(case r of None \<Rightarrow> insufficient u ?n | Some row \<Rightarrow> io_return row) w2 = (Inr row, w1)"
    using cr by (auto simp: create_withdrawal_def io_bind_Inr)
  have "r \<noteq> None"
  proof
    assume "r = None"
    with rest have "insufficient u ?n w2 = (Inr row, w1)" by simp
    then show False by (auto simp: insufficient_def io_bind_Inr io_fail_def)
  qed
  with rest have r: "r = Some row" "w1 = w2" by (auto simp: io_return_def)
  from create_withdrawal_effect [OF db_run_Inr [OF run [unfolded r(1)]] ok]
  have e: "wd_id row = i" "wd_user_id row = user_uuid u" "wd_amount row = sint ?n" "wd_status row = WdPending"
    "0 < sint ?n" "sint ?n \<le> avail (w_db w) (user_uuid u)" "find_withdrawal (w_db w) i = None"
    "moves (user_uuid u) (- sint ?n) (sint ?n) (w_db w) (w_db w2)"
    "db_withdrawals (w_db w2) = db_withdrawals (w_db w) @ [row]"
    by auto
  from audit_frame [OF au] r obtain t where w': "w_db w' = (w_db w2)\<lparr>db_audit := t\<rparr>" by blast
  have "find_withdrawal (w_db w') i = Some row"
    using e(1,7,9) by (simp add: w' find_withdrawal_def find_append_new)
  moreover have "moves (user_uuid u) (- sint ?n) (sint ?n) (w_db w) (w_db w')"
    using e(8) by (simp add: w' moves_audit)
  ultimately show ?thesis using e u by (intro exI [of _ "user_uuid u"] exI [of _ "sint ?n"]) (cases u; simp)
qed

text \<open>
  A withdrawal request answered with CREATED has moved its amount, which is positive and was available,
  from the user's available to the reserved money, and has left a pending withdrawal of that user and
  amount; the total money of the ledger is unchanged.
\<close>
theorem withdrawal_requested:
  assumes "request_withdrawal env i now c amount w = (Inr (CREATED, row), w')" and "db_ok (w_db w)"
  shows "\<exists>u n. context_user (he_jwt env) c = Inr (UserId u) \<and> n = sint (amount_units amount) \<and>
    0 < n \<and> n \<le> avail (w_db w) u \<and> moves u (- n) n (w_db w) (w_db w') \<and> funds (w_db w') = funds (w_db w) \<and>
    find_withdrawal (w_db w') i = Some row \<and> wd_status row = WdPending \<and> wd_user_id row = u \<and> wd_amount row = n"
  using request_effect [OF assms] by (auto simp: moves_def)

text \<open>Deciding a withdrawal that is not pending fails and changes nothing.\<close>

lemma review_refused:
  assumes "find_withdrawal d i = Some r" and "wd_status r \<noteq> WdPending" and "distinct (map wd_id (db_withdrawals d))"
  shows "review_stmt s now i admin d = Inl (NotFound [Lit ''pending withdrawal '', UuidText i])"
proof -
  have "sql_affected (\<lambda>r. wd_id r = i \<and> wd_status r = WdPending) (db_withdrawals d) = 0"
  proof (rule ccontr)
    assume "sql_affected (\<lambda>r. wd_id r = i \<and> wd_status r = WdPending) (db_withdrawals d) \<noteq> 0"
    then obtain x where x: "x \<in> set (db_withdrawals d)" "wd_id x = i" "wd_status x = WdPending"
      by (auto simp: sql_affected_0)
    from find_key_unique [OF assms(3) x(1)] x(2,3) assms(1,2) show False by (simp add: find_withdrawal_def)
  qed
  then show ?thesis by (simp add: review_stmt_def stmt_defs Let_def)
qed

text \<open>
  C27: A withdrawal is decided once. An approval that succeeds came from an administrator, found the withdrawal
  pending, and took its amount out of the owner's reserved money (as far as there is so much) and nobody
  else's; afterwards, whatever happens in the database, every further approval or rejection of it fails
  and changes nothing.
\<close>
theorem withdrawal_decided_once:
  assumes "approve env now c i w = (Inr row, w')" and "db_ok (w_db w)"
    and "db_step\<^sup>*\<^sup>* (w_db w') d" and "approve env now2 c2 i (online d) = (res, w2)"
  shows "ctx_is_admin c \<and>
    (\<exists>r. find_withdrawal (w_db w) i = Some r \<and> wd_status r = WdPending \<and>
      moves (wd_user_id r) 0 (- min (resv (w_db w) (wd_user_id r)) (wd_amount r)) (w_db w) (w_db w')) \<and>
    (\<exists>e. res = Inl e) \<and> w2 = online d \<and> (\<exists>e. reject env now2 c2 i (online d) = (Inl e, online d))"
proof -
  from assms(1) obtain a w1 where adm: "ctx_is_admin c"
    and ap: "approve_withdrawal now i a w = (Inr row, w1)"
    and au: "audit (Some a) ''approve_withdrawal'' ''withdrawal'' (uuid_text env i)
      (Some (he_amount_meta env (wd_amount row))) w1 = (Inr (), w')"
    by (auto simp: approve_def as_user_def io_lift_def io_bind_Inr io_fail_def io_return_def split: if_splits sum.splits)
  have st: "approve_stmt now i (user_uuid a) (w_db w) = Inr (row, w_db w1)"
    using ap by (auto simp: approve_withdrawal_def dest: db_run_Inr)
  from audit_frame [OF au] obtain t where w': "w_db w' = (w_db w1)\<lparr>db_audit := t\<rparr>" by blast
  have bok: "balances_ok (w_db w)" and wok: "withdrawals_ok (w_db w)" using assms(2) by (simp_all add: db_ok_def)
  from st bok wok obtain r where r: "find_withdrawal (w_db w) i = Some r" "wd_status r = WdPending"
    and row: "row = reviewed WdApproved (user_uuid a) now r" and f: "find_withdrawal (w_db w1) i = Some row"
    and mv: "moves (wd_user_id r) 0 (- min (resv (w_db w) (wd_user_id r)) (wd_amount r)) (w_db w) (w_db w1)"
    by (rule approve_effect)
  have "wd_status row = WdApproved" by (simp add: row reviewed_def)
  moreover have "find_withdrawal (w_db w') i = Some row" using f by (simp add: w' find_withdrawal_def)
  moreover have "history (w_db w') d" using assms(3) by (rule run_history)
  ultimately have fd: "find_withdrawal d i = Some row" "wd_status row \<noteq> WdPending" by (auto simp: history_def)
  have "runs.io_conforms (approve env now c i)"
    unfolding approve_def as_user_def io_lift_def by (auto intro!: conform methods_conform split: sum.splits)
  then have "db_ok (w_db w')" using assms(1,2) by (rule io_keeps_ok)
  then have "db_ok d" using assms(3) ledger.run_keeps by blast
  then have dist: "distinct (map wd_id (db_withdrawals d))" by (simp add: db_ok_def withdrawals_ok_def)
  have no: "review_stmt s n i v d = Inl (NotFound [Lit ''pending withdrawal '', UuidText i])" for s n v
    using fd dist by (rule review_refused)
  have "(\<exists>e. approve env now2 c2 i (online d) = (Inl e, online d)) \<and> (\<exists>e. reject env now2 c2 i (online d) = (Inl e, online d))"
    by (auto simp: approve_def reject_def as_user_def io_lift_def io_defs approve_withdrawal_def reject_withdrawal_def
        db_run_online approve_stmt_def reject_stmt_def stmt_bind_def no split: sum.splits)
  with assms(4) adm r mv show ?thesis by (auto simp: w' moves_audit)
qed

text \<open>Concrete withdrawals.\<close>

definition user1_context :: auth_context where
  "user1_context = \<lparr>ctx_user_id = ''00000000-0000-0000-0000-000000000001'', ctx_is_admin = False\<rparr>"

definition sample_withdrawal :: withdrawal_row where
  "sample_withdrawal =
     \<lparr>wd_id = 41, wd_user_id = 1, wd_amount = 500, wd_status = WdPending, wd_reference = None,
      wd_reviewed_by = None, wd_reviewed_at = None, wd_created_at = 0\<rparr>"

lemma sample_withdrawal_request:
  "request_withdrawal sample_handler_env 41 0 user1_context (Fin False (1 / 20)) =
     io_bind (create_withdrawal 41 0 (UserId 1) 500) (\<lambda>row.
     io_bind (audit (Some (UserId 1)) ''request_withdrawal'' ''withdrawal'' (uuid_text sample_handler_env (wd_id row))
                (Some ''meta'')) (\<lambda>_. io_return (CREATED, row)))"
proof -
  have n: "amount_units (Fin False (1 / 20)) = 500" by code_simp
  have u: "context_user (he_jwt sample_handler_env) user1_context = Inr (UserId 1)" by code_simp
  have "he_amount_meta sample_handler_env x = ''meta''" for x by (simp add: sample_handler_env_def)
  then show ?thesis
    by (rule_tac ext) (simp add: request_withdrawal_def as_user_def u n io_lift_def io_defs Let_def)
qed

lemma withdrawal_requested_witness:
  "\<exists>row w'. request_withdrawal sample_handler_env 41 0 user1_context (Fin False (1 / 20)) (online sample_db) =
      (Inr (CREATED, row), w') \<and> avail (w_db w') 1 = 500 \<and> resv (w_db w') 1 = 565"
proof -
  have "fst (request_withdrawal sample_handler_env 41 0 user1_context (Fin False (1 / 20)) (online sample_db)) =
    Inr (CREATED, sample_withdrawal)"
    unfolding sample_withdrawal_request by code_simp
  then obtain w' where run: "request_withdrawal sample_handler_env 41 0 user1_context (Fin False (1 / 20))
      (online sample_db) = (Inr (CREATED, sample_withdrawal), w')"
    by (metis prod.collapse)
  have n: "amount_units (Fin False (1 / 20)) = 500" by code_simp
  have u: "context_user (he_jwt sample_handler_env) user1_context = Inr (UserId 1)" by code_simp
  have "avail sample_db 1 = 1000" "resv sample_db 1 = 65"
    by (simp_all add: avail_def resv_def find_balance_def sample_defs)
  with withdrawal_requested [OF run] sample_db_ok run n u show ?thesis by (auto simp: moves_def)
qed

definition pending_db :: db where
  "pending_db = sample_db
     \<lparr>db_balances :=
        [\<lparr>bal_user = 1, bal_available = 500, bal_reserved = 565, bal_version = 0\<rparr>,
         \<lparr>bal_user = 2, bal_available = 500, bal_reserved = 0, bal_version = 0\<rparr>],
      db_withdrawals := [sample_withdrawal], db_holds := [hold_of sample_withdrawal]\<rparr>"

lemma pending_db_ok: "db_ok pending_db"
  by (simp add: db_ok_def users_ok_def markets_ok_def balances_ok_def orders_ok_def fills_ok_def
      positions_ok_def withdrawals_ok_def idem_ok_def sample_defs pending_db_def sample_withdrawal_def hold_of_def
      balance_ok_def i64_ok_def order_check_def market_exists_def user_exists_def)

lemma withdrawal_decided_once_witness:
  "\<exists>row w'. approve sample_handler_env 5 root_context 41 (online pending_db) = (Inr row, w') \<and>
     resv (w_db w') 1 = 65 \<and> (\<exists>e. reject sample_handler_env 6 root_context 41 (online (w_db w')) = (Inl e, online (w_db w')))"
proof -
  have "succeeds (approve sample_handler_env 5 root_context 41) (online pending_db)"
    by code_simp
  then obtain row w' where run: "approve sample_handler_env 5 root_context 41 (online pending_db) = (Inr row, w')"
    by (rule succeedsE)
  obtain res w2 where again: "approve sample_handler_env 6 root_context 41 (online (w_db w')) = (res, w2)"
    by fastforce
  have "resv pending_db 1 = 565" "find_withdrawal pending_db 41 = Some sample_withdrawal"
    by (simp_all add: resv_def find_balance_def find_withdrawal_def pending_db_def sample_withdrawal_def)
  with withdrawal_decided_once [OF run _ rtranclp.rtrancl_refl again] pending_db_ok run show ?thesis
    by (auto simp: moves_def sample_withdrawal_def)
qed

section \<open>Orders under one key\<close>

lemma order_operation_keeps:
  assumes "order_operation oenv env call u key req s = Some (r, s')"
  shows "keeps_keys (w_db (fst s)) (w_db (fst s'))"
proof -
  have com: "keeps_keys (w_db w) (w_db w')" if "complete_idempotency_key u key t w = (r, w')" for t w r w'
    using that unfolding complete_idempotency_key_def
    by (rule keys.io_conformsD [OF keys.io_conforms_run [OF keys_kept(3)]])
  from assms obtain a where a: "parse_order (oe_decimal oenv) req = Some a"
    by (auto simp: order_operation_def bind_Some_iff)
  show ?thesis
  proof (cases a)
    case (Inr o')
    with assms a obtain res svc where "submit oenv call o' (snd s) = Some (res, svc)"
      by (auto simp: order_operation_def bind_Some_iff)
    with assms a Inr show ?thesis
      by (cases res) (auto simp: order_operation_def keys.refl split: prod.splits sum.splits dest: com)
  qed (use assms a keys.refl in \<open>simp add: order_operation_def\<close>)
qed

lemma place_order_first:
  assumes "place_order oenv env now fk call c (Some key) req s = Some (r, s')"
  shows "snd s' = snd s \<or> (\<exists>u. context_user (he_jwt env) c = Inr u \<and> key_known (w_db (fst s')) (user_uuid u, key))"
proof (cases "context_user (he_jwt env) c")
  case (Inr u)
  obtain st w where cl: "claim_idempotency_key now u key (fst s) = (st, w)" by fastforce
  have get: "w_db w2 = w_db w1" if "get_idempotency_response u key w1 = (x, w2)" for x w1 w2
    using that by (auto simp: get_idempotency_response_def stmt_query_def elim!: db_run_cases)
  show ?thesis
  proof (cases st)
    case (Inl e)
    with assms Inr cl show ?thesis by (auto simp: place_order_def idem_key_of_def)
  next
    case (Inr x)
    with claim_makes_known [OF cl] have k: "key_known (w_db w) (user_uuid u, key)" by auto
    have op: "key_known (w_db (fst s')) (user_uuid u, key)"
      if "order_operation oenv env call u key req (w1, snd s) = Some (r, s')" "w_db w1 = w_db w" for w1
      using order_operation_keeps [OF that(1)] k that(2) by (simp add: keeps_keys_def)
    show ?thesis
    proof (cases x)
      case Complete
      obtain y w2 where "get_idempotency_response u key w = (y, w2)" by fastforce
      with assms \<open>context_user (he_jwt env) c = Inr u\<close> cl Inr Complete get op show ?thesis
        by (auto simp: place_order_def idem_key_of_def split: sum.splits option.splits)
    qed (use assms \<open>context_user (he_jwt env) c = Inr u\<close> cl Inr op in
        \<open>auto simp: place_order_def idem_key_of_def\<close>)
  qed
qed (use assms in \<open>simp add: place_order_def\<close>)

lemma place_order_known:
  assumes run: "place_order oenv env now fk call c (Some key) req s = Some (r, s')"
    and u: "context_user (he_jwt env) c = Inr u" and known: "key_known (w_db (fst s)) (user_uuid u, key)"
    and ok: "idem_ok (w_db (fst s))"
  shows "snd s' = snd s"
proof -
  obtain st w where cl: "claim_idempotency_key now u key (fst s) = (st, w)" by fastforce
  from claim_known_keeps [OF cl known] have same: "w_db w = w_db (fst s)" and nf: "st \<noteq> Inr Fresh" by auto
  show ?thesis
  proof (cases "st = Inr Complete")
    case True
    with claim_complete [of now u key "fst s" w] cl obtain r0 where
      r0: "find_idem (w_db (fst s)) (user_uuid u, key) = Some r0" "idem_status r0 = 2" by auto
    obtain x w2 where g: "get_idempotency_response u key w = (x, w2)" by fastforce
    have "x \<noteq> Inr None"
    proof
      assume "x = Inr None"
      with cached_response [of u key w None w2 r0] g r0 same idem_ok_response [OF ok r0] show False by simp
    qed
    with True run u cl g show ?thesis
      by (auto simp: place_order_def idem_key_of_def split: sum.splits option.splits)
  next
    case False
    with nf run u cl show ?thesis
      by (cases st; cases "projr st") (auto simp: place_order_def idem_key_of_def)
  qed
qed

text \<open>
  C26: Two orders of one user under the same idempotency key: unless keys have expired in between, at most one of
  them touches the order service, and so at most one is sent to the exchange, whatever the orders say,
  whatever the links do and whatever happens in the database in between.
\<close>
theorem order_sent_once_per_key:
  assumes "place_order oenv env now1 fk1 call1 c (Some key) req1 s0 = Some (r1, s1)"
    and "place_order oenv env now2 fk2 call2 c (Some key) req2 s2 = Some (r2, s3)"
    and "keeps_keys (w_db (fst s1)) (w_db (fst s2))" and "idem_ok (w_db (fst s2))"
  shows "snd s1 = snd s0 \<or> snd s3 = snd s2"
  using place_order_first [OF assms(1)]
proof
  assume "\<exists>u. context_user (he_jwt env) c = Inr u \<and> key_known (w_db (fst s1)) (user_uuid u, key)"
  then obtain u where u: "context_user (he_jwt env) c = Inr u" and "key_known (w_db (fst s1)) (user_uuid u, key)"
    by blast
  with assms(3) have "key_known (w_db (fst s2)) (user_uuid u, key)" by (simp add: keeps_keys_def)
  from place_order_known [OF assms(2) u this assms(4)] show ?thesis ..
qed simp

text \<open>
  An order that fails validation uses up its idempotency key: the key is claimed before the order is looked at
  and nobody releases it, so that the corrected order sent again under the same key is refused as a
  duplicate in flight, whatever it is, until the key expires.
\<close>
theorem invalid_order_burns_key:
  assumes "context_user (he_jwt env) c = Inr u" and "user_exists d (user_uuid u)" and "text_ok key"
    and "\<not> key_known d (user_uuid u, key)" and "parse_order (oe_decimal oenv) bad = Some (Inl e)"
  shows "\<exists>d'. place_order oenv env now fk call c (Some key) bad (online d, svc) = Some (Inl e, online d', svc) \<and>
    place_order oenv env now' fk' call' c (Some key) good (online d', svc') =
      Some (Inl (Conflict [Lit ''duplicate request in flight'']), online d', svc')"
proof -
  let ?row = "\<lparr>idem_user = user_uuid u, idem_key = key, idem_status = 1, idem_response = None,
    idem_expires_at = now + hours_24\<rparr>"
  let ?d = "d\<lparr>db_idem := db_idem d @ [?row]\<rparr>"
  have none: "find_idem d (user_uuid u, key) = None" using assms(4) by (simp add: key_known_def)
  then have "claim_idempotency_key now u key (online d) = (Inr Fresh, online ?d)"
    using assms(2,3) by (simp add: claim_idempotency_key_def io_defs db_run_online claim_key_stmt_def stmt_write_def)
  then have "place_order oenv env now fk call c (Some key) bad (online d, svc) = Some (Inl e, online ?d, svc)"
    using assms(1,5) by (simp add: place_order_def idem_key_of_def order_operation_def)
  moreover have "find_idem ?d (user_uuid u, key) = Some ?row"
    using none by (simp add: find_idem_def find_append_new idem_of_def)
  then have "claim_idempotency_key now' u key (online ?d) = (Inr Processing, online ?d)"
    using assms(3) by (simp add: claim_idempotency_key_def io_defs db_run_online claim_key_stmt_def stmt_write_def)
  then have "place_order oenv env now' fk' call' c (Some key) good (online ?d, svc') =
      Some (Inl (Conflict [Lit ''duplicate request in flight'']), online ?d, svc')"
    using assms(1) by (simp add: place_order_def idem_key_of_def)
  ultimately show ?thesis by blast
qed

definition sample_place :: "string \<Rightarrow> rat place_order_request" where
  "sample_place side =
     \<lparr>por_market_id = 7, por_side = side, por_kind = ''limit'', por_price = Some (65 / 10000), por_quantity = 1\<rparr>"

lemma user1: "context_user (he_jwt sample_handler_env) user1_context = Inr (UserId 1)"
  by code_simp

lemma invalid_order_burns_key_witness:
  "\<exists>d'. place_order sample_order_env sample_handler_env 0 ''f'' sample_call user1_context (Some ''k'')
       (sample_place ''bid'') (online sample_db, sample_service) =
     Some (Inl (Validation [Lit ''side must be buy or sell'']), online d', sample_service) \<and>
   place_order sample_order_env sample_handler_env 9 ''g'' sample_call user1_context (Some ''k'')
       (sample_place ''buy'') (online d', sample_service) =
     Some (Inl (Conflict [Lit ''duplicate request in flight'']), online d', sample_service)"
proof -
  have "to_lowercase ''bid'' = ''bid''" by code_simp
  then have bad: "parse_order (oe_decimal sample_order_env) (sample_place ''bid'') =
      Some (Inl (Validation [Lit ''side must be buy or sell'']))"
    by (simp add: parse_order_def sample_place_def parse_side_def)
  have tx: "text_ok ''k''" by code_simp
  show ?thesis
    by (rule invalid_order_burns_key [OF user1 _ tx _ bad])
      (simp_all add: sample_defs user_exists_def key_known_def find_idem_def)
qed

text \<open>The first order is sent; the repetition is not.\<close>

lemma order_sent_once_per_key_witness:
  "\<exists>r1 s1 r2 s3. place_order sample_order_env sample_handler_env 0 ''f'' sample_call user1_context (Some ''k'')
       (sample_place ''buy'') (online sample_db, sample_service) = Some (r1, s1) \<and>
     place_order sample_order_env sample_handler_env 9 ''g'' sample_call user1_context (Some ''k'')
       (sample_place ''buy'') (online (w_db (fst s1)), snd s1) = Some (r2, s3) \<and> snd s1 \<noteq> sample_service \<and> snd s3 = snd s1"
proof -
  let ?run = "place_order sample_order_env sample_handler_env 0 ''f'' sample_call user1_context (Some ''k'')
       (sample_place ''buy'') (online sample_db, sample_service)"
  have "map_option (\<lambda>(r, s). (os_pending (snd s) ''x1'' \<noteq> None, db_idem (w_db (fst s)))) ?run =
    Some (True, [\<lparr>idem_user = 1, idem_key = ''k'', idem_status = 2, idem_response = Some ''order'',
      idem_expires_at = hours_24\<rparr>])"
    by code_simp
  then obtain r1 s1 where one: "?run = Some (r1, s1)" and p: "os_pending (snd s1) ''x1'' \<noteq> None"
    and i: "db_idem (w_db (fst s1)) = [\<lparr>idem_user = 1, idem_key = ''k'', idem_status = 2, idem_response = Some ''order'',
      idem_expires_at = hours_24\<rparr>]"
    by auto
  have ch: "snd s1 \<noteq> sample_service" using p by (auto simp: sample_service_def reconciler_new_def)
  have k: "key_known (w_db (fst s1)) (1, ''k'')" by (simp add: key_known_def find_idem_def i idem_of_def)
  have f: "find_idem (w_db (fst s1)) (1, ''k'') = Some \<lparr>idem_user = 1, idem_key = ''k'', idem_status = 2,
      idem_response = Some ''order'', idem_expires_at = hours_24\<rparr>"
    by (simp add: find_idem_def i idem_of_def)
  have tx: "text_ok ''k''" by code_simp
  have js: "he_order_from_json sample_handler_env t = Inl ''order''" for t by (simp add: sample_handler_env_def)
  have two: "place_order sample_order_env sample_handler_env 9 ''g'' sample_call user1_context (Some ''k'')
       (sample_place ''buy'') (online (w_db (fst s1)), snd s1) =
     Some (Inl (Internal [Foreign ''order'']), online (w_db (fst s1)), snd s1)"
    by (simp add: place_order_def user1 idem_key_of_def claim_idempotency_key_def io_defs db_run_online
        claim_key_stmt_def stmt_write_def f tx get_idempotency_response_def stmt_query_def i idem_of_def js)
  from order_sent_once_per_key [OF one two] i ch one two show ?thesis
    by (auto simp: keeps_keys_def idem_ok_def idem_of_def)
qed

section \<open>From registration to the first token\<close>

lemma get_user_online:
  "get_user_by_email e (online d) =
     (case find (\<lambda>r. usr_email r = e) (db_users d) of
        None \<Rightarrow> (Inl (NotFound [Lit ''user '', Lit e]), online d) | Some u \<Rightarrow> (Inr u, online d))"
  by (simp add: get_user_by_email_def io_defs db_run_online stmt_query_def user_or_missing_def split: option.splits)

text \<open>
  A registration answered with CREATED makes an account that works: later, while the users are as it left
  them, logging in with the same address and any password the hash accepts gives a token that verifies
  until it expires, for the new user and without administrator rights, and a password the hash does not
  accept is unauthorized.
\<close>
theorem registered_user_logs_in:
  assumes "register_user env pw jwt salt i now email password w = (Inr (CREATED, Some t), w')"
    and "pw_hash_with pw password salt = Inr hash" and "db_users d = db_users (w_db w')"
    and "jwt_issue (he_jwt env) jwt later (UserId i) False = Some (Inr token)"
  shows "(pw_check pw attempt hash = Some True \<longrightarrow>
      login env pw jwt later email attempt (online d) =
        (Inr (Some \<lparr>tr_token = token, tr_user_id = uuid_show (he_jwt env) i, tr_is_admin = False\<rparr>), online d)) \<and>
    (pw_check pw attempt hash = Some False \<longrightarrow> login env pw jwt later email attempt (online d) = (Inl Unauthorized, online d))"
proof -
  from assms(1) obtain h u w1 w2 where h: "password_hash (pw_hash_with pw) salt password = Inr h"
    and ins: "insert_user i email h w = (Inr u, w1)" and cr: "credit_balance u 0 w1 = (Inr (), w2)"
    and iss: "issue_io env jwt now u False w2 = (Inr (Some t), w')"
    by (auto simp: register_user_def io_bind_Inr io_lift_def io_fail_def io_return_def split: if_splits sum.splits)
  have hash: "h = hash" using h assms(2) by (simp add: password_hash_def)
  from ins have "insert_user_stmt i email h (w_db w) = Inr (user_uuid u, w_db w1)"
    by (auto simp: insert_user_def io_bind_Inr io_return_def dest!: db_run_Inr)
  then have "email \<notin> set (map usr_email (db_users (w_db w)))"
    and w1: "db_users (w_db w1) = db_users (w_db w) @
      [\<lparr>usr_id = i, usr_email = email, usr_password_hash = h, usr_is_admin = False\<rparr>]"
    by (auto simp: insert_user_stmt_def stmt_write_def split: if_splits dest!: sym [of _ "w_db w1"])
  moreover have "db_users (w_db w2) = db_users (w_db w1)"
    using cr by (auto simp: credit_balance_def dest!: db_run_Inr credit_frame)
  moreover have "w' = w2"
    using iss by (auto simp: issue_io_def io_bind_Inr io_return_def io_lift_def io_fail_def split: option.splits sum.splits)
  moreover from calculation(1) have "find (\<lambda>r. usr_email r = email) (db_users (w_db w)) = None"
    by (auto simp: find_None_iff)
  ultimately have find: "find (\<lambda>r. usr_email r = email) (db_users d) =
      Some \<lparr>usr_id = i, usr_email = email, usr_password_hash = h, usr_is_admin = False\<rparr>"
    using assms(3) by (simp add: find_append_new)
  show ?thesis
    using assms(4) by (auto simp: login_def io_defs get_user_online find hash verify_password_def password_verify_def
        io_lift_def issue_io_def token_reply_def)
qed

definition plain_passwords :: password_env where
  "plain_passwords = \<lparr>pw_hash_with = (\<lambda>p s. Inr p), pw_check = (\<lambda>p h. Some (p = h))\<rparr>"

definition account_env :: handler_env where
  "account_env = sample_handler_env
     \<lparr>he_jwt := sample_deps\<lparr>claims_to_json := (\<lambda>c. Inr ''claims''), uuid_show := (\<lambda>u. ''id'')\<rparr>\<rparr>"

lemma registered_user_logs_in_witness:
  "\<exists>t w' token. register_user account_env plain_passwords \<lparr>jwt_secret = ''k'', jwt_ttl_secs = 3600\<rparr> ''salt'' 51 0
       ''c@d'' ''password'' (online sample_db) = (Inr (CREATED, Some t), w') \<and>
     login account_env plain_passwords \<lparr>jwt_secret = ''k'', jwt_ttl_secs = 3600\<rparr> 9000000000 ''c@d'' ''password''
       (online (w_db w')) = (Inr (Some token), online (w_db w')) \<and>
     login account_env plain_passwords \<lparr>jwt_secret = ''k'', jwt_ttl_secs = 3600\<rparr> 9000000000 ''c@d'' ''Password''
       (online (w_db w')) = (Inl Unauthorized, online (w_db w'))"
proof -
  let ?j = "\<lparr>jwt_secret = ''k'', jwt_ttl_secs = 3600\<rparr>"
  have "succeeds (\<lambda>w. case register_user account_env plain_passwords ?j ''salt'' 51 0 ''c@d'' ''password'' w of
      (Inl e, w') \<Rightarrow> (Inl e, w') | (Inr (s, t), w') \<Rightarrow> (if s = CREATED \<and> t \<noteq> None then Inr () else Inl Forbidden, w'))
      (online sample_db)"
    by code_simp
  then obtain t w' where run: "register_user account_env plain_passwords ?j ''salt'' 51 0 ''c@d'' ''password''
      (online sample_db) = (Inr (CREATED, Some t), w')"
    by (auto simp: succeeds_def split: sum.splits prod.splits if_splits)
  obtain token where tok: "jwt_issue (he_jwt account_env) ?j 9000000000 (UserId 51) False = Some (Inr token)"
    by (simp add: jwt_issue_def jwt_sign_def timestamp_def account_env_def sample_deps_def Let_def)
  have h: "pw_hash_with plain_passwords ''password'' ''salt'' = Inr ''password''"
    by (simp add: plain_passwords_def)
  from registered_user_logs_in [OF run h _ tok, of "w_db w'" "''password''"]
    registered_user_logs_in [OF run h _ tok, of "w_db w'" "''Password''"] run
  show ?thesis by (auto simp: plain_passwords_def)
qed

end
