(* ===== verification/Tasks.thy ===== *)
theory Tasks
  imports Common_Types
begin

text \<open>
  What the asynchronous code relies on of its runtime, as its documentation describes it: a read-write lock
  (\<open>tokio::sync::RwLock\<close>), a bounded channel (\<open>mpsc::channel\<close>), and how a call can fail to return. A call
  that panics releases its locks; a call that waits for something nobody will do keeps them.
\<close>

datatype halt = Panic | Blocked

text \<open>A call that returns a value, panics or waits.\<close>

type_synonym 'a run = "halt + 'a"

section \<open>Read-write locks\<close>

datatype lock = Free | Readers nat | Writer

fun lock_write :: "lock \<Rightarrow> lock option" where
  "lock_write Free = Some Writer"
| "lock_write (Readers n) = None"
| "lock_write Writer = None"

fun lock_read :: "lock \<Rightarrow> lock option" where
  "lock_read Free = Some (Readers 1)"
| "lock_read (Readers n) = Some (Readers (Suc n))"
| "lock_read Writer = None"

fun unlock_read :: "lock \<Rightarrow> lock" where
  "unlock_read (Readers n) = (if n \<le> 1 then Free else Readers (n - 1))"
| "unlock_read l = l"

lemma unlock_read_lock: "l \<noteq> Readers 0 \<Longrightarrow> lock_read l = Some l' \<Longrightarrow> unlock_read l' = l"
  by (cases l) auto

lemma lock_write_Some [simp]: "lock_write l = Some l' \<longleftrightarrow> l = Free \<and> l' = Writer"
  by (cases l) auto

lemma lock_write_None [simp]: "lock_write l = None \<longleftrightarrow> l \<noteq> Free"
  by (cases l) auto

lemma lock_read_None [simp]: "lock_read l = None \<longleftrightarrow> l = Writer"
  by (cases l) auto

section \<open>Bounded channels\<close>

record 'm channel =
  ch_queue :: "'m list"
  ch_capacity :: nat
  ch_open :: bool

text \<open>The outcome of \<open>send(m).await\<close>: enqueued, refused because the receiver is gone, or waiting for room.\<close>

datatype send_outcome = Sent | Closed | Waits

definition channel_send :: "'m \<Rightarrow> 'm channel \<Rightarrow> send_outcome \<times> 'm channel" where
  "channel_send m c =
     (if \<not> ch_open c then (Closed, c)
      else if ch_capacity c \<le> length (ch_queue c) then (Waits, c)
      else (Sent, c\<lparr>ch_queue := ch_queue c @ [m]\<rparr>))"

definition channel_ok :: "'m channel \<Rightarrow> bool" where
  "channel_ok c \<longleftrightarrow> length (ch_queue c) \<le> ch_capacity c"

lemma channel_send_ok: "channel_ok c \<Longrightarrow> channel_send m c = (out, c') \<Longrightarrow> channel_ok c' \<and> ch_capacity c' = ch_capacity c"
  by (auto simp: channel_send_def channel_ok_def split: if_splits)

section \<open>Time\<close>

text \<open>
  \<open>Duration::seconds\<close> panics beyond \<open>i64::MAX / 1000\<close> seconds, and adding a duration to a date panics when the
  date leaves what \<open>chrono\<close> represents, the argument \<open>ok\<close>. Dates are nanoseconds since the epoch.
\<close>

definition later_by :: "(datetime \<Rightarrow> bool) \<Rightarrow> datetime \<Rightarrow> i64 \<Rightarrow> datetime option" where
  "later_by ok now secs =
     (let t = now + sint secs * 1000000000 in
      if \<bar>sint secs\<bar> \<le> 9223372036854775 \<and> ok t then Some t else None)"

text \<open>The hour of the day and the day, in UTC.\<close>

definition hour_of :: "datetime \<Rightarrow> nat" where
  "hour_of t = nat ((t div 3600000000000) mod 24)"

definition date_of :: "datetime \<Rightarrow> int" where
  "date_of t = t div 86400000000000"

lemma hour_of_less: "hour_of t < 24"
  by (simp add: hour_of_def nat_less_iff)

end
