(* ===== verification/Execution.thy ===== *)
theory Execution
  imports Tasks Decimal_Ops "HOL-Library.Multiset"
begin

text \<open>
  \<open>analytics/src/execution.rs\<close>: large orders are cut into child orders, by time (TWAP), by the volume of the
  hours (VWAP) or by visible size (iceberg), stored, and submitted by a task when their time has come. The
  identifiers, the time, the order in which a \<open>HashMap\<close> is iterated and what the order channel answers are
  arguments. A call returns, panics, or waits for ever holding its locks (\<open>Tasks\<close>).
\<close>

datatype execution_strategy = TWAP | VWAP | Iceberg | Smart

datatype algo_status = AlgoPending | AlgoRunning | AlgoPaused | AlgoComplete | AlgoCancelled

datatype child_status = ChildPending | ChildSubmitted | ChildFilled | ChildFailed

record child_order =
  co_sequence :: u32
  co_quantity :: u64
  co_price :: "u32 option"
  co_scheduled_time :: datetime
  co_status :: child_status

record algo_order =
  ao_id :: string
  ao_market_id :: string
  ao_side :: side
  ao_total_quantity :: u64
  ao_filled_quantity :: u64
  ao_strategy :: execution_strategy
  ao_target_price :: "u32 option"
  ao_time_window_secs :: u64
  ao_slice_count :: u32
  ao_child_orders :: "child_order list"
  ao_status :: algo_status
  ao_created_at :: datetime

record 'd volume_profile =
  vp_hour_weights :: "'d list"
  vp_recent_volumes :: "(datetime \<times> u64) list"

record 'd execution =
  ex_orders :: "string \<Rightarrow> algo_order option"
  ex_orders_lock :: lock
  ex_profiles :: "market_id \<Rightarrow> 'd volume_profile option"
  ex_profiles_lock :: lock
  ex_channel :: "algo_order channel"
  ex_simulation :: bool

text \<open>What the code uses of other crates: decimals, the text of a UUID, the range of dates.\<close>

record 'd exec_env =
  xe_decimal :: "'d decimal"
  xe_uuid_show :: "uuid \<Rightarrow> string"
  xe_uuid_parse :: "string \<Rightarrow> uuid option"
  xe_date_ok :: "datetime \<Rightarrow> bool"

definition execution_new :: "bool \<Rightarrow> 'd execution" where
  "execution_new simulation =
     \<lparr>ex_orders = (\<lambda>_. None), ex_orders_lock = Free, ex_profiles = (\<lambda>_. None), ex_profiles_lock = Free,
      ex_channel = \<lparr>ch_queue = [], ch_capacity = 1000, ch_open = True\<rparr>, ex_simulation = simulation\<rparr>"

section \<open>Creating orders\<close>

text \<open>The end of every \<open>create\<close> function: store the order under the lock, offer it to the channel, return the id.\<close>

definition store_order :: "algo_order \<Rightarrow> 'd execution \<Rightarrow> 'd execution \<times> string run" where
  "store_order a s =
     (case lock_write (ex_orders_lock s) of
        None \<Rightarrow> (s, Inl Blocked)
      | Some l \<Rightarrow>
          (let s1 = s\<lparr>ex_orders_lock := l, ex_orders := (ex_orders s)(ao_id a \<mapsto> a)\<rparr> in
           case channel_send a (ex_channel s1) of
             (Waits, _) \<Rightarrow> (s1, Inl Blocked)
           | (_, c) \<Rightarrow> (s1\<lparr>ex_channel := c, ex_orders_lock := Free\<rparr>, Inr (ao_id a))))"

text \<open>\<open>create_twap\<close>: equal slices, the last one with the remainder, at equal distances.\<close>

definition twap_child ::
  "'d exec_env \<Rightarrow> datetime \<Rightarrow> u64 \<Rightarrow> u64 \<Rightarrow> u32 \<Rightarrow> u32 option \<Rightarrow> nat \<Rightarrow> child_order option" where
  "twap_child env now quantity window slices target n =
     (let i = word_of_nat n :: u32;
          slice_qty = quantity div ucast slices;
          remainder = quantity mod ucast slices;
          interval = window div ucast slices
      in map_option
           (\<lambda>t. \<lparr>co_sequence = i, co_quantity = (if i = slices - 1 then slice_qty + remainder else slice_qty),
                 co_price = target, co_scheduled_time = t, co_status = ChildPending\<rparr>)
           (later_by (xe_date_ok env) now (ucast i * interval)))"

definition twap_children ::
  "'d exec_env \<Rightarrow> datetime \<Rightarrow> u64 \<Rightarrow> u64 \<Rightarrow> u32 \<Rightarrow> u32 option \<Rightarrow> child_order list option" where
  "twap_children env now quantity window slices target =
     (if slices = 0 then None
      else those (map (twap_child env now quantity window slices target) [0..<unat slices]))"

definition create_twap ::
  "'d exec_env \<Rightarrow> uuid \<Rightarrow> datetime \<Rightarrow> market_id \<Rightarrow> side \<Rightarrow> u64 \<Rightarrow> u64 \<Rightarrow> u32 \<Rightarrow> u32 option \<Rightarrow>
     'd execution \<Rightarrow> 'd execution \<times> string run" where
  "create_twap env i now m side quantity window slices target s =
     (case twap_children env now quantity window slices target of
        None \<Rightarrow> (s, Inl Panic)
      | Some cs \<Rightarrow>
          store_order
            \<lparr>ao_id = xe_uuid_show env i, ao_market_id = xe_uuid_show env (market_uuid m), ao_side = side,
             ao_total_quantity = quantity, ao_filled_quantity = 0, ao_strategy = TWAP, ao_target_price = target,
             ao_time_window_secs = window, ao_slice_count = slices, ao_child_orders = cs,
             ao_status = AlgoPending, ao_created_at = now\<rparr> s)"

text \<open>\<open>create_vwap\<close>: slices weighted by the hours they would fall into if each took an hour.\<close>

definition vwap_weights :: "'d decimal \<Rightarrow> 'd volume_profile option \<Rightarrow> nat \<Rightarrow> u32 \<Rightarrow> 'd list option" where
  "vwap_weights D profile hour slices =
     (case profile of
        Some p \<Rightarrow>
          those (map (\<lambda>i. let h = (hour + i) mod 24 in
                         if h < length (vp_hour_weights p) then Some (vp_hour_weights p ! h)
                         else d_div D (d_of D 1) (d_of D 24)) [0..<unat slices])
      | None \<Rightarrow> do {
          w \<leftarrow> d_div D (d_of D 1) (d_from D slices);
          Some (replicate (unat slices) w) })"

definition normalized :: "'d decimal \<Rightarrow> 'd list \<Rightarrow> 'd list option" where
  "normalized D ws = do { total \<leftarrow> d_sum D ws; those (map (\<lambda>w. d_div D w total) ws) }"

definition vwap_quantity :: "'d decimal \<Rightarrow> u64 \<Rightarrow> 'd \<Rightarrow> u64 option" where
  "vwap_quantity D quantity w = do {
     x \<leftarrow> d_mul D (d_from D quantity) w;
     Some (case d_to_u64 D x of None \<Rightarrow> 0 | Some n \<Rightarrow> n) }"

definition vwap_child ::
  "'d exec_env \<Rightarrow> datetime \<Rightarrow> u64 \<Rightarrow> u64 \<Rightarrow> u32 \<Rightarrow> nat \<Rightarrow> 'd \<Rightarrow> child_order option" where
  "vwap_child env now quantity window slices n w = do {
     qty \<leftarrow> vwap_quantity (xe_decimal env) quantity w;
     t \<leftarrow> later_by (xe_date_ok env) now (word_of_nat n * window div ucast slices);
     Some \<lparr>co_sequence = word_of_nat n, co_quantity = qty, co_price = None, co_scheduled_time = t,
           co_status = ChildPending\<rparr> }"

definition vwap_children ::
  "'d exec_env \<Rightarrow> 'd volume_profile option \<Rightarrow> datetime \<Rightarrow> u64 \<Rightarrow> u64 \<Rightarrow> u32 \<Rightarrow> child_order list option" where
  "vwap_children env profile now quantity window slices = do {
     ws \<leftarrow> vwap_weights (xe_decimal env) profile (hour_of now) slices;
     ns \<leftarrow> normalized (xe_decimal env) ws;
     cs \<leftarrow> those (map (\<lambda>(n, w). vwap_child env now quantity window slices n w)
                   (take (if slices = 0 then length ns else unat slices - 1) (enumerate 0 ns)));
     t \<leftarrow> later_by (xe_date_ok env) now window;
     Some (cs @ [\<lparr>co_sequence = slices - 1, co_quantity = quantity - sum_list (map co_quantity cs),
                  co_price = None, co_scheduled_time = t, co_status = ChildPending\<rparr>]) }"

definition create_vwap ::
  "'d exec_env \<Rightarrow> uuid \<Rightarrow> datetime \<Rightarrow> market_id \<Rightarrow> side \<Rightarrow> u64 \<Rightarrow> u64 \<Rightarrow> u32 \<Rightarrow>
     'd execution \<Rightarrow> 'd execution \<times> string run" where
  "create_vwap env i now m side quantity window slices s =
     (case lock_read (ex_profiles_lock s) of
        None \<Rightarrow> (s, Inl Blocked)
      | Some l \<Rightarrow>
          (case vwap_children env (ex_profiles s m) now quantity window slices of
             None \<Rightarrow> (s, Inl Panic)
           | Some cs \<Rightarrow>
               (case store_order
                  \<lparr>ao_id = xe_uuid_show env i, ao_market_id = xe_uuid_show env (market_uuid m), ao_side = side,
                   ao_total_quantity = quantity, ao_filled_quantity = 0, ao_strategy = VWAP, ao_target_price = None,
                   ao_time_window_secs = window, ao_slice_count = slices, ao_child_orders = cs,
                   ao_status = AlgoPending, ao_created_at = now\<rparr> (s\<lparr>ex_profiles_lock := l\<rparr>) of
                  (s', Inl h) \<Rightarrow> (s', Inl h)
                | (s', Inr r) \<Rightarrow> (s'\<lparr>ex_profiles_lock := unlock_read (ex_profiles_lock s')\<rparr>, Inr r))))"

text \<open>\<open>create_iceberg\<close>: as many slices of the visible quantity as are needed.\<close>

definition iceberg_slices :: "'d decimal \<Rightarrow> u64 \<Rightarrow> u64 \<Rightarrow> u32 option" where
  "iceberg_slices D amount visible = do {
     x \<leftarrow> d_div D (d_from D amount) (d_from D visible);
     Some (case d_to_u32 D (d_ceil D x) of None \<Rightarrow> 1 | Some n \<Rightarrow> n) }"

fun iceberg_children :: "datetime \<Rightarrow> u64 \<Rightarrow> u32 \<Rightarrow> nat \<Rightarrow> u32 \<Rightarrow> u64 \<Rightarrow> child_order list" where
  "iceberg_children now visible price 0 i remaining = []"
| "iceberg_children now visible price (Suc n) i remaining =
     (let qty = min visible remaining in
      \<lparr>co_sequence = i, co_quantity = qty, co_price = Some price, co_scheduled_time = now,
       co_status = ChildPending\<rparr> # iceberg_children now visible price n (i + 1) (remaining - qty))"

definition create_iceberg ::
  "'d exec_env \<Rightarrow> uuid \<Rightarrow> datetime \<Rightarrow> market_id \<Rightarrow> side \<Rightarrow> u64 \<Rightarrow> u64 \<Rightarrow> u32 \<Rightarrow>
     'd execution \<Rightarrow> 'd execution \<times> string run" where
  "create_iceberg env i now m side amount visible price s =
     (case iceberg_slices (xe_decimal env) amount visible of
        None \<Rightarrow> (s, Inl Panic)
      | Some slices \<Rightarrow>
          store_order
            \<lparr>ao_id = xe_uuid_show env i, ao_market_id = xe_uuid_show env (market_uuid m), ao_side = side,
             ao_total_quantity = amount, ao_filled_quantity = 0, ao_strategy = Iceberg,
             ao_target_price = Some price, ao_time_window_secs = 0, ao_slice_count = slices,
             ao_child_orders = iceberg_children now visible price (unat slices) 0 amount,
             ao_status = AlgoPending, ao_created_at = now\<rparr> s)"

text \<open>\<open>create_smart\<close>: a VWAP order with a slice count and a window chosen by the urgency.\<close>

definition smart_slices :: "'d decimal \<Rightarrow> 'd \<Rightarrow> u32" where
  "smart_slices D urgency =
     (if d_less D (d_of D (7 / 10)) urgency then 3 else if d_less D (d_of D (4 / 10)) urgency then 6 else 12)"

definition smart_window :: "'d decimal \<Rightarrow> 'd \<Rightarrow> u64" where
  "smart_window D urgency =
     (if d_less D (d_of D (7 / 10)) urgency then 60 else if d_less D (d_of D (4 / 10)) urgency then 300 else 900)"

definition create_smart ::
  "'d exec_env \<Rightarrow> uuid \<Rightarrow> datetime \<Rightarrow> market_id \<Rightarrow> side \<Rightarrow> u64 \<Rightarrow> 'd \<Rightarrow>
     'd execution \<Rightarrow> 'd execution \<times> string run" where
  "create_smart env i now m side quantity urgency s =
     create_vwap env i now m side quantity (smart_window (xe_decimal env) urgency)
       (smart_slices (xe_decimal env) urgency) s"

section \<open>Reading, cancelling, volumes\<close>

definition get_algo_order :: "string \<Rightarrow> 'd execution \<Rightarrow> 'd execution \<times> algo_order option run" where
  "get_algo_order i s =
     (case lock_read (ex_orders_lock s) of None \<Rightarrow> (s, Inl Blocked) | Some _ \<Rightarrow> (s, Inr (ex_orders s i)))"

definition cancel_algo_order :: "string \<Rightarrow> 'd execution \<Rightarrow> 'd execution \<times> bool run" where
  "cancel_algo_order i s =
     (case lock_write (ex_orders_lock s) of
        None \<Rightarrow> (s, Inl Blocked)
      | Some _ \<Rightarrow>
          (case ex_orders s i of
             None \<Rightarrow> (s, Inr False)
           | Some a \<Rightarrow> (s\<lparr>ex_orders := (ex_orders s)(i \<mapsto> a\<lparr>ao_status := AlgoCancelled\<rparr>)\<rparr>, Inr True)))"

text \<open>The totals and the counts of the recent volumes of one hour, and the weight of an hour.\<close>

definition hour_total :: "(datetime \<times> u64) list \<Rightarrow> nat \<Rightarrow> u64" where
  "hour_total vs h = sum_list (map snd (filter (\<lambda>v. hour_of (fst v) = h) vs))"

definition hour_count :: "(datetime \<times> u64) list \<Rightarrow> nat \<Rightarrow> nat" where
  "hour_count vs h = length (filter (\<lambda>v. hour_of (fst v) = h) vs)"

definition d_clamp :: "'d decimal \<Rightarrow> 'd \<Rightarrow> 'd \<Rightarrow> 'd \<Rightarrow> 'd" where
  "d_clamp D lo hi x = (if d_less D x lo then lo else if d_less D hi x then hi else x)"

definition hour_weight :: "'d decimal \<Rightarrow> (datetime \<times> u64) list \<Rightarrow> nat \<Rightarrow> 'd \<Rightarrow> 'd option" where
  "hour_weight D vs h old =
     (if hour_count vs h = 0 then Some old
      else do {
        avg \<leftarrow> d_div D (d_from D (hour_total vs h)) (d_of D (of_nat (hour_count vs h)));
        total_avg \<leftarrow> d_div D (d_from D (sum_list (map (hour_total vs) [0..<24])))
                           (d_of D (of_nat (max 1 (sum_list (map (hour_count vs) [0..<24])))));
        if d_less D (d_of D 0) total_avg
        then do { q \<leftarrow> d_div D avg total_avg; Some (d_clamp D (d_of D (5 / 10)) (d_of D 2) q) }
        else Some old })"

text \<open>The loop over the hours; a panic keeps the weights already written.\<close>

fun write_weights :: "'d decimal \<Rightarrow> (datetime \<times> u64) list \<Rightarrow> nat list \<Rightarrow> 'd list \<Rightarrow> 'd list \<times> unit run" where
  "write_weights D vs [] ws = (ws, Inr ())"
| "write_weights D vs (h # hs) ws =
     (case hour_weight D vs h (ws ! h) of
        None \<Rightarrow> (ws, Inl Panic)
      | Some w \<Rightarrow> write_weights D vs hs (ws[h := w]))"

definition new_profile :: "'d decimal \<Rightarrow> 'd volume_profile option" where
  "new_profile D = do {
     w \<leftarrow> d_div D (d_of D 1) (d_of D 24);
     Some \<lparr>vp_hour_weights = replicate 24 w, vp_recent_volumes = []\<rparr> }"

definition update_volume ::
  "'d decimal \<Rightarrow> datetime \<Rightarrow> market_id \<Rightarrow> u64 \<Rightarrow> 'd execution \<Rightarrow> 'd execution \<times> unit run" where
  "update_volume D now m volume s =
     (case lock_write (ex_profiles_lock s) of
        None \<Rightarrow> (s, Inl Blocked)
      | Some _ \<Rightarrow>
          (case (case ex_profiles s m of None \<Rightarrow> new_profile D | Some p \<Rightarrow> Some p) of
             None \<Rightarrow> (s, Inl Panic)
           | Some p \<Rightarrow>
               (let vs = push_window 1000 (now, volume) (vp_recent_volumes p) in
                case write_weights D vs [0..<24] (vp_hour_weights p) of
                  (ws, r) \<Rightarrow>
                    (s\<lparr>ex_profiles := (ex_profiles s)(m \<mapsto>
                        \<lparr>vp_hour_weights = ws, vp_recent_volumes = vs\<rparr>)\<rparr>, r))))"

section \<open>The executor\<close>

text \<open>\<open>pre_flight_check\<close>: \<open>None\<close> is a panic of a division.\<close>

definition pre_flight_check :: "'d decimal \<Rightarrow> order_request \<Rightarrow> unit app_result option" where
  "pre_flight_check D req = do {
     price \<leftarrow> price_to_decimal D (case req_price req of None \<Rightarrow> Price 0 | Some p \<Rightarrow> p);
     if req_kind req = LimitOrder
     then (case req_price req of
             None \<Rightarrow> Some (Inl (Validation [Lit ''Limit order must have price'']))
           | Some p \<Rightarrow> do {
               expected \<leftarrow> price_to_decimal D p;
               diff \<leftarrow> d_sub D price expected;
               slippage \<leftarrow> d_div D (d_abs D diff) expected;
               Some (if d_less D (d_of D (5 / 1000)) slippage then Inl SlippageExceeded else Inr ()) })
     else Some (Inr ()) }"

definition child_request :: "'d exec_env \<Rightarrow> algo_order \<Rightarrow> child_order \<Rightarrow> order_request" where
  "child_request env a c =
     \<lparr>req_market_id = MarketId (case xe_uuid_parse env (ao_market_id a) of None \<Rightarrow> 0 | Some u \<Rightarrow> u),
      req_side = ao_side a, req_kind = (if co_price c \<noteq> None then LimitOrder else MarketOrder),
      req_price = map_option Price (co_price c), req_quantity = Quantity (co_quantity c)\<rparr>"

text \<open>
  The loop over the children of an order. \<open>sends\<close> are the coming answers of the order channel (\<open>Sent\<close> when
  the list is used up); the requests it takes are returned, and how the loop was stopped, if it was.
\<close>

fun tick_children ::
  "'d exec_env \<Rightarrow> bool \<Rightarrow> datetime \<Rightarrow> algo_order \<Rightarrow> send_outcome list \<Rightarrow> child_order list \<Rightarrow>
     child_order list \<times> order_request list \<times> send_outcome list \<times> halt option" where
  "tick_children env simulation now a sends [] = ([], [], sends, None)"
| "tick_children env simulation now a sends (c # cs) =
     (let continue = (\<lambda>c' sent sends'.
            case tick_children env simulation now a sends' cs of
              (cs', reqs, rest, h) \<Rightarrow> (c' # cs', sent @ reqs, rest, h))
      in
      if co_status c \<noteq> ChildPending \<or> now < co_scheduled_time c then continue c [] sends
      else
        (let req = child_request env a c in
         case pre_flight_check (xe_decimal env) req of
           None \<Rightarrow> (c # cs, [], sends, Some Panic)
         | Some (Inl e) \<Rightarrow> continue (c\<lparr>co_status := ChildFailed\<rparr>) [] sends
         | Some (Inr _) \<Rightarrow>
             if simulation then continue (c\<lparr>co_status := ChildSubmitted\<rparr>) [] sends
             else
               (case (case sends of [] \<Rightarrow> Sent | x # _ \<Rightarrow> x) of
                  Closed \<Rightarrow> continue (c\<lparr>co_status := ChildFailed\<rparr>) [] (tl sends)
                | Waits \<Rightarrow> (c # cs, [], tl sends, Some Blocked)
                | Sent \<Rightarrow> continue (c\<lparr>co_status := ChildSubmitted\<rparr>) [req] (tl sends))))"

definition tick_order ::
  "'d exec_env \<Rightarrow> bool \<Rightarrow> datetime \<Rightarrow> send_outcome list \<Rightarrow> algo_order \<Rightarrow>
     algo_order \<times> order_request list \<times> send_outcome list \<times> halt option" where
  "tick_order env simulation now sends a =
     (if ao_status a \<noteq> AlgoRunning \<and> ao_status a \<noteq> AlgoPending then (a, [], sends, None)
      else
        (let a1 = a\<lparr>ao_status := AlgoRunning\<rparr> in
         case tick_children env simulation now a1 sends (ao_child_orders a1) of
           (cs, reqs, rest, h) \<Rightarrow>
             (let a2 = a1\<lparr>ao_child_orders := cs\<rparr> in
              (if h = None \<and> (\<forall>c\<in>set cs. co_status c = ChildFilled) then a2\<lparr>ao_status := AlgoComplete\<rparr> else a2,
               reqs, rest, h))))"

fun tick_orders ::
  "'d exec_env \<Rightarrow> bool \<Rightarrow> datetime \<Rightarrow> string list \<Rightarrow> send_outcome list \<Rightarrow> (string \<Rightarrow> algo_order option) \<Rightarrow>
     (string \<Rightarrow> algo_order option) \<times> order_request list \<times> halt option" where
  "tick_orders env simulation now [] sends m = (m, [], None)"
| "tick_orders env simulation now (i # is) sends m =
     (case m i of
        None \<Rightarrow> tick_orders env simulation now is sends m
      | Some a \<Rightarrow>
          (case tick_order env simulation now sends a of
             (a', reqs, rest, Some h) \<Rightarrow> (m(i \<mapsto> a'), reqs, Some h)
           | (a', reqs, rest, None) \<Rightarrow>
               (case tick_orders env simulation now is rest (m(i \<mapsto> a')) of
                  (m', reqs', h) \<Rightarrow> (m', reqs @ reqs', h))))"

text \<open>One round of the task: the requests it sent, and whether it ended. A panic ends the task, a wait keeps the lock.\<close>

definition executor_tick ::
  "'d exec_env \<Rightarrow> datetime \<Rightarrow> string list \<Rightarrow> send_outcome list \<Rightarrow> 'd execution \<Rightarrow>
     'd execution \<times> order_request list \<times> unit run" where
  "executor_tick env now hash_order sends s =
     (case lock_write (ex_orders_lock s) of
        None \<Rightarrow> (s, [], Inl Blocked)
      | Some l \<Rightarrow>
          (case tick_orders env (ex_simulation s) now hash_order sends (ex_orders s) of
             (m, reqs, None) \<Rightarrow> (s\<lparr>ex_orders := m\<rparr>, reqs, Inr ())
           | (m, reqs, Some Panic) \<Rightarrow> (s\<lparr>ex_orders := m\<rparr>, reqs, Inl Panic)
           | (m, reqs, Some Blocked) \<Rightarrow> (s\<lparr>ex_orders := m, ex_orders_lock := l\<rparr>, reqs, Inl Blocked)))"

text \<open>\<open>run_executor\<close> drops the receiver of the channel without reading from it, then starts the task.\<close>

definition run_executor :: "'d execution \<Rightarrow> 'd execution" where
  "run_executor s = s\<lparr>ex_channel := (ex_channel s)\<lparr>ch_queue := [], ch_open := False\<rparr>\<rparr>"

section \<open>TWAP orders\<close>

lemma those_map_Some: "those (map f xs) = Some ys \<longleftrightarrow> map f xs = map Some ys"
proof (induction xs arbitrary: ys)
  case (Cons x xs)
  then show ?case by (cases ys) (auto split: option.splits)
qed auto

lemma those_map_nth:
  assumes "those (map f xs) = Some ys"
  shows "length ys = length xs" and "n < length xs \<Longrightarrow> f (xs ! n) = Some (ys ! n)"
proof -
  from assms have eq: "map f xs = map Some ys" by (simp add: those_map_Some)
  then show len: "length ys = length xs" using map_eq_imp_length_eq by metis
  show "f (xs ! n) = Some (ys ! n)" if "n < length xs"
    using that len arg_cong [OF eq, of "\<lambda>l. l ! n"] by simp
qed

lemma those_map_total:
  assumes "\<And>x. x \<in> set xs \<Longrightarrow> f x = Some (g x)"
  shows "those (map f xs) = Some (map g xs)"
  using assms by (simp add: those_map_Some)

lemma unat_ucast_32 [simp]: "unat (ucast (w :: u32) :: u64) = unat w"
  using unat_bound [of w] by (simp add: unsigned_ucast_eq take_bit_nat_eq_self)

lemma unat_word_of_nat: "n < 2 ^ LENGTH('w) \<Longrightarrow> unat (word_of_nat n :: 'w::len word) = n"
  by (simp add: unsigned_of_nat take_bit_nat_eq_self)

lemma unat_of_index: "n < unat (k :: u32) \<Longrightarrow> unat (word_of_nat n :: u32) = n"
  using unat_bound [of k] by (intro unat_word_of_nat) simp

lemma of_index_last:
  assumes "n < unat (k :: u32)"
  shows "word_of_nat n = k - 1 \<longleftrightarrow> n = unat k - 1"
proof -
  from assms have "k \<noteq> 0" by auto
  then have "unat (k - 1) = unat k - 1" by (rule unat_minus_one)
  then show ?thesis using unat_of_index [OF assms] by (auto simp: word_unat_eq_iff)
qed

text \<open>The quantities and the distances of the slices, as natural numbers.\<close>

lemma twap_child_eq:
  fixes slices :: u32
  assumes "n < unat slices"
  shows "twap_child env now quantity window slices target n = map_option
     (\<lambda>t. \<lparr>co_sequence = word_of_nat n,
           co_quantity = (if n = unat slices - 1 then quantity div ucast slices + quantity mod ucast slices
                          else quantity div ucast slices),
           co_price = target, co_scheduled_time = t, co_status = ChildPending\<rparr>)
     (later_by (xe_date_ok env) now (word_of_nat (n * (unat window div unat slices))))"
proof -
  have "ucast (word_of_nat n :: u32) * (window div ucast slices) = (word_of_nat (n * (unat window div unat slices)) :: u64)"
  proof -
    have "n < 2 ^ 64" using assms unat_bound [of slices] by simp
    then have "ucast (word_of_nat n :: u32) = (word_of_nat n :: u64)"
      using unat_of_index [OF assms] by (simp add: word_unat_eq_iff unat_word_of_nat)
    moreover have "unat window div unat slices < 2 ^ 64"
      by (rule le_less_trans [OF div_le_dividend]) (use unat_bound [of window] in simp)
    then have "window div ucast slices = (word_of_nat (unat window div unat slices) :: u64)"
      by (simp add: word_unat_eq_iff unat_div unat_word_of_nat)
    ultimately show ?thesis by simp
  qed
  then show ?thesis by (simp add: twap_child_def Let_def of_index_last [OF assms])
qed

lemma sum_slices:
  fixes q :: nat
  assumes "0 < n"
  shows "(\<Sum>i\<leftarrow>[0..<n]. if i = n - 1 then q div n + q mod n else q div n) = q"
proof -
  from assms obtain m where n: "n = Suc m" by (cases n) auto
  have "(\<Sum>i\<leftarrow>[0..<m]. if i = m then q div n + q mod n else q div n) = (\<Sum>i\<leftarrow>[0..<m]. q div n)"
    by (rule arg_cong [where f = sum_list], rule map_cong) auto
  moreover have "Suc m * (q div Suc m) + q mod Suc m = q" by (rule mult_div_mod_eq)
  ultimately show ?thesis by (simp add: n sum_list_triv)
qed

text \<open>The child orders of a TWAP order whose window stays within what dates represent.\<close>

definition twap_slice :: "datetime \<Rightarrow> nat \<Rightarrow> nat \<Rightarrow> nat \<Rightarrow> u32 option \<Rightarrow> nat \<Rightarrow> child_order" where
  "twap_slice now q w k target n =
     \<lparr>co_sequence = word_of_nat n, co_quantity = word_of_nat (if n = k - 1 then q div k + q mod k else q div k),
      co_price = target, co_scheduled_time = now + int (n * (w div k)) * 1000000000, co_status = ChildPending\<rparr>"

definition dates_until :: "(datetime \<Rightarrow> bool) \<Rightarrow> datetime \<Rightarrow> u64 \<Rightarrow> bool" where
  "dates_until ok now window \<longleftrightarrow> unat window \<le> 9223372036854775 \<and>
     (\<forall>t. now \<le> t \<and> t \<le> now + int (unat window) * 1000000000 \<longrightarrow> ok t)"

lemma later_within:
  assumes "dates_until ok now window" and "k \<le> unat window"
  shows "later_by ok now (word_of_nat k) = Some (now + int k * 1000000000)"
proof -
  from assms have k: "k \<le> 9223372036854775" by (simp add: dates_until_def)
  then have "unat (word_of_nat k :: u64) = k" by (simp add: unat_word_of_nat)
  then have "sint (word_of_nat k :: i64) = int k" using k sint_eq_unat [of "word_of_nat k"] by simp
  moreover have "ok (now + int k * 1000000000)"
  proof -
    have "int k \<le> int (unat window)" using assms(2) by (simp only: of_nat_le_iff)
    then have "int k * 1000000000 \<le> int (unat window) * 1000000000" by (rule mult_right_mono) simp
    then show ?thesis using assms(1) unfolding dates_until_def by simp
  qed
  ultimately show ?thesis using k by (simp add: later_by_def Let_def)
qed

lemma twap_children_eq:
  assumes "slices \<noteq> 0" and "dates_until (xe_date_ok env) now window"
  shows "twap_children env now quantity window slices target =
    Some (map (twap_slice now (unat quantity) (unat window) (unat slices) target) [0..<unat slices])"
proof -
  have "twap_child env now quantity window slices target n =
    Some (twap_slice now (unat quantity) (unat window) (unat slices) target n)" if n: "n < unat slices" for n
  proof -
    have "n * (unat window div unat slices) \<le> unat slices * (unat window div unat slices)" using n by simp
    also have "\<dots> \<le> unat window" by (rule times_div_less_eq_dividend)
    finally have "later_by (xe_date_ok env) now (word_of_nat (n * (unat window div unat slices))) =
      Some (now + int (n * (unat window div unat slices)) * 1000000000)" by (rule later_within [OF assms(2)])
    moreover have "quantity div ucast slices = word_of_nat (unat quantity div unat slices)"
      "quantity mod ucast slices = word_of_nat (unat quantity mod unat slices)"
      by (simp_all add: word_unat_eq_iff unat_div unat_mod unsigned_of_nat take_bit_nat_eq_self
            le_less_trans [OF div_le_dividend unat_bound [of quantity, simplified]]
            le_less_trans [OF mod_less_eq_dividend unat_bound [of quantity, simplified]])
    ultimately show ?thesis by (simp add: twap_child_eq [OF n] twap_slice_def)
  qed
  then have "those (map (twap_child env now quantity window slices target) [0..<unat slices]) =
    Some (map (twap_slice now (unat quantity) (unat window) (unat slices) target) [0..<unat slices])"
    by (intro those_map_total) simp
  then show ?thesis using assms(1) by (simp add: twap_children_def)
qed

lemma store_order_returns:
  assumes "ex_orders_lock s = Free" and "ch_open (ex_channel s) \<longrightarrow> length (ch_queue (ex_channel s)) < ch_capacity (ex_channel s)"
  shows "\<exists>s'. store_order a s = (s', Inr (ao_id a)) \<and> ex_orders s' = (ex_orders s)(ao_id a \<mapsto> a) \<and>
    ex_orders_lock s' = Free \<and> ex_profiles s' = ex_profiles s \<and> ex_profiles_lock s' = ex_profiles_lock s"
  using assms by (auto simp: store_order_def channel_send_def Let_def not_le)

text \<open>
  A TWAP order is cut into exactly the requested number of child orders, whose quantities add up to the
  whole quantity; child \<open>n\<close> is due \<open>n\<close> times the rounded interval after now, the last one carries the
  remainder, all are pending at the target price; the call returns and stores the order. This holds when
  there is a slice, the window stays within the dates, the lock is free and the channel has room.
\<close>
theorem twap_covers_quantity:
  assumes "slices \<noteq> 0" and "dates_until (xe_date_ok env) now window" and "ex_orders_lock s = Free"
    and "ch_open (ex_channel s) \<longrightarrow> length (ch_queue (ex_channel s)) < ch_capacity (ex_channel s)"
  shows "\<exists>s' a. create_twap env i now m side quantity window slices target s = (s', Inr (xe_uuid_show env i)) \<and>
    ex_orders s' (xe_uuid_show env i) = Some a \<and> (\<forall>j. j \<noteq> xe_uuid_show env i \<longrightarrow> ex_orders s' j = ex_orders s j) \<and>
    ex_orders_lock s' = Free \<and> ao_status a = AlgoPending \<and>
    length (ao_child_orders a) = unat slices \<and>
    sum_list (map (\<lambda>c. unat (co_quantity c)) (ao_child_orders a)) = unat quantity \<and>
    (\<forall>n < unat slices. ao_child_orders a ! n = twap_slice now (unat quantity) (unat window) (unat slices) target n)"
proof -
  let ?k = "unat slices" and ?q = "unat quantity"
  let ?cs = "map (twap_slice now ?q (unat window) ?k target) [0..<?k]"
  have k: "0 < ?k" using assms(1) by (simp add: unat_gt_0)
  have "unat (word_of_nat (if n = ?k - 1 then ?q div ?k + ?q mod ?k else ?q div ?k) :: u64) =
      (if n = ?k - 1 then ?q div ?k + ?q mod ?k else ?q div ?k)" for n
  proof (rule unat_word_of_nat)
    have "?q div ?k \<le> ?k * (?q div ?k)" using k by simp
    then have "?q div ?k + ?q mod ?k \<le> ?q" using mult_div_mod_eq [of ?k ?q] by linarith
    then show "(if n = ?k - 1 then ?q div ?k + ?q mod ?k else ?q div ?k) < 2 ^ LENGTH(64)"
      using unat_bound [of quantity] by auto
  qed
  then have "map (\<lambda>c. unat (co_quantity c)) ?cs =
      map (\<lambda>n. if n = ?k - 1 then ?q div ?k + ?q mod ?k else ?q div ?k) [0..<?k]"
    by (simp add: twap_slice_def)
  then have "sum_list (map (\<lambda>c. unat (co_quantity c)) ?cs) = ?q" by (simp only: sum_slices [OF k])
  moreover obtain s' where "create_twap env i now m side quantity window slices target s = (s', Inr (xe_uuid_show env i))"
    and "ex_orders s' = (ex_orders s)(xe_uuid_show env i \<mapsto>
       \<lparr>ao_id = xe_uuid_show env i, ao_market_id = xe_uuid_show env (market_uuid m), ao_side = side,
        ao_total_quantity = quantity, ao_filled_quantity = 0, ao_strategy = TWAP, ao_target_price = target,
        ao_time_window_secs = window, ao_slice_count = slices, ao_child_orders = ?cs,
        ao_status = AlgoPending, ao_created_at = now\<rparr>)" and "ex_orders_lock s' = Free"
    using store_order_returns [OF assms(3,4)] unfolding create_twap_def twap_children_eq [OF assms(1,2)]
    by (metis (no_types, lifting) algo_order.select_convs(1) option.simps(5))
  ultimately show ?thesis by simp
qed

definition sample_exec :: "rat exec_env" where
  "sample_exec = \<lparr>xe_decimal = rat_decimal, xe_uuid_show = (\<lambda>u. ''id''), xe_uuid_parse = (\<lambda>t. None),
     xe_date_ok = (\<lambda>t. \<bar>t\<bar> < 10 ^ 22)\<rparr>"

lemma twap_covers_quantity_witness:
  "\<exists>s' a. create_twap sample_exec 7 0 (MarketId 1) Buy 100 60 3 (Some 6500) (execution_new False) = (s', Inr ''id'') \<and>
     ex_orders s' ''id'' = Some a \<and> length (ao_child_orders a) = 3 \<and>
     ao_child_orders a ! 2 = twap_slice 0 100 60 3 (Some 6500) 2"
proof -
  have d: "dates_until (xe_date_ok sample_exec) 0 60" by (simp add: dates_until_def sample_exec_def)
  from twap_covers_quantity [OF _ d, of 3 "execution_new False" 7 "MarketId 1" Buy 100 "Some 6500"]
  show ?thesis by (auto simp: execution_new_def sample_exec_def)
qed

section \<open>Iceberg and VWAP orders\<close>

lemma iceberg_children_sum:
  "sum_list (map (\<lambda>c. unat (co_quantity c)) (iceberg_children now visible price n i r)) = min (unat r) (n * unat visible)"
proof (induction n arbitrary: i r)
  case (Suc n)
  have "unat (r - min visible r) = unat r - unat (min visible r)"
    by (rule unat_sub) (simp add: min_def)
  moreover have "unat (min visible r) = min (unat visible) (unat r)"
    by (simp add: min_def word_le_nat_alt)
  ultimately show ?case using Suc [of "i + 1" "r - min visible r"] by (simp add: Let_def) arith
qed simp

lemma iceberg_children_shape:
  "length (iceberg_children now visible price n i r) = n"
  "c \<in> set (iceberg_children now visible price n i r) \<Longrightarrow>
     co_quantity c \<le> visible \<and> co_price c = Some price \<and> co_status c = ChildPending"
  by (induction n arbitrary: i r) (auto simp: Let_def)

lemma iceberg_slices_value:
  assumes laws: "decimal_laws D val" and "visible \<noteq> 0"
    and rep: "representable (of_int (uint amount) / of_int (uint visible))"
  shows "iceberg_slices D amount visible =
    Some (let k = \<lceil>of_int (uint amount) / of_int (uint visible) :: rat\<rceil> in if k < 2 ^ 32 then word_of_int k else 1)"
proof -
  have v: "val (d_from D amount) = of_int (uint amount)" "val (d_from D visible) = of_int (uint visible)"
    by (rule d_from_value [OF laws], simp)+
  have "uint visible \<noteq> 0" using assms(2) by (simp add: uint_0_iff)
  then obtain x where x: "d_div D (d_from D amount) (d_from D visible) = Some x"
    "val x = of_int (uint amount) / of_int (uint visible)"
    using law_div [OF laws, of "d_from D visible" "d_from D amount"] rep by (auto simp: v simp del: of_int_uint)
  let ?k = "\<lceil>of_int (uint amount) / of_int (uint visible) :: rat\<rceil>"
  have "val (d_ceil D x) = of_int ?k" using laws x(2) by (simp add: decimal_laws_def)
  from law_to_u32 [OF laws this] have u: "d_to_u32 D (d_ceil D x) = (if 0 \<le> ?k \<and> ?k < 2 ^ 32 then Some (word_of_int ?k) else None)" .
  have "(0 :: rat) \<le> of_int (uint amount) / of_int (uint visible)" by (intro divide_nonneg_nonneg) (simp_all del: of_int_uint)
  then have "0 \<le> ?k" by linarith
  with u show ?thesis by (simp add: iceberg_slices_def x(1) Let_def)
qed

text \<open>
  An iceberg order whose number of slices fits 32 bits covers the whole quantity with children of at most
  the visible quantity. With more slices the count falls back to one, and all but one visible
  quantity of the order is dropped.
\<close>
theorem iceberg_covers_quantity:
  assumes laws: "decimal_laws D val" and "visible \<noteq> 0"
    and "representable (of_int (uint amount) / of_int (uint visible))"
  shows "\<exists>slices. iceberg_slices D amount visible = Some slices \<and>
    (let cs = iceberg_children now visible price (unat slices) 0 amount;
         k = \<lceil>of_int (uint amount) / of_int (uint visible) :: rat\<rceil>
     in (k < 2 ^ 32 \<longrightarrow> int (length cs) = k \<and> sum_list (map (\<lambda>c. unat (co_quantity c)) cs) = unat amount) \<and>
        (2 ^ 32 \<le> k \<longrightarrow> length cs = 1 \<and> sum_list (map (\<lambda>c. unat (co_quantity c)) cs) = unat visible))"
proof -
  let ?r = "of_int (uint amount) / of_int (uint visible) :: rat"
  let ?k = "\<lceil>?r\<rceil>"
  have v: "0 < uint visible" using assms(2) uint_ge_0 [of visible] by (simp add: uint_0_iff less_le)
  have "(0 :: rat) \<le> ?r" by (intro divide_nonneg_nonneg) (simp_all del: of_int_uint)
  then have k0: "0 \<le> ?k" by linarith
  have r: "?r * of_int (uint visible) = of_int (uint amount)" using v by (simp del: of_int_uint)
  have "?r \<le> of_int ?k" by (rule le_of_int_ceiling)
  then have "?r * of_int (uint visible) \<le> of_int ?k * of_int (uint visible)"
    by (rule mult_right_mono) (use v in \<open>simp del: of_int_uint\<close>)
  then have "uint amount \<le> ?k * uint visible" unfolding r by (simp only: of_int_mult [symmetric] of_int_le_iff)
  then have up: "unat amount \<le> nat ?k * unat visible"
    unfolding unat_eq_nat_uint nat_mult_distrib [OF k0, symmetric] by (rule nat_mono)
  have one: "unat visible \<le> unat amount" if "2 ^ 32 \<le> ?k"
  proof -
    have "1 < ?k" using that by simp
    then have "of_int 1 < ?r" by (simp only: less_ceiling_iff)
    then have "1 \<le> ?r" by (simp only: of_int_1 less_imp_le)
    then have "1 * of_int (uint visible) \<le> ?r * of_int (uint visible)"
      by (rule mult_right_mono) (use v in \<open>simp del: of_int_uint\<close>)
    then have "uint visible \<le> uint amount" unfolding r by (simp del: of_int_uint)
    then show ?thesis unfolding unat_eq_nat_uint by (rule nat_mono)
  qed
  define k where "k = ?k"
  have w: "uint (word_of_int z :: u32) = z" if "0 \<le> z" "z < 2 ^ 32" for z
    using that by (simp add: uint_word_of_int)
  have u: "unat (word_of_int k :: u32) = nat k" if "k < 2 ^ 32"
    unfolding unat_eq_nat_uint using w [OF k0 that [unfolded k_def]] by (simp only: k_def)
  have sl: "iceberg_slices D amount visible = Some (if k < 2 ^ 32 then word_of_int k else 1)"
    using iceberg_slices_value [OF assms] by (simp only: k_def Let_def)
  show ?thesis
    unfolding Let_def k_def [symmetric] iceberg_children_sum iceberg_children_shape(1)
    using up one k0 u w [of k] unfolding k_def [symmetric] by (cases "k < 2 ^ 32") (auto simp: sl min_def)
qed

text \<open>
  Whatever the weights are, the child quantities of a VWAP order add up, as 64-bit words, to the quantity
  of the order: the last child takes what the others left.
\<close>
theorem vwap_covers_quantity:
  assumes "vwap_children env profile now quantity window slices = Some cs"
  shows "sum_list (map co_quantity cs) = quantity \<and> cs \<noteq> [] \<and> co_sequence (last cs) = slices - 1 \<and>
    later_by (xe_date_ok env) now window = Some (co_scheduled_time (last cs)) \<and>
    (\<forall>c\<in>set cs. co_price c = None \<and> co_status c = ChildPending)"
proof -
  from assms obtain ns n bs t where
    bs: "those (map (\<lambda>(n, w). vwap_child env now quantity window slices n w) (take n (enumerate 0 ns))) = Some bs"
    and t: "later_by (xe_date_ok env) now window = Some t"
    and cs: "cs = bs @ [\<lparr>co_sequence = slices - 1, co_quantity = quantity - sum_list (map co_quantity bs),
                  co_price = None, co_scheduled_time = t, co_status = ChildPending\<rparr>]"
    unfolding vwap_children_def by (auto simp: bind_eq_Some_conv)
  have "co_price c = None \<and> co_status c = ChildPending" if "c \<in> set bs" for c
  proof -
    from bs have "map (\<lambda>(n, w). vwap_child env now quantity window slices n w) (take n (enumerate 0 ns)) = map Some bs"
      by (simp only: those_map_Some)
    then have "Some c \<in> (\<lambda>(n, w). vwap_child env now quantity window slices n w) ` set (take n (enumerate 0 ns))"
      using that by (metis (no_types, lifting) image_eqI list.set_map)
    then obtain a b where "vwap_child env now quantity window slices a b = Some c" by (auto dest: sym)
    then show ?thesis by (auto simp: vwap_child_def bind_eq_Some_conv)
  qed
  with cs t show ?thesis by auto
qed

section \<open>The life of an order\<close>

text \<open>The child orders before and after: only the status changes, and only from pending to submitted or failed.\<close>

definition child_moved :: "child_order \<Rightarrow> child_order \<Rightarrow> bool" where
  "child_moved c c' \<longleftrightarrow>
     c' = c \<or> (co_status c = ChildPending \<and>
               (c' = c\<lparr>co_status := ChildSubmitted\<rparr> \<or> c' = c\<lparr>co_status := ChildFailed\<rparr>))"

definition newly_submitted :: "child_order \<times> child_order \<Rightarrow> bool" where
  "newly_submitted p \<longleftrightarrow> co_status (fst p) = ChildPending \<and> co_status (snd p) = ChildSubmitted"

definition requests_between ::
  "'d exec_env \<Rightarrow> bool \<Rightarrow> algo_order \<Rightarrow> child_order list \<Rightarrow> child_order list \<Rightarrow> order_request list" where
  "requests_between env simulation a cs cs' =
     (if simulation then [] else map (\<lambda>p. child_request env a (fst p)) (filter newly_submitted (zip cs cs')))"

lemma child_moved_refl [simp]: "child_moved c c"
  by (simp add: child_moved_def)

lemma child_moved_now [simp]:
  "co_status c = ChildPending \<Longrightarrow> child_moved c (c\<lparr>co_status := ChildSubmitted\<rparr>)"
  "co_status c = ChildPending \<Longrightarrow> child_moved c (c\<lparr>co_status := ChildFailed\<rparr>)"
  by (simp_all add: child_moved_def)

lemma child_moved_trans: "child_moved a b \<Longrightarrow> child_moved b c \<Longrightarrow> child_moved a c"
  by (auto simp: child_moved_def)

lemma newly_submitted_refl [simp]: "\<not> newly_submitted (c, c)"
  by (simp add: newly_submitted_def)

lemma requests_refl [simp]: "requests_between env simulation a cs cs = []"
  by (induction cs) (auto simp: requests_between_def)

lemma requests_Cons:
  "requests_between env simulation a (c # cs) (c' # cs') =
     (if \<not> simulation \<and> newly_submitted (c, c') then [child_request env a c] else []) @
     requests_between env simulation a cs cs'"
  by (simp add: requests_between_def)

lemma tick_children_moves:
  "tick_children env simulation now a sends cs = (cs', reqs, rest, h) \<Longrightarrow>
     list_all2 child_moved cs cs' \<and> reqs = requests_between env simulation a cs cs'"
proof (induction cs arbitrary: simulation sends cs' reqs rest h)
  case Nil
  then show ?case by (auto simp: requests_between_def)
next
  case (Cons c cs)
  have ih: "list_all2 child_moved cs ds \<and> rs = requests_between env b a cs ds"
    if "tick_children env b now a s cs = (ds, rs, r, k)" for b s ds rs r k
    using Cons.IH [OF that] .
  have refl: "list_all2 child_moved cs cs" by (simp add: list_all2_refl)
  show ?case
    using Cons.prems refl
    by (auto dest!: ih simp: Let_def requests_Cons newly_submitted_def
        split: if_splits option.splits sum.splits send_outcome.splits prod.splits)
qed

lemma child_request_status [simp]: "child_request env (a\<lparr>ao_status := s\<rparr>) c = child_request env a c"
  by (simp add: child_request_def)

lemma requests_status [simp]:
  "requests_between env simulation (a\<lparr>ao_status := s\<rparr>) cs cs' = requests_between env simulation a cs cs'"
  by (simp add: requests_between_def)

text \<open>One order under ticks of the executor, whatever the clock and the channel say, and cancellations.\<close>

inductive algo_step ::
  "'d exec_env \<Rightarrow> bool \<Rightarrow> algo_order \<times> order_request list \<Rightarrow> algo_order \<times> order_request list \<Rightarrow> bool"
  for env :: "'d exec_env" and simulation :: bool where
  tick: "tick_order env simulation now sends a = (a', reqs, rest, h) \<Longrightarrow>
    algo_step env simulation (a, sent) (a', sent @ reqs)"
| cancel: "algo_step env simulation (a, sent) (a\<lparr>ao_status := AlgoCancelled\<rparr>, sent)"

inductive_cases algo_stepE: "algo_step env simulation (a, sent) t"

text \<open>What every step keeps of the history since \<open>a0\<close>.\<close>

definition order_history ::
  "'d exec_env \<Rightarrow> bool \<Rightarrow> algo_order \<Rightarrow> algo_order \<times> order_request list \<Rightarrow> bool" where
  "order_history env simulation a0 s \<longleftrightarrow>
     list_all2 child_moved (ao_child_orders a0) (ao_child_orders (fst s)) \<and>
     ao_market_id (fst s) = ao_market_id a0 \<and> ao_side (fst s) = ao_side a0 \<and>
     mset (snd s) = mset (requests_between env simulation a0 (ao_child_orders a0) (ao_child_orders (fst s)))"

lemma requests_compose:
  "list_all2 child_moved cs ds \<Longrightarrow> list_all2 child_moved ds es \<Longrightarrow>
     mset (requests_between env simulation a cs es) =
     mset (requests_between env simulation a cs ds) + mset (requests_between env simulation a ds es)"
proof (induction cs ds arbitrary: es rule: list_all2_induct)
  case (Cons c cs d ds)
  then obtain e es' where es: "es = e # es'" and m: "child_moved d e" "list_all2 child_moved ds es'"
    by (auto simp: list_all2_Cons1)
  have "child_request env a d = child_request env a c"
    using Cons(1) by (auto simp: child_moved_def child_request_def)
  moreover have "newly_submitted (c, e) \<longleftrightarrow> newly_submitted (c, d) \<or> newly_submitted (d, e)"
    and "\<not> (newly_submitted (c, d) \<and> newly_submitted (d, e))"
    using Cons(1) m(1) by (auto simp: child_moved_def newly_submitted_def)
  ultimately show ?case using Cons(3) [OF m(2)] by (auto simp: es requests_Cons)
qed (simp add: requests_between_def)

lemma requests_same_order:
  "ao_market_id a = ao_market_id b \<Longrightarrow> ao_side a = ao_side b \<Longrightarrow>
     requests_between env simulation a cs ds = requests_between env simulation b cs ds"
  by (simp add: requests_between_def child_request_def)

lemma tick_order_moves:
  assumes "tick_order env simulation now sends a = (a', reqs, rest, h)"
  shows "list_all2 child_moved (ao_child_orders a) (ao_child_orders a') \<and> ao_market_id a' = ao_market_id a \<and>
    ao_side a' = ao_side a \<and> reqs = requests_between env simulation a (ao_child_orders a) (ao_child_orders a')"
proof (cases "ao_status a \<noteq> AlgoRunning \<and> ao_status a \<noteq> AlgoPending")
  case True
  with assms show ?thesis by (simp add: tick_order_def list_all2_refl)
next
  case False
  obtain cs rs r k where t: "tick_children env simulation now (a\<lparr>ao_status := AlgoRunning\<rparr>) sends (ao_child_orders a) = (cs, rs, r, k)"
    by (cases "tick_children env simulation now (a\<lparr>ao_status := AlgoRunning\<rparr>) sends (ao_child_orders a)") auto
  from tick_children_moves [OF t] assms False t show ?thesis
    by (auto simp: tick_order_def Let_def split: if_splits)
qed

interpretation algo: kept_by_steps "algo_step env simulation" "order_history env simulation a0"
  for env :: "'d exec_env" and simulation a0
proof
  fix s t
  assume h: "order_history env simulation a0 s" and st: "algo_step env simulation s t"
  from st show "order_history env simulation a0 t"
  proof cases
    case (tick now sends a a' reqs rest h' sent)
    from tick_order_moves [OF tick(3)]
    have m: "list_all2 child_moved (ao_child_orders a) (ao_child_orders a')" "ao_market_id a' = ao_market_id a"
      "ao_side a' = ao_side a" "reqs = requests_between env simulation a (ao_child_orders a) (ao_child_orders a')"
      by auto
    from h tick(1) have h1: "list_all2 child_moved (ao_child_orders a0) (ao_child_orders a)"
      and ids: "ao_market_id a = ao_market_id a0" "ao_side a = ao_side a0"
      and ms: "mset sent = mset (requests_between env simulation a0 (ao_child_orders a0) (ao_child_orders a))"
      by (auto simp: order_history_def)
    from requests_compose [OF h1 m(1), of env simulation a0]
    have "mset (sent @ reqs) = mset (requests_between env simulation a0 (ao_child_orders a0) (ao_child_orders a'))"
      using ms m(4) requests_same_order [OF ids, of env simulation] by simp
    moreover have "list_all2 child_moved (ao_child_orders a0) (ao_child_orders a')"
      by (rule list_all2_trans [OF child_moved_trans h1 m(1)])
    ultimately show ?thesis using tick(2) m(2,3) ids by (simp add: order_history_def)
  qed (use h in \<open>auto simp: order_history_def\<close>)
qed

lemma sum_requests_le:
  "sum_list (map (\<lambda>r. unat (quantity_raw (req_quantity r))) (requests_between env simulation a cs cs')) \<le>
     sum_list (map (\<lambda>c. unat (co_quantity c)) cs)"
proof (induction cs cs' rule: list_induct2')
  case (4 c cs c' cs')
  have "unat (quantity_raw (req_quantity (child_request env a c))) = unat (co_quantity c)"
    by (simp add: child_request_def)
  with 4 show ?case by (auto simp: requests_Cons)
qed (simp_all add: requests_between_def)

lemma cancelled_stays:
  assumes "(algo_step env simulation)\<^sup>*\<^sup>* s t" and "ao_status (fst s) = AlgoCancelled"
  shows "t = s"
  using assms(1)
proof (induction rule: rtranclp_induct)
  case (step t u)
  from step(2) show ?case
  proof cases
    case (tick now sends a a' reqs rest h sent)
    then show ?thesis using step(3) assms(2) by (auto simp: tick_order_def)
  next
    case (cancel a sent)
    then show ?thesis using step(3) assms(2) by (cases a) auto
  qed
qed simp

text \<open>
  Whatever the clock, the preflight check and the order channel do, and whenever the order is cancelled: the
  requests sent for an order are, as a multiset, those of its child orders that went from pending to
  submitted, one each, so that no more than the quantity of the children is ever sent; a child that
  failed or was submitted never changes again; and once the order is cancelled nothing more is sent.
\<close>
theorem children_sent_once:
  assumes "(algo_step env simulation)\<^sup>*\<^sup>* (a, []) (a1, sent1)"
    and "(algo_step env simulation)\<^sup>*\<^sup>* (a1\<lparr>ao_status := AlgoCancelled\<rparr>, sent1) (a2, sent2)"
  shows "list_all2 child_moved (ao_child_orders a) (ao_child_orders a1) \<and>
    mset sent1 = mset (requests_between env simulation a (ao_child_orders a) (ao_child_orders a1)) \<and>
    sum_list (map (\<lambda>r. unat (quantity_raw (req_quantity r))) sent1) \<le>
      sum_list (map (\<lambda>c. unat (co_quantity c)) (ao_child_orders a)) \<and>
    a2 = a1\<lparr>ao_status := AlgoCancelled\<rparr> \<and> sent2 = sent1"
proof -
  have "order_history env simulation a (a, [])" by (simp add: order_history_def list_all2_refl)
  from algo.run_keeps [OF assms(1) this]
  have h: "list_all2 child_moved (ao_child_orders a) (ao_child_orders a1)"
    "mset sent1 = mset (requests_between env simulation a (ao_child_orders a) (ao_child_orders a1))"
    by (auto simp: order_history_def)
  let ?q = "\<lambda>r. unat (quantity_raw (req_quantity r))"
  let ?rs = "requests_between env simulation a (ao_child_orders a) (ao_child_orders a1)"
  from h(2) have "sum_mset (image_mset ?q (mset sent1)) = sum_mset (image_mset ?q (mset ?rs))" by simp
  then have "sum_list (map ?q sent1) = sum_list (map ?q ?rs)"
    by (simp only: mset_map [symmetric] sum_mset_sum_list)
  also have "\<dots> \<le> sum_list (map (\<lambda>c. unat (co_quantity c)) (ao_child_orders a))" by (rule sum_requests_le)
  finally have q: "sum_list (map ?q sent1) \<le> sum_list (map (\<lambda>c. unat (co_quantity c)) (ao_child_orders a))" .
  from cancelled_stays [OF assms(2)] have "a2 = a1\<lparr>ao_status := AlgoCancelled\<rparr> \<and> sent2 = sent1" by simp
  with h q show ?thesis by (intro conjI) simp_all
qed

text \<open>
  Nothing ever marks a child as filled, so that no order with children is ever complete.
\<close>
theorem orders_never_complete:
  assumes "(algo_step env simulation)\<^sup>*\<^sup>* (a, []) (a', sent)" and "ao_child_orders a \<noteq> []"
    and "\<forall>c\<in>set (ao_child_orders a). co_status c \<noteq> ChildFilled" and "ao_status a \<noteq> AlgoComplete"
  shows "ao_status a' \<noteq> AlgoComplete \<and> ao_filled_quantity a' = ao_filled_quantity a"
proof -
  let ?P = "\<lambda>b. ao_child_orders b \<noteq> [] \<and> (\<forall>c\<in>set (ao_child_orders b). co_status c \<noteq> ChildFilled) \<and>
    ao_status b \<noteq> AlgoComplete \<and> ao_filled_quantity b = ao_filled_quantity a"
  have "?P (fst t)" if "(algo_step env simulation)\<^sup>*\<^sup>* (a, []) t" for t
    using that
  proof (induction rule: rtranclp_induct)
    case (step t u)
    from step(2) show ?case
    proof cases
      case (tick now sends b b' reqs rest h l)
      from tick_order_moves [OF tick(3)] have m: "list_all2 child_moved (ao_child_orders b) (ao_child_orders b')" by simp
      have P: "?P b" using step(3) tick(1) by simp
      have ne: "ao_child_orders b' \<noteq> []" using m P by auto
      have nf: "\<forall>c\<in>set (ao_child_orders b'). co_status c \<noteq> ChildFilled"
      proof
        fix c' assume "c' \<in> set (ao_child_orders b')"
        then obtain n where n: "n < length (ao_child_orders b')" "c' = ao_child_orders b' ! n" by (auto simp: in_set_conv_nth)
        then have "child_moved (ao_child_orders b ! n) c'" and "ao_child_orders b ! n \<in> set (ao_child_orders b)"
          using m by (auto simp: list_all2_conv_all_nth)
        with P show "co_status c' \<noteq> ChildFilled" by (auto simp: child_moved_def)
      qed
      have "\<not> (\<forall>c\<in>set (ao_child_orders b'). co_status c = ChildFilled)" using ne nf by (cases "ao_child_orders b'") auto
      with tick(2,3) P ne nf show ?thesis
        by (auto simp: tick_order_def Let_def split: if_splits prod.splits)
    next
      case (cancel b l)
      then show ?thesis using step(3) by auto
    qed
  qed (use assms in auto)
  from this [OF assms(1)] show ?thesis by simp
qed

text \<open>What a round of the executor does to each order is such a step.\<close>

theorem executor_round:
  assumes "tick_orders env simulation now hash_order sends m = (m', reqs, h)" and "m i = Some a"
  shows "\<exists>a' rs. m' i = Some a' \<and> (algo_step env simulation)\<^sup>*\<^sup>* (a, []) (a', rs) \<and> mset rs \<subseteq># mset reqs"
proof -
  have "\<exists>a' rs. m' i = Some a' \<and> (algo_step env simulation)\<^sup>*\<^sup>* (a, l) (a', l @ rs) \<and> mset rs \<subseteq># mset reqs" for l
    using assms
  proof (induction hash_order arbitrary: sends m m' reqs h a l)
    case (Cons j js)
    show ?case
    proof (cases "m j")
      case None
      with Cons show ?thesis by simp
    next
      case (Some b)
      obtain b' rs rest k where t: "tick_order env simulation now sends b = (b', rs, rest, k)"
        by (cases "tick_order env simulation now sends b") auto
      have st: "algo_step env simulation (b, l) (b', l @ rs)" for l by (rule algo_step.tick [OF t])
      have stop: ?thesis if "m' = m(j \<mapsto> b')" "reqs = rs"
      proof (cases "i = j")
        case True
        with that Some Cons.prems(2) st show ?thesis by auto
      next
        case False
        with that Cons.prems(2) show ?thesis by (intro exI [of _ a] exI [of _ "[]"]) auto
      qed
      show ?thesis
      proof (cases k)
        case (Some k')
        with t \<open>m j = Some b\<close> Cons.prems(1) stop show ?thesis by simp
      next
        case None
        obtain m2 rs2 h2 where r: "tick_orders env simulation now js rest (m(j \<mapsto> b')) = (m2, rs2, h2)"
          by (cases "tick_orders env simulation now js rest (m(j \<mapsto> b'))") auto
        with None t \<open>m j = Some b\<close> Cons.prems(1) have res: "m' = m2" "reqs = rs @ rs2" by simp_all
        show ?thesis
        proof (cases "i = j")
          case True
          then have "a = b" using Cons.prems(2) \<open>m j = Some b\<close> by simp
          moreover from Cons.IH [OF r, of b' "l @ rs"] True obtain a' rs' where
            "m2 i = Some a'" "(algo_step env simulation)\<^sup>*\<^sup>* (b', l @ rs) (a', (l @ rs) @ rs')" "mset rs' \<subseteq># mset rs2" by auto
          ultimately show ?thesis using res st [of l]
            by (intro exI [of _ a'] exI [of _ "rs @ rs'"]) (auto intro: converse_rtranclp_into_rtranclp)
        next
          case False
          with Cons.IH [OF r, of a l] Cons.prems(2) obtain a' rs' where
            "m2 i = Some a'" "(algo_step env simulation)\<^sup>*\<^sup>* (a, l) (a', l @ rs')" "mset rs' \<subseteq># mset rs2" by auto
          moreover from this(3) have "mset rs' \<subseteq># mset reqs" using res subset_mset.add_increasing by simp
          ultimately show ?thesis using res(1) by blast
        qed
      qed
    qed
  qed (auto intro: exI [of _ "[]"])
  from this [of "[]"] show ?thesis by simp
qed

definition sample_algo :: algo_order where
  "sample_algo = \<lparr>ao_id = ''id'', ao_market_id = ''m'', ao_side = Buy, ao_total_quantity = 5,
     ao_filled_quantity = 0, ao_strategy = Iceberg, ao_target_price = Some 6500, ao_time_window_secs = 0,
     ao_slice_count = 1, ao_child_orders = iceberg_children 0 5 6500 1 0 5, ao_status = AlgoPending, ao_created_at = 0\<rparr>"

lemma sample_tick:
  "fst (snd (tick_order sample_exec False 1 [] sample_algo)) = [child_request sample_exec sample_algo (hd (ao_child_orders sample_algo))]"
  by code_simp

lemma children_sent_once_witness:
  "\<exists>a1. (algo_step sample_exec False)\<^sup>*\<^sup>* (sample_algo, [])
      (a1, [child_request sample_exec sample_algo (hd (ao_child_orders sample_algo))]) \<and>
    list_all2 child_moved (ao_child_orders sample_algo) (ao_child_orders a1)"
proof -
  obtain a' reqs rest h where t: "tick_order sample_exec False 1 [] sample_algo = (a', reqs, rest, h)"
    by (cases "tick_order sample_exec False 1 [] sample_algo") auto
  have "algo_step sample_exec False (sample_algo, []) (a', [] @ reqs)" by (rule algo_step.tick [OF t])
  then have run: "(algo_step sample_exec False)\<^sup>*\<^sup>* (sample_algo, []) (a', reqs)" by simp
  have "reqs = [child_request sample_exec sample_algo (hd (ao_child_orders sample_algo))]"
    using sample_tick t by simp
  with run children_sent_once [OF run rtranclp.rtrancl_refl] show ?thesis by auto
qed

section \<open>The channel nobody reads\<close>

lemma twap_stores:
  assumes "slices \<noteq> 0" and "dates_until (xe_date_ok env) now window" and "ex_orders_lock s = Free"
  shows "create_twap env i now m side quantity window slices target s =
    store_order
      \<lparr>ao_id = xe_uuid_show env i, ao_market_id = xe_uuid_show env (market_uuid m), ao_side = side,
       ao_total_quantity = quantity, ao_filled_quantity = 0, ao_strategy = TWAP, ao_target_price = target,
       ao_time_window_secs = window, ao_slice_count = slices,
       ao_child_orders = map (twap_slice now (unat quantity) (unat window) (unat slices) target) [0..<unat slices],
       ao_status = AlgoPending, ao_created_at = now\<rparr> s"
  by (simp add: create_twap_def twap_children_eq [OF assms(1,2)])

fun create_twaps ::
  "'d exec_env \<Rightarrow> uuid list \<Rightarrow> datetime \<Rightarrow> market_id \<Rightarrow> side \<Rightarrow> u64 \<Rightarrow> u64 \<Rightarrow> u32 \<Rightarrow> u32 option \<Rightarrow>
     'd execution \<Rightarrow> 'd execution \<times> string run list" where
  "create_twaps env [] now m side quantity window slices target s = (s, [])"
| "create_twaps env (i # is) now m side quantity window slices target s =
     (case create_twap env i now m side quantity window slices target s of
        (s1, r) \<Rightarrow>
          (case create_twaps env is now m side quantity window slices target s1 of (s2, rs) \<Rightarrow> (s2, r # rs)))"

lemma create_twaps_run:
  assumes "slices \<noteq> 0" and "dates_until (xe_date_ok env) now window"
    and "ex_orders_lock s = Free" and "ch_open (ex_channel s)"
    and "length (ch_queue (ex_channel s)) + length is \<le> ch_capacity (ex_channel s)"
  shows "\<exists>s'. create_twaps env is now m side quantity window slices target s = (s', map (\<lambda>i. Inr (xe_uuid_show env i)) is) \<and>
    ex_orders_lock s' = Free \<and> ch_open (ex_channel s') \<and> ch_capacity (ex_channel s') = ch_capacity (ex_channel s) \<and>
    length (ch_queue (ex_channel s')) = length (ch_queue (ex_channel s)) + length is"
  using assms(3-5)
proof (induction "is" arbitrary: s)
  case (Cons i "is")
  obtain s1 where s1: "create_twap env i now m side quantity window slices target s = (s1, Inr (xe_uuid_show env i))"
    and c: "ex_orders_lock s1 = Free" "ch_open (ex_channel s1)" "ch_capacity (ex_channel s1) = ch_capacity (ex_channel s)"
      "length (ch_queue (ex_channel s1)) = Suc (length (ch_queue (ex_channel s)))"
    using Cons.prems unfolding twap_stores [OF assms(1,2) Cons.prems(1)]
    by (auto simp: store_order_def channel_send_def)
  from Cons.IH [of s1] c Cons.prems(3) s1 show ?case by auto
qed simp

text \<open>
  The channel of created orders holds 1000 and is read by nobody. Before the executor is started the first
  1000 orders are created; the next call never returns and keeps the lock on the orders, so that from
  then on no order can be created, read, cancelled or executed. (Starting the executor first drops the
  receiver, and then every call returns.)
\<close>
theorem full_channel_blocks_engine:
  assumes "slices \<noteq> 0" and "dates_until (xe_date_ok env) now window" and "length is = 1000"
  shows "\<exists>s s'. create_twaps env is now m side quantity window slices target (execution_new simulation) =
        (s, map (\<lambda>i. Inr (xe_uuid_show env i)) is) \<and>
    create_twap env i now m side quantity window slices target s = (s', Inl Blocked) \<and>
    (\<forall>env' j a later hash_order sends.
       get_algo_order j s' = (s', Inl Blocked) \<and> cancel_algo_order j s' = (s', Inl Blocked) \<and>
       store_order a s' = (s', Inl Blocked) \<and>
       executor_tick env' later hash_order sends s' = (s', [], Inl Blocked)) \<and>
    (\<exists>s''. create_twap env i now m side quantity window slices target (run_executor s) = (s'', Inr (xe_uuid_show env i)))"
proof -
  have new: "ex_orders_lock (execution_new simulation) = Free" "ch_open (ex_channel (execution_new simulation))"
    "length (ch_queue (ex_channel (execution_new simulation))) + length is \<le> ch_capacity (ex_channel (execution_new simulation))"
    "ch_capacity (ex_channel (execution_new simulation)) = 1000" "ch_queue (ex_channel (execution_new simulation)) = []"
    by (simp_all add: execution_new_def assms(3))
  obtain s where s: "create_twaps env is now m side quantity window slices target (execution_new simulation) =
      (s, map (\<lambda>i. Inr (xe_uuid_show env i)) is)"
    and lk: "ex_orders_lock s = Free" and ch: "ch_open (ex_channel s)" "ch_capacity (ex_channel s) = 1000"
      "length (ch_queue (ex_channel s)) = 1000"
    using create_twaps_run [OF assms(1,2) new(1-3), of m side quantity target] new(4,5) assms(3) by auto
  obtain s' where s': "create_twap env i now m side quantity window slices target s = (s', Inl Blocked)"
    and w: "ex_orders_lock s' = Writer"
    unfolding twap_stores [OF assms(1,2) lk] using lk ch by (simp add: store_order_def channel_send_def)
  have "\<exists>s''. create_twap env i now m side quantity window slices target (run_executor s) = (s'', Inr (xe_uuid_show env i))"
  proof -
    have r: "ex_orders_lock (run_executor s) = Free" "\<not> ch_open (ex_channel (run_executor s))"
      using lk by (simp_all add: run_executor_def)
    then show ?thesis
      unfolding twap_stores [OF assms(1,2) r(1)] by (simp add: store_order_def channel_send_def)
  qed
  with s s' w show ?thesis
    by (intro exI [of _ s] exI [of _ s'])
      (simp add: get_algo_order_def cancel_algo_order_def store_order_def executor_tick_def)
qed

lemma full_channel_blocks_engine_witness:
  "\<exists>s s'. create_twaps sample_exec (replicate 1000 7) 0 (MarketId 1) Buy 100 60 3 None (execution_new False) =
        (s, replicate 1000 (Inr ''id'')) \<and>
    create_twap sample_exec 7 0 (MarketId 1) Buy 100 60 3 None s = (s', Inl Blocked) \<and>
    get_algo_order ''id'' s' = (s', Inl Blocked)"
proof -
  have d: "dates_until (xe_date_ok sample_exec) 0 60" by (simp add: dates_until_def sample_exec_def)
  have id: "xe_uuid_show sample_exec i = ''id''" for i by (simp add: sample_exec_def)
  have len: "length (replicate 1000 (7 :: uuid)) = 1000" by simp
  from full_channel_blocks_engine [OF _ d len, of 3 "MarketId 1" Buy 100 None False 7]
  show ?thesis by (auto simp: id)
qed

section \<open>The preflight check and the weights\<close>

text \<open>
  The preflight check compares the price of the order with itself: it passes every market order and every
  limit order with a positive price, never reports slippage, and panics at price zero.
\<close>
theorem preflight_never_reports_slippage:
  assumes laws: "decimal_laws D val"
  shows "pre_flight_check D req =
    (case (req_kind req, req_price req) of
       (MarketOrder, _) \<Rightarrow> Some (Inr ())
     | (LimitOrder, None) \<Rightarrow> Some (Inl (Validation [Lit ''Limit order must have price'']))
     | (LimitOrder, Some p) \<Rightarrow> if price_raw p = 0 then None else Some (Inr ()))"
proof -
  have dec: "\<exists>d. price_to_decimal D p = Some d \<and> val d = of_int (uint (price_raw p)) / 1000000" for p
  proof -
    have v: "val (d_from D (price_raw p)) = of_int (uint (price_raw p))" by (rule d_from_value [OF laws]) simp
    have "\<bar>uint (price_raw p)\<bar> < 2 ^ 96" using uint_bound [of "price_raw p"] by simp
    then have "representable (of_int (uint (price_raw p)) / 1000000)" by (rule representable_millionths)
    then show ?thesis
      using law_div [OF laws, of "d_of D 1000000" "d_from D (price_raw p)"]
      by (auto simp: price_to_decimal_def v law_of_numeral [OF laws] simp del: of_int_uint)
  qed
  have rep0: "representable 0" using representable_int [of 0] by simp
  have "representable (5 / 1000)" unfolding representable_def by (rule exI [of _ 5], rule exI [of _ 3]) simp
  from law_of [OF laws this] have th: "val (d_of D (1 / 200)) = 1 / 200" by simp
  have limit: "(do { diff \<leftarrow> d_sub D d d; slippage \<leftarrow> d_div D (d_abs D diff) d;
      Some (if d_less D (d_of D (5 / 1000)) slippage then Inl SlippageExceeded else Inr ()) }) =
    (if val d = 0 then None else Some (Inr ()))" for d
  proof -
    obtain z where z: "d_sub D d d = Some z" "val z = 0" using law_sub [OF laws, of d d] rep0 by auto
    then have a: "val (d_abs D z) = 0" by (simp add: d_abs_def law_less [OF laws] law_of_numeral [OF laws])
    show ?thesis
    proof (cases "val d = 0")
      case True
      then show ?thesis using z law_div_zero [OF laws True] by simp
    next
      case False
      then obtain q where "d_div D (d_abs D z) d = Some q" "val q = 0"
        using law_div [OF laws False, of "d_abs D z"] a rep0 by auto
      then show ?thesis using z False by (simp add: law_less [OF laws] th)
    qed
  qed
  show ?thesis
  proof (cases "req_price req")
    case None
    then show ?thesis using dec [of "Price 0"]
      by (cases "req_kind req") (auto simp: pre_flight_check_def)
  next
    case (Some p)
    then show ?thesis using dec [of p] limit
      by (cases "req_kind req") (auto simp: pre_flight_check_def uint_0_iff simp del: of_int_uint)
  qed
qed

definition profile_ok :: "'d decimal \<Rightarrow> ('d \<Rightarrow> rat) \<Rightarrow> 'd volume_profile \<Rightarrow> bool" where
  "profile_ok D val p \<longleftrightarrow>
     length (vp_hour_weights p) = 24 \<and> length (vp_recent_volumes p) \<le> 1000 \<and>
     (\<forall>w\<in>set (vp_hour_weights p). d_div D (d_of D 1) (d_of D 24) = Some w \<or> (1 / 2 \<le> val w \<and> val w \<le> 2))"

definition weights_ok :: "'d decimal \<Rightarrow> ('d \<Rightarrow> rat) \<Rightarrow> 'd list \<Rightarrow> bool" where
  "weights_ok D val ws \<longleftrightarrow>
     length ws = 24 \<and>
     (\<forall>w\<in>set ws. d_div D (d_of D 1) (d_of D 24) = Some w \<or> (1 / 2 \<le> val w \<and> val w \<le> 2))"

lemma clamp_between:
  assumes "decimal_laws D val"
  shows "1 / 2 \<le> val (d_clamp D (d_of D (5 / 10)) (d_of D 2) x) \<and> val (d_clamp D (d_of D (5 / 10)) (d_of D 2) x) \<le> 2"
proof -
  have "representable (5 / 10)" unfolding representable_def by (rule exI [of _ 5], rule exI [of _ 1]) simp
  moreover have "representable 2" using representable_int [of 2] by simp
  ultimately have "val (d_of D (5 / 10)) = 1 / 2" "val (d_of D 2) = 2"
    using law_of [OF assms] by simp_all
  then show ?thesis by (auto simp: d_clamp_def law_less [OF assms])
qed

lemma write_weights_ok:
  assumes "decimal_laws D val"
  shows "weights_ok D val ws \<Longrightarrow> \<forall>h\<in>set hs. h < 24 \<Longrightarrow> weights_ok D val (fst (write_weights D vs hs ws))"
proof (induction hs arbitrary: ws)
  case (Cons h hs)
  show ?case
  proof (cases "hour_weight D vs h (ws ! h)")
    case (Some w)
    have "w = ws ! h \<or> (1 / 2 \<le> val w \<and> val w \<le> 2)"
      using Some clamp_between [OF assms]
      by (auto simp: hour_weight_def bind_eq_Some_conv split: if_splits)
    moreover have "ws ! h \<in> set ws" using Cons.prems by (auto simp: weights_ok_def)
    ultimately have "weights_ok D val (ws[h := w])"
      using Cons.prems(1) set_update_subset_insert [of ws h w] by (auto simp: weights_ok_def)
    then show ?thesis using Some Cons by simp
  qed (use Cons in simp)
qed simp

text \<open>
  In every market the volume profile has 24 weights and at most 1000 volumes; a weight is the initial
  \<open>1 / 24\<close> or lies between one half and two, so that an hour with traffic counts at least twelve times as
  much as an hour without. The volumes of other markets are not touched.
\<close>
theorem volume_profile_invariant:
  assumes laws: "decimal_laws D val" and "\<forall>m p. ex_profiles s m = Some p \<longrightarrow> profile_ok D val p"
    and "update_volume D now m volume s = (s', r)"
  shows "\<forall>m p. ex_profiles s' m = Some p \<longrightarrow> profile_ok D val p"
proof -
  have start: "profile_ok D val p" if "(case ex_profiles s m of None \<Rightarrow> new_profile D | Some p \<Rightarrow> Some p) = Some p" for p
    using that assms(2) by (auto simp: new_profile_def bind_eq_Some_conv profile_ok_def split: option.splits)
  have "profile_ok D val \<lparr>vp_hour_weights = ws, vp_recent_volumes = push_window 1000 (now, volume) (vp_recent_volumes p)\<rparr>"
    if "profile_ok D val p" and "write_weights D vs [0..<24] (vp_hour_weights p) = (ws, q)" for p ws q vs
  proof -
    have "weights_ok D val (vp_hour_weights p)" using that(1) by (simp add: profile_ok_def weights_ok_def)
    then have "weights_ok D val (fst (write_weights D vs [0..<24] (vp_hour_weights p)))"
      by (rule write_weights_ok [OF laws]) simp
    with that show ?thesis by (simp add: profile_ok_def weights_ok_def length_push_window)
  qed
  with start assms(2,3) show ?thesis
    by (auto simp: update_volume_def Let_def split: option.splits prod.splits if_splits)
qed

end
