(* ===== verification/Pnl_Tracker.thy ===== *)
theory Pnl_Tracker
  imports Tasks Decimal_Ops
begin

text \<open>
  \<open>analytics/src/pnl.rs\<close>: the profit and loss of users, per open position. Four maps behind four locks; a call
  returns, panics in a decimal operation, or waits for a lock that nobody releases (\<open>Tasks\<close>). The order in
  which a map is iterated and the time are arguments. The lots of a market are closed first in, first out;
  but recording a fill waits for a lock the call itself holds.
\<close>

record 'd pnl_record =
  pr_timestamp :: datetime
  pr_market_id :: market_id
  pr_realized_pnl_usd :: 'd
  pr_unrealized_pnl_usd :: 'd
  pr_total_pnl_usd :: 'd
  pr_volume_traded :: 'd
  pr_num_trades :: u64
  pr_avg_trade_size :: 'd
  pr_sharpe_ratio :: "'d option"

record 'd position_pnl =
  pp_market_id :: market_id
  pp_side :: side
  pp_entry_price :: 'd
  pp_current_price :: 'd
  pp_quantity :: u64
  pp_realized_pnl :: 'd
  pp_unrealized_pnl :: 'd
  pp_opened_at :: datetime
  pp_last_updated :: datetime

record 'd daily_performance =
  dp_date :: int
  dp_starting_balance :: 'd
  dp_ending_balance :: 'd
  dp_total_pnl :: 'd
  dp_return_pct :: 'd
  dp_num_trades :: u64
  dp_win_rate :: 'd
  dp_avg_win :: 'd
  dp_avg_loss :: 'd
  dp_max_drawdown_pct :: 'd
  dp_sharpe_ratio :: 'd

record 'd tracker =
  tk_daily :: "int \<Rightarrow> 'd pnl_record list option"
  tk_daily_lock :: lock
  tk_positions :: "user_id \<Rightarrow> (market_id \<Rightarrow> 'd position_pnl list option) option"
  tk_positions_lock :: lock
  tk_balances :: "user_id \<Rightarrow> 'd option"
  tk_balances_lock :: lock
  tk_history :: "user_id \<Rightarrow> 'd daily_performance list option"
  tk_history_lock :: lock

definition tracker_new :: "'d tracker" where
  "tracker_new =
     \<lparr>tk_daily = (\<lambda>_. None), tk_daily_lock = Free, tk_positions = (\<lambda>_. None), tk_positions_lock = Free,
      tk_balances = (\<lambda>_. None), tk_balances_lock = Free, tk_history = (\<lambda>_. None), tk_history_lock = Free\<rparr>"

text \<open>Reading a map that may lack the key.\<close>

definition positions_of :: "'d tracker \<Rightarrow> user_id \<Rightarrow> market_id \<Rightarrow> 'd position_pnl list" where
  "positions_of s u m =
     (case tk_positions s u of None \<Rightarrow> [] | Some ms \<Rightarrow> (case ms m of None \<Rightarrow> [] | Some ps \<Rightarrow> ps))"

definition set_positions :: "user_id \<Rightarrow> market_id \<Rightarrow> 'd position_pnl list \<Rightarrow> 'd tracker \<Rightarrow> 'd tracker" where
  "set_positions u m ps s =
     s\<lparr>tk_positions := (tk_positions s)(u \<mapsto>
         (case tk_positions s u of None \<Rightarrow> [m \<mapsto> ps] | Some ms \<Rightarrow> ms(m \<mapsto> ps)))\<rparr>"

section \<open>Fills\<close>

definition opened_position ::
  "'d decimal \<Rightarrow> datetime \<Rightarrow> market_id \<Rightarrow> 'd \<Rightarrow> u64 \<Rightarrow> 'd \<Rightarrow> 'd position_pnl option" where
  "opened_position D now m fp fill_qty current_price = do {
     diff \<leftarrow> d_sub D current_price fp;
     unrealized \<leftarrow> d_mul D diff (d_from D fill_qty);
     Some \<lparr>pp_market_id = m, pp_side = Buy, pp_entry_price = fp, pp_current_price = current_price,
           pp_quantity = fill_qty, pp_realized_pnl = d_of D 0, pp_unrealized_pnl = unrealized,
           pp_opened_at = now, pp_last_updated = now\<rparr> }"

text \<open>
  The closure of \<open>retain_mut\<close>: close up to \<open>remaining\<close> units of each lot, adding up the profit. When a decimal
  operation panics the lots not yet visited, and the one being visited, stay as they are.
\<close>

fun close_positions ::
  "'d decimal \<Rightarrow> 'd \<Rightarrow> u64 \<Rightarrow> 'd \<Rightarrow> 'd position_pnl list \<Rightarrow> 'd position_pnl list \<times> (u64 \<times> 'd) option" where
  "close_positions D fp remaining realized [] = ([], Some (remaining, realized))"
| "close_positions D fp remaining realized (p # ps) =
     (if remaining = 0 \<or> pp_side p \<noteq> Buy
      then (case close_positions D fp remaining realized ps of (qs, r) \<Rightarrow> (p # qs, r))
      else
        (let close_qty = min remaining (pp_quantity p) in
         case (do { diff \<leftarrow> d_sub D fp (pp_entry_price p);
                    x \<leftarrow> d_mul D diff (d_from D close_qty);
                    d_add D realized x }) of
           None \<Rightarrow> (p # ps, None)
         | Some realized' \<Rightarrow>
             (case close_positions D fp (remaining - close_qty) realized' ps of
                (qs, r) \<Rightarrow>
                  (if close_qty < pp_quantity p
                   then p\<lparr>pp_quantity := pp_quantity p - close_qty\<rparr> # qs else qs, r))))"

definition update_pnl_balance :: "'d decimal \<Rightarrow> user_id \<Rightarrow> 'd \<Rightarrow> 'd tracker \<Rightarrow> 'd tracker \<times> unit run" where
  "update_pnl_balance D u pnl s =
     (case lock_write (tk_balances_lock s) of
        None \<Rightarrow> (s, Inl Blocked)
      | Some _ \<Rightarrow>
          (let b = (case tk_balances s u of None \<Rightarrow> d_of D 0 | Some b \<Rightarrow> b) in
           case d_add D b pnl of
             None \<Rightarrow> (s\<lparr>tk_balances := (tk_balances s)(u \<mapsto> b)\<rparr>, Inl Panic)
           | Some b' \<Rightarrow> (s\<lparr>tk_balances := (tk_balances s)(u \<mapsto> b')\<rparr>, Inr ())))"

definition get_market_pnl :: "'d decimal \<Rightarrow> user_id \<Rightarrow> market_id \<Rightarrow> 'd tracker \<Rightarrow> ('d \<times> 'd) run" where
  "get_market_pnl D u m s =
     (case lock_read (tk_positions_lock s) of
        None \<Rightarrow> Inl Blocked
      | Some _ \<Rightarrow>
          (case (do { r \<leftarrow> d_sum D (map pp_realized_pnl (positions_of s u m));
                      x \<leftarrow> d_sum D (map pp_unrealized_pnl (positions_of s u m));
                      Some (r, x) }) of
             None \<Rightarrow> Inl Panic
           | Some p \<Rightarrow> Inr p))"

definition update_daily_record ::
  "'d decimal \<Rightarrow> datetime \<Rightarrow> user_id \<Rightarrow> market_id \<Rightarrow> 'd \<Rightarrow> 'd tracker \<Rightarrow> 'd tracker \<times> unit run" where
  "update_daily_record D now u m current_price s =
     (case get_market_pnl D u m s of
        Inl h \<Rightarrow> (s, Inl h)
      | Inr (realized, unrealized) \<Rightarrow>
          (case d_add D realized unrealized of
             None \<Rightarrow> (s, Inl Panic)
           | Some t \<Rightarrow>
               (case lock_write (tk_daily_lock s) of
                  None \<Rightarrow> (s, Inl Blocked)
                | Some _ \<Rightarrow>
                    (let r = \<lparr>pr_timestamp = now, pr_market_id = m, pr_realized_pnl_usd = realized,
                              pr_unrealized_pnl_usd = unrealized, pr_total_pnl_usd = t,
                              pr_volume_traded = d_of D 0, pr_num_trades = 1, pr_avg_trade_size = d_of D 0,
                              pr_sharpe_ratio = None\<rparr>;
                         old = (case tk_daily s (date_of now) of None \<Rightarrow> [] | Some rs \<Rightarrow> rs)
                     in (s\<lparr>tk_daily := (tk_daily s)(date_of now \<mapsto> old @ [r])\<rparr>, Inr ())))))"

text \<open>
  \<open>record_fill\<close>: under the lock on the positions, which is taken first and held to the end of the call, the
  positions of the market change, after a sale the balance, and then the daily record is written.
\<close>

definition fill_positions ::
  "'d decimal \<Rightarrow> datetime \<Rightarrow> user_id \<Rightarrow> market_id \<Rightarrow> fill \<Rightarrow> 'd \<Rightarrow> 'd tracker \<Rightarrow> 'd tracker \<times> unit run" where
  "fill_positions D now u m f current_price s =
     (let ps = positions_of s u m; s1 = set_positions u m ps s in
      case d_div D (d_from D (price_raw (fill_price f))) (d_of D 1000000) of
        None \<Rightarrow> (s1, Inl Panic)
      | Some fp \<Rightarrow>
          if fill_aggressor f = Buy then
            (case opened_position D now m fp (quantity_raw (fill_quantity f)) current_price of
               None \<Rightarrow> (s1, Inl Panic)
             | Some p \<Rightarrow> (set_positions u m (ps @ [p]) s1, Inr ()))
          else
            (case close_positions D fp (quantity_raw (fill_quantity f)) (d_of D 0) ps of
               (qs, None) \<Rightarrow> (set_positions u m qs s1, Inl Panic)
             | (qs, Some (remaining, realized)) \<Rightarrow> update_pnl_balance D u realized (set_positions u m qs s1)))"

definition record_fill ::
  "'d decimal \<Rightarrow> datetime \<Rightarrow> user_id \<Rightarrow> market_id \<Rightarrow> fill \<Rightarrow> 'd \<Rightarrow> 'd tracker \<Rightarrow> 'd tracker \<times> unit run" where
  "record_fill D now u m f current_price s =
     (case lock_write (tk_positions_lock s) of
        None \<Rightarrow> (s, Inl Blocked)
      | Some l \<Rightarrow>
          (case (case fill_positions D now u m f current_price (s\<lparr>tk_positions_lock := l\<rparr>) of
                   (t, Inr _) \<Rightarrow> update_daily_record D now u m current_price t
                 | (t, Inl h) \<Rightarrow> (t, Inl h)) of
             (t, Inl Blocked) \<Rightarrow> (t, Inl Blocked)
           | (t, r) \<Rightarrow> (t\<lparr>tk_positions_lock := Free\<rparr>, r)))"

section \<open>Prices and sums\<close>

definition unrealized :: "'d decimal \<Rightarrow> 'd \<Rightarrow> 'd position_pnl \<Rightarrow> 'd option" where
  "unrealized D new_price p =
     (case pp_side p of
        Buy \<Rightarrow> do { d \<leftarrow> d_sub D new_price (pp_entry_price p); d_mul D d (d_from D (pp_quantity p)) }
      | Sell \<Rightarrow> do { d \<leftarrow> d_sub D (pp_entry_price p) new_price; d_mul D d (d_from D (pp_quantity p)) })"

fun reprice :: "'d decimal \<Rightarrow> datetime \<Rightarrow> 'd \<Rightarrow> 'd position_pnl list \<Rightarrow> 'd position_pnl list \<times> bool" where
  "reprice D now new_price [] = ([], True)"
| "reprice D now new_price (p # ps) =
     (let p1 = p\<lparr>pp_current_price := new_price, pp_last_updated := now\<rparr> in
      case unrealized D new_price p1 of
        None \<Rightarrow> (p1 # ps, False)
      | Some x \<Rightarrow> (case reprice D now new_price ps of (qs, ok) \<Rightarrow> (p1\<lparr>pp_unrealized_pnl := x\<rparr> # qs, ok)))"

fun reprice_users :: "'d decimal \<Rightarrow> datetime \<Rightarrow> market_id \<Rightarrow> 'd \<Rightarrow> user_id list \<Rightarrow> 'd tracker \<Rightarrow> 'd tracker \<times> unit run" where
  "reprice_users D now m new_price [] s = (s, Inr ())"
| "reprice_users D now m new_price (u # us) s =
     (case tk_positions s u of
        None \<Rightarrow> reprice_users D now m new_price us s
      | Some ms \<Rightarrow>
          (case ms m of
             None \<Rightarrow> reprice_users D now m new_price us s
           | Some ps \<Rightarrow>
               (case reprice D now new_price ps of
                  (qs, False) \<Rightarrow> (set_positions u m qs s, Inl Panic)
                | (qs, True) \<Rightarrow> reprice_users D now m new_price us (set_positions u m qs s))))"

definition update_prices ::
  "'d decimal \<Rightarrow> datetime \<Rightarrow> user_id list \<Rightarrow> market_id \<Rightarrow> 'd \<Rightarrow> 'd tracker \<Rightarrow> 'd tracker \<times> unit run" where
  "update_prices D now hash_order m new_price s =
     (case lock_write (tk_positions_lock s) of
        None \<Rightarrow> (s, Inl Blocked)
      | Some _ \<Rightarrow> reprice_users D now m new_price hash_order s)"

fun sum_pnl :: "'d decimal \<Rightarrow> 'd \<times> 'd \<Rightarrow> 'd position_pnl list \<Rightarrow> ('d \<times> 'd) option" where
  "sum_pnl D acc [] = Some acc"
| "sum_pnl D acc (p # ps) = do {
     r \<leftarrow> d_add D (fst acc) (pp_realized_pnl p);
     x \<leftarrow> d_add D (snd acc) (pp_unrealized_pnl p);
     sum_pnl D (r, x) ps }"

definition tracker_user_pnl :: "'d decimal \<Rightarrow> market_id list \<Rightarrow> user_id \<Rightarrow> 'd tracker \<Rightarrow> ('d \<times> 'd) run" where
  "tracker_user_pnl D hash_order u s =
     (case lock_read (tk_positions_lock s) of
        None \<Rightarrow> Inl Blocked
      | Some _ \<Rightarrow>
          (case sum_pnl D (d_of D 0, d_of D 0) (concat (map (positions_of s u) hash_order)) of
             None \<Rightarrow> Inl Panic
           | Some p \<Rightarrow> Inr p))"

definition get_daily_summary :: "int \<Rightarrow> 'd tracker \<Rightarrow> 'd pnl_record list option run" where
  "get_daily_summary date s =
     (case lock_read (tk_daily_lock s) of None \<Rightarrow> Inl Blocked | Some _ \<Rightarrow> Inr (tk_daily s date))"

section \<open>The end of a day\<close>

record 'd day_sums =
  dy_total :: 'd
  dy_trades :: u64
  dy_wins :: u64
  dy_losses :: u64
  dy_win_total :: 'd
  dy_loss_total :: 'd

fun sum_day :: "'d decimal \<Rightarrow> 'd day_sums \<Rightarrow> 'd position_pnl list \<Rightarrow> 'd day_sums option" where
  "sum_day D a [] = Some a"
| "sum_day D a (p # ps) = do {
     x \<leftarrow> d_add D (pp_realized_pnl p) (pp_unrealized_pnl p);
     t \<leftarrow> d_add D (dy_total a) x;
     b \<leftarrow> (if d_less D (d_of D 0) x
          then do { w \<leftarrow> d_add D (dy_win_total a) x; Some (a\<lparr>dy_wins := dy_wins a + 1, dy_win_total := w\<rparr>) }
          else if d_less D x (d_of D 0)
          then do { w \<leftarrow> d_add D (dy_loss_total a) (d_abs D x);
                    Some (a\<lparr>dy_losses := dy_losses a + 1, dy_loss_total := w\<rparr>) }
          else Some a);
     sum_day D (b\<lparr>dy_total := t, dy_trades := dy_trades a + 1\<rparr>) ps }"

definition ratio_or_zero :: "'d decimal \<Rightarrow> 'd \<Rightarrow> u64 \<Rightarrow> 'd option" where
  "ratio_or_zero D x n = (if 0 < n then d_div D x (d_from D n) else Some (d_of D 0))"

definition day_performance ::
  "'d decimal \<Rightarrow> datetime \<Rightarrow> market_id list \<Rightarrow> user_id \<Rightarrow> 'd tracker \<Rightarrow> 'd daily_performance option" where
  "day_performance D now markets u s = do {
     a \<leftarrow> sum_day D \<lparr>dy_total = d_of D 0, dy_trades = 0, dy_wins = 0, dy_losses = 0, dy_win_total = d_of D 0,
                     dy_loss_total = d_of D 0\<rparr> (concat (map (positions_of s u) markets));
     win_rate \<leftarrow> ratio_or_zero D (d_from D (dy_wins a)) (dy_trades a);
     avg_win \<leftarrow> ratio_or_zero D (dy_win_total a) (dy_wins a);
     avg_loss \<leftarrow> ratio_or_zero D (dy_loss_total a) (dy_losses a);
     starting \<leftarrow> Some (case tk_balances s u of None \<Rightarrow> d_of D 0 | Some b \<Rightarrow> b);
     ending \<leftarrow> d_add D starting (dy_total a);
     return_pct \<leftarrow> (if d_less D (d_of D 0) starting then d_div D (dy_total a) starting else Some (d_of D 0));
     Some \<lparr>dp_date = date_of now, dp_starting_balance = starting, dp_ending_balance = ending,
           dp_total_pnl = dy_total a, dp_return_pct = return_pct, dp_num_trades = dy_trades a,
           dp_win_rate = win_rate, dp_avg_win = avg_win, dp_avg_loss = avg_loss,
           dp_max_drawdown_pct = d_of D 0, dp_sharpe_ratio = d_of D 0\<rparr> }"

definition push_performance ::
  "(user_id \<times> 'd daily_performance) list \<Rightarrow> (user_id \<Rightarrow> 'd daily_performance list option) \<Rightarrow>
     user_id \<Rightarrow> 'd daily_performance list option" where
  "push_performance ups h =
     foldl (\<lambda>h (u, p). h(u \<mapsto> (case h u of None \<Rightarrow> [] | Some ps \<Rightarrow> ps) @ [p])) h ups"

text \<open>
  \<open>end_trading_day\<close> takes the lock on the daily records, which it does not use, then the others. \<open>users\<close> are
  the users with positions and \<open>markets\<close> the markets of each, in the order of the maps.
\<close>

definition end_trading_day ::
  "'d decimal \<Rightarrow> datetime \<Rightarrow> user_id list \<Rightarrow> (user_id \<Rightarrow> market_id list) \<Rightarrow> 'd tracker \<Rightarrow> 'd tracker \<times> unit run" where
  "end_trading_day D now users markets s =
     (case lock_write (tk_daily_lock s) of
        None \<Rightarrow> (s, Inl Blocked)
      | Some dl \<Rightarrow>
          (case lock_read (tk_positions_lock s) of
             None \<Rightarrow> (s\<lparr>tk_daily_lock := dl\<rparr>, Inl Blocked)
           | Some pl \<Rightarrow>
               (case lock_read (tk_balances_lock s) of
                  None \<Rightarrow> (s\<lparr>tk_daily_lock := dl, tk_positions_lock := pl\<rparr>, Inl Blocked)
                | Some bl \<Rightarrow>
                    (case those (map (\<lambda>u. map_option (Pair u) (day_performance D now (markets u) u s)) users) of
                       None \<Rightarrow> (s, Inl Panic)
                     | Some ups \<Rightarrow>
                         (case lock_write (tk_history_lock s) of
                            None \<Rightarrow> (s\<lparr>tk_daily_lock := dl, tk_positions_lock := pl, tk_balances_lock := bl\<rparr>, Inl Blocked)
                          | Some _ \<Rightarrow> (s\<lparr>tk_history := push_performance ups (tk_history s)\<rparr>, Inr ()))))))"

record 'd performance_metrics =
  pm_total_return_pct :: 'd
  pm_avg_daily_return_pct :: 'd
  pm_volatility_pct :: 'd
  pm_sharpe_ratio :: 'd
  pm_total_trades :: u64
  pm_win_rate_pct :: 'd
  pm_max_drawdown_pct :: 'd
  pm_num_trading_days :: nat

text \<open>The source compares the optional result of \<open>sqrt\<close> with a number; here a missing root is a panic.\<close>

definition performance_metrics :: "'d decimal \<Rightarrow> 'd daily_performance list \<Rightarrow> 'd performance_metrics option" where
  "performance_metrics D hs = do {
     total_return \<leftarrow> d_sum D (map dp_return_pct hs);
     avg_return \<leftarrow> d_div D total_return (d_of D (of_nat (length hs)));
     squares \<leftarrow> those (map (\<lambda>h. do { x \<leftarrow> d_sub D (dp_return_pct h) avg_return; d_mul D x x }) hs);
     total_squares \<leftarrow> d_sum D squares;
     variance \<leftarrow> d_div D total_squares (d_of D (of_nat (length hs)));
     volatility \<leftarrow> d_sqrt D variance;
     sharpe \<leftarrow> (if d_less D (d_of D 0) volatility then d_div D avg_return volatility else Some (d_of D 0));
     total_win_rate \<leftarrow> d_sum D (map dp_win_rate hs);
     avg_win_rate \<leftarrow> d_div D total_win_rate (d_of D (of_nat (length hs)));
     Some \<lparr>pm_total_return_pct = total_return, pm_avg_daily_return_pct = avg_return,
           pm_volatility_pct = volatility, pm_sharpe_ratio = sharpe,
           pm_total_trades = sum_list (map dp_num_trades hs), pm_win_rate_pct = avg_win_rate,
           pm_max_drawdown_pct = foldl (d_max D) (d_of D 0) (map dp_max_drawdown_pct hs),
           pm_num_trading_days = length hs\<rparr> }"

definition get_performance_metrics :: "'d decimal \<Rightarrow> user_id \<Rightarrow> 'd tracker \<Rightarrow> 'd performance_metrics option run" where
  "get_performance_metrics D u s =
     (case lock_read (tk_history_lock s) of
        None \<Rightarrow> Inl Blocked
      | Some _ \<Rightarrow>
          (case tk_history s u of
             None \<Rightarrow> Inr None
           | Some [] \<Rightarrow> Inr None
           | Some hs \<Rightarrow> (case performance_metrics D hs of None \<Rightarrow> Inl Panic | Some p \<Rightarrow> Inr (Some p))))"

section \<open>First in, first out\<close>

text \<open>The abstract state of a market: one entry price for every open unit, oldest first.\<close>

definition lots :: "'d position_pnl list \<Rightarrow> 'd list" where
  "lots ps = concat (map (\<lambda>p. replicate (unat (pp_quantity p)) (pp_entry_price p)) ps)"

definition all_long :: "'d position_pnl list \<Rightarrow> bool" where
  "all_long ps \<longleftrightarrow> (\<forall>p\<in>set ps. pp_side p = Buy)"

lemma lots_simps [simp]:
  "lots [] = []" "lots (p # ps) = replicate (unat (pp_quantity p)) (pp_entry_price p) @ lots ps"
  "lots (ps @ qs) = lots ps @ lots qs"
  by (simp_all add: lots_def)

lemma close_positions_lots:
  assumes "all_long ps" and "close_positions D fp remaining realized ps = (qs, Some (left, r))"
  shows "lots qs = drop (unat remaining) (lots ps) \<and> unat left = unat remaining - length (lots ps) \<and> all_long qs"
  using assms
proof (induction ps arbitrary: remaining realized qs)
  case (Cons p ps)
  have long: "pp_side p = Buy" "all_long ps" using Cons.prems(1) by (auto simp: all_long_def)
  show ?case
  proof (cases "remaining = 0")
    case True
    then obtain qs' where c: "close_positions D fp 0 realized ps = (qs', Some (left, r))" and qs: "qs = p # qs'"
      using Cons.prems(2) by (auto split: prod.splits)
    from Cons.IH [OF long(2) c] show ?thesis using True qs long by (simp add: all_long_def)
  next
    case False
    define c where "c = min remaining (pp_quantity p)"
    obtain realized' qs' where cl: "close_positions D fp (remaining - c) realized' ps = (qs', Some (left, r))"
      and qs: "qs = (if c < pp_quantity p then p\<lparr>pp_quantity := pp_quantity p - c\<rparr> # qs' else qs')"
      using Cons.prems(2) False long(1) by (auto simp: Let_def c_def split: option.splits prod.splits)
    have c_nat: "unat c = min (unat remaining) (unat (pp_quantity p))"
      by (simp add: c_def min_def word_le_nat_alt)
    have "c \<le> remaining" "c \<le> pp_quantity p" by (simp_all add: c_def)
    then have sub: "unat (remaining - c) = unat remaining - unat c"
      "unat (pp_quantity p - c) = unat (pp_quantity p) - unat c" by (simp_all only: unat_sub)
    from Cons.IH [OF long(2) cl] have ih: "lots qs' = drop (unat remaining - unat c) (lots ps)"
      "unat left = unat remaining - unat c - length (lots ps)" "all_long qs'" by (auto simp: sub)
    have less: "c < pp_quantity p \<longleftrightarrow> unat remaining < unat (pp_quantity p)"
      by (auto simp: word_less_nat_alt c_nat)
    show ?thesis
    proof (cases "unat remaining < unat (pp_quantity p)")
      case True
      then show ?thesis using ih less long by (simp add: qs sub c_nat all_long_def)
    next
      case False
      then show ?thesis using ih less long by (simp add: qs c_nat)
    qed
  qed
qed simp

lemma positions_set_positions [simp]:
  "positions_of (set_positions u m ps s) u' m' = (if u' = u \<and> m' = m then ps else positions_of s u' m')"
  by (auto simp: positions_of_def set_positions_def split: option.splits)

lemma set_positions_frame [simp]:
  "tk_positions_lock (set_positions u m ps s) = tk_positions_lock s"
  "tk_balances_lock (set_positions u m ps s) = tk_balances_lock s"
  by (simp_all add: set_positions_def)

lemma positions_lock_update [simp]:
  "positions_of (s\<lparr>tk_positions_lock := l\<rparr>) u m = positions_of s u m"
  "positions_of (s\<lparr>tk_balances := b\<rparr>) u m = positions_of s u m"
  by (simp_all add: positions_of_def)

lemma daily_record_waits: "tk_positions_lock t = Writer \<Longrightarrow> update_daily_record D now u m c t = (t, Inl Blocked)"
  by (simp add: update_daily_record_def get_market_pnl_def)

lemma pnl_balance_frame:
  "update_pnl_balance D u pnl s = (s', r) \<Longrightarrow>
     tk_positions_lock s' = tk_positions_lock s \<and> positions_of s' u' m' = positions_of s u' m'"
  by (auto simp: update_pnl_balance_def Let_def split: option.splits)

lemma fill_positions_lock:
  "fill_positions D now u m f c s = (t, r) \<Longrightarrow> tk_positions_lock t = tk_positions_lock s"
  by (auto simp: fill_positions_def Let_def dest!: pnl_balance_frame split: option.splits prod.splits if_splits)

text \<open>How a call ends, and what it leaves.\<close>

lemma record_fill_eq:
  assumes "tk_positions_lock s = Free"
    and "fill_positions D now u m f c (s\<lparr>tk_positions_lock := Writer\<rparr>) = (t, q)"
  shows "record_fill D now u m f c s =
    (if q = Inl Panic then (t\<lparr>tk_positions_lock := Free\<rparr>, Inl Panic) else (t, Inl Blocked))"
proof -
  have "tk_positions_lock t = Writer" using fill_positions_lock [OF assms(2)] by simp
  then show ?thesis
    using assms by (cases q) (auto simp: record_fill_def daily_record_waits split: halt.splits)
qed

lemma record_fill_ends:
  assumes "record_fill D now u m f current_price s = (s', r)" and "tk_positions_lock s = Free"
  shows "(r = Inl Panic \<and> tk_positions_lock s' = Free) \<or> (r = Inl Blocked \<and> tk_positions_lock s' = Writer)"
proof -
  obtain t q where t: "fill_positions D now u m f current_price (s\<lparr>tk_positions_lock := Writer\<rparr>) = (t, q)"
    by (cases "fill_positions D now u m f current_price (s\<lparr>tk_positions_lock := Writer\<rparr>)") auto
  with fill_positions_lock [OF t] assms(1) record_fill_eq [OF assms(2) t] show ?thesis by (auto split: if_splits)
qed

text \<open>
  C39: Recording a fill never returns. The call holds the lock on the positions while it waits for the same lock
  in \<open>get_market_pnl\<close>; unless a decimal operation panics before, it waits for ever, and with it every later
  fill, price update, query of a user's or a market's profit, and the end of the day, which in turn takes
  the daily summaries with it.
\<close>
theorem record_fill_never_returns:
  assumes "tk_positions_lock s = Free" and "tk_daily_lock s = Free"
    and "record_fill D now u m f current_price s = (s', r)" and "r \<noteq> Inl Panic"
  shows "r = Inl Blocked \<and>
    (\<forall>D' now' u' m' f' c order users markets.
       record_fill D' now' u' m' f' c s' = (s', Inl Blocked) \<and>
       update_prices D' now' users m' c s' = (s', Inl Blocked) \<and>
       tracker_user_pnl D' order u' s' = Inl Blocked \<and> get_market_pnl D' u' m' s' = Inl Blocked \<and>
       (\<exists>s''. end_trading_day D' now' users markets s' = (s'', Inl Blocked) \<and>
          (tk_daily_lock s' = Free \<longrightarrow> (\<forall>d. get_daily_summary d s'' = Inl Blocked))))"
proof -
  from record_fill_ends [OF assms(3,1)] assms(4)
  have b: "r = Inl Blocked" and l: "tk_positions_lock s' = Writer" by auto
  have "\<exists>s''. end_trading_day D' now' users markets s' = (s'', Inl Blocked) \<and>
      (tk_daily_lock s' = Free \<longrightarrow> (\<forall>d. get_daily_summary d s'' = Inl Blocked))" for D' :: "'a decimal" and now' users markets
    by (cases "tk_daily_lock s'") (simp_all add: end_trading_day_def l get_daily_summary_def)
  with b l show ?thesis
    by (simp add: record_fill_def update_prices_def tracker_user_pnl_def get_market_pnl_def)
qed

text \<open>
  C38: The positions of a market refine a queue of units with their entry prices: before it hangs, a buy has
  appended as many units at its price, and a sale has removed as many from the front, the oldest first, as
  far as there are any; no other market changes.
\<close>
theorem fills_refine_a_queue:
  assumes "tk_positions_lock s = Free" and "all_long (positions_of s u m)"
    and "record_fill D now u m f current_price s = (s', Inl Blocked)"
    and "d_div D (d_from D (price_raw (fill_price f))) (d_of D 1000000) = Some fp"
  shows "lots (positions_of s' u m) =
      (if fill_aggressor f = Buy
       then lots (positions_of s u m) @ replicate (unat (quantity_raw (fill_quantity f))) fp
       else drop (unat (quantity_raw (fill_quantity f))) (lots (positions_of s u m))) \<and>
    all_long (positions_of s' u m) \<and>
    (\<forall>u' m'. (u', m') \<noteq> (u, m) \<longrightarrow> positions_of s' u' m' = positions_of s u' m')"
proof -
  let ?ps = "positions_of s u m" and ?q = "quantity_raw (fill_quantity f)"
  obtain t q where t: "fill_positions D now u m f current_price (s\<lparr>tk_positions_lock := Writer\<rparr>) = (t, q)"
    by (cases "fill_positions D now u m f current_price (s\<lparr>tk_positions_lock := Writer\<rparr>)") auto
  from record_fill_eq [OF assms(1) t] assms(3) have s': "s' = t" "q \<noteq> Inl Panic" by (auto split: if_splits)
  obtain qs where qs: "lots qs = (if fill_aggressor f = Buy then lots ?ps @ replicate (unat ?q) fp else drop (unat ?q) (lots ?ps))"
      "all_long qs"
    and pos: "\<And>u' m'. positions_of t u' m' = positions_of (set_positions u m qs s) u' m'"
  proof (cases "fill_aggressor f = Buy")
    case True
    then obtain p where p: "opened_position D now m fp ?q current_price = Some p"
      and t: "t = set_positions u m (?ps @ [p]) (set_positions u m ?ps (s\<lparr>tk_positions_lock := Writer\<rparr>))"
      using t s'(2) assms(4) by (auto simp: fill_positions_def Let_def split: option.splits)
    from p have "pp_quantity p = ?q" "pp_entry_price p = fp" "pp_side p = Buy"
      by (auto simp: opened_position_def bind_eq_Some_conv)
    with True t assms(2) show ?thesis by (intro that [of "?ps @ [p]"]) (simp_all add: all_long_def)
  next
    case False
    obtain qs left r where c: "close_positions D fp ?q (d_of D 0) ?ps = (qs, Some (left, r))"
      and b: "update_pnl_balance D u r (set_positions u m qs (set_positions u m ?ps (s\<lparr>tk_positions_lock := Writer\<rparr>))) = (t, q)"
      using t s'(2) assms(4) False by (auto simp: fill_positions_def Let_def split: option.splits prod.splits)
    from close_positions_lots [OF assms(2) c] pnl_balance_frame [OF b] False show ?thesis by (intro that [of qs]) simp_all
  qed
  with s' show ?thesis by simp
qed

definition sample_fill :: fill where
  "sample_fill = \<lparr>fill_id = FillId 1, fill_market_id = MarketId 1, fill_maker_order_id = OrderId 1,
     fill_taker_order_id = OrderId 2, fill_maker_user_id = UserId 1, fill_taker_user_id = UserId 2,
     fill_price = Price 650000, fill_quantity = Quantity 3, fill_aggressor = Buy, fill_sequence = 1,
     fill_filled_at = 0, fill_transaction_id = None\<rparr>"

lemma sample_fill_hangs:
  "\<exists>s'. record_fill rat_decimal 0 (UserId 2) (MarketId 1) sample_fill 1 tracker_new = (s', Inl Blocked)"
proof -
  obtain t q where t: "fill_positions rat_decimal 0 (UserId 2) (MarketId 1) sample_fill 1
      (tracker_new\<lparr>tk_positions_lock := Writer\<rparr>) = (t, q)"
    by (cases "fill_positions rat_decimal 0 (UserId 2) (MarketId 1) sample_fill 1 (tracker_new\<lparr>tk_positions_lock := Writer\<rparr>)") auto
  then have "q = Inr ()"
    by (auto simp: fill_positions_def sample_fill_def Let_def rat_decimal_def opened_position_def d_from_def)
  moreover have "tk_positions_lock tracker_new = Free" by (simp add: tracker_new_def)
  ultimately show ?thesis using record_fill_eq [OF _ t] by (intro exI [of _ t]) simp
qed

lemma record_fill_never_returns_witness:
  "\<exists>s'. record_fill rat_decimal 0 (UserId 2) (MarketId 1) sample_fill 1 tracker_new = (s', Inl Blocked) \<and>
     tracker_user_pnl rat_decimal [] (UserId 2) s' = Inl Blocked"
proof -
  from sample_fill_hangs obtain s' where e: "record_fill rat_decimal 0 (UserId 2) (MarketId 1) sample_fill 1 tracker_new = (s', Inl Blocked)" ..
  from record_fill_never_returns [OF _ _ e] e show ?thesis by (auto simp: tracker_new_def)
qed

lemma fills_refine_a_queue_witness:
  "\<exists>s'. record_fill rat_decimal 0 (UserId 2) (MarketId 1) sample_fill 1 tracker_new = (s', Inl Blocked) \<and>
     lots (positions_of s' (UserId 2) (MarketId 1)) = [13 / 20, 13 / 20, 13 / 20]"
proof -
  from sample_fill_hangs obtain s' where e: "record_fill rat_decimal 0 (UserId 2) (MarketId 1) sample_fill 1 tracker_new = (s', Inl Blocked)" ..
  have d: "d_div rat_decimal (d_from rat_decimal (price_raw (fill_price sample_fill))) (d_of rat_decimal 1000000) = Some (13 / 20)"
    by (simp add: rat_decimal_def d_from_def sample_fill_def)
  have "all_long (positions_of tracker_new (UserId 2) (MarketId 1))"
    by (simp add: tracker_new_def positions_of_def all_long_def)
  from fills_refine_a_queue [OF _ this e d]
  have "lots (positions_of s' (UserId 2) (MarketId 1)) = replicate (unat (3 :: u64)) (13 / 20)"
    by (simp add: tracker_new_def positions_of_def sample_fill_def)
  also have "\<dots> = [13 / 20, 13 / 20, 13 / 20]" by code_simp
  finally show ?thesis using e by blast
qed

end
