(* ===== verification/Float_Ops.thy ===== *)
theory Float_Ops
  imports Floats
begin

text \<open>
  More of the language's \<open>f64\<close>, for the analytics: addition, subtraction, division and square root rounded to
  nearest with ties to even, comparisons, \<open>abs\<close>, \<open>min\<close>, \<open>max\<close>, \<open>clamp\<close>, sums, and the casts from and to
  integers, which saturate.
\<close>

text \<open>The value of a finite number, and a signed rational rounded; a zero result has the sign \<open>zero_neg\<close>.\<close>

definition signed :: "bool \<Rightarrow> rat \<Rightarrow> rat" where
  "signed neg r = (if neg then - r else r)"

definition round_signed :: "bool \<Rightarrow> rat \<Rightarrow> f64" where
  "round_signed zero_neg v =
     (if v = 0 then Fin zero_neg 0 else round_magnitude (v < 0) \<bar>v\<bar>)"

definition f64_lit :: "rat \<Rightarrow> f64" where
  "f64_lit r = round_signed False r"

fun f64_neg :: "f64 \<Rightarrow> f64" where
  "f64_neg NaN = NaN"
| "f64_neg (Inf neg) = Inf (\<not> neg)"
| "f64_neg (Fin neg r) = Fin (\<not> neg) r"

fun f64_abs :: "f64 \<Rightarrow> f64" where
  "f64_abs NaN = NaN"
| "f64_abs (Inf neg) = Inf False"
| "f64_abs (Fin neg r) = Fin False r"

fun f64_add :: "f64 \<Rightarrow> f64 \<Rightarrow> f64" where
  "f64_add NaN y = NaN"
| "f64_add x NaN = NaN"
| "f64_add (Inf a) (Inf b) = (if a = b then Inf a else NaN)"
| "f64_add (Inf a) (Fin b s) = Inf a"
| "f64_add (Fin a r) (Inf b) = Inf b"
| "f64_add (Fin a r) (Fin b s) = round_signed (a \<and> b) (signed a r + signed b s)"

definition f64_sub :: "f64 \<Rightarrow> f64 \<Rightarrow> f64" where
  "f64_sub x y = f64_add x (f64_neg y)"

fun f64_div :: "f64 \<Rightarrow> f64 \<Rightarrow> f64" where
  "f64_div NaN y = NaN"
| "f64_div x NaN = NaN"
| "f64_div (Inf a) (Inf b) = NaN"
| "f64_div (Inf a) (Fin b s) = Inf (a \<noteq> b)"
| "f64_div (Fin a r) (Inf b) = Fin (a \<noteq> b) 0"
| "f64_div (Fin a r) (Fin b s) =
     (if s = 0 then if r = 0 then NaN else Inf (a \<noteq> b) else round_magnitude (a \<noteq> b) (r / s))"

text \<open>Integer square root, one bit at a time from bit \<open>k\<close> down.\<close>

fun isqrt_from :: "nat \<Rightarrow> int \<Rightarrow> int \<Rightarrow> int" where
  "isqrt_from 0 n m = (if (m + 1) * (m + 1) \<le> n then m + 1 else m)"
| "isqrt_from (Suc k) n m =
     (let c = m + 2 ^ Suc k in isqrt_from k n (if c * c \<le> n then c else m))"

definition isqrt :: "int \<Rightarrow> int" where
  "isqrt n = isqrt_from (nat (bitlen n)) n 0"

fun f64_sqrt :: "f64 \<Rightarrow> f64" where
  "f64_sqrt NaN = NaN"
| "f64_sqrt (Inf neg) = (if neg then NaN else Inf False)"
| "f64_sqrt (Fin neg r) =
     (if r = 0 then Fin neg 0
      else if neg then NaN
      else
        (let q = pow2 (exponent_of r div 2 - 52);
             x = r / (q * q);
             n = isqrt \<lfloor>x\<rfloor>;
             h = (of_int n + 1 / 2) * (of_int n + 1 / 2)
         in Fin False (of_int (if x < h then n else if h < x then n + 1 else if even n then n else n + 1) * q)))"

text \<open>\<open><\<close> and \<open>==\<close>, false for NaN; zeros of both signs are equal.\<close>

fun f64_less :: "f64 \<Rightarrow> f64 \<Rightarrow> bool" where
  "f64_less NaN y = False"
| "f64_less x NaN = False"
| "f64_less (Inf a) (Inf b) = (a \<and> \<not> b)"
| "f64_less (Inf a) (Fin b s) = a"
| "f64_less (Fin a r) (Inf b) = (\<not> b)"
| "f64_less (Fin a r) (Fin b s) = (signed a r < signed b s)"

definition f64_eq :: "f64 \<Rightarrow> f64 \<Rightarrow> bool" where
  "f64_eq x y \<longleftrightarrow> x \<noteq> NaN \<and> y \<noteq> NaN \<and> \<not> f64_less x y \<and> \<not> f64_less y x"

definition f64_le :: "f64 \<Rightarrow> f64 \<Rightarrow> bool" where
  "f64_le x y \<longleftrightarrow> f64_less x y \<or> f64_eq x y"

text \<open>\<open>f64::min\<close> and \<open>f64::max\<close> ignore a NaN; \<open>clamp\<close> keeps it.\<close>

definition f64_min :: "f64 \<Rightarrow> f64 \<Rightarrow> f64" where
  "f64_min x y = (if x = NaN then y else if y = NaN then x else if f64_less y x then y else x)"

definition f64_max :: "f64 \<Rightarrow> f64 \<Rightarrow> f64" where
  "f64_max x y = (if x = NaN then y else if y = NaN then x else if f64_less x y then y else x)"

definition f64_clamp :: "f64 \<Rightarrow> f64 \<Rightarrow> f64 \<Rightarrow> f64" where
  "f64_clamp lo hi x = (if f64_less x lo then lo else if f64_less hi x then hi else x)"

definition f64_sum :: "f64 list \<Rightarrow> f64" where
  "f64_sum xs = foldl f64_add (Fin False 0) xs"

text \<open>Casts from integers, and saturating casts to them.\<close>

definition f64_of_int :: "int \<Rightarrow> f64" where
  "f64_of_int n = round_signed False (of_int n)"

definition f64_of_word :: "'w::len word \<Rightarrow> f64" where
  "f64_of_word w = f64_of_int (uint w)"

definition f64_of_nat :: "nat \<Rightarrow> f64" where
  "f64_of_nat n = f64_of_int (int n)"

fun f64_truncated :: "int \<Rightarrow> int \<Rightarrow> f64 \<Rightarrow> int" where
  "f64_truncated lo hi NaN = 0"
| "f64_truncated lo hi (Inf neg) = (if neg then lo else hi)"
| "f64_truncated lo hi (Fin neg r) = max lo (min hi (if neg then - \<lfloor>r\<rfloor> else \<lfloor>r\<rfloor>))"

definition f64_as_u32 :: "f64 \<Rightarrow> u32" where
  "f64_as_u32 x = word_of_int (f64_truncated 0 (2 ^ 32 - 1) x)"

definition f64_as_u64 :: "f64 \<Rightarrow> u64" where
  "f64_as_u64 x = word_of_int (f64_truncated 0 (2 ^ 64 - 1) x)"

definition f64_as_i32 :: "f64 \<Rightarrow> int" where
  "f64_as_i32 x = f64_truncated (- (2 ^ 31)) (2 ^ 31 - 1) x"

section \<open>Facts\<close>

text \<open>The order of two numbers that are not NaN.\<close>

lemma f64_less_irrefl [simp]: "\<not> f64_less x x"
  by (cases x) auto

lemma f64_less_trans: "f64_less x y \<Longrightarrow> f64_less y z \<Longrightarrow> f64_less x z"
  by (cases x; cases y; cases z) (auto split: if_splits)

lemma f64_less_total: "x \<noteq> NaN \<Longrightarrow> y \<noteq> NaN \<Longrightarrow> f64_less x y \<or> f64_eq x y \<or> f64_less y x"
  by (auto simp: f64_eq_def)

lemma f64_less_not_NaN: "f64_less x y \<Longrightarrow> x \<noteq> NaN \<and> y \<noteq> NaN"
  by (cases x; cases y) auto

lemma f64_le_iff: "f64_le x y \<longleftrightarrow> x \<noteq> NaN \<and> y \<noteq> NaN \<and> \<not> f64_less y x"
  using f64_less_total [of x y] f64_less_not_NaN [of x y] f64_less_trans [of x y x] 
  by (auto simp: f64_le_def f64_eq_def)

lemma f64_clamp_between:
  assumes "x \<noteq> NaN" and "f64_less lo hi"
  shows "f64_le lo (f64_clamp lo hi x) \<and> f64_le (f64_clamp lo hi x) hi"
  using assms f64_less_not_NaN [OF assms(2)] f64_less_trans [of lo hi lo]
  by (auto simp: f64_clamp_def f64_le_iff)

lemma f64_min_le: "f64_le (f64_min x y) y" if "y \<noteq> NaN"
  using that by (auto simp: f64_min_def f64_le_iff)

lemma f64_abs_not_less_zero [simp]: "\<not> f64_less (f64_abs (Fin neg r)) (Fin False 0) \<longleftrightarrow> 0 \<le> r"
  by (auto simp: signed_def)

lemma f64_abs_NaN [simp]: "f64_abs x = NaN \<longleftrightarrow> x = NaN"
  by (cases x) auto

end
