(* ===== verification/Position_Monitor.thy ===== *)
theory Position_Monitor
  imports Common_Types Float_Ops
begin

text \<open>
  \<open>analytics/src/position_monitor.rs\<close>: net positions with their entry lots, and the alerts raised from them.
  Quantities and values are 64-bit words that wrap around; \<open>sint\<close> reads the signed ones. The order in which
  the map is iterated, the texts of identifiers and the formatting of a float are arguments.
\<close>

datatype alert_type = StopLoss | TakeProfit | MaxDrawdown | PositionExpired | UnusualSize | ConcentrationRisk

datatype alert_severity = SevInfo | SevWarning | SevCritical

record position_alert =
  al_user_id :: string
  al_market_id :: string
  al_alert_type :: alert_type
  al_message :: msg
  al_severity :: alert_severity
  al_position_size :: i64
  al_unrealized_pnl :: "i64 option"
  al_entry_price :: "u32 option"
  al_current_price :: "u32 option"
  al_timestamp :: datetime

record position_data =
  pd_net_quantity :: i64
  pd_entry_prices :: "(u32 \<times> u64) list"
  pd_last_fill_time :: datetime
  pd_max_observed_value :: i64
  pd_current_value :: i64

type_synonym position_key = "user_id \<times> market_id"

type_synonym monitor = "position_key \<Rightarrow> position_data option"

section \<open>Updating a position\<close>

definition signed_delta :: "u64 \<Rightarrow> i64 \<Rightarrow> i64" where
  "signed_delta quantity side = (if 0 < sint side then quantity else - quantity)"

definition entries_total :: "(u32 \<times> u64) list \<Rightarrow> u64" where
  "entries_total es = sum_list (map snd es)"

text \<open>The closure of \<open>retain\<close>, which cannot change an entry: one that is only partly closed is kept whole.\<close>

definition retain_entry :: "u64 \<Rightarrow> u32 \<times> u64 \<Rightarrow> u64 \<times> (u32 \<times> u64) \<times> bool" where
  "retain_entry remaining e =
     (if remaining = 0 then (remaining, e, True)
      else (let remove = min (snd e) remaining in (remaining - remove, e, remove < snd e)))"

definition close_entries :: "u64 \<Rightarrow> (u32 \<times> u64) list \<Rightarrow> (u32 \<times> u64) list" where
  "close_entries quantity es = snd (retain_mut retain_entry (min quantity (entries_total es)) es)"

definition i64_max :: "i64 \<Rightarrow> i64 \<Rightarrow> i64" where
  "i64_max a b = (if sint b \<le> sint a then a else b)"

definition moved_position :: "datetime \<Rightarrow> u32 \<Rightarrow> u64 \<Rightarrow> i64 \<Rightarrow> position_data \<Rightarrow> position_data" where
  "moved_position now price quantity side p =
     (let delta = signed_delta quantity side;
          net = pd_net_quantity p + delta;
          value = net * ucast price
      in \<lparr>pd_net_quantity = net,
          pd_entry_prices = (if 0 < sint delta then pd_entry_prices p @ [(price, quantity)]
                             else close_entries quantity (pd_entry_prices p)),
          pd_last_fill_time = now, pd_max_observed_value = i64_max (pd_max_observed_value p) value,
          pd_current_value = value\<rparr>)"

definition update_position ::
  "datetime \<Rightarrow> user_id \<Rightarrow> market_id \<Rightarrow> u32 \<Rightarrow> u64 \<Rightarrow> i64 \<Rightarrow> monitor \<Rightarrow> monitor" where
  "update_position now u m price quantity side s =
     (let old = (case s (u, m) of
                   None \<Rightarrow> \<lparr>pd_net_quantity = 0, pd_entry_prices = [], pd_last_fill_time = now,
                            pd_max_observed_value = 0, pd_current_value = 0\<rparr>
                 | Some p \<Rightarrow> p);
          new = moved_position now price quantity side old
      in s((u, m) := (if pd_net_quantity new = 0 then None else Some new)))"

section \<open>Alerts\<close>

record texts =
  tx_uuid :: "uuid \<Rightarrow> string"
  tx_f64_1 :: "f64 \<Rightarrow> string"

definition hours_between :: "datetime \<Rightarrow> datetime \<Rightarrow> int" where
  "hours_between now then_time = trunc_div (now - then_time) 3600000000000"

definition alert ::
  "texts \<Rightarrow> datetime \<Rightarrow> position_key \<Rightarrow> alert_type \<Rightarrow> msg \<Rightarrow> alert_severity \<Rightarrow> i64 \<Rightarrow> i64 option \<Rightarrow> u32 option \<Rightarrow>
     position_alert" where
  "alert T now k ty m sev psize pnl entry =
     \<lparr>al_user_id = tx_uuid T (user_uuid (fst k)), al_market_id = tx_uuid T (market_uuid (snd k)),
      al_alert_type = ty, al_message = m, al_severity = sev, al_position_size = psize,
      al_unrealized_pnl = pnl, al_entry_price = entry, al_current_price = None, al_timestamp = now\<rparr>"

definition observed_drawdown :: "position_data \<Rightarrow> f64" where
  "observed_drawdown p =
     f64_div (f64_of_int (sint (pd_max_observed_value p - pd_current_value p)))
             (f64_of_int (sint (pd_max_observed_value p)))"

definition drawdown_alerts :: "texts \<Rightarrow> datetime \<Rightarrow> position_key \<Rightarrow> position_data \<Rightarrow> position_alert list" where
  "drawdown_alerts T now k p =
     (if 0 < sint (pd_max_observed_value p) then
        (let d = observed_drawdown p;
             pct = Foreign (tx_f64_1 T (f64_mul d (f64_lit 100)));
             loss = Some (pd_current_value p - pd_max_observed_value p)
         in if f64_less (f64_lit (5 / 100)) d
            then [alert T now k MaxDrawdown [Lit ''Drawdown '', pct, Lit ''% exceeds max loss''] SevCritical
                    (pd_net_quantity p) loss None]
            else if f64_less (f64_lit (3 / 100)) d
            then [alert T now k MaxDrawdown [Lit ''Drawdown '', pct, Lit ''% warning''] SevWarning
                    (pd_net_quantity p) loss None]
            else [])
      else [])"

definition position_alerts :: "texts \<Rightarrow> datetime \<Rightarrow> position_key \<Rightarrow> position_data \<Rightarrow> position_alert list" where
  "position_alerts T now k p =
     (let age = hours_between now (pd_last_fill_time p) in
      (if 24 < age
       then [alert T now k PositionExpired [Lit ''Position held for '', IntText age, Lit '' hours''] SevWarning
               (pd_net_quantity p) None (map_option fst (case pd_entry_prices p of [] \<Rightarrow> None | e # _ \<Rightarrow> Some e))]
       else []) @
      (if 1000000000 < sint (i64_abs (pd_net_quantity p))
       then [alert T now k UnusualSize
               [Lit ''Position size '', IntText (sint (pd_net_quantity p)), Lit '' exceeds threshold''] SevWarning
               (pd_net_quantity p) None None]
       else []) @
      drawdown_alerts T now k p)"

definition check_all :: "texts \<Rightarrow> datetime \<Rightarrow> position_key list \<Rightarrow> monitor \<Rightarrow> position_alert list" where
  "check_all T now hash_order s =
     concat (map (\<lambda>k. case s k of None \<Rightarrow> [] | Some p \<Rightarrow> position_alerts T now k p) hash_order)"

definition user_sizes :: "position_key list \<Rightarrow> user_id \<Rightarrow> monitor \<Rightarrow> (market_id \<times> i64) list" where
  "user_sizes hash_order u s =
     List.map_filter (\<lambda>k. if fst k = u then map_option (\<lambda>p. (snd k, i64_abs (pd_net_quantity p))) (s k) else None)
       hash_order"

definition check_concentration ::
  "texts \<Rightarrow> datetime \<Rightarrow> position_key list \<Rightarrow> user_id \<Rightarrow> monitor \<Rightarrow> position_alert list" where
  "check_concentration T now hash_order u s =
     (let sizes = user_sizes hash_order u s in
      if sizes = [] then []
      else
        (let whole = sum_list (map snd sizes) in
         List.map_filter
           (\<lambda>(m, held).
              let c = f64_div (f64_of_int (sint held)) (f64_of_int (sint whole)) in
              if f64_less (f64_lit (1 / 2)) c
              then Some (alert T now (u, m) ConcentrationRisk
                     [Foreign (tx_f64_1 T (f64_mul c (f64_lit 100))), Lit ''% of portfolio concentrated here'']
                     SevWarning held None None)
              else None)
           sizes))"

definition calculate_unrealized_pnl :: "user_id \<Rightarrow> market_id \<Rightarrow> u32 \<Rightarrow> monitor \<Rightarrow> i64 option" where
  "calculate_unrealized_pnl u m current_price s =
     (case s (u, m) of
        None \<Rightarrow> None
      | Some p \<Rightarrow>
          if pd_entry_prices p = [] then None
          else
            (let total_qty = entries_total (pd_entry_prices p);
                 avg_entry = (if 0 < total_qty
                   then (ucast (sum_list (map (\<lambda>(p, q). ucast p * q) (pd_entry_prices p)) div total_qty) :: u32)
                   else 0)
             in Some ((ucast current_price - ucast avg_entry) * pd_net_quantity p)))"

section \<open>What the monitor keeps\<close>

definition monitor_ok :: "monitor \<Rightarrow> bool" where
  "monitor_ok s \<longleftrightarrow>
     (\<forall>k p. s k = Some p \<longrightarrow>
        pd_net_quantity p \<noteq> 0 \<and> 0 \<le> sint (pd_max_observed_value p) \<and>
        sint (pd_current_value p) \<le> sint (pd_max_observed_value p))"

inductive monitor_step :: "monitor \<Rightarrow> monitor \<Rightarrow> bool" where
  monitor_update: "monitor_step s (update_position now u m price quantity side s)"

lemma i64_max_bounds: "sint a \<le> sint (i64_max a b)" "sint b \<le> sint (i64_max a b)"
  by (auto simp: i64_max_def)

lemma moved_max:
  "pd_max_observed_value (moved_position now price quantity side p) =
     i64_max (pd_max_observed_value p) (pd_current_value (moved_position now price quantity side p))"
  by (simp add: moved_position_def Let_def)

interpretation monitor: kept_by_steps monitor_step monitor_ok
proof
  fix s t
  assume ok: "monitor_ok s" and "monitor_step s t"
  from this(2) show "monitor_ok t"
  proof cases
    case (monitor_update now u m price quantity side)
    have "monitor_ok (update_position now u m price quantity side s)"
      unfolding monitor_ok_def
    proof (intro allI impI)
      fix k p
      assume k: "update_position now u m price quantity side s k = Some p"
      let ?old = "case s (u, m) of None \<Rightarrow> \<lparr>pd_net_quantity = 0, pd_entry_prices = [], pd_last_fill_time = now,
          pd_max_observed_value = 0, pd_current_value = 0\<rparr> | Some p \<Rightarrow> p"
      show "pd_net_quantity p \<noteq> 0 \<and> 0 \<le> sint (pd_max_observed_value p) \<and>
        sint (pd_current_value p) \<le> sint (pd_max_observed_value p)"
      proof (cases "k = (u, m)")
        case True
        with k have p: "p = moved_position now price quantity side ?old" "pd_net_quantity p \<noteq> 0"
          by (auto simp: update_position_def Let_def split: if_splits)
        have "0 \<le> sint (pd_max_observed_value ?old)" using ok by (auto simp: monitor_ok_def split: option.splits)
        moreover have "pd_max_observed_value p = i64_max (pd_max_observed_value ?old) (pd_current_value p)"
          unfolding p(1) by (rule moved_max)
        ultimately show ?thesis
          using p(2) i64_max_bounds(1) [of "pd_max_observed_value ?old" "pd_current_value p"]
            i64_max_bounds(2) [of "pd_current_value p" "pd_max_observed_value ?old"] by simp
      next
        case False
        with k have "s k = Some p" by (simp add: update_position_def Let_def split: if_splits)
        with ok show ?thesis unfolding monitor_ok_def by blast
      qed
    qed
    with monitor_update show ?thesis by simp
  qed
qed

text \<open>
  In every run from an empty monitor: a position that is stored is not flat, and its value does not exceed
  the recorded maximum, which is not negative.
\<close>
theorem monitored_positions_ok:
  assumes "monitor_step\<^sup>*\<^sup>* (\<lambda>_. None) s"
  shows "monitor_ok s"
  using monitor.run_keeps [OF assms] by (simp add: monitor_ok_def)

text \<open>
  Selling part of a single lot leaves the lot whole: the net position falls, but the entries, and with them
  the average entry price and every later sale, still count the units that were sold.
\<close>
theorem partial_sale_keeps_lot:
  assumes "s (u, m) = Some p" and "pd_entry_prices p = [(e, q)]" and "0 < sold" and "sold < q"
    and "unat q < 2 ^ 63" and "sint side \<le> 0" and "pd_net_quantity p = q"
  shows "\<exists>p'. update_position now u m price sold side s (u, m) = Some p' \<and>
    pd_net_quantity p' = q - sold \<and> pd_entry_prices p' = [(e, q)]"
proof -
  have sold: "unat sold < 2 ^ 63" "0 < unat sold" using assms(3-5) by (simp_all add: word_less_nat_alt unat_gt_0)
  then have d: "sint sold = int (unat sold)" by (intro sint_eq_unat)
  have "0 \<le> sint sold" unfolding d by simp
  then have "sint sold \<noteq> - (2 ^ 63)" by (auto simp del: of_nat_unat)
  from sint_uminus_i64 [OF this] d have "sint (- sold) = - int (unat sold)" by simp
  then have neg: "\<not> 0 < sint (- sold)" by simp
  have "min sold q = sold" and "min q sold = sold" using assms(4) by (simp_all add: min.absorb1 min.absorb2)
  then have "close_entries sold [(e, q)] = [(e, q)]"
    using assms(3,4) by (simp add: close_entries_def entries_total_def retain_entry_def Let_def)
  moreover have "q - sold \<noteq> 0" using assms(4) by simp
  ultimately show ?thesis
    using assms neg by (simp add: update_position_def moved_position_def signed_delta_def Let_def)
qed

end
