(* ===== verification/Contract_Calls.thy ===== *)
theory Contract_Calls
  imports App_Error
begin

text \<open>
  \<open>blockchain/src/contracts.rs\<close> and \<open>types.rs\<close>: the call data for the conditional-token contract, byte by
  byte, and the requests handed to the provider. An address is 160 bits, \<open>U256\<close> is a 256-bit word. The other
  end is a decoder of the contract's ABI: a four-byte selector and arguments of 32 bytes each.
\<close>

type_synonym address = "160 word"
type_synonym u256 = "256 word"

section \<open>Big-endian bytes\<close>

fun be_bytes :: "nat \<Rightarrow> nat \<Rightarrow> u8 list" where
  "be_bytes 0 n = []"
| "be_bytes (Suc k) n = be_bytes k (n div 256) @ [word_of_nat (n mod 256)]"

definition be_value :: "u8 list \<Rightarrow> nat" where
  "be_value bs = foldl (\<lambda>n b. n * 256 + unat b) 0 bs"

definition to_big_endian :: "u256 \<Rightarrow> u8 list" where
  "to_big_endian w = be_bytes 32 (unat w)"

definition as_bytes :: "address \<Rightarrow> u8 list" where
  "as_bytes a = be_bytes 20 (unat a)"

lemma length_be_bytes [simp]: "length (be_bytes k n) = k"
  by (induction k arbitrary: n) auto

lemma be_value_snoc: "be_value (bs @ [b]) = be_value bs * 256 + unat b"
  by (simp add: be_value_def)

lemma be_value_bytes: "be_value (be_bytes k n) = n mod 256 ^ k"
proof (induction k arbitrary: n)
  case (Suc k)
  have "unat (word_of_nat (n mod 256) :: u8) = n mod 256" by (simp add: unsigned_of_nat take_bit_eq_mod)
  moreover have "n mod 256 ^ Suc k = (n div 256 mod 256 ^ k) * 256 + n mod 256"
    by (simp add: mod_mult2_eq algebra_simps)
  ultimately show ?case using Suc [of "n div 256"] by (simp add: be_value_snoc)
qed (simp add: be_value_def)

lemma be_value_zeros: "be_value (replicate k 0 @ bs) = be_value bs"
proof -
  have "foldl (\<lambda>n b. n * 256 + unat b) 0 (replicate k (0 :: u8)) = 0" by (induction k) auto
  then show ?thesis by (simp add: be_value_def)
qed

lemma be_value_u256 [simp]: "be_value (to_big_endian w) = unat w"
  using unat_bound [of w] by (simp add: to_big_endian_def be_value_bytes)

lemma be_value_address [simp]: "be_value (as_bytes a) = unat a"
  using unat_bound [of a] by (simp add: as_bytes_def be_value_bytes)

lemma length_to_big_endian [simp]: "length (to_big_endian w) = 32" "length (as_bytes a) = 20"
  by (simp_all add: to_big_endian_def as_bytes_def)

section \<open>Call data\<close>

definition encode_balance_of :: "address \<Rightarrow> u256 \<Rightarrow> u8 list" where
  "encode_balance_of user token_id =
     [0x00, 0xfd, 0xd5, 0x8e] @ replicate 12 0 @ as_bytes user @ to_big_endian token_id"

definition encode_transfer :: "address \<Rightarrow> u256 \<Rightarrow> u256 \<Rightarrow> u8 list" where
  "encode_transfer to_addr token_id amount =
     [0xf2, 0x42, 0x43, 0x2a] @ replicate 12 0 @ as_bytes to_addr @ to_big_endian token_id
     @ to_big_endian amount @ replicate 32 0"

definition encode_split_position :: "u256 \<Rightarrow> u8 \<Rightarrow> u256 \<Rightarrow> u8 list" where
  "encode_split_position market_id outcome_index amount =
     [0x4c, 0x83, 0x0c, 0xbd] @ to_big_endian market_id @ [outcome_index] @ to_big_endian amount"

text \<open>The loop over the indices computes a bit and drops it.\<close>

fun merge_indices :: "u8 list \<Rightarrow> u256 \<Rightarrow> u256" where
  "merge_indices [] indices = indices"
| "merge_indices (idx # rest) indices =
     (let bit = push_bit (unat idx) (1 :: u256) in merge_indices rest indices)"

definition encode_merge_positions :: "u256 \<Rightarrow> u8 list \<Rightarrow> u256 \<Rightarrow> u8 list" where
  "encode_merge_positions market_id outcome_indices amount =
     [0x8f, 0x3e, 0xa0, 0xd1] @ to_big_endian market_id @ to_big_endian (merge_indices outcome_indices 0)
     @ to_big_endian amount"

definition encode_redeem_positions :: "u256 \<Rightarrow> u8 list \<Rightarrow> u256 \<Rightarrow> u8 list" where
  "encode_redeem_positions market_id outcome_indices amount =
     [0x8f, 0x3e, 0xa0, 0xd1] @ to_big_endian market_id @ to_big_endian 0 @ to_big_endian amount"

section \<open>Requests\<close>

text \<open>\<open>ethers\<close> transaction requests: the fields the code sets.\<close>

record transaction_request =
  tx_to :: "address option"
  tx_value :: "u256 option"
  tx_data :: "u8 list option"
  tx_gas :: "u256 option"
  tx_nonce :: "u256 option"

record contract_call =
  cc_contract_address :: address
  cc_function_signature :: string
  cc_parameters :: "string list"
  cc_value :: u256

definition contract_request :: "address \<Rightarrow> u8 list \<Rightarrow> transaction_request" where
  "contract_request contract data =
     \<lparr>tx_to = Some contract, tx_value = Some 0, tx_data = Some data, tx_gas = Some 0, tx_nonce = None\<rparr>"

definition transfer_request :: "address \<Rightarrow> address \<Rightarrow> address \<Rightarrow> u256 \<Rightarrow> u256 \<Rightarrow> transaction_request" where
  "transfer_request contract from_addr to_addr token_id amount =
     contract_request contract (encode_transfer to_addr token_id amount)"

definition split_request :: "address \<Rightarrow> u256 \<Rightarrow> u8 \<Rightarrow> u256 \<Rightarrow> transaction_request" where
  "split_request contract market_id outcome_index amount =
     contract_request contract (encode_split_position market_id outcome_index amount)"

definition merge_request :: "address \<Rightarrow> u256 \<Rightarrow> u8 list \<Rightarrow> u256 \<Rightarrow> transaction_request" where
  "merge_request contract market_id outcome_indices amount =
     contract_request contract (encode_merge_positions market_id outcome_indices amount)"

definition redeem_request :: "address \<Rightarrow> u256 \<Rightarrow> u8 list \<Rightarrow> u256 \<Rightarrow> transaction_request" where
  "redeem_request contract market_id outcome_indices amount =
     contract_request contract (encode_redeem_positions market_id outcome_indices amount)"

text \<open>
  \<open>get_balance\<close> encodes the call, drops the encoding, and has the provider call the contract with the texts
  of the parameters instead (\<open>show\<close> renders an address and a number).
\<close>

definition balance_call :: "(address \<Rightarrow> string) \<Rightarrow> (u256 \<Rightarrow> string) \<Rightarrow> address \<Rightarrow> address \<Rightarrow> u256 \<Rightarrow> contract_call" where
  "balance_call show_address show_u256 contract user token_id =
     \<lparr>cc_contract_address = contract, cc_function_signature = ''balanceOf(address,uint256)'',
      cc_parameters = [show_address user, show_u256 token_id], cc_value = 0\<rparr>"

definition call_data :: "contract_call \<Rightarrow> u8 list" where
  "call_data c = map (\<lambda>ch. word_of_nat (of_char ch)) (concat (cc_parameters c))"

definition balance_reply :: "u8 list app_result \<Rightarrow> u256 app_result" where
  "balance_reply r =
     (case r of
        Inl e \<Rightarrow> Inl e
      | Inr bs \<Rightarrow>
          if 32 \<le> length bs then Inr (word_of_nat (be_value (take 32 bs)))
          else Inl (Internal [Lit ''Invalid balance response'']))"

section \<open>What the contract reads\<close>

definition abi_selector :: "u8 list \<Rightarrow> u8 list" where
  "abi_selector data = take 4 data"

definition abi_argument :: "u8 list \<Rightarrow> nat \<Rightarrow> nat option" where
  "abi_argument data i =
     (if 4 + 32 * (i + 1) \<le> length data then Some (be_value (take 32 (drop (4 + 32 * i) data))) else None)"

lemma abi_argument_0: "length a = 32 \<Longrightarrow> length s = 4 \<Longrightarrow> abi_argument (s @ a @ r) 0 = Some (be_value a)"
  by (simp add: abi_argument_def)

lemma abi_argument_Suc:
  "length a = 32 \<Longrightarrow> length s = 4 \<Longrightarrow> abi_argument (s @ a @ r) (Suc i) = abi_argument (s @ r) i"
  by (simp add: abi_argument_def)

lemma abi_argument_concat:
  "length s = 4 \<Longrightarrow> \<forall>b\<in>set bs. length b = 32 \<Longrightarrow> i < length bs \<Longrightarrow>
     abi_argument (s @ concat bs @ r) i = Some (be_value (bs ! i))"
proof (induction bs arbitrary: i)
  case (Cons b bs)
  then show ?case
    by (cases i) (simp_all add: abi_argument_0 abi_argument_Suc del: append_Cons)
qed simp

lemma merge_indices_unchanged [simp]: "merge_indices is x = x"
  by (induction "is") auto

lemma be_value_Cons: "be_value (k # bs) = unat k * 256 ^ length bs + be_value bs"
proof (induction bs rule: rev_induct)
  case Nil
  show ?case by (simp add: be_value_def)
next
  case (snoc b bs)
  have "be_value (k # bs @ [b]) = be_value ((k # bs) @ [b])" by simp
  then show ?case unfolding be_value_snoc using snoc by (simp add: be_value_snoc algebra_simps)
qed

lemma address_argument:
  "length (replicate 12 0 @ as_bytes a) = 32" "be_value (replicate 12 0 @ as_bytes a) = unat a"
  by (simp_all add: be_value_zeros)

lemma transfer_arguments:
  "map (abi_argument (encode_transfer a t n)) [0, 1, 2, 3] = [Some (unat a), Some (unat t), Some (unat n), Some 0]"
proof -
  let ?bs = "[replicate 12 0 @ as_bytes a, to_big_endian t, to_big_endian n, replicate 32 0]"
  have "encode_transfer a t n = [0xf2, 0x42, 0x43, 0x2a] @ concat ?bs @ []" by (simp add: encode_transfer_def)
  then have "abi_argument (encode_transfer a t n) i = Some (be_value (?bs ! i))" if "i < 4" for i
    using that abi_argument_concat [of "[0xf2, 0x42, 0x43, 0x2a]" ?bs i "[]"] by simp
  moreover have "be_value (replicate 32 (0 :: u8)) = 0" using be_value_zeros [of 32 "[]"] by (simp add: be_value_def)
  ultimately show ?thesis using address_argument(2) [of a] by (simp del: replicate.simps)
qed

lemma balance_arguments:
  "map (abi_argument (encode_balance_of a t)) [0, 1] = [Some (unat a), Some (unat t)]"
proof -
  let ?bs = "[replicate 12 0 @ as_bytes a, to_big_endian t]"
  have "encode_balance_of a t = [0x00, 0xfd, 0xd5, 0x8e] @ concat ?bs @ []" by (simp add: encode_balance_of_def)
  then have "abi_argument (encode_balance_of a t) i = Some (be_value (?bs ! i))" if "i < 2" for i
    using that abi_argument_concat [of "[0x00, 0xfd, 0xd5, 0x8e]" ?bs i "[]"] by simp
  then show ?thesis using address_argument(2) [of a] by (simp del: replicate.simps)
qed

lemma merge_arguments:
  "map (abi_argument (encode_merge_positions m is n)) [0, 1, 2] = [Some (unat m), Some 0, Some (unat n)]"
proof -
  let ?bs = "[to_big_endian m, to_big_endian 0, to_big_endian n]"
  have "encode_merge_positions m is n = [0x8f, 0x3e, 0xa0, 0xd1] @ concat ?bs @ []"
    by (simp add: encode_merge_positions_def)
  then have "abi_argument (encode_merge_positions m is n) i = Some (be_value (?bs ! i))" if "i < 3" for i
    using that abi_argument_concat [of "[0x8f, 0x3e, 0xa0, 0xd1]" ?bs i "[]"] by simp
  then show ?thesis by simp
qed

lemma be_bytes_last: "to_big_endian n = be_bytes 31 (unat n div 256) @ [word_of_nat (unat n mod 256)]"
  using be_bytes.simps(2) [of 31 "unat n"] by (simp add: to_big_endian_def del: be_bytes.simps)

lemma split_arguments:
  "map (abi_argument (encode_split_position m k n)) [0, 2] = [Some (unat m), None]"
  "abi_argument (encode_split_position m k n) 1 = Some (unat k * 256 ^ 31 + unat n div 256)"
proof -
  let ?s = "[0x4c, 0x83, 0x0c, 0xbd]"
  have sp: "encode_split_position m k n = ?s @ to_big_endian m @ k # to_big_endian n"
    by (simp add: encode_split_position_def)
  have "abi_argument (encode_split_position m k n) 0 = Some (unat m)"
    unfolding sp by (subst abi_argument_0) simp_all
  moreover have "abi_argument (encode_split_position m k n) 2 = None"
    unfolding sp by (simp add: abi_argument_def)
  ultimately show "map (abi_argument (encode_split_position m k n)) [0, 2] = [Some (unat m), None]" by simp
  have small: "unat n div 256 < 256 ^ 31"
    using unat_bound [of n] by (intro less_mult_imp_div_less) simp
  have "?s @ k # to_big_endian n = ?s @ (k # be_bytes 31 (unat n div 256)) @ [word_of_nat (unat n mod 256)]"
    by (subst be_bytes_last) simp
  moreover have "length (k # be_bytes 31 (unat n div 256)) = 32" by simp
  moreover have "length ?s = 4" by simp
  ultimately have "abi_argument (?s @ k # to_big_endian n) 0 = Some (be_value (k # be_bytes 31 (unat n div 256)))"
    by (metis abi_argument_0)
  also have "be_value (k # be_bytes 31 (unat n div 256)) = unat k * 256 ^ 31 + unat n div 256"
    using small by (simp add: be_value_Cons be_value_bytes del: be_bytes.simps)
  finally show "abi_argument (encode_split_position m k n) 1 = Some (unat k * 256 ^ 31 + unat n div 256)"
    unfolding sp One_nat_def by (subst abi_argument_Suc) (simp_all del: be_bytes.simps)
qed

text \<open>
  The contract reads from the data of a balance query and of a transfer exactly the address, the token and
  the amount. From the data of a merge it reads the market and the amount but, whatever indices were
  given, an empty set of them, and the same data as from a redemption; the data of a split is too short
  for a third argument, and its second one has the outcome as top byte and misses the last of the amount.
\<close>
theorem contract_reads:
  "abi_selector (encode_transfer a t n) = [0xf2, 0x42, 0x43, 0x2a] \<and>
   map (abi_argument (encode_balance_of a t)) [0, 1] = [Some (unat a), Some (unat t)] \<and>
   map (abi_argument (encode_transfer a t n)) [0, 1, 2, 3] = [Some (unat a), Some (unat t), Some (unat n), Some 0] \<and>
   map (abi_argument (encode_merge_positions m is n)) [0, 1, 2] = [Some (unat m), Some 0, Some (unat n)] \<and>
   encode_merge_positions m is n = encode_redeem_positions m js n \<and>
   map (abi_argument (encode_split_position m k n)) [0, 2] = [Some (unat m), None] \<and>
   abi_argument (encode_split_position m k n) 1 = Some (unat k * 256 ^ 31 + unat n div 256)"
proof -
  have "abi_selector (encode_transfer a t n) = [0xf2, 0x42, 0x43, 0x2a]"
    by (simp add: abi_selector_def encode_transfer_def)
  moreover have "encode_merge_positions m is n = encode_redeem_positions m js n"
    by (simp add: encode_merge_positions_def encode_redeem_positions_def)
  ultimately show ?thesis
    using transfer_arguments [of a t n] balance_arguments [of a t] merge_arguments [of m "is" n]
      split_arguments [of m k n] by blast
qed

end
