(* ===== verification/Chain_Provider.thy ===== *)
theory Chain_Provider
  imports Contract_Calls Common_Types Float_Ops
begin

text \<open>
  \<open>blockchain/src/provider.rs\<close> and \<open>transactions.rs\<close>: sending transactions with a local nonce, and the manager
  that queues failed ones and retries them. The node the provider talks to is foreign: a record of what it
  answers, over an unknown state \<open>'n\<close>. \<open>None\<close> is a panic of the integer type \<open>U256\<close>, which panics on overflow.
\<close>

text \<open>The chains, with their numbers.\<close>

datatype chain_id = Mainnet | Polygon | Mumbai

fun chain_number :: "chain_id \<Rightarrow> u64" where
  "chain_number Mainnet = 1"
| "chain_number Polygon = 137"
| "chain_number Mumbai = 80001"

record transaction_result =
  tr_hash :: u256
  tr_nonce :: u64
  tr_gas_price :: u256
  tr_gas_used :: u256
  tr_status :: bool
  tr_block_number :: u64
  tr_timestamp :: datetime

record gas_estimate =
  ge_gas_limit :: u64
  ge_max_fee_per_gas :: u256
  ge_max_priority_fee_per_gas :: u256
  ge_estimated_cost_usd :: f64

text \<open>What is signed and sent, and what comes back.\<close>

record eip1559 =
  et_to :: address
  et_value :: u256
  et_data :: "u8 list"
  et_gas :: u64
  et_max_fee_per_gas :: u256
  et_max_priority_fee_per_gas :: u256
  et_nonce :: u64

record receipt =
  rc_hash :: u256
  rc_index :: u64
  rc_gas_price :: "u256 option"
  rc_gas_used :: "u256 option"
  rc_status :: "u64 option"
  rc_block_number :: "u64 option"

record 'n node =
  nd_gas_price :: "'n \<Rightarrow> string + u256"
  nd_sign :: "eip1559 \<Rightarrow> bool"
  nd_send :: "'n \<Rightarrow> eip1559 \<Rightarrow> 'n \<times> bool"
  nd_confirm :: "'n \<Rightarrow> 'n \<times> receipt option option"
  nd_transaction_count :: "'n \<Rightarrow> string + u256"
  nd_block_number :: "'n \<Rightarrow> string + u64"

section \<open>The provider\<close>

definition u256_checked :: "int \<Rightarrow> u256 option" where
  "u256_checked x = (if 0 \<le> x \<and> x < 2 ^ 256 then Some (word_of_int x) else None)"

definition max_priority_fee :: u256 where
  "max_priority_fee = 30000000000"

definition estimate_gas :: "'n node \<Rightarrow> 'n \<Rightarrow> gas_estimate app_result option" where
  "estimate_gas N n =
     (case nd_gas_price N n of
        Inl e \<Rightarrow> Some (Inl (Internal [Lit ''Failed to get gas price: '', Foreign e]))
      | Inr base_fee \<Rightarrow>
          (case u256_checked (uint base_fee * 2) of
             None \<Rightarrow> None
           | Some d \<Rightarrow>
               (case u256_checked (uint d + uint max_priority_fee) of
                  None \<Rightarrow> None
                | Some max_fee \<Rightarrow>
                    (case u256_checked (uint max_fee * 500000) of
                       None \<Rightarrow> None
                     | Some cost_wei \<Rightarrow>
                         if 2 ^ 64 \<le> uint cost_wei then None
                         else
                           (let matic = f64_div (f64_of_word cost_wei) (f64_lit (10 ^ 18)) in
                            Some (Inr \<lparr>ge_gas_limit = 500000, ge_max_fee_per_gas = max_fee,
                                       ge_max_priority_fee_per_gas = max_priority_fee,
                                       ge_estimated_cost_usd = f64_mul matic (f64_lit (1 / 2))\<rparr>))))))"

definition typed_transaction :: "transaction_request \<Rightarrow> gas_estimate \<Rightarrow> u64 \<Rightarrow> eip1559" where
  "typed_transaction tx g nonce =
     \<lparr>et_to = (case tx_to tx of None \<Rightarrow> 0 | Some a \<Rightarrow> a), et_value = (case tx_value tx of None \<Rightarrow> 0 | Some v \<Rightarrow> v),
      et_data = (case tx_data tx of None \<Rightarrow> [] | Some d \<Rightarrow> d), et_gas = ge_gas_limit g,
      et_max_fee_per_gas = ge_max_fee_per_gas g, et_max_priority_fee_per_gas = ge_max_priority_fee_per_gas g,
      et_nonce = nonce\<rparr>"

definition result_of_receipt :: "datetime \<Rightarrow> receipt \<Rightarrow> transaction_result" where
  "result_of_receipt now r =
     \<lparr>tr_hash = rc_hash r, tr_nonce = rc_index r,
      tr_gas_price = (case rc_gas_price r of None \<Rightarrow> 0 | Some g \<Rightarrow> g),
      tr_gas_used = (case rc_gas_used r of None \<Rightarrow> 0 | Some g \<Rightarrow> g),
      tr_status = (case rc_status r of None \<Rightarrow> False | Some s \<Rightarrow> s = 1),
      tr_block_number = (case rc_block_number r of None \<Rightarrow> 0 | Some b \<Rightarrow> b), tr_timestamp = now\<rparr>"

text \<open>\<open>send_transaction\<close>, on the local nonce and the state of the node.\<close>

definition send_transaction ::
  "'n node \<Rightarrow> datetime \<Rightarrow> transaction_request \<Rightarrow> u64 \<Rightarrow> 'n \<Rightarrow>
     (transaction_result app_result \<times> u64 \<times> 'n) option" where
  "send_transaction N now tx nonce n =
     (case estimate_gas N n of
        None \<Rightarrow> None
      | Some (Inl e) \<Rightarrow> Some (Inl e, nonce, n)
      | Some (Inr g) \<Rightarrow>
          (let typed = typed_transaction tx g nonce in
           if \<not> nd_sign N typed then Some (Inl (Internal [Lit ''Failed to sign transaction'']), nonce, n)
           else
             (case nd_send N n typed of
                (n1, False) \<Rightarrow> Some (Inl (Internal [Lit ''Failed to send transaction'']), nonce, n1)
              | (n1, True) \<Rightarrow>
                  (case nd_confirm N n1 of
                     (n2, None) \<Rightarrow> Some (Inl (Internal [Lit ''Failed to confirm transaction'']), nonce, n2)
                   | (n2, Some None) \<Rightarrow> Some (Inl (Internal [Lit ''Transaction receipt not found'']), nonce, n2)
                   | (n2, Some (Some r)) \<Rightarrow> Some (Inr (result_of_receipt now r), nonce + 1, n2)))))"

definition get_transaction_count :: "'n node \<Rightarrow> 'n \<Rightarrow> u64 app_result" where
  "get_transaction_count N n =
     (case nd_transaction_count N n of
        Inl e \<Rightarrow> Inl (Internal [Lit ''Failed to get nonce: '', Foreign e])
      | Inr c \<Rightarrow> Inr (ucast c))"

text \<open>\<open>initialize_nonce\<close>; \<open>as_u64\<close> panics beyond 64 bits.\<close>

definition initialize_nonce :: "'n node \<Rightarrow> 'n \<Rightarrow> u64 app_result option" where
  "initialize_nonce N n =
     (case nd_transaction_count N n of
        Inl e \<Rightarrow> Some (Inl (Internal [Lit ''Failed to get nonce: '', Foreign e]))
      | Inr c \<Rightarrow> if 2 ^ 64 \<le> uint c then None else Some (Inr (ucast c)))"

definition get_block_number :: "'n node \<Rightarrow> 'n \<Rightarrow> u64 app_result" where
  "get_block_number N n =
     (case nd_block_number N n of
        Inl e \<Rightarrow> Inl (Internal [Lit ''Failed to get block number: '', Foreign e])
      | Inr b \<Rightarrow> Inr b)"

section \<open>The transaction manager\<close>

record pending_transaction =
  pt_request :: transaction_request
  pt_submitted_at :: int
  pt_retry_count :: nat
  pt_last_gas_bump_block :: "u64 option"

record retry_config =
  rt_max_retries :: nat
  rt_base_delay_ms :: nat
  rt_max_delay_ms :: nat

definition default_retry :: retry_config where
  "default_retry = \<lparr>rt_max_retries = 3, rt_base_delay_ms = 1000, rt_max_delay_ms = 30000\<rparr>"

record 'n manager =
  mg_pending :: "u256 \<Rightarrow> pending_transaction option"
  mg_next_nonce :: u64
  mg_nonce :: u64
  mg_node :: 'n

text \<open>\<open>get_and_increment_nonce\<close>: a counter of its own, which \<open>submit\<close> does not use.\<close>

definition get_and_increment_nonce :: "'n manager \<Rightarrow> u64 \<times> 'n manager" where
  "get_and_increment_nonce s = (mg_next_nonce s, s\<lparr>mg_next_nonce := mg_next_nonce s + 1\<rparr>)"

text \<open>\<open>hash\<close> is the Keccak hash of the JSON text of a request; \<open>clock\<close> counts milliseconds.\<close>

definition submit_transaction ::
  "'n node \<Rightarrow> (transaction_request \<Rightarrow> u256) \<Rightarrow> datetime \<Rightarrow> int \<Rightarrow> transaction_request \<Rightarrow> 'n manager \<Rightarrow>
     (transaction_result app_result \<times> 'n manager) option" where
  "submit_transaction N hash now clock request s =
     (case send_transaction N now request (mg_nonce s) (mg_node s) of
        None \<Rightarrow> None
      | Some (Inr r, nonce, n) \<Rightarrow> Some (Inr r, s\<lparr>mg_nonce := nonce, mg_node := n\<rparr>)
      | Some (Inl e, nonce, n) \<Rightarrow>
          Some (Inl e, s\<lparr>mg_nonce := nonce, mg_node := n,
            mg_pending := (mg_pending s)(hash request \<mapsto>
              \<lparr>pt_request = request, pt_submitted_at = clock, pt_retry_count = 0,
               pt_last_gas_bump_block = None\<rparr>)\<rparr>))"

definition retry_delay :: "retry_config \<Rightarrow> nat \<Rightarrow> nat" where
  "retry_delay c retries = min (rt_base_delay_ms c * 2 ^ retries) (rt_max_delay_ms c)"

definition should_gas_bump :: "u64 \<Rightarrow> pending_transaction \<Rightarrow> bool" where
  "should_gas_bump current_block p =
     (case pt_last_gas_bump_block p of
        None \<Rightarrow> 2 \<le> current_block
      | Some b \<Rightarrow> b + 2 \<le> current_block)"

text \<open>
  One entry of one round: whether it is to be removed, what it becomes, and the nonce and node after. The
  gas bump is noted and logged; the request that is sent is the old one.
\<close>

definition retry_entry ::
  "'n node \<Rightarrow> retry_config \<Rightarrow> datetime \<Rightarrow> int \<Rightarrow> u64 \<Rightarrow> pending_transaction \<Rightarrow> u64 \<Rightarrow> 'n \<Rightarrow>
     (bool \<times> pending_transaction \<times> u64 \<times> 'n) option" where
  "retry_entry N c now clock current_block p nonce n =
     (if rt_max_retries c \<le> pt_retry_count p then Some (True, p, nonce, n)
      else
        (let p1 = (if should_gas_bump current_block p then p\<lparr>pt_last_gas_bump_block := Some current_block\<rparr> else p)
         in
         if clock - pt_submitted_at p1 < int (retry_delay c (pt_retry_count p1)) then Some (False, p1, nonce, n)
         else
           (case send_transaction N now (pt_request p) nonce n of
              None \<Rightarrow> None
            | Some (Inr r, nonce', n') \<Rightarrow> Some (True, p1, nonce', n')
            | Some (Inl e, nonce', n') \<Rightarrow>
                Some (False, p1\<lparr>pt_retry_count := pt_retry_count p1 + 1, pt_submitted_at := clock\<rparr>, nonce', n'))))"

fun retry_entries ::
  "'n node \<Rightarrow> retry_config \<Rightarrow> datetime \<Rightarrow> int \<Rightarrow> u64 \<Rightarrow> u256 list \<Rightarrow> 'n manager \<Rightarrow>
     (u256 list \<times> 'n manager) option" where
  "retry_entries N c now clock current_block [] s = Some ([], s)"
| "retry_entries N c now clock current_block (h # hs) s =
     (case mg_pending s h of
        None \<Rightarrow> retry_entries N c now clock current_block hs s
      | Some p \<Rightarrow>
          (case retry_entry N c now clock current_block p (mg_nonce s) (mg_node s) of
             None \<Rightarrow> None
           | Some (gone, p', nonce, n) \<Rightarrow>
               (case retry_entries N c now clock current_block hs
                       (s\<lparr>mg_pending := (mg_pending s)(h \<mapsto> p'), mg_nonce := nonce, mg_node := n\<rparr>) of
                  None \<Rightarrow> None
                | Some (completed, s') \<Rightarrow> Some (if gone then h # completed else completed, s'))))"

text \<open>A round of the retry loop over the entries in the order of the hash map.\<close>

definition retry_round ::
  "'n node \<Rightarrow> retry_config \<Rightarrow> datetime \<Rightarrow> int \<Rightarrow> u256 list \<Rightarrow> 'n manager \<Rightarrow> 'n manager option" where
  "retry_round N c now clock hash_order s =
     (let current_block = (case get_block_number N (mg_node s) of Inl _ \<Rightarrow> 0 | Inr b \<Rightarrow> b) in
      map_option (\<lambda>(completed, s'). s'\<lparr>mg_pending := (mg_pending s') |` (- set completed)\<rparr>)
        (retry_entries N c now clock current_block hash_order s))"

definition pending_count :: "'n manager \<Rightarrow> nat" where
  "pending_count s = card (dom (mg_pending s))"

section \<open>Gas\<close>

lemma uint_u256: "0 \<le> x \<Longrightarrow> x < 2 ^ 256 \<Longrightarrow> uint (word_of_int x :: u256) = x"
  by (simp add: uint_word_of_int)

lemma u256_checked_Some: "u256_checked x = Some d \<Longrightarrow> uint d = x"
  by (simp only: u256_checked_def split: if_splits) (auto simp only: option.inject uint_u256)

text \<open>
  The gas estimate offers twice the node's gas price and 30 gwei on top. It panics, and with it every
  transaction that is sent, exactly when the gas price is above 18431744073709 wei (18,431 gwei): the
  cost in wei no longer fits the 64 bits it is cast to for the message about its price in dollars.
\<close>
theorem gas_estimate_panics_above:
  assumes "nd_gas_price N n = Inr base_fee"
  shows "(18431744073709 < uint base_fee \<longrightarrow> estimate_gas N n = None \<and> send_transaction N now tx nonce n = None) \<and>
    (uint base_fee \<le> 18431744073709 \<longrightarrow> (\<exists>g. estimate_gas N n = Some (Inr g) \<and>
       uint (ge_max_fee_per_gas g) = 2 * uint base_fee + 30000000000 \<and> ge_gas_limit g = 500000))"
proof -
  let ?b = "uint base_fee"
  have prio: "uint max_priority_fee = 30000000000" by (simp add: max_priority_fee_def)
  have b0: "0 \<le> ?b" by simp
  have big: "estimate_gas N n = None" if "18431744073709 < ?b"
  proof -
    { fix d m c
      assume "u256_checked (?b * 2) = Some d" "u256_checked (uint d + 30000000000) = Some m"
        "u256_checked (uint m * 500000) = Some c"
      then have "uint c = (?b * 2 + 30000000000) * 500000"
        by (auto dest!: u256_checked_Some)
      with that have "2 ^ 64 \<le> uint c" by simp }
    then show ?thesis
      by (auto simp: estimate_gas_def assms prio split: option.splits)
  qed
  have small: "\<exists>g. estimate_gas N n = Some (Inr g) \<and>
       uint (ge_max_fee_per_gas g) = 2 * ?b + 30000000000 \<and> ge_gas_limit g = 500000" if le: "?b \<le> 18431744073709"
  proof -
    have ex: "\<exists>d. u256_checked x = Some d" if "0 \<le> x" "x < 2 ^ 256" for x
      using that by (simp add: u256_checked_def)
    obtain d where d: "u256_checked (?b * 2) = Some d" using ex [of "?b * 2"] le b0 by auto
    obtain m where m: "u256_checked (uint d + 30000000000) = Some m"
      using ex [of "uint d + 30000000000"] le b0 u256_checked_Some [OF d] by auto
    obtain c where c: "u256_checked (uint m * 500000) = Some c"
      using ex [of "uint m * 500000"] le b0 u256_checked_Some [OF d] u256_checked_Some [OF m] by auto
    have v: "uint m = 2 * ?b + 30000000000" "uint c = (2 * ?b + 30000000000) * 500000"
      using u256_checked_Some [OF d] u256_checked_Some [OF m] u256_checked_Some [OF c] by simp_all
    then have "\<not> 2 ^ 64 \<le> uint c" using le by simp
    then show ?thesis using d m c v(1) by (simp add: estimate_gas_def assms prio Let_def)
  qed
  from big small show ?thesis by (simp add: send_transaction_def)
qed

section \<open>Nonces\<close>

text \<open>A confirmed transaction used the local nonce and moves it on by one; any other leaves it.\<close>

lemma send_transaction_nonce:
  "send_transaction N now tx nonce n = Some (r, nonce', n') \<Longrightarrow>
     nonce' = (case r of Inl e \<Rightarrow> nonce | Inr t \<Rightarrow> nonce + 1)"
  by (auto simp: send_transaction_def Let_def split: option.splits sum.splits prod.splits bool.splits if_splits)

text \<open>
  What a node does with nonces: the account's next nonce never falls, and a transaction with a smaller one is
  refused.
\<close>

definition refuses_stale :: "'n node \<Rightarrow> ('n \<Rightarrow> int) \<Rightarrow> bool" where
  "refuses_stale N account_nonce \<longleftrightarrow>
     (\<forall>n t n' ok. nd_send N n t = (n', ok) \<longrightarrow>
        account_nonce n \<le> account_nonce n' \<and> (uint (et_nonce t) < account_nonce n \<longrightarrow> \<not> ok)) \<and>
     (\<forall>n n' r. nd_confirm N n = (n', r) \<longrightarrow> account_nonce n \<le> account_nonce n')"

lemma stale_send_fails:
  assumes "refuses_stale N account_nonce" and "uint nonce < account_nonce n"
    and "send_transaction N now tx nonce n = Some (r, nonce', n')"
  shows "(\<exists>e. r = Inl e) \<and> nonce' = nonce \<and> account_nonce n \<le> account_nonce n'"
proof -
  have "et_nonce (typed_transaction tx g nonce) = nonce" for g by (simp add: typed_transaction_def)
  then have refuse: "\<not> ok \<and> account_nonce n \<le> account_nonce n''"
    if "nd_send N n (typed_transaction tx g nonce) = (n'', ok)" for g n'' ok
    using assms(1,2) that unfolding refuses_stale_def by metis
  then show ?thesis
    using assms(3)
    by (auto simp: send_transaction_def Let_def split: option.splits sum.splits prod.splits bool.splits if_splits
        dest!: refuse)
qed

text \<open>A sequence of sends, with whatever the rest of the world does to the node in between.\<close>

inductive wallet_run ::
  "'n node \<Rightarrow> ('n \<Rightarrow> int) \<Rightarrow> u64 \<times> 'n \<Rightarrow> transaction_result app_result list \<Rightarrow> u64 \<times> 'n \<Rightarrow> bool"
  for N :: "'n node" and account_nonce :: "'n \<Rightarrow> int" where
  wallet_idle: "wallet_run N account_nonce s [] s"
| wallet_send: "send_transaction N now tx nonce n = Some (r, nonce', n') \<Longrightarrow>
    wallet_run N account_nonce (nonce', n') rs t \<Longrightarrow> wallet_run N account_nonce (nonce, n) (r # rs) t"
| wallet_other: "account_nonce n \<le> account_nonce n' \<Longrightarrow>
    wallet_run N account_nonce (nonce, n') rs t \<Longrightarrow> wallet_run N account_nonce (nonce, n) rs t"

lemma wallet_stuck:
  assumes "refuses_stale N account_nonce" and "wallet_run N account_nonce s rs t"
    and "uint (fst s) < account_nonce (snd s)"
  shows "(\<forall>r\<in>set rs. \<exists>e. r = Inl e) \<and> fst t = fst s"
  using assms(2,3)
proof (induction rule: wallet_run.induct)
  case (wallet_send now tx nonce n r nonce' n' rs t)
  from stale_send_fails [OF assms(1) _ wallet_send(1)] wallet_send(4)
  have "(\<exists>e. r = Inl e) \<and> nonce' = nonce \<and> account_nonce n \<le> account_nonce n'" by simp
  with wallet_send show ?case by simp
qed auto

text \<open>
  The local nonce only moves on when a receipt arrives. Suppose the network has executed a transaction whose
  receipt the provider did not get (the send was accepted, the confirmation failed, and the account's
  nonce is past the local one). Then that call reports an error, and from then on every transaction of the
  wallet fails, whatever is sent and however the network goes on: the nonce is never read again.
\<close>
theorem lost_receipt_stops_wallet:
  assumes "refuses_stale N account_nonce"
    and "send_transaction N now tx nonce n = Some (r, nonce', n')" and "uint nonce < account_nonce n'"
    and "\<exists>e. r = Inl e" and "wallet_run N account_nonce (nonce', n') rs t"
  shows "nonce' = nonce \<and> (\<forall>x\<in>set rs. \<exists>e. x = Inl e) \<and> fst t = nonce"
proof -
  from send_transaction_nonce [OF assms(2)] assms(4) have "nonce' = nonce" by auto
  with wallet_stuck [OF assms(1,5)] assms(3) show ?thesis by simp
qed

text \<open>A node that executes what it accepts at once and loses every receipt.\<close>

definition lossy_node :: "int node" where
  "lossy_node =
     \<lparr>nd_gas_price = (\<lambda>n. Inr 1), nd_sign = (\<lambda>t. True),
      nd_send = (\<lambda>n t. if uint (et_nonce t) = n then (n + 1, True) else (n, False)),
      nd_confirm = (\<lambda>n. (n, None)), nd_transaction_count = (\<lambda>n. Inr (word_of_int n)),
      nd_block_number = (\<lambda>n. Inr 0)\<rparr>"

definition empty_request :: transaction_request where
  "empty_request = \<lparr>tx_to = None, tx_value = None, tx_data = None, tx_gas = None, tx_nonce = None\<rparr>"

lemma lossy_refuses_stale: "refuses_stale lossy_node (\<lambda>n. n)"
  by (auto simp: refuses_stale_def lossy_node_def split: if_splits)

lemma lossy_estimate: "\<exists>g. estimate_gas lossy_node n = Some (Inr g)"
  by (simp add: estimate_gas_def lossy_node_def u256_checked_def max_priority_fee_def Let_def)

lemma lossy_send:
  "send_transaction lossy_node now tx nonce n =
     Some (if uint nonce = n then (Inl (Internal [Lit ''Failed to confirm transaction'']), nonce, n + 1)
           else (Inl (Internal [Lit ''Failed to send transaction'']), nonce, n))"
proof -
  from lossy_estimate [of n] obtain g where "estimate_gas lossy_node n = Some (Inr g)" ..
  then show ?thesis
    by (simp add: send_transaction_def Let_def) (simp add: lossy_node_def typed_transaction_def)
qed

lemma lost_receipt_stops_wallet_witness:
  "\<exists>n'. send_transaction lossy_node 0 empty_request 5 5 =
       Some (Inl (Internal [Lit ''Failed to confirm transaction'']), 5, n') \<and>
     (\<forall>rs t. wallet_run lossy_node (\<lambda>n. n) (5, n') rs t \<longrightarrow> (\<forall>x\<in>set rs. \<exists>e. x = Inl e))"
proof -
  have s: "send_transaction lossy_node 0 empty_request 5 5 =
      Some (Inl (Internal [Lit ''Failed to confirm transaction'']), 5, 6)" by (simp add: lossy_send)
  show ?thesis
    using s lost_receipt_stops_wallet [OF lossy_refuses_stale s] by auto
qed

lemma gas_estimate_panics_above_witness:
  "estimate_gas (lossy_node\<lparr>nd_gas_price := \<lambda>n. Inr 18431744073710\<rparr>) 0 = None"
  using gas_estimate_panics_above
    [of "lossy_node\<lparr>nd_gas_price := \<lambda>n. Inr 18431744073710\<rparr>" 0 18431744073710] by simp

section \<open>Retries end\<close>

text \<open>Every pending entry has been retried at least \<open>k\<close> times and was last touched by \<open>clock\<close>.\<close>

definition retried :: "nat \<Rightarrow> int \<Rightarrow> 'n manager \<Rightarrow> bool" where
  "retried k clock s \<longleftrightarrow> (\<forall>h p. mg_pending s h = Some p \<longrightarrow> k \<le> pt_retry_count p \<and> pt_submitted_at p \<le> clock)"

lemma retry_delay_le: "retries < 3 \<Longrightarrow> retry_delay default_retry retries \<le> 4000"
proof -
  assume "retries < 3"
  then have "(2 :: nat) ^ retries \<le> 2 ^ 2" by (intro power_increasing) auto
  then show ?thesis by (simp add: retry_delay_def default_retry_def)
qed

lemma retry_entry_counts:
  assumes "retry_entry N default_retry now clock cb p nonce n = Some (gone, p', nonce', n')"
    and "pt_submitted_at p + 4000 \<le> clock"
  shows "(3 \<le> pt_retry_count p \<longrightarrow> gone) \<and>
    (\<not> gone \<longrightarrow> pt_retry_count p' = Suc (pt_retry_count p) \<and> pt_submitted_at p' = clock)"
proof (cases "3 \<le> pt_retry_count p")
  case True
  with assms(1) show ?thesis by (simp add: retry_entry_def default_retry_def)
next
  case False
  then have "\<not> clock - pt_submitted_at p < int (retry_delay default_retry (pt_retry_count p))"
    using retry_delay_le [of "pt_retry_count p"] assms(2) by simp
  moreover have "\<not> rt_max_retries default_retry \<le> pt_retry_count p" using False by (simp add: default_retry_def)
  ultimately show ?thesis
    using assms(1) False
    by (auto simp: retry_entry_def Let_def split: option.splits sum.splits if_splits)
qed

lemma retry_entries_frame:
  "retry_entries N c now clock cb hs s = Some (completed, s') \<Longrightarrow> h \<notin> set hs \<Longrightarrow>
     mg_pending s' h = mg_pending s h \<and> h \<notin> set completed"
  by (induction hs arbitrary: s completed) (auto split: option.splits if_splits)

lemma retry_entries_counts:
  assumes "retry_entries N default_retry now clock cb hs s = Some (completed, s')" and "distinct hs"
    and "\<forall>h\<in>set hs. \<forall>p. mg_pending s h = Some p \<longrightarrow> k \<le> pt_retry_count p \<and> pt_submitted_at p + 4000 \<le> clock"
    and "h \<in> set hs" and "mg_pending s' h = Some p'" and "h \<notin> set completed"
  shows "k < 3 \<and> Suc k \<le> pt_retry_count p' \<and> pt_submitted_at p' \<le> clock"
  using assms
proof (induction hs arbitrary: s completed)
  case (Cons g hs)
  show ?case
  proof (cases "mg_pending s g")
    case None
    with Cons.prems(1) have r: "retry_entries N default_retry now clock cb hs s = Some (completed, s')" by simp
    have "h \<noteq> g" using retry_entries_frame [OF r, of g] None Cons.prems(2,5) by auto
    with Cons.IH [OF r] Cons.prems show ?thesis by simp
  next
    case (Some p)
    then obtain gone q nonce n where e: "retry_entry N default_retry now clock cb p (mg_nonce s) (mg_node s) = Some (gone, q, nonce, n)"
      using Cons.prems(1) by (auto split: option.splits)
    let ?s = "s\<lparr>mg_pending := (mg_pending s)(g \<mapsto> q), mg_nonce := nonce, mg_node := n\<rparr>"
    obtain comp where r: "retry_entries N default_retry now clock cb hs ?s = Some (comp, s')"
      and c: "completed = (if gone then g # comp else comp)"
      using Cons.prems(1) Some e by (auto split: option.splits)
    from Cons.prems(3) Some have p: "k \<le> pt_retry_count p" "pt_submitted_at p + 4000 \<le> clock" by auto
    show ?thesis
    proof (cases "h = g")
      case True
      then have "\<not> gone" using Cons.prems(6) c by auto
      moreover have "mg_pending s' g = Some q" using retry_entries_frame [OF r, of g] Cons.prems(2) by simp
      ultimately show ?thesis using retry_entry_counts [OF e p(2)] p True Cons.prems(5) by auto
    next
      case False
      have "\<forall>h\<in>set hs. \<forall>p. mg_pending ?s h = Some p \<longrightarrow> k \<le> pt_retry_count p \<and> pt_submitted_at p + 4000 \<le> clock"
        using Cons.prems(2,3) by auto
      with Cons.IH [OF r _ this] False Cons.prems c show ?thesis by (auto split: if_splits)
    qed
  qed
qed simp

lemma retry_round_counts:
  assumes "retry_round N default_retry now clock hs s = Some s'" and "distinct hs" and "dom (mg_pending s) = set hs"
    and "retried k (clock - 4000) s"
  shows "retried (Suc k) clock s' \<and> (3 \<le> k \<longrightarrow> mg_pending s' = Map.empty)"
proof -
  obtain completed t where r: "retry_entries N default_retry now clock
      (case get_block_number N (mg_node s) of Inl _ \<Rightarrow> 0 | Inr b \<Rightarrow> b) hs s = Some (completed, t)"
    and s': "s' = t\<lparr>mg_pending := (mg_pending t) |` (- set completed)\<rparr>"
    using assms(1) by (auto simp: retry_round_def Let_def)
  have old: "\<forall>h\<in>set hs. \<forall>p. mg_pending s h = Some p \<longrightarrow> k \<le> pt_retry_count p \<and> pt_submitted_at p + 4000 \<le> clock"
    using assms(4) by (fastforce simp: retried_def)
  have new: "k < 3 \<and> Suc k \<le> pt_retry_count p \<and> pt_submitted_at p \<le> clock" if "mg_pending s' h = Some p" for h p
  proof -
    from that s' have t: "mg_pending t h = Some p" "h \<notin> set completed" by (auto simp: restrict_map_def split: if_splits)
    have "h \<in> set hs"
    proof (rule ccontr)
      assume "h \<notin> set hs"
      with retry_entries_frame [OF r] t assms(3) show False by (metis domIff option.distinct(1))
    qed
    from retry_entries_counts [OF r assms(2) old this t] show ?thesis .
  qed
  have "mg_pending s' = Map.empty" if "3 \<le> k"
  proof
    show "mg_pending s' h = None" for h using new [of h] that by (cases "mg_pending s' h") auto
  qed
  with new show ?thesis by (simp add: retried_def)
qed

text \<open>
  Successive rounds, the clock of each at least four seconds after the one before (the loop ticks every
  ten), each over all entries in some order.
\<close>

inductive retry_rounds :: "'n node \<Rightarrow> nat \<Rightarrow> int \<Rightarrow> 'n manager \<Rightarrow> int \<Rightarrow> 'n manager \<Rightarrow> bool" for N :: "'n node" where
  no_round: "retry_rounds N 0 clock s clock s"
| one_more: "retry_rounds N k clock s clock' t \<Longrightarrow> clock' + 4000 \<le> clock'' \<Longrightarrow> distinct hs \<Longrightarrow>
    dom (mg_pending t) = set hs \<Longrightarrow> retry_round N default_retry now clock'' hs t = Some u \<Longrightarrow>
    retry_rounds N (Suc k) clock s clock'' u"

lemma retry_rounds_count:
  "retry_rounds N k clock s clock' t \<Longrightarrow> retried 0 clock s \<Longrightarrow>
     retried k clock' t \<and> (3 < k \<longrightarrow> mg_pending t = Map.empty)"
proof (induction rule: retry_rounds.induct)
  case (one_more k clock s clock' t clock'' hs now u)
  then have "retried k clock' t" by simp
  then have "retried k (clock'' - 4000) t" using one_more(2) by (fastforce simp: retried_def)
  from retry_round_counts [OF one_more(5,3,4) this] show ?case by auto
qed simp

text \<open>
  Retrying ends: whatever the node answers, four rounds of the retry loop at least four seconds apart leave
  no transaction pending that was pending before. Each was retried at most three times and then dropped.
\<close>
theorem retries_end:
  assumes "retry_rounds N k clock s clock' t" and "4 \<le> k"
    and "\<forall>h p. mg_pending s h = Some p \<longrightarrow> pt_submitted_at p \<le> clock"
  shows "mg_pending t = Map.empty \<and> pending_count t = 0"
  using retry_rounds_count [OF assms(1)] assms(2,3) by (simp add: retried_def pending_count_def)

definition sample_manager :: "int manager" where
  "sample_manager = \<lparr>mg_pending = [9 \<mapsto> \<lparr>pt_request = empty_request, pt_submitted_at = 0, pt_retry_count = 0,
     pt_last_gas_bump_block = None\<rparr>], mg_next_nonce = 0, mg_nonce = 5, mg_node = 7\<rparr>"

lemma sample_round:
  assumes "mg_nonce s = 5" and "mg_node s = 7" and "mg_pending s = [9 \<mapsto> p]" and "pt_retry_count p < 3"
    and "pt_submitted_at p + 4000 \<le> clock"
  shows "\<exists>s' p'. retry_round lossy_node default_retry 0 clock [9] s = Some s' \<and> mg_nonce s' = 5 \<and> mg_node s' = 7 \<and>
    mg_pending s' = [9 \<mapsto> p'] \<and> pt_retry_count p' = Suc (pt_retry_count p) \<and> pt_submitted_at p' = clock"
proof -
  have "int (retry_delay default_retry (pt_retry_count p)) \<le> 4000" using retry_delay_le [OF assms(4)] by simp
  then have "\<not> clock - pt_submitted_at p < int (retry_delay default_retry (pt_retry_count p))" using assms(5) by linarith
  moreover have "\<not> rt_max_retries default_retry \<le> pt_retry_count p" using assms(4) by (simp add: default_retry_def)
  ultimately show ?thesis
    using assms(1-3)
    by (simp add: retry_round_def Let_def retry_entry_def lossy_send restrict_map_def fun_eq_iff)
qed

lemma retries_end_witness:
  "\<exists>t. retry_rounds lossy_node 4 0 sample_manager 40000 t \<and> mg_pending t = Map.empty \<and> mg_pending sample_manager 9 \<noteq> None"
proof -
  have one: "\<exists>t q. retry_rounds lossy_node (Suc k) 0 sample_manager (clock + 10000) t \<and> mg_nonce t = 5 \<and> mg_node t = 7 \<and>
      mg_pending t = [9 \<mapsto> q] \<and> pt_retry_count q = Suc (pt_retry_count p) \<and> pt_submitted_at q = clock + 10000"
    if r: "retry_rounds lossy_node k 0 sample_manager clock s" and "mg_nonce s = 5" "mg_node s = 7"
      "mg_pending s = [9 \<mapsto> p]" "pt_retry_count p < 3" "pt_submitted_at p = clock" for k clock s p
  proof -
    have "pt_submitted_at p + 4000 \<le> clock + 10000" using that(6) by simp
    from sample_round [OF that(2-5) this] obtain t q where t: "retry_round lossy_node default_retry 0 (clock + 10000) [9] s = Some t"
      "mg_nonce t = 5" "mg_node t = 7" "mg_pending t = [9 \<mapsto> q]" "pt_retry_count q = Suc (pt_retry_count p)"
      "pt_submitted_at q = clock + 10000" by auto
    have "retry_rounds lossy_node (Suc k) 0 sample_manager (clock + 10000) t"
      by (rule retry_rounds.one_more [OF r _ _ _ t(1)]) (use that(4) in auto)
    with t show ?thesis by blast
  qed
  let ?p = "\<lparr>pt_request = empty_request, pt_submitted_at = 0, pt_retry_count = 0, pt_last_gas_bump_block = None\<rparr>"
  have "retry_rounds lossy_node 0 0 sample_manager 0 sample_manager" by (rule retry_rounds.no_round)
  from one [OF this, of ?p] obtain t1 p1 where 1: "retry_rounds lossy_node 1 0 sample_manager 10000 t1"
    "mg_nonce t1 = 5" "mg_node t1 = 7" "mg_pending t1 = [9 \<mapsto> p1]" "pt_retry_count p1 = 1" "pt_submitted_at p1 = 10000"
    by (auto simp: sample_manager_def)
  from one [OF 1(1-4)] 1(5,6) obtain t2 p2 where 2: "retry_rounds lossy_node 2 0 sample_manager 20000 t2"
    "mg_nonce t2 = 5" "mg_node t2 = 7" "mg_pending t2 = [9 \<mapsto> p2]" "pt_retry_count p2 = 2" "pt_submitted_at p2 = 20000"
    by (auto simp: numeral_2_eq_2)
  from one [OF 2(1-4)] 2(5,6) obtain t3 p3 where 3: "retry_rounds lossy_node 3 0 sample_manager 30000 t3"
    "mg_nonce t3 = 5" "mg_node t3 = 7" "mg_pending t3 = [9 \<mapsto> p3]" "pt_retry_count p3 = 3"
    by (auto simp: numeral_3_eq_3)
  have "retry_entry lossy_node default_retry 0 40000 0 p3 5 7 = Some (True, p3, 5, 7)"
    by (simp add: retry_entry_def default_retry_def 3(5))
  then have "retry_round lossy_node default_retry 0 40000 [9] t3 = Some (t3\<lparr>mg_pending := Map.empty\<rparr>)"
    using 3(2-4) by (simp add: retry_round_def Let_def get_block_number_def lossy_node_def restrict_map_def fun_eq_iff)
  from retry_rounds.one_more [OF 3(1) _ _ _ this] 3(4)
  have r4: "retry_rounds lossy_node 4 0 sample_manager 40000 (t3\<lparr>mg_pending := Map.empty\<rparr>)" by simp
  have "\<forall>h p. mg_pending sample_manager h = Some p \<longrightarrow> pt_submitted_at p \<le> 0" by (simp add: sample_manager_def)
  from retries_end [OF r4 _ this] r4 show ?thesis by (auto simp: sample_manager_def)
qed

section \<open>Connecting and balances\<close>

text \<open>
  \<open>Web3Provider::new\<close>: the connection, the wallet of the private key on the chain, and the local nonce from the
  node. What the libraries answer to connecting and to the key are arguments.
\<close>

record web3_provider =
  wp_chain_id :: chain_id
  wp_wallet_chain :: u64
  wp_address :: address
  wp_nonce :: u64

definition web3_new ::
  "'n node \<Rightarrow> 'n \<Rightarrow> string + unit \<Rightarrow> string + address \<Rightarrow> chain_id \<Rightarrow> web3_provider app_result option" where
  "web3_new N n connection key chain =
     (case connection of
        Inl e \<Rightarrow> Some (Inl (Internal [Lit ''WebSocket connect failed: '', Foreign e]))
      | Inr _ \<Rightarrow>
          (case key of
             Inl e \<Rightarrow> Some (Inl (Internal [Lit ''Key parse failed: '', Foreign e]))
           | Inr a \<Rightarrow>
               (case initialize_nonce N n of
                  None \<Rightarrow> None
                | Some (Inl e) \<Rightarrow> Some (Inl e)
                | Some (Inr c) \<Rightarrow> Some (Inr
                    \<lparr>wp_chain_id = chain, wp_wallet_chain = chain_number chain, wp_address = a, wp_nonce = c\<rparr>))))"

definition web3_balance :: "string + u256 \<Rightarrow> u256 app_result" where
  "web3_balance answer =
     (case answer of Inl e \<Rightarrow> Inl (Internal [Lit ''Failed to get balance: '', Foreign e]) | Inr b \<Rightarrow> Inr b)"

text \<open>\<open>get_token_balance\<close>: the constant ABI is parsed, the method looked up and called, each by the library.\<close>

definition token_balance :: "string + 'abi \<Rightarrow> ('abi \<Rightarrow> string + 'm) \<Rightarrow> ('m \<Rightarrow> string + u256) \<Rightarrow> u256 app_result" where
  "token_balance abi find_method call =
     (case abi of
        Inl e \<Rightarrow> Inl (Internal [Lit ''Failed to parse ERC20 ABI: '', Foreign e])
      | Inr a \<Rightarrow>
          (case find_method a of
             Inl e \<Rightarrow> Inl (Internal [Lit ''Contract error: '', Foreign e])
           | Inr m \<Rightarrow>
               (case call m of
                  Inl e \<Rightarrow> Inl (Internal [Lit ''Call failed: '', Foreign e])
                | Inr b \<Rightarrow> Inr b)))"

text \<open>
  \<open>TransactionManager::new\<close>, and the task it spawns, which stores the node's count in \<open>next_nonce\<close> when the
  answer arrives, whatever was handed out of it before.
\<close>

definition manager_new :: "u64 \<Rightarrow> 'n \<Rightarrow> 'n manager" where
  "manager_new nonce n = \<lparr>mg_pending = (\<lambda>_. None), mg_next_nonce = 0, mg_nonce = nonce, mg_node = n\<rparr>"

definition store_initial_nonce :: "'n node \<Rightarrow> 'n manager \<Rightarrow> 'n manager" where
  "store_initial_nonce N s =
     (case get_transaction_count N (mg_node s) of Inl _ \<Rightarrow> s | Inr c \<Rightarrow> s\<lparr>mg_next_nonce := c\<rparr>)"

text \<open>The local nonce starts at the node's count, exactly.\<close>

lemma web3_new_nonce:
  assumes "web3_new N n connection key chain = Some (Inr p)"
  shows "\<exists>c. nd_transaction_count N n = Inr c \<and> uint (wp_nonce p) = uint c \<and> wp_wallet_chain p = chain_number chain"
proof -
  obtain c where c: "nd_transaction_count N n = Inr c" "uint c < 2 ^ 64" "wp_nonce p = ucast c"
    "wp_wallet_chain p = chain_number chain"
    using assms by (auto simp: web3_new_def initialize_nonce_def not_le split: sum.splits option.splits if_splits)
  moreover have "uint (ucast c :: u64) = uint c"
    using c(2) by (simp add: unsigned_ucast_eq take_bit_int_eq_self)
  ultimately show ?thesis by simp
qed

text \<open>A nonce handed out before the task has stored the node's count is handed out a second time.\<close>

lemma stored_nonce_repeats:
  assumes "nd_transaction_count N (mg_node s) = Inr 0" and "mg_next_nonce s = 0"
  shows "fst (get_and_increment_nonce s) = fst (get_and_increment_nonce (store_initial_nonce N (snd (get_and_increment_nonce s))))"
  using assms by (simp add: get_and_increment_nonce_def store_initial_nonce_def get_transaction_count_def)

end
