(* ===== verification/Eip712.thy ===== *)
theory Eip712
  imports Contract_Calls
begin

text \<open>
  \<open>polymarket/src/signer.rs\<close>: the EIP-712 hash of an order and its signature. The hash function, the decoder of
  hexadecimal text and the wallet are parameters. The encoding of the order is shown to determine it, so that
  only a collision of the hash could let one signature stand for two orders.
\<close>

record order_message =
  om_maker :: string
  om_taker :: string
  om_token_id :: u64
  om_maker_amount :: u64
  om_taker_amount :: u64
  om_side :: u8
  om_expiration :: u64
  om_nonce :: u64
  om_fee_rate_bps :: u64
  om_signature_type :: u8

record eip712_domain =
  ed_name :: string
  ed_version :: string
  ed_chain_id :: u64
  ed_verifying_contract :: string

record signer_deps =
  sg_hex_decode :: "string \<Rightarrow> string + u8 list"
  sg_hex_encode :: "u8 list \<Rightarrow> string"
  sg_keccak :: "u8 list \<Rightarrow> u8 list"
  sg_sign :: "u8 list \<Rightarrow> string + u8 list"

record eip712_signer =
  sn_chain_id :: u64
  sn_contract_env :: "string option"

definition ORDER_TYPE_HASH :: string where
  "ORDER_TYPE_HASH = ''0x40c3893b0e68c223937b5f6d094d9e923019880e32802c993b7002a2a563fae2''"

definition string_bytes :: "string \<Rightarrow> u8 list" where
  "string_bytes s = map (\<lambda>c. word_of_nat (of_char c)) s"

text \<open>The slice \<open>[2..]\<close> panics when the string is too short or the cut is inside a character.\<close>

definition after_0x :: "string \<Rightarrow> string option" where
  "after_0x s =
     (if length s < 2 then None
      else if 2 < length s \<and> 128 \<le> (of_char (s ! 2) :: nat) \<and> (of_char (s ! 2) :: nat) < 192 then None
      else Some (drop 2 s))"

definition decode_hex :: "signer_deps \<Rightarrow> string \<Rightarrow> string \<Rightarrow> u8 list app_result option" where
  "decode_hex G what s =
     (case after_0x s of
        None \<Rightarrow> None
      | Some t \<Rightarrow>
          Some (case sg_hex_decode G t of Inl e \<Rightarrow> Inl (Internal [Lit what, Foreign e]) | Inr bs \<Rightarrow> Inr bs))"

definition pad_32 :: "u8 list \<Rightarrow> u8 list app_result" where
  "pad_32 bs =
     (if 32 < length bs then Inl (Internal [Lit ''Byte array too long''])
      else Inr (replicate (32 - length bs) 0 @ bs))"

definition u256_to_bytes :: "u64 \<Rightarrow> u8 list" where
  "u256_to_bytes v = replicate 24 0 @ be_bytes 8 (unat v)"

text \<open>The words of the order struct after the two addresses.\<close>

definition order_words :: "order_message \<Rightarrow> u64 list" where
  "order_words m =
     [om_token_id m, om_maker_amount m, om_taker_amount m, ucast (om_side m), om_expiration m, om_nonce m,
      om_fee_rate_bps m, ucast (om_signature_type m)]"

definition encoded_order :: "u8 list \<Rightarrow> u8 list \<Rightarrow> u8 list \<Rightarrow> order_message \<Rightarrow> u8 list" where
  "encoded_order type_hash maker taker m = type_hash @ maker @ taker @ concat (map u256_to_bytes (order_words m))"

definition hash_order_struct :: "signer_deps \<Rightarrow> order_message \<Rightarrow> u8 list app_result option" where
  "hash_order_struct G m =
     (case decode_hex G ''Type hash invalid: '' ORDER_TYPE_HASH of
        None \<Rightarrow> None
      | Some (Inl e) \<Rightarrow> Some (Inl e)
      | Some (Inr type_hash) \<Rightarrow>
          (case decode_hex G ''Maker address invalid: '' (om_maker m) of
             None \<Rightarrow> None
           | Some (Inl e) \<Rightarrow> Some (Inl e)
           | Some (Inr maker) \<Rightarrow>
               (case decode_hex G ''Taker address invalid: '' (om_taker m) of
                  None \<Rightarrow> None
                | Some (Inl e) \<Rightarrow> Some (Inl e)
                | Some (Inr taker) \<Rightarrow>
                    Some (case (pad_32 maker, pad_32 taker) of
                            (Inl e, _) \<Rightarrow> Inl e
                          | (_, Inl e) \<Rightarrow> Inl e
                          | (Inr pm, Inr pt) \<Rightarrow> Inr (sg_keccak G (encoded_order type_hash pm pt m))))))"

definition domain_of :: "eip712_signer \<Rightarrow> eip712_domain" where
  "domain_of s =
     \<lparr>ed_name = ''Clob'', ed_version = ''1'', ed_chain_id = sn_chain_id s,
      ed_verifying_contract = (case sn_contract_env s of
         None \<Rightarrow> ''0x4bFb41d5B3570DeFd03C39a9A4D8dEEDBdC96028'' | Some c \<Rightarrow> c)\<rparr>"

definition hash_domain_separator :: "signer_deps \<Rightarrow> eip712_signer \<Rightarrow> u8 list app_result option" where
  "hash_domain_separator G s =
     (let d = domain_of s;
          type_hash = sg_keccak G (string_bytes
            ''EIP712Domain(string name,string version,uint256 chainId,address verifyingContract)'')
      in case decode_hex G ''Contract address invalid: '' (ed_verifying_contract d) of
           None \<Rightarrow> None
         | Some (Inl e) \<Rightarrow> Some (Inl e)
         | Some (Inr c) \<Rightarrow>
             Some (case pad_32 c of
                     Inl e \<Rightarrow> Inl e
                   | Inr p \<Rightarrow> Inr (sg_keccak G (type_hash @ sg_keccak G (string_bytes (ed_name d))
                       @ sg_keccak G (string_bytes (ed_version d)) @ u256_to_bytes (ed_chain_id d) @ p))))"

definition hash_typed_data_v4 :: "signer_deps \<Rightarrow> u8 list \<Rightarrow> u8 list \<Rightarrow> u8 list" where
  "hash_typed_data_v4 G domain struct_hash = sg_keccak G ([0x19, 0x01] @ domain @ struct_hash)"

definition sign_order :: "signer_deps \<Rightarrow> eip712_signer \<Rightarrow> order_message \<Rightarrow> string app_result option" where
  "sign_order G s m =
     (case hash_order_struct G m of
        None \<Rightarrow> None
      | Some (Inl e) \<Rightarrow> Some (Inl e)
      | Some (Inr h) \<Rightarrow>
          (case hash_domain_separator G s of
             None \<Rightarrow> None
           | Some (Inl e) \<Rightarrow> Some (Inl e)
           | Some (Inr d) \<Rightarrow>
               Some (case sg_sign G (hash_typed_data_v4 G d h) of
                       Inl e \<Rightarrow> Inl (Internal [Lit ''Sign failed: '', Foreign e])
                     | Inr bytes \<Rightarrow> Inr (''0x'' @ sg_hex_encode G bytes))))"

section \<open>The encoding determines the order\<close>

lemma length_u256_to_bytes [simp]: "length (u256_to_bytes v) = 32"
  by (simp add: u256_to_bytes_def)

lemma u256_to_bytes_inject: "u256_to_bytes v = u256_to_bytes w \<longleftrightarrow> v = w"
proof
  assume "u256_to_bytes v = u256_to_bytes w"
  then have "be_value (u256_to_bytes v) = be_value (u256_to_bytes w)" by simp
  then have "unat v mod 256 ^ 8 = unat w mod 256 ^ 8" by (simp add: u256_to_bytes_def be_value_zeros be_value_bytes)
  moreover have "unat v < 256 ^ 8" "unat w < 256 ^ 8" using unat_bound [of v] unat_bound [of w] by simp_all
  ultimately show "v = w" by (simp add: word_unat_eq_iff)
qed simp

lemma words_inject:
  "length vs = length ws \<Longrightarrow> concat (map u256_to_bytes vs) = concat (map u256_to_bytes ws) \<Longrightarrow> vs = ws"
proof (induction vs ws rule: list_induct2)
  case (Cons v vs w ws)
  then show ?case by (simp add: u256_to_bytes_inject)
qed simp

lemma pad_32_length: "pad_32 bs = Inr p \<Longrightarrow> length p = 32"
  by (auto simp: pad_32_def split: if_splits)

lemma pad_32_inject: "pad_32 a = Inr p \<Longrightarrow> pad_32 b = Inr p \<Longrightarrow> length a = length b \<Longrightarrow> a = b"
  by (auto simp: pad_32_def split: if_splits)

lemma ucast_u8_inject: "ucast (a :: u8) = (ucast b :: u64) \<Longrightarrow> a = b"
proof -
  assume "ucast a = (ucast b :: u64)"
  then have "unat (ucast a :: u64) = unat (ucast b :: u64)" by simp
  then show "a = b" using unat_bound [of a] unat_bound [of b]
    by (simp add: unsigned_ucast_eq take_bit_nat_eq_self word_unat_eq_iff)
qed

text \<open>
  Two orders whose addresses decode to twenty bytes and whose encodings under one type hash are the same
  bytes agree in every field: amounts, side, expiry, nonce, fee, signature type and both decoded addresses.
\<close>
theorem encoding_determines_order:
  assumes "pad_32 ma = Inr pma" and "pad_32 ta = Inr pta" and "pad_32 mb = Inr pmb" and "pad_32 tb = Inr ptb"
    and "length ma = 20" and "length mb = 20" and "length ta = 20" and "length tb = 20"
    and "encoded_order th pma pta a = encoded_order th pmb ptb b"
  shows "ma = mb \<and> ta = tb \<and> a = b\<lparr>om_maker := om_maker a, om_taker := om_taker a\<rparr>"
proof -
  have len: "length pma = 32" "length pta = 32" "length pmb = 32" "length ptb = 32"
    using assms(1-4) by (auto dest: pad_32_length)
  from assms(9) len have eq: "pma = pmb" "pta = ptb"
    "concat (map u256_to_bytes (order_words a)) = concat (map u256_to_bytes (order_words b))"
    by (auto simp: encoded_order_def)
  from eq(3) have "order_words a = order_words b" by (intro words_inject) (simp_all add: order_words_def)
  then have "a = b\<lparr>om_maker := om_maker a, om_taker := om_taker a\<rparr>"
    by (cases a; cases b) (auto simp: order_words_def dest!: ucast_u8_inject)
  with eq(1,2) assms(1-8) show ?thesis by (metis pad_32_inject)
qed

definition sample_message :: order_message where
  "sample_message = \<lparr>om_maker = ''0x'', om_taker = ''0x'', om_token_id = 1, om_maker_amount = 2, om_taker_amount = 3,
     om_side = 0, om_expiration = 4, om_nonce = 5, om_fee_rate_bps = 6, om_signature_type = 0\<rparr>"

lemma encoding_determines_order_witness:
  "let p = replicate 12 0 @ replicate 20 (7 :: u8) in
   pad_32 (replicate 20 7) = Inr p \<and>
   encoded_order [] p p sample_message \<noteq> encoded_order [] p p (sample_message\<lparr>om_nonce := 9\<rparr>)"
proof -
  let ?p = "replicate 12 0 @ replicate 20 (7 :: u8)"
  have p: "pad_32 (replicate 20 (7 :: u8)) = Inr ?p" by (simp add: pad_32_def)
  have l: "length (replicate 20 (7 :: u8)) = 20" by simp
  have "encoded_order [] ?p ?p sample_message \<noteq> encoded_order [] ?p ?p (sample_message\<lparr>om_nonce := 9\<rparr>)"
  proof
    assume "encoded_order [] ?p ?p sample_message = encoded_order [] ?p ?p (sample_message\<lparr>om_nonce := 9\<rparr>)"
    from encoding_determines_order [OF p p p p l l l l this] show False by (simp add: sample_message_def)
  qed
  with p show ?thesis by (simp only: Let_def) simp
qed

end
