(* ===== verification/Exchange_Socket.thy ===== *)
theory Exchange_Socket
  imports Polymarket_Client
begin

text \<open>
  \<open>polymarket/src/websocket.rs\<close>: the market-data socket. What \<open>select!\<close> picks next, and whether a write to the
  socket succeeds, are the inputs of the loop; JSON is a parameter. Frames out, events handed to the
  broadcast channel and the flag \<open>connected\<close> are the state.
\<close>

record book_level =
  bl_price :: f64
  bl_size :: f64

record trade =
  td_id :: string
  td_market_id :: string
  td_asset_id :: string
  td_price :: f64
  td_size :: f64

datatype market_event =
    BookEvent string string "book_level list" "book_level list" datetime
  | TradeEvent trade
  | PriceChangeEvent string string f64 f64

datatype ws_command = Subscribe string string | Unsubscribe string string | WsPing | WsClose

text \<open>Frames written: the fields of a JSON object, or a ping.\<close>

datatype frame = TextFrame "(string \<times> string) list" | PingFrame

text \<open>What the other side sends; \<open>StreamEnd\<close> is the end of the stream.\<close>

datatype incoming = InText string | InPong | InClose | InOther | InError string | StreamEnd

datatype ws_input = Command ws_command | Tick | Incoming incoming

text \<open>The \<open>type\<close> field of a JSON text, if it is a text, and the event it decodes to, or the parse error.\<close>

type_synonym json_reader = "string \<Rightarrow> string + (string option \<times> market_event option)"

record socket =
  so_connected :: bool
  so_frames :: "frame list"
  so_events :: "market_event list"

section \<open>Commands\<close>

definition channel_name :: "string \<Rightarrow> string \<Rightarrow> string" where
  "channel_name kind asset_id = kind @ '':'' @ asset_id"

text \<open>The senders put a command in an unbounded queue, unless the loop has dropped its end.\<close>

definition send_command :: "bool \<Rightarrow> app_error \<Rightarrow> ws_command \<Rightarrow> ws_command list \<Rightarrow> unit app_result \<times> ws_command list" where
  "send_command receiver_alive e c q = (if receiver_alive then (Inr (), q @ [c]) else (Inl e, q))"

definition ws_closed :: app_error where
  "ws_closed = External [Lit ''WebSocket closed'']"

definition subscribe_orderbook :: "bool \<Rightarrow> string \<Rightarrow> string \<Rightarrow> ws_command list \<Rightarrow> unit app_result \<times> ws_command list" where
  "subscribe_orderbook alive market_id asset_id =
     send_command alive ws_closed (Subscribe (channel_name ''orderbook'' asset_id) market_id)"

definition subscribe_trades :: "bool \<Rightarrow> string \<Rightarrow> string \<Rightarrow> ws_command list \<Rightarrow> unit app_result \<times> ws_command list" where
  "subscribe_trades alive market_id asset_id =
     send_command alive ws_closed (Subscribe (channel_name ''trades'' asset_id) market_id)"

definition subscribe_prices :: "bool \<Rightarrow> ws_command list \<Rightarrow> unit app_result \<times> ws_command list" where
  "subscribe_prices alive = send_command alive ws_closed (Subscribe ''prices'' ''*'')"

definition unsubscribe :: "bool \<Rightarrow> string \<Rightarrow> string \<Rightarrow> ws_command list \<Rightarrow> unit app_result \<times> ws_command list" where
  "unsubscribe alive channel market_id = send_command alive ws_closed (Unsubscribe channel market_id)"

definition ws_close :: "bool \<Rightarrow> ws_command list \<Rightarrow> unit app_result \<times> ws_command list" where
  "ws_close alive = send_command alive (Internal [Lit ''WebSocket already closed'']) WsClose"

section \<open>A connection\<close>

definition handle_message :: "json_reader \<Rightarrow> string \<Rightarrow> socket \<Rightarrow> unit app_result \<times> socket" where
  "handle_message J text s =
     (case J text of
        Inl e \<Rightarrow> (Inl (Internal [Lit ''JSON parse failed: '', Foreign e]), s)
      | Inr (ty, ev) \<Rightarrow>
          (if ty \<in> {Some ''orderbook'', Some ''trade'', Some ''price_change''}
           then (case ev of
                   None \<Rightarrow> (Inr (), s)
                 | Some e \<Rightarrow> (Inr (), s\<lparr>so_events := so_events s @ [e]\<rparr>))
           else (Inr (), s)))"

definition action_frame :: "string \<Rightarrow> string \<Rightarrow> string \<Rightarrow> frame" where
  "action_frame action channel market_id =
     TextFrame [(''action'', action), (''channel'', channel), (''marketId'', market_id)]"

text \<open>One turn of the loop; \<open>write_error\<close> is the error of the write it makes, if the write fails. \<open>Some\<close>: it returns.\<close>

definition socket_turn ::
  "json_reader \<Rightarrow> ws_input \<times> string option \<Rightarrow> socket \<Rightarrow> unit app_result option \<times> socket" where
  "socket_turn J iw s =
     (case iw of (i, write_error) \<Rightarrow>
        (let write = (\<lambda>f t. if write_error = None then t\<lparr>so_frames := so_frames t @ [f]\<rparr> else t) in
         case i of
           Command (Subscribe channel market_id) \<Rightarrow>
             (if write_error \<noteq> None then Some (Inl (Internal [Lit ''Failed to send subscription request''])) else None,
              write (action_frame ''subscribe'' channel market_id) s)
         | Command (Unsubscribe channel market_id) \<Rightarrow>
             (None, write (action_frame ''unsubscribe'' channel market_id) s)
         | Command WsPing \<Rightarrow>
             (map_option (\<lambda>e. Inl (Internal [Lit ''Ping error: '', Foreign e])) write_error, write PingFrame s)
         | Command WsClose \<Rightarrow> (Some (Inr ()), s)
         | Tick \<Rightarrow>
             (map_option (\<lambda>e. Inl (Internal [Lit ''Ping failed: '', Foreign e])) write_error, write PingFrame s)
         | Incoming (InText text) \<Rightarrow> (None, snd (handle_message J text s))
         | Incoming InClose \<Rightarrow> (Some (Inr ()), s)
         | Incoming (InError e) \<Rightarrow> (Some (Inl (Internal [Lit ''WebSocket error: '', Foreign e])), s)
         | Incoming _ \<Rightarrow> (None, s)))"

fun socket_loop ::
  "json_reader \<Rightarrow> (ws_input \<times> string option) list \<Rightarrow> socket \<Rightarrow> unit app_result option \<times> socket" where
  "socket_loop J [] s = (None, s)"
| "socket_loop J (i # is) s =
     (case socket_turn J i s of
        (Some r, s') \<Rightarrow> (Some r, s')
      | (None, s') \<Rightarrow> socket_loop J is s')"

text \<open>\<open>connect_and_run\<close>: \<open>None\<close> as long as it runs.\<close>

definition connect_and_run ::
  "json_reader \<Rightarrow> string option \<Rightarrow> (ws_input \<times> string option) list \<Rightarrow> socket \<Rightarrow> unit app_result option \<times> socket" where
  "connect_and_run J connect_error is s =
     (case connect_error of
        Some e \<Rightarrow> (Some (Inl (Internal [Lit ''WebSocket connect failed: '', Foreign e])), s)
      | None \<Rightarrow> socket_loop J is (s\<lparr>so_connected := True\<rparr>))"

text \<open>
  \<open>connection_loop\<close> over the connections it makes: the seconds it slept after each that ended in an error, and
  whether it has ended.
\<close>

fun connection_loop ::
  "json_reader \<Rightarrow> nat \<Rightarrow> (string option \<times> (ws_input \<times> string option) list) list \<Rightarrow> socket \<Rightarrow>
     nat list \<times> bool \<times> socket" where
  "connection_loop J retry_delay [] s = ([], False, s)"
| "connection_loop J retry_delay ((c, is) # rest) s =
     (case connect_and_run J c is s of
        (None, s') \<Rightarrow> ([], False, s')
      | (Some (Inr _), s') \<Rightarrow> ([], True, s')
      | (Some (Inl e), s') \<Rightarrow>
          (case connection_loop J (min (retry_delay * 2) 60) rest s' of
             (ds, ended, s'') \<Rightarrow> (retry_delay # ds, ended, s'')))"

section \<open>Properties\<close>

lemma socket_turn_connected: "so_connected s \<Longrightarrow> so_connected (snd (socket_turn J iw s))"
  by (auto simp: socket_turn_def handle_message_def Let_def
      split: prod.splits ws_input.splits ws_command.splits incoming.splits sum.splits option.splits)

lemma socket_loop_connected: "so_connected s \<Longrightarrow> so_connected (snd (socket_loop J is s))"
proof (induction "is" arbitrary: s)
  case (Cons i "is")
  from socket_turn_connected [OF Cons.prems, of J i] Cons.IH show ?case
    by (auto split: prod.splits option.splits)
qed simp

lemma connect_and_run_connected: "so_connected s \<Longrightarrow> so_connected (snd (connect_and_run J c is s))"
  by (auto simp: connect_and_run_def intro: socket_loop_connected split: option.splits)

lemma connection_loop_delays:
  "connection_loop J (min (2 ^ k) 60) cs s = (ds, ended, s') \<Longrightarrow> n < length ds \<Longrightarrow> ds ! n = min (2 ^ (k + n)) 60"
proof (induction cs arbitrary: k s ds n ended s')
  case (Cons c cs)
  obtain ce "is" where c: "c = (ce, is)" by (cases c)
  show ?case
  proof (cases "fst (connect_and_run J ce is s)")
    case (Some r)
    obtain s1 where r: "connect_and_run J ce is s = (Some r, s1)" using Some by (cases "connect_and_run J ce is s") auto
    show ?thesis
    proof (cases r)
      case (Inl e)
      obtain ds' e' s2 where rest: "connection_loop J (min (min (2 ^ k) 60 * 2) 60) cs s1 = (ds', e', s2)"
        by (cases "connection_loop J (min (min (2 ^ k) 60 * 2) 60) cs s1") auto
      have ds: "ds = min (2 ^ k) 60 # ds'" using Cons.prems(1) c r Inl rest by simp
      have "min (min (2 ^ k) 60 * 2) 60 = min (2 ^ Suc k) (60 :: nat)" by (simp add: min_def)
      with rest have "connection_loop J (min (2 ^ Suc k) 60) cs s1 = (ds', e', s2)" by simp
      from Cons.IH [OF this] Cons.prems(2) ds show ?thesis by (cases n) auto
    next
      case (Inr x)
      with Cons.prems c r show ?thesis by simp
    qed
  next
    case None
    with Cons.prems c show ?thesis by (cases "connect_and_run J ce is s") auto
  qed
qed simp

lemma connection_loop_connected:
  "so_connected s \<Longrightarrow> so_connected (snd (snd (connection_loop J d cs s)))"
proof (induction cs arbitrary: d s)
  case (Cons c cs)
  obtain ce "is" where c: "c = (ce, is)" by (cases c)
  obtain r s1 where r: "connect_and_run J ce is s = (r, s1)" by (cases "connect_and_run J ce is s") auto
  then have s1: "so_connected s1" using connect_and_run_connected [OF Cons.prems, of J ce "is"] by simp
  from Cons.IH [OF s1, of "min (d * 2) 60"] s1 show ?case
    by (auto simp: c r split: prod.splits option.splits sum.splits)
qed simp

text \<open>
  The \<open>n\<close>-th reconnection (counted from zero over the whole life of the socket) comes after the smaller of
  \<open>2 ^ n\<close> and 60 seconds, however long the connections in between worked: the delay is never reset. And
  once a connection was made the socket reports itself connected for ever, while it sleeps as well as
  after the loop has ended.
\<close>
theorem reconnect_delays:
  assumes "connection_loop J 1 cs s = (ds, ended, s')"
  shows "(\<forall>n < length ds. ds ! n = min (2 ^ n) 60) \<and> (so_connected s \<longrightarrow> so_connected s')"
  using assms connection_loop_delays [of J 0 cs s ds ended s'] connection_loop_connected [of s J 1 cs] by simp

text \<open>
  The end of the stream is not an error for the loop: as long as pings can be written it keeps running on a
  socket that will never deliver anything again, and does not reconnect.
\<close>
theorem ended_stream_keeps_running:
  assumes "set is \<subseteq> {(Incoming StreamEnd, None), (Tick, None)}"
  shows "fst (connect_and_run J None is s) = None \<and> so_events (snd (connect_and_run J None is s)) = so_events s"
proof -
  have "fst (socket_loop J is t) = None \<and> so_events (snd (socket_loop J is t)) = so_events t" for t
    using assms
  proof (induction "is" arbitrary: t)
    case (Cons i "is")
    then have "fst (socket_turn J i t) = None \<and> so_events (snd (socket_turn J i t)) = so_events t"
      by (auto simp: socket_turn_def Let_def)
    with Cons show ?case by (auto split: prod.splits option.splits)
  qed simp
  then show ?thesis by (simp add: connect_and_run_def)
qed

definition failing :: "string option \<times> (ws_input \<times> string option) list" where
  "failing = (None, [(Tick, None), (Incoming (InError ''reset''), None)])"

lemma reconnect_delays_witness:
  "\<exists>s'. connection_loop (\<lambda>t. Inl ''json'') 1 (replicate 8 failing) \<lparr>so_connected = False, so_frames = [], so_events = []\<rparr> =
      ([1, 2, 4, 8, 16, 32, 60, 60], False, s') \<and> min (2 ^ 7) 60 = (60 :: nat)"
proof -
  let ?s = "\<lparr>so_connected = False, so_frames = [], so_events = []\<rparr>"
  let ?run = "connection_loop (\<lambda>t. Inl ''json'') 1 (replicate 8 failing) ?s"
  have "fst ?run = [1, 2, 4, 8, 16, 32, 60, 60] \<and> fst (snd ?run) = False" by code_simp
  then obtain s' where r: "?run = ([1, 2, 4, 8, 16, 32, 60, 60], False, s')" by (cases ?run) auto
  from reconnect_delays [OF r] have "(60 :: nat) = min (2 ^ 7) 60" by (auto dest: spec [of _ 7])
  with r show ?thesis by auto
qed

end
