(* ===== verification/Float_Facts.thy ===== *)
theory Float_Facts
  imports Float_Ops
begin

text \<open>
  What the rounded operations of \<open>Float_Ops\<close> guarantee: rounding is monotone and keeps representable numbers, so
  that an operation on values between bounds gives a number between the rounded bounds, never NaN. The
  interval predicate \<open>between\<close> carries these facts through the analytics.
\<close>

section \<open>Powers of two and exponents\<close>

lemma pow2_powi: "pow2 e = 2 powi e"
  by (simp add: pow2_def power_int_def Fract_of_int_quotient power_one_over)

lemma pow2_pos [simp]: "0 < pow2 e" and pow2_nonzero [simp]: "pow2 e \<noteq> 0" and pow2_nonneg [simp]: "0 \<le> pow2 e"
  by (simp_all add: pow2_powi)

lemma pow2_not_neg [simp]: "\<not> pow2 e < 0"
  by (simp add: not_less)

lemma pow2_add: "pow2 (a + b) = pow2 a * pow2 b"
  by (simp add: pow2_powi power_int_add)

lemma pow2_diff: "pow2 (a - b) = pow2 a / pow2 b"
  by (simp add: pow2_powi power_int_diff)

lemma pow2_le [simp]: "pow2 a \<le> pow2 b \<longleftrightarrow> a \<le> b"
  by (metis pow2_powi linorder_not_less one_less_numeral_iff order_le_less power_int_strict_increasing semiring_norm(76))

lemma pow2_less [simp]: "pow2 a < pow2 b \<longleftrightarrow> a < b"
  by (metis linorder_not_less pow2_le)

lemma pow2_nat: "0 \<le> e \<Longrightarrow> pow2 e = of_int (2 ^ nat e)"
  by (simp add: pow2_def)

lemma exponent_of_bounds:
  assumes "0 < r"
  shows "pow2 (exponent_of r) \<le> r \<and> r < pow2 (exponent_of r + 1)"
proof -
  obtain a b where q: "quotient_of r = (a, b)" by (cases "quotient_of r")
  then have b: "0 < b" and r: "r = of_int a / of_int b" by (simp_all add: quotient_of_denom_pos quotient_of_div)
  with assms have a: "0 < a" by (simp add: zero_less_divide_iff)
  have bounds: "pow2 (bitlen n - 1) \<le> of_int n \<and> of_int n < pow2 (bitlen n)" if "0 < n" for n
  proof -
    from bitlen_bounds [OF that] have l: "2 ^ nat (bitlen n - 1) \<le> n" and u: "n < 2 ^ nat (bitlen n)" by auto
    have pos: "0 \<le> bitlen n - 1" "0 \<le> bitlen n" using that bitlen_nonneg [of n] bitlen_eq_zero_iff [of n] by auto
    have "(of_int (2 ^ nat (bitlen n - 1)) :: rat) \<le> of_int n" using l by (simp only: of_int_le_iff)
    moreover have "(of_int n :: rat) < of_int (2 ^ nat (bitlen n))" using u by (simp only: of_int_less_iff)
    ultimately show ?thesis by (simp only: pow2_nat [OF pos(1)] pow2_nat [OF pos(2)])
  qed
  let ?e = "bitlen a - bitlen b"
  have b': "(0 :: rat) < of_int b" using b by simp
  have "pow2 (?e - 1) * of_int b \<le> pow2 (?e - 1) * pow2 (bitlen b)"
    using bounds [OF b] by (intro mult_left_mono) auto
  also have "\<dots> = pow2 (bitlen a - 1)" by (simp add: pow2_add [symmetric])
  also have "\<dots> \<le> of_int a" using bounds [OF a] by simp
  finally have low: "pow2 (?e - 1) \<le> r" using b' by (simp add: r pos_le_divide_eq)
  have "of_int a < pow2 (bitlen a)" using bounds [OF a] by simp
  also have "\<dots> = pow2 (?e + 1) * pow2 (bitlen b - 1)" by (simp add: pow2_add [symmetric])
  also have "\<dots> \<le> pow2 (?e + 1) * of_int b" using bounds [OF b] by (intro mult_left_mono) auto
  finally have up: "r < pow2 (?e + 1)" using b' by (simp add: r pos_divide_less_eq)
  show ?thesis using low up by (simp add: exponent_of_def q Let_def not_le)
qed

lemma exponent_of_eq:
  assumes "pow2 e \<le> r" and "r < pow2 (e + 1)"
  shows "exponent_of r = e"
proof -
  have "0 < r" using assms(1) pow2_pos [of e] by linarith
  from exponent_of_bounds [OF this] assms have "pow2 (exponent_of r) < pow2 (e + 1)" "pow2 e < pow2 (exponent_of r + 1)"
    by linarith+
  then show ?thesis by simp
qed

lemma exponent_of_mono: "0 < r \<Longrightarrow> r \<le> s \<Longrightarrow> exponent_of r \<le> exponent_of s"
proof -
  assume "0 < r" "r \<le> s"
  then have "pow2 (exponent_of r) < pow2 (exponent_of s + 1)"
    using exponent_of_bounds [of r] exponent_of_bounds [of s] by linarith
  then show ?thesis by simp
qed

section \<open>Rounding\<close>

lemma round_half_even_mono: "x \<le> y \<Longrightarrow> round_half_even x \<le> round_half_even y"
proof -
  assume le: "x \<le> y"
  then have fl: "\<lfloor>x\<rfloor> \<le> \<lfloor>y\<rfloor>" by (rule floor_mono)
  show ?thesis
  proof (cases "\<lfloor>x\<rfloor> = \<lfloor>y\<rfloor>")
    case True
    with le show ?thesis by (simp add: round_half_even_def Let_def)
  next
    case False
    with fl have "\<lfloor>x\<rfloor> + 1 \<le> \<lfloor>y\<rfloor>" by simp
    moreover have "round_half_even x \<le> \<lfloor>x\<rfloor> + 1" "\<lfloor>y\<rfloor> \<le> round_half_even y"
      by (simp_all add: round_half_even_def Let_def)
    ultimately show ?thesis by linarith
  qed
qed

text \<open>The magnitude \<open>rnd r\<close> a positive \<open>r\<close> is rounded to, overflow aside.\<close>

definition quantum :: "rat \<Rightarrow> rat" where
  "quantum r = pow2 (max (exponent_of r - 52) (- 1074))"

definition rnd :: "rat \<Rightarrow> rat" where
  "rnd r = (if r = 0 then 0 else of_int (round_half_even (r / quantum r)) * quantum r)"

lemma quantum_pos [simp]: "0 < quantum r" and quantum_nonzero [simp]: "quantum r \<noteq> 0"
  by (simp_all add: quantum_def)

lemma rnd_nonneg: "0 \<le> r \<Longrightarrow> 0 \<le> rnd r"
proof -
  assume "0 \<le> r"
  then have "round_half_even (of_int 0) \<le> round_half_even (r / quantum r)"
    by (intro round_half_even_mono) (simp add: divide_nonneg_pos)
  then have "0 \<le> round_half_even (r / quantum r)" unfolding round_half_even_int .
  then show ?thesis by (simp add: rnd_def less_imp_le)
qed

text \<open>A power of two at least the quantum bounds what is rounded below it or above it.\<close>

lemma rnd_pow2_bounds:
  assumes "0 < r" and "- 1074 \<le> k"
  shows "r \<le> pow2 k \<Longrightarrow> rnd r \<le> pow2 k" and "pow2 k \<le> r \<Longrightarrow> pow2 k \<le> rnd r"
proof -
  let ?m = "max (exponent_of r - 52) (- 1074)"
  have step: "pow2 k = of_int (2 ^ nat (k - ?m)) * quantum r" if "?m \<le> k"
  proof -
    from that have "pow2 k = pow2 (k - ?m) * quantum r" by (simp add: quantum_def pow2_add [symmetric])
    with that show ?thesis by (simp add: pow2_nat)
  qed
  show "rnd r \<le> pow2 k" if "r \<le> pow2 k"
  proof -
    have "pow2 (exponent_of r) \<le> pow2 k" using that exponent_of_bounds [OF assms(1)] by linarith
    with assms(2) have m: "?m \<le> k" by simp
    have "r / quantum r \<le> of_int (2 ^ nat (k - ?m))"
      using that step [OF m] by (simp add: pos_divide_le_eq)
    from round_half_even_mono [OF this] have "round_half_even (r / quantum r) \<le> 2 ^ nat (k - ?m)"
      by (simp only: round_half_even_int)
    then have "of_int (round_half_even (r / quantum r)) * quantum r \<le> of_int (2 ^ nat (k - ?m)) * quantum r"
      by (intro mult_right_mono) (simp_all only: of_int_le_iff, simp add: less_imp_le)
    then show ?thesis using assms(1) step [OF m] by (simp add: rnd_def)
  qed
  show "pow2 k \<le> rnd r" if le: "pow2 k \<le> r"
  proof (cases "?m \<le> k")
    case True
    have "of_int (2 ^ nat (k - ?m)) \<le> r / quantum r"
      using le step [OF True] by (simp add: pos_le_divide_eq)
    from round_half_even_mono [OF this] have "2 ^ nat (k - ?m) \<le> round_half_even (r / quantum r)"
      by (simp only: round_half_even_int)
    then have "of_int (2 ^ nat (k - ?m)) * quantum r \<le> of_int (round_half_even (r / quantum r)) * quantum r"
      by (intro mult_right_mono) (simp_all only: of_int_le_iff, simp add: less_imp_le)
    then show ?thesis using assms(1) step [OF True] by (simp add: rnd_def)
  next
    case False
    with assms(2) have m: "?m = exponent_of r - 52" by simp
    have "pow2 52 \<le> r / quantum r"
      using exponent_of_bounds [OF assms(1)]
      by (simp add: quantum_def m pos_le_divide_eq pow2_add [symmetric])
    then have "of_int (2 ^ 52) \<le> r / quantum r" by (simp add: pow2_def)
    from round_half_even_mono [OF this] have "2 ^ 52 \<le> round_half_even (r / quantum r)"
      by (simp only: round_half_even_int)
    then have "of_int (2 ^ 52) * quantum r \<le> of_int (round_half_even (r / quantum r)) * quantum r"
      by (intro mult_right_mono) (simp_all only: of_int_le_iff, simp add: less_imp_le)
    moreover have "of_int (2 ^ 52) * quantum r = pow2 (exponent_of r)"
    proof -
      have "of_int (2 ^ 52) = pow2 52" by (simp add: pow2_def)
      then show ?thesis by (simp only: quantum_def m pow2_add [symmetric]) simp
    qed
    moreover have "pow2 k \<le> pow2 (exponent_of r)" using False m by simp
    ultimately have "pow2 k \<le> of_int (round_half_even (r / quantum r)) * quantum r" by linarith
    then show ?thesis using assms(1) by (simp add: rnd_def)
  qed
qed

lemma rnd_mono:
  assumes "0 \<le> r" and "r \<le> s"
  shows "rnd r \<le> rnd s"
proof (cases "r = 0")
  case True
  with rnd_nonneg [of s] assms show ?thesis by (simp add: rnd_def)
next
  case False
  with assms have r: "0 < r" and s: "0 < s" by simp_all
  have e: "exponent_of r \<le> exponent_of s" using r assms(2) by (rule exponent_of_mono)
  show ?thesis
  proof (cases "quantum r = quantum s")
    case True
    have "r / quantum s \<le> s / quantum s" using assms(2) by (simp add: divide_right_mono less_imp_le)
    from round_half_even_mono [OF this] show ?thesis
      using r s True by (simp add: rnd_def mult_right_mono less_imp_le)
  next
    case False
    then have ne: "max (exponent_of r - 52) (- 1074) \<noteq> max (exponent_of s - 52) (- 1074)" by (auto simp: quantum_def)
    with e have lt: "exponent_of r < exponent_of s" and big: "- 1022 < exponent_of s" by linarith+
    have "rnd r \<le> pow2 (exponent_of s)"
    proof (rule rnd_pow2_bounds(1) [OF r])
      have "pow2 (exponent_of r + 1) \<le> pow2 (exponent_of s)" using lt by simp
      with exponent_of_bounds [OF r] show "r \<le> pow2 (exponent_of s)" by linarith
    qed (use big in simp)
    also have "\<dots> \<le> rnd s"
      by (rule rnd_pow2_bounds(2) [OF s]) (use big exponent_of_bounds [OF s] in auto)
    finally show ?thesis .
  qed
qed

text \<open>Multiples of a quantum with at most 53 bits are kept.\<close>

lemma rnd_exact:
  assumes r: "r = of_int n * pow2 j" and n: "0 \<le> n" "n < 2 ^ 53" and j: "- 1074 \<le> j"
  shows "rnd r = r"
proof (cases "n = 0")
  case True
  with r show ?thesis by (simp add: rnd_def)
next
  case False
  with n(1) r have pos: "0 < r" by simp
  have "(of_int n :: rat) < of_int (2 ^ 53)" using n(2) by (simp only: of_int_less_iff)
  then have "r < pow2 53 * pow2 j" unfolding r by (intro mult_strict_right_mono) (simp_all add: pow2_nat)
  then have "pow2 (exponent_of r) < pow2 (53 + j)" using exponent_of_bounds [OF pos] by (simp add: pow2_add)
  then have m: "max (exponent_of r - 52) (- 1074) \<le> j" (is "?m \<le> j") using j by simp
  then have "pow2 j = pow2 (j - ?m) * quantum r" by (simp add: quantum_def pow2_add [symmetric])
  then have "r = of_int n * pow2 (j - ?m) * quantum r" using r by simp
  then have "r / quantum r = of_int n * pow2 (j - ?m)"
    using quantum_pos [of r] by (metis less_irrefl nonzero_eq_divide_eq)
  also have "\<dots> = of_int (n * 2 ^ nat (j - ?m))" using m by (simp add: pow2_nat)
  finally have eq: "r / quantum r = of_int (n * 2 ^ nat (j - ?m))" .
  have "of_int (round_half_even (r / quantum r)) = r / quantum r" unfolding eq round_half_even_int ..
  with pos show ?thesis by (simp add: rnd_def)
qed

lemma round_magnitude_rnd:
  assumes "0 \<le> r"
  shows "round_magnitude neg r = (if rnd r < pow2 1024 then Fin neg (rnd r) else Inf neg)"
proof (cases "r = 0")
  case True
  then show ?thesis by (simp add: round_magnitude_def rnd_def)
next
  case False
  have rm: "round_magnitude neg r = (if rnd r \<noteq> 0 \<and> 1024 \<le> exponent_of (rnd r) then Inf neg else Fin neg (rnd r))"
    using False by (simp add: round_magnitude_def rnd_def quantum_def Let_def)
  show ?thesis
  proof (cases "rnd r = 0")
    case True
    then show ?thesis by (simp add: rm)
  next
    case nz: False
    with rnd_nonneg [OF assms] have pos: "0 < rnd r" by simp
    have "1024 \<le> exponent_of (rnd r) \<longleftrightarrow> pow2 1024 \<le> rnd r"
    proof
      assume "1024 \<le> exponent_of (rnd r)"
      then have "pow2 1024 \<le> pow2 (exponent_of (rnd r))" by simp
      with exponent_of_bounds [OF pos] show "pow2 1024 \<le> rnd r" by linarith
    next
      assume "pow2 1024 \<le> rnd r"
      with exponent_of_bounds [OF pos] have "pow2 1024 < pow2 (exponent_of (rnd r) + 1)" by linarith
      then show "1024 \<le> exponent_of (rnd r)" by simp
    qed
    with nz show ?thesis by (simp add: rm not_less)
  qed
qed

text \<open>Rounding of signed values, and the values it keeps without overflow.\<close>

definition srnd :: "rat \<Rightarrow> rat" where
  "srnd v = (if v < 0 then - rnd (- v) else rnd v)"

definition fits :: "rat \<Rightarrow> bool" where
  "fits v \<longleftrightarrow> srnd v = v \<and> \<bar>v\<bar> < pow2 1024"

lemma srnd_mono: "v \<le> w \<Longrightarrow> srnd v \<le> srnd w"
proof -
  assume le: "v \<le> w"
  consider "0 \<le> v" | "w < 0" | "v < 0" "0 \<le> w" by linarith
  then show ?thesis
  proof cases
    case 1
    with le rnd_mono [of v w] show ?thesis by (simp add: srnd_def)
  next
    case 2
    with le rnd_mono [of "- w" "- v"] show ?thesis by (simp add: srnd_def)
  next
    case 3
    with rnd_nonneg [of "- v"] rnd_nonneg [of w] show ?thesis by (simp add: srnd_def)
  qed
qed

lemma fits_neg: "fits v \<Longrightarrow> fits (- v)"
  by (auto simp: fits_def srnd_def rnd_def split: if_splits)

lemma fits_mult:
  assumes "\<bar>n\<bar> < 2 ^ 53" and "- 1074 \<le> j" and "j \<le> 971"
  shows "fits (of_int n * pow2 j)"
proof -
  have abs: "rnd (of_int \<bar>n\<bar> * pow2 j) = of_int \<bar>n\<bar> * pow2 j"
    using assms by (intro rnd_exact [OF refl]) auto
  have "(of_int \<bar>n\<bar> :: rat) < of_int (2 ^ 53)" using assms(1) by (simp only: of_int_less_iff)
  then have "of_int \<bar>n\<bar> * pow2 j < pow2 53 * pow2 j" by (intro mult_strict_right_mono) (simp_all add: pow2_nat)
  also have "\<dots> \<le> pow2 1024" using assms(3) by (simp add: pow2_add [symmetric])
  finally have "\<bar>of_int n * pow2 j\<bar> < pow2 1024" by (simp add: abs_mult)
  moreover have "srnd (of_int n * pow2 j) = of_int n * pow2 j"
    using abs by (cases "n < 0") (simp_all add: srnd_def mult_less_0_iff not_less [symmetric])
  ultimately show ?thesis by (simp add: fits_def)
qed

lemma fits_int: "\<bar>n\<bar> < 2 ^ 53 \<Longrightarrow> fits (of_int n)"
  using fits_mult [of n 0] by (simp add: pow2_def)

lemma fits_pow2: "- 1074 \<le> k \<Longrightarrow> k \<le> 971 \<Longrightarrow> fits (pow2 k)"
  using fits_mult [of 1 k] by simp

lemma fits_0 [simp]: "fits 0" and fits_1 [simp]: "fits 1" and fits_m1 [simp]: "fits (- 1)"
  using fits_int [of 0] fits_int [of 1] fits_int [of "- 1"] by simp_all

lemma fits_numeral: "(numeral k :: int) < 2 ^ 53 \<Longrightarrow> fits (numeral k)"
  using fits_int [of "numeral k"] by simp

section \<open>Numbers between bounds\<close>

definition between :: "rat \<Rightarrow> rat \<Rightarrow> f64 \<Rightarrow> bool" where
  "between a b x \<longleftrightarrow> (\<exists>neg r. x = Fin neg r \<and> 0 \<le> r \<and> a \<le> signed neg r \<and> signed neg r \<le> b)"

lemma betweenE:
  assumes "between a b x"
  obtains neg r where "x = Fin neg r" "0 \<le> r" "a \<le> signed neg r" "signed neg r \<le> b"
  using assms by (auto simp: between_def)

lemma between_weaken: "between a b x \<Longrightarrow> a' \<le> a \<Longrightarrow> b \<le> b' \<Longrightarrow> between a' b' x"
  unfolding between_def by (metis order_trans)

lemma between_not_NaN [dest]: "between a b x \<Longrightarrow> x \<noteq> NaN"
  by (auto simp: between_def)

lemma between_special [simp]: "\<not> between a b NaN" "\<not> between a b (Inf neg)"
  by (simp_all add: between_def)

lemma between_Fin [simp]: "between a b (Fin neg r) \<longleftrightarrow> 0 \<le> r \<and> a \<le> signed neg r \<and> signed neg r \<le> b"
  by (auto simp: between_def)

lemma round_magnitude_between:
  assumes "0 \<le> r" and "A \<le> signed neg r" and "signed neg r \<le> B" and "fits A" and "fits B"
  shows "between A B (round_magnitude neg r)"
proof -
  have s: "signed neg (rnd r) = srnd (signed neg r)"
    using assms(1) rnd_nonneg [of r] by (cases "r = 0") (auto simp: signed_def srnd_def rnd_def)
  have AB: "A \<le> signed neg (rnd r)" "signed neg (rnd r) \<le> B"
    using srnd_mono [OF assms(2)] srnd_mono [OF assms(3)] assms(4,5) s by (simp_all add: fits_def)
  moreover from assms(4,5) have "\<bar>A\<bar> < pow2 1024" "\<bar>B\<bar> < pow2 1024" by (simp_all add: fits_def)
  ultimately have "rnd r < pow2 1024" by (cases neg) (auto simp: signed_def)
  with AB rnd_nonneg [OF assms(1)] show ?thesis by (simp add: round_magnitude_rnd [OF assms(1)])
qed

lemma round_signed_between:
  assumes "A \<le> v" and "v \<le> B" and "fits A" and "fits B"
  shows "between A B (round_signed z v)"
proof (cases "v = 0")
  case True
  with assms show ?thesis by (simp add: round_signed_def signed_def)
next
  case False
  have "signed (v < 0) \<bar>v\<bar> = v" by (simp add: signed_def)
  with round_magnitude_between [of "\<bar>v\<bar>" A "v < 0" B] assms False show ?thesis by (simp add: round_signed_def)
qed

text \<open>Magnitudes are not negative: \<open>well_formed\<close> also admits infinities and NaN, and every operation keeps it.\<close>

definition well_formed :: "f64 \<Rightarrow> bool" where
  "well_formed x \<longleftrightarrow> (\<forall>neg r. x = Fin neg r \<longrightarrow> 0 \<le> r)"

lemma well_formed_simps [simp]: "well_formed NaN" "well_formed (Inf neg)" "well_formed (Fin neg r) \<longleftrightarrow> 0 \<le> r"
  by (simp_all add: well_formed_def)

lemma between_well_formed: "between a b x \<Longrightarrow> well_formed x"
  by (auto simp: between_def)

lemma round_magnitude_well_formed [simp]: "0 \<le> r \<Longrightarrow> well_formed (round_magnitude neg r)"
  by (simp add: round_magnitude_rnd rnd_nonneg)

lemma round_signed_well_formed [simp]: "well_formed (round_signed z v)"
  by (simp add: round_signed_def)

lemma f64_lit_well_formed [simp]: "well_formed (f64_lit q)"
  by (simp add: f64_lit_def)

lemma f64_add_well_formed [simp]: "well_formed x \<Longrightarrow> well_formed y \<Longrightarrow> well_formed (f64_add x y)"
  by (cases x; cases y) simp_all

lemma f64_neg_well_formed [simp]: "well_formed x \<Longrightarrow> well_formed (f64_neg x)"
  by (cases x) simp_all

lemma f64_sub_well_formed [simp]: "well_formed x \<Longrightarrow> well_formed y \<Longrightarrow> well_formed (f64_sub x y)"
  by (simp add: f64_sub_def)

lemma f64_abs_well_formed [simp]: "well_formed x \<Longrightarrow> well_formed (f64_abs x)"
  by (cases x) simp_all

lemma f64_mul_well_formed [simp]: "well_formed x \<Longrightarrow> well_formed y \<Longrightarrow> well_formed (f64_mul x y)"
  by (cases x; cases y) (simp_all add: f64_mul_def)

lemma f64_div_well_formed [simp]: "well_formed x \<Longrightarrow> well_formed y \<Longrightarrow> well_formed (f64_div x y)"
  by (cases x; cases y) simp_all

lemma between_neg: "between a b x \<Longrightarrow> between (- b) (- a) (f64_neg x)"
  by (erule betweenE) (simp add: signed_def split: if_splits)

lemma between_abs: "between a b x \<Longrightarrow> - c \<le> a \<Longrightarrow> b \<le> c \<Longrightarrow> between 0 c (f64_abs x)"
  by (erule betweenE) (simp add: signed_def split: if_splits)

lemma between_add:
  assumes "between a b x" and "between c d y" and "A \<le> a + c" and "b + d \<le> B" and "fits A" and "fits B"
  shows "between A B (f64_add x y)"
proof -
  obtain n r where x: "x = Fin n r" "a \<le> signed n r" "signed n r \<le> b" using assms(1) by (rule betweenE)
  obtain m s where y: "y = Fin m s" "c \<le> signed m s" "signed m s \<le> d" using assms(2) by (rule betweenE)
  from x y assms(3-6) show ?thesis by (simp add: round_signed_between)
qed

lemma between_sub:
  assumes "between a b x" and "between c d y" and "A \<le> a - d" and "b - c \<le> B" and "fits A" and "fits B"
  shows "between A B (f64_sub x y)"
  using between_add [OF assms(1) between_neg [OF assms(2)]] assms(3-6) by (simp add: f64_sub_def)

lemma between_mul:
  assumes "between a b x" and "between c d y" and "fits A" and "fits B"
    and "\<And>u v. a \<le> u \<Longrightarrow> u \<le> b \<Longrightarrow> c \<le> v \<Longrightarrow> v \<le> d \<Longrightarrow> A \<le> u * v \<and> u * v \<le> B"
  shows "between A B (f64_mul x y)"
proof -
  obtain n r where x: "x = Fin n r" "0 \<le> r" "a \<le> signed n r" "signed n r \<le> b" using assms(1) by (rule betweenE)
  obtain m s where y: "y = Fin m s" "0 \<le> s" "c \<le> signed m s" "signed m s \<le> d" using assms(2) by (rule betweenE)
  have "signed (n \<noteq> m) (r * s) = signed n r * signed m s" by (simp add: signed_def)
  with assms(5) [of "signed n r" "signed m s"] x y assms(3,4) show ?thesis
    by (simp add: f64_mul_def round_magnitude_between)
qed

lemma between_div:
  assumes "between a b x" and "between c d y" and "0 < c" and "fits A" and "fits B"
    and "\<And>u v. a \<le> u \<Longrightarrow> u \<le> b \<Longrightarrow> c \<le> v \<Longrightarrow> v \<le> d \<Longrightarrow> A \<le> u / v \<and> u / v \<le> B"
  shows "between A B (f64_div x y)"
proof -
  obtain n r where x: "x = Fin n r" "0 \<le> r" "a \<le> signed n r" "signed n r \<le> b" using assms(1) by (rule betweenE)
  obtain m s where y: "y = Fin m s" "0 \<le> s" "c \<le> signed m s" "signed m s \<le> d" using assms(2) by (rule betweenE)
  have "s \<noteq> 0" using y(3) assms(3) by (cases m) (auto simp: signed_def)
  moreover have "signed (n \<noteq> m) (r / s) = signed n r / signed m s" by (simp add: signed_def)
  ultimately show ?thesis
    using assms(6) [of "signed n r" "signed m s"] x y assms(4,5) by (simp add: round_magnitude_between)
qed

text \<open>Literals, conversions, comparisons.\<close>

lemma f64_lit_between: "A \<le> q \<Longrightarrow> q \<le> B \<Longrightarrow> fits A \<Longrightarrow> fits B \<Longrightarrow> between A B (f64_lit q)"
  by (simp add: f64_lit_def round_signed_between)

lemma f64_of_word_between:
  fixes w :: "'w::len word"
  assumes "LENGTH('w) \<le> 971"
  shows "between 0 (pow2 (int LENGTH('w))) (f64_of_word w)"
proof -
  have "uint w \<le> 2 ^ LENGTH('w)" using less_imp_le [OF unsigned_less [of w]] .
  then have "(of_int (uint w) :: rat) \<le> of_int (2 ^ LENGTH('w))" by (simp only: of_int_le_iff)
  then have "of_int (uint w) \<le> pow2 (int LENGTH('w))" by (simp add: pow2_nat)
  then show ?thesis using assms unfolding f64_of_word_def f64_of_int_def
    by (intro round_signed_between) (simp_all add: fits_pow2 del: of_int_uint)
qed

lemma f64_of_nat_between: "n < 2 ^ 53 \<Longrightarrow> between (of_nat n) (of_nat n) (f64_of_nat n)"
proof -
  assume "n < 2 ^ 53"
  then have "\<bar>int n\<bar> < 2 ^ 53" by (simp add: of_nat_less_iff [of n "2 ^ 53", where 'a = int, simplified])
  from fits_int [OF this] show ?thesis by (simp add: f64_of_nat_def f64_of_int_def round_signed_between)
qed

text \<open>Dividing by a count.\<close>

lemma between_div_nat:
  assumes "between A B x" and "A \<le> 0" and "0 \<le> B" and "fits A" and "fits B" and "0 < n" and "n < 2 ^ 53"
  shows "between A B (f64_div x (f64_of_nat n))"
  using assms(1) f64_of_nat_between [OF assms(7)]
proof (rule between_div)
  have one: "1 \<le> (of_nat n :: rat)" using assms(6) by simp
  fix u v :: rat
  assume u: "A \<le> u" "u \<le> B" and "of_nat n \<le> v"
  with one have v: "1 \<le> v" by linarith
  have "A * v \<le> A * 1" using v assms(2) by (intro mult_left_mono_neg) auto
  moreover have "B * 1 \<le> B * v" using v assms(3) by (intro mult_left_mono) auto
  ultimately show "A \<le> u / v \<and> u / v \<le> B" using u v by (simp add: pos_le_divide_eq pos_divide_le_eq)
qed (use assms in simp_all)

lemma f64_less_lower: "f64_less y x \<Longrightarrow> between c d y \<Longrightarrow> between a b x \<Longrightarrow> between c b x"
  by (auto elim!: betweenE)

lemma f64_less_upper: "f64_less x y \<Longrightarrow> between c d y \<Longrightarrow> between a b x \<Longrightarrow> between a d x"
  by (auto elim!: betweenE)

lemma between_min: "between a b x \<Longrightarrow> between c d y \<Longrightarrow> between (min a c) (min b d) (f64_min x y)"
  by (auto elim!: betweenE simp: f64_min_def min_def)

lemma between_max: "between a b x \<Longrightarrow> between c d y \<Longrightarrow> between (max a c) (max b d) (f64_max x y)"
  by (auto elim!: betweenE simp: f64_max_def max_def)

text \<open>The minimum with a number, for a value that is not known to be finite: NaN gives the other number.\<close>

lemma min_above_between:
  assumes "f64_less y x" and "between c d y" and "well_formed x" and "between e e z"
  shows "between (min c e) e (f64_min x z)"
proof (cases x)
  case (Fin neg r)
  then have "between (signed neg r) (signed neg r) x" using assms(3) by simp
  from f64_less_lower [OF assms(1,2) this] between_min [OF _ assms(4)] have "between (min c e) (min (signed neg r) e) (f64_min x z)"
    by blast
  then show ?thesis by (rule between_weaken) auto
next
  case (Inf neg)
  with assms show ?thesis by (cases neg) (auto elim!: betweenE simp: f64_min_def)
qed (use assms(1) f64_less_not_NaN in blast)

text \<open>Clamping gives a number between the bounds, except for NaN.\<close>

lemma between_clamp:
  assumes "x \<noteq> NaN" and "well_formed x" and "between a b lo" and "between c d hi" and "b \<le> c"
  shows "between a d (f64_clamp lo hi x)"
proof -
  obtain n l where lo: "lo = Fin n l" "0 \<le> l" "a \<le> signed n l" "signed n l \<le> b" using assms(3) by (rule betweenE)
  obtain m h where hi: "hi = Fin m h" "0 \<le> h" "c \<le> signed m h" "signed m h \<le> d" using assms(4) by (rule betweenE)
  show ?thesis
  proof (cases x)
    case (Inf neg)
    with lo hi assms(5) show ?thesis by (cases neg) (auto simp: f64_clamp_def)
  next
    case (Fin k r)
    with lo hi assms(2,5) show ?thesis by (auto simp: f64_clamp_def)
  qed (use assms(1) in simp)
qed

section \<open>Sums and square roots\<close>

lemma foldl_add_between:
  assumes "s \<in> {0, 1}" and "\<forall>x\<in>set xs. between (- s * pow2 k) (pow2 k) x"
    and "between (- s * pow2 (k + int i)) (pow2 (k + int i)) acc" and "- 1074 \<le> k" and "k + int (i + length xs) \<le> 971"
  shows "between (- s * pow2 (k + int (i + length xs))) (pow2 (k + int (i + length xs))) (foldl f64_add acc xs)"
  using assms(2,3,5)
proof (induction xs arbitrary: i acc)
  case (Cons x xs)
  let ?K = "pow2 (k + int (Suc i))"
  have K: "pow2 (k + int i) + pow2 k \<le> ?K"
  proof -
    have "pow2 k \<le> pow2 (k + int i)" by simp
    moreover have "?K = 2 * pow2 (k + int i)" by (simp add: pow2_add pow2_nat)
    ultimately show ?thesis by simp
  qed
  have K': "fits ?K" using Cons.prems(3) assms(4) by (intro fits_pow2) auto
  have "fits (- s * ?K)" using assms(1) fits_neg [OF K'] by auto
  then have "between (- s * ?K) ?K (f64_add acc x)"
    using Cons.prems(1,2) K K' assms(1)
    by (intro between_add [where a = "- s * pow2 (k + int i)" and b = "pow2 (k + int i)" and c = "- s * pow2 k" and d = "pow2 k"])
       auto
  from Cons.IH [OF _ this] Cons.prems show ?case by simp
qed simp

lemma f64_sum_between:
  assumes "s \<in> {0, 1}" and "\<forall>x\<in>set xs. between (- s * pow2 k) (pow2 k) x" and "- 1074 \<le> k"
    and "k + int (length xs) \<le> 971"
  shows "between (- s * pow2 (k + int (length xs))) (pow2 (k + int (length xs))) (f64_sum xs)"
  using foldl_add_between [OF assms(1,2), of 0 "Fin False 0"] assms(1,3,4) by (auto simp: f64_sum_def signed_def)

text \<open>The mean of a list, and \<open>powi(2)\<close>, which is one multiplication.\<close>

definition f64_mean :: "f64 list \<Rightarrow> f64" where
  "f64_mean xs = f64_div (f64_sum xs) (f64_of_nat (length xs))"

definition f64_square :: "f64 \<Rightarrow> f64" where
  "f64_square x = f64_mul x x"

lemma f64_mean_between:
  assumes "s \<in> {0, 1}" and "\<forall>x\<in>set xs. between (- s * pow2 k) (pow2 k) x" and "- 1074 \<le> k"
    and "k + int (length xs) \<le> 971" and "xs \<noteq> []" and "length xs < 2 ^ 53"
  shows "between (- s * pow2 (k + int (length xs))) (pow2 (k + int (length xs))) (f64_mean xs)"
  unfolding f64_mean_def
  using f64_sum_between [OF assms(1-4)]
proof (rule between_div_nat)
  have "fits (pow2 (k + int (length xs)))" using assms(3,4) by (intro fits_pow2) auto
  then show "fits (pow2 (k + int (length xs)))" "fits (- s * pow2 (k + int (length xs)))"
    using assms(1) fits_neg by auto
qed (use assms in auto)

lemma isqrt_from_sqrt:
  assumes "0 \<le> m" and "m * m \<le> n" and "n < (m + 2 ^ Suc k) * (m + 2 ^ Suc k)"
  shows "isqrt_from k n m * isqrt_from k n m \<le> n \<and> n < (isqrt_from k n m + 1) * (isqrt_from k n m + 1) \<and>
    0 \<le> isqrt_from k n m"
  using assms
proof (induction k arbitrary: m)
  case 0
  then show ?case by (auto simp: algebra_simps)
next
  case (Suc k)
  let ?c = "m + 2 ^ Suc k"
  show ?case
  proof (cases "?c * ?c \<le> n")
    case True
    have "?c + 2 ^ Suc k = m + 2 ^ Suc (Suc k)" by simp
    then have "n < (?c + 2 ^ Suc k) * (?c + 2 ^ Suc k)" using Suc.prems(3) by (simp only:)
    from Suc.IH [OF _ True this] Suc.prems(1) True show ?thesis by (simp add: Let_def)
  next
    case False
    then have "n < ?c * ?c" by simp
    from Suc.IH [OF Suc.prems(1,2) this] False show ?thesis by (simp add: Let_def)
  qed
qed

lemma isqrt_sqrt:
  assumes "0 \<le> n"
  shows "isqrt n * isqrt n \<le> n \<and> n < (isqrt n + 1) * (isqrt n + 1) \<and> 0 \<le> isqrt n"
proof -
  have "n < 2 ^ nat (bitlen n)" using bitlen_bounds [of n] assms by (cases "n = 0") auto
  also have "\<dots> \<le> 2 ^ Suc (nat (bitlen n)) * 2 ^ Suc (nat (bitlen n))"
    by (simp only: power_add [symmetric]) (rule power_increasing, simp_all)
  finally have "n < (0 + 2 ^ Suc (nat (bitlen n))) * (0 + 2 ^ Suc (nat (bitlen n)))" by simp
  from isqrt_from_sqrt [OF _ _ this] assms show ?thesis by (simp add: isqrt_def)
qed

lemma isqrt_range:
  assumes "2 ^ 104 \<le> y" and "y < 2 ^ 106"
  shows "2 ^ 52 \<le> isqrt y \<and> isqrt y + 1 \<le> 2 ^ 53"
proof -
  have "0 \<le> y" using assms(1) by simp
  note sq = isqrt_sqrt [OF this]
  have "2 ^ 52 \<le> isqrt y"
  proof (rule ccontr)
    assume "\<not> 2 ^ 52 \<le> isqrt y"
    then have "(isqrt y + 1) * (isqrt y + 1) \<le> 2 ^ 52 * 2 ^ 52" using sq by (intro mult_mono) auto
    with sq assms(1) show False by simp
  qed
  moreover have "isqrt y + 1 \<le> 2 ^ 53"
  proof (rule ccontr)
    assume "\<not> isqrt y + 1 \<le> 2 ^ 53"
    then have "2 ^ 53 * 2 ^ 53 \<le> isqrt y * isqrt y" by (intro mult_mono) auto
    with sq assms(2) show False by simp
  qed
  ultimately show ?thesis ..
qed

text \<open>The square root lies between the halved exponent and the next, and is a number.\<close>

lemma f64_sqrt_between:
  assumes "0 < r"
  shows "between (pow2 (exponent_of r div 2)) (pow2 (exponent_of r div 2 + 1)) (f64_sqrt (Fin False r))"
proof -
  let ?e = "exponent_of r" and ?q = "pow2 (exponent_of r div 2 - 52)"
  let ?x = "r / (?q * ?q)"
  let ?n = "isqrt \<lfloor>?x\<rfloor>"
  have qq: "?q * ?q = pow2 (2 * (?e div 2) - 104)" by (simp add: pow2_add [symmetric])
  have q: "0 < ?q * ?q" by simp
  have lo: "pow2 104 \<le> ?x"
  proof -
    have "pow2 104 * (?q * ?q) = pow2 (2 * (?e div 2))" by (simp add: qq pow2_add [symmetric])
    also have "\<dots> \<le> pow2 ?e" by simp
    also have "\<dots> \<le> r" using exponent_of_bounds [OF assms] by simp
    finally show ?thesis using q by (simp only: pos_le_divide_eq)
  qed
  have up: "?x < pow2 106"
  proof -
    have "r < pow2 (?e + 1)" using exponent_of_bounds [OF assms] by simp
    also have "\<dots> \<le> pow2 (2 * (?e div 2) + 2)" by (simp only: pow2_le)
    also have "\<dots> = pow2 106 * (?q * ?q)" by (simp add: qq pow2_add [symmetric] add.commute)
    finally show ?thesis using q by (simp only: pos_divide_less_eq)
  qed
  have "of_int (2 ^ 104) \<le> ?x" using lo by (simp add: pow2_nat)
  then have flo: "2 ^ 104 \<le> \<lfloor>?x\<rfloor>" by (simp only: le_floor_iff)
  have "?x < of_int (2 ^ 106)" using up by (simp add: pow2_nat)
  then have fup: "\<lfloor>?x\<rfloor> < 2 ^ 106" by (simp only: floor_less_iff)
  have n52: "2 ^ 52 \<le> ?n" and n53: "?n + 1 \<le> 2 ^ 53" using isqrt_range [OF flo fup] by auto
  obtain k where k: "f64_sqrt (Fin False r) = Fin False (of_int k * ?q)" "?n \<le> k" "k \<le> ?n + 1"
    using assms by (auto simp: Let_def)
  have a: "pow2 (?e div 2) = of_int (2 ^ 52) * ?q"
  proof -
    have "of_int (2 ^ 52) = pow2 52" by (simp add: pow2_nat)
    then show ?thesis by (simp only: pow2_add [symmetric]) simp
  qed
  have b: "pow2 (?e div 2 + 1) = of_int (2 ^ 53) * ?q"
  proof -
    have "of_int (2 ^ 53) = pow2 53" by (simp add: pow2_nat)
    then show ?thesis by (simp only: pow2_add [symmetric]) (simp add: add.commute)
  qed
  have "(of_int (2 ^ 52) :: rat) \<le> of_int k" "(of_int k :: rat) \<le> of_int (2 ^ 53)"
    using k n52 n53 by (simp_all only: of_int_le_iff)
  then have "of_int (2 ^ 52) * ?q \<le> of_int k * ?q" "of_int k * ?q \<le> of_int (2 ^ 53) * ?q"
    by (simp_all only: mult_right_mono pow2_nonneg)
  moreover have "0 \<le> of_int k * ?q" using k(2) n52 by simp
  ultimately show ?thesis by (simp only: k(1) between_Fin a b signed_def if_False simp_thms)
qed

text \<open>The least positive number, and quotients that are not NaN.\<close>

lemma round_magnitude_least:
  assumes "0 \<le> r" and "round_magnitude neg r = Fin n v" and "v \<noteq> 0"
  shows "pow2 (- 1074) \<le> v"
proof -
  have v: "v = rnd r" using assms(1,2) by (simp add: round_magnitude_rnd split: if_splits)
  with assms(3) have "r \<noteq> 0" by (auto simp: rnd_def)
  with v have k: "v = of_int (round_half_even (r / quantum r)) * quantum r" by (simp add: rnd_def)
  have "0 < v" using v assms(1,3) rnd_nonneg [of r] by simp
  with k have "0 < round_half_even (r / quantum r)" using quantum_pos [of r] by (auto simp: zero_less_mult_iff)
  then have "(1 :: rat) \<le> of_int (round_half_even (r / quantum r))" by simp
  then have "1 * quantum r \<le> v" unfolding k by (intro mult_right_mono) (simp_all add: less_imp_le)
  moreover have "pow2 (- 1074) \<le> quantum r" by (simp add: quantum_def)
  ultimately show ?thesis by simp
qed

lemma f64_div_least:
  assumes "well_formed x" and "well_formed y" and "f64_div x y = Fin n r" and "0 < r"
  shows "pow2 (- 1074) \<le> r"
proof -
  from assms(3,4) obtain a p b q where xy: "x = Fin a p" "y = Fin b q" "q \<noteq> 0"
    by (cases x; cases y) (auto split: if_splits)
  with assms have "0 \<le> p / q" "round_magnitude (a \<noteq> b) (p / q) = Fin n r" by auto
  from round_magnitude_least [OF this] assms(4) show ?thesis by simp
qed

lemma between_div_not_NaN: "between a b x \<Longrightarrow> between c d y \<Longrightarrow> 0 < c \<Longrightarrow> f64_div x y \<noteq> NaN"
  by (auto elim!: betweenE simp: round_magnitude_rnd signed_def split: if_splits)

lemma f64_lit_0 [simp]: "f64_lit 0 = Fin False 0"
  by (simp add: f64_lit_def round_signed_def)

section \<open>Values without a sign\<close>

text \<open>
  NaN, plus infinity and numbers with a clear sign bit: closed under sum, product, quotient and square root, which
  is what keeps variances and their ratios out of the negative numbers, minus zero included.
\<close>

fun unsigned_f64 :: "f64 \<Rightarrow> bool" where
  "unsigned_f64 NaN = True"
| "unsigned_f64 (Inf neg) = (\<not> neg)"
| "unsigned_f64 (Fin neg r) = (\<not> neg \<and> 0 \<le> r)"

named_theorems unsigned_closed

lemma round_magnitude_unsigned [unsigned_closed]: "0 \<le> r \<Longrightarrow> unsigned_f64 (round_magnitude False r)"
  by (simp add: round_magnitude_rnd rnd_nonneg)

lemma add_unsigned [unsigned_closed]: "unsigned_f64 x \<Longrightarrow> unsigned_f64 y \<Longrightarrow> unsigned_f64 (f64_add x y)"
  by (cases x; cases y) (simp_all add: round_signed_def signed_def round_magnitude_unsigned)

lemma mul_unsigned [unsigned_closed]: "unsigned_f64 x \<Longrightarrow> unsigned_f64 y \<Longrightarrow> unsigned_f64 (f64_mul x y)"
  by (cases x; cases y) (simp_all add: f64_mul_def round_magnitude_unsigned)

lemma div_unsigned [unsigned_closed]: "unsigned_f64 x \<Longrightarrow> unsigned_f64 y \<Longrightarrow> unsigned_f64 (f64_div x y)"
  by (cases x; cases y) (simp_all add: round_magnitude_unsigned)

lemma square_unsigned [unsigned_closed]: "well_formed x \<Longrightarrow> unsigned_f64 (f64_square x)"
  by (cases x) (simp_all add: f64_square_def f64_mul_def round_magnitude_unsigned)

lemma abs_unsigned [unsigned_closed]: "well_formed x \<Longrightarrow> unsigned_f64 (f64_abs x)"
  by (cases x) simp_all

lemma sqrt_unsigned [unsigned_closed]: "unsigned_f64 x \<Longrightarrow> unsigned_f64 (f64_sqrt x)"
proof (cases x)
  case (Fin neg r)
  assume "unsigned_f64 x"
  with Fin have r: "\<not> neg" "0 \<le> r" by simp_all
  show ?thesis
  proof (cases "r = 0")
    case False
    with r have "between (pow2 (exponent_of r div 2)) (pow2 (exponent_of r div 2 + 1)) (f64_sqrt (Fin False r))"
      by (intro f64_sqrt_between) simp
    moreover have "f64_sqrt (Fin False r) = Fin False v \<Longrightarrow> ?thesis" for v
      using Fin r calculation by auto
    ultimately show ?thesis using False by (auto simp: Let_def)
  qed (use Fin r in simp)
qed simp_all

lemma lit_unsigned [unsigned_closed]: "0 \<le> q \<Longrightarrow> unsigned_f64 (f64_lit q)"
  by (simp add: f64_lit_def round_signed_def round_magnitude_unsigned)

lemma of_nat_unsigned [unsigned_closed]: "unsigned_f64 (f64_of_nat n)"
  by (simp add: f64_of_nat_def f64_of_int_def round_signed_def round_magnitude_unsigned)

lemma foldl_add_unsigned: "unsigned_f64 acc \<Longrightarrow> \<forall>x\<in>set xs. unsigned_f64 x \<Longrightarrow> unsigned_f64 (foldl f64_add acc xs)"
  by (induction xs arbitrary: acc) (simp_all add: add_unsigned)

lemma sum_unsigned [unsigned_closed]: "\<forall>x\<in>set xs. unsigned_f64 x \<Longrightarrow> unsigned_f64 (f64_sum xs)"
  by (simp add: f64_sum_def foldl_add_unsigned)

lemma mean_unsigned [unsigned_closed]: "\<forall>x\<in>set xs. unsigned_f64 x \<Longrightarrow> unsigned_f64 (f64_mean xs)"
  by (simp add: f64_mean_def unsigned_closed)

lemma unsigned_well_formed: "unsigned_f64 x \<Longrightarrow> well_formed x"
  by (cases x) simp_all

lemma foldl_add_well_formed: "well_formed acc \<Longrightarrow> \<forall>x\<in>set xs. well_formed x \<Longrightarrow> well_formed (foldl f64_add acc xs)"
  by (induction xs arbitrary: acc) simp_all

lemma f64_sum_well_formed [simp]: "\<forall>x\<in>set xs. well_formed x \<Longrightarrow> well_formed (f64_sum xs)"
  by (simp add: f64_sum_def foldl_add_well_formed)

lemma f64_of_nat_well_formed [simp]: "well_formed (f64_of_nat n)"
  by (rule unsigned_well_formed [OF of_nat_unsigned])

lemma f64_of_word_well_formed [simp]: "well_formed (f64_of_word w)"
  by (simp add: f64_of_word_def f64_of_int_def del: of_int_uint)

lemma f64_square_well_formed [simp]: "well_formed x \<Longrightarrow> well_formed (f64_square x)"
  by (simp add: f64_square_def)

lemma f64_mean_well_formed [simp]: "\<forall>x\<in>set xs. well_formed x \<Longrightarrow> well_formed (f64_mean xs)"
  by (simp add: f64_mean_def)

text \<open>The minimum of such a value and a positive bound, NaN included.\<close>

lemma min_unsigned_between: "unsigned_f64 x \<Longrightarrow> between a b y \<Longrightarrow> 0 \<le> a \<Longrightarrow> between 0 b (f64_min x y)"
  by (cases x) (auto elim!: betweenE simp: f64_min_def signed_def split: if_splits)

end
