(* ===== verification/Signals.thy ===== *)
theory Signals
  imports Common_Types Float_Facts
begin

text \<open>
  \<open>analytics/src/signals.rs\<close>: trading signals from the last fills and the book of a market, and the \<open>Signal\<close> of
  \<open>common/src/types.rs\<close>. Sums of prices and volumes wrap at their width; the random identifiers and the
  reading of UUIDs are arguments.
\<close>

datatype signal_type = SignalBuy | SignalSell | SignalHold | SignalClose

record signal =
  sl_id :: uuid
  sl_market_id :: market_id
  sl_signal_type :: signal_type
  sl_strength :: f64
  sl_confidence :: f64
  sl_expected_return :: i64
  sl_time_horizon :: u64
  sl_created_at :: datetime
  sl_expires_at :: datetime

datatype trading_signal_type = TradeBuy | TradeSell | TradeHold

datatype signal_strength = Strong | Moderate | Weak

text \<open>What a call draws on: UUID texts, the time, and the random identifiers, two for each signal it may create.\<close>

record signal_env =
  sv_parse :: "string \<Rightarrow> uuid option"
  sv_show :: "uuid \<Rightarrow> string"
  sv_now :: datetime
  sv_random :: "nat \<Rightarrow> uuid"

fun common_signal_type :: "trading_signal_type \<Rightarrow> signal_type" where
  "common_signal_type TradeBuy = SignalBuy"
| "common_signal_type TradeSell = SignalSell"
| "common_signal_type TradeHold = SignalHold"

text \<open>The strength class, the stop and the indicators are dropped; \<open>strength\<close> is the confidence.\<close>

definition create_signal ::
  "signal_env \<Rightarrow> nat \<Rightarrow> string \<Rightarrow> trading_signal_type \<Rightarrow> signal_strength \<Rightarrow> f64 \<Rightarrow> u32 option \<Rightarrow> u32 option \<Rightarrow>
     string list \<Rightarrow> signal" where
  "create_signal E k market_id ty strength confidence price_target stop_loss indicators =
     \<lparr>sl_id = sv_random E (2 * k),
      sl_market_id = MarketId (case sv_parse E market_id of Some u \<Rightarrow> u | None \<Rightarrow> sv_random E (2 * k + 1)),
      sl_signal_type = common_signal_type ty, sl_strength = confidence, sl_confidence = confidence,
      sl_expected_return = ucast (case price_target of None \<Rightarrow> 0 | Some p \<Rightarrow> p), sl_time_horizon = 3600,
      sl_created_at = sv_now E, sl_expires_at = sv_now E + 3600000000000\<rparr>"

section \<open>Market data\<close>

record fill_data =
  fd_price :: u32
  fd_quantity :: quantity
  fd_side :: side
  fd_timestamp :: datetime

record market_data =
  md_fills :: "fill_data list"
  md_bids :: "(u32 \<times> u64) list"
  md_asks :: "(u32 \<times> u64) list"
  md_last_update :: datetime

type_synonym signal_generator = "market_id \<Rightarrow> market_data option"

definition WINDOW_SIZE :: nat where
  "WINDOW_SIZE = 100"

definition signals_new :: signal_generator where
  "signals_new = (\<lambda>_. None)"

definition market_data_entry :: "datetime \<Rightarrow> market_id \<Rightarrow> signal_generator \<Rightarrow> market_data" where
  "market_data_entry now m g =
     (case g m of
        Some d \<Rightarrow> d
      | None \<Rightarrow> \<lparr>md_fills = [], md_bids = [], md_asks = [], md_last_update = now\<rparr>)"

definition signals_on_fill :: "datetime \<Rightarrow> fill \<Rightarrow> signal_generator \<Rightarrow> signal_generator" where
  "signals_on_fill now f g =
     (let d = market_data_entry now (fill_market_id f) g in
      g(fill_market_id f \<mapsto> d\<lparr>md_fills := push_window WINDOW_SIZE
            \<lparr>fd_price = price_raw (fill_price f), fd_quantity = fill_quantity f, fd_side = fill_aggressor f,
             fd_timestamp = now\<rparr> (md_fills d),
          md_last_update := now\<rparr>))"

definition level_pairs :: "price_level list \<Rightarrow> (u32 \<times> u64) list" where
  "level_pairs ls = map (\<lambda>l. (price_raw (lvl_price l), quantity_raw (lvl_quantity l))) ls"

definition signals_on_book :: "datetime \<Rightarrow> market_id \<Rightarrow> order_book \<Rightarrow> signal_generator \<Rightarrow> signal_generator" where
  "signals_on_book now m b g =
     (let d = market_data_entry now m g in
      g(m \<mapsto> d\<lparr>md_bids := level_pairs (book_bids b), md_asks := level_pairs (book_asks b),
                md_last_update := now\<rparr>))"

section \<open>The three checks\<close>

definition confidence_to_strength :: "f64 \<Rightarrow> signal_strength" where
  "confidence_to_strength c =
     (if f64_less (f64_lit (8 / 10)) c then Strong else if f64_less (f64_lit (5 / 10)) c then Moderate else Weak)"

definition side_volume :: "side \<Rightarrow> fill_data list \<Rightarrow> u64" where
  "side_volume s fs = sum_list (map (\<lambda>f. quantity_raw (fd_quantity f)) (filter (\<lambda>f. fd_side f = s) fs))"

definition volume_ratio :: "u64 \<Rightarrow> u64 \<Rightarrow> f64" where
  "volume_ratio part whole = f64_div (f64_of_word part) (f64_of_word whole)"

definition ratio_confidence :: "f64 \<Rightarrow> f64" where
  "ratio_confidence r = f64_mul (f64_sub r (f64_lit (1 / 2))) (f64_lit 2)"

definition IMBALANCE_THRESHOLD :: f64 where
  "IMBALANCE_THRESHOLD = f64_lit (6 / 10)"

definition check_order_flow_imbalance :: "signal_env \<Rightarrow> nat \<Rightarrow> string \<Rightarrow> market_data \<Rightarrow> signal option" where
  "check_order_flow_imbalance E k market_id d =
     (let recent = take 20 (rev (md_fills d));
          buy = side_volume Buy recent;
          sell = side_volume Sell recent;
          whole = buy + sell;
          signal_of = (\<lambda>ty r. create_signal E k market_id ty (confidence_to_strength (ratio_confidence r))
             (ratio_confidence r) None None [''order_flow_imbalance''])
      in
      if length recent < 10 then None
      else if whole = 0 then None
      else if f64_less IMBALANCE_THRESHOLD (volume_ratio buy whole) then Some (signal_of TradeBuy (volume_ratio buy whole))
      else if f64_less IMBALANCE_THRESHOLD (volume_ratio sell whole) then Some (signal_of TradeSell (volume_ratio sell whole))
      else None)"

definition average_price :: "fill_data list \<Rightarrow> f64" where
  "average_price fs = f64_div (f64_of_word (sum_list (map fd_price fs))) (f64_of_nat (length fs))"

definition MOMENTUM_THRESHOLD :: f64 where
  "MOMENTUM_THRESHOLD = f64_lit (2 / 100)"

definition check_momentum :: "signal_env \<Rightarrow> nat \<Rightarrow> string \<Rightarrow> market_data \<Rightarrow> signal option" where
  "check_momentum E k market_id d =
     (let recent = take 10 (rev (md_fills d));
          older = take 10 (drop 10 (rev (md_fills d)));
          recent_avg = average_price recent;
          older_avg = average_price older;
          change = f64_div (f64_sub recent_avg older_avg) older_avg
      in
      if length (md_fills d) < 20 then None
      else if recent = [] \<or> older = [] then None
      else if f64_less MOMENTUM_THRESHOLD (f64_abs change) then
        (let (ty, confidence) =
               (if f64_less (f64_lit 0) change then (TradeBuy, f64_min change (f64_lit 1))
                else (TradeSell, f64_min (f64_abs change) (f64_lit 1)))
         in Some (create_signal E k market_id ty (confidence_to_strength confidence) confidence
               (Some (f64_as_u32 (f64_mul recent_avg (f64_add (f64_lit 1) change))))
               (Some (f64_as_u32 (f64_mul recent_avg (f64_sub (f64_lit 1) change)))) [''price_momentum'']))
      else None)"

definition u32_saturating_add :: "u32 \<Rightarrow> u32 \<Rightarrow> u32" where
  "u32_saturating_add a b = (if uint a + uint b < 2 ^ 32 then a + b else 4294967295)"

definition check_support_resistance :: "signal_env \<Rightarrow> nat \<Rightarrow> string \<Rightarrow> market_data \<Rightarrow> signal option" where
  "check_support_resistance E k market_id d =
     (if md_bids d = [] \<or> md_asks d = [] then None
      else
        (let best_bid = fst (hd (md_bids d));
             best_ask = fst (hd (md_asks d));
             spread = word_saturating_sub best_ask best_bid;
             bid_qty = sum_list (map snd (md_bids d));
             ask_qty = sum_list (map snd (md_asks d));
             bid_pressure = volume_ratio bid_qty (bid_qty + ask_qty);
             ask_pressure = volume_ratio ask_qty (bid_qty + ask_qty)
         in
         if bid_qty = 0 \<or> ask_qty = 0 then None
         else if f64_less (f64_lit (65 / 100)) bid_pressure \<and> spread < 10 then
           Some (create_signal E k market_id TradeBuy Moderate bid_pressure (Some best_ask)
             (Some (word_saturating_sub best_bid 20)) [''support_wall''])
         else if f64_less (f64_lit (65 / 100)) ask_pressure \<and> spread < 10 then
           Some (create_signal E k market_id TradeSell Moderate ask_pressure (Some best_bid)
             (Some (u32_saturating_add best_ask 20)) [''resistance_wall''])
         else None))"

definition generate :: "signal_env \<Rightarrow> market_id \<Rightarrow> signal_generator \<Rightarrow> signal list" where
  "generate E m g =
     (case g m of
        None \<Rightarrow> []
      | Some d \<Rightarrow>
          (let s = sv_show E (market_uuid m) in
           List.map_filter (\<lambda>x. x)
             [check_order_flow_imbalance E 0 s d, check_momentum E 1 s d, check_support_resistance E 2 s d]))"

section \<open>Volumes and confidences\<close>

lemma unat_sum_list:
  "sum_list (map unat ws) < 2 ^ LENGTH('w) \<Longrightarrow> unat (sum_list ws) = sum_list (map unat ws)" for ws :: "'w::len word list"
  by (induction ws) (simp_all add: unat_word_ariths)

lemma f64_of_word_value:
  fixes w :: "'w::len word"
  assumes "LENGTH('w) \<le> 971"
  shows "f64_of_word w = Fin False (rnd (of_int (uint w)))"
proof -
  have "0 \<le> (of_int (uint w) :: rat)" by (simp del: of_int_uint)
  moreover have "between 0 (pow2 (int LENGTH('w))) (round_magnitude False (of_int (uint w)))"
    using f64_of_word_between [OF assms, of w] calculation
    by (cases "uint w = 0") (simp_all add: f64_of_word_def f64_of_int_def round_signed_def round_magnitude_def del: of_int_uint)
  ultimately show ?thesis
    unfolding f64_of_word_def f64_of_int_def round_signed_def
    by (simp add: round_magnitude_rnd rnd_def del: of_int_uint split: if_splits)
qed

lemma volume_ratio_between:
  assumes "part \<le> whole" and "whole \<noteq> 0"
  shows "between 0 1 (volume_ratio part whole)"
proof -
  let ?p = "rnd (of_int (uint part))" and ?w = "rnd (of_int (uint whole))"
  have "uint part \<le> uint whole" using assms(1) by (simp add: word_le_def)
  then have "(of_int (uint part) :: rat) \<le> of_int (uint whole)" by (simp only: of_int_le_iff)
  moreover have nn: "0 \<le> (of_int (uint part) :: rat)" by (simp del: of_int_uint)
  ultimately have le: "?p \<le> ?w" by (intro rnd_mono)
  have "1 \<le> uint whole" using assms(2) by (metis One_nat_def int_one_le_iff_zero_less linorder_not_le uint_0_iff unsigned_greater_eq order_le_less)
  then have "(1 :: rat) \<le> of_int (uint whole)" by (simp only: of_int_1_le_iff)
  then have "rnd 1 \<le> ?w" by (intro rnd_mono) simp_all
  then have w: "1 \<le> ?w" using fits_1 by (simp add: fits_def srnd_def)
  have p: "0 \<le> ?p" by (rule rnd_nonneg [OF nn])
  have "?p / ?w \<le> 1" using le w by simp
  moreover have "0 \<le> ?p / ?w" using p w by simp
  ultimately have "between 0 1 (round_magnitude False (?p / ?w))"
    by (intro round_magnitude_between) (simp_all add: signed_def)
  with w show ?thesis by (simp add: volume_ratio_def f64_of_word_value)
qed

lemma volume_ratio_majority:
  assumes "f64_less (f64_lit (3 / 5)) (volume_ratio part whole)" and "part \<le> whole" and "unat whole < 2 ^ 53"
  shows "3 * unat whole < 5 * unat part"
proof -
  have "unat part \<le> unat whole" using assms(2) by (simp add: word_le_nat_alt)
  then have small: "\<bar>uint w\<bar> < 2 ^ 53" if "w = part \<or> w = whole" for w
  proof -
    have "unat w < 2 ^ 53" using that assms(3) \<open>unat part \<le> unat whole\<close> by auto
    then have "int (unat w) < int (2 ^ 53)" by (simp only: of_nat_less_iff)
    then show ?thesis by simp
  qed
  have ex: "rnd (of_int (uint w)) = of_int (uint w)" if "w = part \<or> w = whole" for w
    using fits_int [OF small [OF that]] by (simp add: fits_def srnd_def del: of_int_uint)
  have wz: "whole \<noteq> 0"
  proof
    assume "whole = 0"
    with assms(2) have "volume_ratio part whole = NaN" by (simp add: volume_ratio_def f64_of_word_value rnd_def)
    with f64_less_not_NaN [OF assms(1)] show False by simp
  qed
  let ?q = "(of_int (uint part) / of_int (uint whole) :: rat)"
  have q: "0 \<le> ?q" by (simp del: of_int_uint)
  have uw: "(0 :: rat) < of_int (uint whole)" using wz by (simp add: uint_0_iff less_le del: of_int_uint)
  have vr: "volume_ratio part whole = round_magnitude False ?q"
    using uw by (simp add: volume_ratio_def f64_of_word_value ex less_imp_neq [symmetric] del: of_int_uint)
  have "between 0 1 (round_magnitude False ?q)" using volume_ratio_between [OF assms(2) wz] by (simp only: vr)
  then have "round_magnitude False ?q = Fin False (rnd ?q)"
    unfolding round_magnitude_rnd [OF q] by (simp split: if_splits)
  moreover have "f64_lit (3 / 5) = Fin False (rnd (3 / 5))"
    using f64_lit_between [of 0 "3 / 5" 1]
    by (simp add: f64_lit_def round_signed_def round_magnitude_rnd split: if_splits)
  ultimately have "rnd (3 / 5) < rnd ?q" using assms(1) by (simp add: vr signed_def)
  then have "3 / 5 < ?q" using rnd_mono [OF q, of "3 / 5"] by linarith
  then have "3 * of_int (uint whole) < (5 * of_int (uint part) :: rat)" using uw by (simp add: field_simps del: of_int_uint)
  then have "of_int (3 * uint whole) < (of_int (5 * uint part) :: rat)" by simp
  then have "3 * uint whole < 5 * uint part" by (simp only: of_int_less_iff)
  then have "int (3 * unat whole) < int (5 * unat part)" by simp
  then show ?thesis by (simp only: of_nat_less_iff)
qed

lemma ratio_confidence_between:
  assumes "f64_less IMBALANCE_THRESHOLD r" and "between 0 1 r"
  shows "between (1 / 64) 1 (ratio_confidence r)"
proof -
  have fits: "fits (9 / 16)" "fits (1 / 16)" "fits (1 / 64)"
    using fits_mult [of 9 "- 4"] fits_mult [of 1 "- 4"] fits_mult [of 1 "- 6"] by (simp_all add: pow2_powi power_int_minus)
  have "between (9 / 16) 1 IMBALANCE_THRESHOLD"
    unfolding IMBALANCE_THRESHOLD_def by (rule f64_lit_between) (simp_all add: fits)
  from f64_less_lower [OF assms(1) this assms(2)] have "between (9 / 16) 1 r" .
  moreover have half: "between (1 / 2) (1 / 2) (f64_lit (1 / 2))"
    using fits_pow2 [of "- 1"] by (intro f64_lit_between) (simp_all add: pow2_powi power_int_minus)
  ultimately have "between (1 / 16) 1 (f64_sub r (f64_lit (1 / 2)))" by (rule between_sub) (simp_all add: fits)
  then have sub: "between (1 / 16) (1 / 2) (f64_sub r (f64_lit (1 / 2)))"
    using between_sub [OF assms(2) half, of "- 1" "1 / 2"] fits_pow2 [of "- 1"]
    by (auto simp: pow2_powi power_int_minus elim!: betweenE)
  have "between 2 2 (f64_lit 2)" by (rule f64_lit_between) (simp_all add: fits_numeral)
  from sub this show ?thesis unfolding ratio_confidence_def
    by (rule between_mul) (auto simp: fits)
qed

lemma average_price_between:
  assumes "fs \<noteq> []" and "length fs < 2 ^ 53"
  shows "between 0 (pow2 32) (average_price fs)"
proof -
  have "between 0 (pow2 32) (f64_of_word (sum_list (map fd_price fs)))"
    using f64_of_word_between [of "sum_list (map fd_price fs)"] by simp
  then show ?thesis unfolding average_price_def using assms by (intro between_div_nat) (simp_all add: fits_pow2)
qed

text \<open>Volumes that do not overflow 64 bits.\<close>

definition volumes_fit :: "market_data \<Rightarrow> bool" where
  "volumes_fit d \<longleftrightarrow>
     sum_list (map (\<lambda>f. unat (quantity_raw (fd_quantity f))) (md_fills d)) < 2 ^ 64 \<and>
     sum_list (map (unat \<circ> snd) (md_bids d)) + sum_list (map (unat \<circ> snd) (md_asks d)) < 2 ^ 64"

lemma sum_filter_le: "sum_list (map f (filter P xs)) \<le> sum_list (map f xs)" for f :: "'a \<Rightarrow> nat"
  by (induction xs) auto

lemma sum_take_le: "sum_list (map f (take n xs)) \<le> sum_list (map f xs)" for f :: "'a \<Rightarrow> nat"
  using sum_list_append [of "map f (take n xs)" "map f (drop n xs)"] by (simp add: map_append [symmetric])

lemma buy_sell_volumes:
  assumes "volumes_fit d"
  shows "unat (side_volume Buy (take n (rev (md_fills d))) + side_volume Sell (take n (rev (md_fills d)))) =
    unat (side_volume Buy (take n (rev (md_fills d)))) + unat (side_volume Sell (take n (rev (md_fills d))))"
proof -
  let ?q = "\<lambda>f. unat (quantity_raw (fd_quantity f))" and ?fs = "take n (rev (md_fills d))"
  have all: "sum_list (map ?q ?fs) \<le> sum_list (map ?q (md_fills d))"
    using sum_take_le [of ?q n "rev (md_fills d)"] by (simp add: rev_map [symmetric] sum_list_rev)
  have parts: "sum_list (map ?q (filter (\<lambda>f. fd_side f = Buy) fs)) + sum_list (map ?q (filter (\<lambda>f. fd_side f = Sell) fs)) =
    sum_list (map ?q fs)" for fs
  proof (induction fs)
    case (Cons f fs)
    then show ?case by (cases "fd_side f") auto
  qed simp
  have "unat (side_volume s ?fs) = sum_list (map ?q (filter (\<lambda>f. fd_side f = s) ?fs))" for s
  proof -
    have "sum_list (map ?q (filter (\<lambda>f. fd_side f = s) ?fs)) < 2 ^ 64"
      using sum_filter_le [of ?q "\<lambda>f. fd_side f = s" ?fs] all assms by (simp add: volumes_fit_def)
    then show ?thesis unfolding side_volume_def by (subst unat_sum_list) (simp_all add: comp_def)
  qed
  with parts [of ?fs] all assms show ?thesis by (simp add: volumes_fit_def unat_word_ariths)
qed

lemma le_plus_word: "unat (a + b) = unat a + unat b \<Longrightarrow> a \<le> a + b \<and> b \<le> a + b" for a b :: "'w::len word"
  by (simp add: word_le_nat_alt)

definition sound_signal :: "signal_env \<Rightarrow> market_id \<Rightarrow> signal \<Rightarrow> bool" where
  "sound_signal E m x \<longleftrightarrow> sl_market_id x = m \<and> sl_strength x = sl_confidence x \<and>
     between (1 / 64) 1 (sl_confidence x) \<and> sl_signal_type x \<in> {SignalBuy, SignalSell} \<and>
     sl_expires_at x = sv_now E + 3600000000000"

lemma create_signal_sound:
  assumes "sv_parse E s = Some (market_uuid m)" and "between (1 / 64) 1 c" and "ty \<in> {TradeBuy, TradeSell}"
  shows "sound_signal E m (create_signal E k s ty st c p q is)"
  using assms by (cases m) (auto simp: sound_signal_def create_signal_def)

lemma imbalance_sound:
  assumes "sv_parse E s = Some (market_uuid m)" and "volumes_fit d"
    and "check_order_flow_imbalance E k s d = Some x"
  shows "sound_signal E m x"
proof -
  let ?b = "side_volume Buy (take 20 (rev (md_fills d)))" and ?s = "side_volume Sell (take 20 (rev (md_fills d)))"
  from le_plus_word [OF buy_sell_volumes [OF assms(2), of 20]] have le: "?b \<le> ?b + ?s" "?s \<le> ?b + ?s" by auto
  from assms(3) have nz: "?b + ?s \<noteq> 0"
    by (auto simp: check_order_flow_imbalance_def Let_def split: if_splits)
  from assms(3) consider
      "f64_less IMBALANCE_THRESHOLD (volume_ratio ?b (?b + ?s))"
      "x = create_signal E k s TradeBuy (confidence_to_strength (ratio_confidence (volume_ratio ?b (?b + ?s))))
        (ratio_confidence (volume_ratio ?b (?b + ?s))) None None [''order_flow_imbalance'']"
    | "f64_less IMBALANCE_THRESHOLD (volume_ratio ?s (?b + ?s))"
      "x = create_signal E k s TradeSell (confidence_to_strength (ratio_confidence (volume_ratio ?s (?b + ?s))))
        (ratio_confidence (volume_ratio ?s (?b + ?s))) None None [''order_flow_imbalance'']"
    by (auto simp: check_order_flow_imbalance_def Let_def split: if_splits)
  then show ?thesis
    by cases (use create_signal_sound [OF assms(1)] ratio_confidence_between volume_ratio_between le nz in simp_all)
qed

lemma momentum_sound:
  assumes "sv_parse E s = Some (market_uuid m)" and "check_momentum E k s d = Some x"
  shows "sound_signal E m x"
proof -
  let ?r = "take 10 (rev (md_fills d))" and ?o = "take 10 (drop 10 (rev (md_fills d)))"
  let ?change = "f64_div (f64_sub (average_price ?r) (average_price ?o)) (average_price ?o)"
  from assms(2) have ne: "?r \<noteq> []" "?o \<noteq> []" and above: "f64_less MOMENTUM_THRESHOLD (f64_abs ?change)"
    by (auto simp: check_momentum_def Let_def split: if_splits)
  have len: "length ?r < 2 ^ 53" "length ?o < 2 ^ 53" by (simp_all add: min_def)
  have wf: "well_formed ?change"
    using average_price_between [OF ne(1) len(1)] average_price_between [OF ne(2) len(2)]
    by (simp add: between_well_formed)
  have fits: "fits (1 / 64)" using fits_mult [of 1 "- 6"] by (simp add: pow2_powi power_int_minus)
  have thr: "between (1 / 64) 1 MOMENTUM_THRESHOLD"
    unfolding MOMENTUM_THRESHOLD_def by (rule f64_lit_between) (simp_all add: fits)
  have one: "between 1 1 (f64_lit 1)" by (rule f64_lit_between) simp_all
  have neg: "between (1 / 64) 1 (f64_min (f64_abs ?change) (f64_lit 1))"
    using min_above_between [OF above thr _ one] wf by simp
  have pos: "between (1 / 64) 1 (f64_min ?change (f64_lit 1))" if "f64_less (f64_lit 0) ?change"
  proof -
    have "f64_abs ?change = ?change"
      using that wf by (cases ?change) (auto simp: f64_lit_def round_signed_def signed_def split: if_splits)
    with neg show ?thesis by simp
  qed
  show ?thesis
    using assms(2) pos neg create_signal_sound [OF assms(1)]
    by (simp add: check_momentum_def Let_def split: if_splits prod.splits) metis+
qed

lemma support_resistance_sound:
  assumes "sv_parse E s = Some (market_uuid m)" and "volumes_fit d" and "check_support_resistance E k s d = Some x"
  shows "sound_signal E m x"
proof -
  let ?b = "sum_list (map snd (md_bids d))" and ?a = "sum_list (map snd (md_asks d))"
  have "unat ?b = sum_list (map (unat \<circ> snd) (md_bids d))" "unat ?a = sum_list (map (unat \<circ> snd) (md_asks d))"
    using assms(2) unat_sum_list [of "map snd (md_bids d)"] unat_sum_list [of "map snd (md_asks d)"]
    by (simp_all add: volumes_fit_def)
  then have "unat (?b + ?a) = unat ?b + unat ?a" using assms(2) by (simp add: volumes_fit_def unat_word_ariths)
  from le_plus_word [OF this] have le: "?b \<le> ?b + ?a" "?a \<le> ?b + ?a" by auto
  from assms(3) have nz: "?b \<noteq> 0" "?a \<noteq> 0" by (auto simp: check_support_resistance_def Let_def split: if_splits)
  then have whole: "?b + ?a \<noteq> 0" using le by auto
  have fits: "fits (1 / 2)" "fits (1 / 64)"
    using fits_mult [of 1 "- 1"] fits_mult [of 1 "- 6"] by (simp_all add: pow2_powi power_int_minus)
  have thr: "between (1 / 2) 1 (f64_lit (65 / 100))" by (rule f64_lit_between) (simp_all add: fits)
  have conf: "between (1 / 64) 1 (volume_ratio q (?b + ?a))"
    if "f64_less (f64_lit (65 / 100)) (volume_ratio q (?b + ?a))" and "q = ?b \<or> q = ?a" for q
  proof -
    have "between 0 1 (volume_ratio q (?b + ?a))" using that(2) le whole volume_ratio_between by blast
    from f64_less_lower [OF that(1) thr this] show ?thesis by (rule between_weaken) simp_all
  qed
  show ?thesis
    using assms(3) create_signal_sound [OF assms(1)] conf
    by (auto simp: check_support_resistance_def Let_def split: if_splits)
qed

text \<open>
  Every signal generated for a market whose volumes do not overflow is for that market, says buy or sell, has
  its confidence as its strength, a number of at least a 64th and at most one (also when prices were zero,
  where the change of the price is infinite), and expires after an hour; there are at most three. A buy
  signal of the order flow means that more than three fifths of the volume of the last twenty fills were
  buys, and a sell signal the same of sales.
\<close>
theorem generated_signals:
  assumes "g m = Some d" and "volumes_fit d"
    and "sv_parse E (sv_show E (market_uuid m)) = Some (market_uuid m)"
  shows "(\<forall>x\<in>set (generate E m g). sound_signal E m x) \<and> length (generate E m g) \<le> 3 \<and>
    (\<forall>k s x. check_order_flow_imbalance E k s d = Some x \<longrightarrow>
       (let fs = take 20 (rev (md_fills d)); buy = unat (side_volume Buy fs); sell = unat (side_volume Sell fs) in
        buy + sell < 2 ^ 53 \<longrightarrow>
          (sl_signal_type x = SignalBuy \<longrightarrow> 3 * (buy + sell) < 5 * buy) \<and>
          (sl_signal_type x = SignalSell \<longrightarrow> 3 * (buy + sell) < 5 * sell)))"
proof (intro conjI)
  show "\<forall>x\<in>set (generate E m g). sound_signal E m x"
    using imbalance_sound [OF assms(3,2)] momentum_sound [OF assms(3)] support_resistance_sound [OF assms(3,2)]
    by (auto simp: generate_def assms(1) Let_def map_filter_simps split: option.splits)
  show "length (generate E m g) \<le> 3"
    by (simp add: generate_def assms(1) Let_def map_filter_simps split: option.splits)
  let ?b = "side_volume Buy (take 20 (rev (md_fills d)))" and ?s = "side_volume Sell (take 20 (rev (md_fills d)))"
  note add = buy_sell_volumes [OF assms(2), of 20]
  show "\<forall>k s x. check_order_flow_imbalance E k s d = Some x \<longrightarrow>
       (let fs = take 20 (rev (md_fills d)); buy = unat (side_volume Buy fs); sell = unat (side_volume Sell fs) in
        buy + sell < 2 ^ 53 \<longrightarrow>
          (sl_signal_type x = SignalBuy \<longrightarrow> 3 * (buy + sell) < 5 * buy) \<and>
          (sl_signal_type x = SignalSell \<longrightarrow> 3 * (buy + sell) < 5 * sell))"
    using volume_ratio_majority [of ?b "?b + ?s"] volume_ratio_majority [of ?s "?b + ?s"] le_plus_word [OF add]
    by (auto simp: check_order_flow_imbalance_def Let_def create_signal_def IMBALANCE_THRESHOLD_def add split: if_splits)
qed

definition sample_signal_env :: signal_env where
  "sample_signal_env = \<lparr>sv_parse = (\<lambda>s. Some (of_nat (length s))), sv_show = (\<lambda>u. replicate (unat u) CHR ''0''),
     sv_now = 5, sv_random = of_nat\<rparr>"

definition sample_market_data :: market_data where
  "sample_market_data =
     \<lparr>md_fills = replicate 10 \<lparr>fd_price = 110, fd_quantity = Quantity 4, fd_side = Buy, fd_timestamp = 0\<rparr>
        @ replicate 10 \<lparr>fd_price = 100, fd_quantity = Quantity 1, fd_side = Sell, fd_timestamp = 0\<rparr>,
      md_bids = [(100, 3)], md_asks = [(105, 1)], md_last_update = 0\<rparr>"

lemma generated_signals_witness:
  "\<exists>x. generate sample_signal_env (MarketId 7) [MarketId 7 \<mapsto> sample_market_data] ! 0 = x \<and>
    sl_signal_type x = SignalBuy \<and> sound_signal sample_signal_env (MarketId 7) x"
proof -
  let ?g = "[MarketId 7 \<mapsto> sample_market_data]" and ?E = sample_signal_env
  have "volumes_fit sample_market_data" by (simp add: volumes_fit_def sample_market_data_def sum_list_replicate)
  moreover have "sv_parse ?E (sv_show ?E (market_uuid (MarketId 7))) = Some (market_uuid (MarketId 7))"
    by (simp add: sample_signal_env_def)
  ultimately have s: "\<forall>x\<in>set (generate ?E (MarketId 7) ?g). sound_signal ?E (MarketId 7) x"
    using generated_signals [of ?g "MarketId 7" sample_market_data ?E] by simp
  have g: "map sl_signal_type (generate ?E (MarketId 7) ?g) = [SignalBuy, SignalSell, SignalBuy]" by code_simp
  then obtain x xs where x: "generate ?E (MarketId 7) ?g = x # xs" "sl_signal_type x = SignalBuy" by auto
  with s show ?thesis by auto
qed

section \<open>Windows\<close>

inductive signals_step :: "signal_generator \<Rightarrow> signal_generator \<Rightarrow> bool" where
  "signals_step g (signals_on_fill now f g)"
| "signals_step g (signals_on_book now m b g)"

definition windows_ok :: "signal_generator \<Rightarrow> bool" where
  "windows_ok g \<longleftrightarrow> (\<forall>m d. g m = Some d \<longrightarrow> length (md_fills d) \<le> WINDOW_SIZE)"

lemma market_data_entry_ok: "windows_ok g \<Longrightarrow> length (md_fills (market_data_entry now m g)) \<le> WINDOW_SIZE"
  by (auto simp: windows_ok_def market_data_entry_def split: option.splits)

interpretation signals: kept_by_steps signals_step windows_ok
proof
  fix g h
  assume ok: "windows_ok g" and "signals_step g h"
  from this(2) show "windows_ok h"
  proof cases
    case (1 now f)
    have "length (push_window WINDOW_SIZE x (md_fills (market_data_entry now (fill_market_id f) g))) \<le> WINDOW_SIZE" for x
      using market_data_entry_ok [OF ok] by (rule length_push_window) (simp add: WINDOW_SIZE_def)
    with ok show ?thesis by (auto simp: 1 windows_ok_def signals_on_fill_def Let_def)
  next
    case (2 now m b)
    with ok market_data_entry_ok [OF ok, of now m] show ?thesis
      by (auto simp: windows_ok_def signals_on_book_def Let_def)
  qed
qed

text \<open>However fills and books arrive, at most the last hundred fills of a market are kept.\<close>

theorem signal_windows_bounded:
  assumes "signals_step\<^sup>*\<^sup>* signals_new g" and "g m = Some d"
  shows "length (md_fills d) \<le> 100"
proof -
  have "windows_ok signals_new" by (simp add: windows_ok_def signals_new_def)
  from signals.run_keeps [OF assms(1) this] assms(2) show ?thesis by (simp add: windows_ok_def WINDOW_SIZE_def)
qed

end
