(* ===== verification/Trading_Engine.thy ===== *)
theory Trading_Engine
  imports Exchange_Socket Order_Service Tasks Signals
begin

text \<open>
  \<open>api-http/src/trading_engine.rs\<close>: the background engine that feeds market data to the analytics and watches
  the risk manager's breaker. The analytics engine is not in the repository; what it is handed is logged in
  the state, and the signals it generates, its breaker, and the list of active orders (\<open>list_all_active\<close>, which
  the order service does not have) are arguments.
\<close>

record trading_engine =
  te_client :: "client option"
  te_stream :: bool
  te_stream_lock :: lock
  te_running :: bool
  te_data_loop :: bool
  te_books :: "order_book list"
  te_fills :: "fill list"

definition trading_engine_new :: trading_engine where
  "trading_engine_new =
     \<lparr>te_client = None, te_stream = False, te_stream_lock = Free, te_running = False, te_data_loop = False,
      te_books = [], te_fills = []\<rparr>"

definition engine_breaker_config :: breaker_config where
  "engine_breaker_config = \<lparr>cfg_failure_threshold = 5, cfg_reset_timeout = 30, cfg_failure_window = 60\<rparr>"

definition initialize_engine ::
  "string \<Rightarrow> string \<Rightarrow> string \<Rightarrow> string \<Rightarrow> trading_engine \<Rightarrow> trading_engine \<times> unit run" where
  "initialize_engine api_url key secret passphrase s =
     (let s1 = s\<lparr>te_client := Some (with_circuit_breaker engine_breaker_config (client_new api_url key secret passphrase))\<rparr>
      in case lock_write (te_stream_lock s) of
           None \<Rightarrow> (s1, Inl Blocked)
         | Some _ \<Rightarrow> (s1\<lparr>te_stream := True\<rparr>, Inr ()))"

section \<open>Market data\<close>

definition scaled :: "f64 \<Rightarrow> f64" where
  "scaled x = f64_mul x (f64_lit 1000000)"

definition level_of :: "book_level \<Rightarrow> price_level" where
  "level_of l =
     \<lparr>lvl_price = Price (f64_as_u32 (scaled (bl_price l))),
      lvl_quantity = Quantity (f64_as_u64 (scaled (bl_size l))), lvl_count = 1\<rparr>"

fun side_of :: "exchange_side \<Rightarrow> side" where
  "side_of XBuy = Buy"
| "side_of XSell = Sell"

text \<open>
  What the loop reads of an event besides its fields: the parser of UUIDs, and the taker's order and the side of
  a trade, which \<open>trading_engine.rs\<close> reads as fields but the \<open>Trade\<close> of \<open>polymarket/src/types.rs\<close> does not have.
\<close>

record event_env =
  ee_parse :: "string \<Rightarrow> uuid option"
  ee_taker_order_id :: "trade \<Rightarrow> string"
  ee_side :: "trade \<Rightarrow> exchange_side"

text \<open>What an event becomes, or nothing when an identifier does not parse.\<close>

definition book_of :: "event_env \<Rightarrow> market_event \<Rightarrow> order_book option" where
  "book_of E e =
     (case e of
        BookEvent m a bids asks t \<Rightarrow>
          map_option (\<lambda>u. \<lparr>book_market_id = MarketId u, book_bids = map level_of bids,
                           book_asks = map level_of asks, book_sequence = 0\<rparr>) (ee_parse E m)
      | _ \<Rightarrow> None)"

definition fill_of :: "event_env \<Rightarrow> datetime \<Rightarrow> market_event \<Rightarrow> fill option" where
  "fill_of E now e =
     (case e of
        TradeEvent t \<Rightarrow>
          (case (ee_parse E (td_id t), ee_parse E (td_market_id t), ee_parse E (ee_taker_order_id E t)) of
             (Some i, Some m, Some k) \<Rightarrow>
               Some \<lparr>fill_id = FillId i, fill_market_id = MarketId m, fill_maker_order_id = OrderId 0,
                     fill_taker_order_id = OrderId k, fill_maker_user_id = UserId 0, fill_taker_user_id = UserId 0,
                     fill_price = Price (f64_as_u32 (scaled (td_price t))),
                     fill_quantity = Quantity (f64_as_u64 (td_size t)), fill_aggressor = side_of (ee_side E t),
                     fill_sequence = 0, fill_filled_at = now, fill_transaction_id = None\<rparr>
           | _ \<Rightarrow> None)
      | _ \<Rightarrow> None)"

definition deliver :: "event_env \<Rightarrow> datetime \<Rightarrow> market_event \<Rightarrow> trading_engine \<Rightarrow> trading_engine" where
  "deliver E now e s =
     s\<lparr>te_books := te_books s @ (case book_of E e of None \<Rightarrow> [] | Some b \<Rightarrow> [b]),
       te_fills := te_fills s @ (case fill_of E now e of None \<Rightarrow> [] | Some f \<Rightarrow> [f])\<rparr>"

text \<open>
  The data loop takes the lock on the stream and keeps it until it ends. It looks at \<open>running\<close> and at the
  breaker only between two events; while it waits for an event, \<open>te_data_loop\<close> is set.
\<close>

definition loop_check :: "bool \<Rightarrow> trading_engine \<Rightarrow> trading_engine" where
  "loop_check breaker s =
     (if te_running s \<and> \<not> breaker then s\<lparr>te_data_loop := True\<rparr>
      else s\<lparr>te_data_loop := False, te_stream_lock := Free\<rparr>)"

definition start_data_loop :: "bool \<Rightarrow> trading_engine \<Rightarrow> trading_engine" where
  "start_data_loop breaker s =
     (case lock_write (te_stream_lock s) of
        None \<Rightarrow> s
      | Some l \<Rightarrow> if \<not> te_stream s then s else loop_check breaker (s\<lparr>te_stream_lock := l\<rparr>))"

definition data_event ::
  "event_env \<Rightarrow> datetime \<Rightarrow> market_event option \<Rightarrow> bool \<Rightarrow> trading_engine \<Rightarrow> trading_engine" where
  "data_event E now received breaker s =
     (if \<not> te_data_loop s then s
      else loop_check breaker (case received of None \<Rightarrow> s | Some e \<Rightarrow> deliver E now e s))"

definition start_engine :: "bool \<Rightarrow> trading_engine \<Rightarrow> trading_engine \<times> unit run" where
  "start_engine breaker s =
     (let s1 = s\<lparr>te_running := True\<rparr> in
      case lock_read (te_stream_lock s1) of
        None \<Rightarrow> (s1, Inl Blocked)
      | Some _ \<Rightarrow> (start_data_loop breaker s1, Inr ()))"

definition stop_engine :: "trading_engine \<Rightarrow> trading_engine" where
  "stop_engine s = s\<lparr>te_running := False\<rparr>"

record engine_status =
  es_running :: bool
  es_connected :: bool
  es_ws_connected :: bool
  es_breaker_active :: bool

definition get_status :: "bool \<Rightarrow> trading_engine \<Rightarrow> engine_status run" where
  "get_status breaker s =
     (case lock_read (te_stream_lock s) of
        None \<Rightarrow> Inl Blocked
      | Some _ \<Rightarrow> Inr \<lparr>es_running = te_running s, es_connected = (te_client s \<noteq> None),
                       es_ws_connected = te_stream s, es_breaker_active = breaker\<rparr>)"

section \<open>Orders\<close>

text \<open>\<open>cancel_all_open_orders\<close>: the errors it logs, and its result.\<close>

definition cancel_all_open_orders :: "app_error + order list \<Rightarrow> (order \<times> app_error) list \<times> unit app_result" where
  "cancel_all_open_orders active =
     (case active of
        Inl e \<Rightarrow> ([], Inl e)
      | Inr os \<Rightarrow>
          (List.map_filter (\<lambda>a. case service_cancel (ord_user_id a) (ord_id a) of
               Inl e \<Rightarrow> Some (a, e) | Inr _ \<Rightarrow> None) os, Inr ()))"

text \<open>
  A turn of the order loop: the signals of a random market; a strong one has its market fetched and is then
  dropped. The requests it makes are returned.
\<close>

definition order_turn :: "client_deps \<Rightarrow> (uuid \<Rightarrow> string) \<Rightarrow> int \<Rightarrow> signal list \<Rightarrow> trading_engine \<Rightarrow> http_request list" where
  "order_turn d show_uuid timestamp signals s =
     (case te_client s of
        None \<Rightarrow> []
      | Some c \<Rightarrow>
          map (\<lambda>g. get_market_request d timestamp (show_uuid (market_uuid (sl_market_id g))) c)
            (filter (\<lambda>g. f64_less (f64_lit (8 / 10)) (sl_strength g) \<and> f64_less (f64_lit (8 / 10)) (sl_confidence g))
               signals))"

text \<open>
  A turn of the order task: it stops when the engine was stopped; the breaker makes it cancel the active orders
  and stop. The requests, the errors it logs, and whether it goes on.
\<close>

definition execution_turn ::
  "client_deps \<Rightarrow> (uuid \<Rightarrow> string) \<Rightarrow> int \<Rightarrow> bool \<Rightarrow> app_error + order list \<Rightarrow> signal list \<Rightarrow> trading_engine \<Rightarrow>
     http_request list \<times> (order \<times> app_error) list \<times> bool" where
  "execution_turn d show_uuid timestamp breaker active signals s =
     (if \<not> te_running s then ([], [], False)
      else if breaker then ([], fst (cancel_all_open_orders active), False)
      else (order_turn d show_uuid timestamp signals s, [], True))"

text \<open>The signal task and the shutdown monitor do nothing but wait; whether they go on.\<close>

definition signal_turn :: "bool \<Rightarrow> trading_engine \<Rightarrow> bool" where
  "signal_turn breaker s \<longleftrightarrow> te_running s \<and> \<not> breaker"

definition shutdown_monitor_turn :: "bool \<Rightarrow> trading_engine \<Rightarrow> bool" where
  "shutdown_monitor_turn breaker s \<longleftrightarrow> (if \<not> te_running s then False else \<not> breaker)"

section \<open>Properties\<close>

definition loop_holds_lock :: "trading_engine \<Rightarrow> bool" where
  "loop_holds_lock s \<longleftrightarrow> (te_data_loop s \<longleftrightarrow> te_stream_lock s = Writer) \<and> te_stream_lock s \<in> {Free, Writer}"

inductive engine_step :: "trading_engine \<Rightarrow> trading_engine \<Rightarrow> bool" where
  step_initialize: "engine_step s (fst (initialize_engine url key secret pass s))"
| step_start: "engine_step s (fst (start_engine breaker s))"
| step_event: "engine_step s (data_event E now received breaker s)"
| step_stop: "engine_step s (stop_engine s)"

interpretation engine: kept_by_steps engine_step loop_holds_lock
proof
  fix s t
  assume "loop_holds_lock s" and "engine_step s t"
  from this(2,1) show "loop_holds_lock t"
    by cases (auto simp: loop_holds_lock_def initialize_engine_def start_engine_def start_data_loop_def
        loop_check_def data_event_def deliver_def stop_engine_def Let_def split: option.splits)
qed

text \<open>
  In every run of the engine, its status cannot be read while the data loop waits for an event: the loop
  holds the lock the status needs. That is so after \<open>stop\<close> as well, and while the breaker is active, until
  the next event arrives or the stream fails; the loop does not end before. When it does not wait, the
  status is answered.
\<close>
theorem status_waits_for_event:
  assumes "engine_step\<^sup>*\<^sup>* trading_engine_new s"
  shows "(te_data_loop s \<longrightarrow> get_status b s = Inl Blocked \<and> get_status b (stop_engine s) = Inl Blocked \<and>
      te_stream_lock (data_event E now e b (stop_engine s)) = Free) \<and>
    (\<not> te_data_loop s \<longrightarrow> (\<exists>x. get_status b s = Inr x))"
proof -
  have "loop_holds_lock trading_engine_new" by (simp add: loop_holds_lock_def trading_engine_new_def)
  from engine.run_keeps [OF assms this] have h: "loop_holds_lock s" .
  show ?thesis
  proof (cases "te_data_loop s")
    case True
    with h show ?thesis
      by (auto simp: loop_holds_lock_def get_status_def stop_engine_def data_event_def loop_check_def deliver_def
          split: option.splits)
  next
    case False
    with h show ?thesis by (auto simp: loop_holds_lock_def get_status_def)
  qed
qed

lemma status_waits_for_event_witness:
  "\<exists>s. engine_step\<^sup>*\<^sup>* trading_engine_new s \<and> te_data_loop s \<and> get_status False (stop_engine s) = Inl Blocked"
proof -
  let ?s1 = "fst (initialize_engine [] [] [] [] trading_engine_new)"
  let ?s = "fst (start_engine False ?s1)"
  have "engine_step trading_engine_new ?s1" by (rule engine_step.step_initialize)
  moreover have "engine_step ?s1 ?s" by (rule engine_step.step_start)
  ultimately have r: "engine_step\<^sup>*\<^sup>* trading_engine_new ?s" by (meson converse_rtranclp_into_rtranclp r_into_rtranclp)
  have l: "te_data_loop ?s"
    by (simp add: initialize_engine_def trading_engine_new_def start_engine_def start_data_loop_def loop_check_def Let_def)
  from status_waits_for_event [OF r] l have "get_status False (stop_engine ?s) = Inl Blocked" by blast
  with r l show ?thesis by blast
qed

text \<open>
  When the breaker goes off nothing is cancelled: the order service refuses every cancellation, the errors are
  logged, and the function reports success.
\<close>
theorem nothing_is_cancelled:
  "cancel_all_open_orders (Inr os) =
     (map (\<lambda>a. (a, BadRequest [Lit ''Order cancellation not implemented''])) os, Inr ())"
  by (induction os) (simp_all add: cancel_all_open_orders_def service_cancel_def map_filter_simps)

text \<open>
  The order task asks for the signals of a random market. Unless that identifier happens to be one whose
  fills or books were seen, there are none and the turn does nothing.
\<close>
theorem order_task_idle:
  assumes "g (MarketId random) = None"
  shows "fst (execution_turn d show_uuid timestamp breaker active (generate E (MarketId random) g) s) = []"
  using assms by (simp add: execution_turn_def order_turn_def generate_def split: option.splits)

text \<open>Whatever the signals, the order task only ever fetches markets: no order is sent.\<close>

theorem signals_place_no_order:
  "\<forall>r\<in>set (fst (execution_turn d show_uuid timestamp breaker active signals s)). hr_method r = GET"
  by (auto simp: execution_turn_def order_turn_def get_market_request_def auth_headers_def plain_request_def Let_def
      split: option.splits)

end
