(* ===== verification/Audit_Log.thy ===== *)
theory Audit_Log
  imports Common_Types Floats
begin

text \<open>
  \<open>audit/src/lib.rs\<close>: events sent through an unbounded channel to a consumer that writes them to the log. The
  JSON text of an event is a parameter, an error when it cannot be made. The middleware of the file hands
  every request on unchanged.
\<close>

datatype audit_event_type =
    OrderCreated | OrderCancelled | OrderFilled | DepositReceived | WithdrawalRequested | WithdrawalCompleted
  | Login | Logout | ApiKeyCreated | ApiKeyRevoked | MarketCreated | MarketResolved | RiskLimitBreached
  | CircuitBreakerTriggered | HftSignalGenerated | HftOrderSubmitted | ArbitrageOpportunityDetected
  | MlPredictionMade

datatype audit_outcome = AuditSuccess | AuditFailure | AuditDenied | AuditTimeout | AuditError

text \<open>The values of the JSON object \<open>details\<close>.\<close>

datatype detail = DText string | DInt int | DFloat f64

record audit_event =
  ae_id :: uuid
  ae_timestamp :: datetime
  ae_event_type :: audit_event_type
  ae_user_id :: "string option"
  ae_session_id :: "string option"
  ae_ip_address :: "string option"
  ae_market_id :: "string option"
  ae_order_id :: "string option"
  ae_details :: "(string \<times> detail) list"
  ae_outcome :: audit_outcome
  ae_latency_ms :: "u64 option"

text \<open>The channel: the events on their way and whether the consumer still has its end; the written lines.\<close>

record audit_log =
  au_queue :: "audit_event list"
  au_receiver :: bool
  au_written :: "string list"

definition audit_new :: audit_log where
  "audit_new = \<lparr>au_queue = [], au_receiver = True, au_written = []\<rparr>"

definition log_event :: "audit_event \<Rightarrow> audit_log \<Rightarrow> audit_log" where
  "log_event e s = (if au_receiver s then s\<lparr>au_queue := au_queue s @ [e]\<rparr> else s)"

definition log_order_created ::
  "uuid \<Rightarrow> datetime \<Rightarrow> string \<Rightarrow> string \<Rightarrow> string \<Rightarrow> string \<Rightarrow> i64 \<Rightarrow> i64 \<Rightarrow> audit_outcome \<Rightarrow> audit_log \<Rightarrow> audit_log" where
  "log_order_created i now user_id order_id market_id side price quantity out =
     log_event \<lparr>ae_id = i, ae_timestamp = now, ae_event_type = OrderCreated, ae_user_id = Some user_id,
       ae_session_id = None, ae_ip_address = None, ae_market_id = Some market_id, ae_order_id = Some order_id,
       ae_details = [(''side'', DText side), (''price'', DInt (sint price)), (''quantity'', DInt (sint quantity))],
       ae_outcome = out, ae_latency_ms = None\<rparr>"

definition log_hft_signal :: "uuid \<Rightarrow> datetime \<Rightarrow> string \<Rightarrow> f64 \<Rightarrow> f64 \<Rightarrow> u64 \<Rightarrow> audit_log \<Rightarrow> audit_log" where
  "log_hft_signal i now market_id strength confidence latency_ns =
     log_event \<lparr>ae_id = i, ae_timestamp = now, ae_event_type = HftSignalGenerated, ae_user_id = None,
       ae_session_id = None, ae_ip_address = None, ae_market_id = Some market_id, ae_order_id = None,
       ae_details = [(''signal_strength'', DFloat strength), (''confidence'', DFloat confidence)],
       ae_outcome = AuditSuccess, ae_latency_ms = Some (latency_ns div 1000000)\<rparr>"

definition log_risk_breach :: "uuid \<Rightarrow> datetime \<Rightarrow> string \<Rightarrow> string \<Rightarrow> string \<Rightarrow> audit_log \<Rightarrow> audit_log" where
  "log_risk_breach i now user_id market_id reason =
     log_event \<lparr>ae_id = i, ae_timestamp = now, ae_event_type = RiskLimitBreached, ae_user_id = Some user_id,
       ae_session_id = None, ae_ip_address = None, ae_market_id = Some market_id, ae_order_id = None,
       ae_details = [(''reason'', DText reason)], ae_outcome = AuditDenied, ae_latency_ms = None\<rparr>"

definition log_circuit_breaker :: "uuid \<Rightarrow> datetime \<Rightarrow> string \<Rightarrow> string \<Rightarrow> audit_log \<Rightarrow> audit_log" where
  "log_circuit_breaker i now market_id trigger =
     log_event \<lparr>ae_id = i, ae_timestamp = now, ae_event_type = CircuitBreakerTriggered, ae_user_id = None,
       ae_session_id = None, ae_ip_address = None, ae_market_id = Some market_id, ae_order_id = None,
       ae_details = [(''trigger'', DText trigger)], ae_outcome = AuditDenied, ae_latency_ms = None\<rparr>"

text \<open>One turn of the consumer.\<close>

definition consume :: "(audit_event \<Rightarrow> string + string) \<Rightarrow> audit_log \<Rightarrow> audit_log" where
  "consume to_json s =
     (case au_queue s of
        [] \<Rightarrow> s
      | e # q \<Rightarrow>
          (case to_json e of
             Inl _ \<Rightarrow> s\<lparr>au_queue := q\<rparr>
           | Inr j \<Rightarrow> s\<lparr>au_queue := q, au_written := au_written s @ [j]\<rparr>))"

text \<open>The middleware: the service it wraps answers.\<close>

definition audit_service_call :: "('req \<Rightarrow> 'resp) \<Rightarrow> 'req \<Rightarrow> audit_log \<Rightarrow> 'resp \<times> audit_log" where
  "audit_service_call inner req s = (inner req, s)"

section \<open>Every event is written once and in order\<close>

datatype audit_action = Log audit_event | Consume

fun run_audit :: "(audit_event \<Rightarrow> string + string) \<Rightarrow> audit_action list \<Rightarrow> audit_log \<Rightarrow> audit_log" where
  "run_audit J [] s = s"
| "run_audit J (Log e # as) s = run_audit J as (log_event e s)"
| "run_audit J (Consume # as) s = run_audit J as (consume J s)"

definition json_lines :: "(audit_event \<Rightarrow> string + string) \<Rightarrow> audit_event list \<Rightarrow> string list" where
  "json_lines J es = List.map_filter (\<lambda>e. case J e of Inl _ \<Rightarrow> None | Inr j \<Rightarrow> Some j) es"

definition logged :: "audit_action list \<Rightarrow> audit_event list" where
  "logged as = List.map_filter (\<lambda>a. case a of Log e \<Rightarrow> Some e | Consume \<Rightarrow> None) as"

lemma json_lines_append: "json_lines J (xs @ ys) = json_lines J xs @ json_lines J ys"
  by (simp add: json_lines_def List.map_filter_def)

lemma json_lines_simps [simp]:
  "json_lines J [] = []"
  "json_lines J (e # es) = (case J e of Inl _ \<Rightarrow> [] | Inr j \<Rightarrow> [j]) @ json_lines J es"
  by (simp_all add: json_lines_def map_filter_simps split: sum.splits)

lemma logged_simps [simp]:
  "logged [] = []" "logged (Log e # as) = e # logged as" "logged (Consume # as) = logged as"
  by (simp_all add: logged_def map_filter_simps)

text \<open>
  However logging and consuming interleave while the consumer lives, what is written followed by the lines
  of the events still in the channel is the lines of all events logged, in order; an event that has no
  JSON text is dropped.
\<close>
theorem audit_writes_in_order:
  assumes "au_receiver s"
  shows "au_written (run_audit J as s) @ json_lines J (au_queue (run_audit J as s)) =
    au_written s @ json_lines J (au_queue s) @ json_lines J (logged as)"
  using assms
proof (induction J as s rule: run_audit.induct)
  case (1 J s)
  then show ?case by simp
next
  case (2 J e as s)
  then show ?case by (simp add: log_event_def json_lines_append)
next
  case (3 J as s)
  have "au_receiver (consume J s)" using 3(2) by (simp add: consume_def split: list.splits sum.splits)
  moreover have "au_written (consume J s) @ json_lines J (au_queue (consume J s)) = au_written s @ json_lines J (au_queue s)"
    by (simp add: consume_def split: list.splits sum.splits)
  ultimately show ?case using 3(1) by simp
qed

end
