(* ===== verification/Service_Config.thy ===== *)
theory Service_Config
  imports Common_Types Floats
begin

text \<open>
  \<open>common/src/config.rs\<close>: the configuration and the durations read from it, in milliseconds; \<open>cache/src/lib.rs\<close>:
  two caches whose entries live for a time; \<open>middleware/metrics.rs\<close>: the label a request path is counted under, and the counters.
  The formats of the configuration files are a library's; decimal digits of a port are a parameter.
\<close>

record server_config =
  sc_host :: string
  sc_port :: u16
  sc_shutdown_timeout :: u64

record database_config =
  dc_url :: string
  dc_max_connections :: u32
  dc_min_connections :: u32
  dc_connect_timeout :: u64
  dc_idle_timeout :: u64
  dc_max_lifetime :: u64

record nats_config =
  nc_url :: string
  nc_order_subject :: string
  nc_fill_subject :: string
  nc_depth_subject :: string
  nc_connect_timeout :: u64
  nc_request_timeout :: u64

record jwt_config =
  jc_secret :: string
  jc_ttl_secs :: i64

record engine_config =
  ec_submit_timeout_ms :: u64
  ec_cancel_timeout_ms :: u64
  ec_cb_failure_threshold :: u32
  ec_cb_recovery_secs :: u64

record config =
  cf_server :: server_config
  cf_database :: database_config
  cf_nats :: nats_config
  cf_jwt :: jwt_config
  cf_engine :: engine_config
  cf_polymarket_api_key :: "string option"
  cf_polymarket_api_secret :: "string option"
  cf_polymarket_api_passphrase :: "string option"
  cf_trading_markets :: "string list option"
  cf_polygon_rpc_url :: "string option"
  cf_polygon_private_key :: "string option"

definition from_millis :: "u64 \<Rightarrow> int" where
  "from_millis n = uint n"

definition from_secs :: "u64 \<Rightarrow> int" where
  "from_secs n = uint n * 1000"

definition engine_submit_timeout :: "config \<Rightarrow> int" where
  "engine_submit_timeout c = from_millis (ec_submit_timeout_ms (cf_engine c))"

definition engine_cancel_timeout :: "config \<Rightarrow> int" where
  "engine_cancel_timeout c = from_millis (ec_cancel_timeout_ms (cf_engine c))"

definition db_connect_timeout :: "config \<Rightarrow> int" where
  "db_connect_timeout c = from_secs (dc_connect_timeout (cf_database c))"

definition db_idle_timeout :: "config \<Rightarrow> int" where
  "db_idle_timeout c = from_secs (dc_idle_timeout (cf_database c))"

definition db_max_lifetime :: "config \<Rightarrow> int" where
  "db_max_lifetime c = from_secs (dc_max_lifetime (cf_database c))"

definition nats_connect_timeout :: "config \<Rightarrow> int" where
  "nats_connect_timeout c = from_secs (nc_connect_timeout (cf_nats c))"

definition server_addr :: "(u16 \<Rightarrow> string) \<Rightarrow> config \<Rightarrow> string" where
  "server_addr show_port c = sc_host (cf_server c) @ '':'' @ show_port (sc_port (cf_server c))"

section \<open>The market cache\<close>

text \<open>
  A cache returns what was inserted last, unless it was invalidated, has outlived its time, or was dropped
  to make room: which keys are dropped is the argument \<open>evicted\<close> of a read. Times are in milliseconds.
\<close>

record 'v timed =
  tm_value :: 'v
  tm_inserted_at :: int

record market_cache =
  mc_ttl :: int
  mc_markets :: "market_id \<Rightarrow> market timed option"
  mc_status :: "market_id \<Rightarrow> market_status timed option"

definition cache_new :: "int \<Rightarrow> market_cache" where
  "cache_new ttl = \<lparr>mc_ttl = ttl, mc_markets = (\<lambda>_. None), mc_status = (\<lambda>_. None)\<rparr>"

definition live :: "int \<Rightarrow> int \<Rightarrow> bool \<Rightarrow> 'v timed option \<Rightarrow> 'v option" where
  "live now ttl evicted e =
     (case e of
        None \<Rightarrow> None
      | Some t \<Rightarrow> if evicted \<or> tm_inserted_at t + ttl \<le> now then None else Some (tm_value t))"

definition cache_get_market :: "int \<Rightarrow> bool \<Rightarrow> market_id \<Rightarrow> market_cache \<Rightarrow> market option" where
  "cache_get_market now evicted i c = live now (mc_ttl c) evicted (mc_markets c i)"

definition cache_set_market :: "int \<Rightarrow> market \<Rightarrow> market_cache \<Rightarrow> market_cache" where
  "cache_set_market now m c =
     c\<lparr>mc_markets := (mc_markets c)(mkt_id m \<mapsto> \<lparr>tm_value = m, tm_inserted_at = now\<rparr>)\<rparr>"

definition cache_invalidate :: "market_id \<Rightarrow> market_cache \<Rightarrow> market_cache" where
  "cache_invalidate i c = c\<lparr>mc_markets := (mc_markets c)(i := None), mc_status := (mc_status c)(i := None)\<rparr>"

definition cache_get_status :: "int \<Rightarrow> bool \<Rightarrow> market_id \<Rightarrow> market_cache \<Rightarrow> market_status option" where
  "cache_get_status now evicted i c = live now 5000 evicted (mc_status c i)"

definition cache_set_status :: "int \<Rightarrow> market_id \<Rightarrow> market_status \<Rightarrow> market_cache \<Rightarrow> market_cache" where
  "cache_set_status now i s c =
     c\<lparr>mc_status := (mc_status c)(i \<mapsto> \<lparr>tm_value = s, tm_inserted_at = now\<rparr>)\<rparr>"

inductive cache_step :: "market_cache \<Rightarrow> market_cache \<Rightarrow> bool" where
  "cache_step c (cache_set_market now m c)"
| "cache_step c (cache_invalidate i c)"
| "cache_step c (cache_set_status now i s c)"

definition cache_keyed :: "market_cache \<Rightarrow> bool" where
  "cache_keyed c \<longleftrightarrow> (\<forall>i t. mc_markets c i = Some t \<longrightarrow> mkt_id (tm_value t) = i)"

interpretation cache: kept_by_steps cache_step cache_keyed
  by unfold_locales
    (erule cache_step.cases; auto simp: cache_keyed_def cache_set_market_def cache_invalidate_def cache_set_status_def)

text \<open>
  A market read from the cache has the identifier it was asked for, and is what was set last; after an
  invalidation nothing is read until it is set again. The status has a cache of its own: setting a market
  leaves a status of up to five seconds ago in place.
\<close>
theorem cache_reads:
  assumes "cache_step\<^sup>*\<^sup>* (cache_new ttl) c"
  shows "(\<forall>m. cache_get_market now evicted i c = Some m \<longrightarrow> mkt_id m = i) \<and>
    (evicted = False \<and> now < now0 + mc_ttl c \<longrightarrow>
       cache_get_market now evicted (mkt_id m0) (cache_set_market now0 m0 c) = Some m0) \<and>
    cache_get_market now evicted i (cache_invalidate i c) = None \<and>
    cache_get_status now evicted i (cache_invalidate i c) = None \<and>
    cache_get_status now evicted i (cache_set_market now0 m0 c) = cache_get_status now evicted i c"
proof -
  have "cache_keyed (cache_new ttl)" by (simp add: cache_keyed_def cache_new_def)
  from cache.run_keeps [OF assms this] have "cache_keyed c" .
  then show ?thesis
    by (auto simp: cache_keyed_def cache_get_market_def cache_get_status_def cache_set_market_def
        cache_invalidate_def live_def split: option.splits if_splits)
qed

section \<open>Path labels\<close>

fun split_slash :: "string \<Rightarrow> string list" where
  "split_slash [] = [[]]"
| "split_slash (c # s) =
     (if c = CHR ''/'' then [] # split_slash s
      else (case split_slash s of [] \<Rightarrow> [[c]] | w # ws \<Rightarrow> (c # w) # ws))"

fun join_slash :: "string list \<Rightarrow> string" where
  "join_slash [] = []"
| "join_slash [w] = w"
| "join_slash (w # v # ws) = w @ ''/'' @ join_slash (v # ws)"

definition is_id_segment :: "string \<Rightarrow> bool" where
  "is_id_segment seg \<longleftrightarrow> length seg = 36 \<and> CHR ''-'' \<in> set seg"

definition path_label :: "string \<Rightarrow> string" where
  "path_label path =
     join_slash (map (\<lambda>(i, seg). if 0 < i \<and> is_id_segment seg then '':id'' else seg)
       (enumerate 0 (split_slash path)))"

lemma split_slash_nonempty [simp]: "split_slash s \<noteq> []"
  by (induction s) (auto split: list.splits)

lemma split_slash_no_slash: "w \<in> set (split_slash s) \<Longrightarrow> CHR ''/'' \<notin> set w"
  by (induction s arbitrary: w) (auto split: list.splits if_splits)

lemma join_split: "join_slash (split_slash s) = s"
proof (induction s)
  case (Cons c s)
  obtain w ws where "split_slash s = w # ws" by (cases "split_slash s") auto
  with Cons show ?case by (cases ws) auto
qed simp

lemma split_append: "CHR ''/'' \<notin> set w \<Longrightarrow> split_slash (w @ CHR ''/'' # s) = w # split_slash s"
  by (induction w) auto

lemma split_plain: "CHR ''/'' \<notin> set w \<Longrightarrow> split_slash w = [w]"
  by (induction w) auto

lemma split_join: "ws \<noteq> [] \<Longrightarrow> \<forall>w\<in>set ws. CHR ''/'' \<notin> set w \<Longrightarrow> split_slash (join_slash ws) = ws"
  by (induction ws rule: join_slash.induct) (auto simp: split_plain split_append)

text \<open>
  Labels are bounded: the label of a path has as many segments as the path, none of them after the first is
  an identifier, and labelling a label changes nothing; a path without identifiers is its own label.
\<close>
theorem path_labels:
  "length (split_slash (path_label p)) = length (split_slash p) \<and>
   (\<forall>seg\<in>set (tl (split_slash (path_label p))). \<not> is_id_segment seg) \<and>
   path_label (path_label p) = path_label p \<and>
   ((\<forall>seg\<in>set (tl (split_slash p)). \<not> is_id_segment seg) \<longrightarrow> path_label p = p)"
proof -
  let ?f = "\<lambda>seg. if is_id_segment seg then '':id'' else seg"
  have enum: "map (\<lambda>(i, seg). if 0 < i \<and> is_id_segment seg then '':id'' else seg) (enumerate n ws) = map ?f ws"
    if "0 < n" for n :: nat and ws
    using that by (induction ws arbitrary: n) auto
  have lab: "path_label q = join_slash (hd (split_slash q) # map ?f (tl (split_slash q)))" for q
    using enum [of 1 "tl (split_slash q)"]
    by (cases "split_slash q") (simp_all add: path_label_def)
  have split: "split_slash (path_label q) = hd (split_slash q) # map ?f (tl (split_slash q))" for q
  proof -
    obtain w ws where w: "split_slash q = w # ws" by (cases "split_slash q") auto
    then have "\<forall>v\<in>set (w # ws). CHR ''/'' \<notin> set v" using split_slash_no_slash [of _ q] by simp
    then have "\<forall>v\<in>set (w # map ?f ws). CHR ''/'' \<notin> set v" by auto
    with w show ?thesis unfolding lab by (simp add: split_join)
  qed
  have lbl: "\<not> is_id_segment (?f seg)" for seg by (simp add: is_id_segment_def)
  have idem: "path_label (path_label p) = path_label p"
  proof -
    have "map ?f (map ?f ws) = map ?f ws" for ws using lbl by (induction ws) (auto split: if_splits)
    then show ?thesis unfolding lab [of "path_label p"] split by (simp only: list.sel lab [of p])
  qed
  have same: "path_label p = p" if "\<forall>seg\<in>set (tl (split_slash p)). \<not> is_id_segment seg"
  proof -
    have "map ?f (tl (split_slash p)) = tl (split_slash p)" using that by (simp add: map_idI)
    then show ?thesis unfolding lab by (simp add: join_split)
  qed
  have labelled: "\<forall>seg\<in>set (tl (split_slash (path_label p))). \<not> is_id_segment seg"
    unfolding split list.sel list.set_map using lbl by fast
  have "length (split_slash (path_label p)) = length (split_slash p)"
    unfolding split by (cases "split_slash p") simp_all
  with labelled idem same show ?thesis by blast
qed

section \<open>Request metrics\<close>

text \<open>
  The two cells of the process: requests by method, label and status, and the observed seconds. They are filled by
  \<open>init_metrics\<close>; a request that finds a cell empty is not counted in it.
\<close>

record http_metrics =
  hm_requests :: "(string \<times> string \<times> string \<Rightarrow> nat) option"
  hm_durations :: "f64 list option"

definition no_metrics :: http_metrics where
  "no_metrics = \<lparr>hm_requests = None, hm_durations = None\<rparr>"

definition init_metrics :: "http_metrics \<Rightarrow> http_metrics" where
  "init_metrics h =
     \<lparr>hm_requests = (case hm_requests h of None \<Rightarrow> Some (\<lambda>_. 0) | Some c \<Rightarrow> Some c),
      hm_durations = (case hm_durations h of None \<Rightarrow> Some [] | Some ds \<Rightarrow> Some ds)\<rparr>"

text \<open>\<open>track\<close>, after the inner service has answered with \<open>status\<close> in \<open>elapsed\<close> seconds.\<close>

definition track :: "string \<Rightarrow> string \<Rightarrow> string \<Rightarrow> f64 \<Rightarrow> http_metrics \<Rightarrow> http_metrics" where
  "track method path status elapsed h =
     (let label = (method, path_label path, status) in
      \<lparr>hm_requests = map_option (\<lambda>c. c(label := c label + 1)) (hm_requests h),
       hm_durations = map_option (\<lambda>ds. ds @ [elapsed]) (hm_durations h)\<rparr>)"

fun track_all :: "(string \<times> string \<times> string \<times> f64) list \<Rightarrow> http_metrics \<Rightarrow> http_metrics" where
  "track_all [] h = h"
| "track_all ((m, p, s, t) # rs) h = track_all rs (track m p s t h)"

text \<open>After the start, every request is counted once, under the label of its path, and observed once.\<close>

lemma track_all_counts:
  "hm_requests h = Some c \<Longrightarrow> hm_durations h = Some ds \<Longrightarrow>
     hm_requests (track_all rs h) =
       Some (\<lambda>l. c l + length (filter (\<lambda>(m, p, s, t). (m, path_label p, s) = l) rs)) \<and>
     hm_durations (track_all rs h) = Some (ds @ map (\<lambda>(m, p, s, t). t) rs)"
proof (induction rs arbitrary: h c ds)
  case (Cons r rs)
  obtain m p s t where r: "r = (m, p, s, t)" by (cases r)
  let ?l = "(m, path_label p, s)"
  have "hm_requests (track m p s t h) = Some (c(?l := c ?l + 1))" "hm_durations (track m p s t h) = Some (ds @ [t])"
    using Cons.prems by (simp_all add: track_def Let_def)
  from Cons.IH [OF this] show ?case by (auto simp: r fun_eq_iff)
qed simp

lemma requests_counted:
  "hm_requests (track_all rs (init_metrics no_metrics)) =
     Some (\<lambda>l. length (filter (\<lambda>(m, p, s, t). (m, path_label p, s) = l) rs))"
  using track_all_counts [of "init_metrics no_metrics" "\<lambda>_. 0" "[]" rs]
  by (simp add: init_metrics_def no_metrics_def)

end
