(* ===== verification/Regime.thy ===== *)
theory Regime
  imports Common_Types Float_Facts
begin

text \<open>
  \<open>analytics/src/regime.rs\<close>: the regime of a market from its last prices, volumes and spreads. Integer sums wrap
  at their width. The code takes the square root of a float and then calls \<open>unwrap_or\<close> on it, which is read
  as the square root.
\<close>

datatype market_regime = TrendingUp | TrendingDown | Ranging | HighVolatility | LowLiquidity | NormalRegime

datatype volatility_regime = VolLow | VolMedium | VolHigh | VolExtreme

record regime_state =
  rs_market_id :: string
  rs_regime :: market_regime
  rs_volatility :: volatility_regime
  rs_trend_strength :: f64
  rs_volatility_measure :: f64
  rs_liquidity_score :: f64
  rs_timestamp :: datetime

record market_stats =
  ms_prices :: "u32 list"
  ms_volumes :: "u64 list"
  ms_spreads :: "u32 list"
  ms_last_update :: datetime

type_synonym regime_detector = "market_id \<Rightarrow> market_stats option"

definition VOLATILITY_WINDOW :: nat where
  "VOLATILITY_WINDOW = 50"

definition TREND_WINDOW :: nat where
  "TREND_WINDOW = 100"

definition regime_new :: regime_detector where
  "regime_new = (\<lambda>_. None)"

definition stats_entry :: "datetime \<Rightarrow> market_id \<Rightarrow> regime_detector \<Rightarrow> market_stats" where
  "stats_entry now m g =
     (case g m of
        Some d \<Rightarrow> d
      | None \<Rightarrow> \<lparr>ms_prices = [], ms_volumes = [], ms_spreads = [], ms_last_update = now\<rparr>)"

definition regime_on_fill :: "datetime \<Rightarrow> fill \<Rightarrow> regime_detector \<Rightarrow> regime_detector" where
  "regime_on_fill now f g =
     (let d = stats_entry now (fill_market_id f) g in
      g(fill_market_id f \<mapsto> d\<lparr>ms_prices := push_window TREND_WINDOW (price_raw (fill_price f)) (ms_prices d),
          ms_volumes := push_window TREND_WINDOW (quantity_raw (fill_quantity f)) (ms_volumes d),
          ms_last_update := now\<rparr>))"

definition regime_on_book :: "datetime \<Rightarrow> market_id \<Rightarrow> order_book \<Rightarrow> regime_detector \<Rightarrow> regime_detector" where
  "regime_on_book now m b g =
     (let d = stats_entry now m g;
          spreads = (case (book_bids b, book_asks b) of
             (bid # _, ask # _) \<Rightarrow>
               push_window VOLATILITY_WINDOW
                 (word_saturating_sub (price_raw (lvl_price ask)) (price_raw (lvl_price bid))) (ms_spreads d)
           | _ \<Rightarrow> ms_spreads d)
      in g(m \<mapsto> d\<lparr>ms_spreads := spreads, ms_last_update := now\<rparr>))"

section \<open>The measures\<close>

definition calculate_volatility :: "u32 list \<Rightarrow> f64" where
  "calculate_volatility prices =
     (if length prices < 10 then f64_lit 0
      else
        (let recent = map f64_of_word (take VOLATILITY_WINDOW (rev prices));
             m = f64_mean recent;
             variance = f64_mean (map (\<lambda>p. let diff = f64_sub p m in f64_mul diff diff) recent)
         in f64_div (f64_sqrt variance) m))"

definition calculate_trend :: "u32 list \<Rightarrow> f64" where
  "calculate_trend prices =
     (let recent = take 20 (rev prices);
          older = take 20 (drop 20 (rev prices));
          recent_avg = f64_mean (map f64_of_word recent);
          older_avg = f64_mean (map f64_of_word older)
      in
      if length prices < 20 then f64_lit 0
      else if recent = [] \<or> older = [] then f64_lit 0
      else f64_div (f64_sub recent_avg older_avg) older_avg)"

definition calculate_liquidity :: "u32 list \<Rightarrow> u64 list \<Rightarrow> f64" where
  "calculate_liquidity spreads volumes =
     (let spread_score =
            (if 10 \<le> length spreads then
               (let avg_spread = f64_div (f64_of_word (sum_list spreads)) (f64_of_nat (length spreads)) in
                f64_clamp (f64_lit 0) (f64_lit 1) (f64_sub (f64_lit 1) (f64_div avg_spread (f64_lit 50))))
             else f64_lit (1 / 2));
          volume_score =
            (if 10 \<le> length volumes then
               (let avg_volume = f64_div (f64_of_word (sum_list volumes)) (f64_of_nat (length volumes)) in
                f64_clamp (f64_lit 0) (f64_lit 1) (f64_div avg_volume (f64_add avg_volume (f64_lit 1000))))
             else f64_lit (1 / 2))
      in f64_div (f64_add spread_score volume_score) (f64_lit 2))"

section \<open>The regime\<close>

definition regime_of :: "f64 \<Rightarrow> f64 \<Rightarrow> f64 \<Rightarrow> market_regime" where
  "regime_of volatility trend liquidity =
     (if f64_less (f64_lit (5 / 100)) volatility then HighVolatility
      else if f64_less liquidity (f64_lit (3 / 10)) then LowLiquidity
      else if f64_less (f64_lit (2 / 100)) (f64_abs trend)
      then (if f64_less (f64_lit 0) trend then TrendingUp else TrendingDown)
      else Ranging)"

definition current_regime :: "market_id \<Rightarrow> regime_detector \<Rightarrow> market_regime" where
  "current_regime m g =
     (case g m of
        None \<Rightarrow> NormalRegime
      | Some d \<Rightarrow>
          if length (ms_prices d) < 20 then NormalRegime
          else regime_of (calculate_volatility (ms_prices d)) (calculate_trend (ms_prices d))
                 (calculate_liquidity (ms_spreads d) (ms_volumes d)))"

definition volatility_class :: "f64 \<Rightarrow> volatility_regime" where
  "volatility_class v =
     (if f64_less (f64_lit (8 / 100)) v then VolExtreme
      else if f64_less (f64_lit (4 / 100)) v then VolHigh
      else if f64_less (f64_lit (2 / 100)) v then VolMedium
      else VolLow)"

definition get_regime_state :: "(uuid \<Rightarrow> string) \<Rightarrow> datetime \<Rightarrow> market_id \<Rightarrow> regime_detector \<Rightarrow> regime_state option" where
  "get_regime_state show_uuid now m g =
     (case g m of
        None \<Rightarrow> None
      | Some d \<Rightarrow>
          if length (ms_prices d) < 20 then None
          else
            (let volatility = calculate_volatility (ms_prices d);
                 trend = calculate_trend (ms_prices d);
                 liquidity = calculate_liquidity (ms_spreads d) (ms_volumes d)
             in Some \<lparr>rs_market_id = show_uuid (market_uuid m),
                  rs_regime = regime_of volatility trend liquidity, rs_volatility = volatility_class volatility,
                  rs_trend_strength = f64_abs trend, rs_volatility_measure = volatility,
                  rs_liquidity_score = liquidity, rs_timestamp = now\<rparr>))"

section \<open>Windows\<close>

inductive regime_step :: "regime_detector \<Rightarrow> regime_detector \<Rightarrow> bool" where
  "regime_step g (regime_on_fill now f g)"
| "regime_step g (regime_on_book now m b g)"

definition stats_ok :: "market_stats \<Rightarrow> bool" where
  "stats_ok d \<longleftrightarrow> length (ms_prices d) \<le> TREND_WINDOW \<and> length (ms_volumes d) = length (ms_prices d) \<and>
     length (ms_spreads d) \<le> VOLATILITY_WINDOW"

definition detector_ok :: "regime_detector \<Rightarrow> bool" where
  "detector_ok g \<longleftrightarrow> (\<forall>m d. g m = Some d \<longrightarrow> stats_ok d)"

lemma stats_entry_ok: "detector_ok g \<Longrightarrow> stats_ok (stats_entry now m g)"
  by (auto simp: detector_ok_def stats_entry_def stats_ok_def split: option.splits)

lemma push_window_lengths: "length xs = length ys \<Longrightarrow> length (push_window n x xs) = length (push_window n y ys)"
  by (simp add: push_window_def Let_def)

interpretation regimes: kept_by_steps regime_step detector_ok
proof
  fix g h
  assume ok: "detector_ok g" and "regime_step g h"
  from this(2) show "detector_ok h"
  proof cases
    case (1 now f)
    have "stats_ok (stats_entry now (fill_market_id f) g)" using ok by (rule stats_entry_ok)
    with ok show ?thesis
      by (auto simp: 1 detector_ok_def regime_on_fill_def Let_def stats_ok_def TREND_WINDOW_def
          intro!: length_push_window push_window_lengths)
  next
    case (2 now m b)
    have "stats_ok (stats_entry now m g)" using ok by (rule stats_entry_ok)
    with ok show ?thesis
      by (auto simp: 2 detector_ok_def regime_on_book_def Let_def stats_ok_def VOLATILITY_WINDOW_def
          intro!: length_push_window split: list.splits)
  qed
qed

section \<open>The two views of the regime\<close>

lemma clamp_unit:
  assumes "x \<noteq> NaN" and "well_formed x"
  shows "between 0 1 (f64_clamp (f64_lit 0) (f64_lit 1) x)"
  by (rule between_clamp [OF assms, where b = 0 and c = 1]) (simp_all add: f64_lit_between Float_Ops.signed_def)

lemma average_between:
  fixes w :: "'w::len word"
  assumes "LENGTH('w) \<le> 971" and "0 < n" and "n < 2 ^ 53"
  shows "between 0 (pow2 (int LENGTH('w))) (f64_div (f64_of_word w) (f64_of_nat n))"
  using f64_of_word_between [OF assms(1), of w] assms by (intro between_div_nat) (simp_all add: fits_pow2)

lemma calculate_liquidity_between:
  assumes "length spreads < 2 ^ 53" and "length volumes < 2 ^ 53"
  shows "between 0 1 (calculate_liquidity spreads volumes)"
proof -
  have half: "between 0 1 (f64_lit (1 / 2))" by (rule f64_lit_between) simp_all
  have spread: "between 0 1 (f64_clamp (f64_lit 0) (f64_lit 1) (f64_sub (f64_lit 1)
      (f64_div (f64_div (f64_of_word (sum_list spreads)) (f64_of_nat (length spreads))) (f64_lit 50))))"
    if "10 \<le> length spreads"
  proof (rule clamp_unit)
    have "between 0 (pow2 32) (f64_div (f64_of_word (sum_list spreads)) (f64_of_nat (length spreads)))"
      using average_between [of "length spreads" "sum_list spreads"] less_le_trans [OF _ that, of 0] assms(1) by simp
    moreover have "between 50 50 (f64_lit 50)" by (rule f64_lit_between) (simp_all add: fits_numeral)
    ultimately have "between 0 (pow2 32) (f64_div (f64_div (f64_of_word (sum_list spreads)) (f64_of_nat (length spreads))) (f64_lit 50))"
      by (rule between_div) (auto simp: fits_pow2 divide_le_eq intro: order_trans)
    with f64_lit_between [of 1 1 1, OF order_refl order_refl fits_1 fits_1]
    have "between (- pow2 32) 1 (f64_sub (f64_lit 1)
        (f64_div (f64_div (f64_of_word (sum_list spreads)) (f64_of_nat (length spreads))) (f64_lit 50)))"
      by (rule between_sub) (simp_all add: fits_neg fits_pow2)
    then show "f64_sub (f64_lit 1)
        (f64_div (f64_div (f64_of_word (sum_list spreads)) (f64_of_nat (length spreads))) (f64_lit 50)) \<noteq> NaN"
      "well_formed (f64_sub (f64_lit 1)
        (f64_div (f64_div (f64_of_word (sum_list spreads)) (f64_of_nat (length spreads))) (f64_lit 50)))"
      by (auto dest: between_well_formed)
  qed
  have volume: "between 0 1 (f64_clamp (f64_lit 0) (f64_lit 1)
      (f64_div (f64_div (f64_of_word (sum_list volumes)) (f64_of_nat (length volumes)))
        (f64_add (f64_div (f64_of_word (sum_list volumes)) (f64_of_nat (length volumes))) (f64_lit 1000))))"
    if "10 \<le> length volumes"
  proof (rule clamp_unit)
    let ?avg = "f64_div (f64_of_word (sum_list volumes)) (f64_of_nat (length volumes))"
    have avg: "between 0 (pow2 64) ?avg"
      using average_between [of "length volumes" "sum_list volumes"] less_le_trans [OF _ that, of 0] assms(2) by simp
    have "between 1000 1000 (f64_lit 1000)" by (rule f64_lit_between) (simp_all add: fits_numeral)
    moreover have "pow2 64 + 1000 \<le> pow2 65" by (simp add: pow2_nat)
    ultimately have "between 1000 (pow2 65) (f64_add ?avg (f64_lit 1000))"
      using avg by (intro between_add [of 0 "pow2 64" ?avg 1000 1000]) (simp_all add: fits_pow2 fits_numeral)
    with avg have "between 0 (pow2 64) (f64_div ?avg (f64_add ?avg (f64_lit 1000)))"
    proof (rule between_div)
      fix u v :: rat
      assume "0 \<le> u" "u \<le> pow2 64" "1000 \<le> v"
      moreover from this have "u * 1 \<le> u * v" by (intro mult_left_mono) simp_all
      ultimately have "u / v \<le> u" by (simp add: divide_le_eq)
      with \<open>0 \<le> u\<close> \<open>u \<le> pow2 64\<close> \<open>1000 \<le> v\<close> show "0 \<le> u / v \<and> u / v \<le> pow2 64" by auto
    qed (simp_all add: fits_pow2)
    then show "f64_div ?avg (f64_add ?avg (f64_lit 1000)) \<noteq> NaN"
      "well_formed (f64_div ?avg (f64_add ?avg (f64_lit 1000)))"
      by (auto dest: between_well_formed)
  qed
  have "between 0 1 (f64_div (f64_add x y) (f64_lit 2))" if "between 0 1 x" and "between 0 1 y" for x y
  proof (rule between_div)
    show "between 0 2 (f64_add x y)" using that by (rule between_add) (simp_all add: fits_numeral)
    show "between 2 2 (f64_lit 2)" by (rule f64_lit_between) (simp_all add: fits_numeral)
  qed auto
  with spread volume half show ?thesis by (simp add: calculate_liquidity_def Let_def)
qed

lemma short_history_no_trend: "length prices \<le> 20 \<Longrightarrow> calculate_trend prices = f64_lit 0"
  by (simp add: calculate_trend_def Let_def)

lemma thresholds: "f64_less (f64_lit (5 / 100)) (f64_lit (8 / 100))" "\<not> f64_less (f64_lit (2 / 100)) (f64_abs (f64_lit 0))"
  by code_simp+

text \<open>
  The two queries agree in every state the detector reaches: the detailed state is missing exactly when the
  regime is \<open>Normal\<close>, that is for a market with fewer than twenty fills, and otherwise holds the regime of
  the short query. Its liquidity score is a number between zero and one, extreme volatility always means
  the regime of high volatility, and a trend takes more than twenty fills.
\<close>
theorem regime_views_agree:
  assumes "regime_step\<^sup>*\<^sup>* regime_new g"
  shows "(get_regime_state show_uuid now m g = None \<longleftrightarrow> current_regime m g = NormalRegime) \<and>
    (\<forall>s. get_regime_state show_uuid now m g = Some s \<longrightarrow>
       rs_regime s = current_regime m g \<and> between 0 1 (rs_liquidity_score s) \<and>
       (rs_volatility s = VolExtreme \<longrightarrow> rs_regime s = HighVolatility)) \<and>
    (current_regime m g \<in> {TrendingUp, TrendingDown} \<longrightarrow>
       (\<exists>d. g m = Some d \<and> 20 < length (ms_prices d)))"
proof (cases "g m")
  case None
  then show ?thesis by (simp add: get_regime_state_def current_regime_def)
next
  case (Some d)
  have "detector_ok regime_new" by (simp add: detector_ok_def regime_new_def)
  from regimes.run_keeps [OF assms this] Some have ok: "stats_ok d" by (simp add: detector_ok_def)
  then have "length (ms_spreads d) \<le> 50" "length (ms_volumes d) \<le> 100"
    by (simp_all add: stats_ok_def VOLATILITY_WINDOW_def TREND_WINDOW_def)
  then have small: "length (ms_spreads d) < 2 ^ 53" "length (ms_volumes d) < 2 ^ 53"
    by (simp_all add: order_le_less_trans)
  have extreme: "f64_less (f64_lit (5 / 100)) v" if "volatility_class v = VolExtreme" for v
    using that f64_less_trans [OF thresholds(1)] by (auto simp: volatility_class_def split: if_splits)
  have high: "regime_of v t l = HighVolatility" if "volatility_class v = VolExtreme" for v t l
    using extreme [OF that] by (simp only: regime_of_def if_True)
  have not_normal: "regime_of v t l \<noteq> NormalRegime" for v t l by (simp add: regime_of_def)
  have trend: "20 < length (ms_prices d)"
    if "regime_of v (calculate_trend (ms_prices d)) l \<in> {TrendingUp, TrendingDown}" for v l
    using that short_history_no_trend [of "ms_prices d"] thresholds(2)
    by (cases "20 < length (ms_prices d)") (auto simp: regime_of_def split: if_splits)
  show ?thesis
    using calculate_liquidity_between [OF small] not_normal high Some
      trend [of "calculate_volatility (ms_prices d)" "calculate_liquidity (ms_spreads d) (ms_volumes d)"]
    by (auto simp: get_regime_state_def current_regime_def Let_def)
qed

definition regime_fill :: "u32 \<Rightarrow> fill" where
  "regime_fill p =
     \<lparr>fill_id = FillId 0, fill_market_id = MarketId 7, fill_maker_order_id = OrderId 1, fill_taker_order_id = OrderId 2,
      fill_maker_user_id = UserId 3, fill_taker_user_id = UserId 4, fill_price = Price p,
      fill_quantity = Quantity 10000, fill_aggressor = Buy, fill_sequence = 1, fill_filled_at = 0,
      fill_transaction_id = None\<rparr>"

definition regime_after :: "u32 list \<Rightarrow> regime_detector" where
  "regime_after ps = foldl (\<lambda>g p. regime_on_fill 0 (regime_fill p) g) regime_new ps"

lemma regime_after_run: "regime_step\<^sup>*\<^sup>* regime_new (regime_after ps)"
  by (induction ps rule: rev_induct)
    (auto simp: regime_after_def intro: rtranclp.rtrancl_into_rtrancl regime_step.intros)

lemma regime_after_prices:
  "length ps \<le> 100 \<Longrightarrow> ms_prices (stats_entry 0 (MarketId 7) (regime_after ps)) = ps \<and>
    (ps \<noteq> [] \<longrightarrow> regime_after ps (MarketId 7) \<noteq> None)"
  by (induction ps rule: rev_induct)
    (simp_all add: regime_after_def regime_new_def stats_entry_def regime_on_fill_def Let_def regime_fill_def
      push_window_def TREND_WINDOW_def)

lemma regime_views_agree_witness:
  "\<exists>s. get_regime_state (\<lambda>u. []) 0 (MarketId 7) (regime_after (replicate 20 100)) = Some s \<and>
    rs_regime s = current_regime (MarketId 7) (regime_after (replicate 20 100)) \<and> rs_regime s \<noteq> TrendingUp"
proof -
  let ?g = "regime_after (replicate 20 100)"
  obtain d where d: "?g (MarketId 7) = Some d" "length (ms_prices d) = 20"
    using regime_after_prices [of "replicate 20 100"] by (auto simp: stats_entry_def)
  then obtain s where s: "get_regime_state (\<lambda>u. []) 0 (MarketId 7) ?g = Some s"
    by (auto simp: get_regime_state_def Let_def)
  with regime_views_agree [OF regime_after_run, of "\<lambda>u. []" 0 "MarketId 7" "replicate 20 100"] d
  show ?thesis by auto
qed

end
