(* ===== verification/Arbitrage.thy ===== *)
theory Arbitrage
  imports App_Error Common_Types Float_Facts
begin

text \<open>
  \<open>analytics/src/arbitrage.rs\<close>: pairs of markets, the correlation and the spread of their last prices, and the
  opportunities found when a spread is far from its mean. \<open>powi(2)\<close> is a multiplication; the order in which
  the pairs are reported is an argument.
\<close>

datatype arb_action = BuyA_SellB | SellA_BuyB | ArbHold

record opportunity =
  op_market_a :: string
  op_market_b :: string
  op_spread_zscore :: f64
  op_correlation :: f64
  op_hedge_ratio :: f64
  op_suggested_action :: arb_action
  op_expected_profit_bps :: int
  op_confidence :: f64
  op_timestamp :: datetime

record market_pair =
  mp_market_a :: market_id
  mp_market_b :: market_id
  mp_prices_a :: "u32 list"
  mp_prices_b :: "u32 list"
  mp_spreads :: "f64 list"
  mp_correlation :: f64
  mp_hedge_ratio :: f64
  mp_spread_mean :: f64
  mp_spread_std :: f64
  mp_last_update :: datetime

type_synonym pair_key = "market_id \<times> market_id"

record arbitrage =
  ar_pairs :: "pair_key \<Rightarrow> market_pair option"
  ar_active :: "opportunity list"

definition LOOKBACK_WINDOW :: nat where
  "LOOKBACK_WINDOW = 200"

definition arbitrage_new :: arbitrage where
  "arbitrage_new = \<lparr>ar_pairs = (\<lambda>_. None), ar_active = []\<rparr>"

definition pair_key_of :: "market_id \<Rightarrow> market_id \<Rightarrow> pair_key" where
  "pair_key_of a b = (if market_uuid a < market_uuid b then (a, b) else (b, a))"

definition new_pair :: "datetime \<Rightarrow> pair_key \<Rightarrow> market_pair" where
  "new_pair now k =
     \<lparr>mp_market_a = fst k, mp_market_b = snd k, mp_prices_a = [], mp_prices_b = [], mp_spreads = [],
      mp_correlation = f64_lit 0, mp_hedge_ratio = f64_lit 1, mp_spread_mean = f64_lit 0,
      mp_spread_std = f64_lit 0, mp_last_update = now\<rparr>"

definition register_pair :: "datetime \<Rightarrow> market_id \<Rightarrow> market_id \<Rightarrow> arbitrage \<Rightarrow> arbitrage" where
  "register_pair now a b s =
     (let k = pair_key_of a b in
      case ar_pairs s k of
        Some _ \<Rightarrow> s
      | None \<Rightarrow> s\<lparr>ar_pairs := (ar_pairs s)(k \<mapsto> new_pair now k)\<rparr>)"

section \<open>Statistics of a pair\<close>

definition calculate_std :: "f64 list \<Rightarrow> f64 \<Rightarrow> f64" where
  "calculate_std data m =
     (if length data < 2 then f64_lit 0
      else f64_sqrt (f64_mean (map (\<lambda>x. f64_square (f64_sub x m)) data)))"

definition covariance_of :: "f64 list \<Rightarrow> f64 \<Rightarrow> f64 list \<Rightarrow> f64 \<Rightarrow> f64" where
  "covariance_of as mean_a bs mean_b =
     f64_mean (map2 (\<lambda>a b. f64_mul (f64_sub a mean_a) (f64_sub b mean_b)) as bs)"

definition hedge_of :: "f64 \<Rightarrow> f64 \<Rightarrow> f64 \<Rightarrow> f64" where
  "hedge_of mean_a mean_b correlation =
     f64_clamp (f64_lit (1 / 10)) (f64_lit 10)
       (if f64_less (f64_lit 0) (f64_abs mean_b) then f64_mul (f64_div mean_a mean_b) correlation else f64_lit 1)"

definition update_correlation :: "market_pair \<Rightarrow> market_pair" where
  "update_correlation p =
     (let n = min (length (mp_prices_a p)) (length (mp_prices_b p));
          as = map f64_of_word (take n (rev (mp_prices_a p)));
          bs = map f64_of_word (take n (rev (mp_prices_b p)));
          mean_a = f64_mean as;
          mean_b = f64_mean bs;
          std_a = calculate_std as mean_a;
          std_b = calculate_std bs mean_b
      in
      if f64_less (f64_lit 0) std_a \<and> f64_less (f64_lit 0) std_b then
        (let c = f64_clamp (f64_lit (- 1)) (f64_lit 1)
                   (f64_div (covariance_of as mean_a bs mean_b) (f64_mul std_a std_b))
         in if f64_less (f64_lit (1 / 2)) (f64_abs c)
            then p\<lparr>mp_correlation := c, mp_hedge_ratio := hedge_of mean_a mean_b c\<rparr>
            else p\<lparr>mp_correlation := c\<rparr>)
      else p)"

definition spread_at :: "f64 \<Rightarrow> u32 \<Rightarrow> u32 \<Rightarrow> f64" where
  "spread_at hedge_ratio a b = f64_sub (f64_of_word a) (f64_mul hedge_ratio (f64_of_word b))"

definition update_spreads :: "market_pair \<Rightarrow> market_pair" where
  "update_spreads p =
     (let recent_a = take 50 (rev (mp_prices_a p));
          recent_b = take 50 (rev (mp_prices_b p))
      in
      if length recent_a = length recent_b then
        (let pushed = mp_spreads p @ map2 (spread_at (mp_hedge_ratio p)) recent_a recent_b;
             spreads = drop (length pushed - LOOKBACK_WINDOW) pushed
         in if 50 \<le> length spreads
            then p\<lparr>mp_spreads := spreads, mp_spread_mean := f64_mean spreads,
                   mp_spread_std := calculate_std spreads (f64_mean spreads)\<rparr>
            else p\<lparr>mp_spreads := spreads\<rparr>)
      else p)"

definition update_pair_stats :: "market_pair \<Rightarrow> market_pair" where
  "update_pair_stats p =
     (if min (length (mp_prices_a p)) (length (mp_prices_b p)) < 20 then p
      else update_spreads (update_correlation p))"

section \<open>Prices\<close>

text \<open>The body of the loops of \<open>on_fill\<close> and \<open>on_price_update\<close>, which treat every pair alone.\<close>

definition pair_price :: "datetime \<Rightarrow> market_id \<Rightarrow> u32 \<Rightarrow> market_pair \<Rightarrow> market_pair" where
  "pair_price now m price p =
     (let p1 = (if mp_market_a p = m then p\<lparr>mp_prices_a := push_window LOOKBACK_WINDOW price (mp_prices_a p)\<rparr> else p);
          p2 = (if mp_market_b p1 = m then p1\<lparr>mp_prices_b := push_window LOOKBACK_WINDOW price (mp_prices_b p1)\<rparr> else p1);
          p3 = (if LOOKBACK_WINDOW \<le> length (mp_prices_a p2) \<and> LOOKBACK_WINDOW \<le> length (mp_prices_b p2)
                then update_pair_stats p2 else p2)
      in p3\<lparr>mp_last_update := now\<rparr>)"

definition on_price_update :: "datetime \<Rightarrow> market_id \<Rightarrow> u32 \<Rightarrow> arbitrage \<Rightarrow> arbitrage" where
  "on_price_update now m price s = s\<lparr>ar_pairs := (\<lambda>k. map_option (pair_price now m price) (ar_pairs s k))\<rparr>"

definition arbitrage_on_fill :: "datetime \<Rightarrow> fill \<Rightarrow> arbitrage \<Rightarrow> arbitrage" where
  "arbitrage_on_fill now f s =
     s\<lparr>ar_pairs := (\<lambda>k. map_option (pair_price now (fill_market_id f) (price_raw (fill_price f))) (ar_pairs s k))\<rparr>"

section \<open>Opportunities\<close>

definition pair_opportunity :: "(uuid \<Rightarrow> string) \<Rightarrow> datetime \<Rightarrow> market_pair \<Rightarrow> opportunity option" where
  "pair_opportunity show_uuid now p =
     (let current_spread = last (mp_spreads p);
          zscore = (if \<not> f64_eq (mp_spread_std p) (f64_lit 0)
                    then f64_div (f64_sub current_spread (mp_spread_mean p)) (mp_spread_std p) else f64_lit 0);
          profit = f64_as_i32 (f64_mul (f64_div (f64_mul (f64_abs zscore) (mp_spread_std p))
                     (f64_abs (mp_spread_mean p))) (f64_lit 10000))
      in
      if f64_less (f64_abs (mp_correlation p)) (f64_lit (85 / 100)) then None
      else if mp_spreads p = [] \<or> f64_eq (mp_spread_std p) (f64_lit 0) then None
      else if f64_less (f64_lit 2) (f64_abs zscore) \<and> 10 < profit then
        Some \<lparr>op_market_a = show_uuid (market_uuid (mp_market_a p)), op_market_b = show_uuid (market_uuid (mp_market_b p)),
          op_spread_zscore = zscore, op_correlation = mp_correlation p, op_hedge_ratio = mp_hedge_ratio p,
          op_suggested_action = (if f64_less (f64_lit 0) zscore then SellA_BuyB else BuyA_SellB),
          op_expected_profit_bps = profit,
          op_confidence = f64_mul (f64_min (f64_div (f64_abs zscore) (f64_lit 3)) (f64_lit 1))
            (f64_abs (mp_correlation p)),
          op_timestamp = now\<rparr>
      else None)"

definition detect_opportunities ::
  "(uuid \<Rightarrow> string) \<Rightarrow> datetime \<Rightarrow> pair_key list \<Rightarrow> arbitrage \<Rightarrow> opportunity list \<times> arbitrage" where
  "detect_opportunities show_uuid now keys s =
     (let found = List.map_filter (\<lambda>k. Option.bind (ar_pairs s k) (pair_opportunity show_uuid now)) keys
      in (found, s\<lparr>ar_active := found\<rparr>))"

definition get_active_opportunities :: "arbitrage \<Rightarrow> opportunity list" where
  "get_active_opportunities s = ar_active s"

definition get_pair_stats :: "market_id \<Rightarrow> market_id \<Rightarrow> arbitrage \<Rightarrow> (f64 \<times> f64 \<times> f64) option" where
  "get_pair_stats a b s =
     map_option (\<lambda>p. (mp_correlation p, mp_hedge_ratio p, mp_spread_std p)) (ar_pairs s (pair_key_of a b))"

text \<open>The engine around the detector scans, and trades nothing.\<close>

definition scan_and_trade ::
  "(uuid \<Rightarrow> string) \<Rightarrow> datetime \<Rightarrow> pair_key list \<Rightarrow> arbitrage \<Rightarrow> opportunity list \<times> arbitrage" where
  "scan_and_trade show_uuid now keys s = detect_opportunities show_uuid now keys s"

definition execute_spread_trade :: "opportunity \<Rightarrow> u64 \<Rightarrow> u64 \<Rightarrow> unit app_result" where
  "execute_spread_trade opp qty_a qty_b = Inr ()"

section \<open>Bounds of the statistics\<close>

lemma std_between:
  assumes "\<forall>x\<in>set data. between (- pow2 k) (pow2 k) x" and "between (- pow2 j) (pow2 j) m"
    and "0 \<le> k" and "k \<le> j" and "2 * j + 2 + int (length data) \<le> 960"
  shows "between 0 (pow2 481) (calculate_std data m) \<and>
    (f64_less (f64_lit 0) (calculate_std data m) \<longrightarrow> between (pow2 (- 537)) (pow2 481) (calculate_std data m))"
proof (cases "length data < 2")
  case True
  then show ?thesis by (simp add: calculate_std_def signed_def)
next
  case False
  let ?sq = "map (\<lambda>x. f64_square (f64_sub x m)) data" and ?K = "2 * j + 2 + int (length data)"
  have sq: "between (- 0 * pow2 (2 * j + 2)) (pow2 (2 * j + 2)) y" if y: "y \<in> set ?sq" for y
  proof -
    from y obtain x where x: "x \<in> set data" "y = f64_square (f64_sub x m)" by auto
    have jj: "pow2 k + pow2 j \<le> pow2 (j + 1)" using pow2_le [of k j] assms(4) by (simp add: pow2_add pow2_nat)
    have "between (- pow2 k) (pow2 k) x" using assms(1) x(1) by blast
    from this assms(2) have d: "between (- pow2 (j + 1)) (pow2 (j + 1)) (f64_sub x m)"
      by (rule between_sub) (use jj assms(3-5) in \<open>auto intro!: fits_neg fits_pow2\<close>)
    obtain n r where r: "f64_sub x m = Fin n r" "0 \<le> r" "r \<le> pow2 (j + 1)"
      using d by (auto elim!: betweenE simp: signed_def split: if_splits)
    have "r * r \<le> pow2 (j + 1) * pow2 (j + 1)" using r by (intro mult_mono) auto
    also have "\<dots> = pow2 (2 * j + 2)" by (simp add: pow2_add [symmetric])
    finally have "r * r \<le> pow2 (2 * j + 2)" .
    then have "between 0 (pow2 (2 * j + 2)) y"
      using r assms(3-5) by (simp add: x(2) f64_square_def f64_mul_def round_magnitude_between signed_def fits_pow2)
    then show ?thesis by simp
  qed
  have "between (- 0 * pow2 (2 * j + 2 + int (length ?sq))) (pow2 (2 * j + 2 + int (length ?sq))) (f64_mean ?sq)"
    using sq False assms(3-5) by (intro f64_mean_between) auto
  then have mean: "between 0 (pow2 ?K) (f64_mean ?sq)" by simp
  then obtain n r where r: "f64_mean ?sq = Fin n r" "0 \<le> r" "0 \<le> signed n r" "signed n r \<le> pow2 ?K" by (rule betweenE)
  show ?thesis
  proof (cases "r = 0")
    case True
    with r False show ?thesis by (simp add: calculate_std_def signed_def)
  next
    case pos: False
    with r have n: "n = False" and r0: "0 < r" by (auto simp: signed_def split: if_splits)
    have "f64_sum ?sq \<noteq> NaN" using r(1) by (auto simp: f64_mean_def)
    have "well_formed (f64_sum ?sq)"
      using f64_sum_between [of 0 ?sq "2 * j + 2"] sq assms(3-5) by (auto dest: between_well_formed)
    moreover have "well_formed (f64_of_nat (length ?sq))" by (simp add: f64_of_nat_def f64_of_int_def)
    ultimately have least: "pow2 (- 1074) \<le> r"
      using f64_div_least [of "f64_sum ?sq" "f64_of_nat (length ?sq)" n r] r(1) r0 by (simp add: f64_mean_def)
    let ?e = "exponent_of r"
    have "r \<le> pow2 ?K" using r(4) n by (simp add: signed_def)
    with exponent_of_bounds [OF r0] have "pow2 ?e \<le> pow2 ?K" by linarith
    then have up: "?e div 2 + 1 \<le> 481" using assms(5) by simp
    have "pow2 (- 1074) < pow2 (?e + 1)" using exponent_of_bounds [OF r0] least by linarith
    then have lo: "- 537 \<le> ?e div 2" by simp
    have "between (pow2 (?e div 2)) (pow2 (?e div 2 + 1)) (calculate_std data m)"
      using f64_sqrt_between [OF r0] r(1) n False by (simp add: calculate_std_def)
    then have "between (pow2 (- 537)) (pow2 481) (calculate_std data m)"
      by (rule between_weaken) (use lo up in auto)
    then show ?thesis using between_weaken [of "pow2 (- 537)" "pow2 481"] by auto
  qed
qed

definition pair_ok :: "market_pair \<Rightarrow> bool" where
  "pair_ok p \<longleftrightarrow>
     length (mp_prices_a p) \<le> LOOKBACK_WINDOW \<and> length (mp_prices_b p) \<le> LOOKBACK_WINDOW \<and>
     length (mp_spreads p) \<le> LOOKBACK_WINDOW \<and> (\<forall>x\<in>set (mp_spreads p). between (- pow2 36) (pow2 36) x) \<and>
     between (- 1) 1 (mp_correlation p) \<and> between (1 / 16) 10 (mp_hedge_ratio p) \<and>
     between (- pow2 236) (pow2 236) (mp_spread_mean p) \<and> between 0 (pow2 481) (mp_spread_std p)"

lemma prices_between: "\<forall>x\<in>set (map f64_of_word (ps :: u32 list)). between 0 (pow2 32) x"
proof
  fix x
  assume "x \<in> set (map f64_of_word ps)"
  then obtain w :: u32 where "x = f64_of_word w" by auto
  with f64_of_word_between [of w] show "between 0 (pow2 32) x" by simp
qed

lemma price_mean_between:
  fixes ps :: "u32 list"
  assumes "ps \<noteq> []" and "length ps \<le> 200"
  shows "between (- pow2 232) (pow2 232) (f64_mean (map f64_of_word ps))"
proof -
  have "between (- 0 * pow2 (32 + int (length (map f64_of_word ps)))) (pow2 (32 + int (length (map f64_of_word ps))))
    (f64_mean (map f64_of_word ps))"
    using prices_between [of ps] assms by (intro f64_mean_between) auto
  then show ?thesis by (rule between_weaken) (use assms(2) in auto)
qed

lemma price_std_between:
  fixes ps :: "u32 list"
  assumes "ps \<noteq> []" and "length ps \<le> 200"
  shows "between 0 (pow2 481) (calculate_std (map f64_of_word ps) (f64_mean (map f64_of_word ps)))"
    and "f64_less (f64_lit 0) (calculate_std (map f64_of_word ps) (f64_mean (map f64_of_word ps))) \<Longrightarrow>
      between (pow2 (- 537)) (pow2 481) (calculate_std (map f64_of_word ps) (f64_mean (map f64_of_word ps)))"
proof -
  have "\<forall>x\<in>set (map f64_of_word ps). between (- pow2 32) (pow2 32) x"
    using prices_between [of ps] between_weaken [of 0 "pow2 32" _ "- pow2 32" "pow2 32"] by auto
  from std_between [OF this price_mean_between [OF assms]] assms(2)
  show "between 0 (pow2 481) (calculate_std (map f64_of_word ps) (f64_mean (map f64_of_word ps)))"
    and "f64_less (f64_lit 0) (calculate_std (map f64_of_word ps) (f64_mean (map f64_of_word ps))) \<Longrightarrow>
      between (pow2 (- 537)) (pow2 481) (calculate_std (map f64_of_word ps) (f64_mean (map f64_of_word ps)))"
    by auto
qed

lemma covariance_between:
  fixes ps qs :: "u32 list"
  assumes "ps \<noteq> []" and "length ps \<le> 200" and "length qs = length ps"
  shows "between (- pow2 666) (pow2 666)
    (covariance_of (map f64_of_word ps) (f64_mean (map f64_of_word ps)) (map f64_of_word qs) (f64_mean (map f64_of_word qs)))"
proof -
  have qs: "qs \<noteq> []" "length qs \<le> 200" using assms by auto
  have diff: "between (- pow2 233) (pow2 233) (f64_sub (f64_of_word w) (f64_mean (map f64_of_word rs)))"
    if "rs \<noteq> []" and "length rs \<le> 200" for w :: u32 and rs :: "u32 list"
  proof (rule between_sub)
    show "between 0 (pow2 32) (f64_of_word w)" using f64_of_word_between [of w] by simp
    show "between (- pow2 232) (pow2 232) (f64_mean (map f64_of_word rs))" using that by (rule price_mean_between)
    have "pow2 233 = 2 * pow2 232" "pow2 32 \<le> pow2 232" using pow2_add [of 1 232] by (simp_all add: pow2_nat)
    then show "- pow2 233 \<le> 0 - pow2 232" "pow2 32 - - pow2 232 \<le> pow2 233" by simp_all
  qed (simp_all add: fits_neg fits_pow2)
  have mul: "between (- pow2 466) (pow2 466) (f64_mul x y)"
    if "between (- pow2 233) (pow2 233) x" and "between (- pow2 233) (pow2 233) y" for x y
    using that
  proof (rule between_mul)
    fix u v
    assume "- pow2 233 \<le> u" "u \<le> pow2 233" "- pow2 233 \<le> v" "v \<le> pow2 233"
    then have "\<bar>u\<bar> * \<bar>v\<bar> \<le> pow2 233 * pow2 233" by (intro mult_mono) auto
    also have "\<dots> = pow2 466" by (simp add: pow2_add [symmetric])
    finally show "- pow2 466 \<le> u * v \<and> u * v \<le> pow2 466" by (simp add: abs_mult [symmetric] abs_le_iff)
  qed (simp_all add: fits_neg fits_pow2)
  let ?xs = "map2 (\<lambda>a b. f64_mul (f64_sub a (f64_mean (map f64_of_word ps))) (f64_sub b (f64_mean (map f64_of_word qs))))
    (map f64_of_word ps) (map f64_of_word qs)"
  have "between (- 1 * pow2 466) (pow2 466) x" if "x \<in> set ?xs" for x
    using that mul [OF diff [OF assms(1,2)] diff [OF qs]] by (auto simp: zip_map1 zip_map2)
  moreover have len: "length ?xs = length ps" using assms(3) by simp
  ultimately have "between (- 1 * pow2 (466 + int (length ?xs))) (pow2 (466 + int (length ?xs))) (f64_mean ?xs)"
    using assms(1,2) by (intro f64_mean_between) auto
  then have "between (- pow2 666) (pow2 666) (f64_mean ?xs)"
    by (rule between_weaken) (use assms(2) len in auto)
  then show ?thesis by (simp add: covariance_of_def)
qed

lemma f64_mul_not_NaN: "x \<noteq> NaN \<Longrightarrow> s \<noteq> 0 \<Longrightarrow> well_formed x \<Longrightarrow> 0 \<le> s \<Longrightarrow> f64_mul x (Fin m s) \<noteq> NaN"
  by (cases x) (simp_all add: f64_mul_def round_magnitude_rnd)

lemma hedge_between:
  assumes "between a b x" and "between c d y" and "between (- 1) 1 r" and "f64_less (f64_lit (1 / 2)) (f64_abs r)"
  shows "between (1 / 16) 10 (hedge_of x y r)"
proof -
  let ?beta = "if f64_less (f64_lit 0) (f64_abs y) then f64_mul (f64_div x y) r else f64_lit 1"
  have fits: "fits (1 / 16)" "fits (1 / 8)"
    using fits_mult [of 1 "- 4"] fits_mult [of 1 "- 3"] by (simp_all add: pow2_powi power_int_minus)
  obtain n s where r: "r = Fin n s" "0 \<le> s" using assms(3) by (rule betweenE)
  have half: "f64_lit (1 / 2) = Fin False (1 / 2)"
    using fits_pow2 [of "- 1"]
    by (simp add: f64_lit_def round_signed_def round_magnitude_rnd fits_def srnd_def pow2_powi power_int_minus)
  with assms(4) r have s: "s \<noteq> 0" by (auto simp: signed_def)
  have "?beta \<noteq> NaN \<and> well_formed ?beta"
  proof (cases "f64_less (f64_lit 0) (f64_abs y)")
    case True
    obtain m t where y: "y = Fin m t" "0 \<le> t" using assms(2) by (rule betweenE)
    with True have t: "t \<noteq> 0" by (auto simp: signed_def)
    obtain k u where x: "x = Fin k u" "0 \<le> u" using assms(1) by (rule betweenE)
    have "f64_div x y \<noteq> NaN" "well_formed (f64_div x y)"
      using x y t by (simp_all add: round_magnitude_rnd rnd_nonneg)
    with f64_mul_not_NaN [of "f64_div x y" s n] s r True show ?thesis by simp
  next
    case False
    then show ?thesis using f64_lit_between [of 1 1 1] by auto
  qed
  then show ?thesis unfolding hedge_of_def
    by (intro between_clamp [where b = "1 / 8" and c = 10] f64_lit_between) (simp_all add: fits fits_numeral)
qed

lemma update_correlation_ok:
  assumes "pair_ok p"
  shows "pair_ok (update_correlation p)"
proof -
  let ?n = "min (length (mp_prices_a p)) (length (mp_prices_b p))"
  let ?as = "take ?n (rev (mp_prices_a p))" and ?bs = "take ?n (rev (mp_prices_b p))"
  let ?sa = "calculate_std (map f64_of_word ?as) (f64_mean (map f64_of_word ?as))"
    and ?sb = "calculate_std (map f64_of_word ?bs) (f64_mean (map f64_of_word ?bs))"
  let ?c = "f64_clamp (f64_lit (- 1)) (f64_lit 1) (f64_div
    (covariance_of (map f64_of_word ?as) (f64_mean (map f64_of_word ?as)) (map f64_of_word ?bs) (f64_mean (map f64_of_word ?bs)))
    (f64_mul ?sa ?sb))"
  show ?thesis
  proof (cases "f64_less (f64_lit 0) ?sa \<and> f64_less (f64_lit 0) ?sb")
    case True
    have n: "?n \<noteq> 0"
    proof
      assume "?n = 0"
      then have "?sa = f64_lit 0" by (simp add: calculate_std_def)
      with True show False by simp
    qed
    have lens: "length ?as = ?n" "length ?bs = ?n" by simp_all
    have le: "?n \<le> 200" using assms unfolding pair_ok_def LOOKBACK_WINDOW_def by linarith
    have as: "?as \<noteq> []" "length ?as \<le> 200" and bs: "?bs \<noteq> []" "length ?bs \<le> 200"
      using n le lens by (metis list.size(3))+
    have stds: "between (pow2 (- 537)) (pow2 481) ?sa" "between (pow2 (- 537)) (pow2 481) ?sb"
      using True price_std_between(2) [OF as] price_std_between(2) [OF bs] by blast+
    have prod: "between (pow2 (- 1074)) (pow2 962) (f64_mul ?sa ?sb)"
      using stds
    proof (rule between_mul)
      fix u v
      assume uv: "pow2 (- 537) \<le> u" "u \<le> pow2 481" "pow2 (- 537) \<le> v" "v \<le> pow2 481"
      moreover have "0 \<le> u" "0 \<le> v" using uv pow2_nonneg [of "- 537"] by linarith+
      ultimately have "pow2 (- 537) * pow2 (- 537) \<le> u * v" "u * v \<le> pow2 481 * pow2 481"
        by (auto intro!: mult_mono)
      then show "pow2 (- 1074) \<le> u * v \<and> u * v \<le> pow2 962" by (simp add: pow2_add [symmetric])
    qed (simp_all add: fits_pow2)
    note cov = covariance_between [OF as, of ?bs, unfolded lens, OF refl]
    have c: "between (- 1) 1 ?c"
    proof (rule between_clamp)
      show "f64_div (covariance_of (map f64_of_word ?as) (f64_mean (map f64_of_word ?as)) (map f64_of_word ?bs)
          (f64_mean (map f64_of_word ?bs))) (f64_mul ?sa ?sb) \<noteq> NaN"
        using cov prod by (rule between_div_not_NaN) simp
      show "between (- 1) (- 1) (f64_lit (- 1))" "between 1 1 (f64_lit 1)" by (simp_all add: f64_lit_between)
    qed (use cov prod in \<open>simp_all add: between_well_formed\<close>)
    have "between (1 / 16) 10 (hedge_of (f64_mean (map f64_of_word ?as)) (f64_mean (map f64_of_word ?bs)) ?c)"
      if "f64_less (f64_lit (1 / 2)) (f64_abs ?c)"
      using price_mean_between [OF as] price_mean_between [OF bs] c that by (rule hedge_between)
    with c True assms show ?thesis by (simp add: update_correlation_def Let_def pair_ok_def del: take_map)
  next
    case False
    have "update_correlation p = p" unfolding update_correlation_def Let_def by (rule if_not_P [OF False])
    with assms show ?thesis by simp
  qed
qed

lemma spread_between:
  assumes "between (1 / 16) 10 h"
  shows "between (- pow2 36) (pow2 36) (spread_at h a b)"
proof -
  have b: "between 0 (pow2 32) (f64_of_word b)" and a: "between 0 (pow2 32) (f64_of_word a)"
    using f64_of_word_between [of b] f64_of_word_between [of a] by simp_all
  from assms b have "between 0 (pow2 36) (f64_mul h (f64_of_word b))"
  proof (rule between_mul)
    fix u v :: rat
    assume uv: "1 / 16 \<le> u" "u \<le> 10" "0 \<le> v" "v \<le> pow2 32"
    then have "u * v \<le> 10 * pow2 32" by (intro mult_mono) auto
    with uv show "0 \<le> u * v \<and> u * v \<le> pow2 36" by (simp add: pow2_nat)
  qed (simp_all add: fits_pow2)
  with a show ?thesis unfolding spread_at_def
    by (rule between_sub) (simp_all add: fits_neg fits_pow2)
qed

lemma spread_stats_between:
  assumes "\<forall>x\<in>set ss. between (- pow2 36) (pow2 36) x" and "length ss \<le> 200" and "ss \<noteq> []"
  shows "between (- pow2 236) (pow2 236) (f64_mean ss)" and "between 0 (pow2 481) (calculate_std ss (f64_mean ss))"
proof -
  have "between (- 1 * pow2 (36 + int (length ss))) (pow2 (36 + int (length ss))) (f64_mean ss)"
    using assms by (intro f64_mean_between) auto
  then show mean: "between (- pow2 236) (pow2 236) (f64_mean ss)"
    by (rule between_weaken) (use assms(2) in auto)
  show "between 0 (pow2 481) (calculate_std ss (f64_mean ss))"
    using std_between [OF assms(1) mean] assms(2) by simp
qed

lemma set_spreads_ok:
  assumes "pair_ok p" and "\<forall>x\<in>set ss. between (- pow2 36) (pow2 36) x" and "length ss \<le> 200"
  shows "pair_ok (p\<lparr>mp_spreads := ss\<rparr>)"
    and "50 \<le> length ss \<Longrightarrow>
      pair_ok (p\<lparr>mp_spreads := ss, mp_spread_mean := f64_mean ss, mp_spread_std := calculate_std ss (f64_mean ss)\<rparr>)"
proof -
  show "pair_ok (p\<lparr>mp_spreads := ss\<rparr>)" using assms by (simp add: pair_ok_def LOOKBACK_WINDOW_def)
  assume "50 \<le> length ss"
  then have "ss \<noteq> []" by auto
  from spread_stats_between [OF assms(2,3) this] assms
  show "pair_ok (p\<lparr>mp_spreads := ss, mp_spread_mean := f64_mean ss, mp_spread_std := calculate_std ss (f64_mean ss)\<rparr>)"
    by (simp add: pair_ok_def LOOKBACK_WINDOW_def)
qed

lemma update_spreads_ok:
  assumes "pair_ok p"
  shows "pair_ok (update_spreads p)"
proof -
  let ?as = "take 50 (rev (mp_prices_a p))" and ?bs = "take 50 (rev (mp_prices_b p))"
  let ?pushed = "mp_spreads p @ map2 (spread_at (mp_hedge_ratio p)) ?as ?bs"
  let ?ss = "drop (length ?pushed - LOOKBACK_WINDOW) ?pushed"
  have "between (1 / 16) 10 (mp_hedge_ratio p)" using assms by (simp add: pair_ok_def)
  then have "\<forall>x\<in>set ?pushed. between (- pow2 36) (pow2 36) x"
    using assms spread_between by (auto simp: pair_ok_def)
  then have ss: "\<forall>x\<in>set ?ss. between (- pow2 36) (pow2 36) x" by (meson in_set_dropD)
  have len: "length ?ss \<le> 200" by (simp add: LOOKBACK_WINDOW_def)
  from set_spreads_ok [OF assms ss len] assms show ?thesis
    unfolding update_spreads_def by (simp only: Let_def split: if_split) blast
qed

lemma pair_price_ok:
  assumes "pair_ok p"
  shows "pair_ok (pair_price now m price p)"
proof -
  define p1 where "p1 = (if mp_market_a p = m then p\<lparr>mp_prices_a := push_window LOOKBACK_WINDOW price (mp_prices_a p)\<rparr> else p)"
  define p2 where "p2 = (if mp_market_b p1 = m then p1\<lparr>mp_prices_b := push_window LOOKBACK_WINDOW price (mp_prices_b p1)\<rparr> else p1)"
  have "pair_ok p1" using assms by (auto simp: p1_def pair_ok_def LOOKBACK_WINDOW_def intro: length_push_window)
  then have p2: "pair_ok p2" by (auto simp: p2_def pair_ok_def LOOKBACK_WINDOW_def intro: length_push_window)
  define p3 where "p3 = (if LOOKBACK_WINDOW \<le> length (mp_prices_a p2) \<and> LOOKBACK_WINDOW \<le> length (mp_prices_b p2)
    then update_pair_stats p2 else p2)"
  have "pair_ok p3" using p2 update_spreads_ok [OF update_correlation_ok [OF p2]] by (simp add: p3_def update_pair_stats_def)
  moreover have "pair_price now m price p = p3\<lparr>mp_last_update := now\<rparr>"
    unfolding pair_price_def Let_def p3_def p2_def p1_def ..
  ultimately show ?thesis by (simp add: pair_ok_def)
qed

section \<open>Every state of the detector\<close>

inductive arbitrage_step :: "arbitrage \<Rightarrow> arbitrage \<Rightarrow> bool" where
  "arbitrage_step s (register_pair now a b s)"
| "arbitrage_step s (arbitrage_on_fill now f s)"
| "arbitrage_step s (on_price_update now m price s)"
| "arbitrage_step s (snd (detect_opportunities show_uuid now keys s))"

definition arbitrage_ok :: "arbitrage \<Rightarrow> bool" where
  "arbitrage_ok s \<longleftrightarrow> (\<forall>k p. ar_pairs s k = Some p \<longrightarrow> pair_ok p)"

lemma new_pair_ok: "pair_ok (new_pair now k)"
proof -
  have "between (1 / 16) 10 (f64_lit 1)"
    using fits_pow2 [of "- 4"] by (intro f64_lit_between) (simp_all add: fits_numeral pow2_powi power_int_minus)
  then show ?thesis by (simp add: pair_ok_def new_pair_def signed_def)
qed

interpretation arbitrage: kept_by_steps arbitrage_step arbitrage_ok
proof
  fix s t
  assume ok: "arbitrage_ok s" and "arbitrage_step s t"
  from this(2) show "arbitrage_ok t"
  proof cases
    case (1 now a b)
    with ok new_pair_ok show ?thesis
      by (auto simp: arbitrage_ok_def register_pair_def Let_def split: option.splits)
  qed (use ok pair_price_ok in \<open>auto simp: arbitrage_ok_def arbitrage_on_fill_def on_price_update_def
      detect_opportunities_def Let_def\<close>)
qed

section \<open>Opportunities\<close>

lemma pair_key_sym: "pair_key_of a b = pair_key_of b a"
  by (cases a; cases b) (auto simp: pair_key_of_def)

lemma min_unit:
  assumes "well_formed x" and "\<forall>r. x \<noteq> Fin True r" and "x \<noteq> Inf True"
  shows "between 0 1 (f64_min x (f64_lit 1))"
proof -
  have one: "between 1 1 (f64_lit 1)" by (simp add: f64_lit_between)
  show ?thesis
  proof (cases x)
    case NaN
    with one show ?thesis by (auto simp: f64_min_def intro: between_weaken)
  next
    case (Inf neg)
    with assms(3) one show ?thesis by (auto elim!: betweenE simp: f64_min_def signed_def)
  next
    case (Fin neg r)
    with assms have "between 0 r x" by (auto simp: signed_def)
    from between_min [OF this one] show ?thesis by (rule between_weaken) simp_all
  qed
qed

definition sound_opportunity :: "opportunity \<Rightarrow> bool" where
  "sound_opportunity x \<longleftrightarrow>
     between (- 1) 1 (op_correlation x) \<and> f64_le (f64_lit (85 / 100)) (f64_abs (op_correlation x)) \<and>
     between (1 / 16) 10 (op_hedge_ratio x) \<and> between 0 1 (op_confidence x) \<and>
     f64_less (f64_lit 2) (f64_abs (op_spread_zscore x)) \<and>
     10 < op_expected_profit_bps x \<and> op_expected_profit_bps x < 2 ^ 31 \<and>
     op_suggested_action x = (if f64_less (f64_lit 0) (op_spread_zscore x) then SellA_BuyB else BuyA_SellB)"

lemma f64_as_i32_bound: "f64_as_i32 x < 2 ^ 31"
  by (cases x) (auto simp: f64_as_i32_def)

lemma pair_opportunity_sound:
  assumes "pair_ok p" and "pair_opportunity show_uuid now p = Some x"
  shows "sound_opportunity x"
proof -
  let ?z = "f64_div (f64_sub (last (mp_spreads p)) (mp_spread_mean p)) (mp_spread_std p)"
  have ne: "mp_spreads p \<noteq> []" and std: "\<not> f64_eq (mp_spread_std p) (Fin False 0)"
    and corr: "\<not> f64_less (f64_abs (mp_correlation p)) (f64_lit (85 / 100))"
    and z: "f64_less (f64_lit 2) (f64_abs ?z)"
    using assms(2) by (auto simp: pair_opportunity_def Let_def split: if_splits)
  have between: "between (- 1) 1 (mp_correlation p)" "between (1 / 16) 10 (mp_hedge_ratio p)"
    "between (- pow2 236) (pow2 236) (mp_spread_mean p)" "between 0 (pow2 481) (mp_spread_std p)"
    "between (- pow2 36) (pow2 36) (last (mp_spreads p))"
    using assms(1) ne by (auto simp: pair_ok_def)
  have wf: "well_formed ?z" using between by (simp add: between_well_formed)
  have abs: "between 0 1 (f64_abs (mp_correlation p))" using between(1) by (rule between_abs) simp_all
  have "well_formed (f64_div (f64_abs ?z) (f64_lit 3))" using wf by simp
  moreover have "f64_lit 3 = Fin False 3"
    using fits_numeral [of "Num.Bit1 Num.One"]
    by (simp add: f64_lit_def round_signed_def round_magnitude_rnd fits_def srnd_def)
  then have "\<forall>r. f64_div (f64_abs ?z) (f64_lit 3) \<noteq> Fin True r" "f64_div (f64_abs ?z) (f64_lit 3) \<noteq> Inf True"
    using wf by (cases ?z; auto simp: round_magnitude_rnd)+
  ultimately have "between 0 1 (f64_min (f64_div (f64_abs ?z) (f64_lit 3)) (f64_lit 1))" by (rule min_unit)
  from this abs have conf: "between 0 1 (f64_mul (f64_min (f64_div (f64_abs ?z) (f64_lit 3)) (f64_lit 1))
      (f64_abs (mp_correlation p)))"
    by (rule between_mul) (auto intro: mult_le_one)
  have "f64_le (f64_lit (85 / 100)) (f64_abs (mp_correlation p))"
    using corr abs fits_0 fits_1 f64_lit_between [of 0 "85 / 100" 1] by (auto simp: f64_le_iff)
  with assms(2) between conf z std f64_as_i32_bound show ?thesis
    by (auto simp: pair_opportunity_def Let_def sound_opportunity_def split: if_splits)
qed

text \<open>
  In every state the detector reaches, whatever prices arrive, the statistics of a pair are numbers, never NaN:
  the correlation between minus one and one, the hedge ratio between a sixteenth and ten, the deviation not
  negative; and they do not depend on the order in which the two markets are named. Every opportunity
  reported has a correlation of at least 0.85 in absolute value, a spread more than two deviations from
  its mean, a confidence between zero and one, more than ten basis points of profit, and the action that
  the sign of the deviation calls for; what was reported last can be read again.
\<close>
theorem arbitrage_statistics_sound:
  assumes "arbitrage_step\<^sup>*\<^sup>* arbitrage_new s"
  shows "(\<forall>c h d. get_pair_stats a b s = Some (c, h, d) \<longrightarrow>
      between (- 1) 1 c \<and> between (1 / 16) 10 h \<and> between 0 (pow2 481) d) \<and>
    get_pair_stats a b s = get_pair_stats b a s \<and>
    (\<forall>x\<in>set (fst (detect_opportunities show_uuid now keys s)). sound_opportunity x) \<and>
    get_active_opportunities (snd (detect_opportunities show_uuid now keys s)) =
      fst (detect_opportunities show_uuid now keys s)"
proof -
  have "arbitrage_ok arbitrage_new" by (simp add: arbitrage_ok_def arbitrage_new_def)
  from arbitrage.run_keeps [OF assms this] have ok: "pair_ok p" if "ar_pairs s k = Some p" for k p
    using that unfolding arbitrage_ok_def by blast
  have "sound_opportunity x" if x: "x \<in> set (fst (detect_opportunities show_uuid now keys s))" for x
  proof -
    from x obtain k p where "ar_pairs s k = Some p" "pair_opportunity show_uuid now p = Some x"
      by (auto simp: detect_opportunities_def Let_def List.map_filter_def bind_eq_Some_conv)
    with ok pair_opportunity_sound show ?thesis by blast
  qed
  moreover have "between (- 1) 1 c \<and> between (1 / 16) 10 h \<and> between 0 (pow2 481) d"
    if st: "get_pair_stats a b s = Some (c, h, d)" for c h d
  proof -
    from st obtain p where p: "ar_pairs s (pair_key_of a b) = Some p" "c = mp_correlation p" "h = mp_hedge_ratio p"
      "d = mp_spread_std p" by (auto simp: get_pair_stats_def)
    from ok [OF p(1)] show ?thesis by (simp add: p(2-4) pair_ok_def)
  qed
  moreover have "get_pair_stats a b s = get_pair_stats b a s" by (simp add: get_pair_stats_def pair_key_sym [of b a])
  moreover have "get_active_opportunities (snd (detect_opportunities show_uuid now keys s)) =
      fst (detect_opportunities show_uuid now keys s)"
    by (simp add: detect_opportunities_def Let_def get_active_opportunities_def)
  ultimately show ?thesis by blast
qed

lemma arbitrage_statistics_sound_witness:
  "\<exists>c h d. get_pair_stats (MarketId 5) (MarketId 3)
      (on_price_update 1 (MarketId 3) 70 (register_pair 0 (MarketId 3) (MarketId 5) arbitrage_new)) = Some (c, h, d) \<and>
    between (- 1) 1 c \<and> between (1 / 16) 10 h"
proof -
  let ?s = "on_price_update 1 (MarketId 3) 70 (register_pair 0 (MarketId 3) (MarketId 5) arbitrage_new)"
  have "arbitrage_step arbitrage_new (register_pair 0 (MarketId 3) (MarketId 5) arbitrage_new)"
    by (rule arbitrage_step.intros)
  moreover have "arbitrage_step (register_pair 0 (MarketId 3) (MarketId 5) arbitrage_new) ?s"
    by (rule arbitrage_step.intros)
  ultimately have r: "arbitrage_step\<^sup>*\<^sup>* arbitrage_new ?s" by (meson converse_rtranclp_into_rtranclp r_into_rtranclp)
  obtain c h d where "get_pair_stats (MarketId 5) (MarketId 3) ?s = Some (c, h, d)"
    by (simp add: get_pair_stats_def pair_key_of_def on_price_update_def register_pair_def arbitrage_new_def Let_def)
  with arbitrage_statistics_sound [OF r] show ?thesis by blast
qed

section \<open>The spread that is compared\<close>

lemma last_of_fifty: "length ys = 50 \<Longrightarrow> last (xs @ ys) = ys ! 49"
  by (cases "ys = []") (simp_all add: last_conv_nth nth_append)

text \<open>
  The spreads of the last fifty prices are appended newest first, so what a pair holds as its current spread,
  the one compared with the mean, is the spread of fifty prices ago; the newest prices are not in it.
\<close>
theorem compared_spread_is_old:
  assumes "50 \<le> length (mp_prices_a p)" and "50 \<le> length (mp_prices_b p)"
  shows "last (mp_spreads (update_pair_stats p)) =
    spread_at (mp_hedge_ratio (update_pair_stats p))
      (mp_prices_a p ! (length (mp_prices_a p) - 50)) (mp_prices_b p ! (length (mp_prices_b p) - 50))"
proof -
  let ?q = "update_correlation p"
  have same: "mp_prices_a ?q = mp_prices_a p" "mp_prices_b ?q = mp_prices_b p"
    by (simp_all add: update_correlation_def Let_def)
  let ?as = "take 50 (rev (mp_prices_a p))" and ?bs = "take 50 (rev (mp_prices_b p))"
  let ?new = "map2 (spread_at (mp_hedge_ratio ?q)) ?as ?bs"
  have len: "length ?as = 50" "length ?bs = 50" "length ?new = 50" using assms by simp_all
  let ?pushed = "mp_spreads ?q @ ?new"
  have hedge: "mp_hedge_ratio (update_spreads ?q) = mp_hedge_ratio ?q" by (simp add: update_spreads_def Let_def)
  have "mp_spreads (update_spreads ?q) = drop (length ?pushed - LOOKBACK_WINDOW) ?pushed"
    using len by (simp add: update_spreads_def Let_def same del: length_take length_rev)
  also have "last \<dots> = last ?pushed"
    by (rule last_drop) (use len in \<open>simp add: LOOKBACK_WINDOW_def del: length_map length_zip\<close>)
  also have "last ?pushed = ?new ! 49"
    using len(3) by (rule last_of_fifty)
  also have "\<dots> = spread_at (mp_hedge_ratio ?q) (?as ! 49) (?bs ! 49)" using len by simp
  also have "?as ! 49 = mp_prices_a p ! (length (mp_prices_a p) - 50)" using assms(1) by (simp add: rev_nth)
  also have "?bs ! 49 = mp_prices_b p ! (length (mp_prices_b p) - 50)" using assms(2) by (simp add: rev_nth)
  finally have "last (mp_spreads (update_spreads ?q)) = spread_at (mp_hedge_ratio ?q)
    (mp_prices_a p ! (length (mp_prices_a p) - 50)) (mp_prices_b p ! (length (mp_prices_b p) - 50))" .
  moreover have "update_pair_stats p = update_spreads ?q" using assms by (simp add: update_pair_stats_def)
  ultimately show ?thesis using hedge by simp
qed

definition sample_pair :: market_pair where
  "sample_pair = (new_pair 0 (MarketId 3, MarketId 5))
     \<lparr>mp_prices_a := map of_nat [100..<150], mp_prices_b := map of_nat [200..<250]\<rparr>"

lemma compared_spread_is_old_witness:
  "\<exists>h. last (mp_spreads (update_pair_stats sample_pair)) = spread_at h 100 200"
  using compared_spread_is_old [of sample_pair] by (auto simp: sample_pair_def)

end
