(* ===== verification/Ml_Predictor.thy ===== *)
theory Ml_Predictor
  imports Common_Types Float_Facts
begin

text \<open>
  \<open>analytics/src/ml_predictor.rs\<close>: windows of returns, volumes and book depths per market, a vector of ten
  features, and a linear prediction with a confidence. Powers with small integer exponents are
  multiplications; \<open>tanh\<close> and \<open>powf\<close>, whose precision the language leaves open, are arguments.
\<close>

record math =
  ma_tanh :: "f64 \<Rightarrow> f64"
  ma_powf :: "f64 \<Rightarrow> f64 \<Rightarrow> f64"
  ma_ln_1p :: "f64 \<Rightarrow> f64"

record ml_prediction =
  pr_market_id :: string
  pr_predicted_direction :: f64
  pr_confidence :: f64
  pr_expected_return_bps :: int
  pr_volatility_forecast :: f64
  pr_features :: "f64 list"
  pr_timestamp :: datetime
  pr_model_version :: string

record market_features =
  mf_returns :: "f64 list"
  mf_volumes :: "u64 list"
  mf_bid_depth :: "u64 list"
  mf_ask_depth :: "u64 list"
  mf_spread :: "u32 list"
  mf_trade_imbalance :: "f64 list"
  mf_volatility :: "f64 list"
  mf_price_levels :: "u32 list"

type_synonym feature_store = "market_id \<Rightarrow> market_features option"

definition FEATURE_WINDOW :: nat where
  "FEATURE_WINDOW = 50"

definition no_features :: market_features where
  "no_features = \<lparr>mf_returns = [], mf_volumes = [], mf_bid_depth = [], mf_ask_depth = [], mf_spread = [],
     mf_trade_imbalance = [], mf_volatility = [], mf_price_levels = []\<rparr>"

definition features_entry :: "market_id \<Rightarrow> feature_store \<Rightarrow> market_features" where
  "features_entry m g = (case g m of None \<Rightarrow> no_features | Some f \<Rightarrow> f)"

text \<open>The oldest entry goes when there are more than the window holds.\<close>

definition trim_window :: "'a list \<Rightarrow> 'a list" where
  "trim_window xs = (if FEATURE_WINDOW < length xs then tl xs else xs)"

section \<open>Collecting\<close>

definition price_return :: "u32 \<Rightarrow> u32 \<Rightarrow> f64" where
  "price_return prev latest =
     (if \<not> f64_eq (f64_of_word prev) (f64_lit 0)
      then f64_div (f64_sub (f64_of_word latest) (f64_of_word prev)) (f64_of_word prev) else f64_lit 0)"

definition features_on_fill :: "u32 \<Rightarrow> u64 \<Rightarrow> market_features \<Rightarrow> market_features" where
  "features_on_fill price quantity f =
     (let volumes = mf_volumes f @ [quantity];
          levels = mf_price_levels f @ [price];
          returns = (if 2 \<le> length levels
                     then mf_returns f @ [price_return (levels ! (length levels - 2)) (last levels)]
                     else mf_returns f)
      in f\<lparr>mf_returns := trim_window returns, mf_volumes := trim_window volumes,
           mf_price_levels := trim_window levels\<rparr>)"

definition ml_on_fill :: "fill \<Rightarrow> feature_store \<Rightarrow> feature_store" where
  "ml_on_fill f g =
     g(fill_market_id f \<mapsto> features_on_fill (price_raw (fill_price f)) (quantity_raw (fill_quantity f))
        (features_entry (fill_market_id f) g))"

definition side_depth :: "price_level list \<Rightarrow> u64" where
  "side_depth ls = sum_list (map (\<lambda>l. quantity_raw (lvl_quantity l)) ls)"

definition book_imbalance :: "u64 \<Rightarrow> u64 \<Rightarrow> f64" where
  "book_imbalance bid ask =
     (if 0 < bid + ask then f64_div (f64_sub (f64_of_word bid) (f64_of_word ask)) (f64_of_word (bid + ask))
      else f64_lit 0)"

definition variance_of :: "f64 list \<Rightarrow> f64" where
  "variance_of xs = (let m = f64_mean xs in f64_mean (map (\<lambda>x. f64_square (f64_sub x m)) xs))"

definition features_on_book :: "order_book \<Rightarrow> market_features \<Rightarrow> market_features" where
  "features_on_book b f =
     (let bid = side_depth (book_bids b);
          ask = side_depth (book_asks b);
          best = (case (book_bids b, book_asks b) of
             (x # _, y # _) \<Rightarrow> Some (word_saturating_sub (price_raw (lvl_price y)) (price_raw (lvl_price x))) | _ \<Rightarrow> None);
          spread = (case best of None \<Rightarrow> mf_spread f | Some s \<Rightarrow> mf_spread f @ [s]);
          imbalance = (case best of None \<Rightarrow> mf_trade_imbalance f | Some _ \<Rightarrow> mf_trade_imbalance f @ [book_imbalance bid ask]);
          volatility = (if 10 \<le> length (mf_returns f)
                        then mf_volatility f @ [f64_sqrt (variance_of (take 10 (rev (mf_returns f))))]
                        else mf_volatility f)
      in f\<lparr>mf_bid_depth := trim_window (mf_bid_depth f @ [bid]), mf_ask_depth := trim_window (mf_ask_depth f @ [ask]),
           mf_spread := trim_window spread, mf_trade_imbalance := trim_window imbalance,
           mf_volatility := trim_window volatility\<rparr>)"

definition ml_on_book :: "market_id \<Rightarrow> order_book \<Rightarrow> feature_store \<Rightarrow> feature_store" where
  "ml_on_book m b g = g(m \<mapsto> features_on_book b (features_entry m g))"

section \<open>Features\<close>

definition last_or :: "'a \<Rightarrow> 'a list \<Rightarrow> 'a" where
  "last_or d xs = (if xs = [] then d else last xs)"

definition depth_imbalance :: "market_features \<Rightarrow> f64" where
  "depth_imbalance f =
     (if mf_bid_depth f \<noteq> [] \<and> mf_ask_depth f \<noteq> [] then
        (let bid = f64_of_word (last (mf_bid_depth f)); ask = f64_of_word (last (mf_ask_depth f)) in
         f64_div (f64_sub bid ask) (f64_add (f64_add bid ask) (f64_lit 1)))
      else f64_lit 0)"

definition momentum :: "market_features \<Rightarrow> f64" where
  "momentum f =
     (let recent = take 5 (rev (mf_returns f)) in if 5 \<le> length recent then f64_sum recent else f64_lit 0)"

definition volume_spike :: "market_features \<Rightarrow> f64" where
  "volume_spike f =
     (let recent = take 10 (rev (mf_volumes f));
          volume_ma = f64_div (f64_sum (map f64_of_word recent)) (f64_of_nat (max 1 (length recent)));
          recent_vol = f64_of_word (last_or 0 (mf_volumes f))
      in if f64_less (f64_lit 0) volume_ma then f64_sub (f64_div recent_vol volume_ma) (f64_lit 1) else f64_lit 0)"

definition cube :: "f64 \<Rightarrow> f64" where
  "cube x = f64_mul x (f64_mul x x)"

definition calculate_skew :: "math \<Rightarrow> f64 list \<Rightarrow> f64" where
  "calculate_skew M returns =
     (if length returns < 10 then f64_lit 0
      else
        (let m = f64_mean returns;
             m3 = f64_mean (map (\<lambda>r. cube (f64_sub r m)) returns);
             m2 = f64_mean (map (\<lambda>r. f64_square (f64_sub r m)) returns)
         in if f64_less (f64_lit 0) m2 then f64_div m3 (ma_powf M m2 (f64_lit (3 / 2))) else f64_lit 0))"

definition calculate_kurtosis :: "f64 list \<Rightarrow> f64" where
  "calculate_kurtosis returns =
     (if length returns < 10 then f64_lit 0
      else
        (let m = f64_mean returns;
             m4 = f64_mean (map (\<lambda>r. f64_square (f64_square (f64_sub r m))) returns);
             m2 = f64_mean (map (\<lambda>r. f64_square (f64_sub r m)) returns)
         in if f64_less (f64_lit 0) m2 then f64_sub (f64_div m4 (f64_square m2)) (f64_lit 3) else f64_lit 0))"

definition price_range :: "market_features \<Rightarrow> f64" where
  "price_range f =
     (if 2 \<le> length (mf_price_levels f) then
        (let hi = f64_of_word (foldl max 0 (mf_price_levels f));
             lo = f64_of_word (foldl min (hd (mf_price_levels f)) (mf_price_levels f))
         in if f64_less (f64_lit 0) lo then f64_div (f64_sub hi lo) lo else f64_lit 0)
      else f64_lit 0)"

definition extract_features :: "math \<Rightarrow> market_features \<Rightarrow> f64 list" where
  "extract_features M f =
     [momentum f,
      f64_div (f64_sum (mf_returns f)) (f64_of_nat (max 1 (length (mf_returns f)))),
      last_or (f64_lit 0) (mf_volatility f),
      depth_imbalance f,
      (if mf_spread f = [] then f64_lit 0 else f64_div (f64_of_word (last (mf_spread f))) (f64_lit 10000)),
      last_or (f64_lit 0) (mf_trade_imbalance f),
      volume_spike f,
      calculate_skew M (mf_returns f),
      calculate_kurtosis (mf_returns f),
      price_range f]"

section \<open>Prediction\<close>

definition model_weights :: "f64 list" where
  "model_weights = map f64_lit [15 / 100, - 12 / 100, 25 / 100, 8 / 100, - 20 / 100,
     18 / 100, 5 / 100, - 10 / 100, 30 / 100, 12 / 100]"

definition linear_score :: "f64 list \<Rightarrow> f64" where
  "linear_score features = f64_sum (map2 f64_mul features model_weights)"

definition vol_stability :: "market_features \<Rightarrow> f64" where
  "vol_stability f =
     (if 5 \<le> length (mf_volatility f) then
        (let recent = take 5 (rev (mf_volatility f)) in
         f64_sub (f64_lit 1) (f64_min (f64_div (f64_sqrt (variance_of recent)) (f64_mean recent)) (f64_lit 1)))
      else f64_lit (1 / 2))"

definition calculate_confidence :: "market_features \<Rightarrow> f64 \<Rightarrow> f64" where
  "calculate_confidence f score =
     (let data_quality = f64_min (f64_div (f64_of_nat (length (mf_returns f))) (f64_of_nat FEATURE_WINDOW)) (f64_lit 1);
          magnitude = f64_min (f64_abs score) (f64_lit 1)
      in f64_clamp (f64_lit 0) (f64_lit 1)
           (f64_add (f64_add (f64_mul data_quality (f64_lit (3 / 10))) (f64_mul (vol_stability f) (f64_lit (3 / 10))))
              (f64_mul magnitude (f64_lit (4 / 10)))))"

definition predict :: "math \<Rightarrow> (uuid \<Rightarrow> string) \<Rightarrow> datetime \<Rightarrow> market_id \<Rightarrow> feature_store \<Rightarrow> ml_prediction option" where
  "predict M show_uuid now m g =
     (case g m of
        None \<Rightarrow> None
      | Some f \<Rightarrow>
          if length (mf_returns f) < 20 then None
          else
            (let features = extract_features M f; score = linear_score features in
             Some \<lparr>pr_market_id = show_uuid (market_uuid m), pr_predicted_direction = ma_tanh M score,
               pr_confidence = calculate_confidence f score,
               pr_expected_return_bps = f64_as_i32 (f64_mul score (f64_lit 10000)),
               pr_volatility_forecast = last_or (f64_lit (2 / 100)) (mf_volatility f),
               pr_features = features, pr_timestamp = now, pr_model_version = ''v1.0-linear''\<rparr>))"

section \<open>What the windows hold\<close>

text \<open>
  The invariant: no window is longer than it may be, the values are numbers of the language and the volatilities
  carry no sign.
\<close>

inductive ml_step :: "feature_store \<Rightarrow> feature_store \<Rightarrow> bool" where
  "ml_step g (ml_on_fill f g)"
| "ml_step g (ml_on_book m b g)"

definition features_ok :: "market_features \<Rightarrow> bool" where
  "features_ok f \<longleftrightarrow>
     length (mf_returns f) \<le> FEATURE_WINDOW \<and> length (mf_volumes f) \<le> FEATURE_WINDOW \<and>
     length (mf_bid_depth f) \<le> FEATURE_WINDOW \<and> length (mf_ask_depth f) \<le> FEATURE_WINDOW \<and>
     length (mf_spread f) \<le> FEATURE_WINDOW \<and> length (mf_trade_imbalance f) \<le> FEATURE_WINDOW \<and>
     length (mf_volatility f) \<le> FEATURE_WINDOW \<and> length (mf_price_levels f) \<le> FEATURE_WINDOW \<and>
     (\<forall>x\<in>set (mf_returns f). well_formed x) \<and> (\<forall>x\<in>set (mf_trade_imbalance f). well_formed x) \<and>
     (\<forall>x\<in>set (mf_volatility f). unsigned_f64 x)"

definition store_ok :: "feature_store \<Rightarrow> bool" where
  "store_ok g \<longleftrightarrow> (\<forall>m f. g m = Some f \<longrightarrow> features_ok f)"

lemma features_entry_ok: "store_ok g \<Longrightarrow> features_ok (features_entry m g)"
  by (auto simp: store_ok_def features_entry_def features_ok_def no_features_def split: option.splits)

lemma price_return_well_formed: "well_formed (price_return p q)"
  by (simp add: price_return_def)

lemma book_imbalance_well_formed: "well_formed (book_imbalance b a)"
  by (simp add: book_imbalance_def)

lemma variance_unsigned: "\<forall>x\<in>set xs. well_formed x \<Longrightarrow> unsigned_f64 (variance_of xs)"
  by (auto simp: variance_of_def Let_def intro!: mean_unsigned square_unsigned)

lemma recent_all: "\<forall>x\<in>set xs. P x \<Longrightarrow> \<forall>x\<in>set (take n (rev xs)). P x"
  using set_take_subset [of n "rev xs"] by auto

text \<open>A window that takes a value, or does not, keeps its bound and what holds of every entry.\<close>

definition keeps_window :: "('a \<Rightarrow> bool) \<Rightarrow> 'a list \<Rightarrow> bool" where
  "keeps_window P xs \<longleftrightarrow> length xs \<le> FEATURE_WINDOW \<and> (\<forall>x\<in>set xs. P x)"

lemma keeps_window_trim: "keeps_window P xs \<Longrightarrow> keeps_window P (trim_window xs)"
  by (cases xs) (simp_all add: keeps_window_def trim_window_def)

lemma keeps_window_push: "keeps_window P xs \<Longrightarrow> P x \<Longrightarrow> keeps_window P (trim_window (xs @ [x]))"
  by (cases xs) (simp_all add: keeps_window_def trim_window_def)

lemma features_ok_windows:
  "features_ok f \<longleftrightarrow> keeps_window well_formed (mf_returns f) \<and> keeps_window (\<lambda>_. True) (mf_volumes f) \<and>
     keeps_window (\<lambda>_. True) (mf_bid_depth f) \<and> keeps_window (\<lambda>_. True) (mf_ask_depth f) \<and>
     keeps_window (\<lambda>_. True) (mf_spread f) \<and> keeps_window well_formed (mf_trade_imbalance f) \<and>
     keeps_window unsigned_f64 (mf_volatility f) \<and> keeps_window (\<lambda>_. True) (mf_price_levels f)"
  by (auto simp: features_ok_def keeps_window_def)

lemma features_on_fill_ok: "features_ok f \<Longrightarrow> features_ok (features_on_fill p q f)"
  unfolding features_ok_windows features_on_fill_def Let_def
  by (simp add: keeps_window_push keeps_window_trim price_return_well_formed)

lemma features_on_book_ok:
  assumes "features_ok f"
  shows "features_ok (features_on_book b f)"
proof -
  have "unsigned_f64 (f64_sqrt (variance_of (take 10 (rev (mf_returns f)))))"
    using assms by (intro sqrt_unsigned variance_unsigned recent_all) (simp add: features_ok_def)
  with assms show ?thesis
    unfolding features_ok_windows features_on_book_def Let_def
    by (cases "book_bids b"; cases "book_asks b")
      (simp_all add: keeps_window_push keeps_window_trim book_imbalance_well_formed)
qed

interpretation predictors: kept_by_steps ml_step store_ok
proof
  fix g h
  assume ok: "store_ok g" and "ml_step g h"
  from this(2) show "store_ok h"
  proof cases
    case (1 f)
    with ok features_on_fill_ok [OF features_entry_ok [OF ok]] show ?thesis
      by (simp add: store_ok_def ml_on_fill_def)
  next
    case (2 m b)
    with ok features_on_book_ok [OF features_entry_ok [OF ok]] show ?thesis
      by (simp add: store_ok_def ml_on_book_def)
  qed
qed

section \<open>Confidence\<close>

lemma vol_stability_between:
  assumes "\<forall>x\<in>set (mf_volatility f). unsigned_f64 x"
  shows "between 0 1 (vol_stability f)"
proof -
  let ?v = "take 5 (rev (mf_volatility f))"
  have v: "\<forall>x\<in>set ?v. unsigned_f64 x" by (rule recent_all [OF assms])
  then have "\<forall>x\<in>set ?v. well_formed x" using unsigned_well_formed by blast
  with v have "unsigned_f64 (f64_div (f64_sqrt (variance_of ?v)) (f64_mean ?v))"
    by (simp add: unsigned_closed variance_unsigned)
  from min_unsigned_between [OF this f64_lit_between [of 1 1 1]]
  have "between 0 1 (f64_min (f64_div (f64_sqrt (variance_of ?v)) (f64_mean ?v)) (f64_lit 1))" by simp
  with f64_lit_between [of 1 1 1]
  have "between 0 1 (f64_sub (f64_lit 1) (f64_min (f64_div (f64_sqrt (variance_of ?v)) (f64_mean ?v)) (f64_lit 1)))"
    by (intro between_sub [of 1 1 _ 0 1]) simp_all
  moreover have "between 0 1 (f64_lit (1 / 2))" by (rule f64_lit_between) simp_all
  ultimately show ?thesis by (simp add: vol_stability_def Let_def)
qed

text \<open>A weighted part of the confidence, and the sum of three such parts.\<close>

lemma weighted_between:
  assumes "between 0 1 x" and "0 \<le> q" and "q \<le> 1"
  shows "between 0 1 (f64_mul x (f64_lit q))"
  by (rule between_mul [OF assms(1) f64_lit_between [of 0 q 1]]) (use assms in \<open>auto intro: mult_le_one\<close>)

lemma three_between:
  assumes "between 0 1 x" and "between 0 1 y" and "between 0 1 z"
  shows "between 0 3 (f64_add (f64_add x y) z)"
proof -
  have "between 0 2 (f64_add x y)" using assms(1,2) by (rule between_add) (simp_all add: fits_numeral)
  then show ?thesis using assms(3) by (rule between_add) (simp_all add: fits_numeral)
qed

lemma data_quality_between:
  "between 0 1 (f64_min (f64_div (f64_of_nat n) (f64_of_nat FEATURE_WINDOW)) (f64_lit 1))"
  by (rule min_unsigned_between [of _ 1]) (auto simp: unsigned_closed f64_lit_between)

lemma magnitude_between: "well_formed score \<Longrightarrow> between 0 1 (f64_min (f64_abs score) (f64_lit 1))"
  by (rule min_unsigned_between [of _ 1]) (auto simp: unsigned_closed f64_lit_between)

lemma clamp_0_1: "between a b x \<Longrightarrow> between 0 1 (f64_clamp (f64_lit 0) (f64_lit 1) x)"
  by (rule between_clamp [where b = 0 and c = 1])
    (auto dest: between_well_formed intro: f64_lit_between [of 1 1 1, simplified] simp: signed_def)

lemma calculate_confidence_between:
  assumes "features_ok f" and "well_formed score"
  shows "between 0 1 (calculate_confidence f score)"
proof -
  have "between 0 1 (vol_stability f)" using assms(1) by (simp add: vol_stability_between features_ok_def)
  then show ?thesis
    unfolding calculate_confidence_def Let_def
    by (intro clamp_0_1 [where a = 0 and b = 3] three_between weighted_between data_quality_between magnitude_between assms) simp_all
qed

section \<open>Predictions\<close>

lemma last_or_all: "\<forall>x\<in>set xs. P x \<Longrightarrow> P d \<Longrightarrow> P (last_or d xs)"
  by (simp add: last_or_def)

lemma centred_well_formed: "\<forall>x\<in>set xs. well_formed x \<Longrightarrow> x \<in> set xs \<Longrightarrow> well_formed (f64_sub x (f64_mean xs))"
  by simp

lemma calculate_skew_well_formed:
  assumes "\<forall>x\<in>set xs. well_formed x" and "\<And>x y. well_formed (ma_powf M x y)"
  shows "well_formed (calculate_skew M xs)"
  using assms centred_well_formed [OF assms(1)] by (simp add: calculate_skew_def Let_def cube_def)

lemma calculate_kurtosis_well_formed:
  assumes "\<forall>x\<in>set xs. well_formed x"
  shows "well_formed (calculate_kurtosis xs)"
  using assms centred_well_formed [OF assms(1)] by (simp add: calculate_kurtosis_def Let_def)

lemma extract_features_well_formed:
  assumes "features_ok f" and "\<And>x y. well_formed (ma_powf M x y)"
  shows "\<forall>x\<in>set (extract_features M f). well_formed x"
proof -
  have windows: "\<forall>x\<in>set (mf_returns f). well_formed x" "\<forall>x\<in>set (mf_trade_imbalance f). well_formed x"
    "\<forall>x\<in>set (mf_volatility f). well_formed x"
    using assms(1) unsigned_well_formed by (auto simp: features_ok_def)
  have "well_formed (momentum f)" "well_formed (depth_imbalance f)" "well_formed (volume_spike f)" "well_formed (price_range f)"
    using recent_all [OF windows(1), of 5]
    by (simp_all add: momentum_def depth_imbalance_def volume_spike_def price_range_def Let_def)
  with windows last_or_all [OF windows(2)] last_or_all [OF windows(3)]
    calculate_skew_well_formed [OF windows(1) assms(2)] calculate_kurtosis_well_formed [OF windows(1)]
  show ?thesis by (simp add: extract_features_def)
qed

lemma linear_score_well_formed:
  assumes "\<forall>x\<in>set xs. well_formed x"
  shows "well_formed (linear_score xs)"
  unfolding linear_score_def
proof (rule f64_sum_well_formed, rule ballI)
  fix y
  assume "y \<in> set (map2 f64_mul xs model_weights)"
  then obtain a b where "y = f64_mul a b" "a \<in> set xs" "b \<in> set model_weights"
    by (auto dest: set_zip_leftD set_zip_rightD)
  moreover from this(3) have "well_formed b" by (auto simp: model_weights_def)
  ultimately show "well_formed y" using assms by simp
qed

text \<open>
  In every state the predictor reaches, a market has a prediction exactly when it has at least twenty returns.
  The prediction has one feature for each weight of the model, a confidence that is a number between zero and one
  whatever the score is, and a forecast volatility that is never negative.
\<close>
theorem predictions_bounded:
  assumes "ml_step\<^sup>*\<^sup>* (\<lambda>_. None) g" and "\<And>x y. well_formed (ma_powf M x y)"
  shows "(predict M show_uuid now m g \<noteq> None \<longleftrightarrow> (\<exists>f. g m = Some f \<and> 20 \<le> length (mf_returns f))) \<and>
    (\<forall>p. predict M show_uuid now m g = Some p \<longrightarrow>
       length (pr_features p) = length model_weights \<and> between 0 1 (pr_confidence p) \<and>
       unsigned_f64 (pr_volatility_forecast p))"
proof (cases "g m")
  case None
  then show ?thesis by (simp add: predict_def)
next
  case (Some f)
  have "store_ok (\<lambda>_. None)" by (simp add: store_ok_def)
  from predictors.run_keeps [OF assms(1) this] Some have ok: "features_ok f" by (simp add: store_ok_def)
  have "between 0 1 (calculate_confidence f (linear_score (extract_features M f)))"
    by (rule calculate_confidence_between [OF ok linear_score_well_formed [OF extract_features_well_formed [OF ok assms(2)]]])
  moreover have "unsigned_f64 (last_or (f64_lit (2 / 100)) (mf_volatility f))"
    by (rule last_or_all [where P = unsigned_f64, OF _ lit_unsigned]) (use ok in \<open>simp_all add: features_ok_def\<close>)
  moreover have "length (extract_features M f) = length model_weights"
    by (simp add: extract_features_def model_weights_def)
  ultimately show ?thesis using Some by (simp add: predict_def Let_def)
qed

definition features_after :: "nat \<Rightarrow> feature_store" where
  "features_after n = ((ml_on_fill
     \<lparr>fill_id = FillId 0, fill_market_id = MarketId 7, fill_maker_order_id = OrderId 1, fill_taker_order_id = OrderId 2,
      fill_maker_user_id = UserId 3, fill_taker_user_id = UserId 4, fill_price = Price 5000,
      fill_quantity = Quantity 10, fill_aggressor = Buy, fill_sequence = 1, fill_filled_at = 0,
      fill_transaction_id = None\<rparr>) ^^ n) (\<lambda>_. None)"

lemma features_after_run: "ml_step\<^sup>*\<^sup>* (\<lambda>_. None) (features_after n)"
proof (induction n)
  case (Suc n)
  then show ?case
    unfolding features_after_def funpow.simps o_apply by (rule rtranclp.rtrancl_into_rtrancl) (rule ml_step.intros)
qed (simp add: features_after_def)

lemma features_after_length:
  "n \<le> 50 \<Longrightarrow> length (mf_price_levels (features_entry (MarketId 7) (features_after n))) = n \<and>
     length (mf_returns (features_entry (MarketId 7) (features_after n))) = n - 1 \<and>
     (0 < n \<longrightarrow> features_after n (MarketId 7) \<noteq> None)"
proof (induction n)
  case 0
  show ?case by (simp add: features_after_def features_entry_def no_features_def)
next
  case (Suc n)
  have step: "features_after (Suc n) (MarketId 7) = Some (features_on_fill 5000 10 (features_entry (MarketId 7) (features_after n)))"
    by (simp add: features_after_def ml_on_fill_def)
  from Suc have "length (mf_price_levels (features_entry (MarketId 7) (features_after n))) = n"
    "length (mf_returns (features_entry (MarketId 7) (features_after n))) = n - 1" by simp_all
  with Suc.prems step show ?case
    by (auto simp: features_entry_def [of _ "features_after (Suc n)"] features_on_fill_def Let_def trim_window_def FEATURE_WINDOW_def)
qed

definition sample_math :: math where
  "sample_math = \<lparr>ma_tanh = f64_clamp (f64_lit (- 1)) (f64_lit 1), ma_powf = (\<lambda>x y. f64_sqrt (f64_lit 1)), 
     ma_ln_1p = (\<lambda>x. if f64_less (f64_lit 1) x then f64_lit 1 else f64_lit 0)\<rparr>"

lemma sample_powf: "well_formed (ma_powf sample_math x y)"
  using unsigned_well_formed [OF sqrt_unsigned [OF lit_unsigned]] by (simp add: sample_math_def)

lemma predictions_bounded_witness:
  "\<exists>p. predict sample_math (\<lambda>u. []) 0 (MarketId 7) (features_after 21) = Some p \<and>
    length (pr_features p) = length model_weights \<and> between 0 1 (pr_confidence p)"
proof -
  have "\<exists>f. features_after 21 (MarketId 7) = Some f \<and> 20 \<le> length (mf_returns f)"
    using features_after_length [of 21] by (auto simp: features_entry_def split: option.splits)
  with predictions_bounded [OF features_after_run sample_powf, of "\<lambda>u. []" 0 "MarketId 7" 21]
  show ?thesis by blast
qed

text \<open>
  A price that never moved: the deviation and the mean of five zero volatilities are zero, their quotient is NaN,
  which \<open>min(1.0)\<close> turns into one. The calmest market gets the least stability, less than one without data.
\<close>
lemma still_market_least_stable:
  assumes "take 5 (rev (mf_volatility f)) = replicate 5 (Fin False 0)"
  shows "vol_stability f = Fin False 0"
proof -
  have "5 \<le> length (mf_volatility f)"
    using arg_cong [OF assms, of length] by (simp add: min_def split: if_splits)
  moreover have "f64_sub (f64_lit 1) (f64_min (f64_div (f64_sqrt (variance_of (replicate 5 (Fin False 0))))
      (f64_mean (replicate 5 (Fin False 0)))) (f64_lit 1)) = Fin False 0"
    by code_simp
  ultimately show ?thesis by (simp only: vol_stability_def Let_def assms if_True)
qed

end
