(* ===== verification/Onnx_Predictor.thy ===== *)
theory Onnx_Predictor
  imports Ml_Predictor
begin

text \<open>
  \<open>analytics/src/onnx_predictor.rs\<close>: the same windows, with a prediction from a loaded network or, when the
  predictor was built as the linear fallback, from weights. The network is the library's: a function from the
  input tensor to the output tensor, or to nothing when a call fails. Its numbers are the \<open>f64\<close> values of the
  \<open>f32\<close> numbers the tensors hold; the input is rounded to them first.
\<close>

section \<open>Single precision\<close>

text \<open>\<open>as f32\<close>: twenty-four bits, the least quantum \<open>2 ^ - 149\<close>, infinite from \<open>2 ^ 128\<close> on.\<close>

fun f64_as_f32 :: "f64 \<Rightarrow> f64" where
  "f64_as_f32 NaN = NaN"
| "f64_as_f32 (Inf neg) = Inf neg"
| "f64_as_f32 (Fin neg r) =
     (if r = 0 then Fin neg 0
      else
        (let q = pow2 (max (exponent_of r - 23) (- 149));
             v = of_int (round_half_even (r / q)) * q
         in if v \<noteq> 0 \<and> 128 \<le> exponent_of v then Inf neg else Fin neg v))"

section \<open>The predictor\<close>

type_synonym session = "f64 list \<Rightarrow> f64 list option"

record onnx_predictor =
  ox_models :: feature_store
  ox_session :: "session option"
  ox_use_onnx :: bool

definition NUM_FEATURES :: nat where
  "NUM_FEATURES = 10"

text \<open>\<open>load\<close> is \<open>load_onnx_model\<close>: a file that does not load is logged, and there is no session.\<close>

definition onnx_new :: "(string \<Rightarrow> session option) \<Rightarrow> string option \<Rightarrow> onnx_predictor" where
  "onnx_new load model_path =
     \<lparr>ox_models = (\<lambda>_. None), ox_session = (case model_path of None \<Rightarrow> None | Some path \<Rightarrow> load path), ox_use_onnx = True\<rparr>"

definition new_linear_fallback :: onnx_predictor where
  "new_linear_fallback = \<lparr>ox_models = (\<lambda>_. None), ox_session = None, ox_use_onnx = False\<rparr>"

text \<open>The file repeats the collecting of \<open>ml_predictor.rs\<close> word for word.\<close>

definition onnx_on_fill :: "fill \<Rightarrow> onnx_predictor \<Rightarrow> onnx_predictor" where
  "onnx_on_fill f p = p\<lparr>ox_models := ml_on_fill f (ox_models p)\<rparr>"

definition onnx_on_book :: "market_id \<Rightarrow> order_book \<Rightarrow> onnx_predictor \<Rightarrow> onnx_predictor" where
  "onnx_on_book m b p = p\<lparr>ox_models := ml_on_book m b (ox_models p)\<rparr>"

section \<open>Features\<close>

definition spread_ratio :: "market_features \<Rightarrow> f64" where
  "spread_ratio f =
     (if mf_spread f \<noteq> [] \<and> mf_price_levels f \<noteq> [] \<and> 0 < last (mf_price_levels f)
      then f64_div (f64_of_word (last (mf_spread f))) (f64_of_word (last (mf_price_levels f))) else f64_lit 0)"

definition volume_average :: "market_features \<Rightarrow> f64" where
  "volume_average f =
     (if mf_volumes f = [] then f64_lit 0
      else f64_div (f64_of_word (sum_list (take 10 (rev (mf_volumes f))))) (f64_lit 10))"

definition price_velocity :: "market_features \<Rightarrow> f64" where
  "price_velocity f =
     (case rev (mf_price_levels f) of
        a # b # c # _ \<Rightarrow>
          f64_sub (f64_sub (f64_of_word a) (f64_of_word b)) (f64_sub (f64_of_word b) (f64_of_word c))
      | _ \<Rightarrow> f64_lit 0)"

definition volatility_shift :: "market_features \<Rightarrow> f64" where
  "volatility_shift f =
     (if 10 \<le> length (mf_volatility f) then
        (let recent = f64_div (f64_sum (take 5 (rev (mf_volatility f)))) (f64_lit 5);
             older = f64_div (f64_sum (take 5 (drop 5 (rev (mf_volatility f))))) (f64_lit 5)
         in if f64_less (f64_lit 0) older then f64_div recent older else f64_lit 1)
      else f64_lit 1)"

definition liquidity_score :: "math \<Rightarrow> market_features \<Rightarrow> f64" where
  "liquidity_score M f =
     (if mf_bid_depth f \<noteq> [] \<and> mf_ask_depth f \<noteq> []
      then ma_ln_1p M (f64_min (f64_of_word (last (mf_bid_depth f))) (f64_of_word (last (mf_ask_depth f))))
      else f64_lit 0)"

definition trend_strength :: "market_features \<Rightarrow> f64" where
  "trend_strength f =
     (if 10 \<le> length (mf_returns f) then
        (let ups = f64_of_nat (length (filter (\<lambda>r. f64_less (f64_lit 0) r) (mf_returns f)));
             downs = f64_of_nat (length (filter (\<lambda>r. f64_less r (f64_lit 0)) (mf_returns f)))
         in if f64_less (f64_lit 0) (f64_add ups downs) then f64_div (f64_sub ups downs) (f64_add ups downs) else f64_lit 0)
      else f64_lit 0)"

definition onnx_features :: "math \<Rightarrow> market_features \<Rightarrow> f64 list" where
  "onnx_features M f =
     [momentum f,
      (if mf_returns f = [] then f64_lit 0 else f64_div (f64_sum (mf_returns f)) (f64_of_nat (length (mf_returns f)))),
      last_or (f64_lit 0) (mf_volatility f),
      depth_imbalance f,
      spread_ratio f,
      volume_average f,
      last_or (f64_lit 0) (mf_trade_imbalance f),
      price_velocity f,
      volatility_shift f,
      liquidity_score M f,
      trend_strength f]"

section \<open>Prediction\<close>

definition onnx_confidence :: "market_features \<Rightarrow> f64 \<Rightarrow> f64" where
  "onnx_confidence f prediction_score =
     (let data_quality = f64_min (f64_div (f64_of_nat (length (mf_returns f))) (f64_of_nat FEATURE_WINDOW)) (f64_lit 1);
          magnitude = f64_min (f64_abs prediction_score) (f64_lit 1);
          volatility_factor =
            (if mf_volatility f = [] then f64_lit (8 / 10)
             else f64_max (f64_sub (f64_lit 1) (f64_min (f64_mul (last (mf_volatility f)) (f64_lit 10)) (f64_lit (1 / 2))))
                    (f64_lit (1 / 2)))
      in f64_max (f64_min
           (f64_add (f64_add (f64_mul data_quality (f64_lit (3 / 10))) (f64_mul magnitude (f64_lit (4 / 10))))
              (f64_mul volatility_factor (f64_lit (3 / 10))))
           (f64_lit 1)) (f64_lit 0))"

definition predict_linear :: "math \<Rightarrow> string \<Rightarrow> datetime \<Rightarrow> f64 list \<Rightarrow> market_features \<Rightarrow> ml_prediction" where
  "predict_linear M name now features f =
     (let score = linear_score features in
      \<lparr>pr_market_id = name, pr_predicted_direction = ma_tanh M score, pr_confidence = onnx_confidence f score,
       pr_expected_return_bps = f64_as_i32 (f64_mul score (f64_lit 10000)),
       pr_volatility_forecast = last_or (f64_lit (2 / 100)) (mf_volatility f),
       pr_features = features, pr_timestamp = now, pr_model_version = ''v1.0-linear''\<rparr>)"

definition predict_onnx :: "math \<Rightarrow> string \<Rightarrow> datetime \<Rightarrow> f64 list \<Rightarrow> session option \<Rightarrow> ml_prediction option" where
  "predict_onnx M name now features session =
     (case session of
        None \<Rightarrow> None
      | Some run \<Rightarrow>
          (case run (map f64_as_f32 features) of
             Some (value # confidence # volatility # _) \<Rightarrow>
               Some \<lparr>pr_market_id = name, pr_predicted_direction = ma_tanh M value,
                 pr_confidence = f64_max (f64_min confidence (f64_lit 1)) (f64_lit 0),
                 pr_expected_return_bps = f64_as_i32 (f64_mul value (f64_lit 10000)),
                 pr_volatility_forecast = volatility, pr_features = features, pr_timestamp = now,
                 pr_model_version = ''v2.0-onnx''\<rparr>
           | _ \<Rightarrow> None))"

definition onnx_predict :: "math \<Rightarrow> (uuid \<Rightarrow> string) \<Rightarrow> datetime \<Rightarrow> market_id \<Rightarrow> onnx_predictor \<Rightarrow> ml_prediction option" where
  "onnx_predict M show_uuid now m p =
     (case ox_models p m of
        None \<Rightarrow> None
      | Some f \<Rightarrow>
          if length (mf_returns f) < 20 then None
          else
            (let features = onnx_features M f; name = show_uuid (market_uuid m) in
             if ox_use_onnx p then predict_onnx M name now features (ox_session p)
             else Some (predict_linear M name now features f)))"

section \<open>What a prediction promises\<close>

inductive onnx_step :: "onnx_predictor \<Rightarrow> onnx_predictor \<Rightarrow> bool" where
  "onnx_step p (onnx_on_fill f p)"
| "onnx_step p (onnx_on_book m b p)"

text \<open>A run of fills and books collects as the other predictor does and keeps the network and the choice.\<close>

lemma onnx_run:
  assumes "onnx_step\<^sup>*\<^sup>* p q"
  shows "ml_step\<^sup>*\<^sup>* (ox_models p) (ox_models q) \<and> ox_session q = ox_session p \<and> ox_use_onnx q = ox_use_onnx p"
  using assms
proof (induction rule: rtranclp_induct)
  case (step q r)
  from step.hyps(2) have "ml_step (ox_models q) (ox_models r) \<and> ox_session r = ox_session q \<and> ox_use_onnx r = ox_use_onnx q"
    by cases (simp_all add: onnx_on_fill_def onnx_on_book_def ml_step.intros)
  with step.IH show ?case by (auto intro: rtranclp.rtrancl_into_rtrancl)
qed simp

lemma onnx_run_ok:
  assumes "onnx_step\<^sup>*\<^sup>* p q" and "ox_models p = (\<lambda>_. None)" and "ox_models q m = Some f"
  shows "features_ok f"
proof -
  have "store_ok (\<lambda>_. None)" by (simp add: store_ok_def)
  with onnx_run [OF assms(1)] assms(2) have "store_ok (ox_models q)" using predictors.run_keeps by metis
  with assms(3) show ?thesis by (simp add: store_ok_def)
qed

text \<open>Limited to the unit interval from both sides: NaN, like every value above one, becomes one.\<close>

lemma limited_between:
  assumes "well_formed x"
  shows "between 0 1 (f64_max (f64_min x (f64_lit 1)) (f64_lit 0))"
proof -
  obtain n r where one: "f64_lit 1 = Fin n r" "0 \<le> r" "signed n r = 1"
    using f64_lit_between [of 1 1 1] by (auto elim!: betweenE)
  show ?thesis
  proof (cases x)
    case (Inf neg)
    with one show ?thesis by (cases neg) (auto simp: f64_min_def f64_max_def signed_def)
  qed (use assms one in \<open>auto simp: f64_min_def f64_max_def signed_def\<close>)
qed

lemma onnx_confidence_between:
  assumes "features_ok f" and "well_formed s"
  shows "between 0 1 (onnx_confidence f s)"
proof -
  have last: "well_formed (last (mf_volatility f))" if "mf_volatility f \<noteq> []"
    using that assms(1) unsigned_well_formed by (auto simp: features_ok_def)
  have wf: "well_formed (f64_min x y)" "well_formed (f64_max x y)" if "well_formed x" "well_formed y" for x y
    using that by (simp_all add: f64_min_def f64_max_def)
  show ?thesis
    unfolding onnx_confidence_def Let_def
    by (rule limited_between) (simp add: wf last assms(2))
qed

lemma onnx_features_well_formed:
  assumes "features_ok f" and "\<And>x. well_formed (ma_ln_1p M x)"
  shows "\<forall>x\<in>set (onnx_features M f). well_formed x"
proof -
  have windows: "\<forall>x\<in>set (mf_returns f). well_formed x" "\<forall>x\<in>set (mf_trade_imbalance f). well_formed x"
    "\<forall>x\<in>set (mf_volatility f). well_formed x"
    using assms(1) unsigned_well_formed by (auto simp: features_ok_def)
  have "\<forall>x\<in>set (take 5 (drop 5 (rev (mf_volatility f)))). well_formed x"
    using windows(3) set_take_subset set_drop_subset by fastforce
  then have "well_formed (volatility_shift f)"
    using recent_all [OF windows(3), of 5] by (simp add: volatility_shift_def Let_def)
  moreover have "well_formed (momentum f)" "well_formed (depth_imbalance f)" "well_formed (volume_average f)"
      "well_formed (spread_ratio f)" "well_formed (trend_strength f)" "well_formed (price_velocity f)"
    using recent_all [OF windows(1), of 5]
    by (simp_all add: momentum_def depth_imbalance_def volume_average_def spread_ratio_def trend_strength_def
        price_velocity_def Let_def split: list.splits)
  ultimately show ?thesis
    using windows last_or_all [OF windows(2)] last_or_all [OF windows(3)] assms(2)
    by (simp add: onnx_features_def liquidity_score_def)
qed

text \<open>The model has ten weights, the vector eleven features: the last one, the trend, has no effect.\<close>

lemma trend_ignored:
  "length (onnx_features M f) = NUM_FEATURES + 1 \<and>
   linear_score (onnx_features M f) = linear_score (butlast (onnx_features M f))"
proof -
  have "linear_score (xs @ [y]) = linear_score xs" if "length xs = length model_weights" for xs y
    using that zip_append [of xs model_weights "[y]" "[]"] by (simp add: linear_score_def)
  from this [of "butlast (onnx_features M f)" "last (onnx_features M f)"] show ?thesis
    by (simp add: onnx_features_def model_weights_def NUM_FEATURES_def)
qed

text \<open>
  A predictor whose model did not load, or that was given none, never predicts, whatever it has seen: the
  fallback to the linear model its constructor logs does not happen. Only a predictor built as the linear fallback
  predicts without a network, a market once it has twenty returns.
\<close>
theorem failed_load_never_predicts:
  assumes "\<And>path. model_path = Some path \<Longrightarrow> load path = None"
    and "onnx_step\<^sup>*\<^sup>* (onnx_new load model_path) p" and "onnx_step\<^sup>*\<^sup>* new_linear_fallback q"
  shows "onnx_predict M show_uuid now m p = None \<and>
    (onnx_predict M show_uuid now m q \<noteq> None \<longleftrightarrow> (\<exists>f. ox_models q m = Some f \<and> 20 \<le> length (mf_returns f)))"
proof -
  have "ox_session p = None" "ox_use_onnx p"
    using onnx_run [OF assms(2)] assms(1) by (auto simp: onnx_new_def split: option.splits)
  moreover have "\<not> ox_use_onnx q" using onnx_run [OF assms(3)] by (simp add: new_linear_fallback_def)
  ultimately show ?thesis
    by (auto simp: onnx_predict_def predict_onnx_def Let_def split: option.splits)
qed

definition onnx_after :: "nat \<Rightarrow> onnx_predictor \<Rightarrow> onnx_predictor" where
  "onnx_after n p = ((onnx_on_fill
     \<lparr>fill_id = FillId 0, fill_market_id = MarketId 7, fill_maker_order_id = OrderId 1, fill_taker_order_id = OrderId 2,
      fill_maker_user_id = UserId 3, fill_taker_user_id = UserId 4, fill_price = Price 5000,
      fill_quantity = Quantity 10, fill_aggressor = Buy, fill_sequence = 1, fill_filled_at = 0,
      fill_transaction_id = None\<rparr>) ^^ n) p"

lemma onnx_after_run: "onnx_step\<^sup>*\<^sup>* p (onnx_after n p)"
proof (induction n)
  case (Suc n)
  then show ?case
    unfolding onnx_after_def funpow.simps o_apply by (rule rtranclp.rtrancl_into_rtrancl) (rule onnx_step.intros)
qed (simp add: onnx_after_def)

lemma onnx_after_models: "ox_models p = (\<lambda>_. None) \<Longrightarrow> ox_models (onnx_after n p) = features_after n"
  by (induction n) (simp_all add: onnx_after_def features_after_def onnx_on_fill_def)

lemma features_after_twenty: "\<exists>f. features_after 21 (MarketId 7) = Some f \<and> 20 \<le> length (mf_returns f)"
  using features_after_length [of 21] by (auto simp: features_entry_def split: option.splits)

lemma failed_load_never_predicts_witness:
  "onnx_predict sample_math (\<lambda>u. []) 0 (MarketId 7) (onnx_after 21 (onnx_new (\<lambda>path. None) (Some ''model.onnx''))) = None \<and>
   onnx_predict sample_math (\<lambda>u. []) 0 (MarketId 7) (onnx_after 21 new_linear_fallback) \<noteq> None"
proof -
  have "ox_models (onnx_after 21 new_linear_fallback) = features_after 21"
    by (rule onnx_after_models) (simp add: new_linear_fallback_def)
  with failed_load_never_predicts [OF _ onnx_after_run onnx_after_run, of "Some ''model.onnx''" "\<lambda>path. None" sample_math "\<lambda>u. []" 0
      "MarketId 7" 21 21] features_after_twenty
  show ?thesis by simp
qed

text \<open>
  In every state the predictor reaches, a prediction's confidence is a number between zero and one, with the
  network as with the weights; a prediction of the network needs a loaded session, at least three outputs and
  twenty returns, and takes a confidence of NaN for certainty.
\<close>
theorem onnx_predictions_bounded:
  assumes "onnx_step\<^sup>*\<^sup>* p q" and "ox_models p = (\<lambda>_. None)"
    and "\<forall>run xs ys. ox_session p = Some run \<and> run xs = Some ys \<longrightarrow> (\<forall>y\<in>set ys. well_formed y)"
    and "\<And>x. well_formed (ma_ln_1p M x)"
    and "onnx_predict M show_uuid now m q = Some r"
  shows "between 0 1 (pr_confidence r) \<and>
    (\<exists>f. ox_models q m = Some f \<and> 20 \<le> length (mf_returns f)) \<and>
    (ox_use_onnx p \<longrightarrow>
       (\<exists>run v c w rest. ox_session p = Some run \<and>
          run (map f64_as_f32 (pr_features r)) = Some (v # c # w # rest) \<and> pr_volatility_forecast r = w \<and>
          (c = NaN \<longrightarrow> pr_confidence r = f64_lit 1)))"
proof -
  obtain f where f: "ox_models q m = Some f" "20 \<le> length (mf_returns f)"
    using assms(5) by (auto simp: onnx_predict_def split: option.splits if_splits)
  have ok: "features_ok f" by (rule onnx_run_ok [OF assms(1,2) f(1)])
  show ?thesis
  proof (cases "ox_use_onnx p")
    case True
    then obtain run v c w rest where net: "ox_session p = Some run"
        "run (map f64_as_f32 (onnx_features M f)) = Some (v # c # w # rest)"
        "r = \<lparr>pr_market_id = show_uuid (market_uuid m), pr_predicted_direction = ma_tanh M v,
                 pr_confidence = f64_max (f64_min c (f64_lit 1)) (f64_lit 0),
                 pr_expected_return_bps = f64_as_i32 (f64_mul v (f64_lit 10000)),
                 pr_volatility_forecast = w, pr_features = onnx_features M f, pr_timestamp = now,
                 pr_model_version = ''v2.0-onnx''\<rparr>"
      using assms(5) f onnx_run [OF assms(1)]
      by (auto simp: onnx_predict_def predict_onnx_def Let_def simp del: f64_lit_0 split: option.splits list.splits)
    have "between 0 1 (pr_confidence r)"
      using assms(3) net(1,2) by (auto simp: net(3) limited_between simp del: f64_lit_0)
    moreover have "f64_max (f64_lit 1) (f64_lit 0) = f64_lit 1" by code_simp
    then have "c = NaN \<Longrightarrow> pr_confidence r = f64_lit 1" by (simp add: net(3) f64_min_def del: f64_lit_0)
    ultimately show ?thesis using f net by auto
  next
    case False
    then have r: "r = predict_linear M (show_uuid (market_uuid m)) now (onnx_features M f) f"
      using assms(5) f onnx_run [OF assms(1)] by (auto simp: onnx_predict_def Let_def)
    have "between 0 1 (onnx_confidence f (linear_score (onnx_features M f)))"
      by (rule onnx_confidence_between [OF ok linear_score_well_formed [OF onnx_features_well_formed [OF ok assms(4)]]])
    with False f show ?thesis by (simp add: r predict_linear_def Let_def)
  qed
qed

definition sample_session :: session where
  "sample_session xs = (if length xs = 11 then Some [f64_lit (1 / 4), NaN, f64_lit (1 / 8)] else None)"

lemma onnx_predictions_bounded_witness:
  "\<exists>r. onnx_predict sample_math (\<lambda>u. []) 0 (MarketId 7) (onnx_after 21 (onnx_new (\<lambda>path. Some sample_session) (Some ''model.onnx''))) = Some r \<and>
    between 0 1 (pr_confidence r) \<and> pr_confidence r = f64_lit 1"
proof -
  let ?p = "onnx_new (\<lambda>path. Some sample_session) (Some ''model.onnx'')"
  have p: "ox_models ?p = (\<lambda>_. None)" "ox_session ?p = Some sample_session" "ox_use_onnx ?p"
    by (simp_all add: onnx_new_def)
  have after: "ox_session (onnx_after 21 ?p) = Some sample_session" "ox_use_onnx (onnx_after 21 ?p)"
    using onnx_run [OF onnx_after_run [of ?p 21]] p by simp_all
  have len: "length (onnx_features sample_math f) = 11" for f by (simp add: onnx_features_def)
  have wf: "\<forall>run xs ys. ox_session ?p = Some run \<and> run xs = Some ys \<longrightarrow> (\<forall>y\<in>set ys. well_formed y)"
    using p(2) by (auto simp: sample_session_def split: if_splits)
  have math: "well_formed (ma_ln_1p sample_math x)" for x
    by (simp add: sample_math_def)
  obtain r where r: "onnx_predict sample_math (\<lambda>u. []) 0 (MarketId 7) (onnx_after 21 ?p) = Some r"
    using features_after_twenty onnx_after_models [OF p(1)] after len
    by (auto simp: onnx_predict_def predict_onnx_def Let_def sample_session_def)
  note bounded = onnx_predictions_bounded [OF onnx_after_run p(1) wf math r]
  then have "between 0 1 (pr_confidence r)" by (rule conjunct1)
  moreover obtain v c w rest where "sample_session (map f64_as_f32 (pr_features r)) = Some (v # c # w # rest)"
    "c = NaN \<longrightarrow> pr_confidence r = f64_lit 1"
    using bounded p by auto
  ultimately show ?thesis using r by (auto simp: sample_session_def split: if_splits)
qed

end
