(* ===== verification/Money.thy ===== *)
theory Money
  imports Fill_Processor Handlers
begin

text \<open>
  The money of the whole API. \<open>funds\<close> is all money of the balances table, \<open>held\<close> what the holds of pending
  withdrawals reserve. The statements the services issue are the steps \<open>money_step\<close>, each with the amount it
  brings into the ledger, and the processing of fills; \<open>reserve_balance\<close>, \<open>release_reservation\<close> and
  \<open>place_order_atomic\<close> of \<open>db/src\<close> are called by no service.
\<close>

definition held :: "db \<Rightarrow> uuid \<Rightarrow> int" where
  "held d u = (\<Sum>h\<leftarrow>db_holds d. if hold_user h = u then hold_amount h else 0)"

text \<open>A statement with the amount that enters the ledger from outside; \<open>other\<close>: one that touches no money.\<close>

inductive money_step :: "db \<Rightarrow> int \<Rightarrow> db \<Rightarrow> bool" where
  other: "db_step d d' \<Longrightarrow> db_balances d' = db_balances d \<Longrightarrow> db_holds d' = db_holds d \<Longrightarrow> money_step d 0 d'"
| credited: "credit_stmt u amt d = Inr (x, d') \<Longrightarrow> money_step d amt d'"
| deposited: "deposit_stmt u amt ref d = Inr (x, d') \<Longrightarrow> money_step d amt d'"
| settled: "settle_stmt now m oc ps d = Inr (x, d') \<Longrightarrow> money_step d (\<Sum>(u, a)\<leftarrow>ps. sint a) d'"
| requested: "create_withdrawal_stmt i now u amt d = Inr (r, d') \<Longrightarrow> money_step d 0 d'"
| approved: "approve_stmt now i admin d = Inr (row, d') \<Longrightarrow> money_step d (- wd_amount row) d'"
| rejected: "reject_stmt now i admin d = Inr (row, d') \<Longrightarrow> money_step d 0 d'"

inductive money_run :: "db \<Rightarrow> int \<Rightarrow> db \<Rightarrow> bool" where
  start: "money_run d 0 d"
| more: "money_run d x d' \<Longrightarrow> money_step d' y d'' \<Longrightarrow> money_run d (x + y) d''"

inductive api_step :: "db \<Rightarrow> db \<Rightarrow> bool" where
  money: "money_step d x d' \<Longrightarrow> api_step d d'"
| filled: "apply_fill_stmt b s c d = Inr (x, d') \<Longrightarrow> 0 \<le> c \<Longrightarrow> api_step d d'"

section \<open>Holds\<close>

lemma held_same: "db_holds d' = db_holds d \<Longrightarrow> held d' = held d"
  by (simp add: held_def fun_eq_iff)

lemma held_nonneg: "withdrawals_ok d \<Longrightarrow> 0 \<le> held d u"
  unfolding held_def by (rule sum_list_nonneg) (auto simp: withdrawals_ok_def hold_of_def)

text \<open>A decision deletes the hold of the withdrawal, which is there once, with its user and amount.\<close>

lemma decision_holds:
  assumes "stmt_bind (review_stmt s now i admin) (\<lambda>row. stmt_bind (m row) (\<lambda>_ :: nat.
      stmt_bind (delete_hold_stmt i) (\<lambda>_. stmt_return row))) d = Inr (row, d')"
    and "\<And>d n d'. m row d = Inr (n, d') \<Longrightarrow> \<exists>t. d' = d\<lparr>db_balances := t\<rparr>"
  shows "db_holds d' = filter (\<lambda>h. hold_withdrawal h \<noteq> i) (db_holds d)"
proof -
  from assms(1) obtain d1 n d2 where rev: "review_stmt s now i admin d = Inr (row, d1)" and m: "m row d1 = Inr (n, d2)"
    and d': "d' = d2\<lparr>db_holds := filter (\<lambda>h. hold_withdrawal h \<noteq> i) (db_holds d2)\<rparr>"
    by (auto simp: stmt_defs delete_hold_stmt_def split: sum.splits)
  have "db_holds d1 = db_holds d"
    using rev by (auto simp: review_stmt_def stmt_defs Let_def split: sum.splits option.splits if_splits)
  moreover from assms(2) [OF m] have "db_holds d2 = db_holds d1" by auto
  ultimately show ?thesis by (simp add: d')
qed

lemma sum_list_without:
  fixes f :: "'a \<Rightarrow> int"
  assumes "distinct (map k xs)" and "x \<in> set xs"
  shows "(\<Sum>y\<leftarrow>filter (\<lambda>y. k y \<noteq> k x) xs. f y) = (\<Sum>y\<leftarrow>xs. f y) - f x"
  using assms
proof (induction xs)
  case (Cons a xs)
  show ?case
  proof (cases "a = x")
    case True
    with Cons.prems(1) have "k x \<notin> k ` set xs" by simp
    then have "\<forall>y\<in>set xs. k y \<noteq> k x" by (metis imageI)
    then have "filter (\<lambda>y. k y \<noteq> k x) xs = xs" by simp
    with True show ?thesis by simp
  next
    case False
    with Cons.prems have "x \<in> set xs" "k a \<noteq> k x" by auto
    with Cons show ?thesis by simp
  qed
qed simp

lemma held_decided:
  assumes "withdrawals_ok d" and "find_withdrawal d i = Some r" and "wd_status r = WdPending"
    and "db_holds d' = filter (\<lambda>h. hold_withdrawal h \<noteq> i) (db_holds d)"
  shows "held d' u = held d u - (if wd_user_id r = u then wd_amount r else 0)"
proof -
  have r: "r \<in> set (db_withdrawals d)" "wd_id r = i" using find_withdrawal_id [OF assms(2)] by auto
  have "hold_of r \<in> set (db_holds d)" using assms(1,3) r by (auto simp: withdrawals_ok_def)
  moreover have "distinct (map hold_withdrawal (db_holds d))"
    using assms(1) by (auto simp: withdrawals_ok_def hold_of_def comp_def distinct_map inj_on_def)
  ultimately show ?thesis
    using sum_list_without [of hold_withdrawal "db_holds d" "hold_of r" "\<lambda>h. if hold_user h = u then hold_amount h else 0"] r(2)
    by (simp add: held_def assms(4) hold_of_def)
qed

lemma approve_holds: "approve_stmt now i admin d = Inr (row, d') \<Longrightarrow> db_holds d' = filter (\<lambda>h. hold_withdrawal h \<noteq> i) (db_holds d)"
  unfolding approve_stmt_def by (rule decision_holds) (auto dest: spend_frame)

lemma reject_holds: "reject_stmt now i admin d = Inr (row, d') \<Longrightarrow> db_holds d' = filter (\<lambda>h. hold_withdrawal h \<noteq> i) (db_holds d)"
  unfolding reject_stmt_def by (rule decision_holds) (auto dest: release_frame)

section \<open>Reserved money without fills\<close>

definition backed :: "db \<Rightarrow> bool" where
  "backed d \<longleftrightarrow> db_ok d \<and> (\<forall>u. resv d u = held d u)"

text \<open>A held amount is part of what its user has held.\<close>

lemma pending_held:
  assumes "withdrawals_ok d" and "find_withdrawal d i = Some r" and "wd_status r = WdPending"
  shows "wd_amount r \<le> held d (wd_user_id r) \<and> 0 < wd_amount r"
proof
  have r: "r \<in> set (db_withdrawals d)" using find_withdrawal_id [OF assms(2)] by auto
  then show "0 < wd_amount r" using assms(1) by (auto simp: withdrawals_ok_def)
  have "hold_of r \<in> set (db_holds d)" using assms(1,3) r by (auto simp: withdrawals_ok_def)
  then obtain as bs where hs: "db_holds d = as @ hold_of r # bs" by (auto dest: split_list)
  have nonneg: "0 \<le> hold_amount h" if "h \<in> set (db_holds d)" for h
    using that assms(1) by (auto simp: withdrawals_ok_def hold_of_def)
  have "0 \<le> (\<Sum>h\<leftarrow>as. if hold_user h = wd_user_id r then hold_amount h else 0)"
    "0 \<le> (\<Sum>h\<leftarrow>bs. if hold_user h = wd_user_id r then hold_amount h else 0)"
    using nonneg by (auto intro!: sum_list_nonneg simp: hs)
  then show "wd_amount r \<le> held d (wd_user_id r)" by (simp add: held_def hs hold_of_def)
qed

lemma money_step_ok: "money_step d x d' \<Longrightarrow> db_ok d \<Longrightarrow> db_ok d'"
  by (induction rule: money_step.induct) (blast intro: db_step_ok db_step.intros)+

lemma deposit_effect:
  assumes "deposit_stmt u amt ref d = Inr (x, d')" and "balances_ok d"
  shows "moves u amt 0 d d' \<and> db_holds d' = db_holds d"
proof -
  from assms(1) obtain r d1 where d1: "d1 = d\<lparr>db_deposits := db_deposits d @ r\<rparr>" and c: "credit_stmt u amt d1 = Inr ((), d')"
    by (auto simp: deposit_stmt_def stmt_bind_def stmt_write_def split: if_splits)
  have "balances_ok d1" using assms(2) by (simp add: d1 balances_ok_def user_exists_def)
  from credit_effect [OF c this] have "moves u amt 0 d1 d'" "db_holds d' = db_holds d1" by auto
  moreover have "db_balances d1 = db_balances d" "db_holds d1 = db_holds d" by (simp_all add: d1)
  ultimately show ?thesis using moves_cong [of d1 d d' d' u amt 0] by simp
qed

lemma backed_moves:
  assumes "backed d" and "moves u a s d d'" and "\<And>v. held d' v = held d v + (if v = u then s else 0)" and "db_ok d'"
  shows "funds d' = funds d + (a + s) \<and> backed d'"
  using assms by (simp add: backed_def moves_def)

lemma request_backed:
  assumes "create_withdrawal_stmt i now u amt d = Inr (r, d')" and "backed d" and "db_ok d'"
  shows "funds d' = funds d \<and> backed d'"
proof -
  have "balances_ok d" using assms(2) by (simp add: backed_def db_ok_def)
  from create_withdrawal_effect [OF assms(1) this] show ?thesis
  proof (elim disjE exE conjE)
    fix row
    assume "moves u (- amt) amt d d'" "db_holds d' = db_holds d @ [hold_of row]" "wd_user_id row = u" "wd_amount row = amt"
    with backed_moves [OF assms(2) _ _ assms(3), of u "- amt" amt] show ?thesis by (simp add: held_def hold_of_def)
  qed (use assms(2) in simp)
qed

lemma approve_backed:
  assumes "approve_stmt now i admin d = Inr (row, d')" and "backed d" and "db_ok d'"
  shows "funds d' = funds d - wd_amount row \<and> backed d'"
proof -
  have ok: "balances_ok d" "withdrawals_ok d" and res: "\<And>u. resv d u = held d u"
    using assms(2) by (simp_all add: backed_def db_ok_def)
  from approve_effect [OF assms(1) ok] obtain r where r: "find_withdrawal d i = Some r" "wd_status r = WdPending"
    "row = reviewed WdApproved admin now r"
    and mv: "moves (wd_user_id r) 0 (- min (resv d (wd_user_id r)) (wd_amount r)) d d'" by blast
  from pending_held [OF ok(2) r(1,2)] res have "min (resv d (wd_user_id r)) (wd_amount r) = wd_amount r" by simp
  with mv have "moves (wd_user_id r) 0 (- wd_amount r) d d'" by simp
  with backed_moves [OF assms(2) _ _ assms(3)] held_decided [OF ok(2) r(1,2) approve_holds [OF assms(1)]] r(3)
  show ?thesis by (auto simp: reviewed_def)
qed

lemma reject_backed:
  assumes "reject_stmt now i admin d = Inr (row, d')" and "backed d" and "db_ok d'"
  shows "funds d' = funds d \<and> backed d'"
proof -
  have ok: "balances_ok d" "withdrawals_ok d" and res: "\<And>u. resv d u = held d u"
    using assms(2) by (simp_all add: backed_def db_ok_def)
  from reject_effect [OF assms(1) ok] obtain r where r: "find_withdrawal d i = Some r" "wd_status r = WdPending"
    and mv: "find_balance d (wd_user_id r) \<noteq> None \<Longrightarrow>
      moves (wd_user_id r) (wd_amount r) (- min (resv d (wd_user_id r)) (wd_amount r)) d d'" by blast
  from pending_held [OF ok(2) r(1,2)] res
  have "min (resv d (wd_user_id r)) (wd_amount r) = wd_amount r" "0 < resv d (wd_user_id r)" by simp_all
  moreover from this(2) have "find_balance d (wd_user_id r) \<noteq> None" by (simp add: resv_def split: option.splits)
  ultimately have "moves (wd_user_id r) (wd_amount r) (- wd_amount r) d d'" using mv by simp
  with backed_moves [OF assms(2) _ _ assms(3)] held_decided [OF ok(2) r(1,2) reject_holds [OF assms(1)]]
  show ?thesis by auto
qed

text \<open>
  Without fills the reserved money of every user is what is held for their withdrawals, and the ledger grows
  by exactly what enters it.
\<close>

lemma money_step_backed:
  assumes "money_step d x d'" and "backed d"
  shows "funds d' = funds d + x \<and> backed d'"
proof -
  have ok: "db_ok d" "balances_ok d" and res: "\<And>u. resv d u = held d u"
    using assms(2) by (simp_all add: backed_def db_ok_def)
  have ok': "db_ok d'" using money_step_ok [OF assms(1)] assms(2) by (simp add: backed_def)
  from assms(1) show ?thesis
  proof cases
    case other
    with balances_only [OF other(3)] held_same [OF other(4)] assms(2) ok' show ?thesis by (simp add: backed_def)
  next
    case (credited u r)
    have c: "credit_stmt u x d = Inr ((), d')" using credited by simp
    from credit_effect [OF c ok(2)] have mv: "moves u x 0 d d'" and "db_holds d' = db_holds d" by auto
    from held_same [OF this(2)] backed_moves [OF assms(2) mv _ ok'] show ?thesis by simp
  next
    case (deposited u ref r)
    from deposit_effect [OF deposited ok(2)] have mv: "moves u x 0 d d'" and "db_holds d' = db_holds d" by simp_all
    from held_same [OF this(2)] backed_moves [OF assms(2) mv _ ok'] show ?thesis by simp
  next
    case (settled now m oc ps r)
    from settled(2) have "db_holds d' = db_holds d"
      by (elim settle_cases) (auto dest!: credits_frame update_markets_frame)
    from held_same [OF this] settle_stmt_effect [OF settled(2) ok(1)] settled(1) res ok' show ?thesis by (simp add: backed_def)
  next
    case requested
    with request_backed [OF requested(2) assms(2) ok'] show ?thesis by simp
  next
    case approved
    with approve_backed [OF approved(2) assms(2) ok'] show ?thesis by simp
  next
    case rejected
    with reject_backed [OF rejected(2) assms(2) ok'] show ?thesis by simp
  qed
qed

lemma empty_backed: "backed empty_db"
  by (simp add: backed_def db_ok_def users_ok_def markets_ok_def balances_ok_def orders_ok_def fills_ok_def
      positions_ok_def withdrawals_ok_def idem_ok_def empty_db_def resv_def find_balance_def held_def)

text \<open>
  C5: Without fills the books balance. In every run of the statements the services issue, however they interleave,
  all money of the ledger is what it was before plus what was deposited, credited and paid out by settlements minus
  what approved withdrawals took; the reserved money of each user is exactly what is held for the user's
  pending withdrawals, no amount is negative, and the tables keep their invariant.
\<close>
theorem books_balance_without_fills:
  assumes "money_run d x d'" and "backed d"
  shows "funds d' = funds d + x \<and> db_ok d' \<and>
    (\<forall>u. resv d' u = held d' u \<and> 0 \<le> avail d' u \<and> 0 \<le> held d' u)"
proof -
  have "funds d' = funds d + x \<and> backed d'"
    using assms by (induction rule: money_run.induct) (auto dest: money_step_backed)
  then show ?thesis
    by (auto simp: backed_def db_ok_def held_nonneg intro: avail_nonneg)
qed

definition funded_db :: db where
  "funded_db = empty_db\<lparr>db_users := sample_users,
     db_balances := [\<lparr>bal_user = 1, bal_available = 1000, bal_reserved = 0, bal_version = 0\<rparr>]\<rparr>"

definition requested_row :: withdrawal_row where
  "requested_row = \<lparr>wd_id = 5, wd_user_id = 1, wd_amount = 300, wd_status = WdPending, wd_reference = None,
     wd_reviewed_by = None, wd_reviewed_at = None, wd_created_at = 0\<rparr>"

definition requested_db :: db where
  "requested_db = funded_db
     \<lparr>db_balances := [\<lparr>bal_user = 1, bal_available = 700, bal_reserved = 300, bal_version = 1\<rparr>],
      db_withdrawals := [requested_row],
      db_holds := [\<lparr>hold_withdrawal = 5, hold_user = 1, hold_amount = 300\<rparr>]\<rparr>"

lemma funded_backed: "backed funded_db"
  by (simp add: backed_def db_ok_def users_ok_def markets_ok_def balances_ok_def orders_ok_def fills_ok_def
      positions_ok_def withdrawals_ok_def idem_ok_def funded_db_def empty_db_def resv_def find_balance_def held_def
      sample_users_def balance_ok_def i64_ok_def user_exists_def)

lemma request_run: "create_withdrawal_stmt 5 0 1 300 funded_db = Inr (Some requested_row, requested_db)"
  by code_simp

lemma approve_run: "case approve_stmt 0 5 9 requested_db of Inl e \<Rightarrow> False | Inr (row, d') \<Rightarrow> wd_amount row = 300"
  by code_simp

lemma books_balance_without_fills_witness:
  "\<exists>d'. money_run funded_db (- 300) d' \<and> funds d' = 700 \<and> (\<forall>u. resv d' u = held d' u)"
proof -
  obtain row d' where a: "approve_stmt 0 5 9 requested_db = Inr (row, d')" "wd_amount row = 300"
    using approve_run by (auto split: sum.splits)
  have "money_run funded_db (0 + 0) requested_db"
    by (rule money_run.more [OF money_run.start money_step.requested [OF request_run]])
  from money_run.more [OF this money_step.approved [OF a(1)]] a(2) have run: "money_run funded_db (- 300) d'" by simp
  have "funds funded_db = 1000" by (simp add: funds_def funded_db_def)
  with run books_balance_without_fills [OF run funded_backed] show ?thesis by auto
qed

section \<open>Fills\<close>

lemma apply_fill_funds:
  assumes run: "apply_fill_stmt b s c d = Inr (x, d')" and ok: "balances_ok d" and c: "0 \<le> c" and other: "b \<noteq> s"
  shows "funds d' = funds d - min (resv d b) c + (if find_balance d s = None then 0 else c - min (resv d s) c)"
proof -
  from run obtain n1 n2 d1 where sp: "spend_stmt b c d = Inr (n1, d1)" and rl: "release_stmt s c d1 = Inr (n2, d')"
    by (rule spend_release_ok)
  have ok1: "balances_ok d1" by (rule update_balances_oks(3) [OF sp ok])
  have m1: "moves b 0 (- min (resv d b) c) d d1"
    using spend_effect [OF sp ok] c moves_refl [of b d] by (auto simp: resv_def)
  have rows: "(find_balance d1 s = None) = (find_balance d s = None)"
    by (rule update_balances_rows [OF sp [unfolded spend_stmt_def] row_keys(3)])
  from m1 other have f1: "funds d1 = funds d - min (resv d b) c" "resv d1 s = resv d s" by (simp_all add: moves_def)
  from release_effect [OF rl ok1] have "d' = d1 \<and> find_balance d1 s = None \<or>
      find_balance d1 s \<noteq> None \<and> moves s c (- min (resv d1 s) c) d1 d'" by auto
  with f1 rows show ?thesis by (auto simp: moves_def)
qed

text \<open>
  The weaker invariant that fills keep too: what is reserved is at most what is held, because a fill takes from
  reserved money whatever it was reserved for.
\<close>

definition covered :: "db \<Rightarrow> bool" where
  "covered d \<longleftrightarrow> db_ok d \<and> (\<forall>u. resv d u \<le> held d u)"

lemma covered_moves:
  assumes "covered d" and "moves u a s d d'" and "db_ok d'" and "\<And>v. v \<noteq> u \<Longrightarrow> held d v \<le> held d' v"
    and "resv d u + s \<le> held d' u"
  shows "covered d'"
proof -
  have "resv d' v \<le> held d' v" for v
    using assms(1,2) assms(4) [of v] assms(5) by (cases "v = u") (auto simp: covered_def moves_def intro: order_trans)
  with assms(3) show ?thesis by (simp add: covered_def)
qed

lemma covered_decided:
  assumes "covered d" and "moves (wd_user_id r) a (- min (resv d (wd_user_id r)) (wd_amount r)) d d'" and "db_ok d'"
    and "find_withdrawal d i = Some r" and "wd_status r = WdPending"
    and "db_holds d' = filter (\<lambda>h. hold_withdrawal h \<noteq> i) (db_holds d)"
  shows "covered d'"
proof -
  have ok: "withdrawals_ok d" using assms(1) by (simp add: covered_def db_ok_def)
  have "resv d (wd_user_id r) \<le> held d (wd_user_id r)" using assms(1) by (simp add: covered_def)
  with pending_held [OF ok assms(4,5)] have "resv d (wd_user_id r) - min (resv d (wd_user_id r)) (wd_amount r)
      \<le> held d (wd_user_id r) - wd_amount r" by linarith
  with covered_moves [OF assms(1-3)] show ?thesis
    by (simp add: held_decided [OF ok assms(4-6)])
qed

lemma covered_same_resv:
  assumes "covered d" and "db_ok d'" and "\<And>u. resv d' u \<le> resv d u" and "held d' = held d"
  shows "covered d'"
  using assms order_trans by (fastforce simp: covered_def)

lemma reject_without_row:
  assumes run: "reject_stmt now i admin d = Inr (row, d')" and ok: "balances_ok d" and wok: "withdrawals_ok d"
    and r: "find_withdrawal d i = Some r" "find_balance d (wd_user_id r) = None"
  shows "db_balances d' = db_balances d"
proof -
  from run [unfolded reject_stmt_def] wok obtain r' n d1 d2 where r': "find_withdrawal d i = Some r'"
      "row = reviewed WdRejected admin now r'"
    and rl: "release_stmt (wd_user_id row) (wd_amount row) d1 = Inr (n, d2)"
    and eqs: "db_balances d1 = db_balances d" "db_users d1 = db_users d" "db_balances d' = db_balances d2"
    by (rule decide_cases) (use release_frame in auto)
  from ok eqs have ok1: "balances_ok d1" using balances_ok_cong by blast
  have "find_balance d1 (wd_user_id row) = None" using r r' eqs by (simp add: reviewed_def find_balance_def)
  with release_effect [OF rl ok1] eqs show ?thesis by auto
qed

lemma reject_covered:
  assumes "reject_stmt now i admin d = Inr (row, d')" and "covered d" and ok': "db_ok d'"
  shows "covered d'"
proof -
  have ok: "balances_ok d" "withdrawals_ok d" and res: "\<And>u. resv d u \<le> held d u"
    using assms(2) by (simp_all add: covered_def db_ok_def)
  from reject_effect [OF assms(1) ok] obtain r where r: "find_withdrawal d i = Some r" "wd_status r = WdPending"
    and mv: "find_balance d (wd_user_id r) \<noteq> None \<Longrightarrow>
      moves (wd_user_id r) (wd_amount r) (- min (resv d (wd_user_id r)) (wd_amount r)) d d'" by blast
  show ?thesis
  proof (cases "find_balance d (wd_user_id r) = None")
    case False
    from covered_decided [OF assms(2) mv [OF this] ok' r reject_holds [OF assms(1)]] show ?thesis .
  next
    case True
    have same: "resv d' u = resv d u" for u
      using balances_only [OF reject_without_row [OF assms(1) ok r(1) True]] by simp
    have "resv d' u \<le> held d' u" for u
    proof (cases "u = wd_user_id r")
      case u: True
      have "resv d u = 0" using True u by (simp add: resv_def)
      moreover have "0 \<le> held d' u" using ok' by (simp add: db_ok_def held_nonneg)
      ultimately show ?thesis by (simp add: same)
    next
      case False
      with res [of u] show ?thesis by (simp add: same held_decided [OF ok(2) r reject_holds [OF assms(1)]])
    qed
    with ok' show ?thesis by (simp add: covered_def)
  qed
qed

lemma money_step_covered:
  assumes "money_step d x d'" and "covered d"
  shows "covered d'"
proof -
  have db: "db_ok d" and ok: "balances_ok d" "withdrawals_ok d" and res: "\<And>u. resv d u \<le> held d u"
    using assms(2) by (simp_all add: covered_def db_ok_def)
  have ok': "db_ok d'" by (rule money_step_ok [OF assms(1) db])
  from assms(1) show ?thesis
  proof cases
    case other
    show ?thesis
      by (rule covered_same_resv [OF assms(2) ok' _ held_same [OF other(4)]]) (simp add: balances_only [OF other(3)])
  next
    case (credited u r)
    have c: "credit_stmt u x d = Inr ((), d')" using credited by simp
    from credit_effect [OF c ok(1)] have "moves u x 0 d d'" and h: "db_holds d' = db_holds d" by auto
    then show ?thesis
      by (intro covered_same_resv [OF assms(2) ok' _ held_same [OF h]]) (simp add: moves_def)
  next
    case (deposited u ref r)
    from deposit_effect [OF deposited ok(1)] have "moves u x 0 d d'" and h: "db_holds d' = db_holds d" by simp_all
    then show ?thesis
      by (intro covered_same_resv [OF assms(2) ok' _ held_same [OF h]]) (simp add: moves_def)
  next
    case (settled now m oc ps r)
    from settled(2) have h: "db_holds d' = db_holds d"
      by (elim settle_cases) (auto dest!: credits_frame update_markets_frame)
    show ?thesis
      by (rule covered_same_resv [OF assms(2) ok' _ held_same [OF h]]) (simp add: settle_stmt_effect [OF settled(2) db])
  next
    case (requested i now u amt r)
    from create_withdrawal_effect [OF requested(2) ok(1)] show ?thesis
    proof (elim disjE exE conjE)
      fix row
      assume "moves u (- amt) amt d d'" "db_holds d' = db_holds d @ [hold_of row]" "wd_user_id row = u" "wd_amount row = amt"
      with covered_moves [OF assms(2) _ ok', of u "- amt" amt] res show ?thesis by (simp add: held_def hold_of_def)
    qed (use assms(2) in simp)
  next
    case (approved now i admin row)
    then show ?thesis
      using approve_effect [OF approved(2) ok] covered_decided [OF assms(2) _ ok' _ _ approve_holds] by metis
  next
    case rejected
    show ?thesis by (rule reject_covered [OF rejected(2) assms(2) ok'])
  qed
qed

lemma apply_fill_covered:
  assumes run: "apply_fill_stmt b s c d = Inr (x, d')" and c: "0 \<le> c" and cov: "covered d"
  shows "covered d'"
proof -
  have ok: "balances_ok d" "db_ok d" using cov by (simp_all add: covered_def db_ok_def)
  from apply_fill_frame [OF run] have h: "db_holds d' = db_holds d" by auto
  have ok': "db_ok d'" by (rule db_step_ok [OF db_step.apply_fill [OF run] ok(2)])
  have "resv d' u \<le> resv d u" for u
    using apply_fill_effect [OF run ok(1) c] c resv_nonneg [OF ok(1), of u] by (auto simp: Let_def)
  from covered_same_resv [OF cov ok' this held_same [OF h]] show ?thesis .
qed

lemma api_step_covered: "api_step d d' \<Longrightarrow> covered d \<Longrightarrow> covered d'"
  by (induction rule: api_step.induct) (auto intro: money_step_covered apply_fill_covered)

interpretation coverage: kept_by_steps api_step covered
  by unfold_locales (rule api_step_covered)

text \<open>
  C6: Fills create money. When money was only ever reserved for withdrawals, a new fill between two users who have
  no pending withdrawal, processed without disturbance, adds its whole cost to the ledger: the maker is paid, and
  nothing is taken from the taker. In general a fill takes what it finds reserved of the two users, up to the cost
  from each and whatever it was reserved for, and adds the cost.
\<close>
theorem fills_create_money:
  assumes "api_step\<^sup>*\<^sup>* d0 d" and "covered d0" and "process_fill now e (online d) = (Inr (), w')"
    and "\<not> fill_known d (ev_market_id e, sint (ev_sequence e))"
    and "ev_taker_user_id e \<noteq> ev_maker_user_id e" and "find_balance d (ev_maker_user_id e) \<noteq> None"
    and "c = sint (fill_cost (Price (ev_price e)) (Quantity (ev_quantity e)))"
  shows "\<exists>d'. w' = online d' \<and> 0 \<le> c \<and>
    funds d' = funds d + c - min (resv d (ev_taker_user_id e)) c - min (resv d (ev_maker_user_id e)) c \<and>
    (held d (ev_taker_user_id e) = 0 \<and> held d (ev_maker_user_id e) = 0 \<longrightarrow> funds d' = funds d + c)"
proof -
  from coverage.run_keeps [OF assms(1,2)] have cov: "covered d" .
  then have ok: "balances_ok d" and le: "\<And>u. resv d u \<le> held d u" by (simp_all add: covered_def db_ok_def)
  from assms(4) have new: "\<not> fill_known d (fill_key (row_of_fill (event_fill now e)))" by (simp add: event_row)
  from assms(3) new show ?thesis
  proof (rule process_fill_success)
    fix d1 d2 d3 d4 t
    assume ins: "insert_fill_stmt (event_fill now e) d = Inr (Inserted, d1)"
      and money: "apply_fill_stmt (ev_taker_user_id e) (ev_maker_user_id e)
         (sint (fill_cost (Price (ev_price e)) (Quantity (ev_quantity e)))) d1 = Inr ((), d2)"
      and p1: "record_position_stmt (ev_fill_id e) (ev_taker_user_id e) (ev_market_id e) (sint (ev_quantity e)) d2 = Inr ((), d3)"
      and p2: "record_position_stmt (ev_fill_id e) (ev_maker_user_id e) (ev_market_id e) (sint (- ev_quantity e)) d3 = Inr ((), d4)"
      and w': "w' = online (d4\<lparr>db_orders := t\<rparr>)"
    from insert_fill_cases [OF ins] have d1: "d1 = d\<lparr>db_fills := db_fills d @ [row_of_fill (event_fill now e)]\<rparr>"
      and chk: "fill_check (row_of_fill (event_fill now e))" by auto
    have c: "0 \<le> c" unfolding assms(7) by (rule fill_cost_nonneg) (use chk in \<open>simp add: fill_check_def event_row\<close>)
    have ok1: "balances_ok d1" using ok by (simp add: d1 balances_ok_def user_exists_def)
    from record_position_effect [OF p1] record_position_effect [OF p2]
    have "funds (d4\<lparr>db_orders := t\<rparr>) = funds d2" by (auto simp: funds_def)
    moreover have "resv d1 = resv d" "funds d1 = funds d" "find_balance d1 = find_balance d"
      by (simp_all add: fun_eq_iff resv_def funds_def find_balance_def d1)
    moreover note apply_fill_funds [OF money [folded assms(7)] ok1 c assms(5)]
    ultimately have eq: "funds (d4\<lparr>db_orders := t\<rparr>) =
        funds d + c - min (resv d (ev_taker_user_id e)) c - min (resv d (ev_maker_user_id e)) c"
      using assms(6) by simp
    moreover have "resv d u = 0" if "held d u = 0" for u
      using le [of u] resv_nonneg [OF ok, of u] that by simp
    ultimately show ?thesis using w' c by (intro exI [of _ "d4\<lparr>db_orders := t\<rparr>"]) (auto simp: min_def)
  qed
qed

definition unreserved_db :: db where
  "unreserved_db = sample_db\<lparr>db_balances :=
     [\<lparr>bal_user = 1, bal_available = 1000, bal_reserved = 0, bal_version = 0\<rparr>,
      \<lparr>bal_user = 2, bal_available = 500, bal_reserved = 0, bal_version = 0\<rparr>]\<rparr>"

lemma unreserved_covered: "covered unreserved_db"
  by (auto simp: covered_def db_ok_def users_ok_def markets_ok_def balances_ok_def orders_ok_def fills_ok_def
      positions_ok_def withdrawals_ok_def idem_ok_def sample_defs balance_ok_def i64_ok_def
      order_check_def market_exists_def user_exists_def unreserved_db_def resv_def find_balance_def held_def)

lemma unreserved_fill_processed: "succeeds (process_fill 3 Fill_Processor.sample_event) (online unreserved_db)"
  by code_simp

lemma fills_create_money_witness:
  "\<exists>d'. process_fill 3 Fill_Processor.sample_event (online unreserved_db) = (Inr (), online d') \<and> funds d' = funds unreserved_db + 65"
proof -
  obtain w' where run: "process_fill 3 Fill_Processor.sample_event (online unreserved_db) = (Inr (), w')"
    using unreserved_fill_processed by (rule succeedsE) auto
  have new: "\<not> fill_known unreserved_db (ev_market_id Fill_Processor.sample_event, sint (ev_sequence Fill_Processor.sample_event))"
    by (simp add: fill_known_def unreserved_db_def sample_defs)
  have other: "ev_taker_user_id Fill_Processor.sample_event \<noteq> ev_maker_user_id Fill_Processor.sample_event"
    and row: "find_balance unreserved_db (ev_maker_user_id Fill_Processor.sample_event) \<noteq> None"
    and held: "held unreserved_db u = 0" for u
    by (simp_all add: Fill_Processor.sample_event_def find_balance_def unreserved_db_def held_def sample_defs)
  have "0 \<le> sint (quantity_raw (Quantity (ev_quantity Fill_Processor.sample_event)))" by (simp add: Fill_Processor.sample_event_def)
  from fill_cost_value [OF this, of "Price (ev_price Fill_Processor.sample_event)"]
  have cost: "65 = sint (fill_cost (Price (ev_price Fill_Processor.sample_event)) (Quantity (ev_quantity Fill_Processor.sample_event)))"
    by (simp add: Fill_Processor.sample_event_def)
  from fills_create_money [OF rtranclp.rtrancl_refl unreserved_covered run new other row cost] held run
  show ?thesis by auto
qed

end
