(* ===== verification/Service_Runs.thy ===== *)
theory Service_Runs
  imports Money Account_Flows
begin

text \<open>
  The services together. \<open>service_step\<close> has one rule for each statement some service issues: no service
  calls \<open>insert_order\<close>, \<open>place_order_atomic\<close>, \<open>reserve_balance\<close> or \<open>release_reservation\<close> of \<open>db/src\<close>.
  \<open>served\<close> is one request to a handler or one turn of the fill processor, over any link; every such
  request is shown to be a run of \<open>service_step\<close>.
\<close>

inductive service_step :: "db \<Rightarrow> db \<Rightarrow> bool" where
  insert_user: "insert_user_stmt i e p d = Inr (i', d') \<Longrightarrow> service_step d d'"
| audit: "audit_stmt u ac en ei me d = Inr (x, d') \<Longrightarrow> service_step d d'"
| claim_key: "claim_key_stmt now k d = Inr (n, d') \<Longrightarrow> service_step d d'"
| complete_key: "complete_key_stmt k resp d = Inr (x, d') \<Longrightarrow> service_step d d'"
| expire_keys: "expire_stmt now d = Inr (n, d') \<Longrightarrow> service_step d d'"
| insert_market: "insert_market_stmt i now t de ra d = Inr (m, d') \<Longrightarrow> service_step d d'"
| market_status: "update_markets k g (row_status s) d = Inr (n, d') \<Longrightarrow> service_step d d'"
| credit: "credit_stmt u amt d = Inr (x, d') \<Longrightarrow> service_step d d'"
| apply_fill: "apply_fill_stmt b s amt d = Inr (x, d') \<Longrightarrow> service_step d d'"
| settle: "settle_stmt now m oc ps d = Inr (x, d') \<Longrightarrow> service_step d d'"
| deposit: "deposit_stmt u amt ref d = Inr (x, d') \<Longrightarrow> service_step d d'"
| order_fill: "update_orders k g (row_fill now st n) d = Inr (r, d') \<Longrightarrow> service_step d d'"
| insert_fill: "insert_fill_stmt f d = Inr (out, d') \<Longrightarrow> service_step d d'"
| position: "record_position_stmt fi u m delta d = Inr (x, d') \<Longrightarrow> service_step d d'"
| create_withdrawal: "create_withdrawal_stmt i now u amt d = Inr (r, d') \<Longrightarrow> service_step d d'"
| approve: "approve_stmt now i admin d = Inr (w, d') \<Longrightarrow> service_step d d'"
| reject: "reject_stmt now i admin d = Inr (w, d') \<Longrightarrow> service_step d d'"

interpretation services: store_relation "service_step\<^sup>*\<^sup>*"
  by unfold_locales auto

section \<open>Every request is a run of these statements\<close>

lemma service_one_step: "(\<And>d a d'. s d = Inr (a, d') \<Longrightarrow> service_step d d') \<Longrightarrow> services.conforms s"
  by (rule services.conformsI) blast

lemma service_statements:
  "services.conforms (insert_user_stmt i e p)" "services.conforms (audit_stmt u ac en ei me)"
  "services.conforms (claim_key_stmt now k)" "services.conforms (complete_key_stmt k resp)"
  "services.conforms (expire_stmt now)" "services.conforms (insert_market_stmt i now t de ra)"
  "services.conforms (update_markets m g (row_status s))" "services.conforms (credit_stmt v amt)"
  "services.conforms (apply_fill_stmt b v amt)" "services.conforms (settle_stmt now m oc ps)"
  "services.conforms (deposit_stmt v amt ref)" "services.conforms (update_orders m h (row_fill now st n))"
  "services.conforms (insert_fill_stmt f)" "services.conforms (record_position_stmt fi v m delta)"
  "services.conforms (create_withdrawal_stmt i now v amt)" "services.conforms (approve_stmt now i admin)"
  "services.conforms (reject_stmt now i admin)"
  by (rule service_one_step, erule service_step.intros)+

lemma service_read: "(\<And>d a d'. s d = Inr (a, d') \<Longrightarrow> d' = d) \<Longrightarrow> services.conforms s"
  by (rule services.conformsI) (metis rtranclp.rtrancl_refl)

lemma service_fetch: "services.conforms (\<lambda>d. case q d of None \<Rightarrow> Inl e | Some r \<Rightarrow> Inr (f r, d))"
  by (rule service_read) (auto split: option.splits)

lemmas service_rules = service_fetch services.io_rules services.conforms_rules service_statements

lemma service_money_methods:
  "services.io_conforms (get_balance u)" "services.io_conforms (credit_balance u amt)"
  "services.io_conforms (insufficient u amt :: 'a io)"
  "services.io_conforms (apply_fill_balances u v amt)" "services.io_conforms (record_deposit u amt ref)"
  "services.io_conforms (apply_settlement_payouts now m oc ps)"
  unfolding insufficient_def get_balance_def credit_balance_def apply_fill_balances_def record_deposit_def
    apply_settlement_payouts_def
  by (auto intro!: service_rules)

lemma service_table_methods:
  "services.io_conforms (insert_market i now t de ra)" "services.io_conforms (get_market m)"
  "services.io_conforms (list_markets st)" "services.io_conforms (set_market_status m s)"
  "services.io_conforms (get_order oi)" "services.io_conforms (update_order_fill now oi so q)"
  "services.io_conforms (insert_fill_dedup f)" "services.io_conforms (record_position_change fi u m delta)"
  "services.io_conforms (get_user_positions qx m)"
  unfolding insert_market_def get_market_def list_markets_def set_market_status_def get_order_def
    update_order_fill_def order_or_missing_def insert_fill_dedup_def record_position_change_def get_user_positions_def
    Let_def
  by (auto intro!: service_rules intro: service_read split: option.splits sum.splits if_splits)

lemma service_user_methods:
  "services.io_conforms (insert_user i e p)" "services.io_conforms (get_user_by_email e)"
  "services.io_conforms (Db_Users.audit ou ac en ei me)"
  "services.io_conforms (claim_idempotency_key now u key)"
  "services.io_conforms (complete_idempotency_key u key resp)"
  "services.io_conforms (get_idempotency_response u key)" "services.io_conforms (expire_idempotency_keys now)"
  "services.io_conforms (create_withdrawal i now u amt)" "services.io_conforms (approve_withdrawal now i u)"
  "services.io_conforms (reject_withdrawal now i u)" "services.io_conforms (list_withdrawals ou sta n)"
  unfolding insert_user_def get_user_by_email_def audit_def claim_idempotency_key_def complete_idempotency_key_def
    get_idempotency_response_def expire_idempotency_keys_def user_or_missing_def create_withdrawal_def
    approve_withdrawal_def reject_withdrawal_def list_withdrawals_def Let_def
  by (auto intro!: service_rules service_money_methods intro: service_read split: option.splits)

lemmas service_methods = service_money_methods service_table_methods service_user_methods

lemma service_lift: "services.io_conforms (io_lift r)"
  by (auto simp: io_lift_def intro!: service_rules split: sum.splits)

lemma service_as_user: "(\<And>u. services.io_conforms (f u)) \<Longrightarrow> services.io_conforms (as_user env c f)"
  unfolding as_user_def by (intro services.io_conforms_bind service_lift)

lemmas service_handler_rules = service_as_user service_lift service_methods service_rules

lemma service_claimed: "services.io_conforms op \<Longrightarrow> services.io_conforms (claimed now fj msg u key op)"
  unfolding claimed_def after_claim_def
  by (auto intro!: service_handler_rules split: idempotency_status.splits option.splits sum.splits)

lemma service_accounts:
  "services.io_conforms (deposit env now fresh_key c header req)"
  "services.io_conforms (request_withdrawal env new_id now c amount)"
  "services.io_conforms (approve env now c i)" "services.io_conforms (reject env now c i)"
  "services.io_conforms (list_mine env c status n)" "services.io_conforms (list_all c status n)"
  "services.io_conforms (handle_balance env c)"
  unfolding deposit_def deposit_operation_def request_withdrawal_def approve_def reject_def list_mine_def list_all_def
    handle_balance_def Let_def
  by (auto intro!: service_claimed service_handler_rules)

lemma service_markets:
  "services.io_conforms (handle_list_markets status)" "services.io_conforms (handle_get_market i)"
  "services.io_conforms (handle_create_market env new_id now c ti de ra)"
  "services.io_conforms (handle_pause_market env c i)" "services.io_conforms (handle_reopen_market env c i)"
  "services.io_conforms (handle_settle_market qx env now c i out)" "services.io_conforms (market_cancel sh m u)"
  unfolding handle_list_markets_def handle_get_market_def handle_create_market_def handle_pause_market_def
    handle_reopen_market_def handle_settle_market_def market_create_def market_pause_def market_reopen_def
    market_cancel_def move_market_def settle_market_def Let_def
  by (auto intro!: service_handler_rules split: option.splits)

lemma service_users:
  "services.io_conforms (register_user env pw jwt salt new_id now email password)"
  "services.io_conforms (login env pw jwt now email password)"
  "services.io_conforms (health_check up)" "services.io_conforms (readiness_check up)"
  unfolding register_user_def login_def issue_io_def health_check_def readiness_check_def check_database_def ping_def Let_def
  by (auto intro!: service_handler_rules split: option.splits sum.splits)

lemma service_fills: "services.io_conforms (run_loop from_json msgs)" "services.io_conforms (process_fill now e)"
  unfolding run_loop_def handle_payload_def process_fill_def apply_fill_def update_fill_orders_def update_order_def Let_def
  by (auto intro!: service_handler_rules split: option.splits sum.splits insert_fill_outcome.splits)

text \<open>An order request talks to the exchange and to the key table only.\<close>

lemma service_order_operation:
  "order_operation oenv env call u key req s = Some (r, s') \<Longrightarrow> service_step\<^sup>*\<^sup>* (w_db (fst s)) (w_db (fst s'))"
  using services.io_conformsD [OF service_user_methods(5)]
  by (auto simp: order_operation_def split: sum.splits prod.splits bind_splits)

lemma service_place_order:
  assumes "place_order oenv env now fresh_key call c header req s = Some (r, s')"
  shows "service_step\<^sup>*\<^sup>* (w_db (fst s)) (w_db (fst s'))"
proof (cases "context_user (he_jwt env) c")
  case (Inl e)
  with assms show ?thesis by (simp add: place_order_def)
next
  case (Inr u)
  let ?key = "idem_key_of header fresh_key"
  obtain cl w where cl: "claim_idempotency_key now u ?key (fst s) = (cl, w)" by fastforce
  from services.io_conformsD [OF service_user_methods(4) this] have one: "service_step\<^sup>*\<^sup>* (w_db (fst s)) (w_db w)" .
  have two: "service_step\<^sup>*\<^sup>* (w_db w) (w_db w2)" if "get_idempotency_response u ?key w = (g, w2)" for g w2
    using services.io_conformsD [OF service_user_methods(6) that] .
  from assms Inr cl have "service_step\<^sup>*\<^sup>* (w_db w) (w_db (fst s'))"
    by (auto simp: place_order_def Let_def split: sum.splits idempotency_status.splits prod.splits option.splits
        dest!: service_order_operation two intro: rtranclp_trans)
  with one show ?thesis by simp
qed

section \<open>Runs of requests\<close>

inductive served :: "'d order_env \<Rightarrow> world \<Rightarrow> world \<Rightarrow> bool" for oenv where
  "served oenv w (snd (deposit env now fresh_key c header req w))"
| "served oenv w (snd (request_withdrawal env new_id now c amount w))"
| "served oenv w (snd (approve env now c i w))"
| "served oenv w (snd (reject env now c i w))"
| "served oenv w (snd (handle_create_market env new_id now c ti de ra w))"
| "served oenv w (snd (handle_pause_market env c i w))"
| "served oenv w (snd (handle_reopen_market env c i w))"
| "served oenv w (snd (handle_settle_market qx env now c i out w))"
| "served oenv w (snd (market_cancel sh m u w))"
| "served oenv w (snd (register_user env pw jwt salt new_id now email password w))"
| "served oenv w (snd (login env pw jwt now email password w))"
| "served oenv w (snd (process_fill now e w))"
| "served oenv w (snd (expire_idempotency_keys now w))"
| order: "place_order oenv env now fresh_key call c header req (w, svc) = Some (r, w', svc') \<Longrightarrow> served oenv w w'"
| online: "served oenv w (online (w_db w))"

lemma served_steps: "served oenv w w' \<Longrightarrow> service_step\<^sup>*\<^sup>* (w_db w) (w_db w')"
proof (induction rule: served.induct)
  case (order env now fresh_key call c header req w svc r w' svc')
  from service_place_order [OF this] show ?case by simp
qed (use service_accounts service_markets service_users service_fills service_user_methods in
  \<open>simp_all only: services.io_conforms_def online_db rtranclp.rtrancl_refl\<close>)

lemma served_run_steps: "(served oenv)\<^sup>*\<^sup>* w w' \<Longrightarrow> service_step\<^sup>*\<^sup>* (w_db w) (w_db w')"
  by (induction rule: rtranclp_induct) (auto dest: served_steps)

lemma service_step_db: "service_step d d' \<Longrightarrow> db_step d d'"
  by (induction rule: service_step.induct) (blast intro: db_step.intros)+
section \<open>No fill is ever recorded\<close>

text \<open>No statement of the services adds an order, so the reference of a fill to its orders always fails.\<close>

definition unfilled :: "db \<Rightarrow> bool" where
  "unfilled d \<longleftrightarrow> db_orders d = [] \<and> db_fills d = [] \<and> db_positions d = []"

lemma unfilled_insert_fill:
  assumes "unfilled d"
  shows "\<exists>err. insert_fill_stmt f d = Inl err"
  using assms
  by (cases "insert_fill_stmt f d")
    (auto simp: unfilled_def fill_known_def fill_refs_def order_exists_def dest!: insert_fill_cases)

lemma unfilled_position:
  assumes "unfilled d"
  shows "record_position_stmt fi u m delta d \<noteq> Inr (x, d')"
  using assms by (auto simp: unfilled_def record_position_stmt_def stmt_write_def fill_exists_def)

lemma unfilled_frame: "unfilled d \<Longrightarrow> db_orders d' = db_orders d \<Longrightarrow> db_fills d' = db_fills d \<Longrightarrow>
    db_positions d' = db_positions d \<Longrightarrow> unfilled d'"
  by (simp add: unfilled_def)

lemma decision_frames:
  assumes "stmt_bind (review_stmt s now i admin) (\<lambda>row. stmt_bind (m row) (\<lambda>_ :: nat.
      stmt_bind (delete_hold_stmt i) (\<lambda>_. stmt_return row))) d = Inr (row, d')"
    and "\<And>d n d'. m row d = Inr (n, d') \<Longrightarrow> \<exists>t. d' = d\<lparr>db_balances := t\<rparr>"
  shows "db_orders d' = db_orders d \<and> db_fills d' = db_fills d \<and> db_positions d' = db_positions d"
proof -
  from assms(1) obtain d1 n d2 where rev: "review_stmt s now i admin d = Inr (row, d1)" and m: "m row d1 = Inr (n, d2)"
    and d': "d' = d2\<lparr>db_holds := filter (\<lambda>h. hold_withdrawal h \<noteq> i) (db_holds d2)\<rparr>"
    by (auto simp: stmt_defs delete_hold_stmt_def split: sum.splits)
  have "db_orders d1 = db_orders d \<and> db_fills d1 = db_fills d \<and> db_positions d1 = db_positions d"
    using rev by (auto simp: review_stmt_def stmt_defs Let_def split: sum.splits option.splits if_splits)
  moreover from assms(2) [OF m] have "db_orders d2 = db_orders d1 \<and> db_fills d2 = db_fills d1 \<and> db_positions d2 = db_positions d1"
    by auto
  ultimately show ?thesis by (simp add: d')
qed

lemma unfilled_decisions:
  "approve_stmt now i admin d = Inr (row, d') \<Longrightarrow> unfilled d \<Longrightarrow> unfilled d'"
  "reject_stmt now i admin d = Inr (row, d') \<Longrightarrow> unfilled d \<Longrightarrow> unfilled d'"
  unfolding approve_stmt_def reject_stmt_def
  by (drule decision_frames; auto dest: spend_frame release_frame intro: unfilled_frame)+

lemma unfilled_request:
  assumes "create_withdrawal_stmt i now u amt d = Inr (r, d')" and "unfilled d"
  shows "unfilled d'"
proof -
  from assms(1) obtain n d1 where res: "reserve_stmt u amt d = Inr (n, d1)"
    and rest: "d' = d1 \<or> (\<exists>w h. d' = d1\<lparr>db_withdrawals := db_withdrawals d1 @ [w], db_holds := h\<rparr>)"
    by (auto simp: create_withdrawal_stmt_def insert_withdrawal_stmt_def insert_hold_stmt_def
        stmt_defs Let_def split: sum.splits if_splits option.splits) blast+
  from reserve_frame [OF res] assms(2) have "unfilled d1" by (auto simp: unfilled_def)
  with rest show ?thesis by (auto simp: unfilled_def)
qed

lemma unfilled_orders: "update_orders k g h d = Inr (r, d') \<Longrightarrow> unfilled d \<Longrightarrow> unfilled d'"
  by (auto simp: unfilled_def update_orders_def stmt_write_def split: option.splits)

lemma unfilled_credit: "credit_stmt u amt d = Inr (x, d') \<Longrightarrow> unfilled d \<Longrightarrow> unfilled d'"
  by (auto dest!: credit_frame simp: unfilled_def)

lemma unfilled_deposit:
  assumes "deposit_stmt u amt ref d = Inr (x, d')" and "unfilled d"
  shows "unfilled d'"
proof -
  from assms(1) obtain r d1 where "d1 = d\<lparr>db_deposits := db_deposits d @ r\<rparr>" and "credit_stmt u amt d1 = Inr ((), d')"
    by (auto simp: deposit_stmt_def stmt_bind_def stmt_write_def split: if_splits)
  with assms(2) unfilled_credit show ?thesis by (auto simp: unfilled_def)
qed

lemma unfilled_tables:
  "insert_user_stmt i e p d = Inr (i', d') \<Longrightarrow> unfilled d \<Longrightarrow> unfilled d'"
  "audit_stmt u ac en ei me d = Inr (x, d') \<Longrightarrow> unfilled d \<Longrightarrow> unfilled d'"
  "claim_key_stmt now k d = Inr (n, d') \<Longrightarrow> unfilled d \<Longrightarrow> unfilled d'"
  "complete_key_stmt k resp d = Inr (x, d') \<Longrightarrow> unfilled d \<Longrightarrow> unfilled d'"
  "expire_stmt now d = Inr (n, d') \<Longrightarrow> unfilled d \<Longrightarrow> unfilled d'"
  "insert_market_stmt i now t de ra d = Inr (m, d') \<Longrightarrow> unfilled d \<Longrightarrow> unfilled d'"
  "update_markets k' g (row_status s) d = Inr (n, d') \<Longrightarrow> unfilled d \<Longrightarrow> unfilled d'"
  "apply_fill_stmt b v amt d = Inr (x, d') \<Longrightarrow> unfilled d \<Longrightarrow> unfilled d'"
  "settle_stmt now m' oc ps d = Inr (x, d') \<Longrightarrow> unfilled d \<Longrightarrow> unfilled d'"
  by (auto simp: insert_user_stmt_def audit_stmt_def claim_key_stmt_def complete_key_stmt_def expire_stmt_def
      insert_market_stmt_def stmt_write_def Let_def unfilled_def
      dest!: update_markets_frame apply_fill_frame credits_frame elim!: settle_cases split: if_splits option.splits)

lemmas unfilled_rules = unfilled_tables unfilled_decisions unfilled_request unfilled_orders unfilled_credit unfilled_deposit

lemma service_step_unfilled: "service_step d d' \<Longrightarrow> unfilled d \<Longrightarrow> unfilled d'"
proof (induction rule: service_step.induct)
  case (insert_fill f d out d')
  with unfilled_insert_fill [of d f] show ?case by auto
next
  case (position fi u m delta d x d')
  with unfilled_position show ?case by blast
qed (blast intro: unfilled_rules)+

interpretation never_filled: kept_by_steps service_step unfilled
  by unfold_locales (rule service_step_unfilled)

text \<open>
  C7: No fill is ever recorded. However the requests of the services and the fill events are mixed, over any link,
  a database that starts empty never holds an order, a fill or a position: no service stores an order, and a fill
  refers to its orders. Every fill event fails and changes nothing.
\<close>
theorem fills_never_recorded:
  assumes "(served oenv)\<^sup>*\<^sup>* w0 w" and "w_db w0 = empty_db"
  shows "db_orders (w_db w) = [] \<and> db_fills (w_db w) = [] \<and> db_positions (w_db w) = [] \<and>
    (\<exists>err. process_fill now e (online (w_db w)) = (Inl err, online (w_db w)))"
proof -
  have "unfilled empty_db" by (simp add: unfilled_def empty_db_def)
  moreover from served_run_steps [OF assms(1)] have "service_step\<^sup>*\<^sup>* empty_db (w_db w)" by (simp add: assms(2))
  ultimately have none: "unfilled (w_db w)" using never_filled.run_keeps by blast
  from unfilled_insert_fill [OF none] obtain err where "insert_fill_stmt (event_fill now e) (w_db w) = Inl err" by blast
  then have "process_fill now e (online (w_db w)) = (Inl err, online (w_db w))"
    by (simp add: process_fill_def Let_def insert_fill_dedup_def io_defs db_run_online)
  with none show ?thesis by (simp add: unfilled_def)
qed

definition registered_world :: world where
  "registered_world = snd (register_user account_env plain_passwords \<lparr>jwt_secret = ''k'', jwt_ttl_secs = 3600\<rparr> ''salt'' 51 0
     ''c@d'' ''password'' (online empty_db))"

lemma registered_users: "map usr_id (db_users (w_db registered_world)) = [51]"
  by code_simp

lemma registered_served: "(served sample_order_env)\<^sup>*\<^sup>* (online empty_db) registered_world"
  unfolding registered_world_def by (rule r_into_rtranclp) (rule served.intros)

lemma fills_never_recorded_witness:
  "map usr_id (db_users (w_db registered_world)) = [51] \<and> db_fills (w_db registered_world) = [] \<and>
   (\<exists>err. process_fill 3 Fill_Processor.sample_event (online (w_db registered_world)) = (Inl err, online (w_db registered_world)))"
  using fills_never_recorded [OF registered_served online_db, of 3 Fill_Processor.sample_event] registered_users by blast

text \<open>
  C3: The ledger stays sound under every mix of requests, over any link: no available or reserved amount becomes negative,
  the holds are exactly those of the pending withdrawals, the tables keep their keys and references, a decided
  withdrawal keeps its decision, and fills, positions and deposits are only ever appended.
\<close>
theorem services_keep_ledger:
  assumes "(served oenv)\<^sup>*\<^sup>* w w'" and "db_ok (w_db w)"
  shows "db_ok (w_db w') \<and> (\<forall>u. 0 \<le> avail (w_db w') u \<and> 0 \<le> resv (w_db w') u) \<and>
    db_holds (w_db w') = map hold_of (filter (\<lambda>r. wd_status r = WdPending) (db_withdrawals (w_db w'))) \<and>
    (\<forall>i r. find_withdrawal (w_db w) i = Some r \<and> wd_status r \<noteq> WdPending \<longrightarrow> find_withdrawal (w_db w') i = Some r) \<and>
    (\<exists>fs ps ds. db_fills (w_db w') = db_fills (w_db w) @ fs \<and> db_positions (w_db w') = db_positions (w_db w) @ ps \<and>
       db_deposits (w_db w') = db_deposits (w_db w) @ ds)"
proof -
  have run: "db_step\<^sup>*\<^sup>* (w_db w) (w_db w')"
    using served_run_steps [OF assms(1)] by (induction rule: rtranclp_induct) (auto dest: service_step_db)
  from ledger.run_keeps [OF run assms(2)] have ok: "db_ok (w_db w')" .
  from run_history [OF run] ok show ?thesis
    by (auto simp: history_def extends_def db_ok_def withdrawals_ok_def intro: avail_nonneg resv_nonneg)
qed

lemma services_keep_ledger_witness:
  "db_ok (w_db registered_world) \<and> 0 \<le> avail (w_db registered_world) 51"
proof -
  have "db_ok (w_db (online empty_db))" using empty_backed by (simp add: backed_def)
  from services_keep_ledger [OF registered_served this] show ?thesis by blast
qed

end
