(* ===== verification/Account_Book.thy ===== *)
theory Account_Book
  imports Money
begin

text \<open>
  What the ledger promises its users, without tables: everyone has an amount to spend, and pending withdrawals
  have an owner and an amount that is set aside. The statements of the services other than fills implement it.
\<close>

record account_book =
  ab_free :: "uuid \<Rightarrow> int"
  ab_pending :: "uuid \<Rightarrow> (uuid \<times> int) option"

inductive book_step :: "account_book \<Rightarrow> account_book \<Rightarrow> bool" where
  pay_in: "\<forall>u. 0 \<le> x u \<Longrightarrow> book_step b (b\<lparr>ab_free := \<lambda>u. ab_free b u + x u\<rparr>)"
| request: "0 < a \<Longrightarrow> a \<le> ab_free b u \<Longrightarrow> ab_pending b i = None \<Longrightarrow>
    book_step b (b\<lparr>ab_free := (ab_free b)(u := ab_free b u - a), ab_pending := (ab_pending b)(i \<mapsto> (u, a))\<rparr>)"
| pay_out: "ab_pending b i = Some (u, a) \<Longrightarrow> book_step b (b\<lparr>ab_pending := (ab_pending b)(i := None)\<rparr>)"
| give_back: "ab_pending b i = Some (u, a) \<Longrightarrow>
    book_step b (b\<lparr>ab_free := (ab_free b)(u := ab_free b u + a), ab_pending := (ab_pending b)(i := None)\<rparr>)"

definition pending_of :: "db \<Rightarrow> uuid \<Rightarrow> (uuid \<times> int) option" where
  "pending_of d i = map_option (\<lambda>h. (hold_user h, hold_amount h)) (find (\<lambda>h. hold_withdrawal h = i) (db_holds d))"

definition account_book_of :: "db \<Rightarrow> account_book" where
  "account_book_of d = \<lparr>ab_free = avail d, ab_pending = pending_of d\<rparr>"

lemma pending_same: "db_holds d' = db_holds d \<Longrightarrow> pending_of d' = pending_of d"
  by (simp add: pending_of_def fun_eq_iff)

lemma find_without: "find (\<lambda>h. hold_withdrawal h = k) (filter (\<lambda>h. hold_withdrawal h \<noteq> i) hs) =
    (if k = i then None else find (\<lambda>h. hold_withdrawal h = k) hs)"
  by (induction hs) auto

lemma pending_decided:
  "db_holds d' = filter (\<lambda>h. hold_withdrawal h \<noteq> i) (db_holds d) \<Longrightarrow> pending_of d' = (pending_of d)(i := None)"
  by (simp add: pending_of_def fun_eq_iff find_without)

lemma pending_requested:
  assumes "db_holds d' = db_holds d @ [hold_of row]" and "wd_id row \<notin> set (map hold_withdrawal (db_holds d))"
  shows "pending_of d' = (pending_of d)(wd_id row \<mapsto> (wd_user_id row, wd_amount row)) \<and> pending_of d (wd_id row) = None"
proof -
  have none: "find (\<lambda>h. hold_withdrawal h = wd_id row) (db_holds d) = None"
    using assms(2) by (force simp: find_None_iff)
  have "find P (hs @ [h]) = (case find P hs of None \<Rightarrow> if P h then Some h else None | Some x \<Rightarrow> Some x)"
    for P hs and h :: hold_row
    by (induction hs) auto
  with none assms(1) show ?thesis
    by (auto simp: pending_of_def fun_eq_iff hold_of_def split: option.splits)
qed

text \<open>A pending withdrawal is in the book.\<close>

lemma pending_found:
  assumes "withdrawals_ok d" and "find_withdrawal d i = Some r" and "wd_status r = WdPending"
  shows "pending_of d i = Some (wd_user_id r, wd_amount r)"
proof -
  have r: "r \<in> set (db_withdrawals d)" "wd_id r = i" using find_withdrawal_id [OF assms(2)] by auto
  have holds: "db_holds d = map hold_of (filter (\<lambda>r. wd_status r = WdPending) (db_withdrawals d))"
    and dist: "distinct (map wd_id (db_withdrawals d))" using assms(1) by (simp_all add: withdrawals_ok_def)
  from r holds assms(3) have "find (\<lambda>h. hold_withdrawal h = i) (db_holds d) \<noteq> None"
    by (auto simp: find_None_iff hold_of_def)
  then obtain h where h: "find (\<lambda>h. hold_withdrawal h = i) (db_holds d) = Some h" by blast
  then obtain r' where "r' \<in> set (db_withdrawals d)" "h = hold_of r'" "wd_id r' = i"
    using holds by (auto dest!: find_SomeD simp: hold_of_def)
  moreover from this r dist have "r' = r" by (metis distinct_map inj_on_def)
  ultimately show ?thesis using h by (simp add: pending_of_def hold_of_def)
qed

lemma credits_nonneg:
  "stmt_iterate (\<lambda>(u, amt). credit_stmt (user_uuid u) (sint amt)) ps d = Inr (x, d') \<Longrightarrow> balances_ok d \<Longrightarrow>
     (u, a) \<in> set ps \<Longrightarrow> 0 \<le> sint a"
proof (induction ps arbitrary: d)
  case (Cons p ps)
  obtain v b where p: "p = (v, b)" by (cases p)
  with Cons.prems obtain d1 where c: "credit_stmt (user_uuid v) (sint b) d = Inr ((), d1)"
    and rest: "stmt_iterate (\<lambda>(u, amt). credit_stmt (user_uuid u) (sint amt)) ps d1 = Inr (x, d')"
    by (auto simp: stmt_bind_def split: sum.splits)
  from Cons.IH [OF rest credit_ok [OF c Cons.prems(2)]] credit_effect [OF c Cons.prems(2)] Cons.prems(3) p
  show ?case by auto
qed simp

lemma book_pays_in:
  assumes "\<And>v. avail d' v = avail d v + x v" and "db_holds d' = db_holds d" and "\<And>v. 0 \<le> x v"
  shows "book_step (account_book_of d) (account_book_of d')"
proof -
  have "avail d' = (\<lambda>v. avail d v + x v)" using assms(1) by (rule ext)
  with book_step.pay_in [of x "account_book_of d"] assms(3) pending_same [OF assms(2)] show ?thesis by (simp add: account_book_of_def)
qed

definition ledger_step :: "db \<Rightarrow> db \<Rightarrow> bool" where
  "ledger_step d d' \<longleftrightarrow> (\<exists>x. money_step d x d')"

lemma request_in_book:
  assumes "create_withdrawal_stmt i now u amt d = Inr (r, d')" and "balances_ok d"
  shows "book_step\<^sup>*\<^sup>* (account_book_of d) (account_book_of d')"
  using create_withdrawal_effect [OF assms]
proof (elim disjE exE conjE)
  fix row
  assume row: "wd_id row = i" "wd_user_id row = u" "wd_amount row = amt" "0 < amt" "amt \<le> avail d u"
    and i: "i \<notin> set (map hold_withdrawal (db_holds d))"
    and mv: "moves u (- amt) amt d d'" and h: "db_holds d' = db_holds d @ [hold_of row]"
  have "avail d' = (avail d)(u := avail d u - amt)" using mv by (auto simp: moves_def)
  moreover have "pending_of d' = (pending_of d)(i \<mapsto> (u, amt))" "pending_of d i = None"
    using pending_requested [OF h] i row by auto
  ultimately have "book_step (account_book_of d) (account_book_of d')"
    using book_step.request [of amt "account_book_of d" u i] row by (simp add: account_book_of_def)
  then show ?thesis by (rule r_into_rtranclp)
qed simp

lemma decision_in_book:
  assumes run: "approve_stmt now i admin d = Inr (row, d') \<or> reject_stmt now i admin d = Inr (row, d')" and "backed d"
  shows "book_step (account_book_of d) (account_book_of d')"
proof -
  have ok: "balances_ok d" "withdrawals_ok d" and res: "\<And>u. resv d u = held d u"
    using assms(2) by (simp_all add: backed_def db_ok_def)
  from run show ?thesis
  proof
    assume a: "approve_stmt now i admin d = Inr (row, d')"
    from approve_effect [OF a ok] obtain r where r: "find_withdrawal d i = Some r" "wd_status r = WdPending"
      and "moves (wd_user_id r) 0 (- min (resv d (wd_user_id r)) (wd_amount r)) d d'" by blast
    then have "avail d' = avail d" by (auto simp: moves_def)
    with book_step.pay_out [of "account_book_of d" i] pending_found [OF ok(2) r] pending_decided [OF approve_holds [OF a]]
    show ?thesis by (simp add: account_book_of_def)
  next
    assume a: "reject_stmt now i admin d = Inr (row, d')"
    from reject_effect [OF a ok] obtain r where r: "find_withdrawal d i = Some r" "wd_status r = WdPending"
      and mv: "find_balance d (wd_user_id r) \<noteq> None \<Longrightarrow>
        moves (wd_user_id r) (wd_amount r) (- min (resv d (wd_user_id r)) (wd_amount r)) d d'" by blast
    from pending_held [OF ok(2) r] res have "0 < resv d (wd_user_id r)" by simp
    then have "find_balance d (wd_user_id r) \<noteq> None" by (simp add: resv_def split: option.splits)
    from mv [OF this] have "avail d' = (avail d)(wd_user_id r := avail d (wd_user_id r) + wd_amount r)"
      by (auto simp: moves_def)
    with book_step.give_back [of "account_book_of d" i] pending_found [OF ok(2) r] pending_decided [OF reject_holds [OF a]]
    show ?thesis by (simp add: account_book_of_def)
  qed
qed

lemma settlement_in_book:
  assumes "settle_stmt now m oc ps d = Inr (x, d')" and "db_ok d"
  shows "book_step (account_book_of d) (account_book_of d')"
proof (rule book_pays_in)
  let ?x = "\<lambda>v. \<Sum>(u, a)\<leftarrow>ps. if user_uuid u = v then sint a else 0"
  show "avail d' v = avail d v + ?x v" for v using settle_stmt_effect [OF assms] by blast
  show "db_holds d' = db_holds d"
    using assms(1) by (elim settle_cases) (auto dest!: credits_frame update_markets_frame)
  have "0 \<le> sint a" if "(u, a) \<in> set ps" for u a
    using assms(1)
  proof (cases rule: settle_cases)
    case (1 n d1)
    from update_markets_frame [OF 1(1)] assms(2) have "balances_ok d1" by (auto simp: db_ok_def balances_ok_def user_exists_def)
    from credits_nonneg [OF 1(2) this that] show ?thesis .
  qed
  then show "0 \<le> ?x v" for v by (intro sum_list_nonneg) auto
qed

lemma money_step_in_book:
  assumes "money_step d x d'" and "backed d"
  shows "book_step\<^sup>*\<^sup>* (account_book_of d) (account_book_of d')"
proof -
  have db: "db_ok d" "balances_ok d" using assms(2) by (simp_all add: backed_def db_ok_def)
  have pays: "book_step (account_book_of d) (account_book_of d')" if "moves u a 0 d d'" "0 \<le> a" "db_holds d' = db_holds d" for u a
    using that by (intro book_pays_in [where x = "\<lambda>v. if v = u then a else 0"]) (auto simp: moves_def)
  from assms(1) show ?thesis
  proof cases
    case other
    have "account_book_of d' = account_book_of d"
      by (simp add: account_book_of_def pending_same [OF other(4)] balances_only [OF other(3)])
    then show ?thesis by simp
  next
    case (credited u r)
    have c: "credit_stmt u x d = Inr ((), d')" using credited by simp
    from credit_effect [OF c db(2)] have "moves u x 0 d d'" "0 \<le> x" "db_holds d' = db_holds d" by auto
    from r_into_rtranclp [of book_step, OF pays [OF this]] show ?thesis .
  next
    case (deposited u ref r)
    then have "0 \<le> x" by (auto simp: deposit_stmt_def stmt_bind_def stmt_write_def split: if_splits)
    with deposit_effect [OF deposited db(2)] have "book_step (account_book_of d) (account_book_of d')" by (auto intro: pays)
    then show ?thesis by (rule r_into_rtranclp)
  next
    case settled
    from settlement_in_book [OF settled(2) db(1)] show ?thesis by (rule r_into_rtranclp)
  next
    case requested
    from request_in_book [OF requested(2) db(2)] show ?thesis .
  next
    case approved
    with decision_in_book [OF _ assms(2)] show ?thesis by blast
  next
    case rejected
    with decision_in_book [OF _ assms(2)] show ?thesis by blast
  qed
qed

interpretation ledger_book: step_simulation ledger_step backed book_step account_book_of
proof
  fix d d'
  assume "backed d" and "ledger_step d d'"
  then show "backed d'" and "book_step\<^sup>*\<^sup>* (account_book_of d) (account_book_of d')"
    using money_step_backed money_step_in_book by (auto simp: ledger_step_def)
qed

text \<open>
  C4: The tables implement an account book. However the statements of the services interleave, as long as no fill
  moves money, each of them is a step of a book in which everyone has an amount to spend and each pending withdrawal
  its owner and amount: paying in, setting aside for a withdrawal what the user has, paying it out once, or giving
  it back once; and the reserved column is what the book has set aside.
\<close>
theorem ledger_implements_account_book:
  assumes "ledger_step\<^sup>*\<^sup>* d d'" and "backed d"
  shows "book_step\<^sup>*\<^sup>* (account_book_of d) (account_book_of d') \<and> (\<forall>u. resv d' u = held d' u)"
  using ledger_book.run_simulates [OF assms] ledger_book.run_keeps [OF assms] by (simp add: backed_def)

lemma ledger_implements_account_book_witness:
  "book_step\<^sup>*\<^sup>* (account_book_of funded_db) (account_book_of requested_db) \<and> ab_pending (account_book_of requested_db) 5 = Some (1, 300)"
proof
  have "ledger_step\<^sup>*\<^sup>* funded_db requested_db"
    by (rule r_into_rtranclp) (use money_step.requested [OF request_run] in \<open>auto simp: ledger_step_def\<close>)
  from ledger_implements_account_book [OF this funded_backed]
  show "book_step\<^sup>*\<^sup>* (account_book_of funded_db) (account_book_of requested_db)" by blast
  show "ab_pending (account_book_of requested_db) 5 = Some (1, 300)"
    by (simp add: account_book_of_def pending_of_def requested_db_def)
qed

end
