(* ===== verification/Stored_Orders.thy ===== *)
theory Stored_Orders
  imports Db_Ledger
begin

text \<open>
  The types of \<open>common/src/types.rs\<close> as the database keeps them: what the constraints of the tables make of an
  order that is read back, whatever was stored or updated before.
\<close>

definition order_typed :: "order \<Rightarrow> bool" where
  "order_typed o' \<longleftrightarrow>
     0 < unat (quantity_raw (ord_quantity o')) \<and> unat (quantity_raw (ord_quantity o')) < 2 ^ 63 \<and>
     unat (quantity_raw (ord_filled o')) \<le> unat (quantity_raw (ord_quantity o')) \<and>
     (\<forall>p. ord_price o' = Some p \<longrightarrow> 0 < unat (price_raw p) \<and> unat (price_raw p) < 10000) \<and>
     (ord_kind o' = LimitOrder \<longrightarrow> ord_price o' \<noteq> None)"

lemma unat_of_small: "0 \<le> n \<Longrightarrow> n < 2 ^ LENGTH('w) \<Longrightarrow> unat (word_of_int n :: 'w::len word) = nat n"
  by (simp add: unsigned_of_int take_bit_int_eq_self)

lemma order_of_row_typed:
  assumes "order_check r"
  shows "order_typed (order_of_row r)"
proof -
  from assms have q: "0 < orow_quantity r" "orow_quantity r < 2 ^ 63" "0 \<le> orow_filled_quantity r"
    "orow_filled_quantity r \<le> orow_quantity r" by (auto simp: order_check_def i64_ok_def)
  then have "unat (word_of_int (orow_quantity r) :: u64) = nat (orow_quantity r)"
    "unat (word_of_int (orow_filled_quantity r) :: u64) = nat (orow_filled_quantity r)"
    by (auto intro!: unat_of_small)
  moreover have "unat (word_of_int p :: u32) = nat p \<and> 0 < p \<and> p < 10000" if "orow_price r = Some p" for p
    using assms that unat_of_small [of p, where 'w = 32] by (simp add: order_check_def)
  ultimately show ?thesis
    using q assms by (auto simp: order_typed_def order_of_row_def order_check_def)
qed

lemma found_order_typed: "orders_ok d \<Longrightarrow> find_order d k = Some r \<Longrightarrow> order_typed (order_of_row r) \<and> orow_id r = k"
  by (auto simp: find_order_def orders_ok_def intro: order_of_row_typed dest!: find_SomeD)

lemma row_in_order: "r \<in> set (db_orders d) \<Longrightarrow> orders_ok d \<Longrightarrow> order_typed (order_of_row r)"
  by (simp add: orders_ok_def order_of_row_typed)

lemma order_or_missing_answered: "order_or_missing i r w = (Inr o', w') \<Longrightarrow> \<exists>row. r = Some row \<and> o' = order_of_row row \<and> w' = w"
  by (auto simp: order_or_missing_def io_defs split: option.splits)

lemma get_order_typed:
  assumes "get_order i w = (Inr o', w')" and "orders_ok (w_db w)"
  shows "order_typed o' \<and> ord_id o' = i"
proof -
  from assms(1) [unfolded get_order_def] obtain r w1 where "db_run (stmt_query (\<lambda>d. find_order d (order_uuid i))) w = (Inr r, w1)"
    "order_or_missing i r w1 = (Inr o', w')" by (rule bind_answered)
  from db_run_Inr [OF this(1)] order_or_missing_answered [OF this(2)]
  obtain row where "find_order (w_db w) (order_uuid i) = Some row" "o' = order_of_row row"
    by (auto simp: stmt_query_def)
  with found_order_typed [OF assms(2)] show ?thesis by (cases i) (auto simp: order_of_row_def)
qed

lemma cancel_order_typed:
  assumes "cancel_order now i u w = (Inr o', w')" and "orders_ok (w_db w)"
  shows "order_typed o' \<and> ord_id o' = i \<and> ord_user_id o' = u \<and> ord_status o' = OrdCancelled"
proof -
  from assms(1) [unfolded cancel_order_def] obtain r w1 where
    run: "db_run (update_orders (order_uuid i) (cancellable (user_uuid u)) (row_cancel now)) w = (Inr r, w1)"
    and res: "order_or_missing i r w1 = (Inr o', w')" by (rule bind_answered)
  from order_or_missing_answered [OF res] obtain row where row: "r = Some row" "o' = order_of_row row" by blast
  have dist: "distinct (map orow_id (db_orders (w_db w)))" using assms(2) by (simp add: orders_ok_def)
  from db_run_Inr [OF run] dist row_cancel_key show ?thesis
  proof (cases rule: update_orders_cases)
    case (one r0 r' t)
    then have "order_check r0" "orow_id r0 = order_uuid i" "orow_user_id r0 = user_uuid u"
      using assms(2) by (auto simp: orders_ok_def cancellable_def find_order_def dest: find_SomeD)
    moreover have "order_check r' = order_check r0" using one(4) by (auto simp: row_cancel_def order_check_def)
    ultimately show ?thesis
      using one(4,5) row order_of_row_typed [of r'] by (cases i; cases u) (auto simp: row_cancel_def order_of_row_def)
  qed (use row in simp)
qed

lemma list_user_orders_typed:
  assumes "list_user_orders u m n w = (Inr os, w')" and "orders_ok (w_db w)"
  shows "(\<forall>o'\<in>set os. order_typed o' \<and> ord_user_id o' = u) \<and> length os \<le> nat (sint n)"
proof -
  from db_run_Inr [OF assms(1) [unfolded list_user_orders_def]] obtain rs where
    rs: "sql_limit (sint n) (sql_order_desc orow_created_at (filter (\<lambda>r. orow_user_id r = user_uuid u
           \<and> (case m of None \<Rightarrow> True | Some mid \<Rightarrow> orow_market_id r = market_uuid mid)) (db_orders (w_db w)))) = Some rs"
    and os: "os = map order_of_row rs"
    by (auto simp: Let_def split: option.splits)
  from rs have "set rs \<subseteq> {r \<in> set (db_orders (w_db w)). orow_user_id r = user_uuid u}" and "length rs \<le> nat (sint n)"
    by (auto simp: sql_limit_def sql_order_desc_def split: if_splits dest!: in_set_takeD)
  with os row_in_order [OF _ assms(2)] show ?thesis by (cases u) (auto simp: order_of_row_def)
qed

text \<open>
  C40: Orders read back are of their type. In every state any interleaving of the statements reaches, over any link, an
  order that a query returns has a positive quantity below \<open>2 ^ 63\<close>, is filled to at most that, has a price in
  the open unit interval when it has one, and has one when it is a limit order; it is the order that was asked for, of
  the user that was asked for, at most as many as were asked for, and a cancelled order is cancelled.
\<close>
theorem stored_orders_typed:
  assumes "db_step\<^sup>*\<^sup>* d (w_db w)" and "db_ok d"
  shows "(\<forall>i o' w'. get_order i w = (Inr o', w') \<longrightarrow> order_typed o' \<and> ord_id o' = i) \<and>
    (\<forall>now i u o' w'. cancel_order now i u w = (Inr o', w') \<longrightarrow>
       order_typed o' \<and> ord_id o' = i \<and> ord_user_id o' = u \<and> ord_status o' = OrdCancelled) \<and>
    (\<forall>u m n os w'. list_user_orders u m n w = (Inr os, w') \<longrightarrow>
       (\<forall>o'\<in>set os. order_typed o' \<and> ord_user_id o' = u) \<and> length os \<le> nat (sint n))"
proof -
  from ledger.run_keeps [OF assms] have "orders_ok (w_db w)" by (simp add: db_ok_def)
  with get_order_typed cancel_order_typed list_user_orders_typed show ?thesis by blast
qed

lemma stored_orders_typed_witness:
  "\<exists>o' w'. cancel_order 9 (OrderId 21) (UserId 1) (online sample_db) = (Inr o', w') \<and> order_typed o' \<and>
     ord_status o' = OrdCancelled"
proof -
  have "succeeds (cancel_order 9 (OrderId 21) (UserId 1)) (online sample_db)" by code_simp
  then obtain o' w' where run: "cancel_order 9 (OrderId 21) (UserId 1) (online sample_db) = (Inr o', w')"
    by (rule succeedsE)
  have "db_step\<^sup>*\<^sup>* sample_db (w_db (online sample_db))" by simp
  from stored_orders_typed [OF this sample_db_ok] run show ?thesis by blast
qed

end
