(* ===== verification/Nats_Client.thy ===== *)
theory Nats_Client
  imports Messaging Tasks
begin

text \<open>
  The connection part of \<open>messaging/src/lib.rs\<close>: \<open>Nats::connect\<close>, the subjects that are published to and
  subscribed, and \<open>is_connected\<close>. The client of \<open>async_nats\<close> is a parameter: what connecting answers, and how it
  answers a publication or a subscription. \<open>tokio::time::timeout\<close> is \<open>timeout_outcome\<close>.
\<close>

section \<open>Timeouts\<close>

text \<open>
  What \<open>timeout(limit, future)\<close> is when it is polled: the future is polled first, then the clock. \<open>ready\<close> is the
  value of the future if it has one, \<open>expired\<close> whether the limit has passed; \<open>None\<close> is pending.
\<close>

datatype 'a timeout_outcome = Elapsed | Done 'a

definition timeout_poll :: "'a option \<Rightarrow> bool \<Rightarrow> 'a timeout_outcome option" where
  "timeout_poll ready expired =
     (case ready of Some x \<Rightarrow> Some (Done x) | None \<Rightarrow> if expired then Some Elapsed else None)"

lemma timeout_poll_ready [simp]: "timeout_poll (Some x) expired = Some (Done x)"
  by (simp add: timeout_poll_def)

section \<open>The connection\<close>

record 'c nats =
  nats_client :: 'c
  nats_order_subject :: string
  nats_fill_subject :: string
  nats_depth_subject :: string
  nats_request_timeout :: u64

definition nats_connect ::
  "(string + 'c) timeout_outcome \<Rightarrow> string \<Rightarrow> string \<Rightarrow> string \<Rightarrow> u64 \<Rightarrow> 'c nats app_result" where
  "nats_connect answer order_subject fill_subject depth_subject request_timeout =
     (case answer of
        Elapsed \<Rightarrow> Inl (Messaging [Lit ''nats connect timeout''])
      | Done (Inl e) \<Rightarrow> Inl (Messaging [Foreign e])
      | Done (Inr client) \<Rightarrow> Inr
          \<lparr>nats_client = client, nats_order_subject = order_subject, nats_fill_subject = fill_subject,
           nats_depth_subject = depth_subject, nats_request_timeout = request_timeout\<rparr>)"

text \<open>A subscription hands the messages of its subject to its holder; the client may refuse it.\<close>

definition messaging_error :: "string + 'a \<Rightarrow> 'a app_result" where
  "messaging_error r = (case r of Inl e \<Rightarrow> Inl (Messaging [Foreign e]) | Inr x \<Rightarrow> Inr x)"

definition subscribe_fills :: "('c \<Rightarrow> string \<Rightarrow> string + 's) \<Rightarrow> 'c nats \<Rightarrow> 's app_result" where
  "subscribe_fills subscribe n = messaging_error (subscribe (nats_client n) (nats_fill_subject n))"

definition depth_topic :: "(uuid \<Rightarrow> string) \<Rightarrow> 'c nats \<Rightarrow> market_id \<Rightarrow> string" where
  "depth_topic show_uuid n m = nats_depth_subject n @ ''.'' @ show_uuid (market_uuid m)"

definition subscribe_depth ::
  "(uuid \<Rightarrow> string) \<Rightarrow> ('c \<Rightarrow> string \<Rightarrow> string + 's) \<Rightarrow> 'c nats \<Rightarrow> market_id \<Rightarrow> 's app_result" where
  "subscribe_depth show_uuid subscribe n m =
     messaging_error (subscribe (nats_client n) (depth_topic show_uuid n m))"

text \<open>\<open>is_connected\<close> asks for the information about the server and drops the answer.\<close>

definition is_connected :: "('c \<Rightarrow> 'i) \<Rightarrow> 'c nats \<Rightarrow> bool" where
  "is_connected server_info n = (let _ = server_info (nats_client n) in True)"

section \<open>Messages on subjects\<close>

text \<open>
  What the server documents: a subscription to a subject without wildcards gets, in order, the payloads that
  are published under exactly this subject while it exists.
\<close>

definition delivered :: "(string \<times> u8 list) list \<Rightarrow> string \<Rightarrow> u8 list list" where
  "delivered pubs subject = map snd (filter (\<lambda>p. fst p = subject) pubs)"

lemma delivered_append: "delivered (xs @ ys) s = delivered xs s @ delivered ys s"
  by (simp add: delivered_def)

lemma depth_topic_inj: "inj show_uuid \<Longrightarrow> depth_topic show_uuid n m = depth_topic show_uuid n m' \<longleftrightarrow> m = m'"
  by (cases m; cases m') (auto simp: depth_topic_def inj_def)

text \<open>Publications for one market do not reach the depth subscriptions of the others.\<close>

lemma delivered_other_market:
  assumes "inj show_uuid" and "m \<noteq> m'"
  shows "delivered (map (Pair (depth_topic show_uuid n m)) payloads) (depth_topic show_uuid n m') = []"
  using assms by (simp add: delivered_def depth_topic_inj comp_def)

end
