(* ===== verification/Utf8.thy ===== *)
theory Utf8
  imports Common_Types
begin

text \<open>
  \<open>std::str::from_utf8\<close> of the standard library, byte by byte, and what it accepts: exactly the encodings of
  sequences of Unicode scalar values.
\<close>

section \<open>The check\<close>

definition continuation :: "u8 \<Rightarrow> bool" where
  "continuation b \<longleftrightarrow> 0x80 \<le> b \<and> b \<le> 0xBF"

text \<open>The second byte of three and of four: no overlong forms, no surrogates, nothing above \<open>0x10FFFF\<close>.\<close>

definition second_of_3 :: "u8 \<Rightarrow> u8 \<Rightarrow> bool" where
  "second_of_3 a b \<longleftrightarrow>
     (if a = 0xE0 then 0xA0 \<le> b \<and> b \<le> 0xBF
      else if a = 0xED then 0x80 \<le> b \<and> b \<le> 0x9F
      else continuation b)"

definition second_of_4 :: "u8 \<Rightarrow> u8 \<Rightarrow> bool" where
  "second_of_4 a b \<longleftrightarrow>
     (if a = 0xF0 then 0x90 \<le> b \<and> b \<le> 0xBF
      else if a = 0xF4 then 0x80 \<le> b \<and> b \<le> 0x8F
      else continuation b)"

fun utf8_valid :: "u8 list \<Rightarrow> bool" where
  "utf8_valid [] = True"
| "utf8_valid (a # bs) =
     (if a < 0x80 then utf8_valid bs
      else if 0xC2 \<le> a \<and> a \<le> 0xDF then
        (case bs of b # rest \<Rightarrow> continuation b \<and> utf8_valid rest | _ \<Rightarrow> False)
      else if 0xE0 \<le> a \<and> a \<le> 0xEF then
        (case bs of b # c # rest \<Rightarrow> second_of_3 a b \<and> continuation c \<and> utf8_valid rest | _ \<Rightarrow> False)
      else if 0xF0 \<le> a \<and> a \<le> 0xF4 then
        (case bs of b # c # d # rest \<Rightarrow>
             second_of_4 a b \<and> continuation c \<and> continuation d \<and> utf8_valid rest
         | _ \<Rightarrow> False)
      else False)"

definition from_utf8 :: "u8 list \<Rightarrow> u8 list option" where
  "from_utf8 bs = (if utf8_valid bs then Some bs else None)"

section \<open>Scalar values and their encodings\<close>

definition scalar :: "nat \<Rightarrow> bool" where
  "scalar n \<longleftrightarrow> n < 0xD800 \<or> 0xE000 \<le> n \<and> n < 0x110000"

definition byte :: "nat \<Rightarrow> u8" where "byte n = word_of_nat n"

definition utf8_char :: "nat \<Rightarrow> u8 list" where
  "utf8_char n =
     (if n < 0x80 then [byte n]
      else if n < 0x800 then [byte (0xC0 + n div 64), byte (0x80 + n mod 64)]
      else if n < 0x10000 then [byte (0xE0 + n div 4096), byte (0x80 + n div 64 mod 64), byte (0x80 + n mod 64)]
      else [byte (0xF0 + n div 262144), byte (0x80 + n div 4096 mod 64), byte (0x80 + n div 64 mod 64),
            byte (0x80 + n mod 64)])"

definition utf8_string :: "nat list \<Rightarrow> u8 list" where
  "utf8_string cs = concat (map utf8_char cs)"

lemma unat_byte: "n < 256 \<Longrightarrow> unat (byte n) = n"
  by (simp add: byte_def unat_of_nat)

lemma byte_unat: "byte (unat b) = b"
  by (simp add: byte_def)

lemma byte_less: "n < 256 \<Longrightarrow> byte n < b \<longleftrightarrow> n < unat b"
  by (simp add: word_less_nat_alt unat_byte)

lemma byte_le: "n < 256 \<Longrightarrow> b \<le> byte n \<longleftrightarrow> unat b \<le> n"
  by (simp add: word_le_nat_alt unat_byte)

lemma byte_ge: "n < 256 \<Longrightarrow> byte n \<le> b \<longleftrightarrow> n \<le> unat b"
  by (simp add: word_le_nat_alt unat_byte)

lemma byte_eq: "n < 256 \<Longrightarrow> byte n = b \<longleftrightarrow> n = unat b"
  by (simp add: word_unat_eq_iff unat_byte)

lemmas byte_compare = byte_less byte_le byte_ge byte_eq

lemma continuation_byte: "n < 256 \<Longrightarrow> continuation (byte n) \<longleftrightarrow> 0x80 \<le> n \<and> n \<le> 0xBF"
  by (simp add: continuation_def byte_compare)

lemma second_of_3_byte:
  "n < 16 \<Longrightarrow> m < 64 \<Longrightarrow> (n = 0 \<Longrightarrow> 32 \<le> m) \<Longrightarrow> (n = 13 \<Longrightarrow> m < 32) \<Longrightarrow>
     second_of_3 (byte (0xE0 + n)) (byte (0x80 + m))"
  by (auto simp: second_of_3_def continuation_byte byte_compare)

lemma second_of_4_byte:
  "n < 5 \<Longrightarrow> m < 64 \<Longrightarrow> (n = 0 \<Longrightarrow> 16 \<le> m) \<Longrightarrow> (n = 4 \<Longrightarrow> m < 16) \<Longrightarrow>
     second_of_4 (byte (0xF0 + n)) (byte (0x80 + m))"
  by (auto simp: second_of_4_def continuation_byte byte_compare)

lemma utf8_valid_2: "2 \<le> n \<Longrightarrow> n < 32 \<Longrightarrow> utf8_valid (byte (0xC0 + n) # b # bs) \<longleftrightarrow> continuation b \<and> utf8_valid bs"
  by (simp add: byte_compare)

lemma utf8_valid_3: "n < 16 \<Longrightarrow> utf8_valid (byte (0xE0 + n) # b # c # bs) \<longleftrightarrow>
    second_of_3 (byte (0xE0 + n)) b \<and> continuation c \<and> utf8_valid bs"
  by (simp add: byte_compare)

lemma utf8_valid_4: "n < 5 \<Longrightarrow> utf8_valid (byte (0xF0 + n) # b # c # d # bs) \<longleftrightarrow>
    second_of_4 (byte (0xF0 + n)) b \<and> continuation c \<and> continuation d \<and> utf8_valid bs"
  by (simp add: byte_compare)

text \<open>The encoding in terms of groups of six bits.\<close>

lemma group_64: "t < (64 :: nat) \<Longrightarrow> (p * 64 + t) div 64 = p" "t < (64 :: nat) \<Longrightarrow> (p * 64 + t) mod 64 = t"
  by (rule div_mult_self3 [THEN trans]; simp) (metis mod_less mod_mult_self3)

lemma div_groups: "n div 4096 = n div 64 div (64 :: nat)" "n div 262144 = n div 64 div 64 div (64 :: nat)"
  by (simp_all add: div_mult2_eq [symmetric])

lemma utf8_char_2: "q < 32 \<Longrightarrow> t < 64 \<Longrightarrow> 2 \<le> q \<Longrightarrow>
    utf8_char (q * 64 + t) = [byte (0xC0 + q), byte (0x80 + t)]"
  by (simp add: utf8_char_def)

lemma utf8_char_3:
  assumes "q < 16" and "s < 64" and "t < 64" and "q = 0 \<longrightarrow> 32 \<le> s"
  shows "utf8_char ((q * 64 + s) * 64 + t) = [byte (0xE0 + q), byte (0x80 + s), byte (0x80 + t)]"
proof -
  let ?n = "(q * 64 + s) * 64 + t"
  have d: "?n div 64 = q * 64 + s" "?n mod 64 = t" by (rule group_64 [OF assms(3)])+
  have "?n div 4096 = q"
    unfolding div_groups d(1) by (rule group_64(1) [OF assms(2)])
  moreover have "0x800 \<le> ?n" "?n < 0x10000" using assms by (cases "q = 0"; simp)+
  ultimately show ?thesis by (simp only: utf8_char_def d group_64 [OF assms(2)]) simp
qed

lemma utf8_char_4:
  assumes "q < 5" and "r < 64" and "s < 64" and "t < 64" and "q = 0 \<longrightarrow> 16 \<le> r"
  shows "utf8_char (((q * 64 + r) * 64 + s) * 64 + t) =
    [byte (0xF0 + q), byte (0x80 + r), byte (0x80 + s), byte (0x80 + t)]"
proof -
  let ?n = "((q * 64 + r) * 64 + s) * 64 + t"
  have d: "?n div 64 = (q * 64 + r) * 64 + s" "?n mod 64 = t" by (rule group_64 [OF assms(4)])+
  have d2: "?n div 4096 = q * 64 + r"
    unfolding div_groups d(1) by (rule group_64(1) [OF assms(3)])
  have "?n div 262144 = q"
    unfolding div_groups(2) d(1) group_64(1) [OF assms(3)] by (rule group_64(1) [OF assms(2)])
  moreover have "0x10000 \<le> ?n" using assms by (cases "q = 0") simp_all
  ultimately show ?thesis by (simp only: utf8_char_def d d2 group_64 [OF assms(2)] group_64 [OF assms(3)]) simp
qed

lemma six_bits:
  obtains q t where "n = q * 64 + t" and "t < (64 :: nat)"
  using that [of "n div 64" "n mod 64"] by simp

lemma utf8_valid_char:
  assumes "scalar n"
  shows "utf8_valid (utf8_char n @ bs) \<longleftrightarrow> utf8_valid bs"
proof -
  consider "n < 0x80" | "0x80 \<le> n" "n < 0x800" | "0x800 \<le> n" "n < 0x10000" | "0x10000 \<le> n" "n < 0x110000"
    using assms by (fastforce simp: scalar_def)
  then show ?thesis
  proof cases
    case 1
    then show ?thesis by (simp add: utf8_char_def byte_compare)
  next
    case 2
    obtain q t where n: "n = q * 64 + t" "t < 64" by (rule six_bits)
    with 2 show ?thesis by (simp add: utf8_char_2 utf8_valid_2 continuation_byte del: utf8_valid.simps)
  next
    case 3
    obtain p t where p: "n = p * 64 + t" "t < 64" by (rule six_bits)
    obtain q s where n: "p = q * 64 + s" "s < 64" by (rule six_bits)
    have "q < 16" "q = 0 \<longrightarrow> 32 \<le> s" "q = 13 \<longrightarrow> s < 32"
      using 3 p n assms by (auto simp: scalar_def)
    then show ?thesis unfolding p(1) n(1) utf8_char_3 [OF \<open>q < 16\<close> n(2) p(2) \<open>q = 0 \<longrightarrow> 32 \<le> s\<close>]
      using p(2) n(2) by (simp add: utf8_valid_3 second_of_3_byte continuation_byte del: utf8_valid.simps)
  next
    case 4
    obtain o' t where o: "n = o' * 64 + t" "t < 64" by (rule six_bits)
    obtain p s where p: "o' = p * 64 + s" "s < 64" by (rule six_bits)
    obtain q r where n: "p = q * 64 + r" "r < 64" by (rule six_bits)
    have "q < 5" "q = 0 \<longrightarrow> 16 \<le> r" "q = 4 \<longrightarrow> r < 16"
      using 4 o p n by auto
    then show ?thesis unfolding o(1) p(1) n(1) utf8_char_4 [OF \<open>q < 5\<close> n(2) p(2) o(2) \<open>q = 0 \<longrightarrow> 16 \<le> r\<close>]
      using o(2) p(2) n(2) by (simp add: utf8_valid_4 second_of_4_byte continuation_byte del: utf8_valid.simps)
  qed
qed

text \<open>The other direction: every accepted prefix is the encoding of a scalar value.\<close>

lemma high_bits:
  assumes "m \<le> unat a" and "unat a \<le> m + k"
  obtains q where "a = byte (m + q)" and "q \<le> k"
proof (rule that)
  show "a = byte (m + (unat a - m))" using assms by (simp add: byte_unat)
  show "unat a - m \<le> k" using assms by simp
qed

lemma low_bits:
  assumes "continuation b"
  obtains t where "b = byte (0x80 + t)" and "t < 64"
proof -
  have "0x80 \<le> unat b" "unat b \<le> 0x80 + 63" using assms by (simp_all add: continuation_def word_le_nat_alt)
  then show ?thesis by (rule high_bits) (use that in auto)
qed

lemma char_of_bytes_2:
  assumes "0xC2 \<le> a" and "a \<le> 0xDF" and "continuation b"
  shows "\<exists>n. scalar n \<and> utf8_char n = [a, b]"
proof -
  have "0xC0 + 2 \<le> unat a" "unat a \<le> 0xC0 + 2 + 29" using assms by (simp_all add: word_le_nat_alt)
  then obtain q where a: "a = byte (0xC0 + 2 + q)" "q \<le> 29" by (rule high_bits)
  obtain t where b: "b = byte (0x80 + t)" "t < 64" by (rule low_bits [OF assms(3)])
  have "utf8_char ((2 + q) * 64 + t) = [a, b]"
    using a b utf8_char_2 [of "2 + q" t] by simp
  moreover have "scalar ((2 + q) * 64 + t)" using a b by (simp add: scalar_def)
  ultimately show ?thesis by blast
qed

lemma char_of_bytes_3:
  assumes "0xE0 \<le> a" and "a \<le> 0xEF" and "second_of_3 a b" and "continuation c"
  shows "\<exists>n. scalar n \<and> utf8_char n = [a, b, c]"
proof -
  have "0xE0 \<le> unat a" "unat a \<le> 0xE0 + 15" using assms by (simp_all add: word_le_nat_alt)
  then obtain q where a: "a = byte (0xE0 + q)" "q \<le> 15" by (rule high_bits)
  have "continuation b" using assms(3) by (auto simp: second_of_3_def continuation_def word_le_nat_alt split: if_splits)
  then obtain s where b: "b = byte (0x80 + s)" "s < 64" by (rule low_bits)
  obtain t where c: "c = byte (0x80 + t)" "t < 64" by (rule low_bits [OF assms(4)])
  have q: "q = 0 \<longrightarrow> 32 \<le> s" "q = 13 \<longrightarrow> s < 32"
    using assms(3) a b by (auto simp: second_of_3_def byte_compare)
  have "utf8_char ((q * 64 + s) * 64 + t) = [a, b, c]"
    using utf8_char_3 [OF _ b(2) c(2) q(1)] a b(1) c(1) by simp
  moreover have "scalar ((q * 64 + s) * 64 + t)"
    using a(2) b(2) c(2) q(2) by (cases "q \<le> 12"; cases "q = 13") (auto simp: scalar_def)
  ultimately show ?thesis by blast
qed

lemma char_of_bytes_4:
  assumes "0xF0 \<le> a" and "a \<le> 0xF4" and "second_of_4 a b" and "continuation c" and "continuation d"
  shows "\<exists>n. scalar n \<and> utf8_char n = [a, b, c, d]"
proof -
  have "0xF0 \<le> unat a" "unat a \<le> 0xF0 + 4" using assms by (simp_all add: word_le_nat_alt)
  then obtain q where a: "a = byte (0xF0 + q)" "q \<le> 4" by (rule high_bits)
  have "continuation b" using assms(3) by (auto simp: second_of_4_def continuation_def word_le_nat_alt split: if_splits)
  then obtain r where b: "b = byte (0x80 + r)" "r < 64" by (rule low_bits)
  obtain s where c: "c = byte (0x80 + s)" "s < 64" by (rule low_bits [OF assms(4)])
  obtain t where d: "d = byte (0x80 + t)" "t < 64" by (rule low_bits [OF assms(5)])
  have q: "q = 0 \<longrightarrow> 16 \<le> r" "q = 4 \<longrightarrow> r < 16"
    using assms(3) a b by (auto simp: second_of_4_def byte_compare)
  have "utf8_char (((q * 64 + r) * 64 + s) * 64 + t) = [a, b, c, d]"
    using utf8_char_4 [OF _ b(2) c(2) d(2) q(1)] a b(1) c(1) d(1) by simp
  moreover have "scalar (((q * 64 + r) * 64 + s) * 64 + t)"
    using a(2) b(2) c(2) d(2) q by (cases "q = 0"; cases "q = 4") (auto simp: scalar_def)
  ultimately show ?thesis by blast
qed

section \<open>What is accepted\<close>

lemma utf8_string_Cons: "utf8_string (n # ns) = utf8_char n @ utf8_string ns"
  by (simp add: utf8_string_def)

lemma utf8_string_valid: "(\<forall>n \<in> set ns. scalar n) \<Longrightarrow> utf8_valid (utf8_string ns)"
  by (induction ns) (simp_all add: utf8_string_Cons utf8_valid_char del: utf8_valid.simps(2), simp add: utf8_string_def)

lemma utf8_extend:
  assumes "\<exists>n. scalar n \<and> utf8_char n = pre" and "\<exists>ns. (\<forall>n \<in> set ns. scalar n) \<and> bs = utf8_string ns"
  shows "\<exists>ns. (\<forall>n \<in> set ns. scalar n) \<and> pre @ bs = utf8_string ns"
proof -
  from assms obtain n ns where "scalar n" "utf8_char n = pre" "\<forall>n \<in> set ns. scalar n" "bs = utf8_string ns" by blast
  then show ?thesis by (intro exI [of _ "n # ns"]) (simp add: utf8_string_Cons)
qed

lemma utf8_first:
  assumes "utf8_valid (a # bs)"
  shows "\<exists>pre rest. a # bs = pre @ rest \<and> pre \<noteq> [] \<and> (\<exists>n. scalar n \<and> utf8_char n = pre) \<and> utf8_valid rest"
proof -
  have ascii: "scalar (unat a) \<and> utf8_char (unat a) = [a]" if "a < 0x80"
    using that by (simp add: utf8_char_def scalar_def byte_unat word_less_nat_alt)
  have split: "\<exists>pre rest. a # pre' @ r = pre @ rest \<and> pre \<noteq> [] \<and> (\<exists>n. scalar n \<and> utf8_char n = pre) \<and> utf8_valid rest"
    if "\<exists>n. scalar n \<and> utf8_char n = a # pre'" and "utf8_valid r" for pre' r
    using that by (intro exI [of _ "a # pre'"] exI [of _ r]) simp
  show ?thesis
    using assms ascii split [of "[]"] split [of "[_]"] split [of "[_, _]"] split [of "[_, _, _]"]
      char_of_bytes_2 [of a] char_of_bytes_3 [of a] char_of_bytes_4 [of a]
    by (auto split: if_splits list.splits)
qed

lemma utf8_valid_string: "utf8_valid bs \<Longrightarrow> \<exists>ns. (\<forall>n \<in> set ns. scalar n) \<and> bs = utf8_string ns"
proof (induction "length bs" arbitrary: bs rule: less_induct)
  case less
  show ?case
  proof (cases bs)
    case Nil
    then show ?thesis by (intro exI [of _ "[]"]) (simp add: utf8_string_def)
  next
    case (Cons a as)
    from utf8_first [OF less.prems [unfolded Cons]] obtain pre rest where
      parts: "bs = pre @ rest" "pre \<noteq> []" "\<exists>n. scalar n \<and> utf8_char n = pre" "utf8_valid rest"
      unfolding Cons by blast
    then have "length rest < length bs" by simp
    from utf8_extend [OF parts(3) less.hyps [OF this parts(4)]] show ?thesis by (simp add: parts(1))
  qed
qed

lemma from_utf8_iff:
  "from_utf8 bs = Some t \<longleftrightarrow> t = bs \<and> (\<exists>ns. (\<forall>n \<in> set ns. scalar n) \<and> bs = utf8_string ns)"
  using utf8_string_valid utf8_valid_string by (auto simp: from_utf8_def)

end
