(* ===== verification/Depth_Socket.thy ===== *)
theory Depth_Socket
  imports Nats_Client Utf8
begin

text \<open>
  The socket handlers for market depth: \<open>handlers/ws.rs\<close>, which the router serves, and \<open>handlers/depth_feed.rs\<close>,
  which is not a module of the crate. A handler is a loop of \<open>select!\<close>; the list of its turns (which branch
  \<open>select!\<close> took, with what it got, and whether the write that followed succeeded) is the input, the frames
  written to the client are the output. The theorems say what the two handlers forward.
\<close>

section \<open>Messages of the socket\<close>

datatype ws_message = MsgText "u8 list" | MsgBinary "u8 list" | MsgPing "u8 list" | MsgPong "u8 list" | MsgClose

text \<open>What \<open>recv\<close> answers: the end of the stream, an error, or a message.\<close>

type_synonym received = "(string + ws_message) option"

definition ascii :: "string \<Rightarrow> u8 list" where
  "ascii s = map of_char s"

definition ping_payload :: "u8 list" where
  "ping_payload = ascii ''{\"type\":\"ping\"}''"

text \<open>
  One turn: whether the loop goes on, and the frames written. \<open>sent\<close> is whether a write succeeds: a failed one
  ends the loop.
\<close>

definition send_frame :: "ws_message \<Rightarrow> bool \<Rightarrow> bool \<times> ws_message list" where
  "send_frame f sent = (if sent then (True, [f]) else (False, []))"

text \<open>The branch for the messages of the client, the same in both files.\<close>

definition client_turn :: "received \<Rightarrow> bool \<Rightarrow> bool \<times> ws_message list" where
  "client_turn r sent =
     (case r of
        None \<Rightarrow> (False, [])
      | Some (Inr MsgClose) \<Rightarrow> (False, [])
      | Some (Inr (MsgPong _)) \<Rightarrow> (True, [])
      | Some (Inr (MsgPing p)) \<Rightarrow> send_frame (MsgPong p) sent
      | Some (Inl e) \<Rightarrow> (False, [])
      | _ \<Rightarrow> (True, []))"

text \<open>A loop over its turns: whether it still runs, and what it wrote.\<close>

fun run_turns :: "('t \<Rightarrow> bool \<Rightarrow> bool \<times> ws_message list) \<Rightarrow> ('t \<times> bool) list \<Rightarrow> bool \<times> ws_message list" where
  "run_turns turn [] = (True, [])"
| "run_turns turn ((t, sent) # ts) =
     (case turn t sent of
        (False, fs) \<Rightarrow> (False, fs)
      | (True, fs) \<Rightarrow> (case run_turns turn ts of (running, gs) \<Rightarrow> (running, fs @ gs)))"

section \<open>The handler the router serves\<close>

text \<open>
  The first branch waits for \<open>timeout(30 s, async { None })\<close>, whose future is ready when it is first polled.
  \<open>TimedTurn expired\<close> is a turn of this branch, with whether the clock of the timeout had expired.
\<close>

datatype depth_turn = TimedTurn bool | ClientTurn received

definition depth_future :: "u8 list option" where
  "depth_future = None"

definition ws_turn :: "depth_turn \<Rightarrow> bool \<Rightarrow> bool \<times> ws_message list" where
  "ws_turn t sent =
     (case t of
        TimedTurn expired \<Rightarrow>
          (case timeout_poll (Some depth_future) expired of
             Some (Done (Some text)) \<Rightarrow> send_frame (MsgText text) sent
           | Some (Done None) \<Rightarrow> (False, [])
           | Some Elapsed \<Rightarrow> send_frame (MsgText ping_payload) sent
           | None \<Rightarrow> (True, []))
      | ClientTurn r \<Rightarrow> client_turn r sent)"

text \<open>\<open>handle_depth\<close>: without a subscription the socket is dropped at once.\<close>

definition handle_depth :: "'s app_result \<Rightarrow> (depth_turn \<times> bool) list \<Rightarrow> bool \<times> ws_message list" where
  "handle_depth subscription turns =
     (case subscription of Inl _ \<Rightarrow> (False, []) | Inr _ \<Rightarrow> run_turns ws_turn turns)"

section \<open>The feed of \<open>depth_feed.rs\<close>\<close>

text \<open>A turn of the feed: the clock ticks, the subscription yields a payload or ends, or the client speaks.\<close>

datatype feed_turn = PingTick | Update "u8 list option" | FeedClient received

definition feed_step :: "feed_turn \<Rightarrow> bool \<Rightarrow> bool \<times> ws_message list" where
  "feed_step t sent =
     (case t of
        PingTick \<Rightarrow> send_frame (MsgText ping_payload) sent
      | Update None \<Rightarrow> (False, [])
      | Update (Some payload) \<Rightarrow>
          (case from_utf8 payload of
             None \<Rightarrow> (True, [])
           | Some text \<Rightarrow> send_frame (MsgText text) sent)
      | FeedClient r \<Rightarrow> client_turn r sent)"

definition feed_depth :: "'s app_result \<Rightarrow> (feed_turn \<times> bool) list \<Rightarrow> bool \<times> ws_message list" where
  "feed_depth subscription turns =
     (case subscription of Inl _ \<Rightarrow> (False, []) | Inr _ \<Rightarrow> run_turns feed_step turns)"

section \<open>What the handlers forward\<close>

definition pong_of :: "ws_message \<Rightarrow> bool" where
  "pong_of f \<longleftrightarrow> (\<exists>p. f = MsgPong p)"

definition timed_turn :: "depth_turn \<times> bool \<Rightarrow> bool" where
  "timed_turn t \<longleftrightarrow> (\<exists>expired. fst t = TimedTurn expired)"

lemma client_turn_frames: "\<forall>f \<in> set (snd (client_turn r sent)). pong_of f"
  by (auto simp: client_turn_def send_frame_def pong_of_def split: option.splits sum.splits ws_message.splits)

lemma timed_turn_ends: "ws_turn (TimedTurn expired) sent = (False, [])"
  by (simp add: ws_turn_def depth_future_def)

lemma run_turns_step:
  "run_turns turn ((t, sent) # ts) =
     (fst (turn t sent) \<and> fst (run_turns turn ts),
      snd (turn t sent) @ (if fst (turn t sent) then snd (run_turns turn ts) else []))"
  by (auto split: prod.splits bool.splits)

lemma run_turns_all:
  assumes "\<And>t sent f. f \<in> set (snd (turn t sent)) \<Longrightarrow> P f"
  shows "f \<in> set (snd (run_turns turn ts)) \<Longrightarrow> P f"
proof (induction ts)
  case (Cons t ts)
  then show ?case using assms by (cases t) (auto simp: run_turns_step simp del: run_turns.simps split: if_splits)
qed simp

lemma run_turns_running: "fst (run_turns turn ts) \<longleftrightarrow> (\<forall>(t, sent) \<in> set ts. fst (turn t sent))"
  by (induction ts) (auto simp: run_turns_step simp del: run_turns.simps(2))

lemma run_turns_frames:
  "fst (run_turns turn ts) \<Longrightarrow> snd (run_turns turn ts) = concat (map (\<lambda>(t, sent). snd (turn t sent)) ts)"
  by (induction ts) (auto simp: run_turns_step simp del: run_turns.simps(2))

text \<open>
  The depth socket of the router never forwards anything. Whatever turns its loop takes, and whatever is
  published, all it writes are pongs for the pings of the client; and it ends, at the latest, the first time
  the branch for updates is taken, which is ready at every turn because the future in it yields nothing.
\<close>
theorem depth_route_forwards_nothing:
  shows "(f \<in> set (snd (handle_depth subscription turns)) \<longrightarrow> pong_of f) \<and>
    ((\<exists>t \<in> set turns. timed_turn t) \<longrightarrow> \<not> fst (handle_depth subscription turns))"
proof -
  have "pong_of f" if "f \<in> set (snd (ws_turn t sent))" for f t sent
    using that client_turn_frames [of _ sent] by (cases t) (auto simp: timed_turn_ends, auto simp: ws_turn_def)
  then have "f \<in> set (snd (run_turns ws_turn turns)) \<Longrightarrow> pong_of f"
    by (rule run_turns_all)
  moreover have "\<not> fst (run_turns ws_turn turns)" if "(TimedTurn expired, sent) \<in> set turns" for expired sent
    using that by (auto simp: run_turns_running timed_turn_ends intro!: bexI [OF _ that])
  ultimately show ?thesis by (auto simp: handle_depth_def timed_turn_def split: sum.splits)
qed

definition sample_turns :: "(depth_turn \<times> bool) list" where
  "sample_turns = [(ClientTurn (Some (Inr (MsgPing [1]))), True), (TimedTurn False, True)]"

lemma depth_route_forwards_nothing_witness:
  "handle_depth (Inr ()) sample_turns = (False, [MsgPong [1]]) \<and> pong_of (MsgPong [1])"
proof -
  have out: "snd (handle_depth (Inr ()) sample_turns) = [MsgPong [1]]"
    by (simp add: handle_depth_def sample_turns_def ws_turn_def client_turn_def send_frame_def depth_future_def)
  have "\<exists>t \<in> set sample_turns. timed_turn t" by (auto simp: sample_turns_def timed_turn_def)
  with out depth_route_forwards_nothing [of "MsgPong [1]" "Inr ()" sample_turns] show ?thesis
    by (cases "handle_depth (Inr ()) sample_turns") simp
qed

text \<open>
  The feed, as long as it runs, has forwarded exactly the updates that are valid UTF-8, unchanged and in order:
  what was published for its market and for no other.
\<close>

definition update_of :: "feed_turn \<times> bool \<Rightarrow> u8 list option" where
  "update_of t = (case fst t of Update u \<Rightarrow> u | _ \<Rightarrow> None)"

definition forwarded :: "feed_turn \<times> bool \<Rightarrow> ws_message list" where
  "forwarded t = (if fst t = PingTick then [] else filter (\<lambda>f. \<not> pong_of f) (snd (feed_step (fst t) (snd t))))"

lemma forwarded_running:
  "fst (feed_step (fst t) (snd t)) \<Longrightarrow> forwarded t =
     (case update_of t of None \<Rightarrow> [] | Some p \<Rightarrow> if utf8_valid p then [MsgText p] else [])"
  by (cases t) (auto simp: forwarded_def update_of_def feed_step_def send_frame_def from_utf8_def pong_of_def client_turn_def
      split: feed_turn.splits option.splits sum.splits ws_message.splits if_splits)

lemma feed_forwards_updates:
  assumes "fst (feed_depth (Inr subscription) turns)"
    and "List.map_filter update_of turns = delivered pubs (depth_topic show_uuid n m)"
  shows "concat (map forwarded turns) =
    map MsgText (filter utf8_valid (delivered pubs (depth_topic show_uuid n m)))"
proof -
  have "\<forall>t \<in> set turns. fst (feed_step (fst t) (snd t))"
    using assms(1) by (auto simp: feed_depth_def run_turns_running)
  then have "concat (map forwarded turns) = map MsgText (filter utf8_valid (List.map_filter update_of turns))"
    by (induction turns) (auto simp: forwarded_running map_filter_simps split: option.splits)
  then show ?thesis by (simp add: assms(2))
qed

end
