(* ===== verification/Startup.thy ===== *)
theory Startup
  imports Service_Config Trading_Engine Risk_Manager Nats_Client Service_Runs
begin

text \<open>
  \<open>api-http/src/main.rs\<close> and the connecting part of \<open>db/src/lib.rs\<close>: what is built from the configuration, which
  background tasks run, and when the process serves requests; the job that expires idempotency keys; and what
  a signal to stop does. How the libraries answer (the configuration files, PostgreSQL, NATS, the HTTP client,
  the chain node, the socket address) is an argument, as is the breaker of the analytics engine.
\<close>

section \<open>Connecting\<close>

text \<open>\<open>Db::connect\<close>: the pool, then the migrations.\<close>

definition db_connect :: "string + unit \<Rightarrow> string + unit \<Rightarrow> unit app_result" where
  "db_connect pool migrations =
     (case pool of
        Inl e \<Rightarrow> Inl (from_sqlx_error e)
      | Inr _ \<Rightarrow>
          (case migrations of
             Inl e \<Rightarrow> Inl (Internal [Lit ''migration: '', Foreign e])
           | Inr _ \<Rightarrow> Inr ()))"

text \<open>\<open>PolymarketClient::new\<close> fails when the HTTP client cannot be built.\<close>

definition try_client :: "string option \<Rightarrow> client \<Rightarrow> client app_result" where
  "try_client build_error c =
     (case build_error of
        Some e \<Rightarrow> Inl (Internal [Lit ''Failed to create HTTP client: '', Foreign e])
      | None \<Rightarrow> Inr c)"

record 'c libraries =
  lb_config :: "string + config"
  lb_pool :: "string + unit"
  lb_migrations :: "string + unit"
  lb_nats :: "(string + 'c) timeout_outcome"
  lb_client_error :: "string option"
  lb_engine_client_error :: "string option"
  lb_web3 :: "app_error + unit"
  lb_listener :: "string + unit"
  lb_breaker :: bool

section \<open>What is started\<close>

datatype background = FillProcessorTask | AnalyticsWorker | EngineTasks | ShutdownMonitor | CleanupJob

record 'c system =
  sy_nats :: "'c nats"
  sy_order_client :: client
  sy_risk :: "f64 risk_manager"
  sy_cache :: market_cache
  sy_engine :: trading_engine
  sy_web3 :: bool

datatype boot_error = ConfigError string | AppFailure app_error | ListenError string

datatype 'c boot = Failed boot_error | Hangs | Serving "'c system"

definition main_risk_limits :: "f64 risk_limits" where
  "main_risk_limits =
     \<lparr>max_position_size_usd = f64_lit 1000000, max_daily_loss_usd = f64_lit 100000,
      max_total_exposure_usd = f64_lit 2000000, limit_drawdown_pct = f64_lit (5 / 100),
      max_positions_per_market = 5, max_correlated_exposure = f64_lit 500000\<rparr>"

definition unwrap_or_default :: "string option \<Rightarrow> string" where
  "unwrap_or_default o' = (case o' of None \<Rightarrow> [] | Some s \<Rightarrow> s)"

text \<open>
  The trading engine: initialized and started, with the monitor, when all three credentials are configured.
  The result is the error of \<open>initialize\<close>, or the engine and its tasks; \<open>None\<close> when a lock is never free.
\<close>

definition start_trading ::
  "string \<Rightarrow> 'c libraries \<Rightarrow> config \<Rightarrow> (app_error + trading_engine \<times> background list) option" where
  "start_trading api_url L cfg =
     (case (cf_polymarket_api_key cfg, cf_polymarket_api_secret cfg, cf_polymarket_api_passphrase cfg) of
        (Some key, Some secret, Some passphrase) \<Rightarrow>
          (case try_client (lb_engine_client_error L) (client_new api_url key secret passphrase) of
             Inl e \<Rightarrow> Some (Inl e)
           | Inr _ \<Rightarrow>
               (case initialize_engine api_url key secret passphrase trading_engine_new of
                  (_, Inl _) \<Rightarrow> None
                | (s, Inr _) \<Rightarrow>
                    (case start_engine (lb_breaker L) s of
                       (_, Inl _) \<Rightarrow> None
                     | (t, Inr _) \<Rightarrow> Some (Inr (t, [EngineTasks, ShutdownMonitor])))))
      | _ \<Rightarrow> Some (Inr (trading_engine_new, [])))"

definition web3_started :: "'c libraries \<Rightarrow> config \<Rightarrow> bool" where
  "web3_started L cfg \<longleftrightarrow>
     (case (cf_polygon_rpc_url cfg, cf_polygon_private_key cfg) of
        (Some _, Some _) \<Rightarrow> (case lb_web3 L of Inl _ \<Rightarrow> False | Inr _ \<Rightarrow> True)
      | _ \<Rightarrow> False)"

definition order_client :: "string \<Rightarrow> config \<Rightarrow> client" where
  "order_client api_url cfg =
     client_new api_url (unwrap_or_default (cf_polymarket_api_key cfg))
       (unwrap_or_default (cf_polymarket_api_secret cfg)) (unwrap_or_default (cf_polymarket_api_passphrase cfg))"

text \<open>\<open>main\<close> up to serving: the tasks spawned, in order, and how it ended.\<close>

definition boot_main :: "string \<Rightarrow> 'c libraries \<Rightarrow> background list \<times> 'c boot" where
  "boot_main api_url L =
     (case lb_config L of
        Inl e \<Rightarrow> ([], Failed (ConfigError e))
      | Inr cfg \<Rightarrow>
     (case db_connect (lb_pool L) (lb_migrations L) of
        Inl e \<Rightarrow> ([], Failed (AppFailure e))
      | Inr _ \<Rightarrow>
     (case nats_connect (lb_nats L) (nc_order_subject (cf_nats cfg)) (nc_fill_subject (cf_nats cfg))
             (nc_depth_subject (cf_nats cfg)) (nc_request_timeout (cf_nats cfg)) of
        Inl e \<Rightarrow> ([], Failed (AppFailure e))
      | Inr nats \<Rightarrow>
     (case try_client (lb_client_error L) (order_client api_url cfg) of
        Inl e \<Rightarrow> ([], Failed (AppFailure e))
      | Inr client \<Rightarrow>
     (let tasks = [FillProcessorTask, AnalyticsWorker] in
      case start_trading api_url L cfg of
        None \<Rightarrow> (tasks, Hangs)
      | Some (Inl e) \<Rightarrow> (tasks, Failed (AppFailure e))
      | Some (Inr (engine, extra)) \<Rightarrow>
          (let tasks' = tasks @ extra @ [CleanupJob] in
           case lb_listener L of
             Inl e \<Rightarrow> (tasks', Failed (ListenError e))
           | Inr _ \<Rightarrow> (tasks', Serving
               \<lparr>sy_nats = nats, sy_order_client = client, sy_risk = risk_manager_new main_risk_limits,
                sy_cache = cache_new 30000, sy_engine = engine, sy_web3 = web3_started L cfg\<rparr>)))))))"

section \<open>The clean-up job and stopping\<close>

text \<open>A tick of the job; an error is only logged.\<close>

definition cleanup_turn :: "datetime \<Rightarrow> unit io" where
  "cleanup_turn now = io_catch (expire_idempotency_keys now) (\<lambda>_. io_return ())"

definition cleanup_job :: "datetime list \<Rightarrow> unit io" where
  "cleanup_job ticks = io_iterate cleanup_turn ticks"

text \<open>After the signal the engine is stopped; the seconds the server then waits for its connections.\<close>

definition shutdown_signal :: "u64 \<Rightarrow> trading_engine \<Rightarrow> trading_engine \<times> nat" where
  "shutdown_signal timeout_secs engine = (stop_engine engine, unat timeout_secs)"

section \<open>Properties\<close>

definition credentials :: "config \<Rightarrow> bool" where
  "credentials cfg \<longleftrightarrow> cf_polymarket_api_key cfg \<noteq> None \<and> cf_polymarket_api_secret cfg \<noteq> None
     \<and> cf_polymarket_api_passphrase cfg \<noteq> None"

lemma start_trading_cases:
  "start_trading api_url L cfg =
     (if credentials cfg then
        (case lb_engine_client_error L of
           Some e \<Rightarrow> Some (Inl (Internal [Lit ''Failed to create HTTP client: '', Foreign e]))
         | None \<Rightarrow> Some (Inr
             (fst (start_engine (lb_breaker L)
                (fst (initialize_engine api_url (the (cf_polymarket_api_key cfg)) (the (cf_polymarket_api_secret cfg))
                   (the (cf_polymarket_api_passphrase cfg)) trading_engine_new))),
              [EngineTasks, ShutdownMonitor])))
      else Some (Inr (trading_engine_new, [])))"
  by (auto simp: start_trading_def credentials_def try_client_def initialize_engine_def start_engine_def
      trading_engine_new_def Let_def split: option.splits)

lemma engine_started:
  "te_running (fst (start_engine breaker (fst (initialize_engine url key secret pass trading_engine_new))))"
  by (simp add: start_engine_def initialize_engine_def trading_engine_new_def start_data_loop_def loop_check_def Let_def)

text \<open>
  What a start of the process amounts to. It never hangs. When it serves requests, the fill processor, the
  analytics worker and the clean-up job run, and the trading engine runs exactly when all three credentials
  are configured, with its shutdown monitor; the order service, however, always has a client, with empty
  credentials where none are configured, and without a circuit breaker; a chain node that is not reached does not
  keep the process from serving, but a trading engine that cannot be initialized does.
\<close>
theorem server_starts:
  assumes "boot_main api_url L = (tasks, outcome)"
  shows "outcome \<noteq> Hangs \<and>
    (\<forall>sys. outcome = Serving sys \<longrightarrow>
      (\<exists>cfg. lb_config L = Inr cfg \<and> {FillProcessorTask, AnalyticsWorker, CleanupJob} \<subseteq> set tasks \<and>
        (EngineTasks \<in> set tasks \<longleftrightarrow> credentials cfg) \<and> (ShutdownMonitor \<in> set tasks \<longleftrightarrow> credentials cfg) \<and>
        (te_running (sy_engine sys) \<longleftrightarrow> credentials cfg) \<and>
        sy_order_client sys = order_client api_url cfg \<and> pc_breaker (sy_order_client sys) = None \<and>
        (credentials cfg \<longrightarrow> lb_engine_client_error L = None)))"
  using assms engine_started
  by (auto simp: boot_main_def try_client_def start_trading_cases Let_def order_client_def client_new_def
      trading_engine_new_def split: sum.splits option.splits if_splits)

definition sample_config :: config where
  "sample_config =
     \<lparr>cf_server = \<lparr>sc_host = ''0.0.0.0'', sc_port = 8080, sc_shutdown_timeout = 30\<rparr>,
      cf_database = \<lparr>dc_url = ''postgres'', dc_max_connections = 10, dc_min_connections = 1, dc_connect_timeout = 5,
        dc_idle_timeout = 60, dc_max_lifetime = 600\<rparr>,
      cf_nats = \<lparr>nc_url = ''nats'', nc_order_subject = ''orders'', nc_fill_subject = ''fills'', nc_depth_subject = ''depth'',
        nc_connect_timeout = 5, nc_request_timeout = 500\<rparr>,
      cf_jwt = \<lparr>jc_secret = ''secret'', jc_ttl_secs = 3600\<rparr>,
      cf_engine = \<lparr>ec_submit_timeout_ms = 500, ec_cancel_timeout_ms = 500, ec_cb_failure_threshold = 5,
        ec_cb_recovery_secs = 30\<rparr>,
      cf_polymarket_api_key = None, cf_polymarket_api_secret = None, cf_polymarket_api_passphrase = None,
      cf_trading_markets = None, cf_polygon_rpc_url = None, cf_polygon_private_key = None\<rparr>"

definition sample_libraries :: "unit libraries" where
  "sample_libraries =
     \<lparr>lb_config = Inr sample_config, lb_pool = Inr (), lb_migrations = Inr (), lb_nats = Done (Inr ()),
      lb_client_error = None, lb_engine_client_error = None, lb_web3 = Inl (Internal []), lb_listener = Inr (),
      lb_breaker = False\<rparr>"

lemma server_starts_witness:
  "\<exists>sys. boot_main ''https://clob'' sample_libraries = ([FillProcessorTask, AnalyticsWorker, CleanupJob], Serving sys) \<and>
     \<not> te_running (sy_engine sys) \<and> pc_api_key (sy_order_client sys) = []"
proof -
  obtain sys where b: "boot_main ''https://clob'' sample_libraries =
      ([FillProcessorTask, AnalyticsWorker, CleanupJob], Serving sys)"
    by (simp add: boot_main_def sample_libraries_def sample_config_def db_connect_def nats_connect_def try_client_def
        start_trading_def)
  from server_starts [OF b] have "\<not> te_running (sy_engine sys)" "sy_order_client sys = order_client ''https://clob'' sample_config"
    by (auto simp: sample_libraries_def sample_config_def credentials_def)
  with b show ?thesis by (simp add: order_client_def client_new_def unwrap_or_default_def sample_config_def)
qed

text \<open>The clean-up job is one of the services, and a tick whose request gets through leaves no expired key.\<close>

lemma cleanup_served: "(served oenv)\<^sup>*\<^sup>* w (snd (cleanup_job ticks w))"
proof (induction ticks arbitrary: w)
  case (Cons now ticks)
  have turn: "cleanup_turn now w = (Inr (), snd (expire_idempotency_keys now w))"
    by (simp add: cleanup_turn_def io_catch_def io_return_def split: prod.splits)
  then have "snd (cleanup_job (now # ticks) w) = snd (cleanup_job ticks (snd (expire_idempotency_keys now w)))"
    by (simp add: cleanup_job_def io_bind_def)
  with Cons.IH served.intros(13) [of oenv w now] show ?case by (metis converse_rtranclp_into_rtranclp)
qed (simp add: cleanup_job_def io_return_def)

lemma cleanup_expires:
  "\<exists>d'. cleanup_turn now (online d) = (Inr (), online d') \<and>
     db_idem d' = filter (\<lambda>r. now \<le> idem_expires_at r) (db_idem d)"
  by (rule exI [of _ "d\<lparr>db_idem := filter (\<lambda>r. now \<le> idem_expires_at r) (db_idem d)\<rparr>"])
    (simp add: cleanup_turn_def io_defs expire_idempotency_keys_def db_run_online expire_stmt_def stmt_write_def
      not_less split: prod.splits)

end
