(* ===== verification/Analytics_Handlers.thy ===== *)
theory Analytics_Handlers
  imports Handlers Signals Regime Ml_Predictor Arbitrage
begin

text \<open>
  \<open>handlers/analytics.rs\<close> of \<open>api-http\<close>. The \<open>AnalyticsEngine\<close> the handlers ask is not in the repository: what it
  answers is a parameter, over the types of \<open>analytics/src\<close>. A response body is a \<open>json\<close> value; the text of a
  number, a date or a UUID inside a string belongs to other crates and stays a fragment. The theorems say
  which requests are answered, and what the answers can contain.
\<close>

section \<open>Bodies\<close>

datatype text_part = Plain string | UuidPart uuid | TimePart datetime | FloatPart f64

text \<open>Integers and floats are numbers of their own; \<open>serde_json\<close> has no NaN and no infinities.\<close>

datatype json =
    JNull
  | JInt int
  | JFloat f64
  | JString "text_part list"
  | JArray "json list"
  | JObject "(string \<times> json) list"

definition json_text :: "string \<Rightarrow> json" where
  "json_text s = JString [Plain s]"

definition json_f64 :: "f64 \<Rightarrow> json" where
  "json_f64 x = (case x of Fin _ _ \<Rightarrow> JFloat x | _ \<Rightarrow> JNull)"

definition json_time :: "datetime \<Rightarrow> json" where
  "json_time t = JString [TimePart t]"

fun member :: "string \<Rightarrow> json \<Rightarrow> json option" where
  "member k (JObject fs) = map_of fs k"
| "member k _ = None"

text \<open>The derived \<open>Debug\<close> texts.\<close>

fun debug_signal_type :: "signal_type \<Rightarrow> string" where
  "debug_signal_type SignalBuy = ''Buy''"
| "debug_signal_type SignalSell = ''Sell''"
| "debug_signal_type SignalHold = ''Hold''"
| "debug_signal_type SignalClose = ''Close''"

fun debug_regime :: "market_regime \<Rightarrow> string" where
  "debug_regime TrendingUp = ''TrendingUp''"
| "debug_regime TrendingDown = ''TrendingDown''"
| "debug_regime Ranging = ''Ranging''"
| "debug_regime HighVolatility = ''HighVolatility''"
| "debug_regime LowLiquidity = ''LowLiquidity''"
| "debug_regime NormalRegime = ''Normal''"

fun debug_volatility :: "volatility_regime \<Rightarrow> string" where
  "debug_volatility VolLow = ''Low''"
| "debug_volatility VolMedium = ''Medium''"
| "debug_volatility VolHigh = ''High''"
| "debug_volatility VolExtreme = ''Extreme''"

fun debug_action :: "arb_action \<Rightarrow> string" where
  "debug_action BuyA_SellB = ''BuyA_SellB''"
| "debug_action SellA_BuyB = ''SellA_BuyB''"
| "debug_action ArbHold = ''Hold''"

text \<open>The serialized form of \<open>TradingSignalType\<close>: its variant names.\<close>

fun trading_signal_name :: "trading_signal_type \<Rightarrow> string" where
  "trading_signal_name TradeBuy = ''Buy''"
| "trading_signal_name TradeSell = ''Sell''"
| "trading_signal_name TradeHold = ''Hold''"

text \<open>The \<open>Position\<close> of \<open>analytics/src/types.rs\<close>; its products and sums wrap around.\<close>

record held_position =
  hp_id :: uuid
  hp_user_id :: user_id
  hp_market_id :: market_id
  hp_side :: side
  hp_entry_price :: price
  hp_current_price :: price
  hp_quantity :: quantity
  hp_realized_pnl :: i64
  hp_unrealized_pnl :: i64
  hp_opened_at :: datetime
  hp_last_updated :: datetime

definition market_value :: "held_position \<Rightarrow> i64" where
  "market_value p = ucast (price_raw (hp_current_price p)) * quantity_raw (hp_quantity p)"

definition held_total_pnl :: "held_position \<Rightarrow> i64" where
  "held_total_pnl p = hp_realized_pnl p + hp_unrealized_pnl p"

section \<open>What the handlers ask\<close>

record analytics_engine =
  ae_generate_signals :: "market_id \<Rightarrow> signal list"
  ae_current_regime :: "market_id \<Rightarrow> market_regime"
  ae_regime_state :: "market_id \<Rightarrow> regime_state option"
  ae_predict :: "market_id \<Rightarrow> ml_prediction option"
  ae_scan_arbitrage :: "opportunity list"
  ae_user_pnl :: "user_id \<Rightarrow> f64 \<times> f64"
  ae_user_exposure :: "user_id \<Rightarrow> f64"

text \<open>
  The extractor \<open>Path<Uuid>\<close> on the parameters of the route: one that is not a UUID is a bad request, and a route
  with another number of parameters is an internal error.
\<close>

definition path_uuid :: "(string \<Rightarrow> uuid option) \<Rightarrow> string list \<Rightarrow> http_status + uuid" where
  "path_uuid parse params =
     (case params of
        [s] \<Rightarrow> (case parse s of None \<Rightarrow> Inl BAD_REQUEST | Some u \<Rightarrow> Inr u)
      | _ \<Rightarrow> Inl INTERNAL_SERVER_ERROR)"

section \<open>Handlers of a market\<close>

definition signal_json :: "signal \<Rightarrow> json" where
  "signal_json s = JObject
     [(''market_id'', JString [UuidPart (market_uuid (sl_market_id s))]),
      (''type'', json_text (debug_signal_type (sl_signal_type s))),
      (''strength'', JString [FloatPart (sl_strength s)]),
      (''confidence'', json_f64 (sl_confidence s)),
      (''expected_return'', JInt (sint (sl_expected_return s))),
      (''time_horizon'', JInt (uint (sl_time_horizon s))),
      (''created_at'', json_time (sl_created_at s)),
      (''expires_at'', json_time (sl_expires_at s))]"

definition get_signals :: "analytics_engine \<Rightarrow> uuid \<Rightarrow> json app_result" where
  "get_signals ae i =
     Inr (JObject [(''signals'', JArray (map signal_json (ae_generate_signals ae (MarketId i))))])"

definition get_market_regime :: "analytics_engine \<Rightarrow> uuid \<Rightarrow> json app_result" where
  "get_market_regime ae i =
     Inr (JObject [(''market_id'', JString [UuidPart i]),
                   (''regime'', json_text (debug_regime (ae_current_regime ae (MarketId i))))])"

definition get_regime_details :: "analytics_engine \<Rightarrow> uuid \<Rightarrow> json app_result" where
  "get_regime_details ae i =
     (case ae_regime_state ae (MarketId i) of
        Some r \<Rightarrow> Inr (JObject
          [(''market_id'', json_text (rs_market_id r)),
           (''regime'', json_text (debug_regime (rs_regime r))),
           (''volatility'', json_text (debug_volatility (rs_volatility r))),
           (''trend_strength'', json_f64 (rs_trend_strength r)),
           (''volatility_measure'', json_f64 (rs_volatility_measure r)),
           (''liquidity_score'', json_f64 (rs_liquidity_score r)),
           (''timestamp'', json_time (rs_timestamp r))])
      | None \<Rightarrow> Inr (JObject [(''error'', json_text ''insufficient data'')]))"

definition get_ml_prediction :: "analytics_engine \<Rightarrow> uuid \<Rightarrow> json app_result" where
  "get_ml_prediction ae i =
     (case ae_predict ae (MarketId i) of
        Some p \<Rightarrow> Inr (JObject
          [(''market_id'', json_text (pr_market_id p)),
           (''signal_type'', json_text (trading_signal_name
              (if f64_less (f64_lit 0) (pr_predicted_direction p) then TradeBuy else TradeSell))),
           (''confidence'', json_f64 (pr_confidence p)),
           (''expected_return_bps'', JInt (pr_expected_return_bps p)),
           (''volatility_forecast'', json_f64 (pr_volatility_forecast p)),
           (''features'', JArray (map json_f64 (pr_features p))),
           (''model_version'', json_text (pr_model_version p)),
           (''timestamp'', json_time (pr_timestamp p))])
      | None \<Rightarrow> Inr (JObject [(''error'', json_text ''insufficient data for prediction'')]))"

definition opportunity_json :: "opportunity \<Rightarrow> json" where
  "opportunity_json o' = JObject
     [(''market_a'', json_text (op_market_a o')),
      (''market_b'', json_text (op_market_b o')),
      (''spread_zscore'', json_f64 (op_spread_zscore o')),
      (''correlation'', json_f64 (op_correlation o')),
      (''hedge_ratio'', json_f64 (op_hedge_ratio o')),
      (''action'', json_text (debug_action (op_suggested_action o'))),
      (''expected_profit_bps'', JInt (op_expected_profit_bps o')),
      (''confidence'', json_f64 (op_confidence o')),
      (''timestamp'', json_time (op_timestamp o'))]"

definition get_arbitrage_opportunities :: "analytics_engine \<Rightarrow> json app_result" where
  "get_arbitrage_opportunities ae =
     Inr (JObject [(''opportunities'', JArray (map opportunity_json (ae_scan_arbitrage ae)))])"

text \<open>The alerts are an empty vector, turned into JSON at the time \<open>now\<close>.\<close>

definition alert_json :: "datetime \<Rightarrow> string \<Rightarrow> json" where
  "alert_json now a = JObject [(''alert'', json_text a), (''timestamp'', json_time now)]"

definition get_position_alerts :: "datetime \<Rightarrow> json app_result" where
  "get_position_alerts now =
     (let alerts = [] :: string list in Inr (JObject [(''alerts'', JArray (map (alert_json now) alerts))]))"

section \<open>Handlers of a user\<close>

text \<open>\<open>Uuid::parse_str(...)?\<close>; the text of the parse error belongs to the \<open>uuid\<close> crate.\<close>

definition parse_user :: "jwt_deps \<Rightarrow> (string \<Rightarrow> string) \<Rightarrow> string \<Rightarrow> user_id app_result" where
  "parse_user j uuid_error s =
     (case uuid_parse j s of None \<Rightarrow> Inl (from_uuid_error (uuid_error s)) | Some u \<Rightarrow> Inr (UserId u))"

definition get_pnl ::
  "jwt_deps \<Rightarrow> (string \<Rightarrow> string) \<Rightarrow> analytics_engine \<Rightarrow> datetime \<Rightarrow> auth_context option \<Rightarrow> json app_result" where
  "get_pnl j uuid_error ae now ctx =
     (case get_auth_context ctx of
        Inl _ \<Rightarrow> Inl Unauthorized
      | Inr c \<Rightarrow>
          (case parse_user j uuid_error (ctx_user_id c) of
             Inl e \<Rightarrow> Inl e
           | Inr u \<Rightarrow>
               (case ae_user_pnl ae u of (realized, unrealized) \<Rightarrow> Inr (JObject
                  [(''user_id'', json_text (ctx_user_id c)),
                   (''realized_pnl'', json_f64 realized),
                   (''unrealized_pnl'', json_f64 unrealized),
                   (''total_pnl'', json_f64 (f64_add realized unrealized)),
                   (''exposure'', json_f64 (ae_user_exposure ae u)),
                   (''timestamp'', json_time now)]))))"

text \<open>
  \<open>get_risk\<close> and \<open>get_positions\<close> take an \<open>AuthContextExtractor\<close>, a type the repository does not have; its
  content is the argument.
\<close>

definition get_risk ::
  "jwt_deps \<Rightarrow> (string \<Rightarrow> string) \<Rightarrow> analytics_engine \<Rightarrow> datetime \<Rightarrow> auth_context \<Rightarrow> json app_result" where
  "get_risk j uuid_error ae now c =
     (case parse_user j uuid_error (ctx_user_id c) of
        Inl e \<Rightarrow> Inl e
      | Inr u \<Rightarrow>
          (let exposure = ae_user_exposure ae u; alerts = [] :: string list;
               risk_score = if f64_less (f64_lit 100000) exposure then ''high'' else ''normal'' in
           case ae_user_pnl ae u of (realized, unrealized) \<Rightarrow> Inr (JObject
             [(''user_id'', json_text (ctx_user_id c)),
              (''exposure_usd'', json_f64 exposure),
              (''realized_pnl'', json_f64 realized),
              (''unrealized_pnl'', json_f64 unrealized),
              (''total_pnl'', json_f64 (f64_add realized unrealized)),
              (''risk_level'', json_text risk_score),
              (''alerts'', JArray (map json_text alerts)),
              (''timestamp'', json_time now)])))"

definition get_positions ::
  "jwt_deps \<Rightarrow> (string \<Rightarrow> string) \<Rightarrow> analytics_engine \<Rightarrow> datetime \<Rightarrow> auth_context \<Rightarrow> json app_result" where
  "get_positions j uuid_error ae now c =
     (case parse_user j uuid_error (ctx_user_id c) of
        Inl e \<Rightarrow> Inl e
      | Inr u \<Rightarrow>
          (let alerts = [] :: string list; exposure = ae_user_exposure ae u in
           case ae_user_pnl ae u of (realized, unrealized) \<Rightarrow> Inr (JObject
             [(''user_id'', json_text (ctx_user_id c)),
              (''positions'', JArray (map (alert_json now) alerts)),
              (''exposure_usd'', json_f64 exposure),
              (''realized_pnl'', json_f64 realized),
              (''unrealized_pnl'', json_f64 unrealized),
              (''timestamp'', json_time now)])))"

section \<open>Which requests are answered\<close>

text \<open>A request that the router has sent to \<open>get_signals\<close>, with the parameters of its path.\<close>

definition signals_request :: "analytics_engine \<Rightarrow> (string \<Rightarrow> uuid option) \<Rightarrow> string list \<Rightarrow> http_status + json app_result" where
  "signals_request ae parse params =
     (case path_uuid parse params of Inl s \<Rightarrow> Inl s | Inr i \<Rightarrow> Inr (get_signals ae i))"

lemma route_in_table:
  "route m path = Some (g, e, ps) \<Longrightarrow> \<exists>segs. (g, m, segs, e) \<in> set routes \<and> match_path segs path = Some ps"
  by (auto simp: route_def find_Some_iff in_set_conv_nth split: option.splits) blast

lemma signals_params:
  assumes "route m path = Some (g, GetSignals, ps)"
  shows "ps = []"
proof -
  obtain segs where "(g, m, segs, GetSignals) \<in> set routes" and match: "match_path segs path = Some ps"
    using route_in_table [OF assms] by blast
  then have "segs = [Seg ''analytics'', Seg ''signals'']" by (simp add: routes_def)
  with match show ?thesis
    by (cases path; cases "tl path"; cases "tl (tl path)") (auto split: if_splits)
qed

text \<open>
  The signals of a market cannot be asked for. The handler wants the id of a market from the path, its route
  has no parameter, so every request that the router sends to it ends in an internal error, whatever the
  analytics engine knows; the route itself exists and is reached.
\<close>
theorem signals_route_always_fails:
  assumes "route m path = Some (g, GetSignals, ps)"
  shows "signals_request ae parse ps = Inl INTERNAL_SERVER_ERROR"
  using signals_params [OF assms] by (simp add: signals_request_def path_uuid_def)

definition sample_engine :: analytics_engine where
  "sample_engine =
     \<lparr>ae_generate_signals = (\<lambda>_. []), ae_current_regime = (\<lambda>_. NormalRegime), ae_regime_state = (\<lambda>_. None),
      ae_predict = (\<lambda>_. None), ae_scan_arbitrage = [], ae_user_pnl = (\<lambda>_. (f64_lit 0, f64_lit 0)),
      ae_user_exposure = (\<lambda>_. f64_lit 200000)\<rparr>"

lemma signals_route_always_fails_witness:
  "route GET [''analytics'', ''signals''] = Some (UserRoutes, GetSignals, []) \<and>
   signals_request sample_engine (\<lambda>_. Some 7) [] = Inl INTERNAL_SERVER_ERROR"
proof -
  have r: "route GET [''analytics'', ''signals''] = Some (UserRoutes, GetSignals, [])"
    by (simp add: route_def routes_def)
  with signals_route_always_fails [OF r, of sample_engine "\<lambda>_. Some 7"] show ?thesis by simp
qed

lemma member_Cons: "member k (JObject ((k', v) # fs)) = (if k' = k then Some v else member k (JObject fs))"
  by simp

text \<open>
  The reports of a user never contain an alert or a position. Whatever the analytics engine answers, the risk
  report has no alerts and its level says high exactly when the exposure compares above 100000 (so not for an
  exposure that is NaN, which is reported as null), and the list of positions is empty.
\<close>
theorem user_reports_are_empty:
  assumes "get_risk j uuid_error ae now c = Inr report" and "get_positions j uuid_error ae now c = Inr positions"
  shows "member ''alerts'' report = Some (JArray []) \<and> member ''positions'' positions = Some (JArray []) \<and>
    (\<exists>u. uuid_parse j (ctx_user_id c) = Some u \<and>
      member ''exposure_usd'' report = Some (json_f64 (ae_user_exposure ae (UserId u))) \<and>
      (member ''risk_level'' report = Some (json_text ''high'') \<longleftrightarrow>
        f64_less (f64_lit 100000) (ae_user_exposure ae (UserId u))))"
  using assms
  by (auto simp: get_risk_def get_positions_def parse_user_def Let_def json_text_def
      split: option.splits prod.splits if_splits)

lemma user_reports_are_empty_witness:
  "\<exists>report. get_risk (sample_deps\<lparr>uuid_parse := \<lambda>_. Some 7\<rparr>) (\<lambda>_. []) sample_engine 3 \<lparr>ctx_user_id = ''u'', ctx_is_admin = False\<rparr> = Inr report \<and>
     member ''alerts'' report = Some (JArray [])"
proof -
  let ?j = "sample_deps\<lparr>uuid_parse := \<lambda>_. Some 7\<rparr>" and ?c = "\<lparr>ctx_user_id = ''u'', ctx_is_admin = False\<rparr>"
  obtain report positions where
    r: "get_risk ?j (\<lambda>_. []) sample_engine 3 ?c = Inr report" "get_positions ?j (\<lambda>_. []) sample_engine 3 ?c = Inr positions"
    by (simp add: get_risk_def get_positions_def parse_user_def Let_def sample_engine_def)
  with user_reports_are_empty [OF r] show ?thesis by blast
qed

end
