(* ===== verification/Web_App.thy ===== *)
theory Web_App
  imports Startup Analytics_Handlers
begin

text \<open>
  The API as \<open>main.rs\<close> and \<open>router.rs\<close> put it together: a request goes through the routing table, the layers of
  its group, the extractors of its handler and the handler (\<open>serve\<close>), and beside the requests the fill processor
  and the clean-up job work on the same database (\<open>deployed\<close>). The reply is its status; the bodies of replies
  are the results of the handlers. The theorems say what no such deployment can do, and that the one of \<open>main\<close>, whose
  rate limiters never get the address they ask for, serves no route of a user at all.
\<close>

section \<open>Requests and replies\<close>

text \<open>The JSON body, as far as it has the form of the request of some handler.\<close>

datatype 'd body =
    NoBody
  | Credentials string string
  | DepositForm deposit_request
  | AmountForm f64
  | OrderForm "'d place_order_request"
  | MarketForm string string "datetime option"

text \<open>The segments below \<open>/v1\<close>, the headers the code looks at, and the fields of the query.\<close>

record 'd web_request =
  wr_method :: http_method
  wr_path :: "string list"
  wr_ip :: string
  wr_authorization :: "string option"
  wr_idempotency_key :: "string option"
  wr_body :: "'d body"
  wr_status :: "string option"
  wr_limit :: "i64 option"
  wr_market :: "uuid option"

text \<open>
  \<open>Rejected\<close> is the answer of an extractor of the library to a body or a query it cannot read, \<open>Upgraded\<close> the
  hand-over to the socket handler, \<open>Crashed\<close> a panic of the handler.
\<close>

datatype reply = NoRoute | Rejected | Answered http_status | Upgraded | Crashed

text \<open>What the handlers are built with, and what each request draws: the time, identifiers and the exchange's answer.\<close>

record 'd app_env =
  ap_handler :: handler_env
  ap_order :: "'d order_env"
  ap_password :: password_env
  ap_jwt :: jwt_service
  ap_analytics :: analytics_engine
  ap_uuid_error :: "string \<Rightarrow> string"

record chance =
  ch_clock :: int
  ch_now :: datetime
  ch_fresh_key :: string
  ch_new_id :: uuid
  ch_salt :: string
  ch_call :: order_call

section \<open>Handlers behind their extractors\<close>

definition answer :: "(http_status \<times> 'a) io \<Rightarrow> 'd app \<Rightarrow> reply \<times> 'd app" where
  "answer m s =
     (case m (fst s) of
        (Inl e, w) \<Rightarrow> (Answered (fst (into_response e)), w, snd s)
      | (Inr (st, _), w) \<Rightarrow> (Answered st, w, snd s))"

definition answer_json :: "'a io \<Rightarrow> 'd app \<Rightarrow> reply \<times> 'd app" where
  "answer_json m = answer (io_bind m (\<lambda>x. io_return (OK, x)))"

text \<open>\<open>Extension<AuthContext>\<close>: without a context in the request the library answers with an internal error.\<close>

definition with_context ::
  "auth_context option \<Rightarrow> (auth_context \<Rightarrow> 'd app \<Rightarrow> reply \<times> 'd app) \<Rightarrow> 'd app \<Rightarrow> reply \<times> 'd app" where
  "with_context ctx f s =
     (case ctx of None \<Rightarrow> (Answered INTERNAL_SERVER_ERROR, s) | Some c \<Rightarrow> f c s)"

definition with_path ::
  "'d app_env \<Rightarrow> string list \<Rightarrow> (uuid \<Rightarrow> 'd app \<Rightarrow> reply \<times> 'd app) \<Rightarrow> 'd app \<Rightarrow> reply \<times> 'd app" where
  "with_path E ps f s =
     (case path_uuid (uuid_parse (he_jwt (ap_handler E))) ps of
        Inl st \<Rightarrow> (Answered st, s)
      | Inr i \<Rightarrow> f i s)"

definition order_endpoint ::
  "'d app_env \<Rightarrow> chance \<Rightarrow> string option \<Rightarrow> auth_context \<Rightarrow> 'd place_order_request \<Rightarrow> 'd app \<Rightarrow> reply \<times> 'd app" where
  "order_endpoint E ch key c req s =
     (case place_order (ap_order E) (ap_handler E) (ch_now ch) (ch_fresh_key ch) (ch_call ch) c key req s of
        None \<Rightarrow> (Crashed, s)
      | Some (Inl e, s') \<Rightarrow> (Answered (fst (into_response e)), s')
      | Some (Inr (st, _), s') \<Rightarrow> (Answered st, s'))"

text \<open>The endpoints before which the auth middleware stands.\<close>

definition user_endpoint ::
  "'d app_env \<Rightarrow> chance \<Rightarrow> 'd web_request \<Rightarrow> endpoint \<Rightarrow> string list \<Rightarrow> auth_context option \<Rightarrow> 'd app \<Rightarrow>
     reply \<times> 'd app" where
  "user_endpoint E ch rq e ps ctx =
     (let env = ap_handler E; j = he_jwt (ap_handler E); ae = ap_analytics E; ue = ap_uuid_error E; now = ch_now ch in
      case e of
        Balance \<Rightarrow> with_context ctx (\<lambda>c. answer_json (handle_balance env c))
      | ListOrders \<Rightarrow> with_context ctx (\<lambda>c.
          answer_json (io_lift (handle_list_orders env c (wr_market rq) (wr_limit rq))))
      | GetOrder \<Rightarrow> with_context ctx (\<lambda>c. with_path E ps (\<lambda>i. answer_json (io_lift (handle_get_order env c i))))
      | CancelOrder \<Rightarrow> with_context ctx (\<lambda>c. with_path E ps (\<lambda>i. answer_json (io_lift (handle_cancel_order env c i))))
      | PlaceOrder \<Rightarrow> with_context ctx (\<lambda>c. with_path E ps (\<lambda>_.
          case wr_body rq of
            OrderForm req \<Rightarrow> order_endpoint E ch (wr_idempotency_key rq) c req
          | _ \<Rightarrow> Pair Rejected))
      | RequestWithdrawal \<Rightarrow> with_context ctx (\<lambda>c.
          case wr_body rq of
            AmountForm a \<Rightarrow> answer (request_withdrawal env (ch_new_id ch) now c a)
          | _ \<Rightarrow> Pair Rejected)
      | ListMine \<Rightarrow> with_context ctx (\<lambda>c. answer_json (list_mine env c (wr_status rq) (wr_limit rq)))
      | GetSignals \<Rightarrow> with_path E ps (\<lambda>i. answer_json (io_lift (get_signals ae i)))
      | GetPnl \<Rightarrow> answer_json (io_lift (get_pnl j ue ae now ctx))
      | GetRisk \<Rightarrow> with_context ctx (\<lambda>c. answer_json (io_lift (get_risk j ue ae now c)))
      | GetPositions \<Rightarrow> with_context ctx (\<lambda>c. answer_json (io_lift (get_positions j ue ae now c)))
      | _ \<Rightarrow> Pair NoRoute)"

text \<open>All endpoints; the health checks find NATS connected, as \<open>is_connected\<close> says.\<close>

definition call_endpoint ::
  "'d app_env \<Rightarrow> chance \<Rightarrow> 'd web_request \<Rightarrow> endpoint \<Rightarrow> string list \<Rightarrow> auth_context option \<Rightarrow> 'd app \<Rightarrow>
     reply \<times> 'd app" where
  "call_endpoint E ch rq e ps ctx =
     (let env = ap_handler E; now = ch_now ch in
      case e of
        Register \<Rightarrow>
          (case wr_body rq of
             Credentials email password \<Rightarrow> answer
               (register_user env (ap_password E) (ap_jwt E) (ch_salt ch) (ch_new_id ch) now email password)
           | _ \<Rightarrow> Pair Rejected)
      | Login \<Rightarrow>
          (case wr_body rq of
             Credentials email password \<Rightarrow> answer_json (login env (ap_password E) (ap_jwt E) now email password)
           | _ \<Rightarrow> Pair Rejected)
      | endpoint.Deposit \<Rightarrow> with_context ctx (\<lambda>c.
          case wr_body rq of
            DepositForm req \<Rightarrow> answer (deposit env now (ch_fresh_key ch) c (wr_idempotency_key rq) req)
          | _ \<Rightarrow> Pair Rejected)
      | ListAllWithdrawals \<Rightarrow> with_context ctx (\<lambda>c. answer_json (list_all c (wr_status rq) (wr_limit rq)))
      | Approve \<Rightarrow> with_context ctx (\<lambda>c. with_path E ps (\<lambda>i. answer_json (approve env now c i)))
      | Reject \<Rightarrow> with_context ctx (\<lambda>c. with_path E ps (\<lambda>i. answer_json (reject env now c i)))
      | HealthCheck \<Rightarrow> answer_json (health_check True)
      | ReadinessCheck \<Rightarrow> answer_json (readiness_check True)
      | ListMarkets \<Rightarrow> answer_json (handle_list_markets (wr_status rq))
      | endpoint.CreateMarket \<Rightarrow> with_context ctx (\<lambda>c.
          case wr_body rq of
            MarketForm title description resolves_at \<Rightarrow>
              answer (handle_create_market env (ch_new_id ch) now c title description resolves_at)
          | _ \<Rightarrow> Pair Rejected)
      | endpoint.GetMarket \<Rightarrow> with_path E ps (\<lambda>i. answer_json (handle_get_market i))
      | GatherMetrics \<Rightarrow> Pair (Answered OK)
      | MarketDepth \<Rightarrow> with_path E ps (\<lambda>_. Pair Upgraded)
      | _ \<Rightarrow> user_endpoint E ch rq e ps ctx)"

text \<open>
  A request, from the router to the reply. The first argument is how the router is served: what its requests carry of
  the address of their client, \<open>plain_service\<close> in \<open>main\<close>. \<open>NoRoute\<close> is the router's own answer to whatever is
  not in its table; a path with another method than the table's is not followed into the layers of the path.
\<close>

type_synonym 'd web = "limits \<times> 'd app"

definition serve ::
  "(string \<Rightarrow> string option) \<Rightarrow> 'd app_env \<Rightarrow> chance \<Rightarrow> 'd web_request \<Rightarrow> 'd web \<Rightarrow> reply \<times> 'd web" where
  "serve mk E ch rq s =
     (case route (wr_method rq) (wr_path rq) of
        None \<Rightarrow> (NoRoute, s)
      | Some (g, e, ps) \<Rightarrow>
          (case admit (ch_clock ch) (mk (wr_ip rq)) (wr_authorization rq) g (fst s) of
             (Inl st, ls) \<Rightarrow> (Answered st, ls, snd s)
           | (Inr ctx, ls) \<Rightarrow>
               (case call_endpoint E ch rq e ps ctx (snd s) of (r, s') \<Rightarrow> (r, ls, s'))))"

section \<open>The deployment\<close>

text \<open>
  Requests, fill events, ticks of the clean-up job and sweeps of the rate limiters, in any order; between them the
  link to the database may change in any way.
\<close>

inductive deployed :: "(string \<Rightarrow> string option) \<Rightarrow> 'd app_env \<Rightarrow> 'd web \<Rightarrow> 'd web \<Rightarrow> bool" for mk E where
  request: "serve mk E ch rq s = (r, s') \<Longrightarrow> deployed mk E s s'"
| fill_event: "process_fill now e w = (r, w') \<Longrightarrow> deployed mk E (ls, w, svc) (ls, w', svc)"
| cleanup: "cleanup_turn now w = (r, w') \<Longrightarrow> deployed mk E (ls, w, svc) (ls, w', svc)"
| link: "w_db w' = w_db w \<Longrightarrow> deployed mk E (ls, w, svc) (ls, w', svc)"
| sweep: "deployed mk E (ls, app) (ls\<lparr>lim_auth := limiter_sweep t (lim_auth ls), lim_order := limiter_sweep t' (lim_order ls)\<rparr>, app)"

section \<open>What requests do to the tables\<close>

text \<open>
  The statements a request of the deployment can issue. Every request is a run of them, so whatever holds of all
  their runs also holds when the statements of several requests interleave.
\<close>

inductive live_step :: "db \<Rightarrow> db \<Rightarrow> bool" where
  new_user: "insert_user_stmt i e p d = Inr (i', d') \<Longrightarrow> live_step d d'"
| audited: "audit_stmt u ac en ei me d = Inr (x, d') \<Longrightarrow> live_step d d'"
| key_claimed: "claim_key_stmt now k d = Inr (n, d') \<Longrightarrow> live_step d d'"
| key_completed: "complete_key_stmt k resp d = Inr (x, d') \<Longrightarrow> live_step d d'"
| keys_expired: "expire_stmt now d = Inr (n, d') \<Longrightarrow> live_step d d'"
| opened: "credit_stmt u 0 d = Inr (x, d') \<Longrightarrow> live_step d d'"
| asked: "create_withdrawal_stmt i now u amt d = Inr (r, d') \<Longrightarrow> live_step d d'"

interpretation live: store_relation "live_step\<^sup>*\<^sup>*"
  by unfold_locales auto

lemma live_one_step: "(\<And>d a d'. s d = Inr (a, d') \<Longrightarrow> live_step d d') \<Longrightarrow> live.conforms s"
  by (rule live.conformsI) blast

lemma live_statements:
  "live.conforms (insert_user_stmt i e p)" "live.conforms (audit_stmt u ac en ei me)"
  "live.conforms (claim_key_stmt now k)" "live.conforms (complete_key_stmt k resp)"
  "live.conforms (expire_stmt now)" "live.conforms (credit_stmt v 0)"
  "live.conforms (create_withdrawal_stmt i now v amt)"
  by (rule live_one_step, erule live_step.intros)+

lemma live_read: "(\<And>d a d'. s d = Inr (a, d') \<Longrightarrow> d' = d) \<Longrightarrow> live.conforms s"
  by (rule live.conformsI) (metis rtranclp.rtrancl_refl)

lemma live_fetch: "live.conforms (\<lambda>d. case q d of None \<Rightarrow> Inl e | Some r \<Rightarrow> Inr (f r, d))"
  by (rule live_read) (auto split: option.splits)

lemmas live_rules = live_fetch live.io_rules live.conforms_rules live_statements

lemma live_methods:
  "live.io_conforms (get_balance u)" "live.io_conforms (credit_balance u 0)"
  "live.io_conforms (insufficient u amt :: 'a io)"
  "live.io_conforms (get_market m)" "live.io_conforms (list_markets st)"
  "live.io_conforms (insert_user i e p)" "live.io_conforms (get_user_by_email em)"
  "live.io_conforms (Db_Users.audit ou ac en ei me)"
  "live.io_conforms (claim_idempotency_key now u key)"
  "live.io_conforms (complete_idempotency_key u key resp)"
  "live.io_conforms (get_idempotency_response u key)" "live.io_conforms (expire_idempotency_keys now)"
  "live.io_conforms (create_withdrawal i' now u amt)" "live.io_conforms (list_withdrawals wu sta n)"
  unfolding get_balance_def credit_balance_def insufficient_def get_market_def list_markets_def insert_user_def
    get_user_by_email_def audit_def claim_idempotency_key_def complete_idempotency_key_def get_idempotency_response_def
    expire_idempotency_keys_def user_or_missing_def create_withdrawal_def list_withdrawals_def Let_def
  by (auto intro!: live_rules intro: live_read split: option.splits)

lemma live_lift: "live.io_conforms (io_lift r)"
  by (auto simp: io_lift_def intro!: live_rules split: sum.splits)

lemma live_as_user: "(\<And>u. live.io_conforms (f u)) \<Longrightarrow> live.io_conforms (as_user env c f)"
  unfolding as_user_def by (intro live.io_conforms_bind live_lift)

lemmas live_handler_rules = live_as_user live_lift live_methods live_rules

lemma live_handlers:
  "live.io_conforms (register_user env pw jwt salt new_id now email password)"
  "live.io_conforms (login env pw jwt now email password)"
  "live.io_conforms (health_check up)" "live.io_conforms (readiness_check up)"
  "live.io_conforms (request_withdrawal env new_id now c amount)"
  "live.io_conforms (list_mine env c status n)" "live.io_conforms (handle_balance env c)"
  "live.io_conforms (handle_list_markets status)" "live.io_conforms (handle_get_market i)"
  unfolding register_user_def login_def issue_io_def health_check_def readiness_check_def check_database_def ping_def
    request_withdrawal_def list_mine_def handle_balance_def handle_list_markets_def handle_get_market_def Let_def
  by (auto intro!: live_handler_rules split: option.splits sum.splits)

lemma live_order_operation:
  "order_operation oenv env call u key req s = Some (r, s') \<Longrightarrow> live_step\<^sup>*\<^sup>* (w_db (fst s)) (w_db (fst s'))"
  using live.io_conformsD [OF live_methods(10)]
  by (auto simp: order_operation_def split: sum.splits prod.splits bind_splits)

lemma live_place_order:
  assumes "place_order oenv env now fresh_key call c header req s = Some (r, s')"
  shows "live_step\<^sup>*\<^sup>* (w_db (fst s)) (w_db (fst s'))"
proof (cases "context_user (he_jwt env) c")
  case (Inl e)
  with assms show ?thesis by (simp add: place_order_def)
next
  case (Inr u)
  let ?key = "idem_key_of header fresh_key"
  obtain cl w where cl: "claim_idempotency_key now u ?key (fst s) = (cl, w)" by fastforce
  from live.io_conformsD [OF live_methods(9) this] have one: "live_step\<^sup>*\<^sup>* (w_db (fst s)) (w_db w)" .
  have two: "live_step\<^sup>*\<^sup>* (w_db w) (w_db w2)" if "get_idempotency_response u ?key w = (g, w2)" for g w2
    using live.io_conformsD [OF live_methods(11) that] .
  from assms Inr cl have "live_step\<^sup>*\<^sup>* (w_db w) (w_db (fst s'))"
    by (auto simp: place_order_def Let_def split: sum.splits idempotency_status.splits prod.splits option.splits
        dest!: live_order_operation two intro: rtranclp_trans)
  with one show ?thesis by simp
qed

text \<open>A piece of the application whose effect on the tables is a run of these statements.\<close>

definition app_live :: "('d app \<Rightarrow> reply \<times> 'd app) \<Rightarrow> bool" where
  "app_live f \<longleftrightarrow> (\<forall>s r s'. f s = (r, s') \<longrightarrow> live_step\<^sup>*\<^sup>* (w_db (fst s)) (w_db (fst s')))"

lemma app_live_pair: "app_live (Pair r)"
  by (simp add: app_live_def)

lemma app_live_answer:
  assumes "live.io_conforms m"
  shows "app_live (answer m)"
  unfolding app_live_def
proof (intro allI impI)
  fix s r s'
  assume "answer m s = (r, s')"
  then obtain x where "m (fst s) = (x, fst s')" by (auto simp: answer_def split: prod.splits sum.splits)
  then show "live_step\<^sup>*\<^sup>* (w_db (fst s)) (w_db (fst s'))" by (rule live.io_conformsD [OF assms])
qed

lemma app_live_json: "live.io_conforms m \<Longrightarrow> app_live (answer_json m)"
  unfolding answer_json_def by (intro app_live_answer live_rules)

lemma app_live_context: "(\<And>c. ctx = Some c \<Longrightarrow> app_live (f c)) \<Longrightarrow> app_live (with_context ctx f)"
  by (auto simp: app_live_def with_context_def split: option.splits)

lemma app_live_path: "(\<And>i. app_live (f i)) \<Longrightarrow> app_live (with_path E ps f)"
  by (auto simp: app_live_def with_path_def split: sum.splits)

lemma app_live_order: "app_live (order_endpoint E ch key c req)"
  by (auto simp: app_live_def order_endpoint_def split: option.splits sum.splits prod.splits dest: live_place_order)

lemmas app_live_rules = app_live_pair app_live_answer app_live_json app_live_context app_live_path app_live_order

definition admin_endpoint :: "endpoint \<Rightarrow> bool" where
  "admin_endpoint e \<longleftrightarrow> e \<in> {endpoint.Deposit, ListAllWithdrawals, Approve, Reject}"

lemma user_endpoint_live: "app_live (user_endpoint E ch rq e ps ctx)"
  unfolding user_endpoint_def Let_def
  by (cases e; simp) (auto intro!: app_live_rules live_handlers live_lift split: body.splits)

lemma call_endpoint_live:
  assumes "\<not> admin_endpoint e" and "e = endpoint.CreateMarket \<Longrightarrow> ctx = None"
  shows "app_live (call_endpoint E ch rq e ps ctx)"
  using assms unfolding call_endpoint_def Let_def
  by (cases e; simp add: admin_endpoint_def)
    (auto intro!: app_live_rules live_handlers user_endpoint_live split: body.splits)

text \<open>No request reaches a handler of an administrator; the one that creates markets never finds a context.\<close>

lemma routes_groups:
  assumes "(g, m, segs, e) \<in> set routes"
  shows "(admin_endpoint e \<longrightarrow> g = AdminRoutes) \<and> (e = endpoint.CreateMarket \<longrightarrow> g = PublicRoutes)"
  using assms by (auto simp: routes_def admin_endpoint_def)

lemma serve_live:
  assumes "serve mk E ch rq s = (r, s')"
  shows "live_step\<^sup>*\<^sup>* (w_db (fst (snd s))) (w_db (fst (snd s')))"
proof (cases "route (wr_method rq) (wr_path rq)")
  case None
  with assms show ?thesis by (simp add: serve_def)
next
  case (Some x)
  obtain g e ps where x: "x = (g, e, ps)" by (cases x)
  obtain segs where "(g, wr_method rq, segs, e) \<in> set routes" using route_in_table [OF Some [unfolded x]] by blast
  from routes_groups [OF this] have grp: "admin_endpoint e \<Longrightarrow> g = AdminRoutes" "e = endpoint.CreateMarket \<Longrightarrow> g = PublicRoutes"
    by auto
  show ?thesis
  proof (cases "admit (ch_clock ch) (mk (wr_ip rq)) (wr_authorization rq) g (fst s)")
    case (Pair a ls)
    show ?thesis
    proof (cases a)
      case (Inl st)
      with assms Some x Pair show ?thesis by (auto simp: serve_def)
    next
      case (Inr ctx)
      then have "\<not> admin_endpoint e" "e = endpoint.CreateMarket \<Longrightarrow> ctx = None"
        using Pair grp by (auto simp: admit_groups)
      then have live: "app_live (call_endpoint E ch rq e ps ctx)" by (rule call_endpoint_live)
      obtain r1 s1 where call: "call_endpoint E ch rq e ps ctx (snd s) = (r1, s1)"
        by (cases "call_endpoint E ch rq e ps ctx (snd s)") auto
      with assms Some x Pair Inr have "s' = (ls, s1)" by (simp add: serve_def)
      moreover have "live_step\<^sup>*\<^sup>* (w_db (fst (snd s))) (w_db (fst s1))"
        using live [unfolded app_live_def, rule_format, OF call] .
      ultimately show ?thesis by simp
    qed
  qed
qed

section \<open>Money in the deployment\<close>

text \<open>What no run of the live statements changes: see \<open>frozen\<close> below for what it is used for.\<close>

definition frozen :: "db \<Rightarrow> db \<Rightarrow> bool" where
  "frozen d d' \<longleftrightarrow>
     (\<forall>u. avail d' u + resv d' u = avail d u + resv d u) \<and> db_markets d' = db_markets d \<and>
     db_deposits d' = db_deposits d \<and> db_orders d' = db_orders d \<and> db_fills d' = db_fills d \<and>
     db_positions d' = db_positions d \<and>
     (\<exists>ws. db_withdrawals d' = db_withdrawals d @ ws \<and> (\<forall>w \<in> set ws. wd_status w = WdPending))"

lemma frozen_refl: "frozen d d"
  by (simp add: frozen_def)

lemma frozen_trans: "frozen d d' \<Longrightarrow> frozen d' d'' \<Longrightarrow> frozen d d''"
  by (auto simp: frozen_def)

lemma frozen_frame:
  assumes "db_balances d' = db_balances d" and "db_withdrawals d' = db_withdrawals d" and "db_markets d' = db_markets d"
    and "db_deposits d' = db_deposits d" and "db_orders d' = db_orders d" and "db_fills d' = db_fills d"
    and "db_positions d' = db_positions d"
  shows "frozen d d'"
  using assms balances_only [OF assms(1)] by (simp add: frozen_def)

lemma frozen_moves:
  assumes "moves u (- s) s d d'" and "db_withdrawals d' = db_withdrawals d @ ws" and "\<forall>w \<in> set ws. wd_status w = WdPending"
    and "db_markets d' = db_markets d" and "db_deposits d' = db_deposits d" and "db_orders d' = db_orders d"
    and "db_fills d' = db_fills d" and "db_positions d' = db_positions d"
  shows "frozen d d'"
  using assms by (auto simp: frozen_def moves_def)

lemma request_frame:
  assumes "create_withdrawal_stmt i now u amt d = Inr (r, d')"
  shows "db_markets d' = db_markets d \<and> db_deposits d' = db_deposits d \<and> db_orders d' = db_orders d \<and>
    db_fills d' = db_fills d \<and> db_positions d' = db_positions d"
proof -
  from assms obtain n d1 where res: "reserve_stmt u amt d = Inr (n, d1)"
    and rest: "d' = d1 \<or> (\<exists>w h. d' = d1\<lparr>db_withdrawals := db_withdrawals d1 @ [w], db_holds := h\<rparr>)"
    by (auto simp: create_withdrawal_stmt_def insert_withdrawal_stmt_def insert_hold_stmt_def
        stmt_defs Let_def split: sum.splits if_splits option.splits) blast+
  from reserve_frame [OF res] rest show ?thesis by auto
qed

lemma live_step_frozen:
  assumes "live_step d d'" and "db_ok d"
  shows "frozen d d'"
proof -
  have ok: "balances_ok d" using assms(2) by (simp add: db_ok_def)
  from assms(1) show ?thesis
  proof cases
    case (opened u x)
    have c: "credit_stmt u 0 d = Inr ((), d')" using opened by simp
    from credit_effect [OF c ok] obtain t where mv: "moves u (- 0) 0 d d'" and d': "d' = d\<lparr>db_balances := t\<rparr>" by auto
    from mv show ?thesis by (rule frozen_moves [where ws = "[]"]) (simp_all add: d')
  next
    case (asked i now u amt r)
    from request_frame [OF asked] have fr: "db_markets d' = db_markets d" "db_deposits d' = db_deposits d"
      "db_orders d' = db_orders d" "db_fills d' = db_fills d" "db_positions d' = db_positions d" by auto
    from create_withdrawal_effect [OF asked ok] show ?thesis
    proof (elim disjE exE conjE)
      fix row
      assume "moves u (- amt) amt d d'" "db_withdrawals d' = db_withdrawals d @ [row]" "wd_status row = WdPending"
      then show ?thesis by (intro frozen_moves [OF _ _ _ fr]) auto
    qed (simp add: frozen_refl)
  qed (auto intro!: frozen_frame simp: insert_user_stmt_def audit_stmt_def claim_key_stmt_def complete_key_stmt_def
      expire_stmt_def stmt_write_def Let_def split: if_splits option.splits)
qed

lemma live_step_db: "live_step d d' \<Longrightarrow> db_step d d'"
  by (induction rule: live_step.induct) (blast intro: db_step.intros)+

lemma live_run_frozen: "live_step\<^sup>*\<^sup>* d d' \<Longrightarrow> db_ok d \<Longrightarrow> frozen d d' \<and> db_ok d'"
  by (induction rule: rtranclp_induct)
    (auto intro: frozen_refl frozen_trans live_step_frozen db_step_ok live_step_db)

text \<open>A fill event finds no order to refer to and changes nothing.\<close>

lemma unfilled_process:
  assumes "process_fill now e w = (r, w')" and "unfilled (w_db w)"
  shows "w_db w' = w_db w"
proof -
  let ?f = "event_fill now e"
  obtain err where err: "insert_fill_stmt ?f (w_db w) = Inl err" using unfilled_insert_fill [OF assms(2)] by blast
  obtain out w1 where run: "insert_fill_dedup ?f w = (out, w1)" by fastforce
  then have "\<exists>e'. out = Inl e'" "w_db w1 = w_db w"
    unfolding insert_fill_dedup_def by (cases rule: db_run_cases; use err in auto)+
  with assms(1) run show ?thesis by (auto simp: process_fill_def Let_def io_bind_def)
qed

abbreviation web_db :: "'d web \<Rightarrow> db" where
  "web_db s \<equiv> w_db (fst (snd s))"

lemma frozen_unfilled: "frozen d d' \<Longrightarrow> unfilled d \<Longrightarrow> unfilled d'"
  by (simp add: frozen_def unfilled_def)

lemma cleanup_live: "cleanup_turn now w = (r, w') \<Longrightarrow> live_step\<^sup>*\<^sup>* (w_db w) (w_db w')"
proof -
  have "live.io_conforms (cleanup_turn now)"
    unfolding cleanup_turn_def by (intro live_rules live_methods)
  then show "cleanup_turn now w = (r, w') \<Longrightarrow> live_step\<^sup>*\<^sup>* (w_db w) (w_db w')" by (rule live.io_conformsD)
qed

lemma deployed_live:
  assumes "deployed mk E s s'" and "unfilled (web_db s)"
  shows "live_step\<^sup>*\<^sup>* (web_db s) (web_db s')"
  using assms by cases (auto dest: serve_live unfilled_process cleanup_live)

lemma deployed_run:
  assumes "(deployed mk E)\<^sup>*\<^sup>* s s'" and "db_ok (web_db s)" and "unfilled (web_db s)"
  shows "frozen (web_db s) (web_db s') \<and> db_ok (web_db s')"
  using assms(1)
proof (induction rule: rtranclp_induct)
  case base
  with assms(2) show ?case by (simp add: frozen_refl)
next
  case (step t s')
  then have "frozen (web_db s) (web_db t)" "db_ok (web_db t)" by auto
  with live_run_frozen [OF deployed_live [OF step(2)]] frozen_unfilled [OF _ assms(3)] show ?case
    by (blast intro: frozen_trans)
qed

text \<open>
  C21: No money ever enters or leaves the deployed API, however its router is served: plainly, as \<open>main\<close> does it, or with
  the addresses the rate limiters ask for. From tables without orders, fills and positions, as the process
  finds them when it is installed, in every run of requests of any kind, fill events, clean-ups and link failures:
  what each user has, available and reserved together, stays what it was (nothing for a user who registers); no
  market and no deposit is ever recorded; and every withdrawal that is requested stays pending for ever. The routes
  of the administrator are guarded by a check for a context that no layer before it sets, the route that creates
  markets has no layer that sets one, and no service stores an order.
\<close>
theorem deployment_moves_no_money:
  assumes "(deployed mk E)\<^sup>*\<^sup>* (ls, w, svc) (ls', w', svc')" and "db_ok (w_db w)" and "unfilled (w_db w)"
  shows "(\<forall>u. avail (w_db w') u + resv (w_db w') u = avail (w_db w) u + resv (w_db w) u) \<and>
    db_markets (w_db w') = db_markets (w_db w) \<and> db_deposits (w_db w') = db_deposits (w_db w) \<and>
    db_fills (w_db w') = [] \<and>
    (\<exists>ws. db_withdrawals (w_db w') = db_withdrawals (w_db w) @ ws \<and> (\<forall>r \<in> set ws. wd_status r = WdPending))"
  using deployed_run [OF assms(1)] assms(2,3) by (simp add: frozen_def unfilled_def)

section \<open>Served as in main\<close>

text \<open>What only reads the tables.\<close>

interpretation still: store_relation "\<lambda>d d' :: db. d' = d"
  by unfold_locales auto

lemma still_read: "(\<And>d a d'. s d = Inr (a, d') \<Longrightarrow> d' = d) \<Longrightarrow> still.conforms s"
  by (rule still.conformsI)

lemma still_fetch: "still.conforms (\<lambda>d. case q d of None \<Rightarrow> Inl e | Some r \<Rightarrow> Inr (f r, d))"
  by (rule still_read) (auto split: option.splits)

lemmas still_rules = still_fetch still.io_rules still.conforms_rules

lemma still_methods: "still.io_conforms (get_market m)" "still.io_conforms (list_markets st)"
  unfolding get_market_def list_markets_def by (auto intro!: still_rules intro: still_read split: option.splits)

lemma still_handlers:
  "still.io_conforms (health_check up)" "still.io_conforms (readiness_check up)"
  "still.io_conforms (handle_list_markets status)" "still.io_conforms (handle_get_market i)"
  unfolding health_check_def readiness_check_def check_database_def ping_def handle_list_markets_def handle_get_market_def Let_def
  by (auto intro!: still_methods still_rules split: option.splits sum.splits)

definition app_still :: "('d app \<Rightarrow> reply \<times> 'd app) \<Rightarrow> bool" where
  "app_still f \<longleftrightarrow> (\<forall>s r s'. f s = (r, s') \<longrightarrow> w_db (fst s') = w_db (fst s) \<and> snd s' = snd s)"

lemma app_still_pair: "app_still (Pair r)"
  by (simp add: app_still_def)

lemma app_still_answer:
  assumes "still.io_conforms m"
  shows "app_still (answer m)"
  unfolding app_still_def
proof (intro allI impI)
  fix s r s'
  assume "answer m s = (r, s')"
  then obtain x where "m (fst s) = (x, fst s')" "snd s' = snd s" by (auto simp: answer_def split: prod.splits sum.splits)
  then show "w_db (fst s') = w_db (fst s) \<and> snd s' = snd s" using still.io_conformsD [OF assms] by blast
qed

lemma app_still_json: "still.io_conforms m \<Longrightarrow> app_still (answer_json m)"
  unfolding answer_json_def by (intro app_still_answer still_rules)

lemma app_still_path: "(\<And>i. app_still (f i)) \<Longrightarrow> app_still (with_path E ps f)"
  by (auto simp: app_still_def with_path_def split: sum.splits)

lemma app_still_no_context: "app_still (with_context None f)"
  by (simp add: app_still_def with_context_def)

lemmas app_still_rules = app_still_pair app_still_answer app_still_json app_still_path app_still_no_context

text \<open>The routes outside the limiters and the administrator's guard.\<close>

lemma routes_open:
  assumes "(g, m, segs, e) \<in> set routes" and "g \<in> {PublicRoutes, WsRoutes}"
  shows "e \<in> {HealthCheck, ReadinessCheck, ListMarkets, endpoint.CreateMarket, endpoint.GetMarket, GatherMetrics, MarketDepth}"
  using assms by (auto simp: routes_def)

lemma open_endpoints_still:
  assumes "e \<in> {HealthCheck, ReadinessCheck, ListMarkets, endpoint.CreateMarket, endpoint.GetMarket, GatherMetrics, MarketDepth}"
  shows "app_still (call_endpoint E ch rq e ps None)"
  using assms unfolding call_endpoint_def Let_def by (auto intro!: app_still_rules still_handlers)

lemma serve_plain_limited:
  assumes "route (wr_method rq) (wr_path rq) = Some (g, e, ps)" and "g \<in> {AuthRoutes, UserRoutes}"
  shows "serve plain_service E ch rq s = (Answered INTERNAL_SERVER_ERROR, s)"
  using assms(1) admit_plain [OF assms(2)] by (simp add: serve_def)

lemma serve_plain_still:
  assumes "serve plain_service E ch rq s = (r, s')"
  shows "web_db s' = web_db s \<and> fst s' = fst s \<and> snd (snd s') = snd (snd s)"
proof (cases "route (wr_method rq) (wr_path rq)")
  case None
  with assms show ?thesis by (simp add: serve_def)
next
  case (Some x)
  obtain g e ps where x: "x = (g, e, ps)" by (cases x)
  obtain segs where tab: "(g, wr_method rq, segs, e) \<in> set routes" using route_in_table [OF Some [unfolded x]] by blast
  consider "g \<in> {AuthRoutes, UserRoutes}" | "g = AdminRoutes" | "g \<in> {PublicRoutes, WsRoutes}" by (cases g) auto
  then show ?thesis
  proof cases
    case 1
    with serve_plain_limited [OF Some [unfolded x]] assms show ?thesis by simp
  next
    case 2
    with assms Some x show ?thesis by (auto simp: serve_def admit_groups)
  next
    case 3
    obtain r1 s1 where call: "call_endpoint E ch rq e ps None (snd s) = (r1, s1)"
      by (cases "call_endpoint E ch rq e ps None (snd s)") auto
    with assms Some x 3 have "s' = (fst s, s1)" by (auto simp: serve_def admit_groups)
    moreover have "w_db (fst s1) = w_db (fst (snd s)) \<and> snd s1 = snd (snd s)"
      using open_endpoints_still [OF routes_open [OF tab 3], unfolded app_still_def, rule_format, OF call] .
    ultimately show ?thesis by simp
  qed
qed

text \<open>A clean-up removes idempotency keys and nothing else.\<close>

definition only_fewer_keys :: "db \<Rightarrow> db \<Rightarrow> bool" where
  "only_fewer_keys d d' \<longleftrightarrow> (\<exists>ks. d' = d\<lparr>db_idem := ks\<rparr> \<and> set ks \<subseteq> set (db_idem d))"

interpretation fewer: store_relation only_fewer_keys
proof
  show "only_fewer_keys d d" for d by (auto simp: only_fewer_keys_def intro: exI [of _ "db_idem d"])
  show "only_fewer_keys d d''" if "only_fewer_keys d d'" "only_fewer_keys d' d''" for d d' d''
  proof -
    from that obtain ks ks' where "d' = d\<lparr>db_idem := ks\<rparr>" "set ks \<subseteq> set (db_idem d)"
      "d'' = d\<lparr>db_idem := ks'\<rparr>" "set ks' \<subseteq> set ks" by (auto simp: only_fewer_keys_def)
    then show ?thesis unfolding only_fewer_keys_def by blast
  qed
qed

lemma cleanup_fewer: "cleanup_turn now w = (r, w') \<Longrightarrow> only_fewer_keys (w_db w) (w_db w')"
proof -
  have "fewer.conforms (expire_stmt now)"
    by (rule fewer.conformsI) (auto simp: expire_stmt_def stmt_write_def Let_def only_fewer_keys_def)
  then have "fewer.io_conforms (expire_idempotency_keys now)"
    unfolding expire_idempotency_keys_def by (intro fewer.io_rules)
  then have "fewer.io_conforms (cleanup_turn now)"
    unfolding cleanup_turn_def by (intro fewer.io_rules)
  then show "cleanup_turn now w = (r, w') \<Longrightarrow> only_fewer_keys (w_db w) (w_db w')" by (rule fewer.io_conformsD)
qed

lemma deployed_plain_step:
  assumes "deployed plain_service E s s'" and "unfilled (web_db s)"
  shows "only_fewer_keys (web_db s) (web_db s')"
  using assms(1)
proof cases
  case (request ch rq r)
  then show ?thesis using serve_plain_still fewer.refl by metis
next
  case (fill_event now e w r w' ls svc)
  then show ?thesis using unfilled_process assms(2) fewer.refl by fastforce
qed (auto intro: cleanup_fewer simp: fewer.refl)

lemma deployed_plain_run:
  assumes "(deployed plain_service E)\<^sup>*\<^sup>* s s'" and "unfilled (web_db s)"
  shows "only_fewer_keys (web_db s) (web_db s')"
  using assms(1)
proof (induction rule: rtranclp_induct)
  case base
  show ?case by (rule fewer.refl)
next
  case (step t s')
  then have "unfilled (web_db t)" using assms(2) by (auto simp: only_fewer_keys_def unfilled_def)
  from fewer.trans [OF step.IH deployed_plain_step [OF step(2) this]] show ?case .
qed

text \<open>
  C35: Served as \<open>main\<close> serves it, the API does nothing for anybody. From tables without orders, fills and positions,
  in every run of requests of any kind, fill events, clean-ups and link failures, the only change ever made to the
  database is that expired idempotency keys disappear: nobody is registered, no order, withdrawal or audit entry is
  recorded. And in every state, whatever its tables, every request to a route behind a rate limiter (registration and
  login, and all routes of users) is answered with an internal error and changes nothing at all: both limiters
  ask for an address that the router, handed to \<open>axum::serve\<close> as it is, never provides. The routes of the administrator
  answer that nobody is authorized.
\<close>
theorem plain_deployment_serves_nobody:
  assumes "(deployed plain_service E)\<^sup>*\<^sup>* (ls, w, svc) (ls', w', svc')" and "unfilled (w_db w)"
  shows "(\<exists>ks. w_db w' = (w_db w)\<lparr>db_idem := ks\<rparr> \<and> set ks \<subseteq> set (db_idem (w_db w))) \<and>
    (\<forall>ch rq g e ps s. route (wr_method rq) (wr_path rq) = Some (g, e, ps) \<longrightarrow>
       (g \<in> {AuthRoutes, UserRoutes} \<longrightarrow> serve plain_service E ch rq s = (Answered INTERNAL_SERVER_ERROR, s)) \<and>
       (g = AdminRoutes \<longrightarrow> serve plain_service E ch rq s = (Answered UNAUTHORIZED, s)))"
proof (intro conjI allI impI)
  show "\<exists>ks. w_db w' = (w_db w)\<lparr>db_idem := ks\<rparr> \<and> set ks \<subseteq> set (db_idem (w_db w))"
    using deployed_plain_run [OF assms(1)] assms(2) by (simp add: only_fewer_keys_def)
next
  fix ch :: chance and rq :: "'a web_request" and g e ps and s :: "'a web"
  assume r: "route (wr_method rq) (wr_path rq) = Some (g, e, ps)"
  show "serve plain_service E ch rq s = (Answered INTERNAL_SERVER_ERROR, s)" if "g \<in> {AuthRoutes, UserRoutes}"
    using serve_plain_limited [OF r that] .
  show "serve plain_service E ch rq s = (Answered UNAUTHORIZED, s)" if "g = AdminRoutes"
    using r that by (simp add: serve_def admit_groups)
qed

lemma answer_created:
  assumes "answer m s = (Answered CREATED, s')"
  obtains x where "m (fst s) = (Inr (CREATED, x), fst s')"
proof (cases "m (fst s)")
  case (Pair r w)
  show ?thesis
  proof (cases r)
    case (Inl e)
    with assms Pair into_response_is_error [of e] show ?thesis by (auto simp: answer_def)
  next
    case (Inr x)
    with assms Pair that show ?thesis by (cases x) (auto simp: answer_def)
  qed
qed

lemma find_append_some: "find P xs = Some x \<Longrightarrow> find P (xs @ ys) = Some x"
  by (induction xs) auto

lemma finds_appended: "find_withdrawal d i = Some r \<Longrightarrow> db_withdrawals d' = db_withdrawals d @ ws \<Longrightarrow> find_withdrawal d' i = Some r"
  using find_append_some by (simp add: find_withdrawal_def)

lemma too_many_status: "rate_limited rule now ip ws x = (TooMany st hs js, ws') \<Longrightarrow> st = TOO_MANY_REQUESTS"
  by (auto simp: rate_limited_def split: prod.splits bool.splits)

text \<open>
  What the code would do once the limiters are given the address they ask for. Whoever knows the id of a user can
  lock the user's money for ever: a request with the header \<open>Bearer\<close>, the text of the id and anything after it, which
  is no token and needs no secret, is served as the user's. When it is answered with CREATED, the amount it names,
  which the user had, has gone from the available to the reserved money, and the withdrawal stays pending in every
  continuation, because nothing can decide it.
\<close>
lemma forged_withdrawal_with_address:
  assumes "jwt_laws (he_jwt (ap_handler E))" and "length (uuid_show (he_jwt (ap_handler E)) u) = 36"
    and "\<not> is_prefix_of ''admin_'' (uuid_show (he_jwt (ap_handler E)) u)"
    and "wr_method rq = POST" and "wr_path rq = [''withdrawals'']"
    and "wr_authorization rq = Some (''Bearer '' @ uuid_show (he_jwt (ap_handler E)) u @ rest)"
    and "serve mk E ch rq s = (Answered CREATED, s')" and "db_ok (web_db s)" and "unfilled (web_db s)"
  shows "\<exists>n row. 0 < n \<and> n \<le> avail (web_db s) u \<and> moves u (- n) n (web_db s) (web_db s') \<and>
    wd_user_id row = u \<and> wd_amount row = n \<and> wd_status row = WdPending \<and>
    (\<forall>t. (deployed mk E)\<^sup>*\<^sup>* s' t \<longrightarrow> find_withdrawal (web_db t) (ch_new_id ch) = Some row)"
proof -
  let ?env = "ap_handler E"
  let ?c = "\<lparr>ctx_user_id = uuid_show (he_jwt ?env) u, ctx_is_admin = False\<rparr>"
  have mw: "auth_middleware (wr_authorization rq) = Inr ?c" and u: "context_user (he_jwt ?env) ?c = Inr (UserId u)"
    using header_of_id [OF assms(1-3)] assms(6) by simp_all
  have "route POST [''withdrawals''] = Some (UserRoutes, RequestWithdrawal, [])"
    by (simp add: route_def routes_def)
  with assms(4-7) mw obtain a where run: "answer (request_withdrawal ?env (ch_new_id ch) (ch_now ch) ?c a) (snd s) =
      (Answered CREATED, snd s')"
    by (auto simp: serve_def admit_def extract_connect_info_def call_endpoint_def user_endpoint_def with_context_def Let_def
        split: limited.splits prod.splits body.splits option.splits dest!: too_many_status)
  then obtain row where req: "request_withdrawal ?env (ch_new_id ch) (ch_now ch) ?c a (fst (snd s)) = (Inr (CREATED, row), fst (snd s'))"
    by (rule answer_created)
  from request_effect [OF req assms(8)] u
  have eff: "0 < wd_amount row" "wd_amount row \<le> avail (web_db s) u" "moves u (- wd_amount row) (wd_amount row) (web_db s) (web_db s')"
    "find_withdrawal (web_db s') (ch_new_id ch) = Some row" "wd_status row = WdPending" "wd_user_id row = u"
    by auto
  from live_run_frozen [OF serve_live [OF assms(7)] assms(8)] frozen_unfilled [OF _ assms(9)]
  have ok: "db_ok (web_db s')" "unfilled (web_db s')" by auto
  have "find_withdrawal (web_db t) (ch_new_id ch) = Some row" if "(deployed mk E)\<^sup>*\<^sup>* s' t" for t
    using deployed_run [OF that ok] finds_appended [OF eff(4)] by (auto simp: frozen_def)
  with eff show ?thesis by blast
qed

definition sample_app_env :: "rat app_env" where
  "sample_app_env =
     \<lparr>ap_handler = sample_handler_env\<lparr>he_jwt := sample_deps\<rparr>, ap_order = sample_order_env, ap_password = plain_passwords,
      ap_jwt = \<lparr>jwt_secret = ''k'', jwt_ttl_secs = 3600\<rparr>, ap_analytics = sample_engine, ap_uuid_error = (\<lambda>_. [])\<rparr>"

definition sample_chance :: chance where
  "sample_chance = \<lparr>ch_clock = 0, ch_now = 0, ch_fresh_key = ''f'', ch_new_id = 41, ch_salt = ''s'', ch_call = sample_call\<rparr>"

definition forged_request :: "rat web_request" where
  "forged_request =
     \<lparr>wr_method = POST, wr_path = [''withdrawals''], wr_ip = ''1.2.3.4'',
      wr_authorization = Some (''Bearer '' @ ''00000000-0000-0000-0000-000000000007''), wr_idempotency_key = None,
      wr_body = AmountForm (Fin False (1 / 20)), wr_status = None, wr_limit = None, wr_market = None\<rparr>"

definition victim_db :: db where
  "victim_db = empty_db
     \<lparr>db_users := [\<lparr>usr_id = 7, usr_email = ''a@b'', usr_password_hash = ''h'', usr_is_admin = False\<rparr>],
      db_balances := [\<lparr>bal_user = 7, bal_available = 1000, bal_reserved = 0, bal_version = 0\<rparr>]\<rparr>"

definition victim_web :: "rat web" where
  "victim_web = (\<lparr>lim_auth = (\<lambda>_. None), lim_order = (\<lambda>_. None)\<rparr>, online victim_db, sample_service)"

definition victim_context :: auth_context where
  "victim_context = \<lparr>ctx_user_id = ''00000000-0000-0000-0000-000000000007'', ctx_is_admin = False\<rparr>"

lemma victim_authorized:
  "auth_middleware (wr_authorization forged_request) = Inr victim_context"
  "context_user sample_deps victim_context = Inr (UserId 7)"
  by code_simp+

lemma forged_served:
  "\<exists>ls. serve connect_info_service sample_app_env sample_chance forged_request victim_web =
     (case answer (request_withdrawal (ap_handler sample_app_env) 41 0 victim_context (Fin False (1 / 20))) (snd victim_web) of
        (r, s') \<Rightarrow> (r, ls, s'))"
proof -
  have "route (wr_method forged_request) (wr_path forged_request) = Some (UserRoutes, RequestWithdrawal, [])"
    by (simp add: forged_request_def route_def routes_def)
  then show ?thesis
    by (simp add: serve_def admit_def connect_info_service_def extract_connect_info_def rate_limited_def limiter_check_def order_rate_limit_def victim_authorized
        call_endpoint_def user_endpoint_def with_context_def Let_def victim_web_def)
      (simp add: forged_request_def sample_chance_def, blast)
qed

definition victim_withdrawal :: withdrawal_row where
  "victim_withdrawal =
     \<lparr>wd_id = 41, wd_user_id = 7, wd_amount = 500, wd_status = WdPending, wd_reference = None,
      wd_reviewed_by = None, wd_reviewed_at = None, wd_created_at = 0\<rparr>"

lemma victim_request:
  "request_withdrawal (ap_handler sample_app_env) 41 0 victim_context (Fin False (1 / 20)) =
     io_bind (create_withdrawal 41 0 (UserId 7) 500) (\<lambda>row.
     io_bind (audit (Some (UserId 7)) ''request_withdrawal'' ''withdrawal'' (Some (sample_uuid_show (wd_id row)))
                (Some ''meta'')) (\<lambda>_. io_return (CREATED, row)))"
proof -
  have n: "amount_units (Fin False (1 / 20)) = 500" by code_simp
  have "he_amount_meta (ap_handler sample_app_env) x = ''meta''" "he_jwt (ap_handler sample_app_env) = sample_deps"
    "uuid_show sample_deps = sample_uuid_show" for x
    by (simp_all add: sample_app_env_def sample_handler_env_def sample_deps_def)
  then show ?thesis
    by (rule_tac ext) (simp add: request_withdrawal_def as_user_def victim_authorized n io_lift_def io_defs Let_def uuid_text_def)
qed

lemma victim_creates:
  "\<exists>d1. create_withdrawal 41 0 (UserId 7) 500 (online victim_db) = (Inr victim_withdrawal, online d1) \<and>
     db_users d1 = db_users victim_db"
proof -
  let ?s = "create_withdrawal_stmt 41 0 (user_uuid (UserId 7)) (sint (500 :: i64))"
  have "case ?s victim_db of Inl e \<Rightarrow> False | Inr (r, d1) \<Rightarrow> r = Some victim_withdrawal \<and> db_users d1 = db_users victim_db"
    by code_simp
  then show ?thesis
    by (auto simp: create_withdrawal_def io_defs db_run_online split: sum.splits)
qed

lemma victim_requests:
  "fst (request_withdrawal (ap_handler sample_app_env) 41 0 victim_context (Fin False (1 / 20)) (online victim_db)) =
     Inr (CREATED, victim_withdrawal)"
proof -
  obtain d1 where d1: "create_withdrawal 41 0 (UserId 7) 500 (online victim_db) = (Inr victim_withdrawal, online d1)"
    "db_users d1 = db_users victim_db" using victim_creates by blast
  have "text_ok (sample_uuid_show 41)" by code_simp
  moreover have "user_exists d1 7" "wd_id victim_withdrawal = 41"
    using d1(2) by (simp_all add: user_exists_def victim_db_def victim_withdrawal_def)
  ultimately show ?thesis
    unfolding victim_request
    by (simp add: io_defs d1(1) audit_def db_run_online audit_stmt_def stmt_write_def text_ok_def)
qed

lemma forged_created: "fst (serve connect_info_service sample_app_env sample_chance forged_request victim_web) = Answered CREATED"
proof -
  obtain ls where "serve connect_info_service sample_app_env sample_chance forged_request victim_web =
     (case answer (request_withdrawal (ap_handler sample_app_env) 41 0 victim_context (Fin False (1 / 20))) (snd victim_web) of
        (r, s') \<Rightarrow> (r, ls, s'))" using forged_served by blast
  moreover have "fst (answer (request_withdrawal (ap_handler sample_app_env) 41 0 victim_context (Fin False (1 / 20))) (snd victim_web)) =
      Answered CREATED"
    using victim_requests by (auto simp: answer_def victim_web_def split: prod.splits sum.splits)
  ultimately show ?thesis by (simp split: prod.splits)
qed

lemma victim_ok: "db_ok victim_db" "unfilled victim_db"
  by (simp_all add: db_ok_def users_ok_def markets_ok_def balances_ok_def orders_ok_def fills_ok_def
      positions_ok_def withdrawals_ok_def idem_ok_def victim_db_def empty_db_def balance_ok_def i64_ok_def
      user_exists_def unfilled_def)

lemma forged_withdrawal_example:
  "\<exists>s' n. serve connect_info_service sample_app_env sample_chance forged_request victim_web = (Answered CREATED, s') \<and> 0 < n \<and>
     moves 7 (- n) n victim_db (web_db s')"
proof -
  obtain s' where run: "serve connect_info_service sample_app_env sample_chance forged_request victim_web = (Answered CREATED, s')"
    using forged_created by (metis prod.collapse)
  have j: "he_jwt (ap_handler sample_app_env) = sample_deps" by (simp add: sample_app_env_def)
  have sh: "uuid_show sample_deps 7 = ''00000000-0000-0000-0000-000000000007''"
    by (simp add: sample_deps_def sample_uuid_text)
  have w: "web_db victim_web = victim_db" by (simp add: victim_web_def)
  have "wr_method forged_request = POST" "wr_path forged_request = [''withdrawals'']"
    "wr_authorization forged_request = Some (''Bearer '' @ uuid_show sample_deps 7 @ [])"
    by (simp_all add: forged_request_def sh)
  from forged_withdrawal_with_address [of sample_app_env 7 _ _ connect_info_service, unfolded j, OF sample_deps_laws _ _ this run] victim_ok run
  show ?thesis unfolding w sh by auto
qed

text \<open>The same request to the program as \<open>main\<close> starts it.\<close>

lemma plain_deployment_serves_nobody_witness:
  "\<exists>r s'. serve plain_service sample_app_env sample_chance forged_request victim_web = (r, s') \<and>
     r = Answered INTERNAL_SERVER_ERROR \<and> web_db s' = victim_db"
proof -
  obtain r ls' w' svc' where req: "serve plain_service sample_app_env sample_chance forged_request victim_web = (r, ls', w', svc')"
    by (cases "serve plain_service sample_app_env sample_chance forged_request victim_web") auto
  then have run: "(deployed plain_service sample_app_env)\<^sup>*\<^sup>*
      (\<lparr>lim_auth = (\<lambda>_. None), lim_order = (\<lambda>_. None)\<rparr>, online victim_db, sample_service) (ls', w', svc')"
    using deployed.request [of plain_service sample_app_env sample_chance forged_request victim_web] unfolding victim_web_def
    by (metis r_into_rtranclp)
  have rt: "route (wr_method forged_request) (wr_path forged_request) = Some (UserRoutes, RequestWithdrawal, [])"
    by (simp add: forged_request_def route_def routes_def)
  have "db_idem victim_db = []" by (simp add: victim_db_def empty_db_def)
  note none = plain_deployment_serves_nobody [OF run, unfolded online_db, OF victim_ok(2), unfolded this]
  then have "serve plain_service sample_app_env sample_chance forged_request victim_web =
      (Answered INTERNAL_SERVER_ERROR, victim_web)" using rt by blast
  moreover have "w_db w' = victim_db\<lparr>db_idem := db_idem victim_db\<rparr>" using none \<open>db_idem victim_db = []\<close> by auto
  ultimately show ?thesis using req by (auto simp: victim_web_def)
qed

lemma deployment_moves_no_money_witness:
  "\<exists>ls' w' svc'. serve connect_info_service sample_app_env sample_chance forged_request victim_web = (Answered CREATED, ls', w', svc') \<and>
     avail (w_db w') 7 + resv (w_db w') 7 = 1000 \<and> db_deposits (w_db w') = []"
proof -
  obtain ls' w' svc' where run: "serve connect_info_service sample_app_env sample_chance forged_request victim_web = (Answered CREATED, ls', w', svc')"
    using forged_created by (metis prod.collapse)
  then have "(deployed connect_info_service sample_app_env)\<^sup>*\<^sup>*
      (\<lparr>lim_auth = (\<lambda>_. None), lim_order = (\<lambda>_. None)\<rparr>, online victim_db, sample_service) (ls', w', svc')"
    using deployed.request [of connect_info_service sample_app_env sample_chance forged_request victim_web] unfolding victim_web_def
    by (metis r_into_rtranclp)
  from deployment_moves_no_money [OF this] victim_ok have "\<forall>u. avail (w_db w') u + resv (w_db w') u = avail victim_db u + resv victim_db u"
    "db_deposits (w_db w') = db_deposits victim_db" by auto
  moreover have "avail victim_db 7 = 1000" "resv victim_db 7 = 0" "db_deposits victim_db = []"
    by (simp_all add: victim_db_def empty_db_def avail_def resv_def find_balance_def)
  ultimately show ?thesis using run by auto
qed

end
