(* ===== verification/Exchange_Types.thy ===== *)
theory Exchange_Types
  imports Exchange_Socket Float_Ops "HOL-Library.Monad_Syntax"
begin

text \<open>
  \<open>polymarket/src/types.rs\<close>: the values the exchange sends, and how the derived \<open>Deserialize\<close> of \<open>serde\<close> reads
  them from a JSON value. The text of a JSON value and of a \<open>DateTime<Utc>\<close> belong to other crates: the record
  \<open>serde\<close>. With the readers, the calls of \<open>client.rs\<close> and \<open>handle_message\<close> of \<open>websocket.rs\<close> get their types.
  The theorems say that what is encoded is read back, that one unreadable entry loses a whole answer, and
  that partially filled orders are asked for under a name no answer can use.
\<close>

record serde =
  sz_parse :: "string \<Rightarrow> string + json_value"
  sz_refused :: "json_value \<Rightarrow> string"
  sz_show_time :: "datetime \<Rightarrow> string"
  sz_parse_time :: "string \<Rightarrow> datetime option"

section \<open>Reading JSON values\<close>

type_synonym 'a reader = "json_value \<Rightarrow> 'a option"

definition de_string :: "string reader" where
  "de_string j = (case j of JText s \<Rightarrow> Some s | _ \<Rightarrow> None)"

definition de_bool :: "bool reader" where
  "de_bool j = (case j of JBool b \<Rightarrow> Some b | _ \<Rightarrow> None)"

text \<open>An integer is read as the \<open>f64\<close> nearest to it; a float is not an integer, even when it is whole.\<close>

definition de_f64 :: "f64 reader" where
  "de_f64 j = (case j of JFloat x \<Rightarrow> Some x | JInt i \<Rightarrow> Some (f64_of_int i) | _ \<Rightarrow> None)"

definition de_u64 :: "u64 reader" where
  "de_u64 j = (case j of JInt i \<Rightarrow> if 0 \<le> i \<and> i < 2 ^ 64 then Some (word_of_int i) else None | _ \<Rightarrow> None)"

definition de_time :: "serde \<Rightarrow> datetime reader" where
  "de_time S j = (case j of JText s \<Rightarrow> sz_parse_time S s | _ \<Rightarrow> None)"

definition de_option :: "'a reader \<Rightarrow> 'a option reader" where
  "de_option d j = (case j of JNull \<Rightarrow> Some None | _ \<Rightarrow> map_option Some (d j))"

definition de_vec :: "'a reader \<Rightarrow> 'a list reader" where
  "de_vec d j = (case j of JArr xs \<Rightarrow> those (map d xs) | _ \<Rightarrow> None)"

text \<open>A unit variant: its name, or an object with that name as its only key and no value.\<close>

definition de_variant :: "(string \<times> 'a) list \<Rightarrow> 'a reader" where
  "de_variant vs j =
     (case j of
        JText s \<Rightarrow> map_of vs s
      | JObj [(s, JNull)] \<Rightarrow> map_of vs s
      | _ \<Rightarrow> None)"

text \<open>
  The fields of a struct: by name from an object, where unknown keys are skipped and a known one must not
  come twice, or by position from an array of the right length.
\<close>

definition struct_of :: "string list \<Rightarrow> json_value \<Rightarrow> (string \<Rightarrow> json_value option) option" where
  "struct_of names j =
     (case j of
        JObj kvs \<Rightarrow>
          if distinct (filter (\<lambda>k. k \<in> set names) (map fst kvs)) then Some (map_of kvs) else None
      | JArr xs \<Rightarrow> if length xs = length names then Some (map_of (zip names xs)) else None
      | _ \<Rightarrow> None)"

definition field_of :: "'a reader \<Rightarrow> string \<Rightarrow> (string \<Rightarrow> json_value option) \<Rightarrow> 'a option" where
  "field_of d k m = Option.bind (m k) d"

definition optional_field :: "'a reader \<Rightarrow> string \<Rightarrow> (string \<Rightarrow> json_value option) \<Rightarrow> 'a option option" where
  "optional_field d k m = (case m k of None \<Rightarrow> Some None | Some j \<Rightarrow> de_option d j)"

section \<open>The types and their readers\<close>

record exchange_outcome =
  xo_id :: string
  xo_name :: string
  xo_price :: f64
  xo_probability :: f64

definition de_outcome :: "exchange_outcome reader" where
  "de_outcome j = do {
     m \<leftarrow> struct_of [''id'', ''name'', ''price'', ''probability''] j;
     i \<leftarrow> field_of de_string ''id'' m;
     n \<leftarrow> field_of de_string ''name'' m;
     p \<leftarrow> field_of de_f64 ''price'' m;
     q \<leftarrow> field_of de_f64 ''probability'' m;
     Some \<lparr>xo_id = i, xo_name = n, xo_price = p, xo_probability = q\<rparr> }"

record exchange_market =
  xm_id :: string
  xm_slug :: string
  xm_title :: string
  xm_description :: string
  xm_outcomes :: "exchange_outcome list"
  xm_active :: bool
  xm_closed :: bool
  xm_archived :: bool
  xm_end_date :: datetime
  xm_liquidity :: f64
  xm_volume :: f64
  xm_category :: string
  xm_resolution :: "string option"

definition market_fields :: "string list" where
  "market_fields =
     [''id'', ''slug'', ''title'', ''description'', ''outcomes'', ''active'', ''closed'', ''archived'', ''end_date'',
      ''liquidity'', ''volume'', ''category'', ''resolution'']"

definition de_market :: "serde \<Rightarrow> exchange_market reader" where
  "de_market S j = do {
     m \<leftarrow> struct_of market_fields j;
     i \<leftarrow> field_of de_string ''id'' m;
     sl \<leftarrow> field_of de_string ''slug'' m;
     ti \<leftarrow> field_of de_string ''title'' m;
     de \<leftarrow> field_of de_string ''description'' m;
     os \<leftarrow> field_of (de_vec de_outcome) ''outcomes'' m;
     ac \<leftarrow> field_of de_bool ''active'' m;
     cl \<leftarrow> field_of de_bool ''closed'' m;
     ar \<leftarrow> field_of de_bool ''archived'' m;
     en \<leftarrow> field_of (de_time S) ''end_date'' m;
     li \<leftarrow> field_of de_f64 ''liquidity'' m;
     vo \<leftarrow> field_of de_f64 ''volume'' m;
     ca \<leftarrow> field_of de_string ''category'' m;
     re \<leftarrow> optional_field de_string ''resolution'' m;
     Some \<lparr>xm_id = i, xm_slug = sl, xm_title = ti, xm_description = de, xm_outcomes = os, xm_active = ac,
       xm_closed = cl, xm_archived = ar, xm_end_date = en, xm_liquidity = li, xm_volume = vo,
       xm_category = ca, xm_resolution = re\<rparr> }"

definition de_level :: "book_level reader" where
  "de_level j = do {
     m \<leftarrow> struct_of [''price'', ''size''] j;
     p \<leftarrow> field_of de_f64 ''price'' m;
     s \<leftarrow> field_of de_f64 ''size'' m;
     Some \<lparr>bl_price = p, bl_size = s\<rparr> }"

record exchange_book =
  xb_market_id :: string
  xb_asset_id :: string
  xb_bids :: "book_level list"
  xb_asks :: "book_level list"
  xb_timestamp :: datetime

definition de_book :: "serde \<Rightarrow> exchange_book reader" where
  "de_book S j = do {
     m \<leftarrow> struct_of [''market_id'', ''asset_id'', ''bids'', ''asks'', ''timestamp''] j;
     mi \<leftarrow> field_of de_string ''market_id'' m;
     ai \<leftarrow> field_of de_string ''asset_id'' m;
     bs \<leftarrow> field_of (de_vec de_level) ''bids'' m;
     ks \<leftarrow> field_of (de_vec de_level) ''asks'' m;
     t \<leftarrow> field_of (de_time S) ''timestamp'' m;
     Some \<lparr>xb_market_id = mi, xb_asset_id = ai, xb_bids = bs, xb_asks = ks, xb_timestamp = t\<rparr> }"

definition de_trade :: "trade reader" where
  "de_trade j = do {
     m \<leftarrow> struct_of [''id'', ''market_id'', ''asset_id'', ''price'', ''size''] j;
     i \<leftarrow> field_of de_string ''id'' m;
     mi \<leftarrow> field_of de_string ''market_id'' m;
     ai \<leftarrow> field_of de_string ''asset_id'' m;
     p \<leftarrow> field_of de_f64 ''price'' m;
     s \<leftarrow> field_of de_f64 ''size'' m;
     Some \<lparr>td_id = i, td_market_id = mi, td_asset_id = ai, td_price = p, td_size = s\<rparr> }"

record exchange_balance =
  xl_available :: u64
  xl_reserved :: u64

definition de_balance :: "exchange_balance reader" where
  "de_balance j = do {
     m \<leftarrow> struct_of [''available'', ''reserved''] j;
     a \<leftarrow> field_of de_u64 ''available'' m;
     r \<leftarrow> field_of de_u64 ''reserved'' m;
     Some \<lparr>xl_available = a, xl_reserved = r\<rparr> }"

record user_profile =
  up_user_id :: string
  up_email :: string
  up_created_at :: datetime
  up_last_login :: "datetime option"

definition de_profile :: "serde \<Rightarrow> user_profile reader" where
  "de_profile S j = do {
     m \<leftarrow> struct_of [''user_id'', ''email'', ''created_at'', ''last_login''] j;
     u \<leftarrow> field_of de_string ''user_id'' m;
     e \<leftarrow> field_of de_string ''email'' m;
     c \<leftarrow> field_of (de_time S) ''created_at'' m;
     l \<leftarrow> optional_field (de_time S) ''last_login'' m;
     Some \<lparr>up_user_id = u, up_email = e, up_created_at = c, up_last_login = l\<rparr> }"

text \<open>\<open>rename_all = "lowercase"\<close> drops the word boundary of \<open>PartiallyFilled\<close>.\<close>

definition de_side :: "exchange_side reader" where
  "de_side = de_variant [(''buy'', XBuy), (''sell'', XSell)]"

definition de_status :: "exchange_status reader" where
  "de_status =
     de_variant [(''open'', XOpen), (''filled'', XFilled), (''cancelled'', XCancelled), (''live'', XLive),
       (''partiallyfilled'', XPartiallyFilled)]"

record listed_order =
  xr_id :: string
  xr_market_id :: string
  xr_asset_id :: string
  xr_price :: f64
  xr_size :: f64
  xr_side :: exchange_side
  xr_status :: exchange_status
  xr_created_at :: datetime
  xr_updated_at :: datetime

definition order_fields :: "string list" where
  "order_fields =
     [''id'', ''market_id'', ''asset_id'', ''price'', ''size'', ''side'', ''status'', ''created_at'', ''updated_at'']"

definition de_order :: "serde \<Rightarrow> listed_order reader" where
  "de_order S j = do {
     m \<leftarrow> struct_of order_fields j;
     i \<leftarrow> field_of de_string ''id'' m;
     mi \<leftarrow> field_of de_string ''market_id'' m;
     ai \<leftarrow> field_of de_string ''asset_id'' m;
     p \<leftarrow> field_of de_f64 ''price'' m;
     s \<leftarrow> field_of de_f64 ''size'' m;
     sd \<leftarrow> field_of de_side ''side'' m;
     st \<leftarrow> field_of de_status ''status'' m;
     c \<leftarrow> field_of (de_time S) ''created_at'' m;
     u \<leftarrow> field_of (de_time S) ''updated_at'' m;
     Some \<lparr>xr_id = i, xr_market_id = mi, xr_asset_id = ai, xr_price = p, xr_size = s, xr_side = sd,
       xr_status = st, xr_created_at = c, xr_updated_at = u\<rparr> }"

definition de_order_response :: "create_order_response reader" where
  "de_order_response j = do {
     m \<leftarrow> struct_of [''order_id'', ''status'', ''taking_fee'', ''making_fee''] j;
     i \<leftarrow> field_of de_string ''order_id'' m;
     st \<leftarrow> field_of de_status ''status'' m;
     t \<leftarrow> field_of de_f64 ''taking_fee'' m;
     k \<leftarrow> field_of de_f64 ''making_fee'' m;
     Some \<lparr>cos_order_id = i, cos_status = st, cos_taking_fee = t, cos_making_fee = k\<rparr> }"

text \<open>
  \<open>MarketDataEvent\<close>: the key \<open>type\<close> of an object selects the variant, whose fields are the others.
  \<open>handle_message\<close> hands on nothing but objects.
\<close>

definition de_event :: "serde \<Rightarrow> market_event reader" where
  "de_event S j = (case j of JObj _ \<Rightarrow> do {
     m \<leftarrow> struct_of [''type''] j;
     ty \<leftarrow> field_of de_string ''type'' m;
     if ty = ''orderbook'' then do {
       b \<leftarrow> de_book S j;
       Some (BookEvent (xb_market_id b) (xb_asset_id b) (xb_bids b) (xb_asks b) (xb_timestamp b)) }
     else if ty = ''trade'' then do {
       m \<leftarrow> struct_of [''trade''] j;
       t \<leftarrow> field_of de_trade ''trade'' m;
       Some (TradeEvent t) }
     else if ty = ''price_change'' then do {
       m \<leftarrow> struct_of [''market_id'', ''asset_id'', ''price'', ''change_24h''] j;
       mi \<leftarrow> field_of de_string ''market_id'' m;
       ai \<leftarrow> field_of de_string ''asset_id'' m;
       p \<leftarrow> field_of de_f64 ''price'' m;
       c \<leftarrow> field_of de_f64 ''change_24h'' m;
       Some (PriceChangeEvent mi ai p c) }
     else None }
   | _ \<Rightarrow> None)"

section \<open>The calls with their types\<close>

text \<open>\<open>response.json()\<close>: the text, then the value.\<close>

definition typed :: "serde \<Rightarrow> 'a reader \<Rightarrow> string \<Rightarrow> string + 'a" where
  "typed S d text =
     (case sz_parse S text of
        Inl e \<Rightarrow> Inl e
      | Inr j \<Rightarrow> (case d j of None \<Rightarrow> Inl (sz_refused S j) | Some a \<Rightarrow> Inr a))"

definition client_get_markets :: "client_deps \<Rightarrow> serde \<Rightarrow> int \<Rightarrow> http_send \<Rightarrow> client \<Rightarrow> exchange_market list app_result" where
  "client_get_markets d S t send c = send_and_parse send (typed S (de_vec (de_market S))) (get_markets_request d t c)"

definition client_get_market :: "client_deps \<Rightarrow> serde \<Rightarrow> int \<Rightarrow> http_send \<Rightarrow> string \<Rightarrow> client \<Rightarrow> exchange_market app_result" where
  "client_get_market d S t send market_id c =
     send_and_parse send (typed S (de_market S)) (get_market_request d t market_id c)"

definition client_get_orderbook ::
  "client_deps \<Rightarrow> serde \<Rightarrow> int \<Rightarrow> http_send \<Rightarrow> string \<Rightarrow> string \<Rightarrow> client \<Rightarrow> exchange_book app_result" where
  "client_get_orderbook d S t send market_id asset_id c =
     send_and_parse send (typed S (de_book S)) (get_orderbook_request d t market_id asset_id c)"

definition client_get_trades ::
  "client_deps \<Rightarrow> serde \<Rightarrow> int \<Rightarrow> http_send \<Rightarrow> string \<Rightarrow> string \<Rightarrow> nat \<Rightarrow> client \<Rightarrow> trade list app_result" where
  "client_get_trades d S t send market_id asset_id n c =
     send_and_parse send (typed S (de_vec de_trade)) (get_trades_request d t market_id asset_id n c)"

definition client_get_orders ::
  "client_deps \<Rightarrow> serde \<Rightarrow> int \<Rightarrow> http_send \<Rightarrow> string option \<Rightarrow> exchange_status option \<Rightarrow> client \<Rightarrow>
     listed_order list app_result" where
  "client_get_orders d S t send market_id status c =
     send_and_parse send (typed S (de_vec (de_order S))) (get_orders_request d t market_id status c)"

definition client_get_balance :: "client_deps \<Rightarrow> serde \<Rightarrow> int \<Rightarrow> http_send \<Rightarrow> client \<Rightarrow> exchange_balance list app_result" where
  "client_get_balance d S t send c = send_and_parse send (typed S (de_vec de_balance)) (get_balance_request d t c)"

definition client_get_user_profile :: "client_deps \<Rightarrow> serde \<Rightarrow> int \<Rightarrow> http_send \<Rightarrow> client \<Rightarrow> user_profile app_result" where
  "client_get_user_profile d S t send c = send_and_parse send (typed S (de_profile S)) (get_user_profile_request d t c)"

definition client_get_api_key_credentials :: "client_deps \<Rightarrow> serde \<Rightarrow> int \<Rightarrow> http_send \<Rightarrow> client \<Rightarrow> json_value app_result" where
  "client_get_api_key_credentials d S t send c =
     send_and_parse send (typed S Some) (get_api_key_credentials_request d t c)"

text \<open>\<open>create_order\<close> with the response it reads.\<close>

definition create_order_typed ::
  "client_deps \<Rightarrow> serde \<Rightarrow> u64 \<Rightarrow> int \<Rightarrow> http_send \<Rightarrow> create_order_request \<Rightarrow> client \<Rightarrow>
     (create_order_response app_result \<times> http_request list) \<times> client" where
  "create_order_typed d S = create_order d (typed S de_order_response)"

text \<open>
  What \<open>handle_message\<close> of the socket sees of a text. A \<open>serde_json::Value\<close> keeps one value for a key, the last one
  of the text.
\<close>

fun one_value_per_key :: "json_value \<Rightarrow> json_value" where
  "one_value_per_key (JObj kvs) =
     (let vs = map (\<lambda>(k, v). (k, one_value_per_key v)) kvs
      in JObj (map (\<lambda>k. (k, the (map_of (rev vs) k))) (remdups (map fst vs))))"
| "one_value_per_key (JArr xs) = JArr (map one_value_per_key xs)"
| "one_value_per_key j = j"

definition type_text :: "json_value \<Rightarrow> string option" where
  "type_text v =
     (case v of
        JObj kvs \<Rightarrow> (case map_of kvs ''type'' of Some (JText s) \<Rightarrow> Some s | _ \<Rightarrow> None)
      | _ \<Rightarrow> None)"

definition value_reader :: "serde \<Rightarrow> json_reader" where
  "value_reader S text =
     (case sz_parse S text of
        Inl e \<Rightarrow> Inl e
      | Inr j \<Rightarrow> (let v = one_value_per_key j in Inr (type_text v, de_event S v)))"

section \<open>What the exchange must send\<close>

text \<open>The derived \<open>Serialize\<close>: the object with the fields of the struct, in order.\<close>

definition en_level :: "book_level \<Rightarrow> json_value" where
  "en_level l = JObj [(''price'', json_number (bl_price l)), (''size'', json_number (bl_size l))]"

definition en_outcome :: "exchange_outcome \<Rightarrow> json_value" where
  "en_outcome x = JObj
     [(''id'', JText (xo_id x)), (''name'', JText (xo_name x)), (''price'', json_number (xo_price x)),
      (''probability'', json_number (xo_probability x))]"

definition en_market :: "serde \<Rightarrow> exchange_market \<Rightarrow> json_value" where
  "en_market S x = JObj
     [(''id'', JText (xm_id x)), (''slug'', JText (xm_slug x)), (''title'', JText (xm_title x)),
      (''description'', JText (xm_description x)), (''outcomes'', JArr (map en_outcome (xm_outcomes x))),
      (''active'', JBool (xm_active x)), (''closed'', JBool (xm_closed x)), (''archived'', JBool (xm_archived x)),
      (''end_date'', JText (sz_show_time S (xm_end_date x))), (''liquidity'', json_number (xm_liquidity x)),
      (''volume'', json_number (xm_volume x)), (''category'', JText (xm_category x)),
      (''resolution'', json_option JText (xm_resolution x))]"

definition en_book_fields :: "serde \<Rightarrow> exchange_book \<Rightarrow> (string \<times> json_value) list" where
  "en_book_fields S b =
     [(''market_id'', JText (xb_market_id b)), (''asset_id'', JText (xb_asset_id b)),
      (''bids'', JArr (map en_level (xb_bids b))), (''asks'', JArr (map en_level (xb_asks b))),
      (''timestamp'', JText (sz_show_time S (xb_timestamp b)))]"

definition en_trade :: "trade \<Rightarrow> json_value" where
  "en_trade t = JObj
     [(''id'', JText (td_id t)), (''market_id'', JText (td_market_id t)), (''asset_id'', JText (td_asset_id t)),
      (''price'', json_number (td_price t)), (''size'', json_number (td_size t))]"

definition en_balance :: "exchange_balance \<Rightarrow> json_value" where
  "en_balance b = JObj
     [(''available'', JInt (uint (xl_available b))), (''reserved'', JInt (uint (xl_reserved b)))]"

fun serde_status_text :: "exchange_status \<Rightarrow> string" where
  "serde_status_text XOpen = ''open''"
| "serde_status_text XFilled = ''filled''"
| "serde_status_text XCancelled = ''cancelled''"
| "serde_status_text XLive = ''live''"
| "serde_status_text XPartiallyFilled = ''partiallyfilled''"

definition en_order :: "serde \<Rightarrow> listed_order \<Rightarrow> json_value" where
  "en_order S x = JObj
     [(''id'', JText (xr_id x)), (''market_id'', JText (xr_market_id x)), (''asset_id'', JText (xr_asset_id x)),
      (''price'', json_number (xr_price x)), (''size'', json_number (xr_size x)),
      (''side'', JText (exchange_side_text (xr_side x))), (''status'', JText (serde_status_text (xr_status x))),
      (''created_at'', JText (sz_show_time S (xr_created_at x))),
      (''updated_at'', JText (sz_show_time S (xr_updated_at x)))]"

fun en_event :: "serde \<Rightarrow> market_event \<Rightarrow> json_value" where
  "en_event S (BookEvent m a bs ks t) =
     JObj ((''type'', JText ''orderbook'')
           # en_book_fields S \<lparr>xb_market_id = m, xb_asset_id = a, xb_bids = bs, xb_asks = ks, xb_timestamp = t\<rparr>)"
| "en_event S (TradeEvent t) = JObj [(''type'', JText ''trade''), (''trade'', en_trade t)]"
| "en_event S (PriceChangeEvent m a p c) =
     JObj [(''type'', JText ''price_change''), (''market_id'', JText m), (''asset_id'', JText a),
       (''price'', json_number p), (''change_24h'', json_number c)]"

section \<open>What is encoded is read back\<close>

definition is_finite :: "f64 \<Rightarrow> bool" where
  "is_finite x = (case x of Fin _ _ \<Rightarrow> True | _ \<Rightarrow> False)"

text \<open>The law of the text of a time.\<close>

definition times_read :: "serde \<Rightarrow> bool" where
  "times_read S \<longleftrightarrow> (\<forall>t. sz_parse_time S (sz_show_time S t) = Some t)"

text \<open>A reader and an encoding that fit, on the values \<open>valid\<close>; they then fit on lists of such values.\<close>

locale json_codec =
  fixes enc :: "'a \<Rightarrow> json_value" and dec :: "'a reader" and valid :: "'a \<Rightarrow> bool"
  assumes decodes: "valid x \<Longrightarrow> dec (enc x) = Some x"
begin

lemma decodes_all: "list_all valid xs \<Longrightarrow> those (map dec (map enc xs)) = Some xs"
  by (induction xs) (simp_all add: decodes)

lemma decodes_vec: "list_all valid xs \<Longrightarrow> de_vec dec (JArr (map enc xs)) = Some xs"
  using decodes_all by (simp add: de_vec_def)

lemma refuses_vec: "j \<in> set js \<Longrightarrow> dec j = None \<Longrightarrow> de_vec dec (JArr js) = None"
  by (induction js) (auto simp: de_vec_def split: option.splits)

end

lemmas read_defs =
  struct_of_def field_of_def optional_field_def de_string_def de_bool_def de_time_def de_option_def
  de_variant_def json_option_def

lemma de_f64_number [simp]: "is_finite x \<Longrightarrow> de_f64 (json_number x) = Some x"
  by (cases x) (simp_all add: is_finite_def json_number_def de_f64_def)

lemma de_u64_uint [simp]: "de_u64 (JInt (uint (w :: u64))) = Some w"
  using uint_lt2p [of w] by (simp add: de_u64_def)

lemma de_side_text [simp]: "de_side (JText (exchange_side_text s)) = Some s"
  by (cases s) (simp_all add: de_side_def de_variant_def)

lemma de_status_text [simp]: "de_status (JText (serde_status_text s)) = Some s"
  by (cases s) (simp_all add: de_status_def de_variant_def)

definition level_finite :: "book_level \<Rightarrow> bool" where
  "level_finite l \<longleftrightarrow> is_finite (bl_price l) \<and> is_finite (bl_size l)"

definition outcome_finite :: "exchange_outcome \<Rightarrow> bool" where
  "outcome_finite x \<longleftrightarrow> is_finite (xo_price x) \<and> is_finite (xo_probability x)"

definition trade_finite :: "trade \<Rightarrow> bool" where
  "trade_finite t \<longleftrightarrow> is_finite (td_price t) \<and> is_finite (td_size t)"

definition order_finite :: "listed_order \<Rightarrow> bool" where
  "order_finite x \<longleftrightarrow> is_finite (xr_price x) \<and> is_finite (xr_size x)"

definition market_finite :: "exchange_market \<Rightarrow> bool" where
  "market_finite x \<longleftrightarrow>
     list_all outcome_finite (xm_outcomes x) \<and> is_finite (xm_liquidity x) \<and> is_finite (xm_volume x)"

definition book_finite :: "exchange_book \<Rightarrow> bool" where
  "book_finite b \<longleftrightarrow> list_all level_finite (xb_bids b) \<and> list_all level_finite (xb_asks b)"

fun event_finite :: "market_event \<Rightarrow> bool" where
  "event_finite (BookEvent m a bs ks t) \<longleftrightarrow> list_all level_finite bs \<and> list_all level_finite ks"
| "event_finite (TradeEvent t) \<longleftrightarrow> trade_finite t"
| "event_finite (PriceChangeEvent m a p c) \<longleftrightarrow> is_finite p \<and> is_finite c"

interpretation levels: json_codec en_level de_level level_finite
  by unfold_locales (simp add: en_level_def de_level_def level_finite_def read_defs)

interpretation outcomes: json_codec en_outcome de_outcome outcome_finite
  by unfold_locales (simp add: en_outcome_def de_outcome_def outcome_finite_def read_defs)

interpretation trades: json_codec en_trade de_trade trade_finite
  by unfold_locales (simp add: en_trade_def de_trade_def trade_finite_def read_defs)

interpretation balances: json_codec en_balance de_balance "\<lambda>_. True"
  by unfold_locales (simp add: en_balance_def de_balance_def read_defs)

interpretation orders: json_codec "en_order S" "de_order S" "\<lambda>x. times_read S \<and> order_finite x" for S
  by unfold_locales
    (simp add: en_order_def de_order_def order_fields_def order_finite_def times_read_def read_defs)

interpretation markets: json_codec "en_market S" "de_market S" "\<lambda>x. times_read S \<and> market_finite x" for S
  by unfold_locales
    (auto simp: en_market_def de_market_def market_fields_def market_finite_def times_read_def read_defs
      outcomes.decodes_vec split: option.split)

lemma book_decodes:
  assumes "times_read S" and "book_finite b"
  shows "de_book S (JObj (en_book_fields S b)) = Some b"
    and "de_book S (JObj ((''type'', ty) # en_book_fields S b)) = Some b"
  using assms
  by (simp_all add: en_book_fields_def de_book_def book_finite_def times_read_def read_defs levels.decodes_vec)

lemma book_keys [simp]:
  "map fst (en_book_fields S b) = [''market_id'', ''asset_id'', ''bids'', ''asks'', ''timestamp'']"
  "''type'' \<notin> fst ` set (en_book_fields S b)"
  by (simp_all add: en_book_fields_def)

lemma event_decodes: "times_read S \<Longrightarrow> event_finite e \<Longrightarrow> de_event S (en_event S e) = Some e"
  by (cases e) (simp_all add: de_event_def book_decodes book_finite_def trades.decodes read_defs)

section \<open>One value for a key\<close>

fun unique_keys :: "json_value \<Rightarrow> bool" where
  "unique_keys (JObj kvs) \<longleftrightarrow> distinct (map fst kvs) \<and> (\<forall>kv \<in> set kvs. unique_keys (snd kv))"
| "unique_keys (JArr xs) \<longleftrightarrow> (\<forall>x \<in> set xs. unique_keys x)"
| "unique_keys j \<longleftrightarrow> True"

lemma lookup_all:
  assumes "distinct (map fst kvs)"
  shows "map (\<lambda>k. (k, the (map_of (rev kvs) k))) (map fst kvs) = kvs"
proof -
  have "map_of (rev kvs) = map_of kvs"
    using assms by (subst map_of_inject_set) (simp_all add: rev_map [symmetric])
  then have "map (\<lambda>kv. (fst kv, the (map_of (rev kvs) (fst kv)))) kvs = kvs"
    using assms by (intro map_idI) (metis map_of_is_SomeI option.sel prod.collapse)
  then show ?thesis by (simp add: comp_def)
qed

lemma one_value_unique: "unique_keys j \<Longrightarrow> one_value_per_key j = j"
proof (induction j rule: unique_keys.induct)
  case (1 kvs)
  then have "map (\<lambda>(k, v). (k, one_value_per_key v)) kvs = kvs"
    by (intro map_idI) auto
  with 1 lookup_all [of kvs] show ?case by (simp add: distinct_remdups_id del: map_map)
next
  case (2 xs)
  then show ?case by (simp add: map_idI)
qed simp_all

lemma unique_number [simp]: "unique_keys (json_number x)"
  by (cases x) (simp_all add: json_number_def)

lemma unique_event: "unique_keys (en_event S e)"
  by (cases e) (auto simp: en_book_fields_def en_trade_def en_level_def)

section \<open>Properties\<close>

text \<open>
  A text that is the encoding of an event with finite numbers is broadcast as that event, and nothing else
  of the socket changes.
\<close>
theorem market_events_broadcast:
  assumes "times_read S" and "event_finite e" and "sz_parse S text = Inr (en_event S e)"
  shows "handle_message (value_reader S) text s = (Inr (), s\<lparr>so_events := so_events s @ [e]\<rparr>)"
proof -
  have "type_text (en_event S e) \<in> {Some ''orderbook'', Some ''trade'', Some ''price_change''}"
    by (cases e) (simp_all add: type_text_def)
  then show ?thesis
    using assms event_decodes [OF assms(1,2)]
    by (simp add: handle_message_def value_reader_def one_value_unique [OF unique_event])
qed

text \<open>An answer to a request for a list is all or nothing.\<close>

lemma list_answer_refused:
  assumes "j \<in> set js" and "d j = None" and "sz_parse S t = Inr (JArr js)"
  shows "typed S (de_vec d) t = Inl (sz_refused S (JArr js))"
proof -
  have "those (map d js) = None" using assms(1,2) by (induction js) (auto split: option.splits)
  then show ?thesis by (simp add: typed_def de_vec_def assms(3))
qed

lemma status_unread:
  assumes "map_of kvs ''status'' = Some (JText s)" and "de_status (JText s) = None"
  shows "de_order S (JObj kvs) = None"
  using assms by (auto simp: de_order_def struct_of_def field_of_def bind_eq_None_conv split: bind_splits)

text \<open>
  \<open>get_orders\<close> asks for partially filled orders as \<open>partially_filled\<close>, but reads the status only as
  \<open>partiallyfilled\<close>: an answer with one order that carries the name the request used is an error, and every
  order in it is lost. A text that spells the status as it is read gives the orders.
\<close>
theorem partially_filled_orders_lost:
  assumes "send (get_orders_request d t mkt (Some XPartiallyFilled) c) = Inr rsp"
    and "is_success (rsp_status rsp)" and "rsp_text rsp = Some text" and "sz_parse S text = Inr (JArr js)"
  shows "(''status'', ''partially_filled'') \<in> set (hr_query (get_orders_request d t mkt (Some XPartiallyFilled) c))
    \<and> (\<forall>kvs. JObj kvs \<in> set js \<longrightarrow> map_of kvs ''status'' = Some (JText ''partially_filled'') \<longrightarrow>
          client_get_orders d S t send mkt (Some XPartiallyFilled) c =
            Inl (Internal [Lit ''JSON parse error: '', Foreign (sz_refused S (JArr js))]))
    \<and> (\<forall>xs. times_read S \<longrightarrow> list_all order_finite xs \<longrightarrow> js = map (en_order S) xs \<longrightarrow>
          client_get_orders d S t send mkt (Some XPartiallyFilled) c = Inr xs)"
proof (intro conjI allI impI)
  show "(''status'', ''partially_filled'') \<in> set (hr_query (get_orders_request d t mkt (Some XPartiallyFilled) c))"
    by (simp add: get_orders_request_def auth_headers_def plain_request_def Let_def)
next
  fix kvs
  assume j: "JObj kvs \<in> set js" "map_of kvs ''status'' = Some (JText ''partially_filled'')"
  have "de_order S (JObj kvs) = None"
    using j(2) by (rule status_unread) (simp add: de_status_def de_variant_def)
  from list_answer_refused [where d = "de_order S", OF j(1) this assms(4)]
  show "client_get_orders d S t send mkt (Some XPartiallyFilled) c =
      Inl (Internal [Lit ''JSON parse error: '', Foreign (sz_refused S (JArr js))])"
    using assms by (simp add: client_get_orders_def send_and_parse_def handle_response_def)
next
  fix xs
  assume "times_read S" "list_all order_finite xs" "js = map (en_order S) xs"
  then have "de_vec (de_order S) (JArr js) = Some xs"
    using orders.decodes_vec [of S xs] by (simp add: list_all_iff)
  then show "client_get_orders d S t send mkt (Some XPartiallyFilled) c = Inr xs"
    using assms by (simp add: client_get_orders_def send_and_parse_def handle_response_def typed_def)
qed

definition sample_serde :: "json_value \<Rightarrow> serde" where
  "sample_serde j =
     \<lparr>sz_parse = (\<lambda>t. Inr j), sz_refused = (\<lambda>j. ''unknown variant''), 
      sz_show_time = (\<lambda>t. (if t < 0 then ''-'' else []) @ replicate (nat \<bar>t\<bar>) CHR ''+''),
      sz_parse_time = (\<lambda>s. Some (if take 1 s = ''-'' then 1 - int (length s) else int (length s)))\<rparr>"

lemma sample_times: "times_read (sample_serde j)"
proof -
  have "take 1 (replicate n CHR ''+'') \<noteq> ''-''" for n by (cases n) auto
  then show ?thesis by (auto simp: times_read_def sample_serde_def)
qed

definition partly_filled_object :: json_value where
  "partly_filled_object = JObj [(''id'', JText ''1''), (''status'', JText ''partially_filled'')]"

lemma partially_filled_orders_lost_witness:
  "client_get_orders sample_client_deps (sample_serde (JArr [partly_filled_object])) 0
     (\<lambda>r. Inr \<lparr>rsp_status = 200, rsp_text = Some ''[]''\<rparr>) None (Some XPartiallyFilled) sample_client =
   Inl (Internal [Lit ''JSON parse error: '', Foreign ''unknown variant''])"
  using partially_filled_orders_lost [where S = "sample_serde (JArr [partly_filled_object])" and c = sample_client
      and send = "\<lambda>r. Inr \<lparr>rsp_status = 200, rsp_text = Some ''[]''\<rparr>" and mkt = None and t = 0
      and js = "[partly_filled_object]" and d = sample_client_deps]
  by (simp add: is_success_def sample_serde_def partly_filled_object_def)

definition sample_price_change :: market_event where
  "sample_price_change = PriceChangeEvent ''m'' ''a'' (Fin False (1 / 2)) (Fin True (1 / 100))"

lemma market_events_broadcast_witness:
  "\<exists>S. handle_message (value_reader S) ''text'' \<lparr>so_connected = True, so_frames = [], so_events = []\<rparr> =
     (Inr (), \<lparr>so_connected = True, so_frames = [], so_events = [sample_price_change]\<rparr>)"
proof -
  let ?S = "sample_serde (en_event (sample_serde JNull) sample_price_change)"
  have "sz_parse ?S ''text'' = Inr (en_event ?S sample_price_change)"
    by (simp add: sample_serde_def sample_price_change_def)
  from market_events_broadcast [OF sample_times _ this] show ?thesis
    by (intro exI [of _ ?S]) (simp add: sample_price_change_def is_finite_def)
qed

end
