(* ===== verification/Linked_Slots.thy ===== *)
theory Linked_Slots
  imports Prelude
begin

text \<open>
  Doubly linked lists threaded through arrays, as the order book of the engine keeps its price levels and the
  orders of a level: an element is an index, its links are two functions, \<open>None\<close> is the invalid index.
  \<open>linked\<close> says that from a head the links visit exactly the elements of a list, forwards and backwards;
  the lemmas say what taking an element out and putting one in do to that list.
\<close>

type_synonym slot_link = "nat option"

fun slot_segment :: "(nat \<Rightarrow> slot_link) \<Rightarrow> (nat \<Rightarrow> slot_link) \<Rightarrow> slot_link \<Rightarrow> slot_link \<Rightarrow> nat list \<Rightarrow> slot_link \<Rightarrow> bool" where
  "slot_segment nx pv p h [] e \<longleftrightarrow> h = e"
| "slot_segment nx pv p h (x # xs) e \<longleftrightarrow> h = Some x \<and> pv x = p \<and> slot_segment nx pv (Some x) (nx x) xs e"

definition linked :: "(nat \<Rightarrow> slot_link) \<Rightarrow> (nat \<Rightarrow> slot_link) \<Rightarrow> slot_link \<Rightarrow> nat list \<Rightarrow> bool" where
  "linked nx pv h xs \<longleftrightarrow> slot_segment nx pv None h xs None"

definition first_of :: "slot_link \<Rightarrow> nat list \<Rightarrow> slot_link" where
  "first_of e xs = (if xs = [] then e else Some (hd xs))"

definition last_of :: "slot_link \<Rightarrow> nat list \<Rightarrow> slot_link" where
  "last_of p xs = (if xs = [] then p else Some (last xs))"

lemma first_of_simps [simp]: "first_of e [] = e" "first_of e (x # xs) = Some x"
  by (simp_all add: first_of_def)

lemma last_of_simps [simp]: "last_of p [] = p" "last_of p (x # xs) = last_of (Some x) xs" "last_of p (xs @ [x]) = Some x"
  by (simp_all add: last_of_def)

lemma segment_append:
  "slot_segment nx pv p h (xs @ ys) e \<longleftrightarrow> slot_segment nx pv p h xs (first_of e ys) \<and> slot_segment nx pv (last_of p xs) (first_of e ys) ys e"
  by (induction xs arbitrary: p h) (cases ys; auto)+

lemma segment_head: "slot_segment nx pv p h xs e \<Longrightarrow> h = first_of e xs"
  by (cases xs) auto

lemma segment_cong:
  assumes "\<forall>x \<in> set xs. nx x = nx' x \<and> pv x = pv' x"
  shows "slot_segment nx pv p h xs e \<longleftrightarrow> slot_segment nx' pv' p h xs e"
  using assms by (induction xs arbitrary: p h) auto

lemma linked_cong:
  assumes "\<forall>x \<in> set xs. nx x = nx' x \<and> pv x = pv' x"
  shows "linked nx pv h xs \<longleftrightarrow> linked nx' pv' h xs"
  unfolding linked_def by (rule segment_cong [OF assms])

lemma linked_head: "linked nx pv h xs \<Longrightarrow> h = first_of None xs"
  unfolding linked_def by (rule segment_head)

lemma linked_Nil [simp]: "linked nx pv h [] \<longleftrightarrow> h = None"
  by (simp add: linked_def)

lemma linked_next:
  assumes "linked nx pv h (xs @ x # ys)"
  shows "nx x = first_of None ys" "pv x = last_of None xs"
  using assms by (auto simp: linked_def segment_append dest: segment_head)

text \<open>A segment whose last element is linked to something else, and one that begins after something else.\<close>

lemma segment_end:
  assumes "slot_segment nx pv p h xs e" and "distinct xs" and "h' = first_of e' xs"
    and "\<forall>x \<in> set xs. pv' x = pv x \<and> nx' x = (if x = last xs then e' else nx x)"
  shows "slot_segment nx' pv' p h' xs e'"
  using assms
proof (induction xs arbitrary: p h h')
  case (Cons x xs)
  show ?case
  proof (cases xs)
    case Nil
    with Cons.prems show ?thesis by simp
  next
    case (Cons y ys)
    then have l: "last (x # xs) = last xs" "x \<noteq> last xs" using Cons.prems(2) by (simp, metis Cons distinct.simps(2) last_in_set list.distinct(1))
    have seg: "slot_segment nx pv (Some x) (nx x) xs e" "h = Some x" "pv x = p" using Cons.prems(1) by simp_all
    have n: "nx' x = nx x" "nx x = Some y" "pv' x = pv x"
      using Cons.prems(4) l seg(1) Cons by simp_all
    have "\<forall>z \<in> set xs. pv' z = pv z \<and> nx' z = (if z = last xs then e' else nx z)"
      using Cons.prems(4) l(1) by simp
    moreover have "nx x = first_of e' xs" "distinct xs" using n(2) Cons Cons.prems(2) by simp_all
    ultimately have "slot_segment nx' pv' (Some x) (nx x) xs e'" using Cons.IH [OF seg(1)] by blast
    with Cons.prems(3) n seg show ?thesis by simp
  qed
qed simp

lemma segment_start:
  assumes "slot_segment nx pv p h xs e" and "h' = first_of e xs"
    and "\<forall>x \<in> set xs. nx' x = nx x \<and> pv' x = (if x = hd xs then p' else pv x)" and "distinct xs"
  shows "slot_segment nx' pv' p' h' xs e"
proof (cases xs)
  case Nil
  with assms show ?thesis by simp
next
  case (Cons x ys)
  with assms have "slot_segment nx' pv' (Some x) (nx x) ys e"
    by (subst segment_cong [where nx' = nx and pv' = pv]) auto
  with Cons assms show ?thesis by simp
qed

text \<open>Taking out \<open>x\<close>: its neighbours are linked to each other, or the head moves on.\<close>

lemma linked_remove:
  assumes l: "linked nx pv h (xs @ x # ys)" and d: "distinct (xs @ x # ys)"
    and h': "h' = (if xs = [] then nx x else h)"
    and nx': "\<forall>z \<in> set xs \<union> set ys. nx' z = (if Some z = pv x then nx x else nx z)"
    and pv': "\<forall>z \<in> set xs \<union> set ys. pv' z = (if Some z = nx x then pv x else pv z)"
  shows "linked nx' pv' h' (xs @ ys)"
proof -
  note links = linked_next [OF l]
  from l have seg: "slot_segment nx pv None h xs (Some x)" "slot_segment nx pv (Some x) (nx x) ys None"
    by (simp_all add: linked_def segment_append)
  have "slot_segment nx' pv' None h' xs (nx x)"
  proof (rule segment_end [OF seg(1)])
    show "h' = first_of (nx x) xs" using h' segment_head [OF seg(1)] by (simp add: first_of_def)
    show "\<forall>z \<in> set xs. pv' z = pv z \<and> nx' z = (if z = last xs then nx x else nx z)"
      using nx' pv' d links by (cases ys) (auto simp: first_of_def last_of_def)
  qed (use d in simp)
  moreover have "slot_segment nx' pv' (pv x) (nx x) ys None"
  proof (rule segment_start [OF seg(2)])
    show "nx x = first_of None ys" by (rule links(1))
    show "\<forall>z \<in> set ys. nx' z = nx z \<and> pv' z = (if z = hd ys then pv x else pv z)"
      using nx' pv' d links by (cases xs rule: rev_cases) (auto simp: first_of_def last_of_def)
  qed (use d in simp)
  ultimately show ?thesis by (simp add: linked_def segment_append links)
qed

text \<open>Putting \<open>x\<close> between two neighbours, or at either end.\<close>

lemma linked_insert:
  assumes l: "linked nx pv h (xs @ ys)" and d: "distinct (xs @ x # ys)"
    and x: "nx' x = first_of None ys" "pv' x = last_of None xs"
    and h': "h' = (if xs = [] then Some x else h)"
    and nx': "\<forall>z \<in> set xs \<union> set ys. nx' z = (if Some z = last_of None xs then Some x else nx z)"
    and pv': "\<forall>z \<in> set xs \<union> set ys. pv' z = (if Some z = first_of None ys then Some x else pv z)"
  shows "linked nx' pv' h' (xs @ x # ys)"
proof -
  from l have seg: "slot_segment nx pv None h xs (first_of None ys)" "slot_segment nx pv (last_of None xs) (first_of None ys) ys None"
    by (simp_all add: linked_def segment_append)
  have "slot_segment nx' pv' None h' xs (Some x)"
  proof (rule segment_end [OF seg(1)])
    show "h' = first_of (Some x) xs" using h' segment_head [OF seg(1)] by (simp add: first_of_def)
    show "\<forall>z \<in> set xs. pv' z = pv z \<and> nx' z = (if z = last xs then Some x else nx z)"
      using nx' pv' d by (cases ys) (auto simp: first_of_def last_of_def)
  qed (use d in simp)
  moreover have "slot_segment nx' pv' (Some x) (first_of None ys) ys None"
  proof (rule segment_start [OF seg(2)])
    show "\<forall>z \<in> set ys. nx' z = nx z \<and> pv' z = (if z = hd ys then Some x else pv z)"
      using nx' pv' d by (cases xs rule: rev_cases) (auto simp: first_of_def last_of_def)
  qed (use d in simp_all)
  ultimately show ?thesis by (simp add: linked_def segment_append x)
qed

end
