(* ===== verification/Engine_Book.thy ===== *)
theory Engine_Book
  imports Messaging Linked_Slots
begin

unbundle bit_operations_syntax

text \<open>
  The order book of the matching engine, \<open>engine/src/order_book.cpp\<close> and \<open>order_book.hpp\<close>, slot by slot: the
  arrays are functions of the index, \<open>kInvalidSlot\<close> is \<open>None\<close>, and the two members a ternary on the side chooses
  between (heads, price maps, best prices) are one function of the side. Memory the constructor leaves
  uninitialised is an argument. \<open>rdtsc\<close> is a parameter \<open>tsc\<close>, the value of each reading in turn; \<open>sb_ticks\<close> counts
  the readings. The calls of the fill callback are the list \<open>sb_sent\<close>. Loops are \<open>partial_function (option)\<close>:
  \<open>None\<close> would be a loop that does not end.
\<close>

section \<open>Identifiers\<close>

definition kMaxPriceLevels :: nat where "kMaxPriceLevels = 16384"
definition kMaxOrdersPerBook :: nat where "kMaxOrdersPerBook = 131072"

text \<open>\<open>Uuid\<close> is the 16 bytes of the wire; the hash reads them as two little-endian words.\<close>

definition uuid_hash :: "uuid \<Rightarrow> u64" where
  "uuid_hash u =
     (let a = read_u64_le 0 (be_octets u);
          b = read_u64_le 8 (be_octets u);
          a = a XOR drop_bit 33 a;
          a = a * 0xff51afd7ed558ccd;
          a = a XOR drop_bit 33 a;
          a = a * 0xc4ceb9fe1a85ec53;
          a = a XOR drop_bit 33 a
      in a XOR b)"

text \<open>\<open>UuidHasher{}(id) & (kMaxOrdersPerBook - 1)\<close>: the place of an order in the index.\<close>

definition index_of :: "uuid \<Rightarrow> nat" where
  "index_of u = unat (uuid_hash u AND 131071)"

section \<open>The book\<close>

record order_slot =
  os_order_id :: uuid
  os_user_id :: uuid
  os_quantity :: u64
  os_remaining :: u64
  os_sequence :: u64
  os_price :: u32
  os_next :: slot_link
  os_prev :: slot_link
  os_side :: side
  os_is_market :: bool

record level_slot =
  lv_total_qty :: u64
  lv_head :: slot_link
  lv_tail :: slot_link
  lv_count :: u32
  lv_price :: u32
  lv_next :: slot_link
  lv_prev :: slot_link

record index_entry =
  ix_slot :: slot_link
  ix_level :: slot_link
  ix_side :: side

record engine_fill =
  ef_fill_id :: "u64 \<times> u64"
  ef_market_id :: uuid
  ef_maker_order_id :: uuid
  ef_taker_order_id :: uuid
  ef_maker_user_id :: uuid
  ef_taker_user_id :: uuid
  ef_quantity :: u64
  ef_sequence :: u64
  ef_timestamp_ns :: u64
  ef_price :: u32
  ef_aggressor :: side

record slot_book =
  sb_orders :: "nat \<Rightarrow> order_slot"
  sb_levels :: "nat \<Rightarrow> level_slot"
  sb_order_free :: "nat \<Rightarrow> nat"
  sb_level_free :: "nat \<Rightarrow> nat"
  sb_index :: "nat \<Rightarrow> index_entry"
  sb_price_map :: "side \<Rightarrow> u32 \<Rightarrow> slot_link"
  sb_market_id :: uuid
  sb_sequence :: u64
  sb_fill_sequence :: u64
  sb_best :: "side \<Rightarrow> u32"
  sb_order_free_top :: nat
  sb_level_free_top :: nat
  sb_head :: "side \<Rightarrow> slot_link"
  sb_ticks :: nat
  sb_sent :: "engine_fill list"

text \<open>The best price of an empty side.\<close>

fun no_best :: "side \<Rightarrow> u32" where
  "no_best Buy = 0"
| "no_best Sell = 10001"

definition book_new :: "(nat \<Rightarrow> order_slot) \<Rightarrow> (nat \<Rightarrow> level_slot) \<Rightarrow> (nat \<Rightarrow> side) \<Rightarrow> uuid \<Rightarrow> slot_book" where
  "book_new orders levels sides market =
     \<lparr>sb_orders = orders, sb_levels = levels,
      sb_order_free = (\<lambda>i. kMaxOrdersPerBook - 1 - i), sb_level_free = (\<lambda>i. kMaxPriceLevels - 1 - i),
      sb_index = (\<lambda>i. \<lparr>ix_slot = None, ix_level = None, ix_side = sides i\<rparr>),
      sb_price_map = (\<lambda>s p. None), sb_market_id = market, sb_sequence = 0, sb_fill_sequence = 0,
      sb_best = no_best, sb_order_free_top = kMaxOrdersPerBook, sb_level_free_top = kMaxPriceLevels,
      sb_head = (\<lambda>s. None), sb_ticks = 0, sb_sent = []\<rparr>"

text \<open>Assignments to a member of a slot.\<close>

definition set_order :: "nat \<Rightarrow> (order_slot \<Rightarrow> order_slot) \<Rightarrow> slot_book \<Rightarrow> slot_book" where
  "set_order i f B = B\<lparr>sb_orders := (sb_orders B)(i := f (sb_orders B i))\<rparr>"

definition set_level :: "nat \<Rightarrow> (level_slot \<Rightarrow> level_slot) \<Rightarrow> slot_book \<Rightarrow> slot_book" where
  "set_level i f B = B\<lparr>sb_levels := (sb_levels B)(i := f (sb_levels B i))\<rparr>"

section \<open>Slots and levels\<close>

definition alloc_order :: "slot_book \<Rightarrow> slot_link \<times> slot_book" where
  "alloc_order B =
     (if sb_order_free_top B = 0 then (None, B)
      else (let top = sb_order_free_top B - 1
            in (Some (sb_order_free B top), B\<lparr>sb_order_free_top := top\<rparr>)))"

definition free_order :: "nat \<Rightarrow> slot_book \<Rightarrow> slot_book" where
  "free_order s B =
     B\<lparr>sb_order_free := (sb_order_free B)(sb_order_free_top B := s),
       sb_order_free_top := sb_order_free_top B + 1\<rparr>"

text \<open>A new price goes before the first level it is better than.\<close>

definition better :: "side \<Rightarrow> u32 \<Rightarrow> u32 \<Rightarrow> bool" where
  "better s p q = (case s of Buy \<Rightarrow> p > q | Sell \<Rightarrow> p < q)"

partial_function (option) find_place :: "slot_book \<Rightarrow> side \<Rightarrow> u32 \<Rightarrow> slot_link \<Rightarrow> slot_link \<Rightarrow> (slot_link \<times> slot_link) option" where
  "find_place B s price prev cur =
     (case cur of
        None \<Rightarrow> Some (prev, None)
      | Some c \<Rightarrow>
          if better s price (lv_price (sb_levels B c)) then Some (prev, Some c)
          else find_place B s price (Some c) (lv_next (sb_levels B c)))"

definition insert_level :: "nat \<Rightarrow> side \<Rightarrow> slot_link \<Rightarrow> slot_link \<Rightarrow> slot_book \<Rightarrow> slot_book" where
  "insert_level l s prev cur B =
     (let B = set_level l (\<lambda>v. v\<lparr>lv_next := cur, lv_prev := prev\<rparr>) B;
          B = (case prev of
                 Some p \<Rightarrow> set_level p (\<lambda>v. v\<lparr>lv_next := Some l\<rparr>) B
               | None \<Rightarrow> B\<lparr>sb_head := (sb_head B)(s := Some l)\<rparr>)
      in (case cur of
            Some c \<Rightarrow> set_level c (\<lambda>v. v\<lparr>lv_prev := Some l\<rparr>) B
          | None \<Rightarrow> B))"

definition find_or_create_level :: "u32 \<Rightarrow> side \<Rightarrow> slot_book \<Rightarrow> (slot_link \<times> slot_book) option" where
  "find_or_create_level price s B =
     (case sb_price_map B s price of
        Some l \<Rightarrow> Some (Some l, B)
      | None \<Rightarrow>
          if sb_level_free_top B = 0 then Some (None, B)
          else
            (let top = sb_level_free_top B - 1;
                 l = sb_level_free B top;
                 B = B\<lparr>sb_level_free_top := top\<rparr>;
                 B = set_level l (\<lambda>v. v\<lparr>lv_total_qty := 0, lv_head := None, lv_tail := None, lv_count := 0,
                       lv_price := price\<rparr>) B;
                 B = B\<lparr>sb_price_map := (sb_price_map B)(s := (sb_price_map B s)(price := Some l))\<rparr>
             in case sb_head B s of
                  None \<Rightarrow> Some (Some l, insert_level l s None None B)
                | Some h \<Rightarrow>
                    (case find_place B s price None (Some h) of
                       None \<Rightarrow> None
                     | Some (prev, cur) \<Rightarrow> Some (Some l, insert_level l s prev cur B))))"

definition remove_level :: "nat \<Rightarrow> side \<Rightarrow> slot_book \<Rightarrow> slot_book" where
  "remove_level l s B =
     (let v = sb_levels B l;
          B = (case lv_prev v of
                 Some p \<Rightarrow> set_level p (\<lambda>w. w\<lparr>lv_next := lv_next v\<rparr>) B
               | None \<Rightarrow> B\<lparr>sb_head := (sb_head B)(s := lv_next v)\<rparr>);
          B = (case lv_next v of
                 Some n \<Rightarrow> set_level n (\<lambda>w. w\<lparr>lv_prev := lv_prev v\<rparr>) B
               | None \<Rightarrow> B);
          B = B\<lparr>sb_price_map := (sb_price_map B)(s := (sb_price_map B s)(lv_price v := None)),
                sb_level_free := (sb_level_free B)(sb_level_free_top B := l),
                sb_level_free_top := sb_level_free_top B + 1\<rparr>
      in B\<lparr>sb_best := (sb_best B)(s := (case sb_head B s of
                Some h \<Rightarrow> lv_price (sb_levels B h) | None \<Rightarrow> no_best s))\<rparr>)"

definition enqueue :: "nat \<Rightarrow> nat \<Rightarrow> slot_book \<Rightarrow> slot_book" where
  "enqueue l i B =
     (let B = set_order i (\<lambda>r. r\<lparr>os_next := None, os_prev := lv_tail (sb_levels B l)\<rparr>) B;
          B = (case lv_tail (sb_levels B l) of
                 Some t \<Rightarrow> set_order t (\<lambda>r. r\<lparr>os_next := Some i\<rparr>) B
               | None \<Rightarrow> set_level l (\<lambda>v. v\<lparr>lv_head := Some i\<rparr>) B)
      in set_level l (\<lambda>v. v\<lparr>lv_tail := Some i, lv_total_qty := lv_total_qty v + os_remaining (sb_orders B i),
           lv_count := lv_count v + 1\<rparr>) B)"

definition dequeue :: "nat \<Rightarrow> nat \<Rightarrow> slot_book \<Rightarrow> slot_book" where
  "dequeue l i B =
     (let r = sb_orders B i;
          B = (case os_prev r of
                 Some p \<Rightarrow> set_order p (\<lambda>q. q\<lparr>os_next := os_next r\<rparr>) B
               | None \<Rightarrow> set_level l (\<lambda>v. v\<lparr>lv_head := os_next r\<rparr>) B);
          B = (case os_next r of
                 Some n \<Rightarrow> set_order n (\<lambda>q. q\<lparr>os_prev := os_prev r\<rparr>) B
               | None \<Rightarrow> set_level l (\<lambda>v. v\<lparr>lv_tail := os_prev r\<rparr>) B)
      in set_level l (\<lambda>v. v\<lparr>lv_count := lv_count v - 1\<rparr>) B)"

section \<open>Matching\<close>

definition gen_fill_id :: "u64 \<Rightarrow> u64 \<Rightarrow> u64 \<times> u64" where
  "gen_fill_id t1 t2 =
     (let b = t2 XOR push_bit 17 t1
      in ((t1 AND 0xffffffffffff0fff) OR 0x4000, (b AND 0x3fffffffffffffff) OR 0x8000000000000000))"

definition make_fill ::
  "(nat \<Rightarrow> u64) \<Rightarrow> nat \<Rightarrow> uuid \<Rightarrow> uuid \<Rightarrow> u32 \<Rightarrow> u64 \<Rightarrow> side \<Rightarrow> slot_book \<Rightarrow> engine_fill" where
  "make_fill tsc maker_slot taker_id taker_user price qty aggressor B =
     (let maker = sb_orders B maker_slot; t = sb_ticks B
      in \<lparr>ef_fill_id = gen_fill_id (tsc t) (tsc (t + 1)), ef_market_id = sb_market_id B,
          ef_maker_order_id = os_order_id maker, ef_taker_order_id = taker_id,
          ef_maker_user_id = os_user_id maker, ef_taker_user_id = taker_user,
          ef_quantity = qty, ef_sequence = sb_fill_sequence B, ef_timestamp_ns = tsc (t + 2),
          ef_price = price, ef_aggressor = aggressor\<rparr>)"

text \<open>The taker of a match.\<close>

record taker =
  tk_order_id :: uuid
  tk_user_id :: uuid
  tk_side :: side
  tk_limit :: u32
  tk_is_market :: bool

definition send_fill :: "(nat \<Rightarrow> u64) \<Rightarrow> nat \<Rightarrow> taker \<Rightarrow> u32 \<Rightarrow> u64 \<Rightarrow> slot_book \<Rightarrow> slot_book" where
  "send_fill tsc m tk price qty B =
     (let B = B\<lparr>sb_fill_sequence := sb_fill_sequence B + 1\<rparr>;
          f = make_fill tsc m (tk_order_id tk) (tk_user_id tk) price qty (tk_side tk) B
      in B\<lparr>sb_ticks := sb_ticks B + 3, sb_sent := sb_sent B @ [f]\<rparr>)"

text \<open>\<open>m_index[h].slot = kInvalidSlot\<close>: the entry loses its slot and keeps the rest.\<close>

definition clear_index :: "nat \<Rightarrow> slot_book \<Rightarrow> slot_book" where
  "clear_index h B = B\<lparr>sb_index := (sb_index B)(h := (sb_index B h)\<lparr>ix_slot := None\<rparr>)\<rparr>"

text \<open>One turn of the inner loop: the taker meets the order \<open>m\<close> at the head of the level \<open>l\<close>.\<close>

definition fill_maker :: "(nat \<Rightarrow> u64) \<Rightarrow> taker \<Rightarrow> nat \<Rightarrow> nat \<Rightarrow> u64 \<Rightarrow> slot_book \<Rightarrow> u64 \<times> slot_book" where
  "fill_maker tsc tk l m remaining B =
     (let qty = (if remaining < os_remaining (sb_orders B m) then remaining else os_remaining (sb_orders B m));
          B = send_fill tsc m tk (lv_price (sb_levels B l)) qty B;
          B = set_order m (\<lambda>r. r\<lparr>os_remaining := os_remaining r - qty\<rparr>) B;
          B = set_level l (\<lambda>v. v\<lparr>lv_total_qty := lv_total_qty v - qty\<rparr>) B
      in (remaining - qty,
          if os_remaining (sb_orders B m) = 0
          then free_order m (dequeue l m (clear_index (index_of (os_order_id (sb_orders B m))) B))
          else B))"

partial_function (option) match_level ::
  "(nat \<Rightarrow> u64) \<Rightarrow> taker \<Rightarrow> nat \<Rightarrow> u64 \<Rightarrow> slot_book \<Rightarrow> (u64 \<times> slot_book) option" where
  "match_level tsc tk l remaining B =
     (if remaining = 0 then Some (remaining, B)
      else case lv_head (sb_levels B l) of
             None \<Rightarrow> Some (remaining, B)
           | Some m \<Rightarrow> match_level tsc tk l (fst (fill_maker tsc tk l m remaining B)) (snd (fill_maker tsc tk l m remaining B)))"

definition crosses :: "side \<Rightarrow> u32 \<Rightarrow> u32 \<Rightarrow> bool" where
  "crosses aggressor limit price = (case aggressor of Buy \<Rightarrow> limit \<ge> price | Sell \<Rightarrow> limit \<le> price)"

partial_function (option) match_book ::
  "(nat \<Rightarrow> u64) \<Rightarrow> taker \<Rightarrow> u64 \<Rightarrow> slot_book \<Rightarrow> (u64 \<times> slot_book) option" where
  "match_book tsc tk remaining B =
     (if remaining = 0 then Some (remaining, B)
      else case sb_head B (opposite (tk_side tk)) of
             None \<Rightarrow> Some (remaining, B)
           | Some l \<Rightarrow>
               if \<not> tk_is_market tk \<and> \<not> crosses (tk_side tk) (tk_limit tk) (lv_price (sb_levels B l))
               then Some (remaining, B)
               else Option.bind (match_level tsc tk l remaining B) (\<lambda>(remaining', B').
                 match_book tsc tk remaining'
                   (if lv_head (sb_levels B' l) = None then remove_level l (opposite (tk_side tk)) B' else B')))"

section \<open>The operations\<close>

definition rest_order :: "uuid \<Rightarrow> uuid \<Rightarrow> side \<Rightarrow> u32 \<Rightarrow> u64 \<Rightarrow> u64 \<Rightarrow> u64 \<Rightarrow> slot_book \<Rightarrow> slot_book option" where
  "rest_order order_id user_id s price quantity sequence remaining B =
     (case alloc_order B of
        (None, B) \<Rightarrow> Some B
      | (Some i, B) \<Rightarrow>
          (let B = set_order i (\<lambda>r. r\<lparr>os_order_id := order_id, os_user_id := user_id, os_quantity := quantity,
                     os_remaining := remaining, os_sequence := sequence, os_price := price, os_side := s,
                     os_is_market := False\<rparr>) B
           in case find_or_create_level price s B of
                None \<Rightarrow> None
              | Some (None, B) \<Rightarrow> Some (free_order i B)
              | Some (Some l, B) \<Rightarrow>
                  (let B = enqueue l i B;
                       B = B\<lparr>sb_index := (sb_index B)(index_of order_id :=
                              \<lparr>ix_slot = Some i, ix_level = Some l, ix_side = s\<rparr>)\<rparr>
                   in Some (B\<lparr>sb_best := (sb_best B)(s :=
                        (if better s price (sb_best B s) then price else sb_best B s))\<rparr>))))"

definition add_limit_order ::
  "(nat \<Rightarrow> u64) \<Rightarrow> uuid \<Rightarrow> uuid \<Rightarrow> side \<Rightarrow> u32 \<Rightarrow> u64 \<Rightarrow> u64 \<Rightarrow> slot_book \<Rightarrow> slot_book option" where
  "add_limit_order tsc order_id user_id s price quantity sequence B =
     (if price = 0 \<or> 10000 \<le> price \<or> quantity = 0 then Some B
      else
        Option.bind
          (match_book tsc \<lparr>tk_order_id = order_id, tk_user_id = user_id, tk_side = s, tk_limit = price, tk_is_market = False\<rparr>
             quantity (B\<lparr>sb_sequence := sequence\<rparr>))
          (\<lambda>(remaining, B). if remaining = 0 then Some B
             else rest_order order_id user_id s price quantity sequence remaining B))"

definition add_market_order ::
  "(nat \<Rightarrow> u64) \<Rightarrow> uuid \<Rightarrow> uuid \<Rightarrow> side \<Rightarrow> u64 \<Rightarrow> u64 \<Rightarrow> slot_book \<Rightarrow> slot_book option" where
  "add_market_order tsc order_id user_id s quantity sequence B =
     (if quantity = 0 then Some B
      else map_option snd
        (match_book tsc \<lparr>tk_order_id = order_id, tk_user_id = user_id, tk_side = s, tk_limit = 0, tk_is_market = True\<rparr>
           quantity (B\<lparr>sb_sequence := sequence\<rparr>)))"

text \<open>The level of an entry is read without a check; an entry with a slot always has one.\<close>

definition book_cancel :: "uuid \<Rightarrow> slot_book \<Rightarrow> bool \<times> slot_book" where
  "book_cancel order_id B =
     (let h = index_of order_id; e = sb_index B h
      in case ix_slot e of
           None \<Rightarrow> (False, B)
         | Some i \<Rightarrow>
             (let l = the (ix_level e);
                  B = set_level l (\<lambda>v. v\<lparr>lv_total_qty := lv_total_qty v - os_remaining (sb_orders B i)\<rparr>) B;
                  B = free_order i (clear_index h (dequeue l i B))
              in (True, if lv_head (sb_levels B l) = None then remove_level l (ix_side e) B else B)))"

text \<open>\<open>top_bids\<close> and \<open>top_asks\<close>: price, quantity and count of the best levels.\<close>

fun top_levels :: "nat \<Rightarrow> slot_book \<Rightarrow> slot_link \<Rightarrow> (u32 \<times> u64 \<times> u32) list" where
  "top_levels 0 B cur = []"
| "top_levels (Suc n) B cur =
     (case cur of
        None \<Rightarrow> []
      | Some l \<Rightarrow>
          (lv_price (sb_levels B l), lv_total_qty (sb_levels B l), lv_count (sb_levels B l))
          # top_levels n B (lv_next (sb_levels B l)))"

definition top_of :: "side \<Rightarrow> nat \<Rightarrow> slot_book \<Rightarrow> (u32 \<times> u64 \<times> u32) list" where
  "top_of s depth B = top_levels depth B (sb_head B s)"

end
