(* ===== verification/Book_Spec.thy ===== *)
theory Book_Spec
  imports Engine_Book
begin

text \<open>
  What the order book promises, without slots: each side is a list of price levels from the best price on, each
  level the queue of its orders from the oldest on, quantities are natural numbers. A taker goes through
  the other side in that order. The lemmas are about the fills this makes: nothing is lost, nobody trades at a
  price worse than the limit, and an order is touched only when all orders before it are gone.
\<close>

record resting =
  rs_order_id :: uuid
  rs_user_id :: uuid
  rs_sequence :: u64
  rs_left :: nat

type_synonym book_side = "(u32 \<times> resting list) list"

text \<open>A trade: the maker as it rested, the price and the quantity.\<close>

type_synonym deal = "resting \<times> u32 \<times> nat"

fun take_queue :: "u32 \<Rightarrow> nat \<Rightarrow> resting list \<Rightarrow> deal list \<times> nat \<times> resting list" where
  "take_queue p n [] = ([], n, [])"
| "take_queue p n (r # rs) =
     (if n = 0 then ([], 0, r # rs)
      else if n < rs_left r then ([(r, p, n)], 0, r\<lparr>rs_left := rs_left r - n\<rparr> # rs)
      else (case take_queue p (n - rs_left r) rs of (ds, n', rs') \<Rightarrow> ((r, p, rs_left r) # ds, n', rs')))"

fun take_side :: "(u32 \<Rightarrow> bool) \<Rightarrow> nat \<Rightarrow> book_side \<Rightarrow> deal list \<times> nat \<times> book_side" where
  "take_side ok n [] = ([], n, [])"
| "take_side ok n ((p, rs) # ls) =
     (if n = 0 \<or> \<not> ok p then ([], n, (p, rs) # ls)
      else (case take_queue p n rs of
              (ds, n', []) \<Rightarrow> (case take_side ok n' ls of (ds', n'', ls') \<Rightarrow> (ds @ ds', n'', ls'))
            | (ds, n', rs') \<Rightarrow> (ds, n', (p, rs') # ls)))"

text \<open>Resting at the end of the queue of its price, in a level of its own if there is none.\<close>

fun rest_in :: "side \<Rightarrow> u32 \<Rightarrow> resting \<Rightarrow> book_side \<Rightarrow> book_side" where
  "rest_in s p r [] = [(p, [r])]"
| "rest_in s p r ((q, rs) # ls) =
     (if p = q then (q, rs @ [r]) # ls
      else if better s p q then (p, [r]) # (q, rs) # ls
      else (q, rs) # rest_in s p r ls)"

section \<open>Quantities\<close>

definition queue_total :: "resting list \<Rightarrow> nat" where
  "queue_total rs = (\<Sum>r\<leftarrow>rs. rs_left r)"

definition side_total :: "book_side \<Rightarrow> nat" where
  "side_total ls = (\<Sum>(p, rs)\<leftarrow>ls. queue_total rs)"

definition deals_total :: "deal list \<Rightarrow> nat" where
  "deals_total ds = (\<Sum>(r, p, q)\<leftarrow>ds. q)"

lemma totals [simp]:
  "queue_total [] = 0" "queue_total (r # rs) = rs_left r + queue_total rs"
  "side_total [] = 0" "side_total ((p, rs) # ls) = queue_total rs + side_total ls"
  "deals_total [] = 0" "deals_total ((r, p, q) # ds) = q + deals_total ds"
  "deals_total (ds @ ds') = deals_total ds + deals_total ds'"
  by (simp_all add: queue_total_def side_total_def deals_total_def)

lemma take_queue_total:
  "take_queue p n rs = (ds, n', rs') \<Longrightarrow> n = deals_total ds + n' \<and> queue_total rs = deals_total ds + queue_total rs'"
  by (induction p n rs arbitrary: ds n' rs' rule: take_queue.induct) (auto split: if_splits prod.splits)

lemma take_side_total:
  "take_side ok n ls = (ds, n', ls') \<Longrightarrow> n = deals_total ds + n' \<and> side_total ls = deals_total ds + side_total ls'"
  by (induction ok n ls arbitrary: ds n' ls' rule: take_side.induct)
    (auto split: if_splits prod.splits list.splits dest!: take_queue_total)

text \<open>The taker is left with something only when no level is left that it may trade with.\<close>

lemma take_queue_rest: "take_queue p n rs = (ds, n', rs') \<Longrightarrow> n' = 0 \<or> rs' = []"
  by (induction p n rs arbitrary: ds n' rs' rule: take_queue.induct) (auto split: if_splits prod.splits)

lemma take_side_rest: "take_side ok n ls = (ds, n', ls') \<Longrightarrow> n' = 0 \<or> ls' = [] \<or> \<not> ok (fst (hd ls'))"
  by (induction ok n ls arbitrary: ds n' ls' rule: take_side.induct)
    (auto split: if_splits prod.splits list.splits dest: take_queue_rest)

section \<open>Priority\<close>

text \<open>All orders of a side with their prices, best first.\<close>

definition by_priority :: "book_side \<Rightarrow> (resting \<times> u32) list" where
  "by_priority ls = concat (map (\<lambda>(p, rs). map (\<lambda>r. (r, p)) rs) ls)"

lemma by_priority_simps [simp]:
  "by_priority [] = []" "by_priority ((p, rs) # ls) = map (\<lambda>r. (r, p)) rs @ by_priority ls"
  by (simp_all add: by_priority_def)

text \<open>One queue of all of them: the reference for the two nested loops over levels and orders.\<close>

fun take_orders :: "nat \<Rightarrow> (resting \<times> u32) list \<Rightarrow> deal list \<times> nat \<times> (resting \<times> u32) list" where
  "take_orders n [] = ([], n, [])"
| "take_orders n ((r, p) # os) =
     (if n = 0 then ([], 0, (r, p) # os)
      else if n < rs_left r then ([(r, p, n)], 0, (r\<lparr>rs_left := rs_left r - n\<rparr>, p) # os)
      else (case take_orders (n - rs_left r) os of (ds, n', os') \<Rightarrow> ((r, p, rs_left r) # ds, n', os')))"

lemma take_orders_0 [simp]: "take_orders 0 os = ([], 0, os)"
  by (cases os) auto

lemma take_orders_append:
  "take_orders n (xs @ ys) =
     (case take_orders n xs of (ds, n', xs') \<Rightarrow>
        (case take_orders n' ys of (ds', n'', ys') \<Rightarrow> (ds @ ds', n'', xs' @ ys')))"
  by (induction n xs rule: take_orders.induct) (auto split: prod.splits)

lemma take_queue_orders:
  "take_orders n (map (\<lambda>r. (r, p)) rs) =
     (case take_queue p n rs of (ds, n', rs') \<Rightarrow> (ds, n', map (\<lambda>r. (r, p)) rs'))"
  by (induction p n rs rule: take_queue.induct) (auto split: prod.splits)

lemma take_side_orders:
  "take_side ok n ls = (ds, n', ls') \<Longrightarrow>
     \<exists>os'. take_orders n (by_priority (takeWhile (\<lambda>l. ok (fst l)) ls)) = (ds, n', os') \<and>
       by_priority ls' = os' @ by_priority (dropWhile (\<lambda>l. ok (fst l)) ls)"
proof (induction ok n ls arbitrary: ds n' ls' rule: take_side.induct)
  case (2 ok n p rs ls)
  show ?case
  proof (cases "n = 0 \<or> \<not> ok p")
    case True
    moreover have "by_priority (takeWhile (\<lambda>l. ok (fst l)) ls) @ by_priority (dropWhile (\<lambda>l. ok (fst l)) ls) = by_priority ls"
      by (simp add: by_priority_def flip: concat_append map_append)
    ultimately show ?thesis using 2(2) by auto
  next
    case False
    obtain es m qs where q: "take_queue p n rs = (es, m, qs)" by (cases "take_queue p n rs")
    show ?thesis
    proof (cases qs)
      case Nil
      obtain fs k ms where t: "take_side ok m ls = (fs, k, ms)" by (cases "take_side ok m ls")
      from 2(1) [OF False q [symmetric] refl] Nil t obtain os' where
        "take_orders m (by_priority (takeWhile (\<lambda>l. ok (fst l)) ls)) = (fs, k, os')"
        "by_priority ms = os' @ by_priority (dropWhile (\<lambda>l. ok (fst l)) ls)" by auto
      with 2(2) False q Nil t show ?thesis by (auto simp: take_orders_append take_queue_orders)
    next
      case (Cons r qs')
      then have "m = 0" using take_queue_rest [OF q] by simp
      moreover have "by_priority (takeWhile (\<lambda>l. ok (fst l)) ls) @ by_priority (dropWhile (\<lambda>l. ok (fst l)) ls) = by_priority ls"
        by (simp add: by_priority_def flip: concat_append map_append)
      ultimately show ?thesis using 2(2) False q Cons by (auto simp: take_orders_append take_queue_orders)
    qed
  qed
qed simp

text \<open>The makers are the first orders in that queue, and all but the last trade everything they have left.\<close>

lemma take_orders_priority:
  "take_orders n os = (ds, n', os') \<Longrightarrow>
     map (\<lambda>(r, p, q). (r, p)) ds = take (length ds) os \<and>
     (\<forall>d \<in> set (butlast ds). snd (snd d) = rs_left (fst d))"
  by (induction n os arbitrary: ds n' os' rule: take_orders.induct) (auto split: if_splits prod.splits)

lemma take_side_prices:
  "take_side ok n ls = (ds, n', ls') \<Longrightarrow> (r, p, q) \<in> set ds \<Longrightarrow> ok p"
proof (induction ok n ls arbitrary: ds n' ls' rule: take_side.induct)
  case (2 ok n p' rs ls)
  have "map (\<lambda>(r, p, q). p) es = replicate (length es) p'" if "take_queue p' m qs = (es, k, qs')" for m qs es k qs'
    using that by (induction p' m qs arbitrary: es k qs' rule: take_queue.induct) (auto split: if_splits prod.splits)
  then have qp: "p = p'" if "take_queue p' n rs = (es, k, qs')" "(r, p, q) \<in> set es" for es k qs'
    using that by (metis (no_types, lifting) case_prod_conv image_eqI in_set_replicate set_map)
  with 2 show ?case by (fastforce split: if_splits prod.splits list.splits)
qed simp

end
