(* ===== verification/Book_Inv.thy ===== *)
theory Book_Inv
  imports Book_Spec
begin

text \<open>
  The invariant of the order book. \<open>LS s\<close> are the level slots of a side, best first, \<open>QS l\<close> the order slots of a
  level, oldest first: the links, heads, tails, counts, totals, price maps, free lists and the index all agree
  with them. Between two steps of an operation a level may be empty (the set \<open>E\<close>) and an order slot may be
  taken without being in a queue (the set \<open>X\<close>). \<open>abs_book\<close> forgets the slots.
\<close>

section \<open>The invariant\<close>

type_synonym level_lists = "side \<Rightarrow> nat list"
type_synonym queues = "nat \<Rightarrow> nat list"

definition live_levels :: "level_lists \<Rightarrow> nat set" where
  "live_levels LS = set (LS Buy) \<union> set (LS Sell)"

definition queued :: "level_lists \<Rightarrow> queues \<Rightarrow> nat set" where
  "queued LS QS = (\<Union>l \<in> live_levels LS. set (QS l))"

definition levels_linked :: "slot_book \<Rightarrow> level_lists \<Rightarrow> bool" where
  "levels_linked B LS \<longleftrightarrow>
     (\<forall>s. linked (\<lambda>l. lv_next (sb_levels B l)) (\<lambda>l. lv_prev (sb_levels B l)) (sb_head B s) (LS s))"

definition level_ok :: "slot_book \<Rightarrow> side \<Rightarrow> nat \<Rightarrow> nat list \<Rightarrow> bool" where
  "level_ok B s l qs \<longleftrightarrow>
     linked (\<lambda>i. os_next (sb_orders B i)) (\<lambda>i. os_prev (sb_orders B i)) (lv_head (sb_levels B l)) qs \<and>
     distinct qs \<and> lv_tail (sb_levels B l) = last_of None qs \<and> lv_count (sb_levels B l) = of_nat (length qs) \<and>
     lv_total_qty (sb_levels B l) = (\<Sum>i\<leftarrow>qs. os_remaining (sb_orders B i)) \<and>
     (\<forall>i \<in> set qs. os_remaining (sb_orders B i) \<noteq> 0 \<and> os_price (sb_orders B i) = lv_price (sb_levels B l) \<and>
        os_side (sb_orders B i) = s)"

definition levels_ok :: "slot_book \<Rightarrow> level_lists \<Rightarrow> queues \<Rightarrow> bool" where
  "levels_ok B LS QS \<longleftrightarrow> (\<forall>s. \<forall>l \<in> set (LS s). level_ok B s l (QS l))"

definition apart :: "level_lists \<Rightarrow> queues \<Rightarrow> bool" where
  "apart LS QS \<longleftrightarrow>
     distinct (LS Buy) \<and> distinct (LS Sell) \<and> set (LS Buy) \<inter> set (LS Sell) = {} \<and>
     (\<forall>l \<in> live_levels LS. \<forall>l' \<in> live_levels LS. l \<noteq> l' \<longrightarrow> set (QS l) \<inter> set (QS l') = {})"

definition prices_ok :: "slot_book \<Rightarrow> level_lists \<Rightarrow> bool" where
  "prices_ok B LS \<longleftrightarrow>
     (\<forall>s. sorted_wrt (\<lambda>l l'. better s (lv_price (sb_levels B l)) (lv_price (sb_levels B l'))) (LS s) \<and>
        (\<forall>l \<in> set (LS s). 0 < lv_price (sb_levels B l) \<and> lv_price (sb_levels B l) < 10000) \<and>
        (\<forall>p l. sb_price_map B s p = Some l \<longleftrightarrow> l \<in> set (LS s) \<and> lv_price (sb_levels B l) = p))"

text \<open>A free list and the slots in use share out the array.\<close>

definition free_ok :: "nat \<Rightarrow> nat \<Rightarrow> (nat \<Rightarrow> nat) \<Rightarrow> nat set \<Rightarrow> bool" where
  "free_ok n tp free used \<longleftrightarrow>
     inj_on free {..<tp} \<and> free ` {..<tp} \<inter> used = {} \<and> free ` {..<tp} \<union> used = {..<n}"

definition index_ok :: "slot_book \<Rightarrow> level_lists \<Rightarrow> queues \<Rightarrow> bool" where
  "index_ok B LS QS \<longleftrightarrow>
     (\<forall>h i. ix_slot (sb_index B h) = Some i \<longrightarrow>
        (\<exists>l. ix_level (sb_index B h) = Some l \<and> l \<in> set (LS (ix_side (sb_index B h))) \<and> i \<in> set (QS l) \<and>
           index_of (os_order_id (sb_orders B i)) = h))"

definition core_inv :: "nat set \<Rightarrow> nat set \<Rightarrow> slot_book \<Rightarrow> level_lists \<Rightarrow> queues \<Rightarrow> bool" where
  "core_inv E X B LS QS \<longleftrightarrow>
     levels_linked B LS \<and> levels_ok B LS QS \<and> apart LS QS \<and> prices_ok B LS \<and> index_ok B LS QS \<and>
     free_ok kMaxOrdersPerBook (sb_order_free_top B) (sb_order_free B) (queued LS QS \<union> X) \<and>
     free_ok kMaxPriceLevels (sb_level_free_top B) (sb_level_free B) (live_levels LS) \<and>
     queued LS QS \<inter> X = {} \<and> (\<forall>l \<in> live_levels LS. QS l = [] \<longrightarrow> l \<in> E)"

definition best_ok :: "slot_book \<Rightarrow> level_lists \<Rightarrow> bool" where
  "best_ok B LS \<longleftrightarrow>
     (\<forall>s. sb_best B s = (case LS s of [] \<Rightarrow> no_best s | l # _ \<Rightarrow> lv_price (sb_levels B l)))"

definition uncrossed :: "slot_book \<Rightarrow> level_lists \<Rightarrow> bool" where
  "uncrossed B LS \<longleftrightarrow>
     (\<forall>l \<in> set (LS Buy). \<forall>l' \<in> set (LS Sell). lv_price (sb_levels B l) < lv_price (sb_levels B l'))"

definition book_ok :: "slot_book \<Rightarrow> level_lists \<Rightarrow> queues \<Rightarrow> bool" where
  "book_ok B LS QS \<longleftrightarrow> core_inv {} {} B LS QS \<and> best_ok B LS \<and> uncrossed B LS"

section \<open>The abstract book\<close>

definition resting_of :: "slot_book \<Rightarrow> nat \<Rightarrow> resting" where
  "resting_of B i =
     \<lparr>rs_order_id = os_order_id (sb_orders B i), rs_user_id = os_user_id (sb_orders B i),
      rs_sequence = os_sequence (sb_orders B i), rs_left = unat (os_remaining (sb_orders B i))\<rparr>"

definition abs_level :: "slot_book \<Rightarrow> queues \<Rightarrow> nat \<Rightarrow> u32 \<times> resting list" where
  "abs_level B QS l = (lv_price (sb_levels B l), map (resting_of B) (QS l))"

definition abs_book :: "slot_book \<Rightarrow> level_lists \<Rightarrow> queues \<Rightarrow> side \<Rightarrow> book_side" where
  "abs_book B LS QS s = map (abs_level B QS) (LS s)"

text \<open>\<open>B\<close> holds the abstract book \<open>A\<close>.\<close>

definition holds :: "slot_book \<Rightarrow> (side \<Rightarrow> book_side) \<Rightarrow> bool" where
  "holds B A \<longleftrightarrow> (\<exists>LS QS. book_ok B LS QS \<and> A = abs_book B LS QS)"

section \<open>What the steps change\<close>

named_theorems step_eff "projections of the steps of the book"

lemma set_order_eff [step_eff]:
  "sb_orders (set_order i f B) = (sb_orders B)(i := f (sb_orders B i))"
  "sb_levels (set_order i f B) = sb_levels B" "sb_index (set_order i f B) = sb_index B"
  "sb_order_free (set_order i f B) = sb_order_free B" "sb_level_free (set_order i f B) = sb_level_free B"
  "sb_order_free_top (set_order i f B) = sb_order_free_top B" "sb_level_free_top (set_order i f B) = sb_level_free_top B"
  "sb_price_map (set_order i f B) = sb_price_map B" "sb_head (set_order i f B) = sb_head B"
  "sb_best (set_order i f B) = sb_best B" "sb_sent (set_order i f B) = sb_sent B"
  "sb_market_id (set_order i f B) = sb_market_id B" "sb_fill_sequence (set_order i f B) = sb_fill_sequence B"
  "sb_sequence (set_order i f B) = sb_sequence B"
  by (simp_all add: set_order_def)

lemma set_level_eff [step_eff]:
  "sb_levels (set_level i f B) = (sb_levels B)(i := f (sb_levels B i))"
  "sb_orders (set_level i f B) = sb_orders B" "sb_index (set_level i f B) = sb_index B"
  "sb_order_free (set_level i f B) = sb_order_free B" "sb_level_free (set_level i f B) = sb_level_free B"
  "sb_order_free_top (set_level i f B) = sb_order_free_top B" "sb_level_free_top (set_level i f B) = sb_level_free_top B"
  "sb_price_map (set_level i f B) = sb_price_map B" "sb_head (set_level i f B) = sb_head B"
  "sb_best (set_level i f B) = sb_best B" "sb_sent (set_level i f B) = sb_sent B"
  "sb_market_id (set_level i f B) = sb_market_id B" "sb_fill_sequence (set_level i f B) = sb_fill_sequence B"
  "sb_sequence (set_level i f B) = sb_sequence B"
  by (simp_all add: set_level_def)

lemma dequeue_eff [step_eff]:
  "sb_orders (dequeue l i B) = (\<lambda>z. (sb_orders B z)\<lparr>
     os_next := (if os_prev (sb_orders B i) = Some z then os_next (sb_orders B i) else os_next (sb_orders B z)),
     os_prev := (if os_next (sb_orders B i) = Some z then os_prev (sb_orders B i) else os_prev (sb_orders B z))\<rparr>)"
  "sb_levels (dequeue l i B) = (sb_levels B)(l := (sb_levels B l)\<lparr>
     lv_head := (if os_prev (sb_orders B i) = None then os_next (sb_orders B i) else lv_head (sb_levels B l)),
     lv_tail := (if os_next (sb_orders B i) = None then os_prev (sb_orders B i) else lv_tail (sb_levels B l)),
     lv_count := lv_count (sb_levels B l) - 1\<rparr>)"
  "sb_index (dequeue l i B) = sb_index B"
  "sb_order_free (dequeue l i B) = sb_order_free B" "sb_level_free (dequeue l i B) = sb_level_free B"
  "sb_order_free_top (dequeue l i B) = sb_order_free_top B" "sb_level_free_top (dequeue l i B) = sb_level_free_top B"
  "sb_price_map (dequeue l i B) = sb_price_map B" "sb_head (dequeue l i B) = sb_head B"
  "sb_best (dequeue l i B) = sb_best B" "sb_sent (dequeue l i B) = sb_sent B"
  "sb_market_id (dequeue l i B) = sb_market_id B" "sb_fill_sequence (dequeue l i B) = sb_fill_sequence B"
  "sb_sequence (dequeue l i B) = sb_sequence B"
  by (auto simp: dequeue_def set_order_def set_level_def Let_def fun_eq_iff split: option.split)

lemma free_order_eff [step_eff]:
  "sb_orders (free_order i B) = sb_orders B" "sb_levels (free_order i B) = sb_levels B"
  "sb_index (free_order i B) = sb_index B" "sb_level_free (free_order i B) = sb_level_free B"
  "sb_level_free_top (free_order i B) = sb_level_free_top B"
  "sb_order_free (free_order i B) = (sb_order_free B)(sb_order_free_top B := i)"
  "sb_order_free_top (free_order i B) = sb_order_free_top B + 1"
  "sb_price_map (free_order i B) = sb_price_map B" "sb_head (free_order i B) = sb_head B"
  "sb_best (free_order i B) = sb_best B" "sb_sent (free_order i B) = sb_sent B"
  "sb_market_id (free_order i B) = sb_market_id B" "sb_fill_sequence (free_order i B) = sb_fill_sequence B"
  "sb_sequence (free_order i B) = sb_sequence B"
  by (simp_all add: free_order_def)

lemma clear_index_eff [step_eff]:
  "sb_orders (clear_index h B) = sb_orders B" "sb_levels (clear_index h B) = sb_levels B"
  "sb_index (clear_index h B) = (sb_index B)(h := (sb_index B h)\<lparr>ix_slot := None\<rparr>)"
  "sb_level_free (clear_index h B) = sb_level_free B" "sb_level_free_top (clear_index h B) = sb_level_free_top B"
  "sb_order_free (clear_index h B) = sb_order_free B" "sb_order_free_top (clear_index h B) = sb_order_free_top B"
  "sb_price_map (clear_index h B) = sb_price_map B" "sb_head (clear_index h B) = sb_head B"
  "sb_best (clear_index h B) = sb_best B" "sb_sent (clear_index h B) = sb_sent B"
  "sb_market_id (clear_index h B) = sb_market_id B" "sb_fill_sequence (clear_index h B) = sb_fill_sequence B"
  "sb_sequence (clear_index h B) = sb_sequence B"
  by (simp_all add: clear_index_def)

section \<open>Free lists\<close>

lemma free_ok_push:
  assumes "free_ok n tp free used" and "i \<in> used"
  shows "free_ok n (tp + 1) (free(tp := i)) (used - {i})"
proof -
  have im: "(free(tp := i)) ` {..<tp + 1} = insert i (free ` {..<tp})"
    by (auto simp: lessThan_Suc)
  have "i \<notin> free ` {..<tp}" using assms by (auto simp: free_ok_def)
  then have "inj_on (free(tp := i)) {..<tp + 1}"
    using assms(1) by (auto simp: free_ok_def inj_on_def lessThan_Suc)
  moreover have "insert i (free ` {..<tp}) \<inter> (used - {i}) = {}" "insert i (free ` {..<tp}) \<union> (used - {i}) = {..<n}"
    using assms by (auto simp: free_ok_def)
  ultimately show ?thesis unfolding free_ok_def im by blast
qed

lemma free_ok_pop:
  assumes "free_ok n tp free used" and "tp \<noteq> 0"
  shows "free (tp - 1) \<notin> used" "free (tp - 1) < n" "free_ok n (tp - 1) free (insert (free (tp - 1)) used)"
proof -
  have s: "{..<tp} = insert (tp - 1) {..<tp - 1}" using assms(2) by auto
  have m: "free (tp - 1) \<in> free ` {..<tp}" using assms(2) by simp
  with assms(1) show "free (tp - 1) \<notin> used" "free (tp - 1) < n"
    unfolding free_ok_def by (blast, metis UnI1 lessThan_iff)
  show "free_ok n (tp - 1) free (insert (free (tp - 1)) used)"
    using assms(1) unfolding free_ok_def s by (auto simp: inj_on_insert)
qed

lemma free_ok_card:
  assumes "free_ok n tp free used"
  shows "tp + card used = n" "finite used"
proof -
  show f: "finite used" using assms by (metis free_ok_def finite_Un finite_lessThan)
  have "card (free ` {..<tp} \<union> used) = card (free ` {..<tp}) + card used"
    using assms f by (intro card_Un_disjoint) (auto simp: free_ok_def)
  with assms show "tp + card used = n" by (simp add: free_ok_def card_image)
qed

end
