(* ===== verification/Book_Steps.thy ===== *)
theory Book_Steps
  imports Book_Inv
begin

text \<open>
  Each step of the order book keeps the invariant \<open>core_inv\<close> and does to the lists of slots what its name says:
  taking an order out of its level, filling one in part, removing an empty level, creating one, and putting
  an order at the end of a level.
\<close>

lemma level_ok_cong:
  assumes "level_ok B s l qs" and "sb_levels B' l = sb_levels B l"
    and "\<forall>i \<in> set qs. sb_orders B' i = sb_orders B i"
  shows "level_ok B' s l qs"
proof -
  have "linked (\<lambda>i. os_next (sb_orders B' i)) (\<lambda>i. os_prev (sb_orders B' i)) (lv_head (sb_levels B l)) qs =
      linked (\<lambda>i. os_next (sb_orders B i)) (\<lambda>i. os_prev (sb_orders B i)) (lv_head (sb_levels B l)) qs"
    using assms(3) by (intro linked_cong) simp
  moreover have "(\<Sum>i\<leftarrow>qs. os_remaining (sb_orders B' i)) = (\<Sum>i\<leftarrow>qs. os_remaining (sb_orders B i))"
    using assms(3) by (intro arg_cong [where f = sum_list]) simp
  ultimately show ?thesis using assms unfolding level_ok_def by simp
qed

lemma live_level: "l \<in> set (LS s) \<Longrightarrow> l \<in> live_levels LS"
  by (cases s) (auto simp: live_levels_def)

lemma level_live: "l \<in> live_levels LS \<Longrightarrow> \<exists>s. l \<in> set (LS s)"
  by (auto simp: live_levels_def)

lemma one_side: "apart LS QS \<Longrightarrow> l \<in> set (LS s) \<Longrightarrow> l \<in> set (LS t) \<Longrightarrow> s = t"
  by (cases s; cases t) (auto simp: apart_def)

lemma distinct_side: "apart LS QS \<Longrightarrow> distinct (LS s)"
  by (cases s) (auto simp: apart_def)

lemma one_level:
  "apart LS QS \<Longrightarrow> l \<in> live_levels LS \<Longrightarrow> l' \<in> live_levels LS \<Longrightarrow> i \<in> set (QS l) \<Longrightarrow> i \<in> set (QS l') \<Longrightarrow> l = l'"
  by (auto simp: apart_def)

lemma apart_update:
  assumes "apart LS QS" and "\<forall>k \<in> live_levels LS. k \<noteq> l \<longrightarrow> set qs \<inter> set (QS k) = {}"
  shows "apart LS (QS(l := qs))"
  using assms unfolding apart_def by (simp add: Int_commute)

lemma apart_subset:
  assumes "apart LS QS" and "l \<in> live_levels LS" and "set qs \<subseteq> set (QS l)"
  shows "apart LS (QS(l := qs))"
proof (rule apart_update [OF assms(1)])
  have "set (QS l) \<inter> set (QS k) = {}" if "k \<in> live_levels LS" "k \<noteq> l" for k
    using assms(1,2) that by (simp add: apart_def)
  with assms(3) show "\<forall>k \<in> live_levels LS. k \<noteq> l \<longrightarrow> set qs \<inter> set (QS k) = {}" by blast
qed

lemma queued_split: "l \<in> live_levels LS \<Longrightarrow> queued LS QS = set (QS l) \<union> (\<Union>k \<in> live_levels LS - {l}. set (QS k))"
  by (auto simp: queued_def)

lemma queued_update:
  assumes "l \<in> live_levels LS"
  shows "queued LS (QS(l := qs)) = set qs \<union> (\<Union>k \<in> live_levels LS - {l}. set (QS k))"
proof -
  have "(\<Union>k \<in> live_levels LS - {l}. set ((QS(l := qs)) k)) = (\<Union>k \<in> live_levels LS - {l}. set (QS k))" by simp
  then show ?thesis using queued_split [OF assms, of "QS(l := qs)"] by simp
qed

lemma queued_remove:
  assumes "apart LS QS" and l: "l \<in> live_levels LS" and "QS l = xs @ i # ys" and "distinct (xs @ i # ys)"
  shows "queued LS (QS(l := xs @ ys)) = queued LS QS - {i}"
proof -
  have "i \<notin> (\<Union>k \<in> live_levels LS - {l}. set (QS k))"
    using one_level [OF assms(1) l, of _ i] assms(3) by auto
  then show ?thesis
    unfolding queued_update [OF l] queued_split [OF l, of QS] using assms(3,4) by auto
qed

lemma core_inv_D:
  assumes "core_inv E X B LS QS"
  shows "levels_linked B LS" "levels_ok B LS QS" "apart LS QS" "prices_ok B LS" "index_ok B LS QS"
    "free_ok kMaxOrdersPerBook (sb_order_free_top B) (sb_order_free B) (queued LS QS \<union> X)"
    "free_ok kMaxPriceLevels (sb_level_free_top B) (sb_level_free B) (live_levels LS)"
    "queued LS QS \<inter> X = {}" "l \<in> live_levels LS \<Longrightarrow> QS l = [] \<Longrightarrow> l \<in> E"
  using assms by (simp_all add: core_inv_def)

lemma core_level_ok: "core_inv E X B LS QS \<Longrightarrow> l \<in> set (LS s) \<Longrightarrow> level_ok B s l (QS l)"
  by (simp add: core_inv_def levels_ok_def)

section \<open>Taking an order out\<close>

definition without_order :: "nat \<Rightarrow> nat \<Rightarrow> u64 \<Rightarrow> slot_book \<Rightarrow> slot_book" where
  "without_order l i x B =
     free_order i (dequeue l i (clear_index (index_of (os_order_id (sb_orders B i)))
       (set_level l (\<lambda>v. v\<lparr>lv_total_qty := lv_total_qty v - os_remaining (sb_orders B i)\<rparr>)
         (set_order i (\<lambda>r. r\<lparr>os_remaining := x\<rparr>) B))))"

lemma without_order_level:
  assumes ok: "level_ok B s l (xs @ i # ys)"
  shows "level_ok (without_order l i x B) s l (xs @ ys)"
proof -
  let ?nx = "\<lambda>i. os_next (sb_orders B i)" and ?pv = "\<lambda>i. os_prev (sb_orders B i)"
  let ?B = "without_order l i x B"
  have l: "linked ?nx ?pv (lv_head (sb_levels B l)) (xs @ i # ys)" and d: "distinct (xs @ i # ys)"
    using ok by (simp_all add: level_ok_def)
  note links = linked_next [OF l]
  have "linked (\<lambda>i. os_next (sb_orders ?B i)) (\<lambda>i. os_prev (sb_orders ?B i)) (lv_head (sb_levels ?B l)) (xs @ ys)"
  proof (rule linked_remove [OF l d])
    show "lv_head (sb_levels ?B l) = (if xs = [] then ?nx i else lv_head (sb_levels B l))"
      using links by (simp add: without_order_def step_eff last_of_def)
  qed (use d in \<open>auto simp: without_order_def step_eff\<close>)
  moreover have "lv_tail (sb_levels ?B l) = last_of None (xs @ ys)"
    using ok links by (cases ys) (auto simp: level_ok_def without_order_def step_eff last_of_def)
  moreover have "map (\<lambda>j. os_remaining (sb_orders ?B j)) (xs @ ys) = map (\<lambda>j. os_remaining (sb_orders B j)) (xs @ ys)"
    using d by (auto simp: without_order_def step_eff)
  then have "(\<Sum>j\<leftarrow>xs @ ys. os_remaining (sb_orders ?B j)) = (\<Sum>j\<leftarrow>xs @ ys. os_remaining (sb_orders B j))"
    by (rule arg_cong)
  then have "lv_total_qty (sb_levels ?B l) = (\<Sum>j\<leftarrow>xs @ ys. os_remaining (sb_orders ?B j))"
    unfolding \<open>(\<Sum>j\<leftarrow>xs @ ys. os_remaining (sb_orders ?B j)) = _\<close> using ok
    by (simp add: level_ok_def without_order_def step_eff)
  moreover have "\<forall>j \<in> set (xs @ ys). os_remaining (sb_orders ?B j) \<noteq> 0 \<and>
      os_price (sb_orders ?B j) = lv_price (sb_levels ?B l) \<and> os_side (sb_orders ?B j) = s"
    using ok d by (auto simp: level_ok_def without_order_def step_eff)
  moreover have "lv_count (sb_levels ?B l) = of_nat (length (xs @ ys))"
    using ok by (simp add: level_ok_def without_order_def step_eff)
  ultimately show ?thesis using d by (simp add: level_ok_def)
qed

lemma without_order_other:
  assumes "level_ok B s l (xs @ i # ys)" and "j \<notin> set (xs @ i # ys)"
  shows "sb_orders (without_order l i x B) j = sb_orders B j"
proof -
  have l: "linked (\<lambda>i. os_next (sb_orders B i)) (\<lambda>i. os_prev (sb_orders B i)) (lv_head (sb_levels B l)) (xs @ i # ys)"
    using assms(1) by (simp add: level_ok_def)
  from linked_next [OF l] assms(2) have "os_next (sb_orders B i) \<noteq> Some j" "os_prev (sb_orders B i) \<noteq> Some j" "j \<noteq> i"
    by (auto simp: first_of_def last_of_def split: if_splits)
  then show ?thesis by (simp add: without_order_def step_eff)
qed

lemma without_order_eff [step_eff]:
  "os_order_id (sb_orders (without_order l i x B) j) = os_order_id (sb_orders B j)"
  "os_user_id (sb_orders (without_order l i x B) j) = os_user_id (sb_orders B j)"
  "os_sequence (sb_orders (without_order l i x B) j) = os_sequence (sb_orders B j)"
  "os_remaining (sb_orders (without_order l i x B) j) = (if j = i then x else os_remaining (sb_orders B j))"
  "lv_price (sb_levels (without_order l i x B) k) = lv_price (sb_levels B k)"
  "lv_next (sb_levels (without_order l i x B) k) = lv_next (sb_levels B k)"
  "lv_prev (sb_levels (without_order l i x B) k) = lv_prev (sb_levels B k)"
  "k \<noteq> l \<Longrightarrow> sb_levels (without_order l i x B) k = sb_levels B k"
  "sb_price_map (without_order l i x B) = sb_price_map B" "sb_head (without_order l i x B) = sb_head B"
  "sb_best (without_order l i x B) = sb_best B" "sb_sent (without_order l i x B) = sb_sent B"
  "sb_level_free (without_order l i x B) = sb_level_free B"
  "sb_level_free_top (without_order l i x B) = sb_level_free_top B"
  "sb_market_id (without_order l i x B) = sb_market_id B"
  "sb_fill_sequence (without_order l i x B) = sb_fill_sequence B"
  "sb_sequence (without_order l i x B) = sb_sequence B"
  "sb_order_free (without_order l i x B) = (sb_order_free B)(sb_order_free_top B := i)"
  "sb_order_free_top (without_order l i x B) = sb_order_free_top B + 1"
  "sb_index (without_order l i x B) =
     (sb_index B)(index_of (os_order_id (sb_orders B i)) :=
       (sb_index B (index_of (os_order_id (sb_orders B i))))\<lparr>ix_slot := None\<rparr>)"
  by (simp_all add: without_order_def step_eff)

lemma without_order_inv:
  assumes inv: "core_inv E X B LS QS" and l: "l \<in> set (LS s)" and q: "QS l = xs @ i # ys"
  shows "core_inv (insert l E) X (without_order l i x B) LS (QS(l := xs @ ys))"
proof -
  let ?B = "without_order l i x B" and ?QS = "QS(l := xs @ ys)"
  note D = core_inv_D [OF inv] and a = core_inv_D(3) [OF inv]
  have ok: "level_ok B s l (xs @ i # ys)" using core_level_ok [OF inv l] q by simp
  then have d: "distinct (xs @ i # ys)" by (simp add: level_ok_def)
  have ll: "l \<in> live_levels LS" using l by (rule live_level)
  have other: "sb_orders ?B j = sb_orders B j" if "j \<in> set (QS k)" "k \<in> live_levels LS" "k \<noteq> l" for j k
    using without_order_other [OF ok, of j] one_level [OF a that(2) ll that(1)] that(3) q by metis
  have "levels_linked ?B LS" using D(1) by (simp add: levels_linked_def step_eff)
  moreover have "levels_ok ?B LS ?QS"
    unfolding levels_ok_def
  proof (intro allI ballI)
    fix t k
    assume k: "k \<in> set (LS t)"
    show "level_ok ?B t k (?QS k)"
    proof (cases "k = l")
      case True
      with one_side [OF a l] k have "t = s" by auto
      with True without_order_level [OF ok] show ?thesis by simp
    next
      case False
      with other [OF _ live_level [of k LS t, OF k]] core_level_ok [OF inv k] show ?thesis
        by (auto simp: step_eff intro: level_ok_cong)
    qed
  qed
  moreover have "apart LS ?QS" using a ll by (rule apart_subset) (auto simp: q)
  moreover have "prices_ok ?B LS" using D(4) by (simp add: prices_ok_def step_eff)
  moreover have "index_ok ?B LS ?QS"
    unfolding index_ok_def
  proof (intro allI impI)
    fix h j
    assume e: "ix_slot (sb_index ?B h) = Some j"
    then have h: "h \<noteq> index_of (os_order_id (sb_orders B i))" "ix_slot (sb_index B h) = Some j"
      by (auto simp: step_eff split: if_splits)
    from D(5) h(2) obtain k where k: "ix_level (sb_index B h) = Some k" "k \<in> set (LS (ix_side (sb_index B h)))"
      "j \<in> set (QS k)" "index_of (os_order_id (sb_orders B j)) = h"
      unfolding index_ok_def by blast
    with h(1) q show "\<exists>l. ix_level (sb_index ?B h) = Some l \<and> l \<in> set (LS (ix_side (sb_index ?B h))) \<and> j \<in> set (?QS l) \<and>
        index_of (os_order_id (sb_orders ?B j)) = h"
      by (auto simp: step_eff)
  qed
  moreover have "queued LS ?QS = queued LS QS - {i}" using a ll q d by (rule queued_remove)
  moreover have iq: "i \<in> queued LS QS" unfolding queued_split [OF ll] by (simp add: q)
  moreover from iq have "queued LS QS - {i} \<union> X = (queued LS QS \<union> X) - {i}" using D(8) by auto
  ultimately show ?thesis
    using D free_ok_push [OF D(6), of i] by (auto simp: core_inv_def step_eff)
qed

section \<open>Filling an order in part\<close>

definition part_filled :: "nat \<Rightarrow> nat \<Rightarrow> u64 \<Rightarrow> slot_book \<Rightarrow> slot_book" where
  "part_filled l i q B =
     set_level l (\<lambda>v. v\<lparr>lv_total_qty := lv_total_qty v - q\<rparr>)
       (set_order i (\<lambda>r. r\<lparr>os_remaining := os_remaining r - q\<rparr>) B)"

lemma part_filled_level:
  assumes ok: "level_ok B s l (xs @ i # ys)" and q: "q \<noteq> os_remaining (sb_orders B i)"
  shows "level_ok (part_filled l i q B) s l (xs @ i # ys)"
proof -
  let ?B = "part_filled l i q B"
  have d: "i \<notin> set xs" "i \<notin> set ys" using ok by (auto simp: level_ok_def)
  have "linked (\<lambda>i. os_next (sb_orders ?B i)) (\<lambda>i. os_prev (sb_orders ?B i)) (lv_head (sb_levels B l)) (xs @ i # ys) =
      linked (\<lambda>i. os_next (sb_orders B i)) (\<lambda>i. os_prev (sb_orders B i)) (lv_head (sb_levels B l)) (xs @ i # ys)"
    by (rule linked_cong) (simp add: part_filled_def step_eff)
  moreover have "(\<Sum>j\<leftarrow>zs. os_remaining (sb_orders ?B j)) = (\<Sum>j\<leftarrow>zs. os_remaining (sb_orders B j))"
    if "i \<notin> set zs" for zs
    using that by (intro arg_cong [where f = sum_list]) (auto simp: part_filled_def step_eff)
  note this [OF d(1)] this [OF d(2)]
  moreover have "os_remaining (sb_orders ?B i) = os_remaining (sb_orders B i) - q"
    "lv_total_qty (sb_levels ?B l) = lv_total_qty (sb_levels B l) - q"
    by (simp_all add: part_filled_def step_eff)
  moreover have "\<forall>j \<in> set (xs @ i # ys). os_remaining (sb_orders ?B j) \<noteq> 0 \<and>
      os_price (sb_orders ?B j) = lv_price (sb_levels ?B l) \<and> os_side (sb_orders ?B j) = s"
    using ok q by (auto simp: level_ok_def part_filled_def step_eff)
  ultimately show ?thesis
    using ok by (simp add: level_ok_def) (simp add: part_filled_def step_eff)
qed

lemma part_filled_eff [step_eff]:
  "os_order_id (sb_orders (part_filled l i q B) j) = os_order_id (sb_orders B j)"
  "os_user_id (sb_orders (part_filled l i q B) j) = os_user_id (sb_orders B j)"
  "os_sequence (sb_orders (part_filled l i q B) j) = os_sequence (sb_orders B j)"
  "os_remaining (sb_orders (part_filled l i q B) j) =
     (if j = i then os_remaining (sb_orders B i) - q else os_remaining (sb_orders B j))"
  "j \<noteq> i \<Longrightarrow> sb_orders (part_filled l i q B) j = sb_orders B j"
  "lv_price (sb_levels (part_filled l i q B) k) = lv_price (sb_levels B k)"
  "lv_next (sb_levels (part_filled l i q B) k) = lv_next (sb_levels B k)"
  "lv_prev (sb_levels (part_filled l i q B) k) = lv_prev (sb_levels B k)"
  "lv_head (sb_levels (part_filled l i q B) k) = lv_head (sb_levels B k)"
  "k \<noteq> l \<Longrightarrow> sb_levels (part_filled l i q B) k = sb_levels B k"
  "sb_price_map (part_filled l i q B) = sb_price_map B" "sb_head (part_filled l i q B) = sb_head B"
  "sb_best (part_filled l i q B) = sb_best B" "sb_sent (part_filled l i q B) = sb_sent B"
  "sb_level_free (part_filled l i q B) = sb_level_free B" "sb_order_free (part_filled l i q B) = sb_order_free B"
  "sb_level_free_top (part_filled l i q B) = sb_level_free_top B"
  "sb_order_free_top (part_filled l i q B) = sb_order_free_top B"
  "sb_index (part_filled l i q B) = sb_index B" "sb_market_id (part_filled l i q B) = sb_market_id B"
  "sb_fill_sequence (part_filled l i q B) = sb_fill_sequence B" "sb_sequence (part_filled l i q B) = sb_sequence B"
  by (simp_all add: part_filled_def step_eff)

lemma part_filled_inv:
  assumes inv: "core_inv E X B LS QS" and l: "l \<in> set (LS s)" and i: "i \<in> set (QS l)"
    and q: "q \<noteq> os_remaining (sb_orders B i)"
  shows "core_inv E X (part_filled l i q B) LS QS"
proof -
  let ?B = "part_filled l i q B"
  note D = core_inv_D [OF inv] and a = core_inv_D(3) [OF inv]
  have ll: "l \<in> live_levels LS" using l by (rule live_level)
  have "levels_ok ?B LS QS"
    unfolding levels_ok_def
  proof (intro allI ballI)
    fix t k
    assume k: "k \<in> set (LS t)"
    show "level_ok ?B t k (QS k)"
    proof (cases "k = l")
      case True
      with one_side [OF a l] k have "t = s" by auto
      moreover from i obtain xs ys where "QS l = xs @ i # ys" by (meson split_list)
      ultimately show ?thesis using True core_level_ok [OF inv l] part_filled_level q by simp
    next
      case False
      with one_level [OF a ll live_level [of k LS t, OF k] i] have "i \<notin> set (QS k)" by blast
      with False show ?thesis
        by (intro level_ok_cong [OF core_level_ok [OF inv k]]) (auto simp: part_filled_def step_eff)
    qed
  qed
  with D show ?thesis
    by (simp add: core_inv_def levels_linked_def prices_ok_def index_ok_def step_eff)
qed

section \<open>Removing an empty level\<close>

lemma remove_level_eff [step_eff]:
  "sb_orders (remove_level l s B) = sb_orders B" "sb_index (remove_level l s B) = sb_index B"
  "sb_levels (remove_level l s B) = (\<lambda>z. (sb_levels B z)\<lparr>
     lv_next := (if lv_prev (sb_levels B l) = Some z then lv_next (sb_levels B l) else lv_next (sb_levels B z)),
     lv_prev := (if lv_next (sb_levels B l) = Some z then lv_prev (sb_levels B l) else lv_prev (sb_levels B z))\<rparr>)"
  "sb_head (remove_level l s B) =
     (if lv_prev (sb_levels B l) = None then (sb_head B)(s := lv_next (sb_levels B l)) else sb_head B)"
  "sb_price_map (remove_level l s B) =
     (sb_price_map B)(s := (sb_price_map B s)(lv_price (sb_levels B l) := None))"
  "sb_level_free (remove_level l s B) = (sb_level_free B)(sb_level_free_top B := l)"
  "sb_level_free_top (remove_level l s B) = sb_level_free_top B + 1"
  "sb_order_free (remove_level l s B) = sb_order_free B"
  "sb_order_free_top (remove_level l s B) = sb_order_free_top B"
  "sb_best (remove_level l s B) = (sb_best B)(s :=
     (case sb_head (remove_level l s B) s of None \<Rightarrow> no_best s | Some h \<Rightarrow> lv_price (sb_levels B h)))"
  "sb_sent (remove_level l s B) = sb_sent B" "sb_market_id (remove_level l s B) = sb_market_id B"
  "sb_fill_sequence (remove_level l s B) = sb_fill_sequence B" "sb_sequence (remove_level l s B) = sb_sequence B"
  by (auto simp: remove_level_def set_level_def Let_def fun_eq_iff split: option.split)

lemma live_side: "live_levels LS = (\<Union>t. set (LS t))"
  by (auto simp: live_levels_def) (metis side.exhaust)

lemma live_update: "live_levels (LS(s := ls)) = set ls \<union> (\<Union>t \<in> - {s}. set (LS t))"
  by (cases s) (auto simp: live_levels_def Compl_eq, (metis side.exhaust)+)

lemma live_remove:
  assumes "apart LS QS" and "LS s = as @ l # bs"
  shows "live_levels (LS(s := as @ bs)) = live_levels LS - {l}"
proof -
  have "l \<notin> set (as @ bs)" using distinct_side [OF assms(1), of s] assms(2) by simp
  moreover have "l \<notin> set (LS t)" if "t \<noteq> s" for t
    using one_side [OF assms(1), of l s t] assms(2) that by auto
  moreover have "live_levels (LS(s := as @ bs)) = set (as @ bs) \<union> (\<Union>t \<in> - {s}. set (LS t))"
    by (rule live_update)
  moreover have "live_levels LS = insert l (set (as @ bs)) \<union> (\<Union>t \<in> - {s}. set (LS t))"
    using live_update [of LS s "LS s"] unfolding fun_upd_triv by (simp add: assms(2))
  ultimately show ?thesis by auto
qed

lemma remove_level_linked:
  assumes inv: "core_inv E X B LS QS" and s: "LS s = as @ l # bs"
  shows "levels_linked (remove_level l s B) (LS(s := as @ bs))"
  unfolding levels_linked_def
proof
  fix t
  let ?nx = "\<lambda>l. lv_next (sb_levels B l)" and ?pv = "\<lambda>l. lv_prev (sb_levels B l)" and ?B = "remove_level l s B"
  note D = core_inv_D [OF inv]
  have lk: "linked ?nx ?pv (sb_head B t) (LS t)" for t using D(1) by (simp add: levels_linked_def)
  have lks: "linked ?nx ?pv (sb_head B s) (as @ l # bs)" using lk [of s] s by simp
  note links = linked_next [OF lks]
  have d: "distinct (as @ l # bs)" using distinct_side [OF D(3), of s] s by simp
  show "linked (\<lambda>l. lv_next (sb_levels ?B l)) (\<lambda>l. lv_prev (sb_levels ?B l)) (sb_head ?B t) ((LS(s := as @ bs)) t)"
  proof (cases "t = s")
    case True
    have "linked (\<lambda>l. lv_next (sb_levels ?B l)) (\<lambda>l. lv_prev (sb_levels ?B l)) (sb_head ?B s) (as @ bs)"
    proof (rule linked_remove [OF lks d])
      show "sb_head ?B s = (if as = [] then ?nx l else sb_head B s)"
        using links by (simp add: step_eff last_of_def)
    qed (use d in \<open>auto simp: step_eff\<close>)
    with True show ?thesis by simp
  next
    case False
    have "?nx l \<noteq> Some z \<and> ?pv l \<noteq> Some z" if "z \<in> set (LS t)" for z
    proof -
      from one_side [OF D(3) that, of s] False have "z \<notin> set (as @ bs)" using s by auto
      then show ?thesis using links by (auto simp: first_of_def last_of_def split: if_splits)
    qed
    then have "linked ?nx ?pv (sb_head B t) (LS t) =
        linked (\<lambda>l. lv_next (sb_levels ?B l)) (\<lambda>l. lv_prev (sb_levels ?B l)) (sb_head B t) (LS t)"
      by (intro linked_cong) (simp add: step_eff)
    moreover have "sb_head ?B t = sb_head B t" using False by (simp add: step_eff)
    ultimately show ?thesis using lk [of t] False by simp
  qed
qed

lemma level_ok_remove_level: "level_ok (remove_level l s B) t k qs \<longleftrightarrow> level_ok B t k qs"
  by (simp add: level_ok_def step_eff)

lemma remove_level_prices:
  assumes inv: "core_inv E X B LS QS" and s: "LS s = as @ l # bs"
  shows "prices_ok (remove_level l s B) (LS(s := as @ bs))"
  unfolding prices_ok_def
proof (intro allI conjI)
  fix t
  note D = core_inv_D [OF inv]
  have P: "sorted_wrt (\<lambda>l l'. better t (lv_price (sb_levels B l)) (lv_price (sb_levels B l'))) (LS t)"
    "\<forall>l \<in> set (LS t). 0 < lv_price (sb_levels B l) \<and> lv_price (sb_levels B l) < 10000"
    "\<And>p l. sb_price_map B t p = Some l \<longleftrightarrow> l \<in> set (LS t) \<and> lv_price (sb_levels B l) = p" for t
    using D(4) by (simp_all add: prices_ok_def)
  let ?B = "remove_level l s B" and ?LS = "LS(s := as @ bs)"
  show "sorted_wrt (\<lambda>l l'. better t (lv_price (sb_levels ?B l)) (lv_price (sb_levels ?B l'))) (?LS t)"
    using P(1) [of t] s by (auto simp: step_eff sorted_wrt_append)
  show "\<forall>l \<in> set (?LS t). 0 < lv_price (sb_levels ?B l) \<and> lv_price (sb_levels ?B l) < 10000"
    using P(2) [of t] s by (auto simp: step_eff)
  fix p k
  show "sb_price_map ?B t p = Some k \<longleftrightarrow> k \<in> set (?LS t) \<and> lv_price (sb_levels ?B k) = p"
  proof (cases "t = s")
    case True
    have d: "l \<notin> set (as @ bs)" using distinct_side [OF D(3), of s] s by simp
    have m: "sb_price_map ?B s p = (if p = lv_price (sb_levels B l) then None else sb_price_map B s p)"
      "lv_price (sb_levels ?B k) = lv_price (sb_levels B k)" by (simp_all add: step_eff)
    show ?thesis
    proof (cases "p = lv_price (sb_levels B l)")
      case pl: True
      have "lv_price (sb_levels B k) \<noteq> p" if k: "k \<in> set (as @ bs)"
      proof
        assume "lv_price (sb_levels B k) = p"
        with k s have "sb_price_map B s p = Some k" using P(3) [of s p k] by auto
        moreover have "sb_price_map B s p = Some l" using P(3) [of s p l] s pl by auto
        ultimately show False using d k by auto
      qed
      moreover have "sb_price_map ?B s p = None" using m(1) pl by simp
      ultimately show ?thesis unfolding True m(2) by auto
    next
      case False
      then have "sb_price_map ?B s p = sb_price_map B s p" "lv_price (sb_levels B l) \<noteq> p" using m(1) by auto
      with P(3) [of s p k] s show ?thesis unfolding True m(2) by auto
    qed
  next
    case False
    then show ?thesis using P(3) [of t p k] by (simp add: step_eff)
  qed
qed

lemma remove_level_inv:
  assumes inv: "core_inv E X B LS QS" and s: "LS s = as @ l # bs" and q: "QS l = []"
  shows "core_inv (E - {l}) X (remove_level l s B) (LS(s := as @ bs)) QS"
proof -
  let ?B = "remove_level l s B" and ?LS = "LS(s := as @ bs)"
  note D = core_inv_D [OF inv] and a = core_inv_D(3) [OF inv]
  have l: "l \<in> live_levels LS" using s by (auto intro!: live_level [of l LS s])
  have live_levels: "live_levels ?LS = live_levels LS - {l}" using a s by (rule live_remove)
  have sub: "set (?LS t) \<subseteq> set (LS t)" for t using s by auto
  have "levels_ok ?B ?LS QS"
    unfolding levels_ok_def level_ok_remove_level using D(2) sub by (meson levels_ok_def subsetD)
  moreover have "apart ?LS QS"
    using a sub [of Buy] sub [of Sell] distinct_side [OF a, of s] s live_levels unfolding apart_def by auto
  moreover have "queued ?LS QS = queued LS QS"
    using q unfolding queued_def live_levels by auto
  moreover have "index_ok ?B ?LS QS"
    unfolding index_ok_def
  proof (intro allI impI)
    fix h i
    assume "ix_slot (sb_index ?B h) = Some i"
    with D(5) obtain k where k: "ix_level (sb_index B h) = Some k" "k \<in> set (LS (ix_side (sb_index B h)))"
      "i \<in> set (QS k)" "index_of (os_order_id (sb_orders B i)) = h"
      unfolding index_ok_def by (auto simp: step_eff)
    from k(3) q have "k \<noteq> l" by auto
    with k s have "k \<in> set (?LS (ix_side (sb_index B h)))" by (auto split: if_splits)
    with k show "\<exists>l. ix_level (sb_index ?B h) = Some l \<and> l \<in> set (?LS (ix_side (sb_index ?B h))) \<and> i \<in> set (QS l) \<and>
        index_of (os_order_id (sb_orders ?B i)) = h"
      by (auto simp: step_eff)
  qed
  moreover note remove_level_linked [OF inv s] remove_level_prices [of E X B LS QS s as l bs, OF inv s]
    free_ok_push [OF D(7) l]
  ultimately show ?thesis
    using D unfolding core_inv_def live_levels by (auto simp: step_eff)
qed

end
