(* ===== verification/Book_Match.thy ===== *)
theory Book_Match
  imports Book_Steps
begin

text \<open>
  The two loops of \<open>match\<close> end, and do to the abstract book what \<open>take_queue\<close> and \<open>take_side\<close> do to lists: the
  induction is on the queue of a level and on the levels of a side. \<open>sent_ok\<close> relates the fills that are sent
  to the deals of the specification.
\<close>

section \<open>What a match leaves alone\<close>

lemma send_fill_eff [step_eff]:
  "sb_orders (send_fill tsc m tk p q B) = sb_orders B" "sb_levels (send_fill tsc m tk p q B) = sb_levels B"
  "sb_index (send_fill tsc m tk p q B) = sb_index B" "sb_order_free (send_fill tsc m tk p q B) = sb_order_free B"
  "sb_level_free (send_fill tsc m tk p q B) = sb_level_free B"
  "sb_order_free_top (send_fill tsc m tk p q B) = sb_order_free_top B"
  "sb_level_free_top (send_fill tsc m tk p q B) = sb_level_free_top B"
  "sb_price_map (send_fill tsc m tk p q B) = sb_price_map B" "sb_head (send_fill tsc m tk p q B) = sb_head B"
  "sb_best (send_fill tsc m tk p q B) = sb_best B" "sb_market_id (send_fill tsc m tk p q B) = sb_market_id B"
  "sb_sequence (send_fill tsc m tk p q B) = sb_sequence B"
  "sb_fill_sequence (send_fill tsc m tk p q B) = sb_fill_sequence B + 1"
  by (simp_all add: send_fill_def Let_def)

lemma core_inv_send: "core_inv E X (send_fill tsc m tk p q B) LS QS \<longleftrightarrow> core_inv E X B LS QS"
  by (simp add: core_inv_def levels_linked_def levels_ok_def level_ok_def prices_ok_def index_ok_def step_eff)

lemma resting_send [simp]: "resting_of (send_fill tsc m tk p q B) = resting_of B"
  by (simp add: resting_of_def fun_eq_iff step_eff)

text \<open>The members no match touches, and the orders outside \<open>Q\<close>.\<close>

definition match_frame :: "nat set \<Rightarrow> slot_book \<Rightarrow> slot_book \<Rightarrow> bool" where
  "match_frame Q B B' \<longleftrightarrow>
     sb_head B' = sb_head B \<and> sb_best B' = sb_best B \<and> sb_sequence B' = sb_sequence B \<and>
     (\<forall>k. lv_price (sb_levels B' k) = lv_price (sb_levels B k)) \<and>
     (\<forall>j. j \<notin> Q \<longrightarrow> resting_of B' j = resting_of B j)"

lemma frame_refl [simp]: "match_frame Q B B"
  by (simp add: match_frame_def)

lemma frame_trans: "match_frame Q B B' \<Longrightarrow> match_frame Q' B' B'' \<Longrightarrow> Q' \<subseteq> Q \<Longrightarrow> match_frame Q B B''"
  by (auto simp: match_frame_def)

section \<open>The fills that are sent\<close>

definition fill_matches :: "taker \<Rightarrow> uuid \<Rightarrow> deal \<Rightarrow> engine_fill \<Rightarrow> bool" where
  "fill_matches tk market d f \<longleftrightarrow>
     (case d of (r, p, q) \<Rightarrow>
        ef_market_id f = market \<and> ef_maker_order_id f = rs_order_id r \<and> ef_maker_user_id f = rs_user_id r \<and>
        ef_taker_order_id f = tk_order_id tk \<and> ef_taker_user_id f = tk_user_id tk \<and>
        ef_aggressor f = tk_side tk \<and> ef_price f = p \<and> unat (ef_quantity f) = q)"

definition sent_ok :: "taker \<Rightarrow> slot_book \<Rightarrow> slot_book \<Rightarrow> deal list \<Rightarrow> bool" where
  "sent_ok tk B B' ds \<longleftrightarrow>
     sb_market_id B' = sb_market_id B \<and> sb_fill_sequence B' = sb_fill_sequence B + of_nat (length ds) \<and>
     (\<exists>fs. sb_sent B' = sb_sent B @ fs \<and> list_all2 (fill_matches tk (sb_market_id B)) ds fs \<and>
        map ef_sequence fs = map (\<lambda>i. sb_fill_sequence B + of_nat (Suc i)) [0..<length ds])"

lemma sent_ok_refl: "sb_market_id B' = sb_market_id B \<Longrightarrow> sb_fill_sequence B' = sb_fill_sequence B \<Longrightarrow>
    sb_sent B' = sb_sent B \<Longrightarrow> sent_ok tk B B' []"
  by (simp add: sent_ok_def)

lemma upt_shift: "[n..<n + k] = map (\<lambda>i. n + i) [0..<k]"
  by (induction k) simp_all

lemma sent_ok_trans:
  assumes "sent_ok tk B B' ds" and "sent_ok tk B' B'' ds'"
  shows "sent_ok tk B B'' (ds @ ds')"
proof -
  obtain fs where f: "sb_sent B' = sb_sent B @ fs" "list_all2 (fill_matches tk (sb_market_id B)) ds fs"
    "map ef_sequence fs = map (\<lambda>i. sb_fill_sequence B + of_nat (Suc i)) [0..<length ds]"
    using assms(1) by (auto simp: sent_ok_def)
  obtain gs where g: "sb_sent B'' = sb_sent B' @ gs" "list_all2 (fill_matches tk (sb_market_id B')) ds' gs"
    "map ef_sequence gs = map (\<lambda>i. sb_fill_sequence B' + of_nat (Suc i)) [0..<length ds']"
    using assms(2) by (auto simp: sent_ok_def)
  have s: "sb_fill_sequence B' = sb_fill_sequence B + of_nat (length ds)" "sb_market_id B' = sb_market_id B"
    using assms(1) by (simp_all add: sent_ok_def)
  have "map ef_sequence (fs @ gs) = map (\<lambda>i. sb_fill_sequence B + of_nat (Suc i)) [0..<length (ds @ ds')]"
    unfolding map_append f(3) g(3) length_append upt_add_eq_append [of 0 "length ds" "length ds'", simplified] upt_shift
    by (simp add: s comp_def algebra_simps)
  with assms f g s show ?thesis
    unfolding sent_ok_def by (intro conjI exI [of _ "fs @ gs"]) (auto intro: list_all2_appendI)
qed

lemma sent_ok_one:
  assumes "unat q = n"
  shows "sent_ok tk B (send_fill tsc m tk p q B) [(resting_of B m, p, n)]"
  using assms by (simp add: sent_ok_def send_fill_def make_fill_def fill_matches_def resting_of_def Let_def)

section \<open>One maker\<close>

lemma fill_part:
  assumes "n < os_remaining (sb_orders B m)"
  shows "fill_maker tsc tk l m n B = (0, part_filled l m n (send_fill tsc m tk (lv_price (sb_levels B l)) n B))"
proof -
  have "os_remaining (sb_orders B m) - n \<noteq> 0" using assms by auto
  with assms show ?thesis by (simp add: fill_maker_def Let_def part_filled_def step_eff)
qed

lemma fill_whole:
  assumes "\<not> n < os_remaining (sb_orders B m)"
  shows "fill_maker tsc tk l m n B =
    (n - os_remaining (sb_orders B m),
     without_order l m 0 (send_fill tsc m tk (lv_price (sb_levels B l)) (os_remaining (sb_orders B m)) B))"
proof -
  let ?r = "os_remaining (sb_orders B m)" and ?S = "send_fill tsc m tk (lv_price (sb_levels B l)) (os_remaining (sb_orders B m)) B"
  have "set_order m (\<lambda>r. r\<lparr>os_remaining := os_remaining r - ?r\<rparr>) ?S = set_order m (\<lambda>r. r\<lparr>os_remaining := 0\<rparr>) ?S"
    by (simp add: set_order_def step_eff)
  with assms show ?thesis by (simp add: fill_maker_def Let_def without_order_def step_eff)
qed

section \<open>The loop over a level\<close>

lemma resting_without: "j \<noteq> i \<Longrightarrow> resting_of (without_order l i x B) j = resting_of B j"
  by (simp add: resting_of_def step_eff)

lemma resting_part:
  "resting_of (part_filled l i q B) j =
     (if j = i then (resting_of B i)\<lparr>rs_left := unat (os_remaining (sb_orders B i) - q)\<rparr> else resting_of B j)"
  by (simp add: resting_of_def step_eff)

lemma level_head:
  assumes "core_inv E X B LS QS" and "l \<in> set (LS s)"
  shows "lv_head (sb_levels B l) = first_of None (QS l)"
  using core_level_ok [OF assms] by (auto simp: level_ok_def dest: linked_head)

lemma queue_left:
  assumes "core_inv E X B LS QS" and "l \<in> set (LS s)" and "i \<in> set (QS l)"
  shows "0 < os_remaining (sb_orders B i)"
  using core_level_ok [OF assms(1,2)] assms(3) by (simp add: level_ok_def word_gt_0)

lemma frame_without: "match_frame {m} B (without_order l m x (send_fill tsc m tk p q B))"
  by (auto simp: match_frame_def step_eff resting_without)

lemma frame_part: "match_frame {m} B (part_filled l m n (send_fill tsc m tk p q B))"
  by (auto simp: match_frame_def step_eff resting_part)

lemma sent_ok_cong:
  "sent_ok tk B B' ds \<Longrightarrow> sb_sent B'' = sb_sent B' \<Longrightarrow> sb_market_id B'' = sb_market_id B' \<Longrightarrow>
     sb_fill_sequence B'' = sb_fill_sequence B' \<Longrightarrow> sent_ok tk B B'' ds"
  by (simp add: sent_ok_def)

lemma frame_mono: "match_frame Q B B' \<Longrightarrow> Q \<subseteq> Q' \<Longrightarrow> match_frame Q' B B'"
  by (auto simp: match_frame_def)

text \<open>What one level gives.\<close>

definition level_result ::
  "taker \<Rightarrow> nat set \<Rightarrow> level_lists \<Rightarrow> queues \<Rightarrow> nat \<Rightarrow> u64 \<Rightarrow> slot_book \<Rightarrow> u64 \<Rightarrow> slot_book \<Rightarrow> nat list \<Rightarrow> deal list \<Rightarrow> bool" where
  "level_result tk E LS QS l n B n' B' qs ds \<longleftrightarrow>
     core_inv (insert l E) {} B' LS (QS(l := qs)) \<and> set qs \<subseteq> set (QS l) \<and> match_frame (set (QS l)) B B' \<and> sent_ok tk B B' ds \<and>
     take_queue (lv_price (sb_levels B l)) (unat n) (map (resting_of B) (QS l)) = (ds, unat n', map (resting_of B') qs)"

lemma core_inv_mono: "core_inv E X B LS QS \<Longrightarrow> E \<subseteq> E' \<Longrightarrow> core_inv E' X B LS QS"
  by (auto simp: core_inv_def)

lemma level_result_none:
  assumes "core_inv E {} B LS QS"
    and "take_queue (lv_price (sb_levels B l)) (unat n) (map (resting_of B) (QS l)) = ([], unat n, map (resting_of B) (QS l))"
  shows "level_result tk E LS QS l n B n B (QS l) []"
  using core_inv_mono [OF assms(1), of "insert l E"] assms(2)
  by (simp add: level_result_def sent_ok_refl subset_insertI)

text \<open>The order at the head keeps something, or is used up and the loop goes on.\<close>

lemma level_part:
  assumes inv: "core_inv E {} B LS QS" and l: "l \<in> set (LS s)" and q: "QS l = m # ys"
    and n: "n \<noteq> 0" "n < os_remaining (sb_orders B m)" and B': "B' = part_filled l m n (send_fill tsc m tk (lv_price (sb_levels B l)) n B)"
  shows "match_level tsc tk l n B = Some (0, B') \<and>
    level_result tk E LS QS l n B 0 B' (QS l) [(resting_of B m, lv_price (sb_levels B l), unat n)]"
proof
  have m: "m \<in> set (QS l)" "lv_head (sb_levels B l) = Some m" using q level_head [OF inv l] by simp_all
  have d: "m \<notin> set ys" using core_level_ok [OF inv l] q by (simp add: level_ok_def)
  have "match_level tsc tk l n B = match_level tsc tk l 0 B'"
    using n(1) m fill_part [OF n(2)] by (subst match_level.simps) (simp add: B')
  also have "\<dots> = Some (0, B')" by (subst match_level.simps) simp
  finally show "match_level tsc tk l n B = Some (0, B')" .
  have "core_inv E {} B' LS QS"
    unfolding B' using inv l m(1) n(2) by (intro part_filled_inv [of E "{}" _ LS QS l s]) (auto simp: core_inv_send step_eff)
  then have "core_inv (insert l E) {} B' LS QS" by (rule core_inv_mono) auto
  moreover have "QS(l := m # ys) = QS" using q by auto
  moreover have "unat (os_remaining (sb_orders B m) - n) = unat (os_remaining (sb_orders B m)) - unat n"
    using n(2) by (simp add: unat_sub less_imp_le)
  moreover have "map (resting_of B') ys = map (resting_of B) ys" using d by (auto simp: B' resting_part)
  moreover have "sent_ok tk B B' [(resting_of B m, lv_price (sb_levels B l), unat n)]"
    unfolding B' by (rule sent_ok_cong [OF sent_ok_one [of n "unat n"]]) (simp_all add: step_eff)
  moreover have "match_frame (set (QS l)) B B'"
    unfolding B' by (rule frame_mono [OF frame_part]) (use m(1) in simp)
  moreover have "rs_left (resting_of B m) = unat (os_remaining (sb_orders B m))" by (simp add: resting_of_def)
  ultimately show "level_result tk E LS QS l n B 0 B' (QS l) [(resting_of B m, lv_price (sb_levels B l), unat n)]"
    using n q by (simp add: level_result_def B' resting_part step_eff word_less_nat_alt unat_eq_zero)
qed

lemma level_whole:
  assumes inv: "core_inv E {} B LS QS" and l: "l \<in> set (LS s)" and q: "QS l = m # ys"
    and n: "n \<noteq> 0" "\<not> n < os_remaining (sb_orders B m)" and r: "r = os_remaining (sb_orders B m)"
    and B1: "B1 = without_order l m 0 (send_fill tsc m tk (lv_price (sb_levels B l)) r B)"
    and run: "match_level tsc tk l (n - r) B1 = Some (n', B')"
    and res: "level_result tk (insert l E) LS (QS(l := ys)) l (n - r) B1 n' B' qs ds"
  shows "match_level tsc tk l n B = Some (n', B') \<and>
    level_result tk E LS QS l n B n' B' qs ((resting_of B m, lv_price (sb_levels B l), unat r) # ds)"
proof
  let ?p = "lv_price (sb_levels B l)"
  have m: "m \<in> set (QS l)" "lv_head (sb_levels B l) = Some m" using q level_head [OF inv l] by simp_all
  have d: "m \<notin> set ys" using core_level_ok [OF inv l] q by (simp add: level_ok_def)
  show "match_level tsc tk l n B = Some (n', B')"
    using n(1) m run fill_whole [OF n(2)] by (subst match_level.simps) (simp add: B1 r)
  have old: "map (resting_of B1) ys = map (resting_of B) ys"
    unfolding B1 using d by (intro map_cong refl) (metis resting_without resting_send)
  have "unat (n - r) = unat n - unat r" using n(2) by (simp add: unat_sub r)
  moreover have "lv_price (sb_levels B1 l) = ?p" by (simp add: B1 step_eff)
  ultimately have "take_queue ?p (unat n - unat r) (map (resting_of B) ys) = (ds, unat n', map (resting_of B') qs)"
    using res unfolding old [symmetric] by (simp add: level_result_def)
  moreover have "sent_ok tk B B1 [(resting_of B m, ?p, unat r)]"
    unfolding B1 by (rule sent_ok_cong [OF sent_ok_one [of r "unat r"]]) (simp_all add: step_eff)
  then have "sent_ok tk B B' ((resting_of B m, ?p, unat r) # ds)"
    using sent_ok_trans [of tk B B1 "[(resting_of B m, ?p, unat r)]" B' ds] res by (simp add: level_result_def)
  moreover have "match_frame (set (QS l)) B B1" unfolding B1 by (rule frame_mono [OF frame_without]) (use m(1) in simp)
  then have "match_frame (set (QS l)) B B'"
    by (rule frame_trans [of _ _ _ "set ys"]) (use res q in \<open>auto simp: level_result_def\<close>)
  moreover have "rs_left (resting_of B m) = unat r" by (simp add: resting_of_def r)
  ultimately show "level_result tk E LS QS l n B n' B' qs ((resting_of B m, ?p, unat r) # ds)"
    using res n q r by (auto simp: level_result_def step_eff word_less_nat_alt unat_eq_zero)
qed

lemma match_level_ok:
  assumes "core_inv E {} B LS QS" and "l \<in> set (LS s)"
  shows "\<exists>n' B' qs ds. match_level tsc tk l n B = Some (n', B') \<and> level_result tk E LS QS l n B n' B' qs ds"
  using assms
proof (induction "QS l" arbitrary: n B QS E)
  case Nil
  then have "lv_head (sb_levels B l) = None" using level_head [OF Nil(2,3)] by simp
  then have "match_level tsc tk l n B = Some (n, B)" by (subst match_level.simps) simp
  moreover have "level_result tk E LS QS l n B n B (QS l) []"
    using Nil(2) by (rule level_result_none) (simp flip: Nil(1))
  ultimately show ?case by blast
next
  case (Cons m ys)
  note inv = Cons(3) and l = Cons(4) and q = Cons(2) [symmetric]
  let ?r = "os_remaining (sb_orders B m)"
  consider "n = 0" | "n \<noteq> 0" "n < ?r" | "n \<noteq> 0" "\<not> n < ?r" by blast
  then show ?case
  proof cases
    case 1
    then have "match_level tsc tk l n B = Some (n, B)" by (subst match_level.simps) simp
    moreover have "level_result tk E LS QS l n B n B (QS l) []"
      using inv by (rule level_result_none) (simp add: 1 q)
    ultimately show ?thesis by blast
  next
    case 2
    from level_part [OF inv l q 2 refl] show ?thesis by blast
  next
    case 3
    let ?S = "send_fill tsc m tk (lv_price (sb_levels B l)) ?r B"
    have inv': "core_inv (insert l E) {} (without_order l m 0 ?S) LS (QS(l := ys))"
      using inv l q without_order_inv [of E "{}" ?S LS QS l s "[]" m ys 0] by (simp add: core_inv_send)
    obtain n' B' qs ds where "match_level tsc tk l (n - ?r) (without_order l m 0 ?S) = Some (n', B')"
      "level_result tk (insert l E) LS (QS(l := ys)) l (n - ?r) (without_order l m 0 ?S) n' B' qs ds"
      using Cons(1) [of "QS(l := ys)", OF _ inv' l, of "n - ?r"] by auto
    from level_whole [OF inv l q 3 refl refl this] show ?thesis by blast
  qed
qed

section \<open>The loop over the levels\<close>

lemma abs_level_frame:
  assumes "match_frame (set (QS l)) B B'" and "apart LS QS" and "l \<in> live_levels LS" and "k \<in> live_levels LS" and "k \<noteq> l"
  shows "abs_level B' (QS(l := qs)) k = abs_level B QS k"
proof -
  have "set (QS k) \<inter> set (QS l) = {}" using assms(2-5) by (simp add: apart_def)
  then have "map (resting_of B') (QS k) = map (resting_of B) (QS k)"
    using assms(1) by (intro map_cong refl) (auto simp: match_frame_def)
  with assms(1,5) show ?thesis by (simp add: abs_level_def match_frame_def)
qed

lemma core_inv_nonempty: "core_inv (insert l E) X B LS QS \<Longrightarrow> QS l \<noteq> [] \<Longrightarrow> core_inv E X B LS QS"
  by (auto simp: core_inv_def)

lemma best_ok_frame: "best_ok B LS \<Longrightarrow> match_frame Q B B' \<Longrightarrow> best_ok B' LS"
  by (auto simp: best_ok_def match_frame_def split: list.splits)

lemma head_first: "core_inv E X B LS QS \<Longrightarrow> sb_head B s = first_of None (LS s)"
  by (auto simp: core_inv_def levels_linked_def dest!: linked_head)

lemma best_ok_remove:
  assumes "best_ok B LS" and "core_inv E X (remove_level l t B) (LS(t := ls)) QS"
  shows "best_ok (remove_level l t B) (LS(t := ls))"
proof -
  have "sb_head (remove_level l t B) t = first_of None ls" using head_first [OF assms(2), of t] by simp
  then show ?thesis
    using assms(1) by (auto simp: best_ok_def step_eff first_of_def split: list.splits)
qed

lemma abs_level_remove [simp]: "abs_level (remove_level l t B) QS k = abs_level B QS k"
  by (simp add: abs_level_def resting_of_def step_eff)

definition may_trade :: "taker \<Rightarrow> u32 \<Rightarrow> bool" where
  "may_trade tk p \<longleftrightarrow> tk_is_market tk \<or> crosses (tk_side tk) (tk_limit tk) p"

definition match_result ::
  "taker \<Rightarrow> level_lists \<Rightarrow> queues \<Rightarrow> u64 \<Rightarrow> slot_book \<Rightarrow> u64 \<Rightarrow> slot_book \<Rightarrow> level_lists \<Rightarrow> queues \<Rightarrow> deal list \<Rightarrow> bool" where
  "match_result tk LS QS n B n' B' LS' QS' ds \<longleftrightarrow>
     core_inv {} {} B' LS' QS' \<and> best_ok B' LS' \<and> sent_ok tk B B' ds \<and> sb_sequence B' = sb_sequence B \<and>
     take_side (may_trade tk) (unat n) (abs_book B LS QS (opposite (tk_side tk))) =
       (ds, unat n', abs_book B' LS' QS' (opposite (tk_side tk))) \<and>
     abs_book B' LS' QS' (tk_side tk) = abs_book B LS QS (tk_side tk)"

lemma opposite_neq [simp]: "opposite s \<noteq> s" "s \<noteq> opposite s"
  by (cases s; simp)+

lemma match_result_none:
  assumes "core_inv {} {} B LS QS" and "best_ok B LS"
    and "take_side (may_trade tk) (unat n) (abs_book B LS QS (opposite (tk_side tk))) =
      ([], unat n, abs_book B LS QS (opposite (tk_side tk)))"
  shows "match_result tk LS QS n B n B LS QS []"
  using assms by (simp add: match_result_def sent_ok_refl)

text \<open>What a turn of the outer loop leaves of the other levels.\<close>

lemma level_done:
  assumes inv: "core_inv {} {} B LS QS" and lt: "LS (opposite (tk_side tk)) = l # ls"
    and res: "level_result tk {} LS QS l n B n1 B1 qs ds"
  shows "map (abs_level B1 (QS(l := qs))) (LS (tk_side tk)) = map (abs_level B QS) (LS (tk_side tk))"
    and "map (abs_level B1 (QS(l := qs))) ls = map (abs_level B QS) ls"
    and "lv_price (sb_levels B1 l) = lv_price (sb_levels B l)" and "sb_sequence B1 = sb_sequence B"
proof -
  let ?t = "opposite (tk_side tk)"
  have l: "l \<in> set (LS ?t)" using lt by simp
  have a: "apart LS QS" using core_inv_D(3) [OF inv] .
  have fr: "match_frame (set (QS l)) B B1" using res by (simp add: level_result_def)
  have same: "abs_level B1 (QS(l := qs)) k = abs_level B QS k" if "k \<in> live_levels LS" "k \<noteq> l" for k
    using abs_level_frame [OF fr a live_level [of l LS ?t, OF l] that] .
  show "map (abs_level B1 (QS(l := qs))) (LS (tk_side tk)) = map (abs_level B QS) (LS (tk_side tk))"
    using same one_side [OF a l, of "tk_side tk"] live_level [of _ LS "tk_side tk"] by (intro map_cong refl) auto
  show "map (abs_level B1 (QS(l := qs))) ls = map (abs_level B QS) ls"
    using same lt distinct_side [OF a, of ?t] live_level [of _ LS ?t] by (intro map_cong refl) auto
  show "lv_price (sb_levels B1 l) = lv_price (sb_levels B l)" "sb_sequence B1 = sb_sequence B"
    using fr by (simp_all add: match_frame_def)
qed

text \<open>The taker stops inside a level, or empties it and meets the next one.\<close>

lemma match_stops:
  assumes inv: "core_inv {} {} B LS QS" and best: "best_ok B LS" and lt: "LS (opposite (tk_side tk)) = l # ls"
    and ok: "n \<noteq> 0" "may_trade tk (lv_price (sb_levels B l))"
    and res: "level_result tk {} LS QS l n B n1 B1 qs ds" and qs: "qs \<noteq> []"
  shows "n1 = 0 \<and> match_result tk LS QS n B n1 B1 LS (QS(l := qs)) ds"
proof -
  let ?t = "opposite (tk_side tk)" and ?p = "lv_price (sb_levels B l)"
  note view = level_done [OF inv lt res]
  from res have inv1: "core_inv {l} {} B1 LS (QS(l := qs))" and fr: "match_frame (set (QS l)) B B1" and sent: "sent_ok tk B B1 ds"
    and tq: "take_queue ?p (unat n) (map (resting_of B) (QS l)) = (ds, unat n1, map (resting_of B1) qs)"
    by (simp_all add: level_result_def)
  have n1: "n1 = 0" using take_queue_rest [OF tq] qs by (simp add: unat_eq_zero)
  have "abs_book B LS QS ?t = (?p, map (resting_of B) (QS l)) # map (abs_level B QS) ls"
    using lt by (simp add: abs_book_def abs_level_def)
  moreover have "abs_book B1 LS (QS(l := qs)) ?t = (?p, map (resting_of B1) qs) # map (abs_level B QS) ls"
    using view lt by (simp add: abs_book_def abs_level_def [of B1 _ l])
  moreover have "abs_book B1 LS (QS(l := qs)) (tk_side tk) = abs_book B LS QS (tk_side tk)"
    using view by (simp add: abs_book_def)
  moreover have "core_inv {} {} B1 LS (QS(l := qs))" using core_inv_nonempty [OF inv1] qs by simp
  moreover have "best_ok B1 LS" using best fr by (rule best_ok_frame)
  ultimately have "match_result tk LS QS n B n1 B1 LS (QS(l := qs)) ds"
    using qs sent ok tq n1 view(4) by (cases "map (resting_of B1) qs") (auto simp: match_result_def unat_eq_zero)
  with n1 show ?thesis by simp
qed

lemma match_goes_on:
  assumes inv: "core_inv {} {} B LS QS" and lt: "LS (opposite (tk_side tk)) = l # ls"
    and ok: "n \<noteq> 0" "may_trade tk (lv_price (sb_levels B l))"
    and res: "level_result tk {} LS QS l n B n1 B1 [] ds" and B2: "B2 = remove_level l (opposite (tk_side tk)) B1"
    and r: "match_result tk (LS(opposite (tk_side tk) := ls)) (QS(l := [])) n1 B2 n' B' LS' QS' ds'"
  shows "match_result tk LS QS n B n' B' LS' QS' (ds @ ds')"
proof -
  let ?t = "opposite (tk_side tk)" and ?p = "lv_price (sb_levels B l)"
  note view = level_done [OF inv lt res]
  from res have sent: "sent_ok tk B B1 ds"
    and tq: "take_queue ?p (unat n) (map (resting_of B) (QS l)) = (ds, unat n1, [])"
    by (simp_all add: level_result_def)
  have "abs_book B LS QS ?t = (?p, map (resting_of B) (QS l)) # map (abs_level B QS) ls"
    using lt by (simp add: abs_book_def abs_level_def)
  moreover have "abs_book B2 (LS(?t := ls)) (QS(l := [])) (tk_side tk) = abs_book B LS QS (tk_side tk)"
    "abs_book B2 (LS(?t := ls)) (QS(l := [])) ?t = map (abs_level B QS) ls"
    using view by (simp_all add: abs_book_def B2 cong: map_cong)
  moreover have "sent_ok tk B B2 ds" unfolding B2 by (rule sent_ok_cong [OF sent]) (simp_all add: step_eff)
  moreover have "sb_sequence B2 = sb_sequence B" using view(4) by (simp add: B2 step_eff)
  ultimately show ?thesis
    using r ok tq by (auto simp: match_result_def unat_eq_zero intro: sent_ok_trans)
qed

lemma match_book_ok:
  assumes "core_inv {} {} B LS QS" and "best_ok B LS"
  shows "\<exists>n' B' LS' QS' ds. match_book tsc tk n B = Some (n', B') \<and> match_result tk LS QS n B n' B' LS' QS' ds"
  using assms
proof (induction "LS (opposite (tk_side tk))" arbitrary: n B LS QS)
  case Nil
  then have "sb_head B (opposite (tk_side tk)) = None" using head_first [OF Nil(2), of "opposite (tk_side tk)"] by simp
  then have "match_book tsc tk n B = Some (n, B)" by (subst match_book.simps) simp
  moreover have "match_result tk LS QS n B n B LS QS []"
    using Nil(2,3) by (rule match_result_none) (simp add: abs_book_def flip: Nil(1))
  ultimately show ?case by blast
next
  case (Cons l ls)
  let ?t = "opposite (tk_side tk)"
  note inv = Cons(3) and best = Cons(4) and lt = Cons(2) [symmetric]
  have h: "sb_head B ?t = Some l" using head_first [OF inv, of ?t] lt by simp
  have l: "l \<in> set (LS ?t)" using lt by simp
  show ?case
  proof (cases "n = 0 \<or> \<not> may_trade tk (lv_price (sb_levels B l))")
    case True
    then have "match_book tsc tk n B = Some (n, B)"
      using h by (subst match_book.simps) (auto simp: may_trade_def)
    moreover have "match_result tk LS QS n B n B LS QS []"
      using inv best by (rule match_result_none) (use True lt in \<open>auto simp: abs_book_def abs_level_def\<close>)
    ultimately show ?thesis by blast
  next
    case False
    then have ok: "n \<noteq> 0" "may_trade tk (lv_price (sb_levels B l))" by simp_all
    obtain n1 B1 qs ds where run: "match_level tsc tk l n B = Some (n1, B1)"
      and res: "level_result tk {} LS QS l n B n1 B1 qs ds"
      using match_level_ok [OF inv l] by blast
    from res have inv1: "core_inv {l} {} B1 LS (QS(l := qs))" and fr: "match_frame (set (QS l)) B B1"
      by (simp_all add: level_result_def)
    have step: "match_book tsc tk n B = match_book tsc tk n1 (if qs = [] then remove_level l ?t B1 else B1)"
      using ok h run level_head [OF inv1 l] by (subst match_book.simps) (auto simp: may_trade_def first_of_def)
    show ?thesis
    proof (cases "qs = []")
      case True
      let ?B = "remove_level l ?t B1" and ?LS = "LS(?t := ls)" and ?QS = "QS(l := [])"
      have inv2: "core_inv {} {} ?B ?LS ?QS" using remove_level_inv [OF inv1, of ?t "[]" l ls] lt True by simp
      have best2: "best_ok ?B ?LS" using best_ok_frame [OF best fr] inv2 by (rule best_ok_remove)
      have "ls = ?LS ?t" by simp
      from Cons(1) [OF this inv2 best2, of n1] obtain n' B' LS' QS' ds' where
        "match_book tsc tk n1 ?B = Some (n', B')" and r: "match_result tk ?LS ?QS n1 ?B n' B' LS' QS' ds'" by blast
      with match_goes_on [OF inv lt ok res [unfolded True] refl r] step True show ?thesis by auto
    next
      case qs: False
      from match_stops [OF inv best lt ok res qs] have r: "n1 = 0" "match_result tk LS QS n B n1 B1 LS (QS(l := qs)) ds"
        by blast+
      have "match_book tsc tk n B = Some (n1, B1)" unfolding step using qs r(1) by (simp add: match_book.simps)
      with r(2) show ?thesis by blast
    qed
  qed
qed

end
