(* ===== verification/Book_Rest.thy ===== *)
theory Book_Rest
  imports Book_Match
begin

text \<open>
  Resting an order: a slot is taken, the level of the price is found or put in its place among the levels, the
  order goes to its end, and the index and the best price are written. On the abstract book this is \<open>rest_in\<close>.
\<close>

section \<open>Taking a slot\<close>

lemma alloc_order_ok:
  assumes "core_inv E {} B LS QS"
  shows "case alloc_order B of
      (None, B') \<Rightarrow> B' = B \<and> sb_order_free_top B = 0
    | (Some i, B') \<Rightarrow> core_inv E {i} B' LS QS \<and> i < kMaxOrdersPerBook \<and> B' = B\<lparr>sb_order_free_top := sb_order_free_top B - 1\<rparr>"
proof (cases "sb_order_free_top B = 0")
  case False
  note D = core_inv_D [OF assms]
  let ?i = "sb_order_free B (sb_order_free_top B - 1)"
  have "free_ok kMaxOrdersPerBook (sb_order_free_top B) (sb_order_free B) (queued LS QS)" using D(6) by simp
  note p = free_ok_pop [OF this False]
  have "core_inv E {?i} (B\<lparr>sb_order_free_top := sb_order_free_top B - 1\<rparr>) LS QS"
    using assms p unfolding core_inv_def
    by (simp add: levels_linked_def levels_ok_def level_ok_def prices_ok_def index_ok_def)
  with False p show ?thesis by (simp add: alloc_order_def Let_def)
qed (simp add: alloc_order_def)

lemma set_reserved_inv:
  assumes inv: "core_inv E X B LS QS" and i: "i \<in> X"
  shows "core_inv E X (set_order i f B) LS QS"
proof -
  note D = core_inv_D [OF inv]
  have ni: "j \<noteq> i" if "j \<in> set (QS l)" "l \<in> live_levels LS" for j l
    using D(8) i that by (auto simp: queued_def)
  have "levels_ok (set_order i f B) LS QS"
    unfolding levels_ok_def
  proof (intro allI ballI)
    fix s l
    assume l: "l \<in> set (LS s)"
    show "level_ok (set_order i f B) s l (QS l)"
      using ni [OF _ live_level [of l LS s, OF l]]
      by (intro level_ok_cong [OF core_level_ok [OF inv l]]) (auto simp: step_eff)
  qed
  moreover have "index_ok (set_order i f B) LS QS"
    unfolding index_ok_def
  proof (intro allI impI)
    fix h j
    assume "ix_slot (sb_index (set_order i f B) h) = Some j"
    with D(5) obtain l where l: "ix_level (sb_index B h) = Some l" "l \<in> set (LS (ix_side (sb_index B h)))"
      "j \<in> set (QS l)" "index_of (os_order_id (sb_orders B j)) = h"
      unfolding index_ok_def by (auto simp: step_eff)
    with ni [OF l(3) live_level [of l LS, OF l(2)]]
    show "\<exists>l. ix_level (sb_index (set_order i f B) h) = Some l \<and> l \<in> set (LS (ix_side (sb_index (set_order i f B) h))) \<and>
        j \<in> set (QS l) \<and> index_of (os_order_id (sb_orders (set_order i f B) j)) = h"
      by (auto simp: step_eff)
  qed
  ultimately show ?thesis
    using D unfolding core_inv_def by (simp add: levels_linked_def prices_ok_def step_eff)
qed

section \<open>The place of a new level\<close>

lemma find_place_ok:
  assumes "linked (\<lambda>l. lv_next (sb_levels B l)) pv h (xs @ ys)"
  shows "find_place B s p (last_of None xs) (first_of None ys) =
    (let as = takeWhile (\<lambda>l. \<not> better s p (lv_price (sb_levels B l))) ys;
         bs = dropWhile (\<lambda>l. \<not> better s p (lv_price (sb_levels B l))) ys
     in Some (last_of None (xs @ as), first_of None bs))"
  using assms
proof (induction ys arbitrary: xs)
  case Nil
  then show ?case by (subst find_place.simps) simp
next
  case (Cons y ys)
  have n: "lv_next (sb_levels B y) = first_of None ys" using linked_next(1) [OF Cons.prems] .
  show ?case
  proof (cases "better s p (lv_price (sb_levels B y))")
    case True
    then show ?thesis by (subst find_place.simps) simp
  next
    case False
    then have "find_place B s p (last_of None xs) (first_of None (y # ys)) =
        find_place B s p (last_of None (xs @ [y])) (first_of None ys)"
      using n by (subst find_place.simps) simp
    with Cons.IH [of "xs @ [y]"] Cons.prems False show ?thesis by simp
  qed
qed

lemma insert_level_eff [step_eff]:
  "sb_orders (insert_level l s prev cur B) = sb_orders B" "sb_index (insert_level l s prev cur B) = sb_index B"
  "sb_levels (insert_level l s prev cur B) = (\<lambda>z. (sb_levels B z)\<lparr>
     lv_next := (if prev = Some z then Some l else if z = l then cur else lv_next (sb_levels B z)),
     lv_prev := (if cur = Some z then Some l else if z = l then prev else lv_prev (sb_levels B z))\<rparr>)"
  "sb_head (insert_level l s prev cur B) = (if prev = None then (sb_head B)(s := Some l) else sb_head B)"
  "sb_price_map (insert_level l s prev cur B) = sb_price_map B"
  "sb_level_free (insert_level l s prev cur B) = sb_level_free B"
  "sb_level_free_top (insert_level l s prev cur B) = sb_level_free_top B"
  "sb_order_free (insert_level l s prev cur B) = sb_order_free B"
  "sb_order_free_top (insert_level l s prev cur B) = sb_order_free_top B"
  "sb_best (insert_level l s prev cur B) = sb_best B" "sb_sent (insert_level l s prev cur B) = sb_sent B"
  "sb_market_id (insert_level l s prev cur B) = sb_market_id B"
  "sb_fill_sequence (insert_level l s prev cur B) = sb_fill_sequence B"
  "sb_sequence (insert_level l s prev cur B) = sb_sequence B"
  by (auto simp: insert_level_def set_level_def Let_def fun_eq_iff split: option.split)

text \<open>The new level before it is linked.\<close>

definition fresh_level :: "nat \<Rightarrow> u32 \<Rightarrow> side \<Rightarrow> slot_book \<Rightarrow> slot_book" where
  "fresh_level l p s B =
     (let B = B\<lparr>sb_level_free_top := sb_level_free_top B - 1\<rparr>;
          B = set_level l (\<lambda>v. v\<lparr>lv_total_qty := 0, lv_head := None, lv_tail := None, lv_count := 0, lv_price := p\<rparr>) B
      in B\<lparr>sb_price_map := (sb_price_map B)(s := (sb_price_map B s)(p := Some l))\<rparr>)"

lemma fresh_level_eff [step_eff]:
  "sb_orders (fresh_level l p s B) = sb_orders B" "sb_index (fresh_level l p s B) = sb_index B"
  "sb_levels (fresh_level l p s B) = (sb_levels B)(l := (sb_levels B l)
     \<lparr>lv_total_qty := 0, lv_head := None, lv_tail := None, lv_count := 0, lv_price := p\<rparr>)"
  "sb_head (fresh_level l p s B) = sb_head B"
  "sb_price_map (fresh_level l p s B) = (sb_price_map B)(s := (sb_price_map B s)(p := Some l))"
  "sb_level_free (fresh_level l p s B) = sb_level_free B"
  "sb_level_free_top (fresh_level l p s B) = sb_level_free_top B - 1"
  "sb_order_free (fresh_level l p s B) = sb_order_free B"
  "sb_order_free_top (fresh_level l p s B) = sb_order_free_top B"
  "sb_best (fresh_level l p s B) = sb_best B" "sb_sent (fresh_level l p s B) = sb_sent B"
  "sb_market_id (fresh_level l p s B) = sb_market_id B"
  "sb_fill_sequence (fresh_level l p s B) = sb_fill_sequence B" "sb_sequence (fresh_level l p s B) = sb_sequence B"
  by (simp_all add: fresh_level_def set_level_def Let_def)

lemma new_level_run:
  assumes inv: "core_inv E X B LS QS" and none: "sb_price_map B s p = None" and tp: "sb_level_free_top B \<noteq> 0"
    and l: "l = sb_level_free B (sb_level_free_top B - 1)" and nl: "l \<notin> live_levels LS"
    and split: "as = takeWhile (\<lambda>k. \<not> better s p (lv_price (sb_levels B k))) (LS s)"
      "bs = dropWhile (\<lambda>k. \<not> better s p (lv_price (sb_levels B k))) (LS s)"
  shows "find_or_create_level p s B =
    Some (Some l, insert_level l s (last_of None as) (first_of None bs) (fresh_level l p s B))"
proof -
  let ?F = "fresh_level l p s B"
  have off: "k \<noteq> l" if "k \<in> set (LS s)" for k using that nl live_level [of k LS s] by auto
  have lk: "linked (\<lambda>k. lv_next (sb_levels ?F k)) (\<lambda>k. lv_prev (sb_levels B k)) (sb_head B s) ([] @ LS s)"
    using core_inv_D(1) [OF inv] off
    by (subst linked_cong [where nx' = "\<lambda>k. lv_next (sb_levels B k)" and pv' = "\<lambda>k. lv_prev (sb_levels B k)"])
      (auto simp: levels_linked_def step_eff)
  have "takeWhile (\<lambda>k. \<not> better s p (lv_price (sb_levels ?F k))) (LS s) = as"
    "dropWhile (\<lambda>k. \<not> better s p (lv_price (sb_levels ?F k))) (LS s) = bs"
    unfolding split by (intro takeWhile_cong dropWhile_cong refl; use off in \<open>auto simp: step_eff\<close>)+
  with find_place_ok [OF lk, of s p] have fp: "find_place ?F s p None (first_of None (LS s)) =
      Some (last_of None as, first_of None bs)" by simp
  have hd: "sb_head B s = first_of None (LS s)" using head_first [OF inv] .
  have unf: "find_or_create_level p s B =
      (case sb_head ?F s of
         None \<Rightarrow> Some (Some l, insert_level l s None None ?F)
       | Some h \<Rightarrow> (case find_place ?F s p None (Some h) of
            None \<Rightarrow> None | Some (prev, cur) \<Rightarrow> Some (Some l, insert_level l s prev cur ?F)))"
    unfolding find_or_create_level_def fresh_level_def Let_def none l using tp
    by (simp only: option.case if_False)
  show ?thesis
  proof (cases "LS s")
    case Nil
    with split hd unf show ?thesis by (simp add: step_eff)
  next
    case (Cons k ks)
    with hd fp unf show ?thesis by (simp add: step_eff)
  qed
qed

section \<open>A new level\<close>

lemma better_trans: "better s p q \<Longrightarrow> better s q r \<Longrightarrow> better s p r"
  by (cases s) (auto simp: better_def)

lemma better_total: "p \<noteq> q \<Longrightarrow> \<not> better s p q \<Longrightarrow> better s q p"
  by (cases s) (auto simp: better_def)

lemma better_irrefl [simp]: "\<not> better s p p"
  by (cases s) (auto simp: better_def)

definition new_level ::
  "nat set \<Rightarrow> nat set \<Rightarrow> slot_book \<Rightarrow> level_lists \<Rightarrow> queues \<Rightarrow> u32 \<Rightarrow> side \<Rightarrow> nat \<Rightarrow> nat list \<Rightarrow> nat list \<Rightarrow>
     slot_book \<Rightarrow> bool" where
  "new_level E X B LS QS p s l before after B' \<longleftrightarrow>
     core_inv E X B LS QS \<and> sb_price_map B s p = None \<and> sb_level_free_top B \<noteq> 0 \<and>
     l = sb_level_free B (sb_level_free_top B - 1) \<and> 0 < p \<and> p < 10000 \<and>
     before = takeWhile (\<lambda>k. \<not> better s p (lv_price (sb_levels B k))) (LS s) \<and>
     after = dropWhile (\<lambda>k. \<not> better s p (lv_price (sb_levels B k))) (LS s) \<and>
     B' = insert_level l s (last_of None before) (first_of None after) (fresh_level l p s B)"

lemma new_level_D:
  assumes "new_level E X B LS QS p s l before after B'"
  shows "core_inv E X B LS QS" "sb_price_map B s p = None" "sb_level_free_top B \<noteq> 0"
    "l = sb_level_free B (sb_level_free_top B - 1)" "0 < p" "p < 10000"
    "before = takeWhile (\<lambda>k. \<not> better s p (lv_price (sb_levels B k))) (LS s)"
    "after = dropWhile (\<lambda>k. \<not> better s p (lv_price (sb_levels B k))) (LS s)"
    "B' = insert_level l s (last_of None before) (first_of None after) (fresh_level l p s B)"
  using assms unfolding new_level_def by blast+

lemma new_fresh:
  assumes nl: "new_level E X B LS QS p s l before after B'"
  shows "l \<notin> live_levels LS" "free_ok kMaxPriceLevels (sb_level_free_top B - 1) (sb_level_free B) (insert l (live_levels LS))"
  using free_ok_pop [OF core_inv_D(7) [OF new_level_D(1) [OF nl]] new_level_D(3) [OF nl]] new_level_D(4) [OF nl] by simp_all

lemma new_parts:
  assumes nl: "new_level E X B LS QS p s l before after B'"
  shows "LS s = before @ after"
  by (simp add: new_level_D(7,8) [OF nl])

lemma new_off:
  assumes nl: "new_level E X B LS QS p s l before after B'"
  shows "k \<in> set (LS t) \<Longrightarrow> k \<noteq> l"
  using new_fresh(1) [OF nl] live_level [of k LS t] by auto

lemma new_distinct:
  assumes nl: "new_level E X B LS QS p s l before after B'"
  shows "distinct (before @ l # after)"
  using distinct_side [OF core_inv_D(3) [OF new_level_D(1) [OF nl]], of s] new_off [OF nl, of _ s] new_parts [OF nl] by auto

lemma new_live:
  assumes nl: "new_level E X B LS QS p s l before after B'"
  shows "live_levels (LS(s := before @ l # after)) = insert l (live_levels LS)"
proof -
  have "live_levels LS = set (before @ after) \<union> (\<Union>t \<in> - {s}. set (LS t))"
    using live_update [of LS s "LS s"] unfolding fun_upd_triv by (simp add: new_parts [OF nl])
  then show ?thesis unfolding live_update by auto
qed

lemma new_linked:
  assumes nl: "new_level E X B LS QS p s l before after B'"
  shows "levels_linked B' (LS(s := before @ l # after))"
  unfolding levels_linked_def
proof
  fix t
  let ?nx = "\<lambda>k. lv_next (sb_levels B k)" and ?pv = "\<lambda>k. lv_prev (sb_levels B k)"
  have lk: "linked ?nx ?pv (sb_head B t) (LS t)" for t
    using core_inv_D(1) [OF new_level_D(1) [OF nl]] by (simp add: levels_linked_def)
  show "linked (\<lambda>k. lv_next (sb_levels B' k)) (\<lambda>k. lv_prev (sb_levels B' k)) (sb_head B' t) ((LS(s := before @ l # after)) t)"
  proof (cases "t = s")
    case True
    have "linked (\<lambda>k. lv_next (sb_levels B' k)) (\<lambda>k. lv_prev (sb_levels B' k)) (sb_head B' s) (before @ l # after)"
    proof (rule linked_insert [OF _ new_distinct [OF nl]])
      show "linked ?nx ?pv (sb_head B s) (before @ after)" using lk [of s] new_parts [OF nl] by simp
      show "sb_head B' s = (if before = [] then Some l else sb_head B s)"
        by (simp add: new_level_D(9) [OF nl] step_eff last_of_def)
      have "last_of None before \<noteq> Some l" "first_of None after \<noteq> Some l"
        using new_distinct [OF nl] by (auto simp: last_of_def first_of_def split: if_splits)
      then show "lv_next (sb_levels B' l) = first_of None after" "lv_prev (sb_levels B' l) = last_of None before"
        by (simp_all add: new_level_D(9) [OF nl] step_eff)
    qed (use new_distinct [OF nl] in \<open>auto simp: new_level_D(9) [OF nl] step_eff\<close>)
    with True show ?thesis by simp
  next
    case False
    have "last_of None before \<noteq> Some z \<and> first_of None after \<noteq> Some z \<and> z \<noteq> l" if "z \<in> set (LS t)" for z
      using one_side [OF core_inv_D(3) [OF new_level_D(1) [OF nl]] that, of s] False new_off [OF nl that] new_parts [OF nl]
      by (auto simp: first_of_def last_of_def split: if_splits)
    then have "linked ?nx ?pv (sb_head B t) (LS t) =
        linked (\<lambda>k. lv_next (sb_levels B' k)) (\<lambda>k. lv_prev (sb_levels B' k)) (sb_head B t) (LS t)"
      by (intro linked_cong) (auto simp: new_level_D(9) [OF nl] step_eff)
    moreover have "sb_head B' t = sb_head B t" using False by (simp add: new_level_D(9) [OF nl] step_eff)
    ultimately show ?thesis using lk [of t] False by simp
  qed
qed

lemma new_level_prices:
  assumes nl: "new_level E X B LS QS p s l before after B'"
  shows "lv_price (sb_levels B' k) = (if k = l then p else lv_price (sb_levels B k))"
  by (simp add: new_level_D(9) [OF nl] step_eff)

lemma new_old_price:
  assumes nl: "new_level E X B LS QS p s l before after B'"
  shows "k \<in> set (LS s) \<Longrightarrow> lv_price (sb_levels B k) \<noteq> p"
  using core_inv_D(4) [OF new_level_D(1) [OF nl]] new_level_D(2) [OF nl] by (metis option.distinct(1) prices_ok_def)

lemma new_before:
  assumes nl: "new_level E X B LS QS p s l before after B'"
  shows "k \<in> set before \<Longrightarrow> better s (lv_price (sb_levels B k)) p"
  unfolding new_level_D(7) [OF nl] using new_old_price [OF nl] by (metis better_total set_takeWhileD)

lemma new_after:
  assumes nl: "new_level E X B LS QS p s l before after B'"
  shows "k \<in> set after \<Longrightarrow> better s p (lv_price (sb_levels B k))"
proof -
  assume k: "k \<in> set after"
  then obtain b bs where a: "after = b # bs" by (cases after) auto
  have hb: "better s p (lv_price (sb_levels B b))"
    using a hd_dropWhile [of "\<lambda>k. \<not> better s p (lv_price (sb_levels B k))" "LS s"] unfolding new_level_D(8) [OF nl] by simp
  have "sorted_wrt (\<lambda>l l'. better s (lv_price (sb_levels B l)) (lv_price (sb_levels B l'))) (before @ b # bs)"
    using core_inv_D(4) [OF new_level_D(1) [OF nl]] new_parts [OF nl] a by (simp add: prices_ok_def) metis
  with k a hb better_trans show ?thesis by (auto simp: sorted_wrt_append)
qed

lemma new_prices:
  assumes nl: "new_level E X B LS QS p s l before after B'"
  shows "prices_ok B' (LS(s := before @ l # after))"
  unfolding prices_ok_def
proof (intro allI conjI)
  fix t
  have P: "sorted_wrt (\<lambda>l l'. better t (lv_price (sb_levels B l)) (lv_price (sb_levels B l'))) (LS t)"
    "\<forall>l \<in> set (LS t). 0 < lv_price (sb_levels B l) \<and> lv_price (sb_levels B l) < 10000"
    "\<And>p l. sb_price_map B t p = Some l \<longleftrightarrow> l \<in> set (LS t) \<and> lv_price (sb_levels B l) = p" for t
    using core_inv_D(4) [OF new_level_D(1) [OF nl]] by (simp_all add: prices_ok_def)
  let ?LS = "LS(s := before @ l # after)"
  have old: "sorted_wrt (\<lambda>l l'. better t (lv_price (sb_levels B' l)) (lv_price (sb_levels B' l'))) xs =
      sorted_wrt (\<lambda>l l'. better t (lv_price (sb_levels B l)) (lv_price (sb_levels B l'))) xs" if "l \<notin> set xs" for xs t
    using that by (induction xs) (auto simp: new_level_prices [OF nl])
  show "sorted_wrt (\<lambda>l l'. better t (lv_price (sb_levels B' l)) (lv_price (sb_levels B' l'))) (?LS t)"
  proof (cases "t = s")
    case True
    have n: "l \<notin> set before" "l \<notin> set after" using new_distinct [OF nl] by auto
    have R: "lv_price (sb_levels B' k) = lv_price (sb_levels B k)" if "k \<in> set before \<or> k \<in> set after" for k
      using n that by (auto simp: new_level_prices [OF nl])
    have "lv_price (sb_levels B' l) = p" by (simp add: new_level_prices [OF nl])
    with P(1) [of s] new_before [OF nl] new_after [OF nl] old [OF n(1), of s] old [OF n(2), of s] R show ?thesis
      unfolding True new_parts [OF nl] by (auto simp: sorted_wrt_append)
  next
    case False
    then show ?thesis using P(1) [of t] new_off [OF nl, of _ t] old [of "LS t"] by auto
  qed
  show "\<forall>l \<in> set (?LS t). 0 < lv_price (sb_levels B' l) \<and> lv_price (sb_levels B' l) < 10000"
    using P(2) [of t] new_level_D(5,6) [OF nl] new_parts [OF nl] new_off [OF nl, of _ t] by (auto simp: new_level_prices [OF nl])
  fix q k
  show "sb_price_map B' t q = Some k \<longleftrightarrow> k \<in> set (?LS t) \<and> lv_price (sb_levels B' k) = q"
  proof (cases "t = s")
    case True
    have "sb_price_map B' s q = (if q = p then Some l else sb_price_map B s q)" by (simp add: new_level_D(9) [OF nl] step_eff)
    moreover have "set (?LS s) = insert l (set (LS s))" by (simp add: new_parts [OF nl])
    ultimately show ?thesis
      using P(3) [of s q k] new_off [OF nl, of k s] new_old_price [OF nl, of k] True by (auto simp: new_level_prices [OF nl])
  next
    case False
    then have "sb_price_map B' t q = sb_price_map B t q" by (simp add: new_level_D(9) [OF nl] step_eff)
    with False P(3) [of t q k] new_off [OF nl, of k t] show ?thesis by (auto simp: new_level_prices [OF nl])
  qed
qed

lemma new_inv:
  assumes nl: "new_level E X B LS QS p s l before after B'"
  shows "core_inv (insert l E) X B' (LS(s := before @ l # after)) (QS(l := []))"
proof -
  let ?LS = "LS(s := before @ l # after)" and ?QS = "QS(l := [])"
  note D = core_inv_D [OF new_level_D(1) [OF nl]]
  have q: "?QS k = QS k" if "k \<in> live_levels LS" for k using that new_fresh(1) [OF nl] by auto
  have sides: "k \<in> set (?LS t) \<Longrightarrow> k = l \<and> t = s \<or> k \<in> set (LS t) \<and> k \<noteq> l" for k t
    using new_parts [OF nl] new_off [OF nl, of k t] new_off [OF nl, of k s] by (auto split: if_splits)
  have "level_ok B' t k (?QS k)" if k: "k \<in> set (?LS t)" for t k
  proof (cases "k = l")
    case True
    then show ?thesis by (simp add: level_ok_def new_level_D(9) [OF nl] step_eff)
  next
    case False
    with sides [OF k] core_level_ok [OF new_level_D(1) [OF nl], of k t] show ?thesis by (simp add: level_ok_def new_level_D(9) [OF nl] step_eff)
  qed
  then have "levels_ok B' ?LS ?QS" by (simp add: levels_ok_def)
  moreover have "queued ?LS ?QS = queued LS QS" using q unfolding queued_def new_live [OF nl] by auto
  moreover have "index_ok B' ?LS ?QS"
    unfolding index_ok_def
  proof (intro allI impI)
    fix h i
    assume "ix_slot (sb_index B' h) = Some i"
    with D(5) obtain k where k: "ix_level (sb_index B h) = Some k" "k \<in> set (LS (ix_side (sb_index B h)))"
      "i \<in> set (QS k)" "index_of (os_order_id (sb_orders B i)) = h"
      unfolding index_ok_def by (auto simp: new_level_D(9) [OF nl] step_eff)
    with q [OF live_level [of k LS, OF k(2)]] new_parts [OF nl]
    show "\<exists>l. ix_level (sb_index B' h) = Some l \<and> l \<in> set (?LS (ix_side (sb_index B' h))) \<and> i \<in> set (?QS l) \<and>
        index_of (os_order_id (sb_orders B' i)) = h"
      by (auto simp: new_level_D(9) [OF nl] step_eff)
  qed
  moreover have "apart ?LS ?QS"
  proof -
    have "set (?LS Buy) \<inter> set (?LS Sell) = {}"
      using D(3) sides [of _ Buy] sides [of _ Sell] by (fastforce simp: apart_def)
    moreover have "distinct (?LS t)" for t using new_distinct [OF nl] distinct_side [OF D(3), of t] by simp
    moreover have "set (?QS k) \<inter> set (?QS k') = {}" if "k \<in> live_levels ?LS" "k' \<in> live_levels ?LS" "k \<noteq> k'" for k k'
      using that D(3) unfolding new_live [OF nl] apart_def by auto
    ultimately show ?thesis by (simp add: apart_def)
  qed
  ultimately show ?thesis
    using D new_fresh(2) [OF nl] new_linked [OF nl] new_prices [OF nl] unfolding core_inv_def new_live [OF nl] by (auto simp: new_level_D(9) [OF nl] step_eff)
qed

section \<open>Joining the queue\<close>

lemma enqueue_eff [step_eff]:
  "sb_orders (enqueue l i B) = (\<lambda>z. (sb_orders B z)\<lparr>
     os_next := (if lv_tail (sb_levels B l) = Some z then Some i else if z = i then None else os_next (sb_orders B z)),
     os_prev := (if z = i then lv_tail (sb_levels B l) else os_prev (sb_orders B z))\<rparr>)"
  "sb_levels (enqueue l i B) = (sb_levels B)(l := (sb_levels B l)\<lparr>
     lv_head := (if lv_tail (sb_levels B l) = None then Some i else lv_head (sb_levels B l)), lv_tail := Some i,
     lv_total_qty := lv_total_qty (sb_levels B l) + os_remaining (sb_orders B i),
     lv_count := lv_count (sb_levels B l) + 1\<rparr>)"
  "sb_index (enqueue l i B) = sb_index B" "sb_head (enqueue l i B) = sb_head B"
  "sb_price_map (enqueue l i B) = sb_price_map B" "sb_best (enqueue l i B) = sb_best B"
  "sb_level_free (enqueue l i B) = sb_level_free B" "sb_level_free_top (enqueue l i B) = sb_level_free_top B"
  "sb_order_free (enqueue l i B) = sb_order_free B" "sb_order_free_top (enqueue l i B) = sb_order_free_top B"
  "sb_sent (enqueue l i B) = sb_sent B" "sb_market_id (enqueue l i B) = sb_market_id B"
  "sb_fill_sequence (enqueue l i B) = sb_fill_sequence B" "sb_sequence (enqueue l i B) = sb_sequence B"
  by (auto simp: enqueue_def set_order_def set_level_def Let_def fun_eq_iff split: option.split)

lemma enqueue_level:
  assumes ok: "level_ok B s l qs" and i: "i \<notin> set qs" and r: "os_remaining (sb_orders B i) \<noteq> 0"
    "os_price (sb_orders B i) = lv_price (sb_levels B l)" "os_side (sb_orders B i) = s"
  shows "level_ok (enqueue l i B) s l (qs @ [i])"
proof -
  let ?B = "enqueue l i B"
  have d: "distinct (qs @ [i])" using ok i by (simp add: level_ok_def)
  have tl: "lv_tail (sb_levels B l) = last_of None qs" using ok by (simp add: level_ok_def)
  have lk: "linked (\<lambda>i. os_next (sb_orders B i)) (\<lambda>i. os_prev (sb_orders B i)) (lv_head (sb_levels B l)) (qs @ [])"
    using ok by (simp add: level_ok_def)
  have ne: "last_of None qs \<noteq> Some i" using i by (auto simp: last_of_def)
  have "linked (\<lambda>i. os_next (sb_orders ?B i)) (\<lambda>i. os_prev (sb_orders ?B i)) (lv_head (sb_levels ?B l)) (qs @ [i])"
  proof (rule linked_insert [OF lk d])
    show "lv_head (sb_levels ?B l) = (if qs = [] then Some i else lv_head (sb_levels B l))"
      by (simp add: step_eff tl last_of_def)
  qed (use d ne in \<open>auto simp: step_eff tl\<close>)
  moreover have "(\<Sum>j\<leftarrow>qs @ [i]. os_remaining (sb_orders ?B j)) = (\<Sum>j\<leftarrow>qs @ [i]. os_remaining (sb_orders B j))"
    by (simp add: step_eff)
  then have "lv_total_qty (sb_levels ?B l) = (\<Sum>j\<leftarrow>qs @ [i]. os_remaining (sb_orders ?B j))"
    using ok by (simp add: level_ok_def step_eff)
  moreover have "\<forall>j \<in> set (qs @ [i]). os_remaining (sb_orders ?B j) \<noteq> 0 \<and>
      os_price (sb_orders ?B j) = lv_price (sb_levels ?B l) \<and> os_side (sb_orders ?B j) = s"
    using ok r by (auto simp: level_ok_def step_eff)
  moreover have "lv_count (sb_levels ?B l) = of_nat (length (qs @ [i]))" "lv_tail (sb_levels ?B l) = last_of None (qs @ [i])"
    using ok by (simp_all add: level_ok_def step_eff)
  ultimately show ?thesis using d by (simp add: level_ok_def)
qed

lemma enqueue_levels:
  assumes inv: "core_inv E X B LS QS" and l: "l \<in> set (LS s)" and ni: "\<And>k. k \<in> live_levels LS \<Longrightarrow> i \<notin> set (QS k)"
    and r: "os_remaining (sb_orders B i) \<noteq> 0" "os_price (sb_orders B i) = lv_price (sb_levels B l)" "os_side (sb_orders B i) = s"
  shows "levels_ok (enqueue l i B) LS (QS(l := QS l @ [i]))"
proof -
  let ?B = "enqueue l i B" and ?QS = "QS(l := QS l @ [i])"
  note a = core_inv_D(3) [OF inv]
  have ll: "l \<in> live_levels LS" using l by (rule live_level)
  have other: "sb_orders ?B j = sb_orders B j" if j: "j \<in> set (QS k)" "k \<in> live_levels LS" "k \<noteq> l" for j k
  proof -
    have "j \<noteq> i" using j ni by auto
    moreover have "last_of None (QS l) \<noteq> Some j"
      using one_level [OF a ll j(2) _ j(1)] j(3) by (auto simp: last_of_def)
    moreover have "lv_tail (sb_levels B l) = last_of None (QS l)" using core_level_ok [OF inv l] by (simp add: level_ok_def)
    ultimately show ?thesis by (simp add: step_eff)
  qed
  have "level_ok ?B t k (?QS k)" if k: "k \<in> set (LS t)" for t k
  proof (cases "k = l")
    case True
    with one_side [OF a l] k have "t = s" by auto
    with True enqueue_level [OF core_level_ok [OF inv l] ni [OF ll] r] show ?thesis by simp
  next
    case False
    with other [OF _ live_level [of k LS t, OF k]] show ?thesis
      by (auto simp: step_eff intro!: level_ok_cong [OF core_level_ok [OF inv k]])
  qed
  then show ?thesis by (simp add: levels_ok_def)
qed

lemma enqueue_index:
  assumes "index_ok B LS QS"
  shows "index_ok (enqueue l i B) LS (QS(l := QS l @ [i]))"
  unfolding index_ok_def
proof (intro allI impI)
  fix h j
  assume "ix_slot (sb_index (enqueue l i B) h) = Some j"
  with assms obtain k where k: "ix_level (sb_index B h) = Some k" "k \<in> set (LS (ix_side (sb_index B h)))"
    "j \<in> set (QS k)" "index_of (os_order_id (sb_orders B j)) = h"
    unfolding index_ok_def by (auto simp: step_eff)
  then show "\<exists>k. ix_level (sb_index (enqueue l i B) h) = Some k \<and> k \<in> set (LS (ix_side (sb_index (enqueue l i B) h))) \<and>
      j \<in> set ((QS(l := QS l @ [i])) k) \<and> index_of (os_order_id (sb_orders (enqueue l i B) j)) = h"
    by (auto simp: step_eff)
qed

lemma enqueue_inv:
  assumes inv: "core_inv E X B LS QS" and l: "l \<in> set (LS s)" and i: "i \<in> X" and r: "os_remaining (sb_orders B i) \<noteq> 0"
    "os_price (sb_orders B i) = lv_price (sb_levels B l)" "os_side (sb_orders B i) = s"
  shows "core_inv (E - {l}) (X - {i}) (enqueue l i B) LS (QS(l := QS l @ [i]))"
proof -
  let ?B = "enqueue l i B" and ?QS = "QS(l := QS l @ [i])"
  note D = core_inv_D [OF inv] and a = core_inv_D(3) [OF inv]
  have ll: "l \<in> live_levels LS" using l by (rule live_level)
  have ni: "i \<notin> set (QS k)" if "k \<in> live_levels LS" for k
    using D(8) i that by (auto simp: queued_def)
  have "levels_ok ?B LS ?QS" using inv l ni r by (rule enqueue_levels)
  moreover have "apart LS ?QS"
  proof (rule apart_update [OF a])
    show "\<forall>k \<in> live_levels LS. k \<noteq> l \<longrightarrow> set (QS l @ [i]) \<inter> set (QS k) = {}"
      using a ll ni by (auto simp: apart_def)
  qed
  moreover have "queued LS ?QS = insert i (queued LS QS)"
    unfolding queued_update [OF ll] queued_split [OF ll, of QS] by auto
  moreover from this have "queued LS ?QS \<union> (X - {i}) = queued LS QS \<union> X" using i by auto
  moreover have "index_ok ?B LS ?QS" using D(5) by (rule enqueue_index)
  moreover have "lv_next (sb_levels ?B k) = lv_next (sb_levels B k)" "lv_prev (sb_levels ?B k) = lv_prev (sb_levels B k)"
    "lv_price (sb_levels ?B k) = lv_price (sb_levels B k)" for k by (simp_all add: step_eff)
  note same = this
  have "levels_linked ?B LS" "prices_ok ?B LS"
    using D(1,4) by (simp_all add: levels_linked_def prices_ok_def same enqueue_eff(4,5))
  moreover have "queued LS ?QS \<inter> (X - {i}) = {}" using D(8) \<open>queued LS ?QS = _\<close> by auto
  ultimately show ?thesis
    using D by (auto simp: core_inv_def step_eff)
qed

section \<open>There is always a free level\<close>

text \<open>Uncrossed levels have different prices between 1 and 9999, and there are more slots than that.\<close>

lemma price_inj:
  assumes inv: "core_inv E X B LS QS" and un: "uncrossed B LS"
  shows "inj_on (\<lambda>l. lv_price (sb_levels B l)) (live_levels LS)"
proof (rule inj_onI)
  fix k l
  assume k: "k \<in> live_levels LS" and l: "l \<in> live_levels LS" and p: "lv_price (sb_levels B k) = lv_price (sb_levels B l)"
  obtain s t where s: "k \<in> set (LS s)" and t: "l \<in> set (LS t)" using level_live k l by blast
  have "s = t" using un s t p unfolding uncrossed_def by (cases s; cases t) (metis less_irrefl)+
  with core_inv_D(4) [OF inv] s t p show "k = l" by (metis option.inject prices_ok_def)
qed

lemma free_level:
  assumes inv: "core_inv E X B LS QS" and un: "uncrossed B LS"
  shows "sb_level_free_top B \<noteq> 0"
proof
  assume z: "sb_level_free_top B = 0"
  have c: "card (live_levels LS) = kMaxPriceLevels" using free_ok_card [OF core_inv_D(7) [OF inv]] z by simp
  have "(\<lambda>l. lv_price (sb_levels B l)) ` live_levels LS \<subseteq> {..< 10000}"
    using core_inv_D(4) [OF inv] level_live by (fastforce simp: prices_ok_def)
  then have "unat ` (\<lambda>l. lv_price (sb_levels B l)) ` live_levels LS \<subseteq> {..< 10000}"
    by (auto simp: word_less_nat_alt)
  then have "card (unat ` (\<lambda>l. lv_price (sb_levels B l)) ` live_levels LS) \<le> card {..< 10000 :: nat}"
    by (intro card_mono) auto
  moreover have "card (unat ` (\<lambda>l. lv_price (sb_levels B l)) ` live_levels LS) = card (live_levels LS)"
  proof -
    have "inj_on unat A" for A :: "u32 set" by (rule inj_onI) (simp add: word_unat_eq_iff)
    then have "card (unat ` A) = card A" for A :: "u32 set" by (rule card_image)
    with card_image [OF price_inj [OF inv un]] show ?thesis by simp
  qed
  ultimately show False using c by (simp add: kMaxPriceLevels_def)
qed

section \<open>The level of a price\<close>

lemma rest_in_existing:
  "\<forall>a \<in> set as. fst a \<noteq> p \<and> \<not> better s p (fst a) \<Longrightarrow> rest_in s p r (as @ (p, rs) # bs) = as @ (p, rs @ [r]) # bs"
  by (induction "as") auto

lemma rest_in_new:
  "\<forall>a \<in> set as. fst a \<noteq> p \<and> \<not> better s p (fst a) \<Longrightarrow> \<forall>b \<in> set bs. better s p (fst b) \<Longrightarrow>
     rest_in s p r (as @ bs) = as @ (p, [r]) # bs"
proof (induction "as")
  case Nil
  then show ?case by (cases bs) auto
qed auto

text \<open>What \<open>find_or_create_level\<close> gives to an order in the slot \<open>i\<close>.\<close>

definition level_for :: "u32 \<Rightarrow> side \<Rightarrow> nat \<Rightarrow> slot_book \<Rightarrow> level_lists \<Rightarrow> queues \<Rightarrow> nat \<Rightarrow> slot_book \<Rightarrow> level_lists \<Rightarrow> queues \<Rightarrow> bool" where
  "level_for p s i B LS QS l B' LS' QS' \<longleftrightarrow>
     core_inv {l} {i} B' LS' QS' \<and> l \<in> set (LS' s) \<and> lv_price (sb_levels B' l) = p \<and> sb_orders B' = sb_orders B \<and>
     sb_best B' = sb_best B \<and> sb_sent B' = sb_sent B \<and> sb_sequence B' = sb_sequence B \<and>
     sb_market_id B' = sb_market_id B \<and> sb_fill_sequence B' = sb_fill_sequence B \<and>
     (\<forall>t. t \<noteq> s \<longrightarrow> LS' t = LS t) \<and>
     (\<forall>t. \<forall>k \<in> set (LS' t). k \<noteq> l \<longrightarrow> k \<in> set (LS t) \<and> lv_price (sb_levels B' k) = lv_price (sb_levels B k)) \<and>
     abs_book B' LS' (QS'(l := QS' l @ [i])) = (abs_book B LS QS)(s := rest_in s p (resting_of B i) (abs_book B LS QS s)) \<and>
     (\<exists>k ks. LS' s = k # ks \<and> lv_price (sb_levels B' k) = (if better s p (sb_best B s) then p else sb_best B s))"

lemma resting_orders: "sb_orders B = sb_orders B' \<Longrightarrow> resting_of B = resting_of B'"
  by (simp add: resting_of_def fun_eq_iff)

lemma sorted_prices:
  "core_inv E X B LS QS \<Longrightarrow> sorted_wrt (\<lambda>l l'. better s (lv_price (sb_levels B l)) (lv_price (sb_levels B l'))) (LS s)"
  by (simp add: core_inv_def prices_ok_def)

lemma level_for_existing:
  assumes inv: "core_inv {} {i} B LS QS" and best: "best_ok B LS" and m: "sb_price_map B s p = Some l"
  shows "find_or_create_level p s B = Some (Some l, B) \<and> level_for p s i B LS QS l B LS QS"
proof -
  have l: "l \<in> set (LS s)" "lv_price (sb_levels B l) = p"
    using core_inv_D(4) [OF inv] m by (auto simp: prices_ok_def)
  then obtain as bs where ls: "LS s = as @ l # bs" by (meson split_list)
  have so: "\<forall>k \<in> set as. better s (lv_price (sb_levels B k)) p"
    using sorted_prices [OF inv, of s] ls l(2) by (auto simp: sorted_wrt_append)
  then have so': "\<forall>k \<in> set as. lv_price (sb_levels B k) \<noteq> p \<and> \<not> better s p (lv_price (sb_levels B k))"
    using better_trans better_irrefl by metis
  let ?QS = "QS(l := QS l @ [i])"
  have d: "l \<notin> set as" "l \<notin> set bs" using distinct_side [OF core_inv_D(3) [OF inv], of s] ls by auto
  have same: "map (abs_level B ?QS) ks = map (abs_level B QS) ks" if "l \<notin> set ks" for ks
    using that by (auto simp: abs_level_def)
  have "abs_book B LS ?QS t = ((abs_book B LS QS)(s := rest_in s p (resting_of B i) (abs_book B LS QS s))) t" for t
  proof (cases "t = s")
    case True
    have "rest_in s p (resting_of B i) (map (abs_level B QS) as @ (p, map (resting_of B) (QS l)) # map (abs_level B QS) bs) =
        map (abs_level B QS) as @ (p, map (resting_of B) (QS l) @ [resting_of B i]) # map (abs_level B QS) bs"
      using so' by (intro rest_in_existing) (auto simp: abs_level_def)
    with True show ?thesis using same d l(2) by (simp add: abs_book_def ls abs_level_def [of B _ l])
  next
    case False
    with one_side [OF core_inv_D(3) [OF inv] l(1), of t] have "l \<notin> set (LS t)" by auto
    with False same show ?thesis by (simp add: abs_book_def)
  qed
  moreover have "\<exists>k ks. LS s = k # ks \<and> lv_price (sb_levels B k) = (if better s p (sb_best B s) then p else sb_best B s)"
  proof (cases "as")
    case Nil
    then have "sb_best B s = p" using best ls l(2) by (simp add: best_ok_def)
    with Nil ls l(2) show ?thesis by simp
  next
    case (Cons k ks)
    then have "sb_best B s = lv_price (sb_levels B k)" using best ls by (simp add: best_ok_def)
    with Cons ls so' show ?thesis by simp
  qed
  ultimately show ?thesis
    using core_inv_mono [OF inv, of "{l}"] l m
    by (simp add: level_for_def find_or_create_level_def fun_eq_iff)
qed

lemma new_level_abs:
  assumes nl: "new_level {} {i} B LS QS p s l before after B'" and orders: "sb_orders B' = sb_orders B"
  shows "abs_book B' (LS(s := before @ l # after)) (QS(l := [i])) =
    (abs_book B LS QS)(s := rest_in s p (resting_of B i) (abs_book B LS QS s))"
proof
  fix t
  let ?LS = "LS(s := before @ l # after)" and ?Q = "QS(l := [i])"
  note price = new_level_prices [OF nl]
  have old: "map (abs_level B' ?Q) ks = map (abs_level B QS) ks" if "l \<notin> set ks" for ks
    using that by (auto simp: abs_level_def price resting_orders [OF orders])
  have d: "l \<notin> set before" "l \<notin> set after" using new_distinct [OF nl] by auto
  have own: "abs_level B' ?Q l = (p, [resting_of B i])"
    by (simp add: abs_level_def price resting_orders [OF orders])
  show "abs_book B' ?LS ?Q t = ((abs_book B LS QS)(s := rest_in s p (resting_of B i) (abs_book B LS QS s))) t"
  proof (cases "t = s")
    case True
    have "\<forall>k \<in> set before. lv_price (sb_levels B k) \<noteq> p \<and> \<not> better s p (lv_price (sb_levels B k))"
      using new_before [OF nl] better_trans better_irrefl by metis
    then have "rest_in s p (resting_of B i) (map (abs_level B QS) before @ map (abs_level B QS) after) =
        map (abs_level B QS) before @ (p, [resting_of B i]) # map (abs_level B QS) after"
      using new_after [OF nl] by (intro rest_in_new) (auto simp: abs_level_def)
    with True old d own show ?thesis by (simp add: abs_book_def new_parts [OF nl])
  next
    case False
    with old new_off [OF nl] show ?thesis by (auto simp: abs_book_def)
  qed
qed

lemma new_level_best:
  assumes nl: "new_level {} {i} B LS QS p s l before after B'" and best: "best_ok B LS" and p: "0 < p" "p < 10000"
  shows "\<exists>k ks. before @ l # after = k # ks \<and>
    lv_price (sb_levels B' k) = (if better s p (sb_best B s) then p else sb_best B s)"
proof (cases before)
  case Nil
  then have "LS s = after" using new_parts [OF nl] by simp
  moreover have "p < 10001" using p(2) by (rule less_trans) simp
  ultimately have "better s p (sb_best B s)"
    using best new_after [OF nl] p by (cases after; cases s) (auto simp: best_ok_def better_def)
  with Nil show ?thesis by (simp add: new_level_prices [OF nl])
next
  case (Cons k ks)
  then have "sb_best B s = lv_price (sb_levels B k)" using best new_parts [OF nl] by (simp add: best_ok_def)
  moreover have "\<not> better s p (lv_price (sb_levels B k))"
    using new_before [OF nl] Cons better_trans better_irrefl by (metis list.set_intros(1))
  moreover have "k \<noteq> l" using new_distinct [OF nl] Cons by auto
  ultimately show ?thesis using Cons by (simp add: new_level_prices [OF nl])
qed

lemma level_for_new:
  assumes inv: "core_inv {} {i} B LS QS" and best: "best_ok B LS" and m: "sb_price_map B s p = None"
    and tp: "sb_level_free_top B \<noteq> 0" and p: "0 < p" "p < 10000"
  shows "\<exists>l B' LS' QS'. find_or_create_level p s B = Some (Some l, B') \<and> level_for p s i B LS QS l B' LS' QS'"
proof -
  define l where "l = sb_level_free B (sb_level_free_top B - 1)"
  define before where "before = takeWhile (\<lambda>k. \<not> better s p (lv_price (sb_levels B k))) (LS s)"
  define after where "after = dropWhile (\<lambda>k. \<not> better s p (lv_price (sb_levels B k))) (LS s)"
  define B' where "B' = insert_level l s (last_of None before) (first_of None after) (fresh_level l p s B)"
  have nl: "new_level {} {i} B LS QS p s l before after B'"
    using assms by (simp add: new_level_def l_def before_def after_def B'_def)
  let ?LS = "LS(s := before @ l # after)" and ?QS = "QS(l := [])"
  have run: "find_or_create_level p s B = Some (Some l, B')"
    unfolding B'_def using inv m tp l_def new_fresh(1) [OF nl] before_def after_def by (rule new_level_run)
  have orders: "sb_orders B' = sb_orders B" by (simp add: B'_def step_eff)
  note price = new_level_prices [OF nl]
  have "\<exists>k ks. ?LS s = k # ks \<and> lv_price (sb_levels B' k) = (if better s p (sb_best B s) then p else sb_best B s)"
    using new_level_best [OF nl best p] by simp
  moreover have "\<forall>t. \<forall>k \<in> set (?LS t). k \<noteq> l \<longrightarrow> k \<in> set (LS t) \<and> lv_price (sb_levels B' k) = lv_price (sb_levels B k)"
    using new_parts [OF nl] by (auto simp: price)
  moreover have "sb_best B' = sb_best B" "sb_sent B' = sb_sent B" "sb_sequence B' = sb_sequence B"
    "sb_market_id B' = sb_market_id B" "sb_fill_sequence B' = sb_fill_sequence B"
    by (simp_all add: B'_def step_eff)
  moreover have "?QS(l := ?QS l @ [i]) = QS(l := [i])" by simp
  ultimately have "level_for p s i B LS QS l B' ?LS ?QS"
    using new_inv [OF nl] orders new_level_abs [OF nl orders] unfolding level_for_def by (simp add: price)
  with run show ?thesis by blast
qed

end
