(* ===== verification/Book_Ops.thy ===== *)
theory Book_Ops
  imports Book_Rest
begin

text \<open>
  The operations of the order book: each returns, keeps the invariant, and does to the abstract book what its
  specification says, \<open>spec_add\<close> for limit orders, \<open>spec_take\<close> for market orders. A cancellation takes out the
  order whose place in the index is that of the given identifier.
\<close>

section \<open>Resting\<close>

lemma core_inv_best [simp]: "core_inv E X (B\<lparr>sb_best := b\<rparr>) LS QS \<longleftrightarrow> core_inv E X B LS QS"
  by (simp add: core_inv_def levels_linked_def levels_ok_def level_ok_def prices_ok_def index_ok_def)

lemma core_inv_sequence [simp]: "core_inv E X (B\<lparr>sb_sequence := b\<rparr>) LS QS \<longleftrightarrow> core_inv E X B LS QS"
  by (simp add: core_inv_def levels_linked_def levels_ok_def level_ok_def prices_ok_def index_ok_def)

lemma core_inv_index:
  assumes "core_inv E X B LS QS" and "l \<in> set (LS s)" and "i \<in> set (QS l)"
    and "h = index_of (os_order_id (sb_orders B i))"
  shows "core_inv E X (B\<lparr>sb_index := (sb_index B)(h := \<lparr>ix_slot = Some i, ix_level = Some l, ix_side = s\<rparr>)\<rparr>) LS QS"
proof -
  let ?B = "B\<lparr>sb_index := (sb_index B)(h := \<lparr>ix_slot = Some i, ix_level = Some l, ix_side = s\<rparr>)\<rparr>"
  have "index_ok ?B LS QS"
    using assms(2-4) core_inv_D(5) [OF assms(1)] by (simp add: index_ok_def)
  with assms(1) show ?thesis
    unfolding core_inv_def by (simp add: levels_linked_def levels_ok_def level_ok_def prices_ok_def)
qed

definition not_crossing :: "side \<Rightarrow> u32 \<Rightarrow> slot_book \<Rightarrow> level_lists \<Rightarrow> bool" where
  "not_crossing s p B LS \<longleftrightarrow> (\<forall>l \<in> set (LS (opposite s)). \<not> crosses s p (lv_price (sb_levels B l)))"

lemma uncrossed_rest:
  assumes un: "uncrossed B LS" and nc: "not_crossing s p B LS" and lf: "level_for p s i B LS QS l B' LS' QS'"
  shows "uncrossed B' LS'"
proof -
  have old: "k \<in> set (LS t) \<and> lv_price (sb_levels B' k) = lv_price (sb_levels B k)" if "k \<in> set (LS' t)" "k \<noteq> l" for k t
    using lf that by (simp add: level_for_def)
  have l: "l \<in> set (LS' s)" "lv_price (sb_levels B' l) = p" and a: "apart LS' QS'"
    using lf by (auto simp: level_for_def core_inv_def)
  have far: "\<not> crosses s p (lv_price (sb_levels B' k))" if "k \<in> set (LS' (opposite s))" for k
  proof -
    have "k \<noteq> l" using one_side [OF a l(1), of "opposite s"] that by auto
    with old [OF that] nc show ?thesis by (simp add: not_crossing_def)
  qed
  show ?thesis
    unfolding uncrossed_def
  proof (intro ballI)
    fix k k'
    assume k: "k \<in> set (LS' Buy)" "k' \<in> set (LS' Sell)"
    show "lv_price (sb_levels B' k) < lv_price (sb_levels B' k')"
    proof (cases "k = l \<or> k' = l")
      case True
      then show ?thesis
        using far [of k] far [of k'] k l one_side [OF a l(1), of Buy] one_side [OF a l(1), of Sell]
        by (cases s) (auto simp: crosses_def)
    next
      case False
      with old [OF k(1)] old [OF k(2)] un show ?thesis by (simp add: uncrossed_def)
    qed
  qed
qed

text \<open>The order an accepted limit order leaves in the book.\<close>

definition new_resting :: "uuid \<Rightarrow> uuid \<Rightarrow> u64 \<Rightarrow> u64 \<Rightarrow> resting" where
  "new_resting order_id user_id sequence left =
     \<lparr>rs_order_id = order_id, rs_user_id = user_id, rs_sequence = sequence, rs_left = unat left\<rparr>"

definition same_outside :: "slot_book \<Rightarrow> slot_book \<Rightarrow> bool" where
  "same_outside B B' \<longleftrightarrow>
     sb_sent B' = sb_sent B \<and> sb_sequence B' = sb_sequence B \<and> sb_market_id B' = sb_market_id B \<and>
     sb_fill_sequence B' = sb_fill_sequence B"

lemma level_for_exists:
  assumes inv: "core_inv {} {i} B LS QS" and best: "best_ok B LS" and un: "uncrossed B LS" and p: "0 < p" "p < 10000"
  shows "\<exists>l B' LS' QS'. find_or_create_level p s B = Some (Some l, B') \<and> level_for p s i B LS QS l B' LS' QS'"
proof (cases "sb_price_map B s p")
  case None
  show ?thesis by (rule level_for_new [OF inv best None free_level [OF inv un] p])
next
  case (Some l)
  with level_for_existing [OF inv best Some] show ?thesis by blast
qed

lemma enqueue_best:
  assumes lf: "level_for p s i B LS QS l B' LS' QS'" and best: "best_ok B LS"
    and pr: "\<And>k. lv_price (sb_levels B'' k) = lv_price (sb_levels B' k)"
    and b: "sb_best B'' = (sb_best B)(s := (if better s p (sb_best B s) then p else sb_best B s))"
  shows "best_ok B'' LS'"
  unfolding best_ok_def
proof
  fix t
  show "sb_best B'' t = (case LS' t of [] \<Rightarrow> no_best t | l # _ \<Rightarrow> lv_price (sb_levels B'' l))"
  proof (cases "t = s")
    case True
    with lf b pr show ?thesis by (auto simp: level_for_def)
  next
    case False
    with lf have t: "LS' t = LS t" by (simp add: level_for_def)
    have l: "l \<notin> set (LS' t)"
      using lf one_side [of LS' QS' l s t] False by (auto simp: level_for_def core_inv_def)
    have "lv_price (sb_levels B' k) = lv_price (sb_levels B k)" if "k \<in> set (LS' t)" for k
      using lf that l by (auto simp: level_for_def)
    with b best False t pr show ?thesis by (auto simp: best_ok_def split: list.splits)
  qed
qed

text \<open>A slot taken from the free list and filled in is in no queue; the book is as before.\<close>

lemma reserved_slot:
  assumes inv: "core_inv {} {} B LS QS" and free: "sb_order_free_top B \<noteq> 0" and i: "i = sb_order_free B (sb_order_free_top B - 1)"
    and B2: "B2 = set_order i f (B\<lparr>sb_order_free_top := sb_order_free_top B - 1\<rparr>)"
  shows "alloc_order B = (Some i, B\<lparr>sb_order_free_top := sb_order_free_top B - 1\<rparr>)" and "core_inv {} {i} B2 LS QS"
    and "sb_best B2 = sb_best B" and "sb_levels B2 = sb_levels B" and "same_outside B B2"
    and "abs_book B2 LS QS = abs_book B LS QS"
proof -
  let ?B = "B\<lparr>sb_order_free_top := sb_order_free_top B - 1\<rparr>"
  show alloc: "alloc_order B = (Some i, ?B)" using free by (simp add: alloc_order_def Let_def i)
  have inv1: "core_inv {} {i} ?B LS QS" using alloc_order_ok [OF inv] unfolding alloc prod.case option.case by blast
  show "core_inv {} {i} B2 LS QS" unfolding B2 using inv1 by (rule set_reserved_inv) simp
  show b: "sb_best B2 = sb_best B" "sb_levels B2 = sb_levels B" "same_outside B B2"
    by (simp_all add: B2 step_eff same_outside_def)
  have ni: "i \<notin> set (QS k)" if "k \<in> live_levels LS" for k
    using core_inv_D(8) [OF inv1] that by (auto simp: queued_def)
  have "resting_of B2 j = resting_of B j" if "j \<noteq> i" for j
    using that by (simp add: resting_of_def B2 step_eff)
  then have "map (resting_of B2) (QS k) = map (resting_of B) (QS k)" if "k \<in> live_levels LS" for k
    using ni [OF that] by (intro map_cong refl) metis
  then show "abs_book B2 LS QS = abs_book B LS QS"
    using live_level [of _ LS] by (auto simp: abs_book_def abs_level_def b fun_eq_iff)
qed

text \<open>From the level of its price on: queue, index and best price.\<close>

definition placed :: "uuid \<Rightarrow> side \<Rightarrow> u32 \<Rightarrow> nat \<Rightarrow> nat \<Rightarrow> slot_book \<Rightarrow> slot_book" where
  "placed oid s p i l B =
     (let B = enqueue l i B;
          B = B\<lparr>sb_index := (sb_index B)(index_of oid := \<lparr>ix_slot = Some i, ix_level = Some l, ix_side = s\<rparr>)\<rparr>
      in B\<lparr>sb_best := (sb_best B)(s := (if better s p (sb_best B s) then p else sb_best B s))\<rparr>)"

lemma placed_eff:
  "lv_price (sb_levels (placed oid s p i l B) k) = lv_price (sb_levels B k)"
  "resting_of (placed oid s p i l B) = resting_of B" "same_outside B (placed oid s p i l B)"
  "sb_best (placed oid s p i l B) = (sb_best B)(s := (if better s p (sb_best B s) then p else sb_best B s))"
  by (simp_all add: placed_def Let_def step_eff resting_of_def same_outside_def fun_eq_iff)

lemma placed_inv:
  assumes lf: "level_for p s i B LS QS l B3 LS' QS'"
    and slot: "os_remaining (sb_orders B i) \<noteq> 0" "os_price (sb_orders B i) = p" "os_side (sb_orders B i) = s"
      "os_order_id (sb_orders B i) = oid"
  shows "core_inv {} {} (placed oid s p i l B3) LS' (QS'(l := QS' l @ [i]))"
proof -
  let ?QS = "QS'(l := QS' l @ [i])" and ?B4 = "enqueue l i B3"
  from lf have inv3: "core_inv {l} {i} B3 LS' QS'" and l: "l \<in> set (LS' s)" "lv_price (sb_levels B3 l) = p"
    and o3: "sb_orders B3 = sb_orders B" by (simp_all add: level_for_def)
  have "core_inv {} {} ?B4 LS' ?QS"
    using enqueue_inv [OF inv3 l(1), of i] slot by (simp add: o3 l(2))
  then have "core_inv {} {} (?B4\<lparr>sb_index := (sb_index ?B4)(index_of oid := \<lparr>ix_slot = Some i, ix_level = Some l, ix_side = s\<rparr>)\<rparr>) LS' ?QS"
    using l(1) by (rule core_inv_index) (use slot in \<open>simp_all add: o3 step_eff\<close>)
  then show ?thesis by (simp add: placed_def Let_def)
qed

lemma rest_order_ok:
  assumes inv: "core_inv {} {} B LS QS" and best: "best_ok B LS" and un: "uncrossed B LS"
    and nc: "not_crossing s p B LS" and p: "0 < p" "p < 10000" and left: "left \<noteq> 0"
  shows "\<exists>B'. rest_order oid uid s p qty sq left B = Some B' \<and> same_outside B B' \<and>
    (if sb_order_free_top B = 0 then B' = B
     else \<exists>LS' QS'. book_ok B' LS' QS' \<and>
       abs_book B' LS' QS' = (abs_book B LS QS)(s := rest_in s p (new_resting oid uid sq left) (abs_book B LS QS s)))"
proof (cases "sb_order_free_top B = 0")
  case True
  then show ?thesis by (simp add: rest_order_def alloc_order_def same_outside_def)
next
  case False
  define i where "i = sb_order_free B (sb_order_free_top B - 1)"
  define B2 where "B2 = set_order i (\<lambda>r. r\<lparr>os_order_id := oid, os_user_id := uid, os_quantity := qty,
      os_remaining := left, os_sequence := sq, os_price := p, os_side := s, os_is_market := False\<rparr>)
    (B\<lparr>sb_order_free_top := sb_order_free_top B - 1\<rparr>)"
  note r = reserved_slot [OF inv False i_def B2_def]
  have best2: "best_ok B2 LS" and un2: "uncrossed B2 LS" and nc2: "not_crossing s p B2 LS"
    using best un nc unfolding best_ok_def uncrossed_def not_crossing_def r(3,4) by simp_all
  obtain l B3 LS' QS' where run: "find_or_create_level p s B2 = Some (Some l, B3)"
    and lf: "level_for p s i B2 LS QS l B3 LS' QS'"
    using level_for_exists [OF r(2) best2 un2 p] by blast
  let ?B = "placed oid s p i l B3" and ?QS = "QS'(l := QS' l @ [i])"
  have "rest_order oid uid s p qty sq left B = Some ?B"
    using run unfolding B2_def by (simp add: rest_order_def r(1) Let_def placed_def)
  moreover have "core_inv {} {} ?B LS' ?QS" using lf by (rule placed_inv) (use left in \<open>simp_all add: B2_def step_eff\<close>)
  moreover have "best_ok ?B LS'"
    by (rule enqueue_best [OF lf best2]) (use lf in \<open>simp_all add: placed_eff level_for_def\<close>)
  moreover have "uncrossed ?B LS'" using uncrossed_rest [OF un2 nc2 lf] by (simp add: uncrossed_def placed_eff)
  moreover have "abs_book ?B LS' ?QS = abs_book B3 LS' ?QS"
    by (simp add: abs_book_def abs_level_def placed_eff fun_eq_iff)
  moreover have "resting_of B2 i = new_resting oid uid sq left"
    by (simp add: resting_of_def new_resting_def B2_def step_eff)
  moreover have "same_outside B ?B"
    using lf r(5) placed_eff(3) [of B3 oid s p i l] by (simp add: same_outside_def level_for_def)
  ultimately show ?thesis using lf False r(6) by (auto simp: level_for_def book_ok_def)
qed

section \<open>The specification of an order\<close>

definition orders_in :: "(side \<Rightarrow> book_side) \<Rightarrow> nat" where
  "orders_in A = length (by_priority (A Buy)) + length (by_priority (A Sell))"

text \<open>A limit order trades with the other side as far as its price goes; the rest waits, if there is a slot.\<close>

definition spec_limit ::
  "uuid \<Rightarrow> uuid \<Rightarrow> side \<Rightarrow> u32 \<Rightarrow> nat \<Rightarrow> u64 \<Rightarrow> (side \<Rightarrow> book_side) \<Rightarrow> deal list \<times> (side \<Rightarrow> book_side)" where
  "spec_limit oid uid s p n sq A =
     (if p = 0 \<or> 10000 \<le> p \<or> n = 0 then ([], A)
      else (case take_side (crosses s p) n (A (opposite s)) of
              (ds, n', os) \<Rightarrow>
                (let A' = A(opposite s := os)
                 in (ds, if n' = 0 \<or> orders_in A' = kMaxOrdersPerBook then A'
                         else A'(s := rest_in s p \<lparr>rs_order_id = oid, rs_user_id = uid, rs_sequence = sq, rs_left = n'\<rparr> (A' s))))))"

definition spec_market :: "side \<Rightarrow> nat \<Rightarrow> (side \<Rightarrow> book_side) \<Rightarrow> deal list \<times> (side \<Rightarrow> book_side)" where
  "spec_market s n A = (case take_side (\<lambda>p. True) n (A (opposite s)) of (ds, n', os) \<Rightarrow> (ds, A(opposite s := os)))"

text \<open>The invariant in terms of the abstract book.\<close>

lemma uncrossed_abs:
  "uncrossed B LS \<longleftrightarrow> (\<forall>a \<in> set (abs_book B LS QS Buy). \<forall>b \<in> set (abs_book B LS QS Sell). fst a < fst b)"
  by (auto simp: uncrossed_def abs_book_def abs_level_def)

lemma not_crossing_abs:
  "not_crossing s p B LS \<longleftrightarrow> (\<forall>a \<in> set (abs_book B LS QS (opposite s)). \<not> crosses s p (fst a))"
  by (auto simp: not_crossing_def abs_book_def abs_level_def)

lemma sorted_abs:
  "core_inv E X B LS QS \<Longrightarrow> sorted_wrt (\<lambda>a b. better s (fst a) (fst b)) (abs_book B LS QS s)"
  using sorted_prices [of E X B LS QS s] by (simp add: abs_book_def sorted_wrt_map abs_level_def)

lemma take_side_prices_left: "take_side ok n ls = (ds, n', ls') \<Longrightarrow> fst ` set ls' \<subseteq> fst ` set ls"
proof (induction ok n ls arbitrary: ds n' ls' rule: take_side.induct)
  case (2 ok n p rs ls)
  obtain es m qs where q: "take_queue p n rs = (es, m, qs)" by (cases "take_queue p n rs")
  obtain fs k ms where t: "take_side ok m ls = (fs, k, ms)" by (cases "take_side ok m ls")
  show ?case
  proof (cases "n = 0 \<or> \<not> ok p")
    case False
    from 2(1) [OF False q [symmetric] refl _ t] have "qs = [] \<Longrightarrow> fst ` set ms \<subseteq> fst ` set ls" by simp
    with 2(2) False q t show ?thesis by (cases qs) auto
  qed (use 2(2) in auto)
qed simp

lemma crosses_worse: "\<not> crosses s p q \<Longrightarrow> better (opposite s) q q' \<Longrightarrow> \<not> crosses s p q'"
  by (cases s) (auto simp: crosses_def better_def)

lemma side_sums: "apart LS QS \<Longrightarrow> sum f (live_levels LS) = (\<Sum>l\<leftarrow>LS Buy. f l) + (\<Sum>l\<leftarrow>LS Sell. f l)"
  unfolding live_levels_def apart_def
  by (subst sum.union_disjoint) (simp_all add: sum_list_distinct_conv_sum_set)

lemma orders_queued:
  assumes inv: "core_inv E X B LS QS"
  shows "orders_in (abs_book B LS QS) = card (queued LS QS)"
proof -
  have a: "apart LS QS" using core_inv_D(3) [OF inv] .
  have d: "distinct (QS l)" if "l \<in> live_levels LS" for l
    using level_live [OF that] core_level_ok [OF inv] by (auto simp: level_ok_def)
  have "card (queued LS QS) = (\<Sum>l \<in> live_levels LS. card (set (QS l)))"
    unfolding queued_def using a by (intro card_UN_disjoint) (auto simp: live_levels_def apart_def)
  also have "\<dots> = (\<Sum>l \<in> live_levels LS. length (QS l))" using d by (simp add: distinct_card)
  also have "\<dots> = (\<Sum>l\<leftarrow>LS Buy. length (QS l)) + (\<Sum>l\<leftarrow>LS Sell. length (QS l))" using a by (rule side_sums)
  finally show ?thesis
    by (simp add: orders_in_def by_priority_def abs_book_def abs_level_def length_concat comp_def)
qed

lemma full_book:
  assumes "core_inv {} {} B LS QS"
  shows "orders_in (abs_book B LS QS) = kMaxOrdersPerBook \<longleftrightarrow> sb_order_free_top B = 0"
  using free_ok_card [OF core_inv_D(6) [OF assms]] orders_queued [OF assms] by auto

section \<open>Adding orders\<close>

lemma sent_ok_outside: "sent_ok tk B B' ds \<Longrightarrow> same_outside B' B'' \<Longrightarrow> sent_ok tk B B'' ds"
  by (simp add: sent_ok_def same_outside_def)

lemma sent_ok_sequence: "sent_ok tk (B\<lparr>sb_sequence := x\<rparr>) B' ds \<longleftrightarrow> sent_ok tk B B' ds"
  by (simp add: sent_ok_def)

lemma book_ok_sequence [simp]: "book_ok (B\<lparr>sb_sequence := x\<rparr>) LS QS \<longleftrightarrow> book_ok B LS QS"
  by (simp add: book_ok_def best_ok_def uncrossed_def cong: list.case_cong)

lemma abs_sequence [simp]: "abs_book (B\<lparr>sb_sequence := x\<rparr>) = abs_book B"
  by (simp add: fun_eq_iff abs_book_def abs_level_def resting_of_def)

lemma prices_apart:
  fixes A A' :: "side \<Rightarrow> book_side"
  assumes "\<And>s. fst ` set (A' s) \<subseteq> fst ` set (A s)" and "\<forall>a \<in> set (A Buy). \<forall>b \<in> set (A Sell). fst a < fst b"
  shows "\<forall>a \<in> set (A' Buy). \<forall>b \<in> set (A' Sell). fst a < fst b"
proof (intro ballI)
  fix a b
  assume "a \<in> set (A' Buy)" "b \<in> set (A' Sell)"
  then have "fst a \<in> fst ` set (A Buy)" "fst b \<in> fst ` set (A Sell)" using assms(1) by blast+
  then obtain a' b' where "a' \<in> set (A Buy)" "b' \<in> set (A Sell)" "fst a = fst a'" "fst b = fst b'" by (auto simp: image_iff)
  with assms(2) show "fst a < fst b" by simp
qed

lemma match_ok:
  assumes ok: "book_ok B LS QS"
  shows "\<exists>n' B' LS' QS' ds os. match_book tsc tk n B = Some (n', B') \<and> book_ok B' LS' QS' \<and> sent_ok tk B B' ds \<and>
    sb_sequence B' = sb_sequence B \<and>
    take_side (may_trade tk) (unat n) (abs_book B LS QS (opposite (tk_side tk))) = (ds, unat n', os) \<and>
    abs_book B' LS' QS' = (abs_book B LS QS)(opposite (tk_side tk) := os)"
proof -
  let ?t = "opposite (tk_side tk)"
  obtain n' B' LS' QS' ds where run: "match_book tsc tk n B = Some (n', B')"
    and r: "match_result tk LS QS n B n' B' LS' QS' ds"
    using match_book_ok [of B LS QS tsc tk n] ok by (auto simp: book_ok_def)
  let ?A = "abs_book B LS QS" and ?A' = "abs_book B' LS' QS'"
  have ts: "take_side (may_trade tk) (unat n) (?A ?t) = (ds, unat n', ?A' ?t)" and own: "?A' (tk_side tk) = ?A (tk_side tk)"
    using r by (simp_all add: match_result_def)
  have "fst ` set (?A' s) \<subseteq> fst ` set (?A s)" for s
    using take_side_prices_left [OF ts] own by (cases s; cases "tk_side tk") simp_all
  moreover have un: "\<forall>a \<in> set (?A Buy). \<forall>b \<in> set (?A Sell). fst a < fst b"
    using ok uncrossed_abs [of B LS QS] by (simp add: book_ok_def)
  ultimately have "\<forall>a \<in> set (?A' Buy). \<forall>b \<in> set (?A' Sell). fst a < fst b"
    by (rule prices_apart)
  then have "book_ok B' LS' QS'" using r uncrossed_abs [of B' LS' QS'] by (simp add: book_ok_def match_result_def)
  moreover have "?A' = ?A(?t := ?A' ?t)"
  proof
    fix s
    show "?A' s = (?A(?t := ?A' ?t)) s" using own by (cases s; cases "tk_side tk") simp_all
  qed
  ultimately show ?thesis using run r ts by (auto simp: match_result_def)
qed

text \<open>What is left of an order that has matched crosses nothing any more, and rests.\<close>

lemma left_crosses_nothing:
  assumes "core_inv {} {} B LS QS" and "take_side (crosses s p) n A = (ds, n', abs_book B LS QS (opposite s))" and "n' \<noteq> 0"
  shows "not_crossing s p B LS"
proof -
  let ?os = "abs_book B LS QS (opposite s)"
  have "?os = [] \<or> \<not> crosses s p (fst (hd ?os))" using take_side_rest [OF assms(2)] assms(3) by simp
  moreover have "sorted_wrt (\<lambda>a b. better (opposite s) (fst a) (fst b)) ?os" using sorted_abs [OF assms(1)] .
  ultimately have "\<forall>a \<in> set ?os. \<not> crosses s p (fst a)"
    by (cases ?os) (auto, metis crosses_worse fst_conv)
  then show ?thesis unfolding not_crossing_abs [of s p B LS QS] .
qed

lemma rest_spec:
  assumes ok: "book_ok B LS QS" and p: "0 < p" "p < 10000" and n: "n \<noteq> 0" "left \<noteq> 0"
    and ts: "take_side (crosses s p) n (A (opposite s)) = (ds, unat left, os)" and A: "abs_book B LS QS = A(opposite s := os)"
  shows "\<exists>B' LS' QS'. rest_order oid uid s p qty sq left B = Some B' \<and> same_outside B B' \<and> book_ok B' LS' QS' \<and>
    spec_limit oid uid s p n sq A = (ds, abs_book B' LS' QS')"
proof -
  have inv: "core_inv {} {} B LS QS" using ok by (simp add: book_ok_def)
  have nc: "not_crossing s p B LS"
    using left_crosses_nothing [OF inv, of s p n "A (opposite s)" ds "unat left"] ts A n(2) by (simp add: unat_eq_zero)
  obtain B' where rest: "rest_order oid uid s p qty sq left B = Some B'" "same_outside B B'"
    and res: "if sb_order_free_top B = 0 then B' = B
      else \<exists>LS' QS'. book_ok B' LS' QS' \<and> abs_book B' LS' QS' = (abs_book B LS QS)
        (s := rest_in s p (new_resting oid uid sq left) (abs_book B LS QS s))"
    using rest_order_ok [OF inv _ _ nc p n(2), of oid uid qty sq] ok by (auto simp: book_ok_def)
  have full: "orders_in (A(opposite s := os)) = kMaxOrdersPerBook \<longleftrightarrow> sb_order_free_top B = 0"
    using full_book [OF inv] A by simp
  have spec: "spec_limit oid uid s p n sq A =
      (ds, if sb_order_free_top B = 0 then A(opposite s := os)
           else (A(opposite s := os))(s := rest_in s p (new_resting oid uid sq left) ((A(opposite s := os)) s)))"
  proof -
    have "p \<noteq> 0" "\<not> 10000 \<le> p" "unat left \<noteq> 0" using p n(2) by (simp_all add: word_gt_0 not_le unat_eq_zero)
    with n(1) ts full show ?thesis by (simp add: spec_limit_def Let_def new_resting_def)
  qed
  show ?thesis
  proof (cases "sb_order_free_top B = 0")
    case True
    with res rest ok A spec show ?thesis by (intro exI [of _ B'] exI [of _ LS] exI [of _ QS]) simp
  next
    case False
    with res obtain LS' QS' where "book_ok B' LS' QS'" "abs_book B' LS' QS' = (abs_book B LS QS)
        (s := rest_in s p (new_resting oid uid sq left) (abs_book B LS QS s))" by auto
    with False rest A spec show ?thesis by (intro exI [of _ B'] exI [of _ LS'] exI [of _ QS']) simp
  qed
qed

lemma add_limit_ok:
  assumes ok: "book_ok B LS QS"
  shows "\<exists>B' LS' QS' ds. add_limit_order tsc oid uid s p q sq B = Some B' \<and> book_ok B' LS' QS' \<and>
    spec_limit oid uid s p (unat q) sq (abs_book B LS QS) = (ds, abs_book B' LS' QS') \<and>
    sent_ok \<lparr>tk_order_id = oid, tk_user_id = uid, tk_side = s, tk_limit = p, tk_is_market = False\<rparr> B B' ds"
proof (cases "p = 0 \<or> 10000 \<le> p \<or> q = 0")
  case True
  then have "spec_limit oid uid s p (unat q) sq (abs_book B LS QS) = ([], abs_book B LS QS)"
    by (auto simp: spec_limit_def unat_eq_zero)
  with True ok show ?thesis by (auto simp: add_limit_order_def sent_ok_refl)
next
  case False
  let ?tk = "\<lparr>tk_order_id = oid, tk_user_id = uid, tk_side = s, tk_limit = p, tk_is_market = False\<rparr>"
  have may: "may_trade ?tk = crosses s p" by (simp add: may_trade_def fun_eq_iff)
  have "book_ok (B\<lparr>sb_sequence := sq\<rparr>) LS QS"
    using ok by simp
  from match_ok [OF this, of tsc ?tk q] obtain n' B1 LS1 QS1 ds os where
    run: "match_book tsc ?tk q (B\<lparr>sb_sequence := sq\<rparr>) = Some (n', B1)" and ok1: "book_ok B1 LS1 QS1"
    and sent: "sent_ok ?tk B B1 ds"
    and ts: "take_side (crosses s p) (unat q) (abs_book B LS QS (opposite s)) = (ds, unat n', os)"
    and A1: "abs_book B1 LS1 QS1 = (abs_book B LS QS)(opposite s := os)"
    unfolding may abs_sequence sent_ok_sequence by auto
  show ?thesis
  proof (cases "n' = 0")
    case True
    with False run ok1 sent ts A1 show ?thesis
      by (intro exI [of _ B1] exI [of _ LS1] exI [of _ QS1] exI [of _ ds])
        (auto simp: add_limit_order_def spec_limit_def Let_def unat_eq_zero)
  next
    case left: False
    from False have p: "0 < p" "p < 10000" "unat q \<noteq> 0" by (simp_all add: word_gt_0 not_le unat_eq_zero)
    from rest_spec [OF ok1 p left ts A1, of oid uid q sq] obtain B' LS' QS' where
      r: "rest_order oid uid s p q sq n' B1 = Some B'" "same_outside B1 B'" "book_ok B' LS' QS'"
      "spec_limit oid uid s p (unat q) sq (abs_book B LS QS) = (ds, abs_book B' LS' QS')" by blast
    then have "add_limit_order tsc oid uid s p q sq B = Some B'"
      using False run left by (simp add: add_limit_order_def)
    with r sent_ok_outside [OF sent r(2)] show ?thesis by blast
  qed
qed

lemma add_market_ok:
  assumes ok: "book_ok B LS QS"
  shows "\<exists>B' LS' QS' ds. add_market_order tsc oid uid s q sq B = Some B' \<and> book_ok B' LS' QS' \<and>
    spec_market s (unat q) (abs_book B LS QS) = (ds, abs_book B' LS' QS') \<and>
    sent_ok \<lparr>tk_order_id = oid, tk_user_id = uid, tk_side = s, tk_limit = 0, tk_is_market = True\<rparr> B B' ds"
proof (cases "q = 0")
  case True
  have "take_side (\<lambda>p. True) 0 ls = ([], 0, ls)" for ls by (cases ls) auto
  with True ok show ?thesis by (auto simp: add_market_order_def spec_market_def sent_ok_refl)
next
  case False
  let ?tk = "\<lparr>tk_order_id = oid, tk_user_id = uid, tk_side = s, tk_limit = 0, tk_is_market = True\<rparr>"
  have may: "may_trade ?tk = (\<lambda>p. True)" by (simp add: may_trade_def fun_eq_iff)
  have "book_ok (B\<lparr>sb_sequence := sq\<rparr>) LS QS"
    using ok by simp
  from match_ok [OF this, of tsc ?tk q] False show ?thesis
    unfolding may abs_sequence sent_ok_sequence by (fastforce simp: add_market_order_def spec_market_def)
qed


section \<open>Cancelling\<close>

text \<open>One order of a side less, the rest of the side in its order and at its prices, the other side as it was.\<close>

definition taken_out :: "side \<Rightarrow> resting \<Rightarrow> (side \<Rightarrow> book_side) \<Rightarrow> (side \<Rightarrow> book_side) \<Rightarrow> bool" where
  "taken_out s r A A' \<longleftrightarrow>
     (\<exists>p xs ys. by_priority (A s) = xs @ (r, p) # ys \<and> by_priority (A' s) = xs @ ys) \<and> (\<forall>t. t \<noteq> s \<longrightarrow> A' t = A t)"

lemma dequeue_clear: "clear_index h (dequeue l i B) = dequeue l i (clear_index h B)"
  by (auto simp: dequeue_def clear_index_def set_order_def set_level_def Let_def split: option.split)

lemma book_cancel_run:
  assumes "ix_slot (sb_index B (index_of oid)) = Some i" and "ix_level (sb_index B (index_of oid)) = Some l"
    and "index_of (os_order_id (sb_orders B i)) = index_of oid"
    and "B1 = without_order l i (os_remaining (sb_orders B i)) B"
  shows "book_cancel oid B =
    (True, if lv_head (sb_levels B1 l) = None then remove_level l (ix_side (sb_index B (index_of oid))) B1 else B1)"
proof -
  have "set_order i (\<lambda>r. r\<lparr>os_remaining := os_remaining (sb_orders B i)\<rparr>) B = B"
    by (simp add: set_order_def)
  with assms show ?thesis by (simp add: book_cancel_def without_order_def Let_def dequeue_clear)
qed

lemma by_priority_split:
  "by_priority (map (abs_level B QS) (as @ l # bs)) =
     by_priority (map (abs_level B QS) as) @ map (\<lambda>i. (resting_of B i, lv_price (sb_levels B l))) (QS l) @
     by_priority (map (abs_level B QS) bs)"
  by (simp add: by_priority_def abs_level_def comp_def)

lemma taken_without:
  assumes a: "apart LS QS" and l: "l \<in> set (LS s)" and q: "QS l = xs @ i # ys"
  shows "taken_out s (resting_of B i) (abs_book B LS QS)
    (abs_book (without_order l i (os_remaining (sb_orders B i)) B) LS (QS(l := xs @ ys)))"
proof -
  let ?B = "without_order l i (os_remaining (sb_orders B i)) B" and ?QS = "QS(l := xs @ ys)"
  obtain as bs where ls: "LS s = as @ l # bs" using l by (meson split_list)
  have d: "l \<notin> set as" "l \<notin> set bs" using distinct_side [OF a, of s] ls by auto
  have rest: "resting_of ?B = resting_of B" by (simp add: fun_eq_iff resting_of_def step_eff)
  have maps: "map (abs_level ?B ?QS) ks = map (abs_level B QS) ks" if "l \<notin> set ks" for ks
    using that by (intro map_cong refl) (auto simp: abs_level_def rest step_eff)
  have "by_priority (abs_book ?B LS ?QS s) =
      by_priority (map (abs_level B QS) as) @ map (\<lambda>i. (resting_of B i, lv_price (sb_levels B l))) (xs @ ys) @
      by_priority (map (abs_level B QS) bs)"
    unfolding abs_book_def ls by_priority_split maps [OF d(1)] maps [OF d(2)] by (simp add: rest step_eff)
  moreover have "by_priority (abs_book B LS QS s) =
      by_priority (map (abs_level B QS) as) @ map (\<lambda>i. (resting_of B i, lv_price (sb_levels B l))) (xs @ i # ys) @
      by_priority (map (abs_level B QS) bs)"
    unfolding abs_book_def ls by_priority_split q ..
  moreover have "abs_book ?B LS ?QS t = abs_book B LS QS t" if "t \<noteq> s" for t
    using maps [of "LS t"] one_side [OF a l, of t] that by (auto simp: abs_book_def)
  ultimately show ?thesis by (simp add: taken_out_def) (metis append.assoc)
qed

text \<open>An empty level holds no order: it can go.\<close>

lemma taken_remove:
  assumes "taken_out s r A (abs_book B LS QS)" and "LS s = as @ l # bs" and "QS l = []"
  shows "taken_out s r A (abs_book (remove_level l s B) (LS(s := as @ bs)) QS)"
proof -
  have e: "abs_level (remove_level l s B) QS = abs_level B QS"
    by (simp add: fun_eq_iff abs_level_def resting_of_def step_eff)
  have "by_priority (map (abs_level B QS) (as @ bs)) = by_priority (map (abs_level B QS) (as @ l # bs))"
    using assms(3) by (simp add: by_priority_def abs_level_def)
  with assms(1,2) show ?thesis by (simp add: taken_out_def abs_book_def e)
qed

lemma cancel_found:
  assumes ok: "book_ok B LS QS" and l: "l \<in> set (LS s)" and q: "QS l = xs @ i # ys"
    and B1: "B1 = without_order l i (os_remaining (sb_orders B i)) B"
    and B': "B' = (if lv_head (sb_levels B1 l) = None then remove_level l s B1 else B1)"
  shows "\<exists>LS' QS'. book_ok B' LS' QS' \<and> same_outside B B' \<and>
    taken_out s (resting_of B i) (abs_book B LS QS) (abs_book B' LS' QS')"
proof -
  let ?QS = "QS(l := xs @ ys)"
  have inv: "core_inv {} {} B LS QS" and "best_ok B LS" "uncrossed B LS" using ok by (simp_all add: book_ok_def)
  then have best1: "best_ok B1 LS" and un1: "uncrossed B1 LS"
    by (simp_all add: B1 best_ok_def uncrossed_def step_eff cong: list.case_cong)
  have inv1: "core_inv {l} {} B1 LS ?QS" unfolding B1 using without_order_inv [OF inv l q] by simp
  have out: "same_outside B B1" by (simp add: B1 same_outside_def step_eff)
  have hd: "lv_head (sb_levels B1 l) = first_of None (xs @ ys)" using level_head [OF inv1 l] by simp
  note gone = taken_without [OF core_inv_D(3) [OF inv] l q, of B, folded B1]
  show ?thesis
  proof (cases "xs @ ys = []")
    case False
    then have "B' = B1" using hd B' by (cases "xs @ ys") auto
    moreover have "book_ok B1 LS ?QS"
      using core_inv_nonempty [of l "{}" "{}" B1 LS ?QS] inv1 False best1 un1 by (simp add: book_ok_def)
    ultimately show ?thesis using gone out by blast
  next
    case True
    obtain as bs where ls: "LS s = as @ l # bs" using l by (meson split_list)
    let ?R = "remove_level l s B1" and ?LS = "LS(s := as @ bs)"
    have "B' = ?R" using hd True B' by (simp add: first_of_def)
    moreover have inv2: "core_inv {} {} ?R ?LS ?QS" using remove_level_inv [OF inv1 ls, simplified] True by simp
    moreover have "best_ok ?R ?LS" using best1 inv2 by (rule best_ok_remove)
    moreover have "uncrossed ?R ?LS" using un1 ls by (cases s) (auto simp: uncrossed_def step_eff)
    moreover have "same_outside B ?R" using out by (simp add: same_outside_def step_eff)
    moreover note taken_remove [OF gone ls]
    ultimately show ?thesis using True unfolding book_ok_def by (metis fun_upd_same)
  qed
qed

lemma cancel_ok:
  assumes ok: "book_ok B LS QS" and run: "book_cancel oid B = (found, B')"
  shows "if found
    then \<exists>LS' QS' s r. book_ok B' LS' QS' \<and> same_outside B B' \<and> index_of (rs_order_id r) = index_of oid \<and>
      taken_out s r (abs_book B LS QS) (abs_book B' LS' QS')
    else B' = B \<and> ix_slot (sb_index B (index_of oid)) = None"
proof (cases "ix_slot (sb_index B (index_of oid))")
  case None
  with run show ?thesis by (simp add: book_cancel_def Let_def)
next
  case (Some i)
  have "index_ok B LS QS" using ok by (simp add: book_ok_def core_inv_def)
  with Some obtain l where e: "ix_level (sb_index B (index_of oid)) = Some l"
    "l \<in> set (LS (ix_side (sb_index B (index_of oid))))" "i \<in> set (QS l)"
    "index_of (os_order_id (sb_orders B i)) = index_of oid"
    unfolding index_ok_def by blast
  obtain xs ys where q: "QS l = xs @ i # ys" using e(3) by (meson split_list)
  note c = book_cancel_run [OF Some e(1,4) refl]
  have "index_of (rs_order_id (resting_of B i)) = index_of oid" using e(4) by (simp add: resting_of_def)
  with cancel_found [OF ok e(2) q refl refl] run c show ?thesis by auto
qed

section \<open>The empty book\<close>

lemma free_ok_new: "free_ok n n (\<lambda>i. n - 1 - i) {}"
proof -
  have "inj_on (\<lambda>i. n - 1 - i) {..<n}" by (rule inj_onI) auto
  moreover have "k \<in> (\<lambda>i. n - 1 - i) ` {..<n}" if "k < n" for k
    using that by (intro image_eqI [of _ _ "n - 1 - k"]) auto
  ultimately show ?thesis by (auto simp: free_ok_def)
qed

lemma book_new_ok: "book_ok (book_new os0 lv0 sd0 m) (\<lambda>s. []) (\<lambda>l. [])"
proof -
  have "core_inv {} {} (book_new os0 lv0 sd0 m) (\<lambda>s. []) (\<lambda>l. [])"
    using free_ok_new [of kMaxOrdersPerBook] free_ok_new [of kMaxPriceLevels]
    by (simp add: core_inv_def levels_linked_def levels_ok_def apart_def prices_ok_def index_ok_def live_levels_def
        queued_def book_new_def)
  then show ?thesis by (simp add: book_ok_def best_ok_def uncrossed_def) (simp add: book_new_def)
qed

lemma book_new_abs: "abs_book (book_new os0 lv0 sd0 m) (\<lambda>s. []) (\<lambda>l. []) = (\<lambda>s. [])"
  by (simp add: abs_book_def fun_eq_iff)

end
