(* ===== verification/Book_Table.thy ===== *)
theory Book_Table
  imports Engine_Book
begin

text \<open>
  \<open>UuidBookMap\<close> of \<open>engine/src/main.cpp\<close>: the order books of the markets in an open-addressing table of 256
  places. A pointer to a book is the place whose book it is; no entry is ever removed. The locale \<open>book_map\<close>
  is what the engine relies on: a find after an insert or a change of a book. The interpretation shows that the
  probing of the table keeps it.
\<close>

section \<open>The contract\<close>

locale book_map =
  fixes find :: "'m \<Rightarrow> 'k \<Rightarrow> 'p option"
    and insert_at :: "'m \<Rightarrow> 'k \<Rightarrow> 'v \<Rightarrow> 'p option \<times> 'm"
    and deref :: "'m \<Rightarrow> 'p \<Rightarrow> 'v"
    and assign :: "'m \<Rightarrow> 'p \<Rightarrow> 'v \<Rightarrow> 'm"
    and ok :: "'m \<Rightarrow> bool"
    and look :: "'m \<Rightarrow> 'k \<Rightarrow> 'v option"
  assumes find_look: "ok m \<Longrightarrow> map_option (deref m) (find m k) = look m k"
    and assign_look: "ok m \<Longrightarrow> find m k = Some p \<Longrightarrow> ok (assign m p v) \<and> look (assign m p v) = (look m)(k \<mapsto> v)"
    and insert_look: "ok m \<Longrightarrow> find m k = None \<Longrightarrow> insert_at m k v = (Some p, m') \<Longrightarrow>
      ok m' \<and> find m' k = Some p \<and> look m' = (look m)(k \<mapsto> v)"
begin

text \<open>The place of a key, made with \<open>v\<close> when there is none.\<close>

definition place_for :: "'k \<Rightarrow> 'v \<Rightarrow> 'm \<Rightarrow> ('p \<times> 'm) option" where
  "place_for k v m =
     (case find m k of
        Some p \<Rightarrow> Some (p, m)
      | None \<Rightarrow> (case insert_at m k v of (None, _) \<Rightarrow> None | (Some p, m') \<Rightarrow> Some (p, m')))"

lemma place_for_look:
  assumes "ok m" and "place_for k v m = Some (p, m')"
  shows "ok m' \<and> find m' k = Some p \<and> look m' = (look m)(k \<mapsto> (case look m k of None \<Rightarrow> v | Some w \<Rightarrow> w))"
proof (cases "find m k")
  case None
  with assms(2) have "insert_at m k v = (Some p, m')" by (auto simp: place_for_def split: option.splits prod.splits)
  moreover have "look m k = None" using find_look [OF assms(1), of k] None by simp
  ultimately show ?thesis using insert_look [OF assms(1) None] by simp
next
  case (Some q)
  then have "look m k = Some (deref m q)" using find_look [OF assms(1), of k] by simp
  moreover have "p = q" "m' = m" using assms(2) Some by (simp_all add: place_for_def)
  ultimately show ?thesis using Some assms(1) by (simp add: fun_upd_idem)
qed

text \<open>Whatever a client does to the book at that place, it does to the book of the key and to no other.\<close>

lemma place_for_assign:
  assumes "ok m" and "place_for k v m = Some (p, m')"
  shows "deref m' p = (case look m k of None \<Rightarrow> v | Some w \<Rightarrow> w) \<and>
    ok (assign m' p w') \<and> look (assign m' p w') = (look m)(k \<mapsto> w')"
proof -
  note l = place_for_look [OF assms]
  then have "map_option (deref m') (Some p) = look m' k" using find_look [of m' k] by simp
  then show ?thesis using l assign_look [of m' k p w'] by simp
qed

end

section \<open>The table\<close>

definition kBuckets :: nat where "kBuckets = 256"

record book_entry =
  be_key :: uuid
  be_book :: "slot_book option"
  be_occupied :: bool

type_synonym book_table = "nat \<Rightarrow> book_entry"

definition no_books :: book_table where
  "no_books = (\<lambda>i. \<lparr>be_key = 0, be_book = None, be_occupied = False\<rparr>)"

text \<open>The places a probe visits: \<open>(h + i) & (kBuckets - 1)\<close> for each turn \<open>i\<close> of the loop.\<close>

definition probes :: "uuid \<Rightarrow> nat list" where
  "probes u = map (\<lambda>i. (unat (uuid_hash u AND 255) + i) mod kBuckets) [0..<kBuckets]"

fun probe_find :: "book_table \<Rightarrow> uuid \<Rightarrow> nat list \<Rightarrow> nat option" where
  "probe_find es u [] = None"
| "probe_find es u (i # is) =
     (if \<not> be_occupied (es i) then None
      else if be_key (es i) = u then (if be_book (es i) = None then None else Some i)
      else probe_find es u is)"

fun probe_insert :: "book_table \<Rightarrow> uuid \<Rightarrow> slot_book \<Rightarrow> nat list \<Rightarrow> nat option \<times> book_table" where
  "probe_insert es u b [] = (None, es)"
| "probe_insert es u b (i # is) =
     (if \<not> be_occupied (es i) then (Some i, es(i := \<lparr>be_key = u, be_book = Some b, be_occupied = True\<rparr>))
      else probe_insert es u b is)"

definition books_find :: "book_table \<Rightarrow> uuid \<Rightarrow> nat option" where
  "books_find es u = probe_find es u (probes u)"

definition books_insert :: "book_table \<Rightarrow> uuid \<Rightarrow> slot_book \<Rightarrow> nat option \<times> book_table" where
  "books_insert es u b = probe_insert es u b (probes u)"

text \<open>Through the pointer: reading and changing the book of a place.\<close>

definition book_at :: "book_table \<Rightarrow> nat \<Rightarrow> slot_book" where
  "book_at es i = the (be_book (es i))"

definition put_book :: "book_table \<Rightarrow> nat \<Rightarrow> slot_book \<Rightarrow> book_table" where
  "put_book es i b = es(i := (es i)\<lparr>be_book := Some b\<rparr>)"

section \<open>Probing\<close>

lemma mod_shift_eq:
  fixes i j n :: nat
  assumes "(h + i) mod n = (h + j) mod n" and "i < n" and "j < n"
  shows "i = j"
proof -
  obtain a b where "h + i + n * a = h + j + n * b" using assms(1) unfolding nat_mod_eq_iff by blast
  then have "(i + n * a) mod n = (j + n * b) mod n" by simp
  with assms(2,3) show ?thesis by simp
qed

lemma probes_all [simp]: "set (probes u) = {..<kBuckets}" and probes_distinct [simp]: "distinct (probes u)"
proof -
  let ?h = "unat (uuid_hash u AND 255)"
  have inj: "inj_on (\<lambda>i. (?h + i) mod kBuckets) {0..<kBuckets}"
    by (rule inj_onI) (auto intro: mod_shift_eq)
  then show "distinct (probes u)" by (simp add: probes_def distinct_map)
  have "(\<lambda>i. (?h + i) mod kBuckets) ` {0..<kBuckets} \<subseteq> {..<kBuckets}" by (auto simp: kBuckets_def)
  then have "(\<lambda>i. (?h + i) mod kBuckets) ` {0..<kBuckets} = {..<kBuckets}"
    using inj by (intro card_subset_eq) (simp_all add: card_image)
  then show "set (probes u) = {..<kBuckets}" by (simp add: probes_def)
qed

text \<open>Each key is at one place, and every place probed before it is taken.\<close>

definition table_ok :: "book_table \<Rightarrow> bool" where
  "table_ok es \<longleftrightarrow>
     (\<forall>i < kBuckets. be_occupied (es i) \<longrightarrow> be_book (es i) \<noteq> None \<and>
        (\<forall>xs ys. probes (be_key (es i)) = xs @ i # ys \<longrightarrow> (\<forall>x \<in> set xs. be_occupied (es x)))) \<and>
     (\<forall>i < kBuckets. \<forall>j < kBuckets. be_occupied (es i) \<longrightarrow> be_occupied (es j) \<longrightarrow> be_key (es i) = be_key (es j) \<longrightarrow> i = j)"

lemma probe_find_past:
  assumes "\<forall>x \<in> set xs. be_occupied (es x) \<and> be_key (es x) \<noteq> u"
  shows "probe_find es u (xs @ ys) = probe_find es u ys"
  using assms by (induction xs) auto

lemma probe_find_at:
  "probe_find es u is = Some i \<Longrightarrow> i \<in> set is \<and> be_occupied (es i) \<and> be_key (es i) = u \<and> be_book (es i) \<noteq> None"
  by (induction "is") (auto split: if_splits)

lemma books_find_iff:
  assumes "table_ok es"
  shows "books_find es u = Some i \<longleftrightarrow> i < kBuckets \<and> be_occupied (es i) \<and> be_key (es i) = u"
proof
  assume "books_find es u = Some i"
  from probe_find_at [OF this [unfolded books_find_def]]
  show "i < kBuckets \<and> be_occupied (es i) \<and> be_key (es i) = u" by simp
next
  assume i: "i < kBuckets \<and> be_occupied (es i) \<and> be_key (es i) = u"
  then have "i \<in> set (probes u)" by simp
  then obtain xs ys where p: "probes u = xs @ i # ys" by (meson split_list)
  have b: "\<forall>x \<in> set xs. x < kBuckets \<and> x \<noteq> i"
    using probes_all [of u] probes_distinct [of u] unfolding p by auto
  have "be_book (es i) \<noteq> None" "\<forall>x \<in> set xs. be_occupied (es x)"
    using assms i p unfolding table_ok_def by blast+
  moreover have "\<forall>x \<in> set xs. be_occupied (es x) \<longrightarrow> be_key (es x) \<noteq> u"
    using assms i b unfolding table_ok_def by blast
  ultimately show "books_find es u = Some i"
    unfolding books_find_def p using i by (simp add: probe_find_past)
qed

lemma probe_insert_at:
  "probe_insert es u b is = (Some i, es') \<Longrightarrow>
     es' = es(i := \<lparr>be_key = u, be_book = Some b, be_occupied = True\<rparr>) \<and> \<not> be_occupied (es i) \<and>
     (\<exists>xs ys. is = xs @ i # ys \<and> (\<forall>x \<in> set xs. be_occupied (es x)))"
proof (induction "is")
  case (Cons k ks)
  show ?case
  proof (cases "be_occupied (es k)")
    case True
    with Cons obtain xs ys where "ks = xs @ i # ys" "\<forall>x \<in> set xs. be_occupied (es x)" by auto
    then have "k # ks = (k # xs) @ i # ys" "\<forall>x \<in> set (k # xs). be_occupied (es x)" using True by auto
    with Cons True show ?thesis by (metis probe_insert.simps(2))
  next
    case False
    with Cons.prems have "i = k" "es' = es(k := \<lparr>be_key = u, be_book = Some b, be_occupied = True\<rparr>)" by auto
    with False show ?thesis by (metis append_Nil empty_iff list.set(1))
  qed
qed simp

lemma probe_insert_none: "fst (probe_insert es u b is) = None \<longleftrightarrow> (\<forall>i \<in> set is. be_occupied (es i))"
  by (induction "is") auto

lemma books_insert_full: "fst (books_insert es u b) = None \<longleftrightarrow> (\<forall>i < kBuckets. be_occupied (es i))"
  by (auto simp: books_insert_def probe_insert_none)

definition books_look :: "book_table \<Rightarrow> uuid \<Rightarrow> slot_book option" where
  "books_look es u = map_option (book_at es) (books_find es u)"

lemma table_ok_same_keys:
  assumes "table_ok es" and "\<forall>i. be_key (es' i) = be_key (es i) \<and> be_occupied (es' i) = be_occupied (es i)"
    and "\<forall>i. be_book (es i) \<noteq> None \<longrightarrow> be_book (es' i) \<noteq> None"
  shows "table_ok es'"
  using assms unfolding table_ok_def by (metis (no_types, lifting))

lemma table_ok_insert:
  assumes ok: "table_ok es" and new: "books_find es u = None" and i: "\<not> be_occupied (es i)"
    and p: "probes u = xs @ i # ys" "\<forall>x \<in> set xs. be_occupied (es x)"
  shows "table_ok (es(i := \<lparr>be_key = u, be_book = Some b, be_occupied = True\<rparr>))"
proof -
  let ?es = "es(i := \<lparr>be_key = u, be_book = Some b, be_occupied = True\<rparr>)"
  have fresh: "be_key (es j) \<noteq> u" if "j < kBuckets" "be_occupied (es j)" for j
    using new that books_find_iff [OF ok, of u j] by auto
  have one: "j = k" if "j < kBuckets" "k < kBuckets" "be_occupied (es j)" "be_occupied (es k)" "be_key (es j) = be_key (es k)"
    for j k using ok that unfolding table_ok_def by blast
  have held: "be_book (es j) \<noteq> None" "probes (be_key (es j)) = as @ j # bs \<longrightarrow> (\<forall>x \<in> set as. be_occupied (es x))"
    if "j < kBuckets" "be_occupied (es j)" for j as bs using ok that unfolding table_ok_def by blast+
  have occ: "be_occupied (?es j)" if "be_occupied (es j)" for j using that by simp
  have "be_book (?es j) \<noteq> None \<and> (\<forall>as bs. probes (be_key (?es j)) = as @ j # bs \<longrightarrow> (\<forall>x \<in> set as. be_occupied (?es x)))"
    if j: "j < kBuckets" "be_occupied (?es j)" for j
  proof (cases "j = i")
    case True
    have "as = xs" if "probes u = as @ i # bs" for as bs
    proof -
      have w: "takeWhile (\<lambda>x. x \<noteq> i) (zs @ i # ws) = zs" if "i \<notin> set zs" for zs ws
        using that by (induction zs) auto
      have "i \<notin> set xs" using probes_distinct [of u] unfolding p(1) by auto
      moreover have "i \<notin> set as" using probes_distinct [of u] unfolding that by auto
      ultimately show ?thesis using that p(1) w by metis
    qed
    then have "\<forall>as bs. probes u = as @ i # bs \<longrightarrow> (\<forall>x \<in> set as. be_occupied (?es x))"
      using p(2) occ by blast
    with True show ?thesis by simp
  next
    case False
    then have j': "?es j = es j" and o': "be_occupied (es j)" using j(2) by simp_all
    show ?thesis unfolding j' using held [OF j(1) o'] occ by blast
  qed
  moreover have "j = k" if "j < kBuckets" "k < kBuckets" "be_occupied (?es j)" "be_occupied (?es k)"
    "be_key (?es j) = be_key (?es k)" for j k
  proof (cases "j = i \<or> k = i")
    case True
    with that fresh [of j] fresh [of k] show ?thesis by (auto split: if_splits)
  next
    case False
    with that one [of j k] show ?thesis by simp
  qed
  ultimately show ?thesis unfolding table_ok_def by (intro conjI allI impI) blast+
qed

lemma books_find_new:
  assumes ok: "table_ok es" and new: "books_find es u = None" and ins: "books_insert es u b = (Some i, es')"
  shows "table_ok es'" and "books_find es' v = (if v = u then Some i else books_find es v)"
    and "books_look es' = (books_look es)(u \<mapsto> b)"
proof -
  from probe_insert_at [OF ins [unfolded books_insert_def]] obtain xs ys where
    es': "es' = es(i := \<lparr>be_key = u, be_book = Some b, be_occupied = True\<rparr>)" and i: "\<not> be_occupied (es i)"
    and p: "probes u = xs @ i # ys" "\<forall>x \<in> set xs. be_occupied (es x)" by blast
  have lt: "i < kBuckets" using probes_all [of u] unfolding p by auto
  show ok': "table_ok es'" unfolding es' by (rule table_ok_insert [OF ok new i p])
  have f: "books_find es' v = (if v = u then Some i else books_find es v)" for v
  proof (cases "v = u")
    case True
    have "books_find es' u = Some i" unfolding books_find_iff [OF ok'] using lt by (simp add: es')
    with True show ?thesis by simp
  next
    case False
    have "books_find es' v = Some j \<longleftrightarrow> books_find es v = Some j" for j
      unfolding books_find_iff [OF ok] books_find_iff [OF ok'] using False i by (auto simp: es')
    then show ?thesis using False by (metis not_Some_eq)
  qed
  show "books_find es' v = (if v = u then Some i else books_find es v)" by (rule f)
  have "books_look es' v = ((books_look es)(u \<mapsto> b)) v" for v
  proof (cases "v = u")
    case True
    then show ?thesis unfolding books_look_def f by (simp add: es' book_at_def)
  next
    case False
    moreover have "j \<noteq> i" if "books_find es v = Some j" for j
      using that i unfolding books_find_iff [OF ok] by auto
    ultimately show ?thesis unfolding books_look_def f by (cases "books_find es v") (auto simp: es' book_at_def)
  qed
  then show "books_look es' = (books_look es)(u \<mapsto> b)" ..
qed

lemma books_find_put:
  assumes ok: "table_ok es" and p: "books_find es u = Some i"
  shows "table_ok (put_book es i b)" and "books_find (put_book es i b) = books_find es"
    and "books_look (put_book es i b) = (books_look es)(u \<mapsto> b)"
proof -
  show ok': "table_ok (put_book es i b)" using ok by (rule table_ok_same_keys) (simp_all add: put_book_def)
  have "books_find (put_book es i b) v = Some j \<longleftrightarrow> books_find es v = Some j" for v j
    unfolding books_find_iff [OF ok] books_find_iff [OF ok'] by (simp add: put_book_def)
  then have f: "books_find (put_book es i b) v = books_find es v" for v by (metis not_Some_eq)
  then show "books_find (put_book es i b) = books_find es" ..
  have at: "books_find es v = Some i \<longleftrightarrow> v = u" for v
    using p unfolding books_find_iff [OF ok] by auto
  have "books_look (put_book es i b) v = ((books_look es)(u \<mapsto> b)) v" for v
  proof (cases "v = u")
    case True
    then show ?thesis unfolding books_look_def f by (simp add: p) (simp add: put_book_def book_at_def)
  next
    case False
    with at [of v] show ?thesis
      unfolding books_look_def f by (cases "books_find es v") (auto simp: put_book_def book_at_def)
  qed
  then show "books_look (put_book es i b) = (books_look es)(u \<mapsto> b)" ..
qed

interpretation books: book_map books_find books_insert book_at put_book table_ok books_look
proof
  show "map_option (book_at es) (books_find es u) = books_look es u" for es u by (simp add: books_look_def)
  show "table_ok (put_book es i b) \<and> books_look (put_book es i b) = (books_look es)(u \<mapsto> b)"
    if "table_ok es" "books_find es u = Some i" for es u i b
    using books_find_put [OF that] by simp
  show "table_ok es' \<and> books_find es' u = Some i \<and> books_look es' = (books_look es)(u \<mapsto> b)"
    if "table_ok es" "books_find es u = None" "books_insert es u b = (Some i, es')" for es u b i es'
    using books_find_new [OF that] by simp
qed

lemma no_books_ok [simp]: "table_ok no_books" "books_look no_books = (\<lambda>u. None)"
proof -
  show ok: "table_ok no_books" by (simp add: table_ok_def no_books_def)
  have "books_find no_books u = None" for u
    using books_find_iff [OF ok, of u] by (cases "books_find no_books u") (auto simp: no_books_def)
  then show "books_look no_books = (\<lambda>u. None)" by (simp add: books_look_def fun_eq_iff)
qed

end
