(* ===== verification/Engine_Wal.thy ===== *)
theory Engine_Wal
  imports Messaging
begin

text \<open>
  The write-ahead log of the engine, \<open>engine/src/wal.cpp\<close> and \<open>wal.hpp\<close>, on a little-endian host. \<open>wal_file\<close> is
  what was handed to the stream so far; what a crash leaves on the disk is a prefix of it. The lemmas are
  about \<open>recover\<close>: it reads back the records that are whole, and a torn record at the end swallows what is
  appended after it.
\<close>

section \<open>The log\<close>

datatype wal_op_type = WalAddOrder | WalCancelOrder | WalFill

fun wal_op_code :: "wal_op_type \<Rightarrow> u8" where
  "wal_op_code WalAddOrder = 1"
| "wal_op_code WalCancelOrder = 2"
| "wal_op_code WalFill = 3"

record wal_record =
  wr_sequence :: u64
  wr_op_type :: u8
  wr_payload_len :: u32
  wr_payload :: "u8 list"

record wal =
  wal_file :: "u8 list"
  wal_last_sequence :: u64
  wal_next_sequence :: u64

definition wal_open :: "u8 list \<Rightarrow> wal" where
  "wal_open disk = \<lparr>wal_file = disk, wal_last_sequence = 0, wal_next_sequence = 1\<rparr>"

definition write_u64 :: "u64 \<Rightarrow> wal \<Rightarrow> wal" where
  "write_u64 v w = w\<lparr>wal_file := wal_file w @ u64_to_le_bytes v\<rparr>"

definition write_u32 :: "u32 \<Rightarrow> wal \<Rightarrow> wal" where
  "write_u32 v w = w\<lparr>wal_file := wal_file w @ u32_to_le_bytes v\<rparr>"

definition write_u8 :: "u8 \<Rightarrow> wal \<Rightarrow> wal" where
  "write_u8 v w = w\<lparr>wal_file := wal_file w @ [v]\<rparr>"

definition wal_append :: "wal_op_type \<Rightarrow> u8 list \<Rightarrow> u32 \<Rightarrow> wal \<Rightarrow> wal" where
  "wal_append op data len w =
     (let w = write_u64 (wal_next_sequence w) w;
          w = write_u8 (wal_op_code op) w;
          w = write_u32 len w;
          w = w\<lparr>wal_file := wal_file w @ take (unat len) data\<rparr>
      in w\<lparr>wal_last_sequence := wal_next_sequence w, wal_next_sequence := wal_next_sequence w + 1\<rparr>)"

section \<open>Recovery\<close>

text \<open>\<open>in.read\<close>: the bytes, or a stream that has failed.\<close>

definition in_read :: "nat \<Rightarrow> u8 list \<Rightarrow> (u8 list \<times> u8 list) option" where
  "in_read n bs = (if n \<le> length bs then Some (take n bs, drop n bs) else None)"

lemma in_read_length: "in_read n bs = Some (xs, ys) \<Longrightarrow> length bs = n + length ys"
  by (auto simp: in_read_def split: if_splits)

definition read_record :: "u8 list \<Rightarrow> (wal_record \<times> u8 list) option" where
  "read_record bs =
     (case in_read 8 bs of None \<Rightarrow> None
      | Some (sq, r1) \<Rightarrow>
     (case in_read 1 r1 of None \<Rightarrow> None
      | Some (op, r2) \<Rightarrow>
     (case in_read 4 r2 of None \<Rightarrow> None
      | Some (ln, r3) \<Rightarrow>
        (let len = read_u32_le 0 ln
         in case in_read (unat len) r3 of None \<Rightarrow> None
            | Some (payload, r4) \<Rightarrow>
                Some (\<lparr>wr_sequence = read_u64_le 0 sq, wr_op_type = hd op, wr_payload_len = len,
                       wr_payload = payload\<rparr>, r4)))))"

lemma read_record_length: "read_record bs = Some (r, bs') \<Longrightarrow> length bs' < length bs"
  by (auto simp: read_record_def Let_def split: option.splits prod.splits dest!: in_read_length)

function read_records :: "u8 list \<Rightarrow> wal_record list" where
  "read_records bs = (case read_record bs of None \<Rightarrow> [] | Some (r, bs') \<Rightarrow> r # read_records bs')"
  by pat_completeness auto

termination
  by (relation "measure length") (auto dest: read_record_length)

declare read_records.simps [simp del]

text \<open>
  \<open>recover\<close> makes room for the length it reads before it reads the payload; that such an allocation can fail is not
  modelled.
\<close>

definition wal_recover :: "wal \<Rightarrow> wal_record list \<times> wal" where
  "wal_recover w =
     (let records = read_records (wal_file w);
          last = foldl max (wal_last_sequence w) (map wr_sequence records)
      in (records, w\<lparr>wal_last_sequence := last, wal_next_sequence := last + 1\<rparr>))"

section \<open>Whole records\<close>

definition record_bytes :: "wal_record \<Rightarrow> u8 list" where
  "record_bytes r =
     u64_to_le_bytes (wr_sequence r) @ [wr_op_type r] @ u32_to_le_bytes (wr_payload_len r) @ wr_payload r"

definition log_bytes :: "wal_record list \<Rightarrow> u8 list" where
  "log_bytes rs = concat (map record_bytes rs)"

definition whole :: "wal_record \<Rightarrow> bool" where
  "whole r \<longleftrightarrow> length (wr_payload r) = unat (wr_payload_len r)"

lemma log_bytes_simps [simp]:
  "log_bytes [] = []" "log_bytes (r # rs) = record_bytes r @ log_bytes rs" "log_bytes (rs @ ss) = log_bytes rs @ log_bytes ss"
  by (simp_all add: log_bytes_def)

lemma length_words [simp]: "length (u64_to_le_bytes x) = 8" "length (u32_to_le_bytes y) = 4"
  by (simp_all add: u64_to_le_bytes_def u32_to_le_bytes_def)

lemma in_read_append: "length xs = n \<Longrightarrow> in_read n (xs @ ys) = Some (xs, ys)"
  by (simp add: in_read_def)

lemma read_word_start [simp]: "read_u64_le 0 (u64_to_le_bytes x) = x" "read_u32_le 0 (u32_to_le_bytes y) = y"
  using read_u64 [of "[]" x "[]"] read_u32 [of "[]" y "[]"] by simp_all

text \<open>The first 13 bytes are the frame of a record; what follows is its payload, whoever wrote it.\<close>

lemma read_framed:
  assumes "length p = unat n"
  shows "read_record (u64_to_le_bytes s @ [c] @ u32_to_le_bytes n @ p @ rest) =
    Some (\<lparr>wr_sequence = s, wr_op_type = c, wr_payload_len = n, wr_payload = p\<rparr>, rest)"
  unfolding read_record_def in_read_append [OF length_words(1)] option.case prod.case
    in_read_append [of "[c]" 1, simplified] in_read_append [OF length_words(2)] read_word_start Let_def
  using assms by (simp add: in_read_append in_read_def)

lemma read_whole: "whole r \<Longrightarrow> read_records (record_bytes r @ rest) = r # read_records rest"
  using read_framed [of "wr_payload r" "wr_payload_len r" "wr_sequence r" "wr_op_type r" rest]
  by (subst read_records.simps) (simp add: record_bytes_def whole_def)

lemma read_log: "list_all whole rs \<Longrightarrow> read_records (log_bytes rs @ rest) = rs @ read_records rest"
  by (induction rs) (auto simp: read_whole)

lemma read_short:
  assumes "whole r" and "n < length (record_bytes r)"
  shows "read_records (take n (record_bytes r)) = []"
proof -
  let ?h = "u64_to_le_bytes (wr_sequence r) @ [wr_op_type r] @ u32_to_le_bytes (wr_payload_len r)"
  have "read_record (take n (record_bytes r)) = None"
  proof (cases "13 \<le> n")
    case True
    then have t: "take n (record_bytes r) = u64_to_le_bytes (wr_sequence r) @ ([wr_op_type r] @
        (u32_to_le_bytes (wr_payload_len r) @ take (n - 13) (wr_payload r)))"
      by (simp add: record_bytes_def take_Cons')
    show ?thesis
      unfolding t read_record_def in_read_append [OF length_words(1)] option.case prod.case
        in_read_append [of "[wr_op_type r]" 1, simplified] in_read_append [OF length_words(2)] read_word_start Let_def
      using assms True by (simp add: in_read_def whole_def record_bytes_def)
  next
    case False
    then show ?thesis
      by (auto simp: read_record_def in_read_def Let_def min_def)
  qed
  then show ?thesis by (subst read_records.simps) simp
qed

text \<open>A prefix of the log: the records that fit in it.\<close>

lemma read_cut:
  assumes "list_all whole rs"
  shows "\<exists>k. read_records (take n (log_bytes rs)) = take k rs \<and> length (log_bytes (take k rs)) \<le> n \<and>
    (k < length rs \<longrightarrow> n < length (log_bytes (take (Suc k) rs)))"
  using assms
proof (induction rs arbitrary: n)
  case Nil
  then show ?case by (intro exI [of _ 0]) (simp add: read_records.simps [of "[]"] read_record_def in_read_def)
next
  case (Cons r rs)
  show ?case
  proof (cases "n < length (record_bytes r)")
    case True
    with Cons.prems show ?thesis by (intro exI [of _ 0]) (simp add: read_short)
  next
    case False
    from Cons obtain k where k: "read_records (take (n - length (record_bytes r)) (log_bytes rs)) = take k rs"
      "length (log_bytes (take k rs)) \<le> n - length (record_bytes r)"
      "k < length rs \<longrightarrow> n - length (record_bytes r) < length (log_bytes (take (Suc k) rs))" by auto
    with False Cons.prems show ?thesis
      by (intro exI [of _ "Suc k"]) (auto simp: read_whole)
  qed
qed

section \<open>Appending\<close>

lemma append_bytes:
  assumes "length data < 2 ^ 32"
  shows "wal_append op data (of_nat (length data)) w =
    w\<lparr>wal_file := wal_file w @ record_bytes
        \<lparr>wr_sequence = wal_next_sequence w, wr_op_type = wal_op_code op, wr_payload_len = of_nat (length data),
         wr_payload = data\<rparr>,
      wal_last_sequence := wal_next_sequence w, wal_next_sequence := wal_next_sequence w + 1\<rparr>"
proof -
  have "unat (word_of_nat (length data) :: u32) = length data" using assms by (simp add: unat_of_nat)
  then show ?thesis
    by (simp add: wal_append_def write_u64_def write_u8_def write_u32_def Let_def record_bytes_def)
qed

text \<open>What the engine has logged since it opened an empty file.\<close>

definition log_records :: "(wal_op_type \<times> u8 list) list \<Rightarrow> wal_record list" where
  "log_records es =
     map (\<lambda>(i, op, data). \<lparr>wr_sequence = of_nat (Suc i), wr_op_type = wal_op_code op,
        wr_payload_len = of_nat (length data), wr_payload = data\<rparr>) (enumerate 0 es)"

definition wal_holds :: "wal \<Rightarrow> (wal_op_type \<times> u8 list) list \<Rightarrow> bool" where
  "wal_holds w es \<longleftrightarrow>
     (\<forall>e \<in> set es. length (snd e) < 2 ^ 32) \<and> wal_file w = log_bytes (log_records es) \<and>
     wal_last_sequence w = of_nat (length es) \<and> wal_next_sequence w = of_nat (Suc (length es))"

lemma wal_holds_empty: "wal_holds (wal_open []) []"
  by (simp add: wal_holds_def wal_open_def log_records_def)

lemma enumerate_snoc: "enumerate n (xs @ [x]) = enumerate n xs @ [(n + length xs, x)]"
  by (simp add: enumerate_append_eq)

lemma wal_holds_append:
  assumes "wal_holds w es" and "length data < 2 ^ 32"
  shows "wal_holds (wal_append op data (of_nat (length data)) w) (es @ [(op, data)])"
  using assms unfolding append_bytes [OF assms(2)]
  by (simp add: wal_holds_def log_records_def enumerate_snoc)

lemma log_records_whole:
  assumes "\<forall>e \<in> set es. length (snd e) < 2 ^ 32"
  shows "list_all whole (log_records es)"
proof -
  have w: "whole \<lparr>wr_sequence = s, wr_op_type = c, wr_payload_len = of_nat (length data), wr_payload = data\<rparr>"
    if "length data < 2 ^ 32" for s c and data :: "u8 list"
    using that by (simp add: whole_def unat_of_nat)
  have "length (snd (snd x)) < 2 ^ 32" if "x \<in> set (enumerate 0 es)" for x
    using assms that by (auto simp: in_set_enumerate_eq dest: nth_mem)
  then show ?thesis
    unfolding log_records_def list_all_iff by (auto intro: w)
qed

lemma log_payloads: "map wr_payload (log_records es) = map snd es"
  by (simp add: log_records_def case_prod_beta comp_def) (metis (no_types, lifting) comp_def map_map map_snd_enumerate map_eq_conv)

end
