(* ===== verification/Engine_Main.thy ===== *)
theory Engine_Main
  imports Book_Ops Book_Table Engine_Wal
begin

text \<open>
  \<open>engine/src/main.cpp\<close>: a message is read, logged, and applied to the book of its market; the fills go out on
  two subjects. \<open>engine_decode\<close> of \<open>Messaging\<close> is the reading half of \<open>dispatch\<close>. The clock readings and the
  memory a new book finds are in \<open>engine_env\<close>, one of each per market; publishing is the list of what was
  handed to the NATS client. A null dereference and a loop without end are faults. The lemmas lift the
  operations of a book to the engine, and relate the books to the log.
\<close>

section \<open>Texts\<close>

text \<open>\<open>%u\<close> and \<open>%llu\<close>.\<close>

fun dec_digits :: "nat \<Rightarrow> string" where
  "dec_digits n = (if n < 10 then [char_of (48 + n)] else dec_digits (n div 10) @ [char_of (48 + n mod 10)])"

declare dec_digits.simps [simp del]

definition uuid_hex_digit :: "u8 \<Rightarrow> char" where
  "uuid_hex_digit n = ''0123456789abcdef'' ! unat n"

definition hex_byte :: "u8 \<Rightarrow> string" where
  "hex_byte b = [uuid_hex_digit (drop_bit 4 b), uuid_hex_digit (b AND 0xf)]"

definition hex_run :: "u8 list \<Rightarrow> nat list \<Rightarrow> string" where
  "hex_run bytes js = concat (map (\<lambda>j. hex_byte (bytes ! j)) js)"

definition uuid_to_str :: "u8 list \<Rightarrow> string" where
  "uuid_to_str b =
     hex_run b [0, 1, 2, 3] @ ''-'' @ hex_run b [4, 5] @ ''-'' @ hex_run b [6, 7] @ ''-'' @ hex_run b [8, 9] @ ''-'' @
     hex_run b [10, 11, 12, 13, 14, 15]"

text \<open>\<open>snprintf\<close>: the length the text has, and what the buffer holds.\<close>

definition snprintf_buf :: "nat \<Rightarrow> string \<Rightarrow> nat \<times> string" where
  "snprintf_buf cap s = (length s, take (cap - 1) s)"

definition fill_id_octets :: "u64 \<times> u64 \<Rightarrow> u8 list" where
  "fill_id_octets i = u64_to_le_bytes (fst i) @ u64_to_le_bytes (snd i)"

definition fill_text :: "engine_fill \<Rightarrow> string" where
  "fill_text f =
     ''{\"fill_id\":\"'' @ uuid_to_str (fill_id_octets (ef_fill_id f)) @
     ''\",\"market_id\":\"'' @ uuid_to_str (be_octets (ef_market_id f)) @
     ''\",\"maker_order_id\":\"'' @ uuid_to_str (be_octets (ef_maker_order_id f)) @
     ''\",\"taker_order_id\":\"'' @ uuid_to_str (be_octets (ef_taker_order_id f)) @
     ''\",\"maker_user_id\":\"'' @ uuid_to_str (be_octets (ef_maker_user_id f)) @
     ''\",\"taker_user_id\":\"'' @ uuid_to_str (be_octets (ef_taker_user_id f)) @
     ''\",\"price\":'' @ dec_digits (unat (ef_price f)) @ '',\"quantity\":'' @ dec_digits (unat (ef_quantity f)) @
     '',\"aggressor_side\":\"'' @ (if ef_aggressor f = Buy then ''buy'' else ''sell'') @
     ''\",\"sequence\":'' @ dec_digits (unat (ef_sequence f)) @
     '',\"timestamp_ns\":'' @ dec_digits (unat (ef_timestamp_ns f)) @ ''}''"

definition fill_to_json :: "engine_fill \<Rightarrow> nat \<Rightarrow> nat \<times> string" where
  "fill_to_json f cap = snprintf_buf cap (fill_text f)"

definition depth_text :: "engine_fill \<Rightarrow> string" where
  "depth_text f =
     ''{\"market_id\":\"'' @ uuid_to_str (be_octets (ef_market_id f)) @ ''\",\"type\":\"fill\",\"price\":'' @
     dec_digits (unat (ef_price f)) @ '',\"quantity\":'' @ dec_digits (unat (ef_quantity f)) @ ''}''"

lemma length_dec_digits: "n < 10 ^ Suc k \<Longrightarrow> length (dec_digits n) \<le> Suc k"
proof (induction k arbitrary: n)
  case 0
  then show ?case by (subst dec_digits.simps) simp
next
  case (Suc k)
  then have "n div 10 < 10 ^ Suc k" by (simp add: less_mult_imp_div_less)
  with Suc.IH [of "n div 10"] show ?case by (subst dec_digits.simps) simp
qed

lemma length_u32_text: "length (dec_digits (unat (x :: u32))) \<le> 10"
  using length_dec_digits [of "unat x" 9] unat_bound [of x] by simp

lemma length_u64_text: "length (dec_digits (unat (x :: u64))) \<le> 20"
  using length_dec_digits [of "unat x" 19] unat_bound [of x] by simp

lemma length_uuid_to_str [simp]: "length (uuid_to_str b) = 36"
  by (simp add: uuid_to_str_def hex_run_def hex_byte_def)

text \<open>Neither text is cut off by its buffer.\<close>

lemma fill_text_fits: "length (fill_text f) < 1024"
  using length_u32_text [of "ef_price f"] length_u64_text [of "ef_quantity f"] length_u64_text [of "ef_sequence f"]
    length_u64_text [of "ef_timestamp_ns f"]
  by (simp add: fill_text_def)

lemma depth_text_fits: "length (depth_text f) < 256"
  using length_u32_text [of "ef_price f"] length_u64_text [of "ef_quantity f"]
  by (simp add: depth_text_def)

section \<open>The engine\<close>

record engine_settings =
  ec_order_subject :: string
  ec_fill_subject :: string
  ec_depth_subject :: string
  ec_wal_dir :: string

definition load_config :: "(string \<Rightarrow> string option) \<Rightarrow> engine_settings" where
  "load_config getenv =
     (let env = (\<lambda>key def. case getenv key of Some v \<Rightarrow> v | None \<Rightarrow> def)
      in \<lparr>ec_order_subject = env ''PREDMARKET_ORDER_SUBJECT'' ''predmarket.orders'',
          ec_fill_subject = env ''PREDMARKET_FILL_SUBJECT'' ''predmarket.fills'',
          ec_depth_subject = env ''PREDMARKET_DEPTH_SUBJECT'' ''predmarket.depth'',
          ec_wal_dir = env ''PREDMARKET_WAL_DIR'' ''/var/lib/predmarket/wal''\<rparr>)"

record engine_env =
  ee_config :: engine_settings
  ee_tsc :: "uuid \<Rightarrow> nat \<Rightarrow> u64"
  ee_orders :: "uuid \<Rightarrow> nat \<Rightarrow> order_slot"
  ee_levels :: "uuid \<Rightarrow> nat \<Rightarrow> level_slot"
  ee_sides :: "uuid \<Rightarrow> nat \<Rightarrow> side"

record engine =
  en_wal :: wal
  en_books :: book_table
  en_published :: "(string \<times> string) list"

datatype engine_fault = NullBook | Endless

text \<open>The callback of a book: one message on the fill subject, one on the depth subject of the market.\<close>

definition on_fill :: "engine_settings \<Rightarrow> engine_fill \<Rightarrow> (string \<times> string) list" where
  "on_fill c f =
     (let (n, buf) = fill_to_json f 1024;
          (_, subject) = snprintf_buf 128 (ec_depth_subject c @ ''.'' @ uuid_to_str (be_octets (ef_market_id f)));
          (dn, depth) = snprintf_buf 256 (depth_text f)
      in (if n > 0 then [(ec_fill_subject c, take n buf)] else []) @
         (if dn > 0 then [(subject, take dn depth)] else []))"

definition fresh_book :: "engine_env \<Rightarrow> uuid \<Rightarrow> slot_book" where
  "fresh_book env market = book_new (ee_orders env market) (ee_levels env market) (ee_sides env market) market"

definition book_get_or_create :: "engine_env \<Rightarrow> uuid \<Rightarrow> book_table \<Rightarrow> (nat \<times> book_table) option" where
  "book_get_or_create env market es =
     (case books_find es market of
        Some p \<Rightarrow> Some (p, es)
      | None \<Rightarrow> (case books_insert es market (fresh_book env market) of
                   (None, _) \<Rightarrow> None
                 | (Some p, es') \<Rightarrow> Some (p, es')))"

text \<open>A book after an operation, with the calls of the callback during it.\<close>

definition store_book :: "engine_env \<Rightarrow> nat \<Rightarrow> slot_book \<Rightarrow> engine \<Rightarrow> engine" where
  "store_book env p b e =
     e\<lparr>en_books := put_book (en_books e) p b,
       en_published := en_published e @
         concat (map (on_fill (ee_config env)) (drop (length (sb_sent (book_at (en_books e) p))) (sb_sent b)))\<rparr>"

definition add_order :: "(nat \<Rightarrow> u64) \<Rightarrow> engine_order_msg \<Rightarrow> slot_book \<Rightarrow> slot_book option" where
  "add_order tsc o' B =
     (if eom_is_market o'
      then add_market_order tsc (order_uuid (eom_order_id o')) (user_uuid (eom_user_id o')) (eom_side o')
             (eom_quantity o') (eom_sequence o') B
      else add_limit_order tsc (order_uuid (eom_order_id o')) (user_uuid (eom_user_id o')) (eom_side o')
             (eom_price o') (eom_quantity o') (eom_sequence o') B)"

definition dispatch_engine :: "engine_env \<Rightarrow> u8 list \<Rightarrow> engine \<Rightarrow> engine_fault + engine" where
  "dispatch_engine env data e =
     (case engine_decode of_be_octets data of
        None \<Rightarrow> Inr e
      | Some (AddOrder o') \<Rightarrow>
          (let market = market_uuid (eom_market_id o');
               e = e\<lparr>en_wal := wal_append WalAddOrder data (of_nat (length data)) (en_wal e)\<rparr>
           in case book_get_or_create env market (en_books e) of
                None \<Rightarrow> Inl NullBook
              | Some (p, es) \<Rightarrow>
                  (let e = e\<lparr>en_books := es\<rparr>
                   in case add_order (ee_tsc env market) o' (book_at es p) of
                        None \<Rightarrow> Inl Endless
                      | Some b \<Rightarrow> Inr (store_book env p b e)))
      | Some (CancelOrder c) \<Rightarrow>
          (case books_find (en_books e) (market_uuid (ecm_market_id c)) of
             None \<Rightarrow> Inr e
           | Some p \<Rightarrow>
               (let e = e\<lparr>en_wal := wal_append WalCancelOrder data (of_nat (length data)) (en_wal e)\<rparr>
                in Inr (store_book env p (snd (book_cancel (order_uuid (ecm_order_id c)) (book_at (en_books e) p))) e))))"

text \<open>\<open>main\<close> up to the subscription: the log is read, its records are counted and dropped.\<close>

definition engine_start :: "u8 list \<Rightarrow> engine" where
  "engine_start disk =
     (let (records, w) = wal_recover (wal_open disk)
      in \<lparr>en_wal = w, en_books = no_books, en_published = []\<rparr>)"

fun run_engine :: "engine_env \<Rightarrow> u8 list list \<Rightarrow> engine \<Rightarrow> engine_fault + engine" where
  "run_engine env [] e = Inr e"
| "run_engine env (d # ds) e =
     (case dispatch_engine env d e of Inl f \<Rightarrow> Inl f | Inr e' \<Rightarrow> run_engine env ds e')"


section \<open>An order at its book\<close>

definition spec_order :: "engine_order_msg \<Rightarrow> (side \<Rightarrow> book_side) \<Rightarrow> deal list \<times> (side \<Rightarrow> book_side)" where
  "spec_order o' A =
     (if eom_is_market o' then spec_market (eom_side o') (unat (eom_quantity o')) A
      else spec_limit (order_uuid (eom_order_id o')) (user_uuid (eom_user_id o')) (eom_side o') (eom_price o')
             (unat (eom_quantity o')) (eom_sequence o') A)"

definition taker_of :: "engine_order_msg \<Rightarrow> taker" where
  "taker_of o' =
     \<lparr>tk_order_id = order_uuid (eom_order_id o'), tk_user_id = user_uuid (eom_user_id o'), tk_side = eom_side o',
      tk_limit = (if eom_is_market o' then 0 else eom_price o'), tk_is_market = eom_is_market o'\<rparr>"

lemma add_order_ok:
  assumes "holds B A"
  shows "\<exists>B' A' ds. add_order tsc o' B = Some B' \<and> holds B' A' \<and> spec_order o' A = (ds, A') \<and>
    sent_ok (taker_of o') B B' ds"
proof -
  obtain LS QS where ok: "book_ok B LS QS" and A: "A = abs_book B LS QS" using assms by (auto simp: holds_def)
  note m = add_market_ok [OF ok, of tsc "order_uuid (eom_order_id o')" "user_uuid (eom_user_id o')" "eom_side o'"
      "eom_quantity o'" "eom_sequence o'"]
  note l = add_limit_ok [OF ok, of tsc "order_uuid (eom_order_id o')" "user_uuid (eom_user_id o')" "eom_side o'"
      "eom_price o'" "eom_quantity o'" "eom_sequence o'"]
  show ?thesis
    using m l by (cases "eom_is_market o'") (force simp: holds_def A add_order_def spec_order_def taker_of_def)+
qed

lemma cancel_holds:
  assumes "holds B A"
  shows "\<exists>A'. holds (snd (book_cancel oid B)) A' \<and> same_outside B (snd (book_cancel oid B))"
proof -
  obtain LS QS where ok: "book_ok B LS QS" and A: "A = abs_book B LS QS" using assms by (auto simp: holds_def)
  obtain found B' where c: "book_cancel oid B = (found, B')" by (cases "book_cancel oid B")
  from cancel_ok [OF ok c] show ?thesis
    using ok by (cases found) (auto simp: c holds_def same_outside_def)
qed

lemma fresh_holds: "holds (fresh_book env m) (\<lambda>s. [])"
  unfolding holds_def fresh_book_def
  by (intro exI conjI, rule book_new_ok) (simp add: book_new_abs)

section \<open>The books of the engine\<close>

definition books_ok :: "book_table \<Rightarrow> bool" where
  "books_ok es \<longleftrightarrow> table_ok es \<and> (\<forall>m B. books_look es m = Some B \<longrightarrow> sb_market_id B = m \<and> (\<exists>A. holds B A))"

lemma no_books_sound [simp]: "books_ok no_books"
  by (simp add: books_ok_def)

definition book_for :: "engine_env \<Rightarrow> book_table \<Rightarrow> uuid \<Rightarrow> slot_book" where
  "book_for env es m = (case books_look es m of None \<Rightarrow> fresh_book env m | Some B \<Rightarrow> B)"

lemma book_for_holds: "books_ok es \<Longrightarrow> sb_market_id (book_for env es m) = m \<and> (\<exists>A. holds (book_for env es m) A)"
proof -
  have "sb_market_id (fresh_book env m) = m" by (simp add: fresh_book_def book_new_def)
  moreover assume "books_ok es"
  ultimately show ?thesis
    using fresh_holds [of env m] by (cases "books_look es m") (auto simp: books_ok_def book_for_def)
qed

lemma get_or_create_place: "book_get_or_create env m es = books.place_for m (fresh_book env m) es"
  by (simp add: book_get_or_create_def books.place_for_def)

lemma get_or_create_assign:
  assumes "books_ok es" and "book_get_or_create env m es = Some (p, es')"
  shows "book_at es' p = book_for env es m" and "table_ok (put_book es' p b)"
    and "books_look (put_book es' p b) = (books_look es)(m \<mapsto> b)"
  using books.place_for_assign [of es m "fresh_book env m" p es' b] assms
  by (auto simp: get_or_create_place book_for_def books_ok_def)

lemma get_or_create_none:
  "book_get_or_create env m es = None \<longleftrightarrow> books_find es m = None \<and> (\<forall>i < kBuckets. be_occupied (es i))"
proof -
  obtain r es' where i: "books_insert es m (fresh_book env m) = (r, es')" by (cases "books_insert es m (fresh_book env m)")
  with books_insert_full [of es m "fresh_book env m"] show ?thesis
    by (auto simp: book_get_or_create_def split: option.splits)
qed

lemma books_ok_put:
  assumes "books_ok es" and "table_ok es'" and "books_look es' = (books_look es)(m \<mapsto> b)"
    and "sb_market_id b = m" and "holds b A"
  shows "books_ok es'"
  using assms by (auto simp: books_ok_def)

section \<open>Handling a message\<close>

lemma dispatch_nothing: "engine_decode of_be_octets data = None \<Longrightarrow> dispatch_engine env data e = Inr e"
  by (simp add: dispatch_engine_def)

lemma dispatch_full:
  assumes "engine_decode of_be_octets data = Some (AddOrder o')"
    and "book_get_or_create env (market_uuid (eom_market_id o')) (en_books e) = None"
  shows "dispatch_engine env data e = Inl NullBook"
  using assms by (simp add: dispatch_engine_def Let_def)

lemma dispatch_add_run:
  assumes "engine_decode of_be_octets data = Some (AddOrder o')"
    and "book_get_or_create env (market_uuid (eom_market_id o')) (en_books e) = Some (p, es)"
    and "add_order (ee_tsc env (market_uuid (eom_market_id o'))) o' (book_at es p) = Some b"
  shows "dispatch_engine env data e = Inr (store_book env p b
    (e\<lparr>en_wal := wal_append WalAddOrder data (of_nat (length data)) (en_wal e), en_books := es\<rparr>))"
  using assms by (simp add: dispatch_engine_def Let_def)

lemma dispatch_cancel_run:
  assumes "engine_decode of_be_octets data = Some (CancelOrder c)"
  shows "dispatch_engine env data e =
    (case books_find (en_books e) (market_uuid (ecm_market_id c)) of None \<Rightarrow> Inr e
     | Some p \<Rightarrow> Inr (store_book env p (snd (book_cancel (order_uuid (ecm_order_id c)) (book_at (en_books e) p)))
         (e\<lparr>en_wal := wal_append WalCancelOrder data (of_nat (length data)) (en_wal e)\<rparr>)))"
  using assms by (simp add: dispatch_engine_def Let_def split: option.split)

lemma store_book_eff:
  "en_books (store_book env p b e) = put_book (en_books e) p b" "en_wal (store_book env p b e) = en_wal e"
  "en_published (store_book env p b e) = en_published e @
     concat (map (on_fill (ee_config env)) (drop (length (sb_sent (book_at (en_books e) p))) (sb_sent b)))"
  by (simp_all add: store_book_def)

lemma sent_drop: "sent_ok tk B B' ds \<Longrightarrow> sb_sent B' = sb_sent B @ drop (length (sb_sent B)) (sb_sent B')"
  by (auto simp: sent_ok_def)

lemma dispatch_add:
  assumes ok: "books_ok (en_books e)" and d: "engine_decode of_be_octets data = Some (AddOrder o')"
    and m: "m = market_uuid (eom_market_id o')" and g: "book_get_or_create env m (en_books e) \<noteq> None"
    and B: "B = book_for env (en_books e) m" and A: "holds B A"
  shows "\<exists>e' B' ds A'. dispatch_engine env data e = Inr e' \<and> add_order (ee_tsc env m) o' B = Some B' \<and>
    spec_order o' A = (ds, A') \<and> holds B' A' \<and> sent_ok (taker_of o') B B' ds \<and>
    books_ok (en_books e') \<and> books_look (en_books e') = (books_look (en_books e))(m \<mapsto> B') \<and>
    en_wal e' = wal_append WalAddOrder data (of_nat (length data)) (en_wal e) \<and>
    en_published e' = en_published e @ concat (map (on_fill (ee_config env)) (drop (length (sb_sent B)) (sb_sent B')))"
proof -
  obtain p es where g': "book_get_or_create env m (en_books e) = Some (p, es)" using g by auto
  obtain B' A' ds where a: "add_order (ee_tsc env m) o' B = Some B'" "holds B' A'" "spec_order o' A = (ds, A')"
    "sent_ok (taker_of o') B B' ds" using add_order_ok [OF A] by blast
  note at = get_or_create_assign(1) [OF ok g'] and put = get_or_create_assign(2,3) [OF ok g', of B']
  have "sb_market_id B' = m" using a(4) book_for_holds [OF ok, of env m] B by (simp add: sent_ok_def)
  with books_ok_put [OF ok put(1,2) _ a(2)] have "books_ok (put_book es p B')" .
  moreover have "dispatch_engine env data e = Inr (store_book env p B'
      (e\<lparr>en_wal := wal_append WalAddOrder data (of_nat (length data)) (en_wal e), en_books := es\<rparr>))"
    by (rule dispatch_add_run [OF d g' [unfolded m]]) (use a(1) at B m in simp)
  ultimately show ?thesis using a at put(2) B by (intro exI conjI) (assumption | simp add: store_book_eff)+
qed

lemma dispatch_cancel:
  assumes ok: "books_ok (en_books e)" and d: "engine_decode of_be_octets data = Some (CancelOrder c)"
    and m: "m = market_uuid (ecm_market_id c)"
  shows "\<exists>e'. dispatch_engine env data e = Inr e' \<and> books_ok (en_books e') \<and>
    books_look (en_books e') = (case books_look (en_books e) m of None \<Rightarrow> books_look (en_books e)
      | Some B \<Rightarrow> (books_look (en_books e))(m \<mapsto> snd (book_cancel (order_uuid (ecm_order_id c)) B)))"
proof (cases "books_find (en_books e) m")
  case None
  then have "dispatch_engine env data e = Inr e" by (simp add: dispatch_cancel_run [OF d] m)
  moreover have "books_look (en_books e) m = None" using None by (simp add: books_look_def)
  ultimately show ?thesis using ok by simp
next
  case (Some p)
  let ?B = "book_at (en_books e) p" and ?C = "snd (book_cancel (order_uuid (ecm_order_id c)) (book_at (en_books e) p))"
  have l: "books_look (en_books e) m = Some ?B" using Some by (simp add: books_look_def)
  with ok obtain A where "holds ?B A" "sb_market_id ?B = m" by (auto simp: books_ok_def)
  then obtain A' where A': "holds ?C A'" "sb_market_id ?C = m"
    using cancel_holds [of ?B A "order_uuid (ecm_order_id c)"] by (auto simp: same_outside_def)
  have t: "table_ok (en_books e)" using ok by (simp add: books_ok_def)
  note put = books_find_put [OF t Some, of ?C]
  have "books_ok (put_book (en_books e) p ?C)" by (rule books_ok_put [OF ok put(1,3) A'(2,1)])
  moreover have "dispatch_engine env data e = Inr (store_book env p ?C
      (e\<lparr>en_wal := wal_append WalCancelOrder data (of_nat (length data)) (en_wal e)\<rparr>))"
    using Some by (simp add: dispatch_cancel_run [OF d] m)
  ultimately show ?thesis using put(3) l by (simp add: store_book_eff)
qed

text \<open>The only fault of an engine whose books are sound is a market table without room.\<close>

lemma dispatch_sound:
  assumes ok: "books_ok (en_books e)"
  shows "dispatch_engine env data e = Inl NullBook \<or> (\<exists>e'. dispatch_engine env data e = Inr e' \<and> books_ok (en_books e'))"
proof (cases "engine_decode of_be_octets data")
  case None
  with ok show ?thesis by (simp add: dispatch_nothing)
next
  case (Some c)
  show ?thesis
  proof (cases c)
    case (AddOrder o')
    let ?m = "market_uuid (eom_market_id o')"
    obtain A where A: "holds (book_for env (en_books e) ?m) A" using book_for_holds [OF ok] by blast
    show ?thesis
    proof (cases "book_get_or_create env ?m (en_books e) = None")
      case True
      with Some AddOrder show ?thesis by (simp add: dispatch_full)
    next
      case False
      with dispatch_add [OF ok _ refl False refl A] Some AddOrder show ?thesis by blast
    qed
  next
    case (CancelOrder k)
    with dispatch_cancel [OF ok _ refl] Some show ?thesis by blast
  qed
qed

text \<open>A step of the engine: it handles a message and is still there.\<close>

definition message_step :: "engine_env \<Rightarrow> engine \<Rightarrow> engine \<Rightarrow> bool" where
  "message_step env e e' \<longleftrightarrow> (\<exists>data. dispatch_engine env data e = Inr e')"

interpretation handling: kept_by_steps "message_step env" "\<lambda>e. books_ok (en_books e)" for env
proof
  fix e e'
  assume "books_ok (en_books e)" "message_step env e e'"
  then obtain data where "dispatch_engine env data e = Inr e'" by (auto simp: message_step_def)
  with dispatch_sound [OF \<open>books_ok (en_books e)\<close>, of env data] show "books_ok (en_books e')" by simp
qed

lemma run_steps: "run_engine env ds e = Inr e' \<Longrightarrow> (message_step env)\<^sup>*\<^sup>* e e'"
proof (induction ds arbitrary: e)
  case (Cons d ds)
  then obtain e1 where "dispatch_engine env d e = Inr e1" "run_engine env ds e1 = Inr e'" by (auto split: sum.splits)
  with Cons.IH show ?case by (meson converse_rtranclp_into_rtranclp message_step_def)
qed simp

lemma start_books [simp]: "en_books (engine_start disk) = no_books"
  by (simp add: engine_start_def split: prod.split)

lemma run_books_ok: "run_engine env ds (engine_start disk) = Inr e \<Longrightarrow> books_ok (en_books e)"
  using handling.run_keeps [OF run_steps] by simp

lemma run_append:
  "run_engine env (ds @ ds') e = (case run_engine env ds e of Inl f \<Rightarrow> Inl f | Inr e' \<Rightarrow> run_engine env ds' e')"
  by (induction ds arbitrary: e) (auto split: sum.split)


section \<open>The log and the books\<close>

lemma dispatch_books:
  assumes "en_books e = en_books f"
  shows "map_sum (\<lambda>x. x) en_books (dispatch_engine env d e) = map_sum (\<lambda>x. x) en_books (dispatch_engine env d f)"
proof (cases "engine_decode of_be_octets d")
  case None
  with assms show ?thesis by (simp add: dispatch_nothing)
next
  case (Some c)
  show ?thesis
  proof (cases c)
    case (AddOrder o')
    with Some assms show ?thesis
      by (simp add: dispatch_engine_def Let_def store_book_eff split: option.split)
  next
    case (CancelOrder k)
    with Some assms show ?thesis by (simp add: dispatch_cancel_run store_book_eff split: option.split)
  qed
qed

text \<open>A message that is not logged changes no book.\<close>

lemma dispatch_logs:
  assumes "dispatch_engine env d e = Inr e'"
  shows "en_wal e' = en_wal e \<and> en_books e' = en_books e \<or>
    (\<exists>op. en_wal e' = wal_append op d (of_nat (length d)) (en_wal e))"
proof (cases "engine_decode of_be_octets d")
  case None
  with assms show ?thesis by (simp add: dispatch_nothing)
next
  case (Some c)
  show ?thesis
  proof (cases c)
    case (AddOrder o')
    with Some assms have "en_wal e' = wal_append WalAddOrder d (of_nat (length d)) (en_wal e)"
      by (auto simp: dispatch_engine_def Let_def store_book_eff split: option.splits)
    then show ?thesis by blast
  next
    case (CancelOrder k)
    with Some assms show ?thesis by (auto simp: dispatch_cancel_run store_book_eff split: option.splits)
  qed
qed

text \<open>
  Along a run from an empty file: after each logged message the log, replayed, gives the books of a moment of
  the run, and after the last one the books of its end.
\<close>

definition replays :: "engine_env \<Rightarrow> u8 list list \<Rightarrow> book_table \<Rightarrow> bool" where
  "replays env ms bs \<longleftrightarrow> (\<exists>e. run_engine env ms (engine_start []) = Inr e \<and> en_books e = bs)"

definition log_follows :: "engine_env \<Rightarrow> u8 list list \<Rightarrow> u8 list list \<Rightarrow> bool" where
  "log_follows env ms ds \<longleftrightarrow>
     (\<forall>k. \<exists>j bs. replays env (take k ms) bs \<and> replays env (take j ds) bs)"

lemma replays_snoc:
  assumes "replays env ms (en_books e)" and "dispatch_engine env d e = Inr e'"
  shows "replays env (ms @ [d]) (en_books e')"
proof -
  obtain f where f: "run_engine env ms (engine_start []) = Inr f" "en_books f = en_books e"
    using assms(1) by (auto simp: replays_def)
  from dispatch_books [OF f(2), of env d] assms(2) obtain f' where "dispatch_engine env d f = Inr f'" "en_books f' = en_books e'"
    by (cases "dispatch_engine env d f") auto
  with f(1) show ?thesis by (simp add: replays_def run_append)
qed

lemma log_follows_mono:
  assumes "log_follows env ms ds"
  shows "log_follows env ms (ds @ [d])"
  unfolding log_follows_def
proof
  fix k
  obtain j bs where "replays env (take k ms) bs" "replays env (take j ds) bs" using assms unfolding log_follows_def by blast
  then have "replays env (take (min j (length ds)) (ds @ [d])) bs"
    by (cases "j \<le> length ds") (simp_all add: min_def)
  then show "\<exists>j bs. replays env (take k ms) bs \<and> replays env (take j (ds @ [d])) bs"
    using \<open>replays env (take k ms) bs\<close> by blast
qed

lemma log_follows_snoc:
  assumes "log_follows env ms ds" and "replays env (ms @ [d]) bs" and "replays env (ds @ [d]) bs"
  shows "log_follows env (ms @ [d]) (ds @ [d])"
  unfolding log_follows_def
proof
  fix k
  show "\<exists>j bs. replays env (take k (ms @ [d])) bs \<and> replays env (take j (ds @ [d])) bs"
  proof (cases "k \<le> length ms")
    case True
    with log_follows_mono [OF assms(1), of d] show ?thesis by (simp add: log_follows_def)
  next
    case False
    with assms(2,3) show ?thesis by (intro exI [of _ "Suc (length ds)"] exI [of _ bs]) simp
  qed
qed

lemma recover_empty: "read_records [] = []"
  by (simp add: read_records.simps [of "[]"] read_record_def in_read_def)

lemma start_wal: "en_wal (engine_start []) = wal_open []"
  by (simp add: engine_start_def wal_recover_def wal_open_def recover_empty Let_def)

lemma run_logged:
  assumes "run_engine env ds (engine_start []) = Inr e" and "\<forall>d \<in> set ds. length d < 2 ^ 32"
  shows "\<exists>es. wal_holds (en_wal e) es \<and> log_follows env (map snd es) ds \<and> replays env (map snd es) (en_books e)"
  using assms
proof (induction ds arbitrary: e rule: rev_induct)
  case Nil
  have "replays env [] (en_books e)" using Nil.prems(1) by (simp add: replays_def)
  with Nil.prems(1) show ?case
    using wal_holds_empty by (intro exI [of _ "[]"]) (auto simp: start_wal log_follows_def)
next
  case (snoc d ds)
  obtain e1 where e1: "run_engine env ds (engine_start []) = Inr e1" "dispatch_engine env d e1 = Inr e"
    using snoc.prems(1) by (auto simp: run_append split: sum.splits)
  with snoc obtain es where es: "wal_holds (en_wal e1) es" "log_follows env (map snd es) ds"
    "replays env (map snd es) (en_books e1)" by auto
  from dispatch_logs [OF e1(2)] show ?case
  proof
    assume "en_wal e = en_wal e1 \<and> en_books e = en_books e1"
    with es show ?thesis by (intro exI [of _ es]) (simp add: log_follows_mono)
  next
    assume "\<exists>op. en_wal e = wal_append op d (of_nat (length d)) (en_wal e1)"
    then obtain op where "en_wal e = wal_append op d (of_nat (length d)) (en_wal e1)" ..
    then have "wal_holds (en_wal e) (es @ [(op, d)])" using wal_holds_append [OF es(1)] snoc.prems(2) by simp
    moreover have r: "replays env (map snd es @ [d]) (en_books e)" using replays_snoc [OF es(3) e1(2)] .
    moreover have "replays env (ds @ [d]) (en_books e)" using snoc.prems(1) by (simp add: replays_def)
    ultimately show ?thesis using log_follows_snoc [OF es(2)] by (intro exI [of _ "es @ [(op, d)]"]) simp
  qed
qed

lemma recovered_payloads:
  assumes "wal_holds w es"
  shows "\<exists>k. map wr_payload (fst (wal_recover (wal_open (take n (wal_file w))))) = take k (map snd es) \<and>
    (length (wal_file w) \<le> n \<longrightarrow> length es \<le> k)"
proof -
  let ?rs = "log_records es"
  have f: "wal_file w = log_bytes ?rs" using assms by (simp add: wal_holds_def)
  have "list_all whole ?rs" using assms by (intro log_records_whole) (simp add: wal_holds_def)
  from read_cut [OF this, of n] obtain k where k: "read_records (take n (log_bytes ?rs)) = take k ?rs"
    "k < length ?rs \<longrightarrow> n < length (log_bytes (take (Suc k) ?rs))" by blast
  have "length (log_bytes (take m ?rs)) \<le> length (log_bytes ?rs)" for m
    using log_bytes_simps(3) [of "take m ?rs" "drop m ?rs"] by (metis append_take_drop_id le_add1 length_append)
  with k(2) have "length (log_bytes ?rs) \<le> n \<longrightarrow> length ?rs \<le> k" by (metis leD le_trans not_le)
  moreover have "length ?rs = length es" by (metis length_map log_payloads)
  ultimately show ?thesis
    using k(1) by (intro exI [of _ k]) (simp add: wal_recover_def wal_open_def f Let_def log_payloads flip: take_map)
qed

section \<open>How many markets\<close>

definition markets_of :: "engine \<Rightarrow> uuid set" where
  "markets_of e = dom (books_look (en_books e))"

lemma markets_places:
  assumes "table_ok es"
  shows "card (dom (books_look es)) = card {i. i < kBuckets \<and> be_occupied (es i)}" and "finite (dom (books_look es))"
proof -
  let ?I = "{i. i < kBuckets \<and> be_occupied (es i)}"
  have d: "dom (books_look es) = (\<lambda>i. be_key (es i)) ` ?I"
  proof (intro set_eqI)
    fix m
    have "m \<in> dom (books_look es) \<longleftrightarrow> (\<exists>i. books_find es m = Some i)"
      by (auto simp: books_look_def dom_def)
    then show "m \<in> dom (books_look es) \<longleftrightarrow> m \<in> (\<lambda>i. be_key (es i)) ` ?I"
      unfolding books_find_iff [OF assms] by auto
  qed
  have "inj_on (\<lambda>i. be_key (es i)) ?I" using assms by (auto simp: inj_on_def table_ok_def)
  then show "card (dom (books_look es)) = card ?I" unfolding d by (rule card_image)
  show "finite (dom (books_look es))" unfolding d by simp
qed

lemma room_for:
  assumes "table_ok es"
  shows "book_get_or_create env m es = None \<longleftrightarrow> m \<notin> dom (books_look es) \<and> card (dom (books_look es)) = kBuckets"
proof -
  let ?I = "{i. i < kBuckets \<and> be_occupied (es i)}"
  have "card ?I = kBuckets \<longleftrightarrow> ?I = {..<kBuckets}"
  proof
    assume "card ?I = kBuckets"
    then show "?I = {..<kBuckets}" by (intro card_subset_eq) auto
  qed simp
  also have "\<dots> \<longleftrightarrow> (\<forall>i < kBuckets. be_occupied (es i))" by auto
  finally show ?thesis
    unfolding get_or_create_none markets_places(1) [OF assms] by (auto simp: books_look_def dom_def)
qed

text \<open>Orders for markets without a book take the room there is.\<close>

lemma new_markets:
  assumes "books_ok (en_books e)" and "list_all2 (\<lambda>d o'. engine_decode of_be_octets d = Some (AddOrder o')) ds os"
    and "distinct (map (\<lambda>o'. market_uuid (eom_market_id o')) os)"
    and "set (map (\<lambda>o'. market_uuid (eom_market_id o')) os) \<inter> markets_of e = {}"
    and "card (markets_of e) + length os \<le> kBuckets"
  shows "\<exists>e'. run_engine env ds e = Inr e' \<and>
    markets_of e' = markets_of e \<union> set (map (\<lambda>o'. market_uuid (eom_market_id o')) os) \<and>
    card (markets_of e') = card (markets_of e) + length os"
  using assms
proof (induction ds arbitrary: e os)
  case (Cons d ds)
  then obtain o' os' where os: "os = o' # os'" "engine_decode of_be_octets d = Some (AddOrder o')"
    "list_all2 (\<lambda>d o'. engine_decode of_be_octets d = Some (AddOrder o')) ds os'" by (auto simp: list_all2_Cons1)
  let ?m = "market_uuid (eom_market_id o')"
  have t: "table_ok (en_books e)" using Cons.prems(1) by (simp add: books_ok_def)
  have new: "?m \<notin> markets_of e" and room: "card (markets_of e) < kBuckets" using Cons.prems os(1) by auto
  then have "book_get_or_create env ?m (en_books e) \<noteq> None" using room_for [OF t, of env ?m] by (auto simp: markets_of_def)
  moreover obtain A where "holds (book_for env (en_books e) ?m) A" using book_for_holds [OF Cons.prems(1)] by blast
  ultimately obtain e1 B' where e1: "dispatch_engine env d e = Inr e1" "books_ok (en_books e1)"
    "books_look (en_books e1) = (books_look (en_books e))(?m \<mapsto> B')"
    using dispatch_add [OF Cons.prems(1) os(2) refl _ refl] by blast
  have m1: "markets_of e1 = insert ?m (markets_of e)" using e1(3) by (simp add: markets_of_def)
  have c1: "card (markets_of e1) = Suc (card (markets_of e))"
    unfolding m1 using new markets_places(2) [OF t] by (simp add: markets_of_def)
  have "\<exists>e'. run_engine env ds e1 = Inr e' \<and>
      markets_of e' = markets_of e1 \<union> set (map (\<lambda>o'. market_uuid (eom_market_id o')) os') \<and>
      card (markets_of e') = card (markets_of e1) + length os'"
    using Cons.prems os by (intro Cons.IH [OF e1(2) os(3)]) (auto simp: m1 c1)
  then obtain e' where "run_engine env ds e1 = Inr e'" "card (markets_of e') = card (markets_of e1) + length os'"
    "markets_of e' = markets_of e1 \<union> set (map (\<lambda>o'. market_uuid (eom_market_id o')) os')" by blast
  with e1(1) c1 show ?case by (intro exI [of _ e']) (auto simp: m1 os(1))
qed simp

end
