(* ===== verification/Engine_Claims.thy ===== *)
theory Engine_Claims
  imports Engine_Main
begin

text \<open>
  The properties of the matching engine, over the lemmas of \<open>Book_Ops\<close> and \<open>Engine_Main\<close>, and what they need of
  the abstract book: that it is sound, and what a taker gets out of it.
\<close>

section \<open>Sound books\<close>

definition book_sound :: "(side \<Rightarrow> book_side) \<Rightarrow> bool" where
  "book_sound A \<longleftrightarrow>
     (\<forall>s. sorted_wrt (\<lambda>a b. better s (fst a) (fst b)) (A s) \<and>
        (\<forall>l \<in> set (A s). 0 < fst l \<and> fst l < 10000 \<and> snd l \<noteq> [] \<and> (\<forall>r \<in> set (snd l). 0 < rs_left r))) \<and>
     (\<forall>a \<in> set (A Buy). \<forall>b \<in> set (A Sell). fst a < fst b) \<and> orders_in A \<le> kMaxOrdersPerBook"

lemma core_levels:
  assumes inv: "core_inv {} {} B LS QS" and l: "l \<in> set (LS s)"
  shows "0 < lv_price (sb_levels B l) \<and> lv_price (sb_levels B l) < 10000 \<and> QS l \<noteq> [] \<and>
    (\<forall>i \<in> set (QS l). os_remaining (sb_orders B i) \<noteq> 0)"
proof -
  have "QS l \<noteq> []" using core_inv_D(9) [OF inv live_level [of l LS s, OF l]] by auto
  moreover have "\<forall>i \<in> set (QS l). os_remaining (sb_orders B i) \<noteq> 0"
    using core_level_ok [OF inv l] by (simp add: level_ok_def)
  ultimately show ?thesis using core_inv_D(4) [OF inv] l by (simp add: prices_ok_def)
qed

lemma holds_sound:
  assumes "holds B A"
  shows "book_sound A"
proof -
  obtain LS QS where ok: "book_ok B LS QS" and A: "A = abs_book B LS QS" using assms by (auto simp: holds_def)
  then have inv: "core_inv {} {} B LS QS" and un: "uncrossed B LS" by (simp_all add: book_ok_def)
  have "orders_in A \<le> kMaxOrdersPerBook"
    using free_ok_card [OF core_inv_D(6) [OF inv]] orders_queued [OF inv] by (simp add: A)
  moreover have "0 < fst l \<and> fst l < 10000 \<and> snd l \<noteq> [] \<and> (\<forall>r \<in> set (snd l). 0 < rs_left r)"
    if l: "l \<in> set (A s)" for s l
    using l core_levels [OF inv, of _ s] by (auto simp: A abs_book_def abs_level_def resting_of_def unat_gt_0)
  ultimately show ?thesis
    using sorted_abs [OF inv] un [unfolded uncrossed_abs [of B LS QS]] unfolding book_sound_def A by blast
qed

lemma sum_left: "of_nat (queue_total (map (resting_of B) qs)) = (\<Sum>i\<leftarrow>qs. os_remaining (sb_orders B i))"
  by (induction qs) (simp_all add: resting_of_def)

text \<open>One row of the depth: price, quantity, number of orders.\<close>

definition depth_row :: "u32 \<times> resting list \<Rightarrow> u32 \<times> u64 \<times> u32" where
  "depth_row l = (fst l, of_nat (queue_total (snd l)), of_nat (length (snd l)))"

lemma top_levels_rows:
  assumes "slot_segment (\<lambda>l. lv_next (sb_levels B l)) (\<lambda>l. lv_prev (sb_levels B l)) p h ls None"
    and "\<forall>l \<in> set ls. level_ok B s l (QS l)"
  shows "top_levels n B h = map depth_row (take n (map (abs_level B QS) ls))"
  using assms
proof (induction ls arbitrary: p h n)
  case Nil
  then show ?case by (cases n) auto
next
  case (Cons l ls)
  have "lv_total_qty (sb_levels B l) = (\<Sum>i\<leftarrow>QS l. os_remaining (sb_orders B i))"
    "lv_count (sb_levels B l) = of_nat (length (QS l))" using Cons.prems(2) by (simp_all add: level_ok_def)
  then have "depth_row (abs_level B QS l) = (lv_price (sb_levels B l), lv_total_qty (sb_levels B l), lv_count (sb_levels B l))"
    by (simp add: depth_row_def abs_level_def sum_left)
  with Cons show ?case by (cases n) auto
qed

lemma top_of_rows:
  assumes "holds B A"
  shows "top_of s n B = map depth_row (take n (A s)) \<and>
    sb_best B s = (case A s of [] \<Rightarrow> no_best s | l # _ \<Rightarrow> fst l)"
proof -
  obtain LS QS where ok: "book_ok B LS QS" and A: "A = abs_book B LS QS" using assms by (auto simp: holds_def)
  then have inv: "core_inv {} {} B LS QS" and best: "best_ok B LS" by (simp_all add: book_ok_def)
  have "\<forall>l \<in> set (LS s). level_ok B s l (QS l)" using core_level_ok [OF inv] by blast
  with top_levels_rows [of B None "sb_head B s" "LS s" s QS n] core_inv_D(1) [OF inv]
  have "top_of s n B = map depth_row (take n (A s))"
    by (simp add: top_of_def A abs_book_def levels_linked_def linked_def)
  moreover have "sb_best B s = (case A s of [] \<Rightarrow> no_best s | l # _ \<Rightarrow> fst l)"
    using best by (auto simp: best_ok_def A abs_book_def abs_level_def split: list.split)
  ultimately show ?thesis ..
qed

section \<open>What a taker gets\<close>

definition left_in :: "(resting \<times> u32) list \<Rightarrow> nat" where
  "left_in os = (\<Sum>(r, p)\<leftarrow>os. rs_left r)"

lemma take_orders_total: "take_orders n os = (ds, n', os') \<Longrightarrow> deals_total ds = min n (left_in os) \<and> n' = n - left_in os"
  by (induction n os arbitrary: ds n' os' rule: take_orders.induct)
    (auto simp: left_in_def split: if_splits prod.splits)

lemma crossing_levels:
  assumes "sorted_wrt (\<lambda>a b. better (opposite s) (fst a) (fst b)) ls"
  shows "takeWhile (\<lambda>l. crosses s p (fst l)) ls = filter (\<lambda>l. crosses s p (fst l)) ls"
  using assms
proof (induction ls)
  case (Cons l ls)
  show ?case
  proof (cases "crosses s p (fst l)")
    case False
    then have "\<forall>k \<in> set ls. \<not> crosses s p (fst k)" using Cons.prems crosses_worse [of s p "fst l"] by simp
    then have "filter (\<lambda>k. crosses s p (fst k)) ls = []" by (simp add: filter_empty_conv)
    with False show ?thesis by simp
  qed (use Cons in simp)
qed simp

lemma take_side_crossing:
  assumes "take_side (crosses s p) n ls = (ds, n', ls')" and "sorted_wrt (\<lambda>a b. better (opposite s) (fst a) (fst b)) ls"
    and "os = by_priority (filter (\<lambda>l. crosses s p (fst l)) ls)"
  shows "\<exists>os'. take_orders n os = (ds, n', os') \<and> map (\<lambda>(r, p, q). (r, p)) ds = take (length ds) os \<and>
    (\<forall>d \<in> set (butlast ds). snd (snd d) = rs_left (fst d)) \<and> deals_total ds = min n (left_in os)"
proof -
  from take_side_orders [OF assms(1)] obtain os' where "take_orders n os = (ds, n', os')"
    unfolding crossing_levels [OF assms(2)] assms(3) by blast
  with take_orders_priority [OF this] take_orders_total [OF this] show ?thesis by simp
qed


section \<open>The order book\<close>

text \<open>
  C8: The slot book refines the abstract book. On a book that holds an abstract book, a limit or market order
  returns, the book then holds what the specification of the order makes of the abstract book, and the fills
  it sent are exactly the deals of the specification, in their order, with consecutive sequence numbers.
\<close>
theorem orders_follow_spec:
  assumes "holds B A"
  shows "\<exists>B' A' ds. add_order tsc o' B = Some B' \<and> spec_order o' A = (ds, A') \<and> holds B' A' \<and> sent_ok (taker_of o') B B' ds"
  using add_order_ok [OF assms] by blast

definition sample_slots :: engine_env where
  "sample_slots =
     \<lparr>ee_config = load_config (\<lambda>k. None), ee_tsc = (\<lambda>m n. of_nat n),
      ee_orders = (\<lambda>m i. \<lparr>os_order_id = 0, os_user_id = 0, os_quantity = 0, os_remaining = 0, os_sequence = 0,
        os_price = 0, os_next = None, os_prev = None, os_side = Buy, os_is_market = False\<rparr>),
      ee_levels = (\<lambda>m l. \<lparr>lv_total_qty = 0, lv_head = None, lv_tail = None, lv_count = 0, lv_price = 0,
        lv_next = None, lv_prev = None\<rparr>),
      ee_sides = (\<lambda>m h. Buy)\<rparr>"

definition sample_engine_order :: "uuid \<Rightarrow> side \<Rightarrow> u32 \<Rightarrow> u64 \<Rightarrow> engine_order_msg" where
  "sample_engine_order i s p q =
     \<lparr>eom_order_id = OrderId i, eom_market_id = MarketId 3, eom_user_id = UserId 4, eom_side = s, eom_price = p,
      eom_quantity = q, eom_sequence = 1, eom_is_market = False\<rparr>"

text \<open>The book with one sell order of 10 at 0.5.\<close>

lemma sample_resting:
  "\<exists>B. add_order (\<lambda>n. 0) (sample_engine_order 7 Sell 5000 10) (fresh_book sample_slots 3) = Some B \<and>
     holds B (\<lambda>s. case s of Buy \<Rightarrow> [] | Sell \<Rightarrow>
       [(5000, [\<lparr>rs_order_id = 7, rs_user_id = 4, rs_sequence = 1, rs_left = 10\<rparr>])])"
proof -
  have "spec_order (sample_engine_order 7 Sell 5000 10) (\<lambda>s. []) = ([], \<lambda>s. case s of Buy \<Rightarrow> [] | Sell \<Rightarrow>
       [(5000, [\<lparr>rs_order_id = 7, rs_user_id = 4, rs_sequence = 1, rs_left = 10\<rparr>])])"
    by (auto simp: spec_order_def spec_limit_def sample_engine_order_def orders_in_def kMaxOrdersPerBook_def fun_eq_iff
        split: side.split)
  with add_order_ok [OF fresh_holds [of sample_slots 3], of "\<lambda>n. 0" "sample_engine_order 7 Sell 5000 10"] show ?thesis by auto
qed

lemma orders_follow_spec_witness:
  "\<exists>B' A'. add_order (\<lambda>n. 0) (sample_engine_order 7 Sell 5000 10) (fresh_book sample_slots 3) = Some B' \<and>
     spec_order (sample_engine_order 7 Sell 5000 10) (\<lambda>s. []) = ([], A') \<and> holds B' A' \<and> A' Buy = [] \<and>
     A' Sell = [(5000, [\<lparr>rs_order_id = 7, rs_user_id = 4, rs_sequence = 1, rs_left = 10\<rparr>])]"
  using orders_follow_spec [OF fresh_holds [of sample_slots 3], of "\<lambda>n. 0" "sample_engine_order 7 Sell 5000 10"]
  by (auto simp: spec_order_def spec_limit_def sample_engine_order_def orders_in_def kMaxOrdersPerBook_def)

text \<open>
  C10: A limit order trades as against one queue: the two nested loops over levels and their orders give the
  deals of a single pass over all resting orders it may cross, best price first and oldest first at a price.
  Every maker but the last trades everything it has left, and the order gets all of its quantity or all there is.
\<close>
theorem matching_is_one_queue:
  assumes "holds B A" and "0 < p" and "p < 10000" and "q \<noteq> 0"
    and "os = by_priority (filter (\<lambda>l. crosses s p (fst l)) (A (opposite s)))"
  shows "\<exists>B' ds n os'. add_limit_order tsc oid uid s p q sq B = Some B' \<and> take_orders (unat q) os = (ds, n, os') \<and>
    sent_ok \<lparr>tk_order_id = oid, tk_user_id = uid, tk_side = s, tk_limit = p, tk_is_market = False\<rparr> B B' ds \<and>
    map (\<lambda>(r, p, q). (r, p)) ds = take (length ds) os \<and>
    (\<forall>d \<in> set (butlast ds). snd (snd d) = rs_left (fst d)) \<and> deals_total ds = min (unat q) (left_in os)"
proof -
  obtain LS QS where ok: "book_ok B LS QS" and A: "A = abs_book B LS QS" using assms(1) by (auto simp: holds_def)
  obtain B' LS' QS' ds where r: "add_limit_order tsc oid uid s p q sq B = Some B'"
    "spec_limit oid uid s p (unat q) sq A = (ds, abs_book B' LS' QS')"
    "sent_ok \<lparr>tk_order_id = oid, tk_user_id = uid, tk_side = s, tk_limit = p, tk_is_market = False\<rparr> B B' ds"
    using add_limit_ok [OF ok] unfolding A by blast
  obtain ds' n' ls' where t: "take_side (crosses s p) (unat q) (A (opposite s)) = (ds', n', ls')"
    by (cases "take_side (crosses s p) (unat q) (A (opposite s))")
  have "ds' = ds" using r(2) t assms(2-4) by (auto simp: spec_limit_def Let_def unat_eq_zero not_le split: if_splits)
  moreover have "sorted_wrt (\<lambda>a b. better (opposite s) (fst a) (fst b)) (A (opposite s))"
    using holds_sound [OF assms(1)] by (simp add: book_sound_def)
  ultimately show ?thesis using take_side_crossing [OF t _ assms(5)] r(1,3) by blast
qed

lemma matching_is_one_queue_witness:
  "\<exists>B B'. add_order (\<lambda>n. 0) (sample_engine_order 7 Sell 5000 10) (fresh_book sample_slots 3) = Some B \<and>
     add_limit_order (\<lambda>n. 0) 8 5 Buy 6000 25 2 B = Some B' \<and>
     sent_ok \<lparr>tk_order_id = 8, tk_user_id = 5, tk_side = Buy, tk_limit = 6000, tk_is_market = False\<rparr> B B'
       [(\<lparr>rs_order_id = 7, rs_user_id = 4, rs_sequence = 1, rs_left = 10\<rparr>, 5000, 10)]"
proof -
  let ?A = "\<lambda>s. case s of Buy \<Rightarrow> [] | Sell \<Rightarrow> [(5000, [\<lparr>rs_order_id = 7, rs_user_id = 4, rs_sequence = 1, rs_left = 10\<rparr>])]"
  obtain B where B: "add_order (\<lambda>n. 0) (sample_engine_order 7 Sell 5000 10) (fresh_book sample_slots 3) = Some B" "holds B ?A"
    using sample_resting by blast
  from matching_is_one_queue [OF B(2) _ _ _ refl, of 6000 25 "\<lambda>n. 0" 8 5 Buy 2] B(1) show ?thesis
    by (auto simp: left_in_def crosses_def)
qed

text \<open>
  C9: The engine's books stay sound in every run from any log file, whatever bytes arrive: both sides strictly
  sorted from the best price on, prices between 1 and 9999, no empty level, no order without quantity, bids
  below asks, at most 131072 orders; and the depth and the best price the book reports are those of its orders.
\<close>
theorem books_stay_sound:
  assumes "run_engine env ms (engine_start disk) = Inr e" and "books_look (en_books e) m = Some B"
  shows "\<exists>A. holds B A \<and> book_sound A \<and> sb_market_id B = m \<and>
    (\<forall>s. (\<forall>n. top_of s n B = map depth_row (take n (A s))) \<and>
       sb_best B s = (case A s of [] \<Rightarrow> no_best s | l # _ \<Rightarrow> fst l))"
proof -
  obtain A where A: "holds B A" "sb_market_id B = m"
    using run_books_ok [OF assms(1)] assms(2) by (auto simp: books_ok_def)
  with holds_sound [OF A(1)] top_of_rows [OF A(1)] show ?thesis by blast
qed

lemma message_decodes:
  "engine_decode of_be_octets (encode_order_msg be_octets o') = Some (AddOrder o')"
  "length (encode_order_msg be_octets o') = 71"
  by (rule decode_encode [OF be_octets_law])+

lemma sample_run:
  "\<exists>e B. run_engine sample_slots [encode_order_msg be_octets (sample_engine_order 7 Sell 5000 10)] (engine_start disk) = Inr e \<and>
     books_look (en_books e) 3 = Some B"
proof -
  let ?o = "sample_engine_order 7 Sell 5000 10"
  have m: "3 = market_uuid (eom_market_id ?o)" by (simp add: sample_engine_order_def)
  have g: "book_get_or_create sample_slots 3 (en_books (engine_start disk)) \<noteq> None"
    using room_for [of no_books sample_slots 3] by (simp add: kBuckets_def)
  have b: "fresh_book sample_slots 3 = book_for sample_slots (en_books (engine_start disk)) 3"
    by (simp add: book_for_def)
  show ?thesis
    using dispatch_add [OF _ message_decodes(1) m g b fresh_holds] by auto
qed

lemma books_stay_sound_witness:
  "\<exists>e B A. run_engine sample_slots [encode_order_msg be_octets (sample_engine_order 7 Sell 5000 10)] (engine_start []) = Inr e \<and>
     books_look (en_books e) 3 = Some B \<and> holds B A \<and> book_sound A \<and> top_of Sell 5 B = map depth_row (take 5 (A Sell))"
proof -
  obtain e B where e: "run_engine sample_slots [encode_order_msg be_octets (sample_engine_order 7 Sell 5000 10)] (engine_start []) = Inr e"
    "books_look (en_books e) 3 = Some B" using sample_run by blast
  from books_stay_sound [OF e] e show ?thesis by blast
qed


section \<open>Cancellations\<close>

lemma cancel_spec:
  assumes "holds B A" and "book_cancel oid B = (True, B')"
  shows "\<exists>A' s r. holds B' A' \<and> taken_out s r A A' \<and> index_of (rs_order_id r) = index_of oid \<and> same_outside B B'"
proof -
  obtain LS QS where ok: "book_ok B LS QS" and A: "A = abs_book B LS QS" using assms(1) unfolding holds_def by blast
  from cancel_ok [OF ok assms(2)] obtain LS' QS' s r where "book_ok B' LS' QS'" "same_outside B B'"
    "index_of (rs_order_id r) = index_of oid" "taken_out s r A (abs_book B' LS' QS')" unfolding A if_True by blast
  then show ?thesis unfolding holds_def by blast
qed

lemma cancel_nothing: "book_cancel oid B = (False, B') \<longleftrightarrow> B' = B \<and> ix_slot (sb_index B (index_of oid)) = None"
  by (auto simp: book_cancel_def Let_def split: option.split)

text \<open>
  C15: A cancellation takes one order out of the book and changes nothing else, and it sends no fill; without an
  order at the place of the identifier in the index it does nothing. The order taken out has that place in the
  index, which is all that is known of it.
\<close>
theorem cancel_takes_one_order:
  assumes "holds B A" and "book_cancel oid B = (found, B')"
  shows "if found then (\<exists>A' s r. holds B' A' \<and> taken_out s r A A' \<and> index_of (rs_order_id r) = index_of oid \<and>
      sb_sent B' = sb_sent B)
    else B' = B \<and> ix_slot (sb_index B (index_of oid)) = None"
proof (cases found)
  case True
  with cancel_spec [OF assms(1)] assms(2) show ?thesis by (force simp: same_outside_def)
next
  case False
  with assms(2) show ?thesis by (simp add: cancel_nothing)
qed

lemma cancel_takes_one_order_witness:
  "fst (book_cancel 9 (fresh_book sample_slots 3)) = False \<and>
   snd (book_cancel 9 (fresh_book sample_slots 3)) = fresh_book sample_slots 3"
  using cancel_takes_one_order [OF fresh_holds, of 9 sample_slots 3]
  by (cases "book_cancel 9 (fresh_book sample_slots 3)")
    (auto simp: book_cancel_def fresh_book_def book_new_def Let_def split: if_splits)

lemma fresh_add_indexed:
  assumes "0 < p" and "p < 10000" and "q \<noteq> 0"
    and "add_limit_order tsc a u s p q sq (fresh_book env m) = Some B"
  shows "ix_slot (sb_index B (index_of a)) \<noteq> None"
proof -
  let ?B = "(fresh_book env m)\<lparr>sb_sequence := sq\<rparr>"
  have h: "sb_head (fresh_book env m) t = None" for t by (simp add: fresh_book_def book_new_def)
  have "match_book tsc tk q ?B = Some (q, ?B)" for tk
    using assms(3) by (subst match_book.simps) (simp add: h)
  with assms have "rest_order a u s p q sq q ?B = Some B" by (auto simp: add_limit_order_def not_le split: if_splits)
  then show ?thesis
    by (auto simp: rest_order_def alloc_order_def find_or_create_level_def fresh_book_def book_new_def Let_def
        kMaxOrdersPerBook_def kMaxPriceLevels_def set_order_def set_level_def)
qed

lemma only_order_taken:
  assumes "taken_out s r A A'" and "book_sound A'" and "\<And>t. A t = (if t = s' then [(p, [r'])] else [])"
  shows "A' = (\<lambda>t. [])"
proof -
  have s: "s = s'" using assms(1,3) by (auto simp: taken_out_def split: if_splits)
  then have "by_priority (A' s) = []"
    using assms(1,3) by (auto simp: taken_out_def Cons_eq_append_conv)
  moreover have "\<forall>l \<in> set (A' s). snd l \<noteq> []" using assms(2) by (auto simp: book_sound_def)
  ultimately have "A' s = []" by (cases "A' s") (auto simp: by_priority_def)
  moreover have "A' t = []" if "t \<noteq> s" for t using assms(1,3) s that by (simp add: taken_out_def)
  ultimately show ?thesis by (metis (full_types))
qed

text \<open>
  C16: The index has no identifiers, only places: a cancellation of any order cancels the order of another user
  whose identifier hashes to the same of the 131072 places, and reports success. Here the only order of a book is
  lost to a cancellation of an identifier that was never sent to it.
\<close>
theorem cancel_reaches_another_order:
  assumes "index_of a = index_of b" and "0 < p" and "p < 10000" and "q \<noteq> 0"
  shows "\<exists>B B'. add_limit_order tsc a u s p q sq (fresh_book env m) = Some B \<and>
    holds B (\<lambda>t. if t = s then [(p, [new_resting a u sq q])] else []) \<and>
    book_cancel b B = (True, B') \<and> holds B' (\<lambda>t. [])"
proof -
  let ?A = "\<lambda>t. if t = s then [(p, [new_resting a u sq q])] else []"
  let ?o = "\<lparr>eom_order_id = OrderId a, eom_market_id = MarketId m, eom_user_id = UserId u, eom_side = s, eom_price = p,
    eom_quantity = q, eom_sequence = sq, eom_is_market = False\<rparr>"
  have "spec_order ?o (\<lambda>t. []) = ([], ?A)"
    using assms(2-4) by (auto simp: spec_order_def spec_limit_def unat_eq_zero not_le orders_in_def
        kMaxOrdersPerBook_def new_resting_def fun_eq_iff)
  with add_order_ok [OF fresh_holds [of env m], of tsc ?o] obtain B where
    B: "add_limit_order tsc a u s p q sq (fresh_book env m) = Some B" "holds B ?A" by (auto simp: add_order_def)
  obtain found B' where c: "book_cancel b B = (found, B')" by (cases "book_cancel b B")
  have "ix_slot (sb_index B (index_of b)) \<noteq> None" using fresh_add_indexed [OF assms(2-4) B(1)] assms(1) by simp
  with c have c': "book_cancel b B = (True, B')" using cancel_nothing [of b B B'] by (cases found) simp_all
  from cancel_spec [OF B(2) c'] obtain A' r t where A': "holds B' A'" "taken_out t r ?A A'" by blast
  then have "A' = (\<lambda>t. [])" using only_order_taken [OF A'(2) holds_sound [OF A'(1)]] by simp
  with A'(1) B c' show ?thesis by blast
qed

text \<open>Two identifiers that differ in the last byte only.\<close>

lemma sample_collision: "index_of 0 = index_of 1"
proof -
  have n: "(16 :: nat) = Suc (Suc (Suc (Suc (Suc (Suc (Suc (Suc (Suc (Suc (Suc (Suc (Suc (Suc (Suc (Suc 0)))))))))))))))" by simp
  have "be_octets 0 = [0, 0, 0, 0, 0, 0, 0, 0, 0, 0, 0, 0, 0, 0, 0, 0]" "be_octets 1 = [0, 0, 0, 0, 0, 0, 0, 0, 0, 0, 0, 0, 0, 0, 0, 1]"
    by (simp_all add: be_octets_def n)
  then show ?thesis by (simp add: index_of_def uuid_hash_def read_u64_le_def Let_def)
qed

lemma cancel_reaches_another_order_witness:
  "(0 :: uuid) \<noteq> 1 \<and> (\<exists>B B'. add_limit_order (\<lambda>n. 0) 0 4 Sell 5000 10 1 (fresh_book sample_slots 3) = Some B \<and>
     book_cancel 1 B = (True, B') \<and> holds B' (\<lambda>t. []))"
proof -
  from cancel_reaches_another_order [OF sample_collision, of 5000 10 "\<lambda>n. 0" 4 Sell 1 sample_slots 3] show ?thesis by auto
qed

section \<open>The engine\<close>

text \<open>
  C13: No message keeps the engine busy for ever: in every run from any log file the loops of the book end.
  The only fault is a market without a book in a full table.
\<close>
theorem engine_never_hangs:
  "run_engine env ms (engine_start disk) \<noteq> Inl Endless"
proof (induction ms rule: rev_induct)
  case (snoc d ms)
  show ?case
  proof (cases "run_engine env ms (engine_start disk)")
    case (Inl f)
    with snoc show ?thesis by (simp add: run_append)
  next
    case (Inr e)
    with dispatch_sound [OF run_books_ok [OF Inr], of env d] show ?thesis by (auto simp: run_append)
  qed
qed simp

text \<open>
  C11: An order message whose market has a book, or room for one, is written to the log, does to the abstract
  book of its market what the specification says and leaves every other book as it is; and the engine
  publishes the two messages of each fill, in the order of the deals.
\<close>
theorem message_reaches_its_book:
  assumes "run_engine env ms (engine_start disk) = Inr e" and "m = market_uuid (eom_market_id o')"
    and "book_get_or_create env m (en_books e) \<noteq> None" and "holds (book_for env (en_books e) m) A"
  shows "\<exists>e' ds A' B' fs. dispatch_engine env (encode_order_msg be_octets o') e = Inr e' \<and>
    spec_order o' A = (ds, A') \<and> holds B' A' \<and>
    books_look (en_books e') = (books_look (en_books e))(m \<mapsto> B') \<and>
    list_all2 (fill_matches (taker_of o') m) ds fs \<and>
    en_published e' = en_published e @ concat (map (on_fill (ee_config env)) fs) \<and>
    en_wal e' = wal_append WalAddOrder (encode_order_msg be_octets o') 71 (en_wal e)"
proof -
  have ok: "books_ok (en_books e)" using assms(1) by (rule run_books_ok)
  then have m: "sb_market_id (book_for env (en_books e) m) = m" using book_for_holds by blast
  from dispatch_add [OF ok message_decodes(1) assms(2,3) refl assms(4)] obtain e' B' ds A' where
    e': "dispatch_engine env (encode_order_msg be_octets o') e = Inr e'" "spec_order o' A = (ds, A')" "holds B' A'"
    "sent_ok (taker_of o') (book_for env (en_books e) m) B' ds"
    "books_look (en_books e') = (books_look (en_books e))(m \<mapsto> B')"
    "en_wal e' = wal_append WalAddOrder (encode_order_msg be_octets o') (of_nat (length (encode_order_msg be_octets o'))) (en_wal e)"
    "en_published e' = en_published e @ concat (map (on_fill (ee_config env))
       (drop (length (sb_sent (book_for env (en_books e) m))) (sb_sent B')))" by blast
  moreover have "list_all2 (fill_matches (taker_of o') m) ds
      (drop (length (sb_sent (book_for env (en_books e) m))) (sb_sent B'))"
    using e'(4) m by (auto simp: sent_ok_def)
  ultimately show ?thesis using message_decodes(2) [of o'] by (intro exI conjI) (assumption | simp)+
qed

lemma message_reaches_its_book_witness:
  "\<exists>e'. dispatch_engine sample_slots (encode_order_msg be_octets (sample_engine_order 7 Sell 5000 10)) (engine_start []) = Inr e' \<and>
     markets_of e' = {3} \<and> en_published e' = []"
proof -
  have "book_get_or_create sample_slots 3 (en_books (engine_start [])) \<noteq> None"
    using room_for [of no_books sample_slots 3] by (simp add: kBuckets_def)
  from message_reaches_its_book [OF _ _ this, of "[]" "[]" "sample_engine_order 7 Sell 5000 10" "\<lambda>s. []"]
  show ?thesis using fresh_holds [of sample_slots 3]
    by (auto simp: markets_of_def book_for_def spec_order_def spec_limit_def sample_engine_order_def engine_start_def orders_in_def
        kMaxOrdersPerBook_def split: prod.splits)
qed

text \<open>
  C17: The 257th market stops the engine: whatever was read from the disk, orders for more than 256 different
  markets end in a null book.
\<close>
theorem markets_run_out:
  assumes "distinct (map (\<lambda>o'. market_uuid (eom_market_id o')) os)" and "256 < length os"
  shows "run_engine env (map (encode_order_msg be_octets) os) (engine_start disk) = Inl NullBook"
proof -
  let ?m = "\<lambda>o'. market_uuid (eom_market_id o')" and ?enc = "encode_order_msg be_octets"
  have split: "os = take 256 os @ os ! 256 # drop 257 os" using assms(2) id_take_nth_drop [of 256 os] by simp
  have room: "card (markets_of (engine_start disk)) + length (take 256 os) = kBuckets"
    using assms(2) by (simp add: kBuckets_def markets_of_def)
  have "list_all2 (\<lambda>d o'. engine_decode of_be_octets d = Some (AddOrder o')) (map ?enc (take 256 os)) (take 256 os)"
    by (simp add: list_all2_conv_all_nth message_decodes)
  from new_markets [OF _ this, of "engine_start disk" env] room assms(1) obtain e where
    e: "run_engine env (map ?enc (take 256 os)) (engine_start disk) = Inr e"
    "markets_of e = set (map ?m (take 256 os))" "card (markets_of e) = kBuckets"
    by (auto simp: markets_of_def distinct_take simp flip: take_map)
  have "distinct (map ?m (take 256 os @ os ! 256 # drop 257 os))" using assms(1) split by simp
  then have "?m (os ! 256) \<notin> markets_of e" by (auto simp: e(2))
  with e(3) have "book_get_or_create env (?m (os ! 256)) (en_books e) = None"
    using room_for [of "en_books e" env "?m (os ! 256)"] run_books_ok [OF e(1)] by (simp add: markets_of_def books_ok_def)
  then have "dispatch_engine env (?enc (os ! 256)) e = Inl NullBook" by (rule dispatch_full [OF message_decodes(1)])
  then have "run_engine env (map ?enc (take 256 os @ os ! 256 # drop 257 os)) (engine_start disk) = Inl NullBook"
    unfolding map_append run_append e(1) by simp
  with split show ?thesis by simp
qed

lemma markets_run_out_witness:
  "run_engine sample_slots (map (encode_order_msg be_octets)
     (map (\<lambda>i. (sample_engine_order 7 Sell 5000 10)\<lparr>eom_market_id := MarketId (of_nat i)\<rparr>) [0..<300])) (engine_start []) = Inl NullBook"
proof (rule markets_run_out)
  have "inj_on (\<lambda>i. of_nat i :: uuid) {0..<300}" by (rule inj_onI) (simp add: of_nat_inverse word_of_nat_eq_iff take_bit_nat_eq_self)
  then show "distinct (map (\<lambda>o'. market_uuid (eom_market_id o'))
      (map (\<lambda>i. (sample_engine_order 7 Sell 5000 10)\<lparr>eom_market_id := MarketId (of_nat i)\<rparr>) [0..<300]))"
    by (simp add: distinct_map comp_def)
qed simp

text \<open>
  C18: The API counts prices in millionths, from 1000 to 9999999, the engine in ten-thousandths: a limit order
  at 10000 or more is logged, its 71 bytes appended to the log as they came, and then dropped: whatever it would
  have matched, no book changes (but that its own is created when it was not there) and nothing is published.
\<close>
theorem api_prices_are_dropped:
  assumes "run_engine env ms (engine_start disk) = Inr e" and "m = market_uuid (eom_market_id o')"
    and "book_get_or_create env m (en_books e) \<noteq> None" and "\<not> eom_is_market o'"
    and "eom_price o' = price_raw p" and "10000 \<le> price_raw p"
  shows "\<exists>e'. dispatch_engine env (encode_order_msg be_octets o') e = Inr e' \<and>
    en_wal e' = wal_append WalAddOrder (encode_order_msg be_octets o') 71 (en_wal e) \<and> en_published e' = en_published e \<and>
    books_look (en_books e') = (books_look (en_books e))(m \<mapsto> book_for env (en_books e) m)"
proof -
  have ok: "books_ok (en_books e)" using assms(1) by (rule run_books_ok)
  obtain A where A: "holds (book_for env (en_books e) m) A" using book_for_holds [OF ok] by blast
  have "add_order (ee_tsc env m) o' (book_for env (en_books e) m) = Some (book_for env (en_books e) m)"
    using assms(4-6) by (simp add: add_order_def add_limit_order_def)
  with dispatch_add [OF ok message_decodes(1) assms(2,3) refl A] show ?thesis by (auto simp: message_decodes(2))
qed

lemma api_prices_are_dropped_witness:
  "\<exists>e'. dispatch_engine sample_slots (encode_order_msg be_octets (sample_engine_order 7 Sell 500000 10)) (engine_start []) = Inr e' \<and>
     en_wal e' = wal_append WalAddOrder (encode_order_msg be_octets (sample_engine_order 7 Sell 500000 10)) 71
       (en_wal (engine_start [])) \<and>
     en_published e' = []"
proof -
  have "book_get_or_create sample_slots 3 (en_books (engine_start [])) \<noteq> None"
    using room_for [of no_books sample_slots 3] by (simp add: kBuckets_def)
  from api_prices_are_dropped [OF _ _ this, of "[]" "[]" "sample_engine_order 7 Sell 500000 10" "Price 500000"] show ?thesis
    by (auto simp: sample_engine_order_def engine_start_def split: prod.splits)
qed

section \<open>The log\<close>

text \<open>
  C14: The log is enough to rebuild the books. Of a run that began with an empty file, whatever number \<open>n\<close> of bytes
  reached the disk: the payloads recovered from them, handled by a new engine, give exactly the books of some
  earlier moment of the run, and those of its end when the file is whole. The new engine is given the clock
  readings and the uninitialised memory of the old one, both are in \<open>env\<close>. But \<open>main\<close> drops the recovered records:
  an engine started on that disk has no book at all.
\<close>
theorem log_rebuilds_books:
  assumes "run_engine env ds (engine_start []) = Inr e" and "\<forall>d \<in> set ds. length d < 2 ^ 32"
    and "disk = take n (wal_file (en_wal e))" and "ps = map wr_payload (fst (wal_recover (wal_open disk)))"
  shows "\<exists>j f g. run_engine env (take j ds) (engine_start []) = Inr f \<and> run_engine env ps (engine_start []) = Inr g \<and>
    en_books g = en_books f \<and> (disk = wal_file (en_wal e) \<longrightarrow> en_books g = en_books e) \<and>
    en_books (engine_start disk) = no_books"
proof -
  obtain es where es: "wal_holds (en_wal e) es" "log_follows env (map snd es) ds" "replays env (map snd es) (en_books e)"
    using run_logged [OF assms(1,2)] by blast
  let ?n = "min n (length (wal_file (en_wal e)))"
  have disk: "disk = take ?n (wal_file (en_wal e))" using assms(3) by (simp add: min_def)
  obtain k where k: "ps = take k (map snd es)" "length (wal_file (en_wal e)) \<le> ?n \<longrightarrow> length es \<le> k"
    using recovered_payloads [OF es(1), of ?n] unfolding assms(4) disk by blast
  obtain j bs where j: "replays env ps bs" "replays env (take j ds) bs" using es(2) unfolding log_follows_def k(1) by blast
  have "bs = en_books e" if "disk = wal_file (en_wal e)"
  proof -
    have "length (wal_file (en_wal e)) \<le> ?n" using that disk by (metis length_take min.cobounded2 min_def nat_le_linear)
    with k have "ps = map snd es" by simp
    with es(3) j(1) show ?thesis by (auto simp: replays_def)
  qed
  moreover obtain f g where "run_engine env (take j ds) (engine_start []) = Inr f" "en_books f = bs"
    "run_engine env ps (engine_start []) = Inr g" "en_books g = bs" using j unfolding replays_def by blast
  ultimately show ?thesis by (intro exI [of _ j] exI [of _ f] exI [of _ g]) simp
qed

lemma log_rebuilds_books_witness:
  "\<exists>e g. run_engine sample_slots [encode_order_msg be_octets (sample_engine_order 7 Sell 5000 10)] (engine_start []) = Inr e \<and>
     run_engine sample_slots (map wr_payload (fst (wal_recover (wal_open (wal_file (en_wal e)))))) (engine_start []) = Inr g \<and>
     en_books g = en_books e"
proof -
  obtain e B where e: "run_engine sample_slots [encode_order_msg be_octets (sample_engine_order 7 Sell 5000 10)] (engine_start []) = Inr e"
    using sample_run by blast
  from log_rebuilds_books [OF e _ _ refl, of "wal_file (en_wal e)" "length (wal_file (en_wal e))"] show ?thesis
    using e by (auto simp: message_decodes)
qed

text \<open>
  C19: A torn record is not cut off. When a crash leaves the frame of a record and a part of its payload, the
  engine appends behind it, and the next recovery returns, after the whole records, a record with the old frame
  whose payload is completed by bytes of the records written since.
\<close>
theorem torn_record_swallows_the_next:
  assumes "list_all whole rs" and "whole r" and "disk = log_bytes rs @ take (13 + c) (record_bytes r)"
    and "c < length (wr_payload r)" and "length (wr_payload r) \<le> c + length later"
  shows "fst (wal_recover (wal_open disk)) = rs \<and>
    (\<exists>later'. fst (wal_recover (wal_open (disk @ later))) =
      rs @ r\<lparr>wr_payload := take c (wr_payload r) @ take (length (wr_payload r) - c) later\<rparr> # read_records later')"
proof -
  let ?r = "r\<lparr>wr_payload := take c (wr_payload r) @ take (length (wr_payload r) - c) later\<rparr>"
  let ?rest = "drop (length (wr_payload r) - c) later"
  have "fst (wal_recover (wal_open disk)) = rs"
    using read_short [OF assms(2), of "13 + c"] assms(1,4)
    by (simp add: wal_recover_def wal_open_def Let_def assms(3) read_log record_bytes_def)
  moreover have "take (13 + c) (record_bytes r) @ later = record_bytes ?r @ ?rest"
    by (simp add: record_bytes_def take_Cons')
  moreover have "whole ?r" using assms(2,4,5) by (simp add: whole_def)
  ultimately show ?thesis
    using assms(1) by (auto simp: wal_recover_def wal_open_def Let_def assms(3) read_log read_whole intro!: exI [of _ ?rest])
qed

lemma torn_record_swallows_the_next_witness:
  "map wr_payload (fst (wal_recover (wal_open (take 15 (record_bytes \<lparr>wr_sequence = 1, wr_op_type = 1, wr_payload_len = 3,
     wr_payload = [5, 6, 7]\<rparr>) @ [8, 9])))) ! 0 = [5, 6, 8]"
  using torn_record_swallows_the_next [of "[]" "\<lparr>wr_sequence = 1, wr_op_type = 1, wr_payload_len = 3, wr_payload = [5, 6, 7]\<rparr>"
    _ 2 "[8, 9]", OF _ _ refl]
  by (auto simp: whole_def)

end
