(* ===== verification/Engine_Fills.thy ===== *)
theory Engine_Fills
  imports Engine_Claims Fill_Processor
begin

text \<open>
  From the engine to the money: what the fills of the order books can be, in any run, and what the fill processor of the
  API charges for them.
\<close>

section \<open>Deals\<close>

definition deal_sane :: "deal \<Rightarrow> bool" where
  "deal_sane d \<longleftrightarrow> (case d of (r, p, q) \<Rightarrow> 0 < p \<and> p < 10000 \<and> 0 < q)"

definition side_sane :: "book_side \<Rightarrow> bool" where
  "side_sane ls \<longleftrightarrow> (\<forall>(p, rs) \<in> set ls. 0 < p \<and> p < 10000 \<and> (\<forall>r \<in> set rs. 0 < rs_left r))"

lemma take_queue_sane:
  "take_queue p n rs = (ds, n', rs') \<Longrightarrow> \<forall>r \<in> set rs. 0 < rs_left r \<Longrightarrow> 0 < p \<Longrightarrow> p < 10000 \<Longrightarrow> \<forall>d \<in> set ds. deal_sane d"
  by (induction p n rs arbitrary: ds n' rs' rule: take_queue.induct) (auto simp: deal_sane_def split: if_splits prod.splits)

lemma take_side_sane: "take_side ok n ls = (ds, n', ls') \<Longrightarrow> side_sane ls \<Longrightarrow> \<forall>d \<in> set ds. deal_sane d"
proof (induction ok n ls arbitrary: ds n' ls' rule: take_side.induct)
  case (2 ok n p rs ls)
  obtain es m qs where q: "take_queue p n rs = (es, m, qs)" by (cases "take_queue p n rs")
  obtain fs k ms where t: "take_side ok m ls = (fs, k, ms)" by (cases "take_side ok m ls")
  have es: "\<forall>d \<in> set es. deal_sane d" using take_queue_sane [OF q] 2(3) by (simp add: side_sane_def)
  show ?case
  proof (cases "n = 0 \<or> \<not> ok p")
    case False
    have "qs = [] \<Longrightarrow> \<forall>d \<in> set fs. deal_sane d"
      using 2(1) [OF False q [symmetric] refl _ t] 2(3) by (simp add: side_sane_def)
    with es 2(2) False q t show ?thesis by (cases qs) auto
  qed (use 2(2) in auto)
qed simp

lemma sound_side: "book_sound A \<Longrightarrow> side_sane (A s)"
  by (fastforce simp: book_sound_def side_sane_def)

lemma spec_order_sane:
  assumes "book_sound A" and "spec_order o' A = (ds, A')"
  shows "\<forall>d \<in> set ds. deal_sane d"
proof -
  have t: "\<forall>d \<in> set es. deal_sane d" if "take_side ok n (A (opposite s)) = (es, n', ls')" for ok n es n' ls' s
    using take_side_sane [OF that] sound_side [OF assms(1)] by blast
  show ?thesis
    using assms(2) unfolding spec_order_def spec_market_def spec_limit_def
    by (auto simp: Let_def split: if_splits prod.splits dest!: t)
qed

section \<open>The fills of a run\<close>

definition fill_sane :: "engine_fill \<Rightarrow> bool" where
  "fill_sane f \<longleftrightarrow> 0 < ef_price f \<and> ef_price f < 10000 \<and> 0 < unat (ef_quantity f)"

definition fills_sane :: "book_table \<Rightarrow> bool" where
  "fills_sane es \<longleftrightarrow> (\<forall>m B. books_look es m = Some B \<longrightarrow> (\<forall>f \<in> set (sb_sent B). fill_sane f))"

lemma matched_sane:
  "list_all2 (fill_matches tk m) ds fs \<Longrightarrow> \<forall>d \<in> set ds. deal_sane d \<Longrightarrow> \<forall>f \<in> set fs. fill_sane f"
  by (induction rule: list_all2_induct) (auto simp: fill_matches_def deal_sane_def fill_sane_def)

lemma fills_sane_for: "fills_sane es \<Longrightarrow> \<forall>f \<in> set (sb_sent (book_for env es m)). fill_sane f"
  by (auto simp: fills_sane_def book_for_def fresh_book_def book_new_def split: option.splits)

lemma fills_sane_add:
  assumes "books_ok (en_books e)" and "fills_sane (en_books e)" and "engine_decode of_be_octets data = Some (AddOrder o')"
    and "dispatch_engine env data e = Inr e'"
  shows "fills_sane (en_books e')"
proof -
  let ?m = "market_uuid (eom_market_id o')" and ?B = "book_for env (en_books e) (market_uuid (eom_market_id o'))"
  have room: "book_get_or_create env ?m (en_books e) \<noteq> None" using assms(3,4) dispatch_full by fastforce
  obtain A where A: "holds ?B A" using book_for_holds [OF assms(1)] by blast
  from dispatch_add [OF assms(1,3) refl room refl A] assms(4) obtain B' ds A' where
    b: "spec_order o' A = (ds, A')" "sent_ok (taker_of o') ?B B' ds"
      "books_look (en_books e') = (books_look (en_books e))(?m \<mapsto> B')" by auto
  from b(2) obtain fs where "sb_sent B' = sb_sent ?B @ fs" "list_all2 (fill_matches (taker_of o') (sb_market_id ?B)) ds fs"
    by (auto simp: sent_ok_def)
  with matched_sane spec_order_sane [OF holds_sound [OF A] b(1)] fills_sane_for [OF assms(2)]
  have "\<forall>f \<in> set (sb_sent B'). fill_sane f" by fastforce
  with b(3) assms(2) show ?thesis by (simp add: fills_sane_def)
qed

lemma fills_sane_cancel:
  assumes "books_ok (en_books e)" and "fills_sane (en_books e)" and "engine_decode of_be_octets data = Some (CancelOrder c)"
    and "dispatch_engine env data e = Inr e'"
  shows "fills_sane (en_books e')"
proof -
  let ?m = "market_uuid (ecm_market_id c)"
  from dispatch_cancel [OF assms(1,3) refl, of env] assms(4) have
    l: "books_look (en_books e') = (case books_look (en_books e) ?m of None \<Rightarrow> books_look (en_books e)
      | Some B \<Rightarrow> (books_look (en_books e))(?m \<mapsto> snd (book_cancel (order_uuid (ecm_order_id c)) B)))" by auto
  show ?thesis
  proof (cases "books_look (en_books e) ?m")
    case None
    with l assms(2) show ?thesis by (simp add: fills_sane_def)
  next
    case (Some B)
    then obtain A where "holds B A" using assms(1) by (auto simp: books_ok_def)
    from cancel_holds [OF this, of "order_uuid (ecm_order_id c)"]
    have "sb_sent (snd (book_cancel (order_uuid (ecm_order_id c)) B)) = sb_sent B" by (auto simp: same_outside_def)
    with l assms(2) Some show ?thesis by (simp add: fills_sane_def)
  qed
qed

interpretation filling: kept_by_steps "message_step env" "\<lambda>e. books_ok (en_books e) \<and> fills_sane (en_books e)" for env
proof
  fix e e'
  assume ok: "books_ok (en_books e) \<and> fills_sane (en_books e)" and "message_step env e e'"
  then obtain data where d: "dispatch_engine env data e = Inr e'" by (auto simp: message_step_def)
  have "fills_sane (en_books e')"
  proof (cases "engine_decode of_be_octets data")
    case None
    with d ok show ?thesis by (simp add: dispatch_nothing)
  next
    case (Some c)
    with d ok fills_sane_add fills_sane_cancel show ?thesis by (cases c) blast+
  qed
  with dispatch_sound [of e env data] d ok show "books_ok (en_books e') \<and> fills_sane (en_books e')" by simp
qed

lemma run_fills_sane: "run_engine env ms (engine_start disk) = Inr e \<Longrightarrow> fills_sane (en_books e)"
  using filling.run_keeps [OF run_steps] by (simp add: fills_sane_def)

section \<open>What a fill costs\<close>

lemma nat_cost: "int p * int q < 2 ^ 63 \<longleftrightarrow> p * q < (2 :: nat) ^ 63" "int p * int q div 10000 = int (p * q div 10000)"
proof -
  show "int p * int q < 2 ^ 63 \<longleftrightarrow> p * q < (2 :: nat) ^ 63"
    by (metis of_nat_less_iff of_nat_mult of_nat_numeral of_nat_power)
qed (simp add: zdiv_int)

text \<open>
  C12: Every fill of every book in every run of the engine has a price between 1 and 9999 and a quantity, and what
  \<open>fill_cost\<close> of the API makes of it is exactly this. For a quantity below \<open>2 ^ 63\<close>: price times quantity over
  10000, rounded down, and nothing when the product reaches \<open>2 ^ 63\<close>; so always less than one per unit and nothing
  at all for a fill of a single unit. For a quantity from \<open>2 ^ 63\<close> on, which the engine takes as it takes any other
  but the API reads as a negative number: a cost that is not positive, the cost of the distance to \<open>2 ^ 64\<close> with a
  minus sign while that product is at most \<open>2 ^ 63\<close>, else nothing. It is never charged: the table of fills refuses
  every event with such a quantity, so that fill of the engine is never recorded.
\<close>
theorem engine_fill_cost:
  assumes "run_engine env ms (engine_start disk) = Inr e" and "books_look (en_books e) m = Some B" and "f \<in> set (sb_sent B)"
    and "p = unat (ef_price f)" and "q = unat (ef_quantity f)"
    and "c = sint (fill_cost (Price (ef_price f)) (Quantity (ef_quantity f)))"
  shows "0 < p \<and> p < 10000 \<and> 0 < q \<and>
    c = (if q < 2 ^ 63 then (if p * q < 2 ^ 63 then int (p * q div 10000) else 0)
         else if p * (2 ^ 64 - q) \<le> 2 ^ 63 then - int (p * (2 ^ 64 - q) div 10000) else 0) \<and>
    (q < 2 ^ 63 \<longrightarrow> 0 \<le> c) \<and> c < int q \<and> (q = 1 \<longrightarrow> c = 0) \<and>
    (2 ^ 63 \<le> q \<longrightarrow> c \<le> 0 \<and>
      (\<forall>ev now d. ev_quantity ev = ef_quantity f \<longrightarrow> (\<nexists>r. insert_fill_stmt (event_fill now ev) d = Inr r)))"
proof -
  have s: "0 < ef_price f" "ef_price f < 10000" "0 < q"
    using run_fills_sane [OF assms(1)] assms(2,3) by (auto simp: fills_sane_def fill_sane_def assms(5))
  have p: "0 < p" "p < 10000" using s(1,2) by (simp_all add: word_less_nat_alt assms(4))
  have "p * q < q * 10000" using p s(3) by simp
  then have l: "p * q div 10000 < q" by (rule less_mult_imp_div_less)
  show ?thesis
  proof (cases "q < 2 ^ 63")
    case True
    then have "sint (ef_quantity f) = int q" unfolding assms(5) by (rule sint_eq_unat)
    then have c: "c = (if p * q < 2 ^ 63 then int (p * q div 10000) else 0)"
      using fill_cost_value [of "Quantity (ef_quantity f)" "Price (ef_price f)"]
      by (simp only: assms(4) assms(6) nat_cost quantity.sel price.sel of_nat_0_le_iff)
    have "c < int q" unfolding c using l s(3) by (simp only: of_nat_less_iff of_nat_0_less_iff split: if_split) simp
    moreover have "q = 1 \<longrightarrow> c = 0" using c p by simp
    moreover have "0 \<le> c" unfolding c by simp
    ultimately show ?thesis using p s(3) True c by auto
  next
    case False
    have "int (2 ^ 64 - q) = 2 ^ 64 - int q" using unat_bound [of "ef_quantity f"] by (simp add: assms(5))
    then have d: "int p * (2 ^ 64 - int q) = int (p * (2 ^ 64 - q))" by simp
    from fill_cost_wrapped [of "Quantity (ef_quantity f)" "Price (ef_price f)"] False
    have "c = (if int (p * (2 ^ 64 - q)) \<le> 2 ^ 63 then - (int (p * (2 ^ 64 - q)) div 10000) else 0)"
      by (simp only: assms(6) d quantity.sel price.sel flip: assms(4,5)) simp
    moreover have "int n \<le> 2 ^ 63 \<longleftrightarrow> n \<le> (2 :: nat) ^ 63" "int n div 10000 = int (n div 10000)" for n
      by (metis of_nat_le_iff of_nat_numeral of_nat_power) (simp add: zdiv_int)
    ultimately have c: "c = (if p * (2 ^ 64 - q) \<le> 2 ^ 63 then - int (p * (2 ^ 64 - q) div 10000) else 0)"
      by (simp only:)
    then have "c \<le> 0" by simp
    moreover have "\<nexists>r. insert_fill_stmt (event_fill now ev) d = Inr r" if "ev_quantity ev = ef_quantity f" for ev now d
      using False that by (intro wrapped_refused) (simp add: assms(5))
    ultimately show ?thesis using p s(3) False c by auto
  qed
qed

lemma sample_fill_run:
  "\<exists>e B f. run_engine sample_slots [encode_order_msg be_octets (sample_engine_order 7 Sell 5000 10),
       encode_order_msg be_octets (sample_engine_order 8 Buy 6000 1)] (engine_start disk) = Inr e \<and>
     books_look (en_books e) 3 = Some B \<and> f \<in> set (sb_sent B) \<and> ef_price f = 5000 \<and> ef_quantity f = 1"
proof -
  let ?s = "sample_engine_order 7 Sell 5000 10" and ?b = "sample_engine_order 8 Buy 6000 1"
  let ?A = "\<lambda>s. case s of Buy \<Rightarrow> [] | Sell \<Rightarrow> [(5000, [\<lparr>rs_order_id = 7, rs_user_id = 4, rs_sequence = 1, rs_left = 10\<rparr>])]"
  have m: "3 = market_uuid (eom_market_id ?s)" "3 = market_uuid (eom_market_id ?b)" by (simp_all add: sample_engine_order_def)
  have g: "book_get_or_create sample_slots 3 (en_books (engine_start disk)) \<noteq> None"
    using room_for [of no_books sample_slots 3] by (simp add: kBuckets_def)
  have b: "fresh_book sample_slots 3 = book_for sample_slots (en_books (engine_start disk)) 3" by (simp add: book_for_def)
  have "spec_order ?s (\<lambda>s. []) = ([], ?A)"
    by (auto simp: spec_order_def spec_limit_def sample_engine_order_def orders_in_def kMaxOrdersPerBook_def fun_eq_iff
        split: side.split)
  with dispatch_add [OF _ message_decodes(1) m(1) g b fresh_holds] obtain e1 B1 where
    e1: "dispatch_engine sample_slots (encode_order_msg be_octets ?s) (engine_start disk) = Inr e1" "holds B1 ?A"
      "books_ok (en_books e1)" "books_look (en_books e1) = [3 \<mapsto> B1]" by auto
  have g1: "book_get_or_create sample_slots 3 (en_books e1) \<noteq> None"
    using room_for [of "en_books e1" sample_slots 3] e1(3,4) by (auto simp: books_ok_def)
  have b1: "B1 = book_for sample_slots (en_books e1) 3" using e1(4) by (simp add: book_for_def)
  have "fst (spec_order ?b ?A) = [(\<lparr>rs_order_id = 7, rs_user_id = 4, rs_sequence = 1, rs_left = 10\<rparr>, 5000, 1)]"
    by (simp add: spec_order_def spec_limit_def sample_engine_order_def crosses_def)
  with dispatch_add [OF e1(3) message_decodes(1) m(2) g1 b1 e1(2)] obtain e B where
    e: "dispatch_engine sample_slots (encode_order_msg be_octets ?b) e1 = Inr e" "books_look (en_books e) = [3 \<mapsto> B]"
      "sent_ok (taker_of ?b) B1 B [(\<lparr>rs_order_id = 7, rs_user_id = 4, rs_sequence = 1, rs_left = 10\<rparr>, 5000, 1)]"
    by (auto simp: e1(4))
  then obtain f where f: "sb_sent B = sb_sent B1 @ [f]" "fill_matches (taker_of ?b) (sb_market_id B1)
      (\<lparr>rs_order_id = 7, rs_user_id = 4, rs_sequence = 1, rs_left = 10\<rparr>, 5000, 1) f"
    unfolding sent_ok_def by (auto simp only: list_all2_Cons1 list_all2_Nil)
  then have "ef_price f = 5000" "ef_quantity f = 1" by (simp_all add: fill_matches_def word_unat_eq_iff)
  with f(1) e1(1) e(1,2) show ?thesis by auto
qed

lemma engine_fill_cost_witness:
  "\<exists>e B f. run_engine sample_slots [encode_order_msg be_octets (sample_engine_order 7 Sell 5000 10),
       encode_order_msg be_octets (sample_engine_order 8 Buy 6000 1)] (engine_start []) = Inr e \<and>
     books_look (en_books e) 3 = Some B \<and> f \<in> set (sb_sent B) \<and> ef_price f = 5000 \<and>
     sint (fill_cost (Price 5000) (Quantity 1)) = 0"
proof -
  obtain e B f where r: "run_engine sample_slots [encode_order_msg be_octets (sample_engine_order 7 Sell 5000 10),
       encode_order_msg be_octets (sample_engine_order 8 Buy 6000 1)] (engine_start []) = Inr e"
    "books_look (en_books e) 3 = Some B" "f \<in> set (sb_sent B)" and f: "ef_price f = 5000" "ef_quantity f = 1"
    using sample_fill_run by blast
  from engine_fill_cost [OF r refl refl refl] f r show ?thesis by auto
qed

end
