(* ===== verification/Spsc_Queue.thy ===== *)
theory Spsc_Queue
  imports Prelude
begin

unbundle bit_operations_syntax

text \<open>
  The ring buffer between two threads, \<open>SPSCQueue\<close> of \<open>engine/include/spsc_queue.hpp\<close>, for a capacity of \<open>2 ^ n\<close>.
  Each atomic keeps its modification order, the list of the values stored so far: a thread reads its own atomic
  exactly and the other's at any place not before the one it has seen, so an acquire load may be stale. Each load, store
  and access to the buffer is a step, and the steps of the two threads interleave freely. The buffer itself is read
  and written as shared memory; \<open>spsc_no_race\<close> shows that no slot is written while it is read, and what was
  written before a release is there for whoever has read the released value.
\<close>

section \<open>The queue\<close>

record 'a spsc =
  q_head :: "u64 list"
  q_tail :: "u64 list"
  q_buffer :: "nat \<Rightarrow> 'a"

definition spsc_new :: "(nat \<Rightarrow> 'a) \<Rightarrow> 'a spsc" where
  "spsc_new raw = \<lparr>q_head = [0], q_tail = [0], q_buffer = raw\<rparr>"

definition ring_mask :: "nat \<Rightarrow> u64" where
  "ring_mask n = 2 ^ n - 1"

text \<open>\<open>push\<close> and \<open>pop\<close> of a thread that is alone.\<close>

definition spsc_push :: "nat \<Rightarrow> 'a \<Rightarrow> 'a spsc \<Rightarrow> bool \<times> 'a spsc" where
  "spsc_push n item q =
     (let current_tail = last (q_tail q);
          next_tail = (current_tail + 1) AND ring_mask n
      in if next_tail = last (q_head q) then (False, q)
         else (True, q\<lparr>q_buffer := (q_buffer q)(unat current_tail := item), q_tail := q_tail q @ [next_tail]\<rparr>))"

definition spsc_pop :: "nat \<Rightarrow> 'a spsc \<Rightarrow> 'a option \<times> 'a spsc" where
  "spsc_pop n q =
     (let current_head = last (q_head q)
      in if current_head = last (q_tail q) then (None, q)
         else (Some (q_buffer q (unat current_head)), q\<lparr>q_head := q_head q @ [(current_head + 1) AND ring_mask n]\<rparr>))"

definition spsc_size :: "nat \<Rightarrow> 'a spsc \<Rightarrow> u64" where
  "spsc_size n q = (last (q_tail q) - last (q_head q)) AND ring_mask n"

definition spsc_empty :: "'a spsc \<Rightarrow> bool" where
  "spsc_empty q \<longleftrightarrow> last (q_head q) = last (q_tail q)"

section \<open>Two threads\<close>

text \<open>Where a thread is: before a call, after each of its loads, after the access to the buffer.\<close>

datatype 'a producer_at = PIdle | PTail 'a u64 | PFree 'a u64 | PWritten 'a u64
datatype 'a consumer_at = CIdle | CHead u64 | CReady u64 | CRead u64 'a

text \<open>The last two members are the history: the items of the calls of \<open>push\<close> that published, and of \<open>pop\<close>.\<close>

record 'a spsc_threads =
  st_queue :: "'a spsc"
  st_producer :: "'a producer_at"
  st_consumer :: "'a consumer_at"
  st_head_seen :: nat
  st_tail_seen :: nat
  st_pushed :: "'a list"
  st_popped :: "'a list"

definition spsc_start :: "(nat \<Rightarrow> 'a) \<Rightarrow> 'a spsc_threads" where
  "spsc_start raw =
     \<lparr>st_queue = spsc_new raw, st_producer = PIdle, st_consumer = CIdle, st_head_seen = 0, st_tail_seen = 0,
      st_pushed = [], st_popped = []\<rparr>"

inductive spsc_step :: "nat \<Rightarrow> 'a spsc_threads \<Rightarrow> 'a spsc_threads \<Rightarrow> bool" for n where
  push_begins: "st_producer s = PIdle \<Longrightarrow>
     spsc_step n s (s\<lparr>st_producer := PTail item (last (q_tail (st_queue s)))\<rparr>)"
| push_full: "st_producer s = PTail item t \<Longrightarrow> st_head_seen s \<le> k \<Longrightarrow> k < length (q_head (st_queue s)) \<Longrightarrow>
     (t + 1) AND ring_mask n = q_head (st_queue s) ! k \<Longrightarrow>
     spsc_step n s (s\<lparr>st_producer := PIdle, st_head_seen := k\<rparr>)"
| push_room: "st_producer s = PTail item t \<Longrightarrow> st_head_seen s \<le> k \<Longrightarrow> k < length (q_head (st_queue s)) \<Longrightarrow>
     (t + 1) AND ring_mask n \<noteq> q_head (st_queue s) ! k \<Longrightarrow>
     spsc_step n s (s\<lparr>st_producer := PFree item t, st_head_seen := k\<rparr>)"
| push_writes: "st_producer s = PFree item t \<Longrightarrow>
     spsc_step n s (s\<lparr>st_producer := PWritten item t,
       st_queue := (st_queue s)\<lparr>q_buffer := (q_buffer (st_queue s))(unat t := item)\<rparr>\<rparr>)"
| push_publishes: "st_producer s = PWritten item t \<Longrightarrow>
     spsc_step n s (s\<lparr>st_producer := PIdle,
       st_queue := (st_queue s)\<lparr>q_tail := q_tail (st_queue s) @ [(t + 1) AND ring_mask n]\<rparr>,
       st_pushed := st_pushed s @ [item]\<rparr>)"
| pop_begins: "st_consumer s = CIdle \<Longrightarrow>
     spsc_step n s (s\<lparr>st_consumer := CHead (last (q_head (st_queue s)))\<rparr>)"
| pop_empty: "st_consumer s = CHead h \<Longrightarrow> st_tail_seen s \<le> k \<Longrightarrow> k < length (q_tail (st_queue s)) \<Longrightarrow>
     h = q_tail (st_queue s) ! k \<Longrightarrow>
     spsc_step n s (s\<lparr>st_consumer := CIdle, st_tail_seen := k\<rparr>)"
| pop_ready: "st_consumer s = CHead h \<Longrightarrow> st_tail_seen s \<le> k \<Longrightarrow> k < length (q_tail (st_queue s)) \<Longrightarrow>
     h \<noteq> q_tail (st_queue s) ! k \<Longrightarrow>
     spsc_step n s (s\<lparr>st_consumer := CReady h, st_tail_seen := k\<rparr>)"
| pop_reads: "st_consumer s = CReady h \<Longrightarrow>
     spsc_step n s (s\<lparr>st_consumer := CRead h (q_buffer (st_queue s) (unat h))\<rparr>)"
| pop_releases: "st_consumer s = CRead h item \<Longrightarrow>
     spsc_step n s (s\<lparr>st_consumer := CIdle,
       st_queue := (st_queue s)\<lparr>q_head := q_head (st_queue s) @ [(h + 1) AND ring_mask n]\<rparr>,
       st_popped := st_popped s @ [item]\<rparr>)"

section \<open>Places in the ring\<close>

text \<open>The value of an atomic after \<open>k\<close> stores.\<close>

definition place :: "nat \<Rightarrow> nat \<Rightarrow> u64" where
  "place n k = of_nat (k mod 2 ^ n)"

lemma unat_place:
  assumes "n < 64"
  shows "unat (place n k) = k mod 2 ^ n"
proof -
  have "k mod 2 ^ n < 2 ^ n" by simp
  also have "(2 :: nat) ^ n < 2 ^ 64" using assms by (intro power_strict_increasing) auto
  finally show ?thesis by (simp add: place_def unat_of_nat)
qed

lemma place_eq: "n < 64 \<Longrightarrow> place n j = place n k \<longleftrightarrow> j mod 2 ^ n = k mod 2 ^ n"
  by (metis unat_place place_def)

lemma place_next:
  assumes "n < 64"
  shows "(place n k + 1) AND ring_mask n = place n (Suc k)"
proof -
  have m: "ring_mask n = mask n" by (simp add: ring_mask_def mask_eq_exp_minus_1)
  have "place n k + 1 = of_nat (Suc (k mod 2 ^ n))" by (simp add: place_def add.commute)
  then have "(place n k + 1) AND ring_mask n = take_bit n (of_nat (Suc (k mod 2 ^ n)))"
    by (simp only: m take_bit_eq_mask)
  also have "\<dots> = of_nat (take_bit n (Suc (k mod 2 ^ n)))" by (rule take_bit_of_nat)
  also have "\<dots> = place n (Suc k)" by (simp add: place_def take_bit_eq_mod mod_Suc_eq)
  finally show ?thesis .
qed

lemma ring_apart:
  fixes j k m :: nat
  assumes "j \<le> k" and "k < j + m" and "j mod m = k mod m"
  shows "j = k"
proof -
  obtain d where k: "k = j + d" using assms(1) by (metis le_iff_add)
  then have "d mod m = 0" using assms(3) by (metis mod_add_right_eq add.right_neutral mod_0 mod_eq_0_iff_dvd
      mod_add_left_eq add_diff_cancel_left' mod_eq_dvd_iff_nat le_add1)
  moreover have "d < m" using assms(2) k by simp
  ultimately show ?thesis using k by simp
qed

section \<open>The invariant\<close>

text \<open>What a thread knows at its place, after \<open>p\<close> pushes and \<open>c\<close> pops, of which it has seen \<open>h\<close> pops or \<open>t\<close> pushes.\<close>

fun producer_ok :: "nat \<Rightarrow> nat \<Rightarrow> nat \<Rightarrow> (nat \<Rightarrow> 'a) \<Rightarrow> 'a producer_at \<Rightarrow> bool" where
  "producer_ok n p h buf PIdle \<longleftrightarrow> True"
| "producer_ok n p h buf (PTail i x) \<longleftrightarrow> x = place n p"
| "producer_ok n p h buf (PFree i x) \<longleftrightarrow> x = place n p \<and> Suc p < h + 2 ^ n"
| "producer_ok n p h buf (PWritten i x) \<longleftrightarrow> x = place n p \<and> Suc p < h + 2 ^ n \<and> buf (p mod 2 ^ n) = i"

fun consumer_ok :: "nat \<Rightarrow> nat \<Rightarrow> nat \<Rightarrow> 'a list \<Rightarrow> 'a consumer_at \<Rightarrow> bool" where
  "consumer_ok n c t pushed CIdle \<longleftrightarrow> True"
| "consumer_ok n c t pushed (CHead x) \<longleftrightarrow> x = place n c"
| "consumer_ok n c t pushed (CReady x) \<longleftrightarrow> x = place n c \<and> c < t"
| "consumer_ok n c t pushed (CRead x i) \<longleftrightarrow> x = place n c \<and> c < t \<and> i = pushed ! c"

definition ring_ok :: "nat \<Rightarrow> 'a spsc_threads \<Rightarrow> bool" where
  "ring_ok n s \<longleftrightarrow>
     (let p = length (st_pushed s); c = length (st_popped s); q = st_queue s in
        q_tail q = map (place n) [0..<Suc p] \<and> q_head q = map (place n) [0..<Suc c] \<and>
        st_head_seen s \<le> c \<and> c \<le> st_tail_seen s \<and> st_tail_seen s \<le> p \<and> p < st_head_seen s + 2 ^ n \<and>
        st_popped s = take c (st_pushed s) \<and>
        (\<forall>k. c \<le> k \<and> k < p \<longrightarrow> q_buffer q (k mod 2 ^ n) = st_pushed s ! k) \<and>
        producer_ok n p (st_head_seen s) (q_buffer q) (st_producer s) \<and>
        consumer_ok n c (st_tail_seen s) (st_pushed s) (st_consumer s))"

lemma consumer_ok_push: "consumer_ok n c t xs w \<Longrightarrow> t \<le> length xs \<Longrightarrow> consumer_ok n c t (xs @ [x]) w"
  by (cases w) (auto simp: nth_append)

lemma ring_ok_start: "ring_ok n (spsc_start raw)"
  by (simp add: ring_ok_def spsc_start_def spsc_new_def place_def)

lemma ring_ok_D:
  assumes "ring_ok n s"
  shows "q_tail (st_queue s) = map (place n) [0..<Suc (length (st_pushed s))]"
    and "q_head (st_queue s) = map (place n) [0..<Suc (length (st_popped s))]"
    and "st_head_seen s \<le> length (st_popped s)" and "length (st_popped s) \<le> st_tail_seen s"
    and "st_tail_seen s \<le> length (st_pushed s)" and "length (st_pushed s) < st_head_seen s + 2 ^ n"
    and "st_popped s = take (length (st_popped s)) (st_pushed s)"
    and "\<And>k. length (st_popped s) \<le> k \<Longrightarrow> k < length (st_pushed s) \<Longrightarrow> q_buffer (st_queue s) (k mod 2 ^ n) = st_pushed s ! k"
  using assms by (simp_all add: ring_ok_def Let_def)

lemma last_place [simp]: "last (map (place n) [0..<Suc k]) = place n k"
  by simp

text \<open>A load of the other index that is not the wanted value finds room, or an item.\<close>

lemma room_seen:
  assumes "n < 64" and "ring_ok n s" and "st_head_seen s \<le> k" and "k < length (q_head (st_queue s))"
    and "place n (Suc (length (st_pushed s))) \<noteq> q_head (st_queue s) ! k"
  shows "k \<le> length (st_popped s) \<and> Suc (length (st_pushed s)) < k + 2 ^ n"
proof -
  note D = ring_ok_D [OF assms(2)]
  have k: "k \<le> length (st_popped s)" "q_head (st_queue s) ! k = place n k"
    using assms(4) unfolding D(2) by (simp_all del: upt_Suc)
  have "Suc (length (st_pushed s)) \<noteq> k + 2 ^ n" using assms(5) k(2) by (auto simp: place_eq [OF assms(1)])
  moreover have "length (st_pushed s) < k + 2 ^ n" using D(6) assms(3) by simp
  ultimately show ?thesis using k(1) by simp
qed

lemma item_seen:
  assumes "ring_ok n s" and "st_tail_seen s \<le> k" and "k < length (q_tail (st_queue s))"
    and "place n (length (st_popped s)) \<noteq> q_tail (st_queue s) ! k"
  shows "k \<le> length (st_pushed s) \<and> length (st_popped s) < k"
proof -
  note D = ring_ok_D [OF assms(1)]
  have k: "k \<le> length (st_pushed s)" "q_tail (st_queue s) ! k = place n k"
    using assms(3) unfolding D(1) by (simp_all del: upt_Suc)
  moreover have "length (st_popped s) \<noteq> k" using assms(4) k(2) by auto
  ultimately show ?thesis using D(4) assms(2) by simp
qed

text \<open>The slot of the next item is none of those in use.\<close>

lemma next_slot_free:
  assumes "ring_ok n s" and "Suc (length (st_pushed s)) < st_head_seen s + 2 ^ n"
    and "length (st_popped s) \<le> k" and "k < length (st_pushed s)"
  shows "k mod 2 ^ n \<noteq> length (st_pushed s) mod 2 ^ n"
  using ring_apart [of k "length (st_pushed s)" "2 ^ n"] ring_ok_D(3) [OF assms(1)] assms(2-4) by auto

lemma ring_ok_step:
  assumes "spsc_step n s s'" and "n < 64" and "ring_ok n s"
  shows "ring_ok n s'"
  using assms(1)
proof cases
  case (push_begins item)
  with assms(3) ring_ok_D(1) [OF assms(3)] show ?thesis by (simp add: ring_ok_def Let_def del: upt_Suc)
next
  case (push_full item t k)
  have "k \<le> length (st_popped s)" using push_full ring_ok_D(2) [OF assms(3)] by (simp del: upt_Suc)
  with push_full assms(3) show ?thesis by (simp add: ring_ok_def Let_def del: upt_Suc)
next
  case (push_room item t k)
  then have t: "t = place n (length (st_pushed s))" using assms(3) by (simp add: ring_ok_def Let_def)
  from room_seen [OF assms(2,3) push_room(3,4)] push_room(5) place_next [OF assms(2)] t
  have "k \<le> length (st_popped s) \<and> Suc (length (st_pushed s)) < k + 2 ^ n" by simp
  with push_room t assms(3) show ?thesis by (simp add: ring_ok_def Let_def del: upt_Suc)
next
  case (push_writes item t)
  then have t: "t = place n (length (st_pushed s))" "Suc (length (st_pushed s)) < st_head_seen s + 2 ^ n"
    using assms(3) by (simp_all add: ring_ok_def Let_def)
  from next_slot_free [OF assms(3) t(2)] push_writes t assms(3) show ?thesis
    by (simp add: ring_ok_def Let_def unat_place [OF assms(2)] del: upt_Suc)
next
  case (push_publishes item t)
  then have t: "t = place n (length (st_pushed s))" "Suc (length (st_pushed s)) < st_head_seen s + 2 ^ n"
    "q_buffer (st_queue s) (length (st_pushed s) mod 2 ^ n) = item"
    using assms(3) by (simp_all add: ring_ok_def Let_def)
  moreover have "length (st_popped s) \<le> length (st_pushed s)" using ring_ok_D(4,5) [OF assms(3)] by simp
  moreover have "[0..<Suc (Suc (length (st_pushed s)))] = [0..<Suc (length (st_pushed s))] @ [Suc (length (st_pushed s))]" by simp
  ultimately show ?thesis
    using push_publishes assms(3) consumer_ok_push [of n _ "st_tail_seen s" "st_pushed s" "st_consumer s" item]
    by (auto simp: ring_ok_def Let_def place_next [OF assms(2)] nth_append less_Suc_eq simp del: upt_Suc)
next
  case pop_begins
  with assms(3) ring_ok_D(2) [OF assms(3)] show ?thesis by (simp add: ring_ok_def Let_def del: upt_Suc)
next
  case (pop_empty h k)
  have "k \<le> length (st_pushed s)" using pop_empty ring_ok_D(1) [OF assms(3)] by (simp del: upt_Suc)
  with pop_empty assms(3) show ?thesis by (simp add: ring_ok_def Let_def del: upt_Suc)
next
  case (pop_ready h k)
  then have h: "h = place n (length (st_popped s))" using assms(3) by (simp add: ring_ok_def Let_def)
  from item_seen [OF assms(3) pop_ready(3,4)] pop_ready(5) h
  have "k \<le> length (st_pushed s) \<and> length (st_popped s) < k" by simp
  with pop_ready h assms(3) show ?thesis by (simp add: ring_ok_def Let_def del: upt_Suc)
next
  case (pop_reads h)
  then have h: "h = place n (length (st_popped s))" "length (st_popped s) < st_tail_seen s"
    using assms(3) by (simp_all add: ring_ok_def Let_def)
  then have "q_buffer (st_queue s) (length (st_popped s) mod 2 ^ n) = st_pushed s ! length (st_popped s)"
    using ring_ok_D(5,8) [OF assms(3)] by simp
  with pop_reads h assms(3) show ?thesis by (simp add: ring_ok_def Let_def unat_place [OF assms(2)] del: upt_Suc)
next
  case (pop_releases h item)
  then have h: "h = place n (length (st_popped s))" "length (st_popped s) < st_tail_seen s"
    "item = st_pushed s ! length (st_popped s)"
    using assms(3) by (simp_all add: ring_ok_def Let_def)
  moreover have "[0..<Suc (Suc (length (st_popped s)))] = [0..<Suc (length (st_popped s))] @ [Suc (length (st_popped s))]" by simp
  moreover have "st_popped s @ [item] = take (Suc (length (st_popped s))) (st_pushed s)"
    using h(2,3) ring_ok_D(5,7) [OF assms(3)] by (metis less_le_trans take_Suc_conv_app_nth)
  ultimately show ?thesis
    using pop_releases assms(3) by (simp add: ring_ok_def Let_def place_next [OF assms(2)] del: upt_Suc)
qed


section \<open>A bounded queue\<close>

text \<open>What the two threads implement: items go in at one end, if fewer than \<open>m\<close> are waiting, and come out at the other.\<close>

inductive fifo_step :: "nat \<Rightarrow> 'a list \<Rightarrow> 'a list \<Rightarrow> bool" for m where
  fifo_in: "length xs < m \<Longrightarrow> fifo_step m xs (xs @ [x])"
| fifo_out: "fifo_step m (x # xs) xs"

definition waiting :: "'a spsc_threads \<Rightarrow> 'a list" where
  "waiting s = drop (length (st_popped s)) (st_pushed s)"

lemma waiting_step:
  assumes "spsc_step n s s'" and "n < 64" and ok: "ring_ok n s"
  shows "waiting s' = waiting s \<or> fifo_step (2 ^ n - 1) (waiting s) (waiting s')"
  using assms(1)
proof cases
  case (push_publishes item t)
  then have "Suc (length (st_pushed s)) < st_head_seen s + 2 ^ n" using ok by (simp add: ring_ok_def Let_def)
  then have "length (waiting s) < 2 ^ n - 1" using ring_ok_D(3-5) [OF ok] unfolding waiting_def length_drop by linarith
  moreover have "waiting s' = waiting s @ [item]"
    using push_publishes ring_ok_D(4,5) [OF ok] by (simp add: waiting_def)
  ultimately show ?thesis using fifo_in by metis
next
  case (pop_releases h item)
  then have "item = st_pushed s ! length (st_popped s)" "length (st_popped s) < length (st_pushed s)"
    using ok by (auto simp: ring_ok_def Let_def)
  then have "waiting s = item # waiting s'" using pop_releases by (simp add: waiting_def Cons_nth_drop_Suc)
  then show ?thesis by (simp add: fifo_out)
qed (simp_all add: waiting_def)

interpretation ring: step_simulation "\<lambda>s s'. n < 64 \<and> spsc_step n s s'" "ring_ok n" "fifo_step (2 ^ n - 1)" waiting for n
proof
  show "ring_ok n s'" if "ring_ok n s" "n < 64 \<and> spsc_step n s s'" for s s'
    using ring_ok_step that by blast
  show "(fifo_step (2 ^ n - 1))\<^sup>*\<^sup>* (waiting s) (waiting s')" if "ring_ok n s" "n < 64 \<and> spsc_step n s s'" for s s'
    using waiting_step that by (metis r_into_rtranclp rtranclp.rtrancl_refl)
qed

lemma spsc_run:
  assumes "(spsc_step n)\<^sup>*\<^sup>* (spsc_start raw) s" and "n < 64"
  shows "ring_ok n s" and "(fifo_step (2 ^ n - 1))\<^sup>*\<^sup>* [] (waiting s)"
proof -
  have "(\<lambda>s s'. n < 64 \<and> spsc_step n s s')\<^sup>*\<^sup>* (spsc_start raw) s" using assms by simp
  note run = this ring_ok_start
  show "ring_ok n s" using run by (rule ring.run_keeps)
  have "(fifo_step (2 ^ n - 1))\<^sup>*\<^sup>* (waiting (spsc_start raw)) (waiting s)" using run by (rule ring.run_simulates)
  then show "(fifo_step (2 ^ n - 1))\<^sup>*\<^sup>* [] (waiting s)" by (simp add: waiting_def spsc_start_def)
qed

section \<open>One thread\<close>

text \<open>A thread alone runs through its steps, so all of the above holds of \<open>spsc_push\<close> and \<open>spsc_pop\<close> too.\<close>

lemma push_alone:
  assumes "st_producer s = PIdle" and "spsc_push n item (st_queue s) = (True, q)" and "st_head_seen s < length (q_head (st_queue s))"
  shows "(spsc_step n)\<^sup>*\<^sup>* s (s\<lparr>st_queue := q, st_head_seen := length (q_head (st_queue s)) - 1, st_pushed := st_pushed s @ [item]\<rparr>)"
proof -
  let ?t = "last (q_tail (st_queue s))" and ?k = "length (q_head (st_queue s)) - 1"
  have k: "last (q_head (st_queue s)) = q_head (st_queue s) ! ?k"
    using assms(3) by (metis last_conv_nth less_nat_zero_code list.size(3))
  have r: "(?t + 1) AND ring_mask n \<noteq> q_head (st_queue s) ! ?k"
    and q: "q = (st_queue s)\<lparr>q_buffer := (q_buffer (st_queue s))(unat ?t := item),
      q_tail := q_tail (st_queue s) @ [(?t + 1) AND ring_mask n]\<rparr>"
    using assms(2) unfolding k [symmetric] by (auto simp: spsc_push_def Let_def split: if_splits)
  let ?s1 = "s\<lparr>st_producer := PTail item ?t\<rparr>" let ?s2 = "?s1\<lparr>st_producer := PFree item ?t, st_head_seen := ?k\<rparr>"
  let ?s3 = "?s2\<lparr>st_producer := PWritten item ?t,
    st_queue := (st_queue ?s2)\<lparr>q_buffer := (q_buffer (st_queue ?s2))(unat ?t := item)\<rparr>\<rparr>"
  let ?s4 = "?s3\<lparr>st_producer := PIdle,
      st_queue := (st_queue ?s3)\<lparr>q_tail := q_tail (st_queue ?s3) @ [(?t + 1) AND ring_mask n]\<rparr>,
      st_pushed := st_pushed ?s3 @ [item]\<rparr>"
  have "spsc_step n s ?s1" using assms(1) by (rule push_begins)
  moreover have "spsc_step n ?s1 ?s2" by (rule push_room) (use r assms(3) in auto)
  moreover have "spsc_step n ?s2 ?s3" by (rule push_writes) simp
  moreover have "spsc_step n ?s3 ?s4" by (rule push_publishes) simp
  ultimately have "(spsc_step n)\<^sup>*\<^sup>* s ?s4" by (meson converse_rtranclp_into_rtranclp rtranclp.rtrancl_refl)
  moreover have "?s4 = s\<lparr>st_queue := q, st_head_seen := ?k, st_pushed := st_pushed s @ [item]\<rparr>"
    by (rule spsc_threads.equality) (simp_all add: assms(1) q)
  ultimately show ?thesis by (simp only:)
qed

fun push_all :: "nat \<Rightarrow> 'a list \<Rightarrow> 'a spsc \<Rightarrow> bool list \<times> 'a spsc" where
  "push_all n [] q = ([], q)"
| "push_all n (x # xs) q = (case spsc_push n x q of (b, q1) \<Rightarrow> case push_all n xs q1 of (bs, q2) \<Rightarrow> (b # bs, q2))"

lemma push_all_append:
  "push_all n (xs @ ys) q = (case push_all n xs q of (bs, q1) \<Rightarrow> case push_all n ys q1 of (cs, q2) \<Rightarrow> (bs @ cs, q2))"
  by (induction xs arbitrary: q) (auto split: prod.split)

text \<open>Without a consumer the queue takes one item less than its capacity.\<close>

lemma push_all_room:
  assumes "n < 64" and "length xs < 2 ^ n"
  shows "\<exists>q. push_all n xs (spsc_new raw) = (replicate (length xs) True, q) \<and> q_head q = [0] \<and>
    last (q_tail q) = place n (length xs)"
  using assms(2)
proof (induction xs rule: rev_induct)
  case Nil
  then show ?case by (simp add: spsc_new_def place_def)
next
  case (snoc x xs)
  then obtain q where q: "push_all n xs (spsc_new raw) = (replicate (length xs) True, q)" "q_head q = [0]"
    "last (q_tail q) = place n (length xs)" by auto
  have "place n (Suc (length xs)) \<noteq> place n 0" using snoc.prems by (simp add: place_eq [OF assms(1)])
  then show ?case
    using q place_next [OF assms(1), of "length xs"]
    by (auto simp: push_all_append spsc_push_def Let_def replicate_append_same place_def simp flip: replicate_Suc)
qed

lemma push_all_full:
  assumes "n < 64" and "length xs = 2 ^ n"
  shows "fst (push_all n xs (spsc_new raw)) = replicate (2 ^ n - 1) True @ [False]"
proof -
  obtain ys y where xs: "xs = ys @ [y]" using assms(2) by (metis append_butlast_last_id length_0_conv power_not_zero zero_neq_numeral)
  then have l: "Suc (length ys) = 2 ^ n" using assms(2) by simp
  then obtain q where q: "push_all n ys (spsc_new raw) = (replicate (length ys) True, q)" "q_head q = [0]"
    "last (q_tail q) = place n (length ys)" using push_all_room [OF assms(1), of ys raw] by auto
  have "place n (Suc (length ys)) = 0" unfolding l by (simp add: place_def)
  with q place_next [OF assms(1), of "length ys"] l show ?thesis
    by (auto simp: xs push_all_append spsc_push_def Let_def)
qed

section \<open>Properties\<close>

text \<open>
  C20: Whatever way the loads, stores and buffer accesses of one producer and one consumer interleave, and
  however stale the index is that each reads of the other: what was popped is a prefix of what was pushed, in
  order, nothing lost or doubled; at most one item less than the capacity is waiting; the waiting items have gone
  through a bounded queue; and the producer never writes the slot the consumer is about to read.
\<close>
theorem spsc_is_a_queue:
  assumes "(spsc_step n)\<^sup>*\<^sup>* (spsc_start raw) s" and "n < 64"
  shows "st_pushed s = st_popped s @ waiting s \<and> length (waiting s) \<le> 2 ^ n - 1 \<and>
    (fifo_step (2 ^ n - 1))\<^sup>*\<^sup>* [] (waiting s) \<and>
    \<not> (\<exists>item t h. st_producer s = PFree item t \<and> st_consumer s = CReady h \<and> t = h) \<and>
    (\<forall>xs. length xs = 2 ^ n \<longrightarrow> fst (push_all n xs (spsc_new raw)) = replicate (2 ^ n - 1) True @ [False])"
proof (intro conjI)
  have ok: "ring_ok n s" using assms by (rule spsc_run)
  note D = ring_ok_D [OF ok]
  show "st_pushed s = st_popped s @ waiting s" using D(7) by (metis append_take_drop_id waiting_def)
  show "length (waiting s) \<le> 2 ^ n - 1" using D(3,6) by (simp add: waiting_def)
  show "(fifo_step (2 ^ n - 1))\<^sup>*\<^sup>* [] (waiting s)" using assms by (rule spsc_run)
  show "\<not> (\<exists>item t h. st_producer s = PFree item t \<and> st_consumer s = CReady h \<and> t = h)"
  proof
    assume "\<exists>item t h. st_producer s = PFree item t \<and> st_consumer s = CReady h \<and> t = h"
    then obtain item h where at: "st_producer s = PFree item h" "st_consumer s = CReady h" by blast
    have "producer_ok n (length (st_pushed s)) (st_head_seen s) (q_buffer (st_queue s)) (st_producer s)"
      "consumer_ok n (length (st_popped s)) (st_tail_seen s) (st_pushed s) (st_consumer s)"
      using ok unfolding ring_ok_def Let_def by blast+
    with at have "place n (length (st_popped s)) = place n (length (st_pushed s))"
      "Suc (length (st_pushed s)) < st_head_seen s + 2 ^ n" "length (st_popped s) < st_tail_seen s" by simp_all
    then show False
      using next_slot_free [OF ok, of "length (st_popped s)"] D(5) by (simp add: place_eq [OF assms(2)])
  qed
  show "\<forall>xs. length xs = 2 ^ n \<longrightarrow> fst (push_all n xs (spsc_new raw)) = replicate (2 ^ n - 1) True @ [False]"
    using push_all_full [OF assms(2)] by blast
qed

lemma spsc_is_a_queue_witness:
  "\<exists>s. (spsc_step 2)\<^sup>*\<^sup>* (spsc_start (\<lambda>i. 0 :: u8)) s \<and> st_pushed s = [5] \<and> waiting s = [5] \<and>
     (fifo_step 3)\<^sup>*\<^sup>* [] (waiting s) \<and> fst (push_all 2 [1, 2, 3, 4] (spsc_new (\<lambda>i. 0 :: u8))) = [True, True, True, False]"
proof -
  let ?s = "spsc_start (\<lambda>i. 0 :: u8)"
  have "fst (spsc_push 2 5 (st_queue ?s)) = True"
    by (simp add: spsc_push_def spsc_start_def spsc_new_def ring_mask_def)
  then obtain q where q: "spsc_push 2 5 (st_queue ?s) = (True, q)" by (cases "spsc_push 2 5 (st_queue ?s)") auto
  have run: "(spsc_step 2)\<^sup>*\<^sup>* ?s (?s\<lparr>st_queue := q, st_head_seen := 0, st_pushed := [5]\<rparr>)"
    using push_alone [OF _ q] by (simp add: spsc_start_def spsc_new_def)
  have three: "replicate 3 True @ [False] = [True, True, True, False]" by (simp add: numeral_eq_Suc)
  have "fst (push_all 2 [1, 2, 3, 4] (spsc_new (\<lambda>i. 0 :: u8))) = [True, True, True, False]"
    using spsc_is_a_queue [OF run] three by (simp del: push_all.simps)
  with spsc_is_a_queue [OF run] run show ?thesis
    by (intro exI [of _ "?s\<lparr>st_queue := q, st_head_seen := 0, st_pushed := [5]\<rparr>"])
      (simp add: spsc_start_def waiting_def del: push_all.simps)
qed

end
