(* ===== verification/Spec2Isabelle.thy ===== *)
theory Spec2Isabelle
  imports Fill_Queue Account_Flows Execution Pnl_Tracker Position_Monitor Chain_Provider Eip712 Trading_Engine
    Audit_Log Service_Config Regime Arbitrage Onnx_Predictor Service_Runs Account_Book Stored_Orders
    Depth_Socket Web_App Exchange_Types Engine_Fills Spsc_Queue
begin

text \<open>
  A model of W16CryptoEngine, the Rust services (\<open>W16CryptoEngine/api/crates\<close>) and the C++ matching
  engine (\<open>W16CryptoEngine/engine\<close>) of a prediction-market exchange: users deposit and withdraw
  money and place orders through an HTTP API; orders go to an exchange or, as binary messages, to a matching
  engine; its fills come back over a subscription and move money and positions in PostgreSQL; a market is
  settled by paying the holders of positions.

  \<^bold>\<open>How the state is modelled.\<close> The database is the record \<open>db\<close> (\<open>Db_State\<close>), one list of rows per table of
  \<open>api/migrations\<close>; a statement or transaction is a function \<open>'a stmt\<close> that returns an answer and the new
  tables, or an error and the old ones (\<open>Sql_Tables\<close>). A Rust \<open>async fn\<close> on the database is an \<open>'a io\<close>: a
  function of the world, the tables together with the fate of each coming request (\<open>Reached\<close>, \<open>Lost\<close> before the
  server, or \<open>Unacknowledged\<close>, executed but not answered), to a result or an \<open>app_error\<close> and the world after.
  \<open>online d\<close> is the world whose link never fails. What other requests do meanwhile is \<open>db_step\<close>
  (\<open>Db_Ledger\<close>), one rule for each statement the code issues, and every database method is shown to be a run
  of it. Random identifiers and the time are arguments. Strings are lists of bytes. Machine integers keep
  their width (\<open>Prelude\<close>). A panic is \<open>None\<close> where the code can panic.

  \<^bold>\<open>Theories and the code they model.\<close>
  \<^item> \<open>Prelude\<close>: machine integers and casts, list operations of the standard library, the locale of
    invariants of transition systems (\<open>kept_by_steps\<close>).
  \<^item> \<open>App_Error\<close>, \<open>Common_Types\<close>: \<open>common/src/error.rs\<close> and \<open>types.rs\<close>. \<open>Decimal_Ops\<close>: decimals and the
    conversions of prices. \<open>Floats\<close>: the \<open>f64\<close> of the JSON requests.
  \<^item> \<open>Db_Markets\<close>, \<open>Db_Balances\<close>, \<open>Db_Orders\<close>, \<open>Db_Fills\<close>, \<open>Db_Users\<close>, \<open>Db_Withdrawals\<close>: the files of \<open>db/src\<close>,
    one definition per method, with the checks and keys of the migrations. \<open>Db_Ledger\<close>: the invariant
    \<open>db_ok\<close> (no negative money, holds match pending withdrawals, keys unique), kept by every interleaving.
  \<^item> \<open>Markets_Service\<close>, \<open>Settlement\<close>: \<open>markets/src/lib.rs\<close>, \<open>settlement/src/lib.rs\<close>.
  \<^item> \<open>Messaging\<close>, \<open>Fill_Processor\<close>, \<open>Fill_Queue\<close>: \<open>messaging/src/lib.rs\<close>, \<open>positions/src\<close>.
  \<^item> \<open>Breakers\<close>, \<open>Rate_Limiter\<close>, \<open>Auth_Jwt\<close>, \<open>Risk_Controls\<close>, \<open>Risk_Manager\<close>: the files of those names.
  \<^item> \<open>Polymarket_Client\<close>, \<open>Order_Service\<close>: \<open>polymarket/src/client.rs\<close>, \<open>orders/src\<close>.
  \<^item> \<open>Http_Auth\<close>, \<open>Handlers\<close>, \<open>Account_Flows\<close>: the router, the middlewares and the handlers of \<open>api-http/src\<close>,
    and properties of several requests.
  \<^item> \<open>Money\<close>: the total of the money held by users and holds, and which statements and calls change it.
    \<open>Service_Runs\<close>: what all the services together do to the tables, whichever handlers and background tasks
    run and however their requests fail (\<open>services\<close>). \<open>Account_Book\<close>: an abstract book of accounts, refined by the
    tables (locale \<open>step_simulation\<close>). \<open>Stored_Orders\<close>: the typing of the rows of orders.

  \<^item> \<open>Tasks\<close>: locks, bounded channels and results of calls that may block. A call there yields a value, or \<open>Panic\<close>,
    or \<open>Blocked\<close> when it waits for something that only it, or nobody, can provide. \<open>Float_Ops\<close>: \<open>f64\<close> arithmetic.
  \<^item> \<open>Execution\<close>, \<open>Pnl_Tracker\<close>, \<open>Position_Monitor\<close>: \<open>execution.rs\<close>, \<open>pnl.rs\<close>, \<open>position_monitor.rs\<close> of \<open>analytics/src\<close>.
  \<^item> \<open>Contract_Calls\<close>, \<open>Chain_Provider\<close>: \<open>contracts.rs\<close>, \<open>provider.rs\<close>, \<open>transactions.rs\<close>, \<open>types.rs\<close> of \<open>blockchain/src\<close>.
    The node is a parameter over a state of its own.
  \<^item> \<open>Eip712\<close>, \<open>Exchange_Socket\<close>: \<open>signer.rs\<close> and \<open>websocket.rs\<close> of \<open>polymarket/src\<close>.
    \<open>Exchange_Types\<close>: its \<open>types.rs\<close> with the derived JSON readers. \<open>Trading_Engine\<close>:
    \<open>api-http/src/trading_engine.rs\<close>, over the socket's events and the exchange client.
  \<^item> \<open>Audit_Log\<close>, \<open>Service_Config\<close>: \<open>audit/src/lib.rs\<close>; \<open>config.rs\<close>, \<open>cache/src/lib.rs\<close>, the labels of \<open>metrics.rs\<close>.
  \<^item> \<open>Signals\<close>, \<open>Regime\<close>, \<open>Arbitrage\<close>, \<open>Ml_Predictor\<close>, \<open>Onnx_Predictor\<close>: the files of those names in \<open>analytics/src\<close>,
    over the float arithmetic of \<open>Float_Ops\<close> and its facts (ranges, NaN, signs) in \<open>Float_Facts\<close>.
  \<^item> \<open>Nats_Client\<close>, \<open>Depth_Socket\<close>, \<open>Utf8\<close>: the connection of \<open>messaging/src/lib.rs\<close>, the socket handlers
    \<open>handlers/ws.rs\<close> and \<open>handlers/depth_feed.rs\<close>, and the UTF-8 check of the standard library they use.
    \<open>Analytics_Handlers\<close>: \<open>handlers/analytics.rs\<close>. \<open>Startup\<close>: \<open>main.rs\<close>, what is started and when the process serves.
    \<open>Web_App\<close>: requests from the router to the reply (\<open>serve\<close>), and the whole deployment, requests beside the fill
    processor, the clean-up job and the sweeps of the limiters (\<open>deployed\<close>). How the router is served is an argument of
    both: \<open>plain_service\<close>, as in \<open>main.rs\<close>, gives a request no address of its client, and the rate limiters then
    reject it. So no route of a user or of registration is ever served there (\<open>plain_deployment_serves_nobody\<close>); the theorems
    on handlers and services speak of their calls, however these are reached.

  \<^bold>\<open>The matching engine.\<close> The order book of \<open>engine/src/order_book.cpp\<close> is modelled slot by slot in \<open>Engine_Book\<close>:
  arrays of order and level slots threaded by doubly linked lists (\<open>Linked_Slots\<close>), free lists, a price map and
  the index of orders by hash. \<open>Book_Spec\<close> is the abstract book: per side the price levels from the best on, per
  level a queue of orders; \<open>take_side\<close> and \<open>rest_in\<close> are what a taker and a resting order do to it.
  \<open>Book_Inv\<close> has the invariant \<open>book_ok\<close> that ties the slots to lists of slots, and \<open>holds B A\<close>: the slot book \<open>B\<close>
  holds the abstract book \<open>A\<close>. \<open>Book_Steps\<close>, \<open>Book_Match\<close>, \<open>Book_Rest\<close> and \<open>Book_Ops\<close> carry it through taking an
  order out, matching, resting and cancelling. The loops over levels and orders are \<open>partial_function (option)\<close>
  and are proved to end on every book the invariant holds for, by induction on the lists; levels never run out because
  fewer prices exist than level slots. \<open>Book_Table\<close> is the hash table of the books of the markets, behind the locale \<open>book_map\<close>,
  \<open>Engine_Wal\<close> the write-ahead log (\<open>wal.cpp\<close>), \<open>Engine_Main\<close> the dispatch of messages, the texts that are published
  and the start (\<open>main.cpp\<close>), \<open>Engine_Claims\<close> the properties. They hold for every run of the engine from any log file
  (\<open>run_engine\<close>), for any clock readings and any content of uninitialised memory (\<open>engine_env\<close>). \<open>Engine_Fills\<close>
  follows the fills of a run to what the fill processor makes of them, quantities beyond \<open>i64\<close> included. \<open>Spsc_Queue\<close> is the lock-free
  ring buffer of \<open>include/spsc_queue.hpp\<close>: each load and store a step, loads of the other thread's index possibly stale.
  Its bound is one item less than the capacity, which \<open>tests/test_spsc_queue.cpp\<close> expects to be reached.

  \<^bold>\<open>Loops.\<close> Background tasks are functions of one turn, composed by step relations or by recursion over the list
  of what the turns meet (messages, clock ticks, answers), so no fuel is needed: \<open>executor_tick\<close> and \<open>algo_step\<close>,
  \<open>retry_round\<close> and \<open>retry_rounds\<close>, \<open>socket_loop\<close>, \<open>dlq_step\<close>, \<open>engine_step\<close>. Where a \<open>HashMap\<close> is iterated, the order
  of its keys is an argument.

  \<^bold>\<open>What is assumed of other code.\<close> Foreign crates are parameters: \<open>jwt_deps\<close> (HMAC, base64, JSON, UUID texts),
  \<open>decimal\<close> with \<open>decimal_laws\<close>, \<open>sqlx\<close> (how a row is decoded), \<open>client_deps\<close>, \<open>handler_env\<close>,
  \<open>password_env\<close>. Each law a property needs is a hypothesis of it, and its witness instantiates the parameter
  with a concrete function (\<open>rat_decimal\<close>, \<open>sample_deps\<close> and so on).

  \<^bold>\<open>Not modelled.\<close> Logging, the text format of the exported metrics, the derived JSON forms of records no modelled code
  reads, and the declarations of types no code uses. The \<open>AnalyticsEngine\<close> that the handlers and the trading engine
  ask is not in the repository: it is a parameter. Of the C++ code, \<open>snapshot.cpp\<close> (it reads the two sides of a book
  through members the class does not have and copies books that cannot be copied), the wrapper of the NATS library, and
  the headers of a second program (\<open>hft_main.cpp\<close>: network rings, SIMD parsers, a gateway and a strategy that
  the engine does not use). The engine handles one message at a time under its lock, so its threads are not modelled.
\<close>

end
